(* ===== verification/Prelude.thy ===== *)
theory Prelude
  imports Main "HOL-Library.Word"
begin

text \<open>
  The part of the development that every component uses: octets and octet strings, the
  outcome of a Go operation (a value, an error, or a run-time panic), Go's slicing and
  indexing with their bounds checks, big-endian integers, and the collections of facts the
  component proofs share.

  Conventions. A \<^verbatim>\<open>[]byte\<close> is a list of \<open>byte\<close>; whether a slice is nil is
  represented (by \<open>option\<close>) only where the source tests for it. A Go \<^verbatim>\<open>int\<close>
  that holds a length or an offset is a \<open>nat\<close>; a signed 64-bit value is an \<open>int\<close>
  whose range is stated where it matters, and conversions between widths are written out. An
  \<^verbatim>\<open>error\<close> is a constructor of the component's error datatype: the wrapping text
  of \<^verbatim>\<open>fmt.Errorf\<close> is not represented, the sentinel that \<^verbatim>\<open>errors.Is\<close>
  finds is.
\<close>

unbundle bit_operations_syntax

section \<open>Collections of facts\<close>

named_theorems codec_simps \<open>equations that evaluate encoders and decoders\<close>
named_theorems step_simps \<open>equations that evaluate the state changes of a component\<close>

section \<open>Octets and outcomes\<close>

type_synonym byte = "8 word"

text \<open>An operation of the source ends in a value, in an error it returns, or in a panic.\<close>

datatype 'e failure = Panic | Err 'e

type_synonym ('e, 'a) result = "'e failure + 'a"

definition rbind :: "('e, 'a) result \<Rightarrow> ('a \<Rightarrow> ('e, 'b) result) \<Rightarrow> ('e, 'b) result" where
  "rbind r f = (case r of Inl e \<Rightarrow> Inl e | Inr x \<Rightarrow> f x)"

lemma rbind_simps [simp]: "rbind (Inl e) f = Inl e" "rbind (Inr x) f = f x"
  by (simp_all add: rbind_def)

lemma rbind_eq_Inr: "rbind r f = Inr y \<longleftrightarrow> (\<exists>x. r = Inr x \<and> f x = Inr y)"
  by (cases r) auto

lemma rbind_eq_Inl: "rbind r f = Inl e \<longleftrightarrow> r = Inl e \<or> (\<exists>x. r = Inr x \<and> f x = Inl e)"
  by (cases r) auto

lemma rbind_cong [fundef_cong]:
  "r = r' \<Longrightarrow> (\<And>x. r' = Inr x \<Longrightarrow> f x = f' x) \<Longrightarrow> rbind r f = rbind r' f'"
  by (cases r') auto

text \<open>The same for an operation that also moves a cursor or changes a state.\<close>

definition dbind :: "('e, 'a) result \<times> 's \<Rightarrow> ('a \<Rightarrow> 's \<Rightarrow> ('e, 'b) result) \<Rightarrow> ('e, 'b) result" where
  "dbind p f = (case p of (Inl e, s) \<Rightarrow> Inl e | (Inr x, s) \<Rightarrow> f x s)"

lemma dbind_simps [simp]: "dbind (Inl e, s) f = Inl e" "dbind (Inr x, s) f = f x s"
  by (simp_all add: dbind_def)

lemma dbind_eq_Inl: "dbind p f = Inl e \<longleftrightarrow> fst p = Inl e \<or> (\<exists>x. fst p = Inr x \<and> f x (snd p) = Inl e)"
  by (cases p; cases "fst p") (auto simp: dbind_def)

lemma dbind_eq_Inr: "dbind p f = Inr y \<longleftrightarrow> (\<exists>x. fst p = Inr x \<and> f x (snd p) = Inr y)"
  by (cases p; cases "fst p") (auto simp: dbind_def)

section \<open>Slicing and indexing\<close>

text \<open>\<^verbatim>\<open>xs[i:j]\<close> and \<^verbatim>\<open>xs[i]\<close> panic out of range.\<close>

definition go_slice :: "'a list \<Rightarrow> nat \<Rightarrow> nat \<Rightarrow> ('e, 'a list) result" where
  "go_slice xs i j = (if i \<le> j \<and> j \<le> length xs then Inr (take (j - i) (drop i xs)) else Inl Panic)"

definition go_index :: "'a list \<Rightarrow> nat \<Rightarrow> ('e, 'a) result" where
  "go_index xs i = (if i < length xs then Inr (xs ! i) else Inl Panic)"

lemma go_slice_ok [simp]: "i \<le> j \<Longrightarrow> j \<le> length xs \<Longrightarrow> go_slice xs i j = Inr (take (j - i) (drop i xs))"
  by (simp add: go_slice_def)

lemma go_index_ok [simp]: "i < length xs \<Longrightarrow> go_index xs i = Inr (xs ! i)"
  by (simp add: go_index_def)

lemma go_index_Cons0 [simp]: "go_index (x # xs) 0 = Inr x"
  by (simp add: go_index_def)

lemma go_slice_full: "go_slice xs i (length xs) = (if i \<le> length xs then Inr (drop i xs) else Inl Panic)"
  by (simp add: go_slice_def)

section \<open>Bytes of integers\<close>

text \<open>\<^verbatim>\<open>byte(n)\<close> keeps the low eight bits.\<close>

lemma unat_eqI: "unat a = unat b \<Longrightarrow> a = b"
  by (rule unsigned_word_eqI)

definition byte_of :: "nat \<Rightarrow> byte" where
  "byte_of n = word_of_nat n"

lemma unat_byte_of: "unat (byte_of n) = n mod 256"
  by (simp add: byte_of_def unat_of_nat)

lemma unat_byte_of_small [simp]: "n < 256 \<Longrightarrow> unat (byte_of n) = n"
  by (simp add: unat_byte_of)

lemma byte_of_unat [simp]: "byte_of (unat b) = b"
  by (simp add: byte_of_def)

lemma unat_byte_lt [simp]: "unat (b :: byte) < 256"
  using unsigned_less [of b] by simp

lemma byte_of_mod [simp]: "byte_of (n mod 256) = byte_of n"
  by (rule unat_eqI) (simp add: unat_byte_of)

lemma byte_of_eq_iff: "byte_of m = byte_of n \<longleftrightarrow> m mod 256 = n mod 256"
proof
  assume "byte_of m = byte_of n"
  then have "unat (byte_of m) = unat (byte_of n)" by simp
  then show "m mod 256 = n mod 256" by (simp add: unat_byte_of)
next
  assume "m mod 256 = n mod 256"
  then show "byte_of m = byte_of n" by (metis byte_of_mod)
qed

text \<open>Shifting right divides.\<close>

lemma unat_drop_bit_div: "unat (drop_bit k w) = unat w div 2 ^ k"
  by (metis drop_bit_eq_div unat_drop_bit_eq)

lemma drop_bit_less:
  assumes "drop_bit k w \<noteq> 0" and "0 < k"
  shows "unat (drop_bit k w) < unat w"
proof -
  have "unat (drop_bit k w) \<noteq> 0" using assms(1) by (simp add: unat_eq_zero)
  then have "0 < unat w" by (auto simp: unat_drop_bit_div intro: gr0I)
  moreover have "(1 :: nat) < 2 ^ k" using assms(2) by (rule one_less_power [OF one_less_numeral_iff [THEN iffD2], rotated]) simp
  ultimately show ?thesis by (simp add: unat_drop_bit_div)
qed

text \<open>
  Big-endian integers: \<^verbatim>\<open>binary.BigEndian\<close> and the hand-written
  \<^verbatim>\<open>byte(n>>8), byte(n)\<close> sequences. \<open>be_bytes k n\<close> is the low \<open>k\<close> octets
  of \<open>n\<close>, \<open>be_nat\<close> reads octets as an unsigned integer.
\<close>

primrec be_bytes :: "nat \<Rightarrow> nat \<Rightarrow> byte list" where
  "be_bytes 0 n = []"
| "be_bytes (Suc k) n = be_bytes k (n div 256) @ [byte_of n]"

definition be_nat :: "byte list \<Rightarrow> nat" where
  "be_nat bs = foldl (\<lambda>a b. a * 256 + unat b) 0 bs"

lemma length_be_bytes [simp]: "length (be_bytes k n) = k"
  by (induction k arbitrary: n) auto

lemma be_nat_Nil [simp]: "be_nat [] = 0"
  by (simp add: be_nat_def)

lemma be_nat_snoc [simp]: "be_nat (bs @ [b]) = be_nat bs * 256 + unat b"
  by (simp add: be_nat_def)

lemma be_nat_be_bytes: "be_nat (be_bytes k n) = n mod 256 ^ k"
proof (induction k arbitrary: n)
  case 0
  then show ?case by simp
next
  case (Suc k)
  have "n mod 256 ^ Suc k = n mod (256 * 256 ^ k)" by simp
  also have "\<dots> = 256 * (n div 256 mod 256 ^ k) + n mod 256"
    by (rule mod_mult2_eq)
  finally show ?case by (simp add: Suc unat_byte_of)
qed

lemma be_nat_be_bytes_small: "n < 256 ^ k \<Longrightarrow> be_nat (be_bytes k n) = n"
  by (simp add: be_nat_be_bytes)

lemma be_nat_bound: "be_nat bs < 256 ^ length bs"
proof (induction bs rule: rev_induct)
  case Nil
  then show ?case by simp
next
  case (snoc b bs)
  have "unat b < 256" by simp
  with snoc have "be_nat bs * 256 + unat b < 256 ^ length bs * 256"
    by linarith
  then show ?case by (simp add: mult.commute)
qed

lemma be_bytes_be_nat: "be_bytes (length bs) (be_nat bs) = bs"
proof (induction bs rule: rev_induct)
  case Nil
  then show ?case by simp
next
  case (snoc b bs)
  have "(be_nat bs * 256 + unat b) div 256 = be_nat bs" by simp
  moreover have "byte_of (be_nat bs * 256 + unat b) = b"
    by (metis byte_of_mod byte_of_unat mod_mult_self3 mod_less unat_byte_lt)
  ultimately show ?case using snoc by simp
qed

abbreviation be16 :: "nat \<Rightarrow> byte list" where "be16 \<equiv> be_bytes 2"
abbreviation be32 :: "nat \<Rightarrow> byte list" where "be32 \<equiv> be_bytes 4"

lemma be16_eq: "be16 n = [byte_of (n div 256), byte_of n]"
  by (simp add: numeral_2_eq_2)

lemma be32_eq:
  "be32 n = [byte_of (n div 16777216), byte_of (n div 65536), byte_of (n div 256), byte_of n]"
proof -
  have four: "(4::nat) = Suc (Suc (Suc (Suc 0)))" by simp
  show ?thesis unfolding four by (simp add: div_mult2_eq [symmetric])
qed

lemma be_nat2: "be_nat [a, b] = unat a * 256 + unat b"
  by (simp add: be_nat_def)

lemma int_le_div_iff: "0 < m \<Longrightarrow> p \<le> v div m \<longleftrightarrow> p * m \<le> (v :: int)"
proof
  assume "0 < m" "p \<le> v div m"
  then have "p * m \<le> v div m * m" by simp
  also have "\<dots> \<le> v" using \<open>0 < m\<close> by (metis add_increasing2 div_mult_mod_eq order_refl pos_mod_sign)
  finally show "p * m \<le> v" .
next
  assume "0 < m" "p * m \<le> v"
  then show "p \<le> v div m" using zdiv_mono1 [of "p * m" v m] by simp
qed

lemma int_div_less_iff: "0 < m \<Longrightarrow> v div m < p \<longleftrightarrow> v < p * (m :: int)"
  using int_le_div_iff [of m p v] by linarith

section \<open>Bits of words\<close>

lemma bit_exp_int: "bit (2 ^ m :: int) k \<longleftrightarrow> k = m"
  by (auto simp: bit_exp_iff)

lemma bit_mask_int: "bit (2 ^ m - 1 :: int) k \<longleftrightarrow> k < m"
  by (metis bit_mask_iff mask_eq_exp_minus_1 possible_bit_int)

lemma bit_int_numerals:
  "bit (0x80 :: int) k \<longleftrightarrow> k = 7" "bit (0x20 :: int) k \<longleftrightarrow> k = 5"
  "bit (0x7f :: int) k \<longleftrightarrow> k < 7" "bit (0x1f :: int) k \<longleftrightarrow> k < 5"
  using bit_exp_int [of 7 k] bit_exp_int [of 5 k] bit_mask_int [of 7 k] bit_mask_int [of 5 k]
  by simp_all

lemma bit_push_drop: "bit (push_bit m (drop_bit m (w :: 'a::len word))) k \<longleftrightarrow> m \<le> k \<and> bit w k"
  by (auto simp: bit_simps dest: bit_imp_le_length)

lemma bit_lt_exp: 
  assumes "unat (w :: 'a::len word) < 2 ^ k" "bit w i" shows "i < k"
proof (rule ccontr)
  assume "\<not> i < k"
  have i: "i < LENGTH('a)" using assms(2) by (simp add: bit_imp_le_length)
  have "\<not> bit (unat w) i" using \<open>\<not> i < k\<close> assms(1)
    by (metis bit_take_bit_iff take_bit_nat_eq_self_iff)
  then show False using assms(2) by (simp add: bit_unsigned_iff i)
qed

lemma and_exp_zero: "(w :: 'a::len word) AND 2 ^ k = 0 \<longleftrightarrow> \<not> bit w k"
  by (simp add: and_exp_eq_0_iff_not_bit)
lemma and_single:
  "(w :: 'a::len word) AND 0x80 = 0 \<longleftrightarrow> \<not> bit w 7" "w AND 0x20 = 0 \<longleftrightarrow> \<not> bit w 5"
  using and_exp_zero [of w 7] and_exp_zero [of w 5] by simp_all

lemmas word_bits = bit_or_iff bit_and_iff bit_push_drop bit_ucast_iff bit_int_numerals and_single

section \<open>Lists\<close>

lemma take_length_append [simp]: "take (length xs) (xs @ ys) = xs"
  by simp

lemma drop_length_append [simp]: "drop (length xs) (xs @ ys) = ys"
  by simp

lemma drop_eq_append:
  assumes "drop n xs = ys @ zs"
  shows "drop (n + length ys) xs = zs" and "take (length ys) (drop n xs) = ys"
  using assms by (metis add.commute append_eq_conv_conj drop_drop, simp)

lemma drop_eq_Cons:
  assumes "drop n xs = y # ys"
  shows "n < length xs" and "xs ! n = y" and "drop (Suc n) xs = ys"
  using assms
    apply (metis drop_all list.distinct(1) not_less)
   apply (metis assms hd_drop_conv_nth list.distinct(1) list.sel(1) drop_all not_less)
  apply (metis assms drop_Suc list.sel(3) tl_drop)
  done

text \<open>\<^verbatim>\<open>binary.BigEndian.AppendUint32\<close>.\<close>

definition u32_bytes :: "32 word \<Rightarrow> byte list" where
  "u32_bytes w = be_bytes 4 (unat w)"

lemma Uint32_u32: "word_of_nat (be_nat (u32_bytes w)) = w"
proof -
  have "be_nat (be_bytes 4 (unat w)) = unat w" using unsigned_less [of w] by (intro be_nat_be_bytes_small) simp
  then show ?thesis by (simp add: u32_bytes_def del: be_bytes.simps)
qed

lemma length_u32 [simp]: "length (u32_bytes w) = 4"
  by (simp add: u32_bytes_def del: be_bytes.simps)

end
