(* ===== verification/Ber.thy ===== *)
theory Ber
  imports Prelude
begin

text \<open>
  The BER runtime of package \<^verbatim>\<open>asn1\<close>: identifier and length octets
  (\<^verbatim>\<open>asn1/ber.go\<close>) and the bounds-checked cursor that reads them back
  (\<^verbatim>\<open>asn1/decoder.go\<close>). Everything the stack sends or receives passes through here.
  The lemmas show that what \<open>AppendTLV\<close> writes \<open>ReadTLV\<close> reads back wherever it
  stands in the input, and that on every input, however malformed, the cursor stays inside the
  buffer, makes progress and never panics.
\<close>

section \<open>Tags and errors\<close>

text \<open>\<^verbatim>\<open>Class\<close> is a \<^verbatim>\<open>uint8\<close> with four named values.\<close>

record Tag =
  Class :: byte
  Constructed :: bool
  Number :: "32 word"

definition ClassUniversal :: byte where "ClassUniversal = 0"
definition ClassApplication :: byte where "ClassApplication = 1"
definition ClassContextSpecific :: byte where "ClassContextSpecific = 2"
definition ClassPrivate :: byte where "ClassPrivate = 3"

lemmas class_defs =
  ClassUniversal_def ClassApplication_def ClassContextSpecific_def ClassPrivate_def

definition universal_tag :: "bool \<Rightarrow> 32 word \<Rightarrow> Tag" where
  "universal_tag c n = \<lparr>Class = ClassUniversal, Constructed = c, Number = n\<rparr>"

definition TagInteger :: Tag where "TagInteger = universal_tag False 2"
definition TagSequence :: Tag where "TagSequence = universal_tag True 16"

definition ContextPrimitive :: "32 word \<Rightarrow> Tag" where
  "ContextPrimitive n = \<lparr>Class = ClassContextSpecific, Constructed = False, Number = n\<rparr>"

definition ContextConstructed :: "32 word \<Rightarrow> Tag" where
  "ContextConstructed n = \<lparr>Class = ClassContextSpecific, Constructed = True, Number = n\<rparr>"

definition ApplicationConstructed :: "32 word \<Rightarrow> Tag" where
  "ApplicationConstructed n = \<lparr>Class = ClassApplication, Constructed = True, Number = n\<rparr>"

lemmas tag_defs =
  universal_tag_def TagInteger_def TagSequence_def ContextPrimitive_def ContextConstructed_def
  ApplicationConstructed_def

datatype ber_error =
    ErrTruncated | ErrBadTag | ErrBadLength | ErrTooDeep | ErrUnexpected | ErrBadValue
  | ErrLenOverflow

definition MaxDepth :: nat where "MaxDepth = 64"

section \<open>Encoding\<close>

text \<open>
  The loop that fills \<^verbatim>\<open>tmp\<close> from its end with base-128 digits; \<open>acc\<close> is
  \<^verbatim>\<open>tmp[i:]\<close>.
\<close>

function base128_loop :: "32 word \<Rightarrow> byte list \<Rightarrow> byte list" where
  "base128_loop n acc =
     (let acc' = ucast (n AND 0x7f) # acc; n' = drop_bit 7 n
      in if n' = 0 then acc' else base128_loop n' acc')"
  by pat_completeness auto
termination
  by (relation "measure (\<lambda>(n, acc). unat n)") (auto intro: drop_bit_less)

declare base128_loop.simps [simp del]

definition base128 :: "32 word \<Rightarrow> byte list" where
  "base128 n = (let ds = base128_loop n [] in map (\<lambda>b. b OR 0x80) (butlast ds) @ [last ds])"

definition AppendTag :: "byte list \<Rightarrow> Tag \<Rightarrow> byte list" where
  "AppendTag dst t =
     (let b0 = push_bit 6 (Class t); b = (if Constructed t then b0 OR 0x20 else b0)
      in if Number t < 31 then dst @ [b OR ucast (Number t)]
         else dst @ [b OR 0x1f] @ base128 (Number t))"

definition AppendLength :: "byte list \<Rightarrow> nat \<Rightarrow> byte list" where
  "AppendLength dst n =
     (if n < 0x80 then dst @ [byte_of n]
      else if n \<le> 0xff then dst @ [0x81, byte_of n]
      else if n \<le> 0xffff then dst @ [0x82, byte_of (n div 2 ^ 8), byte_of n]
      else if n \<le> 0xffffff then dst @ [0x83, byte_of (n div 2 ^ 16), byte_of (n div 2 ^ 8), byte_of n]
      else dst @ [0x84, byte_of (n div 2 ^ 24), byte_of (n div 2 ^ 16), byte_of (n div 2 ^ 8), byte_of n])"

definition TagSize :: "Tag \<Rightarrow> nat" where
  "TagSize t =
     (if Number t < 31 then 1 else if Number t < 2 ^ 7 then 2 else if Number t < 2 ^ 14 then 3
      else if Number t < 2 ^ 21 then 4 else 5)"

definition LengthSize :: "nat \<Rightarrow> nat" where
  "LengthSize n =
     (if n < 0x80 then 1 else if n \<le> 0xff then 2 else if n \<le> 0xffff then 3
      else if n \<le> 0xffffff then 4 else 5)"

definition TLVSize :: "Tag \<Rightarrow> nat \<Rightarrow> nat" where
  "TLVSize t n = TagSize t + LengthSize n + n"

definition AppendTLV :: "byte list \<Rightarrow> Tag \<Rightarrow> byte list \<Rightarrow> byte list" where
  "AppendTLV dst t content = AppendLength (AppendTag dst t) (length content) @ content"

section \<open>Decoding\<close>

record Decoder =
  d_data :: "byte list"
  d_off :: nat

definition NewDecoder :: "byte list \<Rightarrow> Decoder" where
  "NewDecoder data = \<lparr>d_data = data, d_off = 0\<rparr>"

definition More :: "Decoder \<Rightarrow> bool" where
  "More d = (d_off d < length (d_data d))"

definition Rest :: "Decoder \<Rightarrow> (ber_error, byte list) result" where
  "Rest d = go_slice (d_data d) (d_off d) (length (d_data d))"

text \<open>The octets of a tag number in the high form; \<open>i\<close> counts them, \<open>n\<close> is the number so far.\<close>

function readTagNumber :: "nat \<Rightarrow> 32 word \<Rightarrow> Decoder \<Rightarrow> (ber_error, 32 word) result \<times> Decoder" where
  "readTagNumber i n d =
     (if d_off d \<ge> length (d_data d) then (Inl (Err ErrTruncated), d)
      else if i \<ge> 5 \<or> n > 0x1ffffff then (Inl (Err ErrBadTag), d)
      else case go_index (d_data d) (d_off d) of
        Inl e \<Rightarrow> (Inl e, d)
      | Inr c \<Rightarrow>
          let d' = d\<lparr>d_off := d_off d + 1\<rparr>; n' = push_bit 7 n OR ucast (c AND 0x7f)
          in if c AND 0x80 = 0 then (Inr n', d') else readTagNumber (i + 1) n' d')"
  by pat_completeness auto
termination
  by (relation "measure (\<lambda>(i, n, d). length (d_data d) - d_off d)") auto

declare readTagNumber.simps [simp del]

definition readTag :: "Decoder \<Rightarrow> (ber_error, Tag) result \<times> Decoder" where
  "readTag d =
     (if d_off d \<ge> length (d_data d) then (Inl (Err ErrTruncated), d)
      else case go_index (d_data d) (d_off d) of
        Inl e \<Rightarrow> (Inl e, d)
      | Inr b \<Rightarrow>
          let d1 = d\<lparr>d_off := d_off d + 1\<rparr>;
              t = \<lparr>Class = drop_bit 6 b, Constructed = (b AND 0x20 \<noteq> 0), Number = ucast (b AND 0x1f)\<rparr>
          in if Number t \<noteq> 0x1f then (Inr t, d1)
             else case readTagNumber 0 0 d1 of
               (Inl e, d2) \<Rightarrow> (Inl e, d2)
             | (Inr n, d2) \<Rightarrow> (Inr (t\<lparr>Number := n\<rparr>), d2))"

fun readLengthOctets :: "nat \<Rightarrow> nat \<Rightarrow> Decoder \<Rightarrow> (ber_error, nat) result \<times> Decoder" where
  "readLengthOctets 0 n d = (Inr n, d)"
| "readLengthOctets (Suc k) n d =
     (case go_index (d_data d) (d_off d) of
        Inl e \<Rightarrow> (Inl e, d)
      | Inr b \<Rightarrow> readLengthOctets k (n * 2 ^ 8 + unat b) (d\<lparr>d_off := d_off d + 1\<rparr>))"

text \<open>The result is the length and whether the form is indefinite. A 64-bit \<^verbatim>\<open>int\<close>
  is negative when its unsigned reading reaches \<open>2 ^ 63\<close>.\<close>

definition readLength :: "Decoder \<Rightarrow> (ber_error, nat \<times> bool) result \<times> Decoder" where
  "readLength d =
     (if d_off d \<ge> length (d_data d) then (Inl (Err ErrTruncated), d)
      else case go_index (d_data d) (d_off d) of
        Inl e \<Rightarrow> (Inl e, d)
      | Inr b \<Rightarrow>
          let d1 = d\<lparr>d_off := d_off d + 1\<rparr>; numOctets = unat (b AND 0x7f)
          in if b < 0x80 then (Inr (unat b, False), d1)
             else if b = 0x80 then (Inr (0, True), d1)
             else if numOctets > 4 then (Inl (Err ErrLenOverflow), d1)
             else if d_off d1 + numOctets > length (d_data d1) then (Inl (Err ErrTruncated), d1)
             else case readLengthOctets numOctets 0 d1 of
               (Inl e, d2) \<Rightarrow> (Inl e, d2)
             | (Inr n, d2) \<Rightarrow>
                 if n \<ge> 2 ^ 63 then (Inl (Err ErrLenOverflow), d2) else (Inr (n, False), d2))"

text \<open>
  \<open>readTLV\<close> reads one element; an indefinite-length one is scanned child by child
  (\<open>scanContents\<close> is that loop, \<open>start\<close> the offset of its first child) up to its
  end-of-contents octets. The loop ends because every child consumes input, which is shown of
  the function itself before it is shown to end.
\<close>

definition atEOC :: "Decoder \<Rightarrow> (ber_error, bool) result" where
  "atEOC d =
     (if d_off d + 2 \<le> length (d_data d)
      then rbind (go_index (d_data d) (d_off d)) (\<lambda>a.
           if a = 0 then rbind (go_index (d_data d) (d_off d + 1)) (\<lambda>b. Inr (b = 0)) else Inr False)
      else Inr False)"

function readTLV :: "nat \<Rightarrow> Decoder \<Rightarrow> (ber_error, Tag \<times> byte list) result \<times> Decoder"
  and scanContents :: "nat \<Rightarrow> Tag \<Rightarrow> nat \<Rightarrow> Decoder \<Rightarrow> (ber_error, Tag \<times> byte list) result \<times> Decoder"
where
  "readTLV depth d =
     (if depth > MaxDepth then (Inl (Err ErrTooDeep), d)
      else case readTag d of
        (Inl e, d1) \<Rightarrow> (Inl e, d1)
      | (Inr t, d1) \<Rightarrow>
          (case readLength d1 of
             (Inl e, d2) \<Rightarrow> (Inl e, d2)
           | (Inr (n, indefinite), d2) \<Rightarrow>
               if \<not> indefinite then
                 (if int n > int (length (d_data d2)) - int (d_off d2) then (Inl (Err ErrTruncated), d2)
                  else case go_slice (d_data d2) (d_off d2) (d_off d2 + n) of
                    Inl e \<Rightarrow> (Inl e, d2)
                  | Inr content \<Rightarrow> (Inr (t, content), d2\<lparr>d_off := d_off d2 + n\<rparr>))
               else if \<not> Constructed t then (Inl (Err ErrBadLength), d2)
               else scanContents depth t (d_off d2) d2))"
| "scanContents depth t start d =
     (case atEOC d of
        Inl e \<Rightarrow> (Inl e, d)
      | Inr True \<Rightarrow>
          (case go_slice (d_data d) start (d_off d) of
             Inl e \<Rightarrow> (Inl e, d)
           | Inr content \<Rightarrow> (Inr (t, content), d\<lparr>d_off := d_off d + 2\<rparr>))
      | Inr False \<Rightarrow>
          (case readTLV (depth + 1) d of
             (Inl e, d') \<Rightarrow> (Inl e, d')
           | (Inr x, d') \<Rightarrow> scanContents depth t start d'))"
  by pat_completeness auto

section \<open>The cursor stays in bounds\<close>

text \<open>
  Between calls the offset is at most the buffer's length. \<open>advanced d d'\<close> says that
  \<open>d'\<close> is \<open>d\<close> moved forward inside the same buffer.
\<close>

definition dec_ok :: "Decoder \<Rightarrow> bool" where
  "dec_ok d = (d_off d \<le> length (d_data d))"

definition advanced :: "Decoder \<Rightarrow> Decoder \<Rightarrow> bool" where
  "advanced d d' = (d_data d' = d_data d \<and> d_off d \<le> d_off d' \<and> (dec_ok d \<longrightarrow> dec_ok d'))"

lemma advanced_refl [simp]: "advanced d d"
  by (simp add: advanced_def)

lemma advanced_trans: "advanced d d' \<Longrightarrow> advanced d' d'' \<Longrightarrow> advanced d d''"
  by (auto simp: advanced_def)

lemma advanced_step: "d_off d < length (d_data d) \<Longrightarrow> advanced d (d\<lparr>d_off := Suc (d_off d)\<rparr>)"
  by (simp add: advanced_def dec_ok_def)

lemma advanced_dataD: "advanced d d' \<Longrightarrow> d_data d' = d_data d"
  by (simp add: advanced_def)

lemma readTagNumber_advanced:
  "readTagNumber i n d = (r, d') \<Longrightarrow> advanced d d' \<and> r \<noteq> Inl Panic"
proof (induction i n d arbitrary: r d' rule: readTagNumber.induct)
  case (1 i n d)
  show ?case
  proof (cases "d_off d \<ge> length (d_data d) \<or> (i \<ge> 5 \<or> n > 0x1ffffff)")
    case True
    with "1.prems" show ?thesis
      by (subst (asm) readTagNumber.simps) (auto split: if_splits)
  next
    case False
    define c where "c = d_data d ! d_off d"
    define d1 where "d1 = d\<lparr>d_off := Suc (d_off d)\<rparr>"
    define n1 where "n1 = push_bit 7 n OR ucast (c AND 0x7f)"
    have lt: "d_off d < length (d_data d)" using False by simp
    have adv: "advanced d d1" using lt by (simp add: d1_def advanced_step)
    have eq: "readTagNumber i n d
        = (if c AND 0x80 = 0 then (Inr n1, d1) else readTagNumber (i + 1) n1 d1)"
      using False by (subst readTagNumber.simps) (simp add: c_def d1_def n1_def Let_def)
    show ?thesis
    proof (cases "c AND 0x80 = 0")
      case True
      with eq "1.prems" adv show ?thesis by auto
    next
      case nz: False
      have "advanced d1 d' \<and> r \<noteq> Inl Panic"
        using False nz lt eq "1.prems"
        by (intro "1.IH" [of c d1 n1]) (auto simp: c_def d1_def n1_def)
      with adv show ?thesis by (blast intro: advanced_trans)
    qed
  qed
qed

lemma readTag_advanced:
  assumes "readTag d = (r, d')"
  shows "advanced d d'" and "r \<noteq> Inl Panic" and "r = Inr t \<Longrightarrow> d_off d < d_off d'"
proof -
  have *: "advanced d d' \<and> r \<noteq> Inl Panic \<and> (\<forall>t. r = Inr t \<longrightarrow> d_off d < d_off d')"
  proof (cases "d_off d \<ge> length (d_data d)")
    case True
    with assms show ?thesis by (auto simp: readTag_def)
  next
    case False
    define d1 where "d1 = d\<lparr>d_off := Suc (d_off d)\<rparr>"
    have adv: "advanced d d1" using False by (simp add: d1_def advanced_step)
    have lt: "d_off d < d_off d1" by (simp add: d1_def)
    obtain r2 d2 where num: "readTagNumber 0 0 d1 = (r2, d2)" by fastforce
    from readTagNumber_advanced [OF num] have adv2: "advanced d1 d2" and "r2 \<noteq> Inl Panic" by auto
    with adv have "advanced d d2" by (blast intro: advanced_trans)
    moreover have "d_off d < d_off d2" using lt adv2 by (simp add: advanced_def)
    ultimately show ?thesis
      using assms False adv lt num \<open>r2 \<noteq> Inl Panic\<close>
      by (auto simp: readTag_def Let_def d1_def [symmetric] split: if_splits sum.splits)
  qed
  show "advanced d d'" "r \<noteq> Inl Panic" using * by auto
  show "d_off d < d_off d'" if "r = Inr t" using * that by auto
qed

lemma readLengthOctets_ok:
  "d_off d + k \<le> length (d_data d) \<Longrightarrow>
     readLengthOctets k n d =
       (Inr (foldl (\<lambda>a b. a * 256 + unat b) n (take k (drop (d_off d) (d_data d)))),
        d\<lparr>d_off := d_off d + k\<rparr>)"
proof (induction k arbitrary: n d)
  case 0
  then show ?case by simp
next
  case (Suc k)
  then have "drop (d_off d) (d_data d) = d_data d ! d_off d # drop (Suc (d_off d)) (d_data d)"
    by (simp add: Cons_nth_drop_Suc)
  with Suc show ?case by simp
qed

lemma readLength_advanced:
  assumes "readLength d = (r, d')"
  shows "advanced d d'" and "r \<noteq> Inl Panic" and "r = Inr x \<Longrightarrow> d_off d < d_off d'"
proof -
  have *: "advanced d d' \<and> r \<noteq> Inl Panic \<and> (\<forall>x. r = Inr x \<longrightarrow> d_off d < d_off d')"
  proof (cases "d_off d \<ge> length (d_data d)")
    case True
    with assms show ?thesis by (auto simp: readLength_def)
  next
    case False
    then show ?thesis using assms
      by (auto simp: readLength_def Let_def readLengthOctets_ok advanced_def dec_ok_def
          split: if_splits)
  qed
  show "advanced d d'" "r \<noteq> Inl Panic" using * by auto
  show "d_off d < d_off d'" if "r = Inr x" using * that by auto
qed

lemma atEOC_no_panic: "atEOC d \<noteq> Inl e"
  by (auto simp: atEOC_def split: if_splits)

lemma atEOC_True:
  "atEOC d = Inr True \<longleftrightarrow>
     d_off d + 2 \<le> length (d_data d) \<and> d_data d ! d_off d = 0 \<and> d_data d ! (d_off d + 1) = 0"
  by (auto simp: atEOC_def split: if_splits)

text \<open>
  What every call of the reader guarantees: it moves forward inside the buffer, does not panic,
  and a successful read consumes at least one octet.
\<close>

definition read_spec :: "Decoder \<Rightarrow> (ber_error, 'a) result \<times> Decoder \<Rightarrow> bool" where
  "read_spec d res =
     (case res of (r, d') \<Rightarrow> advanced d d' \<and> r \<noteq> Inl Panic \<and> (\<forall>x. r = Inr x \<longrightarrow> d_off d < d_off d'))"

lemma read_specI:
  "advanced d d' \<Longrightarrow> r \<noteq> Inl Panic \<Longrightarrow> (\<And>x. r = Inr x \<Longrightarrow> d_off d < d_off d') \<Longrightarrow> read_spec d (r, d')"
  by (auto simp: read_spec_def)

lemma read_spec_err [simp]: "read_spec d (Inl e, d') \<longleftrightarrow> advanced d d' \<and> e \<noteq> Panic"
  by (simp add: read_spec_def)

lemma read_spec_ok [simp]: "read_spec d (Inr x, d') \<longleftrightarrow> advanced d d' \<and> d_off d < d_off d'"
  by (simp add: read_spec_def)

lemma read_spec_mono: "read_spec d' res \<Longrightarrow> advanced d d' \<Longrightarrow> read_spec d res"
  unfolding read_spec_def advanced_def by (cases res) (simp, fastforce)

lemma read_spec_readTag: "read_spec d (readTag d)"
  by (cases "readTag d") (auto intro!: read_specI dest: readTag_advanced)

lemma read_spec_readLength: "read_spec d (readLength d)"
  by (cases "readLength d") (auto intro!: read_specI dest: readLength_advanced)

lemma readTLV_spec_partial:
  "readTLV_scanContents_dom (Inl (depth, d)) \<Longrightarrow> dec_ok d \<Longrightarrow> read_spec d (readTLV depth d)"
  "readTLV_scanContents_dom (Inr (depth, t, start, d)) \<Longrightarrow> dec_ok d \<Longrightarrow> start \<le> d_off d \<Longrightarrow>
     read_spec d (scanContents depth t start d)"
proof (induction depth d and depth t start d rule: readTLV_scanContents.pinduct)
  case (1 depth d)
  show ?case
  proof (cases "depth > MaxDepth")
    case True
    with "1.hyps" show ?thesis by (simp add: readTLV.psimps)
  next
    case False
    obtain r1 d1 where tag: "readTag d = (r1, d1)" by fastforce
    have s1: "read_spec d (r1, d1)" using read_spec_readTag [of d] tag by simp
    obtain r2 d2 where len: "readLength d1 = (r2, d2)" by fastforce
    have s2: "read_spec d1 (r2, d2)" using read_spec_readLength [of d1] len by simp
    have a12: "advanced d d1" "advanced d1 d2" using s1 s2 by (auto simp: read_spec_def)
    then have a2: "advanced d d2" by (blast intro: advanced_trans)
    have ok2: "dec_ok d2" using a2 "1.prems" by (simp add: advanced_def)
    have scan: "read_spec d2 (scanContents depth t (d_off d2) d2)"
      if "r1 = Inr t" "r2 = Inr (n, True)" "Constructed t" for t n
      using "1.IH" [of r1 d1 t r2 d2 "(n, True)" n True] False tag len that ok2 by simp
    show ?thesis
      using "1.hyps" False tag len s1 s2 a2 ok2 scan
      by (auto simp: readTLV.psimps dec_ok_def split: sum.splits
          intro: read_spec_mono [OF _ a2] simp: advanced_def go_slice_def)
  qed
next
  case (2 depth t start d)
  obtain r1 d1 where rd: "readTLV (depth + 1) d = (r1, d1)" by fastforce
  obtain b where b: "atEOC d = Inr b" using atEOC_no_panic by (metis sum.exhaust_sel)
  show ?case
  proof (cases b)
    case True
    then have eoc: "atEOC d = Inr True" using b by simp
    then have "d_off d + 2 \<le> length (d_data d)" by (simp add: atEOC_True)
    with eoc "2.hyps" "2.prems" show ?thesis
      by (simp add: scanContents.psimps advanced_def dec_ok_def)
  next
    case False
    then have nb: "atEOC d = Inr False" using b by simp
    have s1: "read_spec d (r1, d1)"
      using "2.IH"(1) [OF nb] "2.prems"(1) rd by simp
    show ?thesis
    proof (cases r1)
      case (Inl e)
      with "2.hyps" nb rd s1 show ?thesis by (simp add: scanContents.psimps)
    next
      case (Inr x)
      have "read_spec d1 (scanContents depth t start d1)"
        using "2.IH"(2) [of False r1 d1 x] nb rd Inr s1 "2.prems"
        by (auto simp: advanced_def)
      then have "read_spec d (scanContents depth t start d1)"
        using s1 by (auto simp: Inr intro: read_spec_mono)
      with "2.hyps" nb rd Inr show ?thesis by (simp add: scanContents.psimps)
    qed
  qed
qed

lemma readTLV_needs_input:
  assumes "readTLV_scanContents_dom (Inl (depth, d))" and "readTLV depth d = (Inr x, d')"
  shows "d_off d < length (d_data d)"
  using assms by (auto simp: readTLV.psimps readTag_def split: if_splits)

lemma readTLV_progress:
  assumes "readTLV_scanContents_dom (Inl (depth, d))" and "readTLV depth d = (Inr x, d')"
  shows "d_data d' = d_data d" and "d_off d < length (d_data d)" and "d_off d < d_off d'"
proof -
  show lt: "d_off d < length (d_data d)" using assms by (rule readTLV_needs_input)
  then have "read_spec d (readTLV depth d)"
    using assms(1) by (simp add: readTLV_spec_partial(1) dec_ok_def)
  then show "d_data d' = d_data d" and "d_off d < d_off d'"
    using assms(2) by (simp_all add: advanced_def)
qed

lemma readTLV_total: "All readTLV_scanContents_dom"
proof (relation "measures
    [case_sum (\<lambda>(k, d). 2 * (MaxDepth + 1 - k)) (\<lambda>(k, t, s, d). max 1 (2 * (MaxDepth + 1 - k) - 1)),
     case_sum (\<lambda>_. 0) (\<lambda>(k, t, s, d). length (d_data d) - d_off d)]", goal_cases)
  case 1
  show ?case by simp
next
  case 2
  then show ?case by auto
next
  case 3
  then show ?case by (auto simp: max_def)
next
  case (4 depth t start d b x d' y)
  then have "readTLV (depth + 1) d = (Inr y, d')" and "readTLV_scanContents_dom (Inl (depth + 1, d))"
    by auto
  from readTLV_progress [OF this(2,1)] show ?case by auto
qed

termination readTLV
  by (rule readTLV_total)

declare readTLV.simps [simp del] scanContents.simps [simp del]

lemma readTLV_spec: "dec_ok d \<Longrightarrow> read_spec d (readTLV depth d)"
  using readTLV_total by (simp add: readTLV_spec_partial(1))

section \<open>The operations of the cursor\<close>

definition Peek :: "Decoder \<Rightarrow> (ber_error, Tag) result" where
  "Peek d = fst (readTag d)"

definition PeekIs :: "Decoder \<Rightarrow> Tag \<Rightarrow> bool" where
  "PeekIs d t = (Peek d = Inr t)"

definition ReadTLV :: "Decoder \<Rightarrow> (ber_error, Tag \<times> byte list) result \<times> Decoder" where
  "ReadTLV d = readTLV 0 d"

definition Expect :: "Tag \<Rightarrow> Decoder \<Rightarrow> (ber_error, byte list) result \<times> Decoder" where
  "Expect t d =
     (case ReadTLV d of
        (Inl e, d') \<Rightarrow> (Inl e, d')
      | (Inr (got, content), d') \<Rightarrow>
          if got \<noteq> t then (Inl (Err ErrUnexpected), d') else (Inr content, d'))"

text \<open>
  \<open>Optional\<close> returns content, presence and error. An absent element is \<open>Inr None\<close>
  and the cursor has not moved; a present one that cannot be read reports \<^verbatim>\<open>ok\<close> true
  with a nil content and an error, which the second component of an error records.
\<close>

datatype optional_result =
    Absent
  | Present "byte list"
  | PeekFailed "ber_error failure"
  | ReadFailed "ber_error failure"

definition Optional :: "Tag \<Rightarrow> Decoder \<Rightarrow> optional_result \<times> Decoder" where
  "Optional t d =
     (if \<not> More d then (Absent, d)
      else case Peek d of
        Inl e \<Rightarrow> (PeekFailed e, d)
      | Inr got \<Rightarrow>
          if got \<noteq> t then (Absent, d)
          else case ReadTLV d of
            (Inl e, d') \<Rightarrow> (ReadFailed e, d')
          | (Inr (_, content), d') \<Rightarrow> (Present content, d'))"

text \<open>The usual reading of the three results: an error ends the caller.\<close>

definition optional_or_error :: "optional_result \<Rightarrow> (ber_error, byte list option) result" where
  "optional_or_error r =
     (case r of Absent \<Rightarrow> Inr None | Present c \<Rightarrow> Inr (Some c) | PeekFailed e \<Rightarrow> Inl e | ReadFailed e \<Rightarrow> Inl e)"

text \<open>A caller that ignores the error (\<^verbatim>\<open>b, ok, _ :=\<close>) sees \<^verbatim>\<open>ok\<close>
  with nil content when the element was there and could not be read.\<close>

definition optional_ignoring :: "optional_result \<Rightarrow> byte list option" where
  "optional_ignoring r =
     (case r of Present c \<Rightarrow> Some c | ReadFailed e \<Rightarrow> Some [] | _ \<Rightarrow> None)"

definition Skip :: "Decoder \<Rightarrow> (ber_error, unit) result \<times> Decoder" where
  "Skip d = (case ReadTLV d of (Inl e, d') \<Rightarrow> (Inl e, d') | (Inr _, d') \<Rightarrow> (Inr (), d'))"

lemma dec_ok_NewDecoder [simp]: "dec_ok (NewDecoder bs)"
  by (simp add: dec_ok_def NewDecoder_def)

lemma NewDecoder_simps [simp]: "d_data (NewDecoder bs) = bs" "d_off (NewDecoder bs) = 0"
  by (simp_all add: NewDecoder_def)

lemma ReadTLV_spec: "dec_ok d \<Longrightarrow> read_spec d (ReadTLV d)"
  by (simp add: ReadTLV_def readTLV_spec)

lemma Expect_spec:
  assumes "dec_ok d" shows "read_spec d (Expect t d)"
  using ReadTLV_spec [OF assms] by (auto simp: Expect_def read_spec_def split: prod.splits sum.splits)

lemma Optional_advanced:
  assumes "dec_ok d" shows "advanced d (snd (Optional t d))"
  using ReadTLV_spec [OF assms]
  by (auto simp: Optional_def read_spec_def split: prod.splits sum.splits)

section \<open>Round trips\<close>

text \<open>
  Encoders are used through their octets (\<open>tag_octets\<close>, \<open>length_octets\<close>): appending to
  \<open>dst\<close> is appending to the empty slice.
\<close>

abbreviation tag_octets :: "Tag \<Rightarrow> byte list" where "tag_octets t \<equiv> AppendTag [] t"
abbreviation length_octets :: "nat \<Rightarrow> byte list" where "length_octets n \<equiv> AppendLength [] n"

lemma AppendTag_dst: "AppendTag dst t = dst @ tag_octets t"
  by (simp add: AppendTag_def Let_def)

lemma AppendLength_dst: "AppendLength dst n = dst @ length_octets n"
  by (simp add: AppendLength_def)

lemma AppendTLV_octets:
  "AppendTLV dst t content = dst @ tag_octets t @ length_octets (length content) @ content"
  by (simp add: AppendTLV_def AppendTag_dst [of dst] AppendLength_dst [of "dst @ _"])

text \<open>Moving the cursor over octets already recognised.\<close>

definition adv :: "Decoder \<Rightarrow> nat \<Rightarrow> Decoder" where
  "adv d n = d\<lparr>d_off := d_off d + n\<rparr>"

lemma adv_simps [simp]:
  "d_data (adv d n) = d_data d" "d_off (adv d n) = d_off d + n" "adv (adv d m) n = adv d (m + n)"
  "adv d 0 = d"
  by (simp_all add: adv_def)

definition unread :: "Decoder \<Rightarrow> byte list" where
  "unread d = drop (d_off d) (d_data d)"

lemma unread_NewDecoder [simp]: "unread (NewDecoder bs) = bs"
  by (simp add: unread_def)

lemma unread_adv: "unread d = xs @ ys \<Longrightarrow> unread (adv d (length xs)) = ys"
  by (simp add: unread_def drop_eq_append(1))

lemma unread_Cons:
  assumes "unread d = x # xs"
  shows "d_off d < length (d_data d)" and "d_data d ! d_off d = x" and "unread (adv d 1) = xs"
  using drop_eq_Cons [of "d_off d" "d_data d" x xs] assms by (simp_all add: unread_def)

lemma More_unread: "More d \<longleftrightarrow> unread d \<noteq> []"
  by (auto simp: More_def unread_def)

lemma dec_ok_unread: "dec_ok d \<Longrightarrow> length (unread d) = length (d_data d) - d_off d"
  by (simp add: unread_def)

lemma base128_digit:
  fixes n :: "32 word"
  shows "push_bit 7 (drop_bit 7 n) OR ucast ((ucast (n AND 0x7f) :: byte) AND 0x7f) = n"
    and "push_bit 7 (drop_bit 7 n) OR ucast (((ucast (n AND 0x7f) :: byte) OR 0x80) AND 0x7f) = n"
    and "(ucast (n AND 0x7f) :: byte) AND 0x80 = 0"
    and "((ucast (n AND 0x7f) :: byte) OR 0x80) AND 0x80 \<noteq> 0"
  by ((rule bit_word_eqI)?, auto simp: word_bits)+

lemma tag_octet:
  fixes c :: byte and n :: "32 word" and k :: bool
  defines "b \<equiv> (if k then push_bit 6 c OR 0x20 else push_bit 6 c)"
  assumes "c < 4" and "n < 32"
  shows "drop_bit 6 (b OR ucast n) = c" and "(b OR ucast n) AND 0x20 \<noteq> 0 \<longleftrightarrow> k"
    and "ucast ((b OR ucast n) AND 0x1f) = n"
proof -
  have c: "i < 2" if "bit c i" for i using bit_lt_exp [of c 2 i] assms(2) that by (simp add: word_less_nat_alt)
  have n: "i < 5" if "bit n i" for i using bit_lt_exp [of n 5 i] assms(3) that by (simp add: word_less_nat_alt)
  show "drop_bit 6 (b OR ucast n) = c"
    unfolding b_def by (rule bit_word_eqI) (auto simp: word_bits bit_drop_bit_eq bit_push_bit_iff dest: c n)
  show "(b OR ucast n) AND 0x20 \<noteq> 0 \<longleftrightarrow> k"
    unfolding b_def by (auto simp: word_bits bit_push_bit_iff dest: n)
  show "ucast ((b OR ucast n) AND 0x1f) = n"
    unfolding b_def by (rule bit_word_eqI) (auto simp: word_bits bit_push_bit_iff dest: n)
qed

lemma base128_loop_acc: "base128_loop n acc = base128_loop n [] @ acc"
proof (induction "unat n" arbitrary: n acc rule: less_induct)
  case less
  show ?case
  proof (cases "drop_bit 7 n = 0")
    case True
    then show ?thesis by (simp add: base128_loop.simps [of n] Let_def)
  next
    case False
    then have lt: "unat (drop_bit 7 n) < unat n" by (simp add: drop_bit_less)
    show ?thesis
      using less [OF lt, of "ucast (n AND 0x7f) # acc"] less [OF lt, of "[ucast (n AND 0x7f)]"] False
      by (simp add: base128_loop.simps [of n] Let_def)
  qed
qed

lemma base128_digits:
  "base128_loop n [] =
     (if drop_bit 7 n = 0 then [] else base128_loop (drop_bit 7 n) []) @ [ucast (n AND 0x7f)]"
  by (simp add: base128_loop.simps [of n] Let_def base128_loop_acc [of "drop_bit 7 n" "[_]"])

lemma length_base128_loop:
  "unat n < 2 ^ (7 * Suc k) \<Longrightarrow> length (base128_loop n []) \<le> Suc k"
proof (induction k arbitrary: n)
  case 0
  then have "unat (drop_bit 7 n) = 0" by (simp add: unat_drop_bit_div)
  then have "drop_bit 7 n = 0" by (simp add: unat_eq_zero)
  then show ?case by (simp add: base128_digits [of n])
next
  case (Suc k)
  have "unat (drop_bit 7 n) < 2 ^ (7 * Suc k)"
    using Suc.prems by (simp add: unat_drop_bit_div less_mult_imp_div_less power_add)
  from Suc.IH [OF this] show ?case by (simp add: base128_digits [of n])
qed

lemma base128_loop_nonempty [simp]: "base128_loop n [] \<noteq> []"
  by (simp add: base128_digits [of n])

lemma readTagNumber_continue:
  assumes "unread d = map (\<lambda>b. b OR 0x80) (base128_loop n []) @ r"
    and "length (base128_loop n []) \<le> 5"
  shows "readTagNumber 0 0 d = readTagNumber (length (base128_loop n [])) n (adv d (length (base128_loop n [])))"
  using assms
proof (induction "unat n" arbitrary: n r rule: less_induct)
  case less
  let ?c = "ucast (n AND 0x7f) :: byte"
  let ?m = "drop_bit 7 n"
  define hi where "hi = (if ?m = 0 then [] else base128_loop ?m [])"
  have ds: "base128_loop n [] = hi @ [?c]" by (simp add: base128_digits [of n] hi_def)
  have first: "readTagNumber 0 0 d = readTagNumber (length hi) ?m (adv d (length hi))"
  proof (cases "?m = 0")
    case True
    then show ?thesis by (simp add: hi_def)
  next
    case False
    then show ?thesis
      using less.hyps [of ?m "(?c OR 0x80) # r"] less.prems ds
      by (simp add: hi_def drop_bit_less)
  qed
  have un: "unread (adv d (length hi)) = (?c OR 0x80) # r"
    using less.prems(1) ds unread_adv [of d "map (\<lambda>b. b OR 0x80) hi" "(?c OR 0x80) # r"] by simp
  have small: "\<not> ?m > 0x1ffffff"
  proof -
    have "unat n < 2 ^ 32" using unsigned_less [of n] by simp
    then show ?thesis by (simp add: word_less_nat_alt unat_drop_bit_div)
  qed
  have "readTagNumber (length hi) ?m (adv d (length hi)) = readTagNumber (length hi + 1) n (adv d (length hi + 1))"
    using unread_Cons [OF un] small less.prems(2) ds base128_digit [of n]
    by (subst readTagNumber.simps) (simp add: Let_def adv_def)
  then show ?case using first ds by simp
qed

lemma readTagNumber_base128:
  assumes "unread d = base128 n @ r"
  shows "readTagNumber 0 0 d = (Inr n, adv d (length (base128 n)))"
proof -
  let ?c = "ucast (n AND 0x7f) :: byte"
  let ?m = "drop_bit 7 n"
  define hi where "hi = (if ?m = 0 then [] else base128_loop ?m [])"
  have ds: "base128_loop n [] = hi @ [?c]" by (simp add: base128_digits [of n] hi_def)
  have enc: "base128 n = map (\<lambda>b. b OR 0x80) hi @ [?c]" by (simp add: base128_def ds Let_def)
  have b32: "unat n < 2 ^ 32" using unsigned_less [of n] by simp
  have len: "length (base128_loop ?m []) \<le> 4"
    by (rule length_base128_loop [of _ 3, simplified]) (use b32 in \<open>simp add: unat_drop_bit_div\<close>)
  have first: "readTagNumber 0 0 d = readTagNumber (length hi) ?m (adv d (length hi))"
    using readTagNumber_continue [of d ?m "?c # r"] assms enc len
    by (auto simp: hi_def split: if_splits)
  have un: "unread (adv d (length hi)) = ?c # r"
    using assms enc unread_adv [of d "map (\<lambda>b. b OR 0x80) hi" "?c # r"] by simp
  have small: "\<not> ?m > 0x1ffffff" using b32 by (simp add: word_less_nat_alt unat_drop_bit_div)
  have hi4: "length hi \<le> 4" using len by (simp add: hi_def)
  have "readTagNumber (length hi) ?m (adv d (length hi)) = (Inr n, adv d (length hi + 1))"
    using unread_Cons [OF un] small hi4 base128_digit [of n]
    by (subst readTagNumber.simps) (simp add: Let_def adv_def)
  then show ?thesis using first enc by simp
qed

text \<open>A tag as the encoder expects it: its class is one of the four.\<close>

definition tag_ok :: "Tag \<Rightarrow> bool" where
  "tag_ok t = (Class t < 4)"

lemma tag_ok_defs [simp]:
  "tag_ok (universal_tag c n)" "tag_ok (ContextPrimitive n)" "tag_ok (ContextConstructed n)"
  "tag_ok (ApplicationConstructed n)" "tag_ok TagSequence" "tag_ok TagInteger"
  by (simp_all add: tag_ok_def tag_defs class_defs)

lemma readTag_AppendTag:
  assumes "unread d = tag_octets t @ r" and "tag_ok t"
  shows "readTag d = (Inr t, adv d (length (tag_octets t)))"
proof (cases "Number t < 31")
  case True
  define b where "b = (if Constructed t then push_bit 6 (Class t) OR 0x20 else push_bit 6 (Class t))"
  have oct: "tag_octets t = [b OR ucast (Number t)]" using True by (simp add: AppendTag_def b_def Let_def)
  have c4: "Class t < 4" using assms(2) by (simp add: tag_ok_def)
  have n32: "Number t < 32" using True by (simp add: word_less_nat_alt)
  have n31: "Number t \<noteq> 31" using True by auto
  have un: "unread d = (b OR ucast (Number t)) # r" using assms(1) oct by simp
  show ?thesis
    using unread_Cons [OF un] n31 oct tag_octet [OF c4 n32, of "Constructed t"]
    by (simp add: readTag_def Let_def b_def [symmetric] adv_def)
next
  case False
  define b where "b = (if Constructed t then push_bit 6 (Class t) OR 0x20 else push_bit 6 (Class t))"
  have oct: "tag_octets t = (b OR 0x1f) # base128 (Number t)"
    using False by (simp add: AppendTag_def b_def Let_def)
  have c4: "Class t < 4" using assms(2) by (simp add: tag_ok_def)
  have un: "unread d = (b OR 0x1f) # base128 (Number t) @ r" using assms(1) oct by simp
  have "(31 :: 32 word) < 32" by simp
  note o = tag_octet [OF c4 this, of "Constructed t", folded b_def]
  have num: "readTagNumber 0 0 (adv d 1) = (Inr (Number t), adv d (1 + length (base128 (Number t))))"
    using readTagNumber_base128 [OF unread_Cons(3) [OF un]] by simp
  show ?thesis
    using unread_Cons(1,2) [OF un] oct o num
    by (simp add: readTag_def Let_def adv_def)
qed

lemma length_octets_long:
  assumes "0x80 \<le> n" and "n < 2 ^ 32"
  obtains k where "k \<in> {1, 2, 3, 4}" and "n < 256 ^ k"
    and "length_octets n = byte_of (0x80 + k) # be_bytes k n"
proof -
  have b1: "be_bytes 1 n = [byte_of n]" by simp
  have b3: "be_bytes 3 n = [byte_of (n div 65536), byte_of (n div 256), byte_of n]"
    by (simp add: numeral_3_eq_3 div_mult2_eq [symmetric])
  consider "n \<le> 0xff" | "0xff < n" "n \<le> 0xffff" | "0xffff < n" "n \<le> 0xffffff" | "0xffffff < n"
    by linarith
  then show thesis
  proof cases
    case 1
    with assms show thesis by (intro that [of 1]) (simp_all add: AppendLength_def byte_of_def)
  next
    case 2
    with assms show thesis
      by (intro that [of 2]) (simp_all add: AppendLength_def byte_of_def be16_eq)
  next
    case 3
    with assms show thesis
      by (intro that [of 3]) (simp_all add: AppendLength_def b3, simp add: byte_of_def)
  next
    case 4
    with assms show thesis
      by (intro that [of 4]) (simp_all add: AppendLength_def be32_eq, simp add: byte_of_def)
  qed
qed

lemma readLength_AppendLength:
  assumes "unread d = length_octets n @ r" and "n < 2 ^ 32"
  shows "readLength d = (Inr (n, False), adv d (length (length_octets n)))"
proof (cases "n < 0x80")
  case True
  then have oct: "length_octets n = [byte_of n]" by (simp add: AppendLength_def)
  have un: "unread d = byte_of n # r" using assms(1) oct by simp
  have "byte_of n < 0x80" using True by (simp add: word_less_nat_alt)
  then show ?thesis
    using unread_Cons(1,2) [OF un] True oct by (simp add: readLength_def Let_def adv_def)
next
  case False
  then obtain k where k: "k \<in> {1, 2, 3, 4}" "n < 256 ^ k"
    and oct: "length_octets n = byte_of (0x80 + k) # be_bytes k n"
    using length_octets_long [of n] assms(2) by auto
  define b where "b = byte_of (0x80 + k)"
  have un: "unread d = b # be_bytes k n @ r" using assms(1) oct by (simp add: b_def)
  have b: "\<not> b < 0x80" "b \<noteq> 0x80" "unat (b AND 0x7f) = k"
    using k(1) by (auto simp: b_def byte_of_def)
  have un1: "unread (adv d 1) = be_bytes k n @ r" using unread_Cons(3) [OF un] .
  have fits: "d_off d + 1 + k \<le> length (d_data d)"
    using arg_cong [OF un, of length] unfolding unread_def by simp
  have tk: "take k (drop (d_off d + 1) (d_data d)) = be_bytes k n"
    using un1 by (simp add: unread_def)
  have oct': "readLengthOctets k 0 (adv d 1) = (Inr n, adv d (1 + k))"
    using readLengthOctets_ok [of "adv d 1" k 0] fits tk be_nat_be_bytes_small [OF k(2)]
    by (simp add: be_nat_def)
  show ?thesis
    using unread_Cons(1,2) [OF un] b oct oct' fits k(1) assms(2)
    by (auto simp: readLength_def Let_def adv_def)
qed

text \<open>An element at the cursor is read back, whatever follows it.\<close>

lemma readTLV_AppendTLV:
  assumes "unread d = AppendTLV [] t content @ r" and "tag_ok t" and "length content < 2 ^ 32"
    and "depth \<le> MaxDepth"
  shows "readTLV depth d = (Inr (t, content), adv d (length (AppendTLV [] t content)))"
proof -
  let ?n = "length content"
  have un: "unread d = tag_octets t @ length_octets ?n @ content @ r"
    using assms(1) by (simp add: AppendTLV_octets)
  define d1 where "d1 = adv d (length (tag_octets t))"
  define d2 where "d2 = adv d1 (length (length_octets ?n))"
  have tag: "readTag d = (Inr t, d1)"
    using readTag_AppendTag [OF un assms(2)] by (simp add: d1_def)
  have un1: "unread d1 = length_octets ?n @ content @ r"
    using unread_adv [OF un] by (simp add: d1_def)
  have len: "readLength d1 = (Inr (?n, False), d2)"
    using readLength_AppendLength [OF un1 assms(3)] by (simp add: d2_def)
  have un2: "drop (d_off d2) (d_data d2) = content @ r"
    using unread_adv [OF un1] by (simp add: d2_def unread_def)
  have "tag_octets t \<noteq> []" by (simp add: AppendTag_def Let_def)
  then have "unread d \<noteq> []" using un by simp
  then have "d_off d < length (d_data d)" by (simp add: unread_def)
  then have fits: "d_off d2 + ?n \<le> length (d_data d2)"
    using arg_cong [OF un, of length] by (simp add: d2_def d1_def unread_def)
  have oct: "adv d (length (AppendTLV [] t content)) = adv d2 ?n"
    by (simp add: d2_def d1_def AppendTLV_octets add.assoc)
  have "take ?n (drop (d_off d2) (d_data d2)) = content" using un2 by simp
  then show ?thesis
    using tag len fits oct assms(4) by (simp add: readTLV.simps adv_def)
qed

section \<open>Sizes\<close>

lemma length_base128_loop_ge:
  "2 ^ (7 * k) \<le> unat n \<Longrightarrow> Suc k \<le> length (base128_loop n [])"
proof (induction k arbitrary: n)
  case 0
  then show ?case by (simp add: Suc_le_eq)
next
  case (Suc k)
  have "(2 :: nat) ^ (7 * k) * 128 \<le> unat n" using Suc.prems by (simp add: power_add mult.commute)
  then have "2 ^ (7 * k) \<le> unat n div 128" by (simp add: less_eq_div_iff_mult_less_eq)
  then have le: "2 ^ (7 * k) \<le> unat (drop_bit 7 n)" by (simp add: unat_drop_bit_div)
  then have "unat (drop_bit 7 n) \<noteq> 0" by (metis not_less power_eq_0_iff less_numeral_extra(3) bot_nat_0.not_eq_extremum le_zero_eq zero_neq_numeral)
  then have "drop_bit 7 n \<noteq> 0" by (simp add: unat_eq_zero)
  then show ?case using Suc.IH [OF le] by (simp add: base128_digits [of n])
qed

lemma length_base128: "length (base128 n) = length (base128_loop n [])"
  by (simp add: base128_def Let_def)

text \<open>
  \<open>TagSize\<close> counts at most four octets of tag number, so it is right below \<open>2 ^ 28\<close> and one short
  from there on.
\<close>

lemma length_tag_octets:
  "length (tag_octets t) = (if Number t < 2 ^ 28 then TagSize t else TagSize t + 1)"
proof -
  let ?n = "Number t"
  have "unat ?n < 2 ^ 32" using unsigned_less [of ?n] by simp
  then have b: "unat ?n < 2 ^ 35" by simp
  note ge = length_base128_loop_ge [of _ ?n] and le = length_base128_loop [of ?n]
  show ?thesis
    using b ge [of 0] ge [of 1] ge [of 2] ge [of 3] ge [of 4] le [of 0] le [of 1] le [of 2] le [of 3] le [of 4]
    by (auto simp: AppendTag_def TagSize_def Let_def length_base128 word_less_nat_alt word_le_nat_alt Suc_le_eq
        intro: le_antisym split: if_splits)
qed

lemma length_length_octets: "length (length_octets n) = LengthSize n"
  by (simp add: AppendLength_def LengthSize_def)

lemma length_AppendTLV: "Number t < 2 ^ 28 \<Longrightarrow> length (AppendTLV [] t content) = TLVSize t (length content)"
  by (simp add: AppendTLV_octets length_tag_octets length_length_octets TLVSize_def)

section \<open>Reading what was written\<close>

abbreviation tlv :: "Tag \<Rightarrow> byte list \<Rightarrow> byte list" where "tlv t c \<equiv> AppendTLV [] t c"

lemma AppendTLV_dst: "AppendTLV dst t content = dst @ tlv t content"
  by (simp add: AppendTLV_octets)

lemma tlv_nonempty [simp]: "tlv t c \<noteq> []" "tlv t c = [] \<longleftrightarrow> False"
  by (simp_all add: AppendTLV_octets AppendTag_def Let_def)

lemma ReadTLV_tlv:
  assumes "unread d = tlv t c @ r" and "tag_ok t" and "length c < 2 ^ 32"
  shows "ReadTLV d = (Inr (t, c), adv d (length (tlv t c)))"
  using readTLV_AppendTLV [OF assms, of 0] by (simp add: ReadTLV_def)

lemma Peek_tlv:
  assumes "unread d = tlv t c @ r" and "tag_ok t"
  shows "Peek d = Inr t"
  using readTag_AppendTag [of d t] assms by (simp add: Peek_def AppendTLV_octets)

lemma More_tlv: "unread d = tlv t c @ r \<Longrightarrow> More d"
  by (simp add: More_unread)

lemma Expect_tlv:
  assumes "unread d = tlv t c @ r" and "tag_ok t" and "length c < 2 ^ 32"
  shows "Expect t d = (Inr c, adv d (length (tlv t c)))"
  using ReadTLV_tlv [OF assms] by (simp add: Expect_def)

lemma Optional_tlv:
  assumes "unread d = tlv t c @ r" and "tag_ok t" and "length c < 2 ^ 32"
  shows "Optional t d = (Present c, adv d (length (tlv t c)))"
  using ReadTLV_tlv [OF assms] Peek_tlv [OF assms(1,2)] More_tlv [OF assms(1)]
  by (simp add: Optional_def)

lemma Optional_other:
  assumes "unread d = tlv t c @ r" and "tag_ok t" and "t \<noteq> u"
  shows "Optional u d = (Absent, d)"
  using Peek_tlv [OF assms(1,2)] assms(3) by (simp add: Optional_def)

lemma Optional_end: "unread d = [] \<Longrightarrow> Optional u d = (Absent, d)"
  by (simp add: Optional_def More_unread)

lemma length_tlv_le: "length (tlv t c) \<le> 11 + length c" "length c < length (tlv t c)"
  by (auto simp: AppendTLV_octets length_tag_octets length_length_octets TagSize_def LengthSize_def)

lemmas read_tlv = ReadTLV_tlv Expect_tlv Optional_tlv Peek_tlv More_tlv

section \<open>Content is shorter than its element\<close>

lemma scanContents_length:
  "readTLV depth d = (Inr y, d') \<Longrightarrow> True"
  "scanContents depth t start d = (Inr y, d') \<Longrightarrow> dec_ok d \<Longrightarrow> start \<le> d_off d \<Longrightarrow> start + length (snd y) < d_off d'"
proof (induction depth d and depth t start d rule: readTLV_scanContents.induct)
  case (2 depth t start d)
  have rs: "read_spec d (readTLV (depth + 1) d)" using "2.prems"(2) by (rule readTLV_spec)
  from "2.prems"(1) show ?case
    by (subst (asm) scanContents.simps)
      (use "2.prems"(2,3) rs in \<open>auto split: sum.splits prod.splits bool.splits intro!: "2.IH"(2)
        simp: go_slice_def advanced_def dec_ok_def split: if_splits\<close>)
qed simp

lemma ReadTLV_shorter:
  assumes "ReadTLV d = (Inr (t, c), d')" and "dec_ok d"
  shows "d_off d + length c < d_off d'" and "d_data d' = d_data d" and "dec_ok d'"
proof -
  have rs: "read_spec d (ReadTLV d)" using assms(2) by (rule ReadTLV_spec)
  then show "d_data d' = d_data d" "dec_ok d'" using assms by (simp_all add: advanced_def)
  obtain r1 d1 where tag: "readTag d = (r1, d1)" by fastforce
  obtain r2 d2 where len: "readLength d1 = (r2, d2)" by fastforce
  have a: "read_spec d (r1, d1)" "read_spec d1 (r2, d2)"
    using read_spec_readTag [of d] read_spec_readLength [of d1] tag len by simp_all
  then have ok2: "dec_ok d2" using assms(2) by (auto simp: read_spec_def advanced_def)
  from assms(1) obtain t1 n ind where r: "r1 = Inr t1" "r2 = Inr (n, ind)"
    using tag len by (auto simp: ReadTLV_def readTLV.simps [of 0] split: sum.splits if_splits)
  then have lt: "d_off d < d_off d2" using a by (simp add: advanced_def)
  show "d_off d + length c < d_off d'"
  proof (cases ind)
    case False
    with assms(1) tag len r lt show ?thesis
      by (auto simp: ReadTLV_def readTLV.simps [of 0] go_slice_def split: if_splits)
  next
    case True
    with assms(1) tag len r have "scanContents 0 t1 (d_off d2) d2 = (Inr (t, c), d')"
      by (auto simp: ReadTLV_def readTLV.simps [of 0] split: if_splits)
    from scanContents_length(2) [OF this ok2] lt show ?thesis by simp
  qed
qed

section \<open>Properties\<close>

text \<open>(C1) Every element that \<^verbatim>\<open>AppendTLV\<close> writes is read back by \<^verbatim>\<open>ReadTLV\<close>, wherever it
  stands in the input and whatever follows it: the tag, the content, and a cursor that is
  behind the element.\<close>

theorem ber_roundtrip:
  assumes "tag_ok t" and "length content < 2 ^ 32" and "drop (d_off d) (d_data d) = AppendTLV [] t content @ rest"
  shows "ReadTLV d = (Inr (t, content), d\<lparr>d_off := d_off d + length (AppendTLV [] t content)\<rparr>)"
  using ReadTLV_tlv [of d t content rest] assms by (simp add: unread_def adv_def)

theorem ber_roundtrip_witness:
  "ReadTLV \<lparr>d_data = 0xff # AppendTLV [] (ContextConstructed 300) [1, 2, 3] @ [7], d_off = 1\<rparr>
    = (Inr (ContextConstructed 300, [1, 2, 3]), \<lparr>d_data = 0xff # AppendTLV [] (ContextConstructed 300) [1, 2, 3] @ [7], d_off = 8\<rparr>)"
proof -
  have "length (AppendTLV [] (ContextConstructed 300) [1, 2, 3 :: byte]) = 7" by code_simp
  then show ?thesis
    using ber_roundtrip [of "ContextConstructed 300" "[1, 2, 3]"
        "\<lparr>d_data = 0xff # AppendTLV [] (ContextConstructed 300) [1, 2, 3] @ [7], d_off = 1\<rparr>" "[7]"]
    by simp
qed

text \<open>(C39) Reading an element is safe on any input: \<^verbatim>\<open>ReadTLV\<close> never panics, never moves the
  cursor back or past the end, and on success returns a content that lies strictly inside
  what the cursor moved over, so a loop over \<^verbatim>\<open>More\<close> and \<^verbatim>\<open>ReadTLV\<close> ends.\<close>

theorem ber_read_safe:
  assumes "d_off d \<le> length (d_data d)" and "ReadTLV d = (r, d')"
  shows "r \<noteq> Inl Panic \<and> d_data d' = d_data d \<and> d_off d \<le> d_off d' \<and> d_off d' \<le> length (d_data d)
    \<and> (\<forall>t c. r = Inr (t, c) \<longrightarrow> d_off d + length c < d_off d')"
proof -
  have ok: "dec_ok d" using assms(1) by (simp add: dec_ok_def)
  have "read_spec d (r, d')" using ReadTLV_spec [OF ok] assms(2) by simp
  then show ?thesis
    using ok ReadTLV_shorter(1) [of d _ _ d'] assms(2) by (auto simp: read_spec_def advanced_def dec_ok_def)
qed

text \<open>At an indefinite-length sequence with two elements inside, and at one cut short.\<close>

theorem ber_read_safe_witness:
  "fst (ReadTLV (NewDecoder [0x30, 0x80, 2, 1, 5, 4, 0, 0, 0, 9])) \<noteq> Inl Panic
   \<and> d_off (snd (ReadTLV (NewDecoder [0x30, 0x80, 2, 1, 5]))) \<le> 5"
  using ber_read_safe [of "NewDecoder [0x30, 0x80, 2, 1, 5, 4, 0, 0, 0, 9]", OF _ surjective_pairing]
    ber_read_safe [of "NewDecoder [0x30, 0x80, 2, 1, 5]", OF _ surjective_pairing]
  by simp

text \<open>\<^verbatim>\<open>TagSize\<close> is the number of octets \<^verbatim>\<open>AppendTag\<close> writes, except for tag numbers
  from \<open>2 ^ 28\<close> on, which take one more.\<close>

theorem tag_size:
  "length (AppendTag dst t) = length dst + TagSize t + (if Number t < 2 ^ 28 then 0 else 1)"
  using length_tag_octets [of t] by (simp add: AppendTag_dst [of dst])

end
