(* ===== verification/BerElement.thy ===== *)
theory BerElement
  imports Ber
begin

text \<open>
  Build-time elements (\<^verbatim>\<open>asn1/element.go\<close>), used by the MMS, ACSE and presentation
  codecs. The size computed before encoding is the number of octets encoding appends, and an
  encoded element is read back as its tag and the concatenation of its children.
\<close>

section \<open>Elements\<close>

text \<open>The fields of the struct in the source's order: Tag, Value, Children, raw, isRaw,
  verbatim, isVerbatim. The tree of pointers is a datatype: elements are never shared.\<close>

datatype Element =
  Element (el_Tag: Tag) (el_Value: "byte list") (el_Children: "Element list")
    (el_raw: "byte list") (el_isRaw: bool) (el_verbatim: "byte list") (el_isVerbatim: bool)

definition RawContent :: "Tag \<Rightarrow> byte list \<Rightarrow> Element" where
  "RawContent t content = Element (t\<lparr>Constructed := True\<rparr>) [] [] content True [] False"

definition RawTLV :: "byte list \<Rightarrow> Element" where
  "RawTLV bs = Element \<lparr>Class = 0, Constructed = False, Number = 0\<rparr> [] [] [] False bs True"

definition Prim :: "Tag \<Rightarrow> byte list \<Rightarrow> Element" where
  "Prim t v = Element t v [] [] False [] False"

text \<open>A nil pointer is \<open>None\<close>; \<open>Cons\<close> and \<open>Add\<close> skip it.\<close>

definition Cons_el :: "Tag \<Rightarrow> Element option list \<Rightarrow> Element" where
  "Cons_el t cs = Element (t\<lparr>Constructed := True\<rparr>) [] (List.map_filter id cs) [] False [] False"

fun Add :: "Element \<Rightarrow> Element option list \<Rightarrow> Element" where
  "Add (Element t v cs r ir vb iv) new = Element t v (cs @ List.map_filter id new) r ir vb iv"

fun ContentSize :: "Element \<Rightarrow> nat" and Size :: "Element \<Rightarrow> nat" where
  "ContentSize (Element t v cs r ir vb iv) =
     (if ir then length r
      else if Constructed t then sum_list (map Size cs)
      else length v)"
| "Size (Element t v cs r ir vb iv) =
     (if iv then length vb
      else let n = ContentSize (Element t v cs r ir vb iv) in TagSize t + LengthSize n + n)"


text \<open>The declared function takes the element first; \<^verbatim>\<open>el.Append(dst)\<close>.\<close>

fun Append :: "Element \<Rightarrow> byte list \<Rightarrow> byte list" where
  "Append (Element t v cs r ir vb iv) dst =
     (if iv then dst @ vb
      else let n = ContentSize (Element t v cs r ir vb iv);
               dst1 = AppendLength (AppendTag dst t) n
           in if ir then dst1 @ r
              else if Constructed t then fold Append cs dst1
              else dst1 @ v)"

definition Encode :: "Element \<Rightarrow> byte list" where
  "Encode el = Append el []"

declare ContentSize.simps [simp del] Size.simps [simp del] Append.simps [simp del]

section \<open>Sizes and octets\<close>

text \<open>Elements every tag of which is one the size computation counts right.\<close>

fun el_ok :: "Element \<Rightarrow> bool" where
  "el_ok (Element t v cs r ir vb iv) =
     (iv \<or> (tag_ok t \<and> Number t < 2 ^ 28 \<and> (ir \<or> \<not> Constructed t \<or> list_all el_ok cs)))"

lemma Append_dst: "Append el dst = dst @ Encode el"
proof (induction el arbitrary: dst)
  case (Element t v cs r ir vb iv)
  have "fold Append xs dst = dst @ concat (map Encode xs)" if "set xs \<subseteq> set cs" for xs dst
    using that Element.IH by (induction xs arbitrary: dst) auto
  then have f: "fold Append cs dst = dst @ concat (map Encode cs)" for dst by simp
  show ?case
    by (simp add: Encode_def Append.simps Let_def f AppendTag_dst [of dst] AppendLength_dst [of "_ @ _"]
        AppendLength_dst [of "AppendTag _ _"])
qed

lemma fold_Append: "fold Append cs dst = dst @ concat (map Encode cs)"
  by (induction cs arbitrary: dst) (simp_all add: Append_dst)

text \<open>The content octets of an element.\<close>

fun el_content :: "Element \<Rightarrow> byte list" where
  "el_content (Element t v cs r ir vb iv) =
     (if ir then r else if Constructed t then concat (map Encode cs) else v)"

lemma Encode_eq:
  "Encode el = (if el_isVerbatim el then el_verbatim el
                else tag_octets (el_Tag el) @ length_octets (ContentSize el) @ el_content el)"
  by (cases el) (simp add: Encode_def Append.simps Let_def fold_Append AppendLength_dst [of "AppendTag _ _"])

lemma Size_length: "el_ok el \<Longrightarrow> length (Encode el) = Size el"
proof (induction el)
  case (Element t v cs r ir vb iv)
  show ?case
  proof (cases iv)
    case True
    then show ?thesis by (simp add: Encode_eq Size.simps)
  next
    case False
    have "map length (map Encode cs) = map Size cs" if "list_all el_ok cs"
      using that Element.IH by (auto simp: list_all_iff)
    then have "length (el_content (Element t v cs r ir vb iv)) = ContentSize (Element t v cs r ir vb iv)"
      using Element.prems False by (auto simp: ContentSize.simps length_concat o_def cong: map_cong)
    with False Element.prems show ?thesis
      by (simp add: Encode_eq Size.simps Let_def length_tag_octets length_length_octets)
  qed
qed

lemma ContentSize_length: "el_ok el \<Longrightarrow> \<not> el_isVerbatim el \<Longrightarrow> length (el_content el) = ContentSize el"
proof (cases el)
  case (Element t v cs r ir vb iv)
  assume "el_ok el" "\<not> el_isVerbatim el"
  then have "map length (map Encode cs) = map Size cs" if "\<not> ir" "Constructed t"
    using Element that by (auto simp: list_all_iff Size_length)
  with Element show ?thesis by (auto simp: ContentSize.simps length_concat o_def cong: map_cong)
qed

text \<open>An element is encoded as one TLV whose content is that of its parts.\<close>

lemma Encode_tlv:
  "el_ok el \<Longrightarrow> \<not> el_isVerbatim el \<Longrightarrow> Encode el = tlv (el_Tag el) (el_content el)"
  by (simp add: Encode_eq AppendTLV_octets ContentSize_length)

lemma el_ok_builders [simp]:
  "el_ok (RawTLV bs)"
  "el_ok (Prim t v) \<longleftrightarrow> tag_ok t \<and> Number t < 2 ^ 28"
  "el_ok (RawContent t bs) \<longleftrightarrow> tag_ok t \<and> Number t < 2 ^ 28"
  "el_ok (Cons_el t cs) \<longleftrightarrow> tag_ok t \<and> Number t < 2 ^ 28 \<and> list_all el_ok (List.map_filter id cs)"
  by (simp_all add: RawTLV_def Prim_def RawContent_def Cons_el_def tag_ok_def)

lemma Encode_RawTLV [simp]: "Encode (RawTLV bs) = bs"
  by (simp add: Encode_eq RawTLV_def)

lemma Encode_Prim:
  "tag_ok t \<Longrightarrow> Number t < 2 ^ 28 \<Longrightarrow> \<not> Constructed t \<Longrightarrow> Encode (Prim t v) = tlv t v"
  using Encode_tlv [of "Prim t v"] by (simp add: Prim_def)

lemma Encode_RawContent:
  "tag_ok t \<Longrightarrow> Number t < 2 ^ 28 \<Longrightarrow> Encode (RawContent t bs) = tlv (t\<lparr>Constructed := True\<rparr>) bs"
  using Encode_tlv [of "RawContent t bs"] by (simp add: RawContent_def tag_ok_def)

lemma Encode_Cons_el:
  "tag_ok t \<Longrightarrow> Number t < 2 ^ 28 \<Longrightarrow> list_all el_ok (List.map_filter id cs) \<Longrightarrow>
     Encode (Cons_el t cs) =
       tlv (t\<lparr>Constructed := True\<rparr>) (concat (map Encode (List.map_filter id cs)))"
  using Encode_tlv [of "Cons_el t cs"] by (simp add: Cons_el_def tag_ok_def)

lemma Add_Cons_el: "Add (Cons_el t cs) new = Cons_el t (cs @ new)"
  by (simp add: Cons_el_def map_filter_def)

lemmas encode_simps = Encode_Prim Encode_RawContent Encode_Cons_el

section \<open>Properties\<close>

text \<open>An element tree whose tags are below \<open>2 ^ 28\<close> is encoded in exactly the octets
  \<^verbatim>\<open>Size\<close> announces, appended to what is there, and decodes to the element's tag and the
  encoding of its children.\<close>

theorem element_encoding:
  assumes "el_ok el" and "\<not> el_isVerbatim el" and "tag_ok (el_Tag el)" and "length (el_content el) < 2 ^ 32"
  shows "Append el dst = dst @ Encode el \<and> length (Encode el) = Size el
    \<and> ReadTLV (NewDecoder (Encode el @ rest)) = (Inr (el_Tag el, el_content el), \<lparr>d_data = Encode el @ rest, d_off = Size el\<rparr>)"
proof -
  have e: "Encode el = tlv (el_Tag el) (el_content el)" using Encode_tlv assms(1,2) .
  have s: "length (Encode el) = Size el" using Size_length [OF assms(1)] .
  have "ReadTLV (NewDecoder (Encode el @ rest)) = (Inr (el_Tag el, el_content el), adv (NewDecoder (Encode el @ rest)) (length (Encode el)))"
    using ReadTLV_tlv [of "NewDecoder (Encode el @ rest)" "el_Tag el" "el_content el" rest] e assms(3,4) by simp
  then show ?thesis using s by (simp add: Append_dst adv_def NewDecoder_def)
qed

theorem element_encoding_witness:
  "ReadTLV (NewDecoder (Encode (Cons_el TagSequence [Some (Prim (ContextPrimitive 1) [7, 8]), None]) @ [1]))
    = (Inr (TagSequence, Encode (Prim (ContextPrimitive 1) [7, 8])),
       \<lparr>d_data = Encode (Cons_el TagSequence [Some (Prim (ContextPrimitive 1) [7, 8]), None]) @ [1], d_off = 6\<rparr>)"
proof -
  let ?el = "Cons_el TagSequence [Some (Prim (ContextPrimitive 1) [7, 8]), None]"
  have "el_ok ?el" "\<not> el_isVerbatim ?el" "tag_ok (el_Tag ?el)" by code_simp+
  moreover have "Size ?el = 6" "el_Tag ?el = TagSequence" "el_content ?el = Encode (Prim (ContextPrimitive 1) [7, 8])"
    "length (Encode (Prim (ContextPrimitive 1) [7, 8])) = 4" by code_simp+
  ultimately show ?thesis using element_encoding [of ?el "[]" "[1]"] by simp
qed

end
