(* ===== verification/BerPrim.thy ===== *)
theory BerPrim
  imports BerElement
begin

text \<open>
  Content octets of the primitive types (\<^verbatim>\<open>asn1/primitives.go\<close>): integers,
  unsigned integers, booleans and bit strings. Each encoder is shown to be inverted by its
  decoder through one interface, \<open>content_codec\<close>.
\<close>

section \<open>Codecs of content octets\<close>

text \<open>
  What an element codec needs from a pair of functions on content octets: decoding inverts
  encoding on the values \<open>ok\<close>, and contents are short enough for a definite length.
\<close>

locale content_codec =
  fixes enc :: "'a \<Rightarrow> byte list" and dec :: "byte list \<Rightarrow> (ber_error, 'a) result" and ok :: "'a \<Rightarrow> bool"
  assumes dec_enc: "ok a \<Longrightarrow> dec (enc a) = Inr a"
    and enc_short: "ok a \<Longrightarrow> length (enc a) < 2 ^ 32"
begin

lemma enc_inj: "ok a \<Longrightarrow> ok b \<Longrightarrow> enc a = enc b \<Longrightarrow> a = b"
  by (metis dec_enc sum.inject(2))

lemma expect_elem:
  assumes "unread d = tlv t (enc a) @ r" and "tag_ok t" and "ok a"
  shows "(case Expect t d of (Inl e, d') \<Rightarrow> (Inl e, d') | (Inr c, d') \<Rightarrow> (dec c, d'))
    = (Inr a, adv d (length (tlv t (enc a))))"
  using Expect_tlv [OF assms(1,2) enc_short [OF assms(3)]] dec_enc [OF assms(3)] by simp

lemma optional_elem:
  assumes "unread d = tlv t (enc a) @ r" and "tag_ok t" and "ok a"
  shows "Optional t d = (Present (enc a), adv d (length (tlv t (enc a))))"
  using Optional_tlv [OF assms(1,2) enc_short [OF assms(3)]] .

end

section \<open>Integers\<close>

text \<open>An \<^verbatim>\<open>int64\<close> is an \<open>int\<close> in range; \<^verbatim>\<open>>>\<close> on it is arithmetic.\<close>

definition int64_ok :: "int \<Rightarrow> bool" where
  "int64_ok v = (- (2 ^ 63) \<le> v \<and> v < 2 ^ 63)"

definition uint64_ok :: "nat \<Rightarrow> bool" where
  "uint64_ok v = (v < 2 ^ 64)"

function IntSize_loop :: "int \<Rightarrow> nat \<Rightarrow> nat" where
  "IntSize_loop v n = (if v > 0x7f \<or> v < - 0x80 then IntSize_loop (v div 2 ^ 8) (n + 1) else n)"
  by pat_completeness auto
termination
  by (relation "measure (\<lambda>(v, n). nat \<bar>v\<bar>)") auto

declare IntSize_loop.simps [simp del]

definition IntSize :: "int \<Rightarrow> nat" where
  "IntSize v = IntSize_loop v 1"

definition AppendInt :: "byte list \<Rightarrow> int \<Rightarrow> byte list" where
  "AppendInt dst v = dst @ map (\<lambda>i. word_of_int (v div 2 ^ (i * 8))) (rev [0..<IntSize v])"

text \<open>At most eight octets are shifted in after the sign-extended first, so
  \<^verbatim>\<open>v<<8 | b\<close> never leaves the 64-bit range (\<open>DecodeInt_range\<close>).\<close>

definition DecodeInt :: "byte list \<Rightarrow> (ber_error, int) result" where
  "DecodeInt content =
     (if content = [] \<or> length content > 8 then Inl (Err ErrBadValue)
      else rbind (go_index content 0) (\<lambda>b0.
           rbind (go_slice content 1 (length content)) (\<lambda>bs.
           Inr (foldl (\<lambda>v b. v * 2 ^ 8 + uint b) (sint b0) bs))))"

function UintSize_loop :: "nat \<Rightarrow> nat \<Rightarrow> nat" where
  "UintSize_loop v n = (if v > 0x7f then UintSize_loop (v div 2 ^ 8) (n + 1) else n)"
  by pat_completeness auto
termination
  by (relation "measure fst") auto

declare UintSize_loop.simps [simp del]

definition UintSize :: "nat \<Rightarrow> nat" where
  "UintSize v = UintSize_loop v 1"

definition AppendUint :: "byte list \<Rightarrow> nat \<Rightarrow> byte list" where
  "AppendUint dst v = dst @ map (\<lambda>i. byte_of (v div 2 ^ (i * 8))) (rev [0..<UintSize v])"

definition DecodeUint :: "byte list \<Rightarrow> (ber_error, nat) result" where
  "DecodeUint content =
     (if content = [] then Inl (Err ErrBadValue)
      else rbind (go_index content 0) (\<lambda>b0.
           if length content > 9 \<or> (length content = 9 \<and> b0 \<noteq> 0) then Inl (Err ErrBadValue)
           else Inr (foldl (\<lambda>v b. (v * 2 ^ 8) mod 2 ^ 64 + unat b) 0 content)))"

definition IntElem :: "Tag \<Rightarrow> int \<Rightarrow> Element" where "IntElem t v = Prim t (AppendInt [] v)"
definition UintElem :: "Tag \<Rightarrow> nat \<Rightarrow> Element" where "UintElem t v = Prim t (AppendUint [] v)"

definition BoolElem :: "Tag \<Rightarrow> bool \<Rightarrow> Element" where
  "BoolElem t v = (if v then Prim t [0xff] else Prim t [0x00])"

definition DecodeBool :: "byte list \<Rightarrow> (ber_error, bool) result" where
  "DecodeBool content =
     (if length content \<noteq> 1 then Inl (Err ErrBadValue) else rbind (go_index content 0) (\<lambda>b. Inr (b \<noteq> 0)))"

abbreviation int_octets :: "int \<Rightarrow> byte list" where "int_octets \<equiv> AppendInt []"
abbreviation uint_octets :: "nat \<Rightarrow> byte list" where "uint_octets \<equiv> AppendUint []"
abbreviation bool_octets :: "bool \<Rightarrow> byte list" where "bool_octets v \<equiv> [if v then 0xff else 0x00]"

subsection \<open>Sizes\<close>

lemma div256_bounds:
  fixes v p :: int
  shows "- p \<le> v div 256 \<longleftrightarrow> - (p * 256) \<le> v" and "v div 256 < p \<longleftrightarrow> v < p * 256"
  by (simp_all add: int_le_div_iff int_div_less_iff)

lemma IntSize_loop_fits:
  "0 < n \<Longrightarrow> \<exists>k. IntSize_loop v n = n + k \<and> - (2 ^ (8 * k + 7)) \<le> v \<and> v < 2 ^ (8 * k + 7)
     \<and> (0 < k \<longrightarrow> \<not> (- (2 ^ (8 * k - 1)) \<le> v \<and> v < 2 ^ (8 * k - 1)))"
proof (induction v n rule: IntSize_loop.induct)
  case (1 v n)
  show ?case
  proof (cases "v > 0x7f \<or> v < - 0x80")
    case True
    then obtain k where k: "IntSize_loop (v div 2 ^ 8) (n + 1) = n + 1 + k"
      "- (2 ^ (8 * k + 7)) \<le> v div 256" "v div 256 < 2 ^ (8 * k + 7)"
      "0 < k \<longrightarrow> \<not> (- (2 ^ (8 * k - 1)) \<le> v div 256 \<and> v div 256 < 2 ^ (8 * k - 1))"
      using "1.IH" by auto
    have p: "(2::int) ^ (8 * Suc k + 7) = 2 ^ (8 * k + 7) * 256" by (simp add: power_add)
    have up: "- (2 ^ (8 * Suc k + 7)) \<le> v" "v < 2 ^ (8 * Suc k + 7)"
      using k(2,3) unfolding p by (simp_all only: div256_bounds)
    have low: "\<not> (- (2 ^ (8 * Suc k - 1)) \<le> v \<and> v < 2 ^ (8 * Suc k - 1))"
    proof (cases k)
      case 0
      with True show ?thesis by auto
    next
      case (Suc j)
      then have q: "(2::int) ^ (8 * Suc k - 1) = 2 ^ (8 * k - 1) * 256"
        by (simp add: power_add)
      from k(4) Suc have "\<not> (- (2 ^ (8 * k - 1)) \<le> v div 256 \<and> v div 256 < 2 ^ (8 * k - 1))" by simp
      then show ?thesis unfolding q div256_bounds .
    qed
    show ?thesis using True k(1) up low by (intro exI [of _ "Suc k"]) (simp add: IntSize_loop.simps [of v])
  next
    case False
    then show ?thesis by (intro exI [of _ 0]) (simp add: IntSize_loop.simps [of v])
  qed
qed


lemma IntSize_fits:
  obtains k where "IntSize v = Suc k" and "- (2 ^ (8 * k + 7)) \<le> v" and "v < 2 ^ (8 * k + 7)"
    and "0 < k \<Longrightarrow> \<not> (- (2 ^ (8 * k - 1)) \<le> v \<and> v < 2 ^ (8 * k - 1))"
  using IntSize_loop_fits [of 1 v] by (auto simp: IntSize_def)

lemma pow2_le_imp: "(2::int) ^ a < 2 ^ b \<Longrightarrow> a < b"
  by (simp add: power_strict_increasing_iff)

text \<open>The number of octets is the least that holds the value in two's complement.\<close>

lemma IntSize_le_iff:
  assumes "0 < m"
  shows "IntSize v \<le> m \<longleftrightarrow> - (2 ^ (8 * m - 1)) \<le> v \<and> v < 2 ^ (8 * m - 1)"
proof -
  obtain k where k: "IntSize v = Suc k" "- (2 ^ (8 * k + 7)) \<le> v" "v < 2 ^ (8 * k + 7)"
    "0 < k \<Longrightarrow> \<not> (- (2 ^ (8 * k - 1)) \<le> v \<and> v < 2 ^ (8 * k - 1))" by (rule IntSize_fits) blast
  show ?thesis
  proof (cases "Suc k \<le> m")
    case True
    then have "(2::int) ^ (8 * k + 7) \<le> 2 ^ (8 * m - 1)" by (intro power_increasing) simp_all
    with k(2,3) have "- (2 ^ (8 * m - 1)) \<le> v \<and> v < 2 ^ (8 * m - 1)" by linarith
    with k(1) True show ?thesis by simp
  next
    case False
    then have "0 < k" using assms by simp
    have "(2::int) ^ (8 * m - 1) \<le> 2 ^ (8 * k - 1)"
      using False by (intro power_increasing) simp_all
    with k(4) [OF \<open>0 < k\<close>] have "\<not> (- (2 ^ (8 * m - 1)) \<le> v \<and> v < 2 ^ (8 * m - 1))" by linarith
    with k(1) False show ?thesis by simp
  qed
qed

lemma IntSize_64: "int64_ok v \<longleftrightarrow> IntSize v \<le> 8"
  by (simp add: IntSize_le_iff int64_ok_def)

lemma UintSize_eq: "UintSize v = IntSize (int v)"
proof -
  have "UintSize_loop v n = IntSize_loop (int v) n" for n
  proof (induction v n rule: UintSize_loop.induct)
    case (1 v n)
    then show ?case by (simp add: UintSize_loop.simps [of v] IntSize_loop.simps [of "int v"] zdiv_int)
  qed
  then show ?thesis by (simp add: UintSize_def IntSize_def)
qed


subsection \<open>Round trips\<close>

lemma int_octets_fold:
  "foldl (\<lambda>a b. a * 2 ^ 8 + uint b) (v div 2 ^ (n * 8)) (map (\<lambda>i. word_of_int (v div 2 ^ (i * 8)) :: byte) (rev [0..<n])) = v"
proof (induction n)
  case 0
  then show ?case by simp
next
  case (Suc n)
  have "v div 2 ^ (Suc n * 8) = v div 2 ^ (n * 8) div 256"
    by (simp add: zdiv_zmult2_eq [symmetric] power_add mult.commute)
  then have "v div 2 ^ (Suc n * 8) * 2 ^ 8 + uint (word_of_int (v div 2 ^ (n * 8)) :: byte) = v div 2 ^ (n * 8)"
    by (simp add: uint_word_of_int)
  with Suc show ?case by simp
qed

lemma sint_byte_of_int: "- 128 \<le> v \<Longrightarrow> v < 128 \<Longrightarrow> sint (word_of_int v :: byte) = v"
  by (simp add: int_word_sint)

lemma DecodeInt_AppendInt:
  assumes "int64_ok v" shows "DecodeInt (int_octets v) = Inr v"
proof -
  obtain k where k: "IntSize v = Suc k" "- (2 ^ (8 * k + 7)) \<le> v" "v < 2 ^ (8 * k + 7)" by (rule IntSize_fits) blast
  have p: "(2::int) ^ (8 * k + 7) = 2 ^ (k * 8) * 128" by (simp add: power_add mult.commute)
  have le: "- 128 \<le> v div 2 ^ (k * 8)" "v div 2 ^ (k * 8) < 128"
    using k(2,3) unfolding p by (simp_all add: int_le_div_iff int_div_less_iff mult.commute)
  have "Suc k \<le> 8" using assms k(1) by (simp add: IntSize_64)
  then show ?thesis
    using int_octets_fold [of v k] sint_byte_of_int [OF le]
    by (simp add: DecodeInt_def AppendInt_def k(1))
qed

lemma uint_octets_be: "uint_octets v = be_bytes (UintSize v) v"
proof -
  have "map (\<lambda>i. byte_of (v div 2 ^ (i * 8))) (rev [0..<n]) = be_bytes n v" for n v
  proof (induction n arbitrary: v)
    case 0
    then show ?case by simp
  next
    case (Suc n)
    have "rev [0..<Suc n] = map Suc (rev [0..<n]) @ [0]"
      by (metis map_Suc_upt rev.simps(2) rev_map upt_conv_Cons zero_less_Suc)
    then have "map (\<lambda>i. byte_of (v div 2 ^ (i * 8))) (rev [0..<Suc n])
        = map (\<lambda>i. byte_of (v div 256 div 2 ^ (i * 8))) (rev [0..<n]) @ [byte_of v]"
      by (simp only: map_append map_map) (simp add: o_def div_mult2_eq [symmetric] power_add)
    then show ?case using Suc [of "v div 256"] by simp
  qed
  then show ?thesis by (simp add: AppendUint_def)
qed


lemma DecodeUint_AppendUint:
  assumes "uint64_ok v" shows "DecodeUint (uint_octets v) = Inr v"
proof -
  obtain k where k: "IntSize (int v) = Suc k" "int v < 2 ^ (8 * k + 7)"
    "0 < k \<Longrightarrow> \<not> (- (2 ^ (8 * k - 1)) \<le> int v \<and> int v < 2 ^ (8 * k - 1))" by (rule IntSize_fits) blast
  have "int v < 2 ^ (8 * 9 - 1)" using assms by (simp add: uint64_ok_def)
  then have le: "Suc k \<le> 9" using IntSize_le_iff [of 9 "int v"] k(1) by simp
  have oct: "uint_octets v = be_bytes (Suc k) v" by (simp add: uint_octets_be UintSize_eq k(1))
  have ne: "uint_octets v \<noteq> []" using oct by simp
  have "v < 2 ^ (8 * k + 7)" using k(2) by (metis of_nat_less_iff of_nat_numeral of_nat_power)
  then have lt: "v < 256 ^ Suc k" by (simp add: power_add power_mult)
  have fold: "foldl (\<lambda>v b. (v * 2 ^ 8) mod 2 ^ 64 + unat b) 0 bs = be_nat bs" if "be_nat bs < 2 ^ 64" for bs
    using that
  proof (induction bs rule: rev_induct)
    case (snoc b bs)
    then show ?case by simp
  qed simp
  have zero: "uint_octets v ! 0 = 0" if "Suc k = 9"
  proof -
    have "byte_of (v div 2 ^ 64) = 0" using assms by (simp add: uint64_ok_def byte_of_def)
    moreover have "rev [0..<9] ! 0 = (8 :: nat)" by (simp add: rev_nth)
    ultimately show ?thesis using that by (simp add: AppendUint_def UintSize_eq k(1))
  qed
  show ?thesis
    using fold [of "uint_octets v"] ne zero le assms be_nat_be_bytes_small [OF lt] oct
    by (auto simp: DecodeUint_def uint64_ok_def simp del: be_bytes.simps)
qed

lemma DecodeInt_range:
  assumes "DecodeInt c = Inr v" shows "int64_ok v"
proof -
  have fold: "- (2 ^ (8 * length bs + 7)) \<le> foldl (\<lambda>v b. v * 2 ^ 8 + uint b) (sint (b0 :: byte)) bs
      \<and> foldl (\<lambda>v b. v * 2 ^ 8 + uint b) (sint b0) bs < 2 ^ (8 * length bs + 7)" for bs :: "byte list" and b0
  proof (induction bs rule: rev_induct)
    case Nil
    show ?case using sint_greater_eq [of b0] sint_less [of b0] by simp
  next
    case (snoc b bs)
    have "0 \<le> uint b" "uint b < 256" using uint_bounded [of b] by simp_all
    moreover have "(2::int) ^ (8 * length (bs @ [b]) + 7) = 2 ^ (8 * length bs + 7) * 256" by (simp add: power_add)
    moreover have e: "(2::int) ^ 8 = 256" by simp
    ultimately show ?case using snoc unfolding foldl_append foldl.simps e by linarith
  qed
  obtain b0 bs where c: "c = b0 # bs" "length bs < 8" 
    and v: "v = foldl (\<lambda>v b. v * 2 ^ 8 + uint b) (sint b0) bs"
    using assms by (cases c) (auto simp: DecodeInt_def split: if_splits)
  have "(2::int) ^ (8 * length bs + 7) \<le> 2 ^ 63" using c(2) by (intro power_increasing) simp_all
  with fold [where bs = bs and ?b0.0 = b0] show ?thesis unfolding int64_ok_def v by linarith
qed

lemma DecodeInt_no_panic: "DecodeInt c \<noteq> Inl Panic" "DecodeUint c \<noteq> Inl Panic" "DecodeBool c \<noteq> Inl Panic"
  by (cases c, auto simp: DecodeInt_def DecodeUint_def DecodeBool_def)+

lemma DecodeBool_octets [simp]: "DecodeBool (bool_octets b) = Inr b"
  by (simp add: DecodeBool_def)

lemma length_uint_octets: "uint64_ok v \<Longrightarrow> length (uint_octets v) \<le> 9"
  using IntSize_le_iff [of 9 "int v"] by (simp add: uint_octets_be UintSize_eq uint64_ok_def)

lemma length_int_octets: "int64_ok v \<Longrightarrow> length (int_octets v) \<le> 8"
  by (simp add: AppendInt_def IntSize_64)

interpretation int_codec: content_codec "AppendInt []" DecodeInt int64_ok
proof
  show "length (int_octets a) < 2 ^ 32" if "int64_ok a" for a
    using length_int_octets [OF that] by simp
qed (rule DecodeInt_AppendInt)

interpretation uint_codec: content_codec "AppendUint []" DecodeUint uint64_ok
proof
  show "length (uint_octets a) < 2 ^ 32" if "uint64_ok a" for a
    using length_uint_octets [OF that] by simp
qed (rule DecodeUint_AppendUint)

interpretation bool_codec: content_codec "\<lambda>b. bool_octets b" DecodeBool "\<lambda>b. True"
  by unfold_locales simp_all

section \<open>Sequences of elements\<close>

text \<open>
  A codec of whole elements: what is encoded at the cursor is read back, as the view of it the
  wire keeps, and the cursor is
  behind it. A \<^verbatim>\<open>for d.More()\<close> loop over such a codec reads back every list.
\<close>

locale tlv_view =
  fixes enc :: "'a \<Rightarrow> byte list" and view :: "'a \<Rightarrow> 'b" and dec :: "Decoder \<Rightarrow> ('e, 'b) result \<times> Decoder"
    and ok :: "'a \<Rightarrow> bool"
  assumes dec_view: "ok a \<Longrightarrow> unread d = enc a @ r \<Longrightarrow> dec d = (Inr (view a), adv d (length (enc a)))"
    and enc_nonempty: "ok a \<Longrightarrow> enc a \<noteq> []"
begin

lemma read_view_sequence:
  assumes loop: "\<And>d acc. loop d acc =
      (if \<not> More d then Inr acc else rbind (fst (dec d)) (\<lambda>a. loop (snd (dec d)) (acc @ [a])))"
    and "list_all ok as" and "unread d = concat (map enc as)"
  shows "loop d acc = Inr (acc @ map view as)"
  using assms(2,3)
proof (induction as arbitrary: d acc)
  case Nil
  then show ?case by (subst loop) (simp add: More_unread)
next
  case (Cons a as)
  have ok: "ok a" "list_all ok as" using Cons.prems(1) by simp_all
  have un: "unread d = enc a @ concat (map enc as)" using Cons.prems(2) by simp
  have "More d" using un enc_nonempty [OF ok(1)] by (simp add: More_unread)
  moreover note dec_view [OF ok(1) un]
  moreover have "loop (adv d (length (enc a))) (acc @ [view a]) = Inr ((acc @ [view a]) @ map view as)"
    by (rule Cons.IH [OF ok(2) unread_adv [OF un]])
  ultimately show ?case by (subst loop) simp
qed

end

text \<open>A codec that loses nothing is a view codec whose view is the identity.\<close>

locale tlv_codec =
  fixes enc :: "'a \<Rightarrow> byte list" and dec :: "Decoder \<Rightarrow> ('e, 'a) result \<times> Decoder" and ok :: "'a \<Rightarrow> bool"
  assumes dec_enc: "ok a \<Longrightarrow> unread d = enc a @ r \<Longrightarrow> dec d = (Inr a, adv d (length (enc a)))"
    and nonempty: "ok a \<Longrightarrow> enc a \<noteq> []"

sublocale tlv_codec \<subseteq> tlv_view enc "\<lambda>a. a" dec ok
  by unfold_locales (auto dest: dec_enc nonempty)

context tlv_codec
begin

lemma read_one: "ok a \<Longrightarrow> fst (dec (NewDecoder (enc a))) = Inr a"
  using dec_enc [of a "NewDecoder (enc a)" "[]"] by simp

lemma read_sequence:
  assumes "\<And>d acc. loop d acc =
      (if \<not> More d then Inr acc else rbind (fst (dec d)) (\<lambda>a. loop (snd (dec d)) (acc @ [a])))"
    and "list_all ok as" and "unread d = concat (map enc as)"
  shows "loop d acc = Inr (acc @ as)"
  using read_view_sequence [OF assms] by simp

end

section \<open>Running a decoder on encoded fields\<close>

text \<open>A decoder standing between the octets it has read and those to come; with it the
  equations below run a decoder over a list of encoded fields.\<close>

definition at_pos :: "byte list \<Rightarrow> byte list \<Rightarrow> Decoder" where
  "at_pos pre post = \<lparr>d_data = pre @ post, d_off = length pre\<rparr>"

lemma NewDecoder_at: "NewDecoder bs = at_pos [] bs"
  by (simp add: at_pos_def NewDecoder_def)

lemma unread_at [simp]: "unread (at_pos pre post) = post"
  by (simp add: at_pos_def unread_def)

lemma adv_at: "adv (at_pos pre (xs @ ys)) (length xs) = at_pos (pre @ xs) ys"
  by (simp add: at_pos_def adv_def)

lemma More_at [simp]: "More (at_pos pre post) \<longleftrightarrow> post \<noteq> []"
  by (simp add: More_unread)

lemma read_at [codec_simps]:
  assumes "tag_ok t" and "length c < 2 ^ 32"
  shows "ReadTLV (at_pos pre (tlv t c @ r)) = (Inr (t, c), at_pos (pre @ tlv t c) r)"
    and "Expect t (at_pos pre (tlv t c @ r)) = (Inr c, at_pos (pre @ tlv t c) r)"
    and "Optional t (at_pos pre (tlv t c @ r)) = (Present c, at_pos (pre @ tlv t c) r)"
    and "ReadTLV (at_pos pre (tlv t c)) = (Inr (t, c), at_pos (pre @ tlv t c) [])"
    and "Expect t (at_pos pre (tlv t c)) = (Inr c, at_pos (pre @ tlv t c) [])"
    and "Optional t (at_pos pre (tlv t c)) = (Present c, at_pos (pre @ tlv t c) [])"
proof -
  note un = unread_at [of pre "tlv t c @ r"] and un' = unread_at [of pre "tlv t c @ []"]
  show "ReadTLV (at_pos pre (tlv t c @ r)) = (Inr (t, c), at_pos (pre @ tlv t c) r)"
    "Expect t (at_pos pre (tlv t c @ r)) = (Inr c, at_pos (pre @ tlv t c) r)"
    "Optional t (at_pos pre (tlv t c @ r)) = (Present c, at_pos (pre @ tlv t c) r)"
    using ReadTLV_tlv [OF un assms] Expect_tlv [OF un assms] Optional_tlv [OF un assms] by (simp_all add: adv_at)
  show "ReadTLV (at_pos pre (tlv t c)) = (Inr (t, c), at_pos (pre @ tlv t c) [])"
    "Expect t (at_pos pre (tlv t c)) = (Inr c, at_pos (pre @ tlv t c) [])"
    "Optional t (at_pos pre (tlv t c)) = (Present c, at_pos (pre @ tlv t c) [])"
    using ReadTLV_tlv [OF un' assms] Expect_tlv [OF un' assms] Optional_tlv [OF un' assms] adv_at [of pre "tlv t c" "[]"]
    by simp_all
qed

lemma peek_at [codec_simps]:
  assumes "tag_ok t"
  shows "Peek (at_pos pre (tlv t c @ r)) = Inr t" and "Peek (at_pos pre (tlv t c)) = Inr t"
  using Peek_tlv [OF unread_at assms, of pre c r] Peek_tlv [OF _ assms, of "at_pos pre (tlv t c)" c "[]"] by simp_all

lemma optional_at_other [codec_simps]:
  assumes "tag_ok t" and "t \<noteq> u"
  shows "Optional u (at_pos pre (tlv t c @ r)) = (Absent, at_pos pre (tlv t c @ r))"
    and "Optional u (at_pos pre (tlv t c)) = (Absent, at_pos pre (tlv t c))"
  using Optional_other [OF _ assms, of "at_pos pre (tlv t c @ r)" c r] Optional_other [OF _ assms, of "at_pos pre (tlv t c)" c "[]"]
  by simp_all

lemma optional_at_end [codec_simps]: "Optional u (at_pos pre []) = (Absent, at_pos pre [])"
  by (simp add: Optional_end)

section \<open>Properties\<close>

text \<open>INTEGER contents: an \<^verbatim>\<open>int64\<close> is encoded in \<^verbatim>\<open>IntSize\<close> octets, no fewer octets
  of two's complement could hold it, and it decodes to itself.\<close>

theorem int_encoding:
  assumes "- (2 ^ 63) \<le> v" and "v < 2 ^ 63"
  shows "DecodeInt (AppendInt [] v) = Inr v \<and> length (AppendInt [] v) = IntSize v
    \<and> (\<forall>m > 0. IntSize v \<le> m \<longleftrightarrow> - (2 ^ (8 * m - 1)) \<le> v \<and> v < 2 ^ (8 * m - 1))"
proof -
  have ok: "int64_ok v" using assms by (simp add: int64_ok_def)
  show ?thesis using DecodeInt_AppendInt [OF ok] IntSize_le_iff by (simp add: AppendInt_def)
qed

theorem int_encoding_witness: "DecodeInt (AppendInt [] (-129)) = Inr (-129) \<and> AppendInt [] (-129) = [0xff, 0x7f]"
proof -
  have "AppendInt [] (-129) = [0xff, 0x7f]" by code_simp
  then show ?thesis using int_encoding [of "-129"] by simp
qed

end
