(* ===== verification/BerOid.thy ===== *)
theory BerOid
  imports BerPrim
begin

text \<open>
  Object identifiers (\<^verbatim>\<open>asn1/oid.go\<close>) and elements with their raw octets
  (\<^verbatim>\<open>asn1/span.go\<close>), which the security protocols sign.
\<close>

section \<open>Object identifiers\<close>

type_synonym OID = "32 word list"

text \<open>\<^verbatim>\<open>appendBase128\<close> is the digit loop of \<open>AppendTag\<close> again.\<close>

definition appendBase128 :: "byte list \<Rightarrow> 32 word \<Rightarrow> byte list" where
  "appendBase128 dst v = dst @ base128 v"

definition AppendOID :: "byte list \<Rightarrow> OID \<Rightarrow> byte list" where
  "AppendOID dst o1 =
     (if length o1 < 2 then dst
      else fold (\<lambda>arc dst. appendBase128 dst arc) (drop 2 o1)
             (appendBase128 dst (o1 ! 0 * 40 + o1 ! 1)))"

fun DecodeOID_loop :: "byte list \<Rightarrow> OID \<Rightarrow> 32 word \<Rightarrow> nat \<Rightarrow> (ber_error, OID) result" where
  "DecodeOID_loop [] o1 v n = (if n \<noteq> 0 then Inl (Err ErrTruncated) else Inr o1)"
| "DecodeOID_loop (b # r) o1 v n =
     (if n \<ge> 5 \<or> v > 0x1ffffff then Inl (Err ErrBadValue)
      else let v' = push_bit 7 v OR ucast (b AND 0x7f)
           in if b AND 0x80 = 0 then
                (if o1 = [] then
                   let first = v' div 40; first = (if first > 2 then 2 else first)
                   in DecodeOID_loop r (o1 @ [first, v' - first * 40]) 0 0
                 else DecodeOID_loop r (o1 @ [v']) 0 0)
              else DecodeOID_loop r o1 v' (n + 1))"

definition DecodeOID :: "byte list \<Rightarrow> (ber_error, OID) result" where
  "DecodeOID content = (if content = [] then Inl (Err ErrBadValue) else DecodeOID_loop content [] 0 0)"

definition OIDElem :: "Tag \<Rightarrow> OID \<Rightarrow> Element" where
  "OIDElem t o1 = Prim t (AppendOID [] o1)"

text \<open>The first two arcs share an octet group; only these pairs can be told apart.\<close>

definition oid_ok :: "OID \<Rightarrow> bool" where
  "oid_ok o1 = (length o1 \<ge> 2 \<and> (o1 ! 0 < 2 \<and> o1 ! 1 < 40 \<or> o1 ! 0 = 2 \<and> unat (o1 ! 1) < 2 ^ 32 - 80)
     \<and> length o1 < 2 ^ 29)"

lemma DecodeOID_continue:
  assumes "length (base128_loop v []) \<le> 5"
  shows "DecodeOID_loop (map (\<lambda>b. b OR 0x80) (base128_loop v []) @ r) o1 0 0
    = DecodeOID_loop r o1 v (length (base128_loop v []))"
  using assms
proof (induction "unat v" arbitrary: v r rule: less_induct)
  case less
  let ?c = "ucast (v AND 0x7f) :: byte"
  let ?m = "drop_bit 7 v"
  define hi where "hi = (if ?m = 0 then [] else base128_loop ?m [])"
  have ds: "base128_loop v [] = hi @ [?c]" by (simp add: base128_digits [of v] hi_def)
  have first: "DecodeOID_loop (map (\<lambda>b. b OR 0x80) hi @ s) o1 0 0 = DecodeOID_loop s o1 ?m (length hi)" for s
  proof (cases "?m = 0")
    case True
    then show ?thesis by (simp add: hi_def)
  next
    case False
    then show ?thesis using less.hyps [of ?m s] less.prems ds by (simp add: hi_def drop_bit_less)
  qed
  have "unat v < 2 ^ 32" using unsigned_less [of v] by simp
  then have "\<not> ?m > 0x1ffffff" by (simp add: word_less_nat_alt unat_drop_bit_div)
  then show ?case
    using first [of "(?c OR 0x80) # r"] ds less.prems base128_digit [of v] by simp
qed

lemma DecodeOID_arc:
  "DecodeOID_loop (base128 v @ r) o1 0 0 =
     (if o1 = [] then DecodeOID_loop r [min 2 (v div 40), v - min 2 (v div 40) * 40] 0 0
      else DecodeOID_loop r (o1 @ [v]) 0 0)"
proof -
  let ?c = "ucast (v AND 0x7f) :: byte"
  let ?m = "drop_bit 7 v"
  define hi where "hi = (if ?m = 0 then [] else base128_loop ?m [])"
  have ds: "base128_loop v [] = hi @ [?c]" by (simp add: base128_digits [of v] hi_def)
  have enc: "base128 v = map (\<lambda>b. b OR 0x80) hi @ [?c]" by (simp add: base128_def ds Let_def)
  have b32: "unat v < 2 ^ 32" using unsigned_less [of v] by simp
  have len: "length (base128_loop ?m []) \<le> 4"
    by (rule length_base128_loop [of _ 3, simplified]) (use b32 in \<open>simp add: unat_drop_bit_div\<close>)
  have first: "DecodeOID_loop (map (\<lambda>b. b OR 0x80) hi @ s) o1 0 0 = DecodeOID_loop s o1 ?m (length hi)" for s
    using DecodeOID_continue [of ?m s o1] len by (simp add: hi_def)
  have hi4: "length hi \<le> 4" using len by (simp add: hi_def)
  have small: "\<not> ?m > 0x1ffffff" using b32 by (simp add: word_less_nat_alt unat_drop_bit_div)
  show ?thesis
    using first [of "?c # r"] small hi4 base128_digit [of v]
    by (auto simp: enc min_def Let_def)
qed

lemma AppendOID_octets:
  "length o1 \<ge> 2 \<Longrightarrow> AppendOID dst o1 = dst @ base128 (o1 ! 0 * 40 + o1 ! 1) @ concat (map base128 (drop 2 o1))"
proof -
  have "fold (\<lambda>arc dst. appendBase128 dst arc) xs dst = dst @ concat (map base128 xs)" for xs dst
    by (induction xs arbitrary: dst) (simp_all add: appendBase128_def)
  then show "length o1 \<ge> 2 \<Longrightarrow> ?thesis" by (simp add: AppendOID_def appendBase128_def)
qed

lemma DecodeOID_arcs:
  "o1 \<noteq> [] \<Longrightarrow> DecodeOID_loop (concat (map base128 arcs)) o1 0 0 = Inr (o1 @ arcs)"
  by (induction arcs arbitrary: o1) (simp_all add: DecodeOID_arc)

lemma first_arcs:
  fixes a b :: "32 word"
  assumes "a < 2 \<and> b < 40 \<or> a = 2 \<and> unat b < 2 ^ 32 - 80"
  shows "min 2 ((a * 40 + b) div 40) = a" and "a * 40 + b - a * 40 = b"
proof -
  have ab: "unat a * 40 + unat b < 2 ^ 32" "unat a \<le> 2" "unat a < 2 \<longrightarrow> unat b < 40"
    using assms by (auto simp: word_less_nat_alt)
  then have "unat a * 40 < 2 ^ 32" by simp
  then have m: "unat (a * 40) = unat a * 40" by (simp add: unat_mult_lem [THEN iffD1])
  with ab(1) have s: "unat (a * 40 + b) = unat a * 40 + unat b" by (simp add: unat_add_lem [THEN iffD1])
  then have d: "unat ((a * 40 + b) div 40) = (unat a * 40 + unat b) div 40" by (simp add: unat_div)
  show "min 2 ((a * 40 + b) div 40) = a"
  proof (cases "unat a < 2")
    case True
    then have "unat ((a * 40 + b) div 40) = unat a" using d ab(3) by simp
    then have "(a * 40 + b) div 40 = a" by (rule unat_eqI)
    then show ?thesis using True by (simp add: min_def word_le_nat_alt)
  next
    case False
    then have "unat a = unat (2 :: 32 word)" using ab(2) by simp
    then have "a = 2" by (rule unat_eqI)
    moreover have "2 \<le> unat ((a * 40 + b) div 40)" using d \<open>a = 2\<close> by simp
    ultimately show ?thesis by (simp add: min_def word_le_nat_alt)
  qed
qed simp

lemma DecodeOID_AppendOID:
  assumes "oid_ok o1" shows "DecodeOID (AppendOID [] o1) = Inr o1"
proof -
  obtain a b r where o1: "o1 = a # b # r" using assms by (cases o1; cases "tl o1") (auto simp: oid_ok_def)
  have ab: "a < 2 \<and> b < 40 \<or> a = 2 \<and> unat b < 2 ^ 32 - 80" using assms by (simp add: oid_ok_def o1)
  have "base128 (a * 40 + b) \<noteq> []" by (simp add: base128_def Let_def)
  then show ?thesis
    using first_arcs [OF ab] by (simp add: DecodeOID_def AppendOID_octets o1 DecodeOID_arc DecodeOID_arcs)
qed

lemma DecodeOID_no_panic: "DecodeOID c \<noteq> Inl Panic"
proof -
  have "DecodeOID_loop c o1 v n \<noteq> Inl Panic" for o1 v n
    by (induction c o1 v n rule: DecodeOID_loop.induct) (simp_all add: Let_def)
  then show ?thesis by (simp add: DecodeOID_def)
qed

interpretation oid_codec: content_codec "AppendOID []" DecodeOID oid_ok
proof
  fix o1 assume ok: "oid_ok o1"
  show "DecodeOID (AppendOID [] o1) = Inr o1" using ok by (rule DecodeOID_AppendOID)
  have b5: "length (base128 v) \<le> 5" for v
  proof -
    have "unat v < 2 ^ 32" using unsigned_less [of v] by simp
    then show ?thesis using length_base128_loop [of v 4] by (simp add: length_base128)
  qed
  have "length (concat (map base128 xs)) \<le> 5 * length xs" for xs
    by (induction xs) (auto intro: add_mono b5)
  from this [of "drop 2 o1"] b5 [of "o1 ! 0 * 40 + o1 ! 1"] ok
  show "length (AppendOID [] o1) < 2 ^ 32" by (auto simp: AppendOID_octets oid_ok_def)
qed

section \<open>Spans\<close>

record Span =
  sp_Tag :: Tag
  sp_Full :: "byte list"
  sp_Content :: "byte list"
  sp_ContentEOC :: "byte list"
  sp_Indefinite :: bool

definition ReadSpan :: "Decoder \<Rightarrow> (ber_error, Span) result \<times> Decoder" where
  "ReadSpan d =
     (let start = d_off d in
      case readTag d of
        (Inl e, d1) \<Rightarrow> (Inl e, d1)
      | (Inr t, d1) \<Rightarrow>
          (case readLength d1 of
             (Inl e, d2) \<Rightarrow> (Inl e, d2)
           | (Inr (n, indefinite), d2) \<Rightarrow>
               let hdrEnd = d_off d2 in
               if \<not> indefinite then
                 (if int n > int (length (d_data d2)) - int (d_off d2) then (Inl (Err ErrTruncated), d2)
                  else let d3 = d2\<lparr>d_off := d_off d2 + n\<rparr> in
                    (rbind (go_slice (d_data d3) hdrEnd (d_off d3)) (\<lambda>c.
                     rbind (go_slice (d_data d3) start (d_off d3)) (\<lambda>full.
                     Inr \<lparr>sp_Tag = t, sp_Full = full, sp_Content = c, sp_ContentEOC = c, sp_Indefinite = False\<rparr>)), d3))
               else
                 case readTLV 0 (d2\<lparr>d_off := start\<rparr>) of
                   (Inl e, d3) \<Rightarrow> (Inl e, d3)
                 | (Inr (_, content), d3) \<Rightarrow>
                     (rbind (go_slice (d_data d3) start (d_off d3)) (\<lambda>full.
                      rbind (go_slice (d_data d3) hdrEnd (d_off d3)) (\<lambda>eoc.
                      Inr \<lparr>sp_Tag = t, sp_Full = full, sp_Content = content, sp_ContentEOC = eoc, sp_Indefinite = True\<rparr>)), d3)))"

definition PeekTag :: "Decoder \<Rightarrow> Tag option" where
  "PeekTag d = (if \<not> More d then None else case Peek d of Inl _ \<Rightarrow> None | Inr t \<Rightarrow> Some t)"


lemma scanContents_tag:
  "readTLV depth d = (Inr y, d') \<Longrightarrow> True"
  "scanContents depth t start d = (Inr y, d') \<Longrightarrow> \<exists>c. y = (t, c)"
proof (induction depth d and depth t start d rule: readTLV_scanContents.induct)
  case (2 depth t start d)
  from "2.prems" show ?case
    by (subst (asm) scanContents.simps) (auto split: sum.splits prod.splits bool.splits intro: "2.IH"(2))
qed simp

lemma scanContents_result:
  assumes "dec_ok d" and "start \<le> d_off d" and "scanContents depth t start d = (Inr y, d')"
  shows "d_off d \<le> d_off d' \<and> (\<exists>c. y = (t, c))"
proof -
  have "\<exists>c. y = (t, c)" using scanContents_tag(2) assms(3) by blast
  moreover have "read_spec d (scanContents depth t start d)"
    using readTLV_total readTLV_spec_partial(2) assms(1,2) by blast
  ultimately show ?thesis using assms(3) by (auto simp: advanced_def)
qed

text \<open>A span is the element \<open>ReadTLV\<close> reads, with the octets it stands in.\<close>

lemma ReadSpan_ReadTLV:
  assumes "dec_ok d"
  shows "case ReadTLV d of
      (Inl e, d') \<Rightarrow> fst (ReadSpan d) = Inl e
    | (Inr (t, c), d') \<Rightarrow> \<exists>s. ReadSpan d = (Inr s, d') \<and> sp_Tag s = t \<and> sp_Content s = c
        \<and> sp_Full s = take (d_off d' - d_off d) (drop (d_off d) (d_data d))
        \<and> (\<not> sp_Indefinite s \<longrightarrow> sp_ContentEOC s = c)"
proof -
  obtain r1 d1 where tag: "readTag d = (r1, d1)" by fastforce
  obtain r2 d2 where len: "readLength d1 = (r2, d2)" by fastforce
  have adv: "advanced d d1" "advanced d1 d2" using readTag_advanced(1) [OF tag] readLength_advanced(1) [OF len] .
  then have d2: "advanced d d2" by (blast intro: advanced_trans)
  then have rew: "d2\<lparr>d_off := d_off d\<rparr> = d" and dt: "d_data d2 = d_data d" and off: "d_off d \<le> d_off d2"
    and ok2: "d_off d2 \<le> length (d_data d)"
    using assms by (auto simp: advanced_def dec_ok_def)
  show ?thesis
  proof (cases r1)
    case (Inl e)
    then show ?thesis using tag by (simp add: ReadTLV_def readTLV.simps ReadSpan_def MaxDepth_def)
  next
    case (Inr t)
    note r1 = Inr
    show ?thesis
    proof (cases r2)
      case (Inl e)
      then show ?thesis using tag len r1 by (simp add: ReadTLV_def readTLV.simps ReadSpan_def MaxDepth_def)
    next
      case (Inr x)
      obtain n ind where x: "x = (n, ind)" by fastforce
      show ?thesis
      proof (cases ind)
        case False
        then show ?thesis using tag len r1 Inr x dt off ok2
          by (simp add: ReadTLV_def readTLV.simps [of 0 d] ReadSpan_def MaxDepth_def Let_def)
      next
        case True
        obtain r3 d3 where rd: "readTLV 0 d = (r3, d3)" by fastforce
        have rs: "read_spec d (r3, d3)" using readTLV_spec [OF assms, of 0] rd by simp
        have hdr: "d_off d2 \<le> d_off d3" "\<exists>c. r3 = Inr (t, c)" if "r3 = Inr y" for y
          using scanContents_result [of d2 "d_off d2" 0 t] tag len r1 Inr x True rd that ok2 dt
          by (auto simp: readTLV.simps [of 0 d] MaxDepth_def dec_ok_def split: if_splits)
        have rd': "readTLV 0 (d2\<lparr>d_off := d_off d\<rparr>) = (r3, d3)" using rd unfolding rew .
        show ?thesis
          using tag len r1 Inr x True rd rd' rs hdr dt assms
          by (cases r3) (auto simp: ReadTLV_def ReadSpan_def Let_def advanced_def dec_ok_def)
      qed
    qed
  qed
qed

section \<open>Properties\<close>

text \<open>OBJECT IDENTIFIER contents decode to the identifier they were made from, for every
  identifier X.660 allows whose arcs fit 32 bits.\<close>

theorem oid_roundtrip:
  assumes "oid_ok o1" shows "DecodeOID (AppendOID [] o1) = Inr o1"
  using assms by (rule DecodeOID_AppendOID)

theorem oid_roundtrip_witness: "DecodeOID (AppendOID [] [1, 0, 9506, 2, 3]) = Inr [1, 0, 9506, 2, 3]"
  by (rule oid_roundtrip) (simp add: oid_ok_def)

text \<open>\<^verbatim>\<open>ReadSpan\<close> agrees with \<^verbatim>\<open>ReadTLV\<close>: it fails exactly when \<^verbatim>\<open>ReadTLV\<close> does, and
  otherwise returns the same tag, content and cursor together with the octets read over.\<close>

theorem readspan_agrees:
  assumes "d_off d \<le> length (d_data d)"
  shows "case ReadTLV d of
      (Inl e, d') \<Rightarrow> fst (ReadSpan d) = Inl e
    | (Inr (t, c), d') \<Rightarrow> \<exists>s. ReadSpan d = (Inr s, d') \<and> sp_Tag s = t \<and> sp_Content s = c
        \<and> sp_Full s = take (d_off d' - d_off d) (drop (d_off d) (d_data d))"
  using ReadSpan_ReadTLV [of d] assms by (auto simp: dec_ok_def split: prod.splits sum.splits)

theorem readspan_agrees_witness:
  "\<exists>s d'. ReadSpan (NewDecoder [0x30, 3, 2, 1, 5, 9]) = (Inr s, d') \<and> sp_Content s = [2, 1, 5] \<and> sp_Full s = [0x30, 3, 2, 1, 5]"
proof -
  have "ReadTLV (NewDecoder [0x30, 3, 2, 1, 5, 9]) = (Inr (TagSequence, [2, 1, 5]), \<lparr>d_data = [0x30, 3, 2, 1, 5, 9], d_off = 5\<rparr>)"
    by code_simp
  then show ?thesis using readspan_agrees [of "NewDecoder [0x30, 3, 2, 1, 5, 9]"] by auto
qed

end
