(* ===== verification/BerBits.thy ===== *)
theory BerBits
  imports BerPrim
begin

text \<open>
  Bit strings (\<^verbatim>\<open>BitString\<close> of \<^verbatim>\<open>asn1/primitives.go\<close> and
  \<^verbatim>\<open>NamedBits\<close> of \<^verbatim>\<open>asn1/gentime.go\<close>). A well-formed bit string
  denotes a list of booleans (\<open>bits_of\<close>); reading, setting, encoding and decoding are shown
  to implement that view.
\<close>

section \<open>Bit strings\<close>

record BitString =
  Bits :: "byte list"
  Length :: int

definition NewBitString :: "nat \<Rightarrow> BitString" where
  "NewBitString n = \<lparr>Bits = replicate ((n + 7) div 8) 0, Length = int n\<rparr>"

text \<open>\<^verbatim>\<open>0x80 >> uint(i%8)\<close>\<close>

definition bit_mask :: "nat \<Rightarrow> byte" where
  "bit_mask i = drop_bit (i mod 8) 0x80"

definition Bit :: "BitString \<Rightarrow> int \<Rightarrow> (ber_error, bool) result" where
  "Bit bs i =
     (if i < 0 \<or> i \<ge> Length bs then Inr False
      else rbind (go_index (Bits bs) (nat i div 8)) (\<lambda>b. Inr (b AND bit_mask (nat i) \<noteq> 0)))"

definition SetBit :: "BitString \<Rightarrow> int \<Rightarrow> bool \<Rightarrow> (ber_error, BitString) result" where
  "SetBit bs i v =
     (if i < 0 \<or> i \<ge> Length bs then Inr bs
      else let k = nat i div 8 in
        rbind (go_index (Bits bs) k) (\<lambda>b.
          Inr (if v then bs\<lparr>Bits := (Bits bs)[k := b OR bit_mask (nat i)]\<rparr>
               else bs\<lparr>Bits := (Bits bs)[k := b AND NOT (bit_mask (nat i))]\<rparr>)))"

definition AppendBitString :: "byte list \<Rightarrow> BitString \<Rightarrow> byte list" where
  "AppendBitString dst bs =
     (let len = nat (max (Length bs) 0); need = (len + 7) div 8;
          dst1 = dst @ [byte_of (need * 8 - len)]
      in if length (Bits bs) \<ge> need then dst1 @ take need (Bits bs)
         else dst1 @ Bits bs @ replicate (need - length (Bits bs)) 0)"

definition DecodeBitString :: "byte list \<Rightarrow> (ber_error, BitString) result" where
  "DecodeBitString content =
     (if content = [] then Inl (Err ErrBadValue)
      else rbind (go_index content 0) (\<lambda>b0.
           rbind (go_slice content 1 (length content)) (\<lambda>bits.
           let pad = unat b0 in
           if pad > 7 \<or> (bits = [] \<and> pad \<noteq> 0) then Inl (Err ErrBadValue)
           else Inr \<lparr>Bits = bits, Length = int (length bits) * 8 - int pad\<rparr>)))"

definition BitStringElem :: "Tag \<Rightarrow> BitString \<Rightarrow> Element" where
  "BitStringElem t bs = Prim t (AppendBitString [] bs)"

fun SetBits :: "BitString \<Rightarrow> int list \<Rightarrow> (ber_error, BitString) result" where
  "SetBits bs [] = Inr bs"
| "SetBits bs (b # r) = rbind (SetBit bs b True) (\<lambda>bs'. SetBits bs' r)"

definition NamedBits :: "int list \<Rightarrow> (ber_error, byte list) result" where
  "NamedBits bits =
     (let m = foldl (\<lambda>m b. if b > m then b else m) (- 1) bits
      in if m < 0 then Inr [0]
         else rbind (SetBits (NewBitString (nat (m + 1))) bits) (\<lambda>bs. Inr (AppendBitString [] bs)))"

section \<open>The list of bits\<close>

definition bs_ok :: "BitString \<Rightarrow> bool" where
  "bs_ok bs = (0 \<le> Length bs \<and> length (Bits bs) = (nat (Length bs) + 7) div 8)"

definition bits_of :: "BitString \<Rightarrow> bool list" where
  "bits_of bs = map (\<lambda>i. bit (Bits bs ! (i div 8)) (7 - i mod 8)) [0..<nat (Length bs)]"

lemma bit_mask_exp: "bit_mask i = 2 ^ (7 - i mod 8)"
proof -
  have "i mod 8 < 8" by simp
  then have "i mod 8 \<in> {0,1,2,3,4,5,6,7}" by auto
  then show ?thesis by (auto simp: bit_mask_def drop_bit_eq_div)
qed

lemma bit_mask_bit: "bit (bit_mask i) k \<longleftrightarrow> k = 7 - i mod 8"
  by (auto simp: bit_mask_exp bit_simps)

lemma and_bit_mask: "b AND bit_mask i \<noteq> 0 \<longleftrightarrow> bit b (7 - i mod 8)"
  by (simp add: bit_mask_exp and_exp_zero)

lemma bs_ok_index: "bs_ok bs \<Longrightarrow> i < nat (Length bs) \<Longrightarrow> i div 8 < length (Bits bs)"
  by (auto simp: bs_ok_def)

lemma length_bits_of [simp]: "length (bits_of bs) = nat (Length bs)"
  by (simp add: bits_of_def)

lemma nth_bits_of [simp]: "i < nat (Length bs) \<Longrightarrow> bits_of bs ! i = bit (Bits bs ! (i div 8)) (7 - i mod 8)"
  by (simp add: bits_of_def)

lemma Bit_bits_of:
  "bs_ok bs \<Longrightarrow> Bit bs i = Inr (0 \<le> i \<and> nat i < length (bits_of bs) \<and> bits_of bs ! nat i)"
  using bs_ok_index [of bs "nat i"] by (auto simp: Bit_def and_bit_mask nat_less_iff)

lemma same_bit:
  assumes "i div 8 = k div 8" "7 - i mod 8 = 7 - k mod 8" shows "i = (k :: nat)"
proof -
  have "i mod 8 < 8" "k mod 8 < 8" by simp_all
  then have "i mod 8 = k mod 8" using assms(2) by linarith
  then show ?thesis using assms(1) by (metis div_mult_mod_eq)
qed

lemma SetBit_bits_of:
  assumes "bs_ok bs"
  shows "\<exists>bs'. SetBit bs i v = Inr bs' \<and> bs_ok bs' \<and> Length bs' = Length bs
    \<and> bits_of bs' = (if 0 \<le> i then (bits_of bs)[nat i := v] else bits_of bs)"
proof (cases "i < 0 \<or> i \<ge> Length bs")
  case True
  then show ?thesis using assms by (auto simp: SetBit_def list_update_beyond)
next
  case False
  define k where "k = nat i"
  have k: "k < nat (Length bs)" using False by (auto simp: k_def)
  then have idx: "k div 8 < length (Bits bs)" using bs_ok_index [OF assms] by simp
  define b where "b = (if v then (Bits bs ! (k div 8)) OR bit_mask k else (Bits bs ! (k div 8)) AND NOT (bit_mask k))"
  define bs' where "bs' = bs\<lparr>Bits := (Bits bs)[k div 8 := b]\<rparr>"
  have bb: "bit b j \<longleftrightarrow> (if j = 7 - k mod 8 then v else bit (Bits bs ! (k div 8)) j)" if "j < 8" for j
    using that by (auto simp: b_def bit_or_iff bit_and_iff bit_not_iff bit_mask_bit)
  have "SetBit bs i v = Inr bs'"
    using False idx by (auto simp: SetBit_def Let_def bs'_def b_def k_def [symmetric])
  moreover have "bs_ok bs'" "Length bs' = Length bs" using assms by (simp_all add: bs_ok_def bs'_def)
  moreover have "bits_of bs' = (bits_of bs)[k := v]"
  proof (rule nth_equalityI)
    fix j assume "j < length (bits_of bs')"
    then have j: "j < nat (Length bs)" by (simp add: bs'_def)
    then show "bits_of bs' ! j = (bits_of bs)[k := v] ! j"
      using idx k bb [of "7 - j mod 8"] same_bit [of j k]
      by (cases "j = k"; cases "j div 8 = k div 8") (auto simp: bs'_def)
  qed (simp add: bs'_def)
  ultimately show ?thesis using False by (auto simp: k_def)
qed

section \<open>Round trips\<close>

abbreviation bits_octets :: "BitString \<Rightarrow> byte list" where "bits_octets \<equiv> AppendBitString []"

lemma bs_ok_New [simp]: "bs_ok (NewBitString n)"
  by (simp add: bs_ok_def NewBitString_def)

lemma NewBitString_Length [simp]: "Length (NewBitString n) = int n"
  by (simp add: NewBitString_def)

lemma bits_of_New [simp]: "bits_of (NewBitString n) = replicate n False"
proof (rule nth_equalityI)
  fix i assume "i < length (bits_of (NewBitString n))"
  then have "i < n" by (simp add: NewBitString_def)
  then have "i div 8 < (n + 7) div 8" by auto
  with \<open>i < n\<close> show "bits_of (NewBitString n) ! i = replicate n False ! i"
    by (simp add: NewBitString_def)
qed (simp add: NewBitString_def)

lemma bits_octets_ok:
  "bs_ok bs \<Longrightarrow> bits_octets bs = byte_of (length (Bits bs) * 8 - nat (Length bs)) # Bits bs"
  by (auto simp: AppendBitString_def bs_ok_def Let_def)

lemma DecodeBitString_bits_octets:
  assumes "bs_ok bs" shows "DecodeBitString (bits_octets bs) = Inr bs"
proof -
  define pad where "pad = length (Bits bs) * 8 - nat (Length bs)"
  have len: "length (Bits bs) = (nat (Length bs) + 7) div 8" "0 \<le> Length bs"
    using assms by (simp_all add: bs_ok_def)
  then have pad: "pad \<le> 7" "int (length (Bits bs)) * 8 - int pad = Length bs"
    unfolding pad_def by linarith+
  have "Bits bs = [] \<Longrightarrow> pad = 0" by (simp add: pad_def)
  note pad = pad this
  show ?thesis
    using bits_octets_ok [OF assms] pad by (auto simp: DecodeBitString_def pad_def [symmetric])
qed

lemma DecodeBitString_ok:
  assumes "DecodeBitString c = Inr bs"
  shows "bs_ok bs" and "bits_octets bs = c"
proof -
  obtain b0 bits where c: "c = b0 # bits" using assms by (cases c) (auto simp: DecodeBitString_def)
  have pad: "unat b0 \<le> 7" "bits = [] \<longrightarrow> unat b0 = 0"
    and bs: "bs = \<lparr>Bits = bits, Length = int (length bits) * 8 - int (unat b0)\<rparr>"
    using assms c by (auto simp: DecodeBitString_def Let_def split: if_splits)
  have le: "unat b0 \<le> length bits * 8" using pad by (cases bits) auto
  then have "Length bs = int (length bits * 8 - unat b0)" by (simp add: bs of_nat_diff)
  with le have len: "0 \<le> Length bs" "nat (Length bs) = length bits * 8 - unat b0" "unat b0 \<le> length bits * 8"
    by (simp_all only: nat_int of_nat_0_le_iff)
  have "(length bits * 8 - unat b0 + 7) div 8 = length bits" using pad(1) len(3) by linarith
  then show ok: "bs_ok bs" using len(1,2) unfolding bs_ok_def by (simp add: bs)
  have "length bits * 8 - (length bits * 8 - unat b0) = unat b0" using len(3) by simp
  then show "bits_octets bs = c"
    using bits_octets_ok [OF ok] len(2) by (simp add: c bs)
qed

lemma DecodeBitString_no_panic: "DecodeBitString c \<noteq> Inl Panic"
  by (cases c) (auto simp: DecodeBitString_def Let_def)

definition bs_codec_ok :: "BitString \<Rightarrow> bool" where
  "bs_codec_ok bs = (bs_ok bs \<and> length (Bits bs) < 2 ^ 31)"

interpretation bits_codec: content_codec "AppendBitString []" DecodeBitString bs_codec_ok
proof
  fix bs assume "bs_codec_ok bs"
  then have "bs_ok bs" "length (Bits bs) < 2 ^ 31" by (simp_all add: bs_codec_ok_def)
  then show "DecodeBitString (bits_octets bs) = Inr bs" "length (bits_octets bs) < 2 ^ 32"
    by (simp_all add: DecodeBitString_bits_octets, simp add: bits_octets_ok)
qed

text \<open>A loop of \<open>SetBit\<close> sets exactly the positions of its list.\<close>

lemma SetBits_bits_of:
  assumes "bs_ok bs"
  shows "\<exists>bs'. SetBits bs is = Inr bs' \<and> bs_ok bs' \<and> Length bs' = Length bs
    \<and> (\<forall>i < nat (Length bs). bits_of bs' ! i \<longleftrightarrow> bits_of bs ! i \<or> int i \<in> set is)"
  using assms
proof (induction "is" arbitrary: bs)
  case Nil
  then show ?case by simp
next
  case (Cons b r)
  from SetBit_bits_of [OF Cons.prems, of b True] obtain bs1
    where s1: "SetBit bs b True = Inr bs1" "bs_ok bs1" "Length bs1 = Length bs"
      and b1: "bits_of bs1 = (if 0 \<le> b then (bits_of bs)[nat b := True] else bits_of bs)" by blast
  from Cons.IH [OF s1(2)] obtain bs2
    where s2: "SetBits bs1 r = Inr bs2" "bs_ok bs2" "Length bs2 = Length bs1"
      and b2: "\<forall>i < nat (Length bs1). bits_of bs2 ! i \<longleftrightarrow> bits_of bs1 ! i \<or> int i \<in> set r" by blast
  have "bits_of bs2 ! i \<longleftrightarrow> bits_of bs ! i \<or> int i \<in> set (b # r)" if "i < nat (Length bs)" for i
    using b2 s1(3) that by (cases "nat b = i") (auto simp: b1 nth_list_update split: if_splits)
  with s1 s2 show ?case by auto
qed

lemma foldl_max: "foldl (\<lambda>m b. if b > m then b else m) m (bs :: int list) = Max (insert m (set bs))"
proof (induction bs arbitrary: m)
  case (Cons b bs)
  have "Max (insert m (insert b (set bs))) = Max (insert (max m b) (set bs))"
    by (cases "set bs = {}") (simp_all add: Max.insert max.assoc)
  with Cons show ?case by (auto simp: max_def)
qed simp

lemma NamedBits_spec:
  assumes "\<exists>b \<in> set bits. 0 \<le> b"
  shows "\<exists>c bs. NamedBits bits = Inr c \<and> DecodeBitString c = Inr bs
    \<and> Length bs = Max (set bits) + 1 \<and> (\<forall>i. Bit bs i = Inr (0 \<le> i \<and> i \<in> set bits))"
proof -
  have ne: "set bits \<noteq> {}" using assms by auto
  then have "Max (insert (- 1) (set bits)) = max (- 1) (Max (set bits))" by (simp add: Max_insert)
  moreover have "0 \<le> Max (set bits)" using assms by (meson List.finite_set Max_ge order_trans)
  ultimately have m: "Max (insert (- 1) (set bits)) = Max (set bits)" "0 \<le> Max (set bits)" by auto
  define n where "n = nat (Max (set bits) + 1)"
  have n: "int n = Max (set bits) + 1" using m(2) by (simp add: n_def)
  from SetBits_bits_of [of "NewBitString n" bits] obtain bs
    where s: "SetBits (NewBitString n) bits = Inr bs" "bs_ok bs" "Length bs = int n"
      and b: "\<forall>i < n. bits_of bs ! i \<longleftrightarrow> int i \<in> set bits"
    by (auto simp: NewBitString_Length simp del: nth_bits_of)
  have "NamedBits bits = Inr (bits_octets bs)"
    using s(1) m by (simp add: NamedBits_def foldl_max Let_def n_def)
  moreover have "Bit bs i = Inr (0 \<le> i \<and> i \<in> set bits)" for i
  proof -
    have "i < int n" if "i \<in> set bits" using that n by (simp add: less_le_trans Max_ge [THEN le_imp_less_Suc] zle_add1_eq_le)
    then show ?thesis using b s(3) by (auto simp: Bit_bits_of [OF s(2)] simp del: nth_bits_of)
  qed
  ultimately show ?thesis using s(2,3) n by (auto simp: DecodeBitString_bits_octets)
qed

section \<open>Properties\<close>

text \<open>BIT STRING contents: \<^verbatim>\<open>DecodeBitString\<close> accepts exactly the octets that
  \<^verbatim>\<open>AppendBitString\<close> writes for a well-formed bit string, and returns that bit string.\<close>

theorem bitstring_codec:
  "DecodeBitString c = Inr bs \<longleftrightarrow> bs_ok bs \<and> AppendBitString [] bs = c"
  using DecodeBitString_ok DecodeBitString_bits_octets by metis

text \<open>A bit string refines a list of booleans: on a well-formed one, \<^verbatim>\<open>SetBit\<close> is an
  update of the list and \<^verbatim>\<open>Bit\<close> reads it, out of range positions included, without a panic.\<close>

theorem bitstring_refines_list:
  assumes "bs_ok bs"
  shows "\<exists>bs'. SetBit bs i v = Inr bs' \<and> bs_ok bs' \<and> bits_of bs' = (if 0 \<le> i then (bits_of bs)[nat i := v] else bits_of bs)
    \<and> (\<forall>j. Bit bs' j = Inr (0 \<le> j \<and> nat j < length (bits_of bs') \<and> bits_of bs' ! nat j))"
  using SetBit_bits_of [OF assms, of i v] Bit_bits_of by blast

theorem bitstring_refines_list_witness:
  "\<exists>bs'. SetBit (NewBitString 13) 11 True = Inr bs' \<and> Bit bs' 11 = Inr True \<and> Bit bs' 13 = Inr False"
  using bitstring_refines_list [of "NewBitString 13" 11 True] by (auto simp del: length_bits_of)

end
