(* ===== verification/GoFloat.thy ===== *)
theory GoFloat
  imports BerPrim
begin

text \<open>
  Floating point as the codecs use it: a \<^verbatim>\<open>float32\<close> or \<^verbatim>\<open>float64\<close> is its
  IEEE 754 bit pattern (\<^verbatim>\<open>math.Float32bits\<close>), the two conversions of the language between
  them, and the MMS FloatingPoint content octets of \<^verbatim>\<open>asn1/primitives.go\<close>.
\<close>

section \<open>Conversions\<close>

type_synonym float32 = "32 word"
type_synonym float64 = "64 word"

fun log2 :: "nat \<Rightarrow> nat" where
  "log2 n = (if n < 2 then 0 else Suc (log2 (n div 2)))"

declare log2.simps [simp del]

text \<open>Fields of a pattern: sign, biased exponent and fraction.\<close>

definition f32_sign :: "float32 \<Rightarrow> nat" where "f32_sign w = unat w div 2 ^ 31"
definition f32_exp :: "float32 \<Rightarrow> nat" where "f32_exp w = unat w div 2 ^ 23 mod 2 ^ 8"
definition f32_frac :: "float32 \<Rightarrow> nat" where "f32_frac w = unat w mod 2 ^ 23"
definition f64_sign :: "float64 \<Rightarrow> nat" where "f64_sign w = unat w div 2 ^ 63"
definition f64_exp :: "float64 \<Rightarrow> nat" where "f64_exp w = unat w div 2 ^ 52 mod 2 ^ 11"
definition f64_frac :: "float64 \<Rightarrow> nat" where "f64_frac w = unat w mod 2 ^ 52"

definition f32_nan :: "float32 \<Rightarrow> bool" where "f32_nan w = (f32_exp w = 255 \<and> f32_frac w \<noteq> 0)"
definition f64_nan :: "float64 \<Rightarrow> bool" where "f64_nan w = (f64_exp w = 2047 \<and> f64_frac w \<noteq> 0)"

text \<open>\<^verbatim>\<open>float64(x)\<close>: exact; a NaN becomes quiet.\<close>

definition float64_of_float32 :: "float32 \<Rightarrow> float64" where
  "float64_of_float32 w =
     (let s = f32_sign w; e = f32_exp w; m = f32_frac w;
          mag = (if e = 255 then 2047 * 2 ^ 52 + (if m = 0 then 0 else m * 2 ^ 29 OR 2 ^ 51)
                 else if e \<noteq> 0 then (e + 896) * 2 ^ 52 + m * 2 ^ 29
                 else if m = 0 then 0
                 else let k = log2 m in (k + 874) * 2 ^ 52 + (m - 2 ^ k) * 2 ^ (52 - k))
      in word_of_nat (s * 2 ^ 63 + mag))"

text \<open>\<^verbatim>\<open>int64(x)\<close>: towards zero; out of range, where the language leaves the result to the
  implementation, the least integer (amd64).\<close>

definition int64_of_float64 :: "float64 \<Rightarrow> int" where
  "int64_of_float64 w =
     (let e = f64_exp w; m = 2 ^ 52 + f64_frac w;
          mag = (if e < 1023 then 0 else if e \<ge> 1075 then m * 2 ^ (e - 1075) else m div 2 ^ (1075 - e));
          v = (if f64_sign w = 1 then - int mag else int mag)
      in if e \<ge> 1087 \<or> v < - (2 ^ 63) \<or> v \<ge> 2 ^ 63 then - (2 ^ 63) else v)"

text \<open>\<^verbatim>\<open>float32(x)\<close>: to nearest, ties to even.\<close>

definition round_even :: "nat \<Rightarrow> nat \<Rightarrow> nat" where
  "round_even m k =
     (let q = m div 2 ^ k; r = m mod 2 ^ k
      in if 2 * r > 2 ^ k \<or> (2 * r = 2 ^ k \<and> odd q) then q + 1 else q)"

definition float32_of_float64 :: "float64 \<Rightarrow> float32" where
  "float32_of_float64 w =
     (let s = f64_sign w; e = f64_exp w; m = f64_frac w;
          mag = (if e = 2047 then 255 * 2 ^ 23 + (if m = 0 then 0 else m div 2 ^ 29 OR 2 ^ 22)
                 else if e = 0 then 0
                 else let bits = (if e \<ge> 897 then (e - 897) * 2 ^ 23 + round_even (2 ^ 52 + m) 29
                                  else round_even (2 ^ 52 + m) (29 + (897 - e)))
                      in min bits (255 * 2 ^ 23))
      in word_of_nat (s * 2 ^ 31 + mag))"

section \<open>Content octets\<close>

definition AppendFloat32 :: "byte list \<Rightarrow> float32 \<Rightarrow> byte list" where
  "AppendFloat32 dst v = dst @ 8 # be_bytes 4 (unat v)"

definition AppendFloat64 :: "byte list \<Rightarrow> float64 \<Rightarrow> byte list" where
  "AppendFloat64 dst v = dst @ 11 # be_bytes 8 (unat v)"

definition DecodeFloat :: "byte list \<Rightarrow> (ber_error, float64) result" where
  "DecodeFloat content =
     (if length content = 5 then
        rbind (go_index content 0) (\<lambda>w.
          if w \<noteq> 8 then Inl (Err ErrBadValue)
          else Inr (float64_of_float32 (word_of_nat (be_nat (drop 1 content)))))
      else if length content = 9 then
        rbind (go_index content 0) (\<lambda>w.
          if w \<noteq> 11 then Inl (Err ErrBadValue)
          else Inr (word_of_nat (be_nat (drop 1 content))))
      else Inl (Err ErrBadValue))"

section \<open>Properties\<close>

lemma log2_bounds: "0 < n \<Longrightarrow> 2 ^ log2 n \<le> n \<and> n < 2 ^ Suc (log2 n)"
proof (induction n rule: log2.induct)
  case (1 n)
  show ?case
  proof (cases "n < 2")
    case True
    with "1.prems" show ?thesis by (simp add: log2.simps [of n])
  next
    case False
    with "1.IH" have "2 ^ log2 (n div 2) \<le> n div 2" "n div 2 < 2 ^ Suc (log2 (n div 2))" by auto
    then have "2 * 2 ^ log2 (n div 2) \<le> n" "n < 2 * 2 ^ Suc (log2 (n div 2))" by linarith+
    with False show ?thesis by (simp add: log2.simps [of n])
  qed
qed

lemma round_even_exact [simp]: "round_even (m * 2 ^ k) k = m"
  by (simp add: round_even_def)

lemma unat_word64: "n < 2 ^ 64 \<Longrightarrow> unat (word_of_nat n :: 64 word) = n"
  and unat_word32: "n < 2 ^ 32 \<Longrightarrow> unat (word_of_nat n :: 32 word) = n"
  by (simp_all add: unat_of_nat)

text \<open>The fields of a pattern built from them.\<close>

lemma f64_fields:
  assumes "s \<le> 1" "e < 2048" "m < 2 ^ 52"
  shows "f64_sign (word_of_nat (s * 2 ^ 63 + (e * 2 ^ 52 + m))) = s"
    and "f64_exp (word_of_nat (s * 2 ^ 63 + (e * 2 ^ 52 + m))) = e"
    and "f64_frac (word_of_nat (s * 2 ^ 63 + (e * 2 ^ 52 + m))) = m"
proof -
  have "s * 2 ^ 63 + (e * 2 ^ 52 + m) < 2 ^ 64"
  proof -
    have "s * 2 ^ 63 \<le> 1 * 2 ^ 63" using assms(1) by (rule mult_right_mono) simp
    moreover have "e * 2 ^ 52 \<le> 2047 * 2 ^ 52" using assms(2) by (intro mult_right_mono) simp_all
    ultimately show ?thesis using assms(3) by simp
  qed
  then have u: "unat (word_of_nat (s * 2 ^ 63 + (e * 2 ^ 52 + m)) :: 64 word) = s * 2 ^ 63 + (e * 2 ^ 52 + m)"
    by (rule unat_word64)
  have d52: "(s * 2 ^ 63 + (e * 2 ^ 52 + m)) div 2 ^ 52 = s * 2 ^ 11 + e"
    and m52: "(s * 2 ^ 63 + (e * 2 ^ 52 + m)) mod 2 ^ 52 = m"
  proof -
    have eq: "s * 2 ^ 63 + (e * 2 ^ 52 + m) = (s * 2 ^ 11 + e) * 2 ^ 52 + m" by simp
    show "(s * 2 ^ 63 + (e * 2 ^ 52 + m)) div 2 ^ 52 = s * 2 ^ 11 + e" unfolding eq using assms(3) by simp
    show "(s * 2 ^ 63 + (e * 2 ^ 52 + m)) mod 2 ^ 52 = m" unfolding eq mod_mult_self3 using assms(3) by (rule mod_less)
  qed
  have "(s * 2 ^ 63 + (e * 2 ^ 52 + m)) div 2 ^ 63 = (s * 2 ^ 63 + (e * 2 ^ 52 + m)) div 2 ^ 52 div 2 ^ 11"
    by (simp add: div_mult2_eq [symmetric])
  also have "\<dots> = s" unfolding d52 using assms(2) by simp
  finally show "f64_sign (word_of_nat (s * 2 ^ 63 + (e * 2 ^ 52 + m))) = s" unfolding f64_sign_def u .
  show "f64_exp (word_of_nat (s * 2 ^ 63 + (e * 2 ^ 52 + m))) = e" unfolding f64_exp_def u d52 using assms(2) by simp
  show "f64_frac (word_of_nat (s * 2 ^ 63 + (e * 2 ^ 52 + m))) = m" unfolding f64_frac_def u m52 ..
qed

lemma f32_parts: "unat w = f32_sign w * 2 ^ 31 + (f32_exp w * 2 ^ 23 + f32_frac w)"
  and f32_bounds: "f32_sign w \<le> 1" "f32_exp w < 256" "f32_frac w < 2 ^ 23"
proof -
  have "unat w div 2 ^ 31 = unat w div 2 ^ 23 div 2 ^ 8" by (simp add: div_mult2_eq [symmetric])
  then have "f32_sign w * 2 ^ 8 + f32_exp w = unat w div 2 ^ 23" by (simp add: f32_sign_def f32_exp_def)
  moreover have "unat w div 2 ^ 23 * 2 ^ 23 + f32_frac w = unat w" by (simp add: f32_frac_def)
  ultimately show "unat w = f32_sign w * 2 ^ 31 + (f32_exp w * 2 ^ 23 + f32_frac w)" by simp
  have "unat w < 2 ^ 32" using unsigned_less [of w] by simp
  then show "f32_sign w \<le> 1" by (simp add: f32_sign_def)
qed (simp_all add: f32_exp_def f32_frac_def)


text \<open>Widening and narrowing again gives the value back; only a signalling NaN changes.\<close>

lemma float32_roundtrip:
  assumes "\<not> f32_nan w" shows "float32_of_float64 (float64_of_float32 w) = w"
proof -
  define s e m where "s = f32_sign w" and "e = f32_exp w" and "m = f32_frac w"
  note b = f32_bounds [of w, folded s_def e_def m_def]
  have w: "w = word_of_nat (s * 2 ^ 31 + (e * 2 ^ 23 + m))"
    unfolding s_def e_def m_def f32_parts [of w, symmetric] by simp
  have m52: "m * 2 ^ 29 < 2 ^ 52" using b(3) by simp
  consider (inf) "e = 255" "m = 0" | (normal) "e \<noteq> 255" "e \<noteq> 0" | (zero) "e = 0" "m = 0" | (sub) "e = 0" "m \<noteq> 0"
    using assms by (auto simp: f32_nan_def e_def m_def)
  then show ?thesis
  proof cases
    case inf
    have "float64_of_float32 w = word_of_nat (s * 2 ^ 63 + (2047 * 2 ^ 52 + 0))"
      using inf by (simp add: float64_of_float32_def s_def e_def m_def Let_def)
    then show ?thesis
      using f64_fields [of s 2047 0] b(1) w inf by (simp add: float32_of_float64_def Let_def)
  next
    case normal
    have f: "float64_of_float32 w = word_of_nat (s * 2 ^ 63 + ((e + 896) * 2 ^ 52 + m * 2 ^ 29))"
      using normal by (simp only: float64_of_float32_def s_def e_def m_def Let_def) simp
    have "e + 896 < 2048" "e + 896 \<noteq> 2047" "897 \<le> e + 896" "e + 896 \<noteq> 0" using b(2) normal by auto
    note fl = f64_fields [OF b(1) this(1) m52, folded f] and ne = this(2-4)
    have "round_even (2 ^ 52 + m * 2 ^ 29) 29 = round_even ((2 ^ 23 + m) * 2 ^ 29) 29" by (simp add: algebra_simps)
    then have r: "round_even (2 ^ 52 + m * 2 ^ 29) 29 = 2 ^ 23 + m" by (simp only: round_even_exact)
    have "(e + 896 - 897) * 2 ^ 23 + (2 ^ 23 + m) = e * 2 ^ 23 + m" using normal by (cases e) simp_all
    moreover have "e * 2 ^ 23 + m \<le> 255 * 2 ^ 23"
    proof -
      have "e * 2 ^ 23 \<le> 254 * 2 ^ 23" using b(2) normal by (intro mult_right_mono) simp_all
      then show ?thesis using b(3) by simp
    qed
    ultimately show ?thesis
      using fl ne r w by (simp add: float32_of_float64_def Let_def min_absorb1)
  next
    case zero
    have "float64_of_float32 w = word_of_nat (s * 2 ^ 63 + (0 * 2 ^ 52 + 0))"
      using zero by (simp add: float64_of_float32_def s_def e_def m_def Let_def)
    then show ?thesis using f64_fields [of s 0 0] b(1) w zero by (simp add: float32_of_float64_def Let_def)
  next
    case sub
    define k where "k = log2 m"
    have k: "2 ^ k \<le> m" "m < 2 ^ Suc k" using log2_bounds [of m] sub by (simp_all add: k_def)
    have "(2::nat) ^ k < 2 ^ 23" using k(1) b(3) by (rule le_less_trans)
    then have k23: "k < 23" by (rule power_less_imp_less_exp [rotated]) simp
    have f: "float64_of_float32 w = word_of_nat (s * 2 ^ 63 + ((k + 874) * 2 ^ 52 + (m - 2 ^ k) * 2 ^ (52 - k)))"
      using sub by (simp only: float64_of_float32_def s_def e_def m_def Let_def k_def) simp
    have "(m - 2 ^ k) < 2 ^ k" using k by simp
    then have "(m - 2 ^ k) * 2 ^ (52 - k) < 2 ^ k * 2 ^ (52 - k)" by simp
    also have "(2::nat) ^ k * 2 ^ (52 - k) = 2 ^ 52" using k23 by (simp add: power_add [symmetric])
    finally have fr: "(m - 2 ^ k) * 2 ^ (52 - k) < 2 ^ 52" .
    have "k + 874 < 2048" using k23 by simp
    note fl = f64_fields [OF b(1) this fr, folded f]
    have "(2::nat) ^ 52 + (m - 2 ^ k) * 2 ^ (52 - k) = 2 ^ k * 2 ^ (52 - k) + (m - 2 ^ k) * 2 ^ (52 - k)"
      using k23 by (simp add: power_add [symmetric])
    also have "\<dots> = m * 2 ^ (52 - k)" using k(1) by (simp add: add_mult_distrib [symmetric])
    finally have M: "(2::nat) ^ 52 + (m - 2 ^ k) * 2 ^ (52 - k) = m * 2 ^ (52 - k)" .
    have sh: "29 + (897 - (k + 874)) = 52 - k" using k23 by simp
    have "m \<le> 255 * 2 ^ 23" using b(3) by simp
    then show ?thesis
      using fl M sh k23 w sub by (simp add: float32_of_float64_def Let_def min_absorb1)
  qed
qed

lemma DecodeFloat_AppendFloat32: "DecodeFloat (AppendFloat32 [] v) = Inr (float64_of_float32 v)"
proof -
  have "be_nat (be_bytes 4 (unat v)) = unat v"
    using unsigned_less [of v] by (intro be_nat_be_bytes_small) simp
  then show ?thesis by (simp add: DecodeFloat_def AppendFloat32_def)
qed

lemma DecodeFloat_AppendFloat64: "DecodeFloat (AppendFloat64 [] v) = Inr v"
proof -
  have "be_nat (be_bytes 8 (unat v)) = unat v"
    using unsigned_less [of v] by (intro be_nat_be_bytes_small) simp
  then show ?thesis by (simp add: DecodeFloat_def AppendFloat64_def)
qed

lemma DecodeFloat_no_panic: "DecodeFloat c \<noteq> Inl Panic"
  by (cases c) (auto simp: DecodeFloat_def)

interpretation float64_codec: content_codec "AppendFloat64 []" DecodeFloat "\<lambda>_. True"
  by unfold_locales (simp add: DecodeFloat_AppendFloat64, simp add: AppendFloat64_def)

end
