(* ===== verification/MmsValue.thy ===== *)
theory MmsValue
  imports BerBits BerOid GoFloat
begin

text \<open>
  The MMS data value of \<^verbatim>\<open>mms/value.go\<close>: the tagged union, its constructors and
  accessors, bit access, times, and deep equality.
\<close>

section \<open>Values\<close>

datatype Type =
    TypeNone | TypeArray | TypeStructure | TypeBoolean | TypeBitString | TypeInteger | TypeUnsigned
  | TypeFloat32 | TypeFloat64 | TypeOctetString | TypeVisibleString | TypeGeneralizedTime | TypeBinaryTime
  | TypeMMSString | TypeUTCTime | TypeDataAccessError

text \<open>A \<^verbatim>\<open>*Value\<close>: the nil pointer, or the struct's fields in order. Strings are their octets.\<close>

datatype Value =
    NilValue
  | Value (v_typ: Type) (v_num: int) (v_flt: float64) (v_bytes: "byte list") (v_bitLen: int)
      (v_children: "Value list")

datatype mms_error = Asn1 ber_error | UtcTimeLength | TimeOfDayLength

fun lift_ber :: "(ber_error, 'a) result \<Rightarrow> (mms_error, 'a) result" where
  "lift_ber (Inr x) = Inr x"
| "lift_ber (Inl Panic) = Inl Panic"
| "lift_ber (Inl (Err e)) = Inl (Err (Asn1 e))"

definition lift_dec :: "(ber_error, 'a) result \<times> 's \<Rightarrow> (mms_error, 'a) result \<times> 's" where
  "lift_dec p = (lift_ber (fst p), snd p)"

lemma lift_dec_simps [simp]: "lift_dec (r, d) = (lift_ber r, d)"
  by (simp add: lift_dec_def)

text \<open>\<^verbatim>\<open>int64(n)\<close> of an unsigned and \<^verbatim>\<open>uint64(v)\<close> of a signed value.\<close>

definition int64_of :: "nat \<Rightarrow> int" where
  "int64_of n = (let m = int n mod 2 ^ 64 in if m \<ge> 2 ^ 63 then m - 2 ^ 64 else m)"

definition uint64_of :: "int \<Rightarrow> nat" where
  "uint64_of v = nat (v mod 2 ^ 64)"

definition NewBool :: "bool \<Rightarrow> Value" where
  "NewBool v = Value TypeBoolean (if v then 1 else 0) 0 [] 0 []"

definition NewInt64 :: "int \<Rightarrow> Value" where "NewInt64 v = Value TypeInteger v 0 [] 0 []"
definition NewInt8 :: "8 word \<Rightarrow> Value" where "NewInt8 v = Value TypeInteger (sint v) 0 [] 0 []"
definition NewInt32 :: "32 word \<Rightarrow> Value" where "NewInt32 v = Value TypeInteger (sint v) 0 [] 0 []"
definition NewUint8 :: "8 word \<Rightarrow> Value" where "NewUint8 v = Value TypeUnsigned (uint v) 0 [] 0 []"
definition NewUint32 :: "nat \<Rightarrow> Value" where "NewUint32 v = Value TypeUnsigned (int v) 0 [] 0 []"
definition NewFloat32 :: "float32 \<Rightarrow> Value" where
  "NewFloat32 v = Value TypeFloat32 0 (float64_of_float32 v) [] 0 []"
definition NewFloat64 :: "float64 \<Rightarrow> Value" where "NewFloat64 v = Value TypeFloat64 0 v [] 0 []"

definition mms_NewBitString :: "int \<Rightarrow> Value" where
  "mms_NewBitString len =
     (let len = max len 0 in Value TypeBitString 0 0 (replicate ((nat len + 7) div 8) 0) len [])"

definition NewBitStringBits :: "byte list \<Rightarrow> int \<Rightarrow> Value" where
  "NewBitStringBits bits len =
     (let len = max len 0; n = (nat len + 7) div 8; b = take n bits
      in Value TypeBitString 0 0 (b @ replicate (n - length b) 0) len [])"

definition NewOctetString :: "byte list \<Rightarrow> Value" where "NewOctetString b = Value TypeOctetString 0 0 b 0 []"
definition NewVisibleString :: "byte list \<Rightarrow> Value" where "NewVisibleString s = Value TypeVisibleString 0 0 s 0 []"
definition NewMMSString :: "byte list \<Rightarrow> Value" where "NewMMSString s = Value TypeMMSString 0 0 s 0 []"

text \<open>A time is its seconds since 1970 and the nanoseconds within the second.\<close>

record Time =
  t_Unix :: int
  t_Nanosecond :: nat

definition time_ok :: "Time \<Rightarrow> bool" where "time_ok t = (t_Nanosecond t < 10 ^ 9)"

definition NewUTCTime :: "Time \<Rightarrow> byte \<Rightarrow> Value" where
  "NewUTCTime t q =
     (let secs = t_Unix t;
          (secs, t) = (if secs < 0 then (0, \<lparr>t_Unix = 0, t_Nanosecond = 0\<rparr>)
                       else if secs > 2 ^ 32 - 1
                       then (2 ^ 32 - 1, \<lparr>t_Unix = 2 ^ 32 - 1, t_Nanosecond = 999999999\<rparr>)
                       else (secs, t));
          frac = (t_Nanosecond t * 2 ^ 24 div 10 ^ 9) mod 2 ^ 32
      in Value TypeUTCTime 0 0
           (be_bytes 4 (nat secs) @ [byte_of (frac div 2 ^ 16), byte_of (frac div 2 ^ 8), byte_of frac, q]) 0 [])"

definition NewUTCTimeRaw :: "byte list \<Rightarrow> (mms_error, Value) result" where
  "NewUTCTimeRaw b = (if length b \<noteq> 8 then Inl (Err UtcTimeLength) else Inr (Value TypeUTCTime 0 0 b 0 []))"

definition NewBinaryTimeRaw :: "byte list \<Rightarrow> (mms_error, Value) result" where
  "NewBinaryTimeRaw b =
     (if length b \<noteq> 4 \<and> length b \<noteq> 6 then Inl (Err TimeOfDayLength) else Inr (Value TypeBinaryTime 0 0 b 0 []))"

definition NewArray :: "Value list \<Rightarrow> Value" where "NewArray es = Value TypeArray 0 0 [] 0 es"
definition NewStructure :: "Value list \<Rightarrow> Value" where "NewStructure ms = Value TypeStructure 0 0 [] 0 ms"

text \<open>A \<^verbatim>\<open>DataAccessError\<close> is a \<^verbatim>\<open>uint8\<close>.\<close>

definition NewDataAccessError :: "byte \<Rightarrow> Value" where
  "NewDataAccessError code = Value TypeDataAccessError (uint code) 0 [] 0 []"

definition AccessTemporarilyUnavailable :: byte where "AccessTemporarilyUnavailable = 2"
definition AccessObjectAccessDenied :: byte where "AccessObjectAccessDenied = 3"
definition AccessTypeInconsistent :: byte where "AccessTypeInconsistent = 7"
definition AccessObjectAttributeInconsistent :: byte where "AccessObjectAttributeInconsistent = 8"
definition AccessObjectAccessUnsupported :: byte where "AccessObjectAccessUnsupported = 9"
definition AccessObjectNonExistent :: byte where "AccessObjectNonExistent = 10"
definition AccessObjectValueInvalid :: byte where "AccessObjectValueInvalid = 11"

lemmas access_codes = AccessTemporarilyUnavailable_def AccessObjectAccessDenied_def AccessTypeInconsistent_def
  AccessObjectAttributeInconsistent_def AccessObjectAccessUnsupported_def AccessObjectNonExistent_def AccessObjectValueInvalid_def

section \<open>Accessors\<close>

fun value_Type :: "Value \<Rightarrow> Type" where
  "value_Type NilValue = TypeNone"
| "value_Type (Value t n f b l c) = t"

fun value_Bool :: "Value \<Rightarrow> bool" where
  "value_Bool NilValue = False"
| "value_Bool (Value t n f b l c) = (t = TypeBoolean \<and> n \<noteq> 0)"

fun value_Int64 :: "Value \<Rightarrow> int" where
  "value_Int64 NilValue = 0"
| "value_Int64 (Value t n f b l c) =
     (if t = TypeInteger \<or> t = TypeUnsigned \<or> t = TypeBoolean then n
      else if t = TypeFloat32 \<or> t = TypeFloat64 then int64_of_float64 f
      else 0)"

definition value_Uint64 :: "Value \<Rightarrow> nat" where
  "value_Uint64 v = uint64_of (value_Int64 v)"

text \<open>A deep copy is the same value here, where nothing is shared.\<close>

fun value_Clone :: "Value \<Rightarrow> Value" where
  "value_Clone NilValue = NilValue"
| "value_Clone (Value t n f b l c) = Value t n f b l (map value_Clone c)"

fun value_BitLen :: "Value \<Rightarrow> int" where
  "value_BitLen NilValue = 0"
| "value_BitLen (Value t n f b l c) = l"

fun value_Bytes :: "Value \<Rightarrow> byte list" where
  "value_Bytes NilValue = []"
| "value_Bytes (Value t n f b l c) = b"

fun value_Bit :: "Value \<Rightarrow> int \<Rightarrow> (mms_error, bool) result" where
  "value_Bit NilValue i = Inr False"
| "value_Bit (Value t n f b l c) i =
     (if t \<noteq> TypeBitString \<or> i < 0 \<or> i \<ge> l then Inr False
      else rbind (go_index b (nat i div 8)) (\<lambda>x. Inr (x AND bit_mask (nat i) \<noteq> 0)))"

fun value_SetBit :: "Value \<Rightarrow> int \<Rightarrow> bool \<Rightarrow> (mms_error, Value) result" where
  "value_SetBit NilValue i on = Inr NilValue"
| "value_SetBit (Value t n f b l c) i on =
     (if t \<noteq> TypeBitString \<or> i < 0 \<or> i \<ge> l then Inr (Value t n f b l c)
      else let k = nat i div 8 in
        rbind (go_index b k) (\<lambda>x.
          Inr (Value t n f (b[k := if on then x OR bit_mask (nat i) else x AND NOT (bit_mask (nat i))]) l c)))"

fun value_Len :: "Value \<Rightarrow> nat" where
  "value_Len NilValue = 0"
| "value_Len (Value t n f b l c) = length c"

fun value_Index :: "Value \<Rightarrow> int \<Rightarrow> Value" where
  "value_Index NilValue i = NilValue"
| "value_Index (Value t n f b l c) i = (if i < 0 \<or> i \<ge> int (length c) then NilValue else c ! nat i)"

fun value_SetIndex :: "Value \<Rightarrow> int \<Rightarrow> Value \<Rightarrow> Value" where
  "value_SetIndex NilValue i x = NilValue"
| "value_SetIndex (Value t n f b l c) i x =
     (if i < 0 \<or> i \<ge> int (length c) then Value t n f b l c else Value t n f b l (c[nat i := x]))"

fun AccessError :: "Value \<Rightarrow> byte option" where
  "AccessError NilValue = None"
| "AccessError (Value t n f b l c) = (if t \<noteq> TypeDataAccessError then None else Some (word_of_int n))"

lemma value_Clone_id [simp]: "value_Clone v = v"
  by (induction v) (simp_all add: map_idI)

text \<open>The UtcTime part of \<^verbatim>\<open>Time\<close>; \<open>None\<close> is the zero time.\<close>

fun value_UTCTime :: "Value \<Rightarrow> Time option" where
  "value_UTCTime NilValue = None"
| "value_UTCTime (Value t n f b l c) =
     (if t = TypeUTCTime \<and> length b = 8 then
        let secs = be_nat (take 4 b); frac = be_nat (take 3 (drop 4 b)); ns = frac * 10 ^ 9 div 2 ^ 24
        in Some \<lparr>t_Unix = int secs, t_Nanosecond = ns\<rparr>
      else None)"

text \<open>\<^verbatim>\<open>Time\<close> in full: a BinaryTime counts milliseconds of the day and days since 1 January 1984.\<close>

definition value_Time :: "Value \<Rightarrow> Time option" where
  "value_Time v =
     (let b = value_Bytes v in
      if value_Type v = TypeUTCTime then value_UTCTime v
      else if value_Type v = TypeBinaryTime \<and> (length b = 6 \<or> length b = 4) then
        let ms = be_nat (take 4 b); days = (if length b = 6 then be_nat (drop 4 b) else 0)
        in Some \<lparr>t_Unix = 441763200 + 86400 * int days + int (ms div 1000), t_Nanosecond = ms mod 1000 * 10 ^ 6\<rparr>
      else None)"

fun TimeQualityFlags :: "Value \<Rightarrow> byte" where
  "TimeQualityFlags NilValue = 0"
| "TimeQualityFlags (Value t n f b l c) = (if t \<noteq> TypeUTCTime \<or> length b \<noteq> 8 then 0 else b ! 7)"

text \<open>IEEE 754 equality (\<^verbatim>\<open>==\<close>), then \<^verbatim>\<open>Equal\<close>.\<close>

definition f64_eq :: "float64 \<Rightarrow> float64 \<Rightarrow> bool" where
  "f64_eq a b = (\<not> f64_nan a \<and> \<not> f64_nan b \<and> (a = b \<or> unat a mod 2 ^ 63 = 0 \<and> unat b mod 2 ^ 63 = 0))"

fun value_Equal :: "Value \<Rightarrow> Value \<Rightarrow> bool" where
  "value_Equal NilValue NilValue = True"
| "value_Equal NilValue (Value _ _ _ _ _ _) = False"
| "value_Equal (Value _ _ _ _ _ _) NilValue = False"
| "value_Equal (Value t n f b l c) (Value t' n' f' b' l' c') =
     (if t \<noteq> t' \<or> n \<noteq> n' \<or> l \<noteq> l' \<or> length c \<noteq> length c' then False
      else if (t = TypeFloat32 \<or> t = TypeFloat64) \<and> \<not> f64_eq f f' \<and> \<not> (f64_nan f \<and> f64_nan f') then False
      else if b \<noteq> b' then False
      else list_all2 value_Equal c c')"

definition TimeLeapSecondsKnown :: byte where "TimeLeapSecondsKnown = 0x80"

definition TimeAccuracy :: "int \<Rightarrow> byte" where
  "TimeAccuracy n = (let n = (if n < 0 then 0 else n); n = (if n > 24 then 24 else n)
                     in TimeLeapSecondsKnown OR word_of_int n)"

section \<open>Properties\<close>

lemma int64_uint64: "int64_ok v \<Longrightarrow> int64_of (uint64_of v) = v" "uint64_ok (uint64_of v)"
proof -
  show "uint64_ok (uint64_of v)" by (simp add: uint64_ok_def uint64_of_def nat_less_iff)
  assume ok: "int64_ok v"
  have "v mod 2 ^ 64 = (if v < 0 then v + 2 ^ 64 else v)"
  proof (cases "v < 0")
    case True
    then have "v mod 2 ^ 64 = (v + 2 ^ 64) mod 2 ^ 64" by simp
    also have "\<dots> = v + 2 ^ 64" using ok True by (intro mod_pos_pos_trivial) (simp_all add: int64_ok_def)
    finally show ?thesis using True by simp
  next
    case False
    then show ?thesis using ok by (simp add: int64_ok_def)
  qed
  then show "int64_of (uint64_of v) = v" using ok by (auto simp: int64_of_def uint64_of_def int64_ok_def Let_def)
qed

text \<open>A bit-string value is a \<open>BitString\<close>.\<close>

lemma value_Bit_BitString:
  "value_Bit (Value TypeBitString n f b l c) i = lift_ber (Bit \<lparr>Bits = b, Length = l\<rparr> i)"
  by (simp add: Bit_def go_index_def)

lemma value_SetBit_BitString:
  "value_SetBit (Value TypeBitString n f b l c) i on =
     rbind (lift_ber (SetBit \<lparr>Bits = b, Length = l\<rparr> i on)) (\<lambda>bs. Inr (Value TypeBitString n f (Bits bs) (Length bs) c))"
  by (simp add: SetBit_def go_index_def Let_def)

text \<open>A UtcTime keeps the seconds and loses at most 60 ns of the fraction.\<close>

lemma UTCTime_resolution:
  assumes "time_ok t" "0 \<le> t_Unix t" "t_Unix t < 2 ^ 32"
  shows "\<exists>ns. value_UTCTime (NewUTCTime t q) = Some \<lparr>t_Unix = t_Unix t, t_Nanosecond = ns\<rparr>
    \<and> ns \<le> t_Nanosecond t \<and> t_Nanosecond t \<le> ns + 60 \<and> TimeQualityFlags (NewUTCTime t q) = q"
proof -
  define n where "n = t_Nanosecond t"
  define frac where "frac = n * 2 ^ 24 div 10 ^ 9"
  have n: "n < 10 ^ 9" using assms(1) by (simp add: time_ok_def n_def)
  then have frac: "frac < 2 ^ 24" by (simp add: frac_def div_less_iff_less_mult)
  then have fm: "frac mod 2 ^ 32 = frac" by simp
  have b3: "[byte_of (frac div 2 ^ 16), byte_of (frac div 2 ^ 8), byte_of frac] = be_bytes 3 frac"
    by (simp add: numeral_3_eq_3 div_mult2_eq [symmetric])
  have secs: "be_nat (be_bytes 4 (nat (t_Unix t))) = nat (t_Unix t)"
    using assms(2,3) by (intro be_nat_be_bytes_small) (simp add: nat_less_iff)
  have fr: "be_nat (be_bytes 3 frac) = frac" using frac by (intro be_nat_be_bytes_small) simp
  have v: "NewUTCTime t q = Value TypeUTCTime 0 0 (be_bytes 4 (nat (t_Unix t)) @ be_bytes 3 frac @ [q]) 0 []"
  proof -
    have "(t_Unix t < 0) = False" "(t_Unix t > 2 ^ 32 - 1) = False" using assms(2,3) by simp_all
    then show ?thesis
      by (simp only: NewUTCTime_def Let_def if_False prod.case n_def [symmetric] frac_def [symmetric] fm b3 [symmetric]
          append.simps)
  qed
  define ns where "ns = frac * 10 ^ 9 div 2 ^ 24"
  have "frac * 10 ^ 9 \<le> n * 2 ^ 24" "n * 2 ^ 24 < frac * 10 ^ 9 + 10 ^ 9"
    unfolding frac_def by simp_all
  moreover have eq: "(2::nat) ^ 24 = 16777216" "(10::nat) ^ 9 = 1000000000" by simp_all
  ultimately have "ns \<le> n" "n \<le> ns + 60" unfolding ns_def eq by linarith+
  moreover have "value_UTCTime (NewUTCTime t q) = Some \<lparr>t_Unix = t_Unix t, t_Nanosecond = ns\<rparr>"
    using secs fr assms(2) by (simp add: v ns_def Let_def)
  moreover have "TimeQualityFlags (NewUTCTime t q) = q"
    by (simp add: v nth_append)
  ultimately show ?thesis unfolding n_def by blast
qed

text \<open>Deep equality is an equivalence.\<close>

definition f64_same :: "float64 \<Rightarrow> float64 \<Rightarrow> bool" where
  "f64_same f g = (f64_eq f g \<or> f64_nan f \<and> f64_nan g)"

lemma f64_same_equiv:
  "f64_same f f" "f64_same f g \<Longrightarrow> f64_same g f" "f64_same f g \<Longrightarrow> f64_same g h \<Longrightarrow> f64_same f h"
  by (auto simp: f64_same_def f64_eq_def)

lemma value_Equal_iff:
  "value_Equal (Value t n f b l c) (Value t' n' f' b' l' c') \<longleftrightarrow>
     t = t' \<and> n = n' \<and> l = l' \<and> b = b' \<and> ((t = TypeFloat32 \<or> t = TypeFloat64) \<longrightarrow> f64_same f f')
     \<and> list_all2 value_Equal c c'"
  by (auto simp: f64_same_def dest: list_all2_lengthD)

declare value_Equal.simps(4) [simp del]

lemma value_Equal_Nil [simp]: "value_Equal NilValue v \<longleftrightarrow> v = NilValue" "value_Equal v NilValue \<longleftrightarrow> v = NilValue"
  by (cases v; simp)+

lemma value_Equal_refl: "value_Equal v v"
  by (induction v) (auto simp: value_Equal_iff f64_same_equiv intro: list.rel_refl_strong)

lemma value_Equal_sym: "value_Equal v w \<Longrightarrow> value_Equal w v"
proof (induction v arbitrary: w)
  case (Value t n f b l c)
  then obtain t' n' f' b' l' c' where w: "w = Value t' n' f' b' l' c'" by (cases w) auto
  from Value.prems have "list_all2 value_Equal c c'" by (simp add: w value_Equal_iff)
  then have "list_all2 value_Equal c' c"
    using Value.IH by (auto simp: list_all2_conv_all_nth)
  with Value.prems show ?case by (auto simp: w value_Equal_iff f64_same_equiv(2))
qed simp

lemma value_Equal_trans: "value_Equal u v \<Longrightarrow> value_Equal v w \<Longrightarrow> value_Equal u w"
proof (induction u arbitrary: v w)
  case (Value t n f b l c)
  then obtain t' n' f' b' l' c' where v: "v = Value t' n' f' b' l' c'" by (cases v) auto
  with Value.prems obtain t'' n'' f'' b'' l'' c'' where w: "w = Value t'' n'' f'' b'' l'' c''" by (cases w) auto
  from Value.prems have "list_all2 value_Equal c c'" "list_all2 value_Equal c' c''"
    by (simp_all add: v w value_Equal_iff)
  then have "list_all2 value_Equal c c''"
    using Value.IH by (fastforce simp: list_all2_conv_all_nth)
  with Value.prems show ?case by (auto simp: v w value_Equal_iff intro: f64_same_equiv(3))
qed simp

text \<open>\<^verbatim>\<open>Equal\<close> on MMS values is an equivalence relation.\<close>

theorem value_Equal_equivalence: "equivp value_Equal"
  using value_Equal_refl value_Equal_sym value_Equal_trans by (intro equivpI reflpI sympI transpI) blast+

text \<open>A UtcTime value keeps the seconds and the quality octet, and its fraction is at most
  60 nanoseconds below the one given, never above it.\<close>

theorem utctime_resolution:
  assumes "t_Nanosecond t < 10 ^ 9" "0 \<le> t_Unix t" "t_Unix t < 2 ^ 32"
  shows "\<exists>ns. value_UTCTime (NewUTCTime t q) = Some \<lparr>t_Unix = t_Unix t, t_Nanosecond = ns\<rparr>
    \<and> ns \<le> t_Nanosecond t \<and> t_Nanosecond t \<le> ns + 60 \<and> TimeQualityFlags (NewUTCTime t q) = q"
  using UTCTime_resolution [of t q] assms by (simp add: time_ok_def)

theorem utctime_resolution_witness:
  "\<exists>ns. value_UTCTime (NewUTCTime \<lparr>t_Unix = 1700000000, t_Nanosecond = 999999999\<rparr> 10) = Some \<lparr>t_Unix = 1700000000, t_Nanosecond = ns\<rparr>
    \<and> 999999939 \<le> ns"
  using utctime_resolution [of "\<lparr>t_Unix = 1700000000, t_Nanosecond = 999999999\<rparr>" 10] by auto

end
