(* ===== verification/BinTime.thy ===== *)
theory BinTime
  imports MmsValue Complex_Main
begin

text \<open>
  \<^verbatim>\<open>NewBinaryTime\<close> (\<^verbatim>\<open>mms/value.go\<close>): the six-octet MMS TimeOfDay of entry times. The day count
  goes through floating point hours, so the model rounds as IEEE 754 double precision does; the theorem
  says how far the result can be trusted.
\<close>

section \<open>Rounding to 53 bits\<close>

definition round_half :: "nat \<Rightarrow> nat \<Rightarrow> nat" where
  "round_half a b = (let q = a div b; r = a mod b in if 2 * r > b \<or> (2 * r = b \<and> odd q) then q + 1 else q)"

text \<open>The double nearest to the fraction \<open>a / b\<close>, as a fraction whose denominator is a power of two; for
  quotients below \<open>2 ^ 53\<close> that are not subnormal.\<close>

definition rn53 :: "nat \<Rightarrow> nat \<Rightarrow> nat \<times> nat" where
  "rn53 a b =
     (if a = 0 then (0, 1)
      else let s = 53 + log2 b - log2 a;
               s = (if a * 2 ^ s \<ge> 2 ^ 53 * b then s - 1 else s)
           in (round_half (a * 2 ^ s) b, 2 ^ s))"

text \<open>\<^verbatim>\<open>Duration.Hours\<close> of a non-negative duration in nanoseconds, and the whole days in it.\<close>

definition nsHour :: nat where "nsHour = 3600 * 10 ^ 9"

definition dur_Hours :: "nat \<Rightarrow> nat \<times> nat" where
  "dur_Hours d = (let h = d div nsHour; (m1, q1) = rn53 (d mod nsHour) nsHour in rn53 (h * q1 + m1) q1)"

definition whole_days :: "nat \<Rightarrow> nat" where
  "whole_days d = (let (m2, q2) = dur_Hours d; (m3, q3) = rn53 m2 (24 * q2) in m3 div q3)"

definition epoch1984 :: int where "epoch1984 = 441763200"

text \<open>\<^verbatim>\<open>t.Sub(epoch)\<close> saturates at the range of an \<^verbatim>\<open>int64\<close>. A negative day count, which the language
  leaves to the implementation, wraps as on amd64.\<close>

definition NewBinaryTime :: "Time \<Rightarrow> Value" where
  "NewBinaryTime t =
     (let d = (t_Unix t - epoch1984) * 10 ^ 9 + int (t_Nanosecond t);
          d = max (- (2 ^ 63)) (min (2 ^ 63 - 1) d);
          days = (if d \<ge> 0 then int (whole_days (nat d)) else - int (whole_days (nat (- d))));
          ms = nat (t_Unix t mod 86400) * 1000 + t_Nanosecond t div 10 ^ 6
      in Value TypeBinaryTime 0 0 (be_bytes 4 ms @ be_bytes 2 (nat (days mod 2 ^ 16))) 0 [])"

section \<open>Error of the rounding\<close>

lemma round_half_bounds:
  assumes "0 < b"
  shows "2 * round_half a b * b \<le> 2 * a + b" "n * b \<le> a \<Longrightarrow> n \<le> round_half a b"
proof -
  define Q R where "Q = a div b" and "R = a mod b"
  have d: "a = Q * b + R" by (simp add: Q_def R_def)
  have "round_half a b = Q + 1 \<and> b \<le> 2 * R \<or> round_half a b = Q"
    by (auto simp: round_half_def Let_def Q_def R_def)
  then show "2 * round_half a b * b \<le> 2 * a + b" by (auto simp: d algebra_simps)
  have "a div b \<le> round_half a b" by (simp add: round_half_def Let_def)
  then show "n \<le> round_half a b" if "n * b \<le> a"
    using less_eq_div_iff_mult_less_eq [OF assms, of n a] that by simp
qed

text \<open>The relative error is at most one part in \<open>2 ^ 53\<close>, and an integer bound from below is kept.\<close>

lemma rn53_upper:
  assumes "rn53 a b = (m, q)" "0 < b" "a < 2 ^ 52 * b"
  shows "0 < q \<and> 2 ^ 53 * m * b \<le> (2 ^ 53 + 1) * a * q"
proof (cases "a = 0")
  case True
  then show ?thesis using assms(1) by (auto simp: rn53_def)
next
  case False
  define s0 where "s0 = 53 + log2 b - log2 a"
  define s where "s = (if a * 2 ^ s0 \<ge> 2 ^ 53 * b then s0 - 1 else s0)"
  have mq: "m = round_half (a * 2 ^ s) b" "q = 2 ^ s"
    using assms(1) False unfolding rn53_def s_def s0_def Let_def by auto
  have la: "2 ^ log2 a \<le> a" "a < 2 ^ Suc (log2 a)" and lb: "2 ^ log2 b \<le> b" "b < 2 ^ Suc (log2 b)"
    using log2_bounds [of a] log2_bounds [of b] False assms(2) by simp_all
  have "(2::nat) ^ log2 a < 2 ^ (53 + log2 b)"
  proof -
    have "(2::nat) ^ log2 a \<le> a" by (rule la)
    also have "\<dots> < 2 ^ 52 * b" by (rule assms(3))
    also have "\<dots> \<le> 2 ^ 52 * 2 ^ Suc (log2 b)" using lb(2) by simp
    finally show ?thesis by (simp add: power_add)
  qed
  then have le: "log2 a < 53 + log2 b" using nat_power_less_imp_less by fastforce
  have "(2::nat) ^ 52 * 2 ^ Suc (log2 b) = 2 ^ (53 + log2 b)" by (simp add: power_add)
  also have "\<dots> = 2 ^ (log2 a + s0)" using le by (simp add: s0_def)
  finally have e: "(2::nat) ^ 52 * 2 ^ Suc (log2 b) = 2 ^ log2 a * 2 ^ s0" by (simp only: power_add)
  have "2 ^ 52 * b \<le> 2 ^ 52 * 2 ^ Suc (log2 b)" by (rule mult_le_mono2 [OF less_imp_le [OF lb(2)]])
  also have "\<dots> \<le> a * 2 ^ s0" unfolding e by (rule mult_le_mono1 [OF la(1)])
  finally have low: "2 ^ 52 * b \<le> a * 2 ^ s0" .
  have "2 ^ 52 * b \<le> a * 2 ^ s"
  proof (cases "a * 2 ^ s0 \<ge> 2 ^ 53 * b")
    case True
    then have "s0 = Suc s" using le by (auto simp: s_def s0_def)
    then show ?thesis using True by simp
  qed (use low in \<open>simp add: s_def\<close>)
  moreover have "2 * m * b \<le> 2 * (a * 2 ^ s) + b" unfolding mq by (rule round_half_bounds(1) [OF assms(2)])
  moreover have "2 ^ 53 * z \<le> (2 ^ 53 + 1) * x" if "2 ^ 52 * b \<le> x" "2 * z \<le> 2 * x + b" for x z :: nat
    using that by simp
  ultimately have "2 ^ 53 * (m * b) \<le> (2 ^ 53 + 1) * (a * 2 ^ s)" by (simp only: mult.assoc)
  then show ?thesis unfolding mq(2) by (simp only: mult.assoc) simp
qed

lemma rn53_lower:
  assumes "rn53 a b = (m, q)" "0 < b" "n * b \<le> a"
  shows "n * q \<le> m"
proof (cases "a = 0")
  case True
  then show ?thesis using assms by (auto simp: rn53_def)
next
  case False
  then obtain s where mq: "m = round_half (a * 2 ^ s) b" "q = 2 ^ s"
    using assms(1) unfolding rn53_def Let_def by (auto split: if_splits)
  have "n * 2 ^ s * b \<le> a * 2 ^ s" using assms(3) by (simp add: mult.commute mult.left_commute)
  then show ?thesis unfolding mq by (rule round_half_bounds(2) [OF assms(2)])
qed

section \<open>Whole days\<close>

text \<open>Three roundings do not reach the next day.\<close>

lemma rounding_chain:
  fixes Y X2 X1 H F D :: real
  assumes "Y \<le> 9007199254740993 / 9007199254740992 * (X2 / 24)" "X2 \<le> 9007199254740993 / 9007199254740992 * (H + X1)"
    "X1 \<le> 9007199254740993 / 9007199254740992 * F" "0 \<le> H" "H \<le> 1572863" "0 \<le> F"
    "H \<le> 24 * D + 22 \<and> F \<le> 1 \<or> H \<le> 24 * D + 23 \<and> F \<le> 1 - 2000 / 3600000000000"
  shows "Y < D + 1"
  using assms by (elim disjE conjE) (simp_all add: field_simps)

lemma whole_days_exact:
  assumes "d mod nsHour \<le> nsHour - 2000 \<or> d div nsHour mod 24 \<noteq> 23" "d div nsHour < 2 ^ 16 * 24"
  shows "whole_days d = d div nsHour div 24"
proof -
  define h where "h = d div nsHour"
  define n where "n = d mod nsHour"
  have n: "n < nsHour" by (simp add: n_def nsHour_def)
  obtain m1 q1 where 1: "rn53 n nsHour = (m1, q1)" by fastforce
  obtain m2 q2 where 2: "rn53 (h * q1 + m1) q1 = (m2, q2)" by fastforce
  obtain m3 q3 where 3: "rn53 m2 (24 * q2) = (m3, q3)" by fastforce
  have N: "(0::nat) < nsHour" by (simp add: nsHour_def)
  have u1: "0 < q1" "2 ^ 53 * m1 * nsHour \<le> (2 ^ 53 + 1) * n * q1"
    using rn53_upper [OF 1 N] n by simp_all
  have x1: "real m1 / real q1 \<le> (1 + 1 / 2 ^ 53) * (real n / real nsHour)"
  proof -
    have "real (2 ^ 53 * m1 * nsHour) \<le> real ((2 ^ 53 + 1) * n * q1)" using u1(2) of_nat_le_iff by blast
    then show ?thesis using u1(1) N by (simp add: field_simps)
  qed
  have n1: "real n / real nsHour < 1" using n by (simp add: nsHour_def)
  have "(1 + 1 / 2 ^ 53) * (real n / real nsHour) \<le> (1 + 1 / 2 ^ 53) * 1" using n1 by (intro mult_left_mono) simp_all
  then have "real m1 / real q1 \<le> 2" using x1 by simp
  then have m1: "m1 \<le> 2 * q1" using u1(1) by (simp add: field_simps)
  have hb: "h < 2 ^ 16 * 24" using assms(2) by (simp add: h_def)
  have "h * q1 + m1 \<le> (h + 2) * q1" using m1 by (simp add: algebra_simps)
  also have "\<dots> < 2 ^ 52 * q1" using hb u1(1) by (intro mult_strict_right_mono) simp_all
  finally have u2: "0 < q2" "2 ^ 53 * m2 * q1 \<le> (2 ^ 53 + 1) * (h * q1 + m1) * q2"
    using rn53_upper [OF 2 u1(1)] by simp_all
  have x2: "real m2 / real q2 \<le> (1 + 1 / 2 ^ 53) * (real h + real m1 / real q1)"
  proof -
    have "real (2 ^ 53 * m2 * q1) \<le> real ((2 ^ 53 + 1) * (h * q1 + m1) * q2)" using u2(2) of_nat_le_iff by blast
    then show ?thesis using u1(1) u2(1) by (simp add: field_simps)
  qed
  have "real h + real m1 / real q1 \<le> real h + 2" using \<open>real m1 / real q1 \<le> 2\<close> by simp
  then have "(1 + 1 / 2 ^ 53) * (real h + real m1 / real q1) \<le> (1 + 1 / 2 ^ 53) * (real h + 2)" by (intro mult_left_mono) simp_all
  then have "real m2 / real q2 \<le> 2 * (real h + 2)" using x2 by simp
  moreover have "2 * (real h + 2) < 2 ^ 52 * 24" using hb by simp
  ultimately have "real m2 / real q2 < 2 ^ 52 * 24" by linarith
  then have "real m2 < 2 ^ 52 * 24 * real q2" using u2(1) by (simp add: pos_divide_less_eq)
  then have "real m2 < real (2 ^ 52 * (24 * q2))" by simp
  then have "m2 < 2 ^ 52 * (24 * q2)" by (simp only: of_nat_less_iff)
  then have u3: "0 < q3" "2 ^ 53 * m3 * (24 * q2) \<le> (2 ^ 53 + 1) * m2 * q3"
    using rn53_upper [OF 3] u2(1) by simp_all
  have x3: "real m3 / real q3 \<le> (1 + 1 / 2 ^ 53) * (real m2 / real q2 / 24)"
  proof -
    have "real (2 ^ 53 * m3 * (24 * q2)) \<le> real ((2 ^ 53 + 1) * m2 * q3)" using u3(2) of_nat_le_iff by blast
    then show ?thesis using u2(1) u3(1) by (simp add: field_simps)
  qed
  have "real m3 / real q3 < real (h div 24) + 1"
  proof (rule rounding_chain)
    show "real m3 / real q3 \<le> 9007199254740993 / 9007199254740992 * (real m2 / real q2 / 24)" using x3 by simp
    show "real m2 / real q2 \<le> 9007199254740993 / 9007199254740992 * (real h + real m1 / real q1)" using x2 by simp
    show "real m1 / real q1 \<le> 9007199254740993 / 9007199254740992 * (real n / real nsHour)" using x1 by simp
    show "real h \<le> 1572863" using hb by simp
    have hd: "h = 24 * (h div 24) + h mod 24" "h mod 24 \<le> 23" by simp_all
    have "2000 \<le> nsHour" by (simp add: nsHour_def)
    then have "h mod 24 \<noteq> 23 \<or> n + 2000 \<le> nsHour" using assms(1) unfolding h_def [symmetric] n_def [symmetric] by linarith
    then have "h \<le> 24 * (h div 24) + 22 \<or> h \<le> 24 * (h div 24) + 23 \<and> n + 2000 \<le> nsHour" using hd by linarith
    then have "real h \<le> 24 * real (h div 24) + 22 \<or> real h \<le> 24 * real (h div 24) + 23 \<and> real n + 2000 \<le> real nsHour"
      by linarith
    then show "real h \<le> 24 * real (h div 24) + 22 \<and> real n / real nsHour \<le> 1
        \<or> real h \<le> 24 * real (h div 24) + 23 \<and> real n / real nsHour \<le> 1 - 2000 / 3600000000000"
      using n1 by (auto simp: nsHour_def field_simps)
  qed simp_all
  then have "real m3 < real ((h div 24 + 1) * q3)" using u3(1) by (simp add: field_simps)
  then have up: "m3 < (h div 24 + 1) * q3" by (simp only: of_nat_less_iff)
  have "h * q2 \<le> m2" using rn53_lower [OF 2 u1(1), of h] by simp
  then have "h div 24 * (24 * q2) \<le> m2"
    by (metis (no_types, opaque_lifting) div_times_less_eq_dividend le_trans mult.assoc mult_le_mono1)
  then have "h div 24 * q3 \<le> m3" using rn53_lower [OF 3, of "h div 24"] u2(1) by simp
  then have "m3 div q3 = h div 24" using up u3(1) by (metis Suc_eq_plus1 div_nat_eqI mult.commute)
  then show ?thesis using 1 2 3 by (simp add: whole_days_def dur_Hours_def h_def n_def)
qed

section \<open>Properties\<close>

lemma NewBinaryTime_form: "\<exists>b. NewBinaryTime t = Value TypeBinaryTime 0 0 b 0 [] \<and> length b = 6"
  by (simp add: NewBinaryTime_def Let_def)

lemma NewBinaryTime_parts:
  assumes "ms < 2 ^ 32" "days < 2 ^ 16"
  shows "value_Time (Value TypeBinaryTime 0 0 (be_bytes 4 ms @ be_bytes 2 days) 0 []) =
    Some \<lparr>t_Unix = epoch1984 + 86400 * int days + int (ms div 1000), t_Nanosecond = ms mod 1000 * 10 ^ 6\<rparr>"
  using assms by (simp add: value_Time_def Let_def epoch1984_def be_nat_be_bytes_small)

text \<open>A binary time reads back as the moment it was made from, to the millisecond, from 1984 until its day count
  wraps in 2163, except in the last two microseconds of a day.\<close>

theorem binary_time_roundtrip:
  assumes "time_ok t" "epoch1984 \<le> t_Unix t" "t_Unix t < epoch1984 + 65536 * 86400"
    "t_Unix t mod 86400 \<noteq> 86399 \<or> t_Nanosecond t \<le> 999998000"
  shows "value_Time (NewBinaryTime t) = Some \<lparr>t_Unix = t_Unix t, t_Nanosecond = t_Nanosecond t div 10 ^ 6 * 10 ^ 6\<rparr>"
proof -
  define s where "s = nat (t_Unix t - epoch1984)"
  have u: "t_Unix t = epoch1984 + int s" using assms(2) by (simp add: s_def)
  have s: "s < 65536 * 86400" using assms(3) u by linarith
  have "t_Unix t = int s + 5113 * 86400" by (simp add: u epoch1984_def)
  then have tm: "t_Unix t mod 86400 = int (s mod 86400)" by (simp only: mod_mult_self1 zmod_int of_nat_numeral)
  define ns where "ns = t_Nanosecond t"
  have ns: "ns < 10 ^ 9" using assms(1) by (simp add: time_ok_def ns_def)
  define d where "d = s * 10 ^ 9 + ns"
  have hour: "d div nsHour = s div 3600" "d mod nsHour = s mod 3600 * 10 ^ 9 + ns"
  proof -
    have "s * 10 ^ 9 = (s div 3600 * 3600 + s mod 3600) * 10 ^ 9" by (simp only: div_mult_mod_eq)
    then have "d = (s div 3600) * nsHour + (s mod 3600 * 10 ^ 9 + ns)" unfolding d_def nsHour_def by (simp only: algebra_simps)
    moreover have "s mod 3600 < 3600" by simp
    then have "s mod 3600 * 10 ^ 9 + ns < nsHour" using ns unfolding nsHour_def by simp
    ultimately show "d div nsHour = s div 3600" "d mod nsHour = s mod 3600 * 10 ^ 9 + ns" by (simp_all add: nsHour_def)
  qed
  have W: "whole_days d = s div 86400"
  proof -
    have "d mod nsHour \<le> nsHour - 2000" if "d div nsHour mod 24 = 23"
    proof -
      have "s mod 86400 = 3600 * (s div 3600 mod 24) + s mod 3600" using mod_mult2_eq [of s 3600 24] by simp
      then have sm: "s mod 86400 = 82800 + s mod 3600" using that unfolding hour(1) by simp
      have "s mod 3600 \<le> 3598 \<or> ns \<le> 999998000"
      proof (cases "s mod 3600 = 3599")
        case True
        then have "t_Unix t mod 86400 = 86399" using sm tm by simp
        then show ?thesis using assms(4) by (simp add: ns_def)
      next
        case False
        moreover have "s mod 3600 < 3600" by simp
        ultimately show ?thesis by linarith
      qed
      moreover have "s mod 3600 < 3600" by simp
      ultimately have "s mod 3600 * 10 ^ 9 + ns \<le> 3600 * 10 ^ 9 - 2000" using ns by auto
      then show ?thesis by (simp only: hour(2)) (simp add: nsHour_def)
    qed
    moreover have "d div nsHour < 2 ^ 16 * 24" using s unfolding hour by simp
    ultimately have "whole_days d = s div 3600 div 24" using whole_days_exact [of d] unfolding hour(1) by blast
    then show ?thesis by (simp add: div_mult2_eq [symmetric])
  qed
  have D: "(t_Unix t - epoch1984) * 10 ^ 9 + int (t_Nanosecond t) = int d" unfolding u d_def ns_def by simp
  have "int d \<le> 2 ^ 63 - 1" using s ns unfolding d_def by simp
  then have B: "max (- (2 ^ 63)) (min (2 ^ 63 - 1) (int d)) = int d" by simp
  have M: "nat (t_Unix t mod 86400) = s mod 86400" by (simp only: tm nat_int)
  have "int (s div 86400) mod 2 ^ 16 = int (s div 86400)" using s by simp
  then have "NewBinaryTime t = Value TypeBinaryTime 0 0 (be_bytes 4 (s mod 86400 * 1000 + ns div 10 ^ 6) @ be_bytes 2 (s div 86400)) 0 []"
    unfolding NewBinaryTime_def Let_def D B M by (simp only: of_nat_0_le_iff if_True nat_int W ns_def)
  moreover have "s mod 86400 < 86400" "ns div 10 ^ 6 < 1000" using ns by simp_all
  then have "s mod 86400 * 1000 + ns div 10 ^ 6 < 2 ^ 32" "(s mod 86400 * 1000 + ns div 10 ^ 6) div 1000 = s mod 86400"
    "(s mod 86400 * 1000 + ns div 10 ^ 6) mod 1000 = ns div 10 ^ 6" by simp_all
  moreover have "s div 86400 < 2 ^ 16" using s by simp
  moreover have "epoch1984 + 86400 * int (s div 86400) + int (s mod 86400) = t_Unix t" unfolding u by (simp add: zmod_int zdiv_int)
  ultimately show ?thesis using NewBinaryTime_parts [of "s mod 86400 * 1000 + ns div 10 ^ 6" "s div 86400"] by (simp add: ns_def)
qed

theorem binary_time_roundtrip_witness:
  "value_Time (NewBinaryTime \<lparr>t_Unix = 1700000000, t_Nanosecond = 123456789\<rparr>) = Some \<lparr>t_Unix = 1700000000, t_Nanosecond = 123000000\<rparr>"
  using binary_time_roundtrip [of "\<lparr>t_Unix = 1700000000, t_Nanosecond = 123456789\<rparr>"] by (simp add: time_ok_def epoch1984_def)

lemma rn53_eval:
  "a \<noteq> 0 \<Longrightarrow> log2 a = la \<Longrightarrow> log2 b = lb \<Longrightarrow> s = 53 + lb - la \<Longrightarrow>
     s' = (if a * 2 ^ s \<ge> 2 ^ 53 * b then s - 1 else s) \<Longrightarrow> round_half (a * 2 ^ s') b = m \<Longrightarrow> rn53 a b = (m, 2 ^ s')"
  by (simp only: rn53_def Let_def refl if_False simp_thms)

text \<open>In the last nanoseconds of a day the hours round up to the next one, and the time made is a day ahead.\<close>

theorem binary_time_day_ahead:
  "value_Time (NewBinaryTime \<lparr>t_Unix = 1700006399, t_Nanosecond = 999999999\<rparr>)
    = Some \<lparr>t_Unix = 1700006399 + 86400, t_Nanosecond = 999000000\<rparr>"
proof -
  have s1: "rn53 3599999999999 3600000000000 = (9007199254738490, 2 ^ 53)"
    by (rule rn53_eval [of _ 41 _ 41 53]) (simp_all add: log2.simps round_half_def Let_def)
  have s2: "rn53 3148124225923033593402 9007199254740992 = (6004570438238208, 2 ^ 34)"
    by (rule rn53_eval [of _ 71 _ 53 35]) (simp_all add: log2.simps round_half_def Let_def)
  have s3: "rn53 6004570438238208 412316860416 = (8006093917650944, 2 ^ 39)"
    by (rule rn53_eval [of _ 52 _ 38 39]) (simp_all add: log2.simps round_half_def Let_def)
  have "dur_Hours 1258243199999999999 = (6004570438238208, 2 ^ 34)" using s1 s2 by (simp add: dur_Hours_def nsHour_def)
  then have "whole_days 1258243199999999999 = 14563" using s3 by (simp add: whole_days_def)
  then have "NewBinaryTime \<lparr>t_Unix = 1700006399, t_Nanosecond = 999999999\<rparr> = Value TypeBinaryTime 0 0 (be_bytes 4 86399999 @ be_bytes 2 14563) 0 []"
    by (simp add: NewBinaryTime_def Let_def epoch1984_def)
  then show ?thesis using NewBinaryTime_parts [of 86399999 14563] by (simp add: epoch1984_def)
qed

end
