(* ===== verification/Tpkt.thy ===== *)
theory Tpkt
  imports Prelude
begin

text \<open>
  RFC 1006 framing (\<^verbatim>\<open>internal/osi/tpkt/tpkt.go\<close>) over a byte stream. The stream
  is the octets still to be read, after which it is closed, and the octets written so far;
  a stream that is not up fails every write.
\<close>

record stream =
  s_in :: "byte list"
  s_out :: "byte list"
  s_up :: bool

datatype io_error = EOF | UnexpectedEOF | WriteFailed | PacketTooLong | BadPacketLength

definition headerLen :: nat where "headerLen = 4"
definition MaxPacket :: nat where "MaxPacket = 0xffff"

text \<open>\<^verbatim>\<open>io.ReadFull\<close> of \<open>n\<close> octets and \<^verbatim>\<open>Write\<close>.\<close>

definition ReadFull :: "nat \<Rightarrow> stream \<Rightarrow> (io_error, byte list) result \<times> stream" where
  "ReadFull n s =
     (if n \<le> length (s_in s) then (Inr (take n (s_in s)), s\<lparr>s_in := drop n (s_in s)\<rparr>)
      else (Inl (Err (if s_in s = [] then EOF else UnexpectedEOF)), s\<lparr>s_in := []\<rparr>))"

definition stream_Write :: "byte list \<Rightarrow> stream \<Rightarrow> (io_error, unit) result \<times> stream" where
  "stream_Write bs s = (if s_up s then (Inr (), s\<lparr>s_out := s_out s @ bs\<rparr>) else (Inl (Err WriteFailed), s))"

definition WritePacket :: "byte list \<Rightarrow> stream \<Rightarrow> (io_error, unit) result \<times> stream" where
  "WritePacket payload s =
     (let total = headerLen + length payload in
      if total > MaxPacket then (Inl (Err PacketTooLong), s)
      else stream_Write ([3, 0] @ be16 total @ payload) s)"

definition ReadPacket :: "stream \<Rightarrow> (io_error, byte list) result \<times> stream" where
  "ReadPacket s =
     (case ReadFull headerLen s of
        (Inl e, s1) \<Rightarrow> (Inl e, s1)
      | (Inr hdr, s1) \<Rightarrow>
          let total = be_nat (take 2 (drop 2 hdr)) in
          if total < headerLen \<or> total > MaxPacket then (Inl (Err BadPacketLength), s1)
          else ReadFull (total - headerLen) s1)"

section \<open>Properties\<close>

text \<open>The octets of a packet.\<close>

definition packet :: "byte list \<Rightarrow> byte list" where
  "packet payload = [3, 0] @ be16 (headerLen + length payload) @ payload"

lemma WritePacket_ok:
  "s_up s \<Longrightarrow> length payload \<le> 65531 \<Longrightarrow>
     WritePacket payload s = (Inr (), s\<lparr>s_out := s_out s @ packet payload\<rparr>)"
  by (simp add: WritePacket_def stream_Write_def packet_def headerLen_def MaxPacket_def)

lemma WritePacket_Inr:
  "WritePacket payload s = (Inr (), s') \<Longrightarrow>
     s' = s\<lparr>s_out := s_out s @ packet payload\<rparr> \<and> length payload \<le> 65531"
  by (auto simp: WritePacket_def stream_Write_def packet_def headerLen_def MaxPacket_def Let_def split: if_splits)

lemma WritePacket_Inl: "WritePacket payload s = (Inl e, s') \<Longrightarrow> s' = s \<and> e \<noteq> Panic"
  by (auto simp: WritePacket_def stream_Write_def Let_def split: if_splits)

lemma ReadPacket_packet:
  assumes "s_in s = packet payload @ r" and "length payload \<le> 65531"
  shows "ReadPacket s = (Inr payload, s\<lparr>s_in := r\<rparr>)"
proof -
  let ?n = "headerLen + length payload"
  have "be_nat (be16 ?n) = ?n" using assms(2) by (intro be_nat_be_bytes_small) (simp add: headerLen_def)
  then show ?thesis
    using assms by (simp add: ReadPacket_def ReadFull_def packet_def headerLen_def MaxPacket_def be16_eq)
qed

lemma ReadPacket_progress:
  assumes "ReadPacket s = (Inr payload, s')"
  shows "length (s_in s') + headerLen + length payload = length (s_in s)"
    and "s_out s' = s_out s" and "s_up s' = s_up s" and "length payload \<le> 65531"
  using assms
  by (auto simp: ReadPacket_def ReadFull_def headerLen_def MaxPacket_def Let_def split: if_splits)

lemma ReadPacket_no_panic: "fst (ReadPacket s) \<noteq> Inl Panic"
  by (simp add: ReadPacket_def ReadFull_def Let_def)

end
