(* ===== verification/Transport.thy ===== *)
theory Transport
  imports Prelude
begin

text \<open>
  The contract between the session layer and the transport below it
  (\<^verbatim>\<open>type Transport interface\<close> of \<^verbatim>\<open>internal/osi/session\<close>): what one
  end sends, the other receives, whole and in order.
\<close>

text \<open>A client that sends a list of messages, and one that reads \<open>n\<close> of them.\<close>

fun send_all :: "(byte list \<Rightarrow> 'c \<Rightarrow> ('e, unit) result \<times> 'c) \<Rightarrow> byte list list \<Rightarrow> 'c \<Rightarrow> ('e, unit) result \<times> 'c" where
  "send_all send [] c = (Inr (), c)"
| "send_all send (m # ms) c = (case send m c of (Inl e, c') \<Rightarrow> (Inl e, c') | (Inr _, c') \<Rightarrow> send_all send ms c')"

fun receive_n :: "('c \<Rightarrow> ('e, byte list) result \<times> 'c) \<Rightarrow> nat \<Rightarrow> 'c \<Rightarrow> ('e, byte list list) result \<times> 'c" where
  "receive_n receive 0 c = (Inr [], c)"
| "receive_n receive (Suc n) c =
     (case receive c of
        (Inl e, c') \<Rightarrow> (Inl e, c')
      | (Inr m, c') \<Rightarrow> (case receive_n receive n c' of (Inl e, c'') \<Rightarrow> (Inl e, c'') | (Inr ms, c'') \<Rightarrow> (Inr (m # ms), c'')))"

text \<open>
  \<open>sent\<close> and \<open>pending\<close> are the octets an end has put on the wire and those it has yet to
  read; \<open>wire c m\<close> is what sending \<open>m\<close> puts there.
\<close>

locale transport =
  fixes send :: "byte list \<Rightarrow> 'c \<Rightarrow> ('e, unit) result \<times> 'c"
    and receive :: "'c \<Rightarrow> ('e, byte list) result \<times> 'c"
    and sent :: "'c \<Rightarrow> byte list" and pending :: "'c \<Rightarrow> byte list"
    and wire :: "'c \<Rightarrow> byte list \<Rightarrow> byte list"
    and ready :: "'c \<Rightarrow> bool" and accepts :: "'c \<Rightarrow> byte list \<Rightarrow> bool"
  assumes send_wire: "ready c \<Longrightarrow>
      \<exists>c'. send m c = (Inr (), c') \<and> sent c' = sent c @ wire c m \<and> pending c' = pending c \<and> ready c' \<and> wire c' = wire c
        \<and> accepts c' = accepts c"
    and receive_wire: "ready c \<Longrightarrow> ready c' \<Longrightarrow> accepts c' m \<Longrightarrow> pending c' = wire c m @ r \<Longrightarrow>
      \<exists>c''. receive c' = (Inr m, c'') \<and> pending c'' = r \<and> sent c'' = sent c' \<and> ready c'' \<and> wire c'' = wire c'
        \<and> accepts c'' = accepts c'"
begin

lemma send_all_wire:
  "ready c \<Longrightarrow> \<exists>c'. send_all send ms c = (Inr (), c') \<and> sent c' = sent c @ concat (map (wire c) ms)"
proof (induction ms arbitrary: c)
  case (Cons m ms)
  from send_wire [OF Cons.prems, of m] obtain c1
    where c1: "send m c = (Inr (), c1)" "sent c1 = sent c @ wire c m" "ready c1" "wire c1 = wire c" by blast
  from Cons.IH [OF c1(3)] c1 show ?case by auto
qed simp

lemma receive_n_wire:
  "ready c \<Longrightarrow> ready c' \<Longrightarrow> list_all (accepts c') ms \<Longrightarrow> pending c' = concat (map (wire c) ms) @ r \<Longrightarrow>
     \<exists>c''. receive_n receive (length ms) c' = (Inr ms, c'') \<and> pending c'' = r"
proof (induction ms arbitrary: c')
  case (Cons m ms)
  from receive_wire [OF Cons.prems(1,2), of m "concat (map (wire c) ms) @ r"] Cons.prems(3,4) obtain c1
    where c1: "receive c' = (Inr m, c1)" "pending c1 = concat (map (wire c) ms) @ r" "ready c1" "accepts c1 = accepts c'"
    by auto
  from Cons.IH [OF Cons.prems(1) c1(3)] c1 Cons.prems(3) show ?case by auto
qed simp

text \<open>What is sent in order arrives in order.\<close>

lemma in_order:
  assumes "ready c" "ready c'" "list_all (accepts c') ms"
  shows "\<exists>w c1. send_all send ms c = (Inr (), c1) \<and> sent c1 = sent c @ w
    \<and> (\<forall>r. pending c' = w @ r \<longrightarrow> (\<exists>c2. receive_n receive (length ms) c' = (Inr ms, c2) \<and> pending c2 = r))"
  using send_all_wire [OF assms(1), of ms] receive_n_wire [OF assms] by blast

end

end
