(* ===== verification/Cotp.thy ===== *)
theory Cotp
  imports Tpkt Transport
begin

text \<open>
  The class-0 transport protocol (\<^verbatim>\<open>internal/osi/cotp\<close>): the CR/CC handshake with
  its negotiation of the TPDU size, segmentation of a TSDU into DT TPDUs and its reassembly.
\<close>

section \<open>Connections\<close>

definition tpduCR :: byte where "tpduCR = 0xe0"
definition tpduCC :: byte where "tpduCC = 0xd0"
definition tpduDR :: byte where "tpduDR = 0x80"
definition tpduDT :: byte where "tpduDT = 0xf0"
definition tpduER :: byte where "tpduER = 0x70"
definition paramTPDUSize :: byte where "paramTPDUSize = 0xc0"
definition paramSrcTSAP :: byte where "paramSrcTSAP = 0xc1"
definition paramDstTSAP :: byte where "paramDstTSAP = 0xc2"
definition eot :: byte where "eot = 0x80"

lemmas cotp_codes = tpduCR_def tpduCC_def tpduDR_def tpduDT_def tpduER_def
  paramTPDUSize_def paramSrcTSAP_def paramDstTSAP_def eot_def

text \<open>The types class 0 ignores: ED, AK, EA and RJ.\<close>

definition not_class0 :: "byte \<Rightarrow> bool" where
  "not_class0 typ = (typ = 0x10 \<or> typ = 0x60 \<or> typ = 0x20 \<or> typ = 0x50)"

datatype cotp_error =
    Io io_error | ConnectionRefused | ExpectedCC byte | ShortCC | WrongReference | TruncatedTPDU | BadLI
  | ShortDT | TSDUTooLong | ReceivedER | UnexpectedTPDU byte | ExpectedCR byte | SelectorTooLong

record Conn =
  rw :: stream
  maxTPDU :: nat
  srcRef :: nat
  dstRef :: nat
  srcTSAP :: "byte list option"
  dstTSAP :: "byte list option"
  readBuf :: "byte list"
  maxTSDU :: int

record Options =
  o_SrcTSAP :: "byte list option"
  o_DstTSAP :: "byte list option"
  o_TPDUSizeCode :: byte

definition DefaultMaxTSDU :: int where "DefaultMaxTSDU = 128 * 2 ^ 10"
definition MaxTSEL :: nat where "MaxTSEL = 32"
definition DefaultTSAP :: "byte list" where "DefaultTSAP = [0x00, 0x01]"

definition SetMaxTSDU :: "int \<Rightarrow> Conn \<Rightarrow> Conn" where "SetMaxTSDU n c = c\<lparr>maxTSDU := n\<rparr>"

fun lift_io :: "(io_error, 'a) result \<Rightarrow> (cotp_error, 'a) result" where
  "lift_io (Inr x) = Inr x"
| "lift_io (Inl Panic) = Inl Panic"
| "lift_io (Inl (Err e)) = Inl (Err (Io e))"

definition clampSizeCode :: "byte \<Rightarrow> byte" where
  "clampSizeCode code = min (max code 7) 11"

definition writeTPDU :: "byte list \<Rightarrow> Conn \<Rightarrow> (cotp_error, unit) result \<times> Conn" where
  "writeTPDU tpdu c = (case WritePacket tpdu (rw c) of (r, s) \<Rightarrow> (lift_io r, c\<lparr>rw := s\<rparr>))"

definition readTPDU :: "Conn \<Rightarrow> (cotp_error, byte list) result \<times> Conn" where
  "readTPDU c = (case ReadPacket (rw c) of (r, s) \<Rightarrow> (lift_io r, c\<lparr>rw := s\<rparr>))"

definition writeParam :: "byte list \<Rightarrow> byte \<Rightarrow> byte list \<Rightarrow> byte list" where
  "writeParam b code val = b @ [code, byte_of (length val)] @ val"

definition parseHeader :: "byte list \<Rightarrow> (cotp_error, nat \<times> byte \<times> byte list) result" where
  "parseHeader tpdu =
     (if length tpdu < 2 then Inl (Err TruncatedTPDU)
      else rbind (go_index tpdu 0) (\<lambda>l.
        let li = unat l in
        if li = 0 \<or> 1 + li > length tpdu then Inl (Err BadLI)
        else rbind (go_index tpdu 1) (\<lambda>t.
             rbind (go_slice tpdu 2 (1 + li)) (\<lambda>body. Inr (li, t AND 0xf0, body)))))"

section \<open>Handshake\<close>

text \<open>The buffer's first octet is patched with its length less one (\<^verbatim>\<open>tpdu[0] = byte(len(tpdu) - 1)\<close>).\<close>

definition with_LI :: "byte list \<Rightarrow> byte list" where
  "with_LI tpdu = byte_of (length tpdu - 1) # tl tpdu"

definition opt_octets :: "byte list option \<Rightarrow> byte list" where
  "opt_octets x = (case x of None \<Rightarrow> [] | Some b \<Rightarrow> b)"

definition sendCR :: "byte \<Rightarrow> Conn \<Rightarrow> (cotp_error, unit) result \<times> Conn" where
  "sendCR sizeCode c =
     (let b = [0, tpduCR] @ be16 0 @ be16 (srcRef c) @ [0];
          b = writeParam b paramTPDUSize [sizeCode];
          b = writeParam b paramSrcTSAP (opt_octets (srcTSAP c));
          b = writeParam b paramDstTSAP (opt_octets (dstTSAP c))
      in writeTPDU (with_LI b) c)"

function parseParams :: "byte list \<Rightarrow> nat \<Rightarrow> nat" where
  "parseParams params m =
     (case params of
        code # l # rest \<Rightarrow>
          let plen = unat l in
          if plen > length rest then m
          else parseParams (drop plen rest)
            (case take plen rest of
               [v] \<Rightarrow> if code = paramTPDUSize \<and> v \<ge> 7 \<and> v \<le> 11 \<and> 2 ^ unat v < m then 2 ^ unat v else m
             | _ \<Rightarrow> m)
      | _ \<Rightarrow> m)"
  by pat_completeness auto
termination by (relation "measure (\<lambda>(p, m). length p)") auto

declare parseParams.simps [simp del]

definition recvCC :: "Conn \<Rightarrow> (cotp_error, unit) result \<times> Conn" where
  "recvCC c =
     (case readTPDU c of
        (Inl e, c1) \<Rightarrow> (Inl e, c1)
      | (Inr tpdu, c1) \<Rightarrow>
          (case parseHeader tpdu of
             Inl e \<Rightarrow> (Inl e, c1)
           | Inr (_, typ, body) \<Rightarrow>
               if typ \<noteq> tpduCC then
                 (if typ = tpduDR then (Inl (Err ConnectionRefused), c1) else (Inl (Err (ExpectedCC typ)), c1))
               else if length body < 5 then (Inl (Err ShortCC), c1)
               else if be_nat (take 2 body) \<noteq> srcRef c1 then (Inl (Err WrongReference), c1)
               else let c2 = c1\<lparr>dstRef := be_nat (take 2 (drop 2 body))\<rparr>
                    in if length body > 5 then (Inr (), c2\<lparr>maxTPDU := parseParams (drop 5 body) (maxTPDU c2)\<rparr>)
                       else (Inr (), c2)))"

definition Connect :: "stream \<Rightarrow> Options \<Rightarrow> (cotp_error, Conn) result \<times> stream" where
  "Connect s opts =
     (let src = (case o_SrcTSAP opts of None \<Rightarrow> DefaultTSAP | Some t \<Rightarrow> t);
          dst = (case o_DstTSAP opts of None \<Rightarrow> DefaultTSAP | Some t \<Rightarrow> t);
          code = clampSizeCode (if o_TPDUSizeCode opts = 0 then 10 else o_TPDUSizeCode opts);
          c = \<lparr>rw = s, maxTPDU = 2 ^ unat code, srcRef = 1, dstRef = 0, srcTSAP = Some src, dstTSAP = Some dst,
               readBuf = [], maxTSDU = 0\<rparr>
      in case sendCR code c of
           (Inl e, c1) \<Rightarrow> (Inl e, rw c1)
         | (Inr _, c1) \<Rightarrow>
             (case recvCC c1 of
                (Inl e, c2) \<Rightarrow> (Inl e, rw c2)
              | (Inr _, c2) \<Rightarrow> (Inr c2, rw c2)))"

text \<open>The parameter loop of \<^verbatim>\<open>Accept\<close>: the connection and the size code so far.\<close>

function acceptParams :: "byte list \<Rightarrow> Conn \<Rightarrow> byte \<Rightarrow> (cotp_error, Conn \<times> byte) result" where
  "acceptParams params c sizeCode =
     (case params of
        code # l # rest \<Rightarrow>
          let plen = unat l in
          if plen > length rest then Inr (c, sizeCode)
          else let val = take plen rest; more = drop plen rest in
            if code = paramTPDUSize \<and> plen = 1 then
              (let s = clampSizeCode (hd val) in acceptParams more (c\<lparr>maxTPDU := 2 ^ unat s\<rparr>) s)
            else if (code = paramSrcTSAP \<or> code = paramDstTSAP) \<and> plen > MaxTSEL then Inl (Err SelectorTooLong)
            else if code = paramSrcTSAP then
              acceptParams more (c\<lparr>dstTSAP := if val = [] then None else Some val\<rparr>) sizeCode
            else if code = paramDstTSAP then
              acceptParams more (c\<lparr>srcTSAP := if val = [] then None else Some val\<rparr>) sizeCode
            else acceptParams more c sizeCode
      | _ \<Rightarrow> Inr (c, sizeCode))"
  by pat_completeness auto
termination by (relation "measure (\<lambda>(p, c, s). length p)") auto

declare acceptParams.simps [simp del]

definition sendCC :: "byte \<Rightarrow> Conn \<Rightarrow> (cotp_error, unit) result \<times> Conn" where
  "sendCC sizeCode c =
     (let b = [0, tpduCC] @ be16 (dstRef c) @ be16 (srcRef c) @ [0];
          b = writeParam b paramTPDUSize [sizeCode];
          b = (case srcTSAP c of None \<Rightarrow> b | Some t \<Rightarrow> writeParam b paramSrcTSAP t);
          b = (case dstTSAP c of None \<Rightarrow> b | Some t \<Rightarrow> writeParam b paramDstTSAP t)
      in writeTPDU (with_LI b) c)"

definition Accept :: "stream \<Rightarrow> (cotp_error, Conn) result \<times> stream" where
  "Accept s =
     (case ReadPacket s of
        (Inl e, s1) \<Rightarrow> (lift_io (Inl e), s1)
      | (Inr tpdu, s1) \<Rightarrow>
          (case parseHeader tpdu of
             Inl e \<Rightarrow> (Inl e, s1)
           | Inr (_, typ, body) \<Rightarrow>
               if typ \<noteq> tpduCR then (Inl (Err (ExpectedCR typ)), s1)
               else
                 let c = \<lparr>rw = s1, maxTPDU = 1024, srcRef = 1, dstRef = 0, srcTSAP = None, dstTSAP = None,
                          readBuf = [], maxTSDU = 0\<rparr>;
                     c = (if length body \<ge> 4 then c\<lparr>dstRef := be_nat (take 2 (drop 2 body))\<rparr> else c)
                 in case (if length body > 5 then acceptParams (drop 5 body) c 10 else Inr (c, 10)) of
                      Inl e \<Rightarrow> (Inl e, s1)
                    | Inr (c, sizeCode) \<Rightarrow>
                        (case sendCC sizeCode c of
                           (Inl e, c2) \<Rightarrow> (Inl e, rw c2)
                         | (Inr _, c2) \<Rightarrow> (Inr c2, rw c2))))"

section \<open>Data transfer\<close>

definition maxData :: "Conn \<Rightarrow> nat" where
  "maxData c = (let m = maxTPDU c - 3 in if m \<le> 0 then 1024 - 3 else m)"

lemma maxData_pos [simp]: "0 < maxData c" "maxData c \<noteq> 0"
  by (simp_all add: maxData_def Let_def)

function Send_loop :: "byte list \<Rightarrow> nat \<Rightarrow> Conn \<Rightarrow> (cotp_error, unit) result \<times> Conn" where
  "Send_loop tsdu off c =
     (if off < length tsdu \<or> off = 0 then
        let e0 = off + maxData c;
            last = (e0 \<ge> length tsdu);
            endx = (if last then length tsdu else e0);
            num = (if last then eot else 0)
        in case go_slice tsdu off endx of
             Inl e \<Rightarrow> (Inl e, c)
           | Inr data \<Rightarrow>
               (case writeTPDU ([2, tpduDT, num] @ data) c of
                  (Inl e, c1) \<Rightarrow> (Inl e, c1)
                | (Inr _, c1) \<Rightarrow> if last then (Inr (), c1) else Send_loop tsdu endx c1)
      else (Inr (), c))"
  by pat_completeness auto

termination
  by (relation "measure (\<lambda>(tsdu, off, c). length tsdu - off)") (auto intro!: diff_less_mono2)

declare Send_loop.simps [simp del]

definition Send :: "byte list \<Rightarrow> Conn \<Rightarrow> (cotp_error, unit) result \<times> Conn" where
  "Send tsdu c = Send_loop tsdu 0 c"

definition TSDU_limit :: "Conn \<Rightarrow> int" where
  "TSDU_limit c = (if maxTSDU c = 0 then DefaultMaxTSDU else maxTSDU c)"

lemma TSDU_limit_upd [simp]:
  "TSDU_limit (c\<lparr>rw := s\<rparr>) = TSDU_limit c" "TSDU_limit (c\<lparr>readBuf := b\<rparr>) = TSDU_limit c"
  by (simp_all add: TSDU_limit_def)

function Receive_loop :: "Conn \<Rightarrow> (cotp_error, byte list) result \<times> Conn" where
  "Receive_loop c =
     (case readTPDU c of
        (Inl e, c1) \<Rightarrow> (Inl e, c1)
      | (Inr tpdu, c1) \<Rightarrow>
          (case parseHeader tpdu of
             Inl e \<Rightarrow> (Inl e, c1)
           | Inr (li, typ, body) \<Rightarrow>
               if typ = tpduDT then
                 (if length body < 1 then (Inl (Err ShortDT), c1)
                  else case go_index body 0 of
                    Inl e \<Rightarrow> (Inl e, c1)
                  | Inr num \<Rightarrow>
                      (case go_slice tpdu (1 + li) (length tpdu) of
                         Inl e \<Rightarrow> (Inl e, c1)
                       | Inr data \<Rightarrow>
                           if int (length (readBuf c1) + length data) > TSDU_limit c1
                           then (Inl (Err TSDUTooLong), c1\<lparr>readBuf := []\<rparr>)
                           else let c2 = c1\<lparr>readBuf := readBuf c1 @ data\<rparr>
                                in if num AND eot \<noteq> 0 then (Inr (readBuf c2), c2) else Receive_loop c2))
               else if typ = tpduDR then (Inl (Err (Io EOF)), c1)
               else if typ = tpduER then (Inl (Err ReceivedER), c1)
               else if not_class0 typ then Receive_loop c1
               else (Inl (Err (UnexpectedTPDU typ)), c1)))"
  by pat_completeness auto

lemma readTPDU_progress:
  "readTPDU c = (Inr tpdu, c1) \<Longrightarrow> length (s_in (rw c1)) < length (s_in (rw c))"
  using ReadPacket_progress(1) [of "rw c"]
  by (auto simp: readTPDU_def headerLen_def split: prod.splits elim!: lift_io.elims)

termination Receive_loop
  by (relation "measure (\<lambda>c. length (s_in (rw c)))") (auto dest: readTPDU_progress [OF sym])

declare Receive_loop.simps [simp del]

definition Receive :: "Conn \<Rightarrow> (cotp_error, byte list) result \<times> Conn" where
  "Receive c = Receive_loop (c\<lparr>readBuf := []\<rparr>)"


section \<open>No panics\<close>

lemma parseHeader_Inr:
  "parseHeader tpdu = Inr (li, typ, body) \<Longrightarrow> 0 < li \<and> li < length tpdu"
  by (auto simp: parseHeader_def Let_def rbind_eq_Inr split: if_splits)

lemma parseHeader_no_panic: "parseHeader tpdu \<noteq> Inl Panic"
  by (cases tpdu; cases "tl tpdu") (auto simp: parseHeader_def Let_def Suc_le_eq)

lemma readTPDU_no_panic: "fst (readTPDU c) \<noteq> Inl Panic"
  using ReadPacket_no_panic [of "rw c"]
  by (auto simp: readTPDU_def split: prod.splits elim!: lift_io.elims)

lemma Receive_loop_no_panic: "fst (Receive_loop c) \<noteq> Inl Panic"
proof (induction c rule: Receive_loop.induct)
  case (1 c)
  show ?case
    using "1.IH" readTPDU_no_panic [of c] parseHeader_no_panic
    by (subst Receive_loop.simps)
      (auto simp: Let_def Suc_le_eq split: prod.splits sum.splits dest: parseHeader_Inr)
qed

section \<open>Segmentation and reassembly\<close>

text \<open>The DT TPDUs of a TSDU when \<open>k\<close> octets fit each.\<close>

function segments :: "nat \<Rightarrow> byte list \<Rightarrow> byte list list" where
  "segments k tsdu =
     (if k = 0 \<or> length tsdu \<le> k then [[2, tpduDT, eot] @ tsdu]
      else ([2, tpduDT, 0] @ take k tsdu) # segments k (drop k tsdu))"
  by pat_completeness auto
termination by (relation "measure (\<lambda>(k, t). length t)") auto

declare segments.simps [simp del]

definition frames :: "nat \<Rightarrow> byte list \<Rightarrow> byte list" where
  "frames k tsdu = concat (map packet (segments k tsdu))"

lemma segments_bound: "0 < k \<Longrightarrow> t \<in> set (segments k tsdu) \<Longrightarrow> length t \<le> k + 3"
proof (induction k tsdu rule: segments.induct)
  case (1 k tsdu)
  then show ?case by (subst (asm) (2) segments.simps) (auto split: if_splits)
qed

lemma writeTPDU_ok:
  "s_up (rw c) \<Longrightarrow> length t \<le> 65531 \<Longrightarrow>
     writeTPDU t c = (Inr (), c\<lparr>rw := (rw c)\<lparr>s_out := s_out (rw c) @ packet t\<rparr>\<rparr>)"
  by (simp add: writeTPDU_def WritePacket_ok)

lemma Send_loop_frames:
  assumes "off \<le> length tsdu" "off < length tsdu \<or> off = 0" "s_up (rw c)" "maxData c \<le> 65528"
  shows "Send_loop tsdu off c =
    (Inr (), c\<lparr>rw := (rw c)\<lparr>s_out := s_out (rw c) @ frames (maxData c) (drop off tsdu)\<rparr>\<rparr>)"
  using assms
proof (induction tsdu off c rule: Send_loop.induct)
  case (1 tsdu off c)
  let ?k = "maxData c"
  show ?case
  proof (cases "length tsdu \<le> off + ?k")
    case True
    then show ?thesis
      using "1.prems" by (subst Send_loop.simps)
        (simp add: Let_def writeTPDU_ok frames_def segments.simps [of ?k "drop off tsdu"])
  next
    case False
    define c1 where "c1 = c\<lparr>rw := (rw c)\<lparr>s_out := s_out (rw c) @ packet ([2, tpduDT, 0] @ take ?k (drop off tsdu))\<rparr>\<rparr>"
    have w: "writeTPDU ([2, tpduDT, 0] @ take ?k (drop off tsdu)) c = (Inr (), c1)"
      using "1.prems" by (simp add: writeTPDU_ok c1_def)
    have m: "maxData c1 = ?k" by (simp add: c1_def maxData_def)
    have nl: "\<not> (?k = 0 \<or> length (drop off tsdu) \<le> ?k)"
      using False by simp
    then have fr: "frames ?k (drop off tsdu)
        = packet ([2, tpduDT, 0] @ take ?k (drop off tsdu)) @ frames ?k (drop (off + ?k) tsdu)"
      unfolding frames_def segments.simps [of ?k "drop off tsdu"] by (simp add: add.commute)
    have "Send_loop tsdu off c = Send_loop tsdu (off + ?k) c1"
      using False w "1.prems" by (subst Send_loop.simps) (simp add: Let_def)
    also have "\<dots> = (Inr (), c1\<lparr>rw := (rw c1)\<lparr>s_out := s_out (rw c1) @ frames ?k (drop (off + ?k) tsdu)\<rparr>\<rparr>)"
      using "1.IH" [of "off + ?k" False "off + ?k" 0 "take ?k (drop off tsdu)" "Inr ()" c1 "()"]
        "1.prems" False w m by (simp add: c1_def)
    finally show ?thesis by (simp add: c1_def fr)
  qed
qed


lemma Send_frames:
  assumes "s_up (rw c)" "maxData c \<le> 65528"
  shows "Send tsdu c = (Inr (), c\<lparr>rw := (rw c)\<lparr>s_out := s_out (rw c) @ frames (maxData c) tsdu\<rparr>\<rparr>)"
  using Send_loop_frames [of 0 tsdu c] assms by (simp add: Send_def)

lemma parseHeader_DT:
  "parseHeader ([2, tpduDT, num] @ data) = Inr (2, tpduDT, [num])"
  by (simp add: parseHeader_def go_index_def go_slice_def cotp_codes)

lemma readTPDU_packet:
  "s_in (rw c) = packet t @ r \<Longrightarrow> length t \<le> 65531 \<Longrightarrow>
     readTPDU c = (Inr t, c\<lparr>rw := (rw c)\<lparr>s_in := r\<rparr>\<rparr>)"
  by (simp add: readTPDU_def ReadPacket_packet)

text \<open>One DT TPDU: it ends the TSDU or is appended to the buffer.\<close>

lemma Receive_loop_DT:
  assumes "s_in (rw c) = packet ([2, tpduDT, num] @ data) @ r" "length data \<le> 65528"
    and "int (length (readBuf c) + length data) \<le> TSDU_limit c"
  shows "Receive_loop c =
    (let c' = c\<lparr>rw := (rw c)\<lparr>s_in := r\<rparr>, readBuf := readBuf c @ data\<rparr>
     in if num AND eot \<noteq> 0 then (Inr (readBuf c @ data), c') else Receive_loop c')"
  using assms parseHeader_DT [of num data] readTPDU_packet [OF assms(1)]
  by (subst Receive_loop.simps) (simp add: Let_def)

lemma Receive_loop_frames:
  assumes "s_in (rw c) = frames k tsdu @ r" and "0 < k" "k \<le> 65528"
    and "int (length (readBuf c) + length tsdu) \<le> TSDU_limit c"
  shows "Receive_loop c =
    (Inr (readBuf c @ tsdu), c\<lparr>rw := (rw c)\<lparr>s_in := r\<rparr>, readBuf := readBuf c @ tsdu\<rparr>)"
  using assms
proof (induction k tsdu arbitrary: c rule: segments.induct)
  case (1 k tsdu)
  show ?case
  proof (cases "length tsdu \<le> k")
    case True
    then have "s_in (rw c) = packet ([2, tpduDT, eot] @ tsdu) @ r"
      using "1.prems" by (simp add: frames_def segments.simps [of k tsdu])
    from Receive_loop_DT [OF this] show ?thesis
      using True "1.prems" by (simp add: Let_def cotp_codes)
  next
    case False
    define c1 where "c1 = c\<lparr>rw := (rw c)\<lparr>s_in := frames k (drop k tsdu) @ r\<rparr>, readBuf := readBuf c @ take k tsdu\<rparr>"
    have "s_in (rw c) = packet ([2, tpduDT, 0] @ take k tsdu) @ frames k (drop k tsdu) @ r"
      using False "1.prems" by (simp add: frames_def segments.simps [of k tsdu])
    from Receive_loop_DT [OF this] have "Receive_loop c = Receive_loop c1"
      using False "1.prems" by (simp add: Let_def c1_def)
    also have "\<dots> = (Inr (readBuf c1 @ drop k tsdu), c1\<lparr>rw := (rw c1)\<lparr>s_in := r\<rparr>, readBuf := readBuf c1 @ drop k tsdu\<rparr>)"
      using False "1.prems" by (intro "1.IH") (auto simp: c1_def)
    finally show ?thesis by (simp add: c1_def)
  qed
qed

lemma Receive_frames:
  assumes "s_in (rw c) = frames k tsdu @ r" and "0 < k" "k \<le> 65528" and "int (length tsdu) \<le> TSDU_limit c"
  shows "Receive c = (Inr tsdu, c\<lparr>rw := (rw c)\<lparr>s_in := r\<rparr>, readBuf := tsdu\<rparr>)"
  using Receive_loop_frames [of "c\<lparr>readBuf := []\<rparr>" k tsdu r] assms
  by (simp add: Receive_def)

text \<open>No sequence of segments makes \<open>Receive\<close> hold or return more than the limit.\<close>

lemma Receive_loop_bound:
  assumes "Receive_loop c = (Inr t, c')"
  shows "int (length t) \<le> TSDU_limit c \<and> t = readBuf c' \<and> maxTSDU c' = maxTSDU c \<and> maxTPDU c' = maxTPDU c"
  using assms
proof (induction c rule: Receive_loop.induct)
  case (1 c)
  obtain r1 s1 where rd: "readTPDU c = (r1, c\<lparr>rw := s1\<rparr>)"
    by (cases "ReadPacket (rw c)") (simp add: readTPDU_def)
  obtain tpdu where r1: "r1 = Inr tpdu"
    using "1.prems" rd by (cases r1) (simp_all add: Receive_loop.simps [of c])
  obtain li ty body where hd: "parseHeader tpdu = Inr (li, ty, body)"
    using "1.prems" rd r1 by (cases "parseHeader tpdu") (auto simp: Receive_loop.simps [of c])
  let ?c = "c\<lparr>rw := s1\<rparr>"
  note IH = "1.IH" [of r1 ?c tpdu "(li, ty, body)" li "(ty, body)" ty body, OF rd [symmetric] r1 hd refl refl]
  show ?case
  proof (cases "ty = tpduDT")
    case True
    then show ?thesis
      using "1.prems" rd r1 hd IH(1)
      by (auto simp: Receive_loop.simps [of c] Let_def split: sum.splits if_splits)
  next
    case False
    then show ?thesis
      using "1.prems" rd r1 hd IH(2)
      by (auto simp: Receive_loop.simps [of c] split: if_splits)
  qed
qed

section \<open>Negotiation\<close>

text \<open>A negotiated TPDU size is one of class 0: 128 to 2048 octets.\<close>

definition class0_size :: "nat \<Rightarrow> bool" where
  "class0_size m = (m \<in> (\<lambda>k. 2 ^ k) ` {7..11})"

lemma class0_size_bounds: "class0_size m \<Longrightarrow> 128 \<le> m \<and> m \<le> 2048"
proof -
  have "{7..11} = {7, 8, 9, 10, 11 :: nat}" by auto
  then show "class0_size m \<Longrightarrow> 128 \<le> m \<and> m \<le> 2048" by (auto simp: class0_size_def)
qed

lemma class0_size_code: "7 \<le> v \<Longrightarrow> v \<le> 11 \<Longrightarrow> class0_size (2 ^ unat (v :: byte))"
  unfolding class0_size_def by (rule imageI) (simp add: word_le_nat_alt)

lemma clampSizeCode_range: "7 \<le> clampSizeCode v" "clampSizeCode v \<le> 11"
  by (auto simp: clampSizeCode_def min_def max_def)

lemma clampSizeCode_idem [simp]: "7 \<le> v \<Longrightarrow> v \<le> 11 \<Longrightarrow> clampSizeCode v = v"
  by (simp add: clampSizeCode_def)

lemma class0_clamp [simp]: "class0_size (2 ^ unat (clampSizeCode v))"
  by (simp add: class0_size_code clampSizeCode_range)

text \<open>The parameter loops stop at the end or at a parameter that overruns.\<close>

fun params_end :: "byte list \<Rightarrow> bool" where
  "params_end (code # l # rest) = (length rest < unat l)"
| "params_end _ = True"

lemma params_cases:
  obtains (stop) "params_end p"
  | (param) code l rest where "p = code # l # rest" and "\<not> length rest < unat l"
proof (cases "params_end p")
  case False
  then show thesis using param by (cases p rule: params_end.cases) simp_all
qed (rule stop)

lemma params_end_stop:
  assumes "params_end p"
  shows "parseParams p m = m" and "acceptParams p c s = Inr (c, s)"
  using assms by (cases p rule: params_end.cases; simp add: parseParams.simps acceptParams.simps)+

lemma parseParams_class0: "class0_size m \<Longrightarrow> class0_size (parseParams p m) \<and> parseParams p m \<le> m"
proof (induction p m rule: parseParams.induct)
  case (1 p m)
  show ?case
  proof (cases p rule: params_cases)
    case stop
    with "1.prems" show ?thesis by (simp add: params_end_stop)
  next
    case (param code l rest)
    define m' where "m' = (case take (unat l) rest of
               [v] \<Rightarrow> if code = paramTPDUSize \<and> v \<ge> 7 \<and> v \<le> 11 \<and> 2 ^ unat v < m then 2 ^ unat v else m
             | _ \<Rightarrow> m)"
    have m': "class0_size m'" "m' \<le> m"
      using "1.prems" by (auto simp: m'_def class0_size_code split: list.splits)
    have "parseParams p m = parseParams (drop (unat l) rest) m'"
      unfolding param(1) by (subst parseParams.simps) (use param(2) in \<open>simp add: m'_def Let_def\<close>)
    with "1.IH" [OF param(1) refl refl, folded m'_def] param(2) m' show ?thesis by auto
  qed
qed

lemma acceptParams_class0:
  "acceptParams p c s = Inr (c', s') \<Longrightarrow> maxTPDU c = 2 ^ unat s \<Longrightarrow> 7 \<le> s \<Longrightarrow> s \<le> 11 \<Longrightarrow>
     maxTPDU c' = 2 ^ unat s' \<and> 7 \<le> s' \<and> s' \<le> 11 \<and> rw c' = rw c \<and> srcRef c' = srcRef c \<and> dstRef c' = dstRef c"
proof (induction p c s rule: acceptParams.induct)
  case (1 p c s)
  show ?case
  proof (cases p rule: params_cases)
    case stop
    with "1.prems" show ?thesis by (simp add: params_end_stop)
  next
    case (param code l rest)
    note IH = "1.IH" [OF param(1) refl refl param(2) refl refl]
    from "1.prems"(1) show ?thesis
      using param(2) IH "1.prems"(2-4) clampSizeCode_range [of "hd (take (unat l) rest)"]
      by (subst (asm) acceptParams.simps) (auto simp: param(1) Let_def split: if_splits)
  qed
qed

lemma writeTPDU_keeps:
  "writeTPDU t c = (r, c') \<Longrightarrow> maxTPDU c' = maxTPDU c \<and> srcRef c' = srcRef c \<and> dstRef c' = dstRef c
     \<and> maxTSDU c' = maxTSDU c \<and> srcTSAP c' = srcTSAP c \<and> dstTSAP c' = dstTSAP c"
  by (auto simp: writeTPDU_def split: prod.splits)

lemma readTPDU_keeps:
  "readTPDU c = (r, c') \<Longrightarrow> maxTPDU c' = maxTPDU c \<and> srcRef c' = srcRef c"
  by (auto simp: readTPDU_def split: prod.splits)

lemma recvCC_class0:
  assumes "recvCC c = (Inr u, c')" and "class0_size (maxTPDU c)"
  shows "class0_size (maxTPDU c') \<and> maxTPDU c' \<le> maxTPDU c"
proof -
  obtain r1 c1 where rd: "readTPDU c = (r1, c1)" by fastforce
  show ?thesis
    using assms rd readTPDU_keeps [OF rd] parseParams_class0
    by (auto simp: recvCC_def Let_def split: sum.splits if_splits)
qed

lemma Connect_class0:
  assumes "Connect s opts = (Inr c, s')"
  shows "class0_size (maxTPDU c)"
    and "o_TPDUSizeCode opts \<noteq> 0 \<Longrightarrow> maxTPDU c \<le> 2 ^ unat (clampSizeCode (o_TPDUSizeCode opts))"
proof -
  define code where "code = clampSizeCode (if o_TPDUSizeCode opts = 0 then 10 else o_TPDUSizeCode opts)"
  obtain c0 c1 where send: "sendCR code c0 = (Inr (), c1)" "maxTPDU c0 = 2 ^ unat code" and recv: "recvCC c1 = (Inr (), c)"
    using assms by (auto simp: Connect_def Let_def code_def [symmetric] split: prod.splits sum.splits)
  have "maxTPDU c1 = 2 ^ unat code"
    using send by (auto simp: sendCR_def Let_def dest: writeTPDU_keeps)
  then have "class0_size (maxTPDU c) \<and> maxTPDU c \<le> 2 ^ unat code"
    using recvCC_class0 [OF recv] by (simp add: code_def)
  then show "class0_size (maxTPDU c)"
    "o_TPDUSizeCode opts \<noteq> 0 \<Longrightarrow> maxTPDU c \<le> 2 ^ unat (clampSizeCode (o_TPDUSizeCode opts))"
    by (simp_all add: code_def)
qed

lemma sendCC_keeps: "sendCC sc c = (r, c') \<Longrightarrow> maxTPDU c' = maxTPDU c"
  by (auto simp: sendCC_def Let_def dest: writeTPDU_keeps)

lemma Accept_class0:
  assumes "Accept s = (Inr c, s')" shows "class0_size (maxTPDU c)"
proof -
  have k: "class0_size 1024" using class0_size_code [of 10] by simp
  show ?thesis
    using assms k
    by (auto simp: Accept_def Let_def class0_size_code split: prod.splits sum.splits if_splits
        dest!: acceptParams_class0 sendCC_keeps elim!: lift_io.elims)
qed

lemma acceptParams_param:
  assumes "length val < 256"
  shows "acceptParams (code # byte_of (length val) # val @ rest) c s =
    (if code = paramTPDUSize \<and> length val = 1 then
       acceptParams rest (c\<lparr>maxTPDU := 2 ^ unat (clampSizeCode (hd val))\<rparr>) (clampSizeCode (hd val))
     else if (code = paramSrcTSAP \<or> code = paramDstTSAP) \<and> length val > MaxTSEL then Inl (Err SelectorTooLong)
     else if code = paramSrcTSAP then acceptParams rest (c\<lparr>dstTSAP := if val = [] then None else Some val\<rparr>) s
     else if code = paramDstTSAP then acceptParams rest (c\<lparr>srcTSAP := if val = [] then None else Some val\<rparr>) s
     else acceptParams rest c s)"
  by (subst acceptParams.simps) (use assms in \<open>simp add: Let_def\<close>)

lemma parseParams_param:
  assumes "length val < 256"
  shows "parseParams (code # byte_of (length val) # val @ rest) m =
    parseParams rest (case val of
       [v] \<Rightarrow> if code = paramTPDUSize \<and> v \<ge> 7 \<and> v \<le> 11 \<and> 2 ^ unat v < m then 2 ^ unat v else m
     | _ \<Rightarrow> m)"
  by (subst parseParams.simps) (use assms in \<open>simp add: Let_def\<close>)

text \<open>The octets of the two handshake TPDUs.\<close>

definition params_octets :: "byte \<Rightarrow> byte list \<Rightarrow> byte list \<Rightarrow> byte list" where
  "params_octets code src dst =
     [paramTPDUSize, 1, code] @ [paramSrcTSAP, byte_of (length src)] @ src @ [paramDstTSAP, byte_of (length dst)] @ dst"

definition handshake_octets :: "byte \<Rightarrow> nat \<Rightarrow> nat \<Rightarrow> byte \<Rightarrow> byte list \<Rightarrow> byte list \<Rightarrow> byte list" where
  "handshake_octets typ d s code src dst =
     (let h = be16 d @ be16 s @ [0] @ params_octets code src dst in byte_of (Suc (length h)) # typ # h)"

lemma parseHeader_header:
  "length h < 254 \<Longrightarrow> parseHeader (byte_of (Suc (length h)) # typ # h) = Inr (Suc (length h), typ AND 0xf0, h)"
  by (simp add: parseHeader_def Let_def go_index_def go_slice_def)

lemma parseHeader_handshake:
  assumes "length src \<le> 32" "length dst \<le> 32" "typ AND 0xf0 = typ"
  shows "\<exists>li. parseHeader (handshake_octets typ d s code src dst)
    = Inr (li, typ, be16 d @ be16 s @ [0] @ params_octets code src dst)"
proof -
  define h where "h = be16 d @ be16 s @ [0] @ params_octets code src dst"
  have "length h < 100" using assms by (simp add: h_def params_octets_def)
  then have "length h < 254" by simp
  from parseHeader_header [OF this] show ?thesis
    using assms(3) unfolding handshake_octets_def Let_def h_def [symmetric] by simp
qed

lemma length_handshake: "length src \<le> 32 \<Longrightarrow> length dst \<le> 32 \<Longrightarrow> length (handshake_octets typ d s code src dst) < 100"
  by (simp add: handshake_octets_def params_octets_def Let_def)

lemma sendCR_octets:
  assumes "s_up (rw c)" "srcTSAP c = Some src" "dstTSAP c = Some dst" "length src \<le> 32" "length dst \<le> 32"
  shows "sendCR code c = (Inr (), c\<lparr>rw := (rw c)\<lparr>s_out := s_out (rw c) @
    packet (handshake_octets tpduCR 0 (srcRef c) code src dst)\<rparr>\<rparr>)"
proof -
  have "sendCR code c = writeTPDU (handshake_octets tpduCR 0 (srcRef c) code src dst) c"
    using assms by (simp add: sendCR_def Let_def writeParam_def opt_octets_def with_LI_def handshake_octets_def
        params_octets_def byte_of_def)
  then show ?thesis using assms length_handshake [of src dst tpduCR 0 "srcRef c" code] by (simp add: writeTPDU_ok)
qed

lemma sendCC_octets:
  assumes "s_up (rw c)" "srcTSAP c = Some src" "dstTSAP c = Some dst" "length src \<le> 32" "length dst \<le> 32"
  shows "sendCC code c = (Inr (), c\<lparr>rw := (rw c)\<lparr>s_out := s_out (rw c) @
    packet (handshake_octets tpduCC (dstRef c) (srcRef c) code src dst)\<rparr>\<rparr>)"
proof -
  have "sendCC code c = writeTPDU (handshake_octets tpduCC (dstRef c) (srcRef c) code src dst) c"
    using assms by (simp add: sendCC_def Let_def writeParam_def with_LI_def handshake_octets_def
        params_octets_def byte_of_def)
  then show ?thesis using assms length_handshake [of src dst tpduCC "dstRef c" "srcRef c" code] by (simp add: writeTPDU_ok)
qed


lemma Accept_CR:
  assumes "s_in s = packet (handshake_octets tpduCR 0 ref code src dst) @ r" "s_up s" "ref < 65536"
    and "src \<noteq> []" "dst \<noteq> []" "length src \<le> 32" "length dst \<le> 32" "7 \<le> code" "code \<le> 11"
  shows "\<exists>c. Accept s = (Inr c, rw c) \<and> maxTPDU c = 2 ^ unat code \<and> dstRef c = ref \<and> srcRef c = 1
    \<and> dstTSAP c = Some src \<and> srcTSAP c = Some dst
    \<and> rw c = s\<lparr>s_in := r, s_out := s_out s @ packet (handshake_octets tpduCC ref 1 code dst src)\<rparr>"
proof -
  let ?b = "be16 0 @ be16 ref @ [0] @ params_octets code src dst"
  obtain li where hdr: "parseHeader (handshake_octets tpduCR 0 ref code src dst) = Inr (li, tpduCR, ?b)"
    using parseHeader_handshake [OF assms(6,7), of tpduCR 0 ref code] by (auto simp: cotp_codes)
  have rd: "ReadPacket s = (Inr (handshake_octets tpduCR 0 ref code src dst), s\<lparr>s_in := r\<rparr>)"
    using ReadPacket_packet [OF assms(1)] length_handshake [OF assms(6,7), of tpduCR 0 ref code] by simp
  have ref: "be_nat (take 2 (drop 2 ?b)) = ref" using assms(3) by (simp add: be_nat_be_bytes_small)
  have drop5: "drop 5 ?b = params_octets code src dst" by simp
  have len: "4 \<le> length ?b" "5 < length ?b" by (simp_all add: params_octets_def)
  define c0 where "c0 = \<lparr>rw = s\<lparr>s_in := r\<rparr>, maxTPDU = 1024, srcRef = 1, dstRef = ref, srcTSAP = None, dstTSAP = None,
                          readBuf = [], maxTSDU = 0\<rparr>"
  define c1 where "c1 = c0\<lparr>maxTPDU := 2 ^ unat code, dstTSAP := Some src, srcTSAP := Some dst\<rparr>"
  have p: "acceptParams (params_octets code src dst) c0 10 = Inr (c1, code)"
    using acceptParams_param [of "[code]" paramTPDUSize] acceptParams_param [of src paramSrcTSAP]
      acceptParams_param [of dst paramDstTSAP "[]"] assms(4-9)
    by (simp add: params_octets_def params_end_stop MaxTSEL_def cotp_codes c1_def byte_of_def)
  have cc: "sendCC code c1 = (Inr (), c1\<lparr>rw := (rw c1)\<lparr>s_out := s_out s @ packet (handshake_octets tpduCC ref 1 code dst src)\<rparr>\<rparr>)"
    using sendCC_octets [of c1 dst src code] assms by (simp add: c1_def c0_def)
  have "Accept s = (Inr (c1\<lparr>rw := (rw c1)\<lparr>s_out := s_out s @ packet (handshake_octets tpduCC ref 1 code dst src)\<rparr>\<rparr>),
      (rw c1)\<lparr>s_out := s_out s @ packet (handshake_octets tpduCC ref 1 code dst src)\<rparr>)"
    using rd hdr ref drop5 len p cc
    by (simp add: Accept_def Let_def c0_def [symmetric] cong: if_cong del: One_nat_def)
  then show ?thesis by (simp add: c1_def c0_def)
qed

lemma recvCC_CC:
  assumes "s_in (rw c) = packet (handshake_octets tpduCC (srcRef c) ref code src dst) @ r" "srcRef c < 65536" "ref < 65536"
    and "length src \<le> 32" "length dst \<le> 32" "maxTPDU c = 2 ^ unat code"
  shows "recvCC c = (Inr (), c\<lparr>rw := (rw c)\<lparr>s_in := r\<rparr>, dstRef := ref\<rparr>)"
proof -
  let ?b = "be16 (srcRef c) @ be16 ref @ [0] @ params_octets code src dst"
  obtain li where hdr: "parseHeader (handshake_octets tpduCC (srcRef c) ref code src dst) = Inr (li, tpduCC, ?b)"
    using parseHeader_handshake [OF assms(4,5), of tpduCC "srcRef c" ref code] by (auto simp: cotp_codes)
  have rd: "readTPDU c = (Inr (handshake_octets tpduCC (srcRef c) ref code src dst), c\<lparr>rw := (rw c)\<lparr>s_in := r\<rparr>\<rparr>)"
    using readTPDU_packet [OF assms(1)] length_handshake [OF assms(4,5), of tpduCC "srcRef c" ref code] by simp
  have "be_nat (take 2 ?b) = srcRef c" "be_nat (take 2 (drop 2 ?b)) = ref"
    using assms(2,3) by (simp_all add: be_nat_be_bytes_small)
  moreover have "drop 5 ?b = params_octets code src dst" "\<not> length ?b < 5" "5 < length ?b"
    by (simp_all add: params_octets_def)
  moreover have "parseParams (params_octets code src dst) (2 ^ unat code) = 2 ^ unat code"
    using parseParams_param [of "[code]" paramTPDUSize] parseParams_param [of src paramSrcTSAP]
      parseParams_param [of dst paramDstTSAP "[]"] assms(4,5)
    by (simp add: params_octets_def params_end_stop cotp_codes byte_of_def split: list.splits)
  ultimately show ?thesis using hdr rd assms(6) by (simp add: recvCC_def Let_def)
qed


text \<open>A connection opened by \<open>Connect\<close> and one opened by \<open>Accept\<close> on its CR agree.\<close>

lemma handshake_agree:
  fixes s t :: stream and opts :: Options
  defines "code \<equiv> clampSizeCode (if o_TPDUSizeCode opts = 0 then 10 else o_TPDUSizeCode opts)"
  assumes "s_up s" "s_up t" "o_SrcTSAP opts = Some src" "o_DstTSAP opts = Some dst"
    and "src \<noteq> []" "dst \<noteq> []" "length src \<le> 32" "length dst \<le> 32"
  shows "\<exists>CR CC cc ct.
      Accept (t\<lparr>s_in := CR @ r\<rparr>) = (Inr ct, t\<lparr>s_in := r, s_out := s_out t @ CC\<rparr>)
    \<and> Connect (s\<lparr>s_in := CC @ r'\<rparr>) opts = (Inr cc, s\<lparr>s_in := r', s_out := s_out s @ CR\<rparr>)
    \<and> maxTPDU cc = 2 ^ unat code \<and> maxTPDU ct = 2 ^ unat code
    \<and> dstRef cc = srcRef ct \<and> dstRef ct = srcRef cc \<and> dstTSAP ct = Some src \<and> srcTSAP ct = Some dst"
proof -
  define CR where "CR = packet (handshake_octets tpduCR 0 1 code src dst)"
  define CC where "CC = packet (handshake_octets tpduCC 1 1 code dst src)"
  have code: "7 \<le> code" "code \<le> 11" by (simp_all add: code_def clampSizeCode_range)
  have "\<exists>c. Accept (t\<lparr>s_in := CR @ r\<rparr>) = (Inr c, rw c) \<and> maxTPDU c = 2 ^ unat code \<and> dstRef c = 1 \<and> srcRef c = 1
    \<and> dstTSAP c = Some src \<and> srcTSAP c = Some dst
    \<and> rw c = (t\<lparr>s_in := CR @ r\<rparr>)\<lparr>s_in := r, s_out := s_out (t\<lparr>s_in := CR @ r\<rparr>) @ CC\<rparr>"
    unfolding CC_def by (rule Accept_CR) (use assms code in \<open>simp_all add: CR_def\<close>)
  then obtain ct where ct: "Accept (t\<lparr>s_in := CR @ r\<rparr>) = (Inr ct, t\<lparr>s_in := r, s_out := s_out t @ CC\<rparr>)"
    "maxTPDU ct = 2 ^ unat code" "dstRef ct = 1" "srcRef ct = 1" "dstTSAP ct = Some src" "srcTSAP ct = Some dst" by auto
  define c0 where "c0 = \<lparr>rw = s\<lparr>s_in := CC @ r'\<rparr>, maxTPDU = 2 ^ unat code, srcRef = 1, dstRef = 0,
     srcTSAP = Some src, dstTSAP = Some dst, readBuf = [], maxTSDU = 0\<rparr>"
  define c1 where "c1 = c0\<lparr>rw := (rw c0)\<lparr>s_out := s_out s @ CR\<rparr>\<rparr>"
  have send: "sendCR code c0 = (Inr (), c1)"
    using sendCR_octets [of c0 src dst code] assms(2-9) by (simp add: c0_def c1_def CR_def)
  have recv: "recvCC c1 = (Inr (), c1\<lparr>rw := (rw c1)\<lparr>s_in := r'\<rparr>, dstRef := 1\<rparr>)"
    by (rule recvCC_CC [where src = dst and dst = src and code = code]) (use assms(2-9) in \<open>simp_all add: c1_def c0_def CC_def\<close>)
  have "Connect (s\<lparr>s_in := CC @ r'\<rparr>) opts = (Inr (c1\<lparr>rw := (rw c1)\<lparr>s_in := r'\<rparr>, dstRef := 1\<rparr>), s\<lparr>s_in := r', s_out := s_out s @ CR\<rparr>)"
    using send recv assms(4,5)
    by (simp add: Connect_def Let_def code_def [symmetric] c0_def [symmetric]) (simp add: c1_def c0_def)
  with ct show ?thesis
    by (intro exI [of _ CR] exI [of _ CC] exI [of _ "c1\<lparr>rw := (rw c1)\<lparr>s_in := r'\<rparr>, dstRef := 1\<rparr>"] exI [of _ ct])
      (simp add: c1_def c0_def)
qed

lemma class0_maxData: "class0_size (maxTPDU c) \<Longrightarrow> maxData c + 3 = maxTPDU c \<and> maxData c \<le> 65528"
  using class0_size_bounds [of "maxTPDU c"] by (auto simp: maxData_def Let_def)

interpretation cotp: transport Send Receive "\<lambda>c. s_out (rw c)" "\<lambda>c. s_in (rw c)" "\<lambda>c. frames (maxData c)"
  "\<lambda>c. s_up (rw c) \<and> class0_size (maxTPDU c)" "\<lambda>c m. int (length m) \<le> TSDU_limit c"
proof (unfold_locales, goal_cases)
  case (1 c m)
  then show ?case using Send_frames [of c m] class0_maxData [of c] by (simp add: maxData_def)
next
  case (2 c c' m r)
  have "maxData (c'\<lparr>rw := (rw c')\<lparr>s_in := r\<rparr>, readBuf := m\<rparr>) = maxData c'" by (simp add: maxData_def)
  moreover have "0 < maxData c" "maxData c \<le> 65528"
    using 2(1) class0_maxData [of c] class0_size_bounds [of "maxTPDU c"] by auto
  ultimately show ?case
    using 2 Receive_frames [of c' "maxData c" m r]
    by (intro exI [of _ "c'\<lparr>rw := (rw c')\<lparr>s_in := r\<rparr>, readBuf := m\<rparr>"]) simp
qed

section \<open>Properties\<close>

text \<open>(C2) Class 0 transport delivers in order: whatever list of TSDUs one end sends, it goes
  out in TPDUs no longer than the negotiated size, and any peer that reads them (its own TPDU
  size need not be the same) reassembles exactly that list, as long as each message is within
  the peer's reassembly limit.\<close>

theorem cotp_in_order:
  assumes "s_up (rw c)" and "class0_size (maxTPDU c)"
  shows "\<exists>c1 tpdus. send_all Send ms c = (Inr (), c1) \<and> s_out (rw c1) = s_out (rw c) @ concat (map packet tpdus)
    \<and> (\<forall>t \<in> set tpdus. length t \<le> maxTPDU c)
    \<and> (\<forall>c' r. s_up (rw c') \<and> class0_size (maxTPDU c') \<and> (\<forall>m \<in> set ms. int (length m) \<le> TSDU_limit c')
          \<and> s_in (rw c') = concat (map packet tpdus) @ r
         \<longrightarrow> (\<exists>c2. receive_n Receive (length ms) c' = (Inr ms, c2) \<and> s_in (rw c2) = r))"
proof -
  let ?tpdus = "concat (map (segments (maxData c)) ms)"
  have w: "concat (map (frames (maxData c)) ms) = concat (map packet ?tpdus)"
    by (induction ms) (simp_all add: frames_def)
  obtain c1 where "send_all Send ms c = (Inr (), c1)" "s_out (rw c1) = s_out (rw c) @ concat (map packet ?tpdus)"
    using cotp.send_all_wire [of c ms] assms w by auto
  moreover have "length t \<le> maxTPDU c" if "t \<in> set ?tpdus" for t
    using that segments_bound [of "maxData c" t] class0_maxData [OF assms(2)] class0_size_bounds [OF assms(2)] by fastforce
  moreover have "\<exists>c2. receive_n Receive (length ms) c' = (Inr ms, c2) \<and> s_in (rw c2) = r"
    if "s_up (rw c')" "class0_size (maxTPDU c')" "\<forall>m \<in> set ms. int (length m) \<le> TSDU_limit c'"
      "s_in (rw c') = concat (map packet ?tpdus) @ r" for c' r
    using cotp.receive_n_wire [of c c' ms r] assms that w by (simp add: list_all_iff)
  ultimately show ?thesis by blast
qed

definition sample_conn :: "byte list \<Rightarrow> Conn" where
  "sample_conn w = \<lparr>rw = \<lparr>s_in = w, s_out = [], s_up = True\<rparr>, maxTPDU = 128, srcRef = 1, dstRef = 2,
      srcTSAP = None, dstTSAP = None, readBuf = [], maxTSDU = 0\<rparr>"

lemma sample_conn_simps:
  "s_up (rw (sample_conn w))" "class0_size (maxTPDU (sample_conn w))" "s_in (rw (sample_conn w)) = w"
  "TSDU_limit (sample_conn w) = 131072" "s_out (rw (sample_conn w)) = []"
  by (simp_all add: sample_conn_def class0_size_def TSDU_limit_def DefaultMaxTSDU_def image_iff)
    (rule bexI [of _ 7]; simp)

theorem cotp_in_order_witness:
  "\<exists>w c1 c2. send_all Send [replicate 300 7, [], [1]] (sample_conn []) = (Inr (), c1) \<and> s_out (rw c1) = w
    \<and> receive_n Receive 3 (sample_conn w) = (Inr [replicate 300 7, [], [1]], c2)"
proof -
  let ?ms = "[replicate 300 7, [], [1]]"
  obtain c1 tpdus where 1: "send_all Send ?ms (sample_conn []) = (Inr (), c1)" "s_out (rw c1) = concat (map packet tpdus)"
    and 2: "\<forall>c' r. s_up (rw c') \<and> class0_size (maxTPDU c') \<and> (\<forall>m \<in> set ?ms. int (length m) \<le> TSDU_limit c')
          \<and> s_in (rw c') = concat (map packet tpdus) @ r
         \<longrightarrow> (\<exists>c2. receive_n Receive (length ?ms) c' = (Inr ?ms, c2) \<and> s_in (rw c2) = r)"
    using cotp_in_order [of "sample_conn []" ?ms] by (auto simp: sample_conn_simps)
  obtain c2 where "receive_n Receive (length ?ms) (sample_conn (s_out (rw c1))) = (Inr ?ms, c2)"
    using 2 [rule_format, of "sample_conn (s_out (rw c1))" "[]"] 1(2) by (auto simp: sample_conn_simps)
  then show ?thesis using 1(1) by (auto simp: numeral_3_eq_3)
qed

text \<open>(C36) Receiving is safe on any input: whatever octets the peer sends, \<^verbatim>\<open>Receive\<close>
  returns (an error or a TSDU) without a panic, and what it returns is never longer than the
  reassembly limit.\<close>

theorem cotp_receive_safe:
  "fst (Receive c) \<noteq> Inl Panic \<and> (\<forall>tsdu. fst (Receive c) = Inr tsdu \<longrightarrow> int (length tsdu) \<le> TSDU_limit c)"
  using Receive_loop_no_panic [of "c\<lparr>readBuf := []\<rparr>"] Receive_loop_bound [of "c\<lparr>readBuf := []\<rparr>"]
  by (cases "Receive_loop (c\<lparr>readBuf := []\<rparr>)") (auto simp: Receive_def)

theorem cotp_receive_safe_witness:
  "fst (Receive (sample_conn (frames 125 [5, 6]))) = Inr [5, 6] \<and> int (length [5, 6 :: byte]) \<le> TSDU_limit (sample_conn (frames 125 [5, 6]))"
proof -
  have "fst (Receive (sample_conn (frames 125 [5, 6]))) = Inr [5, 6]"
    using Receive_frames [of "sample_conn (frames 125 [5, 6])" 125 "[5, 6]" "[]"] by (simp add: sample_conn_simps)
  then show ?thesis using cotp_receive_safe [of "sample_conn (frames 125 [5, 6])"] by simp
qed

text \<open>The connection handshake agrees: with a client that names its selectors, the
  request it writes is accepted by the server, the confirm the server writes completes the
  client's connection, and both ends hold the same TPDU size (the one requested, brought into
  the range of class 0) and each other's references and selectors.\<close>

theorem cotp_handshake:
  assumes "s_up s" "s_up t" "o_SrcTSAP opts = Some src" "o_DstTSAP opts = Some dst"
    and "src \<noteq> []" "dst \<noteq> []" "length src \<le> 32" "length dst \<le> 32"
  shows "\<exists>CR CC cc ct n.
      Accept (t\<lparr>s_in := CR @ r\<rparr>) = (Inr ct, t\<lparr>s_in := r, s_out := s_out t @ CC\<rparr>)
    \<and> Connect (s\<lparr>s_in := CC @ r'\<rparr>) opts = (Inr cc, s\<lparr>s_in := r', s_out := s_out s @ CR\<rparr>)
    \<and> n = unat (clampSizeCode (if o_TPDUSizeCode opts = 0 then 10 else o_TPDUSizeCode opts))
    \<and> 7 \<le> n \<and> n \<le> 11 \<and> maxTPDU cc = 2 ^ n \<and> maxTPDU ct = 2 ^ n
    \<and> dstRef cc = srcRef ct \<and> dstRef ct = srcRef cc \<and> dstTSAP ct = Some src \<and> srcTSAP ct = Some dst"
proof -
  let ?code = "clampSizeCode (if o_TPDUSizeCode opts = 0 then 10 else o_TPDUSizeCode opts)"
  have "7 \<le> unat ?code \<and> unat ?code \<le> 11"
    using clampSizeCode_range [of "if o_TPDUSizeCode opts = 0 then 10 else o_TPDUSizeCode opts"]
    by (simp only: word_le_nat_alt) simp
  then show ?thesis using handshake_agree [OF assms, of r r'] by blast
qed

theorem cotp_handshake_witness:
  "\<exists>CR CC cc ct.
      Accept \<lparr>s_in = CR, s_out = [], s_up = True\<rparr> = (Inr ct, \<lparr>s_in = [], s_out = CC, s_up = True\<rparr>)
    \<and> Connect \<lparr>s_in = CC, s_out = [], s_up = True\<rparr> \<lparr>o_SrcTSAP = Some [0, 1], o_DstTSAP = Some [0, 2], o_TPDUSizeCode = 13\<rparr>
        = (Inr cc, \<lparr>s_in = [], s_out = CR, s_up = True\<rparr>)
    \<and> maxTPDU cc = 2048 \<and> maxTPDU ct = 2048"
proof -
  have n: "unat (clampSizeCode 13) = 11" by code_simp
  show ?thesis
    using cotp_handshake [of "\<lparr>s_in = [], s_out = [], s_up = True\<rparr>" "\<lparr>s_in = [], s_out = [], s_up = True\<rparr>"
        "\<lparr>o_SrcTSAP = Some [0, 1], o_DstTSAP = Some [0, 2], o_TPDUSizeCode = 13\<rparr>" "[0, 1]" "[0, 2]" "[]" "[]"] n
    by auto
qed

end
