(* ===== verification/Session.thy ===== *)
theory Session
  imports Cotp
begin

text \<open>
  The session layer (\<^verbatim>\<open>internal/osi/session/session.go\<close>): SPDUs with their
  parameter lists, connection set-up and refusal, aborts, release and the data-phase prefix.
  An operation takes the transport's \<open>send\<close> and \<open>receive\<close>, as the source takes a
  \<^verbatim>\<open>Transport\<close>; over COTP the theorems hold for its connections.
\<close>

section \<open>SPDUs\<close>

definition siGiveTokens :: byte where "siGiveTokens = 0x01"
definition siDataTransfer :: byte where "siDataTransfer = 0x01"
definition siConnect :: byte where "siConnect = 0x0d"
definition siAccept :: byte where "siAccept = 0x0e"
definition siRefuse :: byte where "siRefuse = 0x0c"
definition siAbort :: byte where "siAbort = 0x19"
definition siFinish :: byte where "siFinish = 0x09"
definition siDisconnect :: byte where "siDisconnect = 0x0a"

definition pgiConnectAccept :: byte where "pgiConnectAccept = 0x05"
definition piProtocolOpts :: byte where "piProtocolOpts = 0x13"
definition piVersionNumber :: byte where "piVersionNumber = 0x16"
definition piSessionUserReq :: byte where "piSessionUserReq = 0x14"
definition piCallingSSEL :: byte where "piCallingSSEL = 0x33"
definition piCalledSSEL :: byte where "piCalledSSEL = 0x34"
definition piTransportDisc :: byte where "piTransportDisc = 0x11"
definition piReasonCode :: byte where "piReasonCode = 0x32"
definition pgiUserData :: byte where "pgiUserData = 0xc1"
definition pgiExtUserData :: byte where "pgiExtUserData = 0xc2"
definition ReasonUserData :: byte where "ReasonUserData = 2"

lemmas session_codes = siGiveTokens_def siDataTransfer_def siConnect_def siAccept_def siRefuse_def siAbort_def
  siFinish_def siDisconnect_def pgiConnectAccept_def piProtocolOpts_def piVersionNumber_def piSessionUserReq_def
  piCallingSSEL_def piCalledSSEL_def piTransportDisc_def piReasonCode_def pgiUserData_def pgiExtUserData_def
  ReasonUserData_def

datatype 'e session_error =
    TransportErr 'e | RefusedError byte "byte list" | AbortedError "byte list" | ShortSPDU | SPDULength
  | ParamOverflow | UserDataTooLong | ExpectedAccept byte | ExpectedConnect byte | BadSPDULI | EmptyTSDU

definition MaxUserData :: nat where "MaxUserData = 512"
definition MaxExtendedUserData :: nat where "MaxExtendedUserData = 10240"

definition appendLen :: "byte list \<Rightarrow> nat \<Rightarrow> byte list" where
  "appendLen b n = (if n < 255 then b @ [byte_of n] else b @ [0xff, byte_of (n div 2 ^ 8), byte_of n])"

definition readLen :: "byte list \<Rightarrow> (nat \<times> nat) option" where
  "readLen b =
     (case b of
        [] \<Rightarrow> None
      | b0 # _ \<Rightarrow>
          if b0 \<noteq> 0xff then Some (unat b0, 1)
          else if length b < 3 then None
          else Some (unat (b ! 1) * 2 ^ 8 + unat (b ! 2), 3))"

definition writePI :: "byte list \<Rightarrow> byte \<Rightarrow> byte list \<Rightarrow> byte list" where
  "writePI b code val = b @ [code] @ appendLen [] (length val) @ val"

definition writePGI :: "byte list \<Rightarrow> byte \<Rightarrow> byte list \<Rightarrow> byte list" where
  "writePGI b code content = writePI b code content"

definition spdu :: "byte \<Rightarrow> byte list \<Rightarrow> byte list" where
  "spdu si params = appendLen [si] (length params) @ params"

definition spduParams :: "byte list \<Rightarrow> ('e session_error, byte list) result" where
  "spduParams p =
     (if length p < 2 then Inl (Err ShortSPDU)
      else case readLen (drop 1 p) of
        None \<Rightarrow> Inl (Err SPDULength)
      | Some (li, n) \<Rightarrow>
          if 1 + n + li > length p then Inl (Err SPDULength) else go_slice p (1 + n) (1 + n + li))"

function findParam :: "byte list \<Rightarrow> byte \<Rightarrow> byte list" where
  "findParam params code =
     (if length params < 2 then []
      else case readLen (drop 1 params) of
        None \<Rightarrow> []
      | Some (plen, n) \<Rightarrow>
          if 1 + n + plen > length params then []
          else if params ! 0 = code then take plen (drop (1 + n) params)
          else findParam (drop (1 + n + plen) params) code)"
  by pat_completeness auto
termination by (relation "measure (\<lambda>(p, c). length p)") auto

function findUserData :: "byte list \<Rightarrow> ('e session_error, byte list) result" where
  "findUserData params =
     (if length params < 2 then Inr []
      else case readLen (drop 1 params) of
        None \<Rightarrow> Inl (Err ParamOverflow)
      | Some (plen, n) \<Rightarrow>
          if 1 + n + plen > length params then Inl (Err ParamOverflow)
          else if params ! 0 = pgiUserData \<or> params ! 0 = pgiExtUserData
          then go_slice params (1 + n) (1 + n + plen)
          else findUserData (drop (1 + n + plen) params))"
  by pat_completeness auto
termination by (relation "measure length") auto

declare findParam.simps [simp del] findUserData.simps [simp del]

definition parseConnectLike :: "byte list \<Rightarrow> ('e session_error, byte \<times> byte list \<times> byte list) result" where
  "parseConnectLike p =
     rbind (spduParams p) (\<lambda>params.
     rbind (go_index p 0) (\<lambda>si.
     rbind (findUserData params) (\<lambda>ud. Inr (si, params, ud))))"

definition buildConnectExt :: "byte \<Rightarrow> byte list \<Rightarrow> byte list \<Rightarrow> byte list \<Rightarrow> bool \<Rightarrow> byte list" where
  "buildConnectExt si callingSSEL calledSSEL userData extended =
     (let cai = writePI [] piProtocolOpts [0x00];
          cai = writePI cai piVersionNumber [0x02];
          params = writePGI [] pgiConnectAccept cai;
          params = writePI params piSessionUserReq [0x00, 0x02];
          params = (if length callingSSEL > 0 then writePI params piCallingSSEL callingSSEL else params);
          params = (if length calledSSEL > 0 then writePI params piCalledSSEL calledSSEL else params);
          params = (if extended then writePGI params pgiExtUserData userData else writePGI params pgiUserData userData)
      in spdu si params)"

definition buildConnect :: "byte \<Rightarrow> byte list \<Rightarrow> byte list \<Rightarrow> byte list \<Rightarrow> byte list" where
  "buildConnect si callingSSEL calledSSEL userData = buildConnectExt si callingSSEL calledSSEL userData False"

text \<open>Up to two SPDUs with SI 1 are stripped; \<open>i\<close> counts those that may still be.\<close>

fun stripDataPrefix_loop :: "nat \<Rightarrow> byte list \<Rightarrow> ('e session_error, byte list) result" where
  "stripDataPrefix_loop 0 rest = Inr rest"
| "stripDataPrefix_loop (Suc i) rest =
     (if length rest < 2 then Inr rest
      else rbind (go_index rest 0) (\<lambda>si.
        if si \<noteq> siDataTransfer then Inr rest
        else rbind (go_index rest 1) (\<lambda>l.
          let li = unat l in
          if 2 + li > length rest then Inl (Err BadSPDULI)
          else rbind (go_slice rest (2 + li) (length rest)) (stripDataPrefix_loop i))))"

definition stripDataPrefix :: "byte list \<Rightarrow> ('e session_error, byte list) result" where
  "stripDataPrefix tsdu = stripDataPrefix_loop 2 tsdu"


section \<open>Operations over a transport\<close>

type_synonym ('e, 't) sender = "byte list \<Rightarrow> 't \<Rightarrow> ('e, unit) result \<times> 't"
type_synonym ('e, 't) receiver = "'t \<Rightarrow> ('e, byte list) result \<times> 't"

fun lift_tr :: "('e, 'a) result \<Rightarrow> ('e session_error, 'a) result" where
  "lift_tr (Inr x) = Inr x"
| "lift_tr (Inl Panic) = Inl Panic"
| "lift_tr (Inl (Err e)) = Inl (Err (TransportErr e))"

definition t_Send :: "('e, 't) sender \<Rightarrow> byte list \<Rightarrow> 't \<Rightarrow> ('e session_error, unit) result \<times> 't" where
  "t_Send send m t = (case send m t of (r, t') \<Rightarrow> (lift_tr r, t'))"

text \<open>The user data of an ABORT: what can be found of it, nothing when it is malformed.\<close>

definition abortUserData :: "byte list \<Rightarrow> byte list" where
  "abortUserData p =
     (case (spduParams p :: (unit session_error, byte list) result) of
        Inl _ \<Rightarrow> []
      | Inr params \<Rightarrow> (case (findUserData params :: (unit session_error, byte list) result) of Inl _ \<Rightarrow> [] | Inr ud \<Rightarrow> ud))"

definition connectReply :: "byte list \<Rightarrow> ('e session_error, byte list) result" where
  "connectReply resp =
     (if length resp > 0 \<and> resp ! 0 = siRefuse then
        rbind (spduParams resp) (\<lambda>params.
          case findParam params piReasonCode of
            [] \<Rightarrow> Inl (Err (RefusedError 0 []))
          | r # ud \<Rightarrow> Inl (Err (RefusedError r ud)))
      else if length resp > 0 \<and> resp ! 0 = siAbort then Inl (Err (AbortedError (abortUserData resp)))
      else rbind (parseConnectLike resp) (\<lambda>(si, _, ud).
        if si \<noteq> siAccept then Inl (Err (ExpectedAccept si)) else Inr ud))"

definition ConnectClientExt ::
  "('e, 't) sender \<Rightarrow> ('e, 't) receiver \<Rightarrow> byte list \<Rightarrow> byte list \<Rightarrow> byte list \<Rightarrow> bool \<Rightarrow> 't
     \<Rightarrow> ('e session_error, byte list) result \<times> 't" where
  "ConnectClientExt send receive callingSSEL calledSSEL userData extended t =
     (if length userData > MaxExtendedUserData then (Inl (Err UserDataTooLong), t)
      else
        let extended = (extended \<or> length userData > MaxUserData) in
        case t_Send send (buildConnectExt siConnect callingSSEL calledSSEL userData extended) t of
          (Inl e, t1) \<Rightarrow> (Inl e, t1)
        | (Inr _, t1) \<Rightarrow>
            (case receive t1 of
               (Inl e, t2) \<Rightarrow> (lift_tr (Inl e), t2)
             | (Inr resp, t2) \<Rightarrow> (connectReply resp, t2)))"

definition ConnectClient ::
  "('e, 't) sender \<Rightarrow> ('e, 't) receiver \<Rightarrow> byte list \<Rightarrow> byte list \<Rightarrow> byte list \<Rightarrow> 't
     \<Rightarrow> ('e session_error, byte list) result \<times> 't" where
  "ConnectClient send receive callingSSEL calledSSEL userData t =
     ConnectClientExt send receive callingSSEL calledSSEL userData (length userData > MaxUserData) t"

record AcceptResult =
  ar_UserData :: "byte list"
  ar_CallingSSEL :: "byte list"
  ar_CalledSSEL :: "byte list"

definition acceptConnect :: "byte list \<Rightarrow> ('e session_error, AcceptResult) result" where
  "acceptConnect p =
     rbind (parseConnectLike p) (\<lambda>(si, params, ud).
       if si \<noteq> siConnect then Inl (Err (ExpectedConnect si))
       else if length ud > MaxExtendedUserData then Inl (Err UserDataTooLong)
       else Inr \<lparr>ar_UserData = ud, ar_CallingSSEL = findParam params piCallingSSEL,
                 ar_CalledSSEL = findParam params piCalledSSEL\<rparr>)"

definition AcceptServer :: "('e, 't) receiver \<Rightarrow> 't \<Rightarrow> ('e session_error, AcceptResult) result \<times> 't" where
  "AcceptServer receive t =
     (case receive t of
        (Inl e, t1) \<Rightarrow> (lift_tr (Inl e), t1)
      | (Inr p, t1) \<Rightarrow> (acceptConnect p, t1))"

definition session_Reply :: "('e, 't) sender \<Rightarrow> byte list \<Rightarrow> byte list \<Rightarrow> 't \<Rightarrow> ('e session_error, unit) result \<times> 't" where
  "session_Reply send calledSSEL userData t = t_Send send (buildConnect siAccept [] calledSSEL userData) t"

definition Refuse :: "('e, 't) sender \<Rightarrow> byte list \<Rightarrow> 't \<Rightarrow> ('e session_error, unit) result \<times> 't" where
  "Refuse send userData t =
     (let params = writePI [] piTransportDisc [0x01];
          params = writePI params piReasonCode (ReasonUserData # userData)
      in t_Send send (spdu siRefuse params) t)"

definition session_Abort :: "('e, 't) sender \<Rightarrow> byte list \<Rightarrow> 't \<Rightarrow> ('e session_error, unit) result \<times> 't" where
  "session_Abort send userData t =
     (let params = writePI [] piTransportDisc [0x0b];
          params = writePGI params pgiUserData userData
      in t_Send send (spdu siAbort params) t)"

definition SendData :: "('e, 't) sender \<Rightarrow> byte list \<Rightarrow> 't \<Rightarrow> ('e session_error, unit) result \<times> 't" where
  "SendData send userData t = t_Send send ([siGiveTokens, 0x00, siDataTransfer, 0x00] @ userData) t"

definition ReceiveData :: "('e, 't) receiver \<Rightarrow> 't \<Rightarrow> ('e session_error, byte list) result \<times> 't" where
  "ReceiveData receive t =
     (case receive t of
        (Inl e, t1) \<Rightarrow> (lift_tr (Inl e), t1)
      | (Inr tsdu, t1) \<Rightarrow>
          if length tsdu > 0 \<and> tsdu ! 0 = siAbort then (Inl (Err (AbortedError (abortUserData tsdu))), t1)
          else (stripDataPrefix tsdu, t1))"

definition Finish :: "('e, 't) sender \<Rightarrow> byte list \<Rightarrow> 't \<Rightarrow> ('e session_error, unit) result \<times> 't" where
  "Finish send userData t =
     (let params = writePI [] piTransportDisc [0x01];
          params = writePGI params pgiUserData userData
      in t_Send send (spdu siFinish params) t)"

definition Disconnect :: "('e, 't) sender \<Rightarrow> byte list \<Rightarrow> 't \<Rightarrow> ('e session_error, unit) result \<times> 't" where
  "Disconnect send userData t = t_Send send (spdu siDisconnect (writePGI [] pgiUserData userData)) t"

datatype Kind = KindData | KindFinish | KindDisconnect

definition classify :: "byte list \<Rightarrow> ('e session_error, Kind \<times> byte list) result" where
  "classify tsdu =
     (if length tsdu = 0 then Inl (Err EmptyTSDU)
      else rbind (go_index tsdu 0) (\<lambda>si.
        if si = siAbort then Inl (Err (AbortedError (abortUserData tsdu)))
        else if si = siFinish \<or> si = siDisconnect then
          rbind (spduParams tsdu) (\<lambda>params.
          rbind (findUserData params) (\<lambda>ud.
          Inr (if si = siFinish then KindFinish else KindDisconnect, ud)))
        else rbind (stripDataPrefix tsdu) (\<lambda>ud. Inr (KindData, ud))))"

definition session_Receive :: "('e, 't) receiver \<Rightarrow> 't \<Rightarrow> ('e session_error, Kind \<times> byte list) result \<times> 't" where
  "session_Receive receive t =
     (case receive t of
        (Inl e, t1) \<Rightarrow> (lift_tr (Inl e), t1)
      | (Inr tsdu, t1) \<Rightarrow> (classify tsdu, t1))"

section \<open>Parameter lists\<close>

lemma readLen_appendLen: "n < 65536 \<Longrightarrow> readLen (appendLen [] n @ r) = Some (n, length (appendLen [] n))"
proof (cases "n < 255")
  case True
  have "byte_of n \<noteq> 0xff"
  proof
    assume "byte_of n = 0xff"
    then have "unat (byte_of n) = 255" by simp
    with True show False by simp
  qed
  with True show ?thesis by (simp add: readLen_def appendLen_def)
next
  case False
  assume "n < 65536"
  then have "n div 256 < 256" by simp
  then have "unat (byte_of (n div 256)) * 256 + unat (byte_of n) = n"
    by (simp add: unat_byte_of)
  with False show ?thesis by (simp add: readLen_def appendLen_def)
qed

abbreviation PI_octets :: "byte \<Rightarrow> byte list \<Rightarrow> byte list" where "PI_octets code val \<equiv> writePI [] code val"

lemma writePI_dst: "writePI b code val = b @ PI_octets code val" "writePGI b code val = b @ PI_octets code val"
  by (simp_all add: writePI_def writePGI_def)

lemma length_appendLen: "length (appendLen [] n) = (if n < 255 then 1 else 3)"
  by (simp add: appendLen_def)

lemma findParam_PI:
  assumes "length val < 65536"
  shows "findParam (PI_octets c val @ r) code = (if c = code then val else findParam r code)"
  using readLen_appendLen [OF assms, of "val @ r"]
  by (subst findParam.simps) (simp add: writePI_def length_appendLen)

lemma findUserData_PI:
  assumes "length val < 65536"
  shows "findUserData (PI_octets c val @ r) =
    (if c = pgiUserData \<or> c = pgiExtUserData then Inr val else findUserData r)"
  using readLen_appendLen [OF assms, of "val @ r"]
  by (subst findUserData.simps) (simp add: writePI_def length_appendLen go_slice_def)

lemma spduParams_spdu:
  "length params < 65536 \<Longrightarrow> spduParams (spdu si params) = Inr params"
proof -
  assume "length params < 65536"
  have sp: "spdu si params = si # appendLen [] (length params) @ params"
    by (simp add: spdu_def appendLen_def)
  from \<open>length params < 65536\<close> show ?thesis
    using readLen_appendLen [of "length params" params]
    by (simp add: sp spduParams_def length_appendLen go_slice_def)
qed

section \<open>Connection set-up\<close>

definition ssel_ok :: "byte list \<Rightarrow> bool" where "ssel_ok s = (length s < 1024)"

definition connect_params :: "byte list \<Rightarrow> byte list \<Rightarrow> byte list \<Rightarrow> bool \<Rightarrow> byte list" where
  "connect_params calling called ud extended =
     PI_octets pgiConnectAccept (PI_octets piProtocolOpts [0] @ PI_octets piVersionNumber [2]) @
     PI_octets piSessionUserReq [0, 2] @
     (if calling = [] then [] else PI_octets piCallingSSEL calling) @
     (if called = [] then [] else PI_octets piCalledSSEL called) @
     PI_octets (if extended then pgiExtUserData else pgiUserData) ud"

lemma buildConnectExt_params:
  "buildConnectExt si calling called ud extended = spdu si (connect_params calling called ud extended)"
  unfolding buildConnectExt_def Let_def connect_params_def
  by (simp add: writePI_dst(1) [of "PI_octets _ _"] writePI_dst [of "_ @ _"] writePI_dst(2) [of "[]"]
      writePI_dst(2) [of "PI_octets _ _"])

lemma length_PI: "length (PI_octets c val) \<le> length val + 4" "length val < length (PI_octets c val)"
  by (simp_all add: writePI_def length_appendLen)

lemma length_connect_params:
  assumes "ssel_ok a" "ssel_ok b" "length ud < 63000"
  shows "length (connect_params a b ud e) < 65536"
proof -
  have "length (PI_octets c1 (PI_octets c2 [0] @ PI_octets c3 [2])) \<le> 20" for c1 c2 c3
    by (simp add: writePI_def appendLen_def)
  from this [of pgiConnectAccept piProtocolOpts piVersionNumber]
  show ?thesis
    using assms length_PI(1) [of piSessionUserReq "[0, 2]"] length_PI(1) [of piCallingSSEL a] length_PI(1) [of piCalledSSEL b]
      length_PI(1) [of pgiUserData ud] length_PI(1) [of pgiExtUserData ud]
    by (auto simp: connect_params_def ssel_ok_def)
qed

lemma connect_params_find:
  assumes "ssel_ok a" "ssel_ok b" "length ud < 63000"
  shows "findUserData (connect_params a b ud e) = Inr ud"
    and "findParam (connect_params a b ud e) piCallingSSEL = a"
    and "findParam (connect_params a b ud e) piCalledSSEL = b"
proof -
  have ssel: "length a < 65536" "length b < 65536" "length ud < 65536" using assms by (auto simp: ssel_ok_def)
  have cai: "length (PI_octets c2 [0] @ PI_octets c3 [2]) < 65536" for c2 c3 by (simp add: writePI_def appendLen_def)
  have nil: "findParam [] c = []" for c by (simp add: findParam.simps)
  note last = findUserData_PI [OF ssel(3), where r = "[]", simplified] findParam_PI [OF ssel(3), where r = "[]", simplified]
  note find = findUserData_PI [OF ssel(1)] findUserData_PI [OF ssel(2)] findUserData_PI [OF cai] findUserData_PI [of "[_, _]"]
    findParam_PI [OF ssel(1)] findParam_PI [OF ssel(2)] findParam_PI [OF cai] findParam_PI [of "[_, _]"]
  show "findUserData (connect_params a b ud e) = Inr ud"
    unfolding connect_params_def by (simp add: find last nil) (simp add: session_codes)?
  show "findParam (connect_params a b ud e) piCallingSSEL = a"
    unfolding connect_params_def by (simp add: find last nil) (simp add: session_codes)?
  show "findParam (connect_params a b ud e) piCalledSSEL = b"
    unfolding connect_params_def by (simp add: find last nil) (simp add: session_codes)?
qed

lemma spdu_nth0 [simp]: "spdu si params ! 0 = si" "0 < length (spdu si params)" "spdu si params \<noteq> []"
  by (simp_all add: spdu_def appendLen_def)

lemma parseConnectLike_build:
  assumes "ssel_ok a" "ssel_ok b" "length ud < 63000"
  shows "parseConnectLike (buildConnectExt si a b ud e) = Inr (si, connect_params a b ud e, ud)"
  by (simp add: parseConnectLike_def buildConnectExt_params connect_params_find(1) [OF assms]
      spduParams_spdu [OF length_connect_params [OF assms]])

lemma acceptConnect_build:
  assumes "ssel_ok a" "ssel_ok b" "length ud \<le> MaxExtendedUserData"
  shows "acceptConnect (buildConnectExt siConnect a b ud e)
    = Inr \<lparr>ar_UserData = ud, ar_CallingSSEL = a, ar_CalledSSEL = b\<rparr>"
proof -
  have "length ud < 63000" using assms(3) by (simp add: MaxExtendedUserData_def)
  then show ?thesis
    using assms(3)
    by (simp add: acceptConnect_def parseConnectLike_build [OF assms(1,2)] connect_params_find(2,3) [OF assms(1,2)])
qed

lemma connectReply_accept:
  assumes "ssel_ok b" "length ud < 63000"
  shows "connectReply (buildConnect siAccept [] b ud) = Inr ud"
proof -
  have "ssel_ok []" by (simp add: ssel_ok_def)
  note p = parseConnectLike_build [OF this assms, of siAccept False]
  show ?thesis
    by (simp add: connectReply_def buildConnect_def p) (simp add: buildConnectExt_params session_codes)
qed

text \<open>The octets the release and refusal operations send.\<close>

definition refuse_octets :: "byte list \<Rightarrow> byte list" where
  "refuse_octets ud = spdu siRefuse (PI_octets piTransportDisc [0x01] @ PI_octets piReasonCode (ReasonUserData # ud))"

definition abort_octets :: "byte list \<Rightarrow> byte list" where
  "abort_octets ud = spdu siAbort (PI_octets piTransportDisc [0x0b] @ PI_octets pgiUserData ud)"

definition finish_octets :: "byte list \<Rightarrow> byte list" where
  "finish_octets ud = spdu siFinish (PI_octets piTransportDisc [0x01] @ PI_octets pgiUserData ud)"

definition disconnect_octets :: "byte list \<Rightarrow> byte list" where
  "disconnect_octets ud = spdu siDisconnect (PI_octets pgiUserData ud)"

definition data_octets :: "byte list \<Rightarrow> byte list" where
  "data_octets ud = [siGiveTokens, 0, siDataTransfer, 0] @ ud"

lemma session_sends:
  "Refuse send ud t = t_Send send (refuse_octets ud) t"
  "session_Abort send ud t = t_Send send (abort_octets ud) t"
  "Finish send ud t = t_Send send (finish_octets ud) t"
  "Disconnect send ud t = t_Send send (disconnect_octets ud) t"
  "SendData send ud t = t_Send send (data_octets ud) t"
  by (simp_all add: Refuse_def session_Abort_def Finish_def Disconnect_def SendData_def Let_def refuse_octets_def
      abort_octets_def finish_octets_def disconnect_octets_def data_octets_def writePI_dst [of "PI_octets _ _"]
      writePI_dst(2) [of "[]"])

lemma disc_params:
  assumes "length ud < 65000"
  shows "length (PI_octets piTransportDisc [x] @ PI_octets c (v # ud)) < 65536"
    "length (PI_octets piTransportDisc [x] @ PI_octets c ud) < 65536" "length (PI_octets c ud) < 65536"
  using assms by (simp_all add: writePI_def length_appendLen)

lemma findUserData_last: "length ud < 65000 \<Longrightarrow> findUserData (PI_octets pgiUserData ud) = Inr ud"
  using findUserData_PI [of ud pgiUserData "[]"] by simp

lemma connectReply_refuse:
  assumes "length ud < 65000"
  shows "connectReply (refuse_octets ud) = Inl (Err (RefusedError ReasonUserData ud))"
proof -
  have "findParam (PI_octets piTransportDisc [1] @ PI_octets piReasonCode (ReasonUserData # ud)) piReasonCode = ReasonUserData # ud"
    using findParam_PI [of "ReasonUserData # ud" piReasonCode "[]"] findParam_PI [of "[1]" piTransportDisc] assms
    by (simp add: session_codes)
  then show ?thesis
    by (simp add: connectReply_def refuse_octets_def spduParams_spdu [OF disc_params(1) [OF assms]])
qed

lemma abortUserData_abort:
  assumes "length ud < 65000" shows "abortUserData (abort_octets ud) = ud"
  by (simp add: abortUserData_def abort_octets_def spduParams_spdu [OF disc_params(2) [OF assms]]
      findUserData_PI [of "[0x0b]" piTransportDisc] findUserData_last [OF assms]) (simp add: session_codes)

lemma stripDataPrefix_data: "stripDataPrefix (data_octets ud) = Inr ud"
  by (simp add: stripDataPrefix_def data_octets_def numeral_2_eq_2 go_index_def go_slice_def session_codes)

lemma classify_octets:
  assumes "length ud < 65000"
  shows "classify (data_octets ud) = Inr (KindData, ud)"
    and "classify (finish_octets ud) = Inr (KindFinish, ud)"
    and "classify (disconnect_octets ud) = Inr (KindDisconnect, ud)"
    and "classify (abort_octets ud) = Inl (Err (AbortedError ud))"
proof -
  show "classify (data_octets ud) = Inr (KindData, ud)"
    by (simp add: classify_def stripDataPrefix_data) (simp add: data_octets_def session_codes)
  show "classify (finish_octets ud) = Inr (KindFinish, ud)"
    by (simp add: classify_def finish_octets_def spduParams_spdu [OF disc_params(2) [OF assms]]
        findUserData_PI [of "[0x01]" piTransportDisc] findUserData_last [OF assms]) (simp add: session_codes)
  show "classify (disconnect_octets ud) = Inr (KindDisconnect, ud)"
    by (simp add: classify_def disconnect_octets_def spduParams_spdu [OF disc_params(3) [OF assms]]
        findUserData_last [OF assms]) (simp add: session_codes)
  show "classify (abort_octets ud) = Inl (Err (AbortedError ud))"
    using abortUserData_abort [OF assms] by (simp add: classify_def abort_octets_def)
qed

section \<open>No input makes the parsers panic\<close>

lemma spduParams_no_panic: "spduParams p \<noteq> Inl Panic"
  by (auto simp: spduParams_def split: option.splits)

lemma findUserData_no_panic: "findUserData p \<noteq> Inl Panic"
proof (induction p rule: findUserData.induct)
  case (1 p)
  then show ?case by (subst findUserData.simps) (auto split: option.splits)
qed

lemma stripDataPrefix_loop_no_panic: "stripDataPrefix_loop i p \<noteq> Inl Panic"
proof (induction i arbitrary: p)
  case (Suc i)
  then show ?case by (cases p; cases "tl p") (auto simp: Let_def go_slice_def)
qed simp

lemma session_no_panic:
  "connectReply p \<noteq> Inl Panic" "acceptConnect p \<noteq> Inl Panic" "stripDataPrefix p \<noteq> Inl Panic" "classify p \<noteq> Inl Panic"
proof -
  have c: "parseConnectLike p \<noteq> Inl Panic"
    using spduParams_no_panic [of p] findUserData_no_panic
    by (auto simp: parseConnectLike_def rbind_eq_Inl go_index_def spduParams_def)
  show "connectReply p \<noteq> Inl Panic"
    using c spduParams_no_panic [of p] by (auto simp: connectReply_def rbind_eq_Inl split: list.splits if_splits)
  show "acceptConnect p \<noteq> Inl Panic"
    using c by (auto simp: acceptConnect_def rbind_eq_Inl split: if_splits)
  show s: "stripDataPrefix p \<noteq> Inl Panic" by (simp add: stripDataPrefix_def stripDataPrefix_loop_no_panic)
  show "classify p \<noteq> Inl Panic"
    using s spduParams_no_panic [of p] findUserData_no_panic
    by (cases p) (auto simp: classify_def rbind_eq_Inl split: if_splits)
qed

section \<open>End to end\<close>

context transport
begin

text \<open>One message: sent at one end, it is what the other end receives.\<close>

lemma one_message:
  assumes "ready c" "ready c'" "accepts c' m"
  shows "\<exists>c1. t_Send send m c = (Inr (), c1) \<and> sent c1 = sent c @ wire c m \<and> pending c1 = pending c \<and> ready c1
    \<and> (\<forall>r. pending c' = wire c m @ r \<longrightarrow>
         (\<exists>c2. receive c' = (Inr m, c2) \<and> pending c2 = r \<and> sent c2 = sent c' \<and> ready c2 \<and> accepts c2 = accepts c'))"
  using send_wire [OF assms(1), of m] receive_wire [OF assms] by (auto simp: t_Send_def)

lemma data_phase:
  assumes "ready c" "ready c'" "accepts c' (data_octets ud)"
  shows "\<exists>c1. SendData send ud c = (Inr (), c1) \<and> sent c1 = sent c @ wire c (data_octets ud)
    \<and> (\<forall>r. pending c' = wire c (data_octets ud) @ r \<longrightarrow>
         (\<exists>c2. ReceiveData receive c' = (Inr ud, c2) \<and> session_Receive receive c' = (Inr (KindData, ud), c2) \<and> pending c2 = r))"
proof -
  have k: "data_octets ud ! 0 \<noteq> siAbort" by (simp add: data_octets_def session_codes)
  have cl: "classify (data_octets ud) = Inr (KindData, ud)"
    by (simp add: classify_def stripDataPrefix_data) (simp add: data_octets_def session_codes)
  show ?thesis
    using one_message [OF assms] k cl
    by (fastforce simp: session_sends ReceiveData_def session_Receive_def stripDataPrefix_data)
qed

lemma connect_arrives:
  fixes a b ud defines "p \<equiv> buildConnectExt siConnect a b ud (MaxUserData < length ud)"
  assumes "ready c" "ready c'" "ssel_ok a" "ssel_ok b" "length ud \<le> MaxExtendedUserData"
    and "accepts c' p" "pending c' = wire c p @ r"
  shows "\<exists>c1. AcceptServer receive c' = (Inr \<lparr>ar_UserData = ud, ar_CallingSSEL = a, ar_CalledSSEL = b\<rparr>, c1)
    \<and> pending c1 = r \<and> sent c1 = sent c' \<and> ready c1 \<and> wire c1 = wire c'"
  using receive_wire [OF assms(2,3,7,8)] acceptConnect_build [OF assms(4-6)]
  by (auto simp: AcceptServer_def p_def)

lemma connect_returns:
  fixes a b ud defines "p \<equiv> buildConnectExt siConnect a b ud (MaxUserData < length ud)"
  assumes "ready c" "ready c'" "ssel_ok b" "length ud \<le> MaxExtendedUserData" "length ud' < 63000"
    and "accepts c (buildConnect siAccept [] b ud')" "pending c = wire c' (buildConnect siAccept [] b ud') @ r"
  shows "\<exists>c1. ConnectClient send receive a b ud c = (Inr ud', c1) \<and> sent c1 = sent c @ wire c p \<and> pending c1 = r"
proof -
  from send_wire [OF assms(2), of p] obtain c1 where c1: "send p c = (Inr (), c1)" "sent c1 = sent c @ wire c p"
    "pending c1 = pending c" "ready c1" "accepts c1 = accepts c" by blast
  from receive_wire [OF assms(3) c1(4) assms(7) [folded c1(5)]] c1(3) assms(8) obtain c2
    where "receive c1 = (Inr (buildConnect siAccept [] b ud'), c2)" "pending c2 = r" "sent c2 = sent c1" by auto
  with c1 assms(5) show ?thesis
    by (simp add: ConnectClient_def ConnectClientExt_def t_Send_def p_def connectReply_accept [OF assms(4,6)])
qed

end

section \<open>Properties\<close>

text \<open>Establishing a session over class 0 transport: given that each end reads what the
  other writes, \<^verbatim>\<open>AcceptServer\<close> returns the user data and both selectors of the CONNECT that
  \<^verbatim>\<open>ConnectClient\<close> sent, \<^verbatim>\<open>Reply\<close> answers it, and the client's call returns the server's user
  data; nothing of the stream behind the two SPDUs is consumed.\<close>

theorem session_connect:
  fixes a b ud ud'
  defines "CN \<equiv> buildConnectExt siConnect a b ud (MaxUserData < length ud)" and "AC \<equiv> buildConnect siAccept [] b ud'"
  assumes "s_up (rw c)" "class0_size (maxTPDU c)" "s_up (rw c')" "class0_size (maxTPDU c')" "ssel_ok a" "ssel_ok b"
    and "length ud \<le> MaxExtendedUserData" "length ud' < 63000"
    and "int (length CN) \<le> TSDU_limit c'" "int (length AC) \<le> TSDU_limit c"
    and "s_in (rw c') = frames (maxData c) CN @ r'" "s_in (rw c) = frames (maxData c') AC @ r"
  shows "\<exists>c1 c2 c3.
      ConnectClient Send Receive a b ud c = (Inr ud', c3)
    \<and> s_out (rw c3) = s_out (rw c) @ frames (maxData c) CN \<and> s_in (rw c3) = r
    \<and> AcceptServer Receive c' = (Inr \<lparr>ar_UserData = ud, ar_CallingSSEL = a, ar_CalledSSEL = b\<rparr>, c1) \<and> s_in (rw c1) = r'
    \<and> session_Reply Send b ud' c1 = (Inr (), c2) \<and> s_out (rw c2) = s_out (rw c') @ frames (maxData c') AC"
proof -
  obtain c3 where c3: "ConnectClient Send Receive a b ud c = (Inr ud', c3)"
    "s_out (rw c3) = s_out (rw c) @ frames (maxData c) CN" "s_in (rw c3) = r"
    using cotp.connect_returns [of c c' b ud ud' r a] assms by auto
  obtain c1 where c1: "AcceptServer Receive c' = (Inr \<lparr>ar_UserData = ud, ar_CallingSSEL = a, ar_CalledSSEL = b\<rparr>, c1)"
    "s_in (rw c1) = r'" "s_out (rw c1) = s_out (rw c')" "s_up (rw c1)" "class0_size (maxTPDU c1)"
    "frames (maxData c1) = frames (maxData c')"
    using cotp.connect_arrives [of c c' a b ud r'] assms by auto
  obtain c2 where "session_Reply Send b ud' c1 = (Inr (), c2)" "s_out (rw c2) = s_out (rw c') @ frames (maxData c') AC"
    using cotp.send_wire [of c1 AC] c1 by (auto simp: session_Reply_def t_Send_def AC_def)
  with c1 c3 show ?thesis by blast
qed

theorem session_connect_witness:
  "\<exists>CN AC c1 c3. ConnectClient Send Receive [0, 1] [0, 2] [1, 2, 3] (sample_conn (frames 125 AC)) = (Inr [4, 5], c3)
    \<and> s_out (rw c3) = frames 125 CN
    \<and> AcceptServer Receive (sample_conn (frames 125 CN))
        = (Inr \<lparr>ar_UserData = [1, 2, 3], ar_CallingSSEL = [0, 1], ar_CalledSSEL = [0, 2]\<rparr>, c1)"
proof -
  let ?CN = "buildConnectExt siConnect [0, 1] [0, 2] [1, 2, 3] False" and ?AC = "buildConnect siAccept [] [0, 2] [4, 5]"
  have ok: "ssel_ok [0, 1]" "ssel_ok [0, 2]" by code_simp+
  have len: "length ?CN < 100" "length ?AC < 100" by code_simp+
  have mx: "(3 :: nat) \<le> MaxExtendedUserData" "\<not> MaxUserData < 3" by (simp_all add: MaxExtendedUserData_def MaxUserData_def)
  have md: "maxData (sample_conn w) = 125" for w by (simp add: sample_conn_def maxData_def)
  show ?thesis
    using session_connect [of "sample_conn (frames 125 ?AC)" "sample_conn (frames 125 ?CN)" "[0, 1]" "[0, 2]" "[1, 2, 3]"
        "[4, 5]" "[]" "[]"] ok len mx md
    by (auto simp: sample_conn_simps)
qed

text \<open>The data phase over class 0 transport: user data sent with \<^verbatim>\<open>SendData\<close> is returned
  by \<^verbatim>\<open>ReceiveData\<close>, and by \<^verbatim>\<open>Receive\<close> as data, unchanged, and the stream behind it is left
  for the next read.\<close>

theorem session_data:
  assumes "s_up (rw c)" "class0_size (maxTPDU c)" "s_up (rw c')" "class0_size (maxTPDU c')"
    and "int (length ud) + 4 \<le> TSDU_limit c'" and "s_in (rw c') = frames (maxData c) (data_octets ud) @ r"
  shows "\<exists>c1 c2. SendData Send ud c = (Inr (), c1) \<and> s_out (rw c1) = s_out (rw c) @ frames (maxData c) (data_octets ud)
    \<and> ReceiveData Receive c' = (Inr ud, c2) \<and> session_Receive Receive c' = (Inr (KindData, ud), c2) \<and> s_in (rw c2) = r"
proof -
  have "int (length (data_octets ud)) \<le> TSDU_limit c'" using assms(5) by (simp add: data_octets_def)
  then show ?thesis using cotp.data_phase [of c c' ud] assms by auto
qed

theorem session_data_witness:
  "\<exists>w c1 c2. SendData Send [1, 2, 3] (sample_conn []) = (Inr (), c1) \<and> s_out (rw c1) = w
    \<and> ReceiveData Receive (sample_conn w) = (Inr [1, 2, 3], c2)"
proof -
  have md: "maxData (sample_conn w) = 125" for w by (simp add: sample_conn_def maxData_def)
  show ?thesis
    using session_data [of "sample_conn []" "sample_conn (frames 125 (data_octets [1, 2, 3]))" "[1, 2, 3]" "[]"] md
    by (auto simp: sample_conn_simps)
qed

text \<open>No session PDU can make the parsers panic: the reply to a CONNECT, the CONNECT itself,
  the give-tokens prefix of data and the classification of any other SPDU return a value or
  an error whatever the octets.\<close>

theorem session_parsers_safe:
  "connectReply p \<noteq> Inl Panic \<and> acceptConnect p \<noteq> Inl Panic \<and> stripDataPrefix p \<noteq> Inl Panic \<and> classify p \<noteq> Inl Panic"
  by (simp add: session_no_panic)

text \<open>The end of a session: what \<^verbatim>\<open>SendData\<close>, \<^verbatim>\<open>Finish\<close>, \<^verbatim>\<open>Disconnect\<close> and \<^verbatim>\<open>Abort\<close>
  send is classified by \<^verbatim>\<open>Receive\<close> as what it is, with its user data; an ABORT is the error
  that carries them, and a CONNECT answered by \<^verbatim>\<open>Refuse\<close> fails with the refusal's reason
  and user data.\<close>

theorem session_kinds:
  assumes "length ud < 65000"
  shows "classify (data_octets ud) = Inr (KindData, ud) \<and> classify (finish_octets ud) = Inr (KindFinish, ud)
    \<and> classify (disconnect_octets ud) = Inr (KindDisconnect, ud) \<and> classify (abort_octets ud) = Inl (Err (AbortedError ud))
    \<and> connectReply (refuse_octets ud) = Inl (Err (RefusedError ReasonUserData ud))"
  using classify_octets [OF assms] connectReply_refuse [OF assms] by simp

theorem session_kinds_witness: "classify (abort_octets [1, 2, 3]) = Inl (Err (AbortedError [1, 2, 3]))"
  by (simp add: session_kinds)

end
