(* ===== verification/MmsCodec.thy ===== *)
theory MmsCodec
  imports MmsValue
begin

text \<open>
  The MMS Data CHOICE (\<^verbatim>\<open>mms/value_codec.go\<close>): encoding of a value as an element
  and the depth-limited decoder for what peers send.
\<close>

section \<open>Encoding\<close>

definition tagDataArray :: "32 word" where "tagDataArray = 1"
definition tagDataStructure :: "32 word" where "tagDataStructure = 2"
definition tagDataBoolean :: "32 word" where "tagDataBoolean = 3"
definition tagDataBitString :: "32 word" where "tagDataBitString = 4"
definition tagDataInteger :: "32 word" where "tagDataInteger = 5"
definition tagDataUnsigned :: "32 word" where "tagDataUnsigned = 6"
definition tagDataFloat :: "32 word" where "tagDataFloat = 7"
definition tagDataOctetString :: "32 word" where "tagDataOctetString = 9"
definition tagDataVisString :: "32 word" where "tagDataVisString = 10"
definition tagDataGenTime :: "32 word" where "tagDataGenTime = 11"
definition tagDataBinTime :: "32 word" where "tagDataBinTime = 12"
definition tagDataMMSString :: "32 word" where "tagDataMMSString = 16"
definition tagDataUTCTime :: "32 word" where "tagDataUTCTime = 17"
definition maxValueDepth :: nat where "maxValueDepth = 32"

lemmas data_tags = tagDataArray_def tagDataStructure_def tagDataBoolean_def tagDataBitString_def
  tagDataInteger_def tagDataUnsigned_def tagDataFloat_def tagDataOctetString_def tagDataVisString_def
  tagDataGenTime_def tagDataBinTime_def tagDataMMSString_def tagDataUTCTime_def

fun DataElement :: "Value \<Rightarrow> Element option" where
  "DataElement NilValue = None"
| "DataElement (Value t num flt bytes bitLen children) =
     (case t of
        TypeNone \<Rightarrow> None
      | TypeArray \<Rightarrow> Some (fold (\<lambda>c el. Add el [DataElement c]) children (Cons_el (ContextConstructed tagDataArray) []))
      | TypeStructure \<Rightarrow>
          Some (fold (\<lambda>c el. Add el [DataElement c]) children (Cons_el (ContextConstructed tagDataStructure) []))
      | TypeBoolean \<Rightarrow> Some (BoolElem (ContextPrimitive tagDataBoolean) (num \<noteq> 0))
      | TypeBitString \<Rightarrow> Some (BitStringElem (ContextPrimitive tagDataBitString) \<lparr>Bits = bytes, Length = bitLen\<rparr>)
      | TypeInteger \<Rightarrow> Some (IntElem (ContextPrimitive tagDataInteger) num)
      | TypeUnsigned \<Rightarrow> Some (UintElem (ContextPrimitive tagDataUnsigned) (uint64_of num))
      | TypeFloat32 \<Rightarrow> Some (Prim (ContextPrimitive tagDataFloat) (AppendFloat32 [] (float32_of_float64 flt)))
      | TypeFloat64 \<Rightarrow> Some (Prim (ContextPrimitive tagDataFloat) (AppendFloat64 [] flt))
      | TypeOctetString \<Rightarrow> Some (Prim (ContextPrimitive tagDataOctetString) bytes)
      | TypeVisibleString \<Rightarrow> Some (Prim (ContextPrimitive tagDataVisString) bytes)
      | TypeGeneralizedTime \<Rightarrow> Some (Prim (ContextPrimitive tagDataGenTime) bytes)
      | TypeBinaryTime \<Rightarrow> Some (Prim (ContextPrimitive tagDataBinTime) bytes)
      | TypeMMSString \<Rightarrow> Some (Prim (ContextPrimitive tagDataMMSString) bytes)
      | TypeUTCTime \<Rightarrow> Some (Prim (ContextPrimitive tagDataUTCTime) bytes)
      | TypeDataAccessError \<Rightarrow> Some (UintElem (ContextPrimitive 0) (uint64_of num)))"

definition AppendData :: "byte list \<Rightarrow> Value \<Rightarrow> byte list" where
  "AppendData dst v = (case DataElement v of None \<Rightarrow> dst | Some el \<Rightarrow> Append el dst)"

section \<open>Decoding\<close>

text \<open>
  \<open>decodeDataTLV\<close> and the loop over the contents of an array or structure, whose body is
  \<open>decodeData\<close> one level deeper (\<open>decodeDataSeq_step\<close>).
\<close>

function decodeDataTLV :: "Tag \<Rightarrow> byte list \<Rightarrow> nat \<Rightarrow> (mms_error, Value) result"
  and decodeDataSeq :: "Decoder \<Rightarrow> nat \<Rightarrow> Value list \<Rightarrow> (mms_error, Value list) result"
where
  "decodeDataTLV tag content depth =
     (let n = Number tag in
      if Class tag \<noteq> ClassContextSpecific then Inl (Err (Asn1 ErrUnexpected))
      else if n = tagDataArray \<or> n = tagDataStructure then
        rbind (decodeDataSeq (NewDecoder content) (depth + 1) []) (\<lambda>cs.
          Inr (Value (if n = tagDataArray then TypeArray else TypeStructure) 0 0 [] 0 cs))
      else if n = tagDataBoolean then rbind (lift_ber (DecodeBool content)) (\<lambda>b. Inr (NewBool b))
      else if n = tagDataBitString then
        rbind (lift_ber (DecodeBitString content)) (\<lambda>bs. Inr (NewBitStringBits (Bits bs) (Length bs)))
      else if n = tagDataInteger then
        rbind (lift_ber (DecodeInt content)) (\<lambda>v. Inr (Value TypeInteger v 0 [] 0 []))
      else if n = tagDataUnsigned then
        rbind (lift_ber (DecodeUint content)) (\<lambda>v. Inr (Value TypeUnsigned (int64_of v) 0 [] 0 []))
      else if n = tagDataFloat then
        rbind (lift_ber (DecodeFloat content)) (\<lambda>f.
          Inr (Value (if length content = 5 then TypeFloat32 else TypeFloat64) 0 f [] 0 []))
      else if n = tagDataOctetString then Inr (NewOctetString content)
      else if n = tagDataVisString then Inr (NewVisibleString content)
      else if n = tagDataGenTime then Inr (Value TypeGeneralizedTime 0 0 content 0 [])
      else if n = tagDataBinTime then
        (if length content \<noteq> 4 \<and> length content \<noteq> 6 then Inl (Err (Asn1 ErrBadValue))
         else Inr (Value TypeBinaryTime 0 0 content 0 []))
      else if n = tagDataMMSString then Inr (NewMMSString content)
      else if n = tagDataUTCTime then NewUTCTimeRaw content
      else if n = 0 then
        (if Constructed tag then Inl (Err (Asn1 ErrUnexpected))
         else rbind (lift_ber (DecodeUint content)) (\<lambda>v. Inr (NewDataAccessError (byte_of v))))
      else Inl (Err (Asn1 ErrUnexpected)))"
| "decodeDataSeq inner depth acc =
     (if \<not> More inner then Inr acc
      else if depth > maxValueDepth then Inl (Err (Asn1 ErrTooDeep))
      else case ReadTLV inner of
        (Inl e, _) \<Rightarrow> lift_ber (Inl e)
      | (Inr (tag, content), inner') \<Rightarrow>
          rbind (decodeDataTLV tag content depth) (\<lambda>c. decodeDataSeq inner' depth (acc @ [c])))"
  by pat_completeness auto

lemma ReadTLV_shrinks:
  assumes "More d" "ReadTLV d = (Inr (t, c), d')"
  shows "length c + 1 \<le> length (d_data d) - d_off d
    \<and> length (d_data d') - d_off d' < length (d_data d) - d_off d"
proof -
  have "dec_ok d" using assms(1) by (simp add: More_def dec_ok_def)
  from ReadTLV_shorter [OF assms(2) this] assms(1)
  show ?thesis by (auto simp: More_def dec_ok_def)
qed

termination decodeDataTLV
  by (relation "measure (case_sum (\<lambda>(t, c, k). 2 * length c + 1)
        (\<lambda>(d, k, acc). 2 * (length (d_data d) - d_off d)))")
    (auto dest!: ReadTLV_shrinks [OF _ sym])

declare decodeDataTLV.simps [simp del] decodeDataSeq.simps [simp del]

definition decodeData :: "Decoder \<Rightarrow> nat \<Rightarrow> (mms_error, Value) result \<times> Decoder" where
  "decodeData dec depth =
     (if depth > maxValueDepth then (Inl (Err (Asn1 ErrTooDeep)), dec)
      else case ReadTLV dec of
        (Inl e, dec') \<Rightarrow> (lift_ber (Inl e), dec')
      | (Inr (tag, content), dec') \<Rightarrow> (decodeDataTLV tag content depth, dec'))"

definition DecodeData :: "Decoder \<Rightarrow> (mms_error, Value) result \<times> Decoder" where
  "DecodeData dec = decodeData dec 0"

definition DecodeAccessResult :: "Decoder \<Rightarrow> (mms_error, Value) result \<times> Decoder" where
  "DecodeAccessResult dec =
     (case Peek dec of
        Inl e \<Rightarrow> (lift_ber (Inl e), dec)
      | Inr tag \<Rightarrow>
          if Class tag = ClassContextSpecific \<and> Number tag = 0 \<and> \<not> Constructed tag then
            (case ReadTLV dec of
               (Inl e, dec') \<Rightarrow> (lift_ber (Inl e), dec')
             | (Inr (_, content), dec') \<Rightarrow>
                 (rbind (lift_ber (DecodeUint content)) (\<lambda>code. Inr (NewDataAccessError (byte_of code))), dec'))
          else DecodeData dec)"

lemma rbind_lift_ber [simp]: "rbind (lift_ber (Inl e)) f = lift_ber (Inl e)"
  by (cases e) simp_all

lemma decodeDataSeq_step:
  "decodeDataSeq inner depth acc =
     (if \<not> More inner then Inr acc
      else rbind (fst (decodeData inner depth)) (\<lambda>c.
        decodeDataSeq (snd (decodeData inner depth)) depth (acc @ [c])))"
  by (subst decodeDataSeq.simps) (auto simp: decodeData_def split: prod.splits sum.splits elim: lift_ber.elims)


section \<open>The decoder never panics\<close>

lemma lift_ber_no_panic [simp]: "lift_ber r = Inl Panic \<longleftrightarrow> r = Inl Panic"
  by (cases r rule: lift_ber.cases) simp_all

lemma decodeDataTLV_no_panic:
  "decodeDataTLV tag content depth \<noteq> Inl Panic"
  "dec_ok inner \<Longrightarrow> decodeDataSeq inner depth acc \<noteq> Inl Panic"
proof (induction tag content depth and inner depth acc rule: decodeDataTLV_decodeDataSeq.induct)
  case (1 tag content depth)
  then show ?case
    by (subst decodeDataTLV.simps)
      (auto simp: Let_def rbind_eq_Inl DecodeInt_no_panic DecodeBitString_no_panic DecodeFloat_no_panic NewUTCTimeRaw_def)
next
  case (2 inner depth acc)
  show ?case
  proof (cases "More inner \<and> depth \<le> maxValueDepth")
    case False
    then show ?thesis by (subst decodeDataSeq.simps) auto
  next
    case True
    obtain r d' where rd: "ReadTLV inner = (r, d')" by fastforce
    have rs: "read_spec inner (r, d')" using ReadTLV_spec [OF "2.prems"] rd by simp
    show ?thesis
    proof (cases r)
      case (Inl e)
      with True rd rs show ?thesis by (subst decodeDataSeq.simps) auto
    next
      case (Inr x)
      obtain tag content where x: "x = (tag, content)" by fastforce
      have ok: "dec_ok d'" using rs "2.prems" by (simp add: Inr advanced_def)
      have eq: "decodeDataSeq inner depth acc = rbind (decodeDataTLV tag content depth) (\<lambda>c. decodeDataSeq d' depth (acc @ [c]))"
        using True rd Inr x by (subst decodeDataSeq.simps) simp
      show ?thesis
        unfolding eq rbind_eq_Inl using "2.IH" True rd Inr x ok by auto
    qed
  qed
qed

lemma decodeData_no_panic: "dec_ok d \<Longrightarrow> fst (decodeData d depth) \<noteq> Inl Panic"
  using ReadTLV_spec [of d] decodeDataTLV_no_panic(1)
  by (auto simp: decodeData_def read_spec_def split: prod.splits sum.splits)

section \<open>Round trip\<close>

text \<open>
  The values a peer can send: fields a type does not use are zero, a FLOAT32 holds a value
  that is one, and times and bit strings have their length.
\<close>

fun value_ok :: "Value \<Rightarrow> bool" where
  "value_ok NilValue = False"
| "value_ok (Value t n f b l c) =
     (case t of
        TypeNone \<Rightarrow> False
      | TypeArray \<Rightarrow> n = 0 \<and> f = 0 \<and> b = [] \<and> l = 0 \<and> list_all value_ok c
      | TypeStructure \<Rightarrow> n = 0 \<and> f = 0 \<and> b = [] \<and> l = 0 \<and> list_all value_ok c
      | TypeBoolean \<Rightarrow> (n = 0 \<or> n = 1) \<and> f = 0 \<and> b = [] \<and> l = 0 \<and> c = []
      | TypeBitString \<Rightarrow> n = 0 \<and> f = 0 \<and> bs_ok \<lparr>Bits = b, Length = l\<rparr> \<and> c = []
      | TypeInteger \<Rightarrow> int64_ok n \<and> f = 0 \<and> b = [] \<and> l = 0 \<and> c = []
      | TypeUnsigned \<Rightarrow> int64_ok n \<and> f = 0 \<and> b = [] \<and> l = 0 \<and> c = []
      | TypeFloat32 \<Rightarrow> n = 0 \<and> float64_of_float32 (float32_of_float64 f) = f \<and> b = [] \<and> l = 0 \<and> c = []
      | TypeFloat64 \<Rightarrow> n = 0 \<and> b = [] \<and> l = 0 \<and> c = []
      | TypeOctetString \<Rightarrow> n = 0 \<and> f = 0 \<and> l = 0 \<and> c = []
      | TypeVisibleString \<Rightarrow> n = 0 \<and> f = 0 \<and> l = 0 \<and> c = []
      | TypeGeneralizedTime \<Rightarrow> n = 0 \<and> f = 0 \<and> l = 0 \<and> c = []
      | TypeBinaryTime \<Rightarrow> n = 0 \<and> f = 0 \<and> (length b = 4 \<or> length b = 6) \<and> l = 0 \<and> c = []
      | TypeMMSString \<Rightarrow> n = 0 \<and> f = 0 \<and> l = 0 \<and> c = []
      | TypeUTCTime \<Rightarrow> n = 0 \<and> f = 0 \<and> length b = 8 \<and> l = 0 \<and> c = []
      | TypeDataAccessError \<Rightarrow> 0 \<le> n \<and> n < 256 \<and> f = 0 \<and> b = [] \<and> l = 0 \<and> c = [])"

fun value_depth :: "Value \<Rightarrow> nat" where
  "value_depth NilValue = 0"
| "value_depth (Value t n f b l c) =
     (if t = TypeArray \<or> t = TypeStructure then foldr (\<lambda>x m. max (value_depth x + 1) m) c 0 else 0)"

lemma value_depth_child: "x \<in> set c \<Longrightarrow> value_depth x + 1 \<le> foldr (\<lambda>x m. max (value_depth x + 1) m) c 0"
  by (induction c) (auto simp: max_def)

abbreviation mms_octets :: "Value \<Rightarrow> byte list" where "mms_octets \<equiv> AppendData []"

text \<open>The tag and the content octets of an encoded value.\<close>

fun mms_tag :: "Value \<Rightarrow> Tag" where
  "mms_tag NilValue = ContextPrimitive 0"
| "mms_tag (Value t n f b l c) =
     (case t of
        TypeArray \<Rightarrow> ContextConstructed tagDataArray
      | TypeStructure \<Rightarrow> ContextConstructed tagDataStructure
      | TypeBoolean \<Rightarrow> ContextPrimitive tagDataBoolean
      | TypeBitString \<Rightarrow> ContextPrimitive tagDataBitString
      | TypeInteger \<Rightarrow> ContextPrimitive tagDataInteger
      | TypeUnsigned \<Rightarrow> ContextPrimitive tagDataUnsigned
      | TypeFloat32 \<Rightarrow> ContextPrimitive tagDataFloat
      | TypeFloat64 \<Rightarrow> ContextPrimitive tagDataFloat
      | TypeOctetString \<Rightarrow> ContextPrimitive tagDataOctetString
      | TypeVisibleString \<Rightarrow> ContextPrimitive tagDataVisString
      | TypeGeneralizedTime \<Rightarrow> ContextPrimitive tagDataGenTime
      | TypeBinaryTime \<Rightarrow> ContextPrimitive tagDataBinTime
      | TypeMMSString \<Rightarrow> ContextPrimitive tagDataMMSString
      | TypeUTCTime \<Rightarrow> ContextPrimitive tagDataUTCTime
      | _ \<Rightarrow> ContextPrimitive 0)"

fun mms_content :: "Value \<Rightarrow> byte list" where
  "mms_content NilValue = []"
| "mms_content (Value t n f b l c) =
     (case t of
        TypeArray \<Rightarrow> concat (map mms_octets c)
      | TypeStructure \<Rightarrow> concat (map mms_octets c)
      | TypeBoolean \<Rightarrow> bool_octets (n \<noteq> 0)
      | TypeBitString \<Rightarrow> bits_octets \<lparr>Bits = b, Length = l\<rparr>
      | TypeInteger \<Rightarrow> int_octets n
      | TypeUnsigned \<Rightarrow> uint_octets (uint64_of n)
      | TypeFloat32 \<Rightarrow> AppendFloat32 [] (float32_of_float64 f)
      | TypeFloat64 \<Rightarrow> AppendFloat64 [] f
      | TypeDataAccessError \<Rightarrow> uint_octets (uint64_of n)
      | TypeNone \<Rightarrow> []
      | _ \<Rightarrow> b)"

lemma fold_Add: "fold (\<lambda>c el. Add el [g c]) cs (Cons_el t xs) = Cons_el t (xs @ map g cs)"
  by (induction cs arbitrary: xs) (simp_all add: Add_Cons_el)

lemma ctx_tag_simps:
  "Number (ContextPrimitive n) = n" "Number (ContextConstructed n) = n"
  "\<not> Constructed (ContextPrimitive n)" "(ContextConstructed n)\<lparr>Constructed := True\<rparr> = ContextConstructed n"
  by (simp_all add: tag_defs)

lemma DataElement_el: "DataElement v = Some el \<Longrightarrow> el_ok el"
proof (induction v arbitrary: el)
  case (Value t n f b l c)
  have "list_all el_ok (List.map_filter id (map DataElement c))"
    using Value.IH by (fastforce simp: list_all_iff map_filter_def)
  then show ?case
    using Value.prems
    by (cases t) (auto simp: fold_Add BoolElem_def BitStringElem_def IntElem_def UintElem_def data_tags
        ctx_tag_simps simp del: fold_simps)
qed simp

lemma Encode_DataElements:
  "list_all el_ok (List.map_filter id (map DataElement vs))"
  "concat (map Encode (List.map_filter id (map DataElement vs))) = concat (map mms_octets vs)"
  using DataElement_el
  by (induction vs) (auto simp: map_filter_def AppendData_def Append_dst split: option.splits)

lemma DataElement_ok: "value_ok v \<Longrightarrow> \<exists>el. DataElement v = Some el \<and> el_ok el"
proof (induction v)
  case (Value t n f b l c)
  have ch: "list_all el_ok (List.map_filter id (map DataElement c))" if "list_all value_ok c"
    using that Value.IH by (fastforce simp: list_all_iff map_filter_def)
  show ?case
    using Value.prems ch
    by (cases t) (auto simp: fold_Add BoolElem_def BitStringElem_def IntElem_def UintElem_def data_tags
        ctx_tag_simps simp del: fold_simps)
qed simp

lemma mms_octets_tlv: "value_ok v \<Longrightarrow> mms_octets v = tlv (mms_tag v) (mms_content v)"
proof (cases v)
  case (Value t n f b l c)
  assume ok: "value_ok v"
  have oct: "map Encode (List.map_filter id (map DataElement c)) = map mms_octets c"
    and els: "list_all el_ok (List.map_filter id (map DataElement c))" if "list_all value_ok c"
    using that DataElement_ok
    by (induction c) (fastforce simp: map_filter_def AppendData_def Encode_def)+
  show ?thesis
    using ok oct els Value
    by (cases t) (auto simp: AppendData_def fold_Add Append_dst BoolElem_def BitStringElem_def IntElem_def UintElem_def
        encode_simps ctx_tag_simps data_tags simp del: fold_simps)
qed simp


lemma length_AppendFloat: "length (AppendFloat32 [] v) = 5" "length (AppendFloat64 [] w) = 9"
  by (simp_all add: AppendFloat32_def AppendFloat64_def)

lemma decodeDataTLV_scalar:
  assumes "value_ok (Value t n f b l c)" "t \<noteq> TypeArray" "t \<noteq> TypeStructure"
  shows "decodeDataTLV (mms_tag (Value t n f b l c)) (mms_content (Value t n f b l c)) depth = Inr (Value t n f b l c)"
proof -
  have err: "uint64_of n = nat n \<and> byte_of (nat n) = word_of_int n \<and> uint (word_of_int n :: byte) = n \<and> uint64_ok (nat n)"
    if "0 \<le> n" "n < 256"
    using that by (simp add: uint64_of_def byte_of_def uint_word_of_int uint64_ok_def nat_less_iff)
  show ?thesis
    using assms err
    by (cases t)
      (auto simp: decodeDataTLV.simps Let_def data_tags ctx_tag_simps tag_defs class_defs NewBool_def
        DecodeBitString_bits_octets NewBitStringBits_def bs_ok_def DecodeInt_AppendInt DecodeUint_AppendUint
        int64_uint64 DecodeFloat_AppendFloat32 DecodeFloat_AppendFloat64 NewOctetString_def NewVisibleString_def
        NewMMSString_def NewUTCTimeRaw_def NewDataAccessError_def length_AppendFloat)
qed


lemma decodeDataTLV_container:
  "decodeDataTLV (ContextConstructed tagDataArray) content depth =
     rbind (decodeDataSeq (NewDecoder content) (depth + 1) []) (\<lambda>cs. Inr (Value TypeArray 0 0 [] 0 cs))"
  "decodeDataTLV (ContextConstructed tagDataStructure) content depth =
     rbind (decodeDataSeq (NewDecoder content) (depth + 1) []) (\<lambda>cs. Inr (Value TypeStructure 0 0 [] 0 cs))"
  by (subst decodeDataTLV.simps, simp add: Let_def tag_defs data_tags)+

text \<open>What a container may hold at a depth.\<close>

definition value_fits :: "nat \<Rightarrow> Value \<Rightarrow> bool" where
  "value_fits depth v = (value_ok v \<and> depth + value_depth v \<le> maxValueDepth \<and> length (mms_content v) < 2 ^ 32)"

lemma mms_content_shorter: "value_ok v \<Longrightarrow> length (mms_content v) < length (mms_octets v)"
  using length_tlv_le(2) by (simp add: mms_octets_tlv)

lemma tag_ok_mms_tag [simp]: "tag_ok (mms_tag v)"
  by (cases v rule: mms_tag.cases) (simp_all split: Type.splits)

lemma length_concat_member: "x \<in> set xs \<Longrightarrow> length (g x) \<le> length (concat (map g xs))"
  by (induction xs) auto

lemma decodeDataTLV_roundtrip:
  "value_fits depth v \<Longrightarrow> decodeDataTLV (mms_tag v) (mms_content v) depth = Inr v"
proof (induction v arbitrary: depth)
  case NilValue
  then show ?case by (simp add: value_fits_def)
next
  case (Value t n f b l c)
  let ?v = "Value t n f b l c"
  have ok: "value_ok ?v" using Value.prems by (simp add: value_fits_def)
  show ?case
  proof (cases "t = TypeArray \<or> t = TypeStructure")
    case False
    then show ?thesis using decodeDataTLV_scalar [OF ok] by blast
  next
    case True
    have cont: "mms_content ?v = concat (map mms_octets c)" and okc: "list_all value_ok c"
      using True ok by auto
    have fits: "value_fits (depth + 1) x" if x: "x \<in> set c" for x
    proof -
      have "value_ok x" using okc x by (simp add: list_all_iff)
      moreover have "length (mms_octets x) \<le> length (concat (map mms_octets c))"
        using x by (rule length_concat_member)
      ultimately show ?thesis
        using Value.prems mms_content_shorter [of x] value_depth_child [OF x] cont True
        by (auto simp: value_fits_def)
    qed
    have codec: "tlv_codec mms_octets (\<lambda>d. decodeData d (depth + 1)) (\<lambda>x. x \<in> set c)"
    proof
      fix x d r assume x: "x \<in> set c" and un: "unread d = mms_octets x @ r"
      have f: "value_fits (depth + 1) x" using fits x .
      then have okx: "value_ok x" "depth + 1 \<le> maxValueDepth" "length (mms_content x) < 2 ^ 32"
        by (auto simp: value_fits_def)
      show "decodeData d (depth + 1) = (Inr x, adv d (length (mms_octets x)))"
        using ReadTLV_tlv [of d "mms_tag x" "mms_content x" r] un okx Value.IH [OF x f]
        by (simp add: decodeData_def mms_octets_tlv)
    next
      fix x assume "x \<in> set c"
      then show "mms_octets x \<noteq> []" using okc by (simp add: list_all_iff mms_octets_tlv)
    qed
    have "decodeDataSeq (NewDecoder (mms_content ?v)) (depth + 1) [] = Inr ([] @ c)"
      by (rule tlv_codec.read_sequence [OF codec, where loop = "\<lambda>d acc. decodeDataSeq d (depth + 1) acc"])
        (rule decodeDataSeq_step, simp add: list_all_iff, simp only: unread_NewDecoder cont)
    then show ?thesis
      using True ok by (auto simp: decodeDataTLV_container)
  qed
qed

text \<open>\<open>DecodeData\<close> reads back every such value, whatever follows it.\<close>

lemma DecodeData_mms_octets:
  assumes "value_fits 0 v" and "unread d = mms_octets v @ r"
  shows "DecodeData d = (Inr v, adv d (length (mms_octets v)))"
proof -
  have ok: "value_ok v" "length (mms_content v) < 2 ^ 32" using assms(1) by (auto simp: value_fits_def)
  show ?thesis
    using ReadTLV_tlv [of d "mms_tag v" "mms_content v" r] assms(2) ok decodeDataTLV_roundtrip [OF assms(1)]
    by (simp add: DecodeData_def decodeData_def mms_octets_tlv)
qed

interpretation mms_data: tlv_codec "AppendData []" DecodeData "value_fits 0"
proof
  show "mms_octets v \<noteq> []" if "value_fits 0 v" for v using that by (simp add: value_fits_def mms_octets_tlv)
qed (rule DecodeData_mms_octets)

lemma DecodeAccessResult_mms_octets:
  assumes "value_fits 0 v" and "unread d = mms_octets v @ r"
  shows "DecodeAccessResult d = (Inr v, adv d (length (mms_octets v)))"
proof -
  have ok: "value_ok v" "length (mms_content v) < 2 ^ 32" using assms(1) by (auto simp: value_fits_def)
  have un: "unread d = tlv (mms_tag v) (mms_content v) @ r" using assms(2) ok by (simp add: mms_octets_tlv)
  have pk: "Peek d = Inr (mms_tag v)" using Peek_tlv [OF un] by simp
  show ?thesis
  proof (cases "v_typ v = TypeDataAccessError")
    case False
    then have "\<not> (Class (mms_tag v) = ClassContextSpecific \<and> Number (mms_tag v) = 0 \<and> \<not> Constructed (mms_tag v))"
      using ok by (cases v rule: mms_tag.cases) (auto simp: tag_defs data_tags split: Type.splits)
    then show ?thesis using pk DecodeData_mms_octets [OF assms] by (auto simp: DecodeAccessResult_def)
  next
    case True
    then obtain n where v: "v = Value TypeDataAccessError n 0 [] 0 []" "0 \<le> n" "n < 256" using ok by (cases v) auto
    have "decodeDataTLV (ContextPrimitive 0) (uint_octets (uint64_of n)) 0 = Inr v"
      using decodeDataTLV_roundtrip [OF assms(1)] by (simp add: v)
    then have "rbind (lift_ber (DecodeUint (uint_octets (uint64_of n)))) (\<lambda>code. Inr (NewDataAccessError (byte_of code))) = Inr v"
      by (simp add: decodeDataTLV.simps Let_def tag_defs data_tags)
    moreover have "mms_tag v = ContextPrimitive 0" "mms_content v = uint_octets (uint64_of n)" by (simp_all add: v(1))
    moreover have "ReadTLV d = (Inr (mms_tag v, mms_content v), adv d (length (mms_octets v)))"
      using ReadTLV_tlv [OF un] ok(2) by (simp add: mms_octets_tlv [OF ok(1)])
    moreover have "Class (ContextPrimitive 0) = ClassContextSpecific" "Number (ContextPrimitive 0) = 0"
      "\<not> Constructed (ContextPrimitive 0)" by (simp_all add: tag_defs)
    ultimately show ?thesis using pk by (simp add: DecodeAccessResult_def)
  qed
qed

section \<open>Properties\<close>

text \<open>(C16) MMS data round trip: every well-formed value within the nesting limit, of any type,
  is read back by \<^verbatim>\<open>DecodeData\<close> and by \<^verbatim>\<open>DecodeAccessResult\<close> as exactly itself, whatever
  follows it in the input.\<close>

theorem mms_data_roundtrip:
  assumes "value_ok v" and "value_depth v \<le> maxValueDepth" and "length (AppendData [] v) < 2 ^ 32"
  shows "DecodeData (NewDecoder (AppendData [] v @ rest))
      = (Inr v, \<lparr>d_data = AppendData [] v @ rest, d_off = length (AppendData [] v)\<rparr>)
    \<and> DecodeAccessResult (NewDecoder (AppendData [] v @ rest))
      = (Inr v, \<lparr>d_data = AppendData [] v @ rest, d_off = length (AppendData [] v)\<rparr>)"
proof -
  have "length (mms_content v) < 2 ^ 32"
    using assms(3) mms_octets_tlv [OF assms(1)] length_tlv_le(2) [of "mms_content v" "mms_tag v"] by simp
  then have "value_fits 0 v" using assms by (simp add: value_fits_def)
  then show ?thesis
    using DecodeData_mms_octets [of v "NewDecoder (AppendData [] v @ rest)" rest]
      DecodeAccessResult_mms_octets [of v "NewDecoder (AppendData [] v @ rest)" rest]
    by (simp add: adv_def NewDecoder_def unread_def)
qed

definition sample_value :: Value where
  "sample_value = NewStructure [NewBool True, NewInt64 (-129), NewBitStringBits [0xA0] 3, NewArray [NewVisibleString [65, 66]]]"

theorem mms_data_roundtrip_witness: "fst (DecodeData (NewDecoder (AppendData [] sample_value @ [9]))) = Inr sample_value"
proof -
  have "value_ok sample_value" "value_depth sample_value \<le> maxValueDepth" "length (AppendData [] sample_value) < 100"
    by code_simp+
  then show ?thesis using mms_data_roundtrip [of sample_value "[9]"] by simp
qed

text \<open>Decoding MMS data is safe on any input: no octets, whatever their nesting, make
  \<^verbatim>\<open>DecodeData\<close> panic, and it is total.\<close>

theorem mms_data_safe: "fst (DecodeData (NewDecoder octets)) \<noteq> Inl Panic"
  using decodeData_no_panic [of "NewDecoder octets" 0] by (simp add: DecodeData_def)

end
