(* ===== verification/Ethernet.thy ===== *)
theory Ethernet
  imports Prelude
begin

text \<open>
  Ethernet II frames with an optional 802.1Q tag (\<^verbatim>\<open>ethernet/ethernet.go\<close>), which carry
  GOOSE and Sampled Values.
\<close>

definition EtherTypeGOOSE :: "16 word" where "EtherTypeGOOSE = 0x88b8"
definition EtherTypeSV :: "16 word" where "EtherTypeSV = 0x88ba"
definition etherTypeVLAN :: "16 word" where "etherTypeVLAN = 0x8100"
definition MaxPayload :: nat where "MaxPayload = 1500"

record VLANTag =
  Priority :: byte
  DEI :: bool
  VID :: "16 word"

text \<open>A MAC address is an array of six octets.\<close>

record Frame =
  fr_Src :: "byte list"
  fr_Dst :: "byte list"
  fr_EtherType :: "16 word"
  fr_VLAN :: "VLANTag option"
  fr_Payload :: "byte list"

datatype eth_error = FrameTooShort | VLANFrameTooShort

definition u16_bytes :: "16 word \<Rightarrow> byte list" where
  "u16_bytes w = [ucast (drop_bit 8 w), ucast w]"

definition u16_read :: "byte list \<Rightarrow> 16 word" where
  "u16_read bs = push_bit 8 (ucast (bs ! 0)) OR ucast (bs ! 1)"

definition vlan_tci :: "VLANTag \<Rightarrow> 16 word" where
  "vlan_tci v =
     (let tci = push_bit 13 (ucast (Priority v AND 7));
          tci = (if DEI v then tci OR push_bit 12 1 else tci)
      in tci OR (VID v AND 0x0fff))"

definition ethernet_Marshal :: "Frame \<Rightarrow> byte list" where
  "ethernet_Marshal f =
     (let b = fr_Dst f @ fr_Src f;
          b = (case fr_VLAN f of None \<Rightarrow> b | Some v \<Rightarrow> b @ u16_bytes etherTypeVLAN @ u16_bytes (vlan_tci v))
      in b @ u16_bytes (fr_EtherType f) @ fr_Payload f)"

definition ParseFrame :: "byte list \<Rightarrow> (eth_error, Frame) result" where
  "ParseFrame b =
     (if length b < 14 then Inl (Err FrameTooShort)
      else
        rbind (go_slice b 0 6) (\<lambda>dst.
        rbind (go_slice b 6 12) (\<lambda>src.
        rbind (go_slice b 12 14) (\<lambda>e.
        let et = u16_read e in
        if et = etherTypeVLAN then
          (if length b < 18 then Inl (Err VLANFrameTooShort)
           else
             rbind (go_slice b 14 16) (\<lambda>t.
             rbind (go_slice b 16 18) (\<lambda>e2.
             let tci = u16_read t in
             Inr \<lparr>fr_Src = src, fr_Dst = dst, fr_EtherType = u16_read e2,
                  fr_VLAN = Some \<lparr>Priority = ucast (drop_bit 13 tci), DEI = (tci AND push_bit 12 1 \<noteq> 0),
                                   VID = tci AND 0x0fff\<rparr>,
                  fr_Payload = drop 18 b\<rparr>)))
        else Inr \<lparr>fr_Src = src, fr_Dst = dst, fr_EtherType = et, fr_VLAN = None, fr_Payload = drop 14 b\<rparr>))))"

definition vlan_ok :: "VLANTag \<Rightarrow> bool" where
  "vlan_ok v = (Priority v < 8 \<and> VID v < 4096)"

definition frame_ok :: "Frame \<Rightarrow> bool" where
  "frame_ok f = (length (fr_Src f) = 6 \<and> length (fr_Dst f) = 6
     \<and> (case fr_VLAN f of None \<Rightarrow> fr_EtherType f \<noteq> etherTypeVLAN | Some v \<Rightarrow> vlan_ok v))"

lemma u16_read_bytes [simp]: "u16_read (u16_bytes w) = w"
  unfolding u16_read_def u16_bytes_def
  by (rule bit_word_eqI) (auto simp: bit_simps)

lemma length_u16_bytes [simp]: "length (u16_bytes w) = 2"
  by (simp add: u16_bytes_def)

lemma vlan_tci_fields:
  assumes "vlan_ok v"
  shows "ucast (drop_bit 13 (vlan_tci v)) = Priority v"
    and "(vlan_tci v AND push_bit 12 1 \<noteq> 0) = DEI v" and "vlan_tci v AND 0x0fff = VID v"
proof -
  have p: "i < 3" if "bit (Priority v) i" for i
    using bit_lt_exp [of "Priority v" 3 i] assms that by (simp add: vlan_ok_def word_less_nat_alt)
  have w: "i < 12" if "bit (VID v) i" for i
    using bit_lt_exp [of "VID v" 12 i] assms that by (simp add: vlan_ok_def word_less_nat_alt)
  have n: "bit (7 :: int) i \<longleftrightarrow> i < 3" "bit (0xfff :: int) i \<longleftrightarrow> i < 12" "bit (4096 :: int) i \<longleftrightarrow> i = 12" for i
    using bit_mask_int [of 3 i] bit_mask_int [of 12 i] bit_exp_int [of 12 i] by simp_all
  have t: "bit (vlan_tci v) i \<longleftrightarrow>
      (if i < 12 then bit (VID v) i else if i = 12 then DEI v else bit (Priority v) (i - 13))" if "i < 16" for i
    using that p [of "i - 13"] w [of i] by (auto simp: vlan_tci_def Let_def bit_simps n)
  have "bit (vlan_tci v) (13 + n) \<longleftrightarrow> bit (Priority v) n" for n
  proof (cases "n < 3")
    case True
    then show ?thesis using t [of "13 + n"] by simp
  next
    case False
    then have "\<not> bit (vlan_tci v) (13 + n)" by (auto dest: bit_imp_le_length)
    then show ?thesis using False p [of n] by blast
  qed
  then show "ucast (drop_bit 13 (vlan_tci v)) = Priority v"
    by (intro bit_word_eqI) (auto simp: bit_simps)
  show "vlan_tci v AND 0x0fff = VID v"
    by (rule bit_word_eqI) (auto simp: bit_simps t n dest: w)
  have "push_bit 12 1 = (2 ^ 12 :: 16 word)" by simp
  then show "(vlan_tci v AND push_bit 12 1 \<noteq> 0) = DEI v"
    using t [of 12] by (simp only: and_exp_zero) simp
qed

lemma ParseFrame_Marshal:
  assumes "frame_ok f" shows "ParseFrame (ethernet_Marshal f) = Inr f"
proof (cases "fr_VLAN f")
  case None
  then show ?thesis using assms
    by (cases f) (simp add: frame_ok_def ethernet_Marshal_def ParseFrame_def Let_def)
next
  case (Some v)
  then have v: "vlan_ok v" using assms by (simp add: frame_ok_def)
  show ?thesis using assms Some vlan_tci_fields [OF v]
    by (cases f) (simp add: frame_ok_def ethernet_Marshal_def ParseFrame_def Let_def)
qed

lemma ParseFrame_no_panic: "ParseFrame b \<noteq> Inl Panic"
  by (auto simp: ParseFrame_def Let_def)

section \<open>Properties\<close>

text \<open>Ethernet frames: \<^verbatim>\<open>ParseFrame\<close> never panics, and it reads back every frame
  \<^verbatim>\<open>Marshal\<close> writes, tagged or not, with the padding a short frame is given behind its
  payload.\<close>

theorem ethernet_roundtrip:
  assumes "frame_ok f"
  shows "ParseFrame (ethernet_Marshal f) = Inr f
    \<and> ParseFrame (ethernet_Marshal f @ padding) = Inr (f\<lparr>fr_Payload := fr_Payload f @ padding\<rparr>)"
proof -
  have "ethernet_Marshal f @ padding = ethernet_Marshal (f\<lparr>fr_Payload := fr_Payload f @ padding\<rparr>)"
    by (simp add: ethernet_Marshal_def Let_def)
  moreover have "frame_ok (f\<lparr>fr_Payload := fr_Payload f @ padding\<rparr>)" using assms by (simp add: frame_ok_def split: option.splits)
  ultimately show ?thesis using ParseFrame_Marshal assms by metis
qed

theorem ethernet_roundtrip_witness:
  "ParseFrame (ethernet_Marshal \<lparr>fr_Src = [1, 2, 3, 4, 5, 6], fr_Dst = [1, 0xc, 0xcd, 1, 0, 1], fr_EtherType = EtherTypeGOOSE,
       fr_VLAN = Some \<lparr>Priority = 4, DEI = False, VID = 100\<rparr>, fr_Payload = [7, 8]\<rparr>)
   = Inr \<lparr>fr_Src = [1, 2, 3, 4, 5, 6], fr_Dst = [1, 0xc, 0xcd, 1, 0, 1], fr_EtherType = EtherTypeGOOSE,
       fr_VLAN = Some \<lparr>Priority = 4, DEI = False, VID = 100\<rparr>, fr_Payload = [7, 8]\<rparr>"
  by (rule ethernet_roundtrip [THEN conjunct1]) code_simp

end
