(* ===== verification/Goose.thy ===== *)
theory Goose
  imports MmsCodec Ethernet
begin

text \<open>
  The GOOSE message (\<^verbatim>\<open>goose/message.go\<close>), the publisher with its retransmission state
  machine (\<^verbatim>\<open>goose/publisher.go\<close>) and the subscriber's sequence checks
  (\<^verbatim>\<open>goose/subscriber.go\<close>).
\<close>

section \<open>Messages\<close>

definition goose_headerLen :: nat where "goose_headerLen = 8"
definition pduTag :: Tag where "pduTag = ApplicationConstructed 1"

definition DefaultTimeQuality :: byte where "DefaultTimeQuality = TimeLeapSecondsKnown OR 10"

record Message =
  GoCbRef :: "byte list"
  DatSet :: "byte list"
  GoID :: "byte list"
  TimeAllowedToLive :: "32 word"
  T :: Time
  StNum :: "32 word"
  SqNum :: "32 word"
  ConfRev :: "32 word"
  Test :: bool
  NdsCom :: bool
  NumDatSetEntries :: "32 word"
  Values :: "Value list"
  AppID :: "16 word"
  TimeQuality :: "byte option"

definition timeQuality :: "Message \<Rightarrow> byte" where
  "timeQuality m = (case TimeQuality m of Some q \<Rightarrow> q | None \<Rightarrow> DefaultTimeQuality)"

definition goose_pdu :: "Message \<Rightarrow> Element" where
  "goose_pdu m =
     (let allData = fold (\<lambda>v el. Add el [DataElement v]) (Values m) (Cons_el (ContextConstructed 11) [])
      in Cons_el pduTag
        [Some (Prim (ContextPrimitive 0) (GoCbRef m)),
         Some (UintElem (ContextPrimitive 1) (unat (TimeAllowedToLive m))),
         Some (Prim (ContextPrimitive 2) (DatSet m)),
         Some (Prim (ContextPrimitive 3) (GoID m)),
         Some (Prim (ContextPrimitive 4) (value_Bytes (NewUTCTime (T m) (timeQuality m)))),
         Some (UintElem (ContextPrimitive 5) (unat (StNum m))),
         Some (UintElem (ContextPrimitive 6) (unat (SqNum m))),
         Some (BoolElem (ContextPrimitive 7) (Test m)),
         Some (UintElem (ContextPrimitive 8) (unat (ConfRev m))),
         Some (BoolElem (ContextPrimitive 9) (NdsCom m)),
         Some (UintElem (ContextPrimitive 10) (unat (NumDatSetEntries m))),
         Some allData])"

definition goose_Marshal :: "Message \<Rightarrow> byte list" where
  "goose_Marshal m =
     (let pdu = goose_pdu m; len = goose_headerLen + Size pdu
      in Append pdu (u16_bytes (AppID m) @ [byte_of (len div 2 ^ 8), byte_of len, 0, 0, 0, 0]))"

definition expectUint32 :: "Decoder \<Rightarrow> 32 word \<Rightarrow> (mms_error, 32 word) result \<times> Decoder" where
  "expectUint32 d tag =
     (case Expect (ContextPrimitive tag) d of
        (Inl e, d') \<Rightarrow> (lift_ber (Inl e), d')
      | (Inr b, d') \<Rightarrow>
          (case DecodeUint b of
             Inl Panic \<Rightarrow> (Inl Panic, d')
           | Inl (Err e) \<Rightarrow> (Inl (Err (Asn1 ErrBadValue)), d')
           | Inr v \<Rightarrow> if v > 2 ^ 32 - 1 then (Inl (Err (Asn1 ErrBadValue)), d') else (Inr (word_of_nat v), d')))"

definition optionalField :: "32 word \<Rightarrow> Decoder \<Rightarrow> (mms_error, byte list option) result \<times> Decoder" where
  "optionalField tag d = (case Optional (ContextPrimitive tag) d of (r, d') \<Rightarrow> (lift_ber (optional_or_error r), d'))"

definition optionalBool :: "32 word \<Rightarrow> Decoder \<Rightarrow> (mms_error, bool) result \<times> Decoder" where
  "optionalBool tag d =
     (case optionalField tag d of
        (Inl e, d') \<Rightarrow> (Inl e, d')
      | (Inr None, d') \<Rightarrow> (Inr False, d')
      | (Inr (Some b), d') \<Rightarrow> (lift_ber (DecodeBool b), d'))"

text \<open>The loop over \<^verbatim>\<open>allData\<close>; an input is exhausted after finitely many elements.\<close>

function goose_values :: "Decoder \<Rightarrow> Value list \<Rightarrow> (mms_error, Value list) result" where
  "goose_values inner acc =
     (if \<not> More inner then Inr acc
      else case DecodeData inner of
        (Inl e, _) \<Rightarrow> Inl e
      | (Inr v, inner') \<Rightarrow> goose_values inner' (acc @ [v]))"
  by pat_completeness auto

lemma DecodeData_shrinks:
  "More d \<Longrightarrow> DecodeData d = (Inr v, d') \<Longrightarrow> length (d_data d') - d_off d' < length (d_data d) - d_off d"
  by (auto simp: DecodeData_def decodeData_def split: prod.splits sum.splits if_splits
      dest: ReadTLV_shrinks elim: lift_ber.elims)

termination goose_values
  by (relation "measure (\<lambda>(d, acc). length (d_data d) - d_off d)") (auto dest: DecodeData_shrinks [OF _ sym])

declare goose_values.simps [simp del]

definition parseGoosePdu :: "16 word \<Rightarrow> byte list \<Rightarrow> (mms_error, Message) result" where
  "parseGoosePdu appID content =
     (let d = NewDecoder content in
      dbind (lift_dec (Expect (ContextPrimitive 0) d)) (\<lambda>gocbRef d.
      dbind (expectUint32 d 1) (\<lambda>tatl d.
      dbind (lift_dec (Expect (ContextPrimitive 2) d)) (\<lambda>datSet d.
      dbind (optionalField 3 d) (\<lambda>goID d.
      dbind (lift_dec (Expect (ContextPrimitive 4) d)) (\<lambda>t d.
      rbind (NewUTCTimeRaw t) (\<lambda>tv.
      dbind (expectUint32 d 5) (\<lambda>stNum d.
      dbind (expectUint32 d 6) (\<lambda>sqNum d.
      dbind (optionalBool 7 d) (\<lambda>test d.
      dbind (expectUint32 d 8) (\<lambda>confRev d.
      dbind (optionalBool 9 d) (\<lambda>ndsCom d.
      dbind (expectUint32 d 10) (\<lambda>numEntries d.
      dbind (lift_dec (Expect (ContextConstructed 11) d)) (\<lambda>allData d.
      rbind (goose_values (NewDecoder allData) []) (\<lambda>values.
      Inr \<lparr>GoCbRef = gocbRef, DatSet = datSet, GoID = (case goID of None \<Rightarrow> [] | Some b \<Rightarrow> b),
           TimeAllowedToLive = tatl,
           T = (case value_UTCTime tv of Some u \<Rightarrow> u | None \<Rightarrow> \<lparr>t_Unix = 0, t_Nanosecond = 0\<rparr>),
           StNum = stNum, SqNum = sqNum, ConfRev = confRev, Test = test, NdsCom = ndsCom,
           NumDatSetEntries = numEntries, Values = values, AppID = appID,
           TimeQuality = Some (TimeQualityFlags tv)\<rparr>)))))))))))))))"

definition goose_Parse :: "byte list \<Rightarrow> (mms_error, Message) result" where
  "goose_Parse apdu =
     (if length apdu < goose_headerLen then Inl (Err (Asn1 ErrTruncated))
      else
        rbind (go_slice apdu 0 2) (\<lambda>a.
        rbind (go_slice apdu 2 4) (\<lambda>l.
        let len = be_nat l in
        if len < goose_headerLen \<or> len > length apdu then Inl (Err (Asn1 ErrBadLength))
        else
          rbind (go_slice apdu goose_headerLen len) (\<lambda>body.
          dbind (lift_dec (Expect pduTag (NewDecoder body))) (\<lambda>content _.
          parseGoosePdu (u16_read a) content)))))"

section \<open>Message round trip\<close>

text \<open>A message fits the APDU's 16-bit length field; its data are values a peer can send.\<close>

definition goose_ok :: "Message \<Rightarrow> bool" where
  "goose_ok m = (list_all (value_fits 0) (Values m) \<and> goose_headerLen + Size (goose_pdu m) < 2 ^ 16)"

definition goose_fields :: "Message \<Rightarrow> byte list" where
  "goose_fields m =
     tlv (ContextPrimitive 0) (GoCbRef m) @ tlv (ContextPrimitive 1) (uint_octets (unat (TimeAllowedToLive m))) @
     tlv (ContextPrimitive 2) (DatSet m) @ tlv (ContextPrimitive 3) (GoID m) @
     tlv (ContextPrimitive 4) (value_Bytes (NewUTCTime (T m) (timeQuality m))) @
     tlv (ContextPrimitive 5) (uint_octets (unat (StNum m))) @ tlv (ContextPrimitive 6) (uint_octets (unat (SqNum m))) @
     tlv (ContextPrimitive 7) (bool_octets (Test m)) @ tlv (ContextPrimitive 8) (uint_octets (unat (ConfRev m))) @
     tlv (ContextPrimitive 9) (bool_octets (NdsCom m)) @ tlv (ContextPrimitive 10) (uint_octets (unat (NumDatSetEntries m))) @
     tlv (ContextConstructed 11) (concat (map mms_octets (Values m)))"

lemma pduTag_simps: "tag_ok pduTag" "Number pduTag = 1" "pduTag\<lparr>Constructed := True\<rparr> = pduTag"
  by (simp_all add: pduTag_def) (simp_all add: tag_defs)

lemma map_filter_Some [simp]: "List.map_filter id (map Some xs) = xs"
  by (induction xs) (simp_all add: map_filter_def)

lemma goose_pdu_el:
  shows "el_ok (goose_pdu m)" and "Encode (goose_pdu m) = tlv pduTag (goose_fields m)"
proof -
  note vs = Encode_DataElements [of "Values m"]
  note defs = goose_pdu_def Let_def fold_Add BoolElem_def UintElem_def
  have all: "el_ok (Cons_el (ContextConstructed 11) (map DataElement (Values m)))"
    "Encode (Cons_el (ContextConstructed 11) (map DataElement (Values m))) = tlv (ContextConstructed 11) (concat (map mms_octets (Values m)))"
    using vs by (simp_all add: encode_simps ctx_tag_simps)
  show ok: "el_ok (goose_pdu m)"
    using all by (simp add: defs pduTag_simps ctx_tag_simps map_filter_def)
  show "Encode (goose_pdu m) = tlv pduTag (goose_fields m)"
    using all by (simp add: defs encode_simps pduTag_simps ctx_tag_simps map_filter_def goose_fields_def)
qed

lemma expectUint32_at [codec_simps]:
  fixes v :: "32 word"
  shows "expectUint32 (at_pos pre (tlv (ContextPrimitive n) (uint_octets (unat v)) @ r)) n
    = (Inr v, at_pos (pre @ tlv (ContextPrimitive n) (uint_octets (unat v))) r)"
proof -
  have v: "unat v < 2 ^ 32" using unsigned_less [of v] by simp
  then have ok: "uint64_ok (unat v)" by (simp add: uint64_ok_def)
  have "length (uint_octets (unat v)) < 2 ^ 32" using length_uint_octets [OF ok] by simp
  then show ?thesis
    using v ok by (simp add: expectUint32_def codec_simps DecodeUint_AppendUint)
qed


lemma optionalField_at [codec_simps]:
  "length c < 2 ^ 32 \<Longrightarrow> optionalField n (at_pos pre (tlv (ContextPrimitive n) c @ r))
     = (Inr (Some c), at_pos (pre @ tlv (ContextPrimitive n) c) r)"
  by (simp add: optionalField_def codec_simps optional_or_error_def)

lemma optionalBool_at [codec_simps]:
  "optionalBool n (at_pos pre (tlv (ContextPrimitive n) (bool_octets b) @ r))
     = (Inr b, at_pos (pre @ tlv (ContextPrimitive n) (bool_octets b)) r)"
  by (simp add: optionalBool_def codec_simps del: DecodeBool_octets) (simp add: DecodeBool_def)

lemma goose_values_octets:
  assumes "list_all (value_fits 0) vs" shows "goose_values (NewDecoder (concat (map mms_octets vs))) [] = Inr vs"
proof -
  have "goose_values (NewDecoder (concat (map mms_octets vs))) [] = Inr ([] @ vs)"
  proof (rule mms_data.read_sequence [where loop = goose_values])
    show "goose_values d acc = (if \<not> More d then Inr acc
        else rbind (fst (DecodeData d)) (\<lambda>a. goose_values (snd (DecodeData d)) (acc @ [a])))" for d acc
      by (subst goose_values.simps) (auto split: prod.splits sum.splits)
  qed (use assms in simp_all)
  then show ?thesis by simp
qed

text \<open>The time a message carries, at the resolution of the wire.\<close>

definition wire_time :: "Time \<Rightarrow> byte \<Rightarrow> Time" where
  "wire_time t q = (case value_UTCTime (NewUTCTime t q) of Some u \<Rightarrow> u | None \<Rightarrow> \<lparr>t_Unix = 0, t_Nanosecond = 0\<rparr>)"

lemma wire_time_close:
  assumes "t_Nanosecond t < 10 ^ 9" "0 \<le> t_Unix t" "t_Unix t < 2 ^ 32"
  shows "t_Unix (wire_time t q) = t_Unix t \<and> t_Nanosecond (wire_time t q) \<le> t_Nanosecond t \<and> t_Nanosecond t \<le> t_Nanosecond (wire_time t q) + 60"
  using UTCTime_resolution [of t q] assms by (auto simp: wire_time_def time_ok_def)

lemma NewUTCTime_raw:
  "NewUTCTimeRaw (value_Bytes (NewUTCTime t q)) = Inr (NewUTCTime t q)" "TimeQualityFlags (NewUTCTime t q) = q"
  "length (value_Bytes (NewUTCTime t q)) = 8"
  by (simp_all add: NewUTCTime_def NewUTCTimeRaw_def Let_def nth_append split: prod.splits)

lemma goose_Parse_Marshal:
  assumes "goose_ok m"
  shows "goose_Parse (goose_Marshal m)
    = Inr (m\<lparr>T := wire_time (T m) (timeQuality m), TimeQuality := Some (timeQuality m)\<rparr>)"
proof -
  have vals: "list_all (value_fits 0) (Values m)" using assms by (simp add: goose_ok_def)
  note el = goose_pdu_el [of m]
  define n where "n = goose_headerLen + Size (goose_pdu m)"
  have n: "n < 2 ^ 16" using assms by (simp add: goose_ok_def n_def)
  have len: "n = 8 + length (tlv pduTag (goose_fields m))"
    using Size_length [OF el(1)] el(2) by (simp add: n_def goose_headerLen_def)
  have marshal: "goose_Marshal m = u16_bytes (AppID m) @ be16 n @ [0, 0, 0, 0] @ tlv pduTag (goose_fields m)"
    by (simp add: goose_Marshal_def Let_def Append_dst el(2) n_def [symmetric] be16_eq)
  have hdr: "be_nat (be16 n) = n" using n by (intro be_nat_be_bytes_small) simp
  have short: "length (goose_fields m) < 2 ^ 16" using length_tlv_le(2) [of "goose_fields m" pduTag] len n by simp
  have "length (GoCbRef m) < 2 ^ 16" "length (DatSet m) < 2 ^ 16" "length (GoID m) < 2 ^ 16"
    "length (concat (map mms_octets (Values m))) < 2 ^ 16"
    using short length_tlv_le(2) [of "GoCbRef m" "ContextPrimitive 0"] length_tlv_le(2) [of "DatSet m" "ContextPrimitive 2"]
      length_tlv_le(2) [of "GoID m" "ContextPrimitive 3"]
      length_tlv_le(2) [of "concat (map mms_octets (Values m))" "ContextConstructed 11"]
    unfolding goose_fields_def length_append by linarith+
  then have fields: "length (GoCbRef m) < 2 ^ 32" "length (DatSet m) < 2 ^ 32" "length (GoID m) < 2 ^ 32"
    "length (concat (map mms_octets (Values m))) < 2 ^ 32"
    by simp_all
  have "parseGoosePdu (AppID m) (goose_fields m)
      = Inr (m\<lparr>T := wire_time (T m) (timeQuality m), TimeQuality := Some (timeQuality m)\<rparr>)"
    using fields goose_values_octets [OF vals]
    by (simp add: parseGoosePdu_def Let_def goose_fields_def NewDecoder_at [of "_ @ _"] codec_simps NewUTCTime_raw
        wire_time_def)
  then show ?thesis
    using n len hdr short
    by (simp add: goose_Parse_def marshal goose_headerLen_def NewDecoder_at [of "tlv _ _"] codec_simps pduTag_simps Let_def)
qed

lemma goose_fields_bound:
  "length (goose_fields m) \<le> 190 + length (GoCbRef m) + length (DatSet m) + length (GoID m) + length (concat (map mms_octets (Values m)))"
proof -
  have u: "length (tlv t (uint_octets (unat w))) \<le> 20" for t and w :: "32 word"
  proof -
    have "unat w < 2 ^ 32" using unsigned_less [of w] by simp
    then have "length (uint_octets (unat w)) \<le> 9" by (intro length_uint_octets) (simp add: uint64_ok_def)
    then show ?thesis using length_tlv_le(1) [of t "uint_octets (unat w)"] by linarith
  qed
  have b: "length (tlv t (bool_octets v)) \<le> 12" for t v using length_tlv_le(1) [of t "bool_octets v"] by simp
  have t: "length (tlv t (value_Bytes (NewUTCTime n q))) \<le> 19" for t n q
    using length_tlv_le(1) [of t "value_Bytes (NewUTCTime n q)"] by (simp add: NewUTCTime_raw)
  show ?thesis
    unfolding goose_fields_def length_append
    using length_tlv_le(1) [of "ContextPrimitive 0" "GoCbRef m"] length_tlv_le(1) [of "ContextPrimitive 2" "DatSet m"]
      length_tlv_le(1) [of "ContextPrimitive 3" "GoID m"] length_tlv_le(1) [of "ContextConstructed 11" "concat (map mms_octets (Values m))"]
      u [of "ContextPrimitive 1" "TimeAllowedToLive m"] u [of "ContextPrimitive 5" "StNum m"] u [of "ContextPrimitive 6" "SqNum m"]
      u [of "ContextPrimitive 8" "ConfRev m"] u [of "ContextPrimitive 10" "NumDatSetEntries m"] b [of "ContextPrimitive 7" "Test m"]
      b [of "ContextPrimitive 9" "NdsCom m"] t [of "ContextPrimitive 4" "T m" "timeQuality m"]
    by linarith
qed

section \<open>Properties\<close>

text \<open>(C37) GOOSE round trip: \<^verbatim>\<open>Parse\<close> reads back every message that fits the header's
  16-bit length, field for field: the data values exactly, the time with the quality octet that was
  stamped on it, to the second and up to 60 nanoseconds early when it is a time from 1970 to 2106.\<close>

theorem goose_roundtrip:
  assumes "list_all (value_fits 0) (Values m)" and "goose_headerLen + Size (goose_pdu m) < 2 ^ 16"
  shows "goose_Parse (goose_Marshal m)
    = Inr (m\<lparr>T := wire_time (T m) (timeQuality m), TimeQuality := Some (timeQuality m)\<rparr>)
    \<and> (t_Nanosecond (T m) < 10 ^ 9 \<and> 0 \<le> t_Unix (T m) \<and> t_Unix (T m) < 2 ^ 32 \<longrightarrow>
         t_Unix (wire_time (T m) (timeQuality m)) = t_Unix (T m) \<and> t_Nanosecond (wire_time (T m) (timeQuality m)) \<le> t_Nanosecond (T m)
         \<and> t_Nanosecond (T m) \<le> t_Nanosecond (wire_time (T m) (timeQuality m)) + 60)"
  using goose_Parse_Marshal [of m] wire_time_close [of "T m" "timeQuality m"] assms by (simp add: goose_ok_def)

definition sample_message :: Message where
  "sample_message = \<lparr>GoCbRef = [65, 66], DatSet = [67], GoID = [68], TimeAllowedToLive = 2000, T = \<lparr>t_Unix = 5, t_Nanosecond = 0\<rparr>,
     StNum = 1, SqNum = 0, ConfRev = 1, Test = False, NdsCom = False, NumDatSetEntries = 2,
     Values = [NewBool True, NewInt64 7], AppID = 0x1000, TimeQuality = None\<rparr>"

lemma sample_message_ok: "goose_ok sample_message"
proof -
  have "list_all value_ok (Values sample_message)" "list_all (\<lambda>v. value_depth v \<le> maxValueDepth) (Values sample_message)"
    "list_all (\<lambda>v. length (mms_content v) < 10) (Values sample_message)" by code_simp+
  then have vals: "list_all (value_fits 0) (Values sample_message)" by (auto simp: list_all_iff value_fits_def)
  have v: "length (concat (map mms_octets (Values sample_message))) = 6" by code_simp
  then have "length (goose_fields sample_message) \<le> 300"
    using goose_fields_bound [of sample_message] by (simp add: sample_message_def)
  then have "Size (goose_pdu sample_message) < 400"
    using length_tlv_le(1) [of pduTag "goose_fields sample_message"] by (simp add: goose_pdu_el Size_length [symmetric])
  then show ?thesis using vals by (simp add: goose_ok_def goose_headerLen_def)
qed

theorem goose_roundtrip_witness:
  "goose_Parse (goose_Marshal sample_message)
    = Inr (sample_message\<lparr>T := wire_time (T sample_message) (timeQuality sample_message), TimeQuality := Some (timeQuality sample_message)\<rparr>)"
  using goose_roundtrip [of sample_message] sample_message_ok by (simp add: goose_ok_def)

end
