(* ===== verification/GoosePub.thy ===== *)
theory GoosePub
  imports Goose
begin

text \<open>
  The GOOSE publisher (\<^verbatim>\<open>goose/publisher.go\<close>, \<^verbatim>\<open>goose/scl.go\<close>). Its retransmission
  goroutines are part of the state: each has its message, its position in the schedule and the
  channel that stops it. A step of the machine is one call under the lock, or one firing of a
  goroutine's timer; whether the interface accepts a frame is an input of the step.
\<close>

section \<open>Configuration\<close>

text \<open>A \<^verbatim>\<open>time.Duration\<close> is a number of nanoseconds.\<close>

type_synonym Duration = int

definition Millisecond :: Duration where "Millisecond = 10 ^ 6"

definition DefaultRetrans :: "Duration list" where
  "DefaultRetrans = [4 * Millisecond, 8 * Millisecond, 16 * Millisecond, 32 * Millisecond, 64 * Millisecond,
     128 * Millisecond, 256 * Millisecond, 512 * Millisecond, 1000 * Millisecond]"

definition maxRetransSteps :: nat where "maxRetransSteps = 16"

text \<open>The loop of \<^verbatim>\<open>RetransFromSCL\<close>, in milliseconds; \<open>out\<close> has fewer than sixteen entries.\<close>

function RetransFromSCL_loop :: "nat \<Rightarrow> nat \<Rightarrow> Duration list \<Rightarrow> Duration list" where
  "RetransFromSCL_loop d maxMS out =
     (if d < maxMS then
        let out = out @ [int d * Millisecond]
        in if length out \<ge> maxRetransSteps then out else RetransFromSCL_loop (d * 2) maxMS out
      else out)"
  by pat_completeness auto
termination
  by (relation "measure (\<lambda>(d, m, out). maxRetransSteps - length out)") (auto simp: maxRetransSteps_def)

declare RetransFromSCL_loop.simps [simp del]

definition RetransFromSCL :: "nat \<Rightarrow> nat \<Rightarrow> Duration list" where
  "RetransFromSCL minTime maxTime =
     (if minTime \<le> 0 \<and> maxTime \<le> 0 then DefaultRetrans
      else
        let minMS = (if minTime \<le> 0 then (if maxTime div 64 \<le> 0 then 1 else maxTime div 64) else minTime);
            maxMS = (if maxTime < minMS then minMS else maxTime)
        in RetransFromSCL_loop minMS maxMS [] @ [int maxMS * Millisecond])"

record PublisherConfig =
  pc_DstMAC :: "byte list"
  pc_AppID :: "16 word"
  pc_VLAN :: "VLANTag option"
  pc_GoCbRef :: "byte list"
  pc_DatSet :: "byte list"
  pc_GoID :: "byte list"
  pc_ConfRev :: "32 word"
  pc_SrcMAC :: "byte list"
  pc_Retrans :: "Duration list"
  pc_Test :: bool
  pc_NdsCom :: bool
  pc_TimeQuality :: "byte option"

datatype goose_error = ErrClosed | ErrFrameTooLarge | GoCbRefRequired | BadRetransInterval | SendFailed

section \<open>State\<close>

text \<open>A retransmission goroutine: its copy of the message, the loop counter, its stop channel.\<close>

record rloop =
  rl_msg :: Message
  rl_i :: nat
  rl_stop :: nat

text \<open>
  Channels are numbered in the order they are made; \<open>p_shut\<close> are those closed. \<open>p_msg\<close> is
  \<open>None\<close> while the message is the zero one, whose time is zero. \<open>p_wire\<close> is what the
  interface accepted, oldest first.
\<close>

record Publisher =
  p_cfg :: PublisherConfig
  p_stNum :: "32 word"
  p_sqNum :: "32 word"
  p_test :: bool
  p_ndsCom :: bool
  p_msg :: "Message option"
  p_stop :: "nat option"
  p_closed :: bool
  p_chans :: nat
  p_shut :: "nat list"
  p_loops :: "rloop list"
  p_wire :: "Frame list"

definition NewPublisher :: "PublisherConfig \<Rightarrow> (goose_error, Publisher) result" where
  "NewPublisher cfg =
     (if pc_GoCbRef cfg = [] then Inl (Err GoCbRefRequired)
      else
        let cfg = (if pc_Retrans cfg = [] then cfg\<lparr>pc_Retrans := DefaultRetrans\<rparr> else cfg)
        in if list_ex (\<lambda>d. d \<le> 0) (pc_Retrans cfg) then Inl (Err BadRetransInterval)
           else
             let cfg = (if pc_GoID cfg = [] then cfg\<lparr>pc_GoID := pc_GoCbRef cfg\<rparr> else cfg)
             in Inr \<lparr>p_cfg = cfg, p_stNum = 0, p_sqNum = 0, p_test = pc_Test cfg, p_ndsCom = pc_NdsCom cfg,
                     p_msg = None, p_stop = None, p_closed = False, p_chans = 0, p_shut = [], p_loops = [],
                     p_wire = []\<rparr>)"

definition SetTest :: "bool \<Rightarrow> Publisher \<Rightarrow> Publisher" where "SetTest b p = p\<lparr>p_test := b\<rparr>"
definition SetNdsCom :: "bool \<Rightarrow> Publisher \<Rightarrow> Publisher" where "SetNdsCom b p = p\<lparr>p_ndsCom := b\<rparr>"

text \<open>\<^verbatim>\<open>2 * d\<close> at 64 bits.\<close>

definition wrap64 :: "int \<Rightarrow> int" where "wrap64 v = (v + 2 ^ 63) mod 2 ^ 64 - 2 ^ 63"

definition tatl :: "Publisher \<Rightarrow> nat \<Rightarrow> (goose_error, 32 word) result" where
  "tatl p n =
     (let r = pc_Retrans (p_cfg p) in
      rbind (go_index r (min n (length r - 1))) (\<lambda>d.
        let d2 = wrap64 (2 * d); ms = (if d2 < Millisecond then 1 else d2 div Millisecond)
        in Inr (word_of_int ms)))"

definition goose_send :: "bool \<Rightarrow> Message \<Rightarrow> Publisher \<Rightarrow> (goose_error, unit) result \<times> Publisher" where
  "goose_send ok m p =
     (if ok then
        (Inr (), p\<lparr>p_wire := p_wire p @
           [\<lparr>fr_Src = pc_SrcMAC (p_cfg p), fr_Dst = pc_DstMAC (p_cfg p), fr_EtherType = EtherTypeGOOSE,
             fr_VLAN = pc_VLAN (p_cfg p), fr_Payload = goose_Marshal m\<rparr>]\<rparr>)
      else (Inl (Err SendFailed), p))"

section \<open>Operations\<close>

definition new_message :: "Publisher \<Rightarrow> Value list \<Rightarrow> 32 word \<Rightarrow> Time \<Rightarrow> 32 word \<Rightarrow> Message" where
  "new_message p values stNum t ttl =
     \<lparr>GoCbRef = pc_GoCbRef (p_cfg p), DatSet = pc_DatSet (p_cfg p), GoID = pc_GoID (p_cfg p),
      TimeAllowedToLive = ttl, T = t, StNum = stNum, SqNum = 0, ConfRev = pc_ConfRev (p_cfg p),
      Test = p_test p, NdsCom = p_ndsCom p, NumDatSetEntries = word_of_nat (length values), Values = values,
      AppID = pc_AppID (p_cfg p), TimeQuality = pc_TimeQuality (p_cfg p)\<rparr>"

definition widest :: "Message \<Rightarrow> Message" where
  "widest m = m\<lparr>SqNum := - 1, TimeAllowedToLive := - 1\<rparr>"

definition close_stop :: "Publisher \<Rightarrow> Publisher" where
  "close_stop p = (case p_stop p of None \<Rightarrow> p | Some c \<Rightarrow> p\<lparr>p_shut := c # p_shut p, p_stop := None\<rparr>)"

definition publishLocked ::
  "Value list \<Rightarrow> 32 word \<Rightarrow> bool \<Rightarrow> Time \<Rightarrow> bool \<Rightarrow> Publisher \<Rightarrow> (goose_error, unit) result \<times> Publisher" where
  "publishLocked values stNum stateChange now ok p =
     (let t = (case p_msg p of Some m \<Rightarrow> if \<not> stateChange then T m else now | None \<Rightarrow> now) in
      case tatl p 0 of
        Inl e \<Rightarrow> (Inl e, p)
      | Inr ttl \<Rightarrow>
          let msg = new_message p values stNum t ttl in
          if length (goose_Marshal (widest msg)) > MaxPayload then (Inl (Err ErrFrameTooLarge), p)
          else
            let p1 = close_stop p;
                p2 = p1\<lparr>p_msg := Some msg, p_stNum := stNum, p_sqNum := 0\<rparr>
            in case goose_send ok msg p2 of
                 (err, p3) \<Rightarrow>
                   (err, p3\<lparr>p_stop := Some (p_chans p3), p_chans := p_chans p3 + 1,
                            p_loops := p_loops p3 @ [\<lparr>rl_msg = msg, rl_i = 0, rl_stop = p_chans p3\<rparr>]\<rparr>))"

definition next_stNum :: "32 word \<Rightarrow> 32 word" where
  "next_stNum n = (if n + 1 = 0 then 1 else n + 1)"

definition next_sqNum :: "32 word \<Rightarrow> 32 word" where
  "next_sqNum n = (if n + 1 = 0 then 1 else n + 1)"

definition Publish :: "Value list \<Rightarrow> Time \<Rightarrow> bool \<Rightarrow> Publisher \<Rightarrow> (goose_error, unit) result \<times> Publisher" where
  "Publish values now ok p =
     (if p_closed p then (Inl (Err ErrClosed), p)
      else publishLocked values (next_stNum (p_stNum p)) True now ok p)"

definition Refresh :: "Value list \<Rightarrow> Time \<Rightarrow> bool \<Rightarrow> Publisher \<Rightarrow> (goose_error, unit) result \<times> Publisher" where
  "Refresh values now ok p =
     (if p_closed p then (Inl (Err ErrClosed), p)
      else publishLocked values (if p_stNum p = 0 then 1 else p_stNum p) False now ok p)"

definition goose_Close :: "Publisher \<Rightarrow> Publisher" where
  "goose_Close p = (if p_closed p then p else (close_stop p)\<lparr>p_closed := True\<rparr>)"

text \<open>
  One iteration of \<^verbatim>\<open>retransmit\<close> in the \<open>k\<close>-th goroutine, from its timer: it ends when its
  channel is closed or the send fails, else it goes on with the next interval.
\<close>

definition retransmit :: "nat \<Rightarrow> bool \<Rightarrow> Publisher \<Rightarrow> (goose_error, unit) result \<times> Publisher" where
  "retransmit k ok p =
     (if k \<ge> length (p_loops p) then (Inr (), p)
      else
        let l = p_loops p ! k; gone = take k (p_loops p) @ drop (Suc k) (p_loops p) in
        case tatl p (rl_i l + 1) of
          Inl e \<Rightarrow> (Inl e, p)
        | Inr ttl \<Rightarrow>
            let msg = (rl_msg l)\<lparr>SqNum := next_sqNum (SqNum (rl_msg l)), TimeAllowedToLive := ttl\<rparr> in
            if rl_stop l \<in> set (p_shut p) then (Inr (), p\<lparr>p_loops := gone\<rparr>)
            else
              case goose_send ok msg (p\<lparr>p_sqNum := SqNum msg\<rparr>) of
                (Inl e, p1) \<Rightarrow> (Inl e, p1\<lparr>p_loops := gone\<rparr>)
              | (Inr _, p1) \<Rightarrow> (Inr (), p1\<lparr>p_loops := (p_loops p)[k := l\<lparr>rl_msg := msg, rl_i := rl_i l + 1\<rparr>]\<rparr>))"

text \<open>The steps of the machine.\<close>

inductive pub_step :: "Publisher \<Rightarrow> Publisher \<Rightarrow> bool" where
  publish: "pub_step p (snd (Publish values now ok p))"
| refresh: "pub_step p (snd (Refresh values now ok p))"
| timer: "k < length (p_loops p) \<Longrightarrow> pub_step p (snd (retransmit k ok p))"
| set_test: "pub_step p (SetTest b p)"
| set_ndsCom: "pub_step p (SetNdsCom b p)"
| shut: "pub_step p (goose_Close p)"

inductive pub_reach :: "PublisherConfig \<Rightarrow> Publisher \<Rightarrow> bool" for cfg where
  start: "NewPublisher cfg = Inr p \<Longrightarrow> pub_reach cfg p"
| step: "pub_reach cfg p \<Longrightarrow> pub_step p p' \<Longrightarrow> pub_reach cfg p'"

section \<open>The invariant\<close>

text \<open>
  At most one goroutine is live (its channel open): the one of the state being advertised, whose
  message differs from it in sequence number and time to live only.
\<close>

definition loop_live :: "Publisher \<Rightarrow> rloop \<Rightarrow> bool" where
  "loop_live p l = (rl_stop l \<notin> set (p_shut p))"

definition live_ok :: "Publisher \<Rightarrow> rloop \<Rightarrow> bool" where
  "live_ok p l =
     (p_stop p = Some (rl_stop l)
      \<and> p_msg p \<noteq> None
      \<and> rl_msg l = (the (p_msg p))\<lparr>SqNum := p_sqNum p, TimeAllowedToLive := TimeAllowedToLive (rl_msg l)\<rparr>)"

definition pub_inv :: "Publisher \<Rightarrow> bool" where
  "pub_inv p =
     (pc_Retrans (p_cfg p) \<noteq> [] \<and> distinct (map rl_stop (p_loops p))
      \<and> list_all (\<lambda>l. rl_stop l < p_chans p \<and> (loop_live p l \<longrightarrow> live_ok p l)) (p_loops p)
      \<and> list_all (\<lambda>c. c < p_chans p) (p_shut p)
      \<and> (p_stop p \<noteq> None \<longrightarrow> the (p_stop p) < p_chans p \<and> the (p_stop p) \<notin> set (p_shut p))
      \<and> (p_closed p \<longrightarrow> p_stop p = None)
      \<and> (p_msg p = None \<longrightarrow> p_stNum p = 0)
      \<and> (p_msg p \<noteq> None \<longrightarrow> p_stNum p \<noteq> 0 \<and> StNum (the (p_msg p)) = p_stNum p \<and> SqNum (the (p_msg p)) = 0))"

lemma pub_invD:
  assumes "pub_inv p"
  shows "pc_Retrans (p_cfg p) \<noteq> []" and "distinct (map rl_stop (p_loops p))"
    and "\<And>l. l \<in> set (p_loops p) \<Longrightarrow> rl_stop l < p_chans p"
    and "\<And>l. l \<in> set (p_loops p) \<Longrightarrow> rl_stop l \<notin> set (p_shut p) \<Longrightarrow> live_ok p l"
    and "\<And>c. c \<in> set (p_shut p) \<Longrightarrow> c < p_chans p"
    and "\<And>c. p_stop p = Some c \<Longrightarrow> c < p_chans p \<and> c \<notin> set (p_shut p)"
    and "p_closed p \<Longrightarrow> p_stop p = None" and "p_msg p = None \<longleftrightarrow> p_stNum p = 0"
    and "\<And>m. p_msg p = Some m \<Longrightarrow> StNum m = p_stNum p \<and> SqNum m = 0"
  using assms by (auto simp: pub_inv_def list_all_iff loop_live_def)

lemma pub_inv_New: "NewPublisher cfg = Inr p \<Longrightarrow> pub_inv p"
  by (auto simp: NewPublisher_def Let_def pub_inv_def DefaultRetrans_def split: if_splits)

lemma tatl_ok: "pc_Retrans (p_cfg p) \<noteq> [] \<Longrightarrow> \<exists>ttl. tatl p n = Inr ttl"
  by (simp add: tatl_def Let_def min_less_iff_disj)

lemma close_stop_inv:
  assumes "pub_inv p"
  shows "pub_inv (close_stop p)" and "p_stop (close_stop p) = None"
    and "\<And>l. l \<in> set (p_loops p) \<Longrightarrow> \<not> loop_live (close_stop p) l"
    and "p_loops (close_stop p) = p_loops p" and "p_chans (close_stop p) = p_chans p" and "p_cfg (close_stop p) = p_cfg p"
  using assms
  by (auto simp: pub_inv_def close_stop_def loop_live_def live_ok_def list_all_iff split: option.splits)

lemma next_num_nonzero [simp]: "next_stNum n \<noteq> 0" "next_sqNum n \<noteq> 0"
  by (auto simp: next_stNum_def next_sqNum_def)

lemma goose_send_simps:
  "goose_send True m p = (Inr (), p\<lparr>p_wire := p_wire p @
     [\<lparr>fr_Src = pc_SrcMAC (p_cfg p), fr_Dst = pc_DstMAC (p_cfg p), fr_EtherType = EtherTypeGOOSE,
       fr_VLAN = pc_VLAN (p_cfg p), fr_Payload = goose_Marshal m\<rparr>]\<rparr>)"
  "goose_send False m p = (Inl (Err SendFailed), p)"
  by (simp_all add: goose_send_def)

lemma publishLocked_inv:
  assumes "pub_inv p" and "stNum \<noteq> 0" and "\<not> p_closed p"
  shows "pub_inv (snd (publishLocked values stNum change now ok p))"
proof -
  obtain ttl where ttl: "tatl p 0 = Inr ttl" using tatl_ok [of p 0] assms(1) by (auto simp: pub_inv_def)
  define t where "t = (case p_msg p of Some m \<Rightarrow> if \<not> change then T m else now | None \<Rightarrow> now)"
  define msg where "msg = new_message p values stNum t ttl"
  note cs = close_stop_inv [OF assms(1)]
  have cl: "\<not> p_closed (close_stop p)" using assms(3) by (simp add: close_stop_def split: option.splits)
  have m: "StNum msg = stNum" "SqNum msg = 0" by (simp_all add: msg_def new_message_def)
  have dead: "rl_stop l \<in> set (p_shut (close_stop p))" if "l \<in> set (p_loops p)" for l
    using cs(3) [OF that] by (simp add: loop_live_def)
  have lt: "rl_stop l < Suc (p_chans p)" if "l \<in> set (p_loops p)" for l
    using assms(1) that by (auto simp: pub_inv_def list_all_iff)
  show ?thesis
  proof (cases "length (goose_Marshal (widest msg)) > MaxPayload")
    case True
    then show ?thesis using assms(1) ttl by (simp add: publishLocked_def Let_def t_def [symmetric] msg_def)
  next
    case False
    then show ?thesis
      using cs(1,4,5) dead ttl m assms(2) cl lt
      by (cases ok) (auto simp: publishLocked_def Let_def t_def [symmetric] msg_def [symmetric] goose_send_simps
          pub_inv_def loop_live_def live_ok_def list_all_iff)
  qed
qed


lemma distinct_remove_nth: "distinct xs \<Longrightarrow> distinct (take k xs @ drop (Suc k) xs)"
  by (metis distinct_append distinct_drop distinct_take disjoint_iff set_take_disj_set_drop_if_distinct
      le_SucI order_refl)

lemma not_in_set_remove_nth:
  "distinct xs \<Longrightarrow> k < length xs \<Longrightarrow> xs ! k \<notin> set (take k xs @ drop (Suc k) xs)"
  by (auto simp: in_set_conv_nth nth_eq_iff_index_eq)

lemma retransmit_inv:
  assumes "pub_inv p" and "k < length (p_loops p)"
  shows "pub_inv (snd (retransmit k ok p))"
proof -
  define l where "l = p_loops p ! k"
  define gone where "gone = take k (p_loops p) @ drop (Suc k) (p_loops p)"
  have l: "l \<in> set (p_loops p)" using assms(2) by (simp add: l_def)
  obtain ttl where ttl: "tatl p (rl_i l + 1) = Inr ttl" using tatl_ok [OF pub_invD(1) [OF assms(1)]] by blast
  define msg where "msg = (rl_msg l)\<lparr>SqNum := next_sqNum (SqNum (rl_msg l)), TimeAllowedToLive := ttl\<rparr>"
  have gs: "set gone \<subseteq> set (p_loops p)" unfolding gone_def by (auto dest: in_set_takeD in_set_dropD)
  have gd: "distinct (map rl_stop gone)"
    using distinct_remove_nth [of "map rl_stop (p_loops p)" k] assms(1)
    by (simp add: gone_def pub_inv_def take_map drop_map)
  have gone_inv: "pub_inv (p\<lparr>p_loops := gone\<rparr>)"
    using assms(1) gs gd by (auto simp: pub_inv_def loop_live_def live_ok_def list_all_iff)
  show ?thesis
  proof (cases "rl_stop l \<in> set (p_shut p)")
    case True
    then show ?thesis
      using ttl assms(2) gone_inv by (simp add: retransmit_def Let_def l_def [symmetric] gone_def [symmetric])
  next
    case False
    then have live: "live_ok p l" using pub_invD(4) [OF assms(1) l] by blast
    have one: "x = l" if "x \<in> set (p_loops p)" "rl_stop x \<notin> set (p_shut p)" for x
    proof -
      have "live_ok p x" using pub_invD(4) [OF assms(1) that] .
      then have "rl_stop x = rl_stop l" using live by (simp add: live_ok_def)
      then show ?thesis using pub_invD(2) [OF assms(1)] that(1) l by (metis distinct_map inj_onD)
    qed
    have gone_dead: "rl_stop x \<in> set (p_shut p)" if "x \<in> set gone" for x
    proof (rule ccontr)
      assume "rl_stop x \<notin> set (p_shut p)"
      then have "x = l" using one that gs by blast
      moreover have "l \<notin> set gone"
        using pub_invD(2) [OF assms(1)] assms(2) unfolding gone_def l_def
        by (intro not_in_set_remove_nth) (simp_all add: distinct_map)
      ultimately show False using that by simp
    qed
    have sq: "rl_msg l = (the (p_msg p))\<lparr>SqNum := p_sqNum p, TimeAllowedToLive := TimeAllowedToLive (rl_msg l)\<rparr>"
      and st: "p_stop p = Some (rl_stop l)" "p_msg p \<noteq> None"
      using live by (simp_all add: live_ok_def)
    have msg: "msg = (the (p_msg p))\<lparr>SqNum := SqNum msg, TimeAllowedToLive := TimeAllowedToLive msg\<rparr>"
      unfolding msg_def by (subst sq) simp
    have dead: "x = l \<or> rl_stop x \<in> set (p_shut p)" if "x \<in> set (p_loops p)" for x using one that by blast
    show ?thesis
    proof (cases ok)
      case False
      then show ?thesis
        using \<open>rl_stop l \<notin> set (p_shut p)\<close> ttl assms(2) gone_inv gone_dead
        by (auto simp: retransmit_def Let_def l_def [symmetric] gone_def [symmetric] goose_send_simps
            pub_inv_def loop_live_def list_all_iff)
    next
      case True
      define l' where "l' = l\<lparr>rl_msg := msg, rl_i := rl_i l + 1\<rparr>"
      have eq: "(p_loops p)[k := l'] = take k (p_loops p) @ l' # drop (Suc k) (p_loops p)"
        using assms(2) by (simp add: upd_conv_take_nth_drop)
      have up: "x = l' \<or> x \<in> set gone" if "x \<in> set ((p_loops p)[k := l'])" for x
        using that unfolding eq gone_def by auto
      have mp: "map rl_stop ((p_loops p)[k := l']) = map rl_stop (p_loops p)"
        using assms(2) by (simp add: map_update l'_def l_def list_update_same_conv)
      define p' where "p' = snd (retransmit k ok p)"
      have p': "p_loops p' = (p_loops p)[k := l']" "p_sqNum p' = SqNum msg" "p_cfg p' = p_cfg p" "p_stNum p' = p_stNum p"
        "p_msg p' = p_msg p" "p_stop p' = p_stop p" "p_closed p' = p_closed p" "p_chans p' = p_chans p" "p_shut p' = p_shut p"
        using True \<open>rl_stop l \<notin> set (p_shut p)\<close> ttl assms(2)
        by (simp_all add: p'_def retransmit_def Let_def l_def [symmetric] goose_send_simps msg_def [symmetric] l'_def)
      have lv: "live_ok p' l'" using msg st by (simp add: live_ok_def p' l'_def)
      have "list_all (\<lambda>x. rl_stop x < p_chans p' \<and> (loop_live p' x \<longrightarrow> live_ok p' x)) (p_loops p')"
        unfolding list_all_iff
      proof
        fix x assume "x \<in> set (p_loops p')"
        then consider "x = l'" | "x \<in> set gone" using up p'(1) by auto
        then show "rl_stop x < p_chans p' \<and> (loop_live p' x \<longrightarrow> live_ok p' x)"
        proof cases
          case 1
          then show ?thesis using lv pub_invD(3) [OF assms(1) l] by (simp add: l'_def p')
        next
          case 2
          then show ?thesis using gone_dead gs pub_invD(3) [OF assms(1)] by (auto simp: loop_live_def p')
        qed
      qed
      then have "pub_inv p'"
        using assms(1) mp unfolding pub_inv_def by (simp add: p')
      then show ?thesis by (simp add: p'_def)
    qed
  qed
qed

lemma pub_inv_closed: "pub_inv q \<Longrightarrow> p_stop q = None \<Longrightarrow> pub_inv (q\<lparr>p_closed := True\<rparr>)"
  by (auto simp: pub_inv_def loop_live_def live_ok_def)

lemma pub_inv_flags: "pub_inv (p\<lparr>p_test := b\<rparr>) = pub_inv p" "pub_inv (p\<lparr>p_ndsCom := b\<rparr>) = pub_inv p"
  unfolding pub_inv_def loop_live_def live_ok_def by simp_all

lemma pub_step_inv: "pub_step p p' \<Longrightarrow> pub_inv p \<Longrightarrow> pub_inv p'"
proof (induction rule: pub_step.induct)
  case (publish p vs now ok)
  then show ?case using publishLocked_inv [of p "next_stNum (p_stNum p)"] by (simp add: Publish_def)
next
  case (refresh p vs now ok)
  then show ?case using publishLocked_inv [of p] by (simp add: Refresh_def)
next
  case (timer k p ok)
  then show ?case by (simp add: retransmit_inv)
next
  case (shut p)
  then show ?case using close_stop_inv(1,2) [of p] by (simp add: goose_Close_def pub_inv_closed)
qed (simp_all add: SetTest_def SetNdsCom_def pub_inv_flags)

lemma pub_reach_inv: "pub_reach cfg p \<Longrightarrow> pub_inv p"
  by (induction rule: pub_reach.induct) (auto intro: pub_inv_New pub_step_inv)

section \<open>What goes on the wire\<close>

definition goose_frame :: "PublisherConfig \<Rightarrow> Message \<Rightarrow> Frame" where
  "goose_frame cfg m =
     \<lparr>fr_Src = pc_SrcMAC cfg, fr_Dst = pc_DstMAC cfg, fr_EtherType = EtherTypeGOOSE, fr_VLAN = pc_VLAN cfg,
      fr_Payload = goose_Marshal m\<rparr>"

lemma goose_send_frame:
  "goose_send ok m p = (if ok then (Inr (), p\<lparr>p_wire := p_wire p @ [goose_frame (p_cfg p) m]\<rparr>)
     else (Inl (Err SendFailed), p))"
  by (simp add: goose_send_def goose_frame_def)

text \<open>A frame sent by a timer continues the state being advertised.\<close>

lemma retransmit_effect:
  assumes inv: "pub_inv p" and k: "k < length (p_loops p)" and r: "retransmit k ok p = (r, p')"
  shows "p_cfg p' = p_cfg p \<and> p_stNum p' = p_stNum p \<and> p_msg p' = p_msg p \<and> p_closed p' = p_closed p \<and>
    (p_wire p' = p_wire p \<and> (ok \<longrightarrow> p_sqNum p' = p_sqNum p)
     \<or> (\<exists>m0 ttl. p_msg p = Some m0 \<and> p_sqNum p' = next_sqNum (p_sqNum p)
          \<and> p_wire p' = p_wire p @ [goose_frame (p_cfg p) (m0\<lparr>SqNum := p_sqNum p', TimeAllowedToLive := ttl\<rparr>)]))"
proof -
  define l where "l = p_loops p ! k"
  have l: "l \<in> set (p_loops p)" using k by (simp add: l_def)
  obtain ttl where ttl: "tatl p (rl_i l + 1) = Inr ttl" using tatl_ok [OF pub_invD(1) [OF inv]] by blast
  show ?thesis
  proof (cases "rl_stop l \<in> set (p_shut p)")
    case True
    then show ?thesis using r ttl k by (auto simp: retransmit_def Let_def l_def [symmetric])
  next
    case False
    then have "live_ok p l" using pub_invD(4) [OF inv l] by blast
    then obtain m0 where m0: "p_msg p = Some m0"
      and sq: "rl_msg l = m0\<lparr>SqNum := p_sqNum p, TimeAllowedToLive := TimeAllowedToLive (rl_msg l)\<rparr>"
      by (auto simp: live_ok_def)
    have "SqNum (rl_msg l) = p_sqNum p" by (subst sq) simp
    moreover have "(rl_msg l)\<lparr>SqNum := next_sqNum (p_sqNum p), TimeAllowedToLive := ttl\<rparr>
        = m0\<lparr>SqNum := next_sqNum (p_sqNum p), TimeAllowedToLive := ttl\<rparr>" by (subst sq) simp
    ultimately show ?thesis
      using r ttl k False m0 by (auto simp: retransmit_def Let_def l_def [symmetric] goose_send_frame split: if_splits)
  qed
qed

lemma publishLocked_effect:
  assumes "pub_inv p" and "publishLocked vs stNum change now ok p = (r, p')"
  shows "p_cfg p' = p_cfg p \<and> p_closed p' = p_closed p \<and> r \<noteq> Inl Panic \<and>
    (r = Inl (Err ErrFrameTooLarge) \<and> p' = p
     \<or> (\<exists>m t ttl. m = new_message p vs stNum t ttl \<and> length (goose_Marshal (widest m)) \<le> MaxPayload
          \<and> p_msg p' = Some m \<and> p_stNum p' = stNum \<and> p_sqNum p' = 0
          \<and> p_wire p' = (if ok then p_wire p @ [goose_frame (p_cfg p) m] else p_wire p)
          \<and> (ok \<longrightarrow> r = Inr ()) \<and> (\<not> ok \<longrightarrow> r = Inl (Err SendFailed))))"
proof -
  obtain ttl where ttl: "tatl p 0 = Inr ttl" using tatl_ok [OF pub_invD(1) [OF assms(1)]] by blast
  have cs: "p_cfg (close_stop p) = p_cfg p" "p_closed (close_stop p) = p_closed p" "p_wire (close_stop p) = p_wire p"
    by (simp_all add: close_stop_def split: option.splits)
  define t where "t = (case p_msg p of Some m \<Rightarrow> if \<not> change then T m else now | None \<Rightarrow> now)"
  define m where "m = new_message p vs stNum t ttl"
  show ?thesis
  proof (cases "length (goose_Marshal (widest m)) > MaxPayload")
    case True
    then show ?thesis
      using assms(2) ttl by (auto simp: publishLocked_def Let_def t_def [symmetric] m_def [symmetric])
  next
    case False
    then have "p_cfg p' = p_cfg p \<and> p_closed p' = p_closed p \<and> p_msg p' = Some m \<and> p_stNum p' = stNum \<and> p_sqNum p' = 0
      \<and> p_wire p' = (if ok then p_wire p @ [goose_frame (p_cfg p) m] else p_wire p)
      \<and> r = (if ok then Inr () else Inl (Err SendFailed))"
      using assms(2) ttl cs
      by (cases ok) (auto simp: publishLocked_def Let_def t_def [symmetric] m_def [symmetric] goose_send_frame)
    moreover have "length (goose_Marshal (widest m)) \<le> MaxPayload" using False by simp
    ultimately show ?thesis unfolding m_def by (cases ok) auto
  qed
qed

text \<open>The size check covers every retransmission.\<close>

lemma length_uint_octets_mono: "m \<le> n \<Longrightarrow> length (uint_octets m) \<le> length (uint_octets n)"
proof -
  assume "m \<le> n"
  have "0 < IntSize (int n)" by (rule IntSize_fits [of "int n"]) simp
  then have "IntSize (int m) \<le> IntSize (int n)"
    using \<open>m \<le> n\<close> IntSize_le_iff [of "IntSize (int n)" "int m"] IntSize_le_iff [of "IntSize (int n)" "int n"] by linarith
  then show ?thesis by (simp add: uint_octets_be UintSize_eq)
qed

lemma length_tlv_mono: "length c \<le> length c' \<Longrightarrow> length (tlv t c) \<le> length (tlv t c')"
  by (auto simp: AppendTLV_octets length_length_octets LengthSize_def)

lemma goose_Marshal_length:
  shows "length (goose_Marshal m) = 8 + length (tlv pduTag (goose_fields m))"
    and "Size (goose_pdu m) = length (tlv pduTag (goose_fields m))"
  using goose_pdu_el [of m] Size_length [of "goose_pdu m"]
  by (simp_all add: goose_Marshal_def Let_def Append_dst)

lemma widest_bounds:
  "length (goose_Marshal (m\<lparr>SqNum := s, TimeAllowedToLive := t\<rparr>)) \<le> length (goose_Marshal (widest m))"
proof -
  let ?m = "m\<lparr>SqNum := s, TimeAllowedToLive := t\<rparr>"
  have u: "length (uint_octets (unat v)) \<le> length (uint_octets (unat (- 1 :: 32 word)))" for v :: "32 word"
    by (rule length_uint_octets_mono) (metis word_le_nat_alt word_order.extremum)
  have "length (goose_fields ?m) \<le> length (goose_fields (widest m))"
    unfolding goose_fields_def length_append widest_def
    using length_tlv_mono [OF u [of s], of "ContextPrimitive 6"] length_tlv_mono [OF u [of t], of "ContextPrimitive 1"]
    by (simp add: timeQuality_def)
  then have "length (tlv pduTag (goose_fields ?m)) \<le> length (tlv pduTag (goose_fields (widest m)))"
    by (rule length_tlv_mono)
  then show ?thesis by (simp add: goose_Marshal_length)
qed

text \<open>The frames sent and those a goroutine may still send are within the Ethernet payload.\<close>

definition wire_fits :: "Publisher \<Rightarrow> bool" where
  "wire_fits p = (list_all (\<lambda>fr. length (fr_Payload fr) \<le> MaxPayload) (p_wire p)
     \<and> (p_msg p \<noteq> None \<longrightarrow> length (goose_Marshal (widest (the (p_msg p)))) \<le> MaxPayload))"

lemma publishLocked_fits:
  assumes "pub_inv p" "wire_fits p" "publishLocked vs st change now ok p = (r, p')" shows "wire_fits p'"
proof -
  from publishLocked_effect [OF assms(1,3)] consider "p' = p" | m t ttl where "m = new_message p vs st t ttl"
    "length (goose_Marshal (widest m)) \<le> MaxPayload" "p_msg p' = Some m"
    "p_wire p' = (if ok then p_wire p @ [goose_frame (p_cfg p) m] else p_wire p)" by blast
  then show ?thesis
  proof cases
    case 2
    have "length (goose_Marshal m) \<le> MaxPayload"
      using widest_bounds [where m = m and s = "SqNum m" and t = "TimeAllowedToLive m"] 2(2) by simp
    then show ?thesis using 2 assms(2) by (simp add: wire_fits_def goose_frame_def)
  qed (use assms in simp)
qed

lemma retransmit_fits:
  assumes "pub_inv p" "wire_fits p" "k < length (p_loops p)" "retransmit k ok p = (r, p')" shows "wire_fits p'"
proof -
  from retransmit_effect [OF assms(1,3,4)] consider "p_wire p' = p_wire p" "p_msg p' = p_msg p"
    | m0 ttl where "p_msg p = Some m0" "p_msg p' = p_msg p"
      "p_wire p' = p_wire p @ [goose_frame (p_cfg p) (m0\<lparr>SqNum := p_sqNum p', TimeAllowedToLive := ttl\<rparr>)]" by blast
  then show ?thesis
  proof cases
    case 2
    have "length (goose_Marshal (m0\<lparr>SqNum := p_sqNum p', TimeAllowedToLive := ttl\<rparr>)) \<le> MaxPayload"
      using widest_bounds [where m = m0 and s = "p_sqNum p'" and t = ttl] 2(1) assms(2) by (simp add: wire_fits_def)
    then show ?thesis using 2 assms(2) by (simp add: wire_fits_def goose_frame_def)
  qed (use assms in \<open>simp add: wire_fits_def\<close>)
qed

lemma pub_step_fits: "pub_step p p' \<Longrightarrow> pub_inv p \<Longrightarrow> wire_fits p \<Longrightarrow> wire_fits p'"
proof (induction rule: pub_step.induct)
  case (publish p vs now ok)
  then show ?case
    using publishLocked_fits [of p vs _ True now ok] by (auto simp: Publish_def) (metis prod.collapse)
next
  case (refresh p vs now ok)
  then show ?case
    using publishLocked_fits [of p vs _ False now ok] by (auto simp: Refresh_def) (metis prod.collapse)+
next
  case (timer k p ok)
  then show ?case using retransmit_fits [of p k ok] by (metis prod.collapse)
qed (auto simp: wire_fits_def SetTest_def SetNdsCom_def goose_Close_def close_stop_def split: option.splits)

lemma pub_reach_fits: "pub_reach cfg p \<Longrightarrow> wire_fits p"
proof (induction rule: pub_reach.induct)
  case (start p)
  then show ?case by (auto simp: NewPublisher_def Let_def wire_fits_def split: if_splits)
next
  case (step p p')
  then show ?case using pub_step_fits pub_reach_inv by blast
qed

lemma closed_silent:
  assumes "pub_inv p" "p_closed p" "retransmit k ok p = (r, p')" shows "p_wire p' = p_wire p"
proof -
  have "rl_stop l \<in> set (p_shut p)" if "l \<in> set (p_loops p)" for l
    using pub_invD(4,7) [OF assms(1)] that assms(2) by (auto simp: live_ok_def)
  then show ?thesis
    using assms(3) by (auto simp: retransmit_def Let_def split: if_splits sum.splits prod.splits dest: nth_mem)
qed

section \<open>Properties\<close>

text \<open>(C14) A publisher never sends a stale state: in every state reachable by any interleaving of
  \<^verbatim>\<open>Publish\<close>, \<^verbatim>\<open>Refresh\<close>, \<^verbatim>\<open>SetTest\<close>, \<^verbatim>\<open>SetNdsCom\<close>, \<^verbatim>\<open>Close\<close>, retransmission timers
  and send failures, the timer of any of its goroutines, also of one left over from an earlier
  state, sends either nothing or the message of the current state with the next sequence
  number; and nothing once the publisher is closed.\<close>

theorem goose_retransmission:
  assumes "pub_reach cfg p" and "k < length (p_loops p)" and "retransmit k ok p = (r, p')"
  shows "p_stNum p' = p_stNum p \<and> (p_closed p \<longrightarrow> p_wire p' = p_wire p) \<and>
    (p_wire p' = p_wire p
     \<or> (\<exists>m ttl. p_msg p = Some m \<and> StNum m = p_stNum p \<and> p_sqNum p' = next_sqNum (p_sqNum p)
          \<and> p_wire p' = p_wire p @ [goose_frame (p_cfg p) (m\<lparr>SqNum := p_sqNum p', TimeAllowedToLive := ttl\<rparr>)]))"
proof -
  have inv: "pub_inv p" using pub_reach_inv [OF assms(1)] .
  have "StNum m = p_stNum p" if "p_msg p = Some m" for m using pub_invD(8,9) [OF inv] that by auto
  then show ?thesis using retransmit_effect [OF inv assms(2,3)] closed_silent [OF inv _ assms(3)] by blast
qed

text \<open>(C38) No GOOSE frame exceeds the Ethernet MTU: in every reachable state each frame sent is at
  most 1500 octets of payload, retransmissions included, however far their counters grow.\<close>

theorem goose_mtu:
  assumes "pub_reach cfg p" and "fr \<in> set (p_wire p)"
  shows "length (fr_Payload fr) \<le> 1500"
  using pub_reach_fits [OF assms(1)] assms(2) by (auto simp: wire_fits_def list_all_iff MaxPayload_def)


text \<open>A publisher that has published one state.\<close>

definition sample_cfg :: PublisherConfig where
  "sample_cfg = \<lparr>pc_DstMAC = [1, 0xc, 0xcd, 1, 0, 1], pc_AppID = 0x1000, pc_VLAN = None, pc_GoCbRef = [65], pc_DatSet = [66],
     pc_GoID = [67], pc_ConfRev = 1, pc_SrcMAC = [2, 0, 0, 0, 0, 1], pc_Retrans = [2000000, 1000000000], pc_Test = False,
     pc_NdsCom = False, pc_TimeQuality = None\<rparr>"

lemma goose_Marshal_bound:
  "length (goose_Marshal m) \<le> 210 + length (GoCbRef m) + length (DatSet m) + length (GoID m) + length (concat (map mms_octets (Values m)))"
  using goose_fields_bound [of m] length_tlv_le(1) [of pduTag "goose_fields m"] goose_Marshal_length(1) [of m] by linarith

lemma sample_published:
  "\<exists>p0 p m. NewPublisher sample_cfg = Inr p0 \<and> p = snd (Publish [NewBool True] \<lparr>t_Unix = 0, t_Nanosecond = 0\<rparr> True p0)
     \<and> p_wire p = [goose_frame sample_cfg m] \<and> length (p_loops p) = 1 \<and> p_cfg p = sample_cfg"
proof -
  obtain p0 where p0: "NewPublisher sample_cfg = Inr p0" "p_cfg p0 = sample_cfg" "p_wire p0 = []" "p_loops p0 = []" "\<not> p_closed p0"
    "p_stNum p0 = 0" "p_stop p0 = None" "p_msg p0 = None"
    by (simp add: NewPublisher_def sample_cfg_def)
  let ?now = "\<lparr>t_Unix = 0, t_Nanosecond = 0\<rparr>" and ?vs = "[NewBool True]"
  let ?p = "snd (Publish ?vs ?now True p0)"
  obtain ttl where ttl: "tatl p0 0 = Inr ttl" using tatl_ok [of p0 0] p0(2) by (auto simp: sample_cfg_def)
  have v: "length (concat (map mms_octets ?vs)) = 3" by code_simp
  have small: "length (goose_Marshal (widest (new_message p0 ?vs 1 t ttl))) \<le> MaxPayload" for t
    using goose_Marshal_bound [of "widest (new_message p0 ?vs 1 t ttl)"] v p0(2)
    by (simp add: widest_def new_message_def sample_cfg_def MaxPayload_def)
  define msg where "msg = new_message p0 ?vs 1 ?now ttl"
  have "p_wire ?p = [goose_frame sample_cfg msg]" "length (p_loops ?p) = 1" "p_cfg ?p = sample_cfg"
    using p0 small [of ?now]
    by (simp_all add: Publish_def publishLocked_def Let_def ttl next_stNum_def close_stop_def goose_send_def msg_def goose_frame_def)
  then show ?thesis using p0(1) by blast
qed

lemma sample_reach: "\<exists>p fr. pub_reach sample_cfg p \<and> p_wire p = [fr] \<and> length (p_loops p) = 1"
  using sample_published pub_reach.start pub_reach.step pub_step.publish by metis

theorem goose_mtu_witness: "\<exists>p fr. pub_reach sample_cfg p \<and> p_wire p = [fr] \<and> length (fr_Payload fr) \<le> 1500"
proof -
  obtain p fr where "pub_reach sample_cfg p" "p_wire p = [fr]" using sample_reach by blast
  then show ?thesis using goose_mtu [of sample_cfg p fr] by auto
qed

theorem goose_retransmission_witness:
  "\<exists>p r p'. pub_reach sample_cfg p \<and> retransmit 0 True p = (r, p') \<and> p_stNum p' = p_stNum p \<and> length (p_loops p) = 1"
proof -
  obtain p where "pub_reach sample_cfg p" "length (p_loops p) = 1" using sample_reach by blast
  moreover from this have "p_stNum (snd (retransmit 0 True p)) = p_stNum p"
    using goose_retransmission [of sample_cfg p 0 True "fst (retransmit 0 True p)" "snd (retransmit 0 True p)"] by simp
  ultimately show ?thesis by (metis prod.collapse)
qed

end
