(* ===== verification/GooseSub.thy ===== *)
theory GooseSub
  imports GoosePub
begin

text \<open>
  The GOOSE subscriber (\<^verbatim>\<open>goose/subscriber.go\<close>): filtering, per-control-block sequence
  checks and supervision of the time allowed to live; and the publisher and the subscriber together.
\<close>

section \<open>Subscriptions\<close>

record Filter =
  f_AppID :: "16 word"
  f_GoCbRef :: "byte list"

definition match :: "Filter \<Rightarrow> Message \<Rightarrow> bool" where
  "match f m =
     (if f_AppID f \<noteq> 0 \<and> AppID m \<noteq> f_AppID f then False
      else if f_GoCbRef f \<noteq> [] \<and> GoCbRef m \<noteq> f_GoCbRef f then False
      else True)"

record Anomalies =
  StNumRegressed :: bool
  SqNumGap :: bool
  Stale :: bool
  EntriesMismatch :: bool

text \<open>Times of arrival are nanoseconds of a clock. \<open>ss_timer\<close> is the generation the running
  timer was started with.\<close>

record seqState =
  ss_stNum :: "32 word"
  ss_sqNum :: "32 word"
  ss_tatl :: Duration
  ss_arrival :: int
  ss_timer :: "nat option"
  ss_gen :: nat

record subscription =
  sub_f :: Filter
  sub_supervised :: bool
  sub_stopped :: bool
  sub_states :: "byte list \<Rightarrow> seqState option"

definition Subscribe :: "Filter \<Rightarrow> bool \<Rightarrow> subscription" where
  "Subscribe f supervised = \<lparr>sub_f = f, sub_supervised = supervised, sub_stopped = False, sub_states = (\<lambda>_. None)\<rparr>"

definition supervise :: "subscription \<Rightarrow> seqState \<Rightarrow> seqState" where
  "supervise sub st =
     (if \<not> sub_supervised sub \<or> ss_tatl st \<le> 0 then st
      else st\<lparr>ss_gen := ss_gen st + 1, ss_timer := Some (ss_gen st + 1)\<rparr>)"

text \<open>The function of a timer started for \<open>ref\<close> at generation \<open>gen\<close>: whether it reports expiry.\<close>

definition timer_expires :: "byte list \<Rightarrow> nat \<Rightarrow> subscription \<Rightarrow> bool" where
  "timer_expires ref gen sub =
     (case sub_states sub ref of None \<Rightarrow> False | Some st \<Rightarrow> ss_gen st = gen \<and> \<not> sub_stopped sub)"

definition sub_stop :: "subscription \<Rightarrow> subscription" where
  "sub_stop sub = sub\<lparr>sub_stopped := True,
     sub_states := (\<lambda>r. map_option (\<lambda>st. st\<lparr>ss_timer := None\<rparr>) (sub_states sub r))\<rparr>"

definition MaxUint32 :: "32 word" where "MaxUint32 = - 1"

definition seq_check :: "seqState \<Rightarrow> Message \<Rightarrow> int \<Rightarrow> bool \<Rightarrow> Anomalies" where
  "seq_check st m now mismatch =
     (let wrapped = (ss_stNum st = MaxUint32 \<and> StNum m = 1);
          nxt = (if ss_sqNum st + 1 = 0 then 1 else ss_sqNum st + 1)
      in \<lparr>StNumRegressed = (StNum m < ss_stNum st \<and> \<not> wrapped),
          SqNumGap = (if StNum m = ss_stNum st then SqNum m \<noteq> nxt else SqNum m \<noteq> 0),
          Stale = (ss_tatl st > 0 \<and> now - ss_arrival st > ss_tatl st),
          EntriesMismatch = mismatch\<rparr>)"

text \<open>The body of the loop of \<^verbatim>\<open>run\<close> for one frame: what the callback gets, if it is called.\<close>

definition sub_frame :: "Frame \<Rightarrow> int \<Rightarrow> subscription \<Rightarrow> (Message \<times> Anomalies) option \<times> subscription" where
  "sub_frame fr now sub =
     (if sub_stopped sub then (None, sub)
      else if fr_EtherType fr \<noteq> EtherTypeGOOSE then (None, sub)
      else case goose_Parse (fr_Payload fr) of
        Inl _ \<Rightarrow> (None, sub)
      | Inr m \<Rightarrow>
          if \<not> match (sub_f sub) m then (None, sub)
          else
            let mismatch = (unat (NumDatSetEntries m) \<noteq> length (Values m));
                tl1 = int (unat (TimeAllowedToLive m)) * Millisecond
            in case sub_states sub (GoCbRef m) of
                 Some st \<Rightarrow>
                   let st1 = st\<lparr>ss_stNum := StNum m, ss_sqNum := SqNum m, ss_arrival := now, ss_tatl := tl1\<rparr>
                   in (Some (m, seq_check st m now mismatch),
                       sub\<lparr>sub_states := (sub_states sub)(GoCbRef m \<mapsto> supervise sub st1)\<rparr>)
               | None \<Rightarrow>
                   let st = \<lparr>ss_stNum = StNum m, ss_sqNum = SqNum m, ss_tatl = tl1, ss_arrival = now,
                             ss_timer = None, ss_gen = 0\<rparr>
                   in (Some (m, \<lparr>StNumRegressed = False, SqNumGap = False, Stale = False, EntriesMismatch = mismatch\<rparr>),
                       sub\<lparr>sub_states := (sub_states sub)(GoCbRef m \<mapsto> supervise sub st)\<rparr>))"

text \<open>A run over frames with their arrival times; what the callback got, in order.\<close>

fun sub_run :: "(Frame \<times> int) list \<Rightarrow> subscription \<Rightarrow> (Message \<times> Anomalies) list \<times> subscription" where
  "sub_run [] sub = ([], sub)"
| "sub_run ((fr, now) # frs) sub =
     (case sub_frame fr now sub of
        (out, sub1) \<Rightarrow>
          (case sub_run frs sub1 of (outs, sub2) \<Rightarrow> ((case out of None \<Rightarrow> [] | Some x \<Rightarrow> [x]) @ outs, sub2)))"

section \<open>Publisher and subscriber together\<close>

text \<open>Runs of a publisher whose interface accepts every frame, with a mark for each frame on the wire: whether a \<open>Refresh\<close> repeated
  an announced state with it. A \<open>Refresh\<close> before any state was announced is a \<open>Publish\<close>.\<close>

inductive lossless_run :: "PublisherConfig \<Rightarrow> Publisher \<Rightarrow> bool list \<Rightarrow> bool" for cfg where
  start: "NewPublisher cfg = Inr p \<Longrightarrow> lossless_run cfg p []"
| publish: "lossless_run cfg p rs \<Longrightarrow> list_all (value_fits 0) vs \<Longrightarrow> p' = snd (Publish vs now True p) \<Longrightarrow>
    lossless_run cfg p' (rs @ replicate (length (p_wire p') - length (p_wire p)) False)"
| refresh: "lossless_run cfg p rs \<Longrightarrow> list_all (value_fits 0) vs \<Longrightarrow> p' = snd (Refresh vs now True p) \<Longrightarrow>
    lossless_run cfg p' (rs @ replicate (length (p_wire p') - length (p_wire p)) (p_stNum p \<noteq> 0))"
| timer: "lossless_run cfg p rs \<Longrightarrow> k < length (p_loops p) \<Longrightarrow> p' = snd (retransmit k True p) \<Longrightarrow>
    lossless_run cfg p' (rs @ replicate (length (p_wire p') - length (p_wire p)) False)"
| set_test: "lossless_run cfg p rs \<Longrightarrow> lossless_run cfg (SetTest b p) rs"
| set_ndsCom: "lossless_run cfg p rs \<Longrightarrow> lossless_run cfg (SetNdsCom b p) rs"
| shut: "lossless_run cfg p rs \<Longrightarrow> lossless_run cfg (goose_Close p) rs"

lemma lossless_run_inv: "lossless_run cfg p rs \<Longrightarrow> pub_inv p"
  by (induction rule: lossless_run.induct) (auto intro: pub_inv_New pub_step_inv pub_step.intros)

text \<open>What may follow what on the wire.\<close>

definition follows :: "Message \<Rightarrow> Message \<Rightarrow> bool \<Rightarrow> bool" where
  "follows a b refreshed =
     (if refreshed then StNum b = StNum a \<and> SqNum b = 0
      else StNum b = StNum a \<and> SqNum b = next_sqNum (SqNum a) \<or> StNum b = next_stNum (StNum a) \<and> SqNum b = 0)"

definition wire_msg :: "PublisherConfig \<Rightarrow> Message \<Rightarrow> bool" where
  "wire_msg cfg m = (GoCbRef m = pc_GoCbRef cfg \<and> AppID m = pc_AppID cfg \<and> StNum m \<noteq> 0
     \<and> list_all (value_fits 0) (Values m) \<and> unat (NumDatSetEntries m) = length (Values m)
     \<and> length (goose_Marshal m) \<le> MaxPayload)"

definition announced :: "Publisher \<Rightarrow> (Message \<times> bool) list \<Rightarrow> bool" where
  "announced p xs =
     (p_wire p = map (\<lambda>x. goose_frame (p_cfg p) (fst x)) xs \<and> list_all (\<lambda>x. wire_msg (p_cfg p) (fst x)) xs
      \<and> successively (\<lambda>x y. follows (fst x) (fst y) (snd y)) xs \<and> (xs \<noteq> [] \<longrightarrow> \<not> snd (hd xs))
      \<and> (xs \<noteq> [] \<longrightarrow> StNum (fst (last xs)) = p_stNum p \<and> SqNum (fst (last xs)) = p_sqNum p)
      \<and> (p_msg p \<noteq> None \<longrightarrow> xs \<noteq> [] \<and> list_all (value_fits 0) (Values (the (p_msg p)))
           \<and> unat (NumDatSetEntries (the (p_msg p))) = length (Values (the (p_msg p)))
           \<and> GoCbRef (the (p_msg p)) = pc_GoCbRef (p_cfg p) \<and> AppID (the (p_msg p)) = pc_AppID (p_cfg p)
           \<and> length (goose_Marshal (widest (the (p_msg p)))) \<le> MaxPayload))"

lemma successively_snoc: "successively P (xs @ [x]) \<longleftrightarrow> successively P xs \<and> (xs \<noteq> [] \<longrightarrow> P (last xs) x)"
  by (auto simp: successively_append_iff)

text \<open>Between two states a run that announced \<open>xs\<close> went on by at most one frame, marked \<open>r\<close>.\<close>

definition goes_on :: "Publisher \<Rightarrow> Publisher \<Rightarrow> bool \<Rightarrow> (Message \<times> bool) list \<Rightarrow> bool" where
  "goes_on p p' r xs = (\<exists>ys. announced p' (xs @ ys) \<and> map snd ys = replicate (length (p_wire p') - length (p_wire p)) r)"

lemma goes_on_same: "announced p' xs \<Longrightarrow> length (p_wire p') = length (p_wire p) \<Longrightarrow> goes_on p p' r xs"
  by (auto simp: goes_on_def intro!: exI [of _ "[]"])

lemma goes_on_frame: "announced p' (xs @ [(m, r)]) \<Longrightarrow> length (p_wire p') = Suc (length (p_wire p)) \<Longrightarrow> goes_on p p' r xs"
  by (auto simp: goes_on_def intro!: exI [of _ "[(m, r)]"])

lemma length_values_bound:
  assumes "list_all (value_fits 0) (Values m)" and "length (goose_Marshal m) \<le> MaxPayload"
  shows "length (Values m) \<le> MaxPayload"
proof -
  have ok: "list_all value_ok (Values m)" using assms(1) by (auto simp: list_all_iff value_fits_def)
  have "length vs \<le> length (concat (map mms_octets vs))" if "list_all value_ok vs" for vs
    using that
  proof (induction vs)
    case (Cons v vs)
    then have "1 \<le> length (mms_octets v)" by (simp add: mms_octets_tlv Suc_le_eq)
    moreover have "length vs \<le> length (concat (map mms_octets vs))" using Cons by simp
    ultimately show ?case unfolding list.map concat.simps length_append list.size by linarith
  qed simp
  from this [OF ok] have "length (Values m) \<le> length (goose_fields m)"
    using length_tlv_le(2) [of "concat (map mms_octets (Values m))" "ContextConstructed 11"]
    unfolding goose_fields_def length_append by linarith
  then show ?thesis
    using goose_Marshal_length(1) [of m] assms(2) length_tlv_le(2) [of "goose_fields m" pduTag] by linarith
qed

lemma announced_publishLocked:
  assumes inv: "pub_inv p" and an: "announced p xs" and vs: "list_all (value_fits 0) vs"
    and pl: "publishLocked vs stNum change now True p = (res, p')"
    and st: "stNum \<noteq> 0" "xs \<noteq> [] \<longrightarrow> (if r then stNum = p_stNum p else stNum = next_stNum (p_stNum p))" "r \<longrightarrow> xs \<noteq> []"
  shows "goes_on p p' r xs"
proof -
  have ok: "list_all value_ok vs" using vs by (auto simp: list_all_iff value_fits_def)
  from publishLocked_effect [OF inv pl] consider "p' = p"
    | m t ttl where "m = new_message p vs stNum t ttl" "length (goose_Marshal (widest m)) \<le> MaxPayload"
      "p_cfg p' = p_cfg p" "p_msg p' = Some m" "p_stNum p' = stNum" "p_sqNum p' = 0"
      "p_wire p' = p_wire p @ [goose_frame (p_cfg p) m]"
    by auto
  then show ?thesis
  proof cases
    case 1
    then show ?thesis using an by (auto intro: goes_on_same)
  next
    case (2 m t ttl)
    have mv: "Values m = vs" "StNum m = stNum" "SqNum m = 0" "NumDatSetEntries m = word_of_nat (length vs)"
      "GoCbRef m = pc_GoCbRef (p_cfg p)" "AppID m = pc_AppID (p_cfg p)" by (simp_all add: 2(1) new_message_def)
    have "m = m\<lparr>SqNum := SqNum m, TimeAllowedToLive := TimeAllowedToLive m\<rparr>" by simp
    then have len: "length (goose_Marshal m) \<le> MaxPayload"
      using widest_bounds [where m = m and s = "SqNum m" and t = "TimeAllowedToLive m"] ok mv(1) 2(2) by simp
    have "length vs \<le> MaxPayload" using length_values_bound [of m] vs mv(1) len by simp
    then have "length vs < 2 ^ 32" by (simp add: MaxPayload_def)
    then have n: "unat (NumDatSetEntries m) = length vs" by (simp add: mv unat_of_nat)
    have "wire_msg (p_cfg p) m" using mv vs n len st(1) by (simp add: wire_msg_def)
    moreover have "xs \<noteq> [] \<longrightarrow> follows (fst (last xs)) m r" using an mv st(2) by (auto simp: announced_def follows_def)
    moreover have "\<not> snd (hd (xs @ [(m, r)]))" using an st(3) by (cases xs) (auto simp: announced_def)
    ultimately have "announced p' (xs @ [(m, r)])"
      using an 2 mv vs n by (simp add: announced_def successively_snoc)
    then show ?thesis using 2(7) by (auto intro: goes_on_frame)
  qed
qed

text \<open>A publisher that has announced something advertises a state.\<close>

lemma announced_state: "pub_inv p \<Longrightarrow> announced p xs \<Longrightarrow> xs = [] \<longleftrightarrow> p_stNum p = 0"
  using pub_invD(8) [of p] by (cases xs rule: rev_cases) (auto simp: announced_def wire_msg_def)

lemma announced_publish:
  assumes inv: "pub_inv p" and an: "announced p xs" and vs: "list_all (value_fits 0) vs"
  shows "goes_on p (snd (Publish vs now True p)) False xs"
proof (cases "p_closed p")
  case True
  then show ?thesis using an by (auto simp: Publish_def intro: goes_on_same)
next
  case False
  obtain res p' where "publishLocked vs (next_stNum (p_stNum p)) True now True p = (res, p')" by force
  with announced_publishLocked [OF inv an vs this, of False] False show ?thesis by (simp add: Publish_def)
qed

lemma announced_refresh:
  assumes inv: "pub_inv p" and an: "announced p xs" and vs: "list_all (value_fits 0) vs"
  shows "goes_on p (snd (Refresh vs now True p)) (p_stNum p \<noteq> 0) xs"
proof (cases "p_closed p")
  case True
  then show ?thesis using an by (auto simp: Refresh_def intro: goes_on_same)
next
  case False
  obtain res p' where "publishLocked vs (if p_stNum p = 0 then 1 else p_stNum p) False now True p = (res, p')" by force
  with announced_publishLocked [OF inv an vs this, of "p_stNum p \<noteq> 0"] False announced_state [OF inv an] show ?thesis by (simp add: Refresh_def)
qed

lemma announced_timer:
  assumes inv: "pub_inv p" and an: "announced p xs" and k: "k < length (p_loops p)"
    and step: "retransmit k True p = (r, p')"
  shows "goes_on p p' False xs"
proof -
  from retransmit_effect [OF inv k step] consider
      "p_cfg p' = p_cfg p" "p_stNum p' = p_stNum p" "p_msg p' = p_msg p" "p_wire p' = p_wire p" "p_sqNum p' = p_sqNum p"
    | m0 ttl where "p_cfg p' = p_cfg p" "p_stNum p' = p_stNum p" "p_msg p' = p_msg p" "p_msg p = Some m0"
      "p_sqNum p' = next_sqNum (p_sqNum p)"
      "p_wire p' = p_wire p @ [goose_frame (p_cfg p) (m0\<lparr>SqNum := p_sqNum p', TimeAllowedToLive := ttl\<rparr>)]"
    by auto
  then show ?thesis
  proof cases
    case 1
    then have "announced p' xs" using an by (auto simp: announced_def)
    then show ?thesis by (rule goes_on_same) (simp add: 1)
  next
    case (2 m0 ttl)
    let ?m = "m0\<lparr>SqNum := p_sqNum p', TimeAllowedToLive := ttl\<rparr>"
    have m0: "list_all (value_fits 0) (Values m0)" "unat (NumDatSetEntries m0) = length (Values m0)" "xs \<noteq> []"
      "GoCbRef m0 = pc_GoCbRef (p_cfg p)" "AppID m0 = pc_AppID (p_cfg p)" "length (goose_Marshal (widest m0)) \<le> MaxPayload"
      using an 2(4) by (auto simp: announced_def)
    have st: "StNum m0 = p_stNum p" "p_stNum p \<noteq> 0" using pub_invD(8,9) [OF inv] 2(4) by auto
    from widest_bounds [where m = m0 and s = "p_sqNum p'" and t = ttl] m0(6) have len: "length (goose_Marshal ?m) \<le> MaxPayload" by simp
    have "wire_msg (p_cfg p) ?m" using m0 st len by (simp add: wire_msg_def)
    moreover have "follows (fst (last xs)) ?m False" using an m0(3) st 2(5) by (simp add: announced_def follows_def)
    ultimately have "announced p' (xs @ [(?m, False)])" using an 2 m0 st by (simp add: announced_def successively_snoc)
    then show ?thesis using 2(6) by (auto intro: goes_on_frame)
  qed
qed

lemma announced_frame:
  assumes "announced p xs" "p_wire p' = p_wire p" "p_cfg p' = p_cfg p" "p_stNum p' = p_stNum p" "p_sqNum p' = p_sqNum p" "p_msg p' = p_msg p"
  shows "announced p' xs"
  using assms by (simp add: announced_def)

lemma run_announced: "lossless_run cfg p rs \<Longrightarrow> \<exists>xs. announced p xs \<and> map snd xs = rs"
proof (induction rule: lossless_run.induct)
  case (start p)
  then have "announced p []" by (auto simp: NewPublisher_def Let_def announced_def split: if_splits)
  then show ?case by auto
next
  case (publish p rs vs p' now)
  then obtain xs where "announced p xs" "map snd xs = rs" by blast
  with announced_publish [OF lossless_run_inv [OF publish.hyps(1)] _ publish.hyps(2), of xs now] show ?case
    by (auto simp: goes_on_def publish.hyps(3))
next
  case (refresh p rs vs p' now)
  then obtain xs where "announced p xs" "map snd xs = rs" by blast
  with announced_refresh [OF lossless_run_inv [OF refresh.hyps(1)] _ refresh.hyps(2), of xs now] show ?case
    by (auto simp: goes_on_def refresh.hyps(3))
next
  case (timer p rs k p')
  then obtain xs where xs: "announced p xs" "map snd xs = rs" by blast
  obtain res q where q: "retransmit k True p = (res, q)" by force
  from announced_timer [OF lossless_run_inv [OF timer.hyps(1)] xs(1) timer.hyps(2) q] show ?case
    using xs(2) by (auto simp: goes_on_def timer.hyps(3) q)
next
  case (set_test p rs b)
  then show ?case using announced_frame [of p _ "SetTest b p"] by (auto simp: SetTest_def)
next
  case (set_ndsCom p rs b)
  then show ?case using announced_frame [of p _ "SetNdsCom b p"] by (auto simp: SetNdsCom_def)
next
  case (shut p rs)
  then obtain xs where xs: "announced p xs" "map snd xs = rs" by blast
  have "announced (goose_Close p) xs" by (rule announced_frame [OF xs(1)]) (simp_all add: goose_Close_def close_stop_def split: option.splits)
  then show ?case using xs(2) by blast
qed


text \<open>A subscription that has seen message \<open>a\<close> last on its control block, at time \<open>t\<close>.\<close>

definition time_to_live :: "Message \<Rightarrow> int" where
  "time_to_live m = int (unat (TimeAllowedToLive m)) * Millisecond"

definition saw :: "Message \<Rightarrow> int \<Rightarrow> subscription \<Rightarrow> bool" where
  "saw a t sub = (\<exists>st. sub_states sub (GoCbRef a) = Some st \<and> ss_stNum st = StNum a \<and> ss_sqNum st = SqNum a
     \<and> ss_tatl st = time_to_live a \<and> ss_arrival st = t)"

text \<open>What a subscriber may report of a message: that it repeats a state from its first message, or that it came later than the
  message before it allowed.\<close>

definition verdict :: "bool \<Rightarrow> bool \<Rightarrow> Anomalies" where
  "verdict refreshed late = \<lparr>StNumRegressed = False, SqNumGap = refreshed, Stale = late, EntriesMismatch = False\<rparr>"

definition overdue :: "(Message \<times> int) option \<Rightarrow> int \<Rightarrow> bool" where
  "overdue prev now = (case prev of None \<Rightarrow> False | Some (a, t) \<Rightarrow> time_to_live a > 0 \<and> now - t > time_to_live a)"

fun verdicts :: "(Message \<times> int) option \<Rightarrow> (Message \<times> bool) list \<Rightarrow> int list \<Rightarrow> Anomalies list" where
  "verdicts prev ((m, r) # xs) (t # ts) = verdict r (overdue prev t) # verdicts (Some (m, t)) xs ts"
| "verdicts prev _ _ = []"

lemma next_num: "next_stNum n \<noteq> n" "n \<noteq> MaxUint32 \<Longrightarrow> \<not> next_stNum n < n" "next_stNum MaxUint32 = 1"
proof -
  have m: "n + 1 = 0 \<longleftrightarrow> n = MaxUint32" for n :: "32 word" by (metis MaxUint32_def add_eq_0_iff2 add.inverse_inverse minus_equation_iff)
  show "next_stNum MaxUint32 = 1" by (simp add: next_stNum_def MaxUint32_def)
  show "next_stNum n \<noteq> n" by (auto simp: next_stNum_def m MaxUint32_def)
  show "\<not> next_stNum n < n" if "n \<noteq> MaxUint32"
  proof -
    have "1 + n \<noteq> 0" using that m [of n] by (simp add: add.commute)
    then have "unat (n + 1) = Suc (unat n)" by (simp add: unatSuc add.commute)
    then show ?thesis using that by (simp add: next_stNum_def m not_less word_le_nat_alt)
  qed
qed

lemma next_sqNum_step: "(if n + 1 = 0 then 1 else n + 1) = next_sqNum n" "next_sqNum n \<noteq> 0"
  by (simp_all add: next_sqNum_def)

lemma seq_check_follows:
  assumes "follows a m r" and "ss_stNum st = StNum a" and "ss_sqNum st = SqNum a" "ss_tatl st = time_to_live a" "ss_arrival st = t"
  shows "seq_check st m now False = verdict r (overdue (Some (a, t)) now)"
proof (cases r)
  case True
  then show ?thesis using assms next_sqNum_step [of "SqNum a"] by (simp add: follows_def seq_check_def verdict_def overdue_def Let_def)
next
  case False
  then show ?thesis using assms next_num(1) [of "StNum a"] next_num(2) [of "StNum a"] next_num(3) next_sqNum_step(1) [of "SqNum a"]
    by (cases "StNum a = MaxUint32") (auto simp: follows_def seq_check_def verdict_def overdue_def Let_def)
qed

lemma supervise_simps [simp]: "ss_stNum (supervise sub st) = ss_stNum st" "ss_sqNum (supervise sub st) = ss_sqNum st"
  "ss_tatl (supervise sub st) = ss_tatl st" "ss_arrival (supervise sub st) = ss_arrival st"
  by (simp_all add: supervise_def)

definition seen_before :: "PublisherConfig \<Rightarrow> (Message \<times> int) option \<Rightarrow> subscription \<Rightarrow> bool" where
  "seen_before cfg prev sub =
     (case prev of None \<Rightarrow> sub_states sub (pc_GoCbRef cfg) = None | Some (a, t) \<Rightarrow> saw a t sub \<and> GoCbRef a = pc_GoCbRef cfg)"

definition in_turn :: "(Message \<times> int) option \<Rightarrow> Message \<times> bool \<Rightarrow> bool" where
  "in_turn prev x = (case prev of None \<Rightarrow> \<not> snd x | Some (a, t) \<Rightarrow> follows a (fst x) (snd x))"

lemma sub_frame_wire:
  assumes w: "wire_msg cfg m" and "match (sub_f sub) m" and "\<not> sub_stopped sub" and prev: "seen_before cfg prev sub" "in_turn prev (m, r)"
  shows "\<exists>m' sub'. sub_frame (goose_frame cfg m) now sub = (Some (m', verdict r (overdue prev now)), sub')
    \<and> Values m' = Values m \<and> StNum m' = StNum m \<and> SqNum m' = SqNum m
    \<and> seen_before cfg (Some (m, now)) sub' \<and> sub_f sub' = sub_f sub \<and> \<not> sub_stopped sub'"
proof -
  have w: "list_all (value_fits 0) (Values m)" "unat (NumDatSetEntries m) = length (Values m)"
    "length (goose_Marshal m) \<le> MaxPayload" "GoCbRef m = pc_GoCbRef cfg" using assms(1) by (auto simp: wire_msg_def)
  have "goose_ok m"
    using w goose_Marshal_length [of m] by (simp add: goose_ok_def goose_headerLen_def MaxPayload_def)
  then have p: "goose_Parse (goose_Marshal m) = Inr (m\<lparr>T := wire_time (T m) (timeQuality m), TimeQuality := Some (timeQuality m)\<rparr>)"
    by (rule goose_Parse_Marshal)
  have mt: "match (sub_f sub) (m\<lparr>T := t, TimeQuality := q\<rparr>)" for t q using assms(2) by (auto simp: match_def split: if_splits)
  show ?thesis
  proof (cases prev)
    case None
    then show ?thesis using prev p w(2,4) assms(3) mt
      by (simp add: sub_frame_def goose_frame_def Let_def saw_def seen_before_def in_turn_def verdict_def overdue_def time_to_live_def)
  next
    case (Some x)
    obtain a u where x: "x = (a, u)" by force
    then obtain st where st: "sub_states sub (pc_GoCbRef cfg) = Some st" "ss_stNum st = StNum a" "ss_sqNum st = SqNum a"
      "ss_tatl st = time_to_live a" "ss_arrival st = u" "follows a m r"
      using prev Some by (auto simp: saw_def seen_before_def in_turn_def)
    have "follows a (m\<lparr>T := t, TimeQuality := q\<rparr>) r" for t q using st(6) by (simp add: follows_def)
    from seq_check_follows [OF this st(2-5)] show ?thesis
      using p w(2,4) assms(3) mt st(1) by (simp add: sub_frame_def goose_frame_def Let_def saw_def seen_before_def time_to_live_def Some x)
  qed
qed

lemma sub_run_wire:
  assumes "list_all (\<lambda>x. wire_msg cfg (fst x)) xs" and "successively (\<lambda>x y. follows (fst x) (fst y) (snd y)) xs" and "length ts = length xs"
    and "\<And>x. x \<in> set xs \<Longrightarrow> match (sub_f sub) (fst x)" and "\<not> sub_stopped sub"
    and "seen_before cfg prev sub" and "xs \<noteq> [] \<longrightarrow> in_turn prev (hd xs)"
  shows "\<exists>outs sub'. sub_run (zip (map (\<lambda>x. goose_frame cfg (fst x)) xs) ts) sub = (outs, sub')
    \<and> map (\<lambda>x. Values (fst x)) outs = map (\<lambda>x. Values (fst x)) xs \<and> map snd outs = verdicts prev xs ts"
  using assms
proof (induction xs arbitrary: ts sub prev)
  case (Cons x xs)
  obtain m r where x: "x = (m, r)" by force
  obtain t ts' where ts: "ts = t # ts'" "length ts' = length xs" using Cons.prems(3) by (cases ts) auto
  have w: "wire_msg cfg m" "list_all (\<lambda>x. wire_msg cfg (fst x)) xs" "match (sub_f sub) m" using Cons.prems(1) Cons.prems(4) [of x] x by auto
  from sub_frame_wire [OF w(1,3) Cons.prems(5,6), of r t] Cons.prems(7) obtain m' sub1
    where one: "sub_frame (goose_frame cfg m) t sub = (Some (m', verdict r (overdue prev t)), sub1)" "Values m' = Values m"
      "seen_before cfg (Some (m, t)) sub1" "sub_f sub1 = sub_f sub" "\<not> sub_stopped sub1" by (auto simp: x)
  have f: "successively (\<lambda>x y. follows (fst x) (fst y) (snd y)) xs" "xs \<noteq> [] \<longrightarrow> in_turn (Some (m, t)) (hd xs)"
    using Cons.prems(2) by (auto simp: successively_Cons x in_turn_def)
  have "match (sub_f sub1) (fst y)" if "y \<in> set xs" for y using Cons.prems(4) [of y] that one(4) by simp
  from Cons.IH [OF w(2) f(1) ts(2) this one(5,3) f(2)] obtain outs sub'
    where "sub_run (zip (map (\<lambda>x. goose_frame cfg (fst x)) xs) ts') sub1 = (outs, sub')"
      "map (\<lambda>x. Values (fst x)) outs = map (\<lambda>x. Values (fst x)) xs" "map snd outs = verdicts (Some (m, t)) xs ts'" by blast
  with one show ?case by (simp add: ts x)
qed simp

section \<open>Supervision\<close>

text \<open>A later message on the same control block starts a new generation, which is never an older one's.\<close>

lemma supervise_gen: "ss_gen st \<le> ss_gen (supervise sub st)"
  by (simp add: supervise_def)

lemma sub_frame_gen_mono:
  assumes "sub_frame fr now sub = (out, sub')" and "sub_states sub ref = Some st"
  shows "\<exists>st'. sub_states sub' ref = Some st' \<and> ss_gen st \<le> ss_gen st'"
  using assms supervise_gen [of _ sub]
  by (auto simp: sub_frame_def Let_def supervise_def split: if_splits sum.splits option.splits)

section \<open>Properties\<close>

text \<open>(C15) Publisher and subscriber agree: over a lossless, order-preserving network and an interface that accepts every frame,
  whatever a publisher does (publications, refreshes, retransmissions interleaved in any way, changes of its flags, closing), a
  subscriber to its control block gets every message with its values, and what it reports is exact: never a regression of stNum nor
  an entry mismatch, across the wrap-around of both counters; a sequence gap exactly for the frames with which \<open>Refresh\<close> repeats a
  state; stale exactly for a message that comes later than the one before it allowed to live.\<close>

theorem goose_no_anomaly:
  assumes "lossless_run cfg p rs" and "length ts = length (p_wire p)"
    and "f_AppID f \<in> {0, pc_AppID (p_cfg p)}" and "f_GoCbRef f \<in> {[], pc_GoCbRef (p_cfg p)}"
  shows "\<exists>ms outs sub'. p_wire p = map (goose_frame (p_cfg p)) ms \<and> length rs = length ms
    \<and> sub_run (zip (p_wire p) ts) (Subscribe f supervised) = (outs, sub')
    \<and> map (\<lambda>(m, a). Values m) outs = map Values ms
    \<and> map (\<lambda>(m, a). a) outs = verdicts None (zip ms rs) ts"
proof -
  obtain xs where xs: "announced p xs" "map snd xs = rs" using run_announced [OF assms(1)] by blast
  then have w: "p_wire p = map (\<lambda>x. goose_frame (p_cfg p) (fst x)) xs" "list_all (\<lambda>x. wire_msg (p_cfg p) (fst x)) xs"
    "successively (\<lambda>x y. follows (fst x) (fst y) (snd y)) xs" "xs \<noteq> [] \<longrightarrow> \<not> snd (hd xs)"
    by (simp_all add: announced_def)
  have "match f (fst x)" if "x \<in> set xs" for x using w(2) that assms(3,4) by (auto simp: list_all_iff wire_msg_def match_def)
  then obtain outs sub' where "sub_run (zip (p_wire p) ts) (Subscribe f supervised) = (outs, sub')"
    "map (\<lambda>x. Values (fst x)) outs = map (\<lambda>x. Values (fst x)) xs" "map snd outs = verdicts None xs ts"
    using sub_run_wire [OF w(2,3), of ts "Subscribe f supervised" None] assms(2) w(1,4)
    by (auto simp: Subscribe_def seen_before_def in_turn_def)
  moreover have "xs = zip (map fst xs) rs" unfolding xs(2) [symmetric] by (simp only: zip_map_fst_snd)
  ultimately show ?thesis using w(1) xs(2)
    by (intro exI [of _ "map fst xs"] exI [of _ outs] exI [of _ sub']) (auto simp: case_prod_unfold comp_def)
qed

text \<open>Supervision reports a lost publisher and never a live one: a timer started when a
  message arrived does not report expiry once a later message of the same control block has
  restarted the supervision, nor after the subscription is stopped, and the timer of the last
  message does.\<close>

theorem goose_supervision:
  assumes "sub_frame fr now sub = (Some (m, a), sub')" and "sub_supervised sub" and "TimeAllowedToLive m \<noteq> 0"
    and "sub_states sub (GoCbRef m) = Some st"
  shows "\<not> timer_expires (GoCbRef m) (ss_gen st) sub' \<and> timer_expires (GoCbRef m) (ss_gen st + 1) sub'
    \<and> \<not> timer_expires (GoCbRef m) (ss_gen st + 1) (sub_stop sub')"
proof -
  have "unat (TimeAllowedToLive m) \<noteq> 0" using assms(3) by (simp add: unat_eq_zero)
  then have "0 < int (unat (TimeAllowedToLive m))" by linarith
  then have "0 < int (unat (TimeAllowedToLive m)) * Millisecond" by (rule mult_pos_pos) (simp add: Millisecond_def)
  then show ?thesis
    using assms
    by (auto simp: sub_frame_def timer_expires_def sub_stop_def supervise_def Let_def
        split: if_splits sum.splits option.splits)
qed


text \<open>A refresh is not a continuation for the subscriber: a message that repeats the state
  number with sequence number 0, which is what \<^verbatim>\<open>Refresh\<close> sends after its first state, is
  flagged by the library's own subscriber as a sequence gap.\<close>

theorem goose_refresh_gap:
  assumes "ss_stNum st = StNum m" and "SqNum m = 0"
  shows "SqNumGap (seq_check st m now mismatch)"
proof -
  have "(if ss_sqNum st + 1 = 0 then 1 else ss_sqNum st + 1) \<noteq> (0 :: 32 word)" by simp
  then show ?thesis using assms by (simp add: seq_check_def Let_def)
qed


theorem goose_refresh_gap_witness:
  "SqNumGap (seq_check \<lparr>ss_stNum = 1, ss_sqNum = 4, ss_tatl = 0, ss_arrival = 0, ss_timer = None, ss_gen = 0\<rparr> sample_message 9 False)"
  by (rule goose_refresh_gap) (simp_all add: sample_message_def)

lemma sample_refreshed:
  assumes "NewPublisher sample_cfg = Inr p0" "p1 = snd (Publish [NewBool True] \<lparr>t_Unix = 0, t_Nanosecond = 0\<rparr> True p0)" "p_wire p1 = [fr]"
  shows "\<exists>m2. p_wire (snd (Refresh [NewBool True] now True p1)) = p_wire p1 @ [m2]
    \<and> p_cfg (snd (Refresh [NewBool True] now True p1)) = sample_cfg \<and> p_stNum p1 \<noteq> 0"
proof -
  have p0: "p_cfg p0 = sample_cfg" "p_wire p0 = []" "\<not> p_closed p0" using assms(1) by (auto simp: NewPublisher_def sample_cfg_def Let_def split: if_splits)
  have inv: "pub_inv p0" "pub_inv p1" using pub_inv_New [OF assms(1)] pub_step_inv [OF pub_step.publish] unfolding assms(2) by blast+
  obtain r where pl: "publishLocked [NewBool True] (next_stNum (p_stNum p0)) True \<lparr>t_Unix = 0, t_Nanosecond = 0\<rparr> True p0 = (r, p1)"
    using assms(2) p0(3) by (simp add: Publish_def) (metis prod.collapse)
  have p1: "p_cfg p1 = sample_cfg" "\<not> p_closed p1" "p_stNum p1 \<noteq> 0" using publishLocked_effect [OF inv(1) pl] p0 assms(3) by auto
  have "length (concat (map mms_octets [NewBool True])) = 3" by code_simp
  then have small: "length (goose_Marshal (widest (new_message p1 [NewBool True] n t ttl))) \<le> MaxPayload" for n t ttl
    using goose_Marshal_bound [of "widest (new_message p1 [NewBool True] n t ttl)"] p1(1)
    by (simp add: widest_def new_message_def sample_cfg_def MaxPayload_def)
  obtain r2 p2 where rl: "publishLocked [NewBool True] (p_stNum p1) False now True p1 = (r2, p2)" by force
  obtain ttl where "tatl p1 0 = Inr ttl" using tatl_ok [OF pub_invD(1) [OF inv(2)]] by blast
  then have "r2 \<noteq> Inl (Err ErrFrameTooLarge)" using rl small by (simp add: publishLocked_def Let_def goose_send_frame leD split: if_splits) blast
  then show ?thesis using publishLocked_effect [OF inv(2) rl] rl p1 by (auto simp: Refresh_def)
qed

text \<open>A state announced and refreshed: both messages arrive, the second late and marked as a gap.\<close>

theorem goose_no_anomaly_witness:
  "\<exists>(p :: Publisher) ms outs sub'. lossless_run sample_cfg p [False, True] \<and> p_wire p = map (goose_frame (p_cfg p)) ms
    \<and> sub_run (zip (p_wire p) [100, 10 ^ 15]) (Subscribe \<lparr>f_AppID = 0x1000, f_GoCbRef = []\<rparr> True) = (outs, sub')
    \<and> map (\<lambda>(m, a). Values m) outs = map Values ms \<and> map (\<lambda>(m, a). a) outs = verdicts None (zip ms [False, True]) [100, 10 ^ 15]
    \<and> map (\<lambda>(m, a). SqNumGap a) outs = [False, True]"
proof -
  obtain p0 p1 m where p: "NewPublisher sample_cfg = Inr p0" "p1 = snd (Publish [NewBool True] \<lparr>t_Unix = 0, t_Nanosecond = 0\<rparr> True p0)"
    "p_wire p1 = [goose_frame sample_cfg m]" "p_cfg p1 = sample_cfg" using sample_published by blast
  have v: "list_all (value_fits 0) [NewBool True]"
  proof -
    have "list_all value_ok [NewBool True]" "list_all (\<lambda>v. value_depth v \<le> maxValueDepth) [NewBool True]"
      "list_all (\<lambda>v. length (mms_content v) < 10) [NewBool True]" by code_simp+
    then show ?thesis by (auto simp: value_fits_def)
  qed
  have p0: "p_wire p0 = []" "p_cfg p0 = sample_cfg" using p(1) by (auto simp: NewPublisher_def sample_cfg_def Let_def split: if_splits)
  have 1: "lossless_run sample_cfg p1 [False]"
    using lossless_run.publish [OF lossless_run.start [OF p(1)] v p(2)] p0 p(3) by simp
  define p2 where "p2 = snd (Refresh [NewBool True] \<lparr>t_Unix = 1, t_Nanosecond = 0\<rparr> True p1)"
  obtain m2 where p2: "p_wire p2 = p_wire p1 @ [m2]" "p_cfg p2 = sample_cfg" "p_stNum p1 \<noteq> 0"
    using sample_refreshed [OF p(1-3)] unfolding p2_def by blast
  have r: "lossless_run sample_cfg p2 [False, True]" using lossless_run.refresh [OF 1 v p2_def] p2 by simp
  have len: "length [100, 10 ^ 15 :: int] = length (p_wire p2)" using p2(1) p(3) by simp
  let ?f = "\<lparr>f_AppID = 0x1000, f_GoCbRef = []\<rparr>"
  have f: "f_AppID ?f \<in> {0, pc_AppID (p_cfg p2)}" "f_GoCbRef ?f \<in> {[], pc_GoCbRef (p_cfg p2)}" using p2(2) by (simp_all add: sample_cfg_def)
  obtain ms outs sub' where g: "p_wire p2 = map (goose_frame (p_cfg p2)) ms" "length [False, True] = length ms"
    "sub_run (zip (p_wire p2) [100, 10 ^ 15]) (Subscribe ?f True) = (outs, sub')"
    "map (\<lambda>(m, a). Values m) outs = map Values ms" "map (\<lambda>(m, a). a) outs = verdicts None (zip ms [False, True]) [100, 10 ^ 15]"
    using goose_no_anomaly [OF r len f, of True] by blast
  obtain m1 m2' where ms: "ms = [m1, m2']" using g(2) by (cases ms rule: remdups_adj.cases) auto
  have "map (\<lambda>(m, a). SqNumGap a) outs = map SqNumGap (map (\<lambda>(m, a). a) outs)" by (simp add: case_prod_unfold)
  also have "\<dots> = [False, True]" unfolding g(5) ms by (simp add: verdict_def)
  finally show ?thesis using r g(1,3-5)
    by (intro exI [of _ p2] exI [of _ ms] exI [of _ outs] exI [of _ sub'] conjI)
qed

theorem goose_supervision_witness:
  "\<exists>m a sub'. sub_frame (goose_frame sample_cfg sample_message) 0
       ((Subscribe \<lparr>f_AppID = 0, f_GoCbRef = []\<rparr> True)\<lparr>sub_states := [[65, 66] \<mapsto>
          \<lparr>ss_stNum = 1, ss_sqNum = 4, ss_tatl = 0, ss_arrival = 0, ss_timer = Some 7, ss_gen = 7\<rparr>]\<rparr>) = (Some (m, a), sub')
    \<and> \<not> timer_expires [65, 66] 7 sub' \<and> timer_expires [65, 66] 8 sub'"
proof -
  let ?st = "\<lparr>ss_stNum = 1, ss_sqNum = 4, ss_tatl = 0, ss_arrival = 0, ss_timer = Some 7, ss_gen = 7\<rparr>"
  let ?sub = "(Subscribe \<lparr>f_AppID = 0, f_GoCbRef = []\<rparr> True)\<lparr>sub_states := [[65, 66] \<mapsto> ?st]\<rparr>"
  let ?m = "sample_message\<lparr>T := wire_time (T sample_message) (timeQuality sample_message), TimeQuality := Some (timeQuality sample_message)\<rparr>"
  have m: "GoCbRef ?m = [65, 66]" "TimeAllowedToLive ?m = 2000" by (simp_all add: sample_message_def)
  obtain a sub' where f: "sub_frame (goose_frame sample_cfg sample_message) 0 ?sub = (Some (?m, a), sub')"
    using goose_Parse_Marshal [OF sample_message_ok] m(1)
    by (simp add: sub_frame_def goose_frame_def Subscribe_def match_def Let_def)
  show ?thesis using goose_supervision [OF f, of ?st] f m by (auto simp: Subscribe_def)
qed

end
