(* ===== verification/Sv.thy ===== *)
theory Sv
  imports Goose
begin

text \<open>
  Sampled Values (\<^verbatim>\<open>sv/sv.go\<close>, \<^verbatim>\<open>sv/le.go\<close>, \<^verbatim>\<open>sv/publisher.go\<close>): the savPdu codec,
  the 9-2LE dataset, and the publisher's sample clock.
\<close>

section \<open>ASDUs\<close>

definition savPduTag :: Tag where "savPduTag = ApplicationConstructed 0"

text \<open>A zero \<^verbatim>\<open>RefrTm\<close> is \<open>None\<close>; \<^verbatim>\<open>GmIdentity\<close> is an array of eight octets.\<close>

record ASDU =
  SvID :: "byte list"
  a_DatSet :: "byte list"
  SmpCnt :: "16 word"
  a_ConfRev :: "32 word"
  RefrTm :: "Time option"
  RefrTmQuality :: "byte option"
  SmpSynch :: byte
  SmpRate :: "16 word"
  SmpMod :: byte
  HasSmpMod :: bool
  GmIdentity :: "byte list"
  HasGmIdentity :: bool
  Sample :: "byte list"

record PDU =
  pdu_AppID :: "16 word"
  ASDUs :: "ASDU list"

definition asdu_element :: "ASDU \<Rightarrow> Element" where
  "asdu_element a =
     (let el = Cons_el TagSequence [Some (Prim (ContextPrimitive 0) (SvID a))];
          el = (if a_DatSet a \<noteq> [] then Add el [Some (Prim (ContextPrimitive 1) (a_DatSet a))] else el);
          el = Add el [Some (Prim (ContextPrimitive 2) (u16_bytes (SmpCnt a)))];
          el = Add el [Some (Prim (ContextPrimitive 3) (u32_bytes (a_ConfRev a)))];
          el = (case RefrTm a of
                  None \<Rightarrow> el
                | Some t \<Rightarrow>
                    let q = (case RefrTmQuality a of None \<Rightarrow> DefaultTimeQuality | Some q \<Rightarrow> q)
                    in Add el [Some (Prim (ContextPrimitive 4) (value_Bytes (NewUTCTime t q)))]);
          el = Add el [Some (Prim (ContextPrimitive 5) [SmpSynch a])];
          el = (if SmpRate a \<noteq> 0 then Add el [Some (Prim (ContextPrimitive 6) (u16_bytes (SmpRate a)))] else el);
          el = Add el [Some (Prim (ContextPrimitive 7) (Sample a))];
          el = (if HasSmpMod a then Add el [Some (Prim (ContextPrimitive 8) [0, SmpMod a])] else el)
      in if HasGmIdentity a then Add el [Some (Prim (ContextPrimitive 9) (GmIdentity a))] else el)"

definition sav_pdu :: "PDU \<Rightarrow> Element" where
  "sav_pdu p =
     (let seqASDU = fold (\<lambda>a el. Add el [Some (asdu_element a)]) (ASDUs p) (Cons_el (ContextConstructed 2) [])
      in Cons_el savPduTag [Some (UintElem (ContextPrimitive 0) (length (ASDUs p))), Some seqASDU])"

definition sv_Marshal :: "PDU \<Rightarrow> byte list" where
  "sv_Marshal p =
     (let sav = sav_pdu p; len = goose_headerLen + Size sav
      in Append sav (u16_bytes (pdu_AppID p) @ [byte_of (len div 2 ^ 8), byte_of len, 0, 0, 0, 0]))"

definition beUint16 :: "byte list \<Rightarrow> 16 word" where
  "beUint16 b =
     (if length b = 0 then 0
      else if length b = 1 then ucast (b ! 0)
      else push_bit 8 (ucast (b ! (length b - 2))) OR ucast (b ! (length b - 1)))"

definition parseASDU :: "byte list \<Rightarrow> (mms_error, ASDU) result" where
  "parseASDU content =
     (let d = NewDecoder content in
      dbind (lift_dec (Expect (ContextPrimitive 0) d)) (\<lambda>svID d.
      let (o1, d) = Optional (ContextPrimitive 1) d in
      dbind (lift_dec (Expect (ContextPrimitive 2) d)) (\<lambda>smpCnt d.
      dbind (lift_dec (Expect (ContextPrimitive 3) d)) (\<lambda>confRev d.
      let (o4, d) = Optional (ContextPrimitive 4) d;
          (o5, d) = Optional (ContextPrimitive 5) d;
          (o6, d) = Optional (ContextPrimitive 6) d in
      dbind (lift_dec (Expect (ContextPrimitive 7) d)) (\<lambda>sample d.
      let (o8, d) = Optional (ContextPrimitive 8) d;
          (o9, d) = Optional (ContextPrimitive 9) d;
          tv = (case optional_ignoring o4 of
                  None \<Rightarrow> None
                | Some b \<Rightarrow> (case NewUTCTimeRaw b of Inl _ \<Rightarrow> None | Inr v \<Rightarrow> Some v));
          a = \<lparr>SvID = svID, a_DatSet = (case optional_ignoring o1 of None \<Rightarrow> [] | Some b \<Rightarrow> b),
               SmpCnt = beUint16 smpCnt,
               a_ConfRev = (case DecodeUint confRev of Inl _ \<Rightarrow> 0 | Inr n \<Rightarrow> word_of_nat n),
               RefrTm = (case tv of None \<Rightarrow> None | Some v \<Rightarrow> value_UTCTime v),
               RefrTmQuality = map_option TimeQualityFlags tv,
               SmpSynch = (case optional_ignoring o5 of None \<Rightarrow> 0 | Some b \<Rightarrow> if b = [] then 0 else last b),
               SmpRate = (case optional_ignoring o6 of None \<Rightarrow> 0 | Some b \<Rightarrow> beUint16 b),
               SmpMod = (case optional_ignoring o8 of None \<Rightarrow> 0 | Some b \<Rightarrow> ucast (beUint16 b)),
               HasSmpMod = (optional_ignoring o8 \<noteq> None),
               GmIdentity = replicate 8 0, HasGmIdentity = False, Sample = sample\<rparr>
      in case optional_ignoring o9 of
           None \<Rightarrow> Inr a
         | Some b \<Rightarrow>
             if length b \<noteq> 8 then Inl (Err (Asn1 ErrBadLength))
             else Inr (a\<lparr>GmIdentity := b, HasGmIdentity := True\<rparr>))))))"

function parseASDUs :: "Decoder \<Rightarrow> ASDU list \<Rightarrow> (mms_error, ASDU list) result" where
  "parseASDUs sd acc =
     (if \<not> More sd then Inr acc
      else case Expect TagSequence sd of
        (Inl e, _) \<Rightarrow> lift_ber (Inl e)
      | (Inr content, sd') \<Rightarrow> rbind (parseASDU content) (\<lambda>a. parseASDUs sd' (acc @ [a])))"
  by pat_completeness auto

lemma Expect_shrinks:
  "More d \<Longrightarrow> Expect t d = (Inr c, d') \<Longrightarrow> length (d_data d') - d_off d' < length (d_data d) - d_off d"
  by (auto simp: Expect_def split: prod.splits sum.splits if_splits dest: ReadTLV_shrinks)

termination parseASDUs
  by (relation "measure (\<lambda>(d, acc). length (d_data d) - d_off d)") (auto dest: Expect_shrinks [OF _ sym])

declare parseASDUs.simps [simp del]

definition sv_Parse :: "byte list \<Rightarrow> (mms_error, PDU) result" where
  "sv_Parse apdu =
     (if length apdu < goose_headerLen then Inl (Err (Asn1 ErrTruncated))
      else
        rbind (go_slice apdu 0 2) (\<lambda>a.
        rbind (go_slice apdu 2 4) (\<lambda>l.
        let len = be_nat l in
        if len < goose_headerLen \<or> len > length apdu then Inl (Err (Asn1 ErrBadLength))
        else
          rbind (go_slice apdu goose_headerLen len) (\<lambda>body.
          dbind (lift_dec (Expect savPduTag (NewDecoder body))) (\<lambda>content _.
          dbind (lift_dec (Expect (ContextPrimitive 0) (NewDecoder content))) (\<lambda>_ d.
          dbind (lift_dec (Expect (ContextConstructed 2) d)) (\<lambda>seq _.
          rbind (parseASDUs (NewDecoder seq) []) (\<lambda>asdus.
          Inr \<lparr>pdu_AppID = u16_read a, ASDUs = asdus\<rparr>))))))))"

section \<open>Round trip\<close>

definition asdu_ok :: "ASDU \<Rightarrow> bool" where
  "asdu_ok a = (length (GmIdentity a) = 8 \<and> (\<not> HasGmIdentity a \<longrightarrow> GmIdentity a = replicate 8 0)
     \<and> (\<not> HasSmpMod a \<longrightarrow> SmpMod a = 0))"

definition refrTm_quality :: "ASDU \<Rightarrow> byte" where
  "refrTm_quality a = (case RefrTmQuality a of None \<Rightarrow> DefaultTimeQuality | Some q \<Rightarrow> q)"

text \<open>An ASDU as its receiver sees it: the reference time at the resolution of the wire.\<close>

definition wire_asdu :: "ASDU \<Rightarrow> ASDU" where
  "wire_asdu a =
     a\<lparr>RefrTm := map_option (\<lambda>t. wire_time t (refrTm_quality a)) (RefrTm a),
       RefrTmQuality := (if RefrTm a = None then None else Some (refrTm_quality a))\<rparr>"

abbreviation opt_tlv :: "bool \<Rightarrow> Tag \<Rightarrow> byte list \<Rightarrow> byte list" where
  "opt_tlv c t x \<equiv> (if c then tlv t x else [])"

definition asdu_fields :: "ASDU \<Rightarrow> byte list" where
  "asdu_fields a =
     tlv (ContextPrimitive 0) (SvID a) @ opt_tlv (a_DatSet a \<noteq> []) (ContextPrimitive 1) (a_DatSet a) @
     tlv (ContextPrimitive 2) (u16_bytes (SmpCnt a)) @ tlv (ContextPrimitive 3) (u32_bytes (a_ConfRev a)) @
     opt_tlv (RefrTm a \<noteq> None) (ContextPrimitive 4) (value_Bytes (NewUTCTime (the (RefrTm a)) (refrTm_quality a))) @
     tlv (ContextPrimitive 5) [SmpSynch a] @ opt_tlv (SmpRate a \<noteq> 0) (ContextPrimitive 6) (u16_bytes (SmpRate a)) @
     tlv (ContextPrimitive 7) (Sample a) @ opt_tlv (HasSmpMod a) (ContextPrimitive 8) [0, SmpMod a] @
     opt_tlv (HasGmIdentity a) (ContextPrimitive 9) (GmIdentity a)"

lemma TagSequence_simps: "Number TagSequence = 16" "TagSequence\<lparr>Constructed := True\<rparr> = TagSequence"
  by (simp_all add: tag_defs)

lemma asdu_element_el: "el_ok (asdu_element a)" "Encode (asdu_element a) = tlv TagSequence (asdu_fields a)"
  by (cases "RefrTm a"; simp add: asdu_element_def Let_def Add_Cons_el map_filter_def ctx_tag_simps TagSequence_simps
      encode_simps asdu_fields_def refrTm_quality_def)+

lemma optional_at_cond [codec_simps]:
  assumes "tag_ok t" "length x < 2 ^ 32" "tag_ok u" "u \<noteq> t"
  shows "Optional t (at_pos pre (opt_tlv c t x @ tlv u y @ r))
    = (if c then Present x else Absent, at_pos (pre @ opt_tlv c t x) (tlv u y @ r))"
  using assms read_at(3) [of t x pre "tlv u y @ r"] optional_at_other(1) [of u t pre y r] by simp

lemma optional_at_last [codec_simps]:
  assumes "tag_ok t" "length x < 2 ^ 32"
  shows "Optional t (at_pos pre (opt_tlv c t x)) = (if c then Present x else Absent, at_pos (pre @ opt_tlv c t x) [])"
  using assms read_at(6) [of t x pre] by (simp add: codec_simps)

lemma optional_at_cond2 [codec_simps]:
  assumes "tag_ok t" "length x < 2 ^ 32" "tag_ok u" "u \<noteq> t"
  shows "Optional t (at_pos pre (opt_tlv c t x @ opt_tlv c' u y))
    = (if c then Present x else Absent, at_pos (pre @ opt_tlv c t x) (opt_tlv c' u y))"
  using assms read_at(3) [of t x pre "opt_tlv c' u y"] optional_at_other(2) [of u t pre y] by (simp add: codec_simps)

lemma beUint16_bytes [simp]: "beUint16 (u16_bytes w) = w"
  using u16_read_bytes [of w] by (simp add: beUint16_def u16_read_def u16_bytes_def)

lemma beUint16_pair [simp]: "ucast (beUint16 [0, x]) = (x :: byte)"
  unfolding beUint16_def by simp (rule bit_word_eqI, auto simp: bit_simps)

lemma ctx_tag_distinct: "ContextPrimitive m = ContextPrimitive n \<longleftrightarrow> m = n"
  by (simp add: tag_defs)

lemma DecodeUint_u32: "DecodeUint (u32_bytes w) = Inr (unat w)"
proof -
  have "unat w < 2 ^ 32" using unsigned_less [of w] by simp
  then have n: "be_nat (be_bytes 4 (unat w)) = unat w" by (intro be_nat_be_bytes_small) simp
  have "foldl (\<lambda>v b. (v * 2 ^ 8) mod 2 ^ 64 + unat b) 0 bs = be_nat bs" if "be_nat bs < 2 ^ 64" for bs
    using that
  proof (induction bs rule: rev_induct)
    case (snoc b bs)
    then show ?case by simp
  qed simp
  moreover have "u32_bytes w \<noteq> []" using length_be_bytes [of 4 "unat w"] unfolding u32_bytes_def by (cases "be32 (unat w)") auto
  ultimately show ?thesis using n \<open>unat w < 2 ^ 32\<close> 
    by (simp add: DecodeUint_def u32_bytes_def del: be_bytes.simps)
qed

lemma parseASDU_fields:
  assumes "asdu_ok a" and "length (asdu_fields a) < 2 ^ 32"
  shows "parseASDU (asdu_fields a) = Inr (wire_asdu a)"
proof -
  have len: "length (SvID a) < 2 ^ 32" "length (a_DatSet a) < 2 ^ 32" "length (Sample a) < 2 ^ 32"
    using assms(2) length_tlv_le(2) [of "SvID a" "ContextPrimitive 0"] length_tlv_le(2) [of "a_DatSet a" "ContextPrimitive 1"]
      length_tlv_le(2) [of "Sample a" "ContextPrimitive 7"]
    unfolding asdu_fields_def length_append by (simp_all split: if_splits)
  have l8: "length (value_Bytes (NewUTCTime t q)) < 2 ^ 32" for t q by (simp add: NewUTCTime_raw)
  have l4: "length (u32_bytes w) < 2 ^ 32" for w by (simp add: u32_bytes_def)
  have wt: "value_UTCTime (NewUTCTime t q) = Some (wire_time t q)" for t q
    by (simp add: wire_time_def NewUTCTime_def Let_def split: prod.splits)
  show ?thesis
    using assms(1) len l8 l4
    by (simp add: parseASDU_def Let_def asdu_fields_def NewDecoder_at [of "_ @ _"] codec_simps ctx_tag_distinct
        optional_ignoring_def NewUTCTime_raw wt DecodeUint_u32 asdu_ok_def wire_asdu_def)
      (auto intro: ASDU.equality)
qed


definition asdu_fits :: "ASDU \<Rightarrow> bool" where
  "asdu_fits a = (asdu_ok a \<and> length (asdu_fields a) < 2 ^ 32)"

text \<open>A sequence of ASDUs is read back by the same law as a sequence of values.\<close>

definition readASDU :: "Decoder \<Rightarrow> (mms_error, ASDU) result \<times> Decoder" where
  "readASDU d = (case Expect TagSequence d of (r, d') \<Rightarrow> (rbind (lift_ber r) parseASDU, d'))"


lemma lift_ber_Inl: "lift_ber (Inl e) = Inl (map_failure Asn1 e)"
  by (cases e) simp_all

lemma readASDU_fields:
  assumes "asdu_fits a" and "unread d = Encode (asdu_element a) @ r"
  shows "readASDU d = (Inr (wire_asdu a), adv d (length (Encode (asdu_element a))))"
proof -
  have ok: "asdu_ok a" "length (asdu_fields a) < 2 ^ 32" using assms(1) by (simp_all add: asdu_fits_def)
  have "unread d = tlv TagSequence (asdu_fields a) @ r" using assms(2) by (simp add: asdu_element_el)
  from Expect_tlv [OF this] ok show ?thesis
    by (simp add: readASDU_def parseASDU_fields asdu_element_el)
qed

interpretation asdu_codec: tlv_view "\<lambda>a. Encode (asdu_element a)" wire_asdu readASDU asdu_fits
proof
  show "Encode (asdu_element a) \<noteq> []" if "asdu_fits a" for a by (simp add: asdu_element_el)
qed (rule readASDU_fields)

lemma parseASDUs_octets:
  assumes "list_all asdu_fits as"
  shows "parseASDUs (NewDecoder (concat (map (\<lambda>a. Encode (asdu_element a)) as))) [] = Inr (map wire_asdu as)"
proof -
  have "parseASDUs (NewDecoder (concat (map (\<lambda>a. Encode (asdu_element a)) as))) [] = Inr ([] @ map wire_asdu as)"
  proof (rule asdu_codec.read_view_sequence [where loop = parseASDUs])
    show "parseASDUs d acc = (if \<not> More d then Inr acc
        else rbind (fst (readASDU d)) (\<lambda>a. parseASDUs (snd (readASDU d)) (acc @ [a])))" for d acc
      by (subst parseASDUs.simps) (auto simp: readASDU_def lift_ber_Inl split: prod.splits sum.splits)
  qed (use assms in simp_all)
  then show ?thesis by simp
qed

text \<open>A PDU as \<^verbatim>\<open>Marshal\<close> can carry it: the header's length field is 16 bits wide.\<close>

definition pdu_ok :: "PDU \<Rightarrow> bool" where
  "pdu_ok p = (list_all asdu_ok (ASDUs p) \<and> goose_headerLen + Size (sav_pdu p) < 2 ^ 16)"

definition seq_fields :: "PDU \<Rightarrow> byte list" where
  "seq_fields p = concat (map (\<lambda>a. Encode (asdu_element a)) (ASDUs p))"

definition sav_fields :: "PDU \<Rightarrow> byte list" where
  "sav_fields p = tlv (ContextPrimitive 0) (uint_octets (length (ASDUs p))) @ tlv (ContextConstructed 2) (seq_fields p)"

lemma savPduTag_simps: "tag_ok savPduTag" "Number savPduTag = 0" "savPduTag\<lparr>Constructed := True\<rparr> = savPduTag"
  by (simp_all add: savPduTag_def) (simp_all add: tag_defs)

lemma sav_pdu_el: "el_ok (sav_pdu p)" "Encode (sav_pdu p) = tlv savPduTag (sav_fields p)"
proof -
  have seq: "fold (\<lambda>a el. Add el [Some (asdu_element a)]) (ASDUs p) (Cons_el (ContextConstructed 2) [])
      = Cons_el (ContextConstructed 2) (map (\<lambda>a. Some (asdu_element a)) (ASDUs p))"
    using fold_Add [of "\<lambda>a. Some (asdu_element a)" "ASDUs p"] by simp
  have mf: "List.map_filter id (map (\<lambda>a. Some (asdu_element a)) as) = map asdu_element as" for as
    using map_filter_Some [of "map asdu_element as"] by (simp add: comp_def)
  have all: "el_ok (Cons_el (ContextConstructed 2) (map (\<lambda>a. Some (asdu_element a)) (ASDUs p)))"
    "Encode (Cons_el (ContextConstructed 2) (map (\<lambda>a. Some (asdu_element a)) (ASDUs p))) = tlv (ContextConstructed 2) (seq_fields p)"
    by (simp_all add: encode_simps ctx_tag_simps mf asdu_element_el(1) list_all_iff seq_fields_def comp_def)
  show "el_ok (sav_pdu p)"
    using all by (simp add: sav_pdu_def Let_def seq UintElem_def savPduTag_simps ctx_tag_simps map_filter_def)
  show "Encode (sav_pdu p) = tlv savPduTag (sav_fields p)"
    using all by (simp add: sav_pdu_def Let_def seq UintElem_def encode_simps savPduTag_simps ctx_tag_simps map_filter_def sav_fields_def)
qed


lemma asdu_fits_of_pdu:
  assumes "list_all asdu_ok as" and "length (concat (map (\<lambda>a. Encode (asdu_element a)) as)) < 2 ^ 32"
  shows "list_all asdu_fits as"
  using assms
proof (induction as)
  case (Cons a as)
  have "length (asdu_fields a) \<le> length (Encode (asdu_element a))"
    using length_tlv_le(2) [of "asdu_fields a" TagSequence] by (simp add: asdu_element_el)
  then show ?case using Cons by (simp add: asdu_fits_def)
qed simp

lemma sv_Parse_Marshal:
  assumes "pdu_ok p"
  shows "sv_Parse (sv_Marshal p) = Inr (p\<lparr>ASDUs := map wire_asdu (ASDUs p)\<rparr>)"
proof -
  define n where "n = goose_headerLen + Size (sav_pdu p)"
  have n: "n < 2 ^ 16" using assms by (simp add: pdu_ok_def n_def)
  have len: "n = 8 + length (tlv savPduTag (sav_fields p))"
    using Size_length [OF sav_pdu_el(1)] sav_pdu_el(2) by (simp add: n_def goose_headerLen_def)
  have marshal: "sv_Marshal p = u16_bytes (pdu_AppID p) @ be16 n @ [0, 0, 0, 0] @ tlv savPduTag (sav_fields p)"
    by (simp add: sv_Marshal_def Let_def Append_dst sav_pdu_el(2) n_def [symmetric] be16_eq)
  have hdr: "be_nat (be16 n) = n" using n by (intro be_nat_be_bytes_small) simp
  have short: "length (sav_fields p) < 2 ^ 16" using length_tlv_le(2) [of "sav_fields p" savPduTag] len n by simp
  have seq: "length (seq_fields p) < 2 ^ 16" "length (uint_octets (length (ASDUs p))) < 2 ^ 16"
    using short length_tlv_le(2) [of "seq_fields p" "ContextConstructed 2"]
      length_tlv_le(2) [of "uint_octets (length (ASDUs p))" "ContextPrimitive 0"]
    unfolding sav_fields_def length_append by linarith+
  then have seq32: "length (seq_fields p) < 2 ^ 32" "length (uint_octets (length (ASDUs p))) < 2 ^ 32"
    "length (sav_fields p) < 2 ^ 32" using short by simp_all
  have "list_all asdu_fits (ASDUs p)"
    using assms seq32(1) by (intro asdu_fits_of_pdu) (simp_all add: pdu_ok_def seq_fields_def)
  then have as: "parseASDUs (NewDecoder (seq_fields p)) [] = Inr (map wire_asdu (ASDUs p))"
    unfolding seq_fields_def by (rule parseASDUs_octets)
  show ?thesis
    using n len hdr seq32 as
    by (simp add: sv_Parse_def marshal goose_headerLen_def NewDecoder_at [of "tlv _ _"] NewDecoder_at [of "_ @ _"]
        sav_fields_def codec_simps savPduTag_simps Let_def)
qed

section \<open>Properties\<close>

text \<open>Sampled values round trip: \<^verbatim>\<open>Parse\<close> reads back every PDU that fits the header's
  16-bit length, each ASDU in order with all its optional fields present or absent as they
  were, the reference time at the resolution of the wire.\<close>

theorem sv_roundtrip:
  assumes "list_all asdu_ok (ASDUs p)" and "goose_headerLen + Size (sav_pdu p) < 2 ^ 16"
  shows "sv_Parse (sv_Marshal p) = Inr (p\<lparr>ASDUs := map wire_asdu (ASDUs p)\<rparr>)"
  using sv_Parse_Marshal [of p] assms by (simp add: pdu_ok_def)

definition sample_asdu :: ASDU where
  "sample_asdu = \<lparr>SvID = [77], a_DatSet = [], SmpCnt = 3999, a_ConfRev = 1, RefrTm = None, RefrTmQuality = None, SmpSynch = 2,
     SmpRate = 80, SmpMod = 1, HasSmpMod = True, GmIdentity = [1, 2, 3, 4, 5, 6, 7, 8], HasGmIdentity = True, Sample = [9, 9, 9]\<rparr>"

theorem sv_roundtrip_witness:
  "sv_Parse (sv_Marshal \<lparr>pdu_AppID = 0x4000, ASDUs = [sample_asdu, sample_asdu]\<rparr>)
    = Inr \<lparr>pdu_AppID = 0x4000, ASDUs = [sample_asdu, sample_asdu]\<rparr>"
proof -
  let ?p = "\<lparr>pdu_AppID = 0x4000, ASDUs = [sample_asdu, sample_asdu]\<rparr>"
  have "list_all asdu_ok (ASDUs ?p)" by code_simp
  moreover have "Size (sav_pdu ?p) < 300" by code_simp
  ultimately show ?thesis
    using sv_roundtrip [of ?p] by (simp add: goose_headerLen_def wire_asdu_def sample_asdu_def)
qed

end
