(* ===== verification/Model.thy ===== *)
theory Model
  imports MmsCodec
begin

text \<open>
  The value types of the IEC 61850 object model (\<^verbatim>\<open>model/quality.go\<close>, \<^verbatim>\<open>model/fc.go\<close>,
  \<^verbatim>\<open>model/reference.go\<close>): the flag words Quality, TrgOps, OptFlds and ReasonCode and
  the double-point position, each carried as an MMS bit string; functional constraints; and
  object references with their translation to and from MMS names. Text is ASCII, which is what
  MMS identifiers and visible strings are made of.
\<close>

unbundle bit_operations_syntax

section \<open>Flag words as bit strings\<close>

text \<open>The loop every \<^verbatim>\<open>Value\<close> method of \<^verbatim>\<open>quality.go\<close> runs: position \<open>i\<close> of the bit
  string is bit \<open>i\<close> of the word.\<close>

fun setFlags :: "'a::len word \<Rightarrow> nat list \<Rightarrow> Value \<Rightarrow> (mms_error, Value) result" where
  "setFlags w [] v = Inr v"
| "setFlags w (i # is) v = rbind (value_SetBit v (int i) (w AND push_bit i 1 \<noteq> 0)) (setFlags w is)"

text \<open>The loop of the \<^verbatim>\<open>FromValue\<close> functions.\<close>

fun getFlags :: "Value \<Rightarrow> nat list \<Rightarrow> 'a::len word \<Rightarrow> (mms_error, 'a word) result" where
  "getFlags v [] w = Inr w"
| "getFlags v (i # is) w = rbind (value_Bit v (int i)) (\<lambda>b. getFlags v is (if b then w OR push_bit i 1 else w))"

text \<open>\<^verbatim>\<open>for i := 0; i < n && i < v.BitLen(); i++\<close>.\<close>

definition upto_BitLen :: "nat \<Rightarrow> Value \<Rightarrow> nat list" where
  "upto_BitLen n v = [0..<nat (min (int n) (value_BitLen v))]"

type_synonym Quality = "16 word"
type_synonym Validity = byte
type_synonym Dbpos = byte
type_synonym TrgOps = byte
type_synonym OptFlds = "16 word"
type_synonym ReasonCode = byte

definition ValidityGood :: Validity where "ValidityGood = 0"
definition ValidityReserved :: Validity where "ValidityReserved = 1"
definition ValidityInvalid :: Validity where "ValidityInvalid = 2"
definition ValidityQuestionable :: Validity where "ValidityQuestionable = 3"

definition Quality_Validity :: "Quality \<Rightarrow> Validity" where
  "Quality_Validity q = ucast (q AND 3)"

definition WithValidity :: "Quality \<Rightarrow> Validity \<Rightarrow> Quality" where
  "WithValidity q v = (q AND NOT 3) OR ucast (v AND 3)"

definition Quality_Is :: "Quality \<Rightarrow> Quality \<Rightarrow> bool" where
  "Quality_Is q m = (q AND m = m)"

definition Quality_Value :: "Quality \<Rightarrow> (mms_error, Value) result" where
  "Quality_Value q = setFlags q [0..<13] (mms_NewBitString 13)"

definition QualityFromValue :: "Value \<Rightarrow> (mms_error, Quality) result" where
  "QualityFromValue v = (let n = (if value_BitLen v > 16 then 16 else value_BitLen v) in getFlags v [0..<nat n] 0)"

definition Dbpos_Value :: "Dbpos \<Rightarrow> (mms_error, Value) result" where
  "Dbpos_Value d =
     rbind (value_SetBit (mms_NewBitString 2) 0 (d AND 2 \<noteq> 0)) (\<lambda>v. value_SetBit v 1 (d AND 1 \<noteq> 0))"

definition DbposFromValue :: "Value \<Rightarrow> (mms_error, Dbpos) result" where
  "DbposFromValue v =
     rbind (value_Bit v 0) (\<lambda>b0. rbind (value_Bit v 1) (\<lambda>b1.
     Inr ((if b0 then 2 else 0) OR (if b1 then 1 else 0))))"

definition TrgOps_Value :: "TrgOps \<Rightarrow> (mms_error, Value) result" where
  "TrgOps_Value t = setFlags t [0..<6] (mms_NewBitString 6)"

definition TrgOpsFromValue :: "Value \<Rightarrow> (mms_error, TrgOps) result" where
  "TrgOpsFromValue v = getFlags v (upto_BitLen 6 v) 0"

definition OptFlds_Value :: "OptFlds \<Rightarrow> (mms_error, Value) result" where
  "OptFlds_Value o' = setFlags o' [0..<10] (mms_NewBitString 10)"

definition OptFldsFromValue :: "Value \<Rightarrow> (mms_error, OptFlds) result" where
  "OptFldsFromValue v = getFlags v (upto_BitLen 10 v) 0"

definition ReasonCode_Value :: "ReasonCode \<Rightarrow> (mms_error, Value) result" where
  "ReasonCode_Value rc = setFlags rc [0..<7] (mms_NewBitString 7)"

definition ReasonFromValue :: "Value \<Rightarrow> (mms_error, ReasonCode) result" where
  "ReasonFromValue v = getFlags v (upto_BitLen 7 v) 0"

subsection \<open>Round trips\<close>

text \<open>A bit-string value and the list of bits it denotes.\<close>

definition is_bits :: "Value \<Rightarrow> bool list \<Rightarrow> bool" where
  "is_bits v xs = (\<exists>n f b l c. v = Value TypeBitString n f b l c \<and> bs_ok \<lparr>Bits = b, Length = l\<rparr>
     \<and> bits_of \<lparr>Bits = b, Length = l\<rparr> = xs)"

lemma is_bits_BitLen: "is_bits v xs \<Longrightarrow> value_BitLen v = int (length xs)"
  by (auto simp: is_bits_def bs_ok_def)

lemma is_bits_Bit: "is_bits v xs \<Longrightarrow> i < length xs \<Longrightarrow> value_Bit v (int i) = Inr (xs ! i)"
  by (auto simp: is_bits_def value_Bit_BitString Bit_bits_of simp del: value_Bit.simps nth_bits_of)

lemma BitString_eta: "\<lparr>Bits = Bits bs, Length = Length bs\<rparr> = (bs :: BitString)"
  by (cases bs) simp

lemma is_bits_SetBit:
  assumes "is_bits v xs" shows "\<exists>v'. value_SetBit v (int i) on = Inr v' \<and> is_bits v' (xs[i := on])"
proof -
  from assms obtain n f b l c where v: "v = Value TypeBitString n f b l c" "bs_ok \<lparr>Bits = b, Length = l\<rparr>"
    "bits_of \<lparr>Bits = b, Length = l\<rparr> = xs" unfolding is_bits_def by blast
  from SetBit_bits_of [OF v(2), of "int i" on] obtain bs' where
    "SetBit \<lparr>Bits = b, Length = l\<rparr> (int i) on = Inr bs'" "bs_ok bs'" "bits_of bs' = xs[i := on]" using v(3) by auto
  then have "value_SetBit v (int i) on = Inr (Value TypeBitString n f (Bits bs') (Length bs') c)"
    "bs_ok \<lparr>Bits = Bits bs', Length = Length bs'\<rparr>" "bits_of \<lparr>Bits = Bits bs', Length = Length bs'\<rparr> = xs[i := on]"
    by (simp_all add: v(1) value_SetBit_BitString BitString_eta del: value_SetBit.simps)
  then show ?thesis unfolding is_bits_def by blast
qed


lemma and_flag: "w AND push_bit i 1 \<noteq> 0 \<longleftrightarrow> bit (w :: 'a::len word) i"
  by (simp add: push_bit_of_1 and_exp_zero)

lemma setFlags_bits:
  assumes "is_bits v xs" and "\<forall>i \<in> set is. i < length xs"
  shows "\<exists>v' ys. setFlags w is v = Inr v' \<and> is_bits v' ys \<and> length ys = length xs
    \<and> (\<forall>j < length xs. ys ! j = (if j \<in> set is then bit w j else xs ! j))"
  using assms
proof (induction "is" arbitrary: v xs)
  case Nil
  then show ?case by auto
next
  case (Cons i "is")
  obtain v1 where v1: "value_SetBit v (int i) (bit w i) = Inr v1" "is_bits v1 (xs[i := bit w i])"
    using is_bits_SetBit [OF Cons.prems(1)] by blast
  have "\<forall>k \<in> set is. k < length (xs[i := bit w i])" using Cons.prems(2) by simp
  from Cons.IH [OF v1(2) this] obtain v' ys where
    "setFlags w is v1 = Inr v'" "is_bits v' ys" "length ys = length xs"
    "\<forall>j < length xs. ys ! j = (if j \<in> set is then bit w j else xs[i := bit w i] ! j)" by auto
  then show ?case using v1(1)
    by (intro exI [of _ v'] exI [of _ ys]) (auto simp: and_flag [unfolded push_bit_of_1] nth_list_update)
qed

lemma getFlags_bits:
  fixes w :: "'a::len word"
  assumes "is_bits v xs" and "\<forall>i \<in> set is. i < length xs"
  shows "\<exists>r. getFlags v is w = Inr r \<and> (\<forall>j. bit r j \<longleftrightarrow> bit w j \<or> j < LENGTH('a) \<and> j \<in> set is \<and> xs ! j)"
  using assms(2)
proof (induction "is" arbitrary: w)
  case (Cons i "is")
  let ?w = "if xs ! i then w OR push_bit i 1 else w"
  from Cons obtain r :: "'a word" where
    "getFlags v is ?w = Inr r" "\<forall>j. bit r j \<longleftrightarrow> bit ?w j \<or> j < LENGTH('a) \<and> j \<in> set is \<and> xs ! j" by fastforce
  moreover have "value_Bit v (int i) = Inr (xs ! i)" using is_bits_Bit [OF assms(1)] Cons.prems by simp
  ultimately show ?case by (auto simp: bit_simps)
qed simp

lemma is_bits_New: "is_bits (mms_NewBitString (int n)) (replicate n False)"
proof -
  have "mms_NewBitString (int n) = Value TypeBitString 0 0 (Bits (NewBitString n)) (Length (NewBitString n)) []"
    by (simp add: mms_NewBitString_def NewBitString_def Let_def)
  moreover have "\<lparr>Bits = Bits (NewBitString n), Length = Length (NewBitString n)\<rparr> = NewBitString n" by simp
  ultimately show ?thesis unfolding is_bits_def by (metis bs_ok_New bits_of_New)
qed

text \<open>What the two loops compute together: the low \<open>n\<close> bits of the word.\<close>

lemma flags_roundtrip:
  fixes w :: "'a::len word"
  shows "\<exists>v. setFlags w [0..<n] (mms_NewBitString (int n)) = Inr v \<and> value_BitLen v = int n
    \<and> getFlags v [0..<n] 0 = Inr (take_bit n w)"
proof -
  obtain v ys where v: "setFlags w [0..<n] (mms_NewBitString (int n)) = Inr v" "is_bits v ys" "length ys = n"
    "\<forall>j < n. ys ! j = bit w j"
    using setFlags_bits [OF is_bits_New, of "[0..<n]" n w] by auto
  from getFlags_bits [OF v(2), of "[0..<n]" "0 :: 'a word"] v(3) obtain r :: "'a word" where
    r: "getFlags v [0..<n] 0 = Inr r" "\<forall>j. bit r j \<longleftrightarrow> j < LENGTH('a) \<and> j < n \<and> ys ! j" by auto
  have "r = take_bit n w" using r(2) v(4) by (intro bit_word_eqI) (auto simp: bit_simps)
  then show ?thesis using v r(1) is_bits_BitLen [OF v(2)] by auto
qed


lemma Quality_roundtrip: "rbind (Quality_Value q) QualityFromValue = Inr (take_bit 13 q)"
  using flags_roundtrip [of q 13] by (auto simp: Quality_Value_def QualityFromValue_def)

lemma TrgOps_roundtrip: "rbind (TrgOps_Value t) TrgOpsFromValue = Inr (take_bit 6 t)"
  using flags_roundtrip [of t 6] by (auto simp: TrgOps_Value_def TrgOpsFromValue_def upto_BitLen_def)

lemma OptFlds_roundtrip: "rbind (OptFlds_Value t) OptFldsFromValue = Inr (take_bit 10 t)"
  using flags_roundtrip [of t 10] by (auto simp: OptFlds_Value_def OptFldsFromValue_def upto_BitLen_def)

lemma ReasonCode_roundtrip: "rbind (ReasonCode_Value t) ReasonFromValue = Inr (take_bit 7 t)"
  using flags_roundtrip [of t 7] by (auto simp: ReasonCode_Value_def ReasonFromValue_def upto_BitLen_def)

lemma Dbpos_roundtrip: "rbind (Dbpos_Value d) DbposFromValue = Inr (take_bit 2 d)"
proof -
  obtain v1 where v1: "value_SetBit (mms_NewBitString 2) 0 (d AND 2 \<noteq> 0) = Inr v1" "is_bits v1 [d AND 2 \<noteq> 0, False]"
    using is_bits_SetBit [OF is_bits_New [of 2], of 0 "d AND 2 \<noteq> 0"] by (auto simp: numeral_2_eq_2)
  obtain v2 where v2: "value_SetBit v1 1 (d AND 1 \<noteq> 0) = Inr v2" "is_bits v2 [d AND 2 \<noteq> 0, d AND 1 \<noteq> 0]"
    using is_bits_SetBit [OF v1(2), of 1 "d AND 1 \<noteq> 0"] by auto
  have b: "value_Bit v2 0 = Inr (d AND 2 \<noteq> 0)" "value_Bit v2 1 = Inr (d AND 1 \<noteq> 0)"
    using is_bits_Bit [OF v2(2), of 0] is_bits_Bit [OF v2(2), of 1] by simp_all
  have f: "d AND 2 \<noteq> 0 \<longleftrightarrow> bit d 1" "d AND 1 \<noteq> 0 \<longleftrightarrow> bit d 0"
    using and_flag [of d 1] and_flag [of d 0] by (simp_all add: push_bit_of_1)
  have "(if bit d 1 then 2 else 0) OR (if bit d 0 then 1 else 0) = take_bit 2 d"
    by (rule bit_word_eqI) (auto simp: bit_simps less_Suc_eq numeral_2_eq_2)
  then show ?thesis using v1 v2 b by (simp add: Dbpos_Value_def DbposFromValue_def f)
qed


section \<open>Strings\<close>

text \<open>What the package uses of \<^verbatim>\<open>strings\<close> and \<^verbatim>\<open>fmt\<close>, on ASCII text.\<close>

fun cut :: "char \<Rightarrow> string \<Rightarrow> string \<times> string \<times> bool" where
  "cut c [] = ([], [], False)"
| "cut c (x # xs) = (if x = c then ([], xs, True) else (let (b, a, ok) = cut c xs in (x # b, a, ok)))"

fun split_on :: "char \<Rightarrow> string \<Rightarrow> string list" where
  "split_on c [] = [[]]"
| "split_on c (x # xs) = (if x = c then [] # split_on c xs
     else (case split_on c xs of [] \<Rightarrow> [[x]] | p # ps \<Rightarrow> (x # p) # ps))"

fun join_with :: "char \<Rightarrow> string list \<Rightarrow> string" where
  "join_with c [] = []"
| "join_with c [p] = p"
| "join_with c (p # ps) = p @ c # join_with c ps"

definition is_space :: "char \<Rightarrow> bool" where
  "is_space c = ((of_char c :: nat) \<in> {9, 10, 11, 12, 13, 32})"

definition TrimSpace :: "string \<Rightarrow> string" where
  "TrimSpace s = rev (dropWhile is_space (rev (dropWhile is_space s)))"

definition upper_char :: "char \<Rightarrow> char" where
  "upper_char c = (let n = of_char c :: nat in if 97 \<le> n \<and> n \<le> 122 then char_of (n - 32) else c)"

definition ToUpper :: "string \<Rightarrow> string" where
  "ToUpper s = map upper_char s"

fun decimal :: "nat \<Rightarrow> string" where
  "decimal n = (if n < 10 then [char_of (48 + n)] else decimal (n div 10) @ [char_of (48 + n mod 10)])"

declare decimal.simps [simp del]

lemma split_on_ne [simp]: "split_on c s \<noteq> []"
  by (induction s) (auto split: list.splits)

lemma join_split [simp]: "join_with c (split_on c s) = s"
proof (induction s)
  case (Cons x xs)
  obtain p ps where "split_on c xs = p # ps" by (cases "split_on c xs") auto
  then show ?case using Cons by (cases ps) auto
qed simp

lemma split_on_none: "c \<notin> set s \<Longrightarrow> split_on c s = [s]"
  by (induction s) auto

lemma split_append: "c \<notin> set p \<Longrightarrow> split_on c (p @ c # s) = p # split_on c s"
  by (induction p) auto

lemma split_join: "ps \<noteq> [] \<Longrightarrow> \<forall>p \<in> set ps. c \<notin> set p \<Longrightarrow> split_on c (join_with c ps) = ps"
  by (induction c ps rule: join_with.induct) (simp_all add: split_on_none split_append)

lemma split_parts: "p \<in> set (split_on c s) \<Longrightarrow> c \<notin> set p \<and> set p \<subseteq> set s"
  by (induction s arbitrary: p) (force split: if_splits list.splits)+

lemma join_Cons: "ps \<noteq> [] \<Longrightarrow> join_with c (p # ps) = p @ c # join_with c ps"
  by (cases ps) simp_all

lemma join_concat: "join_with c (p # ps) = p @ concat (map (\<lambda>q. c # q) ps)"
  by (induction ps arbitrary: p) (simp_all add: join_Cons)

lemma cut_append: "c \<notin> set b \<Longrightarrow> cut c (b @ c # a) = (b, a, True)"
  by (induction b) auto

lemma cut_found: "cut c s = (b, a, True) \<Longrightarrow> s = b @ c # a \<and> c \<notin> set b"
  by (induction s arbitrary: b) (auto split: if_splits prod.splits)

section \<open>Functional constraints\<close>

type_synonym FC = byte

definition FCNone :: FC where "FCNone = 0"
definition fc_ALL :: FC where "fc_ALL = 20"
definition FCUnknown :: FC where "FCUnknown = 0xFE"

definition fcNames :: "string list" where
  "fcNames = [[], ''ST'', ''MX'', ''CO'', ''SP'', ''SG'', ''SE'', ''SV'', ''CF'', ''DC'', ''EX'', ''OR'', ''BL'', ''RP'',
     ''BR'', ''LG'', ''GO'', ''GS'', ''MS'', ''US'', ''*'', ''SR'']"

definition FC_String :: "FC \<Rightarrow> string" where
  "FC_String fc =
     (if unat fc < length fcNames then fcNames ! unat fc
      else if fc = FCUnknown then ''??''
      else ''FC('' @ decimal (unat fc) @ '')'')"

fun find_name :: "string \<Rightarrow> nat \<Rightarrow> string list \<Rightarrow> FC" where
  "find_name u i [] = FCUnknown"
| "find_name u i (n # ns) = (if n \<noteq> [] \<and> n = u then word_of_nat i else find_name u (i + 1) ns)"

definition ParseFCLenient :: "string \<Rightarrow> FC" where
  "ParseFCLenient s = (let u = ToUpper (TrimSpace s) in if u = [] then FCNone else find_name u 0 fcNames)"

definition ParseFC :: "string \<Rightarrow> FC option" where
  "ParseFC s = (let fc = ParseFCLenient s in if fc = FCUnknown then None else Some fc)"

definition FCText :: "FC \<Rightarrow> string \<Rightarrow> string" where
  "FCText fc raw =
     (if fc \<noteq> FCUnknown then FC_String fc
      else let u = ToUpper (TrimSpace raw) in if u \<noteq> [] then u else FC_String fc)"

lemma ParseFC_String: "unat fc < 22 \<Longrightarrow> ParseFC (FC_String fc) = Some fc"
proof -
  assume fc: "unat fc < 22"
  have "\<forall>i < 22. ParseFC (fcNames ! i) = Some (word_of_nat i)"
    by code_simp
  then have "ParseFC (fcNames ! unat fc) = Some fc" using fc by simp
  then show ?thesis using fc by (simp add: FC_String_def fcNames_def)
qed

section \<open>Object references\<close>

type_synonym ObjectReference = string

definition ref_Valid :: "ObjectReference \<Rightarrow> bool" where
  "ref_Valid r =
     (let (ld, rest, ok) = cut (CHR ''/'') r
      in ok \<and> ld \<noteq> [] \<and> rest \<noteq> [] \<and> list_all (\<lambda>part. part \<noteq> []) (split_on (CHR ''.'') rest))"

definition ParseRef :: "string \<Rightarrow> ObjectReference option" where
  "ParseRef s = (if ref_Valid s then Some s else None)"

definition ref_LD :: "ObjectReference \<Rightarrow> string" where
  "ref_LD r = fst (cut (CHR ''/'') r)"

definition ref_LN :: "ObjectReference \<Rightarrow> string" where
  "ref_LN r = (let (_, rest, ok) = cut (CHR ''/'') r in if \<not> ok then [] else fst (cut (CHR ''.'') rest))"

definition ref_Path :: "ObjectReference \<Rightarrow> string list" where
  "ref_Path r = (let (_, rest, ok) = cut (CHR ''/'') r in if \<not> ok then [] else split_on (CHR ''.'') rest)"

definition ref_Parent :: "ObjectReference \<Rightarrow> ObjectReference" where
  "ref_Parent r = (if CHR ''.'' \<in> set r then rev (tl (dropWhile (\<lambda>c. c \<noteq> CHR ''.'') (rev r))) else [])"

definition ref_Child :: "ObjectReference \<Rightarrow> string \<Rightarrow> ObjectReference" where
  "ref_Child r name = r @ CHR ''.'' # name"

definition ToMMS :: "ObjectReference \<Rightarrow> FC \<Rightarrow> string \<times> string" where
  "ToMMS r fc =
     (let domain = ref_LD r; parts = ref_Path r in
      if parts = [] then (domain, [])
      else
        (domain,
         parts ! 0 @ (if fc \<noteq> FCNone \<and> fc \<noteq> fc_ALL then CHR ''$'' # FC_String fc else [])
           @ concat (map (\<lambda>p. CHR ''$'' # p) (tl parts))))"

fun fromMMS_loop :: "nat \<Rightarrow> string list \<Rightarrow> FC \<Rightarrow> string list \<Rightarrow> FC \<times> string list" where
  "fromMMS_loop i [] fc path = (fc, path)"
| "fromMMS_loop i (p # ps) fc path =
     (case (if i = 1 then ParseFC p else None) of
        Some f \<Rightarrow> fromMMS_loop (i + 1) ps f path
      | None \<Rightarrow> fromMMS_loop (i + 1) ps fc (path @ [p]))"

definition FromMMS :: "string \<Rightarrow> string \<Rightarrow> ObjectReference \<times> FC" where
  "FromMMS domain item =
     (let (fc, path) = fromMMS_loop 0 (split_on (CHR ''$'') item) FCNone []
      in (domain @ CHR ''/'' # join_with (CHR ''.'') path, fc))"


lemma fromMMS_loop_tail: "i > 1 \<Longrightarrow> fromMMS_loop i ps fc path = (fc, path @ ps)"
  by (induction ps arbitrary: i path) simp_all

lemma ref_parts:
  assumes "ref_Valid r"
  shows "r = ref_LD r @ CHR ''/'' # join_with (CHR ''.'') (ref_Path r)" "ref_Path r \<noteq> []"
    "p \<in> set (ref_Path r) \<Longrightarrow> set p \<subseteq> set r"
proof -
  obtain ld rest where c: "cut (CHR ''/'') r = (ld, rest, True)" using assms by (auto simp: ref_Valid_def split: prod.splits)
  then have r: "r = ld @ CHR ''/'' # rest" using cut_found by blast
  show "r = ref_LD r @ CHR ''/'' # join_with (CHR ''.'') (ref_Path r)" "ref_Path r \<noteq> []"
    using r c by (simp_all add: ref_LD_def ref_Path_def)
  show "set p \<subseteq> set r" if "p \<in> set (ref_Path r)"
    using split_parts [of p "CHR ''.''" rest] that c r by (auto simp: ref_Path_def)
qed

text \<open>With a functional constraint the pair of MMS names determines the reference and the
  constraint; without one (\<^verbatim>\<open>FCNone\<close> and \<^verbatim>\<open>ALL\<close> are not written) it does when the data
  object's name is not itself a mnemonic.\<close>

lemma fc_no_dollar: "unat fc < 22 \<Longrightarrow> CHR ''$'' \<notin> set (FC_String fc)"
proof -
  have "\<forall>i < 22. CHR ''$'' \<notin> set (fcNames ! i)" by code_simp
  then show "unat fc < 22 \<Longrightarrow> ?thesis" by (simp add: FC_String_def fcNames_def)
qed

lemma FromMMS_ToMMS:
  assumes "ref_Valid r" and "CHR ''$'' \<notin> set r" and "unat fc < 22"
    and "fc = FCNone \<or> fc = fc_ALL \<Longrightarrow> length (ref_Path r) > 1 \<Longrightarrow> ParseFC (ref_Path r ! 1) = None"
  shows "(case ToMMS r fc of (domain, item) \<Rightarrow> FromMMS domain item) = (r, if fc = fc_ALL then FCNone else fc)"
proof -
  note parts = ref_parts [OF assms(1)]
  obtain ln ps where p: "ref_Path r = ln # ps" using parts(2) by (cases "ref_Path r") auto
  have nd: "\<forall>q \<in> set (ln # ps). CHR ''$'' \<notin> set q" using parts(3) assms(2) p by fastforce
  show ?thesis
  proof (cases "fc = FCNone \<or> fc = fc_ALL")
    case True
    have "split_on (CHR ''$'') (ln @ concat (map (\<lambda>q. CHR ''$'' # q) ps)) = ln # ps"
      using split_join [OF _ nd] by (simp add: join_concat)
    moreover have "fromMMS_loop 0 (ln # ps) FCNone [] = (FCNone, ln # ps)"
      using assms(4) True p by (cases ps) (simp_all add: fromMMS_loop_tail)
    ultimately show ?thesis using True parts(1) p by (auto simp: ToMMS_def FromMMS_def Let_def FCNone_def fc_ALL_def)
  next
    case False
    let ?f = "FC_String fc"
    have "\<forall>q \<in> set (ln # ?f # ps). CHR ''$'' \<notin> set q" using nd fc_no_dollar [OF assms(3)] by simp
    from split_join [OF _ this] have "split_on (CHR ''$'') (ln @ CHR ''$'' # ?f @ concat (map (\<lambda>q. CHR ''$'' # q) ps)) = ln # ?f # ps"
      by (simp add: join_concat)
    moreover have "fromMMS_loop 0 (ln # ?f # ps) FCNone [] = (fc, ln # ps)"
      using ParseFC_String [OF assms(3)] by (simp add: fromMMS_loop_tail)
    ultimately show ?thesis using False parts(1) p by (simp add: ToMMS_def FromMMS_def Let_def)
  qed
qed

lemma ref_Parent_Child: "CHR ''.'' \<notin> set name \<Longrightarrow> ref_Parent (ref_Child r name) = r"
proof -
  assume "CHR ''.'' \<notin> set name"
  then have "dropWhile (\<lambda>c. c \<noteq> CHR ''.'') (rev name @ CHR ''.'' # rev r) = CHR ''.'' # rev r"
    by (subst dropWhile_append2) auto
  then show ?thesis by (simp add: ref_Parent_def ref_Child_def)
qed

lemma ref_Valid_Child:
  assumes "ref_Valid r" "name \<noteq> []" "CHR ''.'' \<notin> set name"
  shows "ref_Valid (ref_Child r name) \<and> ref_Path (ref_Child r name) = ref_Path r @ [name] \<and> ref_LD (ref_Child r name) = ref_LD r"
proof -
  obtain ld rest where c: "cut (CHR ''/'') r = (ld, rest, True)" and ok: "ld \<noteq> []" "rest \<noteq> []"
    "list_all (\<lambda>part. part \<noteq> []) (split_on (CHR ''.'') rest)"
    using assms(1) by (auto simp: ref_Valid_def split: prod.splits)
  then have r: "r = ld @ CHR ''/'' # rest" "CHR ''/'' \<notin> set ld" using cut_found by blast+
  have cc: "cut (CHR ''/'') (ref_Child r name) = (ld, rest @ CHR ''.'' # name, True)"
    using cut_append [OF r(2), of "rest @ CHR ''.'' # name"] by (simp add: ref_Child_def r(1))
  have "split_on (CHR ''.'') (xs @ CHR ''.'' # name) = split_on (CHR ''.'') xs @ [name]" for xs
    by (induction xs) (auto simp: split_on_none assms(3) split: list.splits)
  then show ?thesis using cc c ok assms(2) by (simp add: ref_Valid_def ref_Path_def ref_LD_def)
qed

section \<open>Properties\<close>

text \<open>The bit-string types: Quality, Dbpos, TrgOps, OptFlds and ReasonCode each convert to
  an MMS bit string and back without loss of the bits the standard gives them.\<close>

theorem flags_values:
  "rbind (Quality_Value q) QualityFromValue = Inr (take_bit 13 q) \<and> rbind (Dbpos_Value d) DbposFromValue = Inr (take_bit 2 d)
   \<and> rbind (TrgOps_Value t) TrgOpsFromValue = Inr (take_bit 6 t) \<and> rbind (OptFlds_Value fl) OptFldsFromValue = Inr (take_bit 10 fl)
   \<and> rbind (ReasonCode_Value rc) ReasonFromValue = Inr (take_bit 7 rc)"
  by (simp add: Quality_roundtrip Dbpos_roundtrip TrgOps_roundtrip OptFlds_roundtrip ReasonCode_roundtrip)

text \<open>References and MMS names: for a valid reference without \<^verbatim>\<open>$\<close> and any functional
  constraint the library names, \<^verbatim>\<open>FromMMS\<close> inverts \<^verbatim>\<open>ToMMS\<close>; without a constraint it does so
  as long as the data object's name is not itself a mnemonic.\<close>

theorem reference_roundtrip:
  assumes "ref_Valid r" and "CHR ''$'' \<notin> set r" and "unat fc < 22"
    and "(fc = FCNone \<or> fc = fc_ALL) \<and> length (ref_Path r) > 1 \<longrightarrow> ParseFC (ref_Path r ! 1) = None"
  shows "(case ToMMS r fc of (domain, item) \<Rightarrow> FromMMS domain item) = (r, if fc = fc_ALL then FCNone else fc)"
  using assms by (intro FromMMS_ToMMS) auto

theorem reference_roundtrip_witness:
  "ToMMS ''LD0/GGIO1.AnIn1.mag.f'' 2 = (''LD0'', ''GGIO1$MX$AnIn1$mag$f'')
    \<and> FromMMS ''LD0'' ''GGIO1$MX$AnIn1$mag$f'' = (''LD0/GGIO1.AnIn1.mag.f'', 2)"
proof -
  have t: "ToMMS ''LD0/GGIO1.AnIn1.mag.f'' 2 = (''LD0'', ''GGIO1$MX$AnIn1$mag$f'')" by code_simp
  have v: "ref_Valid ''LD0/GGIO1.AnIn1.mag.f''" "(2 :: FC) \<noteq> fc_ALL" "(2 :: FC) \<noteq> FCNone" by code_simp+
  show ?thesis using reference_roundtrip [of "''LD0/GGIO1.AnIn1.mag.f''" 2] t v by simp
qed

end
