(* ===== verification/SvLe.thy ===== *)
theory SvLe
  imports Sv Model
begin

text \<open>
  The 9-2LE profile of sampled values: the fixed dataset of \<^verbatim>\<open>sv/le.go\<close> with its
  quality words, and the publisher of \<^verbatim>\<open>sv/publisher.go\<close>, whose run is a loop over the
  ticks of its sample clock.
\<close>

unbundle bit_operations_syntax

section \<open>The dataset\<close>

text \<open>The arrays \<^verbatim>\<open>I\<close>, \<^verbatim>\<open>V\<close> and \<^verbatim>\<open>Q\<close> are lists of 4, 4 and 8 words; an \<^verbatim>\<open>int32\<close> is the
  32-bit word that represents it.\<close>

record LESample =
  le_SmpCnt :: "16 word"
  le_SmpSynch :: byte
  le_I :: "32 word list"
  le_V :: "32 word list"
  le_Q :: "32 word list"

definition LESample_zero :: LESample where
  "LESample_zero = \<lparr>le_SmpCnt = 0, le_SmpSynch = 0, le_I = replicate 4 0, le_V = replicate 4 0, le_Q = replicate 8 0\<rparr>"

definition leSampleLen :: nat where "leSampleLen = 8 * 8"
definition leQualityMask :: "32 word" where "leQualityMask = 0x1fff"
definition leValidityLegacyInvalid :: "32 word" where "leValidityLegacyInvalid = 1"

definition LE_Quality :: "LESample \<Rightarrow> int \<Rightarrow> Quality" where
  "LE_Quality s i =
     (if i < 0 \<or> i \<ge> int (length (le_Q s)) then 0
      else
        let q = ucast (le_Q s ! nat i AND leQualityMask)
        in if le_Q s ! nat i AND 3 = leValidityLegacyInvalid then WithValidity q ValidityInvalid else q)"

definition LE_SetQuality :: "LESample \<Rightarrow> int \<Rightarrow> Quality \<Rightarrow> LESample" where
  "LE_SetQuality s i q =
     (if i < 0 \<or> i \<ge> int (length (le_Q s)) then s
      else s\<lparr>le_Q := (le_Q s)[nat i := (le_Q s ! nat i AND NOT leQualityMask) OR (ucast q AND leQualityMask)]\<rparr>)"

text \<open>\<^verbatim>\<open>binary.BigEndian.PutUint32(b[off:], v)\<close> and \<^verbatim>\<open>Uint32(b[off:])\<close>.\<close>

definition PutUint32 :: "byte list \<Rightarrow> nat \<Rightarrow> 32 word \<Rightarrow> byte list" where
  "PutUint32 b off v = take off b @ u32_bytes v @ drop (off + 4) b"

definition Uint32_at :: "byte list \<Rightarrow> nat \<Rightarrow> 32 word" where
  "Uint32_at b off = word_of_nat (be_nat (take 4 (drop off b)))"

definition EncodeLESample :: "LESample \<Rightarrow> byte list" where
  "EncodeLESample s =
     (let b = replicate leSampleLen 0;
          b = foldl (\<lambda>b i. PutUint32 (PutUint32 b (i * 8) (le_I s ! i)) (i * 8 + 4) (le_Q s ! i)) b [0..<4]
      in foldl (\<lambda>b i. let off = 32 + i * 8
           in PutUint32 (PutUint32 b off (le_V s ! i)) (off + 4) (le_Q s ! (4 + i))) b [0..<4])"

definition decodeLE_pairs :: "byte list \<Rightarrow> LESample \<Rightarrow> LESample" where
  "decodeLE_pairs sample s =
     (let s = foldl (\<lambda>s i. s\<lparr>le_I := (le_I s)[i := Uint32_at sample (i * 8)],
                              le_Q := (le_Q s)[i := Uint32_at sample (i * 8 + 4)]\<rparr>) s [0..<4]
      in foldl (\<lambda>s i. let off = 32 + i * 8
           in s\<lparr>le_V := (le_V s)[i := Uint32_at sample off],
                le_Q := (le_Q s)[4 + i := Uint32_at sample (off + 4)]\<rparr>) s [0..<4])"

definition DecodeLESample :: "byte list \<Rightarrow> LESample option" where
  "DecodeLESample sample =
     (if length sample < leSampleLen then None else Some (decodeLE_pairs sample LESample_zero))"

definition decodeLEInto :: "ASDU \<Rightarrow> LESample \<Rightarrow> LESample option" where
  "decodeLEInto a s =
     (if length (Sample a) < leSampleLen then None
      else Some (decodeLE_pairs (Sample a) (s\<lparr>le_SmpCnt := SmpCnt a, le_SmpSynch := SmpSynch a\<rparr>)))"

definition le_ok :: "LESample \<Rightarrow> bool" where
  "le_ok s = (length (le_I s) = 4 \<and> length (le_V s) = 4 \<and> length (le_Q s) = 8)"

lemma list4: "length xs = 4 \<longleftrightarrow> (\<exists>a b c d. xs = [a, b, c, d])"
  by (auto simp: length_Suc_conv numeral_eq_Suc)

lemma list8: "length xs = 8 \<longleftrightarrow> (\<exists>a b c d e f g h. xs = [a, b, c, d, e, f, g, h])"
  by (auto simp: length_Suc_conv numeral_eq_Suc)

text \<open>The payload is a row of sixteen words, values and qualities alternating.\<close>

definition le_words :: "LESample \<Rightarrow> 32 word list" where
  "le_words s = concat (map (\<lambda>i. [le_I s ! i, le_Q s ! i]) [0..<4]) @ concat (map (\<lambda>i. [le_V s ! i, le_Q s ! (4 + i)]) [0..<4])"

lemma PutUint32_append:
  assumes "length pre = off" shows "PutUint32 (pre @ replicate (4 + m) 0) off v = pre @ u32_bytes v @ replicate m 0"
  using assms by (simp add: PutUint32_def)

lemma put_pairs:
  assumes "length pre = base"
  shows "foldl (\<lambda>b i. PutUint32 (PutUint32 b (base + i * 8) (f i)) (base + i * 8 + 4) (g i)) (pre @ replicate (8 * n + m) 0) [0..<n]
    = pre @ concat (map (\<lambda>i. u32_bytes (f i) @ u32_bytes (g i)) [0..<n]) @ replicate m 0"
proof (induction n arbitrary: m)
  case (Suc n)
  let ?done = "pre @ concat (map (\<lambda>i. u32_bytes (f i) @ u32_bytes (g i)) [0..<n])"
  have len: "length ?done = base + n * 8"
    using assms by (simp add: length_concat comp_def sum_list_triv)
  have n: "8 + 8 * n + m = 8 * n + (8 + m)" by simp
  have "foldl (\<lambda>b i. PutUint32 (PutUint32 b (base + i * 8) (f i)) (base + i * 8 + 4) (g i)) (pre @ replicate (8 * Suc n + m) 0) [0..<Suc n]
    = PutUint32 (PutUint32 (?done @ replicate (4 + (4 + m)) 0) (base + n * 8) (f n)) (base + n * 8 + 4) (g n)"
    using Suc.IH [of "8 + m"] by (simp add: n)
  also have "\<dots> = PutUint32 ((?done @ u32_bytes (f n)) @ replicate (4 + m) 0) (base + n * 8 + 4) (g n)"
    by (subst PutUint32_append [OF len]) simp
  also have "\<dots> = (?done @ u32_bytes (f n)) @ u32_bytes (g n) @ replicate m 0"
    using len by (intro PutUint32_append) simp
  finally show ?case by simp
qed simp

lemma upt4: "[0..<4] = [0, 1, 2, 3 :: nat]"
  by (simp add: upt_rec)

lemma EncodeLESample_words: "EncodeLESample s = concat (map u32_bytes (le_words s))"
proof -
  let ?c = "concat (map (\<lambda>i. u32_bytes (le_I s ! i) @ u32_bytes (le_Q s ! i)) [0..<4])"
  have one: "foldl (\<lambda>b i. PutUint32 (PutUint32 b (i * 8) (le_I s ! i)) (i * 8 + 4) (le_Q s ! i)) (replicate 64 0) [0..<4]
      = ?c @ replicate 32 0"
    using put_pairs [of "[]" 0 "\<lambda>i. le_I s ! i" "\<lambda>i. le_Q s ! i" 4 32] by simp
  have len: "length ?c = 32" by (simp add: length_concat comp_def sum_list_triv)
  show ?thesis
    using upt4 put_pairs [OF len, of "\<lambda>i. le_V s ! i" "\<lambda>i. le_Q s ! (4 + i)" 4 0] one
    by (simp add: EncodeLESample_def Let_def leSampleLen_def le_words_def)
qed

lemma Uint32_at_words:
  assumes "k < length ws" shows "Uint32_at (concat (map u32_bytes ws)) (4 * k) = ws ! k"
proof -
  have "drop (4 * k) (concat (map u32_bytes ws)) = u32_bytes (ws ! k) @ concat (map u32_bytes (drop (Suc k) ws))"
    using assms
  proof (induction ws arbitrary: k)
    case (Cons w ws)
    then show ?case by (cases k) simp_all
  qed simp
  then show ?thesis by (simp add: Uint32_at_def Uint32_u32)
qed

lemma length_words: "length (concat (map u32_bytes ws)) = 4 * length ws"
  by (simp add: length_concat comp_def sum_list_triv)

lemma decodeLE_pairs_words:
  assumes "le_ok s" "le_ok z"
  shows "decodeLE_pairs (concat (map u32_bytes (le_words s))) z = z\<lparr>le_I := le_I s, le_V := le_V s, le_Q := le_Q s\<rparr>"
proof -
  have at: "Uint32_at (concat (map u32_bytes (le_words s))) n = le_words s ! (n div 4)" if "n mod 4 = 0" "n < 64" for n
  proof -
    have "length (le_words s) = 16" by (simp add: le_words_def upt4)
    then have "n div 4 < length (le_words s)" "4 * (n div 4) = n" using that by auto
    then show ?thesis using Uint32_at_words by metis
  qed
  from assms show ?thesis
    unfolding le_ok_def list4 list8
    by (auto simp: decodeLE_pairs_def Let_def upt4 at) (simp_all add: le_words_def upt4)
qed

lemma DecodeLESample_Encode:
  assumes "le_ok s"
  shows "DecodeLESample (EncodeLESample s) = Some (s\<lparr>le_SmpCnt := 0, le_SmpSynch := 0\<rparr>)"
proof -
  have "le_ok LESample_zero" "length (le_words s) = 16" by (simp_all add: LESample_zero_def le_ok_def le_words_def upt4)
  then show ?thesis
    using decodeLE_pairs_words [OF assms, of LESample_zero]
    by (simp add: DecodeLESample_def EncodeLESample_words length_words leSampleLen_def LESample_zero_def)
qed


text \<open>Setting and reading the quality of a channel.\<close>

lemma leQualityMask_mask: "leQualityMask = mask 13"
  by (simp add: leQualityMask_def mask_eq_exp_minus_1)

lemma and_three: "w AND 3 = take_bit 2 (w :: 'a::len word)"
proof -
  have "(3 :: 'a word) = mask 2" by (simp add: mask_eq_exp_minus_1)
  then show ?thesis by (simp only: take_bit_eq_mask)
qed

lemma validity_reserved:
  "take_bit 2 (ucast q :: 32 word) = 1 \<longleftrightarrow> Quality_Validity q = ValidityReserved"
proof -
  let ?x = "take_bit 2 q"
  have "take_bit 2 (ucast q :: 32 word) = ucast ?x" by (rule bit_word_eqI) (auto simp: bit_simps)
  moreover have "ucast ?x = (1 :: 32 word) \<longleftrightarrow> ?x = 1"
  proof -
    have "ucast (ucast ?x :: 32 word) = ?x" by (rule bit_word_eqI) (auto simp: bit_simps)
    then show ?thesis by (metis unsigned_1)
  qed
  moreover have "ucast ?x = (1 :: byte) \<longleftrightarrow> ?x = 1"
  proof -
    have "ucast (ucast ?x :: byte) = ?x" by (rule bit_word_eqI) (auto simp: bit_simps)
    then show ?thesis by (metis unsigned_1)
  qed
  ultimately show ?thesis by (simp add: Quality_Validity_def ValidityReserved_def and_three)
qed

lemma LE_Quality_SetQuality:
  assumes "le_ok s" "0 \<le> i" "i < 8"
  shows "LE_Quality (LE_SetQuality s i q) i
    = (if Quality_Validity q = ValidityReserved then WithValidity (take_bit 13 q) ValidityInvalid else take_bit 13 q)"
proof -
  let ?w = "(le_Q s ! nat i AND NOT leQualityMask) OR (ucast q AND leQualityMask)"
  have q13: "ucast (?w AND leQualityMask) = take_bit 13 q"
    unfolding leQualityMask_mask by (rule bit_word_eqI) (auto simp: bit_simps)
  have "?w AND 3 = take_bit 2 (ucast q)"
    unfolding leQualityMask_mask and_three by (rule bit_word_eqI) (auto simp: bit_simps)
  then have "?w AND 3 = leValidityLegacyInvalid \<longleftrightarrow> Quality_Validity q = ValidityReserved"
    using validity_reserved [of q] by (simp add: leValidityLegacyInvalid_def)
  then show ?thesis using assms q13 by (simp add: LE_Quality_def LE_SetQuality_def le_ok_def Let_def)
qed

lemma LE_SetQuality_others:
  assumes "j \<noteq> i \<or> j \<notin> {0..<8}" "le_ok s" shows "LE_Quality (LE_SetQuality s i q) j = LE_Quality s j"
proof (cases "j < 0 \<or> j \<ge> 8 \<or> i < 0")
  case True
  then show ?thesis using assms(2) by (auto simp: LE_Quality_def LE_SetQuality_def le_ok_def)
next
  case False
  then have "nat i \<noteq> nat j" using assms(1) by auto
  then show ?thesis using assms(2) by (simp add: LE_Quality_def LE_SetQuality_def le_ok_def)
qed

lemma LE_SetQuality_reserved:
  assumes "n \<ge> 13" shows "bit (le_Q (LE_SetQuality s i q) ! k) n = bit (le_Q s ! k) n"
proof -
  have "bit ((w AND NOT leQualityMask) OR (ucast q AND leQualityMask)) n = bit w n" for w :: "32 word"
    using assms bit_imp_le_length [of w n] unfolding leQualityMask_mask by (auto simp: bit_simps)
  then show ?thesis
    by (cases "k = nat i"; cases "nat i < length (le_Q s)") (simp_all add: LE_SetQuality_def list_update_beyond)
qed

section \<open>The publisher\<close>

definition SmpSynchGlobal :: byte where "SmpSynchGlobal = 2"
definition SmpPerPeriod :: byte where "SmpPerPeriod = 0"
definition SmpPerSec :: byte where "SmpPerSec = 1"
definition SecPerSmp :: byte where "SecPerSmp = 2"

record SVOpts =
  opt_SampleRate :: bool
  opt_RefreshTime :: bool
  opt_DataSet :: bool
  opt_SmpMod :: bool
  opt_SynchSourceID :: bool

record LEConfig =
  lc_AppID :: "16 word"
  lc_SvID :: "byte list"
  lc_ConfRev :: "32 word"
  lc_DstMAC :: "byte list"
  lc_SrcMAC :: "byte list"
  lc_VLAN :: "VLANTag option"
  SamplesPerCycle :: int
  NominalHz :: int
  NoASDU :: int
  lc_SmpMod :: byte
  lc_DatSet :: "byte list"
  lc_TimeQuality :: "byte option"
  lc_GmIdentity :: "byte list"
  Opts :: SVOpts

definition DefaultMAC :: "16 word \<Rightarrow> byte list" where
  "DefaultMAC sel = [0x01, 0x0c, 0xcd, 0x04, ucast (drop_bit 8 sel), ucast sel]"

record LEPublisher =
  lp_cfg :: LEConfig
  lp_rate :: int
  lp_gmID :: "byte list"

text \<open>Go's \<^verbatim>\<open>int\<close> product wraps at 64 bits.\<close>

definition mul64 :: "int \<Rightarrow> int \<Rightarrow> int" where "mul64 a b = int64_of (uint64_of (a * b))"

definition le_smpRate :: "LEPublisher \<Rightarrow> int" where
  "le_smpRate p = (if lc_SmpMod (lp_cfg p) = SmpPerSec then lp_rate p else SamplesPerCycle (lp_cfg p))"

definition SetGmIdentity :: "byte list \<Rightarrow> LEPublisher \<Rightarrow> LEPublisher" where
  "SetGmIdentity id' p = p\<lparr>lp_gmID := id'\<rparr>"

datatype le_error = SvIDRequired | BadSampleMode | SmpCntOverflow | SmpRateTooWide | TooManyASDUs

definition NewLEPublisher :: "LEConfig \<Rightarrow> (le_error, LEPublisher) result" where
  "NewLEPublisher cfg =
     (let cfg = (if SamplesPerCycle cfg \<le> 0 then cfg\<lparr>SamplesPerCycle := 80\<rparr> else cfg);
          cfg = (if NominalHz cfg \<le> 0 then cfg\<lparr>NominalHz := 50\<rparr> else cfg);
          cfg = (if NoASDU cfg \<le> 0 then cfg\<lparr>NoASDU := 1\<rparr> else cfg) in
      if lc_SvID cfg = [] then Inl (Err SvIDRequired)
      else if lc_SmpMod cfg \<noteq> SmpPerPeriod \<and> lc_SmpMod cfg \<noteq> SmpPerSec then Inl (Err BadSampleMode)
      else
        let p = \<lparr>lp_cfg = cfg, lp_rate = mul64 (SamplesPerCycle cfg) (NominalHz cfg), lp_gmID = []\<rparr> in
        if lp_rate p > 2 ^ 16 then Inl (Err SmpCntOverflow)
        else if le_smpRate p > 0xffff then Inl (Err SmpRateTooWide)
        else if NoASDU cfg > lp_rate p then Inl (Err TooManyASDUs)
        else Inr (SetGmIdentity (lc_GmIdentity cfg) p))"

text \<open>\<^verbatim>\<open>time.Now()\<close> is an argument.\<close>

definition le_asdu :: "LEPublisher \<Rightarrow> Time \<Rightarrow> LESample \<Rightarrow> ASDU" where
  "le_asdu p now s =
     (let cfg = lp_cfg p; o' = Opts cfg;
          a = \<lparr>SvID = lc_SvID cfg, a_DatSet = [], SmpCnt = le_SmpCnt s, a_ConfRev = lc_ConfRev cfg, RefrTm = None,
               RefrTmQuality = None, SmpSynch = le_SmpSynch s, SmpRate = 0, SmpMod = 0, HasSmpMod = False,
               GmIdentity = replicate 8 0, HasGmIdentity = False, Sample = EncodeLESample s\<rparr>;
          a = (if opt_SampleRate o' then a\<lparr>SmpRate := word_of_int (le_smpRate p)\<rparr> else a);
          a = (if opt_RefreshTime o' then a\<lparr>RefrTm := Some now, RefrTmQuality := lc_TimeQuality cfg\<rparr> else a);
          a = (if opt_DataSet o' \<and> lc_DatSet cfg \<noteq> [] then a\<lparr>a_DatSet := lc_DatSet cfg\<rparr> else a);
          a = (if opt_SmpMod o' then a\<lparr>SmpMod := lc_SmpMod cfg, HasSmpMod := True\<rparr> else a)
      in if opt_SynchSourceID o' then a\<lparr>GmIdentity := lp_gmID p, HasGmIdentity := True\<rparr> else a)"

definition le_frame :: "LEPublisher \<Rightarrow> Time \<Rightarrow> LESample list \<Rightarrow> Frame" where
  "le_frame p now samples =
     \<lparr>fr_Src = lc_SrcMAC (lp_cfg p), fr_Dst = lc_DstMAC (lp_cfg p), fr_EtherType = EtherTypeSV,
      fr_VLAN = lc_VLAN (lp_cfg p),
      fr_Payload = sv_Marshal \<lparr>pdu_AppID = lc_AppID (lp_cfg p), ASDUs = map (le_asdu p now) samples\<rparr>\<rparr>"

text \<open>The loop of \<^verbatim>\<open>Run\<close>: its locals, and the frames the interface took. \<open>ok\<close> is whether
  the interface takes the frame of this tick; the loop ends at the first it does not.\<close>

record le_run =
  lr_smpCnt :: "16 word"
  lr_samples :: "LESample list"
  lr_n :: nat
  lr_wire :: "Frame list"
  lr_stopped :: bool

definition le_start :: "LEPublisher \<Rightarrow> le_run" where
  "le_start p = \<lparr>lr_smpCnt = 0, lr_samples = replicate (nat (NoASDU (lp_cfg p))) LESample_zero, lr_n = 0, lr_wire = [],
     lr_stopped = False\<rparr>"

definition le_tick ::
  "LEPublisher \<Rightarrow> (16 word \<Rightarrow> LESample \<Rightarrow> LESample) \<Rightarrow> Time \<Rightarrow> bool \<Rightarrow> le_run \<Rightarrow> le_run" where
  "le_tick p fill now ok r =
     (if lr_stopped r then r
      else
        let s = LESample_zero\<lparr>le_SmpCnt := lr_smpCnt r, le_SmpSynch := SmpSynchGlobal\<rparr>;
            samples = (lr_samples r)[lr_n r := fill (lr_smpCnt r) s];
            n = lr_n r + 1;
            full = (n = length samples)
        in if full \<and> \<not> ok then r\<lparr>lr_samples := samples, lr_n := n, lr_stopped := True\<rparr>
           else
             let wire = (if full then lr_wire r @ [le_frame p now samples] else lr_wire r);
                 n = (if full then 0 else n);
                 smpCnt = lr_smpCnt r + 1;
                 smpCnt = (if int (unat smpCnt) \<ge> lp_rate p then 0 else smpCnt)
             in r\<lparr>lr_samples := samples, lr_n := n, lr_wire := wire, lr_smpCnt := smpCnt\<rparr>)"


subsection \<open>What a publisher sends\<close>

lemma NewLEPublisher_ok:
  assumes "NewLEPublisher cfg = Inr p"
  shows "1 \<le> NoASDU (lp_cfg p)" "NoASDU (lp_cfg p) \<le> lp_rate p" "lp_rate p \<le> 2 ^ 16" "le_smpRate p < 2 ^ 16"
  using assms by (auto simp: NewLEPublisher_def Let_def SetGmIdentity_def le_smpRate_def split: if_splits)

text \<open>The sample of the \<open>i\<close>-th tick.\<close>

definition le_sample :: "LEPublisher \<Rightarrow> (16 word \<Rightarrow> LESample \<Rightarrow> LESample) \<Rightarrow> nat \<Rightarrow> LESample" where
  "le_sample p fill i =
     (let c = word_of_nat (i mod nat (lp_rate p))
      in fill c (LESample_zero\<lparr>le_SmpCnt := c, le_SmpSynch := SmpSynchGlobal\<rparr>))"

definition le_ticks :: "LEPublisher \<Rightarrow> (16 word \<Rightarrow> LESample \<Rightarrow> LESample) \<Rightarrow> Time list \<Rightarrow> le_run" where
  "le_ticks p fill nows = foldl (\<lambda>r now. le_tick p fill now True r) (le_start p) nows"

lemma smpCnt_step:
  assumes "0 < R" "R \<le> 2 ^ 16"
  shows "(let c = (word_of_nat (k mod R) :: 16 word) + 1 in if int (unat c) \<ge> int R then 0 else c) = word_of_nat (Suc k mod R)"
proof -
  have lt: "k mod R < R" using assms(1) by simp
  have w: "(word_of_nat (k mod R) :: 16 word) + 1 = word_of_nat (k mod R + 1)" by simp
  have u: "unat (word_of_nat (k mod R + 1) :: 16 word) = (k mod R + 1) mod 2 ^ 16"
    by (simp only: unat_of_nat) simp
  have "(if R \<le> (k mod R + 1) mod 2 ^ 16 then 0 else word_of_nat (k mod R + 1) :: 16 word) = word_of_nat (Suc k mod R)"
  proof (cases "k mod R + 1 = R")
    case True
    then have "Suc k mod R = 0" by (simp add: mod_Suc)
    moreover have "(word_of_nat R :: 16 word) = 0" if "R = 2 ^ 16" using that by simp
    ultimately show ?thesis using True assms by (cases "R = 2 ^ 16") simp_all
  next
    case False
    then have "Suc k mod R = k mod R + 1" using lt by (simp add: mod_Suc)
    moreover have "(k mod R + 1) mod 2 ^ 16 = k mod R + 1" "k mod R + 1 < R" using False lt assms(2) by auto
    ultimately show ?thesis by simp
  qed
  then show ?thesis unfolding Let_def w of_nat_le_iff u .
qed

lemma le_ticks_state:
  assumes "1 \<le> NoASDU (lp_cfg p)" "1 \<le> lp_rate p" "lp_rate p \<le> 2 ^ 16"
  defines "N \<equiv> nat (NoASDU (lp_cfg p))" and "R \<equiv> nat (lp_rate p)"
  shows "let r = le_ticks p fill nows; k = length nows in
    \<not> lr_stopped r \<and> lr_smpCnt r = word_of_nat (k mod R) \<and> lr_n r = k mod N \<and> length (lr_samples r) = N
    \<and> (\<forall>i < k mod N. lr_samples r ! i = le_sample p fill (k div N * N + i))
    \<and> lr_wire r = map (\<lambda>j. le_frame p (nows ! (j * N + (N - 1))) (map (le_sample p fill) [j * N..<j * N + N])) [0..<k div N]"
proof (induction nows rule: rev_induct)
  case Nil
  then show ?case by (simp add: le_ticks_def le_start_def N_def)
next
  case (snoc now nows)
  define r where "r = le_ticks p fill nows"
  define k where "k = length nows"
  have N: "0 < N" and R: "0 < R" "R \<le> 2 ^ 16" "lp_rate p = int R" using assms by auto
  have IH: "\<not> lr_stopped r" "lr_smpCnt r = word_of_nat (k mod R)" "lr_n r = k mod N" "length (lr_samples r) = N"
    "\<forall>i < k mod N. lr_samples r ! i = le_sample p fill (k div N * N + i)"
    "lr_wire r = map (\<lambda>j. le_frame p (nows ! (j * N + (N - 1))) (map (le_sample p fill) [j * N..<j * N + N])) [0..<k div N]"
    using snoc.IH by (simp_all add: Let_def r_def k_def)
  define ss where "ss = (lr_samples r)[k mod N := le_sample p fill k]"
  define cnt where "cnt = (if lp_rate p \<le> int (unat (lr_smpCnt r + 1)) then 0 else lr_smpCnt r + 1)"
  have cnt: "cnt = word_of_nat (Suc k mod R)"
    using smpCnt_step [OF R(1,2), of k] unfolding cnt_def IH(2) R(3) Let_def .
  have samp: "fill (lr_smpCnt r) (LESample_zero\<lparr>le_SmpCnt := lr_smpCnt r, le_SmpSynch := SmpSynchGlobal\<rparr>) = le_sample p fill k"
    using IH(2) by (simp add: le_sample_def Let_def R_def)
  have step: "le_ticks p fill (nows @ [now]) = r\<lparr>lr_samples := ss, lr_n := (if k mod N + 1 = N then 0 else k mod N + 1),
      lr_wire := (if k mod N + 1 = N then lr_wire r @ [le_frame p now ss] else lr_wire r), lr_smpCnt := cnt\<rparr>"
  proof -
    have "le_ticks p fill (nows @ [now]) = le_tick p fill now True r" by (simp add: le_ticks_def r_def)
    then show ?thesis unfolding le_tick_def Let_def samp cnt_def ss_def using IH(1,3,4) by simp
  qed
  have kdiv: "k = k div N * N + k mod N" by simp
  have ss: "ss ! i = le_sample p fill (k div N * N + i)" if "i \<le> k mod N" for i
    using that IH N kdiv by (cases "i = k mod N") (simp_all add: ss_def)
  have len: "length ss = N" using IH by (simp add: ss_def)
  have old: "nows ! (j * N + (N - 1)) = (nows @ [now]) ! (j * N + (N - 1))" if "j < k div N" for j
  proof -
    have "Suc j * N \<le> k div N * N" using that by (intro mult_le_mono1) simp
    then have "j * N + N \<le> k div N * N" by simp
    then have "j * N + (N - 1) < k" using N kdiv by linarith
    then show ?thesis by (simp add: nth_append k_def)
  qed
  show ?case
  proof (cases "k mod N + 1 = N")
    case True
    then have q: "Suc k mod N = 0" "Suc k div N = Suc (k div N)" using N by (simp_all add: mod_Suc div_Suc)
    have "ss = map (le_sample p fill) [k div N * N..<k div N * N + N]"
      using ss True len by (intro nth_equalityI) auto
    moreover have "(nows @ [now]) ! (k div N * N + (N - 1)) = now"
    proof -
      have "k div N * N + (N - 1) = length nows" using True kdiv k_def by linarith
      then show ?thesis by simp
    qed
    ultimately show ?thesis using IH(1,6) True q cnt len old by (simp add: step k_def [symmetric] Let_def)
  next
    case False
    then have q: "Suc k mod N = Suc (k mod N)" "Suc k div N = k div N" using N by (auto simp: mod_Suc div_Suc)
    then show ?thesis using IH(1,6) False cnt len old ss by (simp add: step k_def [symmetric] Let_def)
  qed
qed

section \<open>Properties\<close>

text \<open>The 9-2LE payload is 64 octets and decodes to the sample it was made from; the
  counters travel in the ASDU, from which \<^verbatim>\<open>decodeLEInto\<close> restores them.\<close>

theorem le_roundtrip:
  assumes "length (le_I s) = 4" "length (le_V s) = 4" "length (le_Q s) = 8"
  shows "length (EncodeLESample s) = 64 \<and> DecodeLESample (EncodeLESample s) = Some (s\<lparr>le_SmpCnt := 0, le_SmpSynch := 0\<rparr>)
    \<and> decodeLEInto (le_asdu p now s) LESample_zero = Some s"
proof -
  have ok: "le_ok s" "le_ok (LESample_zero\<lparr>le_SmpCnt := c, le_SmpSynch := y\<rparr>)" for c y
    using assms by (simp_all add: le_ok_def LESample_zero_def)
  have "length (le_words s) = 16" by (simp add: le_words_def upt4)
  then have len: "length (EncodeLESample s) = 64" by (simp add: EncodeLESample_words length_words)
  have a: "Sample (le_asdu p now s) = EncodeLESample s" "SmpCnt (le_asdu p now s) = le_SmpCnt s" "SmpSynch (le_asdu p now s) = le_SmpSynch s"
    by (simp_all add: le_asdu_def Let_def)
  have "decodeLEInto (le_asdu p now s) LESample_zero = Some s"
    using decodeLE_pairs_words [OF ok(1) ok(2) [where c = "le_SmpCnt s" and y = "le_SmpSynch s"]] len
    by (simp add: decodeLEInto_def a leSampleLen_def EncodeLESample_words LESample_zero_def)
  then show ?thesis using DecodeLESample_Encode [OF ok(1)] len by simp
qed

definition sample_le :: LESample where
  "sample_le = \<lparr>le_SmpCnt = 7, le_SmpSynch = 2, le_I = [1, - 2, 3, 4], le_V = [5, 6, 7, 8], le_Q = [0, 0, 0, 0x2000, 0, 0, 2, 0x800]\<rparr>"

theorem le_roundtrip_witness: "DecodeLESample (EncodeLESample sample_le) = Some (sample_le\<lparr>le_SmpCnt := 0, le_SmpSynch := 0\<rparr>)"
  using le_roundtrip [of sample_le] by (simp add: sample_le_def)

text \<open>Channel quality: after \<^verbatim>\<open>SetQuality\<close> a channel reads the 13 quality bits that were set
  (the reserved validity reads as invalid), the other channels and the derived and reserved
  bits of the word are as before.\<close>

theorem le_quality:
  assumes "le_ok s" and "0 \<le> i" and "i < 8"
  shows "LE_Quality (LE_SetQuality s i q) i
      = (if Quality_Validity q = ValidityReserved then WithValidity (take_bit 13 q) ValidityInvalid else take_bit 13 q)
    \<and> (\<forall>j. j \<noteq> i \<longrightarrow> LE_Quality (LE_SetQuality s i q) j = LE_Quality s j)
    \<and> (\<forall>k n. n \<ge> 13 \<longrightarrow> bit (le_Q (LE_SetQuality s i q) ! k) n = bit (le_Q s ! k) n)"
  using LE_Quality_SetQuality [OF assms] LE_SetQuality_others [of _ i s q] LE_SetQuality_reserved assms(1) by blast

theorem le_quality_witness: "LE_Quality (LE_SetQuality sample_le 3 0x803) 3 = 0x803 \<and> LE_Quality (LE_SetQuality sample_le 3 0x803) 6 = 2"
proof -
  have v: "Quality_Validity 0x803 \<noteq> ValidityReserved" "take_bit 13 (0x803 :: Quality) = 0x803" "LE_Quality sample_le 6 = 2" by code_simp+
  show ?thesis using le_quality [of sample_le 3 "0x803"] v by (simp add: le_ok_def sample_le_def)
qed

text \<open>(C35) The sample clock: after any number of ticks a publisher that was accepted by
  \<^verbatim>\<open>NewLEPublisher\<close> has sent one frame per \<^verbatim>\<open>NoASDU\<close> ticks; frame \<open>j\<close> carries the samples of
  its own ticks, oldest first, and the sample of tick \<open>i\<close> is filled with the counter
  \<open>i mod rate\<close>, which always fits 16 bits.\<close>

theorem le_publisher_frames:
  assumes "NewLEPublisher cfg = Inr p"
  defines "N \<equiv> nat (NoASDU (lp_cfg p))"
  shows "0 < N \<and> int N \<le> lp_rate p \<and> lp_rate p \<le> 2 ^ 16
    \<and> lr_wire (le_ticks p fill nows)
      = map (\<lambda>j. le_frame p (nows ! (j * N + (N - 1))) (map (le_sample p fill) [j * N..<j * N + N])) [0..<length nows div N]
    \<and> lr_smpCnt (le_ticks p fill nows) = word_of_nat (length nows mod nat (lp_rate p))"
proof -
  note ok = NewLEPublisher_ok [OF assms(1)]
  then have "1 \<le> lp_rate p" by linarith
  then show ?thesis using ok le_ticks_state [of p fill nows] unfolding N_def by (simp add: Let_def)
qed

text \<open>The 9-2LE metering stream: eight samples a frame, 4000 a second.\<close>

definition sample_le_cfg :: LEConfig where
  "sample_le_cfg = \<lparr>lc_AppID = 0x4000, lc_SvID = [77], lc_ConfRev = 1, lc_DstMAC = DefaultMAC 1, lc_SrcMAC = [2, 0, 0, 0, 0, 1],
     lc_VLAN = None, SamplesPerCycle = 0, NominalHz = 0, NoASDU = 8, lc_SmpMod = 0, lc_DatSet = [], lc_TimeQuality = None,
     lc_GmIdentity = replicate 8 0, Opts = \<lparr>opt_SampleRate = True, opt_RefreshTime = False, opt_DataSet = False,
     opt_SmpMod = False, opt_SynchSourceID = False\<rparr>\<rparr>"

theorem le_publisher_frames_witness:
  "\<exists>p. NewLEPublisher sample_le_cfg = Inr p \<and> lp_rate p = 4000
    \<and> length (lr_wire (le_ticks p (\<lambda>c s. s) (replicate 20 \<lparr>t_Unix = 0, t_Nanosecond = 0\<rparr>))) = 2"
proof -
  obtain p where p: "NewLEPublisher sample_le_cfg = Inr p" "lp_rate p = 4000" "NoASDU (lp_cfg p) = 8"
    by (simp add: NewLEPublisher_def sample_le_cfg_def mul64_def int64_of_def uint64_of_def SetGmIdentity_def le_smpRate_def
        SmpPerPeriod_def SmpPerSec_def)
  then show ?thesis
    using le_publisher_frames [OF p(1), of "\<lambda>c s. s" "replicate 20 \<lparr>t_Unix = 0, t_Nanosecond = 0\<rparr>"] by simp
qed

end
