(* ===== verification/RKeys.thy ===== *)
theory RKeys
  imports Prelude
begin

text \<open>
  Keys and the key store of the routable session protocol (\<^verbatim>\<open>rsession/keys.go\<close>). The store
  is a map from key identifiers; the mutex makes each operation atomic.
\<close>

section \<open>Keys\<close>

type_synonym SecAlgorithm = byte
type_synonym SigAlgorithm = byte

definition SecNone :: SecAlgorithm where "SecNone = 0"
definition SecAES128GCM :: SecAlgorithm where "SecAES128GCM = 1"
definition SecAES256GCM :: SecAlgorithm where "SecAES256GCM = 2"

definition keyLen :: "SecAlgorithm \<Rightarrow> nat" where
  "keyLen a = (if a = SecAES128GCM then 16 else if a = SecAES256GCM then 32 else 0)"

definition SigNone :: SigAlgorithm where "SigNone = 0"
definition SigHMACSHA256_80 :: SigAlgorithm where "SigHMACSHA256_80 = 1"
definition SigHMACSHA256_128 :: SigAlgorithm where "SigHMACSHA256_128 = 2"
definition SigHMACSHA256_256 :: SigAlgorithm where "SigHMACSHA256_256 = 3"
definition SigHMACSHA3_80 :: SigAlgorithm where "SigHMACSHA3_80 = 6"
definition SigHMACSHA3_128 :: SigAlgorithm where "SigHMACSHA3_128 = 7"
definition SigHMACSHA3_256 :: SigAlgorithm where "SigHMACSHA3_256 = 8"

lemmas algorithm_defs = SecNone_def SecAES128GCM_def SecAES256GCM_def SigNone_def SigHMACSHA256_80_def
  SigHMACSHA256_128_def SigHMACSHA256_256_def SigHMACSHA3_80_def SigHMACSHA3_128_def SigHMACSHA3_256_def

definition macLen :: "SigAlgorithm \<Rightarrow> nat" where
  "macLen a =
     (if a = SigHMACSHA256_80 \<or> a = SigHMACSHA3_80 then 10
      else if a = SigHMACSHA256_128 \<or> a = SigHMACSHA3_128 then 16
      else if a = SigHMACSHA256_256 \<or> a = SigHMACSHA3_256 then 32
      else 0)"

definition minHMACKey :: nat where "minHMACKey = 16"

record Key =
  k_ID :: "32 word"
  Material :: "byte list"
  k_Sec :: SecAlgorithm
  k_Sig :: SigAlgorithm
  k_TimeOfCurrentKey :: "32 word"
  k_TimeToNextKey :: "16 word"

datatype rs_error = ErrKeyID | ErrKeyAlgorithm | ErrKeyUnsupported | ErrKeyLength | ErrKeyCombination | NoSuchKey
  | ErrMalformed | ErrVersion | ErrUnknownKey | ErrAlgorithm | ErrAuthentication | ErrUnsecured | ErrNoActiveKey
  | ErrVersion1Encrypt | ErrRandom | APDUTooLong | ErrCipher | ErrReplay | ErrNoRemote | NotGooseOrSV | SendError

definition key_validate :: "Key \<Rightarrow> rs_error option" where
  "key_validate k =
     (if k_ID k = 0 then Some ErrKeyID
      else if k_Sec k = SecNone \<and> k_Sig k = SigNone then Some ErrKeyAlgorithm
      else if k_Sec k \<noteq> SecNone \<and> k_Sig k \<noteq> SigNone then Some ErrKeyCombination
      else if k_Sec k \<noteq> SecNone then
        (let n = keyLen (k_Sec k) in
         if n = 0 then Some ErrKeyUnsupported
         else if length (Material k) \<noteq> n then Some ErrKeyLength
         else None)
      else
        (if macLen (k_Sig k) = 0 then Some ErrKeyUnsupported
         else if length (Material k) < minHMACKey then Some ErrKeyLength
         else None))"

section \<open>The key store\<close>

record KeyStore =
  ks_keys :: "32 word \<Rightarrow> Key option"
  ks_active :: "32 word"

definition ks_Add :: "Key \<Rightarrow> KeyStore \<Rightarrow> (rs_error, unit) result \<times> KeyStore" where
  "ks_Add k s =
     (case key_validate k of
        Some e \<Rightarrow> (Inl (Err e), s)
      | None \<Rightarrow> (Inr (), s\<lparr>ks_keys := (ks_keys s)(k_ID k \<mapsto> k)\<rparr>))"

fun NewKeyStore_loop :: "nat \<Rightarrow> Key list \<Rightarrow> KeyStore \<Rightarrow> (rs_error, KeyStore) result" where
  "NewKeyStore_loop i [] s = Inr s"
| "NewKeyStore_loop i (k # ks) s =
     (case ks_Add k s of
        (Inl e, _) \<Rightarrow> Inl e
      | (Inr _, s') \<Rightarrow> NewKeyStore_loop (i + 1) ks (if i = 0 then s'\<lparr>ks_active := k_ID k\<rparr> else s'))"

definition NewKeyStore :: "Key list \<Rightarrow> (rs_error, KeyStore) result" where
  "NewKeyStore keys = NewKeyStore_loop 0 keys \<lparr>ks_keys = (\<lambda>_. None), ks_active = 0\<rparr>"

definition ks_Remove :: "32 word \<Rightarrow> KeyStore \<Rightarrow> KeyStore" where
  "ks_Remove i s =
     (let s = s\<lparr>ks_keys := (ks_keys s)(i := None)\<rparr> in if ks_active s = i then s\<lparr>ks_active := 0\<rparr> else s)"

definition ks_SetActive :: "32 word \<Rightarrow> KeyStore \<Rightarrow> (rs_error, unit) result \<times> KeyStore" where
  "ks_SetActive i s =
     (case ks_keys s i of None \<Rightarrow> (Inl (Err NoSuchKey), s) | Some _ \<Rightarrow> (Inr (), s\<lparr>ks_active := i\<rparr>))"

text \<open>A nil store is \<open>None\<close>.\<close>

definition activeKey :: "KeyStore option \<Rightarrow> Key option" where
  "activeKey s = (case s of None \<Rightarrow> None | Some s \<Rightarrow> ks_keys s (ks_active s))"

definition ks_lookup :: "KeyStore option \<Rightarrow> 32 word \<Rightarrow> Key option" where
  "ks_lookup s i = (case s of None \<Rightarrow> None | Some s \<Rightarrow> ks_keys s i)"

text \<open>Every stored key is valid under its own identifier; the active one is stored, or there is none.\<close>

definition ks_ok :: "KeyStore \<Rightarrow> bool" where
  "ks_ok s = ((\<forall>i k. ks_keys s i = Some k \<longrightarrow> k_ID k = i \<and> key_validate k = None)
     \<and> (ks_active s = 0 \<or> ks_keys s (ks_active s) \<noteq> None))"

lemma validate_ID: "key_validate k = None \<Longrightarrow> k_ID k \<noteq> 0"
  by (auto simp: key_validate_def)

lemma ks_ok_zero: "ks_ok s \<Longrightarrow> ks_keys s 0 = None"
  unfolding ks_ok_def by (metis validate_ID not_None_eq)

lemma ks_Add_ok: "ks_ok s \<Longrightarrow> ks_Add k s = (r, s') \<Longrightarrow> ks_ok s'"
  by (auto simp: ks_Add_def ks_ok_def split: option.splits if_splits)

lemma ks_Add_active: "ks_Add k s = (Inr u, s') \<Longrightarrow> ks_ok s \<Longrightarrow> ks_ok (s'\<lparr>ks_active := k_ID k\<rparr>)"
  by (auto simp: ks_Add_def ks_ok_def split: option.splits if_splits)

lemma ks_Remove_ok: "ks_ok s \<Longrightarrow> ks_ok (ks_Remove i s)"
  by (auto simp: ks_Remove_def ks_ok_def Let_def)

lemma ks_SetActive_ok: "ks_ok s \<Longrightarrow> ks_SetActive i s = (r, s') \<Longrightarrow> ks_ok s'"
  by (auto simp: ks_SetActive_def ks_ok_def split: option.splits)

lemma NewKeyStore_ok: "NewKeyStore keys = Inr s \<Longrightarrow> ks_ok s"
proof -
  have "ks_ok s0 \<Longrightarrow> NewKeyStore_loop i keys s0 = Inr s \<Longrightarrow> ks_ok s" for i s0
  proof (induction keys arbitrary: i s0)
    case (Cons k ks)
    then obtain s1 where add: "ks_Add k s0 = (Inr (), s1)"
      and rest: "NewKeyStore_loop (i + 1) ks (if i = 0 then s1\<lparr>ks_active := k_ID k\<rparr> else s1) = Inr s"
      by (cases "ks_Add k s0") (auto split: sum.splits)
    have "ks_ok (if i = 0 then s1\<lparr>ks_active := k_ID k\<rparr> else s1)"
      using ks_Add_ok [OF Cons.prems(1) add] ks_Add_active [OF add Cons.prems(1)] by simp
    then show ?case using Cons.IH rest by blast
  qed simp
  moreover have "ks_ok \<lparr>ks_keys = (\<lambda>_. None), ks_active = 0\<rparr>" by (simp add: ks_ok_def)
  ultimately show "NewKeyStore keys = Inr s \<Longrightarrow> ks_ok s" unfolding NewKeyStore_def by blast
qed

text \<open>An active key of a well-formed store is the one that was made active.\<close>

lemma activeKey_ok: "ks_ok s \<Longrightarrow> activeKey (Some s) = Some k \<Longrightarrow> k_ID k = ks_active s \<and> k_ID k \<noteq> 0 \<and> key_validate k = None"
  using ks_ok_zero [of s] by (auto simp: activeKey_def ks_ok_def)

end
