(* ===== verification/RSpdu.thy ===== *)
theory RSpdu
  imports RKeys Ethernet
begin

text \<open>
  The SPDU codec of the routable session protocol (\<^verbatim>\<open>rsession/spdu.go\<close>). AES-GCM and the
  HMACs are parameters (\<open>crypto\<close>); what is used of them is \<open>crypto_ok\<close>.
\<close>

unbundle bit_operations_syntax

section \<open>Data\<close>

type_synonym SessionID = byte
type_synonym PayloadType = byte

definition SIGOOSE :: SessionID where "SIGOOSE = 0xA1"
definition SISV :: SessionID where "SISV = 0xA2"
definition PayloadGOOSE :: PayloadType where "PayloadGOOSE = 0x81"
definition PayloadSV :: PayloadType where "PayloadSV = 0x82"

record Payload =
  pl_Type :: PayloadType
  Simulation :: bool
  pl_AppID :: "16 word"
  APDU :: "byte list"

text \<open>\<^verbatim>\<open>TimeToNextKey\<close> is the 16-bit word that represents the \<^verbatim>\<open>int16\<close>.\<close>

record SPDU =
  SI :: SessionID
  sp_Number :: "32 word"
  Version :: "16 word"
  KeyID :: "32 word"
  TimeOfCurrentKey :: "32 word"
  TimeToNextKey :: "16 word"
  Payloads :: "Payload list"
  Signed :: bool
  Encrypted :: bool

definition cltpLI :: byte where "cltpLI = 0x01"
definition cltpUD :: byte where "cltpUD = 0x40"
definition tagCommon :: byte where "tagCommon = 0x80"
definition commonLen :: nat where "commonLen = 10"
definition tagSignature :: byte where "tagSignature = 0x85"
definition tagPadding :: byte where "tagPadding = 0xAF"
definition elementHeader :: nat where "elementHeader = 6"
definition gcmIVLen :: nat where "gcmIVLen = 12"
definition gcmTagLen :: nat where "gcmTagLen = 16"

lemmas spdu_consts = cltpLI_def cltpUD_def tagCommon_def commonLen_def tagSignature_def tagPadding_def elementHeader_def
  gcmIVLen_def gcmTagLen_def

section \<open>Cryptography\<close>

text \<open>The key comes first; \<open>gcm_seal\<close> and \<open>gcm_open\<close> take a nonce of 12 octets, and \<open>gcm_open\<close> is \<open>None\<close> when the tag
  does not verify; \<open>hmac True\<close> is the one over SHA3-256.\<close>

record crypto =
  gcm_seal :: "byte list \<Rightarrow> byte list \<Rightarrow> byte list \<Rightarrow> byte list \<Rightarrow> byte list"
  gcm_open :: "byte list \<Rightarrow> byte list \<Rightarrow> byte list \<Rightarrow> byte list \<Rightarrow> byte list option"
  hmac :: "bool \<Rightarrow> byte list \<Rightarrow> byte list \<Rightarrow> byte list"

definition crypto_ok :: "crypto \<Rightarrow> bool" where
  "crypto_ok C = ((\<forall>k iv p aad. gcm_open C k iv (gcm_seal C k iv p aad) aad = Some p
       \<and> length (gcm_seal C k iv p aad) = length p + 16)
     \<and> (\<forall>h k d. length (hmac C h k d) = 32))"

text \<open>\<^verbatim>\<open>aes.NewCipher\<close> takes keys of 16, 24 or 32 octets.\<close>

definition newGCM :: "Key \<Rightarrow> bool" where
  "newGCM k = (length (Material k) \<in> {16, 24, 32})"

text \<open>\<^verbatim>\<open>Open\<close> of \<^verbatim>\<open>crypto/cipher\<close>: it panics on a nonce of another length than \<^verbatim>\<open>NonceSize()\<close>.\<close>

definition aead_Open :: "crypto \<Rightarrow> Key \<Rightarrow> byte list \<Rightarrow> byte list \<Rightarrow> byte list \<Rightarrow> (rs_error, byte list option) result" where
  "aead_Open C k nonce ct aad = (if length nonce \<noteq> gcmIVLen then Inl Panic else Inr (gcm_open C (Material k) nonce ct aad))"

definition computeMAC :: "crypto \<Rightarrow> Key \<Rightarrow> byte list \<Rightarrow> byte list" where
  "computeMAC C k data =
     take (macLen (k_Sig k))
       (hmac C (k_Sig k = SigHMACSHA3_80 \<or> k_Sig k = SigHMACSHA3_128 \<or> k_Sig k = SigHMACSHA3_256) (Material k) data)"

section \<open>Encoding\<close>

definition payload_octets :: "Payload \<Rightarrow> byte list" where
  "payload_octets p =
     [pl_Type p, if Simulation p then 1 else 0] @ u16_bytes (pl_AppID p) @ be16 (length (APDU p)) @ APDU p"

definition key_ids :: "Key option \<Rightarrow> 32 word \<times> 32 word \<times> 16 word" where
  "key_ids key = (case key of None \<Rightarrow> (0, 0, 0) | Some k \<Rightarrow> (k_ID k, k_TimeOfCurrentKey k, k_TimeToNextKey k))"

definition security_octets :: "16 word \<Rightarrow> Key option \<Rightarrow> byte list \<Rightarrow> byte list" where
  "security_octets version key iv =
     (let (keyID, tock, ttnk) = key_ids key;
          (sec, sig) = (case key of None \<Rightarrow> (0, 0) | Some k \<Rightarrow> (k_Sec k, k_Sig k))
      in if version = 1 then [sec, sig] @ u32_bytes keyID else u32_bytes keyID @ [byte_of (length iv)] @ iv)"

definition spdu_header :: "SPDU \<Rightarrow> 16 word \<Rightarrow> Key option \<Rightarrow> byte list \<Rightarrow> nat \<Rightarrow> nat \<Rightarrow> byte list" where
  "spdu_header s version key iv userLen trailer =
     (let secInfoLen = (if version = 2 then 11 + length iv else 12);
          sessionHdrLen = 2 + commonLen + secInfoLen;
          total = 2 + 2 + sessionHdrLen + 4 + userLen + trailer;
          (keyID, tock, ttnk) = key_ids key
      in [cltpLI, cltpUD, SI s, byte_of sessionHdrLen, tagCommon, byte_of commonLen]
         @ u32_bytes (word_of_nat (total - 6 - 4)) @ u32_bytes (sp_Number s) @ u16_bytes version
         @ u32_bytes tock @ u16_bytes ttnk @ security_octets version key iv
         @ u32_bytes (word_of_nat userLen))"

text \<open>\<open>rnd\<close> is what \<^verbatim>\<open>io.ReadFull(random, iv)\<close> reads, \<open>None\<close> when it fails.\<close>

definition spdu_Marshal :: "crypto \<Rightarrow> SPDU \<Rightarrow> Key option \<Rightarrow> byte list option \<Rightarrow> (rs_error, byte list) result" where
  "spdu_Marshal C s key rnd =
     (let version = (if Version s = 0 then 2 else Version s) in
      if version \<noteq> 1 \<and> version \<noteq> 2 then Inl (Err ErrVersion)
      else case (case key of None \<Rightarrow> None | Some k \<Rightarrow> key_validate k) of
        Some e \<Rightarrow> Inl (Err e)
      | None \<Rightarrow>
          let enc = (key \<noteq> None \<and> k_Sec (the key) \<noteq> SecNone) in
          if version = 1 \<and> enc then Inl (Err ErrVersion1Encrypt)
          else case (if enc then rnd else Some []) of
            None \<Rightarrow> Inl (Err ErrRandom)
          | Some iv \<Rightarrow>
              if list_ex (\<lambda>p. length (APDU p) > 0xFFFF) (Payloads s) then Inl (Err APDUTooLong)
              else
                let userLen = sum_list (map (\<lambda>p. elementHeader + length (APDU p)) (Payloads s));
                    trailer = (case key of None \<Rightarrow> 0 | Some k \<Rightarrow> if enc then 2 + gcmTagLen else 2 + macLen (k_Sig k));
                    head = spdu_header s version key iv userLen trailer;
                    user = concat (map payload_octets (Payloads s))
                in case key of
                     None \<Rightarrow> Inr (head @ user)
                   | Some k \<Rightarrow>
                       if enc then
                         (if \<not> newGCM k then Inl (Err ErrCipher)
                          else
                            let sealed = gcm_seal C (Material k) iv user head in
                            if length sealed < gcmTagLen then Inl Panic
                            else
                              let n = length sealed - gcmTagLen
                              in Inr (head @ take n sealed @ [tagSignature, byte_of gcmTagLen] @ drop n sealed))
                       else
                         let mac = computeMAC C k (head @ user)
                         in Inr (head @ user @ [tagSignature, byte_of (length mac)] @ mac))"

section \<open>Decoding\<close>

record reader =
  r_b :: "byte list"
  r_off :: nat
  r_short :: bool

definition r_bytes :: "nat \<Rightarrow> reader \<Rightarrow> byte list option \<times> reader" where
  "r_bytes n r =
     (if r_short r \<or> n > length (r_b r) - r_off r then (None, r\<lparr>r_short := True\<rparr>)
      else (Some (take n (drop (r_off r) (r_b r))), r\<lparr>r_off := r_off r + n\<rparr>))"

definition r_u8 :: "reader \<Rightarrow> byte \<times> reader" where
  "r_u8 r = (case r_bytes 1 r of (None, r') \<Rightarrow> (0, r') | (Some v, r') \<Rightarrow> (v ! 0, r'))"

definition r_u16 :: "reader \<Rightarrow> 16 word \<times> reader" where
  "r_u16 r = (case r_bytes 2 r of (None, r') \<Rightarrow> (0, r') | (Some v, r') \<Rightarrow> (u16_read v, r'))"

definition r_u32 :: "reader \<Rightarrow> 32 word \<times> reader" where
  "r_u32 r = (case r_bytes 4 r of (None, r') \<Rightarrow> (0, r') | (Some v, r') \<Rightarrow> (word_of_nat (be_nat v), r'))"

text \<open>The security information: the key identifier, the key if there is one, the
  initialisation vector.\<close>

definition readSecurity ::
  "KeyStore option \<Rightarrow> 16 word \<Rightarrow> reader \<Rightarrow> (rs_error, 32 word \<times> Key option \<times> byte list \<times> reader) result" where
  "readSecurity keys version r =
     (if version = 1 then
        let (sec, r) = r_u8 r; (sig, r) = r_u8 r; (keyID, r) = r_u32 r in
        if r_short r then Inl (Err ErrMalformed)
        else if keyID = 0 then
          (if sec \<noteq> SecNone \<or> sig \<noteq> SigNone then Inl (Err ErrMalformed) else Inr (keyID, None, [], r))
        else case ks_lookup keys keyID of
          None \<Rightarrow> Inl (Err ErrUnknownKey)
        | Some key \<Rightarrow>
            if sec \<noteq> k_Sec key \<or> sig \<noteq> k_Sig key then Inl (Err ErrAlgorithm) else Inr (keyID, Some key, [], r)
      else if version = 2 then
        let (keyID, r) = r_u32 r; (ivLen, r) = r_u8 r; (iv, r) = r_bytes (unat ivLen) r in
        if r_short r then Inl (Err ErrMalformed)
        else if keyID = 0 then Inr (keyID, None, the iv, r)
        else case ks_lookup keys keyID of
          None \<Rightarrow> Inl (Err ErrUnknownKey)
        | Some key \<Rightarrow>
            if k_Sec key \<noteq> SecNone \<and> unat ivLen \<noteq> gcmIVLen then Inl (Err ErrMalformed)
            else Inr (keyID, Some key, the iv, r)
      else Inl (Err ErrVersion))"

text \<open>The check of the trailer: the user data in the clear, and whether it was encrypted.\<close>

definition skipPadding :: "byte list \<Rightarrow> (rs_error, byte list) result" where
  "skipPadding trailer =
     (if length trailer \<ge> 2 \<and> trailer ! 0 = tagPadding then
        let n = 2 + unat (trailer ! 1)
        in if n > length trailer then Inl (Err ErrMalformed) else go_slice trailer n (length trailer)
      else Inr trailer)"

definition checkSignature ::
  "crypto \<Rightarrow> byte list \<Rightarrow> Key \<Rightarrow> byte list \<Rightarrow> nat \<Rightarrow> byte list \<Rightarrow> byte list \<Rightarrow> (rs_error, byte list \<times> bool) result" where
  "checkSignature C b key iv userStart user trailer =
     (let sigPos = length b - length trailer in
      if length trailer < 2 \<or> trailer ! 0 \<noteq> tagSignature then Inl (Err ErrAuthentication)
      else
        let n = unat (trailer ! 1) in
        if 2 + n > length trailer then Inl (Err ErrMalformed)
        else
          rbind (go_slice trailer 2 (2 + n)) (\<lambda>tag.
          if k_Sec key \<noteq> SecNone then
            (if n \<noteq> gcmTagLen then Inl (Err ErrAuthentication)
             else if \<not> newGCM key then Inl (Err ErrCipher)
             else
               rbind (go_slice b 0 userStart) (\<lambda>aad.
               rbind (aead_Open C key iv (user @ tag) aad) (\<lambda>res.
               case res of
                 None \<Rightarrow> Inl (Err ErrAuthentication)
               | Some plain \<Rightarrow> Inr (plain, True))))
          else
            (if n \<noteq> macLen (k_Sig key) then Inl (Err ErrAuthentication)
             else
               rbind (go_slice b 0 sigPos) (\<lambda>signed.
               if tag \<noteq> computeMAC C key signed then Inl (Err ErrAuthentication) else Inr (user, False)))))"

definition checkTrailer ::
  "crypto \<Rightarrow> byte list \<Rightarrow> Key \<Rightarrow> byte list \<Rightarrow> nat \<Rightarrow> nat \<Rightarrow> byte list \<Rightarrow> (rs_error, byte list \<times> bool) result" where
  "checkTrailer C b key iv userStart userEnd user =
     rbind (go_slice b userEnd (length b)) (\<lambda>trailer.
     rbind (skipPadding trailer) (checkSignature C b key iv userStart user))"

function parsePayloads :: "byte list \<Rightarrow> nat \<Rightarrow> Payload list \<Rightarrow> (rs_error, Payload list) result" where
  "parsePayloads user off acc =
     (if off \<ge> length user then Inr acc
      else if length user - off < elementHeader then Inl (Err ErrMalformed)
      else
        let h = take elementHeader (drop off user);
            n = be_nat [h ! 4, h ! 5];
            off1 = off + elementHeader;
            rest = length user - off1
        in if n > rest \<and> n \<noteq> rest + 2 then Inl (Err ErrMalformed)
           else
             let n = (if n > rest then rest else n)
             in parsePayloads user (off1 + n)
                  (acc @ [\<lparr>pl_Type = h ! 0, Simulation = (h ! 1 \<noteq> 0), pl_AppID = u16_read [h ! 2, h ! 3],
                           APDU = take n (drop off1 user)\<rparr>]))"
  by pat_completeness auto

termination
  by (relation "measure (\<lambda>(user, off, acc). length user - off)") (auto simp: elementHeader_def)

declare parsePayloads.simps [simp del]

text \<open>The fields up to the security information: the session identifier, the number, the
  version, the two key times.\<close>

definition readHeader ::
  "byte list \<Rightarrow> (rs_error, SessionID \<times> 32 word \<times> 16 word \<times> 32 word \<times> 16 word \<times> reader) result" where
  "readHeader b =
     (let r = \<lparr>r_b = b, r_off = 0, r_short = False\<rparr>; (li, r) = r_u8 r; (ud, r) = r_u8 r in
      if li \<noteq> cltpLI \<or> ud \<noteq> cltpUD then Inl (Err ErrMalformed)
      else
        let (si, r) = r_u8 r; (_, r) = r_u8 r; (tc, r) = r_u8 r in
        if tc \<noteq> tagCommon then Inl (Err ErrMalformed)
        else
          let (_, r) = r_u8 r; (_, r) = r_u32 r; (number, r) = r_u32 r; (version, r) = r_u16 r;
              (tock, r) = r_u32 r; (ttnk, r) = r_u16 r in
          if r_short r then Inl (Err ErrMalformed) else Inr (si, number, version, tock, ttnk, r))"

definition spdu_Unmarshal :: "crypto \<Rightarrow> byte list \<Rightarrow> KeyStore option \<Rightarrow> (rs_error, SPDU) result" where
  "spdu_Unmarshal C b keys =
     rbind (readHeader b) (\<lambda>(si, number, version, tock, ttnk, r).
     rbind (readSecurity keys version r) (\<lambda>(keyID, key, iv, r).
     let (ul, r) = r_u32 r in
     if r_short r \<or> unat ul > length b - r_off r then Inl (Err ErrMalformed)
     else
       let userStart = r_off r; userEnd = userStart + unat ul in
       rbind (go_slice b userStart userEnd) (\<lambda>user.
       rbind (case key of
                None \<Rightarrow> if userEnd \<noteq> length b then Inl (Err ErrMalformed) else Inr (user, False)
              | Some k \<Rightarrow> checkTrailer C b k iv userStart userEnd user) (\<lambda>(user, enc).
       rbind (parsePayloads user 0 []) (\<lambda>ps.
       Inr \<lparr>SI = si, sp_Number = number, Version = version, KeyID = keyID, TimeOfCurrentKey = tock,
            TimeToNextKey = ttnk, Payloads = ps, Signed = (key \<noteq> None \<and> \<not> enc), Encrypted = enc\<rparr>)))))"

section \<open>Reading what was written\<close>

definition rat :: "byte list \<Rightarrow> byte list \<Rightarrow> reader" where
  "rat pre post = \<lparr>r_b = pre @ post, r_off = length pre, r_short = False\<rparr>"

lemma reader_start: "\<lparr>r_b = b, r_off = 0, r_short = False\<rparr> = rat [] b"
  by (simp add: rat_def)

lemma rat_simps [simp]: "\<not> r_short (rat pre post)" "r_off (rat pre post) = length pre"
  by (simp_all add: rat_def)

lemma r_bytes_at: "length bs = n \<Longrightarrow> r_bytes n (rat pre (bs @ post)) = (Some bs, rat (pre @ bs) post)"
  by (simp add: r_bytes_def rat_def)

lemma r_u8_at: "r_u8 (rat pre (x # post)) = (x, rat (pre @ [x]) post)"
  using r_bytes_at [of "[x]" 1 pre post] by (simp add: r_u8_def)

lemma r_u16_at: "r_u16 (rat pre (u16_bytes w @ post)) = (w, rat (pre @ u16_bytes w) post)"
  by (simp add: r_u16_def r_bytes_at)

lemma r_u32_at: "r_u32 (rat pre (u32_bytes w @ post)) = (w, rat (pre @ u32_bytes w) post)"
  by (simp add: r_u32_def r_bytes_at Uint32_u32)

lemmas reader_at = r_bytes_at r_u8_at r_u16_at r_u32_at

lemma length_payload_octets [simp]: "length (payload_octets p) = elementHeader + length (APDU p)"
  by (simp add: payload_octets_def elementHeader_def del: be_bytes.simps)

lemma parsePayloads_step:
  assumes "take elementHeader (drop off user) = [t, s, a0, a1, l0, l1]" and "be_nat [l0, l1] = n"
    and "off + elementHeader + n \<le> length user"
  shows "parsePayloads user off acc =
    parsePayloads user (off + elementHeader + n)
      (acc @ [\<lparr>pl_Type = t, Simulation = (s \<noteq> 0), pl_AppID = u16_read [a0, a1], APDU = take n (drop (off + elementHeader) user)\<rparr>])"
proof -
  have "\<not> off \<ge> length user" "\<not> length user - off < elementHeader" "\<not> n > length user - (off + elementHeader)"
    using assms(3) by (auto simp: elementHeader_def)
  then show ?thesis
    by (subst parsePayloads.simps, unfold Let_def assms(1)) (simp add: assms(2))
qed

lemma parsePayloads_octets:
  assumes "\<forall>p \<in> set ps. length (APDU p) \<le> 0xFFFF"
  shows "parsePayloads (pre @ concat (map payload_octets ps)) (length pre) acc = Inr (acc @ ps)"
  using assms
proof (induction ps arbitrary: pre acc)
  case Nil
  then show ?case by (subst parsePayloads.simps) simp
next
  case (Cons p ps)
  let ?r = "concat (map payload_octets ps)"
  let ?user = "pre @ payload_octets p @ ?r"
  obtain a0 a1 where a: "u16_bytes (pl_AppID p) = [a0, a1]" by (simp add: u16_bytes_def)
  obtain l0 l1 where l: "be16 (length (APDU p)) = [l0, l1]"
    by (simp add: numeral_2_eq_2)
  have n: "be_nat [l0, l1] = length (APDU p)"
    using be_nat_be_bytes_small [of "length (APDU p)" 2] Cons.prems l by simp
  have po: "payload_octets p = [pl_Type p, if Simulation p then 1 else 0, a0, a1, l0, l1] @ APDU p"
    using a l by (simp add: payload_octets_def)
  have h: "take elementHeader (drop (length pre) ?user) = [pl_Type p, if Simulation p then 1 else 0, a0, a1, l0, l1]"
    by (simp add: po elementHeader_def)
  have ap: "take (length (APDU p)) (drop (length pre + elementHeader) ?user) = APDU p"
    by (simp add: po elementHeader_def)
  have id: "u16_read [a0, a1] = pl_AppID p" using u16_read_bytes [of "pl_AppID p"] a by simp
  have rec: "\<lparr>pl_Type = pl_Type p, Simulation = (if Simulation p then 1 else 0) \<noteq> (0 :: byte), pl_AppID = pl_AppID p, APDU = APDU p\<rparr> = p"
    by (cases p) simp
  have "parsePayloads ?user (length pre) acc = parsePayloads ?user (length pre + elementHeader + length (APDU p)) (acc @ [p])"
    using parsePayloads_step [OF h n, of acc] rec unfolding id ap by simp
  moreover have "parsePayloads ((pre @ payload_octets p) @ ?r) (length (pre @ payload_octets p)) (acc @ [p]) = Inr ((acc @ [p]) @ ps)"
    using Cons.prems by (intro Cons.IH) simp
  ultimately show ?case by (simp add: add.assoc)
qed

lemma readSecurity_written:
  assumes "version = 1 \<or> version = 2" and "version = 1 \<Longrightarrow> iv = []" and "length iv < 256"
    and "\<And>k. key = Some k \<Longrightarrow> ks_lookup keys (k_ID k) = Some k \<and> k_ID k \<noteq> 0 \<and> (k_Sec k \<noteq> SecNone \<longrightarrow> length iv = gcmIVLen)"
  shows "readSecurity keys version (rat pre (security_octets version key iv @ post)) =
     Inr (fst (key_ids key), key, iv, rat (pre @ security_octets version key iv) post)"
proof (cases "version = 1")
  case True
  then show ?thesis using assms(2,4)
    by (cases key) (simp_all add: readSecurity_def security_octets_def key_ids_def reader_at algorithm_defs)
next
  case False
  then show ?thesis using assms
    by (cases key) (auto simp: readSecurity_def security_octets_def key_ids_def reader_at)
qed

text \<open>The decoder reads back the header that the encoder wrote, whatever the trailer is.\<close>

lemma Unmarshal_written:
  fixes s version key iv user trailer tl
  defines "head \<equiv> spdu_header s version key iv (length user) tl"
  assumes "version = 1 \<or> version = 2" and "version = 1 \<Longrightarrow> iv = []" and "length iv < 256" and "length user < 2 ^ 32"
    and "\<And>k. key = Some k \<Longrightarrow> ks_lookup keys (k_ID k) = Some k \<and> k_ID k \<noteq> 0 \<and> (k_Sec k \<noteq> SecNone \<longrightarrow> length iv = gcmIVLen)"
  shows "spdu_Unmarshal C (head @ user @ trailer) keys =
    rbind (case key of None \<Rightarrow> if trailer \<noteq> [] then Inl (Err ErrMalformed) else Inr (user, False)
           | Some k \<Rightarrow> checkTrailer C (head @ user @ trailer) k iv (length head) (length head + length user) user) (\<lambda>(user, enc).
    rbind (parsePayloads user 0 []) (\<lambda>ps.
    Inr \<lparr>SI = SI s, sp_Number = sp_Number s, Version = version, KeyID = fst (key_ids key),
        TimeOfCurrentKey = fst (snd (key_ids key)), TimeToNextKey = snd (snd (key_ids key)),
        Payloads = ps, Signed = (key \<noteq> None \<and> \<not> enc), Encrypted = enc\<rparr>))"
proof -
  obtain kid tock ttnk where ids: "key_ids key = (kid, tock, ttnk)" by (metis prod_cases3)
  obtain lenw hl pre where pre: "pre = [cltpLI, cltpUD, SI s, hl, tagCommon, byte_of commonLen] @ u32_bytes lenw
     @ u32_bytes (sp_Number s) @ u16_bytes version @ u32_bytes tock @ u16_bytes ttnk"
    and head: "head = pre @ security_octets version key iv @ u32_bytes (word_of_nat (length user))"
    unfolding head_def spdu_header_def by (auto simp: ids Let_def)
  have ul: "unat (word_of_nat (length user) :: 32 word) = length user"
    using assms(5) by (simp add: unat_of_nat take_bit_nat_eq_self_iff)
  have "readHeader (pre @ post) = Inr (SI s, sp_Number s, version, tock, ttnk, rat pre post)" for post
    unfolding readHeader_def reader_start by (simp add: pre reader_at)
  moreover have "readSecurity keys version (rat pre (security_octets version key iv @ post)) =
     Inr (kid, key, iv, rat (pre @ security_octets version key iv) post)" for post
    using readSecurity_written [of version iv key keys, OF assms(2,3,4) assms(6)] by (simp add: ids)
  ultimately show ?thesis
    using ids unfolding spdu_Unmarshal_def by (cases key) (simp_all add: head reader_at ul Let_def)
qed

lemma valid_key:
  assumes "key_validate k = None"
  shows "k_ID k \<noteq> 0" and "k_Sec k \<noteq> SecNone \<Longrightarrow> newGCM k" and "k_Sec k = SecNone \<Longrightarrow> macLen (k_Sig k) \<in> {10, 16, 32}"
  using assms by (auto simp: key_validate_def newGCM_def keyLen_def macLen_def Let_def split: if_splits)

lemma length_computeMAC:
  "crypto_ok C \<Longrightarrow> macLen (k_Sig k) \<in> {10, 16, 32} \<Longrightarrow> length (computeMAC C k d) = macLen (k_Sig k)"
  by (auto simp: computeMAC_def crypto_ok_def)

lemma checkTrailer_signed:
  assumes "k_Sec k = SecNone" and "length mac = macLen (k_Sig k)" and "macLen (k_Sig k) \<in> {10, 16, 32}"
    and "mac = computeMAC C k (head @ user)" and "hl = length head" and "ue = hl + length user"
  shows "checkTrailer C (head @ user @ [tagSignature, byte_of (length mac)] @ mac) k iv hl ue user = Inr (user, False)"
proof -
  have u: "unat (byte_of (length mac)) = length mac" using assms(2,3) by auto
  show ?thesis using assms(1-3) u unfolding checkTrailer_def assms(5,6)
    by (simp add: skipPadding_def checkSignature_def assms(4) [symmetric] spdu_consts Let_def)
qed

lemma checkTrailer_encrypted:
  assumes "crypto_ok C" and "k_Sec k \<noteq> SecNone" and "newGCM k" and "length iv = gcmIVLen" and "sealed = gcm_seal C (Material k) iv plain head"
    and "ct = take (length plain) sealed" and "tag = drop (length plain) sealed" and "hl = length head" and "ue = hl + length plain"
  shows "checkTrailer C (head @ ct @ [tagSignature, byte_of gcmTagLen] @ tag) k iv hl ue ct = Inr (plain, True)"
proof -
  have l: "length ct = length plain" "length tag = 16" and j: "ct @ tag = sealed"
    using assms(1) by (simp_all add: assms(5-7) crypto_ok_def)
  have o: "gcm_open C (Material k) iv (ct @ tag) head = Some plain"
    using assms(1) unfolding j assms(5) by (simp add: crypto_ok_def)
  show ?thesis using assms(2-4) l o unfolding checkTrailer_def assms(8,9)
    by (simp add: skipPadding_def checkSignature_def aead_Open_def spdu_consts Let_def)
qed

section \<open>What a decoded SPDU has been checked for\<close>

lemma skipPadding_ok: "skipPadding tr = Inr t \<Longrightarrow> \<exists>mid. tr = mid @ t"
  by (auto simp: skipPadding_def Let_def go_slice_full split: if_splits) (metis append_take_drop_id)+

lemma two_and_rest:
  assumes "2 + n \<le> length t"
  shows "t = [t ! 0, t ! 1] @ take n (drop 2 t) @ drop (2 + n) t"
proof -
  obtain a a' u where "t = a # a' # u" using assms by (cases t rule: remdups_adj.cases) auto
  then show ?thesis by simp
qed

lemma checkSignature_ok:
  assumes "checkSignature C (pre @ t) k iv us user t = Inr (plain, enc)" and "us \<le> length pre"
  shows "\<exists>tag rest. t = [tagSignature, byte_of (length tag)] @ tag @ rest
     \<and> (if k_Sec k \<noteq> SecNone then enc \<and> gcm_open C (Material k) iv (user @ tag) (take us pre) = Some plain
        else \<not> enc \<and> plain = user \<and> length tag = macLen (k_Sig k) \<and> tag = computeMAC C k pre)"
proof (intro exI conjI)
  let ?n = "unat (t ! 1)"
  have t: "2 + ?n \<le> length t" "t ! 0 = tagSignature"
    using assms by (auto simp: checkSignature_def Let_def split: if_splits)
  then have len: "length (take ?n (drop 2 t)) = ?n" by simp
  show "t = [tagSignature, byte_of (length (take ?n (drop 2 t)))] @ take ?n (drop 2 t) @ drop (2 + ?n) t"
    using two_and_rest [OF t(1)] unfolding len t(2) by simp
  show "if k_Sec k \<noteq> SecNone then enc \<and> gcm_open C (Material k) iv (user @ take ?n (drop 2 t)) (take us pre) = Some plain
        else \<not> enc \<and> plain = user \<and> length (take ?n (drop 2 t)) = macLen (k_Sig k) \<and> take ?n (drop 2 t) = computeMAC C k pre"
    using assms t by (auto simp: checkSignature_def aead_Open_def Let_def split: if_splits option.splits)
qed

lemma checkTrailer_ok:
  assumes "checkTrailer C (pre @ user @ tr) k iv (length pre) (length pre + length user) user = Inr (plain, enc)"
  shows "\<exists>mid tag rest. tr = mid @ [tagSignature, byte_of (length tag)] @ tag @ rest
     \<and> (if k_Sec k \<noteq> SecNone then enc \<and> gcm_open C (Material k) iv (user @ tag) pre = Some plain
        else \<not> enc \<and> plain = user \<and> length tag = macLen (k_Sig k) \<and> tag = computeMAC C k (pre @ user @ mid))"
proof -
  obtain t where t: "skipPadding tr = Inr t" and ch: "checkSignature C (pre @ user @ tr) k iv (length pre) user t = Inr (plain, enc)"
    using assms by (auto simp: checkTrailer_def rbind_eq_Inr go_slice_full)
  obtain mid where mid: "tr = mid @ t" using skipPadding_ok [OF t] by blast
  have ch': "checkSignature C ((pre @ user @ mid) @ t) k iv (length pre) user t = Inr (plain, enc)" using ch mid by simp
  have le: "length pre \<le> length (pre @ user @ mid)" and tk: "take (length pre) (pre @ user @ mid) = pre" by simp_all
  obtain tag rest where t2: "t = [tagSignature, byte_of (length tag)] @ tag @ rest"
    and c: "if k_Sec k \<noteq> SecNone then enc \<and> gcm_open C (Material k) iv (user @ tag) pre = Some plain
        else \<not> enc \<and> plain = user \<and> length tag = macLen (k_Sig k) \<and> tag = computeMAC C k (pre @ user @ mid)"
    using checkSignature_ok [OF ch' le] unfolding tk by blast
  show ?thesis by (rule exI [of _ mid], rule exI [of _ tag], rule exI [of _ rest]) (use mid t2 c in simp)
qed

lemma parsePayloads_no_panic: "parsePayloads user off acc \<noteq> Inl Panic"
proof (induction user off acc rule: parsePayloads.induct)
  case (1 user off acc)
  then show ?case by (subst parsePayloads.simps) (simp add: Let_def)
qed

text \<open>The reader stays inside its buffer.\<close>

definition r_on :: "byte list \<Rightarrow> reader \<Rightarrow> bool" where
  "r_on b r = (r_off r \<le> length b \<and> r_b r = b)"

lemma r_reads_on:
  "r_bytes n r = (u, r') \<Longrightarrow> r_on b r \<Longrightarrow> r_on b r'"
  "r_u8 r = (x, r') \<Longrightarrow> r_on b r \<Longrightarrow> r_on b r'"
  "r_u16 r = (y, r') \<Longrightarrow> r_on b r \<Longrightarrow> r_on b r'"
  "r_u32 r = (z, r') \<Longrightarrow> r_on b r \<Longrightarrow> r_on b r'"
  by (auto simp: r_on_def r_bytes_def r_u8_def r_u16_def r_u32_def split: prod.splits option.splits if_splits)

lemma r_start_on [simp]: "r_on b \<lparr>r_b = b, r_off = 0, r_short = False\<rparr>"
  by (simp add: r_on_def)

lemma readHeader_on:
  assumes "readHeader b = Inr (si, num, ver, tock, ttnk, r)"
  shows "r_on b r"
  using assms unfolding readHeader_def Let_def
  by (auto split: prod.splits if_splits elim!: r_reads_on)

lemma readSecurity_on:
  assumes "readSecurity keys ver r = Inr (keyID, key, iv, r')" and "r_on b r"
  shows "r_on b r'"
  using assms unfolding readSecurity_def Let_def
  by (auto split: prod.splits if_splits option.splits elim!: r_reads_on)

lemma readSecurity_key:
  assumes "readSecurity keys ver r = Inr (keyID, key, iv, r')"
  shows "(key = None \<longleftrightarrow> keyID = 0) \<and> (keyID \<noteq> 0 \<longrightarrow> ks_lookup keys keyID = key)"
  using assms unfolding readSecurity_def Let_def
  by (auto split: prod.splits if_splits option.splits) metis+

lemma reading_no_panic: "readHeader b \<noteq> Inl Panic" "readSecurity keys ver r \<noteq> Inl Panic"
  unfolding readHeader_def readSecurity_def Let_def by (auto split: prod.splits option.splits)

lemma readSecurity_nonce:
  assumes "readSecurity keys ver r = Inr (keyID, Some key, iv, r')" "k_Sec key \<noteq> SecNone" "ver \<noteq> 1"
  shows "length iv = gcmIVLen"
proof -
  have "u \<noteq> None \<and> length (the u) = n" if "r_bytes n r = (u, r')" "\<not> r_short r'" for n r u r'
    using that by (auto simp: r_bytes_def split: if_splits)
  then show ?thesis using assms unfolding readSecurity_def Let_def by (auto split: prod.splits if_splits option.splits)
qed

text \<open>A version 1 SPDU that names a key of the store that encrypts.\<close>

definition v1_encrypted :: "KeyStore option \<Rightarrow> byte list \<Rightarrow> bool" where
  "v1_encrypted keys b =
     (case readHeader b of
        Inl _ \<Rightarrow> False
      | Inr (_, _, version, _, _, r) \<Rightarrow> version = 1 \<and>
          (case readSecurity keys version r of Inr (_, Some key, _, _) \<Rightarrow> k_Sec key \<noteq> SecNone | _ \<Rightarrow> False))"

lemma checkTrailer_no_panic:
  assumes "us \<le> ue" "ue \<le> length b" "k_Sec k = SecNone \<or> length iv = gcmIVLen"
  shows "checkTrailer C b k iv us ue user \<noteq> Inl Panic"
proof -
  have sk: "skipPadding tr \<noteq> Inl Panic" for tr
    by (auto simp: skipPadding_def Let_def)
  have "checkSignature C b k iv us user t \<noteq> Inl Panic" if "us \<le> length b" for t
    using that assms(3) by (auto simp: checkSignature_def aead_Open_def Let_def split: option.splits)
  with assms(1,2) sk show ?thesis
    by (auto simp: checkTrailer_def rbind_eq_Inl go_slice_full)
qed

text \<open>What a successful decoding has done, and when a decoding can end in a panic.\<close>

lemma Unmarshal_cases:
  assumes "spdu_Unmarshal C b keys = Inr s"
  obtains pre user tr key iv plain enc where "b = pre @ user @ tr" and "key = None \<longleftrightarrow> KeyID s = 0"
    and "KeyID s \<noteq> 0 \<longrightarrow> ks_lookup keys (KeyID s) = key"
    and "parsePayloads plain 0 [] = Inr (Payloads s)" and "Signed s = (key \<noteq> None \<and> \<not> enc)" and "Encrypted s = enc"
    and "(case key of None \<Rightarrow> if tr \<noteq> [] then Inl (Err ErrMalformed) else Inr (user, False)
          | Some k \<Rightarrow> checkTrailer C b k iv (length pre) (length pre + length user) user) = Inr (plain, enc)"
proof -
  obtain si num ver tock ttnk r where h: "readHeader b = Inr (si, num, ver, tock, ttnk, r)"
    using assms by (auto simp: spdu_Unmarshal_def rbind_eq_Inr)
  obtain keyID key iv r' where sec: "readSecurity keys ver r = Inr (keyID, key, iv, r')"
    using assms by (auto simp: spdu_Unmarshal_def h rbind_eq_Inr)
  obtain ul r'' where ul: "r_u32 r' = (ul, r'')" by (metis prod.exhaust)
  have on: "r_on b r''" using readHeader_on [OF h] readSecurity_on [OF sec] r_reads_on(4) [OF ul] by blast
  let ?us = "r_off r''" and ?n = "unat ul"
  have n: "?n \<le> length b - ?us" using assms by (simp add: spdu_Unmarshal_def h sec ul split: if_splits)
  define pre user tr where "pre = take ?us b" and "user = take ?n (drop ?us b)" and "tr = drop (?us + ?n) b"
  have len: "length pre = ?us" "length user = ?n" using on n by (auto simp: r_on_def pre_def user_def)
  have b: "b = pre @ user @ tr" unfolding pre_def user_def tr_def by (metis append_take_drop_id drop_drop add.commute)
  have sl: "go_slice b ?us (?us + ?n) = Inr user" using on n by (auto simp: r_on_def user_def)
  have tr: "?us + ?n = length b \<longleftrightarrow> tr = []" 
    using len arg_cong [OF b, of length] by auto
  define T where "T = (case key of None \<Rightarrow> if tr \<noteq> [] then Inl (Err ErrMalformed) else Inr (user, False)
          | Some k \<Rightarrow> checkTrailer C b k iv (length pre) (length pre + length user) user)"
  have "spdu_Unmarshal C b keys = rbind T (\<lambda>(user, enc). rbind (parsePayloads user 0 []) (\<lambda>ps.
       Inr \<lparr>SI = si, sp_Number = num, Version = ver, KeyID = keyID, TimeOfCurrentKey = tock,
            TimeToNextKey = ttnk, Payloads = ps, Signed = (key \<noteq> None \<and> \<not> enc), Encrypted = enc\<rparr>))"
    using assms unfolding T_def len tr [symmetric] by (simp add: spdu_Unmarshal_def h sec ul sl Let_def split: if_splits)
  from this [unfolded assms, symmetric] obtain plain enc where t: "T = Inr (plain, enc)"
    and p: "parsePayloads plain 0 [] = Inr (Payloads s)" "Signed s = (key \<noteq> None \<and> \<not> enc)" "Encrypted s = enc" "KeyID s = keyID"
    by (auto simp: rbind_eq_Inr)
  show thesis using that [OF b _ _ p(1,2,3) t [unfolded T_def]] readSecurity_key [OF sec] p(4) by blast
qed

lemma Unmarshal_panics:
  assumes p: "spdu_Unmarshal C b keys = Inl Panic"
  shows "v1_encrypted keys b"
proof (rule ccontr)
  assume v1: "\<not> v1_encrypted keys b"
  obtain si num ver tock ttnk r where h: "readHeader b = Inr (si, num, ver, tock, ttnk, r)"
    using p reading_no_panic(1) [of b] by (auto simp: spdu_Unmarshal_def rbind_eq_Inl)
  obtain keyID key iv r' where sec: "readSecurity keys ver r = Inr (keyID, key, iv, r')"
    using p reading_no_panic(2) [of keys ver r] by (auto simp: spdu_Unmarshal_def h rbind_eq_Inl)
  obtain ul r'' where ul: "r_u32 r' = (ul, r'')" by (metis prod.exhaust)
  have on: "r_on b r''" using readHeader_on [OF h] readSecurity_on [OF sec] r_reads_on(4) [OF ul] by blast
  let ?us = "r_off r''" and ?n = "unat ul"
  have n: "?n \<le> length b - ?us" using p by (simp add: spdu_Unmarshal_def h sec ul split: if_splits)
  then have le: "?us + ?n \<le> length b" using on by (auto simp: r_on_def)
  have "k_Sec k = SecNone \<or> length iv = gcmIVLen" if "key = Some k" for k
    using v1 readSecurity_nonce [of keys ver r keyID k iv r'] sec that by (auto simp: v1_encrypted_def h)
  then have "checkTrailer C b k iv ?us (?us + ?n) user \<noteq> Inl Panic" if "key = Some k" for k user
    using that le by (intro checkTrailer_no_panic) simp_all
  then show False using p le
    by (auto simp: spdu_Unmarshal_def h sec ul Let_def rbind_eq_Inl parsePayloads_no_panic split: if_splits option.splits)
qed

lemma length_user: "length (concat (map payload_octets ps)) = sum_list (map (\<lambda>p. elementHeader + length (APDU p)) ps)"
  by (induction ps) simp_all

definition spdu_trailer :: "crypto \<Rightarrow> Key \<Rightarrow> byte list \<Rightarrow> byte list \<Rightarrow> byte list \<Rightarrow> byte list \<times> byte list" where
  "spdu_trailer C k iv head user =
     (if k_Sec k \<noteq> SecNone then
        let sealed = gcm_seal C (Material k) iv user head
        in (take (length user) sealed, [tagSignature, byte_of gcmTagLen] @ drop (length user) sealed)
      else let mac = computeMAC C k (head @ user) in (user, [tagSignature, byte_of (length mac)] @ mac))"

text \<open>What a valid request is encoded to: the header, the user data as it goes on the wire, the trailer.\<close>

lemma Marshal_ok:
  fixes C s key iv
  assumes "crypto_ok C" and "Version s \<in> {0, 1, 2}" and "\<forall>p \<in> set (Payloads s). length (APDU p) \<le> 0xFFFF"
    and "\<forall>k. key = Some k \<longrightarrow> key_validate k = None \<and> (Version s = 1 \<longrightarrow> k_Sec k = SecNone)"
  defines "ver \<equiv> if Version s = 0 then 2 else Version s"
    and "ivk \<equiv> if key \<noteq> None \<and> k_Sec (the key) \<noteq> SecNone then iv else []"
    and "user \<equiv> concat (map payload_octets (Payloads s))"
  obtains tl head where "head = spdu_header s ver key ivk (length user) tl"
    and "spdu_Marshal C s key (Some iv) = Inr (head @ (case key of None \<Rightarrow> user
       | Some k \<Rightarrow> fst (spdu_trailer C k iv head user) @ snd (spdu_trailer C k iv head user)))"
proof -
  have small: "\<not> list_ex (\<lambda>p. length (APDU p) > 0xFFFF) (Payloads s)" using assms(3) by (auto simp: list_ex_iff)
  have ver: "ver = 1 \<or> ver = 2" "ver = 1 \<longleftrightarrow> Version s = 1" using assms(2) by (auto simp: ver_def)
  define tl where "tl = (case key of None \<Rightarrow> 0 | Some k \<Rightarrow> if k_Sec k \<noteq> SecNone then 2 + gcmTagLen else 2 + macLen (k_Sig k))"
  define head where "head = spdu_header s ver key ivk (length user) tl"
  have "spdu_Marshal C s key (Some iv) = Inr (head @ (case key of None \<Rightarrow> user
       | Some k \<Rightarrow> fst (spdu_trailer C k iv head user) @ snd (spdu_trailer C k iv head user)))"
  proof (cases key)
    case None
    then show ?thesis using small ver
      by (simp add: spdu_Marshal_def ver_def [symmetric] head_def tl_def ivk_def user_def length_user [symmetric])
  next
    case (Some k)
    then have k: "key_validate k = None" "Version s = 1 \<longrightarrow> k_Sec k = SecNone" "k_Sec k \<noteq> SecNone \<longrightarrow> newGCM k"
      using assms(4) valid_key(2) by auto
    have l: "length (gcm_seal C (Material k) iv p h) = length p + 16" for p h
      using assms(1) by (simp add: crypto_ok_def)
    show ?thesis using small ver k Some
      by (cases "k_Sec k = SecNone")
        (auto simp: spdu_Marshal_def ver_def [symmetric] head_def tl_def ivk_def user_def length_user [symmetric]
          spdu_trailer_def l gcmTagLen_def Let_def)
  qed
  then show thesis using that head_def by blast
qed

section \<open>An instance\<close>

definition plain_crypto :: crypto where
  "plain_crypto = \<lparr>gcm_seal = (\<lambda>k iv p a. p @ replicate 16 0), gcm_open = (\<lambda>k iv c a. Some (take (length c - 16) c)),
     hmac = (\<lambda>h k d. replicate 32 0)\<rparr>"

lemma plain_crypto_ok: "crypto_ok plain_crypto"
  by (simp add: crypto_ok_def plain_crypto_def)

definition sample_key :: Key where
  "sample_key = \<lparr>k_ID = 7, Material = replicate 16 1, k_Sec = SecAES128GCM, k_Sig = SigNone, k_TimeOfCurrentKey = 5,
     k_TimeToNextKey = 60\<rparr>"

definition sample_store :: "KeyStore option" where
  "sample_store = Some \<lparr>ks_keys = [7 \<mapsto> sample_key], ks_active = 7\<rparr>"

definition sample_spdu :: SPDU where
  "sample_spdu = \<lparr>SI = SIGOOSE, sp_Number = 1, Version = 0, KeyID = 0, TimeOfCurrentKey = 0, TimeToNextKey = 0,
     Payloads = [\<lparr>pl_Type = PayloadGOOSE, Simulation = True, pl_AppID = 0x1000, APDU = [0x61, 0]\<rparr>], Signed = False, Encrypted = False\<rparr>"

text \<open>The octets of \<open>sample_spdu\<close> under \<open>sample_key\<close>.\<close>

definition sample_wire :: "byte list" where
  "sample_wire =
     [1, 64, 0xA1, 35, 128, 10, 0, 0, 0, 61, 0, 0, 0, 1, 0, 2, 0, 0, 0, 5, 0, 60, 0, 0, 0, 7, 12,
      9, 9, 9, 9, 9, 9, 9, 9, 9, 9, 9, 9, 0, 0, 0, 8, 129, 1, 16, 0, 0, 2, 97, 0, 133, 16,
      0, 0, 0, 0, 0, 0, 0, 0, 0, 0, 0, 0, 0, 0, 0, 0]"

lemma spdu_roundtrip_lemma:
  assumes "crypto_ok C" and "Version s \<in> {0, 1, 2}" and "\<forall>p \<in> set (Payloads s). length (APDU p) \<le> 0xFFFF"
    and "length (concat (map payload_octets (Payloads s))) < 2 ^ 32" and "length iv = gcmIVLen"
    and "\<forall>k. key = Some k \<longrightarrow> key_validate k = None \<and> (Version s = 1 \<longrightarrow> k_Sec k = SecNone) \<and> ks_lookup keys (k_ID k) = Some k"
  shows "rbind (spdu_Marshal C s key (Some iv)) (\<lambda>b. spdu_Unmarshal C b keys) =
    Inr (s\<lparr>Version := (if Version s = 0 then 2 else Version s), KeyID := fst (key_ids key),
        TimeOfCurrentKey := fst (snd (key_ids key)), TimeToNextKey := snd (snd (key_ids key)),
        Signed := (case key of None \<Rightarrow> False | Some k \<Rightarrow> k_Sec k = SecNone),
        Encrypted := (case key of None \<Rightarrow> False | Some k \<Rightarrow> k_Sec k \<noteq> SecNone)\<rparr>)"
proof -
  define ver where "ver = (if Version s = 0 then 2 else Version s)"
  define ivk where "ivk = (if key \<noteq> None \<and> k_Sec (the key) \<noteq> SecNone then iv else [])"
  define user where "user = concat (map payload_octets (Payloads s))"
  obtain tl head where head: "head = spdu_header s ver key ivk (length user) tl"
    and m: "spdu_Marshal C s key (Some iv) = Inr (head @ (case key of None \<Rightarrow> user
       | Some k \<Rightarrow> fst (spdu_trailer C k iv head user) @ snd (spdu_trailer C k iv head user)))"
    unfolding ver_def ivk_def user_def using Marshal_ok [OF assms(1,2,3), of key iv] assms(6) by blast
  have v: "ver = 1 \<or> ver = 2" "ver = 1 \<Longrightarrow> ivk = []" "length ivk < 256"
    using assms(2,5,6) by (auto simp: ver_def ivk_def gcmIVLen_def)
  have k: "ks_lookup keys (k_ID k) = Some k \<and> k_ID k \<noteq> 0 \<and> (k_Sec k \<noteq> SecNone \<longrightarrow> length ivk = gcmIVLen)"
    if "key = Some k" for k
    using that assms(5,6) valid_key(1) by (auto simp: ivk_def)
  have p: "parsePayloads user 0 [] = Inr (Payloads s)"
    using parsePayloads_octets [OF assms(3), of "[]" "[]"] by (simp add: user_def)
  show ?thesis
  proof (cases key)
    case None
    then show ?thesis
      using Unmarshal_written [of ver ivk user key keys C s tl "[]", OF v _ k] assms(4) m p
      by (simp add: head ver_def [symmetric] user_def [symmetric])
  next
    case (Some q)
    let ?h = "spdu_header s ver key ivk (length user) tl"
    have lu: "length (fst (spdu_trailer C q iv head user)) = length user"
      using assms(1) by (simp add: spdu_trailer_def Let_def crypto_ok_def)
    have val: "key_validate q = None" using assms(6) Some by simp
    have t: "checkTrailer C (head @ fst (spdu_trailer C q iv head user) @ snd (spdu_trailer C q iv head user)) q ivk
        (length head) (length head + length (fst (spdu_trailer C q iv head user))) (fst (spdu_trailer C q iv head user)) =
      Inr (user, k_Sec q \<noteq> SecNone)"
    proof (cases "k_Sec q = SecNone")
      case True
      then show ?thesis
        using checkTrailer_signed [OF True _ valid_key(3) [OF val True] refl refl refl] length_computeMAC [OF assms(1) valid_key(3) [OF val True]]
        by (simp add: spdu_trailer_def Let_def)
    next
      case False
      then show ?thesis
        using checkTrailer_encrypted [OF assms(1) False valid_key(2) [OF val False] assms(5) refl refl refl refl] assms(1) Some
        by (simp add: spdu_trailer_def Let_def ivk_def crypto_ok_def)
    qed
    show ?thesis
      using Unmarshal_written [of ver ivk "fst (spdu_trailer C q iv head user)" key keys C s tl "snd (spdu_trailer C q iv head user)", OF v _ k]
        assms(4) m p t lu Some
      by (simp add: head ver_def [symmetric] user_def [symmetric])
  qed
qed

section \<open>Properties\<close>

text \<open>(C31) Round trip: an SPDU that is sent unsecured, signed or encrypted is decoded by a receiver
  that holds the key to the same session identifier, number and payloads, with the version that was
  used, the identifier and times of the key, and the flags that say how it was protected.\<close>

theorem spdu_roundtrip:
  assumes "crypto_ok C" and "Version s \<in> {0, 1, 2}" and "\<forall>p \<in> set (Payloads s). length (APDU p) \<le> 0xFFFF"
    and "length (concat (map payload_octets (Payloads s))) < 2 ^ 32" and "length iv = gcmIVLen"
    and "\<forall>k. key = Some k \<longrightarrow> key_validate k = None \<and> (Version s = 1 \<longrightarrow> k_Sec k = SecNone) \<and> ks_lookup keys (k_ID k) = Some k"
  shows "rbind (spdu_Marshal C s key (Some iv)) (\<lambda>b. spdu_Unmarshal C b keys) =
    Inr (s\<lparr>Version := (if Version s = 0 then 2 else Version s), KeyID := fst (key_ids key),
        TimeOfCurrentKey := fst (snd (key_ids key)), TimeToNextKey := snd (snd (key_ids key)),
        Signed := (case key of None \<Rightarrow> False | Some k \<Rightarrow> k_Sec k = SecNone),
        Encrypted := (case key of None \<Rightarrow> False | Some k \<Rightarrow> k_Sec k \<noteq> SecNone)\<rparr>)"
  using assms by (rule spdu_roundtrip_lemma)

theorem spdu_roundtrip_witness:
  "rbind (spdu_Marshal plain_crypto sample_spdu (Some sample_key) (Some (replicate 12 9))) (\<lambda>b. spdu_Unmarshal plain_crypto b sample_store) =
    Inr (sample_spdu\<lparr>Version := 2, KeyID := 7, TimeOfCurrentKey := 5, TimeToNextKey := 60, Signed := False, Encrypted := True\<rparr>)"
  using spdu_roundtrip [OF plain_crypto_ok, of sample_spdu "replicate 12 9" "Some sample_key" sample_store]
  by (simp add: sample_spdu_def sample_key_def sample_store_def gcmIVLen_def elementHeader_def key_ids_def ks_lookup_def
      key_validate_def keyLen_def algorithm_defs)

text \<open>(C30) Authenticity: an SPDU that is decoded with a key identifier was verified with the key the
  store holds under it. A signed one carries, at a signature tag, the key's MAC at its full length
  over every octet before that tag; an encrypted one is the plaintext that the cipher returned for the
  ciphertext, its tag and the whole header. An SPDU without a key identifier is neither, and nothing
  follows its user data.\<close>

theorem spdu_authentic:
  assumes "spdu_Unmarshal C b keys = Inr s"
  shows "\<exists>pre user rest plain. b = pre @ user @ rest \<and> parsePayloads plain 0 [] = Inr (Payloads s)
    \<and> (KeyID s = 0 \<longrightarrow> \<not> Signed s \<and> \<not> Encrypted s \<and> rest = [] \<and> plain = user)
    \<and> (KeyID s \<noteq> 0 \<longrightarrow> (\<exists>k mid tag after iv. ks_lookup keys (KeyID s) = Some k
         \<and> rest = mid @ [tagSignature, byte_of (length tag)] @ tag @ after
         \<and> (if k_Sec k \<noteq> SecNone
            then Encrypted s \<and> \<not> Signed s \<and> gcm_open C (Material k) iv (user @ tag) pre = Some plain
            else Signed s \<and> \<not> Encrypted s \<and> plain = user
              \<and> length tag = macLen (k_Sig k) \<and> tag = computeMAC C k (pre @ user @ mid))))"
  using assms
proof (cases rule: Unmarshal_cases)
  case (1 pre user tr key iv plain enc)
  show ?thesis
  proof (cases key)
    case None
    then show ?thesis using 1 by (intro exI [of _ pre] exI [of _ user] exI [of _ tr] exI [of _ plain]) (auto split: if_splits)
  next
    case (Some k)
    then obtain mid tag after where tr: "tr = mid @ [tagSignature, byte_of (length tag)] @ tag @ after"
      and c: "if k_Sec k \<noteq> SecNone then enc \<and> gcm_open C (Material k) iv (user @ tag) pre = Some plain
        else \<not> enc \<and> plain = user \<and> length tag = macLen (k_Sig k) \<and> tag = computeMAC C k (pre @ user @ mid)"
      using 1(7) checkTrailer_ok [of C pre user tr k iv plain enc] unfolding 1(1) by auto
    show ?thesis
      by (rule exI [of _ pre], rule exI [of _ user], rule exI [of _ tr], rule exI [of _ plain])
        (use 1 Some tr c in \<open>auto split: if_splits\<close>)
  qed
qed

theorem spdu_authentic_witness:
  "\<exists>b s. spdu_Unmarshal plain_crypto b sample_store = Inr s \<and> KeyID s = 7 \<and> Encrypted s \<and>
     (\<exists>pre user rest plain. b = pre @ user @ rest \<and> parsePayloads plain 0 [] = Inr (Payloads s))"
proof -
  obtain b s where u: "spdu_Unmarshal plain_crypto b sample_store = Inr s" "KeyID s = 7" "Encrypted s"
    by (rule that [of sample_wire
        "sample_spdu\<lparr>Version := 2, KeyID := 7, TimeOfCurrentKey := 5, TimeToNextKey := 60, Signed := False, Encrypted := True\<rparr>"]) code_simp+
  then show ?thesis using spdu_authentic [OF u(1)] by blast
qed

text \<open>The octets of a version 1 SPDU that names \<open>sample_key\<close>, with a tag of zeros.\<close>

definition v1_wire :: "byte list" where
  "v1_wire = [1, 64, 0xA1, 24, 128, 10, 0, 0, 0, 0, 0, 0, 0, 1, 0, 1, 0, 0, 0, 0, 0, 0, 1, 0, 0, 0, 0, 7, 0, 0, 0, 0, 133, 16] @ replicate 16 0"

text \<open>Decoding can end in a run-time panic: only version 2 checks the length of the initialisation vector, so whoever sends a
  version 1 SPDU that names an encrypting key the receiver holds, without knowing the key, has it call \<^verbatim>\<open>Open\<close> with no nonce.\<close>

theorem v1_wire_panics: "spdu_Unmarshal C v1_wire sample_store = Inl Panic"
proof -
  have "readHeader v1_wire = Inr (0xA1, 1, 1, 0, 0, \<lparr>r_b = v1_wire, r_off = 22, r_short = False\<rparr>)"
    "readSecurity sample_store 1 \<lparr>r_b = v1_wire, r_off = 22, r_short = False\<rparr> = Inr (7, Some sample_key, [], \<lparr>r_b = v1_wire, r_off = 28, r_short = False\<rparr>)"
    "r_u32 \<lparr>r_b = v1_wire, r_off = 28, r_short = False\<rparr> = (0, \<lparr>r_b = v1_wire, r_off = 32, r_short = False\<rparr>)" by code_simp+
  moreover have "(go_slice v1_wire 32 32 :: (rs_error, byte list) result) = Inr []" "length v1_wire = 50" by code_simp+
  moreover have "checkTrailer C v1_wire sample_key [] 32 32 [] = Inl Panic"
  proof -
    have "(go_slice v1_wire 32 50 :: (rs_error, byte list) result) = Inr ([133, 16] @ replicate 16 0)" "skipPadding ([133, 16] @ replicate 16 0) = Inr ([133, 16] @ replicate 16 0)"
      "(go_slice v1_wire 0 32 :: (rs_error, byte list) result) = Inr (take 32 v1_wire)" "newGCM sample_key" "k_Sec sample_key \<noteq> SecNone" by code_simp+
    then show ?thesis using \<open>length v1_wire = 50\<close> unfolding checkTrailer_def checkSignature_def Let_def
      by (simp add: aead_Open_def spdu_consts)
  qed
  ultimately show ?thesis by (simp add: spdu_Unmarshal_def Let_def)
qed

end
