(* ===== verification/RReplay.thy ===== *)
theory RReplay
  imports Prelude
begin

text \<open>
  The anti-replay window of the routable session protocol (\<^verbatim>\<open>rsession/replay.go\<close>): a
  32-bit number compared in serial arithmetic and a 64-bit bitmap, shown to be the window over
  an unbounded counter it stands for.
\<close>

unbundle bit_operations_syntax

section \<open>The window\<close>

text \<open>Times are nanoseconds of a clock.\<close>

record replayWindow =
  w_top :: "32 word"
  w_seen :: "64 word"
  w_last :: int
  w_primed :: bool

definition replayWindow_zero :: replayWindow where
  "replayWindow_zero = \<lparr>w_top = 0, w_seen = 0, w_last = 0, w_primed = False\<rparr>"

definition accept :: "32 word \<Rightarrow> int \<Rightarrow> int \<Rightarrow> int \<Rightarrow> replayWindow \<Rightarrow> bool \<times> replayWindow" where
  "accept n now sz reset w =
     (if \<not> w_primed w \<or> (reset > 0 \<and> now - w_last w > reset) then
        (True, w\<lparr>w_top := n, w_seen := 1, w_last := now, w_primed := True\<rparr>)
      else
        let diff = sint (n - w_top w) in
        if diff > 0 then
          (True, w\<lparr>w_seen := (if diff \<ge> 64 then 1 else push_bit (nat diff) (w_seen w) OR 1), w_top := n, w_last := now\<rparr>)
        else
          let off = - diff in
          if off \<ge> sz \<or> w_seen w AND push_bit (nat off) 1 \<noteq> 0 then (False, w)
          else (True, w\<lparr>w_seen := w_seen w OR push_bit (nat off) 1, w_last := now\<rparr>))"

fun replay_run :: "int \<Rightarrow> int \<Rightarrow> replayWindow \<Rightarrow> (32 word \<times> int) list \<Rightarrow> bool list" where
  "replay_run sz reset w [] = []"
| "replay_run sz reset w ((n, now) # xs) =
     (case accept n now sz reset w of (ok, w') \<Rightarrow> ok # replay_run sz reset w' xs)"

section \<open>The window over an unbounded counter\<close>

text \<open>The specification, over the counters \<open>A\<close> accepted since the window was last started and the time of the
  last acceptance: a counter starts the window anew when nothing was accepted yet or nothing for longer than the
  reset time; else it is fresh when it was not accepted before and is less than \<open>sz\<close> below the highest accepted one.\<close>

fun window_spec :: "int \<Rightarrow> int \<Rightarrow> int list \<Rightarrow> int \<Rightarrow> (int \<times> int) list \<Rightarrow> bool list" where
  "window_spec sz reset A latest [] = []"
| "window_spec sz reset A latest ((c, t) # cs) =
     (if A = [] \<or> (reset > 0 \<and> t - latest > reset) then True # window_spec sz reset [c] t cs
      else let ok = (c \<notin> set A \<and> c > Max (set A) - sz)
           in ok # window_spec sz reset (if ok then c # A else A) (if ok then t else latest) cs)"

definition win_rel :: "replayWindow \<Rightarrow> int list \<Rightarrow> bool" where
  "win_rel w A =
     (if A = [] then \<not> w_primed w
      else w_primed w \<and> w_top w = word_of_int (Max (set A))
           \<and> (\<forall>i < 64. bit (w_seen w) i \<longleftrightarrow> Max (set A) - int i \<in> set A))"

lemma sint_small:
  assumes "- (2 ^ 31) < d" "d < 2 ^ 31" shows "sint (word_of_int d :: 32 word) = d"
  using assms by (simp add: sint_sbintrunc' signed_take_bit_int_eq_self)

lemma serial_diff:
  assumes "\<bar>c - T\<bar> < 2 ^ 31" shows "sint ((word_of_int c :: 32 word) - word_of_int T) = c - T"
  using sint_small [of "c - T"] assms by (simp add: abs_less_iff)

lemma and_bit_test: "(w :: 64 word) AND push_bit k 1 \<noteq> 0 \<longleftrightarrow> bit w k"
  by (simp add: push_bit_of_1 and_exp_zero)

lemma accept_spec:
  assumes rel: "win_rel w A" and sz: "1 \<le> sz" "sz \<le> 64"
    and near: "\<And>a. a \<in> set A \<Longrightarrow> \<bar>c - a\<bar> < 2 ^ 31"
    and quiet: "A \<noteq> [] \<Longrightarrow> reset \<le> 0 \<or> now - w_last w \<le> reset"
    and acc: "accept (word_of_int c) now sz reset w = (ok, w')"
  shows "ok \<longleftrightarrow> A = [] \<or> c \<notin> set A \<and> c > Max (set A) - sz"
    and "win_rel w' (if ok then c # A else A)"
    and "w_last w' = (if ok then now else w_last w)"
proof -
  have "(ok \<longleftrightarrow> A = [] \<or> c \<notin> set A \<and> c > Max (set A) - sz) \<and> win_rel w' (if ok then c # A else A)
    \<and> w_last w' = (if ok then now else w_last w)"
  proof (cases "A = []")
    case True
    then have "ok" "w' = w\<lparr>w_top := word_of_int c, w_seen := 1, w_last := now, w_primed := True\<rparr>"
      using rel acc by (auto simp: win_rel_def accept_def)
    then show ?thesis using True by (auto simp: win_rel_def bit_1_iff)
  next
    case False
    define T where "T = Max (set A)"
    have T: "T \<in> set A" "\<And>a. a \<in> set A \<Longrightarrow> a \<le> T" using False by (simp_all add: T_def)
    have r: "w_primed w" "w_top w = word_of_int T" "\<And>i. i < 64 \<Longrightarrow> bit (w_seen w) i \<longleftrightarrow> T - int i \<in> set A"
      using rel False by (simp_all add: win_rel_def T_def)
    have d: "sint (word_of_int c - w_top w) = c - T" using serial_diff near T(1) r(2) by simp
    have go: "\<not> (\<not> w_primed w \<or> reset > 0 \<and> now - w_last w > reset)" using r(1) quiet False by auto
    show ?thesis
    proof (cases "c > T")
      case True
      then have max: "Max (set (c # A)) = c" using False T_def by simp
      have w': "ok" "w' = w\<lparr>w_seen := (if c - T \<ge> 64 then 1 else push_bit (nat (c - T)) (w_seen w) OR 1),
          w_top := word_of_int c, w_last := now\<rparr>"
        using acc True go d by (auto simp: accept_def Let_def)
      have "bit (w_seen w') i \<longleftrightarrow> c - int i \<in> set (c # A)" if "i < 64" for i
      proof (cases "int i < c - T")
        case True
        then have "c - int i \<notin> set A" using T(2) by force
        then show ?thesis using True w'(2) that by (auto simp: bit_simps bit_1_iff)
      next
        case False
        then have "c - T < 64" "c - int i = T - int (i - nat (c - T))" using that \<open>c > T\<close> by auto
        then show ?thesis using r(3) [of "i - nat (c - T)"] w'(2) that False \<open>c > T\<close> by (auto simp: bit_simps bit_1_iff)
      qed
      moreover have "c \<notin> set A" "c > T - sz" using True T(2) sz(1) by force+
      ultimately show ?thesis using w' max r(1) False by (auto simp: win_rel_def T_def [symmetric])
    next
      case le: False
      have refuse: "(T - c \<ge> sz \<or> w_seen w AND push_bit (nat (T - c)) 1 \<noteq> 0) \<longleftrightarrow> T - c \<ge> sz \<or> c \<in> set A"
      proof (cases "T - c \<ge> sz")
        case False
        then have "nat (T - c) < 64" "int (nat (T - c)) = T - c" using sz le by auto
        then show ?thesis using r(3) [of "nat (T - c)"] and_bit_test [of "w_seen w" "nat (T - c)"] False by simp
      qed simp
      have step: "accept (word_of_int c) now sz reset w = (if T - c \<ge> sz \<or> c \<in> set A then (False, w)
          else (True, w\<lparr>w_seen := w_seen w OR push_bit (nat (T - c)) 1, w_last := now\<rparr>))"
        using d le unfolding refuse [symmetric] accept_def Let_def if_not_P [OF go] by simp
      show ?thesis
      proof (cases "T - c \<ge> sz \<or> c \<in> set A")
        case True
        then show ?thesis using acc step False rel by (auto simp: T_def)
      next
        case fresh: False
        then have w': "ok" "w' = w\<lparr>w_seen := w_seen w OR push_bit (nat (T - c)) 1, w_last := now\<rparr>"
          using acc step by auto
        have "Max (set (c # A)) = max c T" using False by (simp add: T_def)
        then have max: "Max (set (c # A)) = T" using le by simp
        have "bit (w_seen w') i \<longleftrightarrow> T - int i \<in> set (c # A)" if "i < 64" for i
        proof -
          have "bit (w_seen w') i \<longleftrightarrow> bit (w_seen w) i \<or> i = nat (T - c)"
            using w'(2) that by (auto simp: bit_simps bit_1_iff)
          moreover have "i = nat (T - c) \<longleftrightarrow> T - int i = c" using le by auto
          ultimately show ?thesis using r(3) that by auto
        qed
        then show ?thesis using w' fresh max r(1,2) False by (auto simp: win_rel_def T_def [symmetric])
      qed
    qed
  qed
  then show "ok \<longleftrightarrow> A = [] \<or> c \<notin> set A \<and> c > Max (set A) - sz" "win_rel w' (if ok then c # A else A)"
    "w_last w' = (if ok then now else w_last w)" by blast+
qed

lemma accept_start:
  assumes "\<not> w_primed w \<or> reset > 0 \<and> t - w_last w > reset" "accept (word_of_int c) t sz reset w = (ok, w')"
  shows "ok" "win_rel w' [c]" "w_last w' = t"
  using assms by (auto simp: accept_def win_rel_def bit_1_iff)

lemma replay_run_spec:
  assumes "win_rel w A" "A \<noteq> [] \<longrightarrow> w_last w = latest" "1 \<le> sz" "sz \<le> 64"
    and "\<And>a c. a \<in> set A \<union> fst ` set cs \<Longrightarrow> c \<in> fst ` set cs \<Longrightarrow> \<bar>c - a\<bar> < 2 ^ 31"
  shows "replay_run sz reset w (map (\<lambda>(c, t). (word_of_int c, t)) cs) = window_spec sz reset A latest cs"
  using assms
proof (induction cs arbitrary: w A latest)
  case (Cons x cs)
  obtain c t where x: "x = (c, t)" by force
  obtain ok w' where acc: "accept (word_of_int c) t sz reset w = (ok, w')" by force
  have near: "\<bar>c' - a\<bar> < 2 ^ 31" if "a \<in> insert c (set A) \<union> fst ` set cs" "c' \<in> fst ` set cs" for a c'
    using Cons.prems(5) [of a c'] that x by auto
  show ?case
  proof (cases "A = [] \<or> (reset > 0 \<and> t - latest > reset)")
    case True
    then have "\<not> w_primed w \<or> reset > 0 \<and> t - w_last w > reset" using Cons.prems(1,2) by (auto simp: win_rel_def)
    note s = accept_start [OF this acc]
    have "replay_run sz reset w' (map (\<lambda>(c, t). (word_of_int c, t)) cs) = window_spec sz reset [c] t cs"
      by (rule Cons.IH [OF s(2) _ Cons.prems(3,4)]) (use s(3) near in auto)
    then show ?thesis using x acc s(1) True by simp
  next
    case False
    have "\<And>a. a \<in> set A \<Longrightarrow> \<bar>c - a\<bar> < 2 ^ 31" using Cons.prems(5) x by auto
    moreover have "reset \<le> 0 \<or> t - w_last w \<le> reset" using False Cons.prems(2) by auto
    ultimately have s: "ok \<longleftrightarrow> A = [] \<or> c \<notin> set A \<and> c > Max (set A) - sz" "win_rel w' (if ok then c # A else A)" "w_last w' = (if ok then t else w_last w)"
      using accept_spec [OF Cons.prems(1,3,4) _ _ acc] by blast+
    have "replay_run sz reset w' (map (\<lambda>(c, t). (word_of_int c, t)) cs) = window_spec sz reset (if ok then c # A else A) (if ok then t else latest) cs"
      by (rule Cons.IH [OF s(2) _ Cons.prems(3,4)]) (use s(3) near Cons.prems(2) False in \<open>auto split: if_splits\<close>)
    moreover have "window_spec sz reset A latest (x # cs) = ok # window_spec sz reset (if ok then c # A else A) (if ok then t else latest) cs"
      using s(1) False unfolding x window_spec.simps Let_def by (simp only: if_False simp_thms de_Morgan_disj)
    ultimately show ?thesis using x acc by simp
  qed
qed simp

lemma length_window_spec [simp]: "length (window_spec sz reset A latest cs) = length cs"
  by (induction sz reset A latest cs rule: window_spec.induct) (simp_all add: Let_def)

text \<open>The time of the last acceptance in a run that began with \<open>latest\<close>.\<close>

fun last_accepted :: "int \<Rightarrow> (bool \<times> int) list \<Rightarrow> int" where
  "last_accepted latest [] = latest"
| "last_accepted latest ((ok, t) # xs) = last_accepted (if ok then t else latest) xs"

abbreviation outcomes :: "bool list \<Rightarrow> (int \<times> int) list \<Rightarrow> (bool \<times> int) list" where
  "outcomes oks cs \<equiv> zip oks (map snd cs)"

lemma accepted_again:
  assumes "c \<in> set A" "j < length cs" "window_spec sz reset A latest cs ! j" "fst (cs ! j) = c"
  shows "\<exists>k \<le> j. reset > 0 \<and> snd (cs ! k) - last_accepted latest (take k (outcomes (window_spec sz reset A latest cs) cs)) > reset"
  using assms
proof (induction cs arbitrary: A latest j)
  case (Cons x cs)
  obtain d t where x: "x = (d, t)" by force
  show ?case
  proof (cases "reset > 0 \<and> t - latest > reset")
    case True
    then show ?thesis by (intro exI [of _ 0]) (simp add: x)
  next
    case False
    define ok where "ok = (d \<notin> set A \<and> d > Max (set A) - sz)"
    define A' l' where "A' = (if ok then d # A else A)" and "l' = (if ok then t else latest)"
    have w: "window_spec sz reset A latest (x # cs) = ok # window_spec sz reset A' l' cs"
      using False Cons.prems(1) by (auto simp: x ok_def A'_def l'_def Let_def)
    obtain j' where j: "j = Suc j'" using Cons.prems unfolding w by (cases j) (auto simp: x ok_def)
    have "c \<in> set A'" using Cons.prems(1) by (simp add: A'_def)
    then obtain k where "k \<le> j'" "reset > 0 \<and> snd (cs ! k) - last_accepted l' (take k (outcomes (window_spec sz reset A' l' cs) cs)) > reset"
      using Cons.IH [of A' j' l'] Cons.prems unfolding w j by auto
    then show ?thesis unfolding w j by (intro exI [of _ "Suc k"]) (simp add: x l'_def)
  qed
qed simp

lemma accepted_twice:
  assumes "i < j" "j < length cs" "window_spec sz reset A latest cs ! i" "window_spec sz reset A latest cs ! j" "fst (cs ! i) = fst (cs ! j)"
  shows "\<exists>k. i < k \<and> k \<le> j \<and> reset > 0 \<and> snd (cs ! k) - last_accepted latest (take k (outcomes (window_spec sz reset A latest cs) cs)) > reset"
  using assms
proof (induction cs arbitrary: A latest i j)
  case (Cons x cs)
  obtain d t where x: "x = (d, t)" by force
  obtain j' where j: "j = Suc j'" using Cons.prems(1) by (cases j) auto
  obtain ok A' l' where w: "window_spec sz reset A latest (x # cs) = ok # window_spec sz reset A' l' cs"
    and A': "ok \<longrightarrow> d \<in> set A'" and l': "l' = (if ok then t else latest)"
  proof (cases "A = [] \<or> (reset > 0 \<and> t - latest > reset)")
    case True
    then show thesis by (intro that [of True "[d]" t]) (auto simp: x)
  next
    case False
    then show thesis by (intro that [of "d \<notin> set A \<and> d > Max (set A) - sz" "if d \<notin> set A \<and> d > Max (set A) - sz then d # A else A"]) (auto simp: x Let_def)
  qed
  have "\<exists>k. i \<le> k \<and> k \<le> j' \<and> reset > 0 \<and> snd (cs ! k) - last_accepted l' (take k (outcomes (window_spec sz reset A' l' cs) cs)) > reset"
  proof (cases i)
    case 0
    then have "ok" "window_spec sz reset A' l' cs ! j'" "fst (cs ! j') = d" "j' < length cs" using Cons.prems unfolding w j by (simp_all add: x)
    then show ?thesis using accepted_again [of d A' j' cs sz reset l'] A' 0 by blast
  next
    case (Suc i')
    then have "i' < j'" "j' < length cs" "window_spec sz reset A' l' cs ! i'" "window_spec sz reset A' l' cs ! j'" "fst (cs ! i') = fst (cs ! j')"
      using Cons.prems unfolding w j by simp_all
    from Cons.IH [OF this] show ?thesis using Suc Suc_leI by blast
  qed
  then obtain k where "i \<le> k" "k \<le> j'" "reset > 0" "snd (cs ! k) - last_accepted l' (take k (outcomes (window_spec sz reset A' l' cs) cs)) > reset" by blast
  then show ?case unfolding w j by (intro exI [of _ "Suc k"]) (simp add: x l')
qed simp

section \<open>Properties\<close>

text \<open>(C29) The replay window is exact: for counters that stay within \<open>2 ^ 31\<close> of each other and arrive in any order,
  however often and at any times, the 32-bit window with its 64-bit map decides on each as the window over the unbounded
  counter does, across the wrap-around of the 32-bit number: when nothing was accepted yet, or nothing for longer than a
  positive reset time, any counter is accepted and starts the window anew; else a counter is accepted exactly when it was
  not accepted since that start and is less than the window's size below the highest accepted one. So a counter is accepted
  twice only if in between, up to some arrival, nothing was accepted for longer than the reset time.\<close>

theorem replay_window_exact:
  fixes reset :: int
  assumes "1 \<le> sz" "sz \<le> 64"
    and "\<forall>(c, t) \<in> set arrivals. b \<le> c \<and> c < b + 2 ^ 31"
  defines "oks \<equiv> replay_run sz reset replayWindow_zero (map (\<lambda>(c, t). (word_of_int c, t)) arrivals)"
  shows "oks = window_spec sz reset [] 0 arrivals
    \<and> (\<forall>i j. i < j \<and> j < length arrivals \<and> oks ! i \<and> oks ! j \<and> fst (arrivals ! i) = fst (arrivals ! j) \<longrightarrow>
         (\<exists>k. i < k \<and> k \<le> j \<and> reset > 0 \<and> snd (arrivals ! k) - last_accepted 0 (take k (outcomes oks arrivals)) > reset))"
proof -
  have rng: "b \<le> c \<and> c < b + 2 ^ 31" if "c \<in> fst ` set arrivals" for c using assms(3) that by fastforce
  have eq: "oks = window_spec sz reset [] 0 arrivals"
    unfolding oks_def
  proof (rule replay_run_spec)
    show "win_rel replayWindow_zero []" by (simp add: win_rel_def replayWindow_zero_def)
    show "\<bar>c - a\<bar> < 2 ^ 31" if "a \<in> set [] \<union> fst ` set arrivals" "c \<in> fst ` set arrivals" for a c
      using rng [of a] rng [of c] that by auto
  qed (use assms in auto)
  then show ?thesis using accepted_twice [of _ _ arrivals sz reset "[]" 0] by blast
qed

text \<open>Counters around the wrap-around, one of them replayed, one too old; the window lives on although the run is longer
  than the reset time, until a silence of eleven, after which a replayed counter is taken.\<close>

theorem replay_window_exact_witness:
  "replay_run 4 10 replayWindow_zero
     (map (\<lambda>(c, t). (word_of_int c, t)) [(4294967295, 0), (4294967297, 6), (4294967296, 12), (4294967297, 13), (4294967293, 14), (4294967297, 23)])
   = [True, True, True, False, False, True]"
proof -
  let ?a = "[(4294967295, 0), (4294967297, 6), (4294967296, 12), (4294967297, 13), (4294967293, 14), (4294967297, 23)] :: (int \<times> int) list"
  have r: "replay_run 4 10 replayWindow_zero (map (\<lambda>(c, t). (word_of_int c, t)) ?a) = window_spec 4 10 [] 0 ?a"
    by (rule conjunct1 [OF replay_window_exact [where b = 4294967290]]) auto
  have "window_spec 4 10 [] 0 ?a = [True, True, True, False, False, True]" by (simp add: Let_def)
  with r show ?thesis by (simp only:)
qed

end
