(* ===== verification/RSession.thy ===== *)
theory RSession
  imports RSpdu RReplay "HOL-Library.AList"
begin

text \<open>
  The routable session (\<^verbatim>\<open>rsession/session.go\<close>): the policy it applies to what arrives, its
  replay state per sender, and the frames of GOOSE and Sampled Values it carries. Sockets are
  left out: what is sent is the list of datagrams written, what arrives is a queue of
  datagrams with the time each is taken from the channel. The key store that
  \<^verbatim>\<open>Config.Keys\<close> points to is an argument, since others may change it between calls.
\<close>

unbundle bit_operations_syntax

section \<open>Configuration and state\<close>

record RConfig =
  c_Version :: int
  c_TTL :: int
  c_AllowUnsecured :: bool
  c_ReplayWindow :: int
  c_ReplayReset :: int

text \<open>The checks and defaults of \<^verbatim>\<open>Open\<close>; ten seconds are \<open>10 ^ 10\<close> nanoseconds.\<close>

definition open_config :: "RConfig \<Rightarrow> (rs_error, RConfig) result" where
  "open_config cfg =
     (let cfg = (if c_Version cfg = 0 then cfg\<lparr>c_Version := 2\<rparr> else cfg) in
      if c_Version cfg \<noteq> 1 \<and> c_Version cfg \<noteq> 2 then Inl (Err ErrVersion)
      else
        let cfg = (if c_ReplayWindow cfg = 0 then cfg\<lparr>c_ReplayWindow := 64\<rparr> else cfg);
            cfg = (if c_ReplayWindow cfg > 64 then cfg\<lparr>c_ReplayWindow := 64\<rparr> else cfg);
            cfg = (if c_ReplayReset cfg = 0 then cfg\<lparr>c_ReplayReset := 10 ^ 10\<rparr> else cfg);
            cfg = (if c_TTL cfg = 0 then cfg\<lparr>c_TTL := 1\<rparr> else cfg)
        in Inr cfg)"

record streamKey =
  st_from :: string
  st_si :: SessionID
  st_keyID :: "32 word"

record Stats =
  Accepted :: nat
  Malformed :: nat
  UnknownKey :: nat
  Unauthentic :: nat
  Unsecured :: nat
  Replayed :: nat

text \<open>\<open>s_send\<close> says whether there is a remote address; the map of replay windows is an association list.\<close>

record Session =
  s_cfg :: RConfig
  s_send :: bool
  s_number :: "32 word"
  s_replay :: "(streamKey \<times> replayWindow) list"
  s_pending :: "Frame list"
  s_stats :: Stats

definition stats_zero :: Stats where
  "stats_zero = \<lparr>Accepted = 0, Malformed = 0, UnknownKey = 0, Unauthentic = 0, Unsecured = 0, Replayed = 0\<rparr>"

definition Open :: "RConfig \<Rightarrow> bool \<Rightarrow> (rs_error, Session) result" where
  "Open cfg remote =
     rbind (open_config cfg) (\<lambda>cfg.
     Inr \<lparr>s_cfg = cfg, s_send = remote, s_number = 0, s_replay = [], s_pending = [], s_stats = stats_zero\<rparr>)"

definition maxStreams :: nat where "maxStreams = 4096"

section \<open>Sending\<close>

text \<open>\<open>write\<close> says whether \<^verbatim>\<open>WriteToUDP\<close> succeeds; the datagrams handed to it are returned.\<close>

definition rs_Send ::
  "crypto \<Rightarrow> KeyStore option \<Rightarrow> byte list option \<Rightarrow> bool \<Rightarrow> SessionID \<Rightarrow> Payload list \<Rightarrow> Session
     \<Rightarrow> (rs_error, unit) result \<times> byte list list \<times> Session" where
  "rs_Send C keys rnd write si payloads s =
     (if \<not> s_send s then (Inl (Err ErrNoRemote), [], s)
      else if keys \<noteq> None \<and> activeKey keys = None then (Inl (Err ErrNoActiveKey), [], s)
      else
        let spdu = \<lparr>SI = si, sp_Number = s_number s, Version = word_of_int (c_Version (s_cfg s)), KeyID = 0,
                    TimeOfCurrentKey = 0, TimeToNextKey = 0, Payloads = payloads, Signed = False, Encrypted = False\<rparr>
        in case spdu_Marshal C spdu (activeKey keys) rnd of
             Inl e \<Rightarrow> (Inl e, [], s)
           | Inr b \<Rightarrow> (if write then Inr () else Inl (Err SendError), [b], s\<lparr>s_number := s_number s + 1\<rparr>))"

section \<open>Receiving\<close>

definition stream_window ::
  "int \<Rightarrow> int \<Rightarrow> streamKey \<Rightarrow> (streamKey \<times> replayWindow) list \<Rightarrow> replayWindow \<times> (streamKey \<times> replayWindow) list" where
  "stream_window now reset k rep =
     (case map_of rep k of
        Some w \<Rightarrow> (w, rep)
      | None \<Rightarrow>
          let rep = (if length rep \<ge> maxStreams then filter (\<lambda>(key, old). \<not> (now - w_last old > reset)) rep else rep)
          in (replayWindow_zero, AList.update k replayWindow_zero rep))"

definition fresh :: "string \<Rightarrow> int \<Rightarrow> SPDU \<Rightarrow> Session \<Rightarrow> bool \<times> Session" where
  "fresh from now spdu s =
     (let k = \<lparr>st_from = from, st_si = SI spdu, st_keyID = KeyID spdu\<rparr>;
          (w, rep) = stream_window now (c_ReplayReset (s_cfg s)) k (s_replay s);
          (ok, w) = accept (sp_Number spdu) now (c_ReplayWindow (s_cfg s)) (c_ReplayReset (s_cfg s)) w
      in (ok, s\<lparr>s_replay := AList.update k w rep\<rparr>))"

definition check ::
  "crypto \<Rightarrow> KeyStore option \<Rightarrow> int \<Rightarrow> byte list \<times> string \<Rightarrow> Session \<Rightarrow> (rs_error, SPDU) result \<times> Session" where
  "check C keys now d s =
     (case spdu_Unmarshal C (fst d) keys of
        Inl Panic \<Rightarrow> (Inl Panic, s)
      | Inl (Err e) \<Rightarrow>
          (Inl (Err e), s\<lparr>s_stats :=
             (if e = ErrUnknownKey then (s_stats s)\<lparr>UnknownKey := UnknownKey (s_stats s) + 1\<rparr>
              else if e = ErrAuthentication \<or> e = ErrAlgorithm then (s_stats s)\<lparr>Unauthentic := Unauthentic (s_stats s) + 1\<rparr>
              else (s_stats s)\<lparr>Malformed := Malformed (s_stats s) + 1\<rparr>)\<rparr>)
      | Inr spdu \<Rightarrow>
          if KeyID spdu = 0 then
            (if \<not> c_AllowUnsecured (s_cfg s)
             then (Inl (Err ErrUnsecured), s\<lparr>s_stats := (s_stats s)\<lparr>Unsecured := Unsecured (s_stats s) + 1\<rparr>\<rparr>)
             else (Inr spdu, s))
          else if c_ReplayWindow (s_cfg s) > 0 then
            (case fresh (snd d) now spdu s of
               (False, s) \<Rightarrow> (Inl (Err ErrReplay), s\<lparr>s_stats := (s_stats s)\<lparr>Replayed := Replayed (s_stats s) + 1\<rparr>\<rparr>)
             | (True, s) \<Rightarrow> (Inr spdu, s))
          else (Inr spdu, s))"

text \<open>A queue of datagrams with the time each is taken. The result: the next SPDU with its sender
  (\<open>None\<close> when the queue ends and the session is closed) or the panic that ended the program, what was reported to
  \<^verbatim>\<open>OnReject\<close>, the rest of the queue.\<close>

type_synonym arrivals = "(int \<times> byte list \<times> string) list"

fun Receive ::
  "crypto \<Rightarrow> KeyStore option \<Rightarrow> arrivals \<Rightarrow> Session
     \<Rightarrow> (rs_error, (SPDU \<times> string) option) result \<times> (string \<times> rs_error) list \<times> arrivals \<times> Session" where
  "Receive C keys [] s = (Inr None, [], [], s)"
| "Receive C keys ((now, d) # q) s =
     (case check C keys now d s of
        (Inl Panic, s) \<Rightarrow> (Inl Panic, [], q, s)
      | (Inl (Err e), s) \<Rightarrow> (case Receive C keys q s of (r, rej, q', s') \<Rightarrow> (r, (snd d, e) # rej, q', s'))
      | (Inr spdu, s) \<Rightarrow> (Inr (Some (spdu, snd d)), [], q, s\<lparr>s_stats := (s_stats s)\<lparr>Accepted := Accepted (s_stats s) + 1\<rparr>\<rparr>))"

section \<open>Frames\<close>

definition l2Header :: nat where "l2Header = 8"
definition simBit :: "16 word" where "simBit = 0x8000"

definition WriteFrame ::
  "crypto \<Rightarrow> KeyStore option \<Rightarrow> byte list option \<Rightarrow> bool \<Rightarrow> Frame \<Rightarrow> Session
     \<Rightarrow> (rs_error, unit) result \<times> byte list list \<times> Session" where
  "WriteFrame C keys rnd write f s =
     (case (if fr_EtherType f = EtherTypeGOOSE then Some (SIGOOSE, PayloadGOOSE)
            else if fr_EtherType f = EtherTypeSV then Some (SISV, PayloadSV) else None) of
        None \<Rightarrow> (Inl (Err NotGooseOrSV), [], s)
      | Some (si, pt) \<Rightarrow>
          let p = fr_Payload f in
          if length p < l2Header then (Inl (Err ErrMalformed), [], s)
          else
            let len = unat (p ! 2) * 256 + unat (p ! 3);
                len = (if len < l2Header \<or> len > length p then length p else len)
            in rs_Send C keys rnd write si
                 [\<lparr>pl_Type = pt, Simulation = (u16_read [p ! 4, p ! 5] AND simBit \<noteq> 0),
                   pl_AppID = u16_read [p ! 0, p ! 1], APDU = take (len - l2Header) (drop l2Header p)\<rparr>] s)"

definition payload_frame :: "Payload \<Rightarrow> Frame option" where
  "payload_frame p =
     (case (if pl_Type p = PayloadGOOSE then Some EtherTypeGOOSE
            else if pl_Type p = PayloadSV then Some EtherTypeSV else None) of
        None \<Rightarrow> None
      | Some et \<Rightarrow>
          let len = l2Header + length (APDU p) in
          if len > 0xFFFF then None
          else
            let r1 = (if Simulation p then simBit else 0)
            in Some \<lparr>fr_Src = replicate 6 0, fr_Dst = replicate 6 0, fr_EtherType = et, fr_VLAN = None,
                     fr_Payload = u16_bytes (pl_AppID p) @ be16 len @ u16_bytes r1 @ [0, 0] @ APDU p\<rparr>)"

lemma Receive_shorter: "Receive C keys q s = (Inr (Some y), rej, q', s') \<Longrightarrow> length q' < length q"
proof (induction q arbitrary: s rej)
  case (Cons x q)
  obtain now d where x: "x = (now, d)" by (cases x)
  obtain r s1 where c: "check C keys now d s = (r, s1)" by (rule prod.exhaust)
  show ?case
  proof (cases "\<exists>e. r = Inl (Err e)")
    case True
    then obtain rej' where "Receive C keys q s1 = (Inr (Some y), rej', q', s')" using Cons.prems by (auto simp: x c split: prod.splits)
    from Cons.IH [OF this] show ?thesis by simp
  next
    case False
    then show ?thesis using Cons.prems by (auto simp: x c split: sum.splits failure.splits)
  qed
qed simp

function ReadFrame ::
  "crypto \<Rightarrow> KeyStore option \<Rightarrow> arrivals \<Rightarrow> Session
     \<Rightarrow> (rs_error, Frame option) result \<times> (string \<times> rs_error) list \<times> arrivals \<times> Session" where
  "ReadFrame C keys q s =
     (case s_pending s of
        f # fs \<Rightarrow> (Inr (Some f), [], q, s\<lparr>s_pending := fs\<rparr>)
      | [] \<Rightarrow>
          (case Receive C keys q s of
             (Inl e, rej, q', s') \<Rightarrow> (Inl e, rej, q', s')
           | (Inr None, rej, q', s') \<Rightarrow> (Inr None, rej, q', s')
           | (Inr (Some (spdu, _)), rej, q', s') \<Rightarrow>
               (case List.map_filter payload_frame (Payloads spdu) of
                  [] \<Rightarrow> (case ReadFrame C keys q' s' of (f, rej', q'', s'') \<Rightarrow> (f, rej @ rej', q'', s''))
                | f # fs \<Rightarrow> (Inr (Some f), rej, q', s'\<lparr>s_pending := s_pending s' @ fs\<rparr>))))"
  by pat_completeness auto

termination
  by (relation "measure (\<lambda>(C, keys, q, s). length q)") (auto dest: Receive_shorter [OF sym] Receive_shorter)

declare ReadFrame.simps [simp del]

section \<open>Replay state per sender\<close>

text \<open>The decisions of a session on a sequence of datagrams, up to one that panics, and the stream a datagram belongs to:
  its sender, session identifier and key, when it decodes to a secured SPDU.\<close>

fun check_run :: "crypto \<Rightarrow> KeyStore option \<Rightarrow> arrivals \<Rightarrow> Session \<Rightarrow> (rs_error, SPDU) result list" where
  "check_run C keys [] s = []"
| "check_run C keys ((now, d) # q) s = (case check C keys now d s of (r, s') \<Rightarrow> r # (if r = Inl Panic then [] else check_run C keys q s'))"

definition stream_of :: "crypto \<Rightarrow> KeyStore option \<Rightarrow> byte list \<times> string \<Rightarrow> streamKey option" where
  "stream_of C keys d =
     (case spdu_Unmarshal C (fst d) keys of
        Inl _ \<Rightarrow> None
      | Inr spdu \<Rightarrow> if KeyID spdu = 0 then None else Some \<lparr>st_from = snd d, st_si = SI spdu, st_keyID = KeyID spdu\<rparr>)"

definition number_of :: "crypto \<Rightarrow> KeyStore option \<Rightarrow> byte list \<times> string \<Rightarrow> 32 word" where
  "number_of C keys d = (case spdu_Unmarshal C (fst d) keys of Inl _ \<Rightarrow> 0 | Inr spdu \<Rightarrow> sp_Number spdu)"

lemma accept_reset:
  "\<not> w_primed w \<or> (reset > 0 \<and> now - w_last w > reset) \<Longrightarrow>
     accept n now sz reset w = (True, \<lparr>w_top = n, w_seen = 1, w_last = now, w_primed = True\<rparr>)"
  by (cases w) (auto simp: accept_def)

lemma map_of_filter_distinct:
  assumes "distinct (map fst xs)"
  shows "map_of (filter P xs) k = (case map_of xs k of None \<Rightarrow> None | Some v \<Rightarrow> if P (k, v) then Some v else None)"
  using assms by (induction xs) (auto simp: map_of_eq_None_iff split: option.splits)

definition win_of :: "streamKey \<Rightarrow> int \<Rightarrow> replayWindow \<Rightarrow> Session \<Rightarrow> bool" where
  "win_of k now w s =
     (distinct (map fst (s_replay s)) \<and>
      (case map_of (s_replay s) k of
         Some w' \<Rightarrow> w' = w
       | None \<Rightarrow> \<not> w_primed w \<or> now - w_last w > c_ReplayReset (s_cfg s)))"

lemma win_of_stats [simp]: "win_of k now w (s\<lparr>s_stats := st\<rparr>) = win_of k now w s"
  by (simp add: win_of_def cong: option.case_cong)

lemma fresh_cfg: "s_cfg (snd (fresh from now spdu s)) = s_cfg s"
  by (simp add: fresh_def Let_def split: prod.splits option.splits)

lemma fresh_own:
  assumes "win_of k start w s" and "start \<le> now" and "c_ReplayReset (s_cfg s) > 0"
    and "k = \<lparr>st_from = from, st_si = SI spdu, st_keyID = KeyID spdu\<rparr>"
    and "accept (sp_Number spdu) now (c_ReplayWindow (s_cfg s)) (c_ReplayReset (s_cfg s)) w = (ok, w')"
  shows "\<exists>s'. fresh from now spdu s = (ok, s') \<and> win_of k now w' s'"
proof (cases "map_of (s_replay s) k")
  case (Some v)
  then have "fresh from now spdu s = (ok, s\<lparr>s_replay := AList.update k w' (s_replay s)\<rparr>)"
    using assms by (simp add: win_of_def fresh_def stream_window_def Let_def)
  then show ?thesis using assms(1) by (simp add: win_of_def update_conv' distinct_update)
next
  case None
  let ?rep = "if length (s_replay s) \<ge> maxStreams
    then filter (\<lambda>(key, old). \<not> (now - w_last old > c_ReplayReset (s_cfg s))) (s_replay s) else s_replay s"
  have "accept (sp_Number spdu) now (c_ReplayWindow (s_cfg s)) (c_ReplayReset (s_cfg s)) replayWindow_zero = (ok, w')"
    using assms None accept_reset [of w "c_ReplayReset (s_cfg s)" now] accept_reset [of replayWindow_zero "c_ReplayReset (s_cfg s)" now]
    by (auto simp: win_of_def replayWindow_zero_def)
  then have "fresh from now spdu s = (ok, s\<lparr>s_replay := AList.update k w' (AList.update k replayWindow_zero ?rep)\<rparr>)"
    using None assms(4) by (simp add: fresh_def stream_window_def Let_def)
  moreover have "distinct (map fst ?rep)" using assms(1) by (auto simp: win_of_def distinct_map_filter)
  ultimately show ?thesis by (simp add: win_of_def update_conv' distinct_update)
qed

lemma fresh_other:
  assumes "win_of k start w s" and "start \<le> now" and "c_ReplayReset (s_cfg s) > 0"
    and "k \<noteq> \<lparr>st_from = from, st_si = SI spdu, st_keyID = KeyID spdu\<rparr>"
  shows "win_of k now w (snd (fresh from now spdu s))"
proof -
  let ?k = "\<lparr>st_from = from, st_si = SI spdu, st_keyID = KeyID spdu\<rparr>"
  let ?f = "filter (\<lambda>(key, old). \<not> (now - w_last old > c_ReplayReset (s_cfg s))) (s_replay s)"
  have d: "distinct (map fst (s_replay s))" "distinct (map fst ?f)"
    using assms(1) by (auto simp: win_of_def distinct_map_filter)
  obtain rep v where "s_replay (snd (fresh from now spdu s)) = AList.update ?k v rep"
      and rep: "rep = s_replay s \<or> rep = AList.update ?k replayWindow_zero (s_replay s) \<or> rep = AList.update ?k replayWindow_zero ?f"
  proof -
    obtain w0 rep ok v where "stream_window now (c_ReplayReset (s_cfg s)) ?k (s_replay s) = (w0, rep)"
      "accept (sp_Number spdu) now (c_ReplayWindow (s_cfg s)) (c_ReplayReset (s_cfg s)) w0 = (ok, v)" by (metis prod.exhaust)
    then show thesis by (intro that [of v rep])
      (auto simp: fresh_def stream_window_def Let_def split: prod.splits option.splits if_splits)
  qed
  then show ?thesis
    using assms d map_of_filter_distinct [OF d(1), of "\<lambda>(key, old). \<not> (now - w_last old > c_ReplayReset (s_cfg s))" k]
    by (auto simp: win_of_def fresh_cfg update_conv' distinct_update split: option.splits if_splits)
qed

lemma check_cfg: "s_cfg (snd (check C keys now d s)) = s_cfg s"
  using fresh_cfg [of "snd d" now _ s]
  by (auto simp: check_def split: sum.splits failure.splits prod.splits bool.splits) (metis snd_conv)+

lemma check_other:
  assumes "win_of k start w s" and "start \<le> now" and "c_ReplayReset (s_cfg s) > 0" and "stream_of C keys d \<noteq> Some k"
  shows "win_of k now w (snd (check C keys now d s))"
proof -
  have keep: "win_of k now w s'" if "s_replay s' = s_replay s" "s_cfg s' = s_cfg s" for s'
    using assms(1,2) that by (cases "map_of (s_replay s) k") (simp_all add: win_of_def del: map_of_eq_Some_iff, linarith)
  show ?thesis
  proof (cases "spdu_Unmarshal C (fst d) keys")
    case (Inl e)
    then show ?thesis by (cases e) (auto simp: check_def intro!: keep)
  next
    case (Inr spdu)
    show ?thesis
    proof (cases "KeyID spdu = 0 \<or> c_ReplayWindow (s_cfg s) \<le> 0")
      case True
      then show ?thesis using Inr by (auto simp: check_def intro!: keep)
    next
      case False
      then have "win_of k now w (snd (fresh (snd d) now spdu s))"
        using assms Inr by (intro fresh_other) (auto simp: stream_of_def)
      then show ?thesis using False Inr
        by (auto simp: check_def split: prod.splits bool.splits)
    qed
  qed
qed

lemma check_own:
  assumes "win_of k start w s" and "start \<le> now" and "c_ReplayReset (s_cfg s) > 0" and "c_ReplayWindow (s_cfg s) > 0"
    and "stream_of C keys d = Some k"
    and "accept (number_of C keys d) now (c_ReplayWindow (s_cfg s)) (c_ReplayReset (s_cfg s)) w = (ok, w')"
  shows "win_of k now w' (snd (check C keys now d s)) \<and> isl (fst (check C keys now d s)) = (\<not> ok)"
proof -
  obtain spdu where u: "spdu_Unmarshal C (fst d) keys = Inr spdu" "KeyID spdu \<noteq> 0"
    "k = \<lparr>st_from = snd d, st_si = SI spdu, st_keyID = KeyID spdu\<rparr>"
    using assms(5) by (auto simp: stream_of_def split: sum.splits if_splits)
  obtain s' where "fresh (snd d) now spdu s = (ok, s')" "win_of k now w' s'"
    using fresh_own [OF assms(1-3) u(3), of ok w'] assms(6) u(1) by (auto simp: number_of_def)
  then show ?thesis using u(1,2) assms(4) by (cases ok) (simp_all add: check_def)
qed

lemma check_panics: "fst (check C keys now d s) = Inl Panic \<longleftrightarrow> spdu_Unmarshal C (fst d) keys = Inl Panic"
  by (auto simp: check_def split: sum.splits failure.splits prod.splits bool.splits)

lemma check_run_stream:
  assumes "win_of k start w s" and "c_ReplayReset (s_cfg s) > 0" and "c_ReplayWindow (s_cfg s) > 0"
    and "sorted (start # map fst q)"
  shows "[\<not> isl r. ((now, d), r) \<leftarrow> zip q (check_run C keys q s), stream_of C keys d = Some k] =
    replay_run (c_ReplayWindow (s_cfg s)) (c_ReplayReset (s_cfg s)) w
      [(number_of C keys d, now). (now, d) \<leftarrow> take (length (check_run C keys q s)) q, stream_of C keys d = Some k]"
  using assms
proof (induction q arbitrary: start w s)
  case (Cons x q)
  obtain now d where x: "x = (now, d)" by (cases x)
  obtain r s' where c: "check C keys now d s = (r, s')" by force
  have cfg: "s_cfg s' = s_cfg s" using check_cfg [of C keys now d s] c by simp
  have le: "start \<le> now" "sorted (now # map fst q)" using Cons.prems(4) x by auto
  show ?case
  proof (cases "stream_of C keys d = Some k")
    case False
    have "win_of k now w s'" using check_other [OF Cons.prems(1) le(1) Cons.prems(2) False] c by simp
    from Cons.IH [OF this] show ?thesis using Cons.prems(2,3) le(2) False by (cases "r = Inl Panic") (simp_all add: x c cfg)
  next
    case True
    obtain ok w' where a: "accept (number_of C keys d) now (c_ReplayWindow (s_cfg s)) (c_ReplayReset (s_cfg s)) w = (ok, w')" by force
    note own = check_own [OF Cons.prems(1) le(1) Cons.prems(2,3) True a]
    then have "win_of k now w' s'" using c by simp
    note ih = Cons.IH [OF this]
    have np: "r \<noteq> Inl Panic" using True c check_panics [of C keys now d s] by (auto simp: stream_of_def)
    from ih show ?thesis using Cons.prems(2,3) le(2) True a own np by (simp add: x c cfg)
  qed
qed simp

section \<open>Frames over the session\<close>

lemma be16_read: "n \<le> 0xFFFF \<Longrightarrow> be16 n = [x, y] \<Longrightarrow> unat x * 256 + unat y = n"
  by (auto simp: be16_eq unat_byte_of)

lemma u16_pair: "u16_bytes w = [x, y] \<Longrightarrow> u16_read [x, y] = w"
  using u16_read_bytes [of w] by simp

lemma WriteFrame_wellformed:
  assumes "length apdu \<le> 0xFFF7" and "fr_EtherType f = EtherTypeGOOSE \<or> fr_EtherType f = EtherTypeSV"
    and "fr_Payload f = u16_bytes appid @ be16 (l2Header + length apdu) @ u16_bytes r1 @ u16_bytes r2 @ apdu"
  shows "WriteFrame C keys rnd write f s =
    rs_Send C keys rnd write (if fr_EtherType f = EtherTypeGOOSE then SIGOOSE else SISV)
      [\<lparr>pl_Type = (if fr_EtherType f = EtherTypeGOOSE then PayloadGOOSE else PayloadSV), Simulation = (r1 AND simBit \<noteq> 0),
        pl_AppID = appid, APDU = apdu\<rparr>] s"
proof -
  obtain a0 a1 where a: "u16_bytes appid = [a0, a1]" by (simp add: u16_bytes_def)
  obtain l0 l1 where l: "be16 (l2Header + length apdu) = [l0, l1]" by (simp add: numeral_2_eq_2)
  obtain r0 r1' where r: "u16_bytes r1 = [r0, r1']" by (simp add: u16_bytes_def)
  obtain q0 q1 where q: "u16_bytes r2 = [q0, q1]" by (simp add: u16_bytes_def)
  have len: "unat l0 * 256 + unat l1 = l2Header + length apdu"
    using be16_read [OF _ l] assms(1) by (simp add: l2Header_def)
  have p: "fr_Payload f = [a0, a1, l0, l1, r0, r1', q0, q1] @ apdu" using assms(3) a l r q by simp
  show ?thesis using assms(2) len unfolding WriteFrame_def
    by (simp add: p Let_def u16_pair [OF a] u16_pair [OF r] l2Header_def) (auto simp: EtherTypeGOOSE_def EtherTypeSV_def)
qed

text \<open>A frame that comes out of the session: no addresses, no tag, of the reserved words the simulation bit.\<close>

definition session_frame :: "16 word \<Rightarrow> 16 word \<Rightarrow> 16 word \<Rightarrow> byte list \<Rightarrow> Frame" where
  "session_frame et appid r1 apdu =
     \<lparr>fr_Src = replicate 6 0, fr_Dst = replicate 6 0, fr_EtherType = et, fr_VLAN = None,
      fr_Payload = u16_bytes appid @ be16 (l2Header + length apdu) @ u16_bytes (r1 AND simBit) @ u16_bytes 0 @ apdu\<rparr>"

lemma simBit_cases: "r1 AND simBit = (if r1 AND simBit \<noteq> 0 then simBit else 0)"
proof -
  have "r1 AND simBit \<noteq> 0 \<longleftrightarrow> bit r1 15"
    using and_exp_zero [of r1 15] by (simp add: simBit_def)
  moreover have "bit (simBit :: 16 word) i \<longleftrightarrow> i = 15" if "i < 16" for i
    using bit_exp_int [of 15 i] that by (simp add: simBit_def bit_simps)
  ultimately show ?thesis by (auto intro!: bit_word_eqI simp: bit_simps)
qed

lemma u16_bytes_0: "u16_bytes 0 = [0, 0]"
  by (simp add: u16_bytes_def)

lemma payload_frame_eq:
  assumes "length apdu \<le> 0xFFF7" and "et = EtherTypeGOOSE \<or> et = EtherTypeSV"
  shows "payload_frame \<lparr>pl_Type = (if et = EtherTypeGOOSE then PayloadGOOSE else PayloadSV), Simulation = (r1 AND simBit \<noteq> 0),
        pl_AppID = appid, APDU = apdu\<rparr> = Some (session_frame et appid r1 apdu)"
  using assms simBit_cases [of r1]
  by (auto simp: payload_frame_def session_frame_def Let_def l2Header_def u16_bytes_0 PayloadGOOSE_def PayloadSV_def
      EtherTypeGOOSE_def EtherTypeSV_def simp del: be_bytes.simps)

text \<open>What a session sends, a session that holds the key decodes.\<close>

lemma Send_decodes:
  assumes "crypto_ok C" and "length iv = gcmIVLen" and "s_send s" and "c_Version (s_cfg s) \<in> {1, 2}"
    and "keys = None \<or> activeKey keys \<noteq> None"
    and "\<forall>k. activeKey keys = Some k \<longrightarrow> key_validate k = None \<and> (c_Version (s_cfg s) = 1 \<longrightarrow> k_Sec k = SecNone)
           \<and> ks_lookup keysR (k_ID k) = Some k"
    and "length (APDU p) \<le> 0xFFFF"
  obtains b spdu where "rs_Send C keys (Some iv) True si [p] s = (Inr (), [b], s\<lparr>s_number := s_number s + 1\<rparr>)"
    and "spdu_Unmarshal C b keysR = Inr spdu" and "SI spdu = si" and "Payloads spdu = [p]" and "sp_Number spdu = s_number s"
    and "KeyID spdu = fst (key_ids (activeKey keys))"
proof -
  define out where "out = \<lparr>SI = si, sp_Number = s_number s, Version = word_of_int (c_Version (s_cfg s)), KeyID = 0,
                    TimeOfCurrentKey = 0, TimeToNextKey = 0, Payloads = [p], Signed = False, Encrypted = False\<rparr>"
  have v: "Version out \<in> {0, 1, 2}" "Version out = 1 \<longleftrightarrow> c_Version (s_cfg s) = 1" using assms(4) by (auto simp: out_def)
  have u: "length (concat (map payload_octets (Payloads out))) < 2 ^ 32" using assms(7) by (simp add: out_def elementHeader_def)
  have rt: "rbind (spdu_Marshal C out (activeKey keys) (Some iv)) (\<lambda>b. spdu_Unmarshal C b keysR) =
    Inr (out\<lparr>Version := (if Version out = 0 then 2 else Version out), KeyID := fst (key_ids (activeKey keys)),
        TimeOfCurrentKey := fst (snd (key_ids (activeKey keys))), TimeToNextKey := snd (snd (key_ids (activeKey keys))),
        Signed := (case activeKey keys of None \<Rightarrow> False | Some k \<Rightarrow> k_Sec k = SecNone),
        Encrypted := (case activeKey keys of None \<Rightarrow> False | Some k \<Rightarrow> k_Sec k \<noteq> SecNone)\<rparr>)"
    using assms(6,7) v by (intro spdu_roundtrip_lemma [OF assms(1) v(1) _ u assms(2)]) (auto simp: out_def)
  then obtain b where m: "spdu_Marshal C out (activeKey keys) (Some iv) = Inr b"
    and un: "spdu_Unmarshal C b keysR = Inr (out\<lparr>Version := (if Version out = 0 then 2 else Version out), KeyID := fst (key_ids (activeKey keys)),
        TimeOfCurrentKey := fst (snd (key_ids (activeKey keys))), TimeToNextKey := snd (snd (key_ids (activeKey keys))),
        Signed := (case activeKey keys of None \<Rightarrow> False | Some k \<Rightarrow> k_Sec k = SecNone),
        Encrypted := (case activeKey keys of None \<Rightarrow> False | Some k \<Rightarrow> k_Sec k \<noteq> SecNone)\<rparr>)"
    by (auto simp: rbind_eq_Inr)
  have "rs_Send C keys (Some iv) True si [p] s = (Inr (), [b], s\<lparr>s_number := s_number s + 1\<rparr>)"
    using assms(3,5) m by (auto simp: rs_Send_def out_def [symmetric])
  then show thesis using that un by (simp add: out_def)
qed

lemma check_new_stream:
  assumes "spdu_Unmarshal C b keys = Inr spdu" and "KeyID spdu = 0 \<Longrightarrow> c_AllowUnsecured (s_cfg r)"
    and "map_of (s_replay r) \<lparr>st_from = from, st_si = SI spdu, st_keyID = KeyID spdu\<rparr> = None"
  shows "\<exists>r'. check C keys now (b, from) r = (Inr spdu, r') \<and> s_pending r' = s_pending r"
proof -
  have "accept n now sz reset replayWindow_zero = (True, \<lparr>w_top = n, w_seen = 1, w_last = now, w_primed = True\<rparr>)" for n sz reset
    by (rule accept_reset) (simp add: replayWindow_zero_def)
  then show ?thesis using assms by (auto simp: check_def fresh_def stream_window_def Let_def)
qed

definition rejections :: "Stats \<Rightarrow> nat" where
  "rejections st = Malformed st + UnknownKey st + Unauthentic st + Unsecured st + Replayed st"

lemma check_counts:
  assumes "check C keys now d s = (res, s')"
  shows "rejections (s_stats s') = rejections (s_stats s) + (case res of Inl (Err e) \<Rightarrow> 1 | _ \<Rightarrow> 0) \<and> Accepted (s_stats s') = Accepted (s_stats s)"
proof -
  have f: "s_stats (snd (fresh src now spdu s)) = s_stats s" for src spdu
    by (simp add: fresh_def Let_def split: prod.splits)
  show ?thesis
  proof (cases "spdu_Unmarshal C (fst d) keys")
    case (Inl e)
    then show ?thesis
    proof (cases e)
      case (Err x)
      then have "res = Inl (Err x)" using assms Inl by (simp add: check_def)
      then show ?thesis using assms Inl Err by (auto simp: check_def rejections_def)
    next
      case Panic
      then have "res = Inl Panic" "s' = s" using assms Inl by (simp_all add: check_def)
      then show ?thesis by simp
    qed
  next
    case (Inr spdu)
    show ?thesis using assms f [of "snd d" spdu] by (auto simp: check_def rejections_def Inr split: if_splits prod.splits bool.splits)
  qed
qed

lemma check_policy:
  assumes "check C keys now d s = (Inr spdu, s')"
  shows "spdu_Unmarshal C (fst d) keys = Inr spdu \<and> (KeyID spdu = 0 \<longrightarrow> c_AllowUnsecured (s_cfg s)) \<and> s_cfg s' = s_cfg s"
  using assms check_cfg [of C keys now d s]
  by (cases "spdu_Unmarshal C (fst d) keys")
    (auto simp: check_def split: failure.splits if_splits prod.splits bool.splits)

definition sample_session :: Session where
  "sample_session = \<lparr>s_cfg = \<lparr>c_Version = 2, c_TTL = 1, c_AllowUnsecured = False, c_ReplayWindow = 64, c_ReplayReset = 10 ^ 10\<rparr>,
     s_send = True, s_number = 0, s_replay = [], s_pending = [], s_stats = stats_zero\<rparr>"

section \<open>Properties\<close>

text \<open>A GOOSE or Sampled Values frame written to a session and received by a session that holds
  the key (or that admits unsecured SPDUs, when the sender has no key store) is handed back as a frame
  of the same EtherType, APPID, length and APDU, with the simulation bit of the first reserved word.\<close>

theorem session_frame_roundtrip:
  assumes "crypto_ok C" and "length iv = gcmIVLen" and "s_send s" and "c_Version (s_cfg s) \<in> {1, 2}"
    and "keys = None \<or> activeKey keys \<noteq> None"
    and "\<forall>k. activeKey keys = Some k \<longrightarrow> key_validate k = None \<and> (c_Version (s_cfg s) = 1 \<longrightarrow> k_Sec k = SecNone)
           \<and> ks_lookup keysR (k_ID k) = Some k"
    and "keys = None \<longrightarrow> c_AllowUnsecured (s_cfg r)" and "s_pending r = []" and "s_replay r = []"
    and "fr_EtherType f = EtherTypeGOOSE \<or> fr_EtherType f = EtherTypeSV" and "length apdu \<le> 0xFFF7"
    and "fr_Payload f = u16_bytes appid @ be16 (l2Header + length apdu) @ u16_bytes r1 @ u16_bytes r2 @ apdu"
  shows "\<exists>b r'. WriteFrame C keys (Some iv) True f s = (Inr (), [b], s\<lparr>s_number := s_number s + 1\<rparr>)
    \<and> ReadFrame C keysR [(now, b, from)] r = (Inr (Some (session_frame (fr_EtherType f) appid r1 apdu)), [], [], r')
    \<and> s_pending r' = []"
proof -
  let ?si = "if fr_EtherType f = EtherTypeGOOSE then SIGOOSE else SISV"
  let ?p = "\<lparr>pl_Type = (if fr_EtherType f = EtherTypeGOOSE then PayloadGOOSE else PayloadSV), Simulation = (r1 AND simBit \<noteq> 0),
        pl_AppID = appid, APDU = apdu\<rparr>"
  obtain b spdu where send: "rs_Send C keys (Some iv) True ?si [?p] s = (Inr (), [b], s\<lparr>s_number := s_number s + 1\<rparr>)"
    and un: "spdu_Unmarshal C b keysR = Inr spdu" "Payloads spdu = [?p]" "KeyID spdu = fst (key_ids (activeKey keys))"
    by (rule Send_decodes [OF assms(1-6), of ?p ?si]) (use assms(11) in simp_all)
  have "KeyID spdu = 0 \<Longrightarrow> c_AllowUnsecured (s_cfg r)"
    using un(3) assms(5-7) valid_key(1) by (auto simp: key_ids_def split: option.splits)
  then obtain r' where ch: "check C keysR now (b, from) r = (Inr spdu, r')" "s_pending r' = []"
    using check_new_stream [OF un(1), of r "from" now] assms(8,9) by auto
  show ?thesis
    unfolding WriteFrame_wellformed [OF assms(11,10,12)]
    using send ch payload_frame_eq [OF assms(11,10), of r1 appid] un(2) assms(8)
    by (subst ReadFrame.simps) (simp add: map_filter_simps)
qed

theorem session_frame_roundtrip_witness:
  "\<exists>b r'. WriteFrame plain_crypto sample_store (Some (replicate 12 9)) True
        \<lparr>fr_Src = replicate 6 1, fr_Dst = replicate 6 2, fr_EtherType = EtherTypeGOOSE, fr_VLAN = None,
         fr_Payload = u16_bytes 0x1000 @ be16 (l2Header + length [0x61, 0 :: byte]) @ u16_bytes 0x8001 @ u16_bytes 3 @ [0x61, 0]\<rparr>
        sample_session = (Inr (), [b], sample_session\<lparr>s_number := 1\<rparr>)
    \<and> ReadFrame plain_crypto sample_store [(0, b, ''peer'')] sample_session
        = (Inr (Some (session_frame EtherTypeGOOSE 0x1000 0x8001 [0x61, 0])), [], [], r')"
proof -
  have k: "\<forall>k. activeKey sample_store = Some k \<longrightarrow> key_validate k = None \<and> (c_Version (s_cfg sample_session) = 1 \<longrightarrow> k_Sec k = SecNone)
           \<and> ks_lookup sample_store (k_ID k) = Some k"
    by (simp add: sample_store_def activeKey_def ks_lookup_def sample_key_def sample_session_def key_validate_def keyLen_def algorithm_defs)
  let ?f = "\<lparr>fr_Src = replicate 6 1, fr_Dst = replicate 6 2, fr_EtherType = EtherTypeGOOSE, fr_VLAN = None,
         fr_Payload = u16_bytes 0x1000 @ be16 (l2Header + length [0x61, 0 :: byte]) @ u16_bytes 0x8001 @ u16_bytes 3 @ [0x61, 0]\<rparr>"
  have n: "sample_session\<lparr>s_number := s_number sample_session + 1\<rparr> = sample_session\<lparr>s_number := 1\<rparr>" by (simp add: sample_session_def)
  have "\<exists>b r'. WriteFrame plain_crypto sample_store (Some (replicate 12 9)) True ?f sample_session =
        (Inr (), [b], sample_session\<lparr>s_number := s_number sample_session + 1\<rparr>)
    \<and> ReadFrame plain_crypto sample_store [(0, b, ''peer'')] sample_session
        = (Inr (Some (session_frame (fr_EtherType ?f) 0x1000 0x8001 [0x61, 0])), [], [], r') \<and> s_pending r' = []"
    by (rule session_frame_roundtrip [OF plain_crypto_ok _ _ _ _ k, where ?r2.0 = 3])
      (simp_all add: sample_session_def sample_store_def activeKey_def gcmIVLen_def)
  then show ?thesis unfolding n by auto
qed

text \<open>(C32) Accounting and policy of a receiver: every datagram that is taken from the queue raises exactly one counter of the
  statistics, and each refused one is reported once; an SPDU that is returned is the decoded form of the last datagram taken,
  unsecured only where the configuration admits that. The one exception ends the program: a datagram whose decoding panics raises no
  counter and is not reported, and it is a version 1 SPDU that names an encrypting key of the receiver's store.\<close>

theorem receive_accounting:
  assumes "Receive C keys q s = (res, rej, q', s')"
  shows "rejections (s_stats s') = rejections (s_stats s) + length rej
    \<and> (case res of
         Inr None \<Rightarrow> q' = [] \<and> length rej = length q \<and> Accepted (s_stats s') = Accepted (s_stats s)
       | Inr (Some (spdu, src)) \<Rightarrow> length rej < length q \<and> q' = drop (Suc (length rej)) q
           \<and> Accepted (s_stats s') = Suc (Accepted (s_stats s))
           \<and> (\<exists>now b. q ! length rej = (now, b, src) \<and> spdu_Unmarshal C b keys = Inr spdu)
           \<and> (KeyID spdu = 0 \<longrightarrow> c_AllowUnsecured (s_cfg s))
       | Inl e \<Rightarrow> e = Panic \<and> length rej < length q \<and> q' = drop (Suc (length rej)) q \<and> Accepted (s_stats s') = Accepted (s_stats s)
           \<and> (\<exists>now b src. q ! length rej = (now, b, src) \<and> v1_encrypted keys b))"
  using assms
proof (induction q arbitrary: s rej)
  case (Cons x q)
  obtain now b src where x: "x = (now, b, src)" by (cases x)
  obtain r s1 where c: "check C keys now (b, src) s = (r, s1)" by force
  note cnt = check_counts [OF c]
  consider (panic) "r = Inl Panic" | (refused) e where "r = Inl (Err e)" | (accepted) spdu where "r = Inr spdu"
    by (metis failure.exhaust sum.exhaust)
  then show ?case
  proof cases
    case panic
    then have "spdu_Unmarshal C b keys = Inl Panic" using check_panics [of C keys now "(b, src)" s] c by simp
    from Unmarshal_panics [OF this] show ?thesis using Cons.prems c cnt by (auto simp: x panic)
  next
    case refused
    obtain rej' where rec: "Receive C keys q s1 = (res, rej', q', s')" and rej: "rej = (src, e) # rej'"
      using Cons.prems by (auto simp: x c refused split: prod.splits)
    have "s_cfg s1 = s_cfg s" using check_cfg [of C keys now "(b, src)" s] c by simp
    with Cons.IH [OF rec] cnt show ?thesis by (auto simp: rej refused split: sum.splits option.splits)
  next
    case accepted
    then have "check C keys now (b, src) s = (Inr spdu, s1)" using c by simp
    from check_policy [OF this] show ?thesis using Cons.prems c cnt by (auto simp: x accepted rejections_def)
  qed
qed auto

theorem receive_accounting_witness:
  "\<exists>src s'. Receive plain_crypto sample_store [(0, [], ''a''), (1, sample_wire, ''b''), (2, [], ''c'')] sample_session
     = (Inr (Some (sample_spdu\<lparr>Version := 2, KeyID := 7, TimeOfCurrentKey := 5, TimeToNextKey := 60, Encrypted := True\<rparr>, src)),
        [(''a'', ErrMalformed)], [(2, [], ''c'')], s')
     \<and> rejections (s_stats s') = 1 \<and> Accepted (s_stats s') = 1"
proof -
  obtain s' where r: "Receive plain_crypto sample_store [(0, [], ''a''), (1, sample_wire, ''b''), (2, [], ''c'')] sample_session
     = (Inr (Some (sample_spdu\<lparr>Version := 2, KeyID := 7, TimeOfCurrentKey := 5, TimeToNextKey := 60, Encrypted := True\<rparr>, ''b'')),
        [(''a'', ErrMalformed)], [(2, [], ''c'')], s')"
    by (rule that [of "snd (snd (snd (Receive plain_crypto sample_store [(0, [], ''a''), (1, sample_wire, ''b''), (2, [], ''c'')] sample_session)))"]) code_simp
  have z: "rejections (s_stats sample_session) = 0" "Accepted (s_stats sample_session) = 0" by code_simp+
  show ?thesis using r receive_accounting [OF r] by (auto simp: z)
qed

text \<open>The exception is real: a datagram of 50 octets from a sender without the key.\<close>

theorem receive_panics: "fst (Receive C sample_store [(0, v1_wire, src)] s) = Inl Panic"
  using check_panics [of C sample_store 0 "(v1_wire, src)" s] v1_wire_panics [of C]
  by (auto split: prod.splits sum.splits failure.splits)

text \<open>(C28) Replay protection per sender: with a positive reset time and window, and datagrams handled in the order
  of time, the session accepts of each stream (sender, session identifier, key) exactly what a replay
  window of its own accepts, however many streams are interleaved: the clean-up that bounds the number
  of windows changes no decision. It holds for the datagrams handled, which end with one that panics. With the negative reset
  time that is documented as never it does not hold (\<open>negative_reset_forgets\<close>).\<close>

theorem session_replay_streams:
  assumes "c_ReplayReset (s_cfg s) > 0" and "c_ReplayWindow (s_cfg s) > 0" and "s_replay s = []" and "sorted (map fst q)"
  shows "[\<not> isl r. ((now, d), r) \<leftarrow> zip q (check_run C keys q s), stream_of C keys d = Some k] =
    replay_run (c_ReplayWindow (s_cfg s)) (c_ReplayReset (s_cfg s)) replayWindow_zero
      [(number_of C keys d, now). (now, d) \<leftarrow> take (length (check_run C keys q s)) q, stream_of C keys d = Some k]"
proof (cases q)
  case (Cons x q')
  then show ?thesis using assms
    by (intro check_run_stream [of _ "fst x"]) (auto simp: win_of_def replayWindow_zero_def)
qed simp

theorem session_replay_streams_witness:
  "[\<not> isl r. ((now, d), r) \<leftarrow> zip [(0 :: int, sample_wire, ''a''), (1, sample_wire, ''b''), (2, sample_wire, ''a'')]
        (check_run plain_crypto sample_store [(0, sample_wire, ''a''), (1, sample_wire, ''b''), (2, sample_wire, ''a'')] sample_session),
      stream_of plain_crypto sample_store d = Some \<lparr>st_from = ''a'', st_si = SIGOOSE, st_keyID = 7\<rparr>] = [True, False]"
  (is "?lhs = _")
proof -
  let ?q = "[(0, sample_wire, ''a''), (1, sample_wire, ''b''), (2, sample_wire, ''a'')]"
  have "stream_of plain_crypto sample_store (sample_wire, ''a'') = Some \<lparr>st_from = ''a'', st_si = SIGOOSE, st_keyID = 7\<rparr>"
    "stream_of plain_crypto sample_store (sample_wire, ''b'') = Some \<lparr>st_from = ''b'', st_si = SIGOOSE, st_keyID = 7\<rparr>"
    "number_of plain_crypto sample_store (sample_wire, ''a'') = 1" by code_simp+
  then have sub: "[(number_of plain_crypto sample_store d, now). (now, d) \<leftarrow> ?q,
      stream_of plain_crypto sample_store d = Some \<lparr>st_from = ''a'', st_si = SIGOOSE, st_keyID = 7\<rparr>] = [(1, 0), (1, 2)]"
    by simp
  have len: "take (length (check_run plain_crypto sample_store ?q sample_session)) ?q = ?q"
  proof -
    have "length (check_run plain_crypto sample_store ?q sample_session) = 3" by code_simp
    then show ?thesis by simp
  qed
  have "?lhs = replay_run (c_ReplayWindow (s_cfg sample_session)) (c_ReplayReset (s_cfg sample_session)) replayWindow_zero
      [(number_of plain_crypto sample_store d, now). (now, d) \<leftarrow> ?q,
      stream_of plain_crypto sample_store d = Some \<lparr>st_from = ''a'', st_si = SIGOOSE, st_keyID = 7\<rparr>]"
    using session_replay_streams [of sample_session ?q plain_crypto sample_store "\<lparr>st_from = ''a'', st_si = SIGOOSE, st_keyID = 7\<rparr>"]
    unfolding len by (simp add: sample_session_def)
  also have "\<dots> = [True, False]" unfolding sub by (simp add: sample_session_def accept_def replayWindow_zero_def)
  finally show ?thesis .
qed

text \<open>With a negative reset time, documented as never, the same clean-up drops every window once there
  are \<open>maxStreams\<close> of them, so that what was accepted before is accepted again.\<close>

theorem negative_reset_forgets:
  assumes "c_ReplayReset (s_cfg s) < 0" and "length (s_replay s) \<ge> maxStreams" and "\<forall>(key, w) \<in> set (s_replay s). w_last w \<le> now"
    and "map_of (s_replay s) \<lparr>st_from = src, st_si = SI spdu, st_keyID = KeyID spdu\<rparr> = None"
  shows "map fst (s_replay (snd (fresh src now spdu s))) = [\<lparr>st_from = src, st_si = SI spdu, st_keyID = KeyID spdu\<rparr>]"
proof -
  have "filter (\<lambda>(key, old). \<not> (now - w_last old > c_ReplayReset (s_cfg s))) (s_replay s) = []"
    using assms(1,3) by (force simp: filter_empty_conv)
  then show ?thesis using assms by (simp add: fresh_def stream_window_def Let_def split: prod.splits)
qed

end
