(* ===== verification/Nodes.thy ===== *)
theory Nodes
  imports Model
begin

text \<open>
  The data model an IED serves (\<^verbatim>\<open>model/nodes.go\<close>): devices, nodes, data objects and
  attributes, the resolution of a reference, and the assignment of an attribute's value. The source
  shares the tree by pointers and assigns \<^verbatim>\<open>da.Value\<close>; here the tree is a value and the
  assignment rebuilds it along the path by which the attribute was found. The locale
  \<open>attribute_store\<close> is what the server relies on.
\<close>

section \<open>Data\<close>

definition fc_ST :: FC where "fc_ST = 1"
definition fc_MX :: FC where "fc_MX = 2"
definition fc_CO :: FC where "fc_CO = 3"
definition fc_SP :: FC where "fc_SP = 4"
definition fc_SG :: FC where "fc_SG = 5"
definition fc_SE :: FC where "fc_SE = 6"
definition fc_SV :: FC where "fc_SV = 7"
definition fc_CF :: FC where "fc_CF = 8"
definition fc_EX :: FC where "fc_EX = 10"
definition fc_OR :: FC where "fc_OR = 11"

datatype DataAttribute =
  DataAttribute (da_Name: string) (da_FC: FC) (da_FCName: string) (da_Kind: Type) (da_BType: string) (da_Count: int)
    (da_Children: "DataAttribute list") (da_Value: Value) (da_TrgOps: TrgOps)

datatype DataObject =
  DataObject (do_Name: string) (do_CDC: string) (do_Objects: "DataObject list") (do_Attributes: "DataAttribute list")

record FCDA =
  fcda_Ref :: ObjectReference
  fcda_FC :: FC
  fcda_FCName :: string

record DataSet =
  ds_Name :: string
  ds_Entries :: "FCDA list"
  ds_Deletable :: bool

record SettingControl =
  sc_NumOfSGs :: int
  sc_ActSG :: int
  sc_ResvTms :: int

text \<open>The values a configured setting group gives to attributes, by reference.\<close>

record SettingGroup =
  grp_Number :: int
  grp_LD :: string
  grp_Values :: "(string \<times> Value) list"

text \<open>The configuration of control blocks. An address is its octets, empty for nil.\<close>

type_synonym IP = "byte list"

record ClientReservation =
  cr_IEDName :: string
  cr_IP :: IP

record ReportControl =
  rc_Name :: string
  rc_RptID :: string
  rc_DataSet :: string
  rc_ConfRev :: "32 word"
  rc_Buffered :: bool
  rc_BufTime :: "32 word"
  rc_TrgOps :: TrgOps
  rc_OptFlds :: OptFlds
  rc_IntgPd :: "32 word"
  rc_RptEnabled :: int
  rc_NotIndexed :: bool
  rc_MaxQueueSize :: int
  rc_Reservations :: "ClientReservation option list"

datatype GSType = GOOSE | GSSE

record GSEControl =
  gc_Name :: string
  gc_GoID :: string
  gc_DataSet :: string
  gc_ConfRev :: "32 word"
  gc_Type :: GSType
  gc_Protocol :: string
  gc_DstMAC :: "byte list"
  gc_DstIP :: IP
  gc_AppID :: "16 word"
  gc_VLANID :: "16 word"
  gc_VLANPri :: "8 word"
  gc_MinTime :: "32 word"
  gc_MaxTime :: "32 word"
  gc_FixedOffs :: bool

record SVOpts =
  so_RefreshTime :: bool
  so_SampleSynchronized :: bool
  so_SampleRate :: bool
  so_DataSet :: bool
  so_Security :: bool
  so_Timestamp :: bool
  so_SynchSourceID :: bool

record SVControl =
  sv_Name :: string
  sv_SvID :: string
  sv_DataSet :: string
  sv_ConfRev :: "32 word"
  sv_SmpRate :: "32 word"
  sv_NoASDU :: "32 word"
  sv_Multicast :: bool
  sv_SmpMod :: "8 word"
  sv_Opts :: SVOpts
  sv_SvType :: string
  sv_Protocol :: string
  sv_DstMAC :: "byte list"
  sv_DstIP :: IP
  sv_AppID :: "16 word"
  sv_VLANID :: "16 word"
  sv_VLANPri :: "8 word"

record LogControl =
  lc_Name :: string
  lc_DataSet :: string
  lc_LogName :: string
  lc_TrgOps :: TrgOps
  lc_IntgPd :: "32 word"
  lc_LogEna :: bool
  lc_BufTime :: "32 word"
  lc_ReasonCode :: bool
  lc_LogLDInst :: string
  lc_LogLN :: string

record LogicalNode =
  ln_Name :: string
  ln_Class :: string
  ln_Objects :: "DataObject list"
  ln_DataSets :: "DataSet list"
  ln_ReportControls :: "ReportControl list"
  ln_GSEControls :: "GSEControl list"
  ln_SVControls :: "SVControl list"
  ln_LogControls :: "LogControl list"
  ln_SettingControl :: "SettingControl option"
  ln_Logs :: "string list"

text \<open>A node with data only, for examples.\<close>

definition plain_node :: "string \<Rightarrow> DataObject list \<Rightarrow> LogicalNode" where
  "plain_node name objects = \<lparr>ln_Name = name, ln_Class = [], ln_Objects = objects, ln_DataSets = [], ln_ReportControls = [],
     ln_GSEControls = [], ln_SVControls = [], ln_LogControls = [], ln_SettingControl = None, ln_Logs = []\<rparr>"

record LogicalDevice =
  ld_Name :: string
  ld_Inst :: string
  ld_Nodes :: "LogicalNode list"

record IEDModel =
  m_Name :: string
  m_Devices :: "LogicalDevice list"
  m_SettingGroups :: "SettingGroup list"

section \<open>Resolution\<close>

definition Device :: "IEDModel \<Rightarrow> string \<Rightarrow> LogicalDevice option" where
  "Device m name = find (\<lambda>ld. ld_Name ld = name) (m_Devices m)"

definition ld_Node :: "LogicalDevice \<Rightarrow> string \<Rightarrow> LogicalNode option" where
  "ld_Node ld name = find (\<lambda>ln. ln_Name ln = name) (ld_Nodes ld)"

definition ln_Object :: "LogicalNode \<Rightarrow> string \<Rightarrow> DataObject option" where
  "ln_Object ln name = find (\<lambda>do. do_Name do = name) (ln_Objects ln)"

definition ln_DataSet :: "LogicalNode \<Rightarrow> string \<Rightarrow> DataSet option" where
  "ln_DataSet ln name = find (\<lambda>ds. ds_Name ds = name) (ln_DataSets ln)"

definition do_Child :: "DataObject \<Rightarrow> string \<Rightarrow> DataObject option" where
  "do_Child do name = find (\<lambda>s. do_Name s = name) (do_Objects do)"

definition do_Attribute :: "DataObject \<Rightarrow> string \<Rightarrow> DataAttribute option" where
  "do_Attribute do name = find (\<lambda>a. da_Name a = name) (do_Attributes do)"

definition da_Child :: "DataAttribute \<Rightarrow> string \<Rightarrow> DataAttribute option" where
  "da_Child da name = find (\<lambda>c. da_Name c = name) (da_Children da)"

text \<open>The descent through sub-objects while they match, then through the attribute's children.\<close>

fun do_descend :: "DataObject \<Rightarrow> string list \<Rightarrow> DataObject \<times> string list" where
  "do_descend do [] = (do, [])"
| "do_descend do (n # rest) = (case do_Child do n of Some sub \<Rightarrow> do_descend sub rest | None \<Rightarrow> (do, n # rest))"

fun da_descend :: "DataAttribute \<Rightarrow> string list \<Rightarrow> DataAttribute option" where
  "da_descend da [] = Some da"
| "da_descend da (n # rest) = (case da_Child da n of Some c \<Rightarrow> da_descend c rest | None \<Rightarrow> None)"

definition fc_match :: "FC \<Rightarrow> DataAttribute \<Rightarrow> bool" where
  "fc_match fc a = (fc = fc_ALL \<or> fc = FCNone \<or> da_FC a = fc)"

text \<open>What \<^verbatim>\<open>Lookup\<close> returns in its \<^verbatim>\<open>any\<close>.\<close>

datatype node = NoNode | IsDevice LogicalDevice | IsNode LogicalNode | IsObject DataObject | IsAttribute DataAttribute

definition do_lookup :: "FC \<Rightarrow> DataObject \<Rightarrow> string list \<Rightarrow> node" where
  "do_lookup fc do path =
     (case do_descend do path of
        (do, []) \<Rightarrow> IsObject do
      | (do, n # rest) \<Rightarrow>
          (case find (\<lambda>a. da_Name a = n \<and> fc_match fc a) (do_Attributes do) of
             None \<Rightarrow> NoNode
           | Some da \<Rightarrow> (case da_descend da rest of None \<Rightarrow> NoNode | Some da \<Rightarrow> IsAttribute da)))"

definition Lookup :: "IEDModel \<Rightarrow> ObjectReference \<Rightarrow> FC \<Rightarrow> node" where
  "Lookup m ref fc =
     (case Device m (ref_LD ref) of
        None \<Rightarrow> NoNode
      | Some ld \<Rightarrow>
          (case ref_Path ref of
             [] \<Rightarrow> IsDevice ld
           | lnName # path \<Rightarrow>
               (case ld_Node ld lnName of
                  None \<Rightarrow> NoNode
                | Some ln \<Rightarrow>
                    (case path of
                       [] \<Rightarrow> IsNode ln
                     | doName # rest \<Rightarrow>
                         (case ln_Object ln doName of
                            None \<Rightarrow> NoNode
                          | Some do \<Rightarrow> do_lookup fc do rest)))))"

definition Attribute :: "IEDModel \<Rightarrow> ObjectReference \<Rightarrow> FC \<Rightarrow> DataAttribute option" where
  "Attribute m ref fc = (case Lookup m ref fc of IsAttribute da \<Rightarrow> Some da | _ \<Rightarrow> None)"

section \<open>Assignment\<close>

definition da_set :: "Value \<Rightarrow> DataAttribute \<Rightarrow> DataAttribute" where
  "da_set v a = DataAttribute (da_Name a) (da_FC a) (da_FCName a) (da_Kind a) (da_BType a) (da_Count a) (da_Children a) v (da_TrgOps a)"

fun update_first :: "('a \<Rightarrow> bool) \<Rightarrow> ('a \<Rightarrow> 'a) \<Rightarrow> 'a list \<Rightarrow> 'a list" where
  "update_first P f [] = []"
| "update_first P f (x # xs) = (if P x then f x # xs else x # update_first P f xs)"

fun da_update :: "string list \<Rightarrow> (DataAttribute \<Rightarrow> DataAttribute) \<Rightarrow> DataAttribute \<Rightarrow> DataAttribute" where
  "da_update [] f a = f a"
| "da_update (n # rest) f a =
     DataAttribute (da_Name a) (da_FC a) (da_FCName a) (da_Kind a) (da_BType a) (da_Count a)
       (update_first (\<lambda>c. da_Name c = n) (da_update rest f) (da_Children a)) (da_Value a) (da_TrgOps a)"

fun do_update :: "FC \<Rightarrow> string list \<Rightarrow> (DataAttribute \<Rightarrow> DataAttribute) \<Rightarrow> DataObject \<Rightarrow> DataObject" where
  "do_update fc [] f do = do"
| "do_update fc (n # rest) f do =
     (case do_Child do n of
        Some _ \<Rightarrow> DataObject (do_Name do) (do_CDC do) (update_first (\<lambda>s. do_Name s = n) (do_update fc rest f) (do_Objects do)) (do_Attributes do)
      | None \<Rightarrow> DataObject (do_Name do) (do_CDC do) (do_Objects do)
                  (update_first (\<lambda>a. da_Name a = n \<and> fc_match fc a) (da_update rest f) (do_Attributes do)))"

definition ln_update :: "FC \<Rightarrow> string list \<Rightarrow> (DataAttribute \<Rightarrow> DataAttribute) \<Rightarrow> LogicalNode \<Rightarrow> LogicalNode" where
  "ln_update fc path f ln =
     (case path of
        [] \<Rightarrow> ln
      | doName # rest \<Rightarrow> ln\<lparr>ln_Objects := update_first (\<lambda>do. do_Name do = doName) (do_update fc rest f) (ln_Objects ln)\<rparr>)"

definition ld_update :: "FC \<Rightarrow> string list \<Rightarrow> (DataAttribute \<Rightarrow> DataAttribute) \<Rightarrow> LogicalDevice \<Rightarrow> LogicalDevice" where
  "ld_update fc path f ld =
     (case path of
        [] \<Rightarrow> ld
      | lnName # rest \<Rightarrow> ld\<lparr>ld_Nodes := update_first (\<lambda>ln. ln_Name ln = lnName) (ln_update fc rest f) (ld_Nodes ld)\<rparr>)"

definition Attribute_set :: "IEDModel \<Rightarrow> ObjectReference \<Rightarrow> FC \<Rightarrow> Value \<Rightarrow> IEDModel" where
  "Attribute_set m ref fc v =
     m\<lparr>m_Devices := update_first (\<lambda>ld. ld_Name ld = ref_LD ref) (ld_update fc (ref_Path ref) (da_set v)) (m_Devices m)\<rparr>"

section \<open>Laws of the assignment\<close>

lemma find_update_first_same:
  assumes "\<And>x. P x \<Longrightarrow> P (f x)"
  shows "find P (update_first P f xs) = map_option f (find P xs)"
  using assms by (induction xs) auto

lemma find_update_first_other:
  assumes "\<And>x. P x \<Longrightarrow> \<not> Q x \<and> \<not> Q (f x)"
  shows "find Q (update_first P f xs) = find Q xs"
  using assms by (induction xs) auto

lemma find_name_other:
  assumes "\<And>x. nm (f x) = nm x" and "n' \<noteq> n"
  shows "find (\<lambda>x. nm x = n') (update_first (\<lambda>x. nm x = n) f xs) = find (\<lambda>x. nm x = n') xs"
  using assms by (intro find_update_first_other) auto

lemma find_name_same:
  assumes "\<And>x. nm (f x) = nm x"
  shows "find (\<lambda>x. nm x = n) (update_first (\<lambda>x. nm x = n) f xs) = map_option f (find (\<lambda>x. nm x = n) xs)"
  using assms by (intro find_update_first_same) auto

lemma da_set_sel [simp]:
  "da_Name (da_set v a) = da_Name a" "da_FC (da_set v a) = da_FC a" "da_Children (da_set v a) = da_Children a"
  "da_Value (da_set v a) = v" "da_Kind (da_set v a) = da_Kind a" "da_BType (da_set v a) = da_BType a"
  "da_TrgOps (da_set v a) = da_TrgOps a" "da_Count (da_set v a) = da_Count a" "da_FCName (da_set v a) = da_FCName a"
  by (simp_all add: da_set_def)

lemma da_update_sel:
  "(\<And>a. da_Name (f a) = da_Name a) \<Longrightarrow> da_Name (da_update p f a) = da_Name a"
  "(\<And>a. da_FC (f a) = da_FC a) \<Longrightarrow> da_FC (da_update p f a) = da_FC a"
  by (cases p; simp)+

lemma do_update_Name [simp]: "do_Name (do_update fc p f do) = do_Name do"
  by (cases p) (simp_all split: option.splits)

lemma ln_update_Name [simp]: "ln_Name (ln_update fc p f ln) = ln_Name ln"
  by (simp add: ln_update_def split: list.splits)

lemma ld_update_Name [simp]: "ld_Name (ld_update fc p f ld) = ld_Name ld"
  by (simp add: ld_update_def split: list.splits)

lemma fc_match_update [simp]: "(\<And>a. da_FC (f a) = da_FC a) \<Longrightarrow> fc_match fc (da_update p f a) = fc_match fc a"
  by (simp add: fc_match_def da_update_sel)

lemma do_lookup_Nil [simp]: "do_lookup fc do [] = IsObject do"
  by (simp add: do_lookup_def)

lemma do_lookup_Cons:
  "do_lookup fc do (n # rest) =
     (case do_Child do n of
        Some sub \<Rightarrow> do_lookup fc sub rest
      | None \<Rightarrow>
          (case find (\<lambda>a. da_Name a = n \<and> fc_match fc a) (do_Attributes do) of
             None \<Rightarrow> NoNode
           | Some da \<Rightarrow> (case da_descend da rest of None \<Rightarrow> NoNode | Some da \<Rightarrow> IsAttribute da)))"
  by (simp add: do_lookup_def split: option.splits)

text \<open>An update keeps the names and constraints by which attributes are found.\<close>

definition keeps_name :: "(DataAttribute \<Rightarrow> DataAttribute) \<Rightarrow> bool" where
  "keeps_name f = (\<forall>a. da_Name (f a) = da_Name a \<and> da_FC (f a) = da_FC a)"

lemma keeps_name_simps [simp]:
  "keeps_name (da_set v)" "keeps_name f \<Longrightarrow> da_Name (f a) = da_Name a" "keeps_name f \<Longrightarrow> da_FC (f a) = da_FC a"
  "keeps_name f \<Longrightarrow> keeps_name (da_update p f)"
  by (simp_all add: keeps_name_def da_update_sel)

lemma da_descend_same:
  "keeps_name f \<Longrightarrow> da_descend a p = Some x \<Longrightarrow> da_descend (da_update p f a) p = Some (f x)"
proof (induction p arbitrary: a)
  case (Cons n r)
  then obtain c where c: "find (\<lambda>c. da_Name c = n) (da_Children a) = Some c" "da_descend c r = Some x"
    by (auto simp: da_Child_def split: option.splits)
  then show ?case using Cons.IH [OF Cons.prems(1) c(2)] Cons.prems(1)
    by (simp add: da_Child_def find_update_first_same da_update_sel)
qed simp

lemma da_descend_other:
  "keeps_name f \<Longrightarrow> da_descend a p = Some x \<Longrightarrow> da_Children x = [] \<Longrightarrow> da_descend a q = Some y \<Longrightarrow> da_Children y = [] \<Longrightarrow>
     p \<noteq> q \<Longrightarrow> da_descend (da_update p f a) q = Some y"
proof (induction p arbitrary: a q)
  case Nil
  then show ?case by (cases q) (auto simp: da_Child_def)
next
  case (Cons n r)
  then obtain n' r' where q: "q = n' # r'" by (cases q) (auto simp: da_Child_def)
  show ?case
  proof (cases "n' = n")
    case False
    then show ?thesis using Cons.prems q
      by (simp add: da_Child_def find_name_other [where nm = da_Name] da_update_sel)
  next
    case True
    then obtain c where c: "find (\<lambda>c. da_Name c = n) (da_Children a) = Some c" "da_descend c r = Some x" "da_descend c r' = Some y"
      using Cons.prems q by (auto simp: da_Child_def split: option.splits)
    then show ?thesis using Cons.IH [OF Cons.prems(1) c(2) Cons.prems(3) c(3) Cons.prems(5)] Cons.prems(1,6) q True
      by (simp add: da_Child_def find_update_first_same da_update_sel)
  qed
qed

lemma do_Child_update:
  "do_Child (DataObject nm cdc (update_first (\<lambda>s. do_Name s = n) (do_update fc r f) (do_Objects do)) as) n' =
     (if n' = n then map_option (do_update fc r f) (do_Child do n) else do_Child do n')"
  by (auto simp: do_Child_def find_name_same [where nm = do_Name] find_name_other [where nm = do_Name])

lemma do_Child_attrs [simp]: "do_Child (DataObject nm cdc (do_Objects do) as) n = do_Child do n"
  by (simp add: do_Child_def)

lemma do_lookup_same:
  "keeps_name f \<Longrightarrow> do_lookup fc do p = IsAttribute x \<Longrightarrow> do_lookup fc (do_update fc p f do) p = IsAttribute (f x)"
proof (induction p arbitrary: "do")
  case (Cons n r)
  show ?case
  proof (cases "do_Child do n")
    case (Some sub)
    then have "do_lookup fc (do_update fc r f sub) r = IsAttribute (f x)"
      using Cons by (simp add: do_lookup_Cons)
    then show ?thesis using Some by (simp add: do_lookup_Cons do_Child_update)
  next
    case None
    then obtain a where a: "find (\<lambda>a. da_Name a = n \<and> fc_match fc a) (do_Attributes do) = Some a" "da_descend a r = Some x"
      using Cons.prems by (auto simp: do_lookup_Cons split: option.splits)
    then show ?thesis using None Cons.prems(1) da_descend_same [OF Cons.prems(1) a(2)]
      by (simp add: do_lookup_Cons find_update_first_same)
  qed
qed simp

definition proper_fc :: "FC \<Rightarrow> bool" where
  "proper_fc fc = (fc \<noteq> fc_ALL \<and> fc \<noteq> FCNone)"

lemma find_update_first_either:
  assumes "\<And>x. Q (f x) = Q x"
  shows "find Q (update_first P f xs) = find Q xs
    \<or> (\<exists>x. find P xs = Some x \<and> find Q xs = Some x \<and> find Q (update_first P f xs) = Some (f x))"
  using assms by (induction xs) auto

text \<open>Two addresses that cannot name the same attribute: other names on the way, or another constraint.\<close>

definition apart :: "'p \<Rightarrow> FC \<Rightarrow> 'p \<Rightarrow> FC \<Rightarrow> bool" where
  "apart p fc q fc' = (p \<noteq> q \<or> proper_fc fc \<and> proper_fc fc' \<and> fc \<noteq> fc')"

lemma do_lookup_other:
  "keeps_name f \<Longrightarrow> do_lookup fc do p = IsAttribute x \<Longrightarrow> da_Children x = [] \<Longrightarrow> do_lookup fc' do q = IsAttribute y \<Longrightarrow>
     da_Children y = [] \<Longrightarrow> apart p fc q fc' \<Longrightarrow> do_lookup fc' (do_update fc p f do) q = IsAttribute y"
proof (induction p arbitrary: "do" q)
  case (Cons n r)
  then obtain n' r' where q: "q = n' # r'" by (cases q) auto
  show ?case
  proof (cases "do_Child do n")
    case (Some sub)
    show ?thesis
    proof (cases "n' = n")
      case True
      then have "do_lookup fc' (do_update fc r f sub) r' = IsAttribute y"
        using Cons.prems Some q by (intro Cons.IH) (auto simp: do_lookup_Cons apart_def)
      then show ?thesis using Some q True by (simp add: do_lookup_Cons do_Child_update)
    next
      case False
      then show ?thesis using Some q Cons.prems(4) by (simp add: do_lookup_Cons do_Child_update cong: option.case_cong)
    qed
  next
    case None
    let ?P = "\<lambda>a. da_Name a = n \<and> fc_match fc a" and ?Q = "\<lambda>a. da_Name a = n' \<and> fc_match fc' a"
    let ?as = "update_first ?P (da_update r f) (do_Attributes do)"
    obtain a where a: "find ?P (do_Attributes do) = Some a" "da_descend a r = Some x"
      using Cons.prems None by (auto simp: do_lookup_Cons split: option.splits)
    consider (same) "find ?Q ?as = find ?Q (do_Attributes do)"
      | (upd) "find ?Q (do_Attributes do) = Some a" "find ?Q ?as = Some (da_update r f a)"
      using find_update_first_either [of ?Q "da_update r f" ?P "do_Attributes do"] a(1) Cons.prems(1) by (auto simp: da_update_sel)
    then show ?thesis
    proof cases
      case same
      then show ?thesis using None q Cons.prems(4) by (simp add: do_lookup_Cons cong: option.case_cong)
    next
      case upd
      have "n' = n" "fc_match fc a" "fc_match fc' a" using upd(1) a(1) by (auto simp: find_Some_iff)
      show ?thesis
      proof (cases "do_Child do n'")
        case None': None
        have "r \<noteq> r'" using Cons.prems(6) q \<open>n' = n\<close> \<open>fc_match fc a\<close> \<open>fc_match fc' a\<close> by (auto simp: apart_def fc_match_def proper_fc_def)
        then have "da_descend (da_update r f a) r' = Some y"
          using Cons.prems upd(1) a(2) None' q by (intro da_descend_other) (auto simp: do_lookup_Cons split: option.splits)
        then show ?thesis using None None' q upd(2) by (simp add: do_lookup_Cons)
      qed (use None \<open>n' = n\<close> in simp)
    qed
  qed
qed simp

text \<open>Where an attribute is: the device, the node, the object, and the path below it.\<close>

lemma Attribute_parts:
  assumes "Attribute m ref fc = Some a"
  obtains ld lnName ln doName obj rest where
    "find (\<lambda>ld. ld_Name ld = ref_LD ref) (m_Devices m) = Some ld" "ref_Path ref = lnName # doName # rest"
    "find (\<lambda>ln. ln_Name ln = lnName) (ld_Nodes ld) = Some ln" "find (\<lambda>do. do_Name do = doName) (ln_Objects ln) = Some obj"
    "do_lookup fc obj rest = IsAttribute a"
  using assms unfolding Attribute_def Lookup_def Device_def ld_Node_def ln_Object_def
  by (auto split: option.splits list.splits node.splits)

lemma Attribute_eqI:
  assumes "find (\<lambda>ld. ld_Name ld = ref_LD ref) (m_Devices m) = Some ld" "ref_Path ref = lnName # doName # rest"
    "find (\<lambda>ln. ln_Name ln = lnName) (ld_Nodes ld) = Some ln" "find (\<lambda>do. do_Name do = doName) (ln_Objects ln) = Some obj"
    "do_lookup fc obj rest = IsAttribute a"
  shows "Attribute m ref fc = Some a"
  using assms by (simp add: Attribute_def Lookup_def Device_def ld_Node_def ln_Object_def)

lemma ref_eqI:
  assumes "ref_LD r = ref_LD r'" "ref_Path r = ref_Path r'" "ref_Path r \<noteq> []"
  shows "r = r'"
proof -
  have "r = ref_LD r @ CHR ''/'' # join_with (CHR ''.'') (ref_Path r)" if "ref_Path r \<noteq> []" for r
    using that cut_found [of "CHR ''/''" r] by (auto simp: ref_Path_def ref_LD_def split: prod.splits if_splits)
  then show ?thesis using assms by metis
qed

lemma Attribute_set_same:
  assumes "Attribute m ref fc = Some a"
  shows "Attribute (Attribute_set m ref fc v) ref fc = Some (da_set v a)"
  using assms
proof (rule Attribute_parts)
  fix ld lnName ln doName obj rest
  assume p: "find (\<lambda>ld. ld_Name ld = ref_LD ref) (m_Devices m) = Some ld" "ref_Path ref = lnName # doName # rest"
    "find (\<lambda>ln. ln_Name ln = lnName) (ld_Nodes ld) = Some ln" "find (\<lambda>do. do_Name do = doName) (ln_Objects ln) = Some obj"
    "do_lookup fc obj rest = IsAttribute a"
  let ?f = "da_set v"
  have d: "find (\<lambda>ld. ld_Name ld = ref_LD ref) (m_Devices (Attribute_set m ref fc v)) = Some (ld_update fc (ref_Path ref) ?f ld)"
    using p(1) by (simp add: Attribute_set_def find_name_same [where nm = ld_Name])
  have n: "find (\<lambda>ln. ln_Name ln = lnName) (ld_Nodes (ld_update fc (ref_Path ref) ?f ld)) = Some (ln_update fc (doName # rest) ?f ln)"
    using p(2,3) by (simp add: ld_update_def find_name_same [where nm = ln_Name])
  have o: "find (\<lambda>do. do_Name do = doName) (ln_Objects (ln_update fc (doName # rest) ?f ln)) = Some (do_update fc rest ?f obj)"
    using p(4) by (simp add: ln_update_def find_name_same [where nm = do_Name])
  show ?thesis using do_lookup_same [OF _ p(5), of ?f] by (intro Attribute_eqI [OF d p(2) n o]) simp
qed

lemma Attribute_set_apart:
  assumes "Attribute m ref fc = Some a" "da_Children a = []" "Attribute m ref' fc' = Some a'" "da_Children a' = []"
    and "apart ref fc ref' fc'"
  shows "Attribute (Attribute_set m ref fc v) ref' fc' = Some a'"
proof -
  obtain ld lnName ln doName obj rest where
    p: "find (\<lambda>ld. ld_Name ld = ref_LD ref) (m_Devices m) = Some ld" "ref_Path ref = lnName # doName # rest"
    "find (\<lambda>ln. ln_Name ln = lnName) (ld_Nodes ld) = Some ln" "find (\<lambda>do. do_Name do = doName) (ln_Objects ln) = Some obj"
    "do_lookup fc obj rest = IsAttribute a"
    using assms(1) by (rule Attribute_parts)
  obtain ld' lnName' ln' doName' obj' rest' where
    q: "find (\<lambda>ld. ld_Name ld = ref_LD ref') (m_Devices m) = Some ld'" "ref_Path ref' = lnName' # doName' # rest'"
    "find (\<lambda>ln. ln_Name ln = lnName') (ld_Nodes ld') = Some ln'" "find (\<lambda>do. do_Name do = doName') (ln_Objects ln') = Some obj'"
    "do_lookup fc' obj' rest' = IsAttribute a'"
    using assms(3) by (rule Attribute_parts)
  let ?m = "Attribute_set m ref fc v" and ?f = "da_set v"
  show ?thesis
  proof (cases "ref_LD ref' = ref_LD ref")
    case False
    then show ?thesis using q by (intro Attribute_eqI [OF _ q(2,3,4,5)])
      (simp add: Attribute_set_def find_name_other [where nm = ld_Name])
  next
    case ld: True
    then have [simp]: "ld' = ld" using p(1) q(1) by simp
    have d: "find (\<lambda>ld. ld_Name ld = ref_LD ref') (m_Devices ?m) = Some (ld_update fc (ref_Path ref) ?f ld)"
      using p(1) ld by (simp add: Attribute_set_def find_name_same [where nm = ld_Name])
    show ?thesis
    proof (cases "lnName' = lnName")
      case False
      then show ?thesis using q p(2) by (intro Attribute_eqI [OF d q(2) _ q(4,5)])
        (simp add: ld_update_def find_name_other [where nm = ln_Name])
    next
      case ln: True
      then have [simp]: "ln' = ln" using p(3) q(3) by simp
      have n: "find (\<lambda>ln. ln_Name ln = lnName') (ld_Nodes (ld_update fc (ref_Path ref) ?f ld)) = Some (ln_update fc (doName # rest) ?f ln)"
        using p(2,3) ln by (simp add: ld_update_def find_name_same [where nm = ln_Name])
      show ?thesis
      proof (cases "doName' = doName")
        case False
        then show ?thesis using q by (intro Attribute_eqI [OF d q(2) n _ q(5)])
          (simp add: ln_update_def find_name_other [where nm = do_Name])
      next
        case True
        then have [simp]: "obj' = obj" using p(4) q(4) by simp
        have ne: "apart rest fc rest' fc'" using assms(5) ref_eqI [of ref ref'] ld ln True p(2) q(2) by (auto simp: apart_def)
        have o: "find (\<lambda>do. do_Name do = doName') (ln_Objects (ln_update fc (doName # rest) ?f ln)) = Some (do_update fc rest ?f obj)"
          using p(4) True by (simp add: ln_update_def find_name_same [where nm = do_Name])
        show ?thesis using do_lookup_other [OF _ p(5) assms(2) q(5) [simplified] assms(4) ne, of ?f]
          by (intro Attribute_eqI [OF d q(2) n o]) simp
      qed
    qed
  qed
qed

lemma Attribute_set_other:
  assumes "Attribute m ref fc = Some a" "da_Children a = []" "Attribute m ref' fc' = Some a'" "da_Children a' = []"
    and "proper_fc fc" "proper_fc fc'" "(ref, fc) \<noteq> (ref', fc')"
  shows "Attribute (Attribute_set m ref fc v) ref' fc' = Some a'"
  using assms by (intro Attribute_set_apart [of m ref fc a]) (auto simp: apart_def)

section \<open>The store of leaf values\<close>

text \<open>What the services rely on when they write leaves one after the other: a leaf written reads back, and no
  other leaf is touched.\<close>

locale attribute_store =
  fixes get :: "'m \<Rightarrow> 'k \<Rightarrow> 'v option"
    and put :: "'m \<Rightarrow> 'k \<Rightarrow> 'v \<Rightarrow> 'm"
    and addressable :: "'k \<Rightarrow> bool"
  assumes get_put_same: "get m k = Some w \<Longrightarrow> addressable k \<Longrightarrow> get (put m k v) k = Some v"
    and get_put_other: "get m k = Some w \<Longrightarrow> get m k' = Some w' \<Longrightarrow> addressable k \<Longrightarrow> addressable k' \<Longrightarrow> k \<noteq> k' \<Longrightarrow>
      get (put m k v) k' = Some w'"
begin

lemma get_put:
  "get m k = Some w \<Longrightarrow> get m k' = Some w' \<Longrightarrow> addressable k \<Longrightarrow> addressable k' \<Longrightarrow>
     get (put m k v) k' = Some (if k' = k then v else w')"
  using get_put_same get_put_other by auto

lemma get_puts:
  "\<forall>(k, v) \<in> set ws. addressable k \<and> get m k \<noteq> None \<Longrightarrow> addressable k' \<Longrightarrow> get m k' = Some w' \<Longrightarrow>
     get (fold (\<lambda>(k, v) m. put m k v) ws m) k' = Some (case map_of (rev ws) k' of None \<Rightarrow> w' | Some v \<Rightarrow> v)"
proof (induction ws arbitrary: m w')
  case (Cons kv ws)
  obtain k v where kv: "kv = (k, v)" by force
  then obtain w where w: "get m k = Some w" "addressable k" using Cons.prems(1) by auto
  have "\<forall>(k', v') \<in> set ws. addressable k' \<and> get (put m k v) k' \<noteq> None"
    using Cons.prems(1) get_put [OF w(1) _ w(2)] by fastforce
  moreover have "get (put m k v) k' = Some (if k' = k then v else w')"
    using get_put [OF w(1) Cons.prems(3) w(2) Cons.prems(2)] .
  ultimately show ?case using Cons.IH Cons.prems(2) kv
    by (auto simp: map_add_def split: option.splits)
qed simp

end

definition leaf_get :: "IEDModel \<Rightarrow> ObjectReference \<times> FC \<Rightarrow> Value option" where
  "leaf_get m k = (case Attribute m (fst k) (snd k) of
     Some a \<Rightarrow> if da_Children a = [] then Some (da_Value a) else None | None \<Rightarrow> None)"

definition leaf_put :: "IEDModel \<Rightarrow> ObjectReference \<times> FC \<Rightarrow> Value \<Rightarrow> IEDModel" where
  "leaf_put m k v = Attribute_set m (fst k) (snd k) v"

lemma leaf_get_Some: "leaf_get m k = Some w \<longleftrightarrow> (\<exists>a. Attribute m (fst k) (snd k) = Some a \<and> da_Children a = [] \<and> da_Value a = w)"
  by (auto simp: leaf_get_def split: option.splits)

interpretation leaves: attribute_store leaf_get leaf_put "\<lambda>k. proper_fc (snd k)"
proof
  show "leaf_get m k = Some w \<Longrightarrow> proper_fc (snd k) \<Longrightarrow> leaf_get (leaf_put m k v) k = Some v" for m k w v
    by (auto simp: leaf_get_Some leaf_put_def Attribute_set_same)
  show "leaf_get m k = Some w \<Longrightarrow> leaf_get m k' = Some w' \<Longrightarrow> proper_fc (snd k) \<Longrightarrow> proper_fc (snd k') \<Longrightarrow> k \<noteq> k' \<Longrightarrow>
      leaf_get (leaf_put m k v) k' = Some w'" for m k w v k' w'
    by (auto simp: leaf_get_Some leaf_put_def prod_eq_iff intro!: Attribute_set_other [of m "fst k" "snd k"])
qed

end
