(* ===== verification/MmsTypeSpec.thy ===== *)
theory MmsTypeSpec
  imports MmsCodec
begin

text \<open>
  MMS type specifications (\<^verbatim>\<open>mms/typespec.go\<close>): the BER codec, the zero value of a type, and
  the bound on what a specification from a peer may make the process allocate.
\<close>

section \<open>Specifications\<close>

text \<open>A Go string is its octets; the two views are inverse to each other.\<close>

definition octets_of :: "string \<Rightarrow> byte list" where "octets_of s = map of_char s"
definition string_of :: "byte list \<Rightarrow> string" where "string_of b = map (\<lambda>x. char_of (unat x)) b"

lemma unat_of_char: "unat (of_char c :: byte) = of_char c"
proof -
  have "unat (of_nat (of_char c :: nat) :: byte) = of_char c" by (simp add: unat_of_nat nat_of_char_less_256)
  then show ?thesis by (simp only: of_nat_of_char)
qed

lemma string_of_octets [simp]: "string_of (octets_of s) = s"
  by (induction s) (simp_all add: string_of_def octets_of_def unat_of_char)

lemma octets_of_inject [simp]: "octets_of s = octets_of t \<longleftrightarrow> s = t"
  by (metis string_of_octets)

lemma length_octets_of [simp]: "length (octets_of s) = length s"
  by (simp add: octets_of_def)

text \<open>\<open>NilSpec\<close> is the nil pointer.\<close>

datatype TypeSpec =
    NilSpec
  | TypeSpec (ts_Kind: Type) (ts_Size: int) (ts_Elements: int) (ts_Element: TypeSpec)
      (ts_Components: "(string \<times> TypeSpec) list")

abbreviation scalar :: "Type \<Rightarrow> int \<Rightarrow> TypeSpec" where
  "scalar k n \<equiv> TypeSpec k n 0 NilSpec []"

text \<open>The encoding; a nil specification is dereferenced, and a kind without one gives a nil element.\<close>

fun rmap :: "('a \<Rightarrow> ('e, 'b) result) \<Rightarrow> 'a list \<Rightarrow> ('e, 'b list) result" where
  "rmap f [] = Inr []"
| "rmap f (x # xs) = rbind (f x) (\<lambda>y. rbind (rmap f xs) (\<lambda>ys. Inr (y # ys)))"

lemma rmap_cong [fundef_cong]:
  "xs = ys \<Longrightarrow> (\<And>x. x \<in> set ys \<Longrightarrow> f x = g x) \<Longrightarrow> rmap f xs = rmap g ys"
  by (induction xs arbitrary: ys) auto

lemma rmap_Inr: "(\<And>x. x \<in> set xs \<Longrightarrow> f x = Inr (g x)) \<Longrightarrow> rmap f xs = Inr (map g xs)"
  by (induction xs) auto

fun BER :: "TypeSpec \<Rightarrow> (mms_error, Element option) result" where
  "BER NilSpec = Inl Panic"
| "BER (TypeSpec k size' elements element comps) =
     (case k of
        TypeArray \<Rightarrow>
          rbind (BER element) (\<lambda>e.
          Inr (Some (Cons_el (ContextConstructed tagDataArray)
            [Some (UintElem (ContextPrimitive 1) (uint64_of elements)), Some (Cons_el (ContextConstructed 2) [e])])))
      | TypeStructure \<Rightarrow>
          rbind (rmap (\<lambda>(name, spec). rbind (BER spec) (\<lambda>e.
              Inr (Some (Cons_el TagSequence
                [Some (Prim (ContextPrimitive 0) (octets_of name)), Some (Cons_el (ContextConstructed 1) [e])])))) comps) (\<lambda>cs.
          Inr (Some (Cons_el (ContextConstructed tagDataStructure) [Some (Cons_el (ContextConstructed 1) cs)])))
      | TypeBoolean \<Rightarrow> Inr (Some (Prim (ContextPrimitive tagDataBoolean) []))
      | TypeBitString \<Rightarrow> Inr (Some (IntElem (ContextPrimitive tagDataBitString) size'))
      | TypeInteger \<Rightarrow> Inr (Some (UintElem (ContextPrimitive tagDataInteger) (uint64_of size')))
      | TypeUnsigned \<Rightarrow> Inr (Some (UintElem (ContextPrimitive tagDataUnsigned) (uint64_of size')))
      | TypeFloat32 \<Rightarrow> Inr (Some (Cons_el (ContextConstructed tagDataFloat) [Some (IntElem TagInteger 32), Some (IntElem TagInteger 8)]))
      | TypeFloat64 \<Rightarrow> Inr (Some (Cons_el (ContextConstructed tagDataFloat) [Some (IntElem TagInteger 64), Some (IntElem TagInteger 11)]))
      | TypeOctetString \<Rightarrow> Inr (Some (IntElem (ContextPrimitive tagDataOctetString) size'))
      | TypeVisibleString \<Rightarrow> Inr (Some (IntElem (ContextPrimitive tagDataVisString) size'))
      | TypeGeneralizedTime \<Rightarrow> Inr (Some (Prim (ContextPrimitive tagDataGenTime) []))
      | TypeBinaryTime \<Rightarrow> Inr (Some (BoolElem (ContextPrimitive tagDataBinTime) True))
      | TypeMMSString \<Rightarrow> Inr (Some (IntElem (ContextPrimitive tagDataMMSString) size'))
      | TypeUTCTime \<Rightarrow> Inr (Some (Prim (ContextPrimitive tagDataUTCTime) []))
      | _ \<Rightarrow> Inr None)"

section \<open>Decoding\<close>

definition maxArrayElements :: nat where "maxArrayElements = 2 ^ 16"
definition maxBitStringBits :: int where "maxBitStringBits = 2 ^ 16"
definition maxDefaultValues :: nat where "maxDefaultValues = 2 ^ 20"

text \<open>\<open>valueCount\<close> saturates at \<open>maxDefaultValues + 1\<close>.\<close>

fun sum_sat :: "('a \<Rightarrow> nat) \<Rightarrow> nat \<Rightarrow> 'a list \<Rightarrow> nat" where
  "sum_sat f n [] = n"
| "sum_sat f n (x # xs) =
     (let n = n + f x in if n \<ge> maxDefaultValues + 1 then maxDefaultValues + 1 else sum_sat f n xs)"

lemma sum_sat_cong [fundef_cong]:
  "xs = ys \<Longrightarrow> t = u \<Longrightarrow> (\<And>x. x \<in> set ys \<Longrightarrow> f x = g x) \<Longrightarrow> sum_sat f t xs = sum_sat g u ys"
  by (induction xs arbitrary: ys t u) (auto simp: Let_def)

fun valueCount :: "TypeSpec \<Rightarrow> nat" where
  "valueCount NilSpec = 0"
| "valueCount (TypeSpec k size' elements element comps) =
     (let ceiling = maxDefaultValues + 1 in
      case k of
        TypeArray \<Rightarrow>
          let per = valueCount element in
          if per = 0 \<or> elements \<le> 0 then 1
          else if nat elements \<ge> ceiling div per then ceiling
          else 1 + nat elements * per
      | TypeStructure \<Rightarrow> sum_sat (\<lambda>(name, spec). valueCount spec) 1 comps
      | _ \<Rightarrow> 1)"

function decodeSpecTLV :: "Tag \<Rightarrow> byte list \<Rightarrow> nat \<Rightarrow> (mms_error, TypeSpec) result"
  and decodeSpecIn :: "byte list \<Rightarrow> nat \<Rightarrow> (mms_error, TypeSpec) result"
  and decodeComps :: "Decoder \<Rightarrow> nat \<Rightarrow> (string \<times> TypeSpec) list \<Rightarrow> (mms_error, (string \<times> TypeSpec) list) result"
where
  "decodeSpecTLV tag content depth =
     (let n = Number tag in
      if Class tag \<noteq> ClassContextSpecific then Inl (Err (Asn1 ErrUnexpected))
      else if n = tagDataArray then
        (case Optional (ContextPrimitive 0) (NewDecoder content) of (opt, inner) \<Rightarrow>
         rbind (lift_ber (optional_or_error opt)) (\<lambda>_.
         case Expect (ContextPrimitive 1) inner of
           (Inl e, _) \<Rightarrow> lift_ber (Inl e)
         | (Inr nc, inner) \<Rightarrow>
             rbind (lift_ber (DecodeUint nc)) (\<lambda>n.
             if n > maxArrayElements then Inl (Err (Asn1 ErrBadLength))
             else case Expect (ContextConstructed 2) inner of
               (Inl e, _) \<Rightarrow> lift_ber (Inl e)
             | (Inr ec, _) \<Rightarrow>
                 rbind (decodeSpecIn ec (depth + 1)) (\<lambda>el. Inr (TypeSpec TypeArray 0 (int n) el [])))))
      else if n = tagDataStructure then
        (case Optional (ContextPrimitive 0) (NewDecoder content) of (opt, inner) \<Rightarrow>
         rbind (lift_ber (optional_or_error opt)) (\<lambda>_.
         case Expect (ContextConstructed 1) inner of
           (Inl e, _) \<Rightarrow> lift_ber (Inl e)
         | (Inr compsContent, _) \<Rightarrow>
             rbind (decodeComps (NewDecoder compsContent) depth []) (\<lambda>cs. Inr (TypeSpec TypeStructure 0 0 NilSpec cs))))
      else if n = tagDataBoolean then Inr (scalar TypeBoolean 0)
      else if n = tagDataBitString then
        rbind (lift_ber (DecodeInt content)) (\<lambda>n.
        if n > maxBitStringBits \<or> n < - maxBitStringBits then Inl (Err (Asn1 ErrBadLength)) else Inr (scalar TypeBitString n))
      else if n = tagDataInteger then rbind (lift_ber (DecodeUint content)) (\<lambda>n. Inr (scalar TypeInteger (int64_of n)))
      else if n = tagDataUnsigned then rbind (lift_ber (DecodeUint content)) (\<lambda>n. Inr (scalar TypeUnsigned (int64_of n)))
      else if n = tagDataFloat then
        (case Expect TagInteger (NewDecoder content) of
           (Inl e, _) \<Rightarrow> lift_ber (Inl e)
         | (Inr fw, _) \<Rightarrow>
             rbind (lift_ber (DecodeInt fw)) (\<lambda>width.
             Inr (scalar (if width > 32 then TypeFloat64 else TypeFloat32) 0)))
      else if n = tagDataOctetString then rbind (lift_ber (DecodeInt content)) (\<lambda>n. Inr (scalar TypeOctetString n))
      else if n = tagDataVisString then rbind (lift_ber (DecodeInt content)) (\<lambda>n. Inr (scalar TypeVisibleString n))
      else if n = tagDataGenTime then Inr (scalar TypeGeneralizedTime 0)
      else if n = tagDataBinTime then Inr (scalar TypeBinaryTime 0)
      else if n = tagDataMMSString then rbind (lift_ber (DecodeInt content)) (\<lambda>n. Inr (scalar TypeMMSString n))
      else if n = tagDataUTCTime then Inr (scalar TypeUTCTime 0)
      else Inl (Err (Asn1 ErrUnexpected)))"
| "decodeSpecIn content depth =
     (if depth > maxValueDepth then Inl (Err (Asn1 ErrTooDeep))
      else case ReadTLV (NewDecoder content) of
        (Inl e, _) \<Rightarrow> lift_ber (Inl e)
      | (Inr (tag, c), _) \<Rightarrow>
          decodeSpecTLV tag c depth)"
| "decodeComps comps depth acc =
     (if \<not> More comps then Inr acc
      else case Expect TagSequence comps of
        (Inl e, _) \<Rightarrow> lift_ber (Inl e)
      | (Inr seq, comps') \<Rightarrow>
          case Optional (ContextPrimitive 0) (NewDecoder seq) of (opt, cd) \<Rightarrow>
          rbind (lift_ber (optional_or_error opt)) (\<lambda>name.
          case Expect (ContextConstructed 1) cd of
            (Inl e, _) \<Rightarrow> lift_ber (Inl e)
          | (Inr specContent, _) \<Rightarrow>
              rbind (decodeSpecIn specContent (depth + 1)) (\<lambda>spec.
              decodeComps comps' depth (acc @ [(string_of (case name of None \<Rightarrow> [] | Some b \<Rightarrow> b), spec)]))))"
  by pat_completeness auto

definition remaining :: "Decoder \<Rightarrow> nat" where
  "remaining d = length (d_data d) - d_off d"

lemma ReadTLV_remaining:
  assumes "dec_ok d" "ReadTLV d = (Inr (t, c), d')"
  shows "dec_ok d' \<and> length c < remaining d \<and> remaining d' < remaining d"
  using ReadTLV_spec [OF assms(1)] ReadTLV_shorter [OF assms(2,1)] assms
  by (auto simp: remaining_def dec_ok_def read_spec_def advanced_def)

lemma Expect_remaining:
  assumes "dec_ok d" "Expect t d = (Inr c, d')"
  shows "dec_ok d' \<and> length c < remaining d \<and> remaining d' < remaining d"
  using assms ReadTLV_remaining [OF assms(1)] by (auto simp: Expect_def split: prod.splits sum.splits if_splits)

lemma Optional_remaining:
  assumes "dec_ok d" "Optional t d = (r, d')"
  shows "dec_ok d' \<and> remaining d' \<le> remaining d"
proof -
  have "advanced d d'" using assms ReadTLV_spec [OF assms(1)]
    by (auto simp: Optional_def read_spec_def split: prod.splits sum.splits if_splits)
  then show ?thesis using assms(1) by (auto simp: advanced_def remaining_def)
qed

lemma remaining_New [simp]: "remaining (NewDecoder c) = length c"
  by (simp add: remaining_def)

lemma More_dec_ok: "More d \<Longrightarrow> dec_ok d"
  by (simp add: More_def dec_ok_def)

lemma array_shrinks:
  assumes "(opt, inner) = Optional t (NewDecoder content)" "(Inr nc, inner') = Expect t' inner" "(Inr ec, inner'') = Expect t'' inner'"
  shows "length ec < length content"
  using Optional_remaining [OF _ assms(1) [symmetric]] Expect_remaining [of inner t' nc inner'] Expect_remaining [of inner' t'' ec inner''] assms
  by simp

lemma comp_shrinks:
  assumes "(opt, inner) = Optional t (NewDecoder content)" "(Inr ec, inner') = Expect t' inner"
  shows "length ec < length content"
  using Optional_remaining [OF _ assms(1) [symmetric]] Expect_remaining [of inner t' ec inner'] assms
  by simp

lemma read_shrinks: "(Inr (t, c), d') = ReadTLV (NewDecoder content) \<Longrightarrow> length c < length content"
  using ReadTLV_remaining [of "NewDecoder content" t c d'] by simp

termination decodeSpecTLV
proof (relation "measure (case_sum (\<lambda>(t, c, k). 3 * length c + 1)
        (case_sum (\<lambda>(c, k). 3 * length c) (\<lambda>(d, k, acc). 3 * remaining d)))", goal_cases)
  case 1
  then show ?case by simp
next
  case (2 tag content depth)
  then show ?case by (auto dest!: array_shrinks)
next
  case 3
  then show ?case by (auto dest!: comp_shrinks)
next
  case 4
  then show ?case by (auto dest!: read_shrinks)
next
  case 5
  then show ?case by (auto dest!: comp_shrinks Expect_remaining [OF More_dec_ok sym])
next
  case 6
  then show ?case by (auto dest!: Expect_remaining [OF More_dec_ok sym])
qed

declare decodeSpecTLV.simps [simp del] decodeSpecIn.simps [simp del] decodeComps.simps [simp del]

definition decodeTypeSpec :: "Decoder \<Rightarrow> nat \<Rightarrow> (mms_error, TypeSpec) result \<times> Decoder" where
  "decodeTypeSpec dec depth =
     (if depth > maxValueDepth then (Inl (Err (Asn1 ErrTooDeep)), dec)
      else case ReadTLV dec of
        (Inl e, dec') \<Rightarrow> (lift_ber (Inl e), dec')
      | (Inr (tag, content), dec') \<Rightarrow> (decodeSpecTLV tag content depth, dec'))"

text \<open>The recursive calls are \<open>decodeTypeSpec\<close> on a new decoder.\<close>

lemma decodeSpecIn_eq: "decodeSpecIn content depth = fst (decodeTypeSpec (NewDecoder content) depth)"
  by (simp add: decodeSpecIn.simps decodeTypeSpec_def split: prod.splits sum.splits)

definition DecodeTypeSpec :: "Decoder \<Rightarrow> (mms_error, TypeSpec) result \<times> Decoder" where
  "DecodeTypeSpec dec =
     (case decodeTypeSpec dec 0 of
        (Inl e, dec') \<Rightarrow> (Inl e, dec')
      | (Inr ts, dec') \<Rightarrow>
          if valueCount ts > maxDefaultValues then (Inl (Err (Asn1 ErrBadLength)), dec') else (Inr ts, dec'))"

section \<open>Default values\<close>

text \<open>\<^verbatim>\<open>make([]*Value, n)\<close> panics on a negative length, a nil specification is dereferenced.\<close>

fun DefaultValue :: "TypeSpec \<Rightarrow> (mms_error, Value) result" where
  "DefaultValue NilSpec = Inl Panic"
| "DefaultValue (TypeSpec k size' elements element comps) =
     (case k of
        TypeArray \<Rightarrow>
          if elements < 0 then Inl Panic
          else if elements = 0 then Inr (Value TypeArray 0 0 [] 0 [])
          else rbind (DefaultValue element) (\<lambda>v. Inr (Value TypeArray 0 0 [] 0 (replicate (nat elements) v)))
      | TypeStructure \<Rightarrow>
          rbind (rmap (\<lambda>(name, spec). DefaultValue spec) comps) (\<lambda>vs. Inr (Value TypeStructure 0 0 [] 0 vs))
      | TypeBoolean \<Rightarrow> Inr (NewBool False)
      | TypeBitString \<Rightarrow> Inr (mms_NewBitString (if size' < 0 then - size' else size'))
      | TypeInteger \<Rightarrow> Inr (NewInt64 0)
      | TypeUnsigned \<Rightarrow> Inr (NewUint32 0)
      | TypeFloat32 \<Rightarrow> Inr (NewFloat32 0)
      | TypeFloat64 \<Rightarrow> Inr (NewFloat64 0)
      | TypeOctetString \<Rightarrow> Inr (NewOctetString [])
      | TypeVisibleString \<Rightarrow> Inr (NewVisibleString [])
      | TypeMMSString \<Rightarrow> Inr (NewMMSString [])
      | TypeGeneralizedTime \<Rightarrow> Inr (Value TypeGeneralizedTime 0 0 [] 0 [])
      | TypeBinaryTime \<Rightarrow> Inr (Value TypeBinaryTime 0 0 (replicate 6 0) 0 [])
      | TypeUTCTime \<Rightarrow> Inr (case NewUTCTimeRaw (replicate 8 0) of Inl _ \<Rightarrow> NilValue | Inr v \<Rightarrow> v)
      | _ \<Rightarrow> Inr NilValue)"

section \<open>What a decoded specification is\<close>

fun spec_ok :: "TypeSpec \<Rightarrow> bool" where
  "spec_ok NilSpec = False"
| "spec_ok (TypeSpec k size' elements element comps) =
     (case k of
        TypeArray \<Rightarrow> size' = 0 \<and> 0 \<le> elements \<and> elements \<le> int maxArrayElements \<and> spec_ok element \<and> comps = []
      | TypeStructure \<Rightarrow> size' = 0 \<and> elements = 0 \<and> element = NilSpec \<and> list_all (\<lambda>(name, spec). spec_ok spec) comps
      | _ \<Rightarrow> elements = 0 \<and> element = NilSpec \<and> comps = []
           \<and> (if k = TypeBitString then \<bar>size'\<bar> \<le> maxBitStringBits
              else if k \<in> {TypeInteger, TypeUnsigned, TypeOctetString, TypeVisibleString, TypeMMSString} then int64_ok size'
              else k \<notin> {TypeNone, TypeDataAccessError} \<and> size' = 0))"

lemma lift_ber_Inr [simp]: "lift_ber r = Inr x \<longleftrightarrow> r = Inr x"
  by (cases r rule: lift_ber.cases) auto

lemma lift_ber_failed [simp]: "lift_ber (Inl e) \<noteq> Inr x"
  by (cases e) auto

lemma int64_of_ok [simp]: "int64_ok (int64_of n)"
  using pos_mod_bound [of "2 ^ 64" "int n"] pos_mod_sign [of "2 ^ 64" "int n"] by (auto simp: int64_ok_def int64_of_def Let_def)

text \<open>One round of the loop over the components of a structure.\<close>

lemma decodeComps_round:
  assumes "decodeComps comps depth acc = Inr cs" "More comps"
  obtains seq comps' opt cd name specContent cd' spec where "Expect TagSequence comps = (Inr seq, comps')"
    "Optional (ContextPrimitive 0) (NewDecoder seq) = (opt, cd)" "optional_or_error opt = Inr name"
    "Expect (ContextConstructed 1) cd = (Inr specContent, cd')" "decodeSpecIn specContent (depth + 1) = Inr spec"
    "decodeComps comps' depth (acc @ [(string_of (case name of None \<Rightarrow> [] | Some b \<Rightarrow> b), spec)]) = Inr cs"
proof -
  obtain e comps' where e: "Expect TagSequence comps = (e, comps')" by force
  with assms obtain seq where seq: "e = Inr seq" by (cases e) (simp_all add: decodeComps.simps)
  obtain opt cd where o: "Optional (ContextPrimitive 0) (NewDecoder seq) = (opt, cd)" by force
  with assms e seq obtain name where n: "optional_or_error opt = Inr name"
    by (subst (asm) decodeComps.simps) (auto simp: rbind_eq_Inr)
  obtain e' cd' where e': "Expect (ContextConstructed 1) cd = (e', cd')" by force
  with assms e seq o n obtain sc where sc: "e' = Inr sc" by (cases e') (simp_all add: decodeComps.simps)
  have "rbind (decodeSpecIn sc (depth + 1)) (\<lambda>spec.
      decodeComps comps' depth (acc @ [(string_of (case name of None \<Rightarrow> [] | Some b \<Rightarrow> b), spec)])) = Inr cs"
    using assms e seq o n e' sc by (subst (asm) decodeComps.simps) simp
  then show thesis using that e seq o n e' sc by (auto simp: rbind_eq_Inr)
qed

lemma decodeSpec_ok:
  "decodeSpecTLV tag content depth = Inr ts \<Longrightarrow> spec_ok ts"
  "decodeSpecIn content depth = Inr ts \<Longrightarrow> spec_ok ts"
  "decodeComps comps depth acc = Inr cs \<Longrightarrow> list_all (\<lambda>(name, spec). spec_ok spec) acc \<Longrightarrow> list_all (\<lambda>(name, spec). spec_ok spec) cs"
proof (induction tag content depth and content depth and comps depth acc arbitrary: ts and ts and cs
    rule: decodeSpecTLV_decodeSpecIn_decodeComps.induct)
  case (1 tag content depth)
  show ?case
    using "1.prems" "1.IH"
    by (subst (asm) decodeSpecTLV.simps)
      (auto simp: Let_def rbind_eq_Inr DecodeInt_range split: if_splits prod.splits sum.splits)
next
  case (2 content depth)
  then show ?case by (subst (asm) decodeSpecIn.simps) (auto split: if_splits prod.splits sum.splits)
next
  case (3 comps depth acc)
  show ?case
  proof (cases "More comps")
    case False
    then show ?thesis using "3.prems" by (subst (asm) decodeComps.simps) simp
  next
    case True
    obtain seq comps' opt cd name specContent cd' spec where r: "Expect TagSequence comps = (Inr seq, comps')"
      "Optional (ContextPrimitive 0) (NewDecoder seq) = (opt, cd)" "optional_or_error opt = Inr name"
      "Expect (ContextConstructed 1) cd = (Inr specContent, cd')" "decodeSpecIn specContent (depth + 1) = Inr spec"
      "decodeComps comps' depth (acc @ [(string_of (case name of None \<Rightarrow> [] | Some b \<Rightarrow> b), spec)]) = Inr cs"
      using decodeComps_round [OF "3.prems"(1) True] .
    have "spec_ok spec" using "3.IH"(1) True r by simp
    then show ?thesis using "3.IH"(2) True r "3.prems"(2) by simp
  qed
qed

section \<open>The size of a default value\<close>

fun value_nodes :: "Value \<Rightarrow> nat" where
  "value_nodes NilValue = 0"
| "value_nodes (Value t n f b l c) = 1 + sum_list (map value_nodes c)"

lemma sum_sat_small:
  "sum_sat f n xs \<le> maxDefaultValues \<Longrightarrow> sum_sat f n xs = n + sum_list (map f xs) \<and> (\<forall>x \<in> set xs. f x \<le> maxDefaultValues)"
  by (induction xs arbitrary: n) (fastforce simp: Let_def split: if_splits)+

lemma sum_sat_ge: "1 \<le> n \<Longrightarrow> 1 \<le> sum_sat f n xs"
  by (induction xs arbitrary: n) (auto simp: Let_def)

lemma valueCount_pos: "spec_ok ts \<Longrightarrow> 1 \<le> valueCount ts"
  using sum_sat_ge [of 1] by (cases ts) (auto simp: Let_def split: Type.splits)

lemma rmap_ex:
  assumes "\<And>x. x \<in> set xs \<Longrightarrow> \<exists>y. f x = Inr y \<and> P x y"
  shows "\<exists>ys. rmap f xs = Inr ys \<and> list_all2 P xs ys"
  using assms by (induction xs) fastforce+

text \<open>Within the limit the count is exact, and nothing panics.\<close>

lemma DefaultValue_count:
  "spec_ok ts \<Longrightarrow> valueCount ts \<le> maxDefaultValues \<Longrightarrow>
     \<exists>v. DefaultValue ts = Inr v \<and> value_nodes v = valueCount ts \<and> value_Type v = ts_Kind ts"
proof (induction ts)
  case (TypeSpec k sz elements element comps)
  consider (arr) "k = TypeArray" | (str) "k = TypeStructure" | (sc) "k \<noteq> TypeArray" "k \<noteq> TypeStructure" by blast
  then show ?case
  proof cases
    case arr
    show ?thesis
    proof (cases "elements = 0")
      case True
      then show ?thesis using arr by (simp add: Let_def)
    next
      case False
      then have el: "spec_ok element" "elements > 0" using TypeSpec.prems arr by auto
      let ?per = "valueCount element"
      have per: "1 \<le> ?per" using valueCount_pos [OF el(1)] .
      then have eq: "valueCount (TypeSpec k sz elements element comps) = 1 + nat elements * ?per"
        and le: "1 + nat elements * ?per \<le> maxDefaultValues"
        using TypeSpec.prems(2) arr el(2) by (auto simp: Let_def split: if_splits)
      have "?per \<le> nat elements * ?per" using el(2) by (simp add: Suc_le_eq)
      then have "?per \<le> maxDefaultValues" using le by linarith
      then obtain v where v: "DefaultValue element = Inr v" "value_nodes v = ?per" using TypeSpec.IH(1) el(1) by blast
      show ?thesis using arr el(2) v unfolding eq by (simp add: sum_list_replicate)
    qed
  next
    case str
    then have ok: "\<forall>(name, spec) \<in> set comps. spec_ok spec" using TypeSpec.prems by (simp add: list_all_iff)
    have sm: "sum_sat (\<lambda>(name, spec). valueCount spec) 1 comps \<le> maxDefaultValues" using TypeSpec.prems str by (simp add: Let_def)
    note s = sum_sat_small [OF sm]
    have "\<exists>v. (\<lambda>(name, spec). DefaultValue spec) x = Inr v \<and> value_nodes v = valueCount (snd x)" if "x \<in> set comps" for x
      using TypeSpec.IH(2) [of x "snd x"] that ok s by (cases x) fastforce
    then obtain vs where vs: "rmap (\<lambda>(name, spec). DefaultValue spec) comps = Inr vs"
      "list_all2 (\<lambda>x v. value_nodes v = valueCount (snd x)) comps vs"
      using rmap_ex [of comps "\<lambda>(name, spec). DefaultValue spec" "\<lambda>x v. value_nodes v = valueCount (snd x)"] by blast
    have "map value_nodes vs = map (\<lambda>(name, spec). valueCount spec) comps"
      using vs(2) by (induction comps vs rule: list_all2_induct) auto
    then show ?thesis using vs(1) s str by (simp add: Let_def)
  next
    case sc
    then show ?thesis using TypeSpec.prems
      by (cases k) (auto simp: NewBool_def mms_NewBitString_def NewInt64_def NewUint32_def NewFloat32_def NewFloat64_def
        NewOctetString_def NewVisibleString_def NewMMSString_def NewUTCTimeRaw_def Let_def)
  qed
qed simp

section \<open>Round trip\<close>

fun spec_tag :: "TypeSpec \<Rightarrow> Tag" where
  "spec_tag NilSpec = ContextPrimitive 0"
| "spec_tag (TypeSpec k size' elements element comps) =
     (case k of
        TypeArray \<Rightarrow> ContextConstructed tagDataArray
      | TypeStructure \<Rightarrow> ContextConstructed tagDataStructure
      | TypeBoolean \<Rightarrow> ContextPrimitive tagDataBoolean
      | TypeBitString \<Rightarrow> ContextPrimitive tagDataBitString
      | TypeInteger \<Rightarrow> ContextPrimitive tagDataInteger
      | TypeUnsigned \<Rightarrow> ContextPrimitive tagDataUnsigned
      | TypeFloat32 \<Rightarrow> ContextConstructed tagDataFloat
      | TypeFloat64 \<Rightarrow> ContextConstructed tagDataFloat
      | TypeOctetString \<Rightarrow> ContextPrimitive tagDataOctetString
      | TypeVisibleString \<Rightarrow> ContextPrimitive tagDataVisString
      | TypeGeneralizedTime \<Rightarrow> ContextPrimitive tagDataGenTime
      | TypeBinaryTime \<Rightarrow> ContextPrimitive tagDataBinTime
      | TypeMMSString \<Rightarrow> ContextPrimitive tagDataMMSString
      | TypeUTCTime \<Rightarrow> ContextPrimitive tagDataUTCTime
      | _ \<Rightarrow> ContextPrimitive 0)"

fun spec_content :: "TypeSpec \<Rightarrow> byte list" where
  "spec_content NilSpec = []"
| "spec_content (TypeSpec k size' elements element comps) =
     (case k of
        TypeArray \<Rightarrow> tlv (ContextPrimitive 1) (uint_octets (uint64_of elements))
          @ tlv (ContextConstructed 2) (tlv (spec_tag element) (spec_content element))
      | TypeStructure \<Rightarrow>
          tlv (ContextConstructed 1) (concat (map (\<lambda>(name, spec).
            tlv TagSequence (tlv (ContextPrimitive 0) (octets_of name) @ tlv (ContextConstructed 1) (tlv (spec_tag spec) (spec_content spec)))) comps))
      | TypeBitString \<Rightarrow> int_octets size'
      | TypeInteger \<Rightarrow> uint_octets (uint64_of size')
      | TypeUnsigned \<Rightarrow> uint_octets (uint64_of size')
      | TypeFloat32 \<Rightarrow> tlv TagInteger (int_octets 32) @ tlv TagInteger (int_octets 8)
      | TypeFloat64 \<Rightarrow> tlv TagInteger (int_octets 64) @ tlv TagInteger (int_octets 11)
      | TypeOctetString \<Rightarrow> int_octets size'
      | TypeVisibleString \<Rightarrow> int_octets size'
      | TypeMMSString \<Rightarrow> int_octets size'
      | TypeBinaryTime \<Rightarrow> bool_octets True
      | _ \<Rightarrow> [])"

abbreviation spec_octets :: "TypeSpec \<Rightarrow> byte list" where
  "spec_octets ts \<equiv> tlv (spec_tag ts) (spec_content ts)"

definition comp_octets :: "string \<times> TypeSpec \<Rightarrow> byte list" where
  "comp_octets c = tlv TagSequence (tlv (ContextPrimitive 0) (octets_of (fst c)) @ tlv (ContextConstructed 1) (spec_octets (snd c)))"

lemma comp_octets_eta:
  "(\<lambda>(name, spec). tlv TagSequence (tlv (ContextPrimitive 0) (octets_of name) @ tlv (ContextConstructed 1) (spec_octets spec))) = comp_octets"
  by (auto simp: comp_octets_def fun_eq_iff)

lemma seq_tag_simps: "Number TagSequence = 16" "TagSequence\<lparr>Constructed := True\<rparr> = TagSequence" "Number TagInteger = 2" "\<not> Constructed TagInteger"
  by (simp_all add: tag_defs)

lemma BER_octets: "spec_ok ts \<Longrightarrow> \<exists>el. BER ts = Inr (Some el) \<and> el_ok el \<and> Encode el = spec_octets ts"
proof (induction ts)
  case (TypeSpec k sz elements element comps)
  consider (arr) "k = TypeArray" | (str) "k = TypeStructure" | (sc) "k \<noteq> TypeArray" "k \<noteq> TypeStructure" by blast
  then show ?case
  proof cases
    case arr
    then obtain el where "BER element = Inr (Some el)" "el_ok el" "Encode el = spec_octets element"
      using TypeSpec by auto
    then show ?thesis using arr
      by (simp add: UintElem_def encode_simps ctx_tag_simps data_tags map_filter_simps)
  next
    case str
    let ?c = "\<lambda>(name, spec). rbind (BER spec) (\<lambda>e.
              Inr (Some (Cons_el TagSequence
                [Some (Prim (ContextPrimitive 0) (octets_of name)), Some (Cons_el (ContextConstructed 1) [e])])))"
    have "\<exists>y. ?c x = Inr y \<and> (\<exists>el. y = Some el \<and> el_ok el \<and> Encode el = comp_octets x)" if x: "x \<in> set comps" for x
    proof -
      obtain el where "BER (snd x) = Inr (Some el)" "el_ok el" "Encode el = spec_octets (snd x)"
        using TypeSpec.IH(2) [of x "snd x"] TypeSpec.prems x str by (cases x) (auto simp: list_all_iff)
      then show ?thesis
        by (cases x) (simp add: comp_octets_def encode_simps ctx_tag_simps map_filter_simps seq_tag_simps)
    qed
    then obtain cs where cs: "rmap ?c comps = Inr cs"
      "list_all2 (\<lambda>x y. \<exists>el. y = Some el \<and> el_ok el \<and> Encode el = comp_octets x) comps cs"
      using rmap_ex [of comps ?c "\<lambda>x y. \<exists>el. y = Some el \<and> el_ok el \<and> Encode el = comp_octets x"] by blast
    have "list_all el_ok (List.map_filter id cs) \<and> concat (map Encode (List.map_filter id cs)) = concat (map comp_octets comps)"
      using cs(2) by (induction comps cs rule: list_all2_induct) (auto simp: map_filter_simps)
    then show ?thesis using cs(1) str
      by (simp add: encode_simps ctx_tag_simps map_filter_simps comp_octets_eta data_tags)
  next
    case sc
    then show ?thesis using TypeSpec.prems
      by (cases k) (auto simp: IntElem_def UintElem_def BoolElem_def encode_simps ctx_tag_simps map_filter_simps data_tags seq_tag_simps)
  qed
qed simp

fun spec_depth :: "TypeSpec \<Rightarrow> nat" where
  "spec_depth NilSpec = 0"
| "spec_depth (TypeSpec k size' elements element comps) =
     (if k = TypeArray then spec_depth element + 1
      else if k = TypeStructure then foldr (\<lambda>(name, spec) m. max (spec_depth spec + 1) m) comps 0 else 0)"

lemma spec_depth_comp:
  "x \<in> set comps \<Longrightarrow> spec_depth (snd x) + 1 \<le> foldr (\<lambda>(name, spec) m. max (spec_depth spec + 1) m) comps 0"
  by (induction comps) (auto simp: max_def)

definition spec_fits :: "nat \<Rightarrow> TypeSpec \<Rightarrow> bool" where
  "spec_fits depth ts = (spec_ok ts \<and> depth + spec_depth ts \<le> maxValueDepth \<and> length (spec_octets ts) < 2 ^ 32)"

lemma tag_ok_spec_tag [simp]: "tag_ok (spec_tag ts)"
  by (cases ts rule: spec_tag.cases) (simp_all split: Type.splits)

lemma content_lt: "length (spec_content ts) < length (spec_octets ts)"
  using length_tlv_le(2) by simp

lemma decodeSpecIn_fits:
  assumes "spec_fits depth ts" and "decodeSpecTLV (spec_tag ts) (spec_content ts) depth = Inr ts"
  shows "decodeSpecIn (spec_octets ts) depth = Inr ts"
  using assms content_lt [of ts]
  by (simp add: decodeSpecIn.simps NewDecoder_at spec_fits_def codec_simps)

lemma decodeComps_octets:
  assumes "\<And>c. c \<in> set cs \<Longrightarrow> length (comp_octets c) < 2 ^ 32 \<and> decodeSpecIn (spec_octets (snd c)) (depth + 1) = Inr (snd c)"
  shows "decodeComps (at_pos pre (concat (map comp_octets cs))) depth acc = Inr (acc @ cs)"
  using assms
proof (induction cs arbitrary: pre acc)
  case Nil
  then show ?case by (subst decodeComps.simps) simp
next
  case (Cons c cs)
  have len: "length (comp_octets c) < 2 ^ 32" and sp: "decodeSpecIn (spec_octets (snd c)) (depth + 1) = Inr (snd c)"
    using Cons.prems by simp_all
  have lt: "length (tlv (ContextPrimitive 0) (octets_of (fst c)) @ tlv (ContextConstructed 1) (spec_octets (snd c))) < 2 ^ 32"
    using len length_tlv_le(2) [of "tlv (ContextPrimitive 0) (octets_of (fst c)) @ tlv (ContextConstructed 1) (spec_octets (snd c))" TagSequence]
    unfolding comp_octets_def by linarith
  then have lt2: "length (octets_of (fst c)) < 2 ^ 32" "length (spec_octets (snd c)) < 2 ^ 32"
    using length_tlv_le(2) [of "octets_of (fst c)" "ContextPrimitive 0"] length_tlv_le(2) [of "spec_octets (snd c)" "ContextConstructed 1"]
    by (simp_all)
  have "decodeComps (at_pos (pre @ comp_octets c) (concat (map comp_octets cs))) depth (acc @ [c]) = Inr ((acc @ [c]) @ cs)"
    using Cons.prems by (intro Cons.IH) simp
  then show ?case using lt lt2 sp
    by (subst decodeComps.simps) (simp add: comp_octets_def codec_simps NewDecoder_at optional_or_error_def)
qed

lemma ctx_Class: "Class (ContextPrimitive n) = ClassContextSpecific" "Class (ContextConstructed n) = ClassContextSpecific"
  by (simp_all add: tag_defs)

lemma ctx_tag_eq: "ContextPrimitive m = ContextPrimitive n \<longleftrightarrow> m = n" "ContextConstructed m \<noteq> ContextPrimitive n"
  by (simp_all add: tag_defs)

lemma decodeSpecTLV_scalar:
  assumes "spec_ok (TypeSpec k sz elements element comps)" "k \<noteq> TypeArray" "k \<noteq> TypeStructure"
  shows "decodeSpecTLV (spec_tag (TypeSpec k sz elements element comps)) (spec_content (TypeSpec k sz elements element comps)) depth =
    Inr (TypeSpec k sz elements element comps)"
proof -
  have f: "length (int_octets 32) < 2 ^ 32" "length (int_octets 64) < 2 ^ 32" "int64_ok 32" "int64_ok 64"
    using length_int_octets [of 32] length_int_octets [of 64] by (simp_all add: int64_ok_def)
  show ?thesis using assms f
    by (cases k)
      (auto simp: decodeSpecTLV.simps Let_def data_tags ctx_tag_simps ctx_Class DecodeInt_AppendInt DecodeUint_AppendUint
        int64_uint64 maxBitStringBits_def NewDecoder_at codec_simps abs_le_iff, simp_all add: int64_ok_def DecodeInt_AppendInt)
qed

lemma decodeSpecTLV_roundtrip:
  "spec_fits depth ts \<Longrightarrow> decodeSpecTLV (spec_tag ts) (spec_content ts) depth = Inr ts"
proof (induction ts arbitrary: depth)
  case (TypeSpec k sz elements element comps)
  let ?ts = "TypeSpec k sz elements element comps"
  have ok: "spec_ok ?ts" "length (spec_content ?ts) < 2 ^ 32"
    using TypeSpec.prems content_lt [of ?ts] by (auto simp: spec_fits_def)
  consider (arr) "k = TypeArray" | (str) "k = TypeStructure" | (sc) "k \<noteq> TypeArray" "k \<noteq> TypeStructure" by blast
  then show ?case
  proof cases
    case arr
    have el: "length (spec_octets element) < 2 ^ 32" "length (uint_octets (uint64_of elements)) < 2 ^ 32"
      using ok(2) arr length_tlv_le(2) [of "spec_octets element" "ContextConstructed 2"]
        length_tlv_le(2) [of "uint_octets (uint64_of elements)" "ContextPrimitive 1"] by simp_all
    then have fits: "spec_fits (depth + 1) element" using TypeSpec.prems arr ok by (simp add: spec_fits_def)
    have n: "uint64_of elements = nat elements" "int (nat elements) = elements" "nat elements \<le> maxArrayElements" "uint64_ok (nat elements)"
      using ok(1) arr by (auto simp: uint64_of_def maxArrayElements_def uint64_ok_def nat_less_iff)
    have "decodeSpecIn (spec_octets element) (depth + 1) = Inr element"
      using decodeSpecIn_fits [OF fits] TypeSpec.IH(1) [OF fits] by simp
    then show ?thesis using arr ok(1) el n
      by (subst decodeSpecTLV.simps) (simp add: Let_def ctx_tag_simps ctx_Class NewDecoder_at codec_simps optional_or_error_def
          DecodeUint_AppendUint ctx_tag_eq)
  next
    case str
    let ?cont = "concat (map comp_octets comps)"
    have cont: "spec_content ?ts = tlv (ContextConstructed 1) ?cont" using str by (simp add: comp_octets_eta)
    then have lt: "length ?cont < 2 ^ 32" using ok(2) length_tlv_le(2) [of ?cont "ContextConstructed 1"] by simp
    have c: "length (comp_octets c) < 2 ^ 32 \<and> decodeSpecIn (spec_octets (snd c)) (depth + 1) = Inr (snd c)" if c: "c \<in> set comps" for c
    proof -
      have l: "length (comp_octets c) < 2 ^ 32" using length_concat_member [OF c, of comp_octets] lt by linarith
      have "length (spec_octets (snd c)) < length (comp_octets c)"
        unfolding comp_octets_def
        using length_tlv_le(2) [of "spec_octets (snd c)" "ContextConstructed 1"]
          length_tlv_le(2) [of "tlv (ContextPrimitive 0) (octets_of (fst c)) @ tlv (ContextConstructed 1) (spec_octets (snd c))" TagSequence]
        by simp
      then have fits: "spec_fits (depth + 1) (snd c)"
        using l TypeSpec.prems str spec_depth_comp [OF c] ok(1) c by (auto simp: spec_fits_def list_all_iff)
      show ?thesis using l decodeSpecIn_fits [OF fits] TypeSpec.IH(2) [OF c _ fits] by (cases c) simp
    qed
    have "decodeComps (NewDecoder ?cont) depth [] = Inr comps"
      using decodeComps_octets [of comps depth "[]" "[]"] c by (simp add: NewDecoder_at)
    then show ?thesis using str ok(1) lt unfolding cont
      by (subst decodeSpecTLV.simps) (simp add: Let_def ctx_tag_simps ctx_Class NewDecoder_at codec_simps optional_or_error_def
          ctx_tag_eq data_tags)
  next
    case sc
    then show ?thesis using decodeSpecTLV_scalar [OF ok(1)] by blast
  qed
qed (simp add: spec_fits_def)

section \<open>The decoder never panics\<close>

lemma Expect_no_panic: "dec_ok d \<Longrightarrow> fst (Expect t d) \<noteq> Inl Panic"
  using Expect_spec [of d t] by (auto simp: read_spec_def split: prod.splits)

lemma Optional_no_panic: "dec_ok d \<Longrightarrow> optional_or_error (fst (Optional t d)) \<noteq> Inl Panic"
  using ReadTLV_spec [of d] read_spec_readTag [of d]
  by (auto simp: Optional_def Peek_def optional_or_error_def read_spec_def split: prod.splits sum.splits)

lemma if_ne: "(c \<Longrightarrow> a \<noteq> x) \<Longrightarrow> (\<not> c \<Longrightarrow> b \<noteq> x) \<Longrightarrow> (if c then a else b) \<noteq> x"
  by simp

lemma decodeSpec_no_panic:
  "decodeSpecTLV tag content depth \<noteq> Inl Panic"
  "decodeSpecIn content depth \<noteq> Inl Panic"
  "dec_ok comps \<Longrightarrow> decodeComps comps depth acc \<noteq> Inl Panic"
proof (induction tag content depth and content depth and comps depth acc
    rule: decodeSpecTLV_decodeSpecIn_decodeComps.induct)
  case (1 tag content depth)
  obtain opt inner where o: "Optional (ContextPrimitive 0) (NewDecoder content) = (opt, inner)" by force
  obtain r1 i1 where e1: "Expect (ContextPrimitive 1) inner = (r1, i1)" by force
  obtain r2 i2 where e2: "Expect (ContextConstructed 2) i1 = (r2, i2)" by force
  obtain r3 i3 where e3: "Expect (ContextConstructed 1) inner = (r3, i3)" by force
  obtain r4 i4 where e4: "Expect TagInteger (NewDecoder content) = (r4, i4)" by force
  have ok: "dec_ok inner" using Optional_remaining [OF _ o] by simp
  have oks: "r1 = Inr x \<Longrightarrow> dec_ok i1" for x using Expect_remaining [OF ok] e1 by blast
  have np: "optional_or_error opt \<noteq> Inl Panic" "r1 \<noteq> Inl Panic" "r3 \<noteq> Inl Panic" "r4 \<noteq> Inl Panic" "r1 = Inr x \<Longrightarrow> r2 \<noteq> Inl Panic" for x
    using Optional_no_panic [of "NewDecoder content" "ContextPrimitive 0"] Expect_no_panic [OF ok] Expect_no_panic [of "NewDecoder content" TagInteger]
      Expect_no_panic [OF oks, of x "ContextConstructed 2"] o e1 e2 e3 e4 by (metis fst_conv dec_ok_NewDecoder)+
  consider (arr) "Number tag = tagDataArray" | (str) "Number tag = tagDataStructure" "Number tag \<noteq> tagDataArray"
    | (flt) "Number tag = tagDataFloat" "Number tag \<noteq> tagDataArray" "Number tag \<noteq> tagDataStructure"
    | (sc) "Number tag \<noteq> tagDataArray" "Number tag \<noteq> tagDataStructure" "Number tag \<noteq> tagDataFloat" by blast
  then show ?case
  proof cases
    case arr
    then show ?thesis using "1.IH"(1) o e1 e2 np
      by (subst decodeSpecTLV.simps) (auto simp: Let_def rbind_eq_Inl DecodeInt_no_panic split: sum.splits, blast)
  next
    case str
    then show ?thesis using "1.IH"(2) o e3 np
      by (subst decodeSpecTLV.simps) (auto simp: Let_def rbind_eq_Inl split: sum.splits, blast)
  next
    case flt
    then show ?thesis using e4 np
      by (subst decodeSpecTLV.simps) (auto simp: Let_def rbind_eq_Inl DecodeInt_no_panic data_tags split: sum.splits)
  next
    case sc
    then show ?thesis unfolding decodeSpecTLV.simps [of tag content depth] Let_def
      by (intro if_ne) (simp_all add: rbind_eq_Inl DecodeInt_no_panic)
  qed
next
  case (2 content depth)
  then show ?case using ReadTLV_spec [of "NewDecoder content"]
    by (subst decodeSpecIn.simps) (auto simp: read_spec_def split: prod.splits sum.splits)
next
  case (3 comps depth acc)
  obtain r0 comps' where e0: "Expect TagSequence comps = (r0, comps')" by force
  show ?case
  proof (cases r0)
    case (Inl e)
    then show ?thesis using Expect_no_panic [OF "3.prems", of TagSequence] e0 by (subst decodeComps.simps) simp
  next
    case (Inr seq)
    obtain opt cd where o: "Optional (ContextPrimitive 0) (NewDecoder seq) = (opt, cd)" by force
    obtain r1 cd' where e1: "Expect (ContextConstructed 1) cd = (r1, cd')" by force
    have ok: "dec_ok cd" "dec_ok comps'" using Optional_remaining [OF _ o] Expect_remaining [OF "3.prems"] e0 Inr by simp_all
    have np: "optional_or_error opt \<noteq> Inl Panic" "r1 \<noteq> Inl Panic"
      using Optional_no_panic [of "NewDecoder seq" "ContextPrimitive 0"] Expect_no_panic [OF ok(1)] o e1 by (metis fst_conv dec_ok_NewDecoder)+
    show ?thesis using "3.IH" e0 Inr o e1 np ok
      by (subst decodeComps.simps) (auto simp: rbind_eq_Inl split: sum.splits)
  qed
qed

section \<open>Properties\<close>

text \<open>Type specifications round trip: a well-formed specification within the nesting limit encodes
  to octets that decode to it, whatever follows them, when the values it stands for are within the
  allocation limit.\<close>

theorem typespec_roundtrip:
  assumes "spec_fits 0 ts" and "valueCount ts \<le> maxDefaultValues"
  shows "\<exists>el. BER ts = Inr (Some el)
    \<and> DecodeTypeSpec (at_pos pre (Encode el @ rest)) = (Inr ts, at_pos (pre @ Encode el) rest)"
proof -
  obtain el where el: "BER ts = Inr (Some el)" "Encode el = spec_octets ts"
    using BER_octets assms(1) by (auto simp: spec_fits_def)
  have "length (spec_content ts) < 2 ^ 32" using assms(1) content_lt [of ts] by (simp add: spec_fits_def)
  then show ?thesis using el decodeSpecTLV_roundtrip [OF assms(1)] assms(2)
    by (simp add: DecodeTypeSpec_def decodeTypeSpec_def codec_simps)
qed

theorem typespec_roundtrip_witness:
  "\<exists>el. BER (TypeSpec TypeStructure 0 0 NilSpec [(''mag'', TypeSpec TypeArray 0 4 (scalar TypeFloat32 0) []), (''q'', scalar TypeBitString (-13))]) = Inr (Some el)
    \<and> DecodeTypeSpec (at_pos [] (Encode el @ [0])) = (Inr (TypeSpec TypeStructure 0 0 NilSpec
        [(''mag'', TypeSpec TypeArray 0 4 (scalar TypeFloat32 0) []), (''q'', scalar TypeBitString (-13))]), at_pos ([] @ Encode el) [0])"
proof (rule typespec_roundtrip)
  let ?ts = "TypeSpec TypeStructure 0 0 NilSpec [(''mag'', TypeSpec TypeArray 0 4 (scalar TypeFloat32 0) []), (''q'', scalar TypeBitString (-13))]"
  have "length (spec_octets ?ts) < 100" by code_simp
  then have "length (spec_octets ?ts) < 2 ^ 32" by simp
  then show "spec_fits 0 ?ts" by (simp add: spec_fits_def maxArrayElements_def maxBitStringBits_def maxValueDepth_def)
  show "valueCount ?ts \<le> maxDefaultValues" by (simp add: maxDefaultValues_def Let_def)
qed

text \<open>(C33) Type specifications from a peer are safe to materialise: decoding never panics, and for a
  specification that is accepted the zero value exists, has its kind, and consists of at most
  \<open>2 ^ 20\<close> values.\<close>

theorem typespec_bounded:
  assumes "dec_ok d"
  shows "case DecodeTypeSpec d of
      (Inl e, _) \<Rightarrow> e \<noteq> Panic
    | (Inr ts, _) \<Rightarrow> spec_ok ts \<and> (\<exists>v. DefaultValue ts = Inr v \<and> value_nodes v \<le> 2 ^ 20 \<and> value_Type v = ts_Kind ts)"
proof -
  obtain r d' where r: "decodeTypeSpec d 0 = (r, d')" by force
  have "r \<noteq> Inl Panic"
    using r ReadTLV_spec [OF assms] decodeSpec_no_panic(1) by (auto simp: decodeTypeSpec_def read_spec_def split: prod.splits sum.splits)
  moreover have "spec_ok ts" if "r = Inr ts" for ts
    using that r decodeSpec_ok(1) by (auto simp: decodeTypeSpec_def split: prod.splits sum.splits if_splits)
  moreover have "\<exists>v. DefaultValue ts = Inr v \<and> value_nodes v \<le> 2 ^ 20 \<and> value_Type v = ts_Kind ts"
    if ts: "r = Inr ts" "\<not> valueCount ts > maxDefaultValues" for ts
  proof -
    obtain v where "DefaultValue ts = Inr v" "value_nodes v = valueCount ts" "value_Type v = ts_Kind ts"
      using DefaultValue_count [of ts] calculation(2) ts by auto
    then show ?thesis using ts(2) by (simp add: maxDefaultValues_def)
  qed
  ultimately show ?thesis using r by (cases r) (simp_all add: DecodeTypeSpec_def)
qed

theorem typespec_bounded_witness:
  "case DecodeTypeSpec (NewDecoder [0xa1, 9, 0x81, 3, 1, 0, 0, 0xa2, 2, 0x83, 0]) of
      (Inl e, _) \<Rightarrow> e \<noteq> Panic
    | (Inr ts, _) \<Rightarrow> spec_ok ts \<and> (\<exists>v. DefaultValue ts = Inr v \<and> value_nodes v \<le> 2 ^ 20 \<and> value_Type v = ts_Kind ts)"
  by (rule typespec_bounded) (rule dec_ok_NewDecoder)

end
