(* ===== verification/SrvAccess.thy ===== *)
theory SrvAccess
  imports Nodes MmsTypeSpec "HOL-Library.Multiset"
begin

text \<open>
  How the server exposes the data model as MMS variables (\<^verbatim>\<open>server/access.go\<close>): the names it
  lists, the values it composes for a name, the attribute a write addresses and the type it describes.
\<close>

section \<open>Functional constraints of an object\<close>

fun do_walkFCs :: "DataObject \<Rightarrow> FC list" where
  "do_walkFCs (DataObject name cdc objs attrs) = map da_FC attrs @ concat (map do_walkFCs objs)"

text \<open>The keys of the map \<^verbatim>\<open>seen\<close>, sorted.\<close>

definition do_FCs :: "DataObject \<Rightarrow> FC list" where
  "do_FCs do = sort (remdups (do_walkFCs do))"

definition hasFC :: "DataObject \<Rightarrow> FC \<Rightarrow> bool" where
  "hasFC do fc = list_ex (\<lambda>f. f = fc) (do_FCs do)"

fun first_text :: "string list \<Rightarrow> string" where
  "first_text [] = []"
| "first_text (t # ts) = (if t \<noteq> [] then t else first_text ts)"

fun do_walkText :: "FC \<Rightarrow> DataObject \<Rightarrow> string" where
  "do_walkText fc (DataObject name cdc objs attrs) =
     (case find (\<lambda>a. da_FC a = fc) attrs of
        Some a \<Rightarrow> FCText (da_FC a) (da_FCName a)
      | None \<Rightarrow> first_text (map (do_walkText fc) objs))"

definition do_FCText :: "DataObject \<Rightarrow> FC \<Rightarrow> string" where
  "do_FCText do fc = (let t = do_walkText fc do in if t \<noteq> [] then t else FC_String fc)"

text \<open>The insertion sort: the sorted prefix is kept reversed, the last element first.\<close>

fun shift_down :: "FC \<Rightarrow> FC list \<Rightarrow> FC list" where
  "shift_down x [] = [x]"
| "shift_down x (y # ys) = (if x < y then y # shift_down x ys else x # y # ys)"

definition sortFCs :: "FC list \<Rightarrow> FC list" where
  "sortFCs fcs = rev (fold shift_down fcs [])"

section \<open>Names\<close>

fun appendAttrNames :: "FC \<Rightarrow> string \<Rightarrow> DataAttribute \<Rightarrow> string list" where
  "appendAttrNames fc prefix (DataAttribute name f fn kind bt cnt children v trg) =
     (if f \<noteq> fc then []
      else let p = prefix @ CHR ''$'' # name in p # concat (map (appendAttrNames fc p) children))"

fun appendSubDONames :: "FC \<Rightarrow> string \<Rightarrow> DataObject \<Rightarrow> string list" where
  "appendSubDONames fc prefix (DataObject name cdc objs attrs) =
     (if \<not> hasFC (DataObject name cdc objs attrs) fc then []
      else
        let p = prefix @ CHR ''$'' # name
        in p # concat (map (appendAttrNames fc p) attrs) @ concat (map (appendSubDONames fc p) objs))"

text \<open>The constraints of a node in the order they first appear, and the text of each from the first
  object that has it.\<close>

fun add_new :: "FC list \<Rightarrow> FC list \<Rightarrow> FC list" where
  "add_new order [] = order"
| "add_new order (fc # fcs) = add_new (if fc \<in> set order then order else order @ [fc]) fcs"

definition ln_order :: "LogicalNode \<Rightarrow> FC list" where
  "ln_order ln = sortFCs (fold (\<lambda>do order. add_new order (do_FCs do)) (ln_Objects ln) [])"

definition fcNameFor :: "LogicalNode \<Rightarrow> FC \<Rightarrow> string" where
  "fcNameFor ln fc = (case find (\<lambda>do. hasFC do fc) (ln_Objects ln) of Some do \<Rightarrow> do_FCText do fc | None \<Rightarrow> FC_String fc)"

definition ln_names :: "LogicalNode \<Rightarrow> string list" where
  "ln_names ln =
     ln_Name ln # concat (map (\<lambda>fc.
       let prefix = ln_Name ln @ CHR ''$'' # fcNameFor ln fc
       in prefix # concat (map (\<lambda>do.
            if \<not> hasFC do fc then []
            else
              let p = prefix @ CHR ''$'' # do_Name do
              in p # concat (map (appendAttrNames fc p) (do_Attributes do)) @ concat (map (appendSubDONames fc p) (do_Objects do)))
          (ln_Objects ln))) (ln_order ln))"

definition namesForDomain :: "LogicalDevice \<Rightarrow> string list" where
  "namesForDomain ld = concat (map ln_names (ld_Nodes ld))"

section \<open>Values\<close>

text \<open>\<open>NilValue\<close> is the nil that stands for a value that cannot be produced.\<close>

fun daValue :: "DataAttribute \<Rightarrow> (mms_error, Value) result" where
  "daValue (DataAttribute name fc fn kind bt cnt children v trg) =
     (if children = [] then
        Inr (if v \<noteq> NilValue then value_Clone v else if kind = TypeNone then NilValue else NewBool False)
      else
        rbind (rmap daValue children) (\<lambda>members.
        if NilValue \<in> set members then Inr NilValue
        else
          let elem = NewStructure members in
          if kind = TypeArray then
            (if cnt < 0 then Inl Panic else Inr (NewArray (replicate (nat cnt) (value_Clone elem))))
          else Inr elem))"

fun doValue :: "FC \<Rightarrow> DataObject \<Rightarrow> (mms_error, Value option) result" where
  "doValue fc (DataObject name cdc objs attrs) =
     rbind (rmap daValue (filter (\<lambda>a. da_FC a = fc) attrs)) (\<lambda>ms.
     if NilValue \<in> set ms then Inr None
     else
       rbind (rmap (doValue fc) objs) (\<lambda>subs.
       let members = ms @ filter (\<lambda>v. value_Len v > 0) (List.map_filter id subs)
       in if members = [] then Inr None else Inr (Some (NewStructure members))))"

datatype read_result = ReadOK Value | ReadFail byte

definition findAttr :: "DataObject \<Rightarrow> string \<Rightarrow> FC \<Rightarrow> DataAttribute option" where
  "findAttr do name fc = find (\<lambda>a. da_Name a = name \<and> da_FC a = fc) (do_Attributes do)"

definition resolveReadErr :: "LogicalNode \<Rightarrow> string \<Rightarrow> (mms_error, read_result) result" where
  "resolveReadErr ln item =
     (case split_on (CHR ''$'') item of
        lnName # fcText # [] \<Rightarrow>
          rbind (rmap (doValue (ParseFCLenient fcText)) (ln_Objects ln)) (\<lambda>vs.
          Inr (ReadOK (NewStructure (List.map_filter id vs))))
      | lnName # fcText # doName # rest \<Rightarrow>
          let fc = ParseFCLenient fcText in
          (case ln_Object ln doName of
             None \<Rightarrow> Inr (ReadFail AccessObjectNonExistent)
           | Some do \<Rightarrow>
               (case do_descend do rest of
                  (do, []) \<Rightarrow>
                    rbind (doValue fc do) (\<lambda>r. Inr (case r of None \<Rightarrow> ReadFail AccessObjectNonExistent | Some v \<Rightarrow> ReadOK v))
                | (do, n # names) \<Rightarrow>
                    (case findAttr do n fc of
                       None \<Rightarrow> Inr (ReadFail AccessObjectNonExistent)
                     | Some da \<Rightarrow>
                         (case da_descend da names of
                            None \<Rightarrow> Inr (ReadFail AccessObjectNonExistent)
                          | Some da \<Rightarrow>
                              rbind (daValue da) (\<lambda>v.
                              Inr (if v = NilValue then ReadFail AccessTypeInconsistent else ReadOK v))))))
      | _ \<Rightarrow> Inr (ReadFail AccessObjectNonExistent))"

text \<open>The sub-objects on the way to a leaf: the last name is always an attribute's.\<close>

fun do_descend1 :: "DataObject \<Rightarrow> string list \<Rightarrow> DataObject \<times> string list" where
  "do_descend1 do (n # n' # rest) =
     (case do_Child do n of Some sub \<Rightarrow> do_descend1 sub (n' # rest) | None \<Rightarrow> (do, n # n' # rest))"
| "do_descend1 do rest = (do, rest)"

definition resolveWrite :: "LogicalNode \<Rightarrow> string \<Rightarrow> DataAttribute option" where
  "resolveWrite ln item =
     (case split_on (CHR ''$'') item of
        lnName # fcText # doName # n # names \<Rightarrow>
          let fc = ParseFCLenient fcText in
          (case ln_Object ln doName of
             None \<Rightarrow> None
           | Some do \<Rightarrow>
               (case do_descend1 do (n # names) of
                  (do, n # names) \<Rightarrow>
                    (case findAttr do n fc of
                       None \<Rightarrow> None
                     | Some da \<Rightarrow>
                         (case da_descend da names of
                            None \<Rightarrow> None
                          | Some da \<Rightarrow> if da_Children da \<noteq> [] then None else Some da))
                | _ \<Rightarrow> None))
      | _ \<Rightarrow> None)"

section \<open>Types\<close>

definition integerWidth :: "(string \<times> int) list" where
  "integerWidth = [(''Enum'', 8), (''INT8'', 8), (''INT16'', 16), (''INT32'', 32), (''INT64'', 64), (''INT8U'', 8),
     (''INT16U'', 16), (''INT24U'', 24), (''INT32U'', 32)]"

fun valueTypeSpec :: "Value \<Rightarrow> TypeSpec" where
  "valueTypeSpec NilValue = scalar TypeBoolean 0"
| "valueTypeSpec (Value t n f b l c) =
     (case t of
        TypeBitString \<Rightarrow> scalar TypeBitString (- l)
      | TypeInteger \<Rightarrow> scalar TypeInteger 32
      | TypeUnsigned \<Rightarrow> scalar TypeUnsigned 32
      | TypeVisibleString \<Rightarrow> scalar TypeVisibleString 129
      | TypeOctetString \<Rightarrow> scalar TypeOctetString 64
      | TypeArray \<Rightarrow> TypeSpec TypeArray 0 (int (length c)) (case c of [] \<Rightarrow> scalar TypeBoolean 0 | x # _ \<Rightarrow> valueTypeSpec x) []
      | _ \<Rightarrow> scalar t 0)"

fun with_size :: "int \<Rightarrow> TypeSpec \<Rightarrow> TypeSpec" where
  "with_size n NilSpec = NilSpec"
| "with_size n (TypeSpec k s e el cs) = TypeSpec k n e el cs"

fun daTypeSpec :: "DataAttribute \<Rightarrow> TypeSpec" where
  "daTypeSpec (DataAttribute name fc fn kind bt cnt children v trg) =
     (if children \<noteq> [] then
        let ts = TypeSpec TypeStructure 0 0 NilSpec (map (\<lambda>c. (da_Name c, daTypeSpec c)) children)
        in if kind = TypeArray then TypeSpec TypeArray 0 cnt ts [] else ts
      else
        let ts = valueTypeSpec v in
        case map_of integerWidth bt of
          Some bits \<Rightarrow> if ts_Kind ts = TypeInteger \<or> ts_Kind ts = TypeUnsigned then with_size bits ts else ts
        | None \<Rightarrow> ts)"

fun doTypeSpec :: "FC \<Rightarrow> DataObject \<Rightarrow> TypeSpec" where
  "doTypeSpec fc (DataObject name cdc objs attrs) =
     TypeSpec TypeStructure 0 0 NilSpec
       (map (\<lambda>a. (da_Name a, daTypeSpec a)) (filter (\<lambda>a. da_FC a = fc) attrs)
        @ map (\<lambda>s. (do_Name s, doTypeSpec fc s)) (filter (\<lambda>s. hasFC s fc) objs))"

definition fcTypeSpec :: "LogicalNode \<Rightarrow> FC \<Rightarrow> TypeSpec" where
  "fcTypeSpec ln fc =
     TypeSpec TypeStructure 0 0 NilSpec (map (\<lambda>do. (do_Name do, doTypeSpec fc do)) (filter (\<lambda>do. hasFC do fc) (ln_Objects ln)))"

definition lnTypeSpec :: "LogicalNode \<Rightarrow> TypeSpec" where
  "lnTypeSpec ln = TypeSpec TypeStructure 0 0 NilSpec (map (\<lambda>fc. (fcNameFor ln fc, fcTypeSpec ln fc)) (ln_order ln))"

definition typeSpecFor :: "LogicalNode \<Rightarrow> string \<Rightarrow> TypeSpec option" where
  "typeSpecFor ln item =
     (case split_on (CHR ''$'') item of
        [lnName] \<Rightarrow> Some (lnTypeSpec ln)
      | [lnName, fcText] \<Rightarrow> Some (fcTypeSpec ln (ParseFCLenient fcText))
      | lnName # fcText # doName # rest \<Rightarrow>
          let fc = ParseFCLenient fcText in
          (case ln_Object ln doName of
             None \<Rightarrow> None
           | Some do \<Rightarrow>
               (case do_descend do rest of
                  (do, []) \<Rightarrow> Some (doTypeSpec fc do)
                | (do, n # names) \<Rightarrow>
                    (case findAttr do n fc of None \<Rightarrow> None | Some da \<Rightarrow> map_option daTypeSpec (da_descend da names))))
      | [] \<Rightarrow> None)"

section \<open>Values agree with the described types\<close>

text \<open>A value of a described type: the kind, the members of a structure one by one, the number and the
  type of an array's elements, the length of a bit string.\<close>

lemma zip_size [termination_simp]: "p \<in> set (zip c cs) \<Longrightarrow> size (fst p) < Suc (size_list size c)"
  by (metis less_Suc_eq_le order_refl prod.collapse set_zip_leftD size_list_estimation')

fun value_matches :: "Value \<Rightarrow> TypeSpec \<Rightarrow> bool" where
  "value_matches NilValue ts = False"
| "value_matches (Value t n f b l c) NilSpec = False"
| "value_matches (Value t n f b l c) (TypeSpec k s e el cs) =
     (t = k
      \<and> (k = TypeBitString \<longrightarrow> s = - l)
      \<and> (k = TypeArray \<longrightarrow> e = int (length c) \<and> (\<forall>x \<in> set c. value_matches x el))
      \<and> (k = TypeStructure \<longrightarrow> length c = length cs \<and> (\<forall>p \<in> set (zip c cs). value_matches (fst p) (snd (snd p)))))"

definition is_scalar :: "Type \<Rightarrow> bool" where
  "is_scalar t = (t \<noteq> TypeStructure \<and> t \<noteq> TypeArray)"

text \<open>A leaf of a known type: without a value and read as the default, a scalar, or an array of scalars of one type. It excludes a leaf
  whose basic type the loader does not know, which is left with the kind \<^verbatim>\<open>TypeNone\<close> and no value.\<close>

fun leaf_ok :: "Type \<Rightarrow> Value \<Rightarrow> bool" where
  "leaf_ok kind NilValue = (kind \<noteq> TypeNone)"
| "leaf_ok kind (Value t n f b l c) =
     (is_scalar t
      \<or> t = TypeArray \<and> list_all (\<lambda>x. x \<noteq> NilValue \<and> is_scalar (value_Type x)
          \<and> value_Type x = value_Type (hd c) \<and> value_BitLen x = value_BitLen (hd c)) c)"

fun da_ok :: "DataAttribute \<Rightarrow> bool" where
  "da_ok (DataAttribute name fc fn kind bt cnt children v trg) =
     (if children = [] then leaf_ok kind v else (kind = TypeArray \<longrightarrow> 0 \<le> cnt) \<and> list_all da_ok children)"

fun do_ok :: "DataObject \<Rightarrow> bool" where
  "do_ok (DataObject name cdc objs attrs) = (list_all da_ok attrs \<and> list_all do_ok objs)"

definition ln_ok :: "LogicalNode \<Rightarrow> bool" where
  "ln_ok ln = list_all do_ok (ln_Objects ln)"

lemma structure_matches:
  "value_matches (NewStructure vs) (TypeSpec TypeStructure 0 0 NilSpec cs) = list_all2 (\<lambda>v c. value_matches v (snd c)) vs cs"
  by (auto simp: NewStructure_def list_all2_iff)

lemma valueTypeSpec_matches:
  assumes "leaf_ok kind v" "v \<noteq> NilValue"
  shows "value_matches v (valueTypeSpec v)"
proof -
  have scalar: "value_matches x (valueTypeSpec y)"
    if "x \<noteq> NilValue" "y \<noteq> NilValue" "is_scalar (value_Type x)" "value_Type x = value_Type y" "value_BitLen x = value_BitLen y" for x y
    using that by (cases x; cases y) (auto simp: is_scalar_def split: Type.splits)
  show ?thesis
  proof (cases v)
    case (Value t n f b l c)
    show ?thesis
    proof (cases "is_scalar t")
      case True
      then show ?thesis using scalar [of v v] Value by simp
    next
      case False
      then have "t = TypeArray" "\<And>x. x \<in> set c \<Longrightarrow> value_matches x (valueTypeSpec (hd c))"
        using assms Value by (auto simp: list_all_iff intro!: scalar) (metis empty_iff hd_in_set list.set(1))
      then show ?thesis using Value by (cases c) auto
    qed
  qed (use assms in simp)
qed

lemma matches_with_size:
  "value_matches v ts \<Longrightarrow> ts_Kind ts = TypeInteger \<or> ts_Kind ts = TypeUnsigned \<Longrightarrow> value_matches v (with_size n ts)"
  by (cases v; cases ts) auto

lemma daValue_matches:
  "da_ok a \<Longrightarrow> \<exists>v. daValue a = Inr v \<and> v \<noteq> NilValue \<and> value_matches v (daTypeSpec a)"
proof (induction a)
  case (DataAttribute name fc fn kind bt cnt children v trg)
  show ?case
  proof (cases "children = []")
    case True
    let ?v = "if v = NilValue then NewBool False else v"
    have "value_matches ?v (valueTypeSpec v)"
      using True DataAttribute.prems valueTypeSpec_matches [of kind v] by (auto simp: NewBool_def)
    then have "value_matches ?v (daTypeSpec (DataAttribute name fc fn kind bt cnt children v trg))"
      using True by (auto simp: Let_def matches_with_size split: option.split)
    then show ?thesis using True DataAttribute.prems by (auto simp: NewBool_def)
  next
    case False
    have "\<forall>c \<in> set children. \<exists>v. daValue c = Inr v \<and> v \<noteq> NilValue \<and> value_matches v (daTypeSpec c)"
      using DataAttribute False by (auto simp: list_all_iff)
    then obtain g where g: "\<And>c. c \<in> set children \<Longrightarrow> daValue c = Inr (g c) \<and> g c \<noteq> NilValue \<and> value_matches (g c) (daTypeSpec c)"
      by metis
    then have "rmap daValue children = Inr (map g children)" "NilValue \<notin> set (map g children)"
      by (force intro: rmap_Inr)+
    moreover have "value_matches (NewStructure (map g children)) (TypeSpec TypeStructure 0 0 NilSpec (map (\<lambda>c. (da_Name c, daTypeSpec c)) children))"
      using g by (simp add: structure_matches list_all2_map1 list_all2_map2 list.rel_refl_strong)
    ultimately show ?thesis using False DataAttribute.prems
      by (auto simp: Let_def NewArray_def NewStructure_def simp del: value_matches.simps) (auto simp: NewStructure_def)
  qed
qed

lemma map_filter_if [simp]: "List.map_filter id (map (\<lambda>x. if P x then Some (h x) else None) xs) = map h (filter P xs)"
  by (induction xs) (simp_all add: List.map_filter_simps)

lemma hasFC_iff: "hasFC do fc = (fc \<in> set (do_walkFCs do))"
  by (auto simp: hasFC_def do_FCs_def list_ex_iff)

lemma hasFC_DataObject:
  "hasFC (DataObject name cdc objs attrs) fc = ((\<exists>a \<in> set attrs. da_FC a = fc) \<or> (\<exists>s \<in> set objs. hasFC s fc))"
  by (auto simp: hasFC_iff)

lemma doValue_matches:
  "do_ok do \<Longrightarrow>
     (if hasFC do fc then \<exists>v. doValue fc do = Inr (Some v) \<and> value_Len v > 0 \<and> value_matches v (doTypeSpec fc do)
      else doValue fc do = Inr None)"
proof (induction "do")
  case (DataObject name cdc objs attrs)
  let ?as = "filter (\<lambda>a. da_FC a = fc) attrs" and ?os = "filter (\<lambda>s. hasFC s fc) objs"
  have "\<forall>a \<in> set attrs. \<exists>v. daValue a = Inr v \<and> v \<noteq> NilValue \<and> value_matches v (daTypeSpec a)"
    using DataObject.prems daValue_matches by (auto simp: list_all_iff)
  then obtain g where g: "\<And>a. a \<in> set attrs \<Longrightarrow> daValue a = Inr (g a) \<and> g a \<noteq> NilValue \<and> value_matches (g a) (daTypeSpec a)"
    by metis
  have "\<forall>s \<in> set objs. hasFC s fc \<longrightarrow> (\<exists>v. doValue fc s = Inr (Some v) \<and> value_Len v > 0 \<and> value_matches v (doTypeSpec fc s))"
    "\<And>s. s \<in> set objs \<Longrightarrow> \<not> hasFC s fc \<Longrightarrow> doValue fc s = Inr None"
    using DataObject by (auto simp: list_all_iff)
  then obtain h where h: "\<And>s. s \<in> set objs \<Longrightarrow> hasFC s fc \<Longrightarrow>
        doValue fc s = Inr (Some (h s)) \<and> value_Len (h s) > 0 \<and> value_matches (h s) (doTypeSpec fc s)"
      "\<And>s. s \<in> set objs \<Longrightarrow> \<not> hasFC s fc \<Longrightarrow> doValue fc s = Inr None"
    by metis
  have as: "rmap daValue ?as = Inr (map g ?as)" "NilValue \<notin> set (map g ?as)"
    using g by (force intro: rmap_Inr)+
  have os: "rmap (doValue fc) objs = Inr (map (\<lambda>s. if hasFC s fc then Some (h s) else None) objs)"
    using h by (intro rmap_Inr) auto
  have "filter (\<lambda>v. value_Len v > 0) (List.map_filter id (map (\<lambda>s. if hasFC s fc then Some (h s) else None) objs)) = map h ?os"
    using h(1) by (auto simp: filter_map comp_def intro!: arg_cong [where f = "map h"] filter_cong)
  then have v: "doValue fc (DataObject name cdc objs attrs) =
      Inr (if ?as = [] \<and> ?os = [] then None else Some (NewStructure (map g ?as @ map h ?os)))"
    using as os by (auto simp: Let_def)
  have "value_matches (NewStructure (map g ?as @ map h ?os)) (doTypeSpec fc (DataObject name cdc objs attrs))"
    using g h(1) by (simp add: structure_matches) (intro list_all2_appendI; auto simp: list_all2_map1 list_all2_map2 intro!: list.rel_refl_strong)
  then show ?case unfolding v by (auto simp: hasFC_DataObject filter_empty_conv NewStructure_def simp del: value_matches.simps doTypeSpec.simps)
qed

lemma find_SomeD: "find P xs = Some x \<Longrightarrow> x \<in> set xs \<and> P x"
  by (auto simp: find_Some_iff)


lemma da_descend_ok: "da_descend da p = Some da' \<Longrightarrow> da_ok da \<Longrightarrow> da_ok da'"
proof (induction da p rule: da_descend.induct)
  case (2 da n rest)
  then show ?case
    by (cases da; auto simp: da_Child_def list_all_iff dest!: find_SomeD split: option.splits if_splits)
qed simp

lemma findAttr_ok: "findAttr do n fc = Some da \<Longrightarrow> do_ok do \<Longrightarrow> da_ok da"
  by (cases "do") (auto simp: findAttr_def list_all_iff dest!: find_SomeD)


lemma fc_values:
  assumes "ln_ok ln"
  obtains vs where "rmap (doValue fc) (ln_Objects ln) = Inr vs" "value_matches (NewStructure (List.map_filter id vs)) (fcTypeSpec ln fc)"
proof -
  define h where "h do = (SOME v. doValue fc do = Inr (Some v))" for "do"
  have h: "doValue fc do = Inr (Some (h do)) \<and> value_matches (h do) (doTypeSpec fc do)"
    if "do \<in> set (ln_Objects ln)" "hasFC do fc" for "do"
    using doValue_matches [of "do" fc] that assms by (auto simp: ln_ok_def list_all_iff h_def)
  have n: "doValue fc do = Inr None" if "do \<in> set (ln_Objects ln)" "\<not> hasFC do fc" for "do"
    using doValue_matches [of "do" fc] that assms by (auto simp: ln_ok_def list_all_iff)
  let ?vs = "map (\<lambda>do. if hasFC do fc then Some (h do) else None) (ln_Objects ln)"
  have "rmap (doValue fc) (ln_Objects ln) = Inr ?vs" using h n by (intro rmap_Inr) auto
  moreover have "value_matches (NewStructure (List.map_filter id ?vs)) (fcTypeSpec ln fc)"
    using h by (auto simp: fcTypeSpec_def structure_matches list_all2_map1 list_all2_map2 intro!: list.rel_refl_strong)
  ultimately show thesis by (rule that)
qed


section \<open>Every listed name can be read\<close>

text \<open>A node whose names can be told apart: no separator inside a name, no two siblings alike, and a
  constraint spelled so that it parses back.\<close>

definition plain :: "string \<Rightarrow> bool" where "plain s = (CHR ''$'' \<notin> set s)"

fun da_wf :: "DataAttribute \<Rightarrow> bool" where
  "da_wf (DataAttribute name fc fn kind bt cnt children v trg) =
     (plain name \<and> distinct (map da_Name children) \<and> list_all da_wf children)"

definition fc_wf :: "DataAttribute \<Rightarrow> bool" where
  "fc_wf a = (let t = FCText (da_FC a) (da_FCName a) in t \<noteq> [] \<and> plain t \<and> ParseFCLenient t = da_FC a)"

fun do_wf :: "DataObject \<Rightarrow> bool" where
  "do_wf (DataObject name cdc objs attrs) =
     (plain name \<and> distinct (map do_Name objs) \<and> distinct (map (\<lambda>a. (da_Name a, da_FC a)) attrs)
      \<and> list_all (\<lambda>a. da_Name a \<notin> do_Name ` set objs) attrs \<and> list_all fc_wf attrs
      \<and> list_all da_wf attrs \<and> list_all do_wf objs)"

definition ln_wf :: "LogicalNode \<Rightarrow> bool" where
  "ln_wf ln = (plain (ln_Name ln) \<and> distinct (map do_Name (ln_Objects ln)) \<and> list_all do_wf (ln_Objects ln))"

definition dollar :: "string \<Rightarrow> string list \<Rightarrow> string" where
  "dollar p q = p @ concat (map (\<lambda>n. CHR ''$'' # n) q)"

lemma dollar_simps: "dollar p [] = p" "dollar p (n # q) = dollar (p @ CHR ''$'' # n) q"
  by (simp_all add: dollar_def)

lemma split_dollar: "plain p \<Longrightarrow> list_all plain q \<Longrightarrow> split_on (CHR ''$'') (dollar p q) = p # q"
  using split_join [of "p # q" "CHR ''$''"] by (auto simp: dollar_def join_concat plain_def list_all_iff)

lemma find_distinct: "distinct (map nm xs) \<Longrightarrow> x \<in> set xs \<Longrightarrow> find (\<lambda>y. nm y = nm x) xs = Some x"
  by (induction xs) (auto simp: rev_image_eqI)

lemma da_Child_distinct: "da_wf a \<Longrightarrow> c \<in> set (da_Children a) \<Longrightarrow> da_Child a (da_Name c) = Some c \<and> da_wf c"
  by (cases a) (auto simp: da_Child_def list_all_iff intro!: find_distinct [where nm = da_Name])

lemma attr_names:
  "da_wf a \<Longrightarrow> x \<in> set (appendAttrNames fc p a) \<Longrightarrow>
     \<exists>q a'. x = dollar p (da_Name a # q) \<and> da_FC a = fc \<and> list_all plain (da_Name a # q) \<and> da_descend a q = Some a'"
proof (induction a arbitrary: p)
  case (DataAttribute name f fn kind bt cnt children v trg)
  let ?a = "DataAttribute name f fn kind bt cnt children v trg" and ?p = "p @ CHR ''$'' # name"
  have fc: "f = fc" using DataAttribute.prems by (auto split: if_splits)
  show ?case
  proof (cases "x = ?p")
    case True
    then show ?thesis using fc DataAttribute.prems(1) by (intro exI [of _ "[]"]) (simp add: dollar_simps)
  next
    case False
    then obtain c where c: "c \<in> set children" "x \<in> set (appendAttrNames fc ?p c)"
      using DataAttribute.prems fc by (auto simp: Let_def)
    then have "da_Child ?a (da_Name c) = Some c" "da_wf c" using da_Child_distinct [OF DataAttribute.prems(1)] by auto
    moreover obtain q a' where "x = dollar ?p (da_Name c # q)" "list_all plain (da_Name c # q)" "da_descend c q = Some a'"
      using DataAttribute.IH [OF c(1) calculation(2) c(2)] by blast
    ultimately show ?thesis using fc DataAttribute.prems(1)
      by (intro exI [of _ "da_Name c # q"] exI [of _ a']) (simp add: dollar_simps)
  qed
qed

text \<open>The part of a read below a data object.\<close>

definition do_read :: "FC \<Rightarrow> DataObject \<Rightarrow> string list \<Rightarrow> (mms_error, read_result) result" where
  "do_read fc do rest =
     (case do_descend do rest of
        (do, []) \<Rightarrow>
          rbind (doValue fc do) (\<lambda>r. Inr (case r of None \<Rightarrow> ReadFail AccessObjectNonExistent | Some v \<Rightarrow> ReadOK v))
      | (do, n # names) \<Rightarrow>
          (case findAttr do n fc of
             None \<Rightarrow> Inr (ReadFail AccessObjectNonExistent)
           | Some da \<Rightarrow>
               (case da_descend da names of
                  None \<Rightarrow> Inr (ReadFail AccessObjectNonExistent)
                | Some da \<Rightarrow> rbind (daValue da) (\<lambda>v. Inr (if v = NilValue then ReadFail AccessTypeInconsistent else ReadOK v)))))"

lemma resolveRead_path:
  "split_on (CHR ''$'') item = l # f # d # rest \<Longrightarrow> ln_Object ln d = Some do \<Longrightarrow>
     resolveReadErr ln item = do_read (ParseFCLenient f) do rest"
  by (simp add: resolveReadErr_def do_read_def Let_def)

lemma do_read_sub: "do_Child do n = Some s \<Longrightarrow> do_read fc do (n # r) = do_read fc s r"
  by (simp add: do_read_def)

lemma do_read_attr:
  assumes "do_Child do n = None" "findAttr do n fc = Some a" "da_descend a r = Some a'" "do_ok do"
  shows "\<exists>v. do_read fc do (n # r) = Inr (ReadOK v)"
  using assms daValue_matches [of a'] da_descend_ok findAttr_ok by (fastforce simp: do_read_def)

lemma do_read_object: "do_ok do \<Longrightarrow> hasFC do fc \<Longrightarrow> \<exists>v. do_read fc do [] = Inr (ReadOK v)"
  using doValue_matches [of "do" fc] by (auto simp: do_read_def)

definition obj_names :: "FC \<Rightarrow> string \<Rightarrow> DataObject \<Rightarrow> string list" where
  "obj_names fc p do = p # concat (map (appendAttrNames fc p) (do_Attributes do)) @ concat (map (appendSubDONames fc p) (do_Objects do))"

lemma appendSubDONames_eq:
  "appendSubDONames fc p do = (if hasFC do fc then obj_names fc (p @ CHR ''$'' # do_Name do) do else [])"
  by (cases "do") (simp add: obj_names_def Let_def)

lemma do_wf_plain: "do_wf do \<Longrightarrow> plain (do_Name do)"
  by (cases "do") simp

lemma obj_names_read:
  "do_wf do \<Longrightarrow> do_ok do \<Longrightarrow> hasFC do fc \<Longrightarrow> x \<in> set (obj_names fc p do) \<Longrightarrow>
     \<exists>q v. x = dollar p q \<and> list_all plain q \<and> do_read fc do q = Inr (ReadOK v)"
proof (induction "do" arbitrary: p)
  case (DataObject name cdc objs attrs)
  let ?do = "DataObject name cdc objs attrs"
  consider (self) "x = p" | (attr) a where "a \<in> set attrs" "x \<in> set (appendAttrNames fc p a)"
    | (sub) s where "s \<in> set objs" "x \<in> set (appendSubDONames fc p s)"
    using DataObject.prems by (auto simp: obj_names_def)
  then show ?case
  proof cases
    case self
    then show ?thesis using do_read_object [OF DataObject.prems(2,3)] by (intro exI [of _ "[]"]) (simp add: dollar_simps)
  next
    case attr
    then obtain q a' where q: "x = dollar p (da_Name a # q)" "da_FC a = fc" "list_all plain (da_Name a # q)" "da_descend a q = Some a'"
      using attr_names [of a x fc p] DataObject.prems(1) by (auto simp: list_all_iff)
    have "do_Child ?do (da_Name a) = None"
      using DataObject.prems(1) attr(1) by (force simp: do_Child_def find_None_iff list_all_iff)
    moreover have "findAttr ?do (da_Name a) fc = Some a"
      using DataObject.prems(1) attr(1) find_distinct [where nm = "\<lambda>a. (da_Name a, da_FC a)" and xs = attrs and x = a] q(2)
      by (simp add: findAttr_def)
    ultimately show ?thesis using do_read_attr [OF _ _ q(4) DataObject.prems(2)] q(1,3) by blast
  next
    case sub
    then have s: "hasFC s fc" "x \<in> set (obj_names fc (p @ CHR ''$'' # do_Name s) s)"
      by (auto simp: appendSubDONames_eq split: if_splits)
    have "do_wf s" "do_ok s" using DataObject.prems(1,2) sub(1) by (simp_all add: list_all_iff)
    moreover have "do_Child ?do (do_Name s) = Some s"
      using DataObject.prems(1) sub(1) find_distinct [where nm = do_Name and xs = objs and x = s] by (simp add: do_Child_def)
    moreover obtain q v where "x = dollar (p @ CHR ''$'' # do_Name s) q" "list_all plain q" "do_read fc s q = Inr (ReadOK v)"
      using DataObject.IH [OF sub(1) \<open>do_wf s\<close> \<open>do_ok s\<close> s] by blast
    ultimately show ?thesis
      by (intro exI [of _ "do_Name s # q"] exI [of _ v]) (simp add: dollar_simps do_read_sub do_wf_plain)
  qed
qed

definition fc_text :: "FC \<Rightarrow> bool \<Rightarrow> string \<Rightarrow> bool" where
  "fc_text fc present t = (if present then plain t \<and> t \<noteq> [] \<and> ParseFCLenient t = fc else t = [])"

lemma first_text_wf:
  "(\<And>s. s \<in> set os \<Longrightarrow> fc_text fc (P s) (f s)) \<Longrightarrow> fc_text fc (\<exists>s \<in> set os. P s) (first_text (map f os))"
proof (induction os)
  case (Cons s os)
  then show ?case using Cons.prems [of s] by (cases "P s") (auto simp: fc_text_def)
qed (simp add: fc_text_def)

lemma do_walkText_wf: "do_wf do \<Longrightarrow> fc_text fc (hasFC do fc) (do_walkText fc do)"
proof (induction "do")
  case (DataObject name cdc objs attrs)
  show ?case
  proof (cases "find (\<lambda>a. da_FC a = fc) attrs")
    case (Some a)
    then show ?thesis using DataObject.prems find_SomeD [OF Some]
      by (auto simp: hasFC_DataObject list_all_iff fc_wf_def fc_text_def Let_def)
  next
    case None
    have "fc_text fc (\<exists>s \<in> set objs. hasFC s fc) (first_text (map (do_walkText fc) objs))"
      using DataObject by (intro first_text_wf) (auto simp: list_all_iff)
    moreover have "hasFC (DataObject name cdc objs attrs) fc = (\<exists>s \<in> set objs. hasFC s fc)"
      using None by (auto simp: hasFC_DataObject find_None_iff)
    ultimately show ?thesis using None by simp
  qed
qed

lemma fcNameFor_wf:
  assumes "ln_wf ln" "do \<in> set (ln_Objects ln)" "hasFC do fc"
  shows "plain (fcNameFor ln fc)" "ParseFCLenient (fcNameFor ln fc) = fc"
proof -
  obtain d where d: "find (\<lambda>do. hasFC do fc) (ln_Objects ln) = Some d" using assms(2,3) by (metis find_None_iff option.exhaust)
  then have "do_wf d" "hasFC d fc" using find_SomeD [OF d] assms(1) by (auto simp: ln_wf_def list_all_iff)
  then show "plain (fcNameFor ln fc)" "ParseFCLenient (fcNameFor ln fc) = fc"
    using do_walkText_wf [of d fc] d by (auto simp: fcNameFor_def do_FCText_def fc_text_def Let_def)
qed

lemma set_add_new: "set (add_new order fcs) = set order \<union> set fcs"
  by (induction order fcs rule: add_new.induct) auto

lemma mset_shift_down: "mset (shift_down x ys) = add_mset x (mset ys)"
  by (induction x ys rule: shift_down.induct) auto

lemma sorted_shift_down: "sorted_wrt (\<ge>) ys \<Longrightarrow> sorted_wrt (\<ge>) (shift_down x ys)"
proof (induction x ys rule: shift_down.induct)
  case (2 x y ys)
  moreover have "set (shift_down x ys) = insert x (set ys)"
    by (metis mset_shift_down set_mset_add_mset_insert set_mset_mset)
  ultimately show ?case by auto
qed simp

text \<open>The hand-written sort is the library's.\<close>

lemma sortFCs_eq: "sortFCs fcs = sort fcs"
proof -
  have "mset (fold shift_down fcs acc) = mset fcs + mset acc \<and> (sorted_wrt (\<ge>) acc \<longrightarrow> sorted_wrt (\<ge>) (fold shift_down fcs acc))" for acc
    by (induction fcs arbitrary: acc) (auto simp: mset_shift_down sorted_shift_down)
  then have "mset (sortFCs fcs) = mset fcs" "sorted (sortFCs fcs)"
    by (auto simp: sortFCs_def sorted_wrt_rev)
  then show ?thesis by (metis properties_for_sort)
qed

lemma set_ln_order: "set (ln_order ln) = {fc. \<exists>do \<in> set (ln_Objects ln). hasFC do fc}"
proof -
  have "set (fold (\<lambda>do order. add_new order (do_FCs do)) os acc) = set acc \<union> {fc. \<exists>do \<in> set os. hasFC do fc}" for os acc
    by (induction os arbitrary: acc) (auto simp: set_add_new hasFC_def list_ex_iff)
  then show ?thesis by (simp add: ln_order_def sortFCs_eq)
qed

text \<open>(C23) Every name the server lists below a logical node all of whose leaves have a known basic type, from the functional constraint
  down to the leaves, can be read back and answers with a value. (A leaf of an unknown basic type is listed and refused.)\<close>

theorem listed_names_read:
  assumes "ln_wf ln" "ln_ok ln" "item \<in> set (ln_names ln)" "item \<noteq> ln_Name ln"
  shows "\<exists>v. resolveReadErr ln item = Inr (ReadOK v)"
proof -
  obtain fc where fc: "fc \<in> set (ln_order ln)"
    and item: "item = dollar (ln_Name ln) [fcNameFor ln fc]
      \<or> (\<exists>do \<in> set (ln_Objects ln). hasFC do fc \<and> item \<in> set (obj_names fc (dollar (ln_Name ln) [fcNameFor ln fc, do_Name do]) do))"
    using assms(3,4) by (auto simp: ln_names_def Let_def obj_names_def dollar_def split: if_splits)
  then obtain d where "d \<in> set (ln_Objects ln)" "hasFC d fc" by (auto simp: set_ln_order)
  then have name: "plain (ln_Name ln)" "plain (fcNameFor ln fc)" "ParseFCLenient (fcNameFor ln fc) = fc"
    using fcNameFor_wf assms(1) by (auto simp: ln_wf_def)
  show ?thesis
  proof (cases "item = dollar (ln_Name ln) [fcNameFor ln fc]")
    case True
    obtain vs where "rmap (doValue fc) (ln_Objects ln) = Inr vs" using fc_values [OF assms(2)] by blast
    then show ?thesis using True name by (simp add: resolveReadErr_def split_dollar)
  next
    case False
    then obtain obj where obj: "obj \<in> set (ln_Objects ln)" "hasFC obj fc"
      "item \<in> set (obj_names fc (dollar (ln_Name ln) [fcNameFor ln fc, do_Name obj]) obj)"
      using item by blast
    then have wf: "do_wf obj" "do_ok obj" "ln_Object ln (do_Name obj) = Some obj" "plain (do_Name obj)"
      using assms(1,2) find_distinct [where nm = do_Name and xs = "ln_Objects ln" and x = obj]
      by (simp_all add: ln_wf_def ln_ok_def list_all_iff ln_Object_def do_wf_plain)
    obtain q v where "item = dollar (ln_Name ln) (fcNameFor ln fc # do_Name obj # q)" "list_all plain q" "do_read fc obj q = Inr (ReadOK v)"
      using obj_names_read [OF wf(1,2) obj(2,3)] by (auto simp: dollar_def)
    moreover from calculation have "split_on (CHR ''$'') item = ln_Name ln # fcNameFor ln fc # do_Name obj # q"
      using name wf(4) by (simp add: split_dollar)
    ultimately show ?thesis using resolveRead_path [OF _ wf(3)] name(3) by simp
  qed
qed

section \<open>Examples\<close>

definition leaf :: "string \<Rightarrow> FC \<Rightarrow> Type \<Rightarrow> Value \<Rightarrow> DataAttribute" where
  "leaf name fc kind v = DataAttribute name fc [] kind [] 0 [] v 0"

definition ex_node :: LogicalNode where
  "ex_node = \<lparr>ln_Name = ''MMXU1'', ln_Class = ''MMXU'', ln_Objects =
     [DataObject ''A'' ''WYE''
        [DataObject ''phsA'' ''CMV'' []
           [DataAttribute ''cVal'' fc_MX [] TypeStructure [] 0 [leaf ''i'' fc_MX TypeInteger (NewInt64 7)] NilValue 0,
            leaf ''q'' fc_MX TypeBitString (Value TypeBitString 0 0 [0, 0] 13 [])]]
        [leaf ''d'' fc_CF TypeBoolean NilValue]],
     ln_DataSets = [], ln_ReportControls = [],
     ln_GSEControls = [], ln_SVControls = [], ln_LogControls = [], ln_SettingControl = None, ln_Logs = []\<rparr>"


theorem listed_names_read_witness:
  "ln_wf ex_node \<and> ln_ok ex_node
   \<and> ln_names ex_node = [''MMXU1'', ''MMXU1$MX'', ''MMXU1$MX$A'', ''MMXU1$MX$A$phsA'', ''MMXU1$MX$A$phsA$cVal'',
       ''MMXU1$MX$A$phsA$cVal$i'', ''MMXU1$MX$A$phsA$q'', ''MMXU1$CF'', ''MMXU1$CF$A'', ''MMXU1$CF$A$d'']
   \<and> (\<exists>v. resolveReadErr ex_node ''MMXU1$MX$A$phsA$cVal$i'' = Inr (ReadOK v))"
proof -
  have n: "ln_names ex_node = [''MMXU1'', ''MMXU1$MX'', ''MMXU1$MX$A'', ''MMXU1$MX$A$phsA'', ''MMXU1$MX$A$phsA$cVal'',
       ''MMXU1$MX$A$phsA$cVal$i'', ''MMXU1$MX$A$phsA$q'', ''MMXU1$CF'', ''MMXU1$CF$A'', ''MMXU1$CF$A$d'']"
    by code_simp
  have w: "ln_wf ex_node" "ln_ok ex_node" "ln_Name ex_node = ''MMXU1''" by code_simp+
  then show ?thesis using listed_names_read [OF w(1,2), of "''MMXU1$MX$A$phsA$cVal$i''"] unfolding n by simp
qed

text \<open>Without the hypothesis on the leaves the agreement fails: a sub-object with a leaf of an unknown type is
  left out of the composed structure and still described, so the members after it are read under the
  wrong names.\<close>

definition ex_unknown :: LogicalNode where
  "ex_unknown = \<lparr>ln_Name = ''GGIO1'', ln_Class = ''GGIO'', ln_Objects =
     [DataObject ''X'' ''ORG''
        [DataObject ''a'' ''SPS'' [] [leaf ''stVal'' fc_ST TypeNone NilValue],
         DataObject ''b'' ''SPS'' [] [leaf ''stVal'' fc_ST TypeBoolean (NewBool True)]] []],
     ln_DataSets = [], ln_ReportControls = [],
     ln_GSEControls = [], ln_SVControls = [], ln_LogControls = [], ln_SettingControl = None, ln_Logs = []\<rparr>"

theorem unknown_leaf_misaligns:
  "resolveReadErr ex_unknown ''GGIO1$ST$X'' = Inr (ReadOK (NewStructure [NewStructure [NewBool True]]))
   \<and> map_option (\<lambda>ts. map fst (ts_Components ts)) (typeSpecFor ex_unknown ''GGIO1$ST$X'') = Some [''a'', ''b'']
   \<and> \<not> value_matches (NewStructure [NewStructure [NewBool True]]) (the (typeSpecFor ex_unknown ''GGIO1$ST$X''))"
  by code_simp

end
