(* ===== verification/BerSeq.thy ===== *)
theory BerSeq
  imports BerPrim
begin

text \<open>
  The loop every service decoder has: \<^verbatim>\<open>for d.More() { x, err := read(d); if err != nil { return err }; ... }\<close>.
  A reader takes at least one octet each time, so the number of octets left is enough fuel.
\<close>

section \<open>Reading to the end\<close>

fun read_upto :: "nat \<Rightarrow> (Decoder \<Rightarrow> ('e, 'a) result \<times> Decoder) \<Rightarrow> Decoder \<Rightarrow> ('e, 'a list) result" where
  "read_upto 0 f d = (if More d then Inl Panic else Inr [])"
| "read_upto (Suc n) f d =
     (if \<not> More d then Inr []
      else case f d of
        (Inl e, _) \<Rightarrow> Inl e
      | (Inr x, d') \<Rightarrow> rbind (read_upto n f d') (\<lambda>xs. Inr (x # xs)))"

definition read_all :: "(Decoder \<Rightarrow> ('e, 'a) result \<times> Decoder) \<Rightarrow> Decoder \<Rightarrow> ('e, 'a list) result" where
  "read_all f d = read_upto (length (unread d)) f d"

text \<open>What a reader promises: no panic, and progress inside the buffer.\<close>

definition reader_ok :: "(Decoder \<Rightarrow> ('e, 'a) result \<times> Decoder) \<Rightarrow> bool" where
  "reader_ok f = (\<forall>d. dec_ok d \<longrightarrow> fst (f d) \<noteq> Inl Panic \<and>
     (\<forall>x. fst (f d) = Inr x \<longrightarrow> advanced d (snd (f d)) \<and> d_off d < d_off (snd (f d))))"

lemma reader_okI: "(\<And>d. dec_ok d \<Longrightarrow> read_spec d (f d)) \<Longrightarrow> reader_ok f"
  unfolding reader_ok_def read_spec_def split_def by (metis)

lemma reader_ok_Expect: "reader_ok (Expect t)"
  by (rule reader_okI) (rule Expect_spec)

lemma reader_ok_ReadTLV: "reader_ok ReadTLV"
  by (rule reader_okI) (rule ReadTLV_spec)

lemma read_upto_safe:
  assumes "reader_ok f" and "dec_ok d" and "length (unread d) \<le> n"
  shows "read_upto n f d \<noteq> Inl Panic"
  using assms(2,3)
proof (induction n arbitrary: d)
  case 0
  then show ?case by (simp add: More_unread)
next
  case (Suc n)
  obtain r d' where fd: "f d = (r, d')" by fastforce
  have "r \<noteq> Inl Panic" "r = Inr x \<Longrightarrow> read_upto n f d' \<noteq> Inl Panic" for x
    using Suc assms(1) [unfolded reader_ok_def, rule_format, of d] fd
    by (auto simp: advanced_def dec_ok_unread dec_ok_def)
  then show ?case using fd by (auto simp: rbind_eq_Inl split: sum.splits)
qed

lemma read_all_safe: "reader_ok f \<Longrightarrow> dec_ok d \<Longrightarrow> read_all f d \<noteq> Inl Panic"
  by (simp add: read_all_def read_upto_safe)

context tlv_view
begin

lemma read_upto_view:
  "list_all ok as \<Longrightarrow> unread d = concat (map enc as) \<Longrightarrow> length (unread d) \<le> n \<Longrightarrow> read_upto n dec d = Inr (map view as)"
proof (induction n arbitrary: as d)
  case 0
  then have "as = []" using enc_nonempty by (cases as) auto
  then show ?case using 0 by (simp add: More_unread)
next
  case (Suc n)
  show ?case
  proof (cases as)
    case Nil
    then show ?thesis using Suc.prems by (simp add: More_unread)
  next
    case (Cons a bs)
    have un: "unread d = enc a @ concat (map enc bs)" and ok: "ok a" "list_all ok bs"
      using Suc.prems Cons by simp_all
    have "0 < length (enc a)" using enc_nonempty [OF ok(1)] by simp
    then have "length (concat (map enc bs)) \<le> n" using Suc.prems(3) unfolding un length_append by linarith
    then have "read_upto n dec (adv d (length (enc a))) = Inr (map view bs)"
      using unread_adv [OF un] by (intro Suc.IH ok) simp_all
    then show ?thesis using dec_view [OF ok(1) un] un enc_nonempty [OF ok(1)] by (simp add: Cons More_unread)
  qed
qed

lemma read_all_view:
  "list_all ok as \<Longrightarrow> unread d = concat (map enc as) \<Longrightarrow> read_all dec d = Inr (map view as)"
  by (simp add: read_all_def read_upto_view)

end

text \<open>Elements of one tag, read as their contents.\<close>

lemma read_all_Expect:
  assumes "tag_ok t" and "list_all (\<lambda>c. length c < 2 ^ 32) cs" and "unread d = concat (map (tlv t) cs)"
  shows "read_all (Expect t) d = Inr cs"
proof -
  have "tlv_view (tlv t) (\<lambda>c. c) (Expect t :: Decoder \<Rightarrow> (ber_error, byte list) result \<times> Decoder) (\<lambda>c. length c < 2 ^ 32)"
    by unfold_locales (simp_all add: Expect_tlv assms(1))
  from tlv_view.read_all_view [OF this assms(2,3)] show ?thesis by simp
qed

end
