(* ===== verification/MmsServices.thy ===== *)
theory MmsServices
  imports BerSeq MmsTypeSpec
begin

text \<open>
  The client side of the MMS services for names, variables and variable lists
  (\<^verbatim>\<open>mms/services.go\<close>, \<^verbatim>\<open>mms/services_var.go\<close>): the requests built, the answers decoded, and
  the loop that follows the continuation of a name list. The exchange of a request for an answer is a
  parameter with a state of its own.
\<close>

section \<open>Requests\<close>

definition TagVisibleString :: Tag where "TagVisibleString = universal_tag False 26"

lemma TagVisibleString_simps [simp]:
  "tag_ok TagVisibleString" "Number TagVisibleString = 26" "\<not> Constructed TagVisibleString"
  by (simp_all add: TagVisibleString_def) (simp_all add: universal_tag_def)

definition svcGetNameList :: "32 word" where "svcGetNameList = 1"
definition svcIdentify :: "32 word" where "svcIdentify = 2"
definition svcRead :: "32 word" where "svcRead = 4"
definition svcWrite :: "32 word" where "svcWrite = 5"
definition svcGetVariableAccess :: "32 word" where "svcGetVariableAccess = 6"
definition svcDefineNamedVarList :: "32 word" where "svcDefineNamedVarList = 11"
definition svcGetNamedVarListAttr :: "32 word" where "svcGetNamedVarListAttr = 12"
definition svcDeleteNamedVarList :: "32 word" where "svcDeleteNamedVarList = 13"

lemmas svc_defs = svcGetNameList_def svcIdentify_def svcRead_def svcWrite_def svcGetVariableAccess_def
  svcDefineNamedVarList_def svcGetNamedVarListAttr_def svcDeleteNamedVarList_def

record VarRef =
  vr_Domain :: string
  vr_Item :: string

definition objectName :: "string \<Rightarrow> string \<Rightarrow> Element" where
  "objectName domain item =
     (if domain = [] then Prim (ContextPrimitive 0) (octets_of item)
      else Cons_el (ContextConstructed 1)
        [Some (Prim TagVisibleString (octets_of domain)), Some (Prim TagVisibleString (octets_of item))])"

definition variableEntry :: "string \<Rightarrow> string \<Rightarrow> Element" where
  "variableEntry domain item = Cons_el TagSequence [Some (Cons_el (ContextConstructed 0) [Some (objectName domain item)])]"

definition name_list_request :: "int \<Rightarrow> string \<Rightarrow> string \<Rightarrow> Element" where
  "name_list_request class' domain after =
     (let req = Cons_el (ContextConstructed svcGetNameList)
                  [Some (Cons_el (ContextConstructed 0) [Some (IntElem (ContextPrimitive 0) class')])];
          req = (if domain = [] then Add req [Some (Cons_el (ContextConstructed 1) [Some (Prim (ContextPrimitive 0) [])])]
                 else Add req [Some (Cons_el (ContextConstructed 1) [Some (Prim (ContextPrimitive 1) (octets_of domain))])])
      in if after \<noteq> [] then Add req [Some (Prim (ContextPrimitive 2) (octets_of after))] else req)"

definition read_request :: "VarRef list \<Rightarrow> Element" where
  "read_request refs =
     Cons_el (ContextConstructed svcRead)
       [Some (Cons_el (ContextConstructed 1)
          [Some (Cons_el (ContextConstructed 0) (map (\<lambda>r. Some (variableEntry (vr_Domain r) (vr_Item r))) refs))])]"

definition write_request :: "string \<Rightarrow> string list \<Rightarrow> Value list \<Rightarrow> Element" where
  "write_request domain items values =
     Cons_el (ContextConstructed svcWrite)
       [Some (Cons_el (ContextConstructed 0) (map (\<lambda>i. Some (variableEntry domain i)) items)),
        Some (Cons_el (ContextConstructed 0) (map DataElement values))]"

definition define_list_request :: "string \<Rightarrow> string \<Rightarrow> VarRef list \<Rightarrow> Element" where
  "define_list_request domain listName members =
     Cons_el (ContextConstructed svcDefineNamedVarList)
       [Some (objectName domain listName),
        Some (Cons_el (ContextConstructed 0) (map (\<lambda>m. Some (variableEntry (vr_Domain m) (vr_Item m))) members))]"

definition delete_list_request :: "string \<Rightarrow> string \<Rightarrow> Element" where
  "delete_list_request domain listName =
     Cons_el (ContextConstructed svcDeleteNamedVarList) [Some (Cons_el (ContextConstructed 1) [Some (objectName domain listName)])]"

section \<open>Answers\<close>

datatype client_error =
    BadAnswer ber_error | BadValue mms_error | NotAnswered | NoItems | LengthMismatch | NoProgress | TooMany
  | UnexpectedName | MalformedDelete | NotDeleted | AccessFailed byte

fun from_ber :: "(ber_error, 'a) result \<Rightarrow> (client_error, 'a) result" where
  "from_ber (Inr x) = Inr x"
| "from_ber (Inl Panic) = Inl Panic"
| "from_ber (Inl (Err e)) = Inl (Err (BadAnswer e))"

fun from_mms :: "(mms_error, 'a) result \<Rightarrow> (client_error, 'a) result" where
  "from_mms (Inr x) = Inr x"
| "from_mms (Inl Panic) = Inl Panic"
| "from_mms (Inl (Err e)) = Inl (Err (BadValue e))"

lemma from_simps [simp]:
  "from_ber r = Inr x \<longleftrightarrow> r = Inr x" "from_ber r = Inl Panic \<longleftrightarrow> r = Inl Panic"
  "from_mms q = Inr y \<longleftrightarrow> q = Inr y" "from_mms q = Inl Panic \<longleftrightarrow> q = Inl Panic"
  by (cases r rule: from_ber.cases; simp) (cases r rule: from_ber.cases; simp; fail | cases q rule: from_mms.cases; simp)+

text \<open>The service element of an answer and its content.\<close>

definition service_content :: "32 word \<Rightarrow> byte list \<Rightarrow> (client_error, byte list) result" where
  "service_content svc resp = from_ber (fst (Expect (ContextConstructed svc) (NewDecoder resp)))"

definition parse_name_page :: "byte list \<Rightarrow> (client_error, string list \<times> bool) result" where
  "parse_name_page resp =
     rbind (service_content svcGetNameList resp) (\<lambda>content.
     let (r, inner) = Expect (ContextConstructed 0) (NewDecoder content) in
     rbind (from_ber r) (\<lambda>listContent.
     rbind (from_ber (read_all (Expect TagVisibleString) (NewDecoder listContent))) (\<lambda>ids.
     let mf = (case optional_ignoring (fst (Optional (ContextPrimitive 1) inner)) of
                 None \<Rightarrow> True
               | Some b \<Rightarrow> (case DecodeBool b of Inr v \<Rightarrow> v | Inl _ \<Rightarrow> False))
     in Inr (map string_of ids, mf))))"

definition parseReadResponse :: "byte list \<Rightarrow> (client_error, Value list) result" where
  "parseReadResponse resp =
     rbind (service_content svcRead resp) (\<lambda>content.
     let (o1, inner) = Optional (ContextConstructed 0) (NewDecoder content) in
     rbind (from_ber (optional_or_error o1)) (\<lambda>_.
     rbind (from_ber (fst (Expect (ContextConstructed 1) inner))) (\<lambda>ar.
     from_mms (read_all DecodeAccessResult (NewDecoder ar)))))"

text \<open>The results of a write: \<open>None\<close> for success, the code of a failure otherwise. The code of an
  undecodable failure is 0.\<close>

definition write_result :: "Tag \<times> byte list \<Rightarrow> byte option" where
  "write_result p =
     (if fst p = ContextPrimitive 0 then Some (case DecodeUint (snd p) of Inr n \<Rightarrow> byte_of n | Inl _ \<Rightarrow> 0) else None)"

definition parse_write :: "byte list \<Rightarrow> (client_error, byte option list) result" where
  "parse_write resp =
     rbind (service_content svcWrite resp) (\<lambda>content.
     rbind (from_ber (read_all ReadTLV (NewDecoder content))) (\<lambda>rs. Inr (map write_result rs)))"

definition parse_identify :: "byte list \<Rightarrow> (client_error, string \<times> string \<times> string) result" where
  "parse_identify resp =
     rbind (service_content svcIdentify resp) (\<lambda>content.
     let (v, d) = Optional (ContextPrimitive 0) (NewDecoder content);
         (m, d) = Optional (ContextPrimitive 1) d;
         (r, d) = Optional (ContextPrimitive 2) d;
         text = (\<lambda>o'. case optional_ignoring o' of None \<Rightarrow> [] | Some b \<Rightarrow> string_of b)
     in Inr (text v, text m, text r))"

definition parse_define :: "byte list \<Rightarrow> (client_error, unit) result" where
  "parse_define resp =
     (case fst (Expect (ContextConstructed svcDefineNamedVarList) (NewDecoder resp)) of
        Inr _ \<Rightarrow> Inr ()
      | Inl e \<Rightarrow> if PeekIs (NewDecoder resp) (ContextPrimitive svcDefineNamedVarList) then Inr () else from_ber (Inl e))"

text \<open>\<^verbatim>\<open>DecodeUint\<close> with its error ignored yields 0.\<close>

definition uint_or_zero :: "byte list \<Rightarrow> nat" where
  "uint_or_zero b = (case DecodeUint b of Inr n \<Rightarrow> n | Inl _ \<Rightarrow> 0)"

definition parse_delete :: "byte list \<Rightarrow> (client_error, unit) result" where
  "parse_delete resp =
     rbind (service_content svcDeleteNamedVarList resp) (\<lambda>content.
     let (mb, d) = Expect (ContextPrimitive 0) (NewDecoder content); (db, _) = Expect (ContextPrimitive 1) d in
     case (mb, db) of
       (Inr m, Inr n) \<Rightarrow>
         if uint_or_zero n > 0 then Inr ()
         else if uint_or_zero m = 0 then Inl (Err (AccessFailed 10))
         else Inl (Err NotDeleted)
     | (Inl Panic, _) \<Rightarrow> Inl Panic
     | (_, Inl Panic) \<Rightarrow> Inl Panic
     | _ \<Rightarrow> Inl (Err MalformedDelete))"

definition mms_parseObjectName :: "byte list \<Rightarrow> (client_error, VarRef) result" where
  "mms_parseObjectName content =
     rbind (from_ber (fst (ReadTLV (NewDecoder content)))) (\<lambda>(tag, c).
     if tag = ContextPrimitive 0 then Inr \<lparr>vr_Domain = [], vr_Item = string_of c\<rparr>
     else if tag = ContextConstructed 1 then
       (let (r, dd) = Expect TagVisibleString (NewDecoder c) in
        rbind (from_ber r) (\<lambda>domain.
        rbind (from_ber (fst (Expect TagVisibleString dd))) (\<lambda>item.
        Inr \<lparr>vr_Domain = string_of domain, vr_Item = string_of item\<rparr>)))
     else Inl (Err UnexpectedName))"

record ListMember =
  lm_Ref :: VarRef
  lm_AlternateAccess :: "byte list option"

definition list_attributes_request :: "string \<Rightarrow> string \<Rightarrow> Element" where
  "list_attributes_request domain listName = Cons_el (ContextConstructed svcGetNamedVarListAttr) [Some (objectName domain listName)]"

definition parse_member :: "byte list \<Rightarrow> (client_error, ListMember) result" where
  "parse_member entry =
     (let (r, ed) = Expect (ContextConstructed 0) (NewDecoder entry) in
      rbind (from_ber r) (\<lambda>spec.
      rbind (mms_parseObjectName spec) (\<lambda>ref.
      rbind (from_ber (optional_or_error (fst (Optional (ContextConstructed 5) ed)))) (\<lambda>alt.
      Inr \<lparr>lm_Ref = ref, lm_AlternateAccess = alt\<rparr>))))"

definition read_member :: "Decoder \<Rightarrow> (client_error, ListMember) result \<times> Decoder" where
  "read_member d = (case Expect TagSequence d of (r, d') \<Rightarrow> (rbind (from_ber r) parse_member, d'))"

definition parseListMembers :: "byte list \<Rightarrow> (client_error, ListMember list \<times> bool) result" where
  "parseListMembers content =
     (let (del, inner) = Optional (ContextPrimitive 0) (NewDecoder content) in
      rbind (from_ber (optional_or_error del)) (\<lambda>b.
      let deletable = (case b of None \<Rightarrow> False | Some b \<Rightarrow> (case DecodeBool b of Inr v \<Rightarrow> v | Inl _ \<Rightarrow> False)) in
      rbind (from_ber (fst (Expect (ContextConstructed 1) inner))) (\<lambda>list.
      rbind (read_all read_member (NewDecoder list)) (\<lambda>ms. Inr (ms, deletable)))))"

definition parse_list_attributes :: "byte list \<Rightarrow> (client_error, ListMember list \<times> bool) result" where
  "parse_list_attributes resp = rbind (service_content svcGetNamedVarListAttr resp) parseListMembers"

definition variable_access_request :: "string \<Rightarrow> string \<Rightarrow> Element" where
  "variable_access_request domain item =
     Cons_el (ContextConstructed svcGetVariableAccess) [Some (Cons_el (ContextConstructed 0) [Some (objectName domain item)])]"

definition parse_variable_access :: "byte list \<Rightarrow> (client_error, TypeSpec) result" where
  "parse_variable_access resp =
     rbind (service_content svcGetVariableAccess resp) (\<lambda>content.
     let (o1, inner) = Optional (ContextPrimitive 0) (NewDecoder content) in
     rbind (from_ber (optional_or_error o1)) (\<lambda>_.
     let (o2, inner) = Optional (ContextConstructed 1) inner in
     rbind (from_ber (optional_or_error o2)) (\<lambda>_.
     rbind (from_ber (fst (Expect (ContextConstructed 2) inner))) (\<lambda>ts.
     from_mms (fst (DecodeTypeSpec (NewDecoder ts)))))))"

definition read_list_request :: "string \<Rightarrow> string \<Rightarrow> Element" where
  "read_list_request domain listName =
     Cons_el (ContextConstructed svcRead)
       [Some (Cons_el (ContextConstructed 1) [Some (Cons_el (ContextConstructed 1) [Some (objectName domain listName)])])]"

section \<open>Following a name list\<close>

definition maxContinued :: nat where "maxContinued = 2 ^ 20"

function GetNameList_loop :: "(string \<Rightarrow> 's \<Rightarrow> (client_error, string list \<times> bool) result \<times> 's) \<Rightarrow>
    string list \<Rightarrow> string \<Rightarrow> 's \<Rightarrow> (client_error, string list) result \<times> 's" where
  "GetNameList_loop page names after s =
     (case page after s of
        (Inl e, s') \<Rightarrow> (Inl e, s')
      | (Inr (batch, mf), s') \<Rightarrow>
          if \<not> mf \<or> batch = [] then (Inr (names @ batch), s')
          else if length (names @ batch) > maxContinued then (Inl (Err TooMany), s')
          else if last batch = after then (Inl (Err NoProgress), s')
          else GetNameList_loop page (names @ batch) (last batch) s')"
  by pat_completeness auto

termination
  by (relation "measure (\<lambda>(_, names, _, _). Suc maxContinued - length names)") (auto simp: neq_Nil_conv)

declare GetNameList_loop.simps [simp del]

text \<open>One page is one call.\<close>

definition getNameListPage :: "(Element \<Rightarrow> 's \<Rightarrow> (client_error, byte list) result \<times> 's) \<Rightarrow> int \<Rightarrow> string \<Rightarrow> string \<Rightarrow> 's \<Rightarrow>
    (client_error, string list \<times> bool) result \<times> 's" where
  "getNameListPage call class' domain after s =
     (case call (name_list_request class' domain after) s of
        (Inl e, s') \<Rightarrow> (Inl e, s')
      | (Inr resp, s') \<Rightarrow> (parse_name_page resp, s'))"

definition GetNameList :: "(Element \<Rightarrow> 's \<Rightarrow> (client_error, byte list) result \<times> 's) \<Rightarrow> int \<Rightarrow> string \<Rightarrow> 's \<Rightarrow>
    (client_error, string list) result \<times> 's" where
  "GetNameList call class' domain s = GetNameList_loop (getNameListPage call class' domain) [] [] s"

definition Read :: "(Element \<Rightarrow> 's \<Rightarrow> (client_error, byte list) result \<times> 's) \<Rightarrow> string \<Rightarrow> string list \<Rightarrow> 's \<Rightarrow>
    (client_error, Value list) result \<times> 's" where
  "Read call domain items s =
     (if items = [] then (Inl (Err NoItems), s)
      else case call (read_request (map (\<lambda>i. \<lparr>vr_Domain = domain, vr_Item = i\<rparr>) items)) s of
        (Inl e, s') \<Rightarrow> (Inl e, s') | (Inr resp, s') \<Rightarrow> (parseReadResponse resp, s'))"

definition ReadRefs :: "(Element \<Rightarrow> 's \<Rightarrow> (client_error, byte list) result \<times> 's) \<Rightarrow> VarRef list \<Rightarrow> 's \<Rightarrow>
    (client_error, Value list) result \<times> 's" where
  "ReadRefs call refs s =
     (if refs = [] then (Inl (Err NoItems), s)
      else case call (read_request refs) s of
        (Inl e, s') \<Rightarrow> (Inl e, s') | (Inr resp, s') \<Rightarrow> (parseReadResponse resp, s'))"

definition Write :: "(Element \<Rightarrow> 's \<Rightarrow> (client_error, byte list) result \<times> 's) \<Rightarrow> string \<Rightarrow> string list \<Rightarrow> Value list \<Rightarrow> 's \<Rightarrow>
    (client_error, byte option list) result \<times> 's" where
  "Write call domain items values s =
     (if length items \<noteq> length values then (Inl (Err LengthMismatch), s)
      else case call (write_request domain items values) s of
        (Inl e, s') \<Rightarrow> (Inl e, s') | (Inr resp, s') \<Rightarrow> (parse_write resp, s'))"

text \<open>The other services are one call and one decoder.\<close>

definition call_then :: "(Element \<Rightarrow> 's \<Rightarrow> (client_error, byte list) result \<times> 's) \<Rightarrow> Element \<Rightarrow> (byte list \<Rightarrow> (client_error, 'a) result) \<Rightarrow> 's \<Rightarrow>
    (client_error, 'a) result \<times> 's" where
  "call_then call req parse s = (case call req s of (Inl e, s') \<Rightarrow> (Inl e, s') | (Inr resp, s') \<Rightarrow> (parse resp, s'))"

definition Identify :: "(Element \<Rightarrow> 's \<Rightarrow> (client_error, byte list) result \<times> 's) \<Rightarrow> 's \<Rightarrow> (client_error, string \<times> string \<times> string) result \<times> 's" where
  "Identify call = call_then call (Prim (ContextPrimitive svcIdentify) []) parse_identify"

definition GetVariableAccessAttributes :: "(Element \<Rightarrow> 's \<Rightarrow> (client_error, byte list) result \<times> 's) \<Rightarrow> string \<Rightarrow> string \<Rightarrow> 's \<Rightarrow>
    (client_error, TypeSpec) result \<times> 's" where
  "GetVariableAccessAttributes call domain item = call_then call (variable_access_request domain item) parse_variable_access"

definition ReadNamedVariableList :: "(Element \<Rightarrow> 's \<Rightarrow> (client_error, byte list) result \<times> 's) \<Rightarrow> string \<Rightarrow> string \<Rightarrow> 's \<Rightarrow>
    (client_error, Value list) result \<times> 's" where
  "ReadNamedVariableList call domain listName = call_then call (read_list_request domain listName) parseReadResponse"

definition DefineNamedVariableList :: "(Element \<Rightarrow> 's \<Rightarrow> (client_error, byte list) result \<times> 's) \<Rightarrow> string \<Rightarrow> string \<Rightarrow> VarRef list \<Rightarrow> 's \<Rightarrow>
    (client_error, unit) result \<times> 's" where
  "DefineNamedVariableList call domain listName members = call_then call (define_list_request domain listName members) parse_define"

definition DeleteNamedVariableList :: "(Element \<Rightarrow> 's \<Rightarrow> (client_error, byte list) result \<times> 's) \<Rightarrow> string \<Rightarrow> string \<Rightarrow> 's \<Rightarrow>
    (client_error, unit) result \<times> 's" where
  "DeleteNamedVariableList call domain listName = call_then call (delete_list_request domain listName) parse_delete"

definition GetNamedVariableListMembers :: "(Element \<Rightarrow> 's \<Rightarrow> (client_error, byte list) result \<times> 's) \<Rightarrow> string \<Rightarrow> string \<Rightarrow> 's \<Rightarrow>
    (client_error, ListMember list \<times> bool) result \<times> 's" where
  "GetNamedVariableListMembers call domain listName = call_then call (list_attributes_request domain listName) parse_list_attributes"

definition GetNamedVariableListAttributes :: "(Element \<Rightarrow> 's \<Rightarrow> (client_error, byte list) result \<times> 's) \<Rightarrow> string \<Rightarrow> string \<Rightarrow> 's \<Rightarrow>
    (client_error, VarRef list) result \<times> 's" where
  "GetNamedVariableListAttributes call domain listName s =
     (case GetNamedVariableListMembers call domain listName s of
        (Inl e, s') \<Rightarrow> (Inl e, s') | (Inr (ms, _), s') \<Rightarrow> (Inr (map lm_Ref ms), s'))"

section \<open>The loop ends\<close>

text \<open>A peer whose state also counts the requests it was sent.\<close>

definition counted :: "('q \<Rightarrow> 's \<Rightarrow> 'a \<times> 's) \<Rightarrow> 'q \<Rightarrow> 's \<times> nat \<Rightarrow> 'a \<times> 's \<times> nat" where
  "counted f q = (\<lambda>(s, n). let (r, s') = f q s in (r, s', Suc n))"

lemma GetNameList_loop_requests:
  "length names \<le> maxContinued \<Longrightarrow>
     snd (snd (GetNameList_loop (counted page) names after (s, n))) \<le> n + (Suc maxContinued - length names)"
proof (induction "counted page" names after "(s, n)" arbitrary: s n rule: GetNameList_loop.induct)
  case (1 names after)
  obtain r s' where p: "page after s = (r, s')" by fastforce
  show ?case
  proof (cases "\<exists>batch. r = Inr (batch, True) \<and> batch \<noteq> [] \<and> length (names @ batch) \<le> maxContinued \<and> last batch \<noteq> after")
    case True
    then obtain batch where b: "r = Inr (batch, True)" "batch \<noteq> []" "length (names @ batch) \<le> maxContinued" "last batch \<noteq> after"
      by blast
    have l: "length names < length (names @ batch)" using b(2) by simp
    have le: "snd (snd (GetNameList_loop (counted page) (names @ batch) (last batch) (s', Suc n)))
        \<le> Suc n + (Suc maxContinued - length (names @ batch))"
      by (rule 1(1)) (use p b in \<open>simp_all add: counted_def\<close>)
    have eq: "GetNameList_loop (counted page) names after (s, n) = GetNameList_loop (counted page) (names @ batch) (last batch) (s', Suc n)"
      using p b by (subst GetNameList_loop.simps) (simp add: counted_def)
    show ?thesis by (subst eq) (use le l b(3) in linarith)
  next
    case False
    then have "snd (snd (GetNameList_loop (counted page) names after (s, n))) = Suc n"
      using p by (subst GetNameList_loop.simps) (auto simp: counted_def split: sum.splits bool.splits)
    then show ?thesis using 1(2) by simp
  qed
qed

end
