(* ===== verification/MmsAlt.thy ===== *)
theory MmsAlt
  imports SrvAccess MmsServices
begin

text \<open>
  Alternate access (\<^verbatim>\<open>mms/altaccess.go\<close>): the part of a variable a data set member selects, as a chain
  of component names and array indices, its encoding, and its resolution against a type.
\<close>

section \<open>Steps\<close>

text \<open>A step names a component, or an array index when the name is empty.\<close>

record AccessStep =
  as_Component :: string
  as_Index :: int

datatype alt_error = AltAsn1 ber_error | AltUnsupported | AltConstructed

fun alt_ber :: "(ber_error, 'a) result \<Rightarrow> (alt_error, 'a) result" where
  "alt_ber (Inr x) = Inr x"
| "alt_ber (Inl Panic) = Inl Panic"
| "alt_ber (Inl (Err e)) = Inl (Err (AltAsn1 e))"

text \<open>\<^verbatim>\<open>num - offset\<close> is an unsigned subtraction and wraps.\<close>

definition selection_of :: "32 word \<Rightarrow> bool \<Rightarrow> byte list \<Rightarrow> 32 word \<Rightarrow> (alt_error, AccessStep list) result" where
  "selection_of num constructed c offset =
     (if num - offset = 0 then
        (if constructed then Inl (Err AltConstructed)
         else Inr (map (\<lambda>p. \<lparr>as_Component = p, as_Index = 0\<rparr>) (split_on (CHR ''$'') (string_of c))))
      else if num - offset = 1 then
        rbind (alt_ber (DecodeUint c)) (\<lambda>n. Inr [\<lparr>as_Component = [], as_Index = int64_of n\<rparr>])
      else Inl (Err AltUnsupported))"

lemma nested_shorter:
  assumes "ReadTLV (NewDecoder content) = (Inr (tag, c), d)" "ReadTLV (NewDecoder c) = (Inr (stag, sc), sd)"
    "Expect TagSequence sd = (Inr rest, d')"
  shows "length rest < length content"
proof -
  have 1: "length c < length content"
    using ReadTLV_shorter [OF assms(1)] by (simp add: dec_ok_def)
  note 2 = ReadTLV_shorter [OF assms(2) dec_ok_NewDecoder]
  obtain t where r: "ReadTLV sd = (Inr (t, rest), d')" using assms(3) by (auto simp: Expect_def split: prod.splits sum.splits if_splits)
  show ?thesis using 1 2 ReadTLV_shorter [OF r 2(3)] by (simp add: dec_ok_def)
qed

text \<open>The loop of the source reads one selection and fails on a second; the recursion is on the content of
  the first, which is shorter.\<close>

function ParseAlternateAccess :: "byte list \<Rightarrow> (alt_error, AccessStep list) result" where
  "ParseAlternateAccess content =
     (if \<not> More (NewDecoder content) then Inr []
      else case ReadTLV (NewDecoder content) of
        (Inl e, _) \<Rightarrow> alt_ber (Inl e)
      | (Inr (tag, c), d) \<Rightarrow>
          rbind
            (if tag = ContextConstructed 0 then
               (case ReadTLV (NewDecoder c) of
                  (Inl e, _) \<Rightarrow> alt_ber (Inl e)
                | (Inr (stag, sc), sd) \<Rightarrow>
                    rbind (selection_of (Number stag) (Constructed stag) sc 0) (\<lambda>step.
                    case Expect TagSequence sd of
                      (Inl e, _) \<Rightarrow> alt_ber (Inl e)
                    | (Inr rest, _) \<Rightarrow> rbind (ParseAlternateAccess rest) (\<lambda>steps. Inr (step @ steps))))
             else if Class tag = ClassContextSpecific \<and> Number tag \<ge> 1 \<and> Number tag \<le> 4 then
               selection_of (Number tag) (Constructed tag) c 1
             else Inl (Err AltUnsupported))
            (\<lambda>steps.
               if \<not> More d then Inr steps
               else case ReadTLV d of
                 (Inl e, _) \<Rightarrow> alt_ber (Inl e)
               | (Inr _, _) \<Rightarrow> Inl (Err AltUnsupported)))"
  by pat_completeness auto

termination
  by (relation "measure length") (auto intro: nested_shorter [OF sym sym sym])

declare ParseAlternateAccess.simps [simp del]

section \<open>Encoding\<close>

fun access_element :: "AccessStep list \<Rightarrow> Element option" where
  "access_element [] = None"
| "access_element [s] =
     Some (if as_Component s \<noteq> [] then Prim (ContextPrimitive 1) (octets_of (as_Component s))
           else UintElem (ContextPrimitive 2) (uint64_of (as_Index s)))"
| "access_element (s # t # steps) =
     Some (Cons_el (ContextConstructed 0)
       [Some (if as_Component s \<noteq> [] then Prim (ContextPrimitive 0) (octets_of (as_Component s))
              else UintElem (ContextPrimitive 1) (uint64_of (as_Index s))),
        Some (Cons_el TagSequence [access_element (t # steps)])])"

definition AlternateAccessElement :: "AccessStep list \<Rightarrow> byte list" where
  "AlternateAccessElement steps = (case access_element steps of None \<Rightarrow> [] | Some el \<Rightarrow> Encode el)"

section \<open>Resolution\<close>

fun component_index :: "string \<Rightarrow> nat \<Rightarrow> (string \<times> TypeSpec) list \<Rightarrow> (nat \<times> TypeSpec) option" where
  "component_index n i [] = None"
| "component_index n i ((name, spec) # cs) = (if name = n then Some (i, spec) else component_index n (Suc i) cs)"

fun AccessPath :: "TypeSpec \<Rightarrow> AccessStep list \<Rightarrow> (nat list \<times> TypeSpec) option" where
  "AccessPath cur [] = Some ([], cur)"
| "AccessPath NilSpec (s # steps) = None"
| "AccessPath (TypeSpec k sz elements element comps) (s # steps) =
     (if as_Component s \<noteq> [] then
        (if k \<noteq> TypeStructure then None
         else case component_index (as_Component s) 0 comps of
           None \<Rightarrow> None
         | Some (i, spec) \<Rightarrow> map_option (\<lambda>(p, t). (i # p, t)) (AccessPath spec steps))
      else if k \<noteq> TypeArray then None
      else if as_Index s < 0 \<or> (elements > 0 \<and> as_Index s \<ge> elements) then None
      else map_option (\<lambda>(p, t). (nat (as_Index s) # p, t)) (AccessPath element steps))"

text \<open>The element of a value at a path of child positions.\<close>

fun value_at :: "Value \<Rightarrow> nat list \<Rightarrow> Value option" where
  "value_at v [] = Some v"
| "value_at v (i # p) = (if i < length (v_children v) then value_at (v_children v ! i) p else None)"

text \<open>No array of the type is declared empty.\<close>

fun sized :: "TypeSpec \<Rightarrow> bool" where
  "sized NilSpec = True"
| "sized (TypeSpec k sz elements element comps) =
     ((k = TypeArray \<longrightarrow> elements > 0 \<and> sized element) \<and> (k = TypeStructure \<longrightarrow> list_all (\<lambda>(name, spec). sized spec) comps))"

lemma component_index_nth:
  "component_index n i comps = Some (j, spec) \<Longrightarrow> i \<le> j \<and> j - i < length comps \<and> comps ! (j - i) = (n, spec)"
  by (induction n i comps rule: component_index.induct) (force split: if_splits simp: Suc_diff_le Suc_le_eq)+

lemma access_path_value:
  "AccessPath spec steps = Some (p, t) \<Longrightarrow> value_matches v spec \<Longrightarrow> sized spec \<Longrightarrow>
     length p = length steps \<and> (\<exists>w. value_at v p = Some w \<and> value_matches w t)"
proof (induction spec steps arbitrary: v p rule: AccessPath.induct)
  case (3 k sz elements element comps s steps)
  obtain ty n f b l c where v: "v = Value ty n f b l c" using "3.prems"(2) by (cases v) auto
  show ?case
  proof (cases "as_Component s = []")
    case False
    then obtain i spec p' where i: "k = TypeStructure" "component_index (as_Component s) 0 comps = Some (i, spec)"
      "AccessPath spec steps = Some (p', t)" "p = i # p'"
      using "3.prems"(1) by (auto split: if_splits option.splits)
    have j: "i < length comps" "comps ! i = (as_Component s, spec)" using component_index_nth [OF i(2)] by simp_all
    have len: "length c = length comps" using "3.prems"(2) i(1) v by auto
    then have "(c ! i, comps ! i) \<in> set (zip c comps)" using j(1) by (auto simp: set_zip)
    then have m: "value_matches (c ! i) spec" using "3.prems"(2) i(1) j(2) v by fastforce
    have "sized spec" using "3.prems"(3) i(1) j nth_mem [OF j(1)] by (fastforce simp: list_all_iff)
    from "3.IH"(1) [OF False _ i(2) refl i(3) m this] i(1) have "length p' = length steps \<and> (\<exists>w. value_at (c ! i) p' = Some w \<and> value_matches w t)" by simp
    then show ?thesis using i(4) j(1) len v by simp
  next
    case True
    then obtain p' where i: "k = TypeArray" "\<not> as_Index s < 0" "elements > 0 \<longrightarrow> as_Index s < elements"
      "AccessPath element steps = Some (p', t)" "p = nat (as_Index s) # p'"
      using "3.prems"(1) by (auto split: if_splits)
    have b: "nat (as_Index s) < length c" using "3.prems"(2,3) i(1-3) v by auto
    then have m: "value_matches (c ! nat (as_Index s)) element" using "3.prems"(2) i(1) v by auto
    have "sized element" using "3.prems"(3) i(1) by simp
    from "3.IH"(2) [OF _ _ _ i(4) m this] True i(1-3)
    have "length p' = length steps \<and> (\<exists>w. value_at (c ! nat (as_Index s)) p' = Some w \<and> value_matches w t)" by auto
    then show ?thesis using i(5) b v by simp
  qed
qed auto

section \<open>Round trip\<close>

definition step_ok :: "AccessStep \<Rightarrow> bool" where
  "step_ok s = (if as_Component s \<noteq> [] then CHR ''$'' \<notin> set (as_Component s) \<and> as_Index s = 0 else 0 \<le> as_Index s \<and> as_Index s < 2 ^ 63)"

definition step_octets :: "32 word \<Rightarrow> AccessStep \<Rightarrow> byte list" where
  "step_octets n s = (if as_Component s \<noteq> [] then tlv (ContextPrimitive n) (octets_of (as_Component s))
                      else tlv (ContextPrimitive (n + 1)) (uint_octets (uint64_of (as_Index s))))"

fun access_octets :: "AccessStep list \<Rightarrow> byte list" where
  "access_octets [] = []"
| "access_octets [s] = step_octets 1 s"
| "access_octets (s # t # steps) = tlv (ContextConstructed 0) (step_octets 0 s @ tlv TagSequence (access_octets (t # steps)))"

lemma alt_tag_simps [simp]:
  "Number (ContextConstructed n) = n" "Number (ContextPrimitive n) = n" "(ContextConstructed n)\<lparr>Constructed := True\<rparr> = ContextConstructed n"
  "\<not> Constructed (ContextPrimitive n)" "Number TagSequence = 16" "TagSequence\<lparr>Constructed := True\<rparr> = TagSequence"
  "Class (ContextPrimitive n) = ClassContextSpecific" "ContextPrimitive n \<noteq> ContextConstructed k"
  by (simp_all add: tag_defs)

lemma access_element_octets:
  "steps \<noteq> [] \<Longrightarrow> \<exists>el. access_element steps = Some el \<and> el_ok el \<and> Encode el = access_octets steps"
proof (induction steps rule: access_element.induct)
  case (3 s t steps)
  then obtain el where el: "access_element (t # steps) = Some el" "el_ok el" "Encode el = access_octets (t # steps)" by auto
  then show ?case
    by (auto simp: step_octets_def UintElem_def Encode_Prim Encode_Cons_el map_filter_simps)
qed (auto simp: step_octets_def UintElem_def Encode_Prim)

lemma selection_step:
  assumes "step_ok s" "step_octets n s = tlv (ContextPrimitive k) c"
  shows "selection_of (if as_Component s \<noteq> [] then n else n + 1) False
      (if as_Component s \<noteq> [] then octets_of (as_Component s) else uint_octets (uint64_of (as_Index s))) n = Inr [s]"
proof (cases "as_Component s = []")
  case True
  then have "int64_ok (as_Index s)" using assms(1) by (simp add: step_ok_def int64_ok_def)
  then have "DecodeUint (uint_octets (uint64_of (as_Index s))) = Inr (uint64_of (as_Index s))" "int64_of (uint64_of (as_Index s)) = as_Index s"
    using int64_uint64 [of "as_Index s"] by (simp_all add: DecodeUint_AppendUint)
  then show ?thesis using True by (simp add: selection_of_def)
next
  case False
  then show ?thesis using assms(1) by (simp add: selection_of_def step_ok_def split_on_none)
qed

lemma step_reads:
  assumes "step_ok s" "length (step_octets n s) < 2 ^ 32"
  obtains t c where "step_octets n s = tlv t c" "tag_ok t" "length c < 2 ^ 32" "Class t = ClassContextSpecific" "\<not> Constructed t"
    "Number t = n \<or> Number t = n + 1" "selection_of (Number t) (Constructed t) c n = Inr [s]"
proof (cases "as_Component s = []")
  case True
  then have u: "int64_ok (as_Index s)" using assms(1) by (simp add: step_ok_def int64_ok_def)
  have "length (uint_octets (uint64_of (as_Index s))) \<le> 9" using int64_uint64(2) by (rule length_uint_octets)
  then show ?thesis using True selection_step [OF assms(1), of n "n + 1" "uint_octets (uint64_of (as_Index s))"]
    by (intro that [of "ContextPrimitive (n + 1)" "uint_octets (uint64_of (as_Index s))"]) (simp_all add: step_octets_def)
next
  case False
  then show ?thesis using selection_step [OF assms(1), of n n "octets_of (as_Component s)"] assms(2)
      length_tlv_le(2) [of "octets_of (as_Component s)" "ContextPrimitive n"]
    by (intro that [of "ContextPrimitive n" "octets_of (as_Component s)"]) (simp_all add: step_octets_def)
qed

lemma ParseAlternateAccess_octets:
  "steps \<noteq> [] \<Longrightarrow> list_all step_ok steps \<Longrightarrow> length (access_octets steps) < 2 ^ 32 \<Longrightarrow> ParseAlternateAccess (access_octets steps) = Inr steps"
proof (induction steps rule: access_octets.induct)
  case (2 s)
  have ok: "step_ok s" "length (step_octets 1 s) < 2 ^ 32" using "2.prems" by simp_all
  obtain t c where t: "step_octets 1 s = tlv t c" "tag_ok t" "length c < 2 ^ 32" "Class t = ClassContextSpecific" "\<not> Constructed t"
    "Number t = 1 \<or> Number t = 1 + 1" "selection_of (Number t) (Constructed t) c 1 = Inr [s]"
    using step_reads [OF ok] by metis
  have n: "t \<noteq> ContextConstructed 0" using t(5) by (auto simp: tag_defs)
  have "1 \<le> Number t \<and> Number t \<le> 4" using t(6) by auto
  then show ?case using t n
    by (subst ParseAlternateAccess.simps) (simp add: NewDecoder_at [of "tlv _ _"] codec_simps)
next
  case (3 s t' steps)
  let ?rest = "access_octets (t' # steps)"
  let ?c = "step_octets 0 s @ tlv TagSequence ?rest"
  have lc: "length ?c < 2 ^ 32" using "3.prems"(3) length_tlv_le(2) [of ?c "ContextConstructed 0"] by simp
  then have lr: "length ?rest < 2 ^ 32" "length (step_octets 0 s) < 2 ^ 32" using length_tlv_le(2) [of ?rest TagSequence] by simp_all
  have ok: "step_ok s" using "3.prems" by simp
  obtain t c where t: "step_octets 0 s = tlv t c" "tag_ok t" "length c < 2 ^ 32" "selection_of (Number t) (Constructed t) c 0 = Inr [s]"
    using step_reads [OF ok lr(2)] by metis
  have IH: "ParseAlternateAccess ?rest = Inr (t' # steps)" using "3.IH" "3.prems" lr by simp
  show ?case using t lc lr IH
    by (subst ParseAlternateAccess.simps) (simp add: NewDecoder_at [of "tlv _ _"] NewDecoder_at [of "_ @ _"] codec_simps)
qed simp

lemma alt_ber_simps [simp]: "alt_ber r = Inr x \<longleftrightarrow> r = Inr x" "alt_ber r = Inl Panic \<longleftrightarrow> r = Inl Panic"
  by (cases r rule: alt_ber.cases; simp)+

lemma ParseAlternateAccess_safe: "ParseAlternateAccess content \<noteq> Inl Panic"
proof (induction content rule: length_induct)
  case (1 content)
  have r0: "ReadTLV (NewDecoder c) \<noteq> (Inl Panic, d)" for c d
    using ReadTLV_spec [of "NewDecoder c"] by auto
  have ok: "ReadTLV (NewDecoder c) = (Inr y, d) \<Longrightarrow> dec_ok d" for c y d
    using ReadTLV_spec [of "NewDecoder c"] by (auto simp: read_spec_def advanced_def)
  have r: "ReadTLV (NewDecoder c) = (Inr y, d) \<Longrightarrow> ReadTLV d \<noteq> (Inl Panic, d')" for c y d d'
    using ok [of c y d] ReadTLV_spec [of d] by auto
  have x: "ReadTLV (NewDecoder c) = (Inr y, d) \<Longrightarrow> Expect TagSequence d \<noteq> (Inl Panic, d')" for c y d d'
    using ok [of c y d] Expect_spec [of d TagSequence] by auto
  have s: "selection_of a b c d \<noteq> Inl Panic" for a b c d
    by (simp add: selection_of_def rbind_eq_Inl DecodeInt_no_panic)
  have n: "ReadTLV (NewDecoder content) = (Inr (tag, c), d) \<Longrightarrow> ReadTLV (NewDecoder c) = (Inr (stag, sc), sd) \<Longrightarrow>
      Expect TagSequence sd = (Inr rest, d') \<Longrightarrow> ParseAlternateAccess rest \<noteq> Inl Panic" for tag c d stag sc sd rest d'
    using 1 nested_shorter by blast
  show ?case
    by (subst ParseAlternateAccess.simps)
      (auto simp: rbind_eq_Inl s r0 split: prod.splits sum.splits if_splits dest: r x n)
qed

section \<open>Properties\<close>

text \<open>Alternate access: every chain of component names and indices is decoded to itself from its encoding, and
  decoding an arbitrary content ends without a panic.\<close>

theorem alternate_access_roundtrip:
  assumes "steps \<noteq> []" "length (AlternateAccessElement steps) < 2 ^ 32"
    "\<forall>s \<in> set steps. if as_Component s \<noteq> [] then CHR ''$'' \<notin> set (as_Component s) \<and> as_Index s = 0 else 0 \<le> as_Index s \<and> as_Index s < 2 ^ 63"
  shows "ParseAlternateAccess (AlternateAccessElement steps) = Inr steps \<and> ParseAlternateAccess content \<noteq> Inl Panic"
proof -
  have "AlternateAccessElement steps = access_octets steps"
    using access_element_octets [OF assms(1)] by (auto simp: AlternateAccessElement_def)
  moreover have "list_all step_ok steps" using assms(3) unfolding list_all_iff step_ok_def .
  ultimately show ?thesis using ParseAlternateAccess_octets [OF assms(1)] ParseAlternateAccess_safe assms(2) by simp
qed

text \<open>An alternate access that resolves against a variable's type leads, in every value of that type, to an element
  of the selected type, one child position per step.\<close>

theorem access_path_selects:
  assumes "AccessPath spec steps = Some (p, t)" "value_matches v spec" "sized spec"
  shows "length p = length steps \<and> (\<exists>w. value_at v p = Some w \<and> value_matches w t)"
  using access_path_value [OF assms] .

theorem access_path_selects_witness:
  "\<exists>w. value_at (NewStructure [NewBool True, NewInt64 7]) [1] = Some w \<and> value_matches w (scalar TypeInteger 32)"
proof -
  let ?spec = "TypeSpec TypeStructure 0 0 NilSpec [(''a'', scalar TypeBoolean 0), (''b'', scalar TypeInteger 32)]"
  have "AccessPath ?spec [\<lparr>as_Component = ''b'', as_Index = 0\<rparr>] = Some ([1], scalar TypeInteger 32)"
    "value_matches (NewStructure [NewBool True, NewInt64 7]) ?spec" "sized ?spec" by code_simp+
  from access_path_selects [OF this] show ?thesis by simp
qed

theorem alternate_access_roundtrip_witness:
  "ParseAlternateAccess (AlternateAccessElement [\<lparr>as_Component = [], as_Index = 9\<rparr>, \<lparr>as_Component = ''cVal'', as_Index = 0\<rparr>])
    = Inr [\<lparr>as_Component = [], as_Index = 9\<rparr>, \<lparr>as_Component = ''cVal'', as_Index = 0\<rparr>]"
proof -
  have "length (AlternateAccessElement [\<lparr>as_Component = [], as_Index = 9\<rparr>, \<lparr>as_Component = ''cVal'', as_Index = 0\<rparr>]) = 13" by code_simp
  then show ?thesis using alternate_access_roundtrip [of "[\<lparr>as_Component = [], as_Index = 9\<rparr>, \<lparr>as_Component = ''cVal'', as_Index = 0\<rparr>]" "[]"] by simp
qed

end
