(* ===== verification/SrvTx.thy ===== *)
theory SrvTx
  imports Nodes
begin

text \<open>
  Atomic updates of the process image (\<^verbatim>\<open>server/tx.go\<close>): the leaves a transaction writes and the
  trigger reasons it collects for the report engine. A transaction holds the model lock, so it is a
  function from one model to the next. The lemmas rest on the interpretation of
  \<open>attribute_store\<close> in \<open>Nodes\<close>.
\<close>

unbundle bit_operations_syntax

section \<open>Change sets\<close>

definition TrgDataChange :: TrgOps where "TrgDataChange = 2"
definition TrgQualityChange :: TrgOps where "TrgQualityChange = 4"
definition TrgDataUpdate :: TrgOps where "TrgDataUpdate = 8"

type_synonym change = "ObjectReference \<times> FC"
type_synonym changeSet = "change \<rightharpoonup> TrgOps"

definition changed_in :: "changeSet \<Rightarrow> change \<Rightarrow> TrgOps" where
  "changed_in cs c = (case cs c of None \<Rightarrow> 0 | Some r \<Rightarrow> r)"

definition cs_record :: "changeSet \<Rightarrow> ObjectReference \<Rightarrow> DataAttribute \<Rightarrow> Value \<Rightarrow> Value \<Rightarrow> changeSet" where
  "cs_record cs ref da old v =
     (let r = (if old = NilValue \<or> \<not> value_Equal old v then da_TrgOps da AND (TrgDataChange OR TrgQualityChange) else 0);
          r = r OR (da_TrgOps da AND TrgDataUpdate)
      in cs((ref, da_FC da) \<mapsto> changed_in cs (ref, da_FC da) OR r))"

section \<open>Transactions\<close>

text \<open>The part of the server a transaction touches.\<close>

record Tx =
  tx_m :: IEDModel
  tx_changed :: changeSet

definition Tx_Get :: "Tx \<Rightarrow> ObjectReference \<Rightarrow> FC \<Rightarrow> Value" where
  "Tx_Get tx ref fc = (case Attribute (tx_m tx) ref fc of None \<Rightarrow> NilValue | Some da \<Rightarrow> da_Value da)"

definition Tx_Set :: "Tx \<Rightarrow> ObjectReference \<Rightarrow> FC \<Rightarrow> Value \<Rightarrow> Tx" where
  "Tx_Set tx ref fc v =
     (case Attribute (tx_m tx) ref fc of
        None \<Rightarrow> tx
      | Some da \<Rightarrow>
          if da_Children da \<noteq> [] then tx
          else tx\<lparr>tx_m := Attribute_set (tx_m tx) ref fc v, tx_changed := cs_record (tx_changed tx) ref da (da_Value da) v\<rparr>)"

definition Tx_Toggle :: "Tx \<Rightarrow> ObjectReference \<Rightarrow> FC \<Rightarrow> bool \<times> Tx" where
  "Tx_Toggle tx ref fc =
     (let v = Tx_Get tx ref fc; on = (if v \<noteq> NilValue then \<not> value_Bool v else True)
      in (on, Tx_Set tx ref fc (NewBool on)))"

definition Tx_SetFloat32 :: "Tx \<Rightarrow> ObjectReference \<Rightarrow> float32 \<Rightarrow> Tx" where
  "Tx_SetFloat32 tx ref v = Tx_Set tx ref fc_MX (NewFloat32 v)"

definition Tx_SetBool :: "Tx \<Rightarrow> ObjectReference \<Rightarrow> bool \<Rightarrow> Tx" where
  "Tx_SetBool tx ref v = Tx_Set tx ref fc_ST (NewBool v)"

definition Tx_SetInt32 :: "Tx \<Rightarrow> ObjectReference \<Rightarrow> FC \<Rightarrow> 32 word \<Rightarrow> Tx" where
  "Tx_SetInt32 tx ref fc v = Tx_Set tx ref fc (NewInt32 v)"

definition Tx_SetQuality :: "Tx \<Rightarrow> ObjectReference \<Rightarrow> FC \<Rightarrow> Quality \<Rightarrow> (mms_error, Tx) result" where
  "Tx_SetQuality tx ref fc q = rbind (Quality_Value q) (\<lambda>v. Inr (Tx_Set tx ref fc v))"

text \<open>\<open>now\<close> is the clock reading the server stamps with its time quality.\<close>

definition server_now :: "Time \<Rightarrow> byte \<Rightarrow> Value" where
  "server_now now quality = NewUTCTime now quality"

definition Tx_SetTimestampNow :: "Time \<Rightarrow> byte \<Rightarrow> Tx \<Rightarrow> ObjectReference \<Rightarrow> FC \<Rightarrow> Tx" where
  "Tx_SetTimestampNow now quality tx ref fc = Tx_Set tx ref fc (server_now now quality)"

definition Tx_Now :: "Time \<Rightarrow> byte \<Rightarrow> Value" where
  "Tx_Now now quality = server_now now quality"

section \<open>What a transaction leaves behind\<close>

text \<open>A leaf found under its own constraint.\<close>

definition known :: "IEDModel \<Rightarrow> change \<Rightarrow> DataAttribute \<Rightarrow> bool" where
  "known m k a = (Attribute m (fst k) (snd k) = Some a \<and> da_Children a = [] \<and> da_FC a = snd k \<and> proper_fc (snd k))"

text \<open>The reasons a series of values raises on an attribute that held \<open>old\<close>.\<close>

definition reason :: "TrgOps \<Rightarrow> Value \<Rightarrow> Value \<Rightarrow> TrgOps" where
  "reason trg old v =
     (if old = NilValue \<or> \<not> value_Equal old v then trg AND (TrgDataChange OR TrgQualityChange) else 0) OR (trg AND TrgDataUpdate)"

fun reasons :: "TrgOps \<Rightarrow> Value \<Rightarrow> Value list \<Rightarrow> TrgOps" where
  "reasons trg old [] = 0"
| "reasons trg old (v # vs) = reason trg old v OR reasons trg v vs"

lemma Tx_Set_known:
  assumes "known (tx_m tx) k a"
  shows "Tx_Set tx (fst k) (snd k) v =
    tx\<lparr>tx_m := leaf_put (tx_m tx) k v,
       tx_changed := (tx_changed tx)(k \<mapsto> changed_in (tx_changed tx) k OR reason (da_TrgOps a) (da_Value a) v)\<rparr>"
  using assms by (simp add: Tx_Set_def known_def cs_record_def reason_def leaf_put_def Let_def)

lemma known_put:
  assumes "known m k a" "known m k' a'"
  shows "known (leaf_put m k v) k' (if k' = k then da_set v a else a')"
proof (cases "k' = k")
  case True
  then show ?thesis using assms by (simp add: known_def leaf_put_def Attribute_set_same)
next
  case False
  then show ?thesis using assms Attribute_set_other [of m "fst k" "snd k" a "fst k'" "snd k'" a' v]
    by (auto simp: known_def leaf_put_def prod_eq_iff)
qed

definition writes_to :: "change \<Rightarrow> (change \<times> Value) list \<Rightarrow> Value list" where
  "writes_to k ws = map snd (filter (\<lambda>w. fst w = k) ws)"

lemma writes_to_simps [simp]:
  "writes_to k [] = []" "writes_to k (w # ws) = (if fst w = k then snd w # writes_to k ws else writes_to k ws)"
  by (simp_all add: writes_to_def)

lemma tx_sets:
  "\<forall>w \<in> set ws. \<exists>a. known (tx_m tx) (fst w) a \<Longrightarrow> known (tx_m tx) k a \<Longrightarrow>
     known (tx_m (fold (\<lambda>w tx. Tx_Set tx (fst (fst w)) (snd (fst w)) (snd w)) ws tx)) k
       (da_set (last (da_Value a # writes_to k ws)) a)
     \<and> tx_changed (fold (\<lambda>w tx. Tx_Set tx (fst (fst w)) (snd (fst w)) (snd w)) ws tx) k
       = (if writes_to k ws = [] then tx_changed tx k
          else Some (changed_in (tx_changed tx) k OR reasons (da_TrgOps a) (da_Value a) (writes_to k ws)))"
proof (induction ws arbitrary: tx a)
  case Nil
  then show ?case by (cases a) (simp add: known_def da_set_def)
next
  case (Cons w ws)
  obtain b where b: "known (tx_m tx) (fst w) b" using Cons.prems(1) by auto
  let ?tx = "Tx_Set tx (fst (fst w)) (snd (fst w)) (snd w)"
  have m: "tx_m ?tx = leaf_put (tx_m tx) (fst w) (snd w)" using Tx_Set_known [OF b] by simp
  have 1: "\<forall>w' \<in> set ws. \<exists>a. known (tx_m ?tx) (fst w') a" using Cons.prems(1) known_put [OF b] unfolding m by fastforce
  have 2: "known (tx_m ?tx) k (if k = fst w then da_set (snd w) b else a)" using known_put [OF b Cons.prems(2)] m by simp
  have ba: "k = fst w \<Longrightarrow> b = a" using b Cons.prems(2) by (simp add: known_def)
  show ?case using Cons.IH [OF 1 2] ba
    by (auto simp: Tx_Set_known [OF b] da_set_def changed_in_def or.assoc)
qed

text \<open>(C34) After a transaction every leaf holds the last value written to it, or its old value, and the
  change set holds for every leaf written exactly the reasons its writes raise, in order, on top of
  what was there: a data or quality change only where the value differs from the one before it.\<close>

theorem update_effect:
  assumes "\<forall>w \<in> set ws. \<exists>a. known (tx_m tx) (fst w) a" "known (tx_m tx) (ref, fc) a"
  defines "tx' \<equiv> fold (\<lambda>w tx. Tx_Set tx (fst (fst w)) (snd (fst w)) (snd w)) ws tx"
  shows "Tx_Get tx' ref fc = last (da_Value a # writes_to (ref, fc) ws)
    \<and> tx_changed tx' (ref, fc) =
        (if writes_to (ref, fc) ws = [] then tx_changed tx (ref, fc)
         else Some (changed_in (tx_changed tx) (ref, fc) OR reasons (da_TrgOps a) (da_Value a) (writes_to (ref, fc) ws)))"
  using tx_sets [OF assms(1,2)] unfolding tx'_def by (simp add: Tx_Get_def known_def)

definition ex_model :: IEDModel where
  "ex_model = \<lparr>m_Name = ''IED'', m_Devices = [\<lparr>ld_Name = ''LD'', ld_Inst = [], ld_Nodes =
     [\<lparr>ln_Name = ''GGIO1'', ln_Class = [], ln_Objects =
        [DataObject ''Ind1'' ''SPS'' []
          [DataAttribute ''stVal'' fc_ST [] TypeBoolean [] 0 [] (NewBool False) 2,
           DataAttribute ''d'' fc_CF [] TypeBoolean [] 0 [] (NewBool False) 0]], ln_DataSets = [], ln_ReportControls = [],
     ln_GSEControls = [], ln_SVControls = [], ln_LogControls = [], ln_SettingControl = None, ln_Logs = []\<rparr>]\<rparr>],
     m_SettingGroups = []\<rparr>"

theorem update_effect_witness:
  "let tx' = fold (\<lambda>w tx. Tx_Set tx (fst (fst w)) (snd (fst w)) (snd w))
       [((''LD/GGIO1.Ind1.stVal'', fc_ST), NewBool True), ((''LD/GGIO1.Ind1.d'', fc_CF), NewBool True)]
       \<lparr>tx_m = ex_model, tx_changed = Map.empty\<rparr>
   in Tx_Get tx' ''LD/GGIO1.Ind1.stVal'' fc_ST = NewBool True \<and> tx_changed tx' (''LD/GGIO1.Ind1.stVal'', fc_ST) = Some 2"
proof -
  let ?ws = "[((''LD/GGIO1.Ind1.stVal'', fc_ST), NewBool True), ((''LD/GGIO1.Ind1.d'', fc_CF), NewBool True)]"
  let ?tx = "\<lparr>tx_m = ex_model, tx_changed = Map.empty\<rparr>"
  have k: "known (tx_m ?tx) (''LD/GGIO1.Ind1.stVal'', fc_ST) (DataAttribute ''stVal'' fc_ST [] TypeBoolean [] 0 [] (NewBool False) 2)"
    "known (tx_m ?tx) (''LD/GGIO1.Ind1.d'', fc_CF) (DataAttribute ''d'' fc_CF [] TypeBoolean [] 0 [] (NewBool False) 0)"
    by code_simp+
  have "\<forall>w \<in> set ?ws. \<exists>a. known (tx_m ?tx) (fst w) a" using k by auto
  moreover have "value_Equal (NewBool False) (NewBool True) = False" by code_simp
  ultimately show ?thesis using update_effect [OF _ k(1), of ?ws]
    by (simp add: Let_def fc_ST_def fc_CF_def changed_in_def reason_def TrgDataChange_def TrgQualityChange_def TrgDataUpdate_def)
qed

end
