(* ===== verification/SrvSg.thy ===== *)
theory SrvSg
  imports SrvAccess SrvTx
begin

text \<open>
  Setting groups (\<^verbatim>\<open>server/settinggroup.go\<close> and their construction in \<^verbatim>\<open>server/server.go\<close>): the
  manager that keeps one value per group for every setting of a device and switches which one is
  live. The source holds pointers to the attributes; here a pointer is the reference and constraint by
  which the attribute is found, and the lemmas are a client of the \<open>attribute_store\<close> laws. The
  iteration order of the source's maps is immaterial, as their keys are distinct cells.
\<close>

section \<open>State\<close>

type_synonym cell = "ObjectReference \<times> FC"

record sgSetting =
  ss_sg :: cell
  ss_se :: "cell option"
  ss_ref :: string
  ss_groups :: "Value list"

record sgManager =
  sg_ld :: string
  sg_numOfSG :: "8 word"
  sg_resvTms :: int
  sg_actSG :: "8 word"
  sg_editSG :: "8 word"
  sg_settings :: "sgSetting list"

definition cell_value :: "IEDModel \<Rightarrow> cell \<Rightarrow> Value" where
  "cell_value m k = (case Attribute m (fst k) (snd k) of None \<Rightarrow> NilValue | Some a \<Rightarrow> da_Value a)"

section \<open>Construction\<close>

fun collectSGAttr :: "ObjectReference \<Rightarrow> DataAttribute \<Rightarrow> cell list" where
  "collectSGAttr path (DataAttribute name fc fn kind bt cnt children v trg) =
     (if children = [] then (if fc = fc_SG \<or> fc = fc_SE then [(path, fc)] else [])
      else concat (map (\<lambda>c. collectSGAttr (ref_Child path (da_Name c)) c) children))"

fun collectSGAttrs :: "ObjectReference \<Rightarrow> DataObject \<Rightarrow> cell list" where
  "collectSGAttrs path (DataObject name cdc objs attrs) =
     concat (map (\<lambda>a. collectSGAttr (ref_Child path (da_Name a)) a) attrs)
     @ concat (map (\<lambda>s. collectSGAttrs (ref_Child path (do_Name s)) s) objs)"

definition sgcb_attr :: "string \<Rightarrow> Value \<Rightarrow> DataAttribute" where
  "sgcb_attr name v = DataAttribute name fc_SP [] (value_Type v) [] 0 [] v 0"

definition buildSGCB :: "8 word \<Rightarrow> int \<Rightarrow> Value \<Rightarrow> DataObject" where
  "buildSGCB numOfSG resvTms lActTm =
     DataObject ''SGCB'' [] []
       ([sgcb_attr ''NumOfSG'' (NewUint8 numOfSG), sgcb_attr ''ActSG'' (NewUint8 1), sgcb_attr ''EditSG'' (NewUint8 0),
         sgcb_attr ''CnfEdit'' (NewBool False), sgcb_attr ''LActTm'' lActTm]
        @ (if resvTms > 0 then [sgcb_attr ''ResvTms'' (NewUint32 (nat (resvTms mod 2 ^ 32)))] else []))"

definition in_device :: "string \<Rightarrow> ObjectReference \<Rightarrow> ObjectReference" where
  "in_device ld path = ld @ CHR ''/'' # path"

definition ln_settings :: "IEDModel \<Rightarrow> string \<Rightarrow> 8 word \<Rightarrow> LogicalNode \<Rightarrow> sgSetting list" where
  "ln_settings m ld numOfSG ln =
     (let found = concat (map (\<lambda>do. collectSGAttrs (ref_Child (ln_Name ln) (do_Name do)) do) (ln_Objects ln))
      in map (\<lambda>path. let sg = (in_device ld path, fc_SG) in
           \<lparr>ss_sg = sg,
            ss_se = (if (path, fc_SE) \<in> set found then Some (in_device ld path, fc_SE) else None),
            ss_ref = in_device ld path,
            ss_groups = replicate (unat numOfSG) (value_Clone (cell_value m sg))\<rparr>)
         (remdups (map fst (filter (\<lambda>c. snd c = fc_SG) found))))"

definition append_object :: "string \<Rightarrow> string \<Rightarrow> DataObject \<Rightarrow> IEDModel \<Rightarrow> IEDModel" where
  "append_object ldName lnName obj m =
     m\<lparr>m_Devices := update_first (\<lambda>ld. ld_Name ld = ldName)
        (\<lambda>ld. ld\<lparr>ld_Nodes := update_first (\<lambda>ln. ln_Name ln = lnName) (\<lambda>ln. ln\<lparr>ln_Objects := ln_Objects ln @ [obj]\<rparr>) (ld_Nodes ld)\<rparr>)
        (m_Devices m)\<rparr>"

definition newSGManager :: "IEDModel \<Rightarrow> LogicalDevice \<Rightarrow> 8 word \<Rightarrow> int \<Rightarrow> Value \<Rightarrow> bool \<Rightarrow> (sgManager \<times> IEDModel) option" where
  "newSGManager m ld numOfSG resvTms now declared =
     (let numOfSG = (if numOfSG = 0 then 1 else numOfSG);
          settings = concat (map (ln_settings m (ld_Name ld) numOfSG) (ld_Nodes ld))
      in if settings = [] \<and> \<not> declared then None
         else if ld_Node ld ''LLN0'' = None then None
         else Some (\<lparr>sg_ld = ld_Name ld, sg_numOfSG = numOfSG, sg_resvTms = resvTms, sg_actSG = 1, sg_editSG = 0, sg_settings = settings\<rparr>,
                    append_object (ld_Name ld) ''LLN0'' (buildSGCB numOfSG resvTms now) m))"

definition seed_group :: "SettingGroup \<Rightarrow> sgManager \<Rightarrow> sgManager" where
  "seed_group g st =
     (if grp_Number g \<le> 0 \<or> grp_Number g > uint (sg_numOfSG st) then st
      else st\<lparr>sg_settings := map (\<lambda>s. case map_of (grp_Values g) (ss_ref s) of
          None \<Rightarrow> s
        | Some v \<Rightarrow> s\<lparr>ss_groups := (ss_groups s)[nat (grp_Number g - 1) := value_Clone v]\<rparr>) (sg_settings st)\<rparr>)"

definition seedGroups :: "SettingGroup list \<Rightarrow> sgManager \<Rightarrow> sgManager" where
  "seedGroups groups st = fold seed_group groups st"

definition declaredSettingGroups :: "LogicalDevice \<Rightarrow> SettingControl option" where
  "declaredSettingGroups ld =
     (case List.map_filter (\<lambda>ln. case ln_SettingControl ln of Some c \<Rightarrow> if sc_NumOfSGs c > 0 then Some c else None | None \<Rightarrow> None) (ld_Nodes ld) of
        [] \<Rightarrow> None | c # _ \<Rightarrow> Some c)"

definition device_manager :: "8 word \<Rightarrow> Value \<Rightarrow> LogicalDevice \<Rightarrow> IEDModel \<Rightarrow> sgManager option \<times> IEDModel" where
  "device_manager numOfSG now ld m =
     (let declared = declaredSettingGroups ld;
          n = (case declared of Some c \<Rightarrow> if sc_NumOfSGs c > 0 then word_of_int (sc_NumOfSGs c) else numOfSG | None \<Rightarrow> numOfSG);
          resvTms = (case declared of Some c \<Rightarrow> sc_ResvTms c | None \<Rightarrow> 0)
      in if n = 0 then (None, m)
         else (case newSGManager m ld n resvTms now (declared \<noteq> None) of
                 None \<Rightarrow> (None, m)
               | Some (mgr, m) \<Rightarrow>
                   let mgr = seedGroups (m_SettingGroups m) mgr;
                       mgr = (case declared of Some c \<Rightarrow> if sc_ActSG c > 0 then mgr\<lparr>sg_actSG := word_of_int (sc_ActSG c)\<rparr> else mgr | None \<Rightarrow> mgr)
                   in (Some mgr, m)))"

text \<open>The managers by device name; the devices are those of the model the server was given.\<close>

definition buildSettingGroups :: "8 word \<Rightarrow> Value \<Rightarrow> IEDModel \<Rightarrow> (string \<rightharpoonup> sgManager) \<times> IEDModel" where
  "buildSettingGroups numOfSG now m =
     fold (\<lambda>ld (sgs, m). case device_manager numOfSG now ld m of
             (None, m) \<Rightarrow> (sgs, m) | (Some mgr, m) \<Rightarrow> (sgs(ld_Name ld \<mapsto> mgr), m))
       (m_Devices m) (Map.empty, m)"

section \<open>Operations\<close>

definition isSGCBWrite :: "string \<Rightarrow> string option" where
  "isSGCBWrite item =
     (case split_on (CHR ''$'') item of
        [a, b, c, attr] \<Rightarrow> if a = ''LLN0'' \<and> b = ''SP'' \<and> c = ''SGCB'' then Some attr else None
      | _ \<Rightarrow> None)"

definition in_range :: "sgManager \<Rightarrow> 8 word \<Rightarrow> bool" where
  "in_range st g = (g \<ge> 1 \<and> g \<le> sg_numOfSG st)"

definition editing :: "sgManager \<Rightarrow> bool" where
  "editing st = in_range st (sg_editSG st)"

definition sg_checkWrite :: "sgManager \<Rightarrow> string \<Rightarrow> Value \<Rightarrow> byte" where
  "sg_checkWrite st attr v =
     (if attr = ''ActSG'' then
        (let g = value_Int64 v in if g < 1 \<or> g > uint (sg_numOfSG st) then AccessObjectValueInvalid else 0xff)
      else if attr = ''EditSG'' then
        (let g = value_Int64 v in if g < 0 \<or> g > uint (sg_numOfSG st) then AccessObjectValueInvalid else 0xff)
      else if attr = ''CnfEdit'' then
        (if value_Bool v \<and> (sg_editSG st < 1 \<or> sg_editSG st > sg_numOfSG st) then AccessTemporarilyUnavailable else 0xff)
      else AccessObjectAccessDenied)"

definition sgcb_cell :: "sgManager \<Rightarrow> string \<Rightarrow> cell" where
  "sgcb_cell st name = (sg_ld st @ ''/LLN0.SGCB.'' @ name, fc_SP)"

abbreviation put_cells :: "(cell \<times> Value) list \<Rightarrow> IEDModel \<Rightarrow> IEDModel" where
  "put_cells ws m \<equiv> fold (\<lambda>(k, v) m. leaf_put m k v) ws m"

text \<open>The cells and values the loops over the settings write.\<close>

definition group_writes :: "(sgSetting \<Rightarrow> cell option) \<Rightarrow> 8 word \<Rightarrow> sgSetting list \<Rightarrow> (mms_error, (cell \<times> Value) list) result" where
  "group_writes view g ss =
     rmap (\<lambda>s. rbind (go_index (ss_groups s) (unat (g - 1))) (\<lambda>v. Inr (the (view s), value_Clone v)))
       (filter (\<lambda>s. view s \<noteq> None) ss)"

fun confirm_settings :: "8 word \<Rightarrow> bool \<Rightarrow> sgSetting list \<Rightarrow> IEDModel \<Rightarrow> (mms_error, sgSetting list \<times> IEDModel) result" where
  "confirm_settings e active [] m = Inr ([], m)"
| "confirm_settings e active (s # ss) m =
     (case ss_se s of
        None \<Rightarrow> rbind (confirm_settings e active ss m) (\<lambda>(ss', m'). Inr (s # ss', m'))
      | Some se \<Rightarrow>
          let v = value_Clone (cell_value m se); i = unat (e - 1) in
          if i \<ge> length (ss_groups s) then Inl Panic
          else rbind (confirm_settings e active ss (if active then leaf_put m (ss_sg s) v else m)) (\<lambda>(ss', m').
               Inr (s\<lparr>ss_groups := (ss_groups s)[i := v]\<rparr> # ss', m')))"

definition onSGCBWrite :: "Value \<Rightarrow> sgManager \<Rightarrow> IEDModel \<Rightarrow> string \<Rightarrow> Value \<Rightarrow> (mms_error, sgManager \<times> IEDModel) result" where
  "onSGCBWrite now st m attr v =
     (if attr = ''ActSG'' then
        let g = word_of_int (value_Int64 v) in
        if \<not> in_range st g then Inr (st, m)
        else
          let m1 = leaf_put (leaf_put m (sgcb_cell st ''ActSG'') (NewUint8 g)) (sgcb_cell st ''LActTm'') now in
          rbind (group_writes (\<lambda>s. Some (ss_sg s)) g (sg_settings st)) (\<lambda>ws.
          Inr (st\<lparr>sg_actSG := g\<rparr>, put_cells ws m1))
      else if attr = ''EditSG'' then
        let g = word_of_int (value_Int64 v); st1 = st\<lparr>sg_editSG := g\<rparr>; m1 = leaf_put m (sgcb_cell st ''EditSG'') (NewUint8 g) in
        if \<not> in_range st g then Inr (st1, m1)
        else rbind (group_writes ss_se g (sg_settings st)) (\<lambda>ws. Inr (st1, put_cells ws m1))
      else if attr = ''CnfEdit'' then
        (if value_Bool v \<and> editing st then
           rbind (confirm_settings (sg_editSG st) (sg_editSG st = sg_actSG st) (sg_settings st) m) (\<lambda>(ss, m1).
           Inr (st\<lparr>sg_editSG := 0, sg_settings := ss\<rparr>,
                leaf_put (leaf_put m1 (sgcb_cell st ''EditSG'') (NewUint8 0)) (sgcb_cell st ''CnfEdit'') (NewBool False)))
         else Inr (st, m))
      else Inr (st, m))"

section \<open>Abstract setting groups\<close>

text \<open>A setting is its live value, its edit buffer where it has one, and its value in every group.\<close>

record setting_spec =
  live :: Value
  buffer :: "Value option"
  stored :: "Value list"

record sg_spec =
  active :: nat
  edited :: nat
  settings :: "setting_spec list"

definition activate :: "nat \<Rightarrow> setting_spec \<Rightarrow> setting_spec" where
  "activate g x = x\<lparr>live := stored x ! (g - 1)\<rparr>"

definition open_edit :: "nat \<Rightarrow> setting_spec \<Rightarrow> setting_spec" where
  "open_edit g x = (if g = 0 then x else x\<lparr>buffer := map_option (\<lambda>_. stored x ! (g - 1)) (buffer x)\<rparr>)"

definition confirm_edit :: "nat \<Rightarrow> nat \<Rightarrow> setting_spec \<Rightarrow> setting_spec" where
  "confirm_edit act e x =
     (case buffer x of None \<Rightarrow> x
      | Some v \<Rightarrow> x\<lparr>live := (if e = act then v else live x), stored := (stored x)[e - 1 := v]\<rparr>)"

definition spec_write :: "string \<Rightarrow> Value \<Rightarrow> sg_spec \<Rightarrow> sg_spec" where
  "spec_write attr v S =
     (let g = nat (value_Int64 v) in
      if attr = ''ActSG'' then S\<lparr>active := g, settings := map (activate g) (settings S)\<rparr>
      else if attr = ''EditSG'' then S\<lparr>edited := g, settings := map (open_edit g) (settings S)\<rparr>
      else if attr = ''CnfEdit'' \<and> value_Bool v then
        S\<lparr>edited := 0, settings := map (confirm_edit (active S) (edited S)) (settings S)\<rparr>
      else S)"

definition abs_setting :: "IEDModel \<Rightarrow> sgSetting \<Rightarrow> setting_spec" where
  "abs_setting m s = \<lparr>live = cell_value m (ss_sg s), buffer = map_option (cell_value m) (ss_se s), stored = ss_groups s\<rparr>"

definition abs_sg :: "sgManager \<Rightarrow> IEDModel \<Rightarrow> sg_spec" where
  "abs_sg st m = \<lparr>active = unat (sg_actSG st), edited = unat (sg_editSG st), settings = map (abs_setting m) (sg_settings st)\<rparr>"

section \<open>Invariant\<close>

definition setting_ok :: "8 word \<Rightarrow> IEDModel \<Rightarrow> sgSetting \<Rightarrow> bool" where
  "setting_ok n m s =
     (length (ss_groups s) = unat n \<and> snd (ss_sg s) = fc_SG \<and> leaf_get m (ss_sg s) \<noteq> None
      \<and> (case ss_se s of None \<Rightarrow> True | Some k \<Rightarrow> snd k = fc_SE \<and> leaf_get m k \<noteq> None))"

definition sgcb_names :: "string list" where
  "sgcb_names = [''ActSG'', ''EditSG'', ''CnfEdit'', ''LActTm'']"

text \<open>The cells of the manager are leaves of the model, one per setting.\<close>

definition sg_wf :: "sgManager \<Rightarrow> IEDModel \<Rightarrow> bool" where
  "sg_wf st m =
     (in_range st (sg_actSG st) \<and> sg_editSG st \<le> sg_numOfSG st \<and> list_all (setting_ok (sg_numOfSG st) m) (sg_settings st)
      \<and> distinct (map ss_sg (sg_settings st)) \<and> distinct (List.map_filter ss_se (sg_settings st))
      \<and> list_all (\<lambda>n. leaf_get m (sgcb_cell st n) \<noteq> None) sgcb_names)"

text \<open>What a client reads: the control block states the active and the edited group, and every live
  value is the one stored for the active group.\<close>

definition sg_served :: "sgManager \<Rightarrow> IEDModel \<Rightarrow> bool" where
  "sg_served st m =
     (cell_value m (sgcb_cell st ''ActSG'') = NewUint8 (sg_actSG st) \<and> cell_value m (sgcb_cell st ''EditSG'') = NewUint8 (sg_editSG st)
      \<and> list_all (\<lambda>s. cell_value m (ss_sg s) = ss_groups s ! unat (sg_actSG st - 1)) (sg_settings st))"

lemma fc_distinct [simp]:
  "proper_fc fc_SG" "proper_fc fc_SE" "proper_fc fc_SP" "fc_SG \<noteq> fc_SE" "fc_SE \<noteq> fc_SG" "fc_SG \<noteq> fc_SP" "fc_SP \<noteq> fc_SG"
  "fc_SE \<noteq> fc_SP" "fc_SP \<noteq> fc_SE"
  by (simp_all add: proper_fc_def fc_SG_def fc_SE_def fc_SP_def fc_ALL_def FCNone_def)

lemma leaf_get_value: "leaf_get m k = Some v \<Longrightarrow> cell_value m k = v"
  by (auto simp: leaf_get_Some cell_value_def)

lemma leaf_get_cell: "leaf_get m k \<noteq> None \<longleftrightarrow> leaf_get m k = Some (cell_value m k)"
  by (cases "leaf_get m k") (simp_all add: leaf_get_value)

definition writable_cells :: "IEDModel \<Rightarrow> (cell \<times> Value) list \<Rightarrow> bool" where
  "writable_cells m ws = (\<forall>(k, v) \<in> set ws. proper_fc (snd k) \<and> leaf_get m k \<noteq> None)"

lemma cells_after:
  assumes "writable_cells m ws" "proper_fc (snd k)" "leaf_get m k \<noteq> None"
  shows "leaf_get (put_cells ws m) k = Some (case map_of (rev ws) k of None \<Rightarrow> cell_value m k | Some v \<Rightarrow> v)"
  using assms(1,2) leaf_get_cell [THEN iffD1, OF assms(3)]
  by (intro leaves.get_puts) (auto simp: writable_cells_def)

lemma cell_after:
  assumes "writable_cells m ws" "proper_fc (snd k)" "leaf_get m k \<noteq> None"
  shows "cell_value (put_cells ws m) k = (case map_of (rev ws) k of None \<Rightarrow> cell_value m k | Some v \<Rightarrow> v)"
  using leaf_get_value [OF cells_after [OF assms]] .

lemma map_of_rev_distinct: "distinct (map fst ws) \<Longrightarrow> map_of (rev ws) = map_of ws"
  by (metis distinct_rev map_of_inject_set rev_map set_rev)

lemma group_writes_ok:
  assumes "list_all (\<lambda>s. unat (g - 1) < length (ss_groups s)) ss"
  shows "group_writes view g ss =
    Inr (map (\<lambda>s. (the (view s), ss_groups s ! unat (g - 1))) (filter (\<lambda>s. view s \<noteq> None) ss))"
  using assms unfolding group_writes_def by (intro rmap_Inr) (auto simp: list_all_iff)

definition confirmed :: "8 word \<Rightarrow> IEDModel \<Rightarrow> sgSetting \<Rightarrow> sgSetting" where
  "confirmed e m s = (case ss_se s of None \<Rightarrow> s | Some k \<Rightarrow> s\<lparr>ss_groups := (ss_groups s)[unat (e - 1) := cell_value m k]\<rparr>)"

definition confirm_writes :: "IEDModel \<Rightarrow> sgSetting list \<Rightarrow> (cell \<times> Value) list" where
  "confirm_writes m ss = map (\<lambda>s. (ss_sg s, cell_value m (the (ss_se s)))) (filter (\<lambda>s. ss_se s \<noteq> None) ss)"

lemma confirm_settings_ok:
  assumes "list_all (setting_ok n m) ss" "unat (e - 1) < unat n"
  shows "confirm_settings e b ss m =
    Inr (map (confirmed e m) ss, put_cells (if b then confirm_writes m ss else []) m)"
  using assms(1)
proof (induction ss arbitrary: m)
  case Nil
  then show ?case by (simp add: confirm_writes_def)
next
  case (Cons s ss)
  show ?case
  proof (cases "ss_se s")
    case None
    then show ?thesis using Cons by (simp add: confirmed_def confirm_writes_def)
  next
    case (Some k)
    define m1 where "m1 = (if b then leaf_put m (ss_sg s) (cell_value m k) else m)"
    have s: "snd (ss_sg s) = fc_SG" "leaf_get m (ss_sg s) \<noteq> None" "length (ss_groups s) = unat n"
      using Cons.prems by (auto simp: setting_ok_def)
    have get: "leaf_get m1 k' = leaf_get m k'" if "snd k' = fc_SE" "leaf_get m k' \<noteq> None" for k'
    proof -
      have "ss_sg s \<noteq> k'" using that(1) s(1) by auto
      then show ?thesis using leaves.get_put_other [of m "ss_sg s" _ k'] that s by (auto simp: m1_def)
    qed
    have keep: "leaf_get m1 k' \<noteq> None" if "snd k' = fc_SG" "leaf_get m k' \<noteq> None" for k'
      using leaves.get_put [of m "ss_sg s" _ k'] that s by (auto simp: m1_def)
    have ok: "list_all (setting_ok n m1) ss"
      using Cons.prems get keep by (auto simp: list_all_iff setting_ok_def split: option.splits)
    have eq: "confirmed e m1 x = confirmed e m x" "ss_se x \<noteq> None \<Longrightarrow> cell_value m1 (the (ss_se x)) = cell_value m (the (ss_se x))"
      if "x \<in> set ss" for x
      using Cons.prems that get leaf_get_value by (force simp: list_all_iff setting_ok_def confirmed_def leaf_get_cell split: option.splits)+
    have "map (confirmed e m1) ss = map (confirmed e m) ss" "confirm_writes m1 ss = confirm_writes m ss"
      using eq by (auto simp: confirm_writes_def)
    then have ih: "confirm_settings e b ss m1 = Inr (map (confirmed e m) ss, put_cells (if b then confirm_writes m ss else []) m1)"
      using Cons.IH [OF ok] by simp
    have "confirm_settings e b (s # ss) m = rbind (confirm_settings e b ss m1) (\<lambda>(ss', m'). Inr (confirmed e m s # ss', m'))"
      using Some s(3) assms(2) by (simp add: Let_def m1_def confirmed_def)
    moreover have "put_cells (if b then confirm_writes m ss else []) m1 = put_cells (if b then confirm_writes m (s # ss) else []) m"
      using Some by (simp add: m1_def confirm_writes_def)
    ultimately show ?thesis by (simp add: ih)
  qed
qed

text \<open>How the cells of a manager stand to a list of writes that only touches some of them.\<close>

lemma setting_ok_after:
  assumes "writable_cells m ws" "setting_ok n m s"
  shows "setting_ok n (put_cells ws m) s"
    and "cell_value (put_cells ws m) (ss_sg s) = (case map_of (rev ws) (ss_sg s) of None \<Rightarrow> cell_value m (ss_sg s) | Some v \<Rightarrow> v)"
    and "ss_se s = Some k \<Longrightarrow>
      cell_value (put_cells ws m) k = (case map_of (rev ws) k of None \<Rightarrow> cell_value m k | Some v \<Rightarrow> v)"
  using assms cells_after [OF assms(1)] cell_after [OF assms(1)]
  by (auto simp: setting_ok_def split: option.splits)

lemma sgcb_after:
  assumes "writable_cells m ws" "leaf_get m (sgcb_cell st n) \<noteq> None"
  shows "leaf_get (put_cells ws m) (sgcb_cell st n) =
    Some (case map_of (rev ws) (sgcb_cell st n) of None \<Rightarrow> cell_value m (sgcb_cell st n) | Some v \<Rightarrow> v)"
  using assms by (intro cells_after) (simp_all add: sgcb_cell_def)

lemma sgcb_cell_eq [simp]: "sgcb_cell st n = sgcb_cell st n' \<longleftrightarrow> n = n'"
  by (simp add: sgcb_cell_def)

lemma sgcb_cell_fc [simp]: "snd (sgcb_cell st n) = fc_SP"
  by (simp add: sgcb_cell_def)

lemma map_of_fc_None: "(\<And>k v. (k, v) \<in> set ws \<Longrightarrow> snd k \<noteq> snd c) \<Longrightarrow> map_of ws c = None"
  by (metis map_of_eq_None_iff prod.collapse imageE)

lemma map_of_view:
  assumes "distinct (map view ss)" "s \<in> set ss"
  shows "map_of (map (\<lambda>s. (view s, f s)) ss) (view s) = Some (f s)"
  using assms by (intro map_of_is_SomeI) (auto simp: comp_def)

lemma map_of_writes:
  assumes "distinct (map view ss)" "s \<in> set ss"
  shows "map_of (rev (pre @ map (\<lambda>s. (view s, f s)) ss)) (view s) = Some (f s)"
  using map_of_view [OF assms, of f] map_of_rev_distinct [of "map (\<lambda>s. (view s, f s)) ss"] assms(1)
  by (simp add: comp_def)

lemma in_range_unat: "in_range st g \<Longrightarrow> unat (g - 1) = unat g - 1 \<and> unat (g - 1) < unat (sg_numOfSG st) \<and> 0 < unat g"
proof -
  assume "in_range st g"
  then have "1 \<le> unat g" "unat g \<le> unat (sg_numOfSG st)" by (simp_all add: in_range_def word_le_nat_alt)
  moreover have "unat (g - 1) = unat g - 1" using \<open>1 \<le> unat g\<close> by (intro unat_minus_one) auto
  ultimately show ?thesis by simp
qed

lemma sg_wfD:
  assumes "sg_wf st m" "s \<in> set (sg_settings st)"
  shows "setting_ok (sg_numOfSG st) m s" "length (ss_groups s) = unat (sg_numOfSG st)" "snd (ss_sg s) = fc_SG" "leaf_get m (ss_sg s) \<noteq> None"
    and "ss_se s = Some k \<Longrightarrow> snd k = fc_SE" "ss_se s = Some k \<Longrightarrow> leaf_get m k \<noteq> None"
  using assms by (auto simp: sg_wf_def list_all_iff setting_ok_def)

lemma sgcb_wfD: "sg_wf st m \<Longrightarrow> n \<in> set sgcb_names \<Longrightarrow> leaf_get m (sgcb_cell st n) \<noteq> None"
  by (auto simp: sg_wf_def list_all_iff)

lemma word_in_range: "0 \<le> x \<Longrightarrow> x \<le> uint (n :: 8 word) \<Longrightarrow> uint (word_of_int x :: 8 word) = x"
  using uint_lt2p [of n] by (simp add: uint_word_of_int)

lemma checked_group:
  assumes "0 \<le> value_Int64 v" "value_Int64 v \<le> uint (sg_numOfSG st)"
  defines "g \<equiv> word_of_int (value_Int64 v) :: 8 word"
  shows "unat g = nat (value_Int64 v)" "g \<le> sg_numOfSG st" "1 \<le> value_Int64 v \<Longrightarrow> in_range st g"
    "value_Int64 v = 0 \<Longrightarrow> g = 0"
proof -
  have u: "uint g = value_Int64 v" using word_in_range assms by simp
  then show "unat g = nat (value_Int64 v)" "g \<le> sg_numOfSG st" using assms(2) by (simp_all add: word_le_def unat_eq_nat_uint)
  then show "1 \<le> value_Int64 v \<Longrightarrow> in_range st g" using u by (simp add: in_range_def word_le_def)
  show "value_Int64 v = 0 \<Longrightarrow> g = 0" by (simp add: g_def)
qed

lemma map_filter_views: "List.map_filter f xs = List.map_filter id (map f xs)"
  by (induction xs) (simp_all add: List.map_filter_simps split: option.split)

lemma in_range_iff: "in_range st g \<longleftrightarrow> g \<noteq> 0 \<and> g \<le> sg_numOfSG st"
  by (simp add: in_range_def linorder_not_less [of _ 1, symmetric])

text \<open>Well-formedness only depends on the cells being there.\<close>

lemma sg_wf_after:
  assumes "sg_wf st m" "writable_cells m ws" "in_range st a" "e \<le> sg_numOfSG st"
    and "map ss_sg ss = map ss_sg (sg_settings st)" "map ss_se ss = map ss_se (sg_settings st)"
    and "map (length \<circ> ss_groups) ss = map (length \<circ> ss_groups) (sg_settings st)"
  shows "sg_wf (st\<lparr>sg_actSG := a, sg_editSG := e, sg_settings := ss\<rparr>) (put_cells ws m)"
proof -
  have len: "length ss = length (sg_settings st)" using assms(5) by (metis length_map)
  have "setting_ok (sg_numOfSG st) (put_cells ws m) (ss ! i)" if i: "i < length ss" for i
  proof -
    have "setting_ok (sg_numOfSG st) (put_cells ws m) (sg_settings st ! i)"
      using assms(1) i len setting_ok_after(1) [OF assms(2)] by (auto simp: sg_wf_def list_all_length)
    moreover have "ss_sg (ss ! i) = ss_sg (sg_settings st ! i)" "ss_se (ss ! i) = ss_se (sg_settings st ! i)"
      "length (ss_groups (ss ! i)) = length (ss_groups (sg_settings st ! i))"
      using assms(5,6,7) i len by (metis nth_map, metis nth_map, metis comp_apply nth_map)
    ultimately show ?thesis by (simp add: setting_ok_def)
  qed
  moreover have "List.map_filter ss_se ss = List.map_filter ss_se (sg_settings st)"
    using assms(6) map_filter_views [of ss_se ss] map_filter_views [of ss_se "sg_settings st"] by simp
  ultimately show ?thesis using assms sgcb_after [OF assms(2)]
    by (auto simp: sg_wf_def list_all_length in_range_def sgcb_cell_def)
qed

lemma ActSG_refines:
  assumes wf: "sg_wf st m" "sg_served st m" and g: "1 \<le> value_Int64 v" "value_Int64 v \<le> uint (sg_numOfSG st)"
  shows "\<exists>st' m'. onSGCBWrite now st (leaf_put m (sgcb_cell st ''ActSG'') v) ''ActSG'' v = Inr (st', m')
    \<and> abs_sg st' m' = spec_write ''ActSG'' v (abs_sg st m) \<and> sg_wf st' m' \<and> sg_served st' m'"
proof -
  define g where "g = (word_of_int (value_Int64 v) :: 8 word)"
  define f where "f s = ss_groups s ! unat (g - 1)" for s :: sgSetting
  define pre where "pre = [(sgcb_cell st ''ActSG'', v), (sgcb_cell st ''ActSG'', NewUint8 g), (sgcb_cell st ''LActTm'', now)]"
  define ws where "ws = pre @ map (\<lambda>s. (ss_sg s, f s)) (sg_settings st)"
  have r: "in_range st g" "unat g = nat (value_Int64 v)" using checked_group [of v st] g by (auto simp: g_def)
  note wfD = sg_wfD [OF wf(1)] and cbD = sgcb_wfD [OF wf(1)]
  have w: "writable_cells m ws"
    using wfD cbD [of "''ActSG''"] cbD [of "''LActTm''"] by (auto simp: writable_cells_def ws_def pre_def sgcb_names_def)
  have "list_all (\<lambda>s. unat (g - 1) < length (ss_groups s)) (sg_settings st)"
    using wfD(2) in_range_unat [OF r(1)] by (auto simp: list_all_iff)
  then have run: "onSGCBWrite now st (leaf_put m (sgcb_cell st ''ActSG'') v) ''ActSG'' v = Inr (st\<lparr>sg_actSG := g\<rparr>, put_cells ws m)"
    using r(1) by (simp add: onSGCBWrite_def Let_def g_def [symmetric] group_writes_ok ws_def pre_def f_def)
  have live: "cell_value (put_cells ws m) (ss_sg s) = f s" if "s \<in> set (sg_settings st)" for s
  proof -
    have "map_of (rev ws) (ss_sg s) = Some (f s)"
      using that wf(1) unfolding ws_def by (intro map_of_writes) (simp_all add: sg_wf_def)
    then show ?thesis using setting_ok_after(2) [OF w wfD(1) [OF that]] by simp
  qed
  have buf: "cell_value (put_cells ws m) k = cell_value m k" if "s \<in> set (sg_settings st)" "ss_se s = Some k" for s k
  proof -
    have "map_of (rev ws) k = None"
      using wfD(3) wfD(5) [OF that] by (intro map_of_fc_None) (auto simp: ws_def pre_def)
    then show ?thesis using setting_ok_after(3) [OF w wfD(1) [OF that(1)] that(2)] by simp
  qed
  have cb: "cell_value (put_cells ws m) (sgcb_cell st n) = (if n = ''ActSG'' then NewUint8 g else cell_value m (sgcb_cell st n))"
    if "n = ''ActSG'' \<or> n = ''EditSG''" for n
  proof -
    have "map_of (rev (map (\<lambda>s. (ss_sg s, f s)) (sg_settings st))) (sgcb_cell st n) = None"
      using wfD(3) by (intro map_of_fc_None) auto
    then show ?thesis using that leaf_get_value [OF sgcb_after [OF w cbD, of n]]
      by (auto simp: ws_def pre_def map_add_def sgcb_names_def)
  qed
  have "sg_wf (st\<lparr>sg_actSG := g\<rparr>) (put_cells ws m)"
    using sg_wf_after [OF wf(1) w r(1), of "sg_editSG st" "sg_settings st"] wf(1) by (simp add: sg_wf_def)
  moreover have "sg_served (st\<lparr>sg_actSG := g\<rparr>) (put_cells ws m)"
    using wf(2) live cb by (auto simp: sg_served_def list_all_iff f_def sgcb_cell_def)
  moreover have "abs_sg (st\<lparr>sg_actSG := g\<rparr>) (put_cells ws m) = spec_write ''ActSG'' v (abs_sg st m)"
    using live buf r(2) in_range_unat [OF r(1)]
    by (auto simp: abs_sg_def spec_write_def abs_setting_def activate_def f_def Let_def intro!: option.map_cong0)
  ultimately show ?thesis using run by blast
qed

lemma EditSG_refines:
  assumes wf: "sg_wf st m" "sg_served st m" and v: "0 \<le> value_Int64 v" "value_Int64 v \<le> uint (sg_numOfSG st)"
  shows "\<exists>st' m'. onSGCBWrite now st (leaf_put m (sgcb_cell st ''EditSG'') v) ''EditSG'' v = Inr (st', m')
    \<and> abs_sg st' m' = spec_write ''EditSG'' v (abs_sg st m) \<and> sg_wf st' m' \<and> sg_served st' m'"
proof -
  define g where "g = (word_of_int (value_Int64 v) :: 8 word)"
  define f where "f s = ss_groups s ! unat (g - 1)" for s :: sgSetting
  define pre where "pre = [(sgcb_cell st ''EditSG'', v), (sgcb_cell st ''EditSG'', NewUint8 g)]"
  define es where "es = (if g = 0 then [] else filter (\<lambda>s. ss_se s \<noteq> None) (sg_settings st))"
  define ws where "ws = pre @ map (\<lambda>s. (the (ss_se s), f s)) es"
  note c = checked_group [OF v, folded g_def]
  have r: "in_range st g \<longleftrightarrow> g \<noteq> 0" "unat g = nat (value_Int64 v)" "g \<le> sg_numOfSG st"
    using c v(1) by (auto simp: in_range_def) (metis int_one_le_iff_zero_less order_le_less)
  note wfD = sg_wfD [OF wf(1)] and cbD = sgcb_wfD [OF wf(1)]
  have w: "writable_cells m ws"
    using wfD(5,6) cbD [of "''EditSG''"] fc_distinct(2) by (fastforce simp: writable_cells_def ws_def pre_def sgcb_names_def es_def split: if_splits)
  have "g \<noteq> 0 \<Longrightarrow> list_all (\<lambda>s. unat (g - 1) < length (ss_groups s)) (sg_settings st)"
    using wfD(2) in_range_unat [of st g] r(1) by (auto simp: list_all_iff)
  then have run: "onSGCBWrite now st (leaf_put m (sgcb_cell st ''EditSG'') v) ''EditSG'' v = Inr (st\<lparr>sg_editSG := g\<rparr>, put_cells ws m)"
    using r(1) by (cases "g = 0") (simp_all add: onSGCBWrite_def Let_def g_def [symmetric] group_writes_ok ws_def pre_def f_def es_def)
  have es: "snd (the (ss_se s)) = fc_SE" if "s \<in> set es" for s using that wfD(5) by (auto simp: es_def split: if_splits)
  have live: "cell_value (put_cells ws m) (ss_sg s) = cell_value m (ss_sg s)" if "s \<in> set (sg_settings st)" for s
  proof -
    have "map_of (rev ws) (ss_sg s) = None"
      using es wfD(3) [OF that] by (intro map_of_fc_None) (auto simp: ws_def pre_def)
    then show ?thesis using setting_ok_after(2) [OF w wfD(1) [OF that]] by simp
  qed
  have buf: "cell_value (put_cells ws m) k = (if g = 0 then cell_value m k else f s)" if "s \<in> set (sg_settings st)" "ss_se s = Some k" for s k
  proof -
    have "map_of (rev ws) k = (if g = 0 then None else Some (f s))"
    proof (cases "g = 0")
      case True
      then show ?thesis using wfD(5) [OF that] by (auto simp: ws_def pre_def es_def)
    next
      case False
      have "distinct (map (\<lambda>s. the (ss_se s)) es)" using wf(1) False by (simp add: sg_wf_def List.map_filter_def es_def comp_def)
      then show ?thesis using map_of_writes [of "\<lambda>s. the (ss_se s)" es s pre f] that False by (simp add: ws_def es_def)
    qed
    then show ?thesis using setting_ok_after(3) [OF w wfD(1) [OF that(1)] that(2)] by simp
  qed
  have cb: "cell_value (put_cells ws m) (sgcb_cell st n) = (if n = ''EditSG'' then NewUint8 g else cell_value m (sgcb_cell st n))"
    if "n = ''ActSG'' \<or> n = ''EditSG''" for n
  proof -
    have "map_of (rev (map (\<lambda>s. (the (ss_se s), f s)) es)) (sgcb_cell st n) = None"
      using es by (intro map_of_fc_None) auto
    then show ?thesis using that leaf_get_value [OF sgcb_after [OF w cbD, of n]]
      by (auto simp: ws_def pre_def map_add_def sgcb_names_def)
  qed
  have "sg_wf (st\<lparr>sg_editSG := g\<rparr>) (put_cells ws m)"
    using sg_wf_after [OF wf(1) w _ r(3), of "sg_actSG st" "sg_settings st"] wf(1) by (simp add: sg_wf_def)
  moreover have "sg_served (st\<lparr>sg_editSG := g\<rparr>) (put_cells ws m)"
    using wf(2) live cb by (auto simp: sg_served_def list_all_iff sgcb_cell_def)
  moreover have "abs_sg (st\<lparr>sg_editSG := g\<rparr>) (put_cells ws m) = spec_write ''EditSG'' v (abs_sg st m)"
  proof -
    have "abs_setting (put_cells ws m) s = open_edit (unat g) (abs_setting m s)" if "s \<in> set (sg_settings st)" for s
      using live [OF that] buf [OF that] r(1) in_range_unat [of st g]
      by (cases "ss_se s"; cases "g = 0") (simp_all add: abs_setting_def open_edit_def f_def)
    then show ?thesis using r(2) by (simp add: abs_sg_def spec_write_def Let_def)
  qed
  ultimately show ?thesis using run by blast
qed

lemma CnfEdit_refines:
  assumes wf: "sg_wf st m" "sg_served st m" and e: "editing st" and v: "value_Bool v"
  shows "\<exists>st' m'. onSGCBWrite now st m ''CnfEdit'' v = Inr (st', m')
    \<and> abs_sg st' m' = spec_write ''CnfEdit'' v (abs_sg st m) \<and> sg_wf st' m' \<and> sg_served st' m'"
proof -
  define e where "e = sg_editSG st"
  define f where "f s = cell_value m (the (ss_se s))" for s :: sgSetting
  define cs where "cs = (if e = sg_actSG st then filter (\<lambda>s. ss_se s \<noteq> None) (sg_settings st) else [])"
  define post where "post = [(sgcb_cell st ''EditSG'', NewUint8 0), (sgcb_cell st ''CnfEdit'', NewBool False)]"
  define ws where "ws = map (\<lambda>s. (ss_sg s, f s)) cs @ post"
  note wfD = sg_wfD [OF wf(1)] and cbD = sgcb_wfD [OF wf(1)]
  have r: "in_range st e" "in_range st (sg_actSG st)" using assms(3) wf(1) by (simp_all add: editing_def sg_wf_def e_def)
  note u = in_range_unat [OF r(1)] in_range_unat [OF r(2)]
  have w: "writable_cells m ws"
    using wfD(3,4) cbD [of "''EditSG''"] cbD [of "''CnfEdit''"] by (auto simp: writable_cells_def ws_def post_def sgcb_names_def cs_def)
  have "list_all (setting_ok (sg_numOfSG st) m) (sg_settings st)" using wfD(1) by (simp add: list_all_iff)
  from confirm_settings_ok [OF this] have "confirm_settings e (e = sg_actSG st) (sg_settings st) m =
      Inr (map (confirmed e m) (sg_settings st), put_cells (map (\<lambda>s. (ss_sg s, f s)) cs) m)"
    using u by (simp add: confirm_writes_def cs_def f_def)
  then have run: "onSGCBWrite now st m ''CnfEdit'' v =
      Inr (st\<lparr>sg_editSG := 0, sg_settings := map (confirmed e m) (sg_settings st)\<rparr>, put_cells ws m)"
    using assms(3) v by (simp add: onSGCBWrite_def ws_def post_def e_def)
  have live: "cell_value (put_cells ws m) (ss_sg s) = (if e = sg_actSG st \<and> ss_se s \<noteq> None then f s else cell_value m (ss_sg s))"
    if s: "s \<in> set (sg_settings st)" for s
  proof -
    have p: "map_of (rev post) (ss_sg s) = None" using wfD(3) [OF s] by (intro map_of_fc_None) (auto simp: post_def)
    have d: "distinct (map ss_sg (sg_settings st))" using wf(1) by (simp add: sg_wf_def)
    then have "distinct (map ss_sg cs)" by (simp add: cs_def distinct_map_filter)
    then have "map_of (rev (map (\<lambda>s. (ss_sg s, f s)) cs)) (ss_sg s) = Some (f s)" if "s \<in> set cs"
      using map_of_writes [of ss_sg cs s "[]" f] that by simp
    moreover have "map_of (rev (map (\<lambda>s. (ss_sg s, f s)) cs)) (ss_sg s) = None" if "s \<notin> set cs"
    proof -
      have "ss_sg s \<notin> ss_sg ` set cs" using that d s by (auto simp: cs_def distinct_map inj_on_def split: if_splits)
      then show ?thesis by (simp add: map_of_eq_None_iff image_image)
    qed
    ultimately have "map_of (rev ws) (ss_sg s) = (if s \<in> set cs then Some (f s) else None)"
      using p by (simp add: ws_def map_add_def)
    then show ?thesis using setting_ok_after(2) [OF w wfD(1) [OF s]] s by (auto simp: cs_def)
  qed
  have buf: "cell_value (put_cells ws m) k = cell_value m k" if "s \<in> set (sg_settings st)" "ss_se s = Some k" for s k
  proof -
    have "map_of (rev ws) k = None"
      using wfD(3) wfD(5) [OF that] by (intro map_of_fc_None) (auto simp: ws_def post_def cs_def)
    then show ?thesis using setting_ok_after(3) [OF w wfD(1) [OF that(1)] that(2)] by simp
  qed
  have cb: "cell_value (put_cells ws m) (sgcb_cell st n) = (if n = ''EditSG'' then NewUint8 0 else cell_value m (sgcb_cell st n))"
    if "n = ''ActSG'' \<or> n = ''EditSG''" for n
  proof -
    have "map_of (rev (map (\<lambda>s. (ss_sg s, f s)) cs)) (sgcb_cell st n) = None"
      using wfD(3) by (intro map_of_fc_None) (auto simp: cs_def)
    then show ?thesis using that leaf_get_value [OF sgcb_after [OF w cbD, of n]]
      by (auto simp: ws_def post_def map_add_def sgcb_names_def)
  qed
  have conf: "ss_sg (confirmed e m s) = ss_sg s" "ss_se (confirmed e m s) = ss_se s" "length (ss_groups (confirmed e m s)) = length (ss_groups s)" for s
    by (simp_all add: confirmed_def split: option.split)
  have "sg_wf (st\<lparr>sg_editSG := 0, sg_settings := map (confirmed e m) (sg_settings st)\<rparr>) (put_cells ws m)"
    using sg_wf_after [OF wf(1) w r(2), of 0 "map (confirmed e m) (sg_settings st)"] conf by simp
  moreover have "sg_served (st\<lparr>sg_editSG := 0, sg_settings := map (confirmed e m) (sg_settings st)\<rparr>) (put_cells ws m)"
  proof -
    have "cell_value (put_cells ws m) (ss_sg s) = ss_groups (confirmed e m s) ! unat (sg_actSG st - 1)" if "s \<in> set (sg_settings st)" for s
      using live [OF that] that wf(2) wfD(2) [OF that] u
      by (auto simp: sg_served_def list_all_iff confirmed_def f_def nth_list_update word_unat_eq_iff split: option.split)
    then show ?thesis using wf(2) cb by (simp add: sg_served_def list_all_iff conf sgcb_cell_def)
  qed
  moreover have "abs_sg (st\<lparr>sg_editSG := 0, sg_settings := map (confirmed e m) (sg_settings st)\<rparr>) (put_cells ws m)
      = spec_write ''CnfEdit'' v (abs_sg st m)"
  proof -
    have "abs_setting (put_cells ws m) (confirmed e m s) = confirm_edit (unat (sg_actSG st)) (unat e) (abs_setting m s)"
      if "s \<in> set (sg_settings st)" for s
      using live [OF that] buf [OF that] u
      by (cases "ss_se s") (simp_all add: abs_setting_def confirm_edit_def confirmed_def f_def word_unat_eq_iff)
    then show ?thesis using v by (simp add: abs_sg_def spec_write_def Let_def e_def)
  qed
  ultimately show ?thesis using run by blast
qed

text \<open>A cell that is no setting and neither number of the control block can be written freely.\<close>

lemma put_other_cell:
  assumes "sg_wf st m" "sg_served st m" "snd k = fc_SP" "leaf_get m k \<noteq> None"
    and "k \<noteq> sgcb_cell st ''ActSG''" "k \<noteq> sgcb_cell st ''EditSG''"
  shows "sg_wf st (leaf_put m k v)" "sg_served st (leaf_put m k v)" "abs_sg st (leaf_put m k v) = abs_sg st m"
proof -
  let ?ws = "[(k, v)]"
  note wfD = sg_wfD [OF assms(1)]
  have w: "writable_cells m ?ws" using assms(3,4) by (simp add: writable_cells_def)
  show "sg_wf st (leaf_put m k v)"
    using sg_wf_after [OF assms(1) w, of "sg_actSG st" "sg_editSG st" "sg_settings st"] assms(1) by (simp add: sg_wf_def)
  have live: "cell_value (leaf_put m k v) (ss_sg s) = cell_value m (ss_sg s)" if "s \<in> set (sg_settings st)" for s
    using setting_ok_after(2) [OF w wfD(1) [OF that]] wfD(3) [OF that] assms(3) by (auto split: if_splits)
  moreover have "cell_value (leaf_put m k v) k' = cell_value m k'" if "s \<in> set (sg_settings st)" "ss_se s = Some k'" for s k'
    using setting_ok_after(3) [OF w wfD(1) [OF that(1)] that(2)] wfD(5) [OF that] assms(3) by (auto split: if_splits)
  ultimately show "abs_sg st (leaf_put m k v) = abs_sg st m"
    by (auto simp: abs_sg_def abs_setting_def intro!: option.map_cong)
  have "cell_value (leaf_put m k v) (sgcb_cell st n) = cell_value m (sgcb_cell st n)" if "n = ''ActSG'' \<or> n = ''EditSG''" for n
    using leaf_get_value [OF sgcb_after [OF w sgcb_wfD [OF assms(1)], of n]] that assms(5,6) by (auto simp: sgcb_names_def)
  then show "sg_served st (leaf_put m k v)" using assms(2) live by (simp add: sg_served_def list_all_iff)
qed

lemma sg_step:
  assumes "sg_wf st m" "sg_served st m" "sg_checkWrite st attr v = 0xff"
  shows "\<exists>st' m'. onSGCBWrite now st (leaf_put m (sgcb_cell st attr) v) attr v = Inr (st', m')
    \<and> abs_sg st' m' = spec_write attr v (abs_sg st m) \<and> sg_wf st' m' \<and> sg_served st' m'"
proof -
  have ok: "sg_wf st (leaf_put m (sgcb_cell st ''CnfEdit'') v)" "sg_served st (leaf_put m (sgcb_cell st ''CnfEdit'') v)"
      "abs_sg st (leaf_put m (sgcb_cell st ''CnfEdit'') v) = abs_sg st m"
    using put_other_cell [OF assms(1,2), of "sgcb_cell st ''CnfEdit''" v] sgcb_wfD [OF assms(1), of "''CnfEdit''"]
    by (simp_all add: sgcb_names_def)
  consider (act) "attr = ''ActSG''" "1 \<le> value_Int64 v" "value_Int64 v \<le> uint (sg_numOfSG st)"
    | (edit) "attr = ''EditSG''" "0 \<le> value_Int64 v" "value_Int64 v \<le> uint (sg_numOfSG st)"
    | (conf) "attr = ''CnfEdit''" "value_Bool v" "editing st" | (idle) "attr = ''CnfEdit''" "\<not> value_Bool v"
    using assms(3) by (auto simp: sg_checkWrite_def Let_def access_codes editing_def in_range_iff linorder_not_less split: if_splits)
  then show ?thesis
  proof cases
    case act
    then show ?thesis using ActSG_refines [OF assms(1,2)] by simp
  next
    case edit
    then show ?thesis using EditSG_refines [OF assms(1,2)] by simp
  next
    case conf
    then show ?thesis using CnfEdit_refines [OF ok(1,2) conf(3,2)] ok(3) by simp
  next
    case idle
    then show ?thesis using ok by (simp add: onSGCBWrite_def spec_write_def Let_def)
  qed
qed

text \<open>(C12) A write of the control block that its rules admit, stored and carried out, is the step of the abstract
  setting groups: activating a group makes its stored values live, opening one fills the edit
  buffers, confirming stores them and updates the live values only when the edited group is the
  active one. It keeps the control block and the live values in step with the stored groups, and
  never indexes outside the stores.\<close>

theorem sg_write_refines:
  assumes "sg_wf st m" "sg_served st m" "sg_checkWrite st attr v = 0xff"
  shows "\<exists>st' m'. onSGCBWrite now st (leaf_put m (sgcb_cell st attr) v) attr v = Inr (st', m')
    \<and> abs_sg st' m' = spec_write attr v (abs_sg st m) \<and> sg_wf st' m' \<and> sg_served st' m'"
  using assms by (rule sg_step)

section \<open>A whole editing cycle\<close>

lemma confirm_settings_cells:
  "confirm_settings e b ss m = Inr (ss', m') \<Longrightarrow> map ss_sg ss' = map ss_sg ss \<and> map ss_se ss' = map ss_se ss"
  by (induction ss arbitrary: m ss' m') (auto simp: Let_def rbind_eq_Inr split: option.splits if_splits)

lemma onSGCBWrite_cells:
  assumes "onSGCBWrite now st m attr v = Inr (st', m')"
  shows "map ss_sg (sg_settings st') = map ss_sg (sg_settings st)" "map ss_se (sg_settings st') = map ss_se (sg_settings st)"
    "sg_numOfSG st' = sg_numOfSG st" "sg_ld st' = sg_ld st"
  using assms confirm_settings_cells
  by (auto simp: onSGCBWrite_def Let_def rbind_eq_Inr split: if_splits prod.splits)

lemma put_buffer:
  assumes "sg_wf st m" "sg_served st m" "i < length (sg_settings st)" "ss_se (sg_settings st ! i) = Some k"
  shows "sg_wf st (leaf_put m k v)" "sg_served st (leaf_put m k v)"
    "settings (abs_sg st (leaf_put m k v)) ! i = (settings (abs_sg st m) ! i)\<lparr>buffer := Some v\<rparr>"
proof -
  let ?ws = "[(k, v)]" and ?s = "sg_settings st ! i"
  note wfD = sg_wfD [OF assms(1)]
  have s: "?s \<in> set (sg_settings st)" using assms(3) by simp
  have k: "snd k = fc_SE" "leaf_get m k \<noteq> None" using wfD(5,6) [OF s assms(4)] .
  then have w: "writable_cells m ?ws" by (simp add: writable_cells_def)
  show "sg_wf st (leaf_put m k v)"
    using sg_wf_after [OF assms(1) w, of "sg_actSG st" "sg_editSG st" "sg_settings st"] assms(1) by (simp add: sg_wf_def)
  have live: "cell_value (leaf_put m k v) (ss_sg s) = cell_value m (ss_sg s)" if "s \<in> set (sg_settings st)" for s
    using setting_ok_after(2) [OF w wfD(1) [OF that]] wfD(3) [OF that] k(1) by (auto split: if_splits)
  have "cell_value (leaf_put m k v) k = v" using setting_ok_after(3) [OF w wfD(1) [OF s] assms(4)] by simp
  then show "settings (abs_sg st (leaf_put m k v)) ! i = (settings (abs_sg st m) ! i)\<lparr>buffer := Some v\<rparr>"
    using assms(3,4) live [OF s] by (simp add: abs_sg_def abs_setting_def)
  have "cell_value (leaf_put m k v) (sgcb_cell st n) = cell_value m (sgcb_cell st n)" if "n = ''ActSG'' \<or> n = ''EditSG''" for n
    using leaf_get_value [OF sgcb_after [OF w sgcb_wfD [OF assms(1)], of n]] that k(1) by (auto simp: sgcb_names_def split: if_splits)
  then show "sg_served st (leaf_put m k v)" using assms(2) live by (simp add: sg_served_def list_all_iff)
qed

lemma cells_at:
  assumes "map ss_sg ss' = map ss_sg ss" "map ss_se ss' = map ss_se ss" "i < length ss"
  shows "i < length ss' \<and> ss_sg (ss' ! i) = ss_sg (ss ! i) \<and> ss_se (ss' ! i) = ss_se (ss ! i)"
  using assms by (metis length_map nth_map)

lemma live_abs: "i < length (sg_settings st) \<Longrightarrow> live (settings (abs_sg st m) ! i) = cell_value m (ss_sg (sg_settings st ! i))"
  by (simp add: abs_sg_def abs_setting_def)

lemma open_edit_sel [simp]: "live (open_edit g x) = live x" "stored (open_edit g x) = stored x"
  by (simp_all add: open_edit_def)

lemma len_abs: "length (settings (abs_sg st m)) = length (sg_settings st)"
  by (simp add: abs_sg_def)

text \<open>The editing cycle: after a client opens group \<open>g\<close>, writes a setting's edit value and confirms, the
  live value has changed only if \<open>g\<close> is the active group; once \<open>g\<close> is activated the
  setting reads as written.\<close>

theorem setting_edit_cycle:
  assumes wf: "sg_wf st m" "sg_served st m" and g: "sg_checkWrite st ''ActSG'' vg = 0xff" and yes: "value_Bool yes"
    and i: "i < length (sg_settings st)" "ss_se (sg_settings st ! i) = Some k"
  defines "sg \<equiv> ss_sg (sg_settings st ! i)"
  shows "\<exists>st1 m1 st2 m2 st3 m3.
    onSGCBWrite now st (leaf_put m (sgcb_cell st ''EditSG'') vg) ''EditSG'' vg = Inr (st1, m1)
    \<and> onSGCBWrite now st1 (leaf_put (leaf_put m1 k x) (sgcb_cell st1 ''CnfEdit'') yes) ''CnfEdit'' yes = Inr (st2, m2)
    \<and> cell_value m2 sg = (if value_Int64 vg = uint (sg_actSG st) then x else cell_value m sg)
    \<and> onSGCBWrite now st2 (leaf_put m2 (sgcb_cell st2 ''ActSG'') vg) ''ActSG'' vg = Inr (st3, m3)
    \<and> cell_value m3 sg = x"
proof -
  have v: "1 \<le> value_Int64 vg" "value_Int64 vg \<le> uint (sg_numOfSG st)"
    using g by (auto simp: sg_checkWrite_def Let_def access_codes split: if_splits)
  define n where "n = nat (value_Int64 vg)"
  obtain st1 m1 where 1: "onSGCBWrite now st (leaf_put m (sgcb_cell st ''EditSG'') vg) ''EditSG'' vg = Inr (st1, m1)"
      "abs_sg st1 m1 = spec_write ''EditSG'' vg (abs_sg st m)" "sg_wf st1 m1" "sg_served st1 m1"
    using EditSG_refines [OF wf] v by force
  note c1 = onSGCBWrite_cells [OF 1(1)]
  have i1: "i < length (sg_settings st1)" "ss_se (sg_settings st1 ! i) = Some k" "ss_sg (sg_settings st1 ! i) = sg"
    using cells_at [OF c1(1,2) i(1)] i(2) by (simp_all add: sg_def)
  note b = put_buffer [OF 1(3,4) i1(1,2), of x]
  have e: "unat (sg_editSG st1) = n" using 1(2) by (simp add: abs_sg_def spec_write_def Let_def n_def)
  then have "editing st1" using v 1(3) n_def by (auto simp: editing_def in_range_iff sg_wf_def)
  then have "sg_checkWrite st1 ''CnfEdit'' yes = 0xff"
    by (auto simp: sg_checkWrite_def editing_def in_range_iff linorder_not_less)
  then obtain st2 m2 where 2: "onSGCBWrite now st1 (leaf_put (leaf_put m1 k x) (sgcb_cell st1 ''CnfEdit'') yes) ''CnfEdit'' yes = Inr (st2, m2)"
      "abs_sg st2 m2 = spec_write ''CnfEdit'' yes (abs_sg st1 (leaf_put m1 k x))" "sg_wf st2 m2" "sg_served st2 m2"
    using sg_step [OF b(1,2)] by blast
  note c2 = onSGCBWrite_cells [OF 2(1)]
  have i2: "i < length (sg_settings st2)" "ss_sg (sg_settings st2 ! i) = sg" using cells_at [OF c2(1,2) i1(1)] i1(3) by simp_all
  have "sg_checkWrite st2 ''ActSG'' vg = 0xff" using v c1(3) c2(3) by (simp add: sg_checkWrite_def)
  then obtain st3 m3 where 3: "onSGCBWrite now st2 (leaf_put m2 (sgcb_cell st2 ''ActSG'') vg) ''ActSG'' vg = Inr (st3, m3)"
      "abs_sg st3 m3 = spec_write ''ActSG'' vg (abs_sg st2 m2)"
    using sg_step [OF 2(3,4)] by blast
  have i3: "i < length (sg_settings st3)" "ss_sg (sg_settings st3 ! i) = sg"
    using cells_at [OF onSGCBWrite_cells(1,2) [OF 3(1)] i2(1)] i2(2) by simp_all
  define S where "S = settings (abs_sg st m) ! i"
  have "length (stored S) = unat (sg_numOfSG st)"
    using sg_wfD(2) [OF wf(1) nth_mem [OF i(1)]] i(1) by (simp add: S_def abs_sg_def abs_setting_def)
  moreover have "n - 1 < unat (sg_numOfSG st)" unfolding n_def unat_eq_nat_uint using v by linarith
  ultimately have S: "live S = cell_value m sg" "n - 1 < length (stored S)"
    using live_abs [OF i(1)] by (simp_all add: S_def sg_def)
  have act: "active (abs_sg st1 (leaf_put m1 k x)) = unat (sg_actSG st)" "edited (abs_sg st1 (leaf_put m1 k x)) = n"
    using 1(2) e by (simp_all add: abs_sg_def spec_write_def Let_def)
  have "settings (abs_sg st1 m1) = map (open_edit n) (settings (abs_sg st m))" using 1(2) by (simp add: spec_write_def Let_def n_def)
  then have "settings (abs_sg st1 (leaf_put m1 k x)) ! i = (open_edit n S)\<lparr>buffer := Some x\<rparr>"
    using b(3) i(1) by (simp add: S_def len_abs)
  moreover have "settings (abs_sg st2 m2) = map (confirm_edit (unat (sg_actSG st)) n) (settings (abs_sg st1 (leaf_put m1 k x)))"
    unfolding 2(2) spec_write_def Let_def using yes by (simp add: act)
  ultimately have S2: "settings (abs_sg st2 m2) ! i = confirm_edit (unat (sg_actSG st)) n ((open_edit n S)\<lparr>buffer := Some x\<rparr>)"
    using i1(1) by (simp add: len_abs)
  moreover have "n = unat (sg_actSG st) \<longleftrightarrow> value_Int64 vg = uint (sg_actSG st)"
    unfolding n_def unat_eq_nat_uint using v(1) by linarith
  ultimately have "cell_value m2 sg = (if value_Int64 vg = uint (sg_actSG st) then x else cell_value m sg)"
    using live_abs [OF i2(1), of m2] i2(2) S(1) by (simp add: confirm_edit_def split: if_splits)
  moreover have "cell_value m3 sg = x"
  proof -
    have "settings (abs_sg st3 m3) = map (activate n) (settings (abs_sg st2 m2))" using 3(2) by (simp add: spec_write_def Let_def n_def)
    then have "live (settings (abs_sg st3 m3) ! i) = x"
      using S2 S(2) i2(1) by (simp add: len_abs activate_def confirm_edit_def)
    then show ?thesis using live_abs [OF i3(1), of m3] i3(2) by simp
  qed
  ultimately show ?thesis using 1(1) 2(1) 3(1) by blast
qed

section \<open>Construction establishes the invariant\<close>

lemma find_append_found: "find P xs = Some x \<Longrightarrow> find P (xs @ ys) = Some x"
  by (induction xs) auto

lemma find_append_none: "find P xs = None \<Longrightarrow> find P (xs @ ys) = find P ys"
  by (induction xs) (auto split: if_splits)

lemma append_object_finds:
  assumes "find (\<lambda>ld. ld_Name ld = l) (m_Devices m) = Some ld" "find (\<lambda>ln. ln_Name ln = n) (ld_Nodes ld) = Some ln"
  shows "\<exists>ld'. find (\<lambda>ld. ld_Name ld = l) (m_Devices (append_object l' n' obj m)) = Some ld'
    \<and> (\<exists>ln'. find (\<lambda>ln. ln_Name ln = n) (ld_Nodes ld') = Some ln'
        \<and> ln_Objects ln' = ln_Objects ln @ (if l = l' \<and> n = n' then [obj] else []))"
  using assms
  by (cases "l = l'"; cases "n = n'")
     (auto simp: append_object_def find_name_same [where nm = ld_Name] find_name_other [where nm = ld_Name]
        find_name_same [where nm = ln_Name] find_name_other [where nm = ln_Name])

lemma append_object_keeps:
  assumes "leaf_get m k \<noteq> None"
  shows "leaf_get (append_object l n obj m) k = leaf_get m k"
proof -
  obtain a where a: "Attribute m (fst k) (snd k) = Some a" using assms by (auto simp: leaf_get_Some)
  then obtain ld lnName ln doName d rest where
    p: "find (\<lambda>ld. ld_Name ld = ref_LD (fst k)) (m_Devices m) = Some ld" "ref_Path (fst k) = lnName # doName # rest"
    "find (\<lambda>ln. ln_Name ln = lnName) (ld_Nodes ld) = Some ln" "find (\<lambda>do. do_Name do = doName) (ln_Objects ln) = Some d"
    "do_lookup (snd k) d rest = IsAttribute a"
    by (rule Attribute_parts)
  obtain ld' ln' where f: "find (\<lambda>ld. ld_Name ld = ref_LD (fst k)) (m_Devices (append_object l n obj m)) = Some ld'"
      "find (\<lambda>ln. ln_Name ln = lnName) (ld_Nodes ld') = Some ln'" "\<exists>os. ln_Objects ln' = ln_Objects ln @ os"
    using append_object_finds [OF p(1,3), of l n obj] by blast
  then have "find (\<lambda>do. do_Name do = doName) (ln_Objects ln') = Some d" using find_append_found [OF p(4)] by auto
  then have "Attribute (append_object l n obj m) (fst k) (snd k) = Some a" using Attribute_eqI [OF f(1) p(2) f(2) _ p(5)] by simp
  then show ?thesis using a by (simp add: leaf_get_def)
qed

definition sgcb_init :: "string \<Rightarrow> Value \<Rightarrow> Value" where
  "sgcb_init n t = (if n = ''ActSG'' then NewUint8 1 else if n = ''EditSG'' then NewUint8 0 else if n = ''CnfEdit'' then NewBool False else t)"

lemma SGCB_attributes:
  assumes "n \<in> set sgcb_names"
  shows "do_lookup fc_SP (buildSGCB num resv t) [n] =
    IsAttribute (sgcb_attr n (sgcb_init n t))"
  using assms by (auto simp: do_lookup_Cons do_Child_def buildSGCB_def sgcb_attr_def fc_match_def sgcb_names_def sgcb_init_def)

lemma SGCB_cell:
  assumes "find (\<lambda>d. ld_Name d = ld_Name ld) (m_Devices m) = Some ld" "find (\<lambda>n. ln_Name n = ''LLN0'') (ld_Nodes ld) = Some ln"
    and "find (\<lambda>d. do_Name d = ''SGCB'') (ln_Objects ln) = None" "CHR ''/'' \<notin> set (ld_Name ld)" "n \<in> set sgcb_names" "sg_ld st = ld_Name ld"
  shows "leaf_get (append_object (ld_Name ld) ''LLN0'' (buildSGCB num resv t) m) (sgcb_cell st n) =
    Some (sgcb_init n t)"
proof -
  let ?obj = "buildSGCB num resv t"
  let ?r = "ld_Name ld @ CHR ''/'' # (''LLN0.SGCB.'' @ n)"
  have c: "cut (CHR ''/'') ?r = (ld_Name ld, ''LLN0.SGCB.'' @ n, True)" using cut_append [OF assms(4)] .
  have "CHR ''.'' \<notin> set n" using assms(5) by (auto simp: sgcb_names_def)
  then have r: "ref_LD ?r = ld_Name ld" "ref_Path ?r = [''LLN0'', ''SGCB'', n]"
    unfolding ref_LD_def ref_Path_def c by (simp_all add: split_on_none)
  obtain ld' ln' where f: "find (\<lambda>d. ld_Name d = ld_Name ld) (m_Devices (append_object (ld_Name ld) ''LLN0'' ?obj m)) = Some ld'"
      "find (\<lambda>n. ln_Name n = ''LLN0'') (ld_Nodes ld') = Some ln'" "ln_Objects ln' = ln_Objects ln @ [?obj]"
    using append_object_finds [OF assms(1,2), of "ld_Name ld" "''LLN0''" ?obj] by auto
  have "find (\<lambda>d. do_Name d = ''SGCB'') (ln_Objects ln @ [?obj]) = Some ?obj"
    using assms(3) by (simp add: find_append_none buildSGCB_def)
  then have "Attribute (append_object (ld_Name ld) ''LLN0'' ?obj m) ?r fc_SP = Some (sgcb_attr n
      (sgcb_init n t))"
    unfolding f(3) [symmetric] by (rule Attribute_eqI [OF _ r(2) f(2) _ SGCB_attributes [OF assms(5)], unfolded r(1), OF f(1)])
  then show ?thesis using assms(6) by (simp add: leaf_get_def sgcb_cell_def sgcb_attr_def)
qed

text \<open>What the loader guarantees of the device: it is found under its name, its LLN0 has no control block
  yet, and the attributes collected are leaves found under their references.\<close>

definition device_ok :: "IEDModel \<Rightarrow> LogicalDevice \<Rightarrow> 8 word \<Rightarrow> bool" where
  "device_ok m ld numOfSG =
     (find (\<lambda>d. ld_Name d = ld_Name ld) (m_Devices m) = Some ld \<and> CHR ''/'' \<notin> set (ld_Name ld)
      \<and> (case find (\<lambda>n. ln_Name n = ''LLN0'') (ld_Nodes ld) of None \<Rightarrow> False
          | Some ln \<Rightarrow> find (\<lambda>d. do_Name d = ''SGCB'') (ln_Objects ln) = None)
      \<and> (let ss = concat (map (ln_settings m (ld_Name ld) numOfSG) (ld_Nodes ld))
         in distinct (map ss_ref ss)
            \<and> list_all (\<lambda>s. leaf_get m (ss_sg s) \<noteq> None \<and> (case ss_se s of None \<Rightarrow> True | Some k \<Rightarrow> leaf_get m k \<noteq> None)) ss))"

lemma ln_settings_form:
  "s \<in> set (concat (map (ln_settings m l n) lns)) \<Longrightarrow>
     ss_sg s = (ss_ref s, fc_SG) \<and> (ss_se s = None \<or> ss_se s = Some (ss_ref s, fc_SE))
     \<and> ss_groups s = replicate (unat n) (cell_value m (ss_sg s))"
  by (auto simp: ln_settings_def Let_def split: if_splits)

lemma distinct_views:
  assumes "distinct (map ss_ref ss)" "\<forall>s \<in> set ss. ss_sg s = (ss_ref s, fc_SG) \<and> (ss_se s = None \<or> ss_se s = Some (ss_ref s, fc_SE))"
  shows "distinct (map ss_sg ss)" "distinct (List.map_filter ss_se ss)"
proof -
  have "map ss_sg ss = map (\<lambda>r. (r, fc_SG)) (map ss_ref ss)" using assms(2) by simp
  then show "distinct (map ss_sg ss)" using assms(1) by (metis distinct_map inj_onI prod.inject)
  have "List.map_filter ss_se ss = map (\<lambda>r. (r, fc_SE)) (map ss_ref (filter (\<lambda>s. ss_se s \<noteq> None) ss))"
    using assms(2) by (auto simp: List.map_filter_def)
  then show "distinct (List.map_filter ss_se ss)"
    using distinct_map_filter [OF assms(1)] by (metis distinct_map inj_onI prod.inject)
qed

text \<open>A manager built for a device without a declared active group and without configured group values serves
  what it stores: group 1 is active, every live value is the one stored for it, and the control block
  says so.\<close>

theorem newSGManager_served:
  assumes "device_ok m ld (if n = 0 then 1 else n)" "newSGManager m ld n resvTms now declared = Some (st, m')"
  shows "sg_wf st m' \<and> sg_served st m'"
proof -
  define num where "num = (if n = 0 then 1 else n :: 8 word)"
  define ss where "ss = concat (map (ln_settings m (ld_Name ld) num) (ld_Nodes ld))"
  obtain ln where d: "find (\<lambda>d. ld_Name d = ld_Name ld) (m_Devices m) = Some ld" "find (\<lambda>n. ln_Name n = ''LLN0'') (ld_Nodes ld) = Some ln"
      "find (\<lambda>d. do_Name d = ''SGCB'') (ln_Objects ln) = None" "CHR ''/'' \<notin> set (ld_Name ld)" "distinct (map ss_ref ss)"
    and leafs: "\<And>s. s \<in> set ss \<Longrightarrow> leaf_get m (ss_sg s) \<noteq> None \<and> (case ss_se s of None \<Rightarrow> True | Some k \<Rightarrow> leaf_get m k \<noteq> None)"
    using assms(1) by (auto simp: device_ok_def Let_def list_all_iff num_def [symmetric] ss_def [symmetric] split: option.splits)
  have st: "st = \<lparr>sg_ld = ld_Name ld, sg_numOfSG = num, sg_resvTms = resvTms, sg_actSG = 1, sg_editSG = 0, sg_settings = ss\<rparr>"
    and m': "m' = append_object (ld_Name ld) ''LLN0'' (buildSGCB num resvTms now) m"
    using assms(2) by (auto simp: newSGManager_def Let_def num_def [symmetric] ss_def [symmetric] split: if_splits)
  have fields: "sg_numOfSG st = num" "sg_actSG st = 1" "sg_editSG st = 0" "sg_settings st = ss" by (simp_all add: st)
  have form: "\<forall>s \<in> set ss. ss_sg s = (ss_ref s, fc_SG) \<and> (ss_se s = None \<or> ss_se s = Some (ss_ref s, fc_SE))
      \<and> ss_groups s = replicate (unat num) (cell_value m (ss_sg s))"
    using ln_settings_form unfolding ss_def by blast
  have cell: "leaf_get m' (sgcb_cell st x) = Some (sgcb_init x now)" if "x \<in> set sgcb_names" for x
    unfolding m' using SGCB_cell [OF d(1-4) that, of st] st by simp
  have keep: "leaf_get m k \<noteq> None \<Longrightarrow> leaf_get m' k = leaf_get m k" for k unfolding m' by (rule append_object_keeps)
  have "num \<noteq> 0" by (simp add: num_def)
  then have num: "1 \<le> num" by (simp add: linorder_not_less [of _ 1, symmetric])
  then have "0 < unat num" by (simp add: word_le_nat_alt)
  have "setting_ok num m' s" if "s \<in> set ss" for s
    using form leafs [OF that] keep that by (cases "ss_se s") (auto simp: setting_ok_def)
  then have "list_all (setting_ok num m') ss" by (simp add: list_all_iff)
  then have "sg_wf st m'"
    using num distinct_views [OF d(5)] form cell
    by (simp add: sg_wf_def fields in_range_def list_all_iff)
  moreover have "cell_value m' (ss_sg s) = ss_groups s ! 0" if "s \<in> set ss" for s
  proof -
    have "cell_value m' (ss_sg s) = cell_value m (ss_sg s)"
      using keep leafs [OF that] by (metis leaf_get_cell leaf_get_value)
    then show ?thesis using form that \<open>0 < unat num\<close> by simp
  qed
  moreover have "cell_value m' (sgcb_cell st ''ActSG'') = NewUint8 1" "cell_value m' (sgcb_cell st ''EditSG'') = NewUint8 0"
    using cell [of "''ActSG''"] cell [of "''EditSG''"] by (simp_all add: sgcb_names_def leaf_get_value sgcb_init_def)
  ultimately show ?thesis by (simp add: sg_served_def fields list_all_iff)
qed

section \<open>Examples\<close>

definition ex_setting :: "FC \<Rightarrow> DataAttribute" where
  "ex_setting fc = DataAttribute ''setVal'' fc [] TypeInteger [] 0 [] (NewInt64 7) 0"

definition ex_device :: "SettingControl option \<Rightarrow> LogicalDevice" where
  "ex_device sc = \<lparr>ld_Name = ''LD'', ld_Inst = [], ld_Nodes =
     [\<lparr>ln_Name = ''LLN0'', ln_Class = [], ln_Objects = [], ln_DataSets = [], ln_ReportControls = [],
     ln_GSEControls = [], ln_SVControls = [], ln_LogControls = [], ln_SettingControl = sc, ln_Logs = []\<rparr>,
      \<lparr>ln_Name = ''PTOC1'', ln_Class = [], ln_Objects =
         [DataObject ''StrVal'' ''ING'' [] [ex_setting fc_SG, ex_setting fc_SE]], ln_DataSets = [], ln_ReportControls = [],
     ln_GSEControls = [], ln_SVControls = [], ln_LogControls = [], ln_SettingControl = None, ln_Logs = []\<rparr>]\<rparr>"

definition ex_sg_model :: "SettingControl option \<Rightarrow> SettingGroup list \<Rightarrow> IEDModel" where
  "ex_sg_model sc groups = \<lparr>m_Name = [], m_Devices = [ex_device sc], m_SettingGroups = groups\<rparr>"

definition ex_built :: "sgManager \<times> IEDModel" where
  "ex_built = the (newSGManager (ex_sg_model None []) (ex_device None) 2 0 NilValue False)"

theorem newSGManager_served_witness:
  "device_ok (ex_sg_model None []) (ex_device None) 2 \<and> sg_wf (fst ex_built) (snd ex_built) \<and> sg_served (fst ex_built) (snd ex_built)"
proof -
  have d: "device_ok (ex_sg_model None []) (ex_device None) (if (2 :: 8 word) = 0 then 1 else 2)" by code_simp
  have "newSGManager (ex_sg_model None []) (ex_device None) 2 0 NilValue False \<noteq> None" by code_simp
  then have "newSGManager (ex_sg_model None []) (ex_device None) 2 0 NilValue False = Some (fst ex_built, snd ex_built)"
    by (auto simp: ex_built_def)
  from newSGManager_served [OF d this] show ?thesis using d by simp
qed

lemma ex_built_ok: "sg_wf (fst ex_built) (snd ex_built)" "sg_served (fst ex_built) (snd ex_built)"
  by code_simp+

theorem sg_write_refines_witness:
  "\<exists>st' m'. onSGCBWrite NilValue (fst ex_built) (leaf_put (snd ex_built) (sgcb_cell (fst ex_built) ''ActSG'') (NewUint8 2)) ''ActSG'' (NewUint8 2)
      = Inr (st', m') \<and> active (abs_sg st' m') = 2 \<and> sg_served st' m'"
proof -
  have c: "sg_checkWrite (fst ex_built) ''ActSG'' (NewUint8 2) = 0xff" "value_Int64 (NewUint8 2) = 2" by code_simp+
  from sg_write_refines [OF ex_built_ok c(1), of NilValue] show ?thesis by (auto simp: spec_write_def Let_def c(2))
qed

theorem setting_edit_cycle_witness:
  "\<exists>st1 m1 st2 m2 st3 m3.
     onSGCBWrite NilValue (fst ex_built) (leaf_put (snd ex_built) (sgcb_cell (fst ex_built) ''EditSG'') (NewUint8 2)) ''EditSG'' (NewUint8 2)
       = Inr (st1, m1)
     \<and> onSGCBWrite NilValue st1 (leaf_put (leaf_put m1 (''LD/PTOC1.StrVal.setVal'', fc_SE) (NewInt64 9)) (sgcb_cell st1 ''CnfEdit'') (NewBool True))
       ''CnfEdit'' (NewBool True) = Inr (st2, m2)
     \<and> cell_value m2 (''LD/PTOC1.StrVal.setVal'', fc_SG) = NewInt64 7
     \<and> onSGCBWrite NilValue st2 (leaf_put m2 (sgcb_cell st2 ''ActSG'') (NewUint8 2)) ''ActSG'' (NewUint8 2) = Inr (st3, m3)
     \<and> cell_value m3 (''LD/PTOC1.StrVal.setVal'', fc_SG) = NewInt64 9"
proof -
  have c: "sg_checkWrite (fst ex_built) ''ActSG'' (NewUint8 2) = 0xff" "value_Bool (NewBool True)"
    "0 < length (sg_settings (fst ex_built))" "ss_se (sg_settings (fst ex_built) ! 0) = Some (''LD/PTOC1.StrVal.setVal'', fc_SE)"
    by code_simp+
  have e: "ss_sg (sg_settings (fst ex_built) ! 0) = (''LD/PTOC1.StrVal.setVal'', fc_SG)"
    "(value_Int64 (NewUint8 2) = uint (sg_actSG (fst ex_built))) = False"
    "cell_value (snd ex_built) (''LD/PTOC1.StrVal.setVal'', fc_SG) = NewInt64 7"
    by code_simp+
  show ?thesis using setting_edit_cycle [OF ex_built_ok c, of NilValue "NewInt64 9"] unfolding e if_False .
qed

text \<open>Where the configuration declares an active group or group values the construction does not serve them: the
  control block still says group 1, and the live value is neither the declared group's nor, for
  group 1, the configured one.\<close>

definition ex_declared :: "sgManager option \<times> IEDModel" where
  "ex_declared =
     (let sc = Some \<lparr>sc_NumOfSGs = 2, sc_ActSG = 2, sc_ResvTms = 0\<rparr>;
          groups = [\<lparr>grp_Number = 1, grp_LD = ''LD'', grp_Values = [(''LD/PTOC1.StrVal.setVal'', NewInt64 1)]\<rparr>,
                    \<lparr>grp_Number = 2, grp_LD = ''LD'', grp_Values = [(''LD/PTOC1.StrVal.setVal'', NewInt64 2)]\<rparr>]
      in device_manager 0 NilValue (ex_device sc) (ex_sg_model sc groups))"

theorem declared_groups_not_served:
  "map_option sg_actSG (fst ex_declared) = Some 2
   \<and> cell_value (snd ex_declared) (''LD/LLN0.SGCB.ActSG'', fc_SP) = NewUint8 1
   \<and> map_option (\<lambda>st. map ss_groups (sg_settings st)) (fst ex_declared) = Some [[NewInt64 1, NewInt64 2]]
   \<and> cell_value (snd ex_declared) (''LD/PTOC1.StrVal.setVal'', fc_SG) = NewInt64 7"
  by code_simp

end
