(* ===== verification/SrvFits.thy ===== *)
theory SrvFits
  imports SrvSg
begin

text \<open>
  Which values may replace an attribute's (\<^verbatim>\<open>valueFits\<close> and \<^verbatim>\<open>intRange\<close> of
  \<^verbatim>\<open>server/handler.go\<close>), the check every write of the process image goes through.
\<close>

definition intRange :: "string \<Rightarrow> (int \<times> int) option" where
  "intRange bType =
     (if bType = ''INT8'' then Some (- (2 ^ 7), 2 ^ 7 - 1)
      else if bType = ''INT16'' then Some (- (2 ^ 15), 2 ^ 15 - 1)
      else if bType = ''INT32'' then Some (- (2 ^ 31), 2 ^ 31 - 1)
      else if bType = ''INT8U'' then Some (0, 2 ^ 8 - 1)
      else if bType = ''INT16U'' then Some (0, 2 ^ 16 - 1)
      else if bType = ''INT32U'' then Some (0, 2 ^ 32 - 1)
      else None)"

definition valueFits :: "DataAttribute \<Rightarrow> Value \<Rightarrow> bool" where
  "valueFits da v =
     (if v = NilValue then False
      else
        let want = (if da_Value da \<noteq> NilValue then value_Type (da_Value da) else da_Kind da) in
        if want = TypeNone then True
        else if value_Type v \<noteq> want then False
        else if want = TypeBitString then da_Value da = NilValue \<or> value_BitLen v = value_BitLen (da_Value da)
        else if want = TypeInteger then
          (case intRange (da_BType da) of None \<Rightarrow> True | Some (lo, hi) \<Rightarrow> lo \<le> value_Int64 v \<and> value_Int64 v \<le> hi)
        else if want = TypeUnsigned then
          (case intRange (da_BType da) of None \<Rightarrow> True | Some (lo, hi) \<Rightarrow> value_Uint64 v \<le> nat hi)
        else True)"

text \<open>The described type of a leaf is that of its value.\<close>

lemma daTypeSpec_leaf:
  assumes "da_Children a = []"
  shows "daTypeSpec a = (let ts = valueTypeSpec (da_Value a) in
     case map_of integerWidth (da_BType a) of
       Some bits \<Rightarrow> if ts_Kind ts = TypeInteger \<or> ts_Kind ts = TypeUnsigned then with_size bits ts else ts
     | None \<Rightarrow> ts)"
  using assms by (cases a) (simp add: Let_def)

lemma fits_scalar:
  assumes "valueFits da v" "da_Value da \<noteq> NilValue" "is_scalar (value_Type (da_Value da))" "value_Type (da_Value da) \<noteq> TypeNone"
  shows "v \<noteq> NilValue \<and> value_Type v = value_Type (da_Value da)
    \<and> (value_Type v = TypeBitString \<longrightarrow> value_BitLen v = value_BitLen (da_Value da))"
  using assms by (auto simp: valueFits_def Let_def split: if_splits)

lemma valueTypeSpec_scalar:
  assumes "v \<noteq> NilValue" "w \<noteq> NilValue" "is_scalar (value_Type w)" "value_Type v = value_Type w"
    and "value_Type v = TypeBitString \<longrightarrow> value_BitLen v = value_BitLen w"
  shows "valueTypeSpec v = valueTypeSpec w"
  using assms by (cases v; cases w) (auto simp: is_scalar_def split: Type.splits)

text \<open>A value that fits never changes how a scalar attribute is described, and for a sized integer it lies in
  the range of the basic type: what a client learnt of the attribute stays true after every write.\<close>

theorem fitting_write_keeps_type:
  assumes "valueFits da v" "da_Children da = []" "da_Value da \<noteq> NilValue" "is_scalar (value_Type (da_Value da))"
    and "value_Type (da_Value da) \<noteq> TypeNone"
  shows "daTypeSpec (da_set v da) = daTypeSpec da \<and> da_ok (da_set v da)
    \<and> (value_Type v = TypeInteger \<longrightarrow> (\<forall>lo hi. intRange (da_BType da) = Some (lo, hi) \<longrightarrow> lo \<le> value_Int64 v \<and> value_Int64 v \<le> hi))"
proof -
  note f = fits_scalar [OF assms(1,3,4,5)]
  have "valueTypeSpec v = valueTypeSpec (da_Value da)" using f assms(3,4) by (intro valueTypeSpec_scalar) auto
  then have "daTypeSpec (da_set v da) = daTypeSpec da" using assms(2) by (simp add: daTypeSpec_leaf)
  moreover have "da_ok (da_set v da)"
    using f assms(2,4) by (cases v; cases da) (auto simp: da_set_def)
  moreover have "\<forall>lo hi. intRange (da_BType da) = Some (lo, hi) \<longrightarrow> lo \<le> value_Int64 v \<and> value_Int64 v \<le> hi" if "value_Type v = TypeInteger"
    using assms(1,3) f that by (auto simp: valueFits_def Let_def split: if_splits)
  ultimately show ?thesis by blast
qed

theorem fitting_write_keeps_type_witness:
  "let da = DataAttribute ''stVal'' fc_ST [] TypeInteger ''INT8'' 0 [] (NewInt64 7) 0
   in valueFits da (NewInt64 100) \<and> daTypeSpec (da_set (NewInt64 100) da) = scalar TypeInteger 8 \<and> \<not> valueFits da (NewInt64 128)"
proof -
  let ?da = "DataAttribute ''stVal'' fc_ST [] TypeInteger ''INT8'' 0 [] (NewInt64 7) 0"
  have h: "valueFits ?da (NewInt64 100)" "da_Children ?da = []" "da_Value ?da \<noteq> NilValue" "is_scalar (value_Type (da_Value ?da))"
    "value_Type (da_Value ?da) \<noteq> TypeNone" by code_simp+
  have "daTypeSpec ?da = scalar TypeInteger 8" "\<not> valueFits ?da (NewInt64 128)" by code_simp+
  then show ?thesis using fitting_write_keeps_type [OF h] h(1) by (simp add: Let_def)
qed

text \<open>An array is compared by its kind only, so a write may change the number and the type of its elements, after
  which the value no longer matches the description.\<close>

theorem array_write_breaks_type:
  "let da = DataAttribute ''a'' fc_SP [] TypeArray [] 0 [] (NewArray [NewInt64 1, NewInt64 2]) 0;
       v = NewArray [NewInt64 1, NewBool True, NewInt64 3]
   in da_ok da \<and> valueFits da v \<and> daTypeSpec (da_set v da) \<noteq> daTypeSpec da
      \<and> daValue (da_set v da) = Inr v \<and> \<not> value_matches v (daTypeSpec (da_set v da))"
  by code_simp

end
