(* ===== verification/SrvTrack.thy ===== *)
theory SrvTrack
  imports SrvFits
begin

text \<open>
  Service tracking (\<^verbatim>\<open>server/tracking.go\<close>): the objects of a node LTRK that record which service a client
  ran on which object and how it ended. The model lock is held throughout, so tracking is a function
  on the state of a transaction, the model and its change set. The main lemma is a frame: tracking
  writes nothing but the tracking object.
\<close>

section \<open>Service types and errors\<close>

type_synonym ServiceType = "32 word"
type_synonym ServiceError = "32 word"
type_synonym AddCause = "8 word"

definition ServiceSelectActiveSG :: ServiceType where "ServiceSelectActiveSG = 16"
definition ServiceSelectEditSG :: ServiceType where "ServiceSelectEditSG = 17"
definition ServiceConfirmEditSGValues :: ServiceType where "ServiceConfirmEditSGValues = 19"
definition ServiceSetBRCBValues :: ServiceType where "ServiceSetBRCBValues = 24"
definition ServiceSetURCBValues :: ServiceType where "ServiceSetURCBValues = 26"
definition ServiceSetLCBValues :: ServiceType where "ServiceSetLCBValues = 28"
definition ServiceSetGoCBValues :: ServiceType where "ServiceSetGoCBValues = 34"
definition ServiceSetMSVCBValues :: ServiceType where "ServiceSetMSVCBValues = 39"
definition ServiceSetUSVCBValues :: ServiceType where "ServiceSetUSVCBValues = 42"
definition ServiceSelect :: ServiceType where "ServiceSelect = 43"
definition ServiceSelectWithValue :: ServiceType where "ServiceSelectWithValue = 44"
definition ServiceCancel :: ServiceType where "ServiceCancel = 45"
definition ServiceOperate :: ServiceType where "ServiceOperate = 46"
definition ServiceCommandTermination :: ServiceType where "ServiceCommandTermination = 47"

definition ServiceErrorNone :: ServiceError where "ServiceErrorNone = 0"
definition ServiceErrorInstanceNotAvailable :: ServiceError where "ServiceErrorInstanceNotAvailable = 1"
definition ServiceErrorInstanceInUse :: ServiceError where "ServiceErrorInstanceInUse = 2"
definition ServiceErrorAccessViolation :: ServiceError where "ServiceErrorAccessViolation = 3"
definition ServiceErrorParameterValueInappropriate :: ServiceError where "ServiceErrorParameterValueInappropriate = 5"
definition ServiceErrorParameterValueInconsistent :: ServiceError where "ServiceErrorParameterValueInconsistent = 6"
definition ServiceErrorInstanceLockedByOtherClient :: ServiceError where "ServiceErrorInstanceLockedByOtherClient = 8"
definition ServiceErrorFailedDueToServerConstraint :: ServiceError where "ServiceErrorFailedDueToServerConstraint = 12"

definition AddCauseUnknown :: AddCause where "AddCauseUnknown = 0"
definition AddCauseNone :: AddCause where "AddCauseNone = 255"

definition serviceErrorOf :: "byte \<Rightarrow> ServiceError" where
  "serviceErrorOf code =
     (if code = 0xff then ServiceErrorNone
      else if code = AccessTemporarilyUnavailable then ServiceErrorInstanceLockedByOtherClient
      else if code = AccessObjectAccessDenied then ServiceErrorAccessViolation
      else if code = AccessObjectValueInvalid then ServiceErrorParameterValueInappropriate
      else if code = AccessTypeInconsistent \<or> code = AccessObjectAttributeInconsistent then ServiceErrorParameterValueInconsistent
      else if code = AccessObjectNonExistent then ServiceErrorInstanceNotAvailable
      else ServiceErrorFailedDueToServerConstraint)"

section \<open>The tracking objects\<close>

definition trackingKinds :: "string list" where
  "trackingKinds = [''SpcTrk'', ''DpcTrk'', ''IncTrk'', ''EncTrk'', ''ApcFTrk'', ''ApcIntTrk'', ''BscTrk'', ''IscTrk'', ''BacTrk'',
     ''BrcbTrk'', ''UrcbTrk'', ''LocbTrk'', ''GocbTrk'', ''MsvcbTrk'', ''UsvcbTrk'', ''SgcbTrk'']"

definition commonTracking :: "string list" where
  "commonTracking = [''objRef'', ''serviceType'', ''errorCode'', ''originatorID'', ''t'', ''certIssuer'', ''d'']"

definition trim_digits :: "string \<Rightarrow> string" where
  "trim_digits s = rev (dropWhile (\<lambda>c. c \<in> set ''0123456789'') (rev s))"

definition has_prefix :: "string \<Rightarrow> string \<Rightarrow> bool" where
  "has_prefix s p = (take (length p) s = p)"

text \<open>A tracking object is its reference; \<^verbatim>\<open>do\<close> is the object found there.\<close>

record trkObj =
  trk_ref :: ObjectReference

record tracker =
  byLD :: "string \<times> string \<rightharpoonup> trkObj"
  trk_first :: "string \<rightharpoonup> trkObj"

definition add_tracked :: "string \<Rightarrow> string \<Rightarrow> DataObject \<Rightarrow> tracker \<Rightarrow> tracker" where
  "add_tracked ld ln do t =
     (let kind = trim_digits (do_Name do) in
      if kind \<notin> set trackingKinds then t
      else
        let o' = \<lparr>trk_ref = ld @ CHR ''/'' # ln @ CHR ''.'' # do_Name do\<rparr>;
            t = (if byLD t (ld, kind) = None then t\<lparr>byLD := (byLD t)((ld, kind) \<mapsto> o')\<rparr> else t)
        in if trk_first t kind = None then t\<lparr>trk_first := (trk_first t)(kind \<mapsto> o')\<rparr> else t)"

definition buildTracker :: "IEDModel \<Rightarrow> tracker" where
  "buildTracker m =
     fold (\<lambda>ld t. fold (\<lambda>ln t.
         if ln_Class ln \<noteq> ''LTRK'' \<and> \<not> (ln_Class ln = [] \<and> has_prefix (ln_Name ln) ''LTRK'') then t
         else fold (add_tracked (ld_Name ld) (ln_Name ln)) (ln_Objects ln) t) (ld_Nodes ld) t)
       (m_Devices m) \<lparr>byLD = Map.empty, trk_first = Map.empty\<rparr>"

definition trk_lookup :: "tracker \<Rightarrow> string \<Rightarrow> string \<Rightarrow> trkObj option" where
  "trk_lookup t ld kind = (case byLD t (ld, kind) of Some o' \<Rightarrow> Some o' | None \<Rightarrow> trk_first t kind)"

section \<open>Records\<close>

record ctlTrack =
  ct_ctlVal :: Value
  ct_oper :: Value
  ct_orCat :: int
  ct_orIdent :: "byte list"
  ct_ctlNum :: "8 word"
  ct_cause :: AddCause

record trackRecord =
  tr_ld :: string
  tr_kind :: string
  tr_objRef :: string
  tr_svc :: ServiceType
  tr_err :: ServiceError
  tr_src :: "DataObject option"
  tr_ctl :: "ctlTrack option"
  tr_requested :: "DataAttribute option"

section \<open>Writing a record\<close>

definition EqualFold :: "string \<Rightarrow> string \<Rightarrow> bool" where
  "EqualFold s t = (ToUpper s = ToUpper t)"

definition attributeFold :: "DataAttribute list \<Rightarrow> string \<Rightarrow> DataAttribute option" where
  "attributeFold attrs name = find (\<lambda>a. EqualFold (da_Name a) name) attrs"

text \<open>\<open>cell\<close> addresses the attribute, by its names and the constraint at the top of its path; \<open>ref\<close> is
  the reference the change is noted under.\<close>

definition setTracked :: "ObjectReference \<Rightarrow> cell \<Rightarrow> Value \<Rightarrow> Tx \<Rightarrow> Tx" where
  "setTracked ref cell v tx =
     (case Attribute (tx_m tx) (fst cell) (snd cell) of
        None \<Rightarrow> tx
      | Some da \<Rightarrow>
          if v = NilValue \<or> da_Children da \<noteq> [] \<or> \<not> valueFits da v then tx
          else tx\<lparr>tx_m := Attribute_set (tx_m tx) (fst cell) (snd cell) (value_Clone v),
                  tx_changed := cs_record (tx_changed tx) ref da (da_Value da) v\<rparr>)"

text \<open>What tracking takes from the server: the objects it found, the clock, and the text of a value that is no
  string, of which nothing is assumed.\<close>

record tracking =
  tk_tracker :: tracker
  tk_now :: Value
  tk_String :: "Value \<Rightarrow> byte list"

definition value_Text :: "tracking \<Rightarrow> Value \<Rightarrow> byte list" where
  "value_Text e v =
     (if v = NilValue then []
      else if value_Type v = TypeVisibleString \<or> value_Type v = TypeMMSString \<or> value_Type v = TypeGeneralizedTime then value_Bytes v
      else tk_String e v)"

fun copyTracked :: "tracking \<Rightarrow> cell \<Rightarrow> DataAttribute \<Rightarrow> DataAttribute \<Rightarrow> Tx \<Rightarrow> Tx" where
  "copyTracked e cell (DataAttribute name f fn kind bt cnt children v trg) src tx =
     (if children \<noteq> [] then
        fold (\<lambda>c tx. case attributeFold (da_Children src) (da_Name c) of
                None \<Rightarrow> tx | Some sc \<Rightarrow> copyTracked e (ref_Child (fst cell) (da_Name c), snd cell) c sc tx) children tx
      else
        let x = da_Value src;
            x = (if x \<noteq> NilValue \<and> (EqualFold name ''datSet'' \<or> EqualFold name ''logRef'')
                 then NewVisibleString (map (\<lambda>b. if b = 0x24 then 0x2E else b) (value_Text e x)) else x)
        in setTracked (fst cell) cell x tx)"

definition trk_object :: "IEDModel \<Rightarrow> trkObj \<Rightarrow> DataObject option" where
  "trk_object m o' = (case Lookup m (trk_ref o') fc_ALL of IsObject do \<Rightarrow> Some do | _ \<Rightarrow> None)"

definition set_named :: "trkObj \<Rightarrow> string \<Rightarrow> Value \<Rightarrow> Tx \<Rightarrow> Tx" where
  "set_named o' name v tx =
     (case trk_object (tx_m tx) o' of
        None \<Rightarrow> tx
      | Some do \<Rightarrow> (case do_Attribute do name of None \<Rightarrow> tx | Some da \<Rightarrow>
          setTracked (ref_Child (trk_ref o') name) (ref_Child (trk_ref o') name, da_FC da) v tx))"

definition copy_source :: "tracking \<Rightarrow> trkObj \<Rightarrow> DataObject \<Rightarrow> DataObject \<Rightarrow> Tx \<Rightarrow> Tx" where
  "copy_source e o' do src tx =
     fold (\<lambda>da tx. if da_Name da \<in> set commonTracking then tx
        else (case attributeFold (do_Attributes src) (da_Name da) of
                None \<Rightarrow> tx | Some s \<Rightarrow> copyTracked e (ref_Child (trk_ref o') (da_Name da), da_FC da) da s tx))
       (do_Attributes do) tx"

definition copy_requested :: "tracking \<Rightarrow> trkObj \<Rightarrow> DataObject \<Rightarrow> DataAttribute \<Rightarrow> Tx \<Rightarrow> Tx" where
  "copy_requested e o' do r tx =
     (case attributeFold (do_Attributes do) (da_Name r) of
        Some da \<Rightarrow> if da_Name da \<notin> set commonTracking then copyTracked e (ref_Child (trk_ref o') (da_Name da), da_FC da) da r tx else tx
      | None \<Rightarrow> tx)"

definition set_origin :: "trkObj \<Rightarrow> DataObject \<Rightarrow> ctlTrack \<Rightarrow> Tx \<Rightarrow> Tx" where
  "set_origin o' do c tx =
     (case do_Attribute do ''origin'' of
        None \<Rightarrow> tx
      | Some origin \<Rightarrow>
          let ref = ref_Child (trk_ref o') ''origin'';
              tx = (case attributeFold (da_Children origin) ''orCat'' of None \<Rightarrow> tx
                    | Some da \<Rightarrow> setTracked (ref_Child ref ''orCat'') (ref_Child ref (da_Name da), da_FC origin) (NewInt8 (word_of_int (ct_orCat c))) tx)
          in (case attributeFold (da_Children origin) ''orIdent'' of None \<Rightarrow> tx
                    | Some da \<Rightarrow> setTracked (ref_Child ref ''orIdent'') (ref_Child ref (da_Name da), da_FC origin) (NewOctetString (ct_orIdent c)) tx))"

definition set_control :: "trkObj \<Rightarrow> DataObject \<Rightarrow> ctlTrack \<Rightarrow> Tx \<Rightarrow> Tx" where
  "set_control o' do c tx =
     (let tx = set_named o' ''ctlVal'' (ct_ctlVal c) tx;
          tx = set_origin o' do c tx;
          tx = set_named o' ''ctlNum'' (NewUint8 (ct_ctlNum c)) tx;
          tx = (if ct_oper c \<noteq> NilValue \<and> value_Type (ct_oper c) = TypeStructure then
                  let tx = set_named o' ''T'' (value_Index (ct_oper c) 3) tx;
                      tx = set_named o' ''Test'' (value_Index (ct_oper c) 4) tx
                  in if value_Len (ct_oper c) > 5 then set_named o' ''Check'' (value_Index (ct_oper c) 5) tx else tx
                else tx);
          cause = (if ct_cause c = AddCauseNone then AddCauseUnknown else ct_cause c)
      in set_named o' ''respAddCause'' (NewInt8 cause) tx)"

definition srv_track :: "tracking \<Rightarrow> trackRecord \<Rightarrow> Tx \<Rightarrow> Tx" where
  "srv_track e rec tx =
     (case trk_lookup (tk_tracker e) (tr_ld rec) (tr_kind rec) of
        None \<Rightarrow> tx
      | Some o' \<Rightarrow>
         (case trk_object (tx_m tx) o' of
            None \<Rightarrow> tx
          | Some do \<Rightarrow>
              let tx = (case tr_src rec of None \<Rightarrow> tx | Some src \<Rightarrow> copy_source e o' do src tx);
                  tx = (case tr_requested rec of None \<Rightarrow> tx | Some r \<Rightarrow> copy_requested e o' do r tx);
                  tx = (case tr_ctl rec of None \<Rightarrow> tx | Some c \<Rightarrow> set_control o' do c tx);
                  tx = set_named o' ''serviceType'' (NewInt32 (tr_svc rec)) tx;
                  tx = set_named o' ''errorCode'' (NewInt32 (tr_err rec)) tx;
                  tx = set_named o' ''t'' (tk_now e) tx
              in set_named o' ''objRef'' (NewVisibleString (octets_of (tr_objRef rec))) tx))"

section \<open>What is tracked\<close>

definition isFloat :: "Value \<Rightarrow> bool" where
  "isFloat v = (v \<noteq> NilValue \<and> (value_Type v = TypeFloat32 \<or> value_Type v = TypeFloat64))"

definition controlTrackingKind :: "IEDModel \<Rightarrow> ObjectReference \<Rightarrow> Value \<Rightarrow> string" where
  "controlTrackingKind m ref ctlVal =
     (let cdc = (case Lookup m ref fc_CO of IsObject do \<Rightarrow> do_CDC do | _ \<Rightarrow> []) in
      if cdc = ''SPC'' then ''SpcTrk'' else if cdc = ''DPC'' then ''DpcTrk'' else if cdc = ''INC'' then ''IncTrk''
      else if cdc = ''ENC'' then ''EncTrk'' else if cdc = ''BSC'' then ''BscTrk'' else if cdc = ''ISC'' then ''IscTrk''
      else if cdc = ''BAC'' then ''BacTrk''
      else if cdc = ''APC'' then
        (if ctlVal \<noteq> NilValue \<and> value_Type ctlVal = TypeStructure \<and> value_Len ctlVal > 0 \<and> \<not> isFloat (value_Index ctlVal 0)
         then ''ApcIntTrk'' else ''ApcFTrk'')
      else [])"

definition cbObject :: "LogicalNode \<Rightarrow> string \<Rightarrow> string \<Rightarrow> DataObject option" where
  "cbObject ln fc name =
     find (\<lambda>do. do_Name do = name \<and> do_Attributes do \<noteq> [] \<and> FC_String (da_FC (hd (do_Attributes do))) = fc) (ln_Objects ln)"

text \<open>The kind of tracking object and the service of a control block write.\<close>

definition cb_service :: "string list \<Rightarrow> (string \<times> ServiceType) option" where
  "cb_service parts =
     (case parts of
        ln # fc # cb # rest \<Rightarrow>
          if fc = ''BR'' then Some (''BrcbTrk'', ServiceSetBRCBValues)
          else if fc = ''RP'' then Some (''UrcbTrk'', ServiceSetURCBValues)
          else if fc = ''LG'' then Some (''LocbTrk'', ServiceSetLCBValues)
          else if fc = ''GO'' then Some (''GocbTrk'', ServiceSetGoCBValues)
          else if fc = ''MS'' then Some (''MsvcbTrk'', ServiceSetMSVCBValues)
          else if fc = ''US'' then Some (''UsvcbTrk'', ServiceSetUSVCBValues)
          else if fc = ''SP'' then
            (if ln \<noteq> ''LLN0'' \<or> cb \<noteq> ''SGCB'' then None
             else (case rest of
                     [attr] \<Rightarrow>
                       if attr = ''ActSG'' then Some (''SgcbTrk'', ServiceSelectActiveSG)
                       else if attr = ''EditSG'' then Some (''SgcbTrk'', ServiceSelectEditSG)
                       else if attr = ''CnfEdit'' then Some (''SgcbTrk'', ServiceConfirmEditSGValues)
                       else None
                   | _ \<Rightarrow> None))
          else None
      | _ \<Rightarrow> None)"

definition trackCBWrite :: "tracking \<Rightarrow> string \<Rightarrow> string \<Rightarrow> Value \<Rightarrow> byte \<Rightarrow> Tx \<Rightarrow> Tx" where
  "trackCBWrite e domain item v code tx =
     (case split_on (CHR ''$'') item of
        lnName # fc # cb # rest \<Rightarrow>
          (case Device (tx_m tx) domain of
             None \<Rightarrow> tx
           | Some ld \<Rightarrow>
               (case ld_Node ld lnName of
                  None \<Rightarrow> tx
                | Some ln \<Rightarrow>
                    (case cb_service (lnName # fc # cb # rest) of
                       None \<Rightarrow> tx
                     | Some (kind, svc) \<Rightarrow>
                         if trk_lookup (tk_tracker e) domain kind = None then tx
                         else (case cbObject ln fc cb of
                                 None \<Rightarrow> tx
                               | Some src \<Rightarrow>
                                   srv_track e
                                     \<lparr>tr_ld = domain, tr_kind = kind, tr_objRef = domain @ CHR ''/'' # lnName @ CHR ''.'' # cb, tr_svc = svc,
                                      tr_err = serviceErrorOf code, tr_src = Some src, tr_ctl = None,
                                      tr_requested = (case rest of
                                          [attr] \<Rightarrow> if (fc = ''BR'' \<or> fc = ''RP'') \<and> v \<noteq> NilValue
                                                    then Some (DataAttribute attr FCNone [] TypeNone [] 0 [] v 0) else None
                                        | _ \<Rightarrow> None)\<rparr> tx))))
      | _ \<Rightarrow> tx)"

section \<open>Tracking writes nothing but its object\<close>

text \<open>A reference below an object.\<close>

definition below :: "ObjectReference \<Rightarrow> ObjectReference \<Rightarrow> bool" where
  "below r obj = (\<exists>names. names \<noteq> [] \<and> r = fold (\<lambda>n r. ref_Child r n) names obj)"

text \<open>A leaf that keeps its attribute, and a change that keeps its reasons, from one state to the next.\<close>

definition keeps :: "(cell \<Rightarrow> bool) \<Rightarrow> Tx \<Rightarrow> Tx \<Rightarrow> bool" where
  "keeps K tx tx' =
     (\<forall>k a. K k \<and> Attribute (tx_m tx) (fst k) (snd k) = Some a \<and> da_Children a = [] \<longrightarrow>
        Attribute (tx_m tx') (fst k) (snd k) = Some a)"

lemma keeps_refl [simp, intro]: "keeps K tx tx" by (simp add: keeps_def)

lemma keeps_trans: "keeps K tx tx' \<Longrightarrow> keeps K tx' tx'' \<Longrightarrow> keeps K tx tx''"
  by (simp add: keeps_def)

lemma keeps_fold: "(\<And>x tx. x \<in> set xs \<Longrightarrow> keeps K tx (f x tx)) \<Longrightarrow> keeps K tx (fold f xs tx)"
  by (induction xs arbitrary: tx) (auto intro: keeps_trans)

lemma keeps_weaken: "keeps K tx tx' \<Longrightarrow> (\<And>k. K' k \<Longrightarrow> K k) \<Longrightarrow> keeps K' tx tx'"
  by (auto simp: keeps_def)

lemma setTracked_keeps: "keeps (\<lambda>k. fst k \<noteq> fst c) tx (setTracked ref c v tx)"
  by (auto simp: keeps_def setTracked_def apart_def intro!: Attribute_set_apart split: option.splits)

lemma below_Child: "below (ref_Child obj n) obj" "below r obj \<Longrightarrow> below (ref_Child r n) obj"
proof -
  show "below (ref_Child obj n) obj" unfolding below_def by (intro exI [of _ "[n]"]) simp
  assume "below r obj"
  then obtain names where "names \<noteq> []" "r = fold (\<lambda>n r. ref_Child r n) names obj" by (auto simp: below_def)
  then show "below (ref_Child r n) obj" unfolding below_def by (intro exI [of _ "names @ [n]"]) simp
qed

lemma setTracked_below: "below (fst c) obj \<Longrightarrow> keeps (\<lambda>k. \<not> below (fst k) obj) tx (setTracked ref c v tx)"
  by (rule keeps_weaken [OF setTracked_keeps]) auto

lemma copyTracked_below:
  "below (fst c) obj \<Longrightarrow> keeps (\<lambda>k. \<not> below (fst k) obj) tx (copyTracked e c da src tx)"
proof (induction da arbitrary: c src tx)
  case (DataAttribute name f fn kind bt cnt children v trg)
  show ?case
  proof (cases "children = []")
    case True
    then show ?thesis using setTracked_below [OF DataAttribute.prems] by (simp add: Let_def)
  next
    case False
    have "keeps (\<lambda>k. \<not> below (fst k) obj) tx (copyTracked e (ref_Child (fst c) (da_Name d), snd c) d sc tx)" if "d \<in> set children" for d sc tx
      using DataAttribute.IH [OF that, of "(ref_Child (fst c) (da_Name d), snd c)"] below_Child(2) [OF DataAttribute.prems] by simp
    then show ?thesis using False by (auto intro!: keeps_fold split: option.split)
  qed
qed

lemma set_named_below: "keeps (\<lambda>k. \<not> below (fst k) (trk_ref o')) tx (set_named o' name v tx)"
  by (auto simp: set_named_def below_Child(1) intro!: setTracked_below split: option.splits)

lemma set_origin_below: "keeps (\<lambda>k. \<not> below (fst k) (trk_ref o')) tx (set_origin o' do c tx)"
  by (auto simp: set_origin_def Let_def below_Child intro!: keeps_trans [OF _ setTracked_below] split: option.split)

lemma set_control_below: "keeps (\<lambda>k. \<not> below (fst k) (trk_ref o')) tx (set_control o' do c tx)"
  unfolding set_control_def Let_def
  by (auto intro!: set_named_below keeps_trans [OF _ set_named_below] keeps_trans [OF _ set_origin_below])

lemma keeps_case:
  "keeps K tx tx' \<Longrightarrow> (\<And>x tx. keeps K tx (g x tx)) \<Longrightarrow> keeps K tx (case c of None \<Rightarrow> tx' | Some x \<Rightarrow> g x tx')"
  by (cases c) (auto intro: keeps_trans)

lemma copy_below:
  "keeps (\<lambda>k. \<not> below (fst k) (trk_ref o')) tx (copy_source e o' do src tx)"
  "keeps (\<lambda>k. \<not> below (fst k) (trk_ref o')) tx (copy_requested e o' do r tx)"
  by (auto simp: copy_source_def copy_requested_def below_Child(1) intro!: keeps_fold copyTracked_below split: option.split)

lemma srv_track_below:
  assumes "trk_lookup (tk_tracker e) (tr_ld rec) (tr_kind rec) = Some o'"
  shows "keeps (\<lambda>k. \<not> below (fst k) (trk_ref o')) tx (srv_track e rec tx)"
  unfolding srv_track_def Let_def assms option.case
  by (cases "trk_object (tx_m tx) o'")
     (simp, simp only: option.case, intro keeps_trans [OF _ set_named_below] keeps_case keeps_refl copy_below set_control_below)

end
