(* ===== verification/SrvNames.thy ===== *)
theory SrvNames
  imports MmsServices SrvAccess
begin

text \<open>
  Names and data sets as a server serves them (\<^verbatim>\<open>server/handler.go\<close>): object names, GetNameList with
  its pages, and the named variable lists a client may read, define and delete.
\<close>

section \<open>Errors and object names\<close>

text \<open>An association is a number, \<open>None\<close> the nil pointer.\<close>

type_synonym conn = "nat option"

text \<open>What a handler returns as its error: a decoding error, a DataAccessError, a ServiceError with its
  class and code, or a plain one.\<close>

datatype srv_error = ReqBer ber_error | ReqMms mms_error | ReqAccess byte | ReqService byte byte | ReqUnsupported

fun req_ber :: "(ber_error, 'a) result \<Rightarrow> (srv_error, 'a) result" where
  "req_ber (Inr x) = Inr x"
| "req_ber (Inl Panic) = Inl Panic"
| "req_ber (Inl (Err e)) = Inl (Err (ReqBer e))"

fun req_mms :: "(mms_error, 'a) result \<Rightarrow> (srv_error, 'a) result" where
  "req_mms (Inr x) = Inr x"
| "req_mms (Inl Panic) = Inl Panic"
| "req_mms (Inl (Err e)) = Inl (Err (ReqMms e))"

lemma req_simps [simp]:
  "req_ber r = Inr x \<longleftrightarrow> r = Inr x" "req_ber r = Inl Panic \<longleftrightarrow> r = Inl Panic"
  "req_mms q = Inr y \<longleftrightarrow> q = Inr y" "req_mms q = Inl Panic \<longleftrightarrow> q = Inl Panic"
  by (cases r rule: req_ber.cases; simp) (cases r rule: req_ber.cases; simp; fail | cases q rule: req_mms.cases; simp)+

definition parseObjectNameElem :: "Decoder \<Rightarrow> (srv_error, string \<times> string) result \<times> Decoder" where
  "parseObjectNameElem dec =
     (case ReadTLV dec of
        (Inl e, dec) \<Rightarrow> (req_ber (Inl e), dec)
      | (Inr (tag, c), dec) \<Rightarrow>
          (if tag = ContextConstructed 1 then
             (let (r, dd) = Expect TagVisibleString (NewDecoder c) in
              rbind (req_ber r) (\<lambda>domain.
              rbind (req_ber (fst (Expect TagVisibleString dd))) (\<lambda>item.
              Inr (string_of domain, string_of item))))
           else if tag = ContextPrimitive 0 then Inr ([], string_of c)
           else Inl (Err ReqUnsupported), dec))"

definition parseObjectName :: "byte list \<Rightarrow> (srv_error, string \<times> string) result" where
  "parseObjectName content = fst (parseObjectNameElem (NewDecoder content))"

definition parseVarSpec :: "byte list \<Rightarrow> (srv_error, string \<times> string) result" where
  "parseVarSpec entry = rbind (req_ber (fst (Expect (ContextConstructed 0) (NewDecoder entry)))) parseObjectName"

definition domainSpecificName :: "string \<Rightarrow> string \<Rightarrow> Element" where
  "domainSpecificName domain item =
     Cons_el (ContextConstructed 1) [Some (Prim TagVisibleString (octets_of domain)), Some (Prim TagVisibleString (octets_of item))]"

definition splitLN :: "LogicalDevice \<Rightarrow> string \<Rightarrow> LogicalNode option" where
  "splitLN ld item = (let lnName = fst (cut (CHR ''$'') item) in ld_Node ld (if lnName = [] then item else lnName))"

section \<open>GetNameList\<close>

text \<open>The names of one class; those of the logs are a parameter.\<close>

definition enumerate_names :: "(string \<Rightarrow> string list) \<Rightarrow> IEDModel \<Rightarrow> int \<Rightarrow> string \<Rightarrow> string list" where
  "enumerate_names logs m class' domain =
     (if class' = 9 then map ld_Name (m_Devices m)
      else if class' = 0 then (case Device m domain of None \<Rightarrow> [] | Some ld \<Rightarrow> namesForDomain ld)
      else if class' = 2 then
        (case Device m domain of
           None \<Rightarrow> []
         | Some ld \<Rightarrow> concat (map (\<lambda>ln. map (\<lambda>ds. ln_Name ln @ CHR ''$'' # ds_Name ds) (ln_DataSets ln)) (ld_Nodes ld)))
      else if class' = 8 then logs domain
      else [])"

definition continue_after :: "string \<Rightarrow> string list \<Rightarrow> string list" where
  "continue_after after names =
     (if after = [] then names
      else case dropWhile (\<lambda>n. n \<noteq> after) names of [] \<Rightarrow> names | _ # rest \<Rightarrow> rest)"

definition envelope :: int where "envelope = 24"

definition name_element :: "string \<Rightarrow> Element" where
  "name_element n = Prim TagVisibleString (octets_of n)"

fun fill_page :: "int \<Rightarrow> nat \<Rightarrow> int \<Rightarrow> string list \<Rightarrow> string list \<times> bool" where
  "fill_page maxPDU i used [] = ([], False)"
| "fill_page maxPDU i used (n # ns) =
     (let sz = int (Size (name_element n)) in
      if maxPDU > 0 \<and> i > 0 \<and> used + sz > maxPDU - envelope then ([], True)
      else let (p, mf) = fill_page maxPDU (Suc i) (used + sz) ns in (n # p, mf))"

definition name_list_response :: "string list \<Rightarrow> bool \<Rightarrow> Element" where
  "name_list_response page mf =
     Cons_el (ContextConstructed svcGetNameList)
       [Some (Cons_el (ContextConstructed 0) (map (\<lambda>n. Some (name_element n)) page)), Some (BoolElem (ContextPrimitive 1) mf)]"

text \<open>An optional string, its reading error ignored.\<close>

definition opt_text :: "optional_result \<Rightarrow> string" where
  "opt_text o' = (case optional_ignoring o' of None \<Rightarrow> [] | Some b \<Rightarrow> string_of b)"

definition getNameList :: "(int \<Rightarrow> string \<Rightarrow> string list) \<Rightarrow> byte list \<Rightarrow> int \<Rightarrow> (srv_error, Element) result" where
  "getNameList enumerate' content maxPDU =
     (let (r, dec) = Expect (ContextConstructed 0) (NewDecoder content) in
      rbind (req_ber r) (\<lambda>classContent.
      rbind (req_ber (fst (Expect (ContextPrimitive 0) (NewDecoder classContent)))) (\<lambda>classBytes.
      let class' = (case DecodeInt classBytes of Inr n \<Rightarrow> n | Inl _ \<Rightarrow> 0);
          (scope, dec) = Optional (ContextConstructed 1) dec;
          domain = (case optional_ignoring scope of
                      None \<Rightarrow> [] | Some s \<Rightarrow> opt_text (fst (Optional (ContextPrimitive 1) (NewDecoder s))));
          after = opt_text (fst (Optional (ContextPrimitive 2) dec));
          (page, mf) = fill_page maxPDU 0 0 (continue_after after (enumerate' class' domain))
      in Inr (name_list_response page mf))))"

section \<open>Pages\<close>

lemma fill_page_prefix:
  "fill_page maxPDU i used ns = (p, mf) \<Longrightarrow> \<exists>rest. ns = p @ rest \<and> (mf \<longleftrightarrow> rest \<noteq> [])"
  by (induction maxPDU i used ns arbitrary: p mf rule: fill_page.induct) (auto simp: Let_def split: if_splits prod.splits)

lemma fill_page_nonempty: "fill_page maxPDU 0 used ns = (p, mf) \<Longrightarrow> p = [] \<longleftrightarrow> ns = []"
  by (cases ns) (auto simp: Let_def split: prod.splits)

text \<open>A page of more than one name stays within the PDU.\<close>

lemma fill_page_size:
  "fill_page maxPDU i used ns = (p, mf) \<Longrightarrow> 0 < maxPDU \<Longrightarrow> 0 < i \<Longrightarrow> used \<le> maxPDU - envelope \<Longrightarrow>
     used + int (sum_list (map (\<lambda>n. Size (name_element n)) p)) \<le> maxPDU - envelope"
  by (induction maxPDU i used ns arbitrary: p mf rule: fill_page.induct) (auto simp: Let_def add.assoc split: if_splits prod.splits)

lemma continue_after_at:
  assumes "distinct (xs @ x # ys)" and "x \<noteq> []"
  shows "continue_after x (xs @ x # ys) = ys"
proof -
  have "dropWhile (\<lambda>n. n \<noteq> x) (xs @ x # ys) = x # ys"
    using assms(1) by (subst dropWhile_append2) auto
  then show ?thesis using assms(2) by (simp add: continue_after_def)
qed

section \<open>On the wire\<close>

lemma string_tlv_short: "length s < 2 ^ 30 \<Longrightarrow> length (tlv t (octets_of s)) < 2 ^ 31"
  using length_tlv_le(1) [of t "octets_of s"] by simp

text \<open>The names of a page, as octets.\<close>

lemma Encode_name [simp]: "Encode (name_element n) = tlv TagVisibleString (octets_of n)"
  by (simp add: name_element_def Encode_Prim)

lemma el_ok_name [simp]: "el_ok (name_element n)"
  by (simp add: name_element_def)

lemma Size_name: "Size (name_element n) = length (tlv TagVisibleString (octets_of n))"
  using Size_length [of "name_element n"] by simp

definition names_octets :: "string list \<Rightarrow> byte list" where
  "names_octets ns = concat (map (\<lambda>n. tlv TagVisibleString (octets_of n)) ns)"

lemma map_filter_map_Some [simp]: "List.map_filter id (map (\<lambda>x. Some (f x)) xs) = map f xs"
  by (induction xs) (simp_all add: map_filter_simps)

lemma Number_ctx [simp]: "Number (ContextConstructed n) = n" "Number (ContextPrimitive n) = n"
  "(ContextConstructed n)\<lparr>Constructed := True\<rparr> = ContextConstructed n" "\<not> Constructed (ContextPrimitive n)" "Constructed (ContextConstructed n)"
  by (simp_all add: tag_defs)

lemma Encode_name_list_response:
  "Encode (name_list_response page mf) =
     tlv (ContextConstructed svcGetNameList) (tlv (ContextConstructed 0) (names_octets page) @ tlv (ContextPrimitive 1) (bool_octets mf))"
  by (simp add: name_list_response_def Encode_Cons_el map_filter_simps svc_defs BoolElem_def Encode_Prim names_octets_def list_all_iff o_def)

lemma parse_name_list_response:
  assumes "length (names_octets page) < 2 ^ 31"
  shows "parse_name_page (Encode (name_list_response page mf)) = Inr (page, mf)"
proof -
  have l: "length (octets_of n) < 2 ^ 32" if "n \<in> set page" for n
  proof -
    have "length (tlv TagVisibleString (octets_of n)) \<le> length (names_octets page)"
      unfolding names_octets_def by (rule length_concat_member [OF that])
    then show ?thesis using length_tlv_le(2) [of "octets_of n" TagVisibleString] assms by simp
  qed
  have "read_all (Expect TagVisibleString) (NewDecoder (names_octets page)) = Inr (map octets_of page)"
    by (rule read_all_Expect) (use l in \<open>auto simp: list_all_iff names_octets_def o_def\<close>)
  moreover have "length (tlv (ContextConstructed 0) (names_octets page) @ tlv (ContextPrimitive 1) (bool_octets mf)) < 2 ^ 32"
    using length_tlv_le(1) [of "ContextConstructed 0" "names_octets page"] length_tlv_le(1) [of "ContextPrimitive 1" "bool_octets mf"] assms
    by simp
  ultimately show ?thesis using assms
    by (simp add: parse_name_page_def service_content_def Encode_name_list_response NewDecoder_at [of "tlv _ _"] NewDecoder_at [of "_ @ _"]
        codec_simps optional_ignoring_def o_def)
qed

section \<open>The whole list\<close>

lemma req_name_request:
  assumes "int64_ok class'" and "length domain < 2 ^ 31" and "length after < 2 ^ 31"
  shows "getNameList en (el_content (name_list_request class' domain after)) maxPDU =
    (let (page, mf) = fill_page maxPDU 0 0 (continue_after after (en class' domain)) in Inr (name_list_response page mf))"
proof -
  let ?cls = "tlv (ContextConstructed 0) (tlv (ContextPrimitive 0) (int_octets class'))"
  let ?scope = "tlv (ContextConstructed 1) (if domain = [] then tlv (ContextPrimitive 0) [] else tlv (ContextPrimitive 1) (octets_of domain))"
  have c: "el_content (name_list_request class' domain after) =
      ?cls @ ?scope @ (if after = [] then [] else tlv (ContextPrimitive 2) (octets_of after))"
    by (simp add: name_list_request_def Let_def Add_Cons_el Cons_el_def [of "ContextConstructed svcGetNameList"] map_filter_simps
        Encode_Cons_el Encode_Prim IntElem_def)
  have l: "length (tlv (ContextPrimitive 0) (int_octets class')) < 2 ^ 32" "length (int_octets class') < 2 ^ 32"
    using length_tlv_le(1) [of "ContextPrimitive 0" "int_octets class'"] length_int_octets [OF assms(1)] by simp_all
  have d: "length (tlv (ContextPrimitive 1) (octets_of domain)) < 2 ^ 32" "length (tlv (ContextPrimitive 0) []) < 2 ^ 32"
    using length_tlv_le(1) [of "ContextPrimitive 1" "octets_of domain"] length_tlv_le(1) [of "ContextPrimitive 0" "[]"] assms(2) by simp_all
  have t: "ContextPrimitive (0::32 word) \<noteq> ContextPrimitive 1" by (simp add: tag_defs)
  show ?thesis using l d t assms(3) DecodeInt_AppendInt [OF assms(1)] assms(2)
    by (simp add: getNameList_def c NewDecoder_at [of "_ @ _"] NewDecoder_at [of "tlv _ _"] codec_simps optional_ignoring_def opt_text_def Let_def)
qed

text \<open>A client that calls a handler with the content of its request and is given the encoded answer.\<close>

definition serve :: "(byte list \<Rightarrow> 's \<Rightarrow> (srv_error, Element) result \<times> 's) \<Rightarrow> Element \<Rightarrow> 's \<Rightarrow> (client_error, byte list) result \<times> 's" where
  "serve h req s =
     (case h (el_content req) s of
        (Inr el, s') \<Rightarrow> (Inr (Encode el), s')
      | (Inl Panic, s') \<Rightarrow> (Inl Panic, s')
      | (Inl (Err _), s') \<Rightarrow> (Inl (Err NotAnswered), s'))"

abbreviation names_handler :: "(int \<Rightarrow> string \<Rightarrow> string list) \<Rightarrow> int \<Rightarrow> byte list \<Rightarrow> 's \<Rightarrow> (srv_error, Element) result \<times> 's" where
  "names_handler en maxPDU \<equiv> (\<lambda>content s. (getNameList en content maxPDU, s))"

lemma names_octets_append [simp]: "names_octets (xs @ ys) = names_octets xs @ names_octets ys"
  by (simp add: names_octets_def)

lemma name_length: "n \<in> set ns \<Longrightarrow> length n < length (names_octets ns)"
  using length_concat_member [of n ns "\<lambda>n. tlv TagVisibleString (octets_of n)"] length_tlv_le(2) [of "octets_of n" TagVisibleString]
  by (simp add: names_octets_def)

lemma served_page:
  assumes "int64_ok class'" "length domain < 2 ^ 31" "length after < 2 ^ 31" "continue_after after (en class' domain) = ns"
    "length (names_octets ns) < 2 ^ 31"
  shows "getNameListPage (serve (names_handler en maxPDU)) class' domain after s = (Inr (fill_page maxPDU 0 0 ns), s)"
proof -
  obtain p mf where f: "fill_page maxPDU 0 0 ns = (p, mf)" by fastforce
  have "length (names_octets p) < 2 ^ 31" using fill_page_prefix [OF f] assms(5) by auto
  then show ?thesis using req_name_request [OF assms(1-3), of en maxPDU] parse_name_list_response [of p mf] f
    by (simp add: getNameListPage_def serve_def assms(4))
qed

lemma followed_names:
  assumes "int64_ok class'" "length domain < 2 ^ 31" "distinct (en class' domain)" "[] \<notin> set (en class' domain)"
    "length (en class' domain) \<le> maxContinued" "length (names_octets (en class' domain)) < 2 ^ 31"
    "en class' domain = seen @ rest" "rest \<noteq> [] \<or> seen = []"
  shows "GetNameList_loop (getNameListPage (serve (names_handler en maxPDU)) class' domain) seen
    (if seen = [] then [] else last seen) s = (Inr (en class' domain), s)"
  using assms(7,8)
proof (induction rest arbitrary: seen rule: length_induct)
  case (1 rest)
  let ?after = "if seen = [] then [] else last seen"
  have c: "continue_after ?after (en class' domain) = rest"
  proof (cases "seen = []")
    case False
    then have e: "seen @ rest = butlast seen @ last seen # rest" by simp
    have "last seen \<noteq> []" using assms(4) 1(2) False last_in_set by fastforce
    then show ?thesis using False continue_after_at [of "butlast seen" "last seen" rest] assms(3) 1(2) e by simp
  qed (simp add: continue_after_def 1(2))
  have "length ?after < 2 ^ 31"
    using name_length [of "last seen" "en class' domain"] assms(6) 1(2) last_in_set [of seen] by auto
  moreover have "length (names_octets rest) < 2 ^ 31" using assms(6) 1(2) by simp
  ultimately have page: "getNameListPage (serve (names_handler en maxPDU)) class' domain ?after s = (Inr (fill_page maxPDU 0 0 rest), s)"
    by (intro served_page assms(1,2) c)
  obtain p mf where f: "fill_page maxPDU 0 0 rest = (p, mf)" by fastforce
  obtain rest' where r: "rest = p @ rest'" "mf \<longleftrightarrow> rest' \<noteq> []" using fill_page_prefix [OF f] by blast
  have pe: "p = [] \<longleftrightarrow> rest = []" using fill_page_nonempty [OF f] .
  show ?case
  proof (cases "mf \<and> p \<noteq> []")
    case False
    then have "\<not> mf \<or> p = []" by blast
    moreover from this have "rest' = []" using r pe by (metis append_is_Nil_conv)
    then have "en class' domain = seen @ p" by (simp only: 1(2) r(1) append_Nil2)
    ultimately show ?thesis using page f by (subst GetNameList_loop.simps) simp
  next
    case True
    have lp: "last p \<in> set p" using True by simp
    then have "last p \<notin> set seen" "last p \<noteq> []" using assms(3,4) unfolding 1(2) r(1) by auto
    then have "last p \<noteq> ?after" by (cases "seen = []") (auto dest: last_in_set)
    moreover have "length (seen @ p) \<le> maxContinued" using assms(5) unfolding 1(2) r(1) by simp
    moreover have "GetNameList_loop (getNameListPage (serve (names_handler en maxPDU)) class' domain) (seen @ p) (last p) s = (Inr (en class' domain), s)"
      using 1(1) [rule_format, of rest' "seen @ p"] r True 1(2) by simp
    ultimately show ?thesis using page f True by (subst GetNameList_loop.simps) simp
  qed
qed

text \<open>The octets a page takes inside its response: at most \<open>envelope\<close> more than the names.\<close>

lemma page_fits:
  assumes "fill_page maxPDU 0 0 ns = (p, mf)" "1 < length p" "0 < maxPDU" "maxPDU < 2 ^ 16"
  shows "int (Size (name_list_response p mf)) + 13 \<le> maxPDU"
proof -
  obtain n k p' where p: "p = n # k # p'" using assms(2) by (cases p; cases "tl p") auto
  have "int (sum_list (map (\<lambda>n. Size (name_element n)) p)) \<le> maxPDU - envelope"
    using assms(1,3) fill_page_size [of maxPDU 2 "int (Size (name_element n)) + int (Size (name_element k))" "tl (tl ns)" p' mf] p
    by (cases ns; cases "tl ns") (auto simp: Let_def eval_nat_numeral split: if_splits prod.splits)
  moreover have "length (names_octets p) = sum_list (map (\<lambda>n. Size (name_element n)) p)"
    by (simp add: names_octets_def length_concat Size_name o_def)
  ultimately have s: "int (length (names_octets p)) \<le> maxPDU - 24" by (simp add: envelope_def)
  have "Size (name_list_response p mf) = length (Encode (name_list_response p mf))"
    by (rule Size_length [symmetric]) (simp add: name_list_response_def svc_defs BoolElem_def map_filter_simps list_all_iff)
  then show ?thesis using s assms(4)
    by (simp add: Encode_name_list_response length_AppendTLV svc_defs TLVSize_def TagSize_def LengthSize_def)
qed

section \<open>Properties\<close>

text \<open>(C24) Browsing is complete: a client that follows the continuation of a server's name list, page after page, is
  given every name of the class once and in order, whatever the size of a page, and it asks again only
  while names are left; every page of more than one name fits the PDU with room for the response around
  it.\<close>

theorem namelist_complete:
  fixes logs m class' domain maxPDU s
  defines "en \<equiv> enumerate_names logs m"
  assumes "int64_ok class'" "length domain < 2 ^ 31" "distinct (en class' domain)" "[] \<notin> set (en class' domain)"
    "length (en class' domain) \<le> maxContinued" "length (names_octets (en class' domain)) < 2 ^ 31"
  shows "GetNameList (serve (\<lambda>content s. (getNameList en content maxPDU, s))) class' domain s = (Inr (en class' domain), s)
    \<and> (\<forall>after p mf. fill_page maxPDU 0 0 (continue_after after (en class' domain)) = (p, mf) \<longrightarrow>
         1 < length p \<longrightarrow> 0 < maxPDU \<longrightarrow> maxPDU < 2 ^ 16 \<longrightarrow> int (Size (name_list_response p mf)) + 13 \<le> maxPDU)"
  using followed_names [where en = en, OF assms(2-7), of "[]" "en class' domain" maxPDU s] page_fits
  by (auto simp: GetNameList_def)

text \<open>(C40) A client's name list ends against any peer: however the pages are answered, no more than \<open>2 ^ 20 + 1\<close>
  requests are sent.\<close>

theorem namelist_ends:
  "snd (snd (GetNameList_loop (counted (getNameListPage call class' domain)) [] [] (s, 0))) \<le> 2 ^ 20 + 1"
  using GetNameList_loop_requests [of "[]" "getNameListPage call class' domain" "[]" s 0] by (simp add: maxContinued_def)

definition ex_browse_model :: IEDModel where
  "ex_browse_model = \<lparr>m_Name = [], m_Devices = [\<lparr>ld_Name = ''LD1'', ld_Inst = [], ld_Nodes = []\<rparr>, \<lparr>ld_Name = ''LD2'', ld_Inst = [], ld_Nodes = []\<rparr>],
     m_SettingGroups = []\<rparr>"

theorem namelist_complete_witness:
  "GetNameList (serve (\<lambda>content s. (getNameList (enumerate_names (\<lambda>_. []) ex_browse_model) content 20, s))) 9 [] () = (Inr [''LD1'', ''LD2''], ())"
proof -
  have e: "enumerate_names (\<lambda>_. []) ex_browse_model 9 [] = [''LD1'', ''LD2'']" by code_simp
  have n: "length (names_octets [''LD1'', ''LD2'']) = 10" by code_simp
  show ?thesis
    using namelist_complete [of 9 "[]" "\<lambda>_. []" ex_browse_model 20 "()"] n by (simp add: e int64_ok_def maxContinued_def)
qed

end
