(* ===== verification/SrvDataSets.thy ===== *)
theory SrvDataSets
  imports SrvNames
begin

text \<open>
  Named variable lists (\<^verbatim>\<open>server/handler.go\<close>): the data sets of the model, those a client defines while
  the server runs, their bounds, and their deletion.
\<close>

section \<open>Operations\<close>

definition datasetMembers :: "IEDModel \<Rightarrow> string \<Rightarrow> string \<Rightarrow> (string \<times> string) list" where
  "datasetMembers m domain list =
     (case Device m domain of
        None \<Rightarrow> []
      | Some ld \<Rightarrow>
          (case cut (CHR ''$'') list of
             (lnName, dsName, ok) \<Rightarrow>
               if \<not> ok then []
               else case ld_Node ld lnName of
                 None \<Rightarrow> []
               | Some ln \<Rightarrow>
                   (case ln_DataSet ln dsName of
                      None \<Rightarrow> []
                    | Some ds \<Rightarrow> map (\<lambda>e. ToMMS (fcda_Ref e) (fcda_FC e)) (ds_Entries ds))))"

text \<open>A nil slice and an empty one are the same list, as they are for the test in the source: a data set
  without members has a nil slice.\<close>

definition list_attributes_response :: "(string \<times> string) list \<Rightarrow> Element" where
  "list_attributes_response members =
     Cons_el (ContextConstructed svcGetNamedVarListAttr)
       [Some (BoolElem (ContextPrimitive 0) False),
        Some (Cons_el (ContextConstructed 1)
          (map (\<lambda>m. Some (Cons_el TagSequence [Some (Cons_el (ContextConstructed 0) [Some (domainSpecificName (fst m) (snd m))])])) members))]"

definition getNVLAttrs :: "IEDModel \<Rightarrow> byte list \<Rightarrow> (srv_error, Element) result" where
  "getNVLAttrs m content =
     rbind (parseObjectName content) (\<lambda>(domain, list).
     let members = datasetMembers m domain list in
     if members = [] then Inl (Err (ReqAccess AccessObjectNonExistent))
     else Inr (list_attributes_response members))"

definition maxDynamicDataSets :: nat where "maxDynamicDataSets = 256"
definition maxDynamicDataSetEntries :: nat where "maxDynamicDataSetEntries = 1024"

definition errCapabilityUnavailable :: srv_error where "errCapabilityUnavailable = ReqService 3 4"

definition countDynamicDataSets :: "IEDModel \<Rightarrow> nat" where
  "countDynamicDataSets m =
     sum_list (map (\<lambda>ld. sum_list (map (\<lambda>ln. length (filter ds_Deletable (ln_DataSets ln))) (ld_Nodes ld))) (m_Devices m))"

text \<open>The members of a definition, read one by one; too many end the reading.\<close>

definition parse_fcda :: "byte list \<Rightarrow> (srv_error, FCDA) result" where
  "parse_fcda entry =
     rbind (parseVarSpec entry) (\<lambda>(md, mi). case FromMMS md mi of (ref, fc) \<Rightarrow>
     Inr \<lparr>fcda_Ref = ref, fcda_FC = fc, fcda_FCName = []\<rparr>)"

fun read_entries :: "nat \<Rightarrow> Decoder \<Rightarrow> FCDA list \<Rightarrow> (srv_error, FCDA list) result" where
  "read_entries 0 d acc = (if More d then Inl Panic else Inr acc)"
| "read_entries (Suc n) d acc =
     (if \<not> More d then Inr acc
      else case Expect TagSequence d of
        (Inl e, _) \<Rightarrow> req_ber (Inl e)
      | (Inr entry, d') \<Rightarrow>
          rbind (parse_fcda entry) (\<lambda>f.
          if length (acc @ [f]) > maxDynamicDataSetEntries then Inl (Err errCapabilityUnavailable)
          else read_entries n d' (acc @ [f])))"

definition node_update :: "string \<Rightarrow> string \<Rightarrow> (LogicalNode \<Rightarrow> LogicalNode) \<Rightarrow> IEDModel \<Rightarrow> IEDModel" where
  "node_update domain lnName f m =
     m\<lparr>m_Devices := update_first (\<lambda>ld. ld_Name ld = domain)
         (\<lambda>ld. ld\<lparr>ld_Nodes := update_first (\<lambda>ln. ln_Name ln = lnName) f (ld_Nodes ld)\<rparr>) (m_Devices m)\<rparr>"

definition node_of :: "IEDModel \<Rightarrow> string \<Rightarrow> string \<Rightarrow> LogicalNode option" where
  "node_of m domain lnName = (case Device m domain of None \<Rightarrow> None | Some ld \<Rightarrow> ld_Node ld lnName)"

definition new_list :: "string \<Rightarrow> FCDA list \<Rightarrow> LogicalNode \<Rightarrow> LogicalNode" where
  "new_list dsName entries ln = ln\<lparr>ln_DataSets := ln_DataSets ln @ [\<lparr>ds_Name = dsName, ds_Entries = entries, ds_Deletable = True\<rparr>]\<rparr>"

definition add_list :: "IEDModel \<Rightarrow> string \<Rightarrow> string \<Rightarrow> string \<Rightarrow> FCDA list \<Rightarrow> (srv_error, Element) result \<times> IEDModel" where
  "add_list m domain lnName dsName entries =
     (if countDynamicDataSets m \<ge> maxDynamicDataSets then (Inl (Err errCapabilityUnavailable), m)
      else case node_of m domain lnName of
        None \<Rightarrow> (Inl (Err (ReqAccess AccessObjectNonExistent)), m)
      | Some ln \<Rightarrow>
          if ln_DataSet ln dsName \<noteq> None then (Inl (Err (ReqAccess AccessObjectValueInvalid)), m)
          else (Inr (Prim (ContextPrimitive svcDefineNamedVarList) []), node_update domain lnName (new_list dsName entries) m))"

definition defineNVL :: "byte list \<Rightarrow> IEDModel \<Rightarrow> (srv_error, Element) result \<times> IEDModel" where
  "defineNVL content m =
     (let fail = (\<lambda>e. (Inl e, m)) in
      case parseObjectNameElem (NewDecoder content) of
        (Inl e, _) \<Rightarrow> fail e
      | (Inr (domain, list), dec) \<Rightarrow>
          (case cut (CHR ''$'') list of
             (lnName, dsName, ok) \<Rightarrow>
               if \<not> ok then fail (Err (ReqAccess AccessObjectValueInvalid))
               else
                 (let (o', dec) = Optional (ContextConstructed 0) dec in
                  case rbind (req_ber (optional_or_error o')) (\<lambda>found.
                         case found of Some c \<Rightarrow> Inr c | None \<Rightarrow> req_ber (fst (Expect (ContextConstructed 1) dec))) of
                    Inl e \<Rightarrow> fail e
                  | Inr listContent \<Rightarrow>
                      (case read_entries (length listContent) (NewDecoder listContent) [] of
                         Inl e \<Rightarrow> fail e
                       | Inr entries \<Rightarrow> add_list m domain lnName dsName entries))))"

text \<open>The DatSet texts of the report and log control blocks are given as \<open>refs\<close>.\<close>

definition dataSetInUse :: "string list \<Rightarrow> IEDModel \<Rightarrow> string \<Rightarrow> string \<Rightarrow> string \<Rightarrow> bool" where
  "dataSetInUse refs m domain ln ds =
     ((domain @ CHR ''/'' # ln @ CHR ''$'' # ds) \<in> set refs
      \<or> (case node_of m domain ln of
           None \<Rightarrow> False
         | Some n \<Rightarrow> list_ex (\<lambda>g. gc_DataSet g = ds) (ln_GSEControls n) \<or> list_ex (\<lambda>sv. sv_DataSet sv = ds) (ln_SVControls n)))"

fun remove_first :: "('a \<Rightarrow> bool) \<Rightarrow> 'a list \<Rightarrow> 'a list" where
  "remove_first P [] = []"
| "remove_first P (x # xs) = (if P x then xs else x # remove_first P xs)"

definition deleteDataset :: "string list \<Rightarrow> string \<Rightarrow> string \<Rightarrow> IEDModel \<Rightarrow> bool \<times> IEDModel" where
  "deleteDataset refs domain list m =
     (case cut (CHR ''$'') list of
        (lnName, dsName, ok) \<Rightarrow>
          if Device m domain = None \<or> \<not> ok then (False, m)
          else case node_of m domain lnName of
            None \<Rightarrow> (False, m)
          | Some ln \<Rightarrow>
              (case ln_DataSet ln dsName of
                 None \<Rightarrow> (False, m)
               | Some ds \<Rightarrow>
                   if \<not> ds_Deletable ds \<or> dataSetInUse refs m domain lnName dsName then (False, m)
                   else (True, node_update domain lnName
                           (\<lambda>ln. ln\<lparr>ln_DataSets := remove_first (\<lambda>d. ds_Name d = dsName) (ln_DataSets ln)\<rparr>) m)))"

fun delete_names :: "string list \<Rightarrow> nat \<Rightarrow> Decoder \<Rightarrow> IEDModel \<Rightarrow> nat \<Rightarrow> nat \<Rightarrow> nat \<times> nat \<times> IEDModel" where
  "delete_names refs 0 d m matched deleted = (matched, deleted, m)"
| "delete_names refs (Suc n) d m matched deleted =
     (if \<not> More d then (matched, deleted, m)
      else case parseObjectNameElem d of
        (Inl _, _) \<Rightarrow> (matched, deleted, m)
      | (Inr (domain, list), d') \<Rightarrow>
          (case deleteDataset refs domain list m of
             (gone, m') \<Rightarrow> delete_names refs n d' m' (matched + 1) (if gone then deleted + 1 else deleted)))"

definition delete_response :: "nat \<Rightarrow> nat \<Rightarrow> Element" where
  "delete_response matched deleted =
     Cons_el (ContextConstructed svcDeleteNamedVarList)
       [Some (UintElem (ContextPrimitive 0) matched), Some (UintElem (ContextPrimitive 1) deleted)]"

definition deleteNVL :: "string list \<Rightarrow> byte list \<Rightarrow> IEDModel \<Rightarrow> (srv_error, Element) result \<times> IEDModel" where
  "deleteNVL refs content m =
     (let (o', dec) = Optional (ContextPrimitive 0) (NewDecoder content) in
      case req_ber (optional_or_error o') of
        Inl e \<Rightarrow> (Inl e, m)
      | Inr _ \<Rightarrow>
          (case optional_ignoring (fst (Optional (ContextConstructed 1) dec)) of
             None \<Rightarrow> (Inr (delete_response 0 0), m)
           | Some listContent \<Rightarrow>
               (case delete_names refs (length listContent) (NewDecoder listContent) m 0 0 of
                  (matched, deleted, m') \<Rightarrow> (Inr (delete_response matched deleted), m'))))"

section \<open>The data sets of a model\<close>

definition all_sets :: "IEDModel \<Rightarrow> DataSet list" where
  "all_sets m = concat (map (\<lambda>ld. concat (map ln_DataSets (ld_Nodes ld))) (m_Devices m))"

lemma count_all_sets: "countDynamicDataSets m = length (filter ds_Deletable (all_sets m))"
  by (simp add: countDynamicDataSets_def all_sets_def filter_concat length_concat o_def)

text \<open>A change of one node's data sets, seen in the whole model.\<close>

lemma update_first_split:
  "find P xs = Some x \<Longrightarrow> \<exists>pre post. xs = pre @ x # post \<and> (\<forall>f. update_first P f xs = pre @ f x # post)"
proof (induction xs)
  case (Cons y ys)
  show ?case
  proof (cases "P y")
    case True
    then have "y # ys = [] @ x # ys \<and> (\<forall>f. update_first P f (y # ys) = [] @ f x # ys)" using Cons.prems by simp
    then show ?thesis by blast
  next
    case False
    then obtain pre post where "ys = pre @ x # post" "\<forall>f. update_first P f ys = pre @ f x # post" using Cons by auto
    then have "y # ys = (y # pre) @ x # post \<and> (\<forall>f. update_first P f (y # ys) = (y # pre) @ f x # post)" using False by simp
    then show ?thesis by blast
  qed
qed simp

lemma all_sets_update:
  assumes "node_of m domain lnName = Some ln"
  obtains pre post where "all_sets m = pre @ ln_DataSets ln @ post"
    "\<And>f. all_sets (node_update domain lnName f m) = pre @ ln_DataSets (f ln) @ post"
proof -
  obtain ld where d: "find (\<lambda>ld. ld_Name ld = domain) (m_Devices m) = Some ld" and n: "find (\<lambda>ln. ln_Name ln = lnName) (ld_Nodes ld) = Some ln"
    using assms by (auto simp: node_of_def Device_def ld_Node_def split: option.splits)
  obtain dp dq where D: "m_Devices m = dp @ ld # dq" "\<forall>g. update_first (\<lambda>ld. ld_Name ld = domain) g (m_Devices m) = dp @ g ld # dq"
    using update_first_split [OF d] by blast
  obtain np nq where N: "ld_Nodes ld = np @ ln # nq" "\<forall>g. update_first (\<lambda>ln. ln_Name ln = lnName) g (ld_Nodes ld) = np @ g ln # nq"
    using update_first_split [OF n] by blast
  let ?sets = "\<lambda>lds. concat (map (\<lambda>ld. concat (map ln_DataSets (ld_Nodes ld))) lds)"
  show ?thesis
  proof (rule that [of "?sets dp @ concat (map ln_DataSets np)" "concat (map ln_DataSets nq) @ ?sets dq"])
    show "all_sets m = (?sets dp @ concat (map ln_DataSets np)) @ ln_DataSets ln @ concat (map ln_DataSets nq) @ ?sets dq"
      using D(1) N(1) by (simp add: all_sets_def)
    show "all_sets (node_update domain lnName f m) = (?sets dp @ concat (map ln_DataSets np)) @ ln_DataSets (f ln) @ concat (map ln_DataSets nq) @ ?sets dq" for f
      using D N by (simp add: all_sets_def node_update_def)
  qed
qed

lemma remove_first_split:
  "find P xs = Some x \<Longrightarrow> \<exists>pre post. xs = pre @ x # post \<and> remove_first P xs = pre @ post"
proof (induction xs)
  case (Cons y ys)
  show ?case
  proof (cases "P y")
    case True
    then have "y # ys = [] @ x # ys \<and> remove_first P (y # ys) = [] @ ys" using Cons.prems by simp
    then show ?thesis by blast
  next
    case False
    then obtain pre post where "ys = pre @ x # post" "remove_first P ys = pre @ post" using Cons by auto
    then have "y # ys = (y # pre) @ x # post \<and> remove_first P (y # ys) = (y # pre) @ post" using False by simp
    then show ?thesis by blast
  qed
qed simp

section \<open>Bounds\<close>

text \<open>What the server keeps of client-defined data sets, and that it never touches a configured one.\<close>

definition sets_bounded :: "IEDModel \<Rightarrow> bool" where
  "sets_bounded m = (countDynamicDataSets m \<le> maxDynamicDataSets
     \<and> (\<forall>ds \<in> set (all_sets m). ds_Deletable ds \<longrightarrow> length (ds_Entries ds) \<le> maxDynamicDataSetEntries))"

definition configured_sets :: "IEDModel \<Rightarrow> DataSet list" where
  "configured_sets m = filter (\<lambda>ds. \<not> ds_Deletable ds) (all_sets m)"

lemma read_entries_bound:
  "read_entries n d acc = Inr es \<Longrightarrow> length acc \<le> maxDynamicDataSetEntries \<Longrightarrow> length es \<le> maxDynamicDataSetEntries"
  by (induction n d acc rule: read_entries.induct)
    (auto simp: rbind_eq_Inr split: if_splits prod.splits sum.splits)

lemma add_list_bounded:
  assumes "sets_bounded m" "length entries \<le> maxDynamicDataSetEntries"
  shows "sets_bounded (snd (add_list m domain lnName dsName entries))
    \<and> configured_sets (snd (add_list m domain lnName dsName entries)) = configured_sets m"
proof (cases "node_of m domain lnName")
  case (Some ln)
  obtain pre post where u: "all_sets m = pre @ ln_DataSets ln @ post"
    "\<And>f. all_sets (node_update domain lnName f m) = pre @ ln_DataSets (f ln) @ post"
    using all_sets_update [OF Some] by blast
  show ?thesis using assms Some u
    by (auto simp: add_list_def new_list_def sets_bounded_def configured_sets_def count_all_sets)
qed (use assms in \<open>simp add: add_list_def\<close>)

lemma deleteDataset_bounded:
  assumes "sets_bounded m"
  shows "sets_bounded (snd (deleteDataset refs domain list m))
    \<and> configured_sets (snd (deleteDataset refs domain list m)) = configured_sets m"
proof -
  obtain lnName dsName ok where c: "cut (CHR ''$'') list = (lnName, dsName, ok)" by (cases "cut (CHR ''$'') list") auto
  show ?thesis
  proof (cases "snd (deleteDataset refs domain list m) = m")
    case False
    then obtain ln ds where n: "node_of m domain lnName = Some ln" and f: "find (\<lambda>d. ds_Name d = dsName) (ln_DataSets ln) = Some ds"
      and del: "ds_Deletable ds"
      and m': "snd (deleteDataset refs domain list m)
        = node_update domain lnName (\<lambda>ln. ln\<lparr>ln_DataSets := remove_first (\<lambda>d. ds_Name d = dsName) (ln_DataSets ln)\<rparr>) m"
      by (auto simp: deleteDataset_def c ln_DataSet_def split: option.splits if_splits)
    obtain pre post where u: "all_sets m = pre @ ln_DataSets ln @ post"
      "\<And>f. all_sets (node_update domain lnName f m) = pre @ ln_DataSets (f ln) @ post"
      using all_sets_update [OF n] by blast
    obtain p q where r: "ln_DataSets ln = p @ ds # q" "remove_first (\<lambda>d. ds_Name d = dsName) (ln_DataSets ln) = p @ q"
      using remove_first_split [OF f] by blast
    show ?thesis using assms u r del unfolding m' by (auto simp: sets_bounded_def configured_sets_def count_all_sets)
  qed (use assms in simp)
qed

lemma delete_names_bounded:
  "sets_bounded m \<Longrightarrow> delete_names refs n d m a b = (a', b', m') \<Longrightarrow> sets_bounded m' \<and> configured_sets m' = configured_sets m"
proof (induction n arbitrary: d m a b)
  case (Suc n)
  show ?case
  proof (cases "\<exists>domain list d'. More d \<and> parseObjectNameElem d = (Inr (domain, list), d')")
    case True
    then obtain domain list d' where p: "More d" "parseObjectNameElem d = (Inr (domain, list), d')" by blast
    obtain gone m1 where g: "deleteDataset refs domain list m = (gone, m1)" by fastforce
    have b1: "sets_bounded m1" "configured_sets m1 = configured_sets m"
      using deleteDataset_bounded [OF Suc.prems(1), of refs domain list] g by simp_all
    have "delete_names refs n d' m1 (a + 1) (if gone then b + 1 else b) = (a', b', m')" using Suc.prems(2) p g by simp
    from Suc.IH [OF b1(1) this] b1(2) show ?thesis by simp
  next
    case False
    then have "m' = m" using Suc.prems(2) by (auto split: if_splits prod.splits sum.splits)
    then show ?thesis using Suc.prems(1) by simp
  qed
qed simp

datatype list_request = Define "byte list" | Delete "string list" "byte list"

text \<open>A request and the references the control blocks hold while it is served.\<close>

fun list_step :: "list_request \<Rightarrow> IEDModel \<Rightarrow> IEDModel" where
  "list_step (Define content) m = snd (defineNVL content m)"
| "list_step (Delete refs content) m = snd (deleteNVL refs content m)"

lemma list_step_bounded:
  assumes "sets_bounded m"
  shows "sets_bounded (list_step r m) \<and> configured_sets (list_step r m) = configured_sets m"
proof (cases r)
  case (Define content)
  have "list_step r m = m \<or> (\<exists>domain lnName dsName n d entries.
      read_entries n d [] = Inr entries \<and> list_step r m = snd (add_list m domain lnName dsName entries))"
    by (simp add: Define defineNVL_def Let_def split: prod.splits sum.splits if_splits) blast
  then show ?thesis using assms add_list_bounded [OF assms] read_entries_bound by auto
next
  case (Delete refs content)
  have "list_step r m = m \<or> (\<exists>n d a b. delete_names refs n d m 0 0 = (a, b, list_step r m))"
    by (simp add: Delete deleteNVL_def Let_def split: prod.splits sum.splits option.splits) metis
  then show ?thesis using assms delete_names_bounded [OF assms] by metis
qed

section \<open>On the wire\<close>

text \<open>The octets of an object name and of a list entry.\<close>

definition name_octets :: "string \<Rightarrow> string \<Rightarrow> byte list" where
  "name_octets domain item =
     (if domain = [] then tlv (ContextPrimitive 0) (octets_of item)
      else tlv (ContextConstructed 1) (tlv TagVisibleString (octets_of domain) @ tlv TagVisibleString (octets_of item)))"

definition entry_octets :: "string \<Rightarrow> string \<Rightarrow> byte list" where
  "entry_octets domain item = tlv TagSequence (tlv (ContextConstructed 0) (name_octets domain item))"

definition short :: "string \<Rightarrow> bool" where "short s = (length s < 2 ^ 16)"

lemma Number_seq [simp]: "Number TagSequence = 16" "TagSequence\<lparr>Constructed := True\<rparr> = TagSequence"
  by (simp_all add: tag_defs)

lemma name_encode [simp]:
  "Encode (objectName domain item) = name_octets domain item" "el_ok (objectName domain item)"
  "domain \<noteq> [] \<Longrightarrow> Encode (domainSpecificName domain item) = name_octets domain item" "el_ok (domainSpecificName domain item)"
  by (simp_all add: objectName_def domainSpecificName_def name_octets_def Encode_Prim Encode_Cons_el map_filter_simps)

lemma entry_encode [simp]:
  "Encode (variableEntry domain item) = entry_octets domain item" "el_ok (variableEntry domain item)"
  by (simp_all add: variableEntry_def entry_octets_def Encode_Cons_el map_filter_simps)

lemma name_octets_length:
  assumes "short domain" "short item"
  shows "length (name_octets domain item) < 2 ^ 18" "length (entry_octets domain item) < 2 ^ 19"
    "length (tlv (ContextConstructed 0) (name_octets domain item)) < 2 ^ 19"
proof -
  note a = length_tlv_le(1) [of TagVisibleString "octets_of domain"] length_tlv_le(1) [of TagVisibleString "octets_of item"]
    length_tlv_le(1) [of "ContextPrimitive 0" "octets_of item"]
    length_tlv_le(1) [of "ContextConstructed 1" "tlv TagVisibleString (octets_of domain) @ tlv TagVisibleString (octets_of item)"]
  show n: "length (name_octets domain item) < 2 ^ 18" using a assms by (simp add: name_octets_def short_def)
  show "length (entry_octets domain item) < 2 ^ 19" "length (tlv (ContextConstructed 0) (name_octets domain item)) < 2 ^ 19"
    using n length_tlv_le(1) [of "ContextConstructed 0" "name_octets domain item"]
      length_tlv_le(1) [of TagSequence "tlv (ContextConstructed 0) (name_octets domain item)"] by (simp_all add: entry_octets_def)
qed

lemma name_parts_length:
  assumes "short domain" "short item"
  shows "length (tlv TagVisibleString (octets_of domain) @ tlv TagVisibleString (octets_of item)) < 2 ^ 32"
  using length_tlv_le(1) [of TagVisibleString "octets_of domain"] length_tlv_le(1) [of TagVisibleString "octets_of item"] assms
  by (simp add: short_def)

lemma parse_name_at [codec_simps]:
  assumes "short domain" "short item"
  shows "parseObjectNameElem (at_pos pre (name_octets domain item @ r)) = (Inr (domain, item), at_pos (pre @ name_octets domain item) r)"
    "parseObjectNameElem (at_pos pre (name_octets domain item)) = (Inr (domain, item), at_pos (pre @ name_octets domain item) [])"
proof -
  have l: "length (octets_of domain) < 2 ^ 32" "length (octets_of item) < 2 ^ 32" using assms by (simp_all add: short_def)
  have t: "ContextPrimitive (0::32 word) \<noteq> ContextConstructed 1" by (simp add: tag_defs)
  note p = name_parts_length [OF assms]
  show "parseObjectNameElem (at_pos pre (name_octets domain item @ r)) = (Inr (domain, item), at_pos (pre @ name_octets domain item) r)" for r
    using l p t
    by (cases "domain = []") (simp_all add: parseObjectNameElem_def name_octets_def codec_simps NewDecoder_at [of "_ @ _"])
  from this [of "[]"] show "parseObjectNameElem (at_pos pre (name_octets domain item)) = (Inr (domain, item), at_pos (pre @ name_octets domain item) [])"
    by simp
qed

lemma parseVarSpec_entry:
  assumes "short domain" "short item"
  shows "parseVarSpec (tlv (ContextConstructed 0) (name_octets domain item)) = Inr (domain, item)"
  using name_octets_length [OF assms] assms
  by (simp add: parseVarSpec_def parseObjectName_def NewDecoder_at [of "tlv _ _"] NewDecoder_at [of "name_octets _ _"] codec_simps)

lemma read_member_entry:
  assumes "short domain" "short item" "domain \<noteq> []" "unread d = entry_octets domain item @ r"
  shows "read_member d = (Inr \<lparr>lm_Ref = \<lparr>vr_Domain = domain, vr_Item = item\<rparr>, lm_AlternateAccess = None\<rparr>, adv d (length (entry_octets domain item)))"
proof -
  have l: "length (octets_of domain) < 2 ^ 32" "length (octets_of item) < 2 ^ 32" using assms by (simp_all add: short_def)
  note n = name_octets_length [OF assms(1,2)]
  have "mms_parseObjectName (name_octets domain item) = Inr \<lparr>vr_Domain = domain, vr_Item = item\<rparr>"
    using l name_parts_length [OF assms(1,2)] assms(3)
    by (simp add: mms_parseObjectName_def name_octets_def NewDecoder_at [of "tlv _ _"] NewDecoder_at [of "_ @ _"] codec_simps)
      (simp add: tag_defs)
  then have "parse_member (tlv (ContextConstructed 0) (name_octets domain item)) = Inr \<lparr>lm_Ref = \<lparr>vr_Domain = domain, vr_Item = item\<rparr>, lm_AlternateAccess = None\<rparr>"
    using n by (simp add: parse_member_def NewDecoder_at [of "tlv _ _"] codec_simps optional_or_error_def)
  then show ?thesis using Expect_tlv [of d TagSequence "tlv (ContextConstructed 0) (name_octets domain item)" r] n assms(4)
    by (simp add: read_member_def entry_octets_def)
qed

interpretation members: tlv_view "\<lambda>m. entry_octets (fst m) (snd m)"
  "\<lambda>m. \<lparr>lm_Ref = \<lparr>vr_Domain = fst m, vr_Item = snd m\<rparr>, lm_AlternateAccess = None\<rparr>" read_member
  "\<lambda>m. short (fst m) \<and> short (snd m) \<and> fst m \<noteq> []"
  by unfold_locales (auto simp: read_member_entry, simp add: entry_octets_def)

definition entries_octets :: "(string \<times> string) list \<Rightarrow> byte list" where
  "entries_octets ms = concat (map (\<lambda>m. entry_octets (fst m) (snd m)) ms)"

abbreviation wire_ok :: "(string \<times> string) list \<Rightarrow> bool" where
  "wire_ok ms \<equiv> list_all (\<lambda>m. short (fst m) \<and> short (snd m) \<and> fst m \<noteq> []) ms \<and> length ms \<le> maxDynamicDataSetEntries"

lemma entries_octets_length: "wire_ok ms \<Longrightarrow> length (entries_octets ms) < 2 ^ 30"
proof -
  assume ok: "wire_ok ms"
  have "length (entries_octets ms) \<le> length ms * 2 ^ 19"
  proof -
    have "sum_list (map (\<lambda>m. length (entry_octets (fst m) (snd m))) ms) \<le> sum_list (map (\<lambda>m. 2 ^ 19) ms)"
      using ok name_octets_length(2) by (intro sum_list_mono) (fastforce simp: list_all_iff intro: less_imp_le)
    then show ?thesis by (simp add: entries_octets_def length_concat o_def sum_list_triv)
  qed
  also have "\<dots> \<le> 1024 * 2 ^ 19" using ok by (intro mult_right_mono) (simp_all add: maxDynamicDataSetEntries_def)
  also have "\<dots> < 2 ^ 30" by simp
  finally show ?thesis .
qed

definition to_fcda :: "string \<times> string \<Rightarrow> FCDA" where
  "to_fcda m = (case FromMMS (fst m) (snd m) of (ref, fc) \<Rightarrow> \<lparr>fcda_Ref = ref, fcda_FC = fc, fcda_FCName = []\<rparr>)"

lemma read_entries_octets:
  assumes "list_all (\<lambda>m. short (fst m) \<and> short (snd m) \<and> fst m \<noteq> []) ms" "length acc + length ms \<le> maxDynamicDataSetEntries"
    "unread d = entries_octets ms" "length (unread d) \<le> n"
  shows "read_entries n d acc = Inr (acc @ map to_fcda ms)"
  using assms
proof (induction n arbitrary: d ms acc)
  case 0
  then have "ms = []" by (cases ms) (auto simp: entries_octets_def entry_octets_def)
  then show ?case using 0 by (simp add: More_unread entries_octets_def)
next
  case (Suc n)
  show ?case
  proof (cases ms)
    case Nil
    then show ?thesis using Suc.prems by (simp add: More_unread entries_octets_def)
  next
    case (Cons m ms')
    let ?c = "tlv (ContextConstructed 0) (name_octets (fst m) (snd m))"
    have ok: "short (fst m)" "short (snd m)" using Suc.prems(1) Cons by simp_all
    have un: "unread d = tlv TagSequence ?c @ entries_octets ms'"
      using Suc.prems(3) Cons by (simp add: entries_octets_def entry_octets_def)
    have e: "Expect TagSequence d = (Inr ?c, adv d (length (tlv TagSequence ?c)))"
      using Expect_tlv [OF un] name_octets_length(3) [OF ok] by simp
    have f: "parse_fcda ?c = Inr (to_fcda m)"
      using parseVarSpec_entry [OF ok] by (simp add: parse_fcda_def to_fcda_def split: prod.splits)
    have "0 < length (tlv TagSequence ?c)" by simp
    then have "length (entries_octets ms') \<le> n" using Suc.prems(4) unfolding un length_append by linarith
    then have "read_entries n (adv d (length (tlv TagSequence ?c))) (acc @ [to_fcda m]) = Inr ((acc @ [to_fcda m]) @ map to_fcda ms')"
      using Suc.prems(1,2) Cons unread_adv [OF un] by (intro Suc.IH) simp_all
    then show ?thesis using e f Suc.prems(2) Cons un by (simp add: More_unread)
  qed
qed

lemma Encode_define_request:
  "el_content (define_list_request domain list (map (\<lambda>m. \<lparr>vr_Domain = fst m, vr_Item = snd m\<rparr>) ms))
     = name_octets domain list @ tlv (ContextConstructed 0) (entries_octets ms)"
  by (simp add: define_list_request_def Cons_el_def [of "ContextConstructed svcDefineNamedVarList"] map_filter_simps
      Encode_Cons_el entries_octets_def list_all_iff o_def)

lemma defineNVL_request:
  assumes "short domain" "short list" "wire_ok ms" "cut (CHR ''$'') list = (lnName, dsName, True)"
  shows "defineNVL (el_content (define_list_request domain list (map (\<lambda>m. \<lparr>vr_Domain = fst m, vr_Item = snd m\<rparr>) ms))) m
    = add_list m domain lnName dsName (map to_fcda ms)"
proof -
  have "length (entries_octets ms) < 2 ^ 32" using entries_octets_length [OF assms(3)] by simp
  moreover have "read_entries (length (entries_octets ms)) (NewDecoder (entries_octets ms)) [] = Inr (map to_fcda ms)"
    using read_entries_octets [of ms "[]" "NewDecoder (entries_octets ms)"] assms(3) by simp
  ultimately show ?thesis using assms(1,2,4)
    by (simp add: defineNVL_def Encode_define_request NewDecoder_at [of "_ @ _"] codec_simps optional_or_error_def)
qed

lemma parse_define_ok: "parse_define (Encode (Prim (ContextPrimitive svcDefineNamedVarList) [])) = Inr ()"
  by (simp add: parse_define_def Encode_Prim svc_defs PeekIs_def NewDecoder_at [of "tlv _ _"] codec_simps split: sum.splits)

lemma list_attributes_encode:
  assumes "\<forall>m \<in> set ms. fst m \<noteq> []"
  shows "Encode (list_attributes_response ms) =
    tlv (ContextConstructed svcGetNamedVarListAttr) (tlv (ContextPrimitive 0) [0] @ tlv (ContextConstructed 1) (entries_octets ms))"
proof -
  have "map Encode (map (\<lambda>m. Cons_el TagSequence [Some (Cons_el (ContextConstructed 0) [Some (domainSpecificName (fst m) (snd m))])]) ms)
      = map (\<lambda>m. entry_octets (fst m) (snd m)) ms"
    using assms by (auto simp: Encode_Cons_el map_filter_simps entry_octets_def)
  then show ?thesis
    by (simp add: list_attributes_response_def Encode_Cons_el map_filter_simps svc_defs BoolElem_def Encode_Prim entries_octets_def
        list_all_iff del: map_map)
qed

lemma parse_list_attributes_response:
  assumes "wire_ok ms"
  shows "parse_list_attributes (Encode (list_attributes_response ms))
    = Inr (map (\<lambda>m. \<lparr>lm_Ref = \<lparr>vr_Domain = fst m, vr_Item = snd m\<rparr>, lm_AlternateAccess = None\<rparr>) ms, False)"
proof -
  have e: "Encode (list_attributes_response ms) =
    tlv (ContextConstructed svcGetNamedVarListAttr) (tlv (ContextPrimitive 0) [0] @ tlv (ContextConstructed 1) (entries_octets ms))"
    using list_attributes_encode assms by (simp add: list_all_iff)
  note l = entries_octets_length [OF assms]
  have r: "read_all read_member (NewDecoder (entries_octets ms))
      = Inr (map (\<lambda>m. \<lparr>lm_Ref = \<lparr>vr_Domain = fst m, vr_Item = snd m\<rparr>, lm_AlternateAccess = None\<rparr>) ms)"
    by (rule members.read_all_view) (use assms in \<open>simp_all add: entries_octets_def\<close>)
  have "length (tlv (ContextPrimitive 0) [0] @ tlv (ContextConstructed 1) (entries_octets ms)) < 2 ^ 32"
    using length_tlv_le(1) [of "ContextPrimitive 0" "[0]"] length_tlv_le(1) [of "ContextConstructed 1" "entries_octets ms"] l by simp
  then show ?thesis using l r
    by (simp add: parse_list_attributes_def service_content_def e parseListMembers_def NewDecoder_at [of "tlv _ _"] NewDecoder_at [of "_ @ _"]
        codec_simps optional_or_error_def) (simp add: DecodeBool_def go_index_def)
qed

lemma getNVLAttrs_request:
  assumes "short domain" "short list"
  shows "getNVLAttrs m (el_content (list_attributes_request domain list)) =
    (let members = datasetMembers m domain list in
     if members = [] then Inl (Err (ReqAccess AccessObjectNonExistent)) else Inr (list_attributes_response members))"
  using assms by (simp add: getNVLAttrs_def list_attributes_request_def Cons_el_def [of "ContextConstructed svcGetNamedVarListAttr"] map_filter_simps
      parseObjectName_def NewDecoder_at [of "name_octets _ _"] codec_simps)

lemma delete_request_content:
  "el_content (delete_list_request domain list) = tlv (ContextConstructed 1) (name_octets domain list)"
  by (simp add: delete_list_request_def Cons_el_def [of "ContextConstructed svcDeleteNamedVarList"] map_filter_simps Encode_Cons_el)

lemma deleteNVL_request:
  assumes "short domain" "short list"
  shows "deleteNVL refs (el_content (delete_list_request domain list)) m =
    (case deleteDataset refs domain list m of (gone, m') \<Rightarrow> (Inr (delete_response 1 (if gone then 1 else 0)), m'))"
proof -
  have l: "length (name_octets domain list) < 2 ^ 32" using name_octets_length(1) [OF assms] by simp
  have t: "ContextConstructed (1::32 word) \<noteq> ContextPrimitive 0" by (simp add: tag_defs)
  obtain n where n: "length (name_octets domain list) = Suc n"
    by (cases "length (name_octets domain list)") (auto simp: name_octets_def split: if_splits)
  have "delete_names refs (Suc n) (at_pos [] (name_octets domain list)) m 0 0
      = (case deleteDataset refs domain list m of (gone, m') \<Rightarrow> (1, if gone then 1 else 0, m'))"
    using assms n by (cases n) (auto simp: codec_simps split: prod.splits)
  then show ?thesis using l t n
    by (simp add: deleteNVL_def delete_request_content NewDecoder_at [of "tlv _ _"] NewDecoder_at [of "name_octets _ _"] codec_simps
        optional_or_error_def optional_ignoring_def split: prod.splits)
qed

lemma parse_delete_response:
  assumes "matched < 2 ^ 64" "deleted < 2 ^ 64"
  shows "parse_delete (Encode (delete_response matched deleted)) =
    (if deleted > 0 then Inr () else if matched = 0 then Inl (Err (AccessFailed 10)) else Inl (Err NotDeleted))"
proof -
  have ok: "uint64_ok matched" "uint64_ok deleted" using assms by (simp_all add: uint64_ok_def)
  note l = length_uint_octets [OF ok(1)] length_uint_octets [OF ok(2)]
  have e: "Encode (delete_response matched deleted) = tlv (ContextConstructed svcDeleteNamedVarList)
      (tlv (ContextPrimitive 0) (uint_octets matched) @ tlv (ContextPrimitive 1) (uint_octets deleted))"
    by (simp add: delete_response_def Encode_Cons_el map_filter_simps svc_defs UintElem_def Encode_Prim)
  have b: "length (tlv (ContextPrimitive 0) (uint_octets matched) @ tlv (ContextPrimitive 1) (uint_octets deleted)) < 2 ^ 32"
    using l length_tlv_le(1) [of "ContextPrimitive 0" "uint_octets matched"] length_tlv_le(1) [of "ContextPrimitive 1" "uint_octets deleted"]
    by simp
  have u: "uint_or_zero (uint_octets matched) = matched" "uint_or_zero (uint_octets deleted) = deleted"
    using ok by (simp_all add: uint_or_zero_def DecodeUint_AppendUint)
  show ?thesis using b l u
    by (simp add: parse_delete_def service_content_def e NewDecoder_at [of "tlv _ _"] NewDecoder_at [of "_ @ _"] codec_simps)
qed

section \<open>The life of a data set\<close>

lemma update_first_comp:
  assumes "\<And>x. P x \<Longrightarrow> P (f x)"
  shows "update_first P g (update_first P f xs) = update_first P (\<lambda>x. g (f x)) xs"
  using assms by (induction xs) auto

lemma update_first_id: "(\<And>x. find P xs = Some x \<Longrightarrow> f x = x) \<Longrightarrow> update_first P f xs = xs"
  by (induction xs) auto

lemma node_update_comp:
  "(\<And>ln. ln_Name (f ln) = ln_Name ln) \<Longrightarrow> node_update d l g (node_update d l f m) = node_update d l (\<lambda>ln. g (f ln)) m"
  by (simp add: node_update_def update_first_comp)

lemma node_update_id:
  assumes "node_of m d l = Some ln" "f ln = ln"
  shows "node_update d l f m = m"
proof -
  have "update_first (\<lambda>ld. ld_Name ld = d) (\<lambda>ld. ld\<lparr>ld_Nodes := update_first (\<lambda>ln. ln_Name ln = l) f (ld_Nodes ld)\<rparr>) (m_Devices m) = m_Devices m"
  proof (rule update_first_id)
    fix ld assume "find (\<lambda>ld. ld_Name ld = d) (m_Devices m) = Some ld"
    then have "find (\<lambda>ln. ln_Name ln = l) (ld_Nodes ld) = Some ln" using assms(1) by (simp add: node_of_def Device_def ld_Node_def)
    then have "update_first (\<lambda>ln. ln_Name ln = l) f (ld_Nodes ld) = ld_Nodes ld" using assms(2) by (intro update_first_id) simp
    then show "ld\<lparr>ld_Nodes := update_first (\<lambda>ln. ln_Name ln = l) f (ld_Nodes ld)\<rparr> = ld" by simp
  qed
  then show ?thesis by (simp add: node_update_def)
qed

lemma node_of_update:
  assumes "\<And>ln. ln_Name (f ln) = ln_Name ln"
  shows "node_of (node_update d l f m) d l = map_option f (node_of m d l)"
proof -
  have "find (\<lambda>ld. ld_Name ld = d) (m_Devices (node_update d l f m))
      = map_option (\<lambda>ld. ld\<lparr>ld_Nodes := update_first (\<lambda>ln. ln_Name ln = l) f (ld_Nodes ld)\<rparr>) (find (\<lambda>ld. ld_Name ld = d) (m_Devices m))"
    by (simp add: node_update_def find_name_same)
  then show ?thesis using assms
    by (auto simp: node_of_def Device_def ld_Node_def find_name_same split: option.splits)
qed

lemma datasetMembers_node:
  "datasetMembers m domain list =
     (case cut (CHR ''$'') list of (lnName, dsName, ok) \<Rightarrow>
        if \<not> ok then []
        else case node_of m domain lnName of
          None \<Rightarrow> []
        | Some ln \<Rightarrow> (case ln_DataSet ln dsName of None \<Rightarrow> [] | Some ds \<Rightarrow> map (\<lambda>e. ToMMS (fcda_Ref e) (fcda_FC e)) (ds_Entries ds)))"
  by (auto simp: datasetMembers_def node_of_def split: option.splits prod.splits)

lemma find_append_new: "find P xs = None \<Longrightarrow> P x \<Longrightarrow> find P (xs @ [x]) = Some x"
  by (induction xs) auto

lemma remove_first_append_new: "find P xs = None \<Longrightarrow> P x \<Longrightarrow> remove_first P (xs @ [x]) = xs"
  by (induction xs) (auto split: if_splits)

lemma new_list_simps [simp]:
  "ln_Name (new_list dsName entries ln) = ln_Name ln" "ln_GSEControls (new_list dsName entries ln) = ln_GSEControls ln"
  "ln_SVControls (new_list dsName entries ln) = ln_SVControls ln"
  "ln_DataSet ln dsName = None \<Longrightarrow> ln_DataSet (new_list dsName entries ln) dsName = Some \<lparr>ds_Name = dsName, ds_Entries = entries, ds_Deletable = True\<rparr>"
  by (simp_all add: new_list_def ln_DataSet_def find_append_new)

lemma deleteDataset_new:
  assumes "node_of m domain lnName = Some ln" "ln_DataSet ln dsName = None" "cut (CHR ''$'') list = (lnName, dsName, True)"
  shows "deleteDataset refs domain list (node_update domain lnName (new_list dsName entries) m)
    = (if dataSetInUse refs m domain lnName dsName then (False, node_update domain lnName (new_list dsName entries) m) else (True, m))"
proof -
  let ?m = "node_update domain lnName (new_list dsName entries) m"
  have n: "node_of ?m domain lnName = Some (new_list dsName entries ln)" using node_of_update [of "new_list dsName entries"] assms(1) by simp
  then have d: "Device ?m domain \<noteq> None" by (auto simp: node_of_def split: option.splits)
  have u: "dataSetInUse refs ?m domain lnName dsName = dataSetInUse refs m domain lnName dsName"
    by (simp add: dataSetInUse_def n assms(1))
  have "node_update domain lnName (\<lambda>ln. ln\<lparr>ln_DataSets := remove_first (\<lambda>d. ds_Name d = dsName) (ln_DataSets ln)\<rparr>) ?m = m"
    unfolding node_update_comp [of "new_list dsName entries", OF new_list_simps(1)]
    by (rule node_update_id [OF assms(1)]) (use assms(2) in \<open>simp add: new_list_def ln_DataSet_def remove_first_append_new\<close>)
  then show ?thesis using n d u assms(2,3) by (auto simp: deleteDataset_def)
qed

section \<open>Properties\<close>

text \<open>(C25) Client-defined data sets are bounded whatever requests arrive: at most 256 of them with at most 1024
  members each, and no request adds, changes or removes a configured one.\<close>

theorem dynamic_lists_bounded:
  assumes "countDynamicDataSets m \<le> 256" and "\<forall>ds \<in> set (all_sets m). ds_Deletable ds \<longrightarrow> length (ds_Entries ds) \<le> 1024"
  shows "countDynamicDataSets (fold list_step requests m) \<le> 256
    \<and> (\<forall>ds \<in> set (all_sets (fold list_step requests m)). ds_Deletable ds \<longrightarrow> length (ds_Entries ds) \<le> 1024)
    \<and> configured_sets (fold list_step requests m) = configured_sets m"
proof -
  have "sets_bounded m" using assms by (simp add: sets_bounded_def maxDynamicDataSets_def maxDynamicDataSetEntries_def)
  then have "sets_bounded (fold list_step requests m) \<and> configured_sets (fold list_step requests m) = configured_sets m"
    by (induction requests arbitrary: m) (auto simp: list_step_bounded)
  then show ?thesis by (simp add: sets_bounded_def maxDynamicDataSets_def maxDynamicDataSetEntries_def)
qed

text \<open>The life of a data set between a client and a server: a definition the limits admit is stored, its members
  are read back as the references the client named, and it can be deleted, leaving the model as it was,
  unless a control block refers to it.\<close>

theorem dynamic_list_lifecycle:
  fixes members :: "(ObjectReference \<times> FC) list"
  defines "names \<equiv> map (\<lambda>(r, fc). ToMMS r fc) members"
  defines "refs \<equiv> map (\<lambda>n. \<lparr>vr_Domain = fst n, vr_Item = snd n\<rparr>) names"
  assumes "node_of m domain lnName = Some ln" "ln_DataSet ln dsName = None" "CHR ''$'' \<notin> set lnName" "countDynamicDataSets m < 256"
    "members \<noteq> []" "length members \<le> 1024"
    "\<forall>(r, fc) \<in> set members. ref_Valid r \<and> CHR ''$'' \<notin> set r \<and> unat fc < 22 \<and> fc \<noteq> FCNone \<and> fc \<noteq> fc_ALL"
    "\<forall>(d, i) \<in> set names. length d < 2 ^ 16 \<and> length i < 2 ^ 16" "length domain < 2 ^ 16" "length (lnName @ CHR ''$'' # dsName) < 2 ^ 16"
  shows "\<exists>m1. DefineNamedVariableList (serve defineNVL) domain (lnName @ CHR ''$'' # dsName) refs m = (Inr (), m1)
    \<and> GetNamedVariableListAttributes (serve (\<lambda>c m. (getNVLAttrs m c, m))) domain (lnName @ CHR ''$'' # dsName) m1 = (Inr refs, m1)
    \<and> DeleteNamedVariableList (serve (deleteNVL used)) domain (lnName @ CHR ''$'' # dsName) m1
        = (if dataSetInUse used m domain lnName dsName then (Inl (Err NotDeleted), m1) else (Inr (), m))"
proof -
  let ?list = "lnName @ CHR ''$'' # dsName"
  let ?m1 = "node_update domain lnName (new_list dsName (map to_fcda names)) m"
  have cut: "cut (CHR ''$'') ?list = (lnName, dsName, True)" using assms(5) by (rule cut_append)
  have sh: "short domain" "short ?list" using assms(11,12) by (simp_all add: short_def)
  have ld: "ref_LD r \<noteq> []" if "ref_Valid r" for r
    using that by (auto simp: ref_Valid_def ref_LD_def split: prod.splits)
  have wire: "wire_ok names"
    using assms(8-10) ld by (fastforce simp: names_def list_all_iff short_def maxDynamicDataSetEntries_def ToMMS_def Let_def split: if_splits)
  have inv: "ToMMS (fcda_Ref (to_fcda n)) (fcda_FC (to_fcda n)) = n" if "n \<in> set names" for n
  proof -
    obtain r fc where rf: "(r, fc) \<in> set members" "n = ToMMS r fc" using \<open>n \<in> set names\<close> by (auto simp: names_def)
    then have "(case ToMMS r fc of (domain, item) \<Rightarrow> FromMMS domain item) = (r, fc)"
      using assms(9) FromMMS_ToMMS [of r fc] by fastforce
    then show ?thesis using rf(2) by (simp add: to_fcda_def split: prod.splits)
  qed
  have add: "add_list m domain lnName dsName (map to_fcda names) = (Inr (Prim (ContextPrimitive svcDefineNamedVarList) []), ?m1)"
    using assms(3,4,6) by (simp add: add_list_def maxDynamicDataSets_def)
  have "DefineNamedVariableList (serve defineNVL) domain ?list refs m = (Inr (), ?m1)"
    using defineNVL_request [OF sh wire cut, of m] add parse_define_ok
    by (simp add: DefineNamedVariableList_def call_then_def serve_def refs_def)
  moreover have "datasetMembers ?m1 domain ?list = names"
  proof -
    have "node_of ?m1 domain lnName = Some (new_list dsName (map to_fcda names) ln)"
      using node_of_update [of "new_list dsName (map to_fcda names)"] assms(3) by simp
    then show ?thesis using cut assms(4) inv by (simp add: datasetMembers_node map_idI)
  qed
  then have "GetNamedVariableListAttributes (serve (\<lambda>c m. (getNVLAttrs m c, m))) domain ?list ?m1 = (Inr refs, ?m1)"
    using getNVLAttrs_request [OF sh, of ?m1] parse_list_attributes_response [OF wire] assms(7)
    by (simp add: GetNamedVariableListAttributes_def GetNamedVariableListMembers_def call_then_def serve_def names_def refs_def o_def)
  moreover have "DeleteNamedVariableList (serve (deleteNVL used)) domain ?list ?m1
      = (if dataSetInUse used m domain lnName dsName then (Inl (Err NotDeleted), ?m1) else (Inr (), m))"
    using deleteNVL_request [OF sh, of used ?m1] deleteDataset_new [OF assms(3,4) cut, of used "map to_fcda names"]
      parse_delete_response [of 1 0] parse_delete_response [of 1 1]
    by (simp add: DeleteNamedVariableList_def call_then_def serve_def)
  ultimately show ?thesis by blast
qed

section \<open>Examples\<close>

definition ex_list_model :: IEDModel where
  "ex_list_model = \<lparr>m_Name = [], m_Devices = [\<lparr>ld_Name = ''LD'', ld_Inst = [], ld_Nodes = [plain_node ''LLN0'' []]\<rparr>], m_SettingGroups = []\<rparr>"

theorem dynamic_lists_bounded_witness:
  "countDynamicDataSets (fold list_step [Define [], Delete [] [0xa1, 0x02, 0x80, 0x00]] ex_list_model) \<le> 256
    \<and> configured_sets (fold list_step [Define [], Delete [] [0xa1, 0x02, 0x80, 0x00]] ex_list_model) = []"
proof -
  have "countDynamicDataSets ex_list_model \<le> 256" "all_sets ex_list_model = []" by code_simp+
  then show ?thesis using dynamic_lists_bounded [of ex_list_model "[Define [], Delete [] [0xa1, 0x02, 0x80, 0x00]]"]
    by (simp add: configured_sets_def)
qed

theorem dynamic_list_lifecycle_witness:
  "\<exists>m1. DefineNamedVariableList (serve defineNVL) ''LD'' ''LLN0$ds'' [\<lparr>vr_Domain = ''LD'', vr_Item = ''LLN0$ST$Mod$stVal''\<rparr>] ex_list_model = (Inr (), m1)
    \<and> GetNamedVariableListAttributes (serve (\<lambda>c m. (getNVLAttrs m c, m))) ''LD'' ''LLN0$ds'' m1
        = (Inr [\<lparr>vr_Domain = ''LD'', vr_Item = ''LLN0$ST$Mod$stVal''\<rparr>], m1)
    \<and> DeleteNamedVariableList (serve (deleteNVL [])) ''LD'' ''LLN0$ds'' m1 = (Inr (), ex_list_model)"
proof -
  have n: "node_of ex_list_model ''LD'' ''LLN0'' = Some (plain_node ''LLN0'' [])" "ln_DataSet (plain_node ''LLN0'' []) ''ds'' = None"
    "countDynamicDataSets ex_list_model < 256" by code_simp+
  have t: "ToMMS ''LD/LLN0.Mod.stVal'' fc_ST = (''LD'', ''LLN0$ST$Mod$stVal'')" by code_simp
  have v: "ref_Valid ''LD/LLN0.Mod.stVal''" "unat fc_ST < 22" "fc_ST \<noteq> FCNone" "fc_ST \<noteq> fc_ALL" by code_simp+
  have u: "\<not> dataSetInUse [] ex_list_model ''LD'' ''LLN0'' ''ds''" by code_simp
  show ?thesis
    using dynamic_list_lifecycle [where members = "[(''LD/LLN0.Mod.stVal'', fc_ST)]" and used = "[]", OF n(1,2) _ n(3)] t v u by simp
qed

text \<open>A data set defined without members is stored and listed, but the server answers that it does not
  exist when asked for its attributes.\<close>

theorem empty_list_unreadable:
  assumes "node_of m domain lnName = Some ln" "ln_DataSet ln dsName = None" "countDynamicDataSets m < 256"
  shows "\<exists>m1. add_list m domain lnName dsName [] = (Inr (Prim (ContextPrimitive svcDefineNamedVarList) []), m1)
    \<and> (CHR ''$'' \<notin> set lnName \<longrightarrow> datasetMembers m1 domain (lnName @ CHR ''$'' # dsName) = [])
    \<and> node_of m1 domain lnName = Some (new_list dsName [] ln)"
  using assms node_of_update [of "new_list dsName []" domain lnName m]
  by (auto simp: add_list_def maxDynamicDataSets_def datasetMembers_node cut_append)

end
