(* ===== verification/SrvControl.thy ===== *)
theory SrvControl
  imports SrvTrack SrvDataSets
begin

text \<open>
  Controls (\<^verbatim>\<open>server/select.go\<close> and \<^verbatim>\<open>server/control.go\<close>): the selection of a control object before it is
  operated, the rules an operate has to pass, its effect on the process image, and the command
  termination of enhanced security. The handlers an application registers are a parameter. The clock
  is a parameter of every request, in nanoseconds.
\<close>

section \<open>Control models and causes\<close>

type_synonym CtlModel = "8 word"

definition CtlStatusOnly :: CtlModel where "CtlStatusOnly = 0"
definition CtlDirectNormal :: CtlModel where "CtlDirectNormal = 1"
definition CtlSBONormal :: CtlModel where "CtlSBONormal = 2"
definition CtlDirectEnhanced :: CtlModel where "CtlDirectEnhanced = 3"
definition CtlSBOEnhanced :: CtlModel where "CtlSBOEnhanced = 4"

definition HasSelect :: "CtlModel \<Rightarrow> bool" where "HasSelect c = (c = CtlSBONormal \<or> c = CtlSBOEnhanced)"
definition Enhanced :: "CtlModel \<Rightarrow> bool" where "Enhanced c = (c = CtlDirectEnhanced \<or> c = CtlSBOEnhanced)"

definition AddCauseNotSupported :: AddCause where "AddCauseNotSupported = 1"
definition AddCauseTimeLimitOver :: AddCause where "AddCauseTimeLimitOver = 16"
definition AddCauseObjectNotSelected :: AddCause where "AddCauseObjectNotSelected = 18"
definition AddCauseObjectAlreadySelected :: AddCause where "AddCauseObjectAlreadySelected = 19"
definition AddCauseInconsistentParameters :: AddCause where "AddCauseInconsistentParameters = 26"
definition AddCauseTestNotAllowed :: AddCause where "AddCauseTestNotAllowed = 28"

lemmas cause_defs = AddCauseUnknown_def AddCauseNone_def AddCauseNotSupported_def AddCauseTimeLimitOver_def AddCauseObjectNotSelected_def
  AddCauseObjectAlreadySelected_def AddCauseInconsistentParameters_def AddCauseTestNotAllowed_def

section \<open>Selections\<close>

record selection =
  sel_conn :: conn
  sel_expiry :: int
  sel_ctlNum :: "8 word"
  sel_hasCtlNum :: bool

type_synonym selections = "ObjectReference \<rightharpoonup> selection"

definition defaultSelectTimeout :: int where "defaultSelectTimeout = 30 * 10 ^ 9"

text \<open>\<^verbatim>\<open>time.Duration(...) * time.Millisecond\<close> wraps at 64 bits.\<close>

definition cfMillis :: "IEDModel \<Rightarrow> ObjectReference \<Rightarrow> string \<Rightarrow> int" where
  "cfMillis m ref name =
     (case Attribute m (ref_Child ref name) fc_CF of
        Some a \<Rightarrow> if da_Value a \<noteq> NilValue then sint (word_of_nat (value_Uint64 (da_Value a)) * 1000000 :: 64 word) else 0
      | None \<Rightarrow> 0)"

definition sboTimeout :: "IEDModel \<Rightarrow> ObjectReference \<Rightarrow> int" where
  "sboTimeout m ref = (let d = cfMillis m ref ''sboTimeout'' in if d > 0 then d else defaultSelectTimeout)"

definition operTimeout :: "IEDModel \<Rightarrow> ObjectReference \<Rightarrow> int" where
  "operTimeout m ref = cfMillis m ref ''operTimeout''"

definition reserve :: "IEDModel \<Rightarrow> int \<Rightarrow> ObjectReference \<Rightarrow> conn \<Rightarrow> 8 word \<Rightarrow> bool \<Rightarrow> selections \<Rightarrow> bool \<times> selections" where
  "reserve m now ref conn ctlNum hasCtlNum sels =
     (case sels ref of
        Some sel \<Rightarrow>
          if sel_conn sel \<noteq> conn \<and> now < sel_expiry sel then (False, sels)
          else (True, sels(ref \<mapsto> \<lparr>sel_conn = conn, sel_expiry = now + sboTimeout m ref, sel_ctlNum = ctlNum, sel_hasCtlNum = hasCtlNum\<rparr>))
      | None \<Rightarrow> (True, sels(ref \<mapsto> \<lparr>sel_conn = conn, sel_expiry = now + sboTimeout m ref, sel_ctlNum = ctlNum, sel_hasCtlNum = hasCtlNum\<rparr>)))"

definition selectSBO :: "IEDModel \<Rightarrow> int \<Rightarrow> ObjectReference \<Rightarrow> conn \<Rightarrow> selections \<Rightarrow> string \<times> selections" where
  "selectSBO m now ref conn sels =
     (let other = (case Attribute m (ref_Child ref ''ctlModel'') fc_CF of
            Some cm \<Rightarrow> da_Value cm \<noteq> NilValue \<and> word_of_int (value_Int64 (da_Value cm)) \<noteq> CtlSBONormal | None \<Rightarrow> False)
      in if other then ([], sels)
         else let (ok, sels') = reserve m now ref conn 0 False sels in if \<not> ok then ([], sels') else (ref, sels'))"

definition selectWithValue :: "IEDModel \<Rightarrow> int \<Rightarrow> ObjectReference \<Rightarrow> conn \<Rightarrow> 8 word \<Rightarrow> selections \<Rightarrow> bool \<times> selections" where
  "selectWithValue m now ref conn ctlNum sels = reserve m now ref conn ctlNum True sels"

definition checkSelection :: "int \<Rightarrow> ObjectReference \<Rightarrow> conn \<Rightarrow> 8 word \<Rightarrow> selections \<Rightarrow> AddCause" where
  "checkSelection now ref conn ctlNum sels =
     (case sels ref of
        None \<Rightarrow> AddCauseObjectNotSelected
      | Some sel \<Rightarrow>
          if sel_conn sel \<noteq> conn \<or> \<not> now < sel_expiry sel then AddCauseObjectNotSelected
          else if sel_hasCtlNum sel \<and> sel_ctlNum sel \<noteq> ctlNum then AddCauseInconsistentParameters
          else AddCauseNone)"

definition checkCancel :: "int \<Rightarrow> ObjectReference \<Rightarrow> conn \<Rightarrow> 8 word \<Rightarrow> selections \<Rightarrow> AddCause" where
  "checkCancel now ref conn ctlNum sels =
     (case sels ref of
        None \<Rightarrow> AddCauseNone
      | Some sel \<Rightarrow>
          if \<not> now < sel_expiry sel then AddCauseNone
          else if sel_conn sel \<noteq> conn then AddCauseObjectNotSelected
          else if sel_hasCtlNum sel \<and> sel_ctlNum sel \<noteq> ctlNum then AddCauseInconsistentParameters
          else AddCauseNone)"

definition clearSelection :: "ObjectReference \<Rightarrow> selections \<Rightarrow> selections" where
  "clearSelection ref sels = sels(ref := None)"

definition releaseSelections :: "conn \<Rightarrow> selections \<Rightarrow> selections" where
  "releaseSelections conn sels =
     (\<lambda>ref. case sels ref of Some sel \<Rightarrow> if sel_conn sel = conn then None else Some sel | None \<Rightarrow> None)"

definition requiresSelection :: "IEDModel \<Rightarrow> ObjectReference \<Rightarrow> bool" where
  "requiresSelection m ref =
     (case Attribute m (ref_Child ref ''ctlModel'') fc_CF of
        Some cm \<Rightarrow> da_Value cm \<noteq> NilValue \<and> HasSelect (word_of_int (value_Int64 (da_Value cm))) | None \<Rightarrow> False)"

definition ctlModel :: "IEDModel \<Rightarrow> ObjectReference \<Rightarrow> CtlModel \<times> bool" where
  "ctlModel m ref =
     (case Attribute m (ref_Child ref ''ctlModel'') fc_CF of
        Some cm \<Rightarrow> if da_Value cm = NilValue then (CtlDirectNormal, False) else (word_of_int (value_Int64 (da_Value cm)), True)
      | None \<Rightarrow> (CtlDirectNormal, False))"

section \<open>Names\<close>

definition phases :: "string list" where "phases = [''Oper'', ''SBOw'', ''Cancel'', ''SBO'']"

text \<open>The last part from position 3 on that names a phase.\<close>

fun last_phase :: "string list \<Rightarrow> string list \<Rightarrow> (string list \<times> string) option" where
  "last_phase before [] = None"
| "last_phase before (p # ps) =
     (case last_phase (before @ [p]) ps of
        Some r \<Rightarrow> Some r
      | None \<Rightarrow> if p \<in> set phases then Some (before, p) else None)"

definition splitControl :: "string \<Rightarrow> (string \<times> string) option" where
  "splitControl item =
     (case split_on (CHR ''$'') item of
        a # b # c # d # rest \<Rightarrow>
          if b \<noteq> ''CO'' then None
          else map_option (\<lambda>(before, p). (join_with (CHR ''$'') before, p)) (last_phase [a, b, c] (d # rest))
      | _ \<Rightarrow> None)"

text \<open>\<open>parts[0]\<close> is always there, and \<open>splitControl\<close> leaves at least three.\<close>

definition controlRef :: "string \<Rightarrow> string \<Rightarrow> ObjectReference" where
  "controlRef domain base =
     (let parts = split_on (CHR ''$'') base
      in domain @ CHR ''/'' # join_with (CHR ''.'') (hd parts # drop 2 parts))"

section \<open>The request\<close>

record ControlCtx =
  cx_Ref :: ObjectReference
  cx_Value :: Value
  cx_Origin :: "8 word"
  cx_OrIdent :: "byte list"
  cx_CtlNum :: "8 word"
  cx_Test :: bool
  cx_Interlock :: bool
  cx_Synchro :: bool
  cx_Select :: bool
  cx_T :: "Time option"
  cx_TQuality :: byte
  cx_Conn :: conn

definition maxOrIdentLen :: nat where "maxOrIdentLen = 64"

definition OrIdentLen :: "ControlCtx \<Rightarrow> nat" where "OrIdentLen ctx = length (cx_OrIdent ctx)"

definition emptyCtx :: "ObjectReference \<Rightarrow> conn \<Rightarrow> ControlCtx" where
  "emptyCtx ref conn = \<lparr>cx_Ref = ref, cx_Value = NilValue, cx_Origin = 0, cx_OrIdent = [], cx_CtlNum = 0, cx_Test = False,
     cx_Interlock = False, cx_Synchro = False, cx_Select = False, cx_T = None, cx_TQuality = 0, cx_Conn = conn\<rparr>"

definition decodeOper :: "ObjectReference \<Rightarrow> Value \<Rightarrow> conn \<Rightarrow> (mms_error, ControlCtx) result" where
  "decodeOper ref v conn =
     (let ctx = emptyCtx ref conn in
      if v = NilValue \<or> value_Type v \<noteq> TypeStructure then Inr ctx
      else
        let ctx = ctx\<lparr>cx_Value := value_Index v 0\<rparr>;
            origin = value_Index v 1;
            ctx = (if origin \<noteq> NilValue \<and> value_Type origin = TypeStructure
                   then ctx\<lparr>cx_Origin := word_of_int (value_Int64 (value_Index origin 0)), cx_OrIdent := value_Bytes (value_Index origin 1)\<rparr> else ctx);
            n = value_Index v 2;
            ctx = (if n \<noteq> NilValue then ctx\<lparr>cx_CtlNum := word_of_int (value_Int64 n)\<rparr> else ctx);
            t = value_Index v 3;
            ctx = (if t \<noteq> NilValue then ctx\<lparr>cx_T := value_Time t, cx_TQuality := TimeQualityFlags t\<rparr> else ctx);
            x = value_Index v 4;
            ctx = (if x \<noteq> NilValue then ctx\<lparr>cx_Test := value_Bool x\<rparr> else ctx);
            ck = value_Index v 5
        in if ck \<noteq> NilValue then
             rbind (value_Bit ck 0) (\<lambda>s. rbind (value_Bit ck 1) (\<lambda>i. Inr (ctx\<lparr>cx_Synchro := s, cx_Interlock := i\<rparr>)))
           else Inr ctx)"

section \<open>Reports\<close>

definition vmdSpecificName :: "string \<Rightarrow> Element" where
  "vmdSpecificName name = Prim (ContextPrimitive 0) (octets_of name)"

definition variable_entry :: "Element \<Rightarrow> Element" where
  "variable_entry name = Cons_el TagSequence [Some (Cons_el (ContextConstructed 0) [Some name])]"

definition information_report :: "Element list \<Rightarrow> Value list \<Rightarrow> Element" where
  "information_report names vs =
     Cons_el (ContextConstructed 0)
       [Some (Cons_el (ContextConstructed 0) (map (Some \<circ> variable_entry) names)),
        Some (Cons_el (ContextConstructed 0) (map DataElement vs))]"

definition lastApplErrorValue :: "string \<Rightarrow> string \<Rightarrow> ControlCtx \<Rightarrow> AddCause \<Rightarrow> Value" where
  "lastApplErrorValue domain ctlItem ctx cause =
     NewStructure
       [NewVisibleString (octets_of (domain @ CHR ''/'' # ctlItem)),
        NewInt8 0,
        NewStructure [NewInt8 (cx_Origin ctx), NewOctetString (cx_OrIdent ctx)],
        NewUint8 (cx_CtlNum ctx),
        NewInt8 cause]"

definition commandTerminationReport :: "string \<Rightarrow> string \<Rightarrow> Value \<Rightarrow> Element" where
  "commandTerminationReport domain item oper = information_report [domainSpecificName domain item] [oper]"

definition commandTerminationNegativeReport :: "string \<Rightarrow> string \<Rightarrow> Value \<Rightarrow> Value \<Rightarrow> Element" where
  "commandTerminationNegativeReport domain item oper lastApplError =
     information_report [vmdSpecificName ''LastApplError'', domainSpecificName domain item] [lastApplError, oper]"

definition lastApplErrorReport :: "string \<Rightarrow> string \<Rightarrow> ControlCtx \<Rightarrow> AddCause \<Rightarrow> Element" where
  "lastApplErrorReport domain ctlItem ctx cause =
     information_report [vmdSpecificName ''LastApplError''] [lastApplErrorValue domain ctlItem ctx cause]"

section \<open>Command termination\<close>

text \<open>What is owed for one operate: \<open>tm_done\<close> is the \<^verbatim>\<open>sync.Once\<close>, \<open>tm_sent\<close> the causes it was sent with,
  \<open>tm_tracked\<close> those told to \<^verbatim>\<open>onDeferred\<close>.\<close>

record cmdTermination =
  tm_done :: bool
  tm_deferred :: bool
  tm_timer :: "int option"
  tm_sent :: "AddCause list"
  tm_tracked :: "AddCause list"

definition newTermination :: cmdTermination where
  "newTermination = \<lparr>tm_done = False, tm_deferred = False, tm_timer = None, tm_sent = [], tm_tracked = []\<rparr>"

definition tm_finish :: "AddCause \<Rightarrow> cmdTermination \<Rightarrow> cmdTermination" where
  "tm_finish cause t =
     (if tm_done t then t
      else t\<lparr>tm_done := True, tm_timer := None, tm_sent := tm_sent t @ [cause],
             tm_tracked := tm_tracked t @ (if tm_deferred t then [cause] else [])\<rparr>)"

definition tm_discard :: "cmdTermination \<Rightarrow> cmdTermination" where
  "tm_discard t = t\<lparr>tm_done := True\<rparr>"

definition DeferTermination :: "cmdTermination \<Rightarrow> cmdTermination" where
  "DeferTermination t = t\<lparr>tm_deferred := True\<rparr>"

definition tm_supervise :: "int \<Rightarrow> int \<Rightarrow> cmdTermination \<Rightarrow> cmdTermination" where
  "tm_supervise now d t = (if d \<le> 0 then t else t\<lparr>tm_timer := Some (now + d)\<rparr>)"

text \<open>The timer's function, once its time has come.\<close>

definition tm_expire :: "int \<Rightarrow> cmdTermination \<Rightarrow> cmdTermination" where
  "tm_expire now t =
     (case tm_timer t of Some at \<Rightarrow> if at \<le> now then tm_finish AddCauseTimeLimitOver (t\<lparr>tm_timer := None\<rparr>) else t | None \<Rightarrow> t)"

definition terminationError :: "AddCause \<Rightarrow> ServiceError" where
  "terminationError cause = (if cause = AddCauseNone then ServiceErrorNone else ServiceErrorFailedDueToServerConstraint)"

definition terminationReport :: "string \<Rightarrow> string \<Rightarrow> ControlCtx \<Rightarrow> Value \<Rightarrow> AddCause \<Rightarrow> Element" where
  "terminationReport domain ctlItem ctx oper cause =
     (if cause = AddCauseNone then commandTerminationReport domain ctlItem oper
      else commandTerminationNegativeReport domain ctlItem oper (lastApplErrorValue domain ctlItem ctx cause))"

section \<open>The control write\<close>

text \<open>What a handler may do with the termination of its operate while it runs.\<close>

datatype handler_op = Defer | Finish AddCause

fun run_op :: "handler_op \<Rightarrow> cmdTermination \<Rightarrow> cmdTermination" where
  "run_op Defer t = DeferTermination t"
| "run_op (Finish cause) t = tm_finish cause t"

type_synonym ControlHandler = "ControlCtx \<Rightarrow> AddCause \<times> handler_op list"

text \<open>The state a control request works on: the process image with its changes, the selections, what was sent
  and the terminations still owed.\<close>

record ctl_state =
  cw_tx :: Tx
  cw_sel :: selections
  cw_out :: "(conn \<times> Element) list"
  cw_terms :: "(ObjectReference \<times> cmdTermination) list"

definition trackControl :: "tracking \<Rightarrow> ObjectReference \<Rightarrow> ServiceType \<Rightarrow> ServiceError \<Rightarrow> ControlCtx option \<Rightarrow> Value \<Rightarrow> AddCause \<Rightarrow> Tx \<Rightarrow> Tx" where
  "trackControl e ref svc serr ctx oper cause tx =
     (let ctlVal = (case ctx of Some c \<Rightarrow> cx_Value c | None \<Rightarrow> NilValue);
          kind = controlTrackingKind (tx_m tx) ref ctlVal
      in if kind = [] then tx
         else srv_track e
           \<lparr>tr_ld = ref_LD ref, tr_kind = kind, tr_objRef = ref, tr_svc = svc, tr_err = serr, tr_src = None,
            tr_ctl = map_option (\<lambda>c. \<lparr>ct_ctlVal = cx_Value c, ct_oper = oper, ct_orCat = uint (cx_Origin c), ct_orIdent = cx_OrIdent c,
                                       ct_ctlNum = cx_CtlNum c, ct_cause = cause\<rparr>) ctx,
            tr_requested = None\<rparr> tx)"

definition DbposOff :: Dbpos where "DbposOff = 1"
definition DbposOn :: Dbpos where "DbposOn = 2"

definition applyControl :: "ObjectReference \<Rightarrow> Value \<Rightarrow> Tx \<Rightarrow> (mms_error, Tx) result" where
  "applyControl ref ctlVal tx =
     (let stRef = ref_Child ref ''stVal'' in
      case Attribute (tx_m tx) stRef fc_ST of
        None \<Rightarrow> Inr tx
      | Some da \<Rightarrow>
          if da_Children da \<noteq> [] \<or> ctlVal = NilValue then Inr tx
          else
            rbind (if value_Type ctlVal = TypeBoolean \<and> da_Value da \<noteq> NilValue \<and> value_Type (da_Value da) = TypeBitString \<and> value_BitLen (da_Value da) = 2
                   then Dbpos_Value (if value_Bool ctlVal then DbposOn else DbposOff)
                   else Inr (value_Clone ctlVal)) (\<lambda>nv.
            if \<not> valueFits da nv then Inr tx
            else Inr (tx\<lparr>tx_m := Attribute_set (tx_m tx) stRef fc_ST nv, tx_changed := cs_record (tx_changed tx) stRef da (da_Value da) nv\<rparr>)))"

definition service_of :: "string \<Rightarrow> ServiceType" where
  "service_of phase = (if phase = ''SBOw'' then ServiceSelectWithValue else if phase = ''Cancel'' then ServiceCancel else ServiceOperate)"

definition has_suffix :: "string \<Rightarrow> string \<Rightarrow> bool" where
  "has_suffix s suf = (length suf \<le> length s \<and> drop (length s - length suf) s = suf)"

text \<open>The refusals that precede the selection rules, in the order of the source; \<open>None\<close> lets the request pass.\<close>

definition controlRefusal :: "IEDModel \<Rightarrow> string \<Rightarrow> ControlCtx \<Rightarrow> AddCause option" where
  "controlRefusal m phase ctx =
     (let (cm, declared) = ctlModel m (cx_Ref ctx) in
      if declared \<and> cm = CtlStatusOnly then Some AddCauseNotSupported
      else if phase = ''SBOw'' \<and> declared \<and> cm \<noteq> CtlSBOEnhanced then Some AddCauseNotSupported
      else if cx_Test ctx \<and> declared \<and> Enhanced cm then Some AddCauseTestNotAllowed
      else if OrIdentLen ctx > maxOrIdentLen then Some AddCauseInconsistentParameters
      else None)"

text \<open>The closure \<^verbatim>\<open>refuse\<close>.\<close>

definition control_refuse :: "tracking \<Rightarrow> string \<Rightarrow> string \<Rightarrow> string \<Rightarrow> ControlCtx \<Rightarrow> Value \<Rightarrow> conn \<Rightarrow> ctl_state \<Rightarrow> AddCause \<Rightarrow> byte option \<times> ctl_state" where
  "control_refuse e domain ctlItem phase ctx v conn st cause =
     (Some AccessObjectAccessDenied,
      st\<lparr>cw_out := cw_out st @ (if conn = None then [] else [(conn, lastApplErrorReport domain ctlItem ctx cause)]),
         cw_tx := trackControl e (cx_Ref ctx) (service_of phase) (serviceErrorOf AccessObjectAccessDenied) (Some ctx) v cause (cw_tx st)\<rparr>)"

text \<open>After the checks: the handler, then the reservation of a select or the effect of an operate.\<close>

definition controlRun :: "tracking \<Rightarrow> int \<Rightarrow> (ObjectReference \<Rightarrow> ControlHandler option) \<Rightarrow> string \<Rightarrow> string \<Rightarrow> string \<Rightarrow> ControlCtx \<Rightarrow> Value \<Rightarrow> conn \<Rightarrow>
    ctl_state \<Rightarrow> (mms_error, byte option \<times> ctl_state) result" where
  "controlRun e now controls domain ctlItem phase ctx v conn st =
     (let ref = cx_Ref ctx; m = tx_m (cw_tx st); (cm, declared) = ctlModel m ref;
          owed = (phase = ''Oper'' \<and> declared \<and> Enhanced cm \<and> conn \<noteq> None);
          (cause, ops) = (case controls ref of None \<Rightarrow> (AddCauseNone, []) | Some h \<Rightarrow> h ctx);
          term = fold run_op ops newTermination;
          report = (\<lambda>t. map (\<lambda>c. (conn, terminationReport domain ctlItem ctx v c)) (tm_sent t));
          done_by_handler = (if owed then report term else [])
      in if cause \<noteq> AddCauseNone then
           Inr (control_refuse e domain ctlItem phase ctx v conn
             (st\<lparr>cw_out := cw_out st @ done_by_handler, cw_terms := cw_terms st @ (if owed then [(ref, tm_discard term)] else [])\<rparr>) cause)
         else if cx_Select ctx then
           (case selectWithValue m now ref conn (cx_CtlNum ctx) (cw_sel st) of
              (False, _) \<Rightarrow> Inr (control_refuse e domain ctlItem phase ctx v conn st AddCauseObjectAlreadySelected)
            | (True, sels) \<Rightarrow>
                Inr (Some 0xff, st\<lparr>cw_sel := sels,
                       cw_tx := trackControl e ref (service_of phase) ServiceErrorNone (Some ctx) v AddCauseNone (cw_tx st)\<rparr>))
         else
           rbind (applyControl ref (cx_Value ctx) (cw_tx st)) (\<lambda>tx.
           let tx = trackControl e ref (service_of phase) ServiceErrorNone (Some ctx) v AddCauseNone tx;
               st1 = st\<lparr>cw_sel := clearSelection ref (cw_sel st), cw_out := cw_out st @ done_by_handler\<rparr>
           in if \<not> owed then Inr (Some 0xff, st1\<lparr>cw_tx := tx\<rparr>)
              else if tm_deferred term then
                Inr (Some 0xff, st1\<lparr>cw_tx := tx, cw_terms := cw_terms st @ [(ref, tm_supervise now (operTimeout (tx_m tx) ref) term)]\<rparr>)
              else
                let term' = tm_finish AddCauseNone term in
                Inr (Some 0xff, st1\<lparr>cw_out := cw_out st @ report term',
                  cw_tx := trackControl e ref ServiceCommandTermination ServiceErrorNone (Some ctx) v AddCauseNone tx,
                  cw_terms := cw_terms st @ [(ref, term')]\<rparr>)))"

definition controlRules :: "tracking \<Rightarrow> int \<Rightarrow> (ObjectReference \<Rightarrow> ControlHandler option) \<Rightarrow> string \<Rightarrow> string \<Rightarrow> string \<Rightarrow> ControlCtx \<Rightarrow> Value \<Rightarrow> conn \<Rightarrow>
    ctl_state \<Rightarrow> (mms_error, byte option \<times> ctl_state) result" where
  "controlRules e now controls domain ctlItem phase ctx v conn st =
     (let ref = cx_Ref ctx; m = tx_m (cw_tx st);
          refuse = control_refuse e domain ctlItem phase ctx v conn st;
          mistyped = (phase \<noteq> ''Cancel'' \<and> (case Attribute m (ref_Child (ref_Child ref phase) ''ctlVal'') fc_CO of
                        Some da \<Rightarrow> \<not> valueFits da (cx_Value ctx) | None \<Rightarrow> False))
      in if mistyped then
           Inr (Some AccessTypeInconsistent, st\<lparr>cw_tx :=
             trackControl e ref (service_of phase) (serviceErrorOf AccessTypeInconsistent) (Some ctx) v AddCauseUnknown (cw_tx st)\<rparr>)
         else (case controlRefusal m phase ctx of
             Some cause \<Rightarrow> Inr (refuse cause)
           | None \<Rightarrow>
               if phase = ''Cancel'' then
                 (let cause = checkCancel now ref conn (cx_CtlNum ctx) (cw_sel st) in
                  if cause \<noteq> AddCauseNone then Inr (refuse cause)
                  else Inr (Some 0xff, st\<lparr>cw_sel := clearSelection ref (cw_sel st),
                         cw_tx := trackControl e ref (service_of phase) ServiceErrorNone (Some ctx) v AddCauseNone (cw_tx st)\<rparr>))
               else if phase = ''Oper'' \<and> requiresSelection m ref \<and> checkSelection now ref conn (cx_CtlNum ctx) (cw_sel st) \<noteq> AddCauseNone then
                 Inr (refuse (checkSelection now ref conn (cx_CtlNum ctx) (cw_sel st)))
               else controlRun e now controls domain ctlItem phase ctx v conn st))"

text \<open>\<open>None\<close> in the first component means the item is no control.\<close>

definition controlWrite :: "tracking \<Rightarrow> int \<Rightarrow> (ObjectReference \<Rightarrow> ControlHandler option) \<Rightarrow> string \<Rightarrow> string \<Rightarrow> Value \<Rightarrow> conn \<Rightarrow>
    ctl_state \<Rightarrow> (mms_error, byte option \<times> ctl_state) result" where
  "controlWrite e now controls domain item v conn st =
     (case splitControl item of
        None \<Rightarrow> Inr (None, st)
      | Some (base, phase) \<Rightarrow>
          let m = tx_m (cw_tx st); ref = controlRef domain base in
          if Device m domain = None then Inr (Some AccessObjectNonExistent, st)
          else if \<not> has_suffix item (CHR ''$'' # phase) \<or> v = NilValue \<or> value_Type v \<noteq> TypeStructure then Inr (Some AccessTypeInconsistent, st)
          else if Attribute m (ref_Child ref phase) fc_CO = None then Inr (Some AccessObjectNonExistent, st)
          else rbind (decodeOper ref v conn) (\<lambda>ctx.
            controlRules e now controls domain (base @ CHR ''$'' # phase) phase (ctx\<lparr>cx_Select := (phase = ''SBOw'')\<rparr>) v conn st))"

text \<open>The tracking of a deferred termination, later and on its own.\<close>

definition trackDeferred :: "tracking \<Rightarrow> ObjectReference \<Rightarrow> ControlCtx \<Rightarrow> Value \<Rightarrow> AddCause \<Rightarrow> Tx \<Rightarrow> Tx" where
  "trackDeferred e ref ctx v cause tx = trackControl e ref ServiceCommandTermination (terminationError cause) (Some ctx) v cause tx"

section \<open>Selections are exclusive\<close>

lemma reserve_other:
  assumes "sels ref = Some sel" "sel_conn sel \<noteq> conn" "now < sel_expiry sel"
  shows "reserve m now ref conn n b sels = (False, sels)"
  using assms by (simp add: reserve_def)

lemma reserve_frame: "reserve m now ref conn n b sels = (ok, sels') \<Longrightarrow> ref' \<noteq> ref \<Longrightarrow> sels' ref' = sels ref'"
  by (auto simp: reserve_def split: option.splits if_splits)

lemma checkSelection_None:
  "checkSelection now ref conn n sels = AddCauseNone \<longleftrightarrow>
     (\<exists>sel. sels ref = Some sel \<and> sel_conn sel = conn \<and> now < sel_expiry sel \<and> (sel_hasCtlNum sel \<longrightarrow> sel_ctlNum sel = n))"
  by (auto simp: checkSelection_def cause_defs split: option.splits)

lemma checkCancel_None:
  "checkCancel now ref conn n sels = AddCauseNone \<longleftrightarrow>
     (\<forall>sel. sels ref = Some sel \<longrightarrow> now < sel_expiry sel \<longrightarrow> sel_conn sel = conn \<and> (sel_hasCtlNum sel \<longrightarrow> sel_ctlNum sel = n))"
  by (auto simp: checkCancel_def cause_defs split: option.splits)

section \<open>Terminations\<close>

text \<open>The life of a termination: what the server, the handler and the timer may do, in any order.\<close>

datatype term_op = TDefer | TFinish AddCause | TDiscard | TSupervise int int | TExpire int

fun term_step :: "term_op \<Rightarrow> cmdTermination \<Rightarrow> cmdTermination" where
  "term_step TDefer t = DeferTermination t"
| "term_step (TFinish c) t = tm_finish c t"
| "term_step TDiscard t = tm_discard t"
| "term_step (TSupervise now d) t = tm_supervise now d t"
| "term_step (TExpire now) t = tm_expire now t"

lemmas term_defs = DeferTermination_def tm_finish_def tm_discard_def tm_supervise_def tm_expire_def newTermination_def

definition term_ok :: "cmdTermination \<Rightarrow> bool" where
  "term_ok t = (length (tm_sent t) \<le> (if tm_done t then 1 else 0) \<and> length (tm_tracked t) \<le> length (tm_sent t))"

lemma term_step_ok: "term_ok t \<Longrightarrow> term_ok (term_step op t)"
  by (cases op) (auto simp: term_ok_def term_defs split: option.splits if_splits)

lemma term_step_done: "tm_done t \<Longrightarrow> tm_done (term_step op t) \<and> tm_sent (term_step op t) = tm_sent t"
  by (cases op) (auto simp: term_defs split: option.splits)

lemma term_steps_done: "tm_done t \<Longrightarrow> tm_done (fold term_step ops t) \<and> tm_sent (fold term_step ops t) = tm_sent t"
  by (induction ops arbitrary: t) (simp_all add: term_step_done)

lemma term_steps_ok: "term_ok t \<Longrightarrow> term_ok (fold term_step ops t)"
  by (induction ops arbitrary: t) (simp_all add: term_step_ok)

text \<open>A supervised termination stays supervised, or is sent or dropped.\<close>

definition supervised :: "int \<Rightarrow> cmdTermination \<Rightarrow> bool" where
  "supervised at t = (tm_done t \<or> tm_timer t = Some at)"

lemma supervised_step:
  "supervised at t \<Longrightarrow> (\<forall>now d. op \<noteq> TSupervise now d) \<Longrightarrow> supervised at (term_step op t)"
  by (cases op) (auto simp: supervised_def term_defs split: option.splits)

lemma supervised_steps:
  "supervised at t \<Longrightarrow> (\<forall>op \<in> set ops. \<forall>now d. op \<noteq> TSupervise now d) \<Longrightarrow> supervised at (fold term_step ops t)"
  by (induction ops arbitrary: t) (simp_all add: supervised_step)

text \<open>(C27) A command termination is sent at most once, whatever the handler, the server and the timer do and in
  whatever order. Once the operate is refused none is sent, whatever the handler did before (deferring it included) and
  whoever calls back or whichever timer fires after; a deferred one that is supervised with a positive time limit is
  concluded by the time the limit has passed, even if the handler never calls back.\<close>

theorem termination_once:
  "length (tm_sent (fold term_step ops newTermination)) \<le> 1
   \<and> tm_sent (fold term_step (ops @ TDiscard # ops2) newTermination) = tm_sent (fold term_step ops newTermination)
   \<and> tm_done (fold term_step (ops @ TDiscard # ops2) newTermination)
   \<and> (0 < d \<and> now + d \<le> at \<and> (\<forall>op \<in> set ops2. \<forall>now d. op \<noteq> TSupervise now d) \<longrightarrow>
        tm_done (fold term_step (ops @ TSupervise now d # ops2 @ [TExpire at]) newTermination))"
proof (intro conjI impI)
  let ?t = "fold term_step ops newTermination"
  have "term_ok newTermination" by (simp add: term_ok_def term_defs)
  from term_steps_ok [OF this, of ops] show "length (tm_sent ?t) \<le> 1"
    by (auto simp: term_ok_def split: if_splits)
  have "tm_done (tm_discard ?t)" "tm_sent (tm_discard ?t) = tm_sent ?t" by (simp_all add: tm_discard_def)
  then show "tm_sent (fold term_step (ops @ TDiscard # ops2) newTermination) = tm_sent ?t"
    "tm_done (fold term_step (ops @ TDiscard # ops2) newTermination)"
    using term_steps_done [of "tm_discard ?t" ops2] by simp_all
  assume h: "0 < d \<and> now + d \<le> at \<and> (\<forall>op \<in> set ops2. \<forall>now d. op \<noteq> TSupervise now d)"
  have "supervised (now + d) (tm_supervise now d ?t)" using h by (simp add: supervised_def tm_supervise_def)
  from supervised_steps [OF this] h have "supervised (now + d) (fold term_step ops2 (tm_supervise now d ?t))" by blast
  then show "tm_done (fold term_step (ops @ TSupervise now d # ops2 @ [TExpire at]) newTermination)"
    using h by (auto simp: supervised_def tm_expire_def tm_finish_def split: option.splits)
qed

text \<open>A handler that defers and is then refused, with its callback still to come; one that defers and never calls back.\<close>

theorem termination_once_witness:
  "tm_sent (fold term_step ([TDefer] @ TDiscard # [TFinish AddCauseNone]) newTermination) = []
   \<and> tm_done (fold term_step ([TDefer] @ TSupervise 100 50 # [] @ [TExpire 150]) newTermination)
   \<and> tm_sent (fold term_step ([TDefer] @ TSupervise 100 50 # [] @ [TExpire 150]) newTermination) = [AddCauseTimeLimitOver]"
proof -
  have "tm_sent (fold term_step ([TDefer] @ TDiscard # [TFinish AddCauseNone]) newTermination) = []"
    using termination_once [of "[TDefer]" "[TFinish AddCauseNone]"] by (simp add: term_defs)
  moreover have "tm_done (fold term_step ([TDefer] @ TSupervise 100 50 # [] @ [TExpire 150]) newTermination)"
    using termination_once [of "[TDefer]" "[]" 50 100 150] by simp
  ultimately show ?thesis by (simp add: term_defs)
qed

lemma last_phase_phase: "last_phase b ps = Some (b', p) \<Longrightarrow> p \<in> set phases"
  by (induction b ps arbitrary: b' p rule: last_phase.induct) (auto split: option.splits if_splits)

lemma splitControl_phase: "splitControl item = Some (base, p) \<Longrightarrow> p \<in> set phases"
  by (auto simp: splitControl_def simp del: last_phase.simps dest: last_phase_phase split: list.splits if_splits)

section \<open>What a control write does\<close>

definition untracked :: "tracking \<Rightarrow> cell \<Rightarrow> bool" where
  "untracked e k = (\<forall>ld kind o'. trk_lookup (tk_tracker e) ld kind = Some o' \<longrightarrow> \<not> below (fst k) (trk_ref o'))"

lemma trackControl_keeps: "keeps (untracked e) tx (trackControl e ref svc serr ctx oper cause tx)"
proof -
  have "keeps (untracked e) tx (srv_track e rec tx)" for rec
  proof (cases "trk_lookup (tk_tracker e) (tr_ld rec) (tr_kind rec)")
    case None
    then show ?thesis by (simp add: srv_track_def)
  next
    case (Some o')
    show ?thesis by (rule keeps_weaken [OF srv_track_below [OF Some]]) (use Some in \<open>simp add: untracked_def\<close>)
  qed
  then show ?thesis by (simp add: trackControl_def Let_def)
qed

lemma applyControl_keeps:
  "applyControl ref v tx = Inr tx' \<Longrightarrow> keeps (\<lambda>k. fst k \<noteq> ref_Child ref ''stVal'') tx tx'"
  by (auto simp: applyControl_def keeps_def Let_def rbind_eq_Inr apart_def intro!: Attribute_set_apart split: option.splits if_splits)

text \<open>The outcomes of a control write: refused, selected, cancelled, or operated.\<close>

definition ctl_refused :: "tracking \<Rightarrow> byte option \<Rightarrow> ctl_state \<Rightarrow> ctl_state \<Rightarrow> bool" where
  "ctl_refused e code st st' = (code \<noteq> Some 0xff \<and> cw_sel st' = cw_sel st \<and> keeps (untracked e) (cw_tx st) (cw_tx st'))"

definition ctl_selected :: "tracking \<Rightarrow> int \<Rightarrow> ControlCtx \<Rightarrow> conn \<Rightarrow> byte option \<Rightarrow> ctl_state \<Rightarrow> ctl_state \<Rightarrow> bool" where
  "ctl_selected e now ctx conn code st st' =
     (code = Some 0xff \<and> cx_Select ctx \<and> reserve (tx_m (cw_tx st)) now (cx_Ref ctx) conn (cx_CtlNum ctx) True (cw_sel st) = (True, cw_sel st')
      \<and> keeps (untracked e) (cw_tx st) (cw_tx st'))"

definition ctl_cancelled :: "tracking \<Rightarrow> int \<Rightarrow> ControlCtx \<Rightarrow> conn \<Rightarrow> byte option \<Rightarrow> ctl_state \<Rightarrow> ctl_state \<Rightarrow> bool" where
  "ctl_cancelled e now ctx conn code st st' =
     (code = Some 0xff \<and> checkCancel now (cx_Ref ctx) conn (cx_CtlNum ctx) (cw_sel st) = AddCauseNone
      \<and> cw_sel st' = clearSelection (cx_Ref ctx) (cw_sel st) \<and> keeps (untracked e) (cw_tx st) (cw_tx st'))"

definition ctl_operated :: "tracking \<Rightarrow> ControlCtx \<Rightarrow> byte option \<Rightarrow> ctl_state \<Rightarrow> ctl_state \<Rightarrow> bool" where
  "ctl_operated e ctx code st st' =
     (code = Some 0xff \<and> \<not> cx_Select ctx \<and> cw_sel st' = clearSelection (cx_Ref ctx) (cw_sel st)
      \<and> keeps (\<lambda>k. untracked e k \<and> fst k \<noteq> ref_Child (cx_Ref ctx) ''stVal'') (cw_tx st) (cw_tx st'))"

lemmas outcome_defs = ctl_refused_def ctl_selected_def ctl_cancelled_def ctl_operated_def

lemma control_refuse_refused:
  "cw_sel st1 = cw_sel st \<Longrightarrow> cw_tx st1 = cw_tx st \<Longrightarrow> control_refuse e d i p ctx v conn st1 cause = (code, st') \<Longrightarrow> ctl_refused e code st st'"
  by (auto simp: control_refuse_def ctl_refused_def access_codes trackControl_keeps)

lemma operated_keeps:
  assumes "applyControl ref v tx = Inr tx1"
  shows "keeps (\<lambda>k. untracked e k \<and> fst k \<noteq> ref_Child ref ''stVal'') tx (trackControl e ref svc serr ctx oper cause tx1)"
    "keeps (\<lambda>k. untracked e k \<and> fst k \<noteq> ref_Child ref ''stVal'') tx
       (trackControl e ref svc' serr' ctx' oper' cause' (trackControl e ref svc serr ctx oper cause tx1))"
proof -
  let ?K = "\<lambda>k. untracked e k \<and> fst k \<noteq> ref_Child ref ''stVal''"
  have t: "keeps ?K tx' (trackControl e ref svc serr ctx oper cause tx')" for tx' svc serr ctx oper cause
    by (rule keeps_weaken [OF trackControl_keeps]) simp
  have "keeps ?K tx tx1" by (rule keeps_weaken [OF applyControl_keeps [OF assms]]) simp
  then show "keeps ?K tx (trackControl e ref svc serr ctx oper cause tx1)"
    "keeps ?K tx (trackControl e ref svc' serr' ctx' oper' cause' (trackControl e ref svc serr ctx oper cause tx1))"
    using t keeps_trans by blast+
qed

lemma controlRun_outcome:
  assumes "controlRun e now controls d i p ctx v conn st = Inr (code, st')"
  shows "ctl_refused e code st st' \<or> ctl_selected e now ctx conn code st st' \<or> ctl_operated e ctx code st st'"
proof -
  obtain cm declared where m: "ctlModel (tx_m (cw_tx st)) (cx_Ref ctx) = (cm, declared)" by force
  obtain cause ops where h: "(case controls (cx_Ref ctx) of None \<Rightarrow> (AddCauseNone, []) | Some h \<Rightarrow> h ctx) = (cause, ops)" by force
  note run = assms [unfolded controlRun_def Let_def m h prod.case]
  show ?thesis
  proof (cases "cause = AddCauseNone")
    case False
    then show ?thesis using run by (auto dest!: control_refuse_refused [rotated 2, where st = st])
  next
    case ok: True
    show ?thesis
    proof (cases "cx_Select ctx")
      case True
      then show ?thesis using run ok
        by (auto simp: selectWithValue_def ctl_selected_def trackControl_keeps intro!: control_refuse_refused split: prod.splits bool.splits)
    next
      case False
      then obtain tx where tx: "applyControl (cx_Ref ctx) (cx_Value ctx) (cw_tx st) = Inr tx" using run ok by (auto simp: rbind_eq_Inr)
      then show ?thesis using run ok False operated_keeps [OF tx]
        by (auto simp: ctl_operated_def split: if_splits)
    qed
  qed
qed

lemma controlRules_outcome:
  assumes "controlRules e now controls d i p ctx v conn st = Inr (code, st')"
  shows "ctl_refused e code st st'
    \<or> p = ''Cancel'' \<and> ctl_cancelled e now ctx conn code st st'
    \<or> p \<noteq> ''Cancel''
      \<and> (p = ''Oper'' \<and> requiresSelection (tx_m (cw_tx st)) (cx_Ref ctx) \<longrightarrow>
          checkSelection now (cx_Ref ctx) conn (cx_CtlNum ctx) (cw_sel st) = AddCauseNone)
      \<and> (ctl_selected e now ctx conn code st st' \<or> ctl_operated e ctx code st st')"
proof -
  define mistyped where "mistyped = (p \<noteq> ''Cancel'' \<and> (case Attribute (tx_m (cw_tx st)) (ref_Child (ref_Child (cx_Ref ctx) p) ''ctlVal'') fc_CO of
                        Some da \<Rightarrow> \<not> valueFits da (cx_Value ctx) | None \<Rightarrow> False))"
  note run = assms [unfolded controlRules_def Let_def, folded mistyped_def]
  consider (bad) "mistyped" | (refused) cause where "\<not> mistyped" "controlRefusal (tx_m (cw_tx st)) p ctx = Some cause"
    | (cancel) "\<not> mistyped" "controlRefusal (tx_m (cw_tx st)) p ctx = None" "p = ''Cancel''"
    | (other) "\<not> mistyped" "controlRefusal (tx_m (cw_tx st)) p ctx = None" "p \<noteq> ''Cancel''"
    by (cases "controlRefusal (tx_m (cw_tx st)) p ctx") blast+
  then show ?thesis
  proof cases
    case bad
    then show ?thesis using run by (auto simp: ctl_refused_def access_codes trackControl_keeps)
  next
    case refused
    then show ?thesis using run by (auto intro!: control_refuse_refused)
  next
    case cancel
    then show ?thesis using run
      by (auto simp: ctl_cancelled_def trackControl_keeps intro!: control_refuse_refused split: if_splits)
  next
    case other
    then show ?thesis using run controlRun_outcome [of e now controls d i p ctx v conn st code st']
      by (auto intro!: control_refuse_refused split: if_splits)
  qed
qed

lemma decodeOper_Ref: "decodeOper ref v conn = Inr ctx \<Longrightarrow> cx_Ref ctx = ref"
  by (auto simp: decodeOper_def emptyCtx_def Let_def rbind_eq_Inr split: if_splits)

lemma controlWrite_outcome:
  assumes "controlWrite e now controls domain item v conn st = Inr (code, st')" "splitControl item = Some (base, p)"
  shows "ctl_refused e code st st'
    \<or> (\<exists>ctx0 ctx. decodeOper (controlRef domain base) v conn = Inr ctx0 \<and> ctx = ctx0\<lparr>cx_Select := (p = ''SBOw'')\<rparr>
        \<and> cx_Ref ctx = controlRef domain base
        \<and> (p = ''Cancel'' \<and> ctl_cancelled e now ctx conn code st st'
           \<or> p \<noteq> ''Cancel''
             \<and> (p = ''Oper'' \<and> requiresSelection (tx_m (cw_tx st)) (controlRef domain base) \<longrightarrow>
                checkSelection now (controlRef domain base) conn (cx_CtlNum ctx) (cw_sel st) = AddCauseNone)
             \<and> (ctl_selected e now ctx conn code st st' \<or> ctl_operated e ctx code st st')))"
proof (cases "ctl_refused e code st st'")
  case False
  have "\<exists>ctx0. decodeOper (controlRef domain base) v conn = Inr ctx0
      \<and> controlRules e now controls domain (base @ CHR ''$'' # p) p (ctx0\<lparr>cx_Select := (p = ''SBOw'')\<rparr>) v conn st = Inr (code, st')"
    using assms False by (auto simp: controlWrite_def Let_def rbind_eq_Inr ctl_refused_def access_codes split: if_splits)
  then obtain ctx0 where d: "decodeOper (controlRef domain base) v conn = Inr ctx0"
    and r: "controlRules e now controls domain (base @ CHR ''$'' # p) p (ctx0\<lparr>cx_Select := (p = ''SBOw'')\<rparr>) v conn st = Inr (code, st')"
    by blast
  show ?thesis using controlRules_outcome [OF r] False decodeOper_Ref [OF d] d by auto
qed simp

text \<open>(C13) An operate on a select-before-operate object is carried out only for the association that holds a live
  selection of it and repeats the control number of that selection, and it ends the selection.\<close>

theorem operate_needs_selection:
  assumes "controlWrite e now controls domain item v conn st = Inr (Some 0xff, st')"
    and "splitControl item = Some (base, ''Oper'')" "requiresSelection (tx_m (cw_tx st)) (controlRef domain base)"
  shows "\<exists>sel ctx. cw_sel st (controlRef domain base) = Some sel \<and> sel_conn sel = conn \<and> now < sel_expiry sel
    \<and> decodeOper (controlRef domain base) v conn = Inr ctx \<and> (sel_hasCtlNum sel \<longrightarrow> sel_ctlNum sel = cx_CtlNum ctx)
    \<and> cw_sel st' (controlRef domain base) = None"
  using controlWrite_outcome [OF assms(1,2)] assms(3)
  by (auto simp: outcome_defs clearSelection_def checkSelection_None)


lemma other_refused:
  assumes "cw_sel st ref = Some sel" "sel_conn sel \<noteq> conn" "now < sel_expiry sel"
    and "controlWrite e now controls domain item v conn st = Inr (code, st')" "splitControl item = Some (base, p)" "ref = controlRef domain base"
    and n: "\<not> (p = ''SBO'' \<or> p = ''Oper'' \<and> \<not> requiresSelection (tx_m (cw_tx st)) ref)"
  shows "ctl_refused e code st st'"
proof (rule ccontr)
  have sbo: "p = ''SBO'' \<or> p = ''SBOw'' \<or> p = ''Oper'' \<or> p = ''Cancel''" using splitControl_phase [OF assms(5)] by (auto simp: phases_def)
  assume "\<not> ctl_refused e code st st'"
  then obtain ctx0 ctx where ctx: "ctx = ctx0\<lparr>cx_Select := (p = ''SBOw'')\<rparr>" "cx_Ref ctx = ref"
    and c: "p = ''Cancel'' \<and> ctl_cancelled e now ctx conn code st st'
      \<or> p \<noteq> ''Cancel'' \<and> (p = ''Oper'' \<and> requiresSelection (tx_m (cw_tx st)) ref \<longrightarrow> checkSelection now ref conn (cx_CtlNum ctx) (cw_sel st) = AddCauseNone)
        \<and> (ctl_selected e now ctx conn code st st' \<or> ctl_operated e ctx code st st')"
    using controlWrite_outcome [OF assms(4,5)] unfolding assms(6) [symmetric] by blast
  have "\<not> ctl_cancelled e now ctx conn code st st'" using assms(1-3) ctx(2) by (auto simp: ctl_cancelled_def checkCancel_None)
  moreover have "\<not> ctl_selected e now ctx conn code st st'"
    using reserve_other [where sels = "cw_sel st", OF assms(1-3)] ctx(2) by (simp add: ctl_selected_def)
  moreover have "checkSelection now ref conn (cx_CtlNum ctx) (cw_sel st) \<noteq> AddCauseNone" using assms(1-3) by (simp add: checkSelection_None)
  ultimately have "p = ''SBOw''" "ctl_operated e ctx code st st'" using c n sbo by auto
  then show False using ctx(1) by (simp add: ctl_operated_def)
qed

text \<open>(C21) While one association holds a live selection of an object, another one neither takes it away nor gets through: not by a
  select with value (SBOw), not by a cancel, not by an operate where the control model of the object has a selection, not by any control
  write of another object, and a read of SBO selects nothing. The two writes that are exempt are a write of the attribute SBO itself, which
  is carried out as an operate (\<open>SBO_write_operates\<close>), and an operate where the object's control model has no selection.\<close>

theorem selection_exclusive:
  assumes "cw_sel st ref = Some sel" "sel_conn sel \<noteq> conn" "now < sel_expiry sel"
    and "controlWrite e now controls domain item v conn st = Inr (code, st')" "splitControl item = Some (base, p)"
  shows "(\<not> (ref = controlRef domain base \<and> (p = ''SBO'' \<or> p = ''Oper'' \<and> \<not> requiresSelection (tx_m (cw_tx st)) ref)) \<longrightarrow>
       cw_sel st' ref = Some sel \<and> (ref = controlRef domain base \<longrightarrow> code \<noteq> Some 0xff))
    \<and> fst (selectSBO (tx_m (cw_tx st)) now ref conn (cw_sel st)) = [] \<and> snd (selectSBO (tx_m (cw_tx st)) now ref conn (cw_sel st)) = cw_sel st"
proof -
  have SBO: "selectSBO (tx_m (cw_tx st)) now ref conn (cw_sel st) = ([], cw_sel st)"
    using reserve_other [where sels = "cw_sel st", OF assms(1-3)] by (simp add: selectSBO_def)
  show ?thesis
  proof (cases "ref = controlRef domain base")
    case True
    have "ctl_refused e code st st'" if "\<not> (p = ''SBO'' \<or> p = ''Oper'' \<and> \<not> requiresSelection (tx_m (cw_tx st)) ref)"
      using other_refused [OF assms True that] .
    then show ?thesis using assms(1) SBO True unfolding ctl_refused_def by (metis fst_conv snd_conv)
  next
    case False
    have "cw_sel st' ref = cw_sel st ref"
      using controlWrite_outcome [OF assms(4,5)] False
      by (elim disjE exE conjE) (auto simp: outcome_defs clearSelection_def dest: reserve_frame)
    then show ?thesis using assms(1) SBO False by simp
  qed
qed

section \<open>Examples\<close>

definition ex_ctl_node :: "8 word \<Rightarrow> LogicalNode" where
  "ex_ctl_node cm = \<lparr>ln_Name = ''GGIO1'', ln_Class = [], ln_Objects =
     [DataObject ''SPCSO1'' ''SPC'' []
        [DataAttribute ''stVal'' fc_ST [] TypeBoolean [] 0 [] (NewBool False) 2,
         DataAttribute ''ctlModel'' fc_CF [] TypeInteger ''Enum'' 0 [] (NewInt64 (uint cm)) 0,
         DataAttribute ''SBO'' fc_CO [] TypeVisibleString [] 0 [] (NewVisibleString []) 0,
         DataAttribute ''Oper'' fc_CO [] TypeStructure [] 0 [DataAttribute ''ctlVal'' fc_CO [] TypeBoolean [] 0 [] (NewBool False) 0] NilValue 0]],
     ln_DataSets = [], ln_ReportControls = [],
     ln_GSEControls = [], ln_SVControls = [], ln_LogControls = [], ln_SettingControl = None, ln_Logs = []\<rparr>"

definition ex_ctl_state :: "selections \<Rightarrow> ctl_state" where
  "ex_ctl_state sels =
     \<lparr>cw_tx = \<lparr>tx_m = \<lparr>m_Name = [], m_Devices = [\<lparr>ld_Name = ''LD'', ld_Inst = [], ld_Nodes = [ex_ctl_node 2]\<rparr>], m_SettingGroups = []\<rparr>,
               tx_changed = Map.empty\<rparr>,
      cw_sel = sels, cw_out = [], cw_terms = []\<rparr>"

definition ex_tracking :: tracking where
  "ex_tracking = \<lparr>tk_tracker = \<lparr>byLD = Map.empty, trk_first = Map.empty\<rparr>, tk_now = NilValue, tk_String = (\<lambda>_. [])\<rparr>"

definition ex_oper :: Value where "ex_oper = NewStructure [NewBool True]"

definition ex_sel :: "nat \<Rightarrow> selections" where
  "ex_sel c = [''LD/GGIO1.SPCSO1'' \<mapsto> \<lparr>sel_conn = Some c, sel_expiry = 100, sel_ctlNum = 0, sel_hasCtlNum = False\<rparr>]"

definition ex_write :: "string \<Rightarrow> nat \<Rightarrow> nat \<Rightarrow> (mms_error, byte option \<times> ctl_state) result" where
  "ex_write item holder c = controlWrite ex_tracking 50 Map.empty ''LD'' item ex_oper (Some c) (ex_ctl_state (ex_sel holder))"

text \<open>The code answered, whether stVal is now true, and whether the holder still has the object selected.\<close>

definition ex_result :: "string \<Rightarrow> nat \<Rightarrow> nat \<Rightarrow> (byte option \<times> bool \<times> bool) option" where
  "ex_result item holder c =
     (case ex_write item holder c of
        Inr (code, st) \<Rightarrow> Some (code, value_Bool (Tx_Get (cw_tx st) ''LD/GGIO1.SPCSO1.stVal'' fc_ST), cw_sel st ''LD/GGIO1.SPCSO1'' \<noteq> None)
      | Inl _ \<Rightarrow> None)"

lemma ex_results:
  "ex_result ''GGIO1$CO$SPCSO1$Oper'' 1 1 = Some (Some 0xff, True, False)"
  "ex_result ''GGIO1$CO$SPCSO1$Oper'' 1 2 = Some (Some AccessObjectAccessDenied, False, True)"
  by code_simp+

lemma ex_split: "splitControl ''GGIO1$CO$SPCSO1$Oper'' = Some (''GGIO1$CO$SPCSO1'', ''Oper'')"
  "controlRef ''LD'' ''GGIO1$CO$SPCSO1'' = ''LD/GGIO1.SPCSO1''" "requiresSelection (tx_m (cw_tx (ex_ctl_state sels))) ''LD/GGIO1.SPCSO1''"
proof -
  show "splitControl ''GGIO1$CO$SPCSO1$Oper'' = Some (''GGIO1$CO$SPCSO1'', ''Oper'')"
    "controlRef ''LD'' ''GGIO1$CO$SPCSO1'' = ''LD/GGIO1.SPCSO1''" by code_simp+
  have "tx_m (cw_tx (ex_ctl_state sels)) = tx_m (cw_tx (ex_ctl_state Map.empty))" by (simp add: ex_ctl_state_def)
  moreover have "requiresSelection (tx_m (cw_tx (ex_ctl_state Map.empty))) ''LD/GGIO1.SPCSO1''" by code_simp
  ultimately show "requiresSelection (tx_m (cw_tx (ex_ctl_state sels))) ''LD/GGIO1.SPCSO1''" by simp
qed

lemma ex_write_of_result:
  "ex_result item holder c = Some (code, b, s) \<Longrightarrow>
     \<exists>st'. controlWrite ex_tracking 50 Map.empty ''LD'' item ex_oper (Some c) (ex_ctl_state (ex_sel holder)) = Inr (code, st')
       \<and> value_Bool (Tx_Get (cw_tx st') ''LD/GGIO1.SPCSO1.stVal'' fc_ST) = b"
  by (auto simp: ex_result_def ex_write_def split: sum.splits prod.splits)

lemma ex_sel_at: "cw_sel (ex_ctl_state (ex_sel c)) ''LD/GGIO1.SPCSO1'' =
    Some \<lparr>sel_conn = Some c, sel_expiry = 100, sel_ctlNum = 0, sel_hasCtlNum = False\<rparr>"
  by (simp add: ex_ctl_state_def ex_sel_def)

theorem operate_needs_selection_witness:
  "\<exists>st'. controlWrite ex_tracking 50 Map.empty ''LD'' ''GGIO1$CO$SPCSO1$Oper'' ex_oper (Some 1) (ex_ctl_state (ex_sel 1)) = Inr (Some 0xff, st')
     \<and> value_Bool (Tx_Get (cw_tx st') ''LD/GGIO1.SPCSO1.stVal'' fc_ST) \<and> cw_sel st' ''LD/GGIO1.SPCSO1'' = None"
proof -
  obtain st' where w: "controlWrite ex_tracking 50 Map.empty ''LD'' ''GGIO1$CO$SPCSO1$Oper'' ex_oper (Some 1) (ex_ctl_state (ex_sel 1)) = Inr (Some 0xff, st')"
      "value_Bool (Tx_Get (cw_tx st') ''LD/GGIO1.SPCSO1.stVal'' fc_ST)"
    using ex_write_of_result [OF ex_results(1)] by auto
  then show ?thesis using operate_needs_selection [OF w(1) ex_split(1)] ex_split(2,3) by auto
qed


theorem selection_exclusive_witness:
  "\<exists>code st'. controlWrite ex_tracking 50 Map.empty ''LD'' ''GGIO1$CO$SPCSO1$Oper'' ex_oper (Some 2) (ex_ctl_state (ex_sel 1)) = Inr (code, st')
     \<and> code \<noteq> Some 0xff \<and> cw_sel st' ''LD/GGIO1.SPCSO1'' \<noteq> None"
proof -
  obtain st' where w: "controlWrite ex_tracking 50 Map.empty ''LD'' ''GGIO1$CO$SPCSO1$Oper'' ex_oper (Some 2) (ex_ctl_state (ex_sel 1))
      = Inr (Some AccessObjectAccessDenied, st')"
    using ex_write_of_result [OF ex_results(2)] by auto
  show ?thesis using selection_exclusive [OF ex_sel_at _ _ w ex_split(1)] ex_split(2,3) w by simp
qed

text \<open>The rule does not cover a write of the SBO attribute itself: an operate structure written there by an
  association that selected nothing is carried out, without the selection check, and ends the selection
  another association holds.\<close>

theorem SBO_write_operates: "ex_result ''GGIO1$CO$SPCSO1$SBO'' 1 2 = Some (Some 0xff, True, False)"
  by code_simp

text \<open>Nor does the select by reading SBO ask whether the object exists.\<close>

theorem SBO_read_selects_anything:
  "fst (selectSBO (tx_m (cw_tx (ex_ctl_state Map.empty))) 50 ''LD/GGIO1.Nowhere'' (Some 2) Map.empty) = ''LD/GGIO1.Nowhere''
   \<and> Lookup (tx_m (cw_tx (ex_ctl_state Map.empty))) ''LD/GGIO1.Nowhere'' fc_ALL = NoNode"
  by code_simp

end
