(* ===== verification/SrvRcb.thy ===== *)
theory SrvRcb
  imports SrvDataSets SrvTx BinTime
begin

text \<open>
  Report control blocks (\<^verbatim>\<open>server/rcb.go\<close> and the reservation part of \<^verbatim>\<open>server/reporting.go\<close>): their
  run-time state, the data objects that show them to clients, and who may use one.

  The attributes of a block live in the model, as they do in the source: \<^verbatim>\<open>rs.do\<close> points to an object of the
  tree and is modelled by its reference, so the instances of a node have distinct names. A timer or a
  goroutine is known by the number it was started with; it may fire at any moment, also after \<^verbatim>\<open>Stop\<close>.
\<close>

unbundle bit_operations_syntax


section \<open>Values\<close>

definition NewInt16 :: "16 word \<Rightarrow> Value" where "NewInt16 v = Value TypeInteger (sint v) 0 [] 0 []"
definition NewUint16 :: "16 word \<Rightarrow> Value" where "NewUint16 v = Value TypeUnsigned (uint v) 0 [] 0 []"

definition fc_RP :: FC where "fc_RP = 13"
definition fc_BR :: FC where "fc_BR = 14"

definition TrgIntegrity :: TrgOps where "TrgIntegrity = 16"
definition TrgGI :: TrgOps where "TrgGI = 32"

definition OptSeqNum :: OptFlds where "OptSeqNum = 2"
definition OptTimeOfEntry :: OptFlds where "OptTimeOfEntry = 4"
definition OptReasonCode :: OptFlds where "OptReasonCode = 8"
definition OptDataSetName :: OptFlds where "OptDataSetName = 16"
definition OptDataRef :: OptFlds where "OptDataRef = 32"
definition OptBufOvfl :: OptFlds where "OptBufOvfl = 64"
definition OptEntryID :: OptFlds where "OptEntryID = 128"
definition OptConfRev :: OptFlds where "OptConfRev = 256"
definition OptSegmentation :: OptFlds where "OptSegmentation = 512"

definition OptFldsDefault :: OptFlds where
  "OptFldsDefault = OptSeqNum OR OptTimeOfEntry OR OptReasonCode OR OptDataSetName OR OptConfRev"

definition ReasonIntegrity :: ReasonCode where "ReasonIntegrity = 16"
definition ReasonGI :: ReasonCode where "ReasonGI = 32"

lemmas opt_defs = OptSeqNum_def OptTimeOfEntry_def OptReasonCode_def OptDataSetName_def OptDataRef_def OptBufOvfl_def
  OptEntryID_def OptConfRev_def OptSegmentation_def

text \<open>The conversions of flags return their panic on a bit string shorter than it says. The bit strings here are
  made by \<^verbatim>\<open>Value\<close> methods or by the codec and never are, so the panic is left out.\<close>

definition flags_of :: "(mms_error, 'a::len word) result \<Rightarrow> 'a word" where
  "flags_of r = (case r of Inr w \<Rightarrow> w | Inl _ \<Rightarrow> 0)"

definition value_of :: "(mms_error, Value) result \<Rightarrow> Value" where
  "value_of r = (case r of Inr v \<Rightarrow> v | Inl _ \<Rightarrow> NilValue)"

section \<open>State\<close>

record reportEntry =
  e_id :: "byte list"
  e_time :: Time
  e_members :: "nat list"
  e_values :: "Value list"
  e_reasons :: "ReasonCode list"

text \<open>The zero entry; the zero \<^verbatim>\<open>time.Time\<close> is 1 January of the year 1.\<close>

definition no_entry :: reportEntry where
  "no_entry = \<lparr>e_id = [], e_time = \<lparr>t_Unix = - 62135596800, t_Nanosecond = 0\<rparr>, e_members = [], e_values = [], e_reasons = []\<rparr>"

record rcbState =
  rs_domain :: string
  rs_item :: string
  rs_ref :: ObjectReference
  rs_rc :: ReportControl
  rs_maxBuffer :: nat
  rs_enabled :: bool
  rs_conn :: conn
  rs_owner :: conn
  rs_resvIP :: IP
  rs_resvCfg :: bool
  rs_resvTimer :: "nat option"
  rs_sqNum :: "32 word"
  rs_intgStop :: "nat option"
  rs_pending :: "(nat \<times> reportEntry) option"
  rs_buffer :: "reportEntry list"
  rs_next :: nat
  rs_resyncID :: "byte list option"
  rs_bufOverflow :: bool

definition rs_fc :: "rcbState \<Rightarrow> FC" where
  "rs_fc rs = (if rc_Buffered (rs_rc rs) then fc_BR else fc_RP)"

text \<open>One report handed to an association: of which block, with its sequence number, overflow flag, the PDUs the
  connection took, and whether it took them all.\<close>

record transmission =
  tr_conn :: nat
  tr_key :: string
  tr_entry :: reportEntry
  tr_seq :: "32 word"
  tr_ovfl :: bool
  tr_pdus :: "Element list"
  tr_ok :: bool

text \<open>What the blocks share: the model, the counter of entry identifiers, the calls made to the outside so far
  (clock readings, sends, timers started, which take their numbers from it) and the reports sent.
  \<open>rp_committed\<close> is a history the code does not keep: the entries put into buffers, each with its block.\<close>

record rpt =
  rp_m :: IEDModel
  rp_counter :: "64 word"
  rp_calls :: nat
  rp_sent :: "transmission list"
  rp_committed :: "(string \<times> reportEntry) list"

text \<open>The outside: addresses and PDU sizes of associations (nil is empty), which send fails, the clock, the time
  the process started, and the text of a value that is no string.\<close>

record rpt_env =
  re_ip :: "nat \<Rightarrow> IP"
  re_maxPDU :: "nat \<Rightarrow> int"
  re_fails :: "nat \<Rightarrow> bool"
  re_clock :: "nat \<Rightarrow> Time"
  re_seed :: "64 word"
  re_String :: "Value \<Rightarrow> byte list"

definition next_call :: "rpt \<Rightarrow> nat \<times> rpt" where
  "next_call w = (rp_calls w, w\<lparr>rp_calls := Suc (rp_calls w)\<rparr>)"

section \<open>Attributes\<close>

definition rcb_attr :: "IEDModel \<Rightarrow> rcbState \<Rightarrow> string \<Rightarrow> Value" where
  "rcb_attr m rs name = (case Attribute m (ref_Child (rs_ref rs) name) (rs_fc rs) of None \<Rightarrow> NilValue | Some a \<Rightarrow> da_Value a)"

definition env_Text :: "rpt_env \<Rightarrow> Value \<Rightarrow> byte list" where
  "env_Text env v =
     (if v = NilValue then []
      else if value_Type v = TypeVisibleString \<or> value_Type v = TypeMMSString \<or> value_Type v = TypeGeneralizedTime then value_Bytes v
      else re_String env v)"

definition attrText :: "rpt_env \<Rightarrow> IEDModel \<Rightarrow> rcbState \<Rightarrow> string \<Rightarrow> string" where
  "attrText env m rs name = string_of (env_Text env (rcb_attr m rs name))"

definition attrUint :: "IEDModel \<Rightarrow> rcbState \<Rightarrow> string \<Rightarrow> nat" where
  "attrUint m rs name = value_Uint64 (rcb_attr m rs name)"

text \<open>\<^verbatim>\<open>time.Duration(...) * time.Millisecond\<close>.\<close>

definition attr_millis :: "IEDModel \<Rightarrow> rcbState \<Rightarrow> string \<Rightarrow> int" where
  "attr_millis m rs name = sint (word_of_nat (attrUint m rs name) * 1000000 :: 64 word)"

definition setAttr :: "rcbState \<Rightarrow> string \<Rightarrow> Value \<Rightarrow> IEDModel \<Rightarrow> IEDModel" where
  "setAttr rs name v m = Attribute_set m (ref_Child (rs_ref rs) name) (rs_fc rs) v"

definition rs_trgOps :: "IEDModel \<Rightarrow> rcbState \<Rightarrow> TrgOps" where
  "rs_trgOps m rs = flags_of (TrgOpsFromValue (rcb_attr m rs ''TrgOps''))"

definition resvTms :: "IEDModel \<Rightarrow> rcbState \<Rightarrow> int" where
  "resvTms m rs = value_Int64 (rcb_attr m rs ''ResvTms'')"

section \<open>Addresses\<close>

definition v4InV6Prefix :: "byte list" where
  "v4InV6Prefix = [0, 0, 0, 0, 0, 0, 0, 0, 0, 0, 0xff, 0xff]"

definition ip_To4 :: "IP \<Rightarrow> IP" where
  "ip_To4 ip =
     (if length ip = 4 then ip
      else if length ip = 16 \<and> take 12 ip = v4InV6Prefix then drop 12 ip
      else [])"

definition ip_To16 :: "IP \<Rightarrow> IP" where
  "ip_To16 ip = (if length ip = 4 then v4InV6Prefix @ ip else if length ip = 16 then ip else [])"

definition ip_Equal :: "IP \<Rightarrow> IP \<Rightarrow> bool" where
  "ip_Equal ip x =
     (if length ip = length x then ip = x
      else if length ip = 4 \<and> length x = 16 then take 12 x = v4InV6Prefix \<and> ip = drop 12 x
      else if length ip = 16 \<and> length x = 4 then take 12 ip = v4InV6Prefix \<and> drop 12 ip = x
      else False)"

definition ipOctets :: "IP \<Rightarrow> byte list" where
  "ipOctets ip = (if ip = [] then [] else if ip_To4 ip \<noteq> [] then ip_To4 ip else ip_To16 ip)"

definition connIP :: "rpt_env \<Rightarrow> conn \<Rightarrow> IP" where
  "connIP env c = (case c of None \<Rightarrow> [] | Some c \<Rightarrow> re_ip env c)"

section \<open>Reservation\<close>

definition syncResv :: "rpt_env \<Rightarrow> rcbState \<Rightarrow> IEDModel \<Rightarrow> IEDModel" where
  "syncResv env rs m =
     (let held = (rs_owner rs \<noteq> None \<or> rs_resvIP rs \<noteq> []);
          m = setAttr rs ''Resv'' (NewBool held) m;
          ip = (if rs_owner rs \<noteq> None then connIP env (rs_owner rs) else rs_resvIP rs)
      in setAttr rs ''Owner'' (NewOctetString (ipOctets ip)) m)"

definition allowed :: "rpt_env \<Rightarrow> conn \<Rightarrow> rcbState \<Rightarrow> bool" where
  "allowed env c rs =
     (if rs_owner rs \<noteq> None then rs_owner rs = c
      else if rs_resvIP rs \<noteq> [] then connIP env c \<noteq> [] \<and> ip_Equal (connIP env c) (rs_resvIP rs)
      else True)"

definition stopResvTimer :: "rcbState \<Rightarrow> rcbState" where
  "stopResvTimer rs = rs\<lparr>rs_resvTimer := None\<rparr>"

definition take_block :: "rpt_env \<Rightarrow> conn \<Rightarrow> rcbState \<times> rpt \<Rightarrow> rcbState \<times> rpt" where
  "take_block env c = (\<lambda>(rs, w).
     let rs = stopResvTimer (rs\<lparr>rs_owner := c\<rparr>);
         rs = (if rs_resvCfg rs then rs else rs\<lparr>rs_resvIP := []\<rparr>)
     in (rs, w\<lparr>rp_m := syncResv env rs (rp_m w)\<rparr>))"

definition release :: "rpt_env \<Rightarrow> rcbState \<times> rpt \<Rightarrow> rcbState \<times> rpt" where
  "release env = (\<lambda>(rs, w).
     let prev = rs_owner rs; rs = rs\<lparr>rs_owner := None\<rparr> in
     if rs_resvCfg rs then (rs, w\<lparr>rp_m := syncResv env rs (rp_m w)\<rparr>)
     else
       let rs = (stopResvTimer rs)\<lparr>rs_resvIP := []\<rparr>; tms = resvTms (rp_m w) rs; ip = connIP env prev;
           (rs, w) = (if rc_Buffered (rs_rc rs) \<and> tms > 0 \<and> prev \<noteq> None \<and> ip \<noteq> []
                      then (let (t, w) = next_call w in (rs\<lparr>rs_resvIP := ip, rs_resvTimer := Some t\<rparr>, w))
                      else (rs, w))
       in (rs, w\<lparr>rp_m := syncResv env rs (rp_m w)\<rparr>))"

text \<open>The function of the reservation timer \<open>t\<close>.\<close>

definition resv_expires :: "rpt_env \<Rightarrow> nat \<Rightarrow> rcbState \<times> rpt \<Rightarrow> rcbState \<times> rpt" where
  "resv_expires env t = (\<lambda>(rs, w).
     if rs_resvTimer rs = Some t \<and> rs_owner rs = None
     then (let rs = rs\<lparr>rs_resvTimer := None, rs_resvIP := []\<rparr> in (rs, w\<lparr>rp_m := syncResv env rs (rp_m w)\<rparr>))
     else (rs, w))"

section \<open>Materialisation\<close>

definition defaultBufferedReports :: int where "defaultBufferedReports = 256"

definition bufferDepth :: "ReportControl \<Rightarrow> int \<Rightarrow> int" where
  "bufferDepth rc serverDefault =
     (if rc_MaxQueueSize rc > 0 then rc_MaxQueueSize rc
      else if serverDefault > 0 then serverDefault
      else defaultBufferedReports)"

text \<open>\<^verbatim>\<open>%02d\<close>\<close>

definition two_digits :: "nat \<Rightarrow> string" where
  "two_digits n = (if n < 10 then CHR ''0'' # decimal n else decimal n)"

definition rcbInstanceNames :: "ReportControl \<Rightarrow> string list" where
  "rcbInstanceNames rc =
     (if rc_NotIndexed rc then [rc_Name rc]
      else let n = (if rc_RptEnabled rc < 1 then 1 else nat (rc_RptEnabled rc))
           in map (\<lambda>i. rc_Name rc @ two_digits (i + 1)) [0..<n])"

definition plain_attr :: "FC \<Rightarrow> string \<Rightarrow> Value \<Rightarrow> DataAttribute" where
  "plain_attr fc name v = DataAttribute name fc [] (value_Type v) [] 0 [] v 0"

definition buildRCBObject :: "string \<Rightarrow> string \<Rightarrow> ReportControl \<Rightarrow> FC \<Rightarrow> string \<Rightarrow> DataObject" where
  "buildRCBObject ld lnd rc fc instName =
     (let dsRef = (if rc_DataSet rc \<noteq> [] then ld @ CHR ''/'' # lnd @ CHR ''$'' # rc_DataSet rc else []);
          optFlds = (if rc_OptFlds rc = 0 then OptFldsDefault else rc_OptFlds rc);
          trgOps = (if rc_TrgOps rc = 0 then TrgDataChange OR TrgQualityChange OR TrgGI else rc_TrgOps rc);
          attr = plain_attr fc
      in if rc_Buffered rc then
        (let optFlds = optFlds OR OptEntryID OR OptTimeOfEntry OR OptBufOvfl in
         DataObject instName [] []
           [attr ''RptID'' (NewVisibleString (octets_of (rc_RptID rc))), attr ''RptEna'' (NewBool False),
            attr ''DatSet'' (NewVisibleString (octets_of dsRef)), attr ''ConfRev'' (NewUint32 (unat (rc_ConfRev rc))),
            attr ''OptFlds'' (value_of (OptFlds_Value optFlds)), attr ''BufTm'' (NewUint32 (unat (rc_BufTime rc))),
            attr ''SqNum'' (NewUint16 0), attr ''TrgOps'' (value_of (TrgOps_Value trgOps)),
            attr ''IntgPd'' (NewUint32 (unat (rc_IntgPd rc))), attr ''GI'' (NewBool False), attr ''PurgeBuf'' (NewBool False),
            attr ''Owner'' (NewOctetString []), attr ''EntryID'' (NewOctetString (replicate 8 0)),
            attr ''TimeofEntry'' (NewBinaryTime \<lparr>t_Unix = epoch1984, t_Nanosecond = 0\<rparr>), attr ''ResvTms'' (NewInt16 0)])
      else
         DataObject instName [] []
           [attr ''RptID'' (NewVisibleString (octets_of (rc_RptID rc))), attr ''RptEna'' (NewBool False), attr ''Resv'' (NewBool False),
            attr ''DatSet'' (NewVisibleString (octets_of dsRef)), attr ''ConfRev'' (NewUint32 (unat (rc_ConfRev rc))),
            attr ''OptFlds'' (value_of (OptFlds_Value optFlds)), attr ''BufTm'' (NewUint32 (unat (rc_BufTime rc))),
            attr ''SqNum'' (NewUint8 0), attr ''TrgOps'' (value_of (TrgOps_Value trgOps)),
            attr ''IntgPd'' (NewUint32 (unat (rc_IntgPd rc))), attr ''GI'' (NewBool False)])"

definition reg_key :: "string \<Rightarrow> string \<Rightarrow> string" where
  "reg_key domain item = domain @ CHR 0x00 # item"

definition rs_key :: "rcbState \<Rightarrow> string" where
  "rs_key rs = reg_key (rs_domain rs) (rs_item rs)"

type_synonym registry = "string \<rightharpoonup> rcbState"

definition new_rcb :: "string \<Rightarrow> string \<Rightarrow> ReportControl \<Rightarrow> string \<Rightarrow> int \<Rightarrow> rcbState" where
  "new_rcb ld lnd rc instName bufDefault =
     \<lparr>rs_domain = ld, rs_item = lnd @ CHR ''$'' # FC_String (if rc_Buffered rc then fc_BR else fc_RP) @ CHR ''$'' # instName,
      rs_ref = ref_Child (ld @ CHR ''/'' # lnd) instName, rs_rc = rc, rs_maxBuffer = nat (bufferDepth rc bufDefault),
      rs_enabled = False, rs_conn = None, rs_owner = None, rs_resvIP = [], rs_resvCfg = False, rs_resvTimer = None, rs_sqNum = 0,
      rs_intgStop = None, rs_pending = None, rs_buffer = [], rs_next = 0, rs_resyncID = None, rs_bufOverflow = False\<rparr>"

definition add_rcb :: "rpt_env \<Rightarrow> int \<Rightarrow> string \<Rightarrow> string \<Rightarrow> ReportControl \<Rightarrow> nat \<times> string \<Rightarrow> registry \<times> IEDModel \<Rightarrow> registry \<times> IEDModel" where
  "add_rcb env bufDefault ld lnd rc = (\<lambda>(i, instName) (reg, m).
     let rs = new_rcb ld lnd rc instName bufDefault;
         m = node_update ld lnd (\<lambda>n. n\<lparr>ln_Objects := ln_Objects n @ [buildRCBObject ld lnd rc (rs_fc rs) instName]\<rparr>) m;
         ip = (if i < length (rc_Reservations rc) then (case rc_Reservations rc ! i of None \<Rightarrow> [] | Some r \<Rightarrow> cr_IP r) else []);
         (rs, m) = (if ip \<noteq> [] then (let rs = rs\<lparr>rs_resvIP := ip, rs_resvCfg := True\<rparr>
                                    in (rs, syncResv env rs (setAttr rs ''ResvTms'' (NewInt16 (- 1)) m)))
                    else (rs, m))
     in (reg(reg_key ld (rs_item rs) \<mapsto> rs), m))"

definition materialiseRCBs :: "rpt_env \<Rightarrow> int \<Rightarrow> IEDModel \<Rightarrow> registry \<times> IEDModel" where
  "materialiseRCBs env bufDefault m =
     fold (\<lambda>ld. fold (\<lambda>lnd. fold (\<lambda>rc.
         fold (add_rcb env bufDefault (ld_Name ld) (ln_Name lnd) rc) (enumerate 0 (rcbInstanceNames rc)))
       (ln_ReportControls lnd)) (ld_Nodes ld)) (m_Devices m) (Map.empty, m)"

definition rptIDOf :: "rpt_env \<Rightarrow> rcbState \<Rightarrow> Value \<Rightarrow> Value" where
  "rptIDOf env rs v =
     (if v \<noteq> NilValue \<and> env_Text env v \<noteq> [] then v
      else NewVisibleString (octets_of (rs_domain rs @ CHR ''/'' # rs_item rs)))"

text \<open>The key of the block an item names and the attribute, empty for the block itself.\<close>

definition rcbKey :: "string \<Rightarrow> string \<Rightarrow> (string \<times> string) option" where
  "rcbKey domain item =
     (case split_on (CHR ''$'') item of
        p0 # p1 # p2 # rest \<Rightarrow>
          if p1 \<noteq> ''RP'' \<and> p1 \<noteq> ''BR'' then None
          else Some (reg_key domain (p0 @ CHR ''$'' # p1 @ CHR ''$'' # p2), case rest of [] \<Rightarrow> [] | a # _ \<Rightarrow> a)
      | _ \<Rightarrow> None)"

section \<open>Data sets\<close>

definition resolveDataSet :: "IEDModel \<Rightarrow> string \<Rightarrow> (string \<times> string) list option" where
  "resolveDataSet m ref =
     (case cut (CHR ''/'') ref of
        (domain, list, ok) \<Rightarrow>
          if \<not> ok then None
          else case cut (CHR ''$'') list of
            (lnName, dsName, ok) \<Rightarrow>
              if \<not> ok then None
              else case node_of m domain lnName of
                None \<Rightarrow> None
              | Some lnd \<Rightarrow> if ln_DataSet lnd dsName = None then None else Some (datasetMembers m domain list))"

text \<open>The members, none when the data set does not exist.\<close>

definition rcb_members :: "rpt_env \<Rightarrow> IEDModel \<Rightarrow> rcbState \<Rightarrow> (string \<times> string) list" where
  "rcb_members env m rs = (case resolveDataSet m (attrText env m rs ''DatSet'') of None \<Rightarrow> [] | Some ms \<Rightarrow> ms)"

definition itemValue :: "IEDModel \<Rightarrow> string \<Rightarrow> string \<Rightarrow> Value" where
  "itemValue m domain item =
     (case Device m domain of
        None \<Rightarrow> NilValue
      | Some ld \<Rightarrow>
          (case splitLN ld item of
             None \<Rightarrow> NilValue
           | Some lnd \<Rightarrow> (case resolveReadErr lnd item of Inr (ReadOK v) \<Rightarrow> v | _ \<Rightarrow> NilValue)))"

end
