(* ===== verification/SrvReport.thy ===== *)
theory SrvReport
  imports SrvRcb
begin

text \<open>
  The report engine (\<^verbatim>\<open>server/reporting.go\<close>): the PDUs of a report, its transmission with sequence numbers,
  the buffer of a buffered block, buffer time, general interrogation and integrity reports, and the writes
  of clients to a control block. A function on a block and what the blocks share is what the source does
  under the two locks.
\<close>

unbundle bit_operations_syntax

section \<open>The PDUs of a report\<close>

definition supportedOptFlds :: OptFlds where
  "supportedOptFlds = OptSeqNum OR OptTimeOfEntry OR OptReasonCode OR OptDataSetName OR OptDataRef OR OptBufOvfl OR OptEntryID OR OptConfRev"

definition effectiveOptFlds :: "OptFlds \<Rightarrow> bool \<Rightarrow> OptFlds" where
  "effectiveOptFlds opt buffered =
     (let opt = opt AND supportedOptFlds in if buffered then opt else opt AND NOT (OptBufOvfl OR OptEntryID))"

definition slice :: "nat \<Rightarrow> nat \<Rightarrow> 'a list \<Rightarrow> 'a list" where
  "slice i j xs = drop i (take j xs)"

definition set_included :: "nat list \<Rightarrow> Value \<Rightarrow> Value" where
  "set_included idxs v = fold (\<lambda>i v. value_of (value_SetBit v (int i) True)) idxs v"

text \<open>The values of a report in their order; a nil value adds no element.\<close>

definition report_values :: "rpt_env \<Rightarrow> IEDModel \<Rightarrow> rcbState \<Rightarrow> reportEntry \<Rightarrow> (string \<times> string) list \<Rightarrow> OptFlds \<Rightarrow> 32 word \<Rightarrow> bool \<Rightarrow>
    nat \<Rightarrow> nat \<Rightarrow> bool \<Rightarrow> nat \<Rightarrow> bool \<Rightarrow> Value list" where
  "report_values env m rs e members opt seq bufOvfl i j segmented subSeq mf =
     (let opt = (if segmented then opt OR OptSegmentation else opt);
          has = (\<lambda>f. opt AND f \<noteq> 0);
          idxs = slice i j (e_members e)
      in [rptIDOf env rs (rcb_attr m rs ''RptID''), value_of (OptFlds_Value opt)]
       @ (if has OptSeqNum then [if rc_Buffered (rs_rc rs) then NewUint16 (ucast seq) else NewUint8 (ucast seq)] else [])
       @ (if has OptTimeOfEntry then [NewBinaryTime (e_time e)] else [])
       @ (if has OptDataSetName then [NewVisibleString (octets_of (attrText env m rs ''DatSet''))] else [])
       @ (if has OptBufOvfl then [NewBool bufOvfl] else [])
       @ (if has OptEntryID then [NewOctetString (e_id e)] else [])
       @ (if has OptConfRev then [NewUint32 (attrUint m rs ''ConfRev'' mod 2 ^ 32)] else [])
       @ (if segmented then [NewUint16 (word_of_nat subSeq), NewBool mf] else [])
       @ [set_included idxs (mms_NewBitString (int (length members)))]
       @ (if has OptDataRef
          then map (\<lambda>k. NewVisibleString (octets_of (fst (members ! k) @ CHR ''/'' # snd (members ! k)))) (filter (\<lambda>k. k < length members) idxs)
          else [])
       @ slice i j (e_values e)
       @ (if has OptReasonCode then map (\<lambda>r. value_of (ReasonCode_Value r)) (slice i j (e_reasons e)) else []))"

definition report_element :: "Value list \<Rightarrow> Element" where
  "report_element vs =
     Cons_el (ContextConstructed 0)
       [Some (Cons_el (ContextConstructed 1) [Some (Prim (ContextPrimitive 0) (octets_of ''RPT''))]),
        Some (Cons_el (ContextConstructed 0) (map DataElement vs))]"

definition reportElement :: "rpt_env \<Rightarrow> IEDModel \<Rightarrow> rcbState \<Rightarrow> reportEntry \<Rightarrow> (string \<times> string) list \<Rightarrow> OptFlds \<Rightarrow> 32 word \<Rightarrow> bool \<Rightarrow>
    nat \<Rightarrow> nat \<Rightarrow> bool \<Rightarrow> nat \<Rightarrow> bool \<Rightarrow> Element" where
  "reportElement env m rs e members opt seq bufOvfl i j segmented subSeq mf =
     report_element (report_values env m rs e members opt seq bufOvfl i j segmented subSeq mf)"

text \<open>The loops of the segmentation, for any way to \<open>build\<close> the members from \<open>i\<close> to \<open>j\<close> and any test that one \<open>fits\<close>.\<close>

function grow :: "(nat \<Rightarrow> bool) \<Rightarrow> nat \<Rightarrow> nat \<Rightarrow> nat" where
  "grow ok n to = (if to < n \<and> ok (to + 1) then grow ok n (to + 1) else to)"
  by pat_completeness auto

termination
  by (relation "measure (\<lambda>(_, n, to). n - to)") auto

declare grow.simps [simp del]

lemma grow_bounds: "to \<le> grow ok n to" "to \<le> n \<Longrightarrow> grow ok n to \<le> n"
proof (induction ok n to rule: grow.induct)
  case (1 ok n to)
  { case 1 then show ?case using "1.IH"(1) by (subst grow.simps) (auto simp del: One_nat_def dest: add_leD1) }
  { case 2 then show ?case using "1.IH"(2) by (subst grow.simps) (simp del: One_nat_def) }
qed

function segments :: "(nat \<Rightarrow> nat \<Rightarrow> bool \<Rightarrow> nat \<Rightarrow> bool \<Rightarrow> 'b) \<Rightarrow> ('b \<Rightarrow> bool) \<Rightarrow> nat \<Rightarrow> nat \<Rightarrow> nat \<Rightarrow> 'b list" where
  "segments build fits n i subSeq =
     (if i < n then
        (let to = grow (\<lambda>j. fits (build i j True subSeq True)) n (i + 1)
         in build i to True subSeq (to < n) # segments build fits n to (subSeq + 1))
      else [])"
  by pat_completeness auto

termination
proof (relation "measure (\<lambda>(_, _, n, i, _). n - i)", simp)
  fix build :: "nat \<Rightarrow> nat \<Rightarrow> bool \<Rightarrow> nat \<Rightarrow> bool \<Rightarrow> 'b" and fits n i subSeq x
  assume "i < n" and x: "x = grow (\<lambda>j. fits (build i j True subSeq True)) n (i + 1)"
  then have "i + 1 \<le> x" using grow_bounds(1) by simp
  with \<open>i < n\<close> show "((build, fits, n, x, subSeq + 1), build, fits, n, i, subSeq) \<in> measure (\<lambda>(_, _, n, i, _). n - i)" by auto
qed

declare segments.simps [simp del]

definition fits_pdu :: "int \<Rightarrow> Element \<Rightarrow> bool" where
  "fits_pdu maxPDU el = (maxPDU \<le> 0 \<or> int (Size el) + 4 \<le> maxPDU)"

definition reportPDUs :: "rpt_env \<Rightarrow> IEDModel \<Rightarrow> rcbState \<Rightarrow> reportEntry \<Rightarrow> 32 word \<Rightarrow> bool \<Rightarrow> int \<Rightarrow> Element list" where
  "reportPDUs env m rs e seq bufOvfl maxPDU =
     (let opt = effectiveOptFlds (flags_of (OptFldsFromValue (rcb_attr m rs ''OptFlds''))) (rc_Buffered (rs_rc rs));
          members = rcb_members env m rs;
          build = reportElement env m rs e members opt seq bufOvfl;
          n = length (e_members e);
          whole = build 0 n False 0 False
      in if fits_pdu maxPDU whole then [whole] else segments build (fits_pdu maxPDU) n 0 0)"

section \<open>Transmission\<close>

definition setSqNum :: "32 word \<Rightarrow> rcbState \<times> rpt \<Rightarrow> rcbState \<times> rpt" where
  "setSqNum n = (\<lambda>(rs, w).
     if rc_Buffered (rs_rc rs)
     then (let rs = rs\<lparr>rs_sqNum := n AND 0xffff\<rparr> in (rs, w\<lparr>rp_m := setAttr rs ''SqNum'' (NewUint16 (ucast (rs_sqNum rs))) (rp_m w)\<rparr>))
     else (let rs = rs\<lparr>rs_sqNum := n AND 0xff\<rparr> in (rs, w\<lparr>rp_m := setAttr rs ''SqNum'' (NewUint8 (ucast (rs_sqNum rs))) (rp_m w)\<rparr>)))"

text \<open>The PDUs sent, whether all were, and the calls made.\<close>

fun send_pdus :: "(nat \<Rightarrow> bool) \<Rightarrow> nat \<Rightarrow> Element list \<Rightarrow> Element list \<times> bool \<times> nat" where
  "send_pdus fails k [] = ([], True, k)"
| "send_pdus fails k (p # ps) =
     (if fails k then ([], False, Suc k)
      else case send_pdus fails (Suc k) ps of (out, ok, k') \<Rightarrow> (p # out, ok, k'))"

definition transmit :: "rpt_env \<Rightarrow> reportEntry \<Rightarrow> rcbState \<times> rpt \<Rightarrow> rcbState \<times> rpt" where
  "transmit env e = (\<lambda>(rs, w).
     case rs_conn rs of
       None \<Rightarrow> (rs, w)
     | Some c \<Rightarrow>
         let seq = rs_sqNum rs;
             (rs, w) = setSqNum (seq + 1) (rs, w);
             bufOvfl = rs_bufOverflow rs;
             rs = rs\<lparr>rs_bufOverflow := False\<rparr>;
             (out, ok, k) = send_pdus (re_fails env) (rp_calls w) (reportPDUs env (rp_m w) rs e seq bufOvfl (re_maxPDU env c));
             sent = \<lparr>tr_conn = c, tr_key = rs_key rs, tr_entry = e, tr_seq = seq, tr_ovfl = bufOvfl, tr_pdus = out, tr_ok = ok\<rparr>
         in (if \<not> ok \<and> rc_Buffered (rs_rc rs) then rs\<lparr>rs_bufOverflow := True\<rparr> else rs,
             w\<lparr>rp_calls := k, rp_sent := rp_sent w @ [sent]\<rparr>))"

lemma transmit_keeps:
  "rs_buffer (fst (transmit env e s)) = rs_buffer (fst s)" "rs_next (fst (transmit env e s)) = rs_next (fst s)"
  by (simp_all add: transmit_def setSqNum_def Let_def split: prod.splits option.splits)

function transmitBuffered :: "rpt_env \<Rightarrow> rcbState \<times> rpt \<Rightarrow> rcbState \<times> rpt" where
  "transmitBuffered env s =
     (if rs_next (fst s) < length (rs_buffer (fst s)) then
        (case transmit env (rs_buffer (fst s) ! rs_next (fst s)) s of
           (rs, w) \<Rightarrow> transmitBuffered env (rs\<lparr>rs_next := rs_next rs + 1\<rparr>, w))
      else s)"
  by pat_completeness auto

termination
  by (relation "measure (\<lambda>(_, s). length (rs_buffer (fst s)) - rs_next (fst s))")
     (simp, use transmit_keeps in \<open>fastforce dest: arg_cong [of _ _ fst]\<close>)

declare transmitBuffered.simps [simp del]

section \<open>The buffer\<close>

definition makeEntryID :: "64 word \<Rightarrow> byte list" where
  "makeEntryID n = map (\<lambda>k. ucast (drop_bit k n)) [56, 48, 40, 32, 24, 16, 8, 0]"

definition nextEntryID :: "rpt_env \<Rightarrow> rpt \<Rightarrow> byte list \<times> rpt" where
  "nextEntryID env w =
     (let n = rp_counter w + 1; high = re_seed env AND 0xFFFFFFFF
      in (makeEntryID (push_bit 32 high OR ucast (ucast n :: 32 word)), w\<lparr>rp_counter := n\<rparr>))"

definition isZeroEntryID :: "byte list \<Rightarrow> bool" where
  "isZeroEntryID i = (i = replicate 8 0)"

text \<open>The position of an entry; \<open>None\<close> is \<open>-1\<close>.\<close>

fun entry_index :: "byte list \<Rightarrow> reportEntry list \<Rightarrow> nat option" where
  "entry_index i [] = None"
| "entry_index i (e # es) = (if e_id e = i then Some 0 else map_option Suc (entry_index i es))"

definition bufferIndex :: "byte list \<Rightarrow> rcbState \<Rightarrow> nat option" where
  "bufferIndex i rs = entry_index i (rs_buffer rs)"

function trim :: "rcbState \<Rightarrow> rcbState" where
  "trim rs =
     (if length (rs_buffer rs) > rs_maxBuffer rs then
        trim (if rs_next rs > 0 then rs\<lparr>rs_buffer := tl (rs_buffer rs), rs_next := rs_next rs - 1\<rparr>
              else rs\<lparr>rs_buffer := tl (rs_buffer rs), rs_bufOverflow := True\<rparr>)
      else rs)"
  by pat_completeness auto

termination
  by (relation "measure (\<lambda>rs. length (rs_buffer rs))") auto

declare trim.simps [simp del]

definition emit :: "rpt_env \<Rightarrow> reportEntry \<Rightarrow> rcbState \<times> rpt \<Rightarrow> rcbState \<times> rpt" where
  "emit env e = (\<lambda>(rs, w).
     let (k, w) = next_call w; e = e\<lparr>e_time := re_clock env k\<rparr> in
     if \<not> rc_Buffered (rs_rc rs) then (if rs_enabled rs then transmit env e (rs, w) else (rs, w))
     else
       let (i, w) = nextEntryID env w; e = e\<lparr>e_id := i\<rparr>;
           rs = trim (rs\<lparr>rs_buffer := rs_buffer rs @ [e]\<rparr>);
           m = setAttr rs ''EntryID'' (NewOctetString (e_id e)) (rp_m w);
           m = setAttr rs ''TimeofEntry'' (NewBinaryTime (e_time e)) m;
           w = w\<lparr>rp_m := m, rp_committed := rp_committed w @ [(rs_key rs, e)]\<rparr>
       in if rs_enabled rs then transmitBuffered env (rs, w) else (rs, w))"

definition purge :: "rcbState \<Rightarrow> rcbState" where
  "purge rs = rs\<lparr>rs_buffer := [], rs_next := 0, rs_bufOverflow := False, rs_resyncID := None\<rparr>"

section \<open>Buffer time\<close>

definition flushPending :: "rpt_env \<Rightarrow> rcbState \<times> rpt \<Rightarrow> rcbState \<times> rpt" where
  "flushPending env = (\<lambda>(rs, w).
     case rs_pending rs of
       None \<Rightarrow> (rs, w)
     | Some (_, p) \<Rightarrow>
         let rs = rs\<lparr>rs_pending := None\<rparr> in if e_members p \<noteq> [] then emit env p (rs, w) else (rs, w))"

definition insert_at :: "nat \<Rightarrow> 'a \<Rightarrow> 'a list \<Rightarrow> 'a list" where
  "insert_at k x xs = take k xs @ x # drop k xs"

text \<open>Where a member goes: before the first larger one.\<close>

definition member_at :: "nat \<Rightarrow> nat list \<Rightarrow> nat" where
  "member_at idx ms = length (takeWhile (\<lambda>m. m \<le> idx) ms)"

fun merge_members :: "nat list \<Rightarrow> Value list \<Rightarrow> ReasonCode list \<Rightarrow> reportEntry \<Rightarrow> reportEntry" where
  "merge_members (idx # is) (v # vs) (r # rs) p =
     (let pos = member_at idx (e_members p)
      in merge_members is vs rs (p\<lparr>e_members := insert_at pos idx (e_members p), e_values := insert_at pos v (e_values p),
           e_reasons := insert_at pos r (e_reasons p)\<rparr>))"
| "merge_members _ _ _ p = p"

definition merge_entry :: "reportEntry \<Rightarrow> reportEntry \<Rightarrow> reportEntry" where
  "merge_entry p e = merge_members (e_members e) (e_values e) (e_reasons e) p"

definition overlaps :: "nat list \<Rightarrow> nat list \<Rightarrow> bool" where
  "overlaps a b = list_ex (\<lambda>x. list_ex (\<lambda>y. x = y) b) a"

definition event :: "rpt_env \<Rightarrow> reportEntry \<Rightarrow> rcbState \<times> rpt \<Rightarrow> rcbState \<times> rpt" where
  "event env e = (\<lambda>(rs, w).
     if attr_millis (rp_m w) rs ''BufTm'' \<le> 0 then emit env e (rs, w)
     else
       let (rs, w) = (case rs_pending rs of
                        Some (_, p) \<Rightarrow> if overlaps (e_members p) (e_members e) then flushPending env (rs, w) else (rs, w)
                      | None \<Rightarrow> (rs, w));
           (rs, w) = (case rs_pending rs of
                        Some _ \<Rightarrow> (rs, w)
                      | None \<Rightarrow> let (t, w) = next_call w in (rs\<lparr>rs_pending := Some (t, no_entry)\<rparr>, w))
       in (rs\<lparr>rs_pending := map_option (\<lambda>(t, p). (t, merge_entry p e)) (rs_pending rs)\<rparr>, w))"

text \<open>The function of the buffer-time timer \<open>t\<close>.\<close>

definition pend_expires :: "rpt_env \<Rightarrow> nat \<Rightarrow> rcbState \<times> rpt \<Rightarrow> rcbState \<times> rpt" where
  "pend_expires env t = (\<lambda>(rs, w).
     case rs_pending rs of Some (t', _) \<Rightarrow> if t' = t then flushPending env (rs, w) else (rs, w) | None \<Rightarrow> (rs, w))"

section \<open>Reports of everything, and of changes\<close>

text \<open>The entry of the members that have a value and a reason.\<close>

definition collect :: "IEDModel \<Rightarrow> (string \<times> string \<Rightarrow> ReasonCode) \<Rightarrow> (string \<times> string) list \<Rightarrow> reportEntry" where
  "collect m why members =
     (let found = List.map_filter (\<lambda>(i, mb). let r = why mb; v = itemValue m (fst mb) (snd mb)
                     in if r = 0 \<or> v = NilValue then None else Some (i, value_Clone v, r)) (enumerate 0 members)
      in no_entry\<lparr>e_members := map fst found, e_values := map (fst \<circ> snd) found, e_reasons := map (snd \<circ> snd) found\<rparr>)"

definition reportAll :: "rpt_env \<Rightarrow> ReasonCode \<Rightarrow> rcbState \<times> rpt \<Rightarrow> rcbState \<times> rpt" where
  "reportAll env why s =
     (let (rs, w) = flushPending env s; e = collect (rp_m w) (\<lambda>_. why) (rcb_members env (rp_m w) rs)
      in if e_members e \<noteq> [] then emit env e (rs, w) else (rs, w))"

text \<open>A tick of the goroutine with stop channel \<open>t\<close>.\<close>

definition integrity_tick :: "rpt_env \<Rightarrow> nat \<Rightarrow> rcbState \<times> rpt \<Rightarrow> rcbState \<times> rpt" where
  "integrity_tick env t s = (if rs_intgStop (fst s) = Some t then reportAll env ReasonIntegrity s else s)"

definition below :: "string \<Rightarrow> string \<Rightarrow> bool" where
  "below a b = (take (length b + 1) a = b @ ''.'')"

text \<open>The entries of a change set, in the order the map is walked.\<close>

definition memberReason :: "(change \<times> TrgOps) list \<Rightarrow> string \<times> string \<Rightarrow> TrgOps" where
  "memberReason changes mb =
     (let (ref, fc) = FromMMS (fst mb) (snd mb)
      in fold (\<lambda>((cref, cfc), t) r. if cfc = fc \<and> (cref = ref \<or> below cref ref \<or> below ref cref) then r OR t else r) changes 0)"

definition update_block :: "rpt_env \<Rightarrow> (change \<times> TrgOps) list \<Rightarrow> rcbState \<times> rpt \<Rightarrow> rcbState \<times> rpt" where
  "update_block env changes = (\<lambda>(rs, w).
     if \<not> rc_Buffered (rs_rc rs) \<and> \<not> rs_enabled rs then (rs, w)
     else
       let want = rs_trgOps (rp_m w) rs AND (TrgDataChange OR TrgQualityChange OR TrgDataUpdate);
           e = collect (rp_m w) (\<lambda>mb. memberReason changes mb AND want) (rcb_members env (rp_m w) rs)
       in if e_members e \<noteq> [] then event env e (rs, w) else (rs, w))"

section \<open>Enabling and disabling\<close>

definition stopIntegrity :: "rcbState \<Rightarrow> rcbState" where
  "stopIntegrity rs = rs\<lparr>rs_intgStop := None\<rparr>"

definition resume :: "rcbState \<Rightarrow> rcbState" where
  "resume rs =
     (case rs_resyncID rs of
        None \<Rightarrow> rs
      | Some i \<Rightarrow>
          let rs = rs\<lparr>rs_resyncID := None\<rparr> in
          if isZeroEntryID i then rs\<lparr>rs_next := 0\<rparr>
          else case bufferIndex i rs of
            Some k \<Rightarrow> rs\<lparr>rs_next := k + 1\<rparr>
          | None \<Rightarrow> rs\<lparr>rs_next := 0, rs_bufOverflow := True\<rparr>)"

definition enable :: "rpt_env \<Rightarrow> conn \<Rightarrow> rcbState \<times> rpt \<Rightarrow> rcbState \<times> rpt" where
  "enable env c = (\<lambda>(rs, w).
     let rs = rs\<lparr>rs_enabled := True, rs_conn := c\<rparr>;
         s = (if rs_owner rs \<noteq> c then take_block env c (rs, w) else (rs, w));
         (rs, w) = setSqNum 0 s;
         rs = stopIntegrity rs;
         (rs, w) = (if rc_Buffered (rs_rc rs) then transmitBuffered env (resume rs, w) else (rs, w))
     in if attr_millis (rp_m w) rs ''IntgPd'' > 0 \<and> rs_trgOps (rp_m w) rs AND TrgIntegrity \<noteq> 0
        then (let (t, w) = next_call w in (rs\<lparr>rs_intgStop := Some t\<rparr>, w))
        else (rs, w))"

definition disable :: "rpt_env \<Rightarrow> rcbState \<times> rpt \<Rightarrow> rcbState \<times> rpt" where
  "disable env s =
     (let (rs, w) = flushPending env s;
          rs = stopIntegrity (rs\<lparr>rs_enabled := False, rs_conn := None\<rparr>)
      in if rc_Buffered (rs_rc rs) then release env (rs, w) else (rs, w))"

section \<open>Writes of clients\<close>

definition rcbSettings :: "string list" where
  "rcbSettings = [''RptID'', ''DatSet'', ''OptFlds'', ''BufTm'', ''TrgOps'', ''IntgPd'', ''PurgeBuf'', ''EntryID'', ''ResvTms'']"

definition rcbReadOnly :: "string list" where
  "rcbReadOnly = [''ConfRev'', ''SqNum'', ''TimeofEntry'', ''Owner'']"

text \<open>\<open>None\<close> admits the write; the source returns \<^verbatim>\<open>0xff\<close>, which is no DataAccessError.\<close>

definition check_block :: "rpt_env \<Rightarrow> IEDModel \<Rightarrow> string \<Rightarrow> Value \<Rightarrow> conn \<Rightarrow> rcbState \<Rightarrow> byte option" where
  "check_block env m attr v c rs =
     (if \<not> allowed env c rs then Some AccessTemporarilyUnavailable
      else if attr \<in> set rcbReadOnly then Some AccessObjectAccessDenied
      else if attr = ''RptEna'' then
        (if value_Bool v \<and> (rs_enabled rs \<or> resolveDataSet m (attrText env m rs ''DatSet'') = None)
         then Some AccessTemporarilyUnavailable else None)
      else if attr = ''GI'' then
        (if value_Bool v \<and> \<not> rs_enabled rs then Some AccessTemporarilyUnavailable else None)
      else if attr = ''Resv'' then
        (if \<not> value_Bool v \<and> rs_resvCfg rs then Some AccessObjectAccessDenied
         else if \<not> value_Bool v \<and> rs_enabled rs then Some AccessTemporarilyUnavailable
         else None)
      else if attr = ''ResvTms'' then
        (if rs_resvCfg rs then Some AccessObjectAccessDenied
         else if value_Int64 v < 0 then Some AccessObjectValueInvalid
         else if rs_enabled rs then Some AccessTemporarilyUnavailable
         else None)
      else if attr \<in> set rcbSettings then
        (if rs_enabled rs then Some AccessTemporarilyUnavailable
         else if attr = ''DatSet'' then
           (let ref = string_of (env_Text env v)
            in if ref \<noteq> [] \<and> resolveDataSet m ref = None then Some AccessObjectValueInvalid else None)
         else if attr = ''EntryID'' then
           (let i = value_Bytes v
            in if length i \<noteq> 8 \<or> \<not> isZeroEntryID i \<and> bufferIndex i rs = None then Some AccessObjectValueInvalid else None)
         else None)
      else None)"

definition bump_ConfRev :: "rcbState \<Rightarrow> IEDModel \<Rightarrow> IEDModel" where
  "bump_ConfRev rs m =
     (let v = rcb_attr m rs ''ConfRev'' in
      if v \<noteq> NilValue then setAttr rs ''ConfRev'' (NewUint32 ((value_Uint64 v + 1) mod 2 ^ 32)) m else m)"

definition write_block :: "rpt_env \<Rightarrow> string \<Rightarrow> Value \<Rightarrow> conn \<Rightarrow> rcbState \<times> rpt \<Rightarrow> rcbState \<times> rpt" where
  "write_block env attr v c s =
     (if attr = ''Resv'' then (if value_Bool v then take_block env c s else release env s)
      else
        let (rs, w) = (if rs_owner (fst s) = None then take_block env c s else s) in
        if attr = ''ResvTms'' then (if value_Int64 v = 0 then stopResvTimer rs else rs, w)
        else if attr = ''RptEna'' then (if value_Bool v then enable env c (rs, w) else disable env (rs, w))
        else if attr = ''GI'' then
          (let (rs, w) = (if value_Bool v \<and> rs_trgOps (rp_m w) rs AND TrgGI \<noteq> 0 then reportAll env ReasonGI (rs, w) else (rs, w))
           in (rs, w\<lparr>rp_m := setAttr rs ''GI'' (NewBool False) (rp_m w)\<rparr>))
        else if attr = ''PurgeBuf'' then
          (let rs = (if value_Bool v then purge rs else rs) in (rs, w\<lparr>rp_m := setAttr rs ''PurgeBuf'' (NewBool False) (rp_m w)\<rparr>))
        else if attr = ''EntryID'' then (rs\<lparr>rs_resyncID := (if value_Bytes v = [] then None else Some (value_Bytes v))\<rparr>, w)
        else if attr = ''DatSet'' then (purge rs, w\<lparr>rp_m := bump_ConfRev rs (rp_m w)\<rparr>)
        else (rs, w))"

section \<open>The manager\<close>

record reportManager =
  rm_reg :: registry
  rm_w :: rpt

definition on_block :: "string \<Rightarrow> (rcbState \<times> rpt \<Rightarrow> rcbState \<times> rpt) \<Rightarrow> reportManager \<Rightarrow> reportManager" where
  "on_block key f rm =
     (case rm_reg rm key of
        None \<Rightarrow> rm
      | Some rs \<Rightarrow> (case f (rs, rm_w rm) of (rs', w') \<Rightarrow> rm\<lparr>rm_reg := (rm_reg rm)(key \<mapsto> rs'), rm_w := w'\<rparr>))"

definition newReportManager :: "rpt_env \<Rightarrow> int \<Rightarrow> IEDModel \<Rightarrow> reportManager" where
  "newReportManager env bufDefault m =
     (let (reg, m') = materialiseRCBs env bufDefault m
      in \<lparr>rm_reg = reg, rm_w = \<lparr>rp_m = m', rp_counter = 0, rp_calls = 0, rp_sent = [], rp_committed = []\<rparr>\<rparr>)"

definition checkRCBWrite :: "rpt_env \<Rightarrow> string \<Rightarrow> string \<Rightarrow> string \<Rightarrow> Value \<Rightarrow> conn \<Rightarrow> reportManager \<Rightarrow> byte option" where
  "checkRCBWrite env domain item attr v c rm =
     (case rcbKey domain item of
        None \<Rightarrow> Some AccessObjectNonExistent
      | Some (key, _) \<Rightarrow>
          (case rm_reg rm key of
             None \<Rightarrow> Some AccessObjectNonExistent
           | Some rs \<Rightarrow> check_block env (rp_m (rm_w rm)) attr v c rs))"

definition onRCBWrite :: "rpt_env \<Rightarrow> string \<Rightarrow> string \<Rightarrow> string \<Rightarrow> Value \<Rightarrow> conn \<Rightarrow> reportManager \<Rightarrow> reportManager" where
  "onRCBWrite env domain item attr v c rm =
     (case rcbKey domain item of None \<Rightarrow> rm | Some (key, _) \<Rightarrow> on_block key (write_block env attr v c) rm)"

text \<open>The loops over the registry; \<open>order\<close> is the order in which Go walks the map.\<close>

definition onUpdate :: "rpt_env \<Rightarrow> string list \<Rightarrow> (change \<times> TrgOps) list \<Rightarrow> reportManager \<Rightarrow> reportManager" where
  "onUpdate env order changes rm =
     (if changes = [] then rm else fold (\<lambda>key. on_block key (update_block env changes)) order rm)"

definition disconnect_block :: "rpt_env \<Rightarrow> nat \<Rightarrow> rcbState \<times> rpt \<Rightarrow> rcbState \<times> rpt" where
  "disconnect_block env c s =
     (let s = (if rs_conn (fst s) = Some c then disable env s else s)
      in if rs_owner (fst s) = Some c then release env s else s)"

definition disableConn :: "rpt_env \<Rightarrow> string list \<Rightarrow> nat \<Rightarrow> reportManager \<Rightarrow> reportManager" where
  "disableConn env order c rm = fold (\<lambda>key. on_block key (disconnect_block env c)) order rm"

end
