(* ===== verification/SrvCb.thy ===== *)
theory SrvCb
  imports SrvReport SrvFits
begin

text \<open>
  The GOOSE, sampled-value and log control blocks a server materialises in its model (\<^verbatim>\<open>server/cb.go\<close>), and the life of the
  sampled-value ones (\<^verbatim>\<open>server/svcb.go\<close>): a client enables them and reserves the unicast ones. A block is found again by its reference; the
  attributes hold its state, and the reserving association is kept beside it.
\<close>

definition fc_LG :: FC where "fc_LG = 15"
definition fc_GO :: FC where "fc_GO = 16"
definition fc_GS :: FC where "fc_GS = 17"
definition fc_MS :: FC where "fc_MS = 18"
definition fc_US :: FC where "fc_US = 19"

section \<open>The objects\<close>

definition cbAttr :: "FC \<Rightarrow> string \<Rightarrow> Value \<Rightarrow> DataAttribute" where
  "cbAttr fc name v = DataAttribute name fc [] (value_Type v) [] 0 [] v 0"

definition cbDataSetRef :: "string \<Rightarrow> string \<Rightarrow> string \<Rightarrow> string" where
  "cbDataSetRef ld lnd name = (if name = [] then [] else ld @ CHR ''/'' # lnd @ CHR ''$'' # name)"

definition macBytes :: "byte list \<Rightarrow> byte list" where
  "macBytes m = take 6 (m @ replicate 6 0)"

definition dstAddress :: "FC \<Rightarrow> byte list \<Rightarrow> 8 word \<Rightarrow> 16 word \<Rightarrow> 16 word \<Rightarrow> DataAttribute" where
  "dstAddress fc mac pri vid appID =
     DataAttribute ''DstAddress'' fc [] TypeStructure [] 0
       [cbAttr fc ''Addr'' (NewOctetString (macBytes mac)), cbAttr fc ''PRIORITY'' (NewUint8 pri),
        cbAttr fc ''VID'' (NewUint16 vid), cbAttr fc ''APPID'' (NewUint16 appID)] NilValue 0"

definition buildGsCBObject :: "GSEControl \<Rightarrow> DataObject" where
  "buildGsCBObject gc =
     DataObject (gc_Name gc) ''GSCB'' [] [cbAttr fc_GS ''GsEna'' (NewBool False), cbAttr fc_GS ''GsID'' (NewVisibleString (octets_of (gc_GoID gc)))]"

definition buildGoCBObject :: "string \<Rightarrow> string \<Rightarrow> GSEControl \<Rightarrow> DataObject" where
  "buildGoCBObject ld lnd gc =
     (if gc_Type gc = GSSE then buildGsCBObject gc
      else DataObject (gc_Name gc) ''GOCB'' []
        [cbAttr fc_GO ''GoEna'' (NewBool False), cbAttr fc_GO ''GoID'' (NewVisibleString (octets_of (gc_GoID gc))),
         cbAttr fc_GO ''DatSet'' (NewVisibleString (octets_of (cbDataSetRef ld lnd (gc_DataSet gc)))),
         cbAttr fc_GO ''ConfRev'' (NewUint32 (unat (gc_ConfRev gc))), cbAttr fc_GO ''NdsCom'' (NewBool False),
         dstAddress fc_GO (gc_DstMAC gc) (gc_VLANPri gc) (gc_VLANID gc) (gc_AppID gc),
         cbAttr fc_GO ''MinTime'' (NewUint32 (unat (gc_MinTime gc))), cbAttr fc_GO ''MaxTime'' (NewUint32 (unat (gc_MaxTime gc))),
         cbAttr fc_GO ''FixedOffs'' (NewBool (gc_FixedOffs gc))])"

definition sv_unicast :: "SVControl \<Rightarrow> bool" where
  "sv_unicast sc = (\<not> sv_Multicast sc \<or> sv_Protocol sc = ''R-SV'')"

definition svOptFlds :: "SVOpts \<Rightarrow> Value" where
  "svOptFlds opts =
     fold (\<lambda>(i, on) v. value_of (value_SetBit v i on))
       [(0, so_RefreshTime opts), (1, so_SampleSynchronized opts), (2, so_SampleRate opts), (3, so_DataSet opts),
        (4, so_Security opts), (5, so_Timestamp opts), (6, so_SynchSourceID opts)] (mms_NewBitString 10)"

definition buildSVCBObject :: "string \<Rightarrow> string \<Rightarrow> SVControl \<Rightarrow> DataObject" where
  "buildSVCBObject ld lnd sc =
     (let unicast = sv_unicast sc; fc = (if unicast then fc_US else fc_MS)
      in DataObject (sv_Name sc) (if unicast then ''USVCB'' else ''MSVCB'') []
        ([cbAttr fc ''SvEna'' (NewBool False)]
         @ (if unicast then [cbAttr fc ''Resv'' (NewBool False)] else [])
         @ [cbAttr fc (if unicast then ''UsvID'' else ''MsvID'') (NewVisibleString (octets_of (sv_SvID sc))),
            cbAttr fc ''DatSet'' (NewVisibleString (octets_of (cbDataSetRef ld lnd (sv_DataSet sc)))),
            cbAttr fc ''ConfRev'' (NewUint32 (unat (sv_ConfRev sc))), cbAttr fc ''SmpRate'' (NewUint16 (ucast (sv_SmpRate sc))),
            cbAttr fc ''OptFlds'' (svOptFlds (sv_Opts sc)), cbAttr fc ''SmpMod'' (NewInt8 (sv_SmpMod sc)),
            dstAddress fc (sv_DstMAC sc) (sv_VLANPri sc) (sv_VLANID sc) (sv_AppID sc),
            cbAttr fc ''noASDU'' (NewUint16 (ucast (sv_NoASDU sc)))]))"

text \<open>\<^verbatim>\<open>strings.TrimSuffix\<close>.\<close>

definition trim_suffix :: "string \<Rightarrow> string \<Rightarrow> string" where
  "trim_suffix s suf = (if length suf \<le> length s \<and> drop (length s - length suf) s = suf then take (length s - length suf) s else s)"

definition logTarget :: "IEDModel \<Rightarrow> LogicalDevice \<Rightarrow> LogControl \<Rightarrow> (string \<times> string) option" where
  "logTarget m ld lc =
     (if lc_LogName lc = [] then None
      else
        let domain =
              (if lc_LogLDInst lc \<noteq> [] \<and> lc_LogLDInst lc \<noteq> ld_Inst ld then
                 (case find (\<lambda>other. ld_Inst other = lc_LogLDInst lc) (m_Devices m) of
                    Some other \<Rightarrow> ld_Name other
                  | None \<Rightarrow> trim_suffix (ld_Name ld) (ld_Inst ld) @ lc_LogLDInst lc)
               else ld_Name ld);
            lnName = (if lc_LogLN lc = [] then ''LLN0'' else lc_LogLN lc)
        in Some (domain, lnName @ CHR ''$'' # lc_LogName lc))"

definition logRef :: "IEDModel \<Rightarrow> LogicalDevice \<Rightarrow> LogControl \<Rightarrow> string" where
  "logRef m ld lc = (case logTarget m ld lc of None \<Rightarrow> [] | Some (domain, name) \<Rightarrow> domain @ CHR ''/'' # name)"

definition zeroBinaryTime :: Time where
  "zeroBinaryTime = \<lparr>t_Unix = epoch1984, t_Nanosecond = 0\<rparr>"

definition buildLCBObject :: "IEDModel \<Rightarrow> LogicalDevice \<Rightarrow> string \<Rightarrow> LogControl \<Rightarrow> DataObject" where
  "buildLCBObject m ld lnd lc =
     (let trgOps = (if lc_TrgOps lc = 0 then TrgDataChange OR TrgGI else lc_TrgOps lc)
      in DataObject (lc_Name lc) ''LCB'' []
        [cbAttr fc_LG ''LogEna'' (NewBool (lc_LogEna lc)), cbAttr fc_LG ''LogRef'' (NewVisibleString (octets_of (logRef m ld lc))),
         cbAttr fc_LG ''DatSet'' (NewVisibleString (octets_of (cbDataSetRef (ld_Name ld) lnd (lc_DataSet lc)))),
         cbAttr fc_LG ''OldEntrTm'' (NewBinaryTime zeroBinaryTime), cbAttr fc_LG ''NewEntrTm'' (NewBinaryTime zeroBinaryTime),
         cbAttr fc_LG ''OldEnt'' (NewOctetString (replicate 8 0)), cbAttr fc_LG ''NewEnt'' (NewOctetString (replicate 8 0)),
         cbAttr fc_LG ''TrgOps'' (value_of (TrgOps_Value trgOps)), cbAttr fc_LG ''IntgPd'' (NewUint32 (unat (lc_IntgPd lc)))])"

definition cb_objects :: "IEDModel \<Rightarrow> LogicalDevice \<Rightarrow> LogicalNode \<Rightarrow> DataObject list" where
  "cb_objects m ld lnd =
     map (buildGoCBObject (ld_Name ld) (ln_Name lnd)) (ln_GSEControls lnd)
     @ map (buildSVCBObject (ld_Name ld) (ln_Name lnd)) (ln_SVControls lnd)
     @ map (buildLCBObject m ld (ln_Name lnd)) (ln_LogControls lnd)"

definition materialiseControlBlocks :: "IEDModel \<Rightarrow> IEDModel" where
  "materialiseControlBlocks m =
     m\<lparr>m_Devices := map (\<lambda>ld. ld\<lparr>ld_Nodes := map (\<lambda>lnd. lnd\<lparr>ln_Objects := ln_Objects lnd @ cb_objects m ld lnd\<rparr>) (ld_Nodes ld)\<rparr>) (m_Devices m)\<rparr>"

section \<open>Sampled-value control blocks\<close>

record svcbState =
  sb_ld :: string
  sb_ln :: string
  sb_sc :: SVControl
  sb_unicast :: bool
  sb_owner :: conn

record SVControlEvent =
  ev_ld :: string
  ev_ln :: string
  ev_block :: SVControl
  ev_Unicast :: bool
  ev_Enabled :: bool
  ev_Reserved :: bool
  ev_Conn :: conn

definition sb_fc :: "svcbState \<Rightarrow> FC" where
  "sb_fc st = (if sb_unicast st then fc_US else fc_MS)"

definition sb_cell :: "svcbState \<Rightarrow> string \<Rightarrow> cell" where
  "sb_cell st name = (ref_Child (ref_Child (sb_ld st @ CHR ''/'' # sb_ln st) (sv_Name (sb_sc st))) name, sb_fc st)"

definition sb_bool :: "IEDModel \<Rightarrow> svcbState \<Rightarrow> string \<Rightarrow> bool" where
  "sb_bool m st name = value_Bool (cell_value m (sb_cell st name))"

definition sb_event :: "IEDModel \<Rightarrow> svcbState \<Rightarrow> SVControlEvent" where
  "sb_event m st =
     \<lparr>ev_ld = sb_ld st, ev_ln = sb_ln st, ev_block = sb_sc st, ev_Unicast = sb_unicast st, ev_Enabled = sb_bool m st ''SvEna'',
      ev_Reserved = (sb_unicast st \<and> sb_bool m st ''Resv''), ev_Conn = sb_owner st\<rparr>"

type_synonym svcbs = "string \<rightharpoonup> svcbState"

definition svcb_reg_key :: "string \<Rightarrow> string \<Rightarrow> bool \<Rightarrow> string \<Rightarrow> string" where
  "svcb_reg_key ld lnd unicast name = reg_key ld (lnd @ CHR ''$'' # (if unicast then ''US'' else ''MS'') @ CHR ''$'' # name)"

definition add_svcb :: "string \<Rightarrow> LogicalNode \<Rightarrow> SVControl \<Rightarrow> svcbs \<Rightarrow> svcbs" where
  "add_svcb ld lnd sc reg =
     (case find (\<lambda>do. do_Name do = sv_Name sc \<and> (do_CDC do = ''MSVCB'' \<or> do_CDC do = ''USVCB'')) (ln_Objects lnd) of
        None \<Rightarrow> reg
      | Some do \<Rightarrow>
          let unicast = (do_CDC do = ''USVCB'')
          in reg(svcb_reg_key ld (ln_Name lnd) unicast (sv_Name sc)
               \<mapsto> \<lparr>sb_ld = ld, sb_ln = ln_Name lnd, sb_sc = sc, sb_unicast = unicast, sb_owner = None\<rparr>))"

definition buildSVCBStates :: "IEDModel \<Rightarrow> svcbs" where
  "buildSVCBStates m = fold (\<lambda>ld. fold (\<lambda>lnd. fold (add_svcb (ld_Name ld) lnd) (ln_SVControls lnd)) (ld_Nodes ld)) (m_Devices m) Map.empty"

text \<open>The key of the block an item names, and the attribute.\<close>

definition svcbKey :: "svcbs \<Rightarrow> string \<Rightarrow> string \<Rightarrow> (string \<times> string) option" where
  "svcbKey reg domain item =
     (case split_on (CHR ''$'') item of
        p0 # p1 # p2 # rest \<Rightarrow>
          if p1 \<noteq> ''MS'' \<and> p1 \<noteq> ''US'' then None
          else
            let key = reg_key domain (p0 @ CHR ''$'' # p1 @ CHR ''$'' # p2)
            in if reg key = None then None else Some (key, case rest of [] \<Rightarrow> [] | a # _ \<Rightarrow> a)
      | _ \<Rightarrow> None)"

text \<open>\<open>None\<close> allows the write.\<close>

definition svcb_checkWrite :: "IEDModel \<Rightarrow> string \<Rightarrow> Value \<Rightarrow> conn \<Rightarrow> svcbState \<Rightarrow> byte option" where
  "svcb_checkWrite m attr v c st =
     (if sb_owner st \<noteq> None \<and> sb_owner st \<noteq> c then Some AccessTemporarilyUnavailable
      else if attr = ''SvEna'' \<or> attr = ''Resv'' \<and> sb_unicast st then
        (if value_Type v \<noteq> TypeBoolean then Some AccessTypeInconsistent else None)
      else if sb_bool m st ''SvEna'' then Some AccessTemporarilyUnavailable
      else Some AccessObjectAccessDenied)"

definition svcb_onWrite :: "IEDModel \<Rightarrow> string \<Rightarrow> bool \<Rightarrow> conn \<Rightarrow> svcbState \<Rightarrow> SVControlEvent option \<times> svcbState" where
  "svcb_onWrite m attr old c st =
     (if attr = ''SvEna'' then
        (let now = sb_bool m st ''SvEna'' in (if now = old then None else Some (sb_event m st), st))
      else if attr = ''Resv'' then
        (let now = sb_bool m st ''Resv''; st = st\<lparr>sb_owner := (if now then c else None)\<rparr>
         in (if now = old then None else Some (sb_event m st), st))
      else (None, st))"


text \<open>The server's part: its model, the blocks, and the changes queued for the handler of \<^verbatim>\<open>OnSVControl\<close> in the order they were made.\<close>

record sv_server =
  ss_m :: IEDModel
  ss_reg :: svcbs
  ss_queue :: "SVControlEvent list"

definition queueSV :: "SVControlEvent option \<Rightarrow> sv_server \<Rightarrow> sv_server" where
  "queueSV ev s = s\<lparr>ss_queue := ss_queue s @ (case ev of None \<Rightarrow> [] | Some e \<Rightarrow> [e])\<rparr>"

definition flushSV :: "sv_server \<Rightarrow> SVControlEvent list \<times> sv_server" where
  "flushSV s = (ss_queue s, s\<lparr>ss_queue := []\<rparr>)"

text \<open>The branch of a write request for a block; \<open>refuse\<close> is what the rest of the write makes of the value (its type and the application's
  handler), \<open>None\<close> when it is stored.\<close>

definition svcb_old :: "IEDModel \<Rightarrow> string \<Rightarrow> svcbState \<Rightarrow> bool" where
  "svcb_old m attr st = (if attr = ''Resv'' then ev_Reserved (sb_event m st) else ev_Enabled (sb_event m st))"

definition svcb_write :: "(Value \<Rightarrow> byte option) \<Rightarrow> string \<Rightarrow> string \<Rightarrow> Value \<Rightarrow> conn \<Rightarrow> sv_server \<Rightarrow> byte option \<times> sv_server" where
  "svcb_write refuse key attr v c s =
     (case ss_reg s key of
        None \<Rightarrow> (Some AccessObjectNonExistent, s)
      | Some st \<Rightarrow>
          (case svcb_checkWrite (ss_m s) attr v c st of
             Some code \<Rightarrow> (Some code, s)
           | None \<Rightarrow>
               (case refuse v of
                  Some code \<Rightarrow> (Some code, s)
                | None \<Rightarrow>
                    let old = svcb_old (ss_m s) attr st;
                        m = leaf_put (ss_m s) (sb_cell st attr) v;
                        (ev, st) = svcb_onWrite m attr old c st
                    in (None, queueSV ev (s\<lparr>ss_m := m, ss_reg := (ss_reg s)(key \<mapsto> st)\<rparr>)))))"

definition release_svcb :: "nat \<Rightarrow> string \<Rightarrow> sv_server \<Rightarrow> sv_server" where
  "release_svcb c key s =
     (case ss_reg s key of
        None \<Rightarrow> s
      | Some st \<Rightarrow>
          if sb_owner st \<noteq> Some c then s
          else
            let st = st\<lparr>sb_owner := None\<rparr>;
                m = leaf_put (leaf_put (ss_m s) (sb_cell st ''Resv'') (NewBool False)) (sb_cell st ''SvEna'') (NewBool False)
            in queueSV (Some (sb_event m st)) (s\<lparr>ss_m := m, ss_reg := (ss_reg s)(key \<mapsto> st)\<rparr>))"

text \<open>\<open>order\<close> is the order in which Go walks the map.\<close>

definition releaseSVCBs :: "string list \<Rightarrow> nat \<Rightarrow> sv_server \<Rightarrow> sv_server" where
  "releaseSVCBs order c = fold (release_svcb c) order"


section \<open>Reservation\<close>

definition sb_names :: "string set" where "sb_names = {''SvEna'', ''Resv''}"

text \<open>The attributes of a block are in the model, apart from those of every other block, and \<open>Resv\<close> shows whether the block has an owner.\<close>

definition sv_block :: "IEDModel \<Rightarrow> svcbState \<Rightarrow> bool" where
  "sv_block m st =
     (leaf_get m (sb_cell st ''SvEna'') \<noteq> None
      \<and> (if sb_unicast st then \<exists>v. leaf_get m (sb_cell st ''Resv'') = Some v \<and> value_Bool v = (sb_owner st \<noteq> None) else sb_owner st = None))"

definition sv_apart :: "svcbs \<Rightarrow> bool" where
  "sv_apart reg = (\<forall>key st key' st' n n'. reg key = Some st \<longrightarrow> reg key' = Some st' \<longrightarrow> n \<in> sb_names \<longrightarrow> n' \<in> sb_names \<longrightarrow>
     sb_cell st n = sb_cell st' n' \<longrightarrow> key = key' \<and> n = n')"

definition sv_inv :: "sv_server \<Rightarrow> bool" where
  "sv_inv s = ((\<forall>key st. ss_reg s key = Some st \<longrightarrow> sv_block (ss_m s) st) \<and> sv_apart (ss_reg s))"

lemma sb_proper [simp]: "proper_fc (snd (sb_cell st n))"
  by (simp add: sb_cell_def sb_fc_def proper_fc_def fc_ALL_def FCNone_def fc_MS_def fc_US_def)

lemma sb_bool_get: "leaf_get m (sb_cell st n) = Some v \<Longrightarrow> sb_bool m st n = value_Bool v"
  by (auto simp: sb_bool_def cell_value_def leaf_get_Some)

lemma sb_cell_owner [simp]: "sb_cell (st\<lparr>sb_owner := c\<rparr>) n = sb_cell st n"
  by (simp add: sb_cell_def sb_fc_def)

lemma sv_invD:
  assumes "sv_inv s" "ss_reg s key = Some st"
  shows "\<exists>v. leaf_get (ss_m s) (sb_cell st ''SvEna'') = Some v"
    "sb_unicast st \<Longrightarrow> \<exists>v. leaf_get (ss_m s) (sb_cell st ''Resv'') = Some v \<and> value_Bool v = (sb_owner st \<noteq> None)"
    "\<not> sb_unicast st \<Longrightarrow> sb_owner st = None"
    "ss_reg s key' = Some st' \<Longrightarrow> n \<in> sb_names \<Longrightarrow> n' \<in> sb_names \<Longrightarrow> sb_cell st n = sb_cell st' n' \<Longrightarrow> key = key' \<and> n = n'"
proof -
  have b: "sv_block (ss_m s) st" and a: "sv_apart (ss_reg s)" using assms by (simp_all add: sv_inv_def)
  show "\<exists>v. leaf_get (ss_m s) (sb_cell st ''SvEna'') = Some v" using b by (simp add: sv_block_def)
  show "sb_unicast st \<Longrightarrow> \<exists>v. leaf_get (ss_m s) (sb_cell st ''Resv'') = Some v \<and> value_Bool v = (sb_owner st \<noteq> None)" using b by (simp add: sv_block_def)
  show "\<not> sb_unicast st \<Longrightarrow> sb_owner st = None" using b by (simp add: sv_block_def)
  show "ss_reg s key' = Some st' \<Longrightarrow> n \<in> sb_names \<Longrightarrow> n' \<in> sb_names \<Longrightarrow> sb_cell st n = sb_cell st' n' \<Longrightarrow> key = key' \<and> n = n'"
    using a assms(2) unfolding sv_apart_def by blast
qed

lemma sv_apart_owner:
  assumes "sv_apart reg" "reg key = Some st"
  shows "sv_apart (reg(key \<mapsto> st\<lparr>sb_owner := c\<rparr>))"
proof -
  have "\<exists>b. reg k = Some b \<and> (\<forall>n. sb_cell b n = sb_cell a n)" if "(reg(key \<mapsto> st\<lparr>sb_owner := c\<rparr>)) k = Some a" for k a
    using that assms(2) by (auto split: if_splits)
  then show ?thesis using assms(1) unfolding sv_apart_def by metis
qed

text \<open>Storing one attribute of a block with the owner it then has.\<close>

lemma sv_inv_put:
  assumes "sv_inv s" "ss_reg s key = Some st" "n \<in> sb_names" "n = ''Resv'' \<Longrightarrow> sb_unicast st \<and> value_Bool v = (c \<noteq> None)" "n = ''SvEna'' \<Longrightarrow> c = sb_owner st"
  shows "sv_inv (s\<lparr>ss_m := leaf_put (ss_m s) (sb_cell st n) v, ss_reg := (ss_reg s)(key \<mapsto> st\<lparr>sb_owner := c\<rparr>), ss_queue := q\<rparr>)"
proof -
  obtain w where w: "leaf_get (ss_m s) (sb_cell st n) = Some w"
    using sv_invD(1,2) [OF assms(1,2)] assms(3,4) by (auto simp: sb_names_def)
  have get: "leaf_get (leaf_put (ss_m s) (sb_cell st n) v) (sb_cell st' n') = Some (if key' = key \<and> n' = n then v else w')"
    if "ss_reg s key' = Some st'" "n' \<in> sb_names" "leaf_get (ss_m s) (sb_cell st' n') = Some w'" for key' st' n' w'
  proof (cases "key' = key \<and> n' = n")
    case True
    then show ?thesis using leaves.get_put [OF w w] that(1) assms(2) by auto
  next
    case False
    then have "sb_cell st' n' \<noteq> sb_cell st n" using sv_invD(4) [OF assms(1,2) that(1) assms(3) that(2)] by auto
    then show ?thesis using False leaves.get_put [OF w that(3)] by auto
  qed
  have n: "n = ''SvEna'' \<or> n = ''Resv''" using assms(3) by (simp add: sb_names_def)
  have block: "sv_block (leaf_put (ss_m s) (sb_cell st n) v) (st0\<lparr>sb_owner := (if key' = key then c else sb_owner st0)\<rparr>)" if r: "ss_reg s key' = Some st0" for key' st0
  proof -
    obtain e where e: "leaf_get (ss_m s) (sb_cell st0 ''SvEna'') = Some e" using sv_invD(1) [OF assms(1) r] by blast
    have ena: "leaf_get (leaf_put (ss_m s) (sb_cell st n) v) (sb_cell st0 ''SvEna'') \<noteq> None" using get [OF r _ e] by (simp add: sb_names_def)
    show ?thesis
    proof (cases "sb_unicast st0")
      case True
      then obtain x where x: "leaf_get (ss_m s) (sb_cell st0 ''Resv'') = Some x" "value_Bool x = (sb_owner st0 \<noteq> None)" using sv_invD(2) [OF assms(1) r] by blast
      have "value_Bool (if key' = key \<and> ''Resv'' = n then v else x) = ((if key' = key then c else sb_owner st0) \<noteq> None)"
        using n x(2) assms(2,4,5) r by auto
      then show ?thesis using True ena get [OF r _ x(1)] by (simp add: sv_block_def sb_names_def)
    next
      case False
      have "n = ''SvEna''" if "key' = key" using that False assms(2,4) n r by auto
      then show ?thesis using False ena sv_invD(3) [OF assms(1) r] assms(2,5) r by (auto simp: sv_block_def)
    qed
  qed
  have "sv_block (leaf_put (ss_m s) (sb_cell st n) v) st'" if "((ss_reg s)(key \<mapsto> st\<lparr>sb_owner := c\<rparr>)) key' = Some st'" for key' st'
    using that block [of key' "if key' = key then st else st'"] assms(2) by (cases "key' = key") auto
  moreover have "sv_apart ((ss_reg s)(key \<mapsto> st\<lparr>sb_owner := c\<rparr>))" using sv_apart_owner [of "ss_reg s" key st c] assms(1,2) by (simp add: sv_inv_def)
  ultimately show ?thesis by (simp add: sv_inv_def)
qed


lemma svcb_checked:
  assumes "svcb_checkWrite m attr v c st = None"
  shows "attr \<in> sb_names" "attr = ''Resv'' \<Longrightarrow> sb_unicast st" "sb_owner st = None \<or> sb_owner st = c" "value_Type v = TypeBoolean"
  using assms by (auto simp: svcb_checkWrite_def sb_names_def split: if_splits)

lemma queueSV_simps [simp]: "ss_m (queueSV ev s) = ss_m s" "ss_reg (queueSV ev s) = ss_reg s"
  by (simp_all add: queueSV_def)

lemma sv_inv_queue [simp]: "sv_inv (queueSV ev s) = sv_inv s"
  by (simp add: sv_inv_def)

text \<open>What an admitted write does to its block: an association that writes \<open>Resv\<close> true holds it, false frees it.\<close>

definition sv_owner_after :: "string \<Rightarrow> Value \<Rightarrow> nat \<Rightarrow> svcbState \<Rightarrow> conn" where
  "sv_owner_after attr v c st = (if attr = ''Resv'' then (if value_Bool v then Some c else None) else sb_owner st)"

lemma svcb_write_admitted:
  assumes "sv_inv s" "ss_reg s key = Some st" "svcb_checkWrite (ss_m s) attr v (Some c) st = None" "refuse v = None"
  shows "\<exists>q. svcb_write refuse key attr v (Some c) s =
    (None, s\<lparr>ss_m := leaf_put (ss_m s) (sb_cell st attr) v, ss_reg := (ss_reg s)(key \<mapsto> st\<lparr>sb_owner := sv_owner_after attr v c st\<rparr>), ss_queue := q\<rparr>)"
proof -
  note ch = svcb_checked [OF assms(3)]
  obtain w where w: "leaf_get (ss_m s) (sb_cell st attr) = Some w" using sv_invD(1,2) [OF assms(1,2)] ch(1,2) by (auto simp: sb_names_def)
  have b: "sb_bool (leaf_put (ss_m s) (sb_cell st attr) v) st attr = value_Bool v"
    using sb_bool_get leaves.get_put_same [OF w] by simp
  obtain ev where "svcb_onWrite (leaf_put (ss_m s) (sb_cell st attr) v) attr (svcb_old (ss_m s) attr st) (Some c) st = (ev, st\<lparr>sb_owner := sv_owner_after attr v c st\<rparr>)"
  proof (cases "attr = ''Resv''")
    case True
    then show ?thesis using that b by (simp add: svcb_onWrite_def sv_owner_after_def Let_def)
  next
    case False
    then show ?thesis using that b ch(1) by (simp add: svcb_onWrite_def sv_owner_after_def Let_def sb_names_def)
  qed
  then have "svcb_write refuse key attr v (Some c) s = (None, s\<lparr>ss_m := leaf_put (ss_m s) (sb_cell st attr) v,
      ss_reg := (ss_reg s)(key \<mapsto> st\<lparr>sb_owner := sv_owner_after attr v c st\<rparr>), ss_queue := ss_queue s @ (case ev of None \<Rightarrow> [] | Some e \<Rightarrow> [e])\<rparr>)"
    using assms(2-4) by (simp add: svcb_write_def Let_def queueSV_def)
  then show ?thesis by blast
qed

lemma svcb_write_inv:
  assumes "sv_inv s"
  shows "sv_inv (snd (svcb_write refuse key attr v (Some c) s))"
proof (cases "\<exists>st. ss_reg s key = Some st \<and> svcb_checkWrite (ss_m s) attr v (Some c) st = None \<and> refuse v = None")
  case True
  then obtain st where st: "ss_reg s key = Some st" "svcb_checkWrite (ss_m s) attr v (Some c) st = None" "refuse v = None" by blast
  note ch = svcb_checked [OF st(2)]
  obtain q where "snd (svcb_write refuse key attr v (Some c) s) =
      s\<lparr>ss_m := leaf_put (ss_m s) (sb_cell st attr) v, ss_reg := (ss_reg s)(key \<mapsto> st\<lparr>sb_owner := sv_owner_after attr v c st\<rparr>), ss_queue := q\<rparr>"
    using svcb_write_admitted [of s key st attr v c refuse] assms st by (metis snd_conv)
  then show ?thesis using sv_inv_put [OF assms st(1) ch(1), of v "sv_owner_after attr v c st" q] ch(2) by (auto simp: sv_owner_after_def)
next
  case False
  then show ?thesis using assms by (auto simp: svcb_write_def split: option.split)
qed

lemma sb_unicast_owner: "sv_inv s \<Longrightarrow> ss_reg s key = Some st \<Longrightarrow> sb_owner st = Some c \<Longrightarrow> sb_unicast st"
  using sv_invD(3) by fastforce

lemma release_svcb_owned:
  assumes "sv_inv s" "ss_reg s key = Some st" "sb_owner st = Some c"
  shows "\<exists>st'. ss_reg (release_svcb c key s) = (ss_reg s)(key \<mapsto> st') \<and> st' = st\<lparr>sb_owner := None\<rparr> \<and> sv_inv (release_svcb c key s)
    \<and> \<not> sb_bool (ss_m (release_svcb c key s)) st' ''SvEna'' \<and> \<not> sb_bool (ss_m (release_svcb c key s)) st' ''Resv''
    \<and> ss_queue (release_svcb c key s) = ss_queue s @ [sb_event (ss_m (release_svcb c key s)) st']"
proof -
  define st' where "st' = st\<lparr>sb_owner := None\<rparr>"
  have n: "''Resv'' \<in> sb_names" "''SvEna'' \<in> sb_names" by (simp_all add: sb_names_def)
  have u: "sb_unicast st" using sb_unicast_owner assms by blast
  define s1 where "s1 = s\<lparr>ss_m := leaf_put (ss_m s) (sb_cell st ''Resv'') (NewBool False), ss_reg := (ss_reg s)(key \<mapsto> st'), ss_queue := ss_queue s\<rparr>"
  have i1: "sv_inv s1" "ss_reg s1 key = Some st'" using sv_inv_put [OF assms(1,2) n(1), of "NewBool False" None "ss_queue s"] u by (simp_all add: s1_def st'_def NewBool_def)
  define s2 where "s2 = s1\<lparr>ss_m := leaf_put (ss_m s1) (sb_cell st' ''SvEna'') (NewBool False), ss_reg := (ss_reg s1)(key \<mapsto> st'), ss_queue := ss_queue s1\<rparr>"
  have st'2: "st'\<lparr>sb_owner := None\<rparr> = st'" by (simp add: st'_def)
  have i2: "sv_inv s2" "ss_reg s2 key = Some st'" using sv_inv_put [OF i1 n(2), of "NewBool False" None "ss_queue s1"] unfolding st'2 by (simp_all add: s2_def st'_def)
  have r: "release_svcb c key s = queueSV (Some (sb_event (ss_m s2) st')) s2" using assms(2,3) by (simp add: release_svcb_def s2_def s1_def st'_def Let_def)
  obtain x where x: "leaf_get (ss_m s1) (sb_cell st' ''SvEna'') = Some x" using sv_invD(1) [OF i1] by blast
  have e: "sb_bool (ss_m s2) st' ''SvEna'' = value_Bool (NewBool False)" using sb_bool_get leaves.get_put_same [OF x] by (simp add: s2_def)
  obtain y where y: "leaf_get (ss_m s2) (sb_cell st' ''Resv'') = Some y" "\<not> value_Bool y" using sv_invD(2) [OF i2] u by (auto simp: st'_def)
  show ?thesis using r e y i2(1) sb_bool_get [OF y(1)] st'_def by (auto simp: s2_def s1_def queueSV_def NewBool_def sv_inv_def)
qed

lemma release_svcb_inv: "sv_inv s \<Longrightarrow> sv_inv (release_svcb c key s)"
proof (cases "\<exists>st. ss_reg s key = Some st \<and> sb_owner st = Some c")
  case True
  assume "sv_inv s"
  then show ?thesis using True release_svcb_owned by blast
next
  case False
  assume "sv_inv s"
  then show ?thesis using False by (auto simp: release_svcb_def split: option.split)
qed

datatype sv_op = SvWrite "Value \<Rightarrow> byte option" string string Value nat | SvEnd "string list" nat | SvFlush

fun sv_step :: "sv_op \<Rightarrow> sv_server \<Rightarrow> sv_server" where
  "sv_step (SvWrite refuse key attr v c) s = snd (svcb_write refuse key attr v (Some c) s)"
| "sv_step (SvEnd order c) s = releaseSVCBs order c s"
| "sv_step SvFlush s = snd (flushSV s)"

lemma releaseSVCBs_inv: "sv_inv s \<Longrightarrow> sv_inv (releaseSVCBs order c s)"
  unfolding releaseSVCBs_def by (induction order arbitrary: s) (simp_all add: release_svcb_inv)

lemma flushSV_inv: "sv_inv s \<Longrightarrow> sv_inv (snd (flushSV s))"
  by (simp add: flushSV_def sv_inv_def)

lemma sv_step_inv: "sv_inv s \<Longrightarrow> sv_inv (sv_step op s)"
  by (cases op) (simp_all add: svcb_write_inv releaseSVCBs_inv flushSV_inv)

lemma sv_steps_inv: "sv_inv s \<Longrightarrow> sv_inv (fold sv_step ops s)"
  by (induction ops arbitrary: s) (simp_all add: sv_step_inv)


text \<open>A block as others leave it: the same owner and the same attributes.\<close>

definition sv_kept :: "string \<Rightarrow> sv_server \<Rightarrow> sv_server \<Rightarrow> bool" where
  "sv_kept key s s' = (\<forall>st. ss_reg s key = Some st \<longrightarrow> ss_reg s' key = Some st \<and> (\<forall>n \<in> sb_names. leaf_get (ss_m s) (sb_cell st n) \<noteq> None \<longrightarrow>
     leaf_get (ss_m s') (sb_cell st n) = leaf_get (ss_m s) (sb_cell st n)))"

lemma sv_kept_refl [simp]: "sv_kept key s s"
  by (simp add: sv_kept_def)

lemma sv_kept_trans: "sv_kept key s s' \<Longrightarrow> sv_kept key s' s'' \<Longrightarrow> sv_kept key s s''"
  by (simp add: sv_kept_def)

lemma sv_kept_put:
  assumes "sv_inv s" "ss_reg s key' = Some st'" "n' \<in> sb_names" "leaf_get (ss_m s) (sb_cell st' n') = Some w" "key' \<noteq> key" "ss_reg s2 = (ss_reg s)(key' \<mapsto> x)"
    "ss_m s2 = leaf_put (ss_m s) (sb_cell st' n') v"
  shows "sv_kept key s s2"
proof -
  have "leaf_get (ss_m s2) (sb_cell st n) = Some y" if "ss_reg s key = Some st" "n \<in> sb_names" "leaf_get (ss_m s) (sb_cell st n) = Some y" for st n y
    using leaves.get_put_other [OF assms(4) that(3), of v] sv_invD(4) [OF assms(1,2) that(1) assms(3) that(2)] assms(5,7) by auto
  then show ?thesis using assms(5,6) by (auto simp: sv_kept_def)
qed

lemma svcb_write_kept:
  assumes "sv_inv s" "key' \<noteq> key"
  shows "sv_kept key s (snd (svcb_write refuse key' attr v (Some c) s))"
proof (cases "\<exists>st. ss_reg s key' = Some st \<and> svcb_checkWrite (ss_m s) attr v (Some c) st = None \<and> refuse v = None")
  case True
  then obtain st where st: "ss_reg s key' = Some st" "svcb_checkWrite (ss_m s) attr v (Some c) st = None" "refuse v = None" by blast
  note ch = svcb_checked [OF st(2)]
  obtain w where w: "leaf_get (ss_m s) (sb_cell st attr) = Some w" using sv_invD(1,2) [OF assms(1) st(1)] ch(1,2) by (auto simp: sb_names_def)
  obtain q where q: "snd (svcb_write refuse key' attr v (Some c) s) =
      s\<lparr>ss_m := leaf_put (ss_m s) (sb_cell st attr) v, ss_reg := (ss_reg s)(key' \<mapsto> st\<lparr>sb_owner := sv_owner_after attr v c st\<rparr>), ss_queue := q\<rparr>"
    using svcb_write_admitted [of s key' st attr v c refuse] assms(1) st by (metis snd_conv)
  show ?thesis unfolding q by (rule sv_kept_put [OF assms(1) st(1) ch(1) w assms(2)]) simp_all
next
  case False
  then show ?thesis by (auto simp: svcb_write_def split: option.split)
qed

lemma release_svcb_kept:
  assumes "sv_inv s" "key' \<noteq> key"
  shows "sv_kept key s (release_svcb c key' s)"
proof (cases "\<exists>st. ss_reg s key' = Some st \<and> sb_owner st = Some c")
  case True
  then obtain st where st: "ss_reg s key' = Some st" "sb_owner st = Some c" by blast
  have n: "''Resv'' \<in> sb_names" "''SvEna'' \<in> sb_names" by (simp_all add: sb_names_def)
  have u: "sb_unicast st" using sb_unicast_owner [OF assms(1) st] .
  define s1 where "s1 = s\<lparr>ss_m := leaf_put (ss_m s) (sb_cell st ''Resv'') (NewBool False), ss_reg := (ss_reg s)(key' \<mapsto> st\<lparr>sb_owner := None\<rparr>), ss_queue := ss_queue s\<rparr>"
  have i1: "sv_inv s1" using sv_inv_put [OF assms(1) st(1) n(1), of "NewBool False" None "ss_queue s"] u by (simp add: s1_def NewBool_def)
  have r1: "ss_reg s1 key' = Some (st\<lparr>sb_owner := None\<rparr>)" by (simp add: s1_def)
  obtain w where w: "leaf_get (ss_m s) (sb_cell st ''Resv'') = Some w" using sv_invD(2) [OF assms(1) st(1) u] by blast
  obtain w1 where w1: "leaf_get (ss_m s1) (sb_cell (st\<lparr>sb_owner := None\<rparr>) ''SvEna'') = Some w1" using sv_invD(1) [OF i1 r1] by blast
  have "sv_kept key s s1" by (rule sv_kept_put [OF assms(1) st(1) n(1) w assms(2)]) (simp_all add: s1_def)
  moreover have "sv_kept key s1 (release_svcb c key' s)"
    by (rule sv_kept_put [OF i1 r1 n(2) w1 assms(2)]) (simp_all add: release_svcb_def st s1_def Let_def)
  ultimately show ?thesis by (rule sv_kept_trans)
next
  case False
  then show ?thesis by (auto simp: release_svcb_def split: option.split)
qed

text \<open>The state a block is left in when the association that held it has ended.\<close>

definition sv_free :: "string \<Rightarrow> sv_server \<Rightarrow> bool" where
  "sv_free key s = (\<exists>st. ss_reg s key = Some st \<and> sb_owner st = None \<and> \<not> sb_bool (ss_m s) st ''SvEna'' \<and> \<not> sb_bool (ss_m s) st ''Resv'')"

lemma sv_free_kept: "sv_inv s \<Longrightarrow> sv_free key s \<Longrightarrow> (\<forall>st. ss_reg s key = Some st \<longrightarrow> sb_unicast st) \<Longrightarrow> sv_kept key s s' \<Longrightarrow> sv_free key s'"
proof -
  assume a: "sv_inv s" "sv_free key s" "\<forall>st. ss_reg s key = Some st \<longrightarrow> sb_unicast st" "sv_kept key s s'"
  then obtain st where st: "ss_reg s key = Some st" "sb_owner st = None" "\<not> sb_bool (ss_m s) st ''SvEna''" "\<not> sb_bool (ss_m s) st ''Resv''" by (auto simp: sv_free_def)
  obtain e r where er: "leaf_get (ss_m s) (sb_cell st ''SvEna'') = Some e" "leaf_get (ss_m s) (sb_cell st ''Resv'') = Some r"
    using sv_invD(1,2) [OF a(1) st(1)] a(3) st(1) by blast
  then have "leaf_get (ss_m s') (sb_cell st ''SvEna'') = Some e" "leaf_get (ss_m s') (sb_cell st ''Resv'') = Some r" "ss_reg s' key = Some st"
    using a(4) st(1) by (simp_all add: sv_kept_def sb_names_def)
  then show ?thesis using st er sb_bool_get by (metis sv_free_def)
qed

lemma releaseSVCBs_frees:
  assumes "sv_inv s" "ss_reg s key = Some st" "sb_owner st = Some c" "key \<in> set order"
  shows "sv_free key (releaseSVCBs order c s)"
  using assms
proof (induction order arbitrary: s)
  case (Cons k order)
  note i = release_svcb_inv [OF Cons.prems(1), of c k]
  show ?case
  proof (cases "k = key")
    case False
    then have "ss_reg (release_svcb c k s) key = Some st" using release_svcb_kept [OF Cons.prems(1) False, of c] Cons.prems(2) by (simp add: sv_kept_def)
    then show ?thesis using Cons.IH [OF i] Cons.prems False by (simp add: releaseSVCBs_def)
  next
    case True
    have kept: "sv_free key (fold (release_svcb c) ks t)" if "sv_inv t" "sv_free key t" "\<forall>st. ss_reg t key = Some st \<longrightarrow> sb_unicast st" for ks t
      using that
    proof (induction ks arbitrary: t)
      case (Cons k' ks)
      have "sv_kept key t (release_svcb c k' t)"
      proof (cases "k' = key")
        case True
        then show ?thesis using Cons.prems(2) by (auto simp: release_svcb_def sv_free_def)
      qed (use release_svcb_kept Cons.prems(1) in blast)
      moreover from this have "\<forall>st. ss_reg (release_svcb c k' t) key = Some st \<longrightarrow> sb_unicast st" using Cons.prems(2,3) by (auto simp: sv_kept_def sv_free_def)
      ultimately show ?case using Cons.IH [OF release_svcb_inv [OF Cons.prems(1)]] sv_free_kept [OF Cons.prems] by simp
    qed simp
    obtain st' where "ss_reg (release_svcb c key s) = (ss_reg s)(key \<mapsto> st')" "st' = st\<lparr>sb_owner := None\<rparr>"
      "\<not> sb_bool (ss_m (release_svcb c key s)) st' ''SvEna''" "\<not> sb_bool (ss_m (release_svcb c key s)) st' ''Resv''"
      using release_svcb_owned [OF Cons.prems(1-3)] by blast
    then have "sv_free key (release_svcb c key s)" "\<forall>st. ss_reg (release_svcb c key s) key = Some st \<longrightarrow> sb_unicast st"
      using sb_unicast_owner [OF Cons.prems(1-3)] by (auto simp: sv_free_def)
    then show ?thesis using kept [of "release_svcb c key s" order] i True by (simp add: releaseSVCBs_def)
  qed
qed simp


section \<open>Properties\<close>

text \<open>A reserved unicast block belongs to one association. After any sequence of writes, ends of associations and deliveries, a block with an owner
  shows \<open>Resv\<close> true; every write of it by another association is refused as temporarily unavailable and changes nothing; what others write
  elsewhere leaves its owner and attributes alone; and when the owner's association ends, in whatever order the blocks are visited, it is free and
  disabled.\<close>

theorem sv_block_reserved:
  assumes "sv_inv s0" "s = fold sv_step ops s0" "ss_reg s key = Some st" "sb_owner st = Some c"
  shows "sb_bool (ss_m s) st ''Resv''
    \<and> (\<forall>refuse attr v c'. c' \<noteq> c \<longrightarrow> svcb_write refuse key attr v (Some c') s = (Some AccessTemporarilyUnavailable, s))
    \<and> (\<forall>refuse key' attr v c'. c' \<noteq> c \<longrightarrow> sv_kept key s (snd (svcb_write refuse key' attr v (Some c') s)))
    \<and> (\<forall>order. key \<in> set order \<longrightarrow> sv_free key (releaseSVCBs order c s))"
proof -
  have i: "sv_inv s" using sv_steps_inv [OF assms(1)] assms(2) by simp
  obtain v where "leaf_get (ss_m s) (sb_cell st ''Resv'') = Some v" "value_Bool v"
    using sv_invD(2) [OF i assms(3) sb_unicast_owner [OF i assms(3,4)]] assms(4) by auto
  then have 1: "sb_bool (ss_m s) st ''Resv''" using sb_bool_get by simp
  have 2: "svcb_write refuse key attr v (Some c') s = (Some AccessTemporarilyUnavailable, s)" if "c' \<noteq> c" for refuse attr v c'
    using assms(3,4) that by (simp add: svcb_write_def svcb_checkWrite_def)
  have "sv_kept key s (snd (svcb_write refuse key' attr v (Some c') s))" if "c' \<noteq> c" for refuse key' attr v c'
    using svcb_write_kept [OF i, of key' key] 2 [OF that] by (cases "key' = key") simp_all
  then show ?thesis using 1 2 releaseSVCBs_frees [OF i assms(3,4)] by blast
qed

definition ex_sv_control :: SVControl where
  "ex_sv_control = \<lparr>sv_Name = ''UV01'', sv_SvID = ''u'', sv_DataSet = [], sv_ConfRev = 1, sv_SmpRate = 80, sv_NoASDU = 1, sv_Multicast = False, sv_SmpMod = 0,
     sv_Opts = \<lparr>so_RefreshTime = False, so_SampleSynchronized = False, so_SampleRate = False, so_DataSet = False, so_Security = False, so_Timestamp = False, so_SynchSourceID = False\<rparr>,
     sv_SvType = [], sv_Protocol = [], sv_DstMAC = [], sv_DstIP = [], sv_AppID = 0, sv_VLANID = 0, sv_VLANPri = 0\<rparr>"

definition ex_sv_model :: IEDModel where
  "ex_sv_model = materialiseControlBlocks
     \<lparr>m_Name = [], m_Devices = [\<lparr>ld_Name = ''LD1'', ld_Inst = [], ld_Nodes = [(plain_node ''LLN0'' [])\<lparr>ln_SVControls := [ex_sv_control]\<rparr>]\<rparr>], m_SettingGroups = []\<rparr>"

definition ex_sv_server :: sv_server where
  "ex_sv_server = \<lparr>ss_m = ex_sv_model, ss_reg = buildSVCBStates ex_sv_model, ss_queue = []\<rparr>"


definition ex_sv_key :: string where "ex_sv_key = reg_key ''LD1'' ''LLN0$US$UV01''"

definition ex_sv_state :: svcbState where
  "ex_sv_state = \<lparr>sb_ld = ''LD1'', sb_ln = ''LLN0'', sb_sc = ex_sv_control, sb_unicast = True, sb_owner = None\<rparr>"

lemma ex_sv_reg: "ss_reg ex_sv_server = [ex_sv_key \<mapsto> ex_sv_state]"
  by (simp add: ex_sv_server_def ex_sv_state_def ex_sv_key_def buildSVCBStates_def ex_sv_model_def materialiseControlBlocks_def plain_node_def add_svcb_def
      cb_objects_def buildSVCBObject_def ex_sv_control_def sv_unicast_def svcb_reg_key_def Let_def)

lemma ex_sv_cells: "leaf_get (ss_m ex_sv_server) (sb_cell ex_sv_state ''Resv'') = Some (NewBool False)"
  "leaf_get (ss_m ex_sv_server) (sb_cell ex_sv_state ''SvEna'') = Some (NewBool False)" "sb_cell ex_sv_state ''Resv'' \<noteq> sb_cell ex_sv_state ''SvEna''"
  by code_simp+

lemma ex_sv_inv: "sv_inv ex_sv_server"
proof -
  have "sb_owner ex_sv_state = None" "\<not> value_Bool (NewBool False)" by (simp_all add: ex_sv_state_def NewBool_def)
  then have "sv_block (ss_m ex_sv_server) ex_sv_state" using ex_sv_cells by (simp add: sv_block_def)
  moreover have "sv_apart (ss_reg ex_sv_server)" using ex_sv_cells(3) by (auto simp: sv_apart_def ex_sv_reg sb_names_def split: if_splits)
  ultimately show ?thesis by (auto simp: sv_inv_def ex_sv_reg split: if_splits)
qed

theorem sv_block_reserved_witness:
  "\<exists>s. s = snd (svcb_write (\<lambda>_. None) ex_sv_key ''Resv'' (NewBool True) (Some 1) ex_sv_server)
    \<and> svcb_write (\<lambda>_. None) ex_sv_key ''SvEna'' (NewBool True) (Some 2) s = (Some AccessTemporarilyUnavailable, s)
    \<and> sv_free ex_sv_key (releaseSVCBs [ex_sv_key] 1 s)"
proof -
  define op where "op = SvWrite (\<lambda>_. None) ex_sv_key ''Resv'' (NewBool True) 1"
  have r: "ss_reg ex_sv_server ex_sv_key = Some ex_sv_state" by (simp add: ex_sv_reg)
  have c: "svcb_checkWrite (ss_m ex_sv_server) ''Resv'' (NewBool True) (Some 1) ex_sv_state = None"
    by (simp add: svcb_checkWrite_def ex_sv_state_def NewBool_def)
  have o: "sv_owner_after ''Resv'' (NewBool True) 1 ex_sv_state = Some 1" by (simp add: sv_owner_after_def NewBool_def)
  have "ss_reg (fold sv_step [op] ex_sv_server) ex_sv_key = Some (ex_sv_state\<lparr>sb_owner := Some 1\<rparr>)"
    using svcb_write_admitted [OF ex_sv_inv r c, of "\<lambda>_. None"] o by (auto simp: op_def)
  then show ?thesis using sv_block_reserved [OF ex_sv_inv refl, of "[op]" ex_sv_key "ex_sv_state\<lparr>sb_owner := Some 1\<rparr>" 1] by (simp add: op_def)
qed

end
