(* ===== verification/SrvLog.thy ===== *)
theory SrvLog
  imports SrvCb
begin

text \<open>
  The logs of a server (\<^verbatim>\<open>server/journal.go\<close>): journals of bounded length and the log control blocks that write into them the members of
  their data sets that change, or all of them every integrity period. A log is named by the key of the map that holds it. The model, the counter of
  entry identifiers and the clock are those of the report engine (\<open>rpt\<close>).
\<close>

section \<open>State\<close>

record logVar =
  lv_tag :: string
  lv_value :: Value

record logEntry =
  le_id :: "byte list"
  le_time :: Time
  le_vars :: "logVar list"

record journal =
  j_domain :: string
  j_name :: string
  j_entries :: "logEntry list"

text \<open>\<open>lb_ref\<close> is the block's object in the model, \<open>lb_j\<close> the key of its log, \<open>lb_intgStop\<close> the number of the integrity loop that runs.\<close>

record lcbState =
  lb_domain :: string
  lb_item :: string
  lb_ref :: ObjectReference
  lb_lc :: LogControl
  lb_j :: "string option"
  lb_intgStop :: "nat option"

record logManager =
  lm_capacity :: nat
  lm_journals :: "string \<rightharpoonup> journal"
  lm_lcbs :: "string \<rightharpoonup> lcbState"

definition defaultLogCapacity :: nat where "defaultLogCapacity = 1024"

definition reasonCodeTag :: string where "reasonCodeTag = ''ReasonCode''"

section \<open>Attributes of a block\<close>

definition lcb_cell :: "lcbState \<Rightarrow> string \<Rightarrow> cell" where
  "lcb_cell st name = (ref_Child (lb_ref st) name, fc_LG)"

definition lcb_attr :: "IEDModel \<Rightarrow> lcbState \<Rightarrow> string \<Rightarrow> Value" where
  "lcb_attr m st name = cell_value m (lcb_cell st name)"

definition lcb_setAttr :: "lcbState \<Rightarrow> string \<Rightarrow> Value \<Rightarrow> IEDModel \<Rightarrow> IEDModel" where
  "lcb_setAttr st name v m = leaf_put m (lcb_cell st name) v"

definition lcb_enabled :: "IEDModel \<Rightarrow> lcbState \<Rightarrow> bool" where
  "lcb_enabled m st = (lcb_attr m st ''LogEna'' \<noteq> NilValue \<and> value_Bool (lcb_attr m st ''LogEna''))"

definition lcb_trgOps :: "IEDModel \<Rightarrow> lcbState \<Rightarrow> TrgOps" where
  "lcb_trgOps m st = (if lcb_attr m st ''TrgOps'' = NilValue then 0 else flags_of (TrgOpsFromValue (lcb_attr m st ''TrgOps'')))"

definition lcb_datSet :: "rpt_env \<Rightarrow> IEDModel \<Rightarrow> lcbState \<Rightarrow> string" where
  "lcb_datSet env m st = string_of (env_Text env (lcb_attr m st ''DatSet''))"

definition lcb_members :: "rpt_env \<Rightarrow> IEDModel \<Rightarrow> lcbState \<Rightarrow> (string \<times> string) list" where
  "lcb_members env m st = (case resolveDataSet m (lcb_datSet env m st) of None \<Rightarrow> [] | Some ms \<Rightarrow> ms)"

section \<open>Construction\<close>

definition lm_journal :: "string \<Rightarrow> string \<Rightarrow> logManager \<Rightarrow> string \<times> logManager" where
  "lm_journal domain name lm =
     (let key = reg_key domain name
      in (key, if lm_journals lm key = None then lm\<lparr>lm_journals := (lm_journals lm)(key \<mapsto> \<lparr>j_domain = domain, j_name = name, j_entries = []\<rparr>)\<rparr> else lm))"

definition stopLocked :: "lcbState \<Rightarrow> lcbState" where
  "stopLocked st = st\<lparr>lb_intgStop := None\<rparr>"

text \<open>\<^verbatim>\<open>time.Duration(v.Uint64()) * time.Millisecond\<close>.\<close>

definition lcb_intgPd :: "IEDModel \<Rightarrow> lcbState \<Rightarrow> int" where
  "lcb_intgPd m st = (if lcb_attr m st ''IntgPd'' = NilValue then 0 else sint (word_of_nat (value_Uint64 (lcb_attr m st ''IntgPd'')) * 1000000 :: 64 word))"

definition startLocked :: "lcbState \<Rightarrow> rpt \<Rightarrow> lcbState \<times> rpt" where
  "startLocked st w =
     (let st = stopLocked st
      in if lcb_intgPd (rp_m w) st \<le> 0 \<or> lcb_trgOps (rp_m w) st AND TrgIntegrity = 0 \<or> lb_j st = None then (st, w)
         else let (k, w) = next_call w in (st\<lparr>lb_intgStop := Some k\<rparr>, w))"

definition lcbObject :: "LogicalNode \<Rightarrow> string \<Rightarrow> DataObject option" where
  "lcbObject lnd name =
     find (\<lambda>do. do_Name do = name \<and> (case do_Attributes do of [] \<Rightarrow> False | a # _ \<Rightarrow> da_FC a = fc_LG)) (ln_Objects lnd)"

definition add_lcb :: "IEDModel \<Rightarrow> LogicalDevice \<Rightarrow> LogicalNode \<Rightarrow> LogControl \<Rightarrow> logManager \<times> rpt \<Rightarrow> logManager \<times> rpt" where
  "add_lcb m ld lnd lc = (\<lambda>(lm, w).
     let st = \<lparr>lb_domain = ld_Name ld, lb_item = ln_Name lnd @ ''$LG$'' @ lc_Name lc,
               lb_ref = ref_Child (ld_Name ld @ CHR ''/'' # ln_Name lnd) (lc_Name lc), lb_lc = lc, lb_j = None, lb_intgStop = None\<rparr>
     in if lcbObject lnd (lc_Name lc) = None then (lm, w)
        else
          let (st, lm) = (case logTarget m ld lc of
                            None \<Rightarrow> (st, lm)
                          | Some (domain, name) \<Rightarrow> (case lm_journal domain name lm of (key, lm) \<Rightarrow> (st\<lparr>lb_j := Some key\<rparr>, lm)));
              (st, w) = (if lcb_enabled (rp_m w) st then startLocked st w else (st, w))
          in (lm\<lparr>lm_lcbs := (lm_lcbs lm)(reg_key (ld_Name ld) (lb_item st) \<mapsto> st)\<rparr>, w))"

definition newLogManager :: "int \<Rightarrow> rpt \<Rightarrow> logManager \<times> rpt" where
  "newLogManager capacity w =
     (let m = rp_m w;
          lm = \<lparr>lm_capacity = (if capacity \<le> 0 then defaultLogCapacity else nat capacity), lm_journals = Map.empty, lm_lcbs = Map.empty\<rparr>;
          lm = fold (\<lambda>ld. fold (\<lambda>lnd. fold (\<lambda>name lm. snd (lm_journal (ld_Name ld) (ln_Name lnd @ CHR ''$'' # name) lm)) (ln_Logs lnd)) (ld_Nodes ld)) (m_Devices m) lm
      in fold (\<lambda>ld. fold (\<lambda>lnd. fold (add_lcb m ld lnd) (ln_LogControls lnd)) (ld_Nodes ld)) (m_Devices m) (lm, w))"

text \<open>The names of a domain's logs, for GetNameList: \<^verbatim>\<open>sort.Strings\<close> over the map walked in \<open>order\<close>.\<close>

fun string_le :: "string \<Rightarrow> string \<Rightarrow> bool" where
  "string_le [] t = True"
| "string_le (c # s) [] = False"
| "string_le (c # s) (d # t) = (if c = d then string_le s t else (of_char c :: nat) < of_char d)"

fun insert_string :: "string \<Rightarrow> string list \<Rightarrow> string list" where
  "insert_string s [] = [s]"
| "insert_string s (t # ts) = (if string_le s t then s # t # ts else t # insert_string s ts)"

definition log_names :: "string list \<Rightarrow> string \<Rightarrow> logManager \<Rightarrow> string list" where
  "log_names order domain lm =
     foldr insert_string (List.map_filter (\<lambda>key. case lm_journals lm key of Some j \<Rightarrow> if j_domain j = domain then Some (j_name j) else None | None \<Rightarrow> None) order) []"

section \<open>Writing\<close>

definition truncate_ms :: "Time \<Rightarrow> Time" where
  "truncate_ms t = t\<lparr>t_Nanosecond := t_Nanosecond t div 10 ^ 6 * 10 ^ 6\<rparr>"

definition sync_block :: "logEntry \<Rightarrow> logEntry \<Rightarrow> lcbState \<Rightarrow> IEDModel \<Rightarrow> IEDModel" where
  "sync_block oldest newest st m =
     (let m = lcb_setAttr st ''OldEntrTm'' (NewBinaryTime (le_time oldest)) m;
          m = lcb_setAttr st ''NewEntrTm'' (NewBinaryTime (le_time newest)) m;
          m = lcb_setAttr st ''OldEnt'' (NewOctetString (le_id oldest)) m
      in lcb_setAttr st ''NewEnt'' (NewOctetString (le_id newest)) m)"

definition syncLocked :: "string list \<Rightarrow> string \<Rightarrow> journal \<Rightarrow> (string \<rightharpoonup> lcbState) \<Rightarrow> IEDModel \<Rightarrow> IEDModel" where
  "syncLocked order key j lcbs m =
     (if j_entries j = [] then m
      else fold (\<lambda>k m. case lcbs k of Some st \<Rightarrow> if lb_j st = Some key then sync_block (hd (j_entries j)) (last (j_entries j)) st m else m | None \<Rightarrow> m) order m)"

definition keep_newest :: "nat \<Rightarrow> 'a list \<Rightarrow> 'a list" where
  "keep_newest n xs = drop (length xs - n) xs"

definition appendLocked :: "rpt_env \<Rightarrow> string list \<Rightarrow> string option \<Rightarrow> logVar list \<Rightarrow> logManager \<times> rpt \<Rightarrow> logManager \<times> rpt" where
  "appendLocked env order jkey vars = (\<lambda>(lm, w).
     if vars = [] then (lm, w)
     else case jkey of
       None \<Rightarrow> (lm, w)
     | Some key \<Rightarrow>
         (case lm_journals lm key of
            None \<Rightarrow> (lm, w)
          | Some j \<Rightarrow>
              let (i, w) = nextEntryID env w; (k, w) = next_call w;
                  e = \<lparr>le_id = i, le_time = truncate_ms (re_clock env k), le_vars = vars\<rparr>;
                  j = j\<lparr>j_entries := keep_newest (lm_capacity lm) (j_entries j @ [e])\<rparr>
              in (lm\<lparr>lm_journals := (lm_journals lm)(key \<mapsto> j)\<rparr>, w\<lparr>rp_m := syncLocked order key j (lm_lcbs lm) (rp_m w)\<rparr>)))"

definition member_vars :: "IEDModel \<Rightarrow> lcbState \<Rightarrow> string \<times> string \<Rightarrow> ReasonCode \<Rightarrow> logVar list" where
  "member_vars m st mb r =
     (let v = itemValue m (fst mb) (snd mb)
      in if v = NilValue then []
         else \<lparr>lv_tag = fst mb @ CHR ''/'' # snd mb, lv_value = value_Clone v\<rparr>
           # (if lc_ReasonCode (lb_lc st) then [\<lparr>lv_tag = reasonCodeTag, lv_value = value_of (ReasonCode_Value r)\<rparr>] else []))"

definition logged_vars :: "rpt_env \<Rightarrow> IEDModel \<Rightarrow> (change \<times> TrgOps) list \<Rightarrow> lcbState \<Rightarrow> logVar list" where
  "logged_vars env m changes st =
     (let want = lcb_trgOps m st AND (TrgDataChange OR TrgQualityChange OR TrgDataUpdate)
      in concat (map (\<lambda>mb. let r = memberReason changes mb AND want in if r = 0 then [] else member_vars m st mb r) (lcb_members env m st)))"

definition log_block :: "rpt_env \<Rightarrow> string list \<Rightarrow> (change \<times> TrgOps) list \<Rightarrow> string \<Rightarrow> logManager \<times> rpt \<Rightarrow> logManager \<times> rpt" where
  "log_block env order changes key = (\<lambda>(lm, w).
     case lm_lcbs lm key of
       None \<Rightarrow> (lm, w)
     | Some st \<Rightarrow>
         if lb_j st = None \<or> \<not> lcb_enabled (rp_m w) st then (lm, w)
         else appendLocked env order (lb_j st) (logged_vars env (rp_m w) changes st) (lm, w))"

definition log_onUpdate :: "rpt_env \<Rightarrow> string list \<Rightarrow> (change \<times> TrgOps) list \<Rightarrow> logManager \<times> rpt \<Rightarrow> logManager \<times> rpt" where
  "log_onUpdate env order changes s = (if changes = [] then s else fold (log_block env order changes) order s)"

definition logAllLocked :: "rpt_env \<Rightarrow> string list \<Rightarrow> lcbState \<Rightarrow> ReasonCode \<Rightarrow> logManager \<times> rpt \<Rightarrow> logManager \<times> rpt" where
  "logAllLocked env order st r = (\<lambda>(lm, w).
     appendLocked env order (lb_j st) (concat (map (\<lambda>mb. member_vars (rp_m w) st mb r) (lcb_members env (rp_m w) st))) (lm, w))"

text \<open>A tick of the integrity loop with number \<open>t\<close>.\<close>

definition log_tick :: "rpt_env \<Rightarrow> string list \<Rightarrow> string \<Rightarrow> nat \<Rightarrow> logManager \<times> rpt \<Rightarrow> logManager \<times> rpt" where
  "log_tick env order key t s =
     (case lm_lcbs (fst s) key of
        None \<Rightarrow> s
      | Some st \<Rightarrow> if lb_intgStop st = Some t then logAllLocked env order st ReasonIntegrity s else s)"

definition lm_close :: "logManager \<Rightarrow> logManager" where
  "lm_close lm = lm\<lparr>lm_lcbs := map_option stopLocked \<circ> lm_lcbs lm\<rparr>"

section \<open>Writes of a block\<close>

definition lcbKey :: "logManager \<Rightarrow> string \<Rightarrow> string \<Rightarrow> (string \<times> string) option" where
  "lcbKey lm domain item =
     (case split_on (CHR ''$'') item of
        p0 # p1 # p2 # rest \<Rightarrow>
          if p1 \<noteq> ''LG'' then None
          else
            let key = reg_key domain (p0 @ ''$LG$'' @ p2)
            in if lm_lcbs lm key = None then None else Some (key, case rest of [] \<Rightarrow> [] | a # _ \<Rightarrow> a)
      | _ \<Rightarrow> None)"

text \<open>\<open>None\<close> allows the write.\<close>

definition checkLCBWrite :: "rpt_env \<Rightarrow> IEDModel \<Rightarrow> string \<Rightarrow> Value \<Rightarrow> lcbState \<Rightarrow> byte option" where
  "checkLCBWrite env m attr v st =
     (if attr = ''LogEna'' then
        (if value_Bool v \<and> (lb_j st = None \<or> resolveDataSet m (lcb_datSet env m st) = None) then Some AccessTemporarilyUnavailable else None)
      else if attr = ''DatSet'' \<or> attr = ''TrgOps'' \<or> attr = ''IntgPd'' then
        (if lcb_enabled m st then Some AccessTemporarilyUnavailable
         else if attr = ''DatSet'' \<and> env_Text env v \<noteq> [] \<and> resolveDataSet m (string_of (env_Text env v)) = None then Some AccessObjectValueInvalid
         else None)
      else Some AccessObjectAccessDenied)"

definition onLCBWrite :: "string \<Rightarrow> string \<Rightarrow> logManager \<times> rpt \<Rightarrow> logManager \<times> rpt" where
  "onLCBWrite key attr = (\<lambda>(lm, w).
     case lm_lcbs lm key of
       None \<Rightarrow> (lm, w)
     | Some st \<Rightarrow>
         if attr \<noteq> ''LogEna'' then (lm, w)
         else
           let (st, w) = (if lcb_enabled (rp_m w) st then startLocked st w else (stopLocked st, w))
           in (lm\<lparr>lm_lcbs := (lm_lcbs lm)(key \<mapsto> st)\<rparr>, w))"


text \<open>The branch of a write request for a block; \<open>refuse\<close> is what the rest of the write makes of the value, \<open>None\<close> when it is stored.\<close>

definition lcb_write :: "rpt_env \<Rightarrow> (Value \<Rightarrow> byte option) \<Rightarrow> string \<Rightarrow> string \<Rightarrow> Value \<Rightarrow> logManager \<times> rpt \<Rightarrow> byte option \<times> logManager \<times> rpt" where
  "lcb_write env refuse key attr v = (\<lambda>(lm, w).
     case lm_lcbs lm key of
       None \<Rightarrow> (Some AccessObjectNonExistent, lm, w)
     | Some st \<Rightarrow>
         (case checkLCBWrite env (rp_m w) attr v st of
            Some code \<Rightarrow> (Some code, lm, w)
          | None \<Rightarrow>
              (case refuse v of
                 Some code \<Rightarrow> (Some code, lm, w)
               | None \<Rightarrow> (None, onLCBWrite key attr (lm, w\<lparr>rp_m := lcb_setAttr st attr v (rp_m w)\<rparr>)))))"

text \<open>Deletion by a client (\<^verbatim>\<open>initializeJournal\<close> of \<^verbatim>\<open>services_ext.go\<close>): how many entries go, and the log without them.\<close>

definition time_after :: "Time \<Rightarrow> Time \<Rightarrow> bool" where
  "time_after a b = (t_Unix a > t_Unix b \<or> t_Unix a = t_Unix b \<and> t_Nanosecond a > t_Nanosecond b)"

fun count_deleted :: "Time \<Rightarrow> byte list option \<Rightarrow> logEntry list \<Rightarrow> nat" where
  "count_deleted limit limitEntry [] = 0"
| "count_deleted limit limitEntry (e # es) =
     (if time_after (le_time e) limit then 0
      else if limitEntry = Some (le_id e) then 1
      else Suc (count_deleted limit limitEntry es))"

definition delete_entries :: "string list \<Rightarrow> string \<Rightarrow> Time option \<Rightarrow> byte list option \<Rightarrow> logManager \<times> rpt \<Rightarrow> nat \<times> logManager \<times> rpt" where
  "delete_entries order key limit limitEntry = (\<lambda>(lm, w).
     case lm_journals lm key of
       None \<Rightarrow> (0, lm, w)
     | Some j \<Rightarrow>
         let n = (case limit of None \<Rightarrow> length (j_entries j) | Some t \<Rightarrow> count_deleted t limitEntry (j_entries j));
             j = j\<lparr>j_entries := drop n (j_entries j)\<rparr>
         in (n, lm\<lparr>lm_journals := (lm_journals lm)(key \<mapsto> j)\<rparr>, w\<lparr>rp_m := syncLocked order key j (lm_lcbs lm) (rp_m w)\<rparr>))"

section \<open>Identifiers\<close>

definition entry_id :: "rpt_env \<Rightarrow> nat \<Rightarrow> byte list" where
  "entry_id env n = makeEntryID (push_bit 32 (re_seed env AND 0xFFFFFFFF) OR ucast (word_of_nat n :: 32 word))"

lemma nextEntryID_id:
  "nextEntryID env w = (entry_id env (unat (rp_counter w + 1)), w\<lparr>rp_counter := rp_counter w + 1\<rparr>)"
proof -
  have "(ucast (rp_counter w + 1) :: 32 word) = word_of_nat (unat (rp_counter w + 1))" by (simp add: unsigned_of_nat word_of_nat_eq_iff)
  then show ?thesis by (simp add: nextEntryID_def entry_id_def Let_def)
qed

lemma makeEntryID_low:
  assumes "makeEntryID a = makeEntryID b" "i < 32"
  shows "bit a i = bit b i"
proof -
  have e: "(ucast (drop_bit k a) :: byte) = ucast (drop_bit k b)" if "k \<in> set [56, 48, 40, 32, 24, 16, 8, 0]" for k
    using assms(1) that by (auto simp: makeEntryID_def)
  have "bit (ucast (drop_bit (8 * (i div 8)) a) :: byte) (i mod 8) = bit (ucast (drop_bit (8 * (i div 8)) b) :: byte) (i mod 8)"
  proof -
    have "i div 8 \<in> {0, 1, 2, 3}" using assms(2) by auto
    then have "8 * (i div 8) \<in> set [56, 48, 40, 32, 24, 16, 8, 0]" by auto
    then show ?thesis using e by simp
  qed
  then show ?thesis using assms(2) by (simp add: bit_ucast_iff bit_drop_bit_eq)
qed

lemma entry_id_inj:
  assumes "entry_id env m = entry_id env n" "m < 2 ^ 32" "n < 2 ^ 32"
  shows "m = n"
proof -
  have low: "bit (push_bit 32 h OR ucast x) i = bit x i" if "i < 32" for h :: "64 word" and x :: "32 word" and i
    using that by (simp add: bit_or_iff bit_push_bit_iff bit_ucast_iff)
  have "bit (word_of_nat m :: 32 word) i = bit (word_of_nat n :: 32 word) i" if "i < 32" for i
    using makeEntryID_low [OF assms(1) [unfolded entry_id_def] that] unfolding low [OF that] .
  then have "(word_of_nat m :: 32 word) = word_of_nat n" by (intro bit_word_eqI) simp
  then have "unat (word_of_nat m :: 32 word) = unat (word_of_nat n :: 32 word)" by simp
  then show ?thesis using assms(2,3) by (simp add: unsigned_of_nat take_bit_nat_eq_self)
qed


section \<open>The range a block shows\<close>

definition range_names :: "string list" where
  "range_names = [''OldEntrTm'', ''NewEntrTm'', ''OldEnt'', ''NewEnt'']"

definition lcb_names :: "string list" where
  "lcb_names = range_names @ [''LogEna'', ''DatSet'', ''TrgOps'', ''IntgPd'']"

lemma range_lcb_names [intro]: "n \<in> set range_names \<Longrightarrow> n \<in> set lcb_names"
  by (simp add: lcb_names_def)

definition range_value :: "logEntry list \<Rightarrow> string \<Rightarrow> Value" where
  "range_value es n =
     (if n = ''OldEntrTm'' then NewBinaryTime (le_time (hd es)) else if n = ''NewEntrTm'' then NewBinaryTime (le_time (last es))
      else if n = ''OldEnt'' then NewOctetString (le_id (hd es)) else NewOctetString (le_id (last es)))"

text \<open>The attributes of the blocks are in the model, and apart from each other.\<close>

definition lcbs_placed :: "(string \<rightharpoonup> lcbState) \<Rightarrow> IEDModel \<Rightarrow> bool" where
  "lcbs_placed lcbs m = (\<forall>k st. lcbs k = Some st \<longrightarrow> (\<forall>n \<in> set lcb_names. leaf_get m (lcb_cell st n) \<noteq> None))"

definition lcbs_apart :: "(string \<rightharpoonup> lcbState) \<Rightarrow> bool" where
  "lcbs_apart lcbs = (\<forall>k st k' st' n n'. lcbs k = Some st \<longrightarrow> lcbs k' = Some st' \<longrightarrow> n \<in> set lcb_names \<longrightarrow> n' \<in> set lcb_names \<longrightarrow>
     lcb_cell st n = lcb_cell st' n' \<longrightarrow> k = k' \<and> n = n')"

lemma lcb_proper [simp]: "proper_fc (snd (lcb_cell st n))"
  by (simp add: lcb_cell_def proper_fc_def fc_ALL_def FCNone_def fc_LG_def)

definition sync_writes :: "string list \<Rightarrow> string \<Rightarrow> logEntry list \<Rightarrow> (string \<rightharpoonup> lcbState) \<Rightarrow> (cell \<times> Value) list" where
  "sync_writes order key es lcbs =
     concat (map (\<lambda>k. case lcbs k of Some st \<Rightarrow> if lb_j st = Some key then map (\<lambda>n. (lcb_cell st n, range_value es n)) range_names else [] | None \<Rightarrow> []) order)"

lemma syncLocked_writes:
  "syncLocked order key j lcbs m = (if j_entries j = [] then m else fold (\<lambda>(k, v) m. leaf_put m k v) (sync_writes order key (j_entries j) lcbs) m)"
proof -
  have "fold (\<lambda>k m. case lcbs k of Some st \<Rightarrow> if lb_j st = Some key then sync_block (hd (j_entries j)) (last (j_entries j)) st m else m | None \<Rightarrow> m) order m
    = fold (\<lambda>(k, v) m. leaf_put m k v) (sync_writes order key (j_entries j) lcbs) m"
    by (induction order arbitrary: m) (auto simp: sync_writes_def sync_block_def lcb_setAttr_def range_names_def range_value_def Let_def split: option.split)
  then show ?thesis by (simp add: syncLocked_def)
qed

lemma map_of_rev_unique:
  assumes "\<And>v'. (k, v') \<in> set ws \<Longrightarrow> v' = v" "(k, v) \<in> set ws"
  shows "map_of (rev ws) k = Some v"
proof -
  obtain v' where "map_of (rev ws) k = Some v'" using assms(2) by (metis map_of_eq_None_iff not_None_eq set_rev image_eqI fst_conv)
  moreover from this have "(k, v') \<in> set ws" using map_of_SomeD by fastforce
  ultimately show ?thesis using assms(1) by simp
qed

lemma sync_writes_member:
  "(c, v) \<in> set (sync_writes order key es lcbs) \<longleftrightarrow>
     (\<exists>k \<in> set order. \<exists>st. lcbs k = Some st \<and> lb_j st = Some key \<and> (\<exists>n \<in> set range_names. c = lcb_cell st n \<and> v = range_value es n))"
proof
  assume "(c, v) \<in> set (sync_writes order key es lcbs)"
  then show "\<exists>k \<in> set order. \<exists>st. lcbs k = Some st \<and> lb_j st = Some key \<and> (\<exists>n \<in> set range_names. c = lcb_cell st n \<and> v = range_value es n)"
    by (auto simp: sync_writes_def split: option.splits if_splits) (metis (no_types))
next
  assume "\<exists>k \<in> set order. \<exists>st. lcbs k = Some st \<and> lb_j st = Some key \<and> (\<exists>n \<in> set range_names. c = lcb_cell st n \<and> v = range_value es n)"
  then obtain k st n where k: "k \<in> set order" "lcbs k = Some st" "lb_j st = Some key" "n \<in> set range_names" "c = lcb_cell st n" "v = range_value es n" by blast
  show "(c, v) \<in> set (sync_writes order key es lcbs)"
    unfolding sync_writes_def set_concat set_map
    by (rule UN_I [of "case lcbs k of Some st \<Rightarrow> if lb_j st = Some key then map (\<lambda>n. (lcb_cell st n, range_value es n)) range_names else [] | None \<Rightarrow> []"])
      (use k in \<open>simp_all add: rev_image_eqI\<close>)
qed

lemma sync_get:
  assumes "lcbs_placed lcbs m" "lcbs_apart lcbs" "set order = dom lcbs" "lcbs k = Some st" "n \<in> set lcb_names" "leaf_get m (lcb_cell st n) = Some w"
  shows "leaf_get (syncLocked order key j lcbs m) (lcb_cell st n) = Some (if lb_j st = Some key \<and> n \<in> set range_names \<and> j_entries j \<noteq> [] then range_value (j_entries j) n else w)"
proof (cases "j_entries j = []")
  case True
  then show ?thesis using assms(6) by (simp add: syncLocked_writes)
next
  case False
  define ws where "ws = sync_writes order key (j_entries j) lcbs"
  have "\<forall>(c, v) \<in> set ws. proper_fc (snd c) \<and> leaf_get m c \<noteq> None"
  proof (intro ballI, clarify)
    fix c v
    assume "(c, v) \<in> set ws"
    then obtain k st n where k: "lcbs k = Some st" "n \<in> set range_names" "c = lcb_cell st n"
      unfolding ws_def sync_writes_member by blast
    then show "proper_fc (snd c) \<and> leaf_get m c \<noteq> None"
      using assms(1) range_lcb_names unfolding lcbs_placed_def by (metis lcb_proper)
  qed
  then have g: "leaf_get (fold (\<lambda>(k, v) m. leaf_put m k v) ws m) (lcb_cell st n) = Some (case map_of (rev ws) (lcb_cell st n) of None \<Rightarrow> w | Some v \<Rightarrow> v)"
    using leaves.get_puts [of ws m "lcb_cell st n" w] assms(6) by simp
  have u: "(lb_j st = Some key \<and> n \<in> set range_names) \<and> v = range_value (j_entries j) n" if "(lcb_cell st n, v) \<in> set ws" for v
  proof -
    obtain k' st' n' where k': "lcbs k' = Some st'" "lb_j st' = Some key" "n' \<in> set range_names" "lcb_cell st n = lcb_cell st' n'" "v = range_value (j_entries j) n'"
      using \<open>(lcb_cell st n, v) \<in> set ws\<close> unfolding ws_def sync_writes_member by (elim bexE exE conjE)
    then have "k = k' \<and> n = n'" using assms(2,4,5) range_lcb_names unfolding lcbs_apart_def by blast
    then show ?thesis using k' assms(4) by simp
  qed
  have "map_of (rev ws) (lcb_cell st n) = (if lb_j st = Some key \<and> n \<in> set range_names then Some (range_value (j_entries j) n) else None)"
  proof (cases "lb_j st = Some key \<and> n \<in> set range_names")
    case True
    have "(lcb_cell st n, range_value (j_entries j) n) \<in> set ws" using True assms(3-5) unfolding ws_def sync_writes_member by blast
    then have "map_of (rev ws) (lcb_cell st n) = Some (range_value (j_entries j) n)" by (rule map_of_rev_unique [rotated]) (rule u [THEN conjunct2])
    then show ?thesis using True by simp
  next
    case no: False
    then have "lcb_cell st n \<notin> fst ` set ws" using u by force
    then show ?thesis using no by (auto simp: map_of_eq_None_iff)
  qed
  then show ?thesis using g False by (simp add: syncLocked_writes ws_def)
qed


section \<open>The invariant\<close>

definition entries_ok :: "rpt_env \<Rightarrow> nat \<Rightarrow> nat \<Rightarrow> logEntry list \<Rightarrow> bool" where
  "entries_ok env cap issued es =
     (length es \<le> cap \<and> (\<exists>ns. map le_id es = map (entry_id env) ns \<and> sorted_wrt (<) ns \<and> (\<forall>n \<in> set ns. n \<le> issued)))"

definition shows_range :: "(string \<rightharpoonup> journal) \<Rightarrow> (string \<rightharpoonup> lcbState) \<Rightarrow> IEDModel \<Rightarrow> bool" where
  "shows_range js lcbs m =
     (\<forall>k st key j n. lcbs k = Some st \<longrightarrow> lb_j st = Some key \<longrightarrow> js key = Some j \<longrightarrow> j_entries j \<noteq> [] \<longrightarrow> n \<in> set range_names \<longrightarrow>
        leaf_get m (lcb_cell st n) = Some (range_value (j_entries j) n))"

definition logs_inv :: "rpt_env \<Rightarrow> logManager \<times> rpt \<Rightarrow> bool" where
  "logs_inv env = (\<lambda>(lm, w).
     0 < lm_capacity lm \<and> (\<forall>key j. lm_journals lm key = Some j \<longrightarrow> entries_ok env (lm_capacity lm) (unat (rp_counter w)) (j_entries j))
     \<and> lcbs_placed (lm_lcbs lm) (rp_m w) \<and> lcbs_apart (lm_lcbs lm) \<and> shows_range (lm_journals lm) (lm_lcbs lm) (rp_m w))"

lemma entries_ok_drop: "entries_ok env cap issued es \<Longrightarrow> entries_ok env cap issued (drop n es)"
  unfolding entries_ok_def
  by (metis (no_types, lifting) drop_map in_set_dropD le_trans length_drop diff_le_self sorted_wrt_drop)

lemma entries_ok_mono: "entries_ok env cap issued es \<Longrightarrow> issued \<le> issued' \<Longrightarrow> entries_ok env cap issued' es"
  unfolding entries_ok_def by (meson le_trans)

lemma entries_ok_append:
  assumes "entries_ok env cap issued es" "issued < n" "le_id e = entry_id env n" "0 < cap"
  shows "entries_ok env cap n (keep_newest cap (es @ [e]))"
proof -
  obtain ns where ns: "map le_id es = map (entry_id env) ns" "sorted_wrt (<) ns" "\<forall>n \<in> set ns. n \<le> issued"
    using assms(1) by (auto simp: entries_ok_def)
  have "map le_id (es @ [e]) = map (entry_id env) (ns @ [n])" using ns assms(3) by simp
  moreover have "sorted_wrt (<) (ns @ [n])" using ns assms(2) by (auto simp: sorted_wrt_append)
  moreover have "\<forall>k \<in> set (ns @ [n]). k \<le> n" using ns assms(2) by auto
  ultimately have "entries_ok env (length (es @ [e])) n (es @ [e])" unfolding entries_ok_def by blast
  from entries_ok_drop [OF this, of "length (es @ [e]) - cap"] show ?thesis
    by (auto simp: entries_ok_def keep_newest_def)
qed

lemma entries_ok_distinct:
  assumes "entries_ok env cap issued es" "issued < 2 ^ 32"
  shows "distinct (map le_id es)"
proof -
  obtain ns where ns: "map le_id es = map (entry_id env) ns" "sorted_wrt (<) ns" "\<forall>n \<in> set ns. n \<le> issued"
    using assms(1) by (auto simp: entries_ok_def)
  have "inj_on (entry_id env) (set ns)" using ns(3) assms(2) by (intro inj_onI) (meson entry_id_inj le_less_trans)
  then show ?thesis using ns by (simp add: distinct_map strict_sorted_iff)
qed

lemma sync_placed:
  assumes "lcbs_placed lcbs m" "lcbs_apart lcbs" "set order = dom lcbs"
  shows "lcbs_placed lcbs (syncLocked order key j lcbs m)"
  unfolding lcbs_placed_def
proof (intro allI impI ballI)
  fix k st n
  assume k: "lcbs k = Some st" "n \<in> set lcb_names"
  then obtain w where "leaf_get m (lcb_cell st n) = Some w" using assms(1) unfolding lcbs_placed_def by blast
  then show "leaf_get (syncLocked order key j lcbs m) (lcb_cell st n) \<noteq> None" using sync_get [OF assms k] by simp
qed

text \<open>Whatever the entries of a log become, the blocks show them after \<open>syncLocked\<close>, and the other blocks show what they did.\<close>

lemma sync_shows:
  assumes "lcbs_placed lcbs m" "lcbs_apart lcbs" "set order = dom lcbs" "shows_range js lcbs m"
  shows "shows_range (js(key \<mapsto> j)) lcbs (syncLocked order key j lcbs m)"
  unfolding shows_range_def
proof (intro allI impI)
  fix k st key' j' n
  assume k: "lcbs k = Some st" and a: "lb_j st = Some key'" "(js(key \<mapsto> j)) key' = Some j'" "j_entries j' \<noteq> []" and n: "n \<in> set range_names"
  obtain w where w: "leaf_get m (lcb_cell st n) = Some w" using assms(1) k n unfolding lcbs_placed_def by blast
  note g = sync_get [OF assms(1-3) k range_lcb_names [OF n] w, of key j]
  show "leaf_get (syncLocked order key j lcbs m) (lcb_cell st n) = Some (range_value (j_entries j') n)"
  proof (cases "key' = key")
    case True
    then show ?thesis using g a n by simp
  next
    case False
    then have "leaf_get m (lcb_cell st n) = Some (range_value (j_entries j') n)" using assms(4) k a n unfolding shows_range_def by simp
    then show ?thesis using g w a False by simp
  qed
qed


lemma logs_invD:
  assumes "logs_inv env (lm, w)"
  shows "0 < lm_capacity lm" "lcbs_placed (lm_lcbs lm) (rp_m w)" "lcbs_apart (lm_lcbs lm)" "shows_range (lm_journals lm) (lm_lcbs lm) (rp_m w)"
    and "lm_journals lm key = Some j \<Longrightarrow> entries_ok env (lm_capacity lm) (unat (rp_counter w)) (j_entries j)"
  using assms by (auto simp: logs_inv_def)

text \<open>A log whose entries are replaced, with the blocks brought up to date.\<close>

lemma logs_inv_replace:
  assumes i: "logs_inv env (lm, w)" and o: "set order = dom (lm_lcbs lm)" and m: "rp_m w' = syncLocked order key j (lm_lcbs lm) (rp_m w)"
    and c: "unat (rp_counter w) \<le> unat (rp_counter w')" and e: "entries_ok env (lm_capacity lm) (unat (rp_counter w')) (j_entries j)"
  shows "logs_inv env (lm\<lparr>lm_journals := (lm_journals lm)(key \<mapsto> j)\<rparr>, w')"
proof -
  note d = logs_invD [OF i]
  have "entries_ok env (lm_capacity lm) (unat (rp_counter w')) (j_entries j')" if "((lm_journals lm)(key \<mapsto> j)) key' = Some j'" for key' j'
    using that e entries_ok_mono [OF d(5) c] by (auto split: if_splits)
  then show ?thesis
    using d(1,3) sync_placed [OF d(2,3) o, of key j] sync_shows [OF d(2,3) o d(4), of key j] by (simp add: logs_inv_def m)
qed

lemma issued_next: "unat (c + 1 :: 64 word) = Suc (unat c)" if "unat c < 2 ^ 32"
  using that by (subst unat_plus_simple [THEN iffD1]) (simp_all add: word_le_nat_alt unat_word_ariths)

lemma appendLocked_inv:
  assumes i: "logs_inv env (lm, w)" and o: "set order = dom (lm_lcbs lm)" and c: "unat (rp_counter w) < 2 ^ 32"
    and a: "appendLocked env order jkey vars (lm, w) = (lm', w')"
  shows "logs_inv env (lm', w') \<and> lm_lcbs lm' = lm_lcbs lm \<and> unat (rp_counter w') \<le> Suc (unat (rp_counter w))"
proof (cases "vars = [] \<or> jkey = None \<or> lm_journals lm (the jkey) = None")
  case True
  then show ?thesis using a i by (auto simp: appendLocked_def split: option.splits)
next
  case False
  then obtain key j where k: "jkey = Some key" "lm_journals lm key = Some j" "vars \<noteq> []" by auto
  define e where "e = \<lparr>le_id = entry_id env (unat (rp_counter w + 1)), le_time = truncate_ms (re_clock env (rp_calls w)), le_vars = vars\<rparr>"
  define j' where "j' = j\<lparr>j_entries := keep_newest (lm_capacity lm) (j_entries j @ [e])\<rparr>"
  have r: "lm' = lm\<lparr>lm_journals := (lm_journals lm)(key \<mapsto> j')\<rparr>" "rp_m w' = syncLocked order key j' (lm_lcbs lm) (rp_m w)"
    "rp_counter w' = rp_counter w + 1"
    using a k by (auto simp: appendLocked_def nextEntryID_id next_call_def Let_def j'_def e_def)
  have "entries_ok env (lm_capacity lm) (unat (rp_counter w')) (j_entries j')"
    using entries_ok_append [OF logs_invD(5) [OF i k(2)], of "unat (rp_counter w')" e] logs_invD(1) [OF i] issued_next [OF c]
    by (simp add: j'_def e_def r(3))
  then show ?thesis using logs_inv_replace [OF i o r(2)] issued_next [OF c] r by simp
qed

lemma log_block_inv:
  assumes "logs_inv env (lm, w)" "set order = dom (lm_lcbs lm)" "unat (rp_counter w) < 2 ^ 32" "log_block env order changes key (lm, w) = (lm', w')"
  shows "logs_inv env (lm', w') \<and> lm_lcbs lm' = lm_lcbs lm \<and> unat (rp_counter w') \<le> Suc (unat (rp_counter w))"
  using assms(1,4) appendLocked_inv [OF assms(1-3)] by (auto simp: log_block_def split: option.splits if_splits)

lemma log_blocks_inv:
  assumes "logs_inv env (lm, w)" "set order = dom (lm_lcbs lm)" "unat (rp_counter w) + length ks \<le> 2 ^ 32" "fold (log_block env order changes) ks (lm, w) = (lm', w')"
  shows "logs_inv env (lm', w') \<and> lm_lcbs lm' = lm_lcbs lm \<and> unat (rp_counter w') \<le> unat (rp_counter w) + length ks"
  using assms
proof (induction ks arbitrary: lm w)
  case (Cons k ks)
  obtain lm1 w1 where b: "log_block env order changes k (lm, w) = (lm1, w1)" by force
  have 1: "logs_inv env (lm1, w1) \<and> lm_lcbs lm1 = lm_lcbs lm \<and> unat (rp_counter w1) \<le> Suc (unat (rp_counter w))"
    using log_block_inv [OF Cons.prems(1,2) _ b] Cons.prems(3) by simp
  then have "logs_inv env (lm', w') \<and> lm_lcbs lm' = lm_lcbs lm1 \<and> unat (rp_counter w') \<le> unat (rp_counter w1) + length ks"
    using Cons.IH [of lm1 w1] Cons.prems(2-4) b by simp
  then show ?case using 1 by simp
qed simp


lemma logs_inv_lcbs:
  assumes i: "logs_inv env (lm, w)" and w: "rp_m w' = rp_m w" "rp_counter w' = rp_counter w"
    and s: "\<And>k st'. lcbs k = Some st' \<Longrightarrow> \<exists>st. lm_lcbs lm k = Some st \<and> lb_ref st' = lb_ref st \<and> lb_j st' = lb_j st"
  shows "logs_inv env (lm\<lparr>lm_lcbs := lcbs\<rparr>, w')"
proof -
  note d = logs_invD [OF i]
  have c: "lcb_cell st' n = lcb_cell st n" if "lb_ref st' = lb_ref st" for st' st :: lcbState and n using that by (simp add: lcb_cell_def)
  have "lcbs_placed lcbs (rp_m w)" using d(2) s c unfolding lcbs_placed_def by metis
  moreover have "lcbs_apart lcbs"
    unfolding lcbs_apart_def
  proof (intro allI impI)
    fix k st k' st' n n'
    assume a: "lcbs k = Some st" "lcbs k' = Some st'" "n \<in> set lcb_names" "n' \<in> set lcb_names" "lcb_cell st n = lcb_cell st' n'"
    obtain u u' where u: "lm_lcbs lm k = Some u" "lb_ref st = lb_ref u" "lm_lcbs lm k' = Some u'" "lb_ref st' = lb_ref u'" using s a(1,2) by metis
    then have "lcb_cell u n = lcb_cell u' n'" using a(5) by (simp add: lcb_cell_def)
    then show "k = k' \<and> n = n'" using d(3) u(1,3) a(3,4) unfolding lcbs_apart_def by simp
  qed
  moreover have "shows_range (lm_journals lm) lcbs (rp_m w)"
    unfolding shows_range_def
  proof (intro allI impI)
    fix k st key j n
    assume a: "lcbs k = Some st" "lb_j st = Some key" "lm_journals lm key = Some j" "j_entries j \<noteq> []" "n \<in> set range_names"
    obtain u where u: "lm_lcbs lm k = Some u" "lb_ref st = lb_ref u" "lb_j st = lb_j u" using s a(1) by metis
    have "lb_j u = Some key" using u(3) a(2) by simp
    then have "leaf_get (rp_m w) (lcb_cell u n) = Some (range_value (j_entries j) n)" using d(4) u(1) a(3-5) unfolding shows_range_def by simp
    then show "leaf_get (rp_m w) (lcb_cell st n) = Some (range_value (j_entries j) n)" using u(2) by (simp add: lcb_cell_def)
  qed
  ultimately show ?thesis using d(1,5) w by (simp add: logs_inv_def)
qed

lemma logs_inv_model:
  assumes i: "logs_inv env (lm, w)" and c: "unat (rp_counter w) \<le> unat (rp_counter w')"
    and k: "\<And>k st n. lm_lcbs lm k = Some st \<Longrightarrow> n \<in> set lcb_names \<Longrightarrow> leaf_get (rp_m w') (lcb_cell st n) \<noteq> None"
    and r: "\<And>k st n. lm_lcbs lm k = Some st \<Longrightarrow> n \<in> set range_names \<Longrightarrow> leaf_get (rp_m w') (lcb_cell st n) = leaf_get (rp_m w) (lcb_cell st n)"
  shows "logs_inv env (lm, w')"
proof -
  note d = logs_invD [OF i]
  have "lcbs_placed (lm_lcbs lm) (rp_m w')" using k unfolding lcbs_placed_def by blast
  moreover have "shows_range (lm_journals lm) (lm_lcbs lm) (rp_m w')" using d(4) r unfolding shows_range_def by metis
  ultimately show ?thesis using d(1,3) entries_ok_mono [OF d(5) c] by (simp add: logs_inv_def)
qed

lemma checkLCBWrite_attr:
  "checkLCBWrite env m attr v st = None \<Longrightarrow> attr \<in> set lcb_names \<and> attr \<notin> set range_names"
  by (auto simp: checkLCBWrite_def lcb_names_def range_names_def split: if_splits)

lemma lcb_store_inv:
  assumes i: "logs_inv env (lm, w)" and st: "lm_lcbs lm k = Some st" and a: "attr \<in> set lcb_names" "attr \<notin> set range_names"
  shows "logs_inv env (lm, w\<lparr>rp_m := lcb_setAttr st attr v (rp_m w)\<rparr>)"
proof -
  note d = logs_invD [OF i]
  have g: "leaf_get (leaf_put (rp_m w) (lcb_cell st attr) v) (lcb_cell st' n) = (if lcb_cell st attr = lcb_cell st' n then Some v else leaf_get (rp_m w) (lcb_cell st' n))"
    if "lm_lcbs lm k' = Some st'" "n \<in> set lcb_names" for k' st' n
  proof -
    obtain x where x: "leaf_get (rp_m w) (lcb_cell st attr) = Some x" using d(2) st a unfolding lcbs_placed_def by blast
    have "leaf_get (rp_m w) (lcb_cell st' n) \<noteq> None" using d(2) that unfolding lcbs_placed_def by blast
    then obtain y where "leaf_get (rp_m w) (lcb_cell st' n) = Some y" by blast
    then show ?thesis using leaves.get_put_same [OF x, of v] leaves.get_put_other [OF x, of "lcb_cell st' n" y v] by auto
  qed
  have n: "lcb_cell st attr \<noteq> lcb_cell st' n" if "lm_lcbs lm k' = Some st'" "n \<in> set range_names" for k' st' n
    using d(3) st that a range_lcb_names [OF that(2)] unfolding lcbs_apart_def by metis
  show ?thesis
  proof (rule logs_inv_model [OF i])
    show "leaf_get (rp_m (w\<lparr>rp_m := lcb_setAttr st attr v (rp_m w)\<rparr>)) (lcb_cell st' n) \<noteq> None"
      if "lm_lcbs lm k' = Some st'" "n \<in> set lcb_names" for k' st' n
      using g [OF that] d(2) that unfolding lcbs_placed_def lcb_setAttr_def by auto
    show "leaf_get (rp_m (w\<lparr>rp_m := lcb_setAttr st attr v (rp_m w)\<rparr>)) (lcb_cell st' n) = leaf_get (rp_m w) (lcb_cell st' n)"
      if "lm_lcbs lm k' = Some st'" "n \<in> set range_names" for k' st' n
      using g [OF that(1) range_lcb_names [OF that(2)]] n [OF that] by (simp add: lcb_setAttr_def)
  qed simp
qed

lemma startLocked_keeps:
  "startLocked st w = (st', w') \<Longrightarrow> lb_ref st' = lb_ref st \<and> lb_j st' = lb_j st \<and> rp_m w' = rp_m w \<and> rp_counter w' = rp_counter w"
  by (auto simp: startLocked_def stopLocked_def next_call_def Let_def split: if_splits)

lemma onLCBWrite_inv:
  assumes "logs_inv env (lm, w)" "onLCBWrite key attr (lm, w) = (lm', w')"
  shows "logs_inv env (lm', w')"
proof (cases "lm_lcbs lm key = None \<or> attr \<noteq> ''LogEna''")
  case True
  then show ?thesis using assms by (auto simp: onLCBWrite_def split: option.splits)
next
  case False
  then obtain st where st: "lm_lcbs lm key = Some st" by auto
  obtain st' w1 where s: "(if lcb_enabled (rp_m w) st then startLocked st w else (stopLocked st, w)) = (st', w1)" by force
  have k: "lb_ref st' = lb_ref st \<and> lb_j st' = lb_j st \<and> rp_m w1 = rp_m w \<and> rp_counter w1 = rp_counter w"
    using s startLocked_keeps by (auto simp: stopLocked_def split: if_splits)
  have "lm' = lm\<lparr>lm_lcbs := (lm_lcbs lm)(key \<mapsto> st')\<rparr>" "w' = w1" using assms(2) False st s by (auto simp: onLCBWrite_def)
  moreover have "\<exists>st. lm_lcbs lm k = Some st \<and> lb_ref u = lb_ref st \<and> lb_j u = lb_j st" if "((lm_lcbs lm)(key \<mapsto> st')) k = Some u" for k u
    using that st k by (cases "k = key") auto
  ultimately show ?thesis using logs_inv_lcbs [OF assms(1), of w1 "(lm_lcbs lm)(key \<mapsto> st')"] k by blast
qed


section \<open>Reachable states\<close>

text \<open>The logs of a server that runs: \<open>order\<close> is the order in which a map of blocks is walked, and the counter of entry identifiers, which the
  reports share, has not come round. What the rest of the server does between two steps keeps the attributes of the blocks.\<close>

inductive log_reach :: "rpt_env \<Rightarrow> logManager \<times> rpt \<Rightarrow> logManager \<times> rpt \<Rightarrow> bool" for env s0 where
  start: "log_reach env s0 s0"
| update: "log_reach env s0 (lm, w) \<Longrightarrow> set order = dom (lm_lcbs lm) \<Longrightarrow> unat (rp_counter w) + length order < 2 ^ 32 \<Longrightarrow>
    log_reach env s0 (log_onUpdate env order changes (lm, w))"
| tick: "log_reach env s0 (lm, w) \<Longrightarrow> set order = dom (lm_lcbs lm) \<Longrightarrow> unat (rp_counter w) + 1 < 2 ^ 32 \<Longrightarrow>
    log_reach env s0 (log_tick env order key t (lm, w))"
| set_attr: "log_reach env s0 (lm, w) \<Longrightarrow> log_reach env s0 (snd (lcb_write env refuse key attr v (lm, w)))"
| delete: "log_reach env s0 (lm, w) \<Longrightarrow> set order = dom (lm_lcbs lm) \<Longrightarrow> log_reach env s0 (snd (delete_entries order key limit limitEntry (lm, w)))"
| other: "log_reach env s0 (lm, w) \<Longrightarrow> unat (rp_counter w) \<le> unat (rp_counter w') \<Longrightarrow> unat (rp_counter w') < 2 ^ 32 \<Longrightarrow>
    (\<And>k st n. lm_lcbs lm k = Some st \<Longrightarrow> n \<in> set lcb_names \<Longrightarrow> leaf_get (rp_m w') (lcb_cell st n) = leaf_get (rp_m w) (lcb_cell st n)) \<Longrightarrow>
    log_reach env s0 (lm, w')"

lemma lcb_write_inv:
  assumes "logs_inv env (lm, w)"
  shows "logs_inv env (snd (lcb_write env refuse key attr v (lm, w)))
    \<and> rp_counter (snd (snd (lcb_write env refuse key attr v (lm, w)))) = rp_counter w"
proof (cases "\<exists>st. lm_lcbs lm key = Some st \<and> checkLCBWrite env (rp_m w) attr v st = None \<and> refuse v = None")
  case False
  then show ?thesis using assms by (auto simp: lcb_write_def split: option.splits)
next
  case True
  then obtain st where st: "lm_lcbs lm key = Some st" "checkLCBWrite env (rp_m w) attr v st = None" "refuse v = None" by blast
  obtain lm' w' where o: "onLCBWrite key attr (lm, w\<lparr>rp_m := lcb_setAttr st attr v (rp_m w)\<rparr>) = (lm', w')" by force
  have "logs_inv env (lm', w')" using onLCBWrite_inv [OF lcb_store_inv [OF assms st(1)] o] checkLCBWrite_attr [OF st(2)] by blast
  moreover have "rp_counter w' = rp_counter w"
    using o startLocked_keeps by (auto simp: onLCBWrite_def Let_def split: option.splits if_splits prod.splits)
  ultimately show ?thesis using st o by (simp add: lcb_write_def)
qed

lemma delete_entries_inv:
  assumes "logs_inv env (lm, w)" "set order = dom (lm_lcbs lm)"
  shows "logs_inv env (snd (delete_entries order key limit limitEntry (lm, w)))
    \<and> rp_counter (snd (snd (delete_entries order key limit limitEntry (lm, w)))) = rp_counter w"
proof (cases "lm_journals lm key")
  case None
  then show ?thesis using assms by (simp add: delete_entries_def)
next
  case (Some j)
  define n where "n = (case limit of None \<Rightarrow> length (j_entries j) | Some t \<Rightarrow> count_deleted t limitEntry (j_entries j))"
  define j' where "j' = j\<lparr>j_entries := drop n (j_entries j)\<rparr>"
  have d: "snd (delete_entries order key limit limitEntry (lm, w)) =
      (lm\<lparr>lm_journals := (lm_journals lm)(key \<mapsto> j')\<rparr>, w\<lparr>rp_m := syncLocked order key j' (lm_lcbs lm) (rp_m w)\<rparr>)"
    using Some by (simp add: delete_entries_def Let_def n_def j'_def)
  have "entries_ok env (lm_capacity lm) (unat (rp_counter w)) (j_entries j')"
    using entries_ok_drop [OF logs_invD(5) [OF assms(1) Some]] by (simp add: j'_def)
  then show ?thesis unfolding d using logs_inv_replace [OF assms(1,2), of "w\<lparr>rp_m := syncLocked order key j' (lm_lcbs lm) (rp_m w)\<rparr>" key j'] by simp
qed

lemma log_tick_inv:
  assumes "logs_inv env (lm, w)" "set order = dom (lm_lcbs lm)" "unat (rp_counter w) + 1 < 2 ^ 32" "log_tick env order key t (lm, w) = (lm', w')"
  shows "logs_inv env (lm', w') \<and> unat (rp_counter w') < 2 ^ 32"
  using assms(1,3,4) appendLocked_inv [OF assms(1,2)] by (fastforce simp: log_tick_def logAllLocked_def split: option.splits if_splits)

lemma log_onUpdate_inv:
  assumes "logs_inv env (lm, w)" "set order = dom (lm_lcbs lm)" "unat (rp_counter w) + length order < 2 ^ 32" "log_onUpdate env order changes (lm, w) = (lm', w')"
  shows "logs_inv env (lm', w') \<and> unat (rp_counter w') < 2 ^ 32"
  using assms(1,3,4) log_blocks_inv [OF assms(1,2), of order changes lm' w'] by (auto simp: log_onUpdate_def split: if_splits)

lemma log_reach_inv:
  assumes "log_reach env s0 s" "logs_inv env s0" "unat (rp_counter (snd s0)) < 2 ^ 32"
  shows "logs_inv env s \<and> unat (rp_counter (snd s)) < 2 ^ 32"
  using assms
proof (induction rule: log_reach.induct)
  case start
  then show ?case by simp
next
  case (update lm w order changes)
  obtain lm' w' where "log_onUpdate env order changes (lm, w) = (lm', w')" by force
  then show ?case using log_onUpdate_inv [of env lm w order changes lm' w'] update by simp
next
  case (tick lm w order key t)
  obtain lm' w' where "log_tick env order key t (lm, w) = (lm', w')" by force
  then show ?case using log_tick_inv [of env lm w order key t lm' w'] tick by simp
next
  case (set_attr lm w refuse key attr v)
  then show ?case using lcb_write_inv [of env lm w] by simp
next
  case (delete lm w order key limit limitEntry)
  then show ?case using delete_entries_inv [of env lm w order] by simp
next
  case (other lm w w')
  note i = other.IH [OF other.prems, THEN conjunct1]
  have "logs_inv env (lm, w')"
  proof (rule logs_inv_model [OF i other.hyps(2)])
    show "leaf_get (rp_m w') (lcb_cell st n) \<noteq> None" if "lm_lcbs lm k = Some st" "n \<in> set lcb_names" for k st n
      using other.hyps(4) [OF that] logs_invD(2) [OF i] that unfolding lcbs_placed_def by simp
    show "leaf_get (rp_m w') (lcb_cell st n) = leaf_get (rp_m w) (lcb_cell st n)" if "lm_lcbs lm k = Some st" "n \<in> set range_names" for k st n
      using other.hyps(4) [OF that(1) range_lcb_names [OF that(2)]] .
  qed
  then show ?case using other.hyps(3) by simp
qed


section \<open>Construction gives empty logs\<close>

definition logs_empty :: "logManager \<Rightarrow> bool" where
  "logs_empty lm = (\<forall>key j. lm_journals lm key = Some j \<longrightarrow> j_entries j = [])"

lemma fold_pred: "P s \<Longrightarrow> (\<And>x s. P s \<Longrightarrow> P (f x s)) \<Longrightarrow> P (fold f xs s)"
  by (induction xs arbitrary: s) auto

lemma lm_journal_empty:
  "logs_empty lm \<Longrightarrow> logs_empty (snd (lm_journal domain name lm)) \<and> lm_capacity (snd (lm_journal domain name lm)) = lm_capacity lm"
  by (auto simp: lm_journal_def logs_empty_def Let_def split: if_splits)

definition log_start :: "nat \<Rightarrow> rpt \<Rightarrow> logManager \<times> rpt \<Rightarrow> bool" where
  "log_start cap w0 = (\<lambda>(lm, w). logs_empty lm \<and> lm_capacity lm = cap \<and> rp_m w = rp_m w0 \<and> rp_counter w = rp_counter w0)"

lemma add_lcb_start:
  assumes "log_start cap w0 s"
  shows "log_start cap w0 (add_lcb m ld lnd lc s)"
proof -
  obtain lm w where s: "s = (lm, w)" by force
  define st where "st = \<lparr>lb_domain = ld_Name ld, lb_item = ln_Name lnd @ ''$LG$'' @ lc_Name lc,
    lb_ref = ref_Child (ld_Name ld @ CHR ''/'' # ln_Name lnd) (lc_Name lc), lb_lc = lc, lb_j = None, lb_intgStop = None\<rparr>"
  obtain st1 lm1 where 1: "(case logTarget m ld lc of None \<Rightarrow> (st, lm)
      | Some (domain, name) \<Rightarrow> (case lm_journal domain name lm of (key, lm) \<Rightarrow> (st\<lparr>lb_j := Some key\<rparr>, lm))) = (st1, lm1)" by force
  have l: "logs_empty lm1 \<and> lm_capacity lm1 = lm_capacity lm"
  proof (cases "logTarget m ld lc")
    case None
    then show ?thesis using 1 assms by (simp add: s log_start_def)
  next
    case (Some t)
    then have "lm1 = snd (lm_journal (fst t) (snd t) lm)" using 1 by (simp add: case_prod_beta)
    then show ?thesis using assms lm_journal_empty [of lm] by (simp add: s log_start_def)
  qed
  obtain st2 w2 where 2: "(if lcb_enabled (rp_m w) st1 then startLocked st1 w else (st1, w)) = (st2, w2)" by force
  have w: "rp_m w2 = rp_m w \<and> rp_counter w2 = rp_counter w" using 2 startLocked_keeps by (auto split: if_splits)
  show ?thesis
  proof (cases "lcbObject lnd (lc_Name lc) = None")
    case True
    then show ?thesis using assms by (simp add: s add_lcb_def)
  next
    case False
    then have "add_lcb m ld lnd lc s = (lm1\<lparr>lm_lcbs := (lm_lcbs lm1)(reg_key (ld_Name ld) (lb_item st2) \<mapsto> st2)\<rparr>, w2)"
      unfolding s add_lcb_def Let_def prod.case st_def [symmetric] by (simp only: 1 2 prod.case if_False)
    then show ?thesis using assms l w by (simp add: s log_start_def logs_empty_def)
  qed
qed

lemma newLogManager_start:
  "log_start (if capacity \<le> 0 then defaultLogCapacity else nat capacity) w (newLogManager capacity w)"
proof -
  define cap where "cap = (if capacity \<le> 0 then defaultLogCapacity else nat capacity)"
  define lm0 where "lm0 = \<lparr>lm_capacity = cap, lm_journals = Map.empty, lm_lcbs = Map.empty\<rparr>"
  define lm1 where "lm1 = fold (\<lambda>ld. fold (\<lambda>lnd. fold (\<lambda>name lm. snd (lm_journal (ld_Name ld) (ln_Name lnd @ CHR ''$'' # name) lm)) (ln_Logs lnd)) (ld_Nodes ld)) (m_Devices (rp_m w)) lm0"
  have "logs_empty lm1 \<and> lm_capacity lm1 = cap"
  proof -
    define P where "P = (\<lambda>lm. logs_empty lm \<and> lm_capacity lm = cap)"
    have 0: "P lm0" by (simp add: P_def lm0_def logs_empty_def)
    have j: "P (snd (lm_journal domain name lm))" if "P lm" for domain name lm using that lm_journal_empty by (simp add: P_def)
    have "P lm1" unfolding lm1_def by (intro fold_pred [where P = P] 0 j)
    then show ?thesis by (simp add: P_def)
  qed
  then have "log_start cap w (lm1, w)" by (simp add: log_start_def)
  then have "log_start cap w (fold (\<lambda>ld. fold (\<lambda>lnd. fold (add_lcb (rp_m w) ld lnd) (ln_LogControls lnd)) (ld_Nodes ld)) (m_Devices (rp_m w)) (lm1, w))"
    by (intro fold_pred [where P = "log_start cap w"] add_lcb_start)
  then show ?thesis by (simp add: newLogManager_def Let_def lm1_def lm0_def cap_def)
qed

lemma newLogManager_inv:
  assumes n: "newLogManager capacity w0 = (lm, w)" and p: "lcbs_placed (lm_lcbs lm) (rp_m w0)" and a: "lcbs_apart (lm_lcbs lm)"
  shows "logs_inv env (lm, w)" "rp_counter w = rp_counter w0" "lm_capacity lm = (if capacity \<le> 0 then defaultLogCapacity else nat capacity)"
proof -
  have s: "logs_empty lm" "lm_capacity lm = (if capacity \<le> 0 then defaultLogCapacity else nat capacity)" "rp_m w = rp_m w0" "rp_counter w = rp_counter w0"
    using newLogManager_start [of capacity w0] by (simp_all add: n log_start_def)
  have "entries_ok env c k []" for c k by (simp add: entries_ok_def)
  moreover have "shows_range (lm_journals lm) (lm_lcbs lm) (rp_m w)" using s(1) unfolding shows_range_def logs_empty_def by blast
  moreover have "0 < lm_capacity lm" using s(2) by (simp add: defaultLogCapacity_def)
  ultimately show "logs_inv env (lm, w)" using s p a by (simp add: logs_inv_def logs_empty_def)
  show "rp_counter w = rp_counter w0" "lm_capacity lm = (if capacity \<le> 0 then defaultLogCapacity else nat capacity)" by (fact s)+
qed


section \<open>A log and its blocks\<close>

lemma appendLocked_capacity: "lm_capacity (fst (appendLocked env order jkey vars s)) = lm_capacity (fst s)"
  by (cases s) (auto simp: appendLocked_def Let_def split: option.splits prod.splits)

lemma log_block_capacity: "lm_capacity (fst (log_block env order changes key s)) = lm_capacity (fst s)"
  by (cases s) (auto simp: log_block_def appendLocked_capacity split: option.splits)

lemma log_onUpdate_capacity: "lm_capacity (fst (log_onUpdate env order changes s)) = lm_capacity (fst s)"
proof -
  have "lm_capacity (fst (fold (log_block env order changes) order s)) = lm_capacity (fst s)"
    by (rule fold_pred [where P = "\<lambda>s'. lm_capacity (fst s') = lm_capacity (fst s)"]) (simp_all add: log_block_capacity)
  then show ?thesis by (simp add: log_onUpdate_def)
qed

lemma onLCBWrite_capacity: "lm_capacity (fst (onLCBWrite key attr s)) = lm_capacity (fst s)"
  by (cases s) (auto simp: onLCBWrite_def Let_def split: option.splits prod.splits)

lemma log_reach_capacity: "log_reach env s0 s \<Longrightarrow> lm_capacity (fst s) = lm_capacity (fst s0)"
proof (induction rule: log_reach.induct)
  case (update lm w order changes)
  then show ?case by (simp add: log_onUpdate_capacity)
next
  case (tick lm w order key t)
  then show ?case by (auto simp: log_tick_def logAllLocked_def appendLocked_capacity split: option.splits)
next
  case (set_attr lm w refuse key attr v)
  then show ?case by (auto simp: lcb_write_def onLCBWrite_capacity split: option.splits)
next
  case (delete lm w order key limit limitEntry)
  then show ?case by (auto simp: delete_entries_def Let_def split: option.splits)
qed auto

text \<open>An entry is added at the end, and entries are lost only when the log is full, the oldest one at a time.\<close>

lemma appendLocked_entries:
  assumes "lm_journals lm key = Some j" "vars \<noteq> []" "length (j_entries j) \<le> lm_capacity lm"
  shows "\<exists>e j'. lm_journals (fst (appendLocked env order (Some key) vars (lm, w))) key = Some j' \<and> le_vars e = vars
    \<and> j_entries j' = (if length (j_entries j) < lm_capacity lm then j_entries j @ [e] else drop 1 (j_entries j @ [e]))"
proof -
  define e where "e = \<lparr>le_id = entry_id env (unat (rp_counter w + 1)), le_time = truncate_ms (re_clock env (rp_calls w)), le_vars = vars\<rparr>"
  have "lm_journals (fst (appendLocked env order (Some key) vars (lm, w))) key = Some (j\<lparr>j_entries := keep_newest (lm_capacity lm) (j_entries j @ [e])\<rparr>)"
    using assms by (simp add: appendLocked_def nextEntryID_id next_call_def Let_def e_def)
  moreover have "keep_newest (lm_capacity lm) (j_entries j @ [e]) = (if length (j_entries j) < lm_capacity lm then j_entries j @ [e] else drop 1 (j_entries j @ [e]))"
    using assms(3) by (auto simp: keep_newest_def)
  ultimately show ?thesis by (intro exI [of _ e] exI [of _ "j\<lparr>j_entries := keep_newest (lm_capacity lm) (j_entries j @ [e])\<rparr>"]) (simp add: e_def)
qed

text \<open>Deleting every entry leaves the blocks as they are: they go on showing entries the log no longer holds.\<close>

lemma emptied_log_shown:
  assumes "lm_journals lm key = Some j"
  shows "delete_entries order key None limitEntry (lm, w) =
    (length (j_entries j), lm\<lparr>lm_journals := (lm_journals lm)(key \<mapsto> j\<lparr>j_entries := []\<rparr>)\<rparr>, w)"
  using assms by (simp add: delete_entries_def syncLocked_def Let_def)

text \<open>A log never holds more entries than its capacity, no two of them with the same identifier, and while it holds any, every block that writes
  into it shows its oldest and newest entry with their times: after every sequence of updates, integrity periods, writes of the blocks, deletions by a
  client and whatever else the server does with the rest of the model.\<close>

theorem log_described:
  assumes n: "newLogManager capacity w0 = s0" and p: "lcbs_placed (lm_lcbs (fst s0)) (rp_m w0)" and a: "lcbs_apart (lm_lcbs (fst s0))"
    and c: "unat (rp_counter w0) < 2 ^ 32" and r: "log_reach env s0 (lm, w)" and j: "lm_journals lm key = Some j"
  shows "length (j_entries j) \<le> (if capacity \<le> 0 then defaultLogCapacity else nat capacity) \<and> distinct (map le_id (j_entries j))
    \<and> (\<forall>k st. lm_lcbs lm k = Some st \<and> lb_j st = Some key \<and> j_entries j \<noteq> [] \<longrightarrow>
         lcb_attr (rp_m w) st ''OldEnt'' = NewOctetString (le_id (hd (j_entries j))) \<and> lcb_attr (rp_m w) st ''NewEnt'' = NewOctetString (le_id (last (j_entries j)))
         \<and> lcb_attr (rp_m w) st ''OldEntrTm'' = NewBinaryTime (le_time (hd (j_entries j))) \<and> lcb_attr (rp_m w) st ''NewEntrTm'' = NewBinaryTime (le_time (last (j_entries j))))"
proof -
  obtain lm0 w1 where s0: "s0 = (lm0, w1)" by force
  note i = newLogManager_inv [OF n [unfolded s0] p [unfolded s0 fst_conv] a [unfolded s0 fst_conv]]
  have inv: "logs_inv env (lm, w)" "unat (rp_counter w) < 2 ^ 32" using log_reach_inv [OF r [unfolded s0] i(1)] c i(2) by simp_all
  have cap: "lm_capacity lm = (if capacity \<le> 0 then defaultLogCapacity else nat capacity)" using log_reach_capacity [OF r] i(3) s0 by simp
  note e = logs_invD(5) [OF inv(1) j]
  have "lcb_attr (rp_m w) st n = range_value (j_entries j) n" if "lm_lcbs lm k = Some st" "lb_j st = Some key" "j_entries j \<noteq> []" "n \<in> set range_names" for k st n
    using logs_invD(4) [OF inv(1)] that j leaf_get_value unfolding shows_range_def lcb_attr_def by blast
  then have "\<forall>k st. lm_lcbs lm k = Some st \<and> lb_j st = Some key \<and> j_entries j \<noteq> [] \<longrightarrow> (\<forall>n \<in> set range_names. lcb_attr (rp_m w) st n = range_value (j_entries j) n)"
    by blast
  moreover have "length (j_entries j) \<le> (if capacity \<le> 0 then defaultLogCapacity else nat capacity)" using e cap unfolding entries_ok_def by simp
  ultimately show ?thesis using entries_ok_distinct [OF e inv(2)] by (auto simp: range_names_def range_value_def)
qed


section \<open>A log of one entry\<close>

definition ex_lc :: LogControl where
  "ex_lc = \<lparr>lc_Name = ''L1'', lc_DataSet = ''Meas'', lc_LogName = ''Log'', lc_TrgOps = 2, lc_IntgPd = 0, lc_LogEna = True, lc_BufTime = 0,
     lc_ReasonCode = False, lc_LogLDInst = [], lc_LogLN = []\<rparr>"

definition ex_log_model :: IEDModel where
  "ex_log_model = materialiseControlBlocks \<lparr>m_Name = [], m_Devices = [\<lparr>ld_Name = ''LD1'', ld_Inst = [], ld_Nodes =
     [(plain_node ''LLN0'' [])
        \<lparr>ln_DataSets := [\<lparr>ds_Name = ''Meas'', ds_Entries = [\<lparr>fcda_Ref = ''LD1/GGIO1.Ind1.stVal'', fcda_FC = fc_ST, fcda_FCName = []\<rparr>], ds_Deletable = False\<rparr>],
         ln_LogControls := [ex_lc]\<rparr>,
      plain_node ''GGIO1'' [DataObject ''Ind1'' [] [] [DataAttribute ''stVal'' fc_ST [] TypeBoolean [] 0 [] (NewBool True) 2]]]\<rparr>], m_SettingGroups = []\<rparr>"

definition ex_log_env :: rpt_env where
  "ex_log_env = \<lparr>re_ip = (\<lambda>_. []), re_maxPDU = (\<lambda>_. 65000), re_fails = (\<lambda>_. False),
     re_clock = (\<lambda>k. \<lparr>t_Unix = 1700000000 + int k, t_Nanosecond = 0\<rparr>), re_seed = 1700000000, re_String = (\<lambda>_. [])\<rparr>"

definition ex_log_w :: rpt where
  "ex_log_w = \<lparr>rp_m = ex_log_model, rp_counter = 0, rp_calls = 0, rp_sent = [], rp_committed = []\<rparr>"

definition ex_lcb_key :: string where "ex_lcb_key = reg_key ''LD1'' ''LLN0$LG$L1''"
definition ex_log_key :: string where "ex_log_key = reg_key ''LD1'' ''LLN0$Log''"

definition ex_lcb :: lcbState where
  "ex_lcb = \<lparr>lb_domain = ''LD1'', lb_item = ''LLN0$LG$L1'', lb_ref = ''LD1/LLN0.L1'', lb_lc = ex_lc, lb_j = Some ex_log_key, lb_intgStop = None\<rparr>"

definition ex_log_changes :: "(change \<times> TrgOps) list" where "ex_log_changes = [((''LD1/GGIO1.Ind1.stVal'', fc_ST), 2)]"

definition ex_log_start :: "logManager \<times> rpt" where
  "ex_log_start = (\<lparr>lm_capacity = 1, lm_journals = [ex_log_key \<mapsto> \<lparr>j_domain = ''LD1'', j_name = ''LLN0$Log'', j_entries = []\<rparr>], lm_lcbs = [ex_lcb_key \<mapsto> ex_lcb]\<rparr>, ex_log_w)"

lemma ex_log_object: "m_Devices ex_log_model = [\<lparr>ld_Name = ''LD1'', ld_Inst = [], ld_Nodes =
     [(plain_node ''LLN0'' [DataObject ''L1'' ''LCB'' []
         [cbAttr fc_LG ''LogEna'' (NewBool True), cbAttr fc_LG ''LogRef'' (NewVisibleString (octets_of ''LD1/LLN0$Log'')),
          cbAttr fc_LG ''DatSet'' (NewVisibleString (octets_of ''LD1/LLN0$Meas'')), cbAttr fc_LG ''OldEntrTm'' (NewBinaryTime zeroBinaryTime),
          cbAttr fc_LG ''NewEntrTm'' (NewBinaryTime zeroBinaryTime), cbAttr fc_LG ''OldEnt'' (NewOctetString (replicate 8 0)),
          cbAttr fc_LG ''NewEnt'' (NewOctetString (replicate 8 0)), cbAttr fc_LG ''TrgOps'' (value_of (TrgOps_Value 2)), cbAttr fc_LG ''IntgPd'' (NewUint32 0)]])
        \<lparr>ln_DataSets := [\<lparr>ds_Name = ''Meas'', ds_Entries = [\<lparr>fcda_Ref = ''LD1/GGIO1.Ind1.stVal'', fcda_FC = fc_ST, fcda_FCName = []\<rparr>], ds_Deletable = False\<rparr>],
         ln_LogControls := [ex_lc]\<rparr>,
      plain_node ''GGIO1'' [DataObject ''Ind1'' [] [] [DataAttribute ''stVal'' fc_ST [] TypeBoolean [] 0 [] (NewBool True) 2]]]\<rparr>]"
  by (simp add: ex_log_model_def materialiseControlBlocks_def cb_objects_def plain_node_def buildLCBObject_def ex_lc_def logRef_def logTarget_def cbDataSetRef_def Let_def)

lemma ex_log_paths:
  "ref_Path ''LD1/LLN0.L1.OldEntrTm'' = [''LLN0'', ''L1'', ''OldEntrTm'']" "ref_LD ''LD1/LLN0.L1.OldEntrTm'' = ''LD1''"
  "ref_Path ''LD1/LLN0.L1.NewEntrTm'' = [''LLN0'', ''L1'', ''NewEntrTm'']" "ref_LD ''LD1/LLN0.L1.NewEntrTm'' = ''LD1''"
  "ref_Path ''LD1/LLN0.L1.OldEnt'' = [''LLN0'', ''L1'', ''OldEnt'']" "ref_LD ''LD1/LLN0.L1.OldEnt'' = ''LD1''"
  "ref_Path ''LD1/LLN0.L1.NewEnt'' = [''LLN0'', ''L1'', ''NewEnt'']" "ref_LD ''LD1/LLN0.L1.NewEnt'' = ''LD1''"
  "ref_Path ''LD1/LLN0.L1.LogEna'' = [''LLN0'', ''L1'', ''LogEna'']" "ref_LD ''LD1/LLN0.L1.LogEna'' = ''LD1''"
  "ref_Path ''LD1/LLN0.L1.DatSet'' = [''LLN0'', ''L1'', ''DatSet'']" "ref_LD ''LD1/LLN0.L1.DatSet'' = ''LD1''"
  "ref_Path ''LD1/LLN0.L1.TrgOps'' = [''LLN0'', ''L1'', ''TrgOps'']" "ref_LD ''LD1/LLN0.L1.TrgOps'' = ''LD1''"
  "ref_Path ''LD1/LLN0.L1.IntgPd'' = [''LLN0'', ''L1'', ''IntgPd'']" "ref_LD ''LD1/LLN0.L1.IntgPd'' = ''LD1''"
  by code_simp+

lemmas ex_log_simps = ex_log_paths ex_log_object leaf_get_def lcb_cell_def ex_lcb_def ref_Child_def Attribute_def Lookup_def Device_def ld_Node_def plain_node_def
  ln_Object_def do_lookup_def do_Child_def cbAttr_def fc_match_def

lemma ex_lcb_values:
  "leaf_get ex_log_model (lcb_cell ex_lcb ''LogEna'') = Some (NewBool True)" "leaf_get ex_log_model (lcb_cell ex_lcb ''DatSet'') = Some (NewVisibleString (octets_of ''LD1/LLN0$Meas''))"
  "leaf_get ex_log_model (lcb_cell ex_lcb ''TrgOps'') = Some (value_of (TrgOps_Value 2))" "leaf_get ex_log_model (lcb_cell ex_lcb ''IntgPd'') = Some (NewUint32 0)"
  by (simp_all add: ex_log_simps)

lemma ex_lcb_range:
  "leaf_get ex_log_model (lcb_cell ex_lcb ''OldEntrTm'') \<noteq> None" "leaf_get ex_log_model (lcb_cell ex_lcb ''NewEntrTm'') \<noteq> None"
  "leaf_get ex_log_model (lcb_cell ex_lcb ''OldEnt'') \<noteq> None" "leaf_get ex_log_model (lcb_cell ex_lcb ''NewEnt'') \<noteq> None"
  by (simp_all add: ex_log_simps)


lemma ex_lcb_attrs [simp]:
  "lcb_attr ex_log_model ex_lcb ''LogEna'' = NewBool True" "lcb_attr ex_log_model ex_lcb ''DatSet'' = NewVisibleString (octets_of ''LD1/LLN0$Meas'')"
  "lcb_attr ex_log_model ex_lcb ''TrgOps'' = value_of (TrgOps_Value 2)" "lcb_attr ex_log_model ex_lcb ''IntgPd'' = NewUint32 0"
  using ex_lcb_values leaf_get_value unfolding lcb_attr_def by blast+

lemma ex_log_placed: "lcbs_placed (lm_lcbs (fst ex_log_start)) (rp_m ex_log_w)" "lcbs_apart (lm_lcbs (fst ex_log_start))"
proof -
  have "leaf_get ex_log_model (lcb_cell ex_lcb n) \<noteq> None" if "n \<in> set lcb_names" for n
    using that ex_lcb_values ex_lcb_range by (auto simp: lcb_names_def range_names_def simp del: ex_lcb_def)
  then show "lcbs_placed (lm_lcbs (fst ex_log_start)) (rp_m ex_log_w)"
    by (auto simp: lcbs_placed_def ex_log_start_def ex_log_w_def split: if_splits)
  show "lcbs_apart (lm_lcbs (fst ex_log_start))"
    by (auto simp: lcbs_apart_def ex_log_start_def lcb_cell_def ref_Child_def split: if_splits)
qed

lemma ex_lcb_on: "lcb_enabled ex_log_model ex_lcb" "lcb_intgPd ex_log_model ex_lcb = 0"
  by (simp_all add: lcb_enabled_def lcb_intgPd_def) code_simp+

lemma ex_log_built: "newLogManager 1 ex_log_w = ex_log_start"
proof -
  have s: "startLocked ex_lcb ex_log_w = (ex_lcb, ex_log_w)"
    using ex_lcb_on(2) by (simp add: startLocked_def stopLocked_def ex_log_w_def) (simp add: ex_lcb_def)
  have m: "rp_m ex_log_w = ex_log_model" by (simp add: ex_log_w_def)
  note unf = ex_lcb_def ex_lc_def ex_log_key_def
  show ?thesis
    using s [unfolded unf] ex_lcb_on(1) [unfolded unf]
    by (simp add: newLogManager_def m ex_log_object plain_node_def add_lcb_def lcbObject_def cbAttr_def logTarget_def lm_journal_def
        ex_log_start_def unf ex_lcb_key_def ref_Child_def Let_def)
qed

lemma ex_log_vars: "logged_vars ex_log_env ex_log_model ex_log_changes ex_lcb \<noteq> []"
proof -
  have c: "cut (CHR ''/'') ''LD1/LLN0$Meas'' = (''LD1'', ''LLN0$Meas'', True)" "cut (CHR ''$'') ''LLN0$Meas'' = (''LLN0'', ''Meas'', True)"
    "ToMMS ''LD1/GGIO1.Ind1.stVal'' fc_ST = (''LD1'', ''GGIO1$ST$Ind1$stVal'')" "cut (CHR ''$'') ''GGIO1$ST$Ind1$stVal'' = (''GGIO1'', ''ST$Ind1$stVal'', True)"
    "split_on (CHR ''$'') ''GGIO1$ST$Ind1$stVal'' = [''GGIO1'', ''ST'', ''Ind1'', ''stVal'']" "ParseFCLenient ''ST'' = fc_ST" by code_simp+
  have "lcb_datSet ex_log_env ex_log_model ex_lcb = ''LD1/LLN0$Meas''" by (simp add: lcb_datSet_def env_Text_def NewVisibleString_def)
  then have m: "lcb_members ex_log_env ex_log_model ex_lcb = [(''LD1'', ''GGIO1$ST$Ind1$stVal'')]"
    by (simp add: lcb_members_def resolveDataSet_def datasetMembers_def c ex_log_object node_of_def Device_def ld_Node_def plain_node_def ln_DataSet_def)
  have v: "itemValue ex_log_model ''LD1'' ''GGIO1$ST$Ind1$stVal'' = NewBool True"
    by (simp add: itemValue_def splitLN_def resolveReadErr_def findAttr_def daValue.simps c ex_log_object node_of_def Device_def ld_Node_def plain_node_def
        ln_Object_def do_Child_def) (simp add: NewBool_def)
  have "memberReason ex_log_changes (''LD1'', ''GGIO1$ST$Ind1$stVal'') = 2" "lcb_trgOps ex_log_model ex_lcb = 2"
    by (code_simp, simp add: lcb_trgOps_def, code_simp)
  then show ?thesis using m v by (simp add: logged_vars_def member_vars_def TrgDataChange_def TrgQualityChange_def TrgDataUpdate_def) (simp add: NewBool_def)
qed

text \<open>The member of the data set changes once: the log holds the one entry it has room for, and the block shows it.\<close>

theorem log_described_witness:
  "\<exists>lm w j. log_reach ex_log_env (newLogManager 1 ex_log_w) (lm, w) \<and> lm_journals lm ex_log_key = Some j \<and> length (j_entries j) = 1
    \<and> lcb_attr (rp_m w) ex_lcb ''NewEnt'' = NewOctetString (le_id (last (j_entries j)))"
proof -
  obtain lm0 where s0: "ex_log_start = (lm0, ex_log_w)" and lm0: "lm_lcbs lm0 = [ex_lcb_key \<mapsto> ex_lcb]" "lm_capacity lm0 = 1"
    "lm_journals lm0 ex_log_key = Some \<lparr>j_domain = ''LD1'', j_name = ''LLN0$Log'', j_entries = []\<rparr>" by (simp add: ex_log_start_def)
  have w0: "rp_m ex_log_w = ex_log_model" "unat (rp_counter ex_log_w) = 0" by (simp_all add: ex_log_w_def)
  obtain lm w where u: "log_onUpdate ex_log_env [ex_lcb_key] ex_log_changes (lm0, ex_log_w) = (lm, w)" by force
  have r: "log_reach ex_log_env ex_log_start (lm, w)"
    using log_reach.update [OF log_reach.start [of ex_log_env ex_log_start, unfolded s0], of "[ex_lcb_key]" ex_log_changes] s0 lm0(1) w0(2) u by simp
  have j0: "lb_j ex_lcb = Some ex_log_key" by (simp add: ex_lcb_def)
  have up: "appendLocked ex_log_env [ex_lcb_key] (Some ex_log_key) (logged_vars ex_log_env ex_log_model ex_log_changes ex_lcb) (lm0, ex_log_w) = (lm, w)"
    using u ex_lcb_on(1) lm0(1) w0(1) j0 by (simp add: log_onUpdate_def log_block_def ex_log_changes_def)
  obtain j where j: "lm_journals lm ex_log_key = Some j" "length (j_entries j) = 1"
    using appendLocked_entries [OF lm0(3) ex_log_vars, of ex_log_env "[ex_lcb_key]" ex_log_w] lm0(2) up by auto
  have "lm_lcbs lm ex_lcb_key = Some ex_lcb" using up lm0(1) by (auto simp: appendLocked_def Let_def split: if_splits option.splits prod.splits)
  then have "lcb_attr (rp_m w) ex_lcb ''NewEnt'' = NewOctetString (le_id (last (j_entries j)))"
    using log_described [OF ex_log_built ex_log_placed _ r j(1)] j w0(2) j0 by (metis length_0_conv zero_less_power zero_less_numeral zero_neq_one)
  then show ?thesis using r j unfolding ex_log_built by blast
qed

end
