(* ===== verification/SrvRptLog.thy ===== *)
theory SrvRptLog
  imports SrvReport
begin

text \<open>
  What a buffered report control block promises: every entry it commits is delivered once and in order, or its
  loss is announced by the BufOvfl flag of the next report delivered; and the sequence numbers of a
  subscription count from zero without gaps.
\<close>

section \<open>Frames\<close>

text \<open>The part of a block that the delivery depends on, without the subscriber.\<close>

definition kept :: "rcbState \<Rightarrow> rcbState \<Rightarrow> bool" where
  "kept rs rs' = (rs_rc rs' = rs_rc rs \<and> rs_maxBuffer rs' = rs_maxBuffer rs \<and> rs_buffer rs' = rs_buffer rs \<and> rs_next rs' = rs_next rs
     \<and> rs_bufOverflow rs' = rs_bufOverflow rs \<and> rs_resyncID rs' = rs_resyncID rs \<and> rs_key rs' = rs_key rs)"

definition quiet :: "rpt \<Rightarrow> rpt \<Rightarrow> bool" where
  "quiet w w' = (rp_sent w' = rp_sent w \<and> rp_committed w' = rp_committed w)"

named_theorems frames

lemma next_call_frame [frames]: "next_call w = (t, w') \<Longrightarrow> quiet w w'"
  by (auto simp: next_call_def quiet_def)

lemma take_block_frame [frames]:
  "take_block env c (rs, w) = (rs', w') \<Longrightarrow> kept rs rs' \<and> quiet w w' \<and> rs_conn rs' = rs_conn rs \<and> rs_enabled rs' = rs_enabled rs
     \<and> rs_sqNum rs' = rs_sqNum rs \<and> rs_pending rs' = rs_pending rs"
  by (auto simp: take_block_def stopResvTimer_def Let_def kept_def quiet_def rs_key_def split: if_splits)

lemma release_frame [frames]:
  "release env (rs, w) = (rs', w') \<Longrightarrow> kept rs rs' \<and> quiet w w' \<and> rs_conn rs' = rs_conn rs \<and> rs_enabled rs' = rs_enabled rs
     \<and> rs_sqNum rs' = rs_sqNum rs \<and> rs_pending rs' = rs_pending rs"
  by (auto simp: release_def stopResvTimer_def next_call_def Let_def kept_def quiet_def rs_key_def split: if_splits)

lemma resv_expires_frame [frames]:
  "resv_expires env t (rs, w) = (rs', w') \<Longrightarrow> kept rs rs' \<and> quiet w w' \<and> rs_conn rs' = rs_conn rs \<and> rs_enabled rs' = rs_enabled rs
     \<and> rs_sqNum rs' = rs_sqNum rs \<and> rs_pending rs' = rs_pending rs"
  by (auto simp: resv_expires_def Let_def kept_def quiet_def rs_key_def split: if_splits)

lemma setSqNum_frame [frames]:
  "setSqNum n (rs, w) = (rs', w') \<Longrightarrow> kept rs rs' \<and> quiet w w' \<and> rs_conn rs' = rs_conn rs \<and> rs_enabled rs' = rs_enabled rs
     \<and> rs_sqNum rs' = n AND (if rc_Buffered (rs_rc rs) then 0xffff else 0xff) \<and> rs_pending rs' = rs_pending rs"
  by (auto simp: setSqNum_def Let_def kept_def quiet_def rs_key_def split: if_splits)

section \<open>Delivered reports and the log\<close>

definition own :: "string \<Rightarrow> rpt \<Rightarrow> transmission list" where
  "own key w = filter (\<lambda>t. tr_key t = key) (rp_sent w)"

definition committed :: "string \<Rightarrow> rpt \<Rightarrow> reportEntry list" where
  "committed key w = map snd (filter (\<lambda>p. fst p = key) (rp_committed w))"

lemma quiet_own: "quiet w w' \<Longrightarrow> own key w' = own key w \<and> committed key w' = committed key w"
  by (simp add: quiet_def own_def committed_def)

text \<open>Reports delivered at positions of a log: ascending from \<open>n\<close>, and flagged exactly when a position was
  passed over or the report before was not taken.\<close>

fun gap_marked :: "nat \<Rightarrow> bool \<Rightarrow> nat list \<Rightarrow> transmission list \<Rightarrow> bool" where
  "gap_marked n good [] [] = True"
| "gap_marked n good (i # is) (t # ts) = (n \<le> i \<and> (tr_ovfl t \<longleftrightarrow> n < i \<or> \<not> good) \<and> gap_marked (Suc i) (tr_ok t) is ts)"
| "gap_marked n good _ _ = False"

text \<open>The position expected after them, and whether the last was taken.\<close>

fun expected :: "nat \<Rightarrow> bool \<Rightarrow> nat list \<Rightarrow> transmission list \<Rightarrow> nat \<times> bool" where
  "expected n good (i # is) (t # ts) = expected (Suc i) (tr_ok t) is ts"
| "expected n good _ _ = (n, good)"

lemma gap_marked_snoc:
  "gap_marked n good is ts \<Longrightarrow> expected n good is ts = (n', good') \<Longrightarrow> n' \<le> i \<Longrightarrow> (tr_ovfl t \<longleftrightarrow> n' < i \<or> \<not> good') \<Longrightarrow>
     gap_marked n good (is @ [i]) (ts @ [t]) \<and> expected n good (is @ [i]) (ts @ [t]) = (Suc i, tr_ok t)"
  by (induction n good "is" ts rule: gap_marked.induct) auto

text \<open>The state of a buffered block against the log of its committed entries and the positions delivered.\<close>

definition log_inv :: "reportEntry list \<Rightarrow> transmission list \<Rightarrow> nat list \<Rightarrow> rcbState \<Rightarrow> bool" where
  "log_inv lg ts ps rs =
     (let p = length lg - rs_maxBuffer rs + rs_next rs; (n, good) = expected 0 True ps ts in
      rc_Buffered (rs_rc rs) \<and> rs_maxBuffer rs > 0 \<and> rs_resyncID rs = None
      \<and> rs_buffer rs = drop (length lg - rs_maxBuffer rs) lg \<and> p \<le> length lg
      \<and> gap_marked 0 True ps ts \<and> map tr_entry ts = map (nth lg) ps \<and> (\<forall>i \<in> set ps. i < p)
      \<and> n \<le> p \<and> (n < p \<longrightarrow> rs_next rs = 0) \<and> (rs_bufOverflow rs \<longleftrightarrow> n < p \<or> \<not> good))"

lemma log_inv_kept: "log_inv lg ts ps rs \<Longrightarrow> kept rs rs' \<Longrightarrow> log_inv lg ts ps rs'"
  by (simp add: log_inv_def kept_def Let_def)

lemma trim_within: "length (rs_buffer rs) \<le> rs_maxBuffer rs \<Longrightarrow> trim rs = rs"
  by (subst trim.simps) simp

text \<open>Trimming changes nothing but the buffer, its index and the flag.\<close>

lemma trim_sel [simp]:
  "rs_rc (trim rs) = rs_rc rs" "rs_maxBuffer (trim rs) = rs_maxBuffer rs" "rs_resyncID (trim rs) = rs_resyncID rs"
  "rs_domain (trim rs) = rs_domain rs" "rs_item (trim rs) = rs_item rs" "rs_ref (trim rs) = rs_ref rs" "rs_conn (trim rs) = rs_conn rs"
  "rs_enabled (trim rs) = rs_enabled rs" "rs_sqNum (trim rs) = rs_sqNum rs" "rs_pending (trim rs) = rs_pending rs"
  "rs_owner (trim rs) = rs_owner rs" "rs_resvIP (trim rs) = rs_resvIP rs" "rs_resvCfg (trim rs) = rs_resvCfg rs"
  "rs_resvTimer (trim rs) = rs_resvTimer rs" "rs_intgStop (trim rs) = rs_intgStop rs"
  by (induction rs rule: trim.induct; subst trim.simps; simp)+

text \<open>Committing one entry.\<close>

lemma log_inv_push:
  assumes inv: "log_inv lg ts ps rs"
  shows "log_inv (lg @ [e]) ts ps (trim (rs\<lparr>rs_buffer := rs_buffer rs @ [e]\<rparr>))"
proof -
  let ?M = "rs_maxBuffer rs" and ?rs = "rs\<lparr>rs_buffer := rs_buffer rs @ [e]\<rparr>"
  have b: "rs_buffer rs = drop (length lg - ?M) lg" "0 < ?M" using inv by (simp_all add: log_inv_def Let_def split: prod.splits)
  obtain n good where ex: "expected 0 True ps ts = (n, good)" by force
  consider (room) "length lg < ?M" | (full) "?M \<le> length lg" by linarith
  then show ?thesis
  proof cases
    case room
    then have "trim ?rs = ?rs" using b by (intro trim_within) simp
    then show ?thesis using inv room ex by (auto simp: log_inv_def Let_def nth_append)
  next
    case full
    have tl: "tl (rs_buffer rs @ [e]) = drop (Suc (length lg) - ?M) (lg @ [e])"
      using full b by (simp add: Suc_diff_le drop_Suc tl_drop)
    let ?t = "if rs_next rs > 0 then ?rs\<lparr>rs_buffer := tl (rs_buffer ?rs), rs_next := rs_next rs - 1\<rparr>
              else ?rs\<lparr>rs_buffer := tl (rs_buffer ?rs), rs_bufOverflow := True\<rparr>"
    have "trim ?rs = trim ?t" using full b by (subst trim.simps) simp
    also have "\<dots> = ?t" using full b by (intro trim_within) auto
    finally have t: "trim ?rs = ?t" .
    show ?thesis using inv full ex tl unfolding t
      by (auto simp: log_inv_def Let_def nth_append Suc_diff_le)
  qed
qed


text \<open>Delivering one entry.\<close>

lemma transmit_effect:
  assumes "transmit env e (rs, w) = (rs', w')" "rs_conn rs = Some c"
  obtains t where "rp_sent w' = rp_sent w @ [t]" "tr_key t = rs_key rs" "tr_entry t = e" "tr_ovfl t = rs_bufOverflow rs"
    "tr_seq t = rs_sqNum rs" "tr_conn t = c" "rp_committed w' = rp_committed w"
    "rs_bufOverflow rs' = (rc_Buffered (rs_rc rs) \<and> \<not> tr_ok t)"
    "rs_sqNum rs' = (rs_sqNum rs + 1) AND (if rc_Buffered (rs_rc rs) then 0xffff else 0xff)"
    "rs_rc rs' = rs_rc rs" "rs_maxBuffer rs' = rs_maxBuffer rs" "rs_buffer rs' = rs_buffer rs" "rs_next rs' = rs_next rs"
    "rs_resyncID rs' = rs_resyncID rs" "rs_key rs' = rs_key rs" "rs_conn rs' = rs_conn rs" "rs_enabled rs' = rs_enabled rs"
    "rs_pending rs' = rs_pending rs"
proof -
  obtain r1 w1 where sq: "setSqNum (rs_sqNum rs + 1) (rs, w) = (r1, w1)" by force
  note f = setSqNum_frame [OF sq, unfolded kept_def quiet_def]
  obtain out ok k where sp: "send_pdus (re_fails env) (rp_calls w1)
      (reportPDUs env (rp_m w1) (r1\<lparr>rs_bufOverflow := False\<rparr>) e (rs_sqNum rs) (rs_bufOverflow r1) (re_maxPDU env c)) = (out, ok, k)"
    by (metis prod_cases3)
  show thesis
    using assms sq sp f unfolding transmit_def
    by (intro that [of "\<lparr>tr_conn = c, tr_key = rs_key rs, tr_entry = e, tr_seq = rs_sqNum rs, tr_ovfl = rs_bufOverflow rs, tr_pdus = out, tr_ok = ok\<rparr>"])
       (auto simp: Let_def rs_key_def split: if_splits)
qed

lemma log_inv_send:
  assumes inv: "log_inv lg ts ps rs" and n: "rs_next rs < length (rs_buffer rs)" and t: "tr_ovfl t = rs_bufOverflow rs" "tr_entry t = rs_buffer rs ! rs_next rs"
    and r: "rs_rc rs' = rs_rc rs" "rs_maxBuffer rs' = rs_maxBuffer rs" "rs_buffer rs' = rs_buffer rs" "rs_next rs' = Suc (rs_next rs)"
      "rs_resyncID rs' = rs_resyncID rs" "rs_bufOverflow rs' = (\<not> tr_ok t)"
  shows "log_inv lg (ts @ [t]) (ps @ [length lg - rs_maxBuffer rs + rs_next rs]) rs'"
proof -
  let ?p = "length lg - rs_maxBuffer rs + rs_next rs"
  obtain m good where ex: "expected 0 True ps ts = (m, good)" by force
  have i: "gap_marked 0 True ps ts" "m \<le> ?p" "rs_bufOverflow rs \<longleftrightarrow> m < ?p \<or> \<not> good" "rs_buffer rs = drop (length lg - rs_maxBuffer rs) lg"
    "\<forall>i \<in> set ps. i < ?p" "map tr_entry ts = map (nth lg) ps" "rc_Buffered (rs_rc rs)" "0 < rs_maxBuffer rs" "rs_resyncID rs = None"
    using inv ex by (simp_all add: log_inv_def Let_def)
  have "tr_entry t = lg ! ?p" "?p < length lg" using t(2) i(4) n by simp_all
  moreover note gap_marked_snoc [OF i(1) ex i(2), of t] t(1) i(3)
  ultimately show ?thesis using i r unfolding log_inv_def by (auto simp: Let_def)
qed

section \<open>What every operation keeps\<close>

definition tracked :: "string \<Rightarrow> rcbState \<times> rpt \<Rightarrow> bool" where
  "tracked key s = (rs_key (fst s) = key \<and> (\<exists>ps. log_inv (committed key (snd s)) (own key (snd s)) ps (fst s)))"

definition settled :: "string \<Rightarrow> rcbState \<times> rpt \<Rightarrow> bool" where
  "settled key s = (tracked key s \<and> (rs_enabled (fst s) \<longleftrightarrow> rs_conn (fst s) \<noteq> None) \<and> (rs_enabled (fst s) \<longrightarrow> rs_next (fst s) = length (rs_buffer (fst s))))"

lemma tracked_frame: "tracked key (rs, w) \<Longrightarrow> kept rs rs' \<Longrightarrow> quiet w w' \<Longrightarrow> tracked key (rs', w')"
  using quiet_own [of w w' key] log_inv_kept by (fastforce simp: tracked_def kept_def)

lemma settled_frame:
  "settled key (rs, w) \<Longrightarrow> kept rs rs' \<Longrightarrow> quiet w w' \<Longrightarrow> rs_conn rs' = rs_conn rs \<Longrightarrow> rs_enabled rs' = rs_enabled rs \<Longrightarrow> settled key (rs', w')"
  using tracked_frame by (fastforce simp: settled_def kept_def)

lemma transmitBuffered_tracked:
  assumes "tracked key s" "rs_conn (fst s) \<noteq> None" "transmitBuffered env s = (rs', w')"
  shows "tracked key (rs', w') \<and> rs_next rs' = length (rs_buffer rs') \<and> rs_conn rs' = rs_conn (fst s) \<and> rs_enabled rs' = rs_enabled (fst s)
    \<and> rs_pending rs' = rs_pending (fst s) \<and> rs_rc rs' = rs_rc (fst s)"
  using assms
proof (induction env s arbitrary: rs' w' rule: transmitBuffered.induct)
  case (1 env s)
  obtain rs w where s: "s = (rs, w)" by force
  obtain ps where inv: "log_inv (committed key w) (own key w) ps rs" and key: "rs_key rs = key" using "1.prems"(1) by (auto simp: tracked_def s)
  show ?case
  proof (cases "rs_next rs < length (rs_buffer rs)")
    case True
    obtain c where c: "rs_conn rs = Some c" using "1.prems"(2) s by auto
    obtain r1 w1 where t: "transmit env (rs_buffer rs ! rs_next rs) (rs, w) = (r1, w1)" by force
    obtain x where x: "rp_sent w1 = rp_sent w @ [x]" "tr_key x = rs_key rs" "tr_entry x = rs_buffer rs ! rs_next rs" "tr_ovfl x = rs_bufOverflow rs"
      "rp_committed w1 = rp_committed w" "rs_bufOverflow r1 = (rc_Buffered (rs_rc rs) \<and> \<not> tr_ok x)"
      "rs_rc r1 = rs_rc rs" "rs_maxBuffer r1 = rs_maxBuffer rs" "rs_buffer r1 = rs_buffer rs" "rs_next r1 = rs_next rs"
      "rs_resyncID r1 = rs_resyncID rs" "rs_key r1 = rs_key rs" "rs_conn r1 = rs_conn rs" "rs_enabled r1 = rs_enabled rs" "rs_pending r1 = rs_pending rs"
      using transmit_effect [OF t c] by metis
    have bf: "rc_Buffered (rs_rc rs)" using inv by (simp add: log_inv_def Let_def split: prod.splits)
    let ?r = "r1\<lparr>rs_next := rs_next r1 + 1\<rparr>"
    have "log_inv (committed key w) (own key w @ [x]) (ps @ [length (committed key w) - rs_maxBuffer rs + rs_next rs]) ?r"
      by (rule log_inv_send [OF inv True]) (simp_all add: x bf)
    then have tr: "tracked key (?r, w1)" using x key by (auto simp: tracked_def own_def committed_def rs_key_def)
    have tb: "transmitBuffered env (?r, w1) = (rs', w')"
      using "1.prems"(3) True t by (subst (asm) transmitBuffered.simps) (simp add: s)
    have "rs_conn (fst (?r, w1)) \<noteq> None" using x c by simp
    from "1.IH" [OF _ _ tr this tb] True t s show ?thesis by (simp add: x)
  next
    case False
    then have "(rs', w') = (rs, w)" using "1.prems"(3) by (subst (asm) transmitBuffered.simps) (simp add: s)
    moreover have "rs_next rs \<le> length (rs_buffer rs)" using inv by (auto simp: log_inv_def Let_def split: prod.splits)
    ultimately show ?thesis using "1.prems" False s by auto
  qed
qed

lemma emit_settled:
  assumes "settled key s" "emit env e s = (rs', w')"
  shows "settled key (rs', w') \<and> rs_pending rs' = rs_pending (fst s) \<and> rs_conn rs' = rs_conn (fst s) \<and> rs_enabled rs' = rs_enabled (fst s) \<and> rs_rc rs' = rs_rc (fst s)"
proof -
  obtain rs w where s: "s = (rs, w)" by force
  obtain ps where inv: "log_inv (committed key w) (own key w) ps rs" and key: "rs_key rs = key" and en: "rs_enabled rs \<longleftrightarrow> rs_conn rs \<noteq> None"
    using assms(1) by (auto simp: settled_def tracked_def s)
  have bf: "rc_Buffered (rs_rc rs)" using inv by (simp add: log_inv_def Let_def split: prod.splits)
  obtain k w1 where k: "next_call w = (k, w1)" by force
  obtain i w2 where i: "nextEntryID env w1 = (i, w2)" by force
  have w2: "rp_sent w2 = rp_sent w" "rp_committed w2 = rp_committed w" using k i by (auto simp: next_call_def nextEntryID_def Let_def)
  define e' where "e' = e\<lparr>e_time := re_clock env k, e_id := i\<rparr>"
  define r where "r = trim (rs\<lparr>rs_buffer := rs_buffer rs @ [e']\<rparr>)"
  have rkey: "rs_key r = key" using key by (simp add: r_def rs_key_def)
  define w3 where "w3 = w2\<lparr>rp_m := setAttr r ''TimeofEntry'' (NewBinaryTime (e_time e')) (setAttr r ''EntryID'' (NewOctetString (e_id e')) (rp_m w2)),
    rp_committed := rp_committed w @ [(key, e')]\<rparr>"
  have r: "(if rs_enabled r then transmitBuffered env (r, w3) else (r, w3)) = (rs', w')"
    using assms(2) bf unfolding emit_def s w3_def
    by (simp only: prod.case Let_def k i not_True_eq_False if_False e'_def [symmetric] r_def [symmetric] rkey w2(2) reportEntry.select_convs)
  have "log_inv (committed key w @ [e']) (own key w) ps r" unfolding r_def by (rule log_inv_push [OF inv])
  moreover have "committed key w3 = committed key w @ [e']" by (simp add: w3_def committed_def)
  moreover have "own key w3 = own key w" by (simp add: w3_def own_def w2)
  ultimately have tr: "tracked key (r, w3)" using rkey by (auto simp: tracked_def)
  show ?thesis
  proof (cases "rs_enabled rs")
    case True
    then have t: "transmitBuffered env (r, w3) = (rs', w')" using r by (simp add: r_def)
    show ?thesis using transmitBuffered_tracked [OF tr _ t] True en by (auto simp: settled_def r_def s)
  next
    case False
    then show ?thesis using r tr en by (auto simp: settled_def r_def s)
  qed
qed


lemma flushPending_settled:
  assumes "settled key s" "flushPending env s = (rs', w')"
  shows "settled key (rs', w') \<and> rs_pending rs' = None \<and> rs_conn rs' = rs_conn (fst s) \<and> rs_enabled rs' = rs_enabled (fst s) \<and> rs_rc rs' = rs_rc (fst s)"
proof (cases "rs_pending (fst s)")
  case (Some tp)
  obtain rs w t p where s: "s = (rs, w)" "tp = (t, p)" by (metis prod.exhaust)
  have st: "settled key (rs\<lparr>rs_pending := None\<rparr>, w)"
    by (rule settled_frame [OF assms(1) [unfolded s]]) (simp_all add: kept_def quiet_def rs_key_def)
  show ?thesis
  proof (cases "e_members p = []")
    case False
    then have "emit env p (rs\<lparr>rs_pending := None\<rparr>, w) = (rs', w')" using assms(2) Some s by (simp add: flushPending_def)
    from emit_settled [OF st this] show ?thesis by (simp add: s)
  qed (use assms(2) Some s st in \<open>auto simp: flushPending_def\<close>)
qed (use assms in \<open>auto simp: flushPending_def split: prod.splits\<close>)

lemma event_settled:
  assumes "settled key s" "event env e s = (rs', w')"
  shows "settled key (rs', w') \<and> rs_conn rs' = rs_conn (fst s) \<and> rs_enabled rs' = rs_enabled (fst s) \<and> rs_rc rs' = rs_rc (fst s)"
proof (cases "attr_millis (rp_m (snd s)) (fst s) ''BufTm'' \<le> 0")
  case True
  then show ?thesis using assms emit_settled [OF assms(1)] by (auto simp: event_def split: prod.splits)
next
  case False
  obtain rs w where s: "s = (rs, w)" by force
  obtain r1 w1 where f: "(case rs_pending rs of Some (_, p) \<Rightarrow> if overlaps (e_members p) (e_members e) then flushPending env (rs, w) else (rs, w)
      | None \<Rightarrow> (rs, w)) = (r1, w1)" by force
  have 1: "settled key (r1, w1) \<and> rs_conn r1 = rs_conn rs \<and> rs_enabled r1 = rs_enabled rs \<and> rs_rc r1 = rs_rc rs"
    using f assms(1) s flushPending_settled [of key "(rs, w)" env r1 w1] by (auto split: option.splits if_splits)
  obtain r2 w2 where g: "(case rs_pending r1 of Some _ \<Rightarrow> (r1, w1) | None \<Rightarrow> let (t, w) = next_call w1 in (r1\<lparr>rs_pending := Some (t, no_entry)\<rparr>, w)) = (r2, w2)" by force
  then have "kept r1 r2 \<and> quiet w1 w2 \<and> rs_conn r2 = rs_conn r1 \<and> rs_enabled r2 = rs_enabled r1"
    by (auto simp: next_call_def kept_def quiet_def rs_key_def split: option.splits)
  moreover have "rs' = r2\<lparr>rs_pending := map_option (\<lambda>(t, p). (t, merge_entry p e)) (rs_pending r2)\<rparr>" "w' = w2"
    using assms(2) False f g by (simp_all add: event_def s Let_def)
  ultimately have "kept r1 rs' \<and> quiet w1 w' \<and> rs_conn rs' = rs_conn r1 \<and> rs_enabled rs' = rs_enabled r1"
    by (simp add: kept_def rs_key_def)
  then show ?thesis using 1 settled_frame [of key r1 w1 rs' w'] by (simp add: s kept_def)
qed

lemma reportAll_settled:
  assumes "settled key s" "reportAll env why s = (rs', w')"
  shows "settled key (rs', w') \<and> rs_conn rs' = rs_conn (fst s) \<and> rs_enabled rs' = rs_enabled (fst s) \<and> rs_rc rs' = rs_rc (fst s)"
proof -
  obtain r1 w1 where f: "flushPending env s = (r1, w1)" by force
  note 1 = flushPending_settled [OF assms(1) f]
  show ?thesis using assms(2) 1 emit_settled [of key "(r1, w1)" env _ rs' w'] by (auto simp: reportAll_def f Let_def split: if_splits)
qed

lemma update_block_settled: "settled key s \<Longrightarrow> update_block env changes s = (rs', w') \<Longrightarrow> settled key (rs', w')"
  using event_settled [of key s env _ rs' w'] by (auto simp: update_block_def Let_def split: prod.splits if_splits)

lemma pend_expires_settled: "settled key s \<Longrightarrow> pend_expires env t s = (rs', w') \<Longrightarrow> settled key (rs', w')"
  using flushPending_settled [of key s env rs' w'] by (auto simp: pend_expires_def split: prod.splits option.splits if_splits)

lemma integrity_tick_settled: "settled key s \<Longrightarrow> integrity_tick env t s = (rs', w') \<Longrightarrow> settled key (rs', w')"
  using reportAll_settled [of key s env _ rs' w'] by (auto simp: integrity_tick_def split: if_splits)

lemma resume_none: "rs_resyncID rs = None \<Longrightarrow> resume rs = rs"
  by (simp add: resume_def)

lemma settled_buffered: "tracked key s \<Longrightarrow> rc_Buffered (rs_rc (fst s)) \<and> rs_resyncID (fst s) = None"
  by (auto simp: tracked_def log_inv_def Let_def split: prod.splits)

lemma enable_settled:
  assumes "settled key s" "enable env (Some c) s = (rs', w')"
  shows "settled key (rs', w')"
proof -
  obtain rs w where s: "s = (rs, w)" by force
  define r0 where "r0 = rs\<lparr>rs_enabled := True, rs_conn := Some c\<rparr>"
  have t0: "tracked key (r0, w)" "rs_conn r0 = Some c" "rs_enabled r0"
    using assms(1) tracked_frame [of key rs w r0 w] by (simp_all add: settled_def s r0_def kept_def quiet_def rs_key_def)
  obtain r1 w1 where 1: "(if rs_owner r0 \<noteq> Some c then take_block env (Some c) (r0, w) else (r0, w)) = (r1, w1)" by force
  then have t1: "tracked key (r1, w1)" "rs_conn r1 = Some c" "rs_enabled r1"
    using t0 take_block_frame [of env "Some c" r0 w r1 w1] tracked_frame [OF t0(1)] by (auto split: if_splits)
  obtain r2 w2 where 2: "setSqNum 0 (r1, w1) = (r2, w2)" by force
  then have t2: "tracked key (stopIntegrity r2, w2)" "rs_conn (stopIntegrity r2) = Some c" "rs_enabled (stopIntegrity r2)"
    using t1 setSqNum_frame [OF 2] tracked_frame [OF t1(1), of "stopIntegrity r2" w2] by (auto simp: kept_def stopIntegrity_def rs_key_def)
  note b = settled_buffered [OF t2(1), simplified]
  obtain r3 w3 where 3: "transmitBuffered env (stopIntegrity r2, w2) = (r3, w3)" by force
  have t3: "settled key (r3, w3)" using transmitBuffered_tracked [OF t2(1) _ 3] t2 by (auto simp: settled_def)
  have "(rs', w') = (if attr_millis (rp_m w3) r3 ''IntgPd'' > 0 \<and> rs_trgOps (rp_m w3) r3 AND TrgIntegrity \<noteq> 0
        then (let (t, w) = next_call w3 in (r3\<lparr>rs_intgStop := Some t\<rparr>, w)) else (r3, w3))"
    using assms(2) b unfolding enable_def s
    by (simp only: prod.case Let_def r0_def [symmetric] 1 2 3 resume_none if_True simp_thms)
  then have "kept r3 rs' \<and> quiet w3 w' \<and> rs_conn rs' = rs_conn r3 \<and> rs_enabled rs' = rs_enabled r3"
    by (auto simp: next_call_def kept_def quiet_def rs_key_def split: if_splits)
  then show ?thesis using settled_frame [OF t3] by blast
qed

lemma disable_settled:
  assumes "settled key s" "disable env s = (rs', w')"
  shows "settled key (rs', w')"
proof -
  obtain r1 w1 where f: "flushPending env s = (r1, w1)" by force
  note 1 = flushPending_settled [OF assms(1) f]
  let ?r = "stopIntegrity (r1\<lparr>rs_enabled := False, rs_conn := None\<rparr>)"
  have 2: "settled key (?r, w1)" using 1 tracked_frame [of key r1 w1 ?r w1]
    by (auto simp: settled_def kept_def quiet_def rs_key_def stopIntegrity_def)
  then have "release env (?r, w1) = (rs', w')" using assms(2) settled_buffered [of key "(?r, w1)"] by (simp add: disable_def f Let_def settled_def)
  from release_frame [OF this] settled_frame [OF 2] show ?thesis by blast
qed

section \<open>Runs of a block\<close>

text \<open>What may happen to a block: a client writes an attribute, data change, a timer or an integrity period fires,
  an association ends, or other parts of the server go on with what is shared.\<close>

datatype rcb_op =
    WriteAttr string Value nat
  | Change "(change \<times> TrgOps) list"
  | PendTimer nat
  | IntgTick nat
  | ResvTimer nat
  | Disconnect nat
  | Others IEDModel "64 word" nat "transmission list" "(string \<times> reportEntry) list"

fun run_op :: "rpt_env \<Rightarrow> rcb_op \<Rightarrow> rcbState \<times> rpt \<Rightarrow> rcbState \<times> rpt" where
  "run_op env (WriteAttr attr v c) s =
     (if check_block env (rp_m (snd s)) attr v (Some c) (fst s) = None then write_block env attr v (Some c) s else s)"
| "run_op env (Change changes) s = update_block env changes s"
| "run_op env (PendTimer t) s = pend_expires env t s"
| "run_op env (IntgTick t) s = integrity_tick env t s"
| "run_op env (ResvTimer t) s = resv_expires env t s"
| "run_op env (Disconnect c) s = disconnect_block env c s"
| "run_op env (Others m n k ts es) s =
     (fst s, (snd s)\<lparr>rp_m := m, rp_counter := n, rp_calls := k, rp_sent := rp_sent (snd s) @ filter (\<lambda>t. tr_key t \<noteq> rs_key (fst s)) ts,
        rp_committed := rp_committed (snd s) @ filter (\<lambda>p. fst p \<noteq> rs_key (fst s)) es\<rparr>)"

text \<open>A client that moves the delivery point or empties the buffer asks for a new delivery.\<close>

fun repositions :: "rcb_op \<Rightarrow> bool" where
  "repositions (WriteAttr attr v c) = (attr = ''EntryID'' \<or> attr = ''PurgeBuf'' \<or> attr = ''DatSet'')"
| "repositions _ = False"

lemma write_block_settled:
  assumes "settled key s" "write_block env attr v (Some c) s = (rs', w')" "attr \<noteq> ''EntryID''" "attr \<noteq> ''PurgeBuf''" "attr \<noteq> ''DatSet''"
  shows "settled key (rs', w')"
proof -
  obtain rs w where s: "s = (rs, w)" by force
  have tb: "settled key (take_block env (Some c) s)" "settled key (release env s)"
    using take_block_frame [of env "Some c" rs w] release_frame [of env rs w] settled_frame [OF assms(1) [unfolded s]]
    by (cases "take_block env (Some c) s"; cases "release env s"; auto simp: s)+
  obtain r1 w1 where o: "(if rs_owner (fst s) = None then take_block env (Some c) s else s) = (r1, w1)" by force
  then have o1: "settled key (r1, w1)" using tb(1) assms(1) by (auto split: if_splits)
  have stop: "settled key (stopResvTimer r1, w1)"
    by (rule settled_frame [OF o1]) (simp_all add: kept_def quiet_def rs_key_def stopResvTimer_def)
  obtain r2 w2 where g: "(if value_Bool v \<and> rs_trgOps (rp_m w1) r1 AND TrgGI \<noteq> 0 then reportAll env ReasonGI (r1, w1) else (r1, w1)) = (r2, w2)" by force
  then have "settled key (r2, w2)" using o1 reportAll_settled [OF o1, of env ReasonGI r2 w2] by (auto split: if_splits)
  then have gi: "settled key (r2, w2\<lparr>rp_m := m\<rparr>)" for m by (rule settled_frame) (simp_all add: kept_def quiet_def)
  show ?thesis
    using assms(2-5) tb o1 stop gi enable_settled [OF o1, of env c rs' w'] disable_settled [OF o1, of env rs' w']
    unfolding write_block_def Let_def o prod.case g by (auto split: if_splits)
qed

lemma disconnect_block_settled: "settled key s \<Longrightarrow> disconnect_block env c s = (rs', w') \<Longrightarrow> settled key (rs', w')"
proof -
  assume a: "settled key s" "disconnect_block env c s = (rs', w')"
  obtain r1 w1 where d: "(if rs_conn (fst s) = Some c then disable env s else s) = (r1, w1)" by force
  then have 1: "settled key (r1, w1)" using a(1) disable_settled [OF a(1), of env r1 w1] by (auto split: if_splits)
  show ?thesis using a(2) 1 release_frame [of env r1 w1 rs' w'] settled_frame [OF 1, of rs' w'] d
    by (auto simp: disconnect_block_def Let_def split: if_splits)
qed

lemma run_op_settled:
  assumes "settled key s" "\<not> repositions op" shows "settled key (run_op env op s)"
proof (cases op)
  case (WriteAttr attr v c)
  then show ?thesis using assms write_block_settled [OF assms(1), of env attr v c] by (cases "write_block env attr v (Some c) s") auto
next
  case (Change cs)
  then show ?thesis using update_block_settled [OF assms(1), of env cs] by (cases "update_block env cs s") auto
next
  case (PendTimer t)
  then show ?thesis using pend_expires_settled [OF assms(1), of env t] by (cases "pend_expires env t s") auto
next
  case (IntgTick t)
  then show ?thesis using integrity_tick_settled [OF assms(1), of env t] by (cases "integrity_tick env t s") auto
next
  case (ResvTimer t)
  then show ?thesis using assms(1) resv_expires_frame [of env t "fst s" "snd s"] settled_frame [of key "fst s" "snd s"]
    by (cases "resv_expires env t s") auto
next
  case (Disconnect c)
  then show ?thesis using disconnect_block_settled [OF assms(1), of env c] by (cases "disconnect_block env c s") auto
next
  case (Others m n k ts es)
  have "filter (\<lambda>t. tr_key t = key \<and> tr_key t \<noteq> key) ts = []" "filter (\<lambda>p. fst p = key \<and> fst p \<noteq> key) es = []" by simp_all
  then show ?thesis using assms(1) Others by (auto simp: settled_def tracked_def own_def committed_def)
qed

lemma fold_settled: "settled key s \<Longrightarrow> list_all (\<lambda>op. \<not> repositions op) ops \<Longrightarrow> settled key (fold (run_op env) ops s)"
  by (induction ops arbitrary: s) (simp_all add: run_op_settled)


section \<open>Properties\<close>

text \<open>(C7) Nothing a buffered block commits is lost silently, as long as no client repositions its buffer. Whatever happens to a fresh
  block, in any order, short of a write of EntryID (which asks to resume elsewhere), PurgeBuf or DatSet (which discard the buffer at the
  client's wish): the reports delivered are entries of its log in the order they were committed, none twice; a report carries BufOvfl exactly
  when an entry before it was passed over or the report before it was not taken by the connection; the buffer holds the latest entries, up
  to its depth; and while the block is enabled nothing committed waits to be sent.\<close>

theorem buffered_delivery:
  assumes "rc_Buffered (rs_rc rs)" "0 < rs_maxBuffer rs" "rs_buffer rs = []" "rs_next rs = 0" "\<not> rs_bufOverflow rs" "rs_resyncID rs = None"
    "\<not> rs_enabled rs" "rs_conn rs = None" "own (rs_key rs) w = []" "committed (rs_key rs) w = []"
    "list_all (\<lambda>op. \<not> repositions op) ops" "fold (run_op env) ops (rs, w) = (rs', w')"
  shows "\<exists>ps. map tr_entry (own (rs_key rs) w') = map (nth (committed (rs_key rs) w')) ps
    \<and> gap_marked 0 True ps (own (rs_key rs) w')
    \<and> rs_buffer rs' = drop (length (committed (rs_key rs) w') - rs_maxBuffer rs') (committed (rs_key rs) w')
    \<and> (rs_enabled rs' \<longrightarrow> fst (expected 0 True ps (own (rs_key rs) w')) = length (committed (rs_key rs) w'))"
proof -
  have "settled (rs_key rs) (rs, w)" using assms(1-10) by (auto simp: settled_def tracked_def log_inv_def intro!: exI [of _ "[]"])
  from fold_settled [OF this assms(11), of env] assms(12) have st: "settled (rs_key rs) (rs', w')" by simp
  then obtain ps where inv: "log_inv (committed (rs_key rs) w') (own (rs_key rs) w') ps rs'" by (auto simp: settled_def tracked_def)
  have "fst (expected 0 True ps (own (rs_key rs) w')) = length (committed (rs_key rs) w')" if "rs_enabled rs'"
    using inv st that by (auto simp: settled_def log_inv_def Let_def split: prod.splits)
  then show ?thesis using inv by (intro exI [of _ ps]) (auto simp: log_inv_def Let_def split: prod.splits)
qed


definition ex_rc :: ReportControl where
  "ex_rc = \<lparr>rc_Name = ''brcb'', rc_RptID = [], rc_DataSet = ''Meas'', rc_ConfRev = 1, rc_Buffered = True, rc_BufTime = 0, rc_TrgOps = 2, rc_OptFlds = 0,
     rc_IntgPd = 0, rc_RptEnabled = 1, rc_NotIndexed = False, rc_MaxQueueSize = 2, rc_Reservations = []\<rparr>"

definition ex_rcb :: rcbState where "ex_rcb = new_rcb ''LD1'' ''LLN0'' ex_rc ''brcb01'' 0"

definition ex_rpt :: rpt where
  "ex_rpt = \<lparr>rp_m = \<lparr>m_Name = [], m_Devices = [], m_SettingGroups = []\<rparr>, rp_counter = 0, rp_calls = 0, rp_sent = [], rp_committed = []\<rparr>"

definition ex_rpt_env :: rpt_env where
  "ex_rpt_env = \<lparr>re_ip = (\<lambda>c. [10, 0, 0, word_of_nat c]), re_maxPDU = (\<lambda>_. 65000), re_fails = (\<lambda>_. False),
     re_clock = (\<lambda>k. \<lparr>t_Unix = 1700000000 + int k, t_Nanosecond = 0\<rparr>), re_seed = 1700000000, re_String = (\<lambda>_. [])\<rparr>"

lemma ex_rcb_simps [simp]:
  "rc_Buffered (rs_rc ex_rcb)" "rs_maxBuffer ex_rcb = 2" "rs_buffer ex_rcb = []" "rs_next ex_rcb = 0" "\<not> rs_bufOverflow ex_rcb"
  "rs_resyncID ex_rcb = None" "\<not> rs_enabled ex_rcb" "rs_conn ex_rcb = None"
  by (simp_all add: ex_rcb_def new_rcb_def ex_rc_def bufferDepth_def)

definition ex_rpt_model :: IEDModel where
  "ex_rpt_model = \<lparr>m_Name = [], m_Devices = [\<lparr>ld_Name = ''LD1'', ld_Inst = [], ld_Nodes =
     [(plain_node ''LLN0'' [DataObject ''brcb01'' [] [] [plain_attr fc_BR ''DatSet'' (NewVisibleString (octets_of ''LD1/LLN0$Meas'')),
           plain_attr fc_BR ''TrgOps'' (Value TypeBitString 0 0 [0x40] 6 [])]])
        \<lparr>ln_DataSets := [\<lparr>ds_Name = ''Meas'', ds_Entries = [\<lparr>fcda_Ref = ''LD1/GGIO1.Ind1.stVal'', fcda_FC = fc_ST, fcda_FCName = []\<rparr>], ds_Deletable = False\<rparr>]\<rparr>,
      plain_node ''GGIO1'' [DataObject ''Ind1'' [] [] [DataAttribute ''stVal'' fc_ST [] TypeBoolean [] 0 [] (NewBool True) 2]]]\<rparr>], m_SettingGroups = []\<rparr>"

lemma ex_rpt_paths:
  "ref_Path ''LD1/LLN0.brcb01.DatSet'' = [''LLN0'', ''brcb01'', ''DatSet'']" "ref_LD ''LD1/LLN0.brcb01.DatSet'' = ''LD1''"
  "ref_Path ''LD1/LLN0.brcb01.TrgOps'' = [''LLN0'', ''brcb01'', ''TrgOps'']" "ref_LD ''LD1/LLN0.brcb01.TrgOps'' = ''LD1''"
  "ref_Path ''LD1/LLN0.brcb01.BufTm'' = [''LLN0'', ''brcb01'', ''BufTm'']" "ref_LD ''LD1/LLN0.brcb01.BufTm'' = ''LD1''"
  "ToMMS ''LD1/GGIO1.Ind1.stVal'' fc_ST = (''LD1'', ''GGIO1$ST$Ind1$stVal'')"
  "cut (CHR ''/'') ''LD1/LLN0$Meas'' = (''LD1'', ''LLN0$Meas'', True)" "cut (CHR ''$'') ''LLN0$Meas'' = (''LLN0'', ''Meas'', True)"
  "cut (CHR ''$'') ''GGIO1$ST$Ind1$stVal'' = (''GGIO1'', ''ST$Ind1$stVal'', True)"
  "split_on (CHR ''$'') ''GGIO1$ST$Ind1$stVal'' = [''GGIO1'', ''ST'', ''Ind1'', ''stVal'']" "ParseFCLenient ''ST'' = fc_ST"
  by code_simp+

lemmas ex_model_simps = ex_rpt_paths ref_Child_def Attribute_def Lookup_def Device_def ex_rpt_model_def ld_Node_def plain_node_def ln_Object_def
  do_lookup_def do_Child_def plain_attr_def fc_match_def ln_DataSet_def node_of_def

lemma ex_rcb_ref: "rs_ref ex_rcb = ''LD1/LLN0.brcb01''" "rs_fc ex_rcb = fc_BR" "rs_pending ex_rcb = None"
  by (simp_all add: ex_rcb_def new_rcb_def rs_fc_def ex_rc_def ref_Child_def)

lemma ex_rcb_attrs:
  "rcb_attr ex_rpt_model ex_rcb ''DatSet'' = NewVisibleString (octets_of ''LD1/LLN0$Meas'')"
  "rcb_attr ex_rpt_model ex_rcb ''TrgOps'' = Value TypeBitString 0 0 [0x40] 6 []" "rcb_attr ex_rpt_model ex_rcb ''BufTm'' = NilValue"
  by (simp_all add: rcb_attr_def ex_rcb_ref ex_model_simps)

lemma ex_rcb_members: "rcb_members ex_rpt_env ex_rpt_model ex_rcb = [(''LD1'', ''GGIO1$ST$Ind1$stVal'')]"
proof -
  have "attrText ex_rpt_env ex_rpt_model ex_rcb ''DatSet'' = ''LD1/LLN0$Meas''"
    by (simp add: attrText_def ex_rcb_attrs env_Text_def NewVisibleString_def)
  then show ?thesis by (simp add: rcb_members_def resolveDataSet_def datasetMembers_def ex_model_simps)
qed

lemma ex_item_value: "itemValue ex_rpt_model ''LD1'' ''GGIO1$ST$Ind1$stVal'' = NewBool True"
  by (simp add: itemValue_def splitLN_def resolveReadErr_def findAttr_def daValue.simps ex_model_simps) (simp add: NewBool_def)

lemma ex_trgOps: "rs_trgOps ex_rpt_model ex_rcb = 2" unfolding rs_trgOps_def ex_rcb_attrs by code_simp

text \<open>A change of the member of the data set while the block is disabled is buffered.\<close>

definition ex_changes :: "(change \<times> TrgOps) list" where
  "ex_changes = [((''LD1/GGIO1.Ind1.stVal'', fc_ST), 2)]"

definition ex_waiting :: "reportEntry list \<Rightarrow> bool \<Rightarrow> rcbState" where
  "ex_waiting b lost = ex_rcb\<lparr>rs_buffer := b, rs_bufOverflow := lost\<rparr>"

lemma ex_waiting_sel [simp]:
  "rs_ref (ex_waiting b lost) = rs_ref ex_rcb" "rs_fc (ex_waiting b lost) = rs_fc ex_rcb" "rs_rc (ex_waiting b lost) = rs_rc ex_rcb"
  "rs_buffer (ex_waiting b lost) = b" "rs_next (ex_waiting b lost) = 0" "rs_enabled (ex_waiting b lost) = False" "rs_maxBuffer (ex_waiting b lost) = 2"
  "rs_key (ex_waiting b lost) = rs_key ex_rcb" "rs_resyncID (ex_waiting b lost) = None" "rs_bufOverflow (ex_waiting b lost) = lost"
  "rs_owner (ex_waiting b lost) = None" "rs_resvIP (ex_waiting b lost) = rs_resvIP ex_rcb" "rs_resvCfg (ex_waiting b lost) = rs_resvCfg ex_rcb"
  by (simp_all add: ex_waiting_def rs_fc_def rs_key_def) (simp add: ex_rcb_def new_rcb_def)

lemma ex_waiting_attr [simp]: "rcb_attr m (ex_waiting b lost) n = rcb_attr m ex_rcb n"
  by (simp add: rcb_attr_def)

lemma ex_waiting_members: "rcb_members ex_rpt_env ex_rpt_model (ex_waiting b lost) = [(''LD1'', ''GGIO1$ST$Ind1$stVal'')]"
  using ex_rcb_members by (simp add: rcb_members_def attrText_def)

lemma ex_no_entry_attrs:
  "setAttr (ex_waiting b lost) ''EntryID'' v ex_rpt_model = ex_rpt_model" "setAttr (ex_waiting b lost) ''TimeofEntry'' v ex_rpt_model = ex_rpt_model"
proof -
  have "ref_Path ''LD1/LLN0.brcb01.EntryID'' = [''LLN0'', ''brcb01'', ''EntryID'']" "ref_LD ''LD1/LLN0.brcb01.EntryID'' = ''LD1''"
    "ref_Path ''LD1/LLN0.brcb01.TimeofEntry'' = [''LLN0'', ''brcb01'', ''TimeofEntry'']" "ref_LD ''LD1/LLN0.brcb01.TimeofEntry'' = ''LD1''" by code_simp+
  then show "setAttr (ex_waiting b lost) ''EntryID'' v ex_rpt_model = ex_rpt_model" "setAttr (ex_waiting b lost) ''TimeofEntry'' v ex_rpt_model = ex_rpt_model"
    by (simp_all add: setAttr_def ex_rcb_ref ref_Child_def Attribute_set_def ld_update_def ln_update_def ex_rpt_model_def plain_node_def plain_attr_def do_Child_def)
qed

lemma ex_reason: "memberReason ex_changes (''LD1'', ''GGIO1$ST$Ind1$stVal'') AND (rs_trgOps ex_rpt_model (ex_waiting b lost) AND (TrgDataChange OR TrgQualityChange OR TrgDataUpdate)) = 2"
proof -
  have "memberReason ex_changes (''LD1'', ''GGIO1$ST$Ind1$stVal'') = 2" by code_simp
  moreover have "rs_trgOps ex_rpt_model (ex_waiting b lost) = 2" using ex_trgOps by (simp add: rs_trgOps_def)
  ultimately show ?thesis by (simp add: TrgDataChange_def TrgQualityChange_def TrgDataUpdate_def)
qed

lemma ex_collect: "e_members (collect ex_rpt_model (\<lambda>mb. memberReason ex_changes mb AND (rs_trgOps ex_rpt_model (ex_waiting b lost) AND (TrgDataChange OR TrgQualityChange OR TrgDataUpdate)))
    [(''LD1'', ''GGIO1$ST$Ind1$stVal'')]) = [0]"
  unfolding collect_def using ex_reason [of b lost] ex_item_value by (simp add: Let_def map_filter_simps) (simp add: NewBool_def)

lemma ex_change:
  assumes "rp_m w = ex_rpt_model" "length b \<le> 2"
  shows "\<exists>e w'. update_block ex_rpt_env ex_changes (ex_waiting b lost, w) = (ex_waiting (drop (length b - 1) (b @ [e])) (lost \<or> length b = 2), w')
    \<and> rp_m w' = ex_rpt_model \<and> rp_committed w' = rp_committed w @ [(rs_key ex_rcb, e)] \<and> rp_sent w' = rp_sent w"
proof -
  define e0 where "e0 = collect ex_rpt_model (\<lambda>mb. memberReason ex_changes mb AND (rs_trgOps ex_rpt_model (ex_waiting b lost) AND (TrgDataChange OR TrgQualityChange OR TrgDataUpdate)))
    [(''LD1'', ''GGIO1$ST$Ind1$stVal'')]"
  have m: "attr_millis ex_rpt_model (ex_waiting b lost) ''BufTm'' = 0" by (simp add: attr_millis_def attrUint_def ex_rcb_attrs value_Uint64_def uint64_of_def)
  have t: "trim (ex_waiting (b @ [e]) lost) = ex_waiting (drop (length b - 1) (b @ [e])) (lost \<or> length b = 2)" for e
  proof (cases "length b = 2")
    case True
    then have "trim (ex_waiting (b @ [e]) lost) = trim (ex_waiting (tl (b @ [e])) True)" by (subst trim.simps) (simp add: ex_waiting_def)
    also have "\<dots> = ex_waiting (tl (b @ [e])) True" using True by (intro trim_within) simp
    finally show ?thesis using True by (cases b) auto
  next
    case False
    then show ?thesis using assms(2) trim_within [of "ex_waiting (b @ [e]) lost"] by simp
  qed
  have w: "(ex_waiting b lost)\<lparr>rs_buffer := x\<rparr> = ex_waiting x lost" for x by (simp add: ex_waiting_def)
  obtain k w1 where k: "next_call w = (k, w1)" by force
  obtain i w2 where i: "nextEntryID ex_rpt_env w1 = (i, w2)" by force
  have w2: "rp_m w2 = ex_rpt_model" "rp_committed w2 = rp_committed w" "rp_sent w2 = rp_sent w" "k = rp_calls w"
    using k i assms(1) by (auto simp: next_call_def nextEntryID_def Let_def)
  have "e_members e0 \<noteq> []" using ex_collect [of b lost] by (simp add: e0_def)
  then have up: "update_block ex_rpt_env ex_changes (ex_waiting b lost, w) = emit ex_rpt_env e0 (ex_waiting b lost, w)"
    using m by (simp add: update_block_def event_def Let_def assms(1) ex_waiting_members e0_def [symmetric])
  define e where "e = e0\<lparr>e_time := re_clock ex_rpt_env k, e_id := i\<rparr>"
  have "emit ex_rpt_env e0 (ex_waiting b lost, w) = (ex_waiting (drop (length b - 1) (b @ [e])) (lost \<or> length b = 2), w2\<lparr>rp_committed := rp_committed w @ [(rs_key ex_rcb, e)]\<rparr>)"
    using t [of e, unfolded e_def] w2 unfolding e_def by (cases w2) (simp add: emit_def k i w Let_def ex_no_entry_attrs)
  then show ?thesis using up w2 by (intro exI [of _ e]) auto
qed


text \<open>Enabling a block sends what waits in its buffer.\<close>

lemma transmitBuffered_sends:
  assumes "rs_conn (fst s) \<noteq> None" "transmitBuffered env s = (rs', w')"
  shows "rp_committed w' = rp_committed (snd s) \<and> rs_enabled rs' = rs_enabled (fst s) \<and> rs_key rs' = rs_key (fst s)
    \<and> length (own (rs_key (fst s)) w') = length (own (rs_key (fst s)) (snd s)) + (length (rs_buffer (fst s)) - rs_next (fst s))"
  using assms
proof (induction env s arbitrary: rs' w' rule: transmitBuffered.induct)
  case (1 env s)
  obtain rs w where s: "s = (rs, w)" by force
  show ?case
  proof (cases "rs_next rs < length (rs_buffer rs)")
    case True
    obtain c where c: "rs_conn rs = Some c" using "1.prems"(1) s by auto
    obtain r1 w1 where t: "transmit env (rs_buffer rs ! rs_next rs) (rs, w) = (r1, w1)" by force
    obtain x where x: "rp_sent w1 = rp_sent w @ [x]" "tr_key x = rs_key rs" "rp_committed w1 = rp_committed w" "rs_buffer r1 = rs_buffer rs"
      "rs_next r1 = rs_next rs" "rs_key r1 = rs_key rs" "rs_conn r1 = rs_conn rs" "rs_enabled r1 = rs_enabled rs"
      using transmit_effect [OF t c] by metis
    let ?r = "r1\<lparr>rs_next := rs_next r1 + 1\<rparr>"
    have tb: "transmitBuffered env (?r, w1) = (rs', w')"
      using "1.prems"(2) True t by (subst (asm) transmitBuffered.simps) (simp add: s)
    have k: "rs_key ?r = rs_key rs" using x(6) by (simp add: rs_key_def)
    have "rs_conn (fst (?r, w1)) \<noteq> None" using x c by simp
    from "1.IH" [OF _ _ this tb] True t s have ih: "rp_committed w' = rp_committed w1 \<and> rs_enabled rs' = rs_enabled r1 \<and> rs_key rs' = rs_key rs
        \<and> length (own (rs_key rs) w') = length (own (rs_key rs) w1) + (length (rs_buffer r1) - Suc (rs_next r1))"
      by (simp add: k [unfolded Suc_eq_plus1 [symmetric]])
    have "length (own (rs_key rs) w1) = Suc (length (own (rs_key rs) w))" by (simp add: own_def x(1,2))
    then show ?thesis using ih True x(3-5,8) by (simp add: s)
  next
    case False
    then have "(rs', w') = (rs, w)" using "1.prems"(2) by (subst (asm) transmitBuffered.simps) (simp add: s)
    then show ?thesis using False s by simp
  qed
qed

lemma enable_sends:
  assumes "rc_Buffered (rs_rc rs)" "rs_resyncID rs = None" "enable env (Some c) (rs, w) = (rs', w')"
  shows "rp_committed w' = rp_committed w \<and> rs_enabled rs' \<and> rs_key rs' = rs_key rs \<and> length (own (rs_key rs) w') = length (own (rs_key rs) w) + (length (rs_buffer rs) - rs_next rs)"
proof -
  define r0 where "r0 = rs\<lparr>rs_enabled := True, rs_conn := Some c\<rparr>"
  obtain r1 w1 where 1: "(if rs_owner r0 \<noteq> Some c then take_block env (Some c) (r0, w) else (r0, w)) = (r1, w1)" by force
  have k1: "kept r0 r1 \<and> quiet w w1 \<and> rs_conn r1 = Some c \<and> rs_enabled r1"
    using 1 take_block_frame [of env "Some c" r0 w r1 w1] by (auto simp: r0_def kept_def quiet_def split: if_splits)
  obtain r2 w2 where 2: "setSqNum 0 (r1, w1) = (r2, w2)" by force
  note k2 = setSqNum_frame [OF 2]
  define r3 where "r3 = stopIntegrity r2"
  have k3: "kept rs r3" "quiet w w2" "rs_conn r3 = Some c" "rs_enabled r3"
    using k1 k2 by (auto simp: r3_def r0_def stopIntegrity_def kept_def quiet_def rs_key_def)
  obtain r4 w4 where 4: "transmitBuffered env (r3, w2) = (r4, w4)" by force
  have "(rs', w') = (if attr_millis (rp_m w4) r4 ''IntgPd'' > 0 \<and> rs_trgOps (rp_m w4) r4 AND TrgIntegrity \<noteq> 0
        then (let (t, w) = next_call w4 in (r4\<lparr>rs_intgStop := Some t\<rparr>, w)) else (r4, w4))"
    using assms k3(1) resume_none [of r3] 4 unfolding assms(3) [symmetric] enable_def
    by (simp only: prod.case Let_def r0_def [symmetric] 1 2 r3_def [symmetric] kept_def if_True)
  then have "rp_committed w' = rp_committed w4 \<and> rp_sent w' = rp_sent w4 \<and> rs_enabled rs' = rs_enabled r4 \<and> rs_key rs' = rs_key r4"
    by (auto simp: next_call_def rs_key_def split: if_splits)
  moreover note transmitBuffered_sends [OF _ 4, simplified]
  ultimately show ?thesis using k3 quiet_own [OF k3(2), of "rs_key rs"] by (auto simp: kept_def quiet_def own_def)
qed

text \<open>Three changes in a buffer of two, and a client that enables the block: it is sent the last two entries, and told of the loss.\<close>

lemma ex_enable:
  assumes "rp_m w = ex_rpt_model" "run_op ex_rpt_env (WriteAttr ''RptEna'' (NewBool True) 1) (ex_waiting b lost, w) = (rs', w')"
  shows "rp_committed w' = rp_committed w \<and> rs_enabled rs' \<and> length (own (rs_key ex_rcb) w') = length (own (rs_key ex_rcb) w) + length b"
proof -
  have d: "resolveDataSet ex_rpt_model (attrText ex_rpt_env ex_rpt_model (ex_waiting b lost) ''DatSet'') \<noteq> None"
  proof -
    have "attrText ex_rpt_env ex_rpt_model (ex_waiting b lost) ''DatSet'' = ''LD1/LLN0$Meas''"
      by (simp add: attrText_def ex_rcb_attrs env_Text_def NewVisibleString_def)
    then show ?thesis by (simp add: resolveDataSet_def ex_model_simps)
  qed
  have "check_block ex_rpt_env ex_rpt_model ''RptEna'' (NewBool True) (Some 1) (ex_waiting b lost) = None"
  proof -
    have "allowed ex_rpt_env (Some 1) (ex_waiting b lost)" by (simp add: allowed_def) (simp add: ex_rcb_def new_rcb_def ex_rc_def)
    then show ?thesis using d by (simp add: check_block_def rcbReadOnly_def)
  qed
  then have wb: "write_block ex_rpt_env ''RptEna'' (NewBool True) (Some 1) (ex_waiting b lost, w) = (rs', w')" using assms by simp
  obtain r1 w1 where t: "take_block ex_rpt_env (Some 1) (ex_waiting b lost, w) = (r1, w1)" by force
  have "enable ex_rpt_env (Some 1) (r1, w1) = (rs', w')" using wb t by (simp add: write_block_def NewBool_def)
  moreover have k: "kept (ex_waiting b lost) r1 \<and> quiet w w1" using take_block_frame [OF t] by simp
  ultimately show ?thesis
    using enable_sends [of r1 ex_rpt_env 1 w1 rs' w'] quiet_own [of w w1 "rs_key ex_rcb"] by (simp add: kept_def quiet_def)
qed

theorem buffered_delivery_witness:
  "\<exists>rs' w' ps. fold (run_op ex_rpt_env) [Change ex_changes, Change ex_changes, Change ex_changes, WriteAttr ''RptEna'' (NewBool True) 1]
      (ex_rcb, ex_rpt\<lparr>rp_m := ex_rpt_model\<rparr>) = (rs', w')
    \<and> length (committed (rs_key ex_rcb) w') = 3 \<and> length (own (rs_key ex_rcb) w') = 2 \<and> (\<exists>t \<in> set (own (rs_key ex_rcb) w'). tr_ovfl t)
    \<and> map tr_entry (own (rs_key ex_rcb) w') = map (nth (committed (rs_key ex_rcb) w')) ps \<and> gap_marked 0 True ps (own (rs_key ex_rcb) w')"
proof -
  let ?w = "ex_rpt\<lparr>rp_m := ex_rpt_model\<rparr>"
  let ?ops = "[Change ex_changes, Change ex_changes, Change ex_changes, WriteAttr ''RptEna'' (NewBool True) 1]"
  have 0: "ex_rcb = ex_waiting [] False" by (simp add: ex_waiting_def ex_rcb_def new_rcb_def)
  obtain e1 w1 where 1: "update_block ex_rpt_env ex_changes (ex_waiting [] False, ?w) = (ex_waiting [e1] False, w1)" "rp_m w1 = ex_rpt_model"
    "rp_committed w1 = [(rs_key ex_rcb, e1)]" "rp_sent w1 = []" using ex_change [of ?w "[]" False] by (auto simp: ex_rpt_def)
  obtain e2 w2 where 2: "update_block ex_rpt_env ex_changes (ex_waiting [e1] False, w1) = (ex_waiting [e1, e2] False, w2)" "rp_m w2 = ex_rpt_model"
    "rp_committed w2 = [(rs_key ex_rcb, e1), (rs_key ex_rcb, e2)]" "rp_sent w2 = []" using ex_change [OF 1(2), of "[e1]" False] 1 by auto
  obtain e3 w3 where 3: "update_block ex_rpt_env ex_changes (ex_waiting [e1, e2] False, w2) = (ex_waiting [e2, e3] True, w3)" "rp_m w3 = ex_rpt_model"
    "rp_committed w3 = [(rs_key ex_rcb, e1), (rs_key ex_rcb, e2), (rs_key ex_rcb, e3)]" "rp_sent w3 = []"
    using ex_change [OF 2(2), of "[e1, e2]" False] 2 by auto
  obtain rs' w' where e: "run_op ex_rpt_env (WriteAttr ''RptEna'' (NewBool True) 1) (ex_waiting [e2, e3] True, w3) = (rs', w')" by force
  note en = ex_enable [OF 3(2) e]
  have r: "fold (run_op ex_rpt_env) ?ops (ex_rcb, ?w) = (rs', w')" unfolding 0 using 1(1) 2(1) 3(1) e by (simp del: run_op.simps(1))
  have n: "length (committed (rs_key ex_rcb) w') = 3" "length (own (rs_key ex_rcb) w') = 2"
    using en 3 by (simp_all add: committed_def own_def)
  have "own (rs_key ex_rcb) ?w = []" "committed (rs_key ex_rcb) ?w = []" by (simp_all add: own_def committed_def ex_rpt_def)
  from buffered_delivery [OF _ _ _ _ _ _ _ _ this _ r]
  obtain ps where ps: "map tr_entry (own (rs_key ex_rcb) w') = map (nth (committed (rs_key ex_rcb) w')) ps" "gap_marked 0 True ps (own (rs_key ex_rcb) w')"
    "fst (expected 0 True ps (own (rs_key ex_rcb) w')) = 3" using en n by auto
  obtain t1 t2 where t: "own (rs_key ex_rcb) w' = [t1, t2]" using n(2) by (cases "own (rs_key ex_rcb) w'" rule: remdups_adj.cases) auto
  obtain i1 i2 where i: "ps = [i1, i2]" using ps(1) unfolding t by (cases ps rule: remdups_adj.cases) auto
  have "tr_ovfl t1 \<or> tr_ovfl t2" using ps(2,3) unfolding t i by (auto simp: not_less)
  then show ?thesis using r n ps(1,2) t by (intro exI [of _ rs'] exI [of _ w'] exI [of _ ps]) auto
qed

end
