(* ===== verification/SrvRptSeq.thy ===== *)
theory SrvRptSeq
  imports SrvRptLog
begin

text \<open>
  Sequence numbers of reports: within one subscription they count from zero, without gaps, at the width of the
  block's SqNum.
\<close>

unbundle bit_operations_syntax

section \<open>Numbering\<close>

definition seq_width :: "rcbState \<Rightarrow> nat" where
  "seq_width rs = (if rc_Buffered (rs_rc rs) then 16 else 8)"

lemma seq_mask: "(x :: 32 word) AND (if rc_Buffered (rs_rc rs) then 0xffff else 0xff) = take_bit (seq_width rs) x"
proof -
  have "mask 16 = (0xffff :: 32 word)" "mask 8 = (0xff :: 32 word)" by (simp_all add: mask_eq_exp_minus_1)
  then have "x AND 0xffff = take_bit 16 x" "x AND 0xff = take_bit 8 x" by (simp_all only: take_bit_eq_mask)
  then show ?thesis by (simp add: seq_width_def)
qed

lemma take_bit_word_add: "take_bit n (take_bit n a + take_bit n b) = take_bit n (a + b :: 'a::len word)"
proof -
  have "uint (take_bit n (take_bit n a + take_bit n b)) = uint (take_bit n (a + b))"
    by (simp add: unsigned_take_bit_eq uint_word_arith_bintrs(1) take_bit_take_bit)
      (metis (no_types, opaque_lifting) take_bit_add take_bit_take_bit min.commute)
  then show ?thesis by (simp only: word_uint_eq_iff)
qed

text \<open>What happened between two states of a block: it sent the reports \<open>ts\<close> to its subscriber, numbered on.\<close>

definition numbered :: "string \<Rightarrow> transmission list \<Rightarrow> rcbState \<times> rpt \<Rightarrow> rcbState \<times> rpt \<Rightarrow> bool" where
  "numbered key ts s s' =
     (own key (snd s') = own key (snd s) @ ts
      \<and> (\<forall>k < length ts. take_bit (seq_width (fst s)) (tr_seq (ts ! k)) = take_bit (seq_width (fst s)) (rs_sqNum (fst s) + word_of_nat k)
           \<and> Some (tr_conn (ts ! k)) = rs_conn (fst s))
      \<and> take_bit (seq_width (fst s)) (rs_sqNum (fst s')) = take_bit (seq_width (fst s)) (rs_sqNum (fst s) + word_of_nat (length ts))
      \<and> (rs_key (fst s) = key \<longrightarrow> rs_key (fst s') = key) \<and> rs_rc (fst s') = rs_rc (fst s) \<and> (rs_conn (fst s') = rs_conn (fst s) \<or> rs_conn (fst s') = None))"

definition numbers :: "string \<Rightarrow> rcbState \<times> rpt \<Rightarrow> rcbState \<times> rpt \<Rightarrow> bool" where
  "numbers key s s' = (\<exists>ts. numbered key ts s s')"

lemma numbered_trans:
  assumes "numbered key ts s1 s2" "numbered key us s2 s3" shows "numbered key (ts @ us) s1 s3"
proof -
  let ?n = "seq_width (fst s1)" and ?q = "rs_sqNum (fst s1)" and ?r = "rs_sqNum (fst s2)"
  have w: "seq_width (fst s2) = ?n" using assms(1) by (simp add: numbered_def seq_width_def)
  have r: "take_bit ?n (?r + word_of_nat j) = take_bit ?n (?q + word_of_nat (length ts + j))" for j
  proof -
    have "take_bit ?n (?r + word_of_nat j) = take_bit ?n (take_bit ?n ?r + take_bit ?n (word_of_nat j))" by (rule take_bit_word_add [symmetric])
    also have "take_bit ?n ?r = take_bit ?n (?q + word_of_nat (length ts))" using assms(1) by (simp add: numbered_def)
    finally show ?thesis by (simp only: take_bit_word_add of_nat_add add.assoc)
  qed
  have "take_bit ?n (tr_seq ((ts @ us) ! k)) = take_bit ?n (?q + word_of_nat k) \<and> Some (tr_conn ((ts @ us) ! k)) = rs_conn (fst s1)"
    if k: "k < length (ts @ us)" for k
  proof (cases "k < length ts")
    case True
    then show ?thesis using assms(1) by (simp add: numbered_def nth_append)
  next
    case False
    then have "k - length ts < length us" using k by simp
    then have "take_bit ?n (tr_seq (us ! (k - length ts))) = take_bit ?n (?r + word_of_nat (k - length ts))
        \<and> Some (tr_conn (us ! (k - length ts))) = rs_conn (fst s2)"
      using assms(2) w by (simp add: numbered_def)
    moreover have "rs_conn (fst s2) = rs_conn (fst s1) \<or> rs_conn (fst s2) = None" using assms(1) by (simp add: numbered_def)
    ultimately show ?thesis using False r [of "k - length ts"] by (auto simp: nth_append)
  qed
  moreover have "take_bit ?n (rs_sqNum (fst s3)) = take_bit ?n (?q + word_of_nat (length (ts @ us)))"
    using assms(2) w r [of "length us"] by (simp add: numbered_def)
  ultimately show ?thesis using assms by (auto simp: numbered_def)
qed

lemma numbers_trans: "numbers key s1 s2 \<Longrightarrow> numbers key s2 s3 \<Longrightarrow> numbers key s1 s3"
  unfolding numbers_def using numbered_trans by blast

lemma numbers_same:
  assumes "rs_rc rs' = rs_rc rs" "rs_key rs' = rs_key rs" "quiet w w'" "rs_sqNum rs' = rs_sqNum rs" "rs_conn rs' = rs_conn rs \<or> rs_conn rs' = None"
  shows "numbers key (rs, w) (rs', w')"
  using assms quiet_own [OF assms(3), of key] by (auto simp: numbers_def numbered_def intro!: exI [of _ "[]"])

lemma numbers_refl [simp]: "numbers key s s"
  by (cases s) (auto intro: numbers_same simp: quiet_def)

section \<open>Operations\<close>

lemma transmit_numbers: "rs_key (fst s) = key \<Longrightarrow> numbers key s (transmit env e s)"
proof (cases "rs_conn (fst s)")
  case None
  then show ?thesis by (cases s) (simp add: transmit_def)
next
  case (Some c)
  assume key: "rs_key (fst s) = key"
  obtain rs w where s: "s = (rs, w)" by force
  obtain rs' w' where t: "transmit env e (rs, w) = (rs', w')" by force
  obtain x where x: "rp_sent w' = rp_sent w @ [x]" "tr_key x = rs_key rs" "tr_seq x = rs_sqNum rs" "tr_conn x = c"
    "rs_sqNum rs' = (rs_sqNum rs + 1) AND (if rc_Buffered (rs_rc rs) then 0xffff else 0xff)"
    "rs_rc rs' = rs_rc rs" "rs_key rs' = rs_key rs" "rs_conn rs' = rs_conn rs"
    using transmit_effect [OF t] Some s by (metis fst_conv)
  show ?thesis unfolding numbers_def s t
    using x Some s key unfolding seq_mask by (intro exI [of _ "[x]"]) (auto simp: numbered_def own_def)
qed

lemma transmit_key: "rs_key (fst (transmit env e s)) = rs_key (fst s)"
  by (cases s) (simp add: transmit_def setSqNum_def rs_key_def Let_def split: option.splits prod.splits)

lemma numbers_after:
  assumes "numbers key s (rs, w)" "rs_rc rs' = rs_rc rs" "rs_key rs' = rs_key rs" "quiet w w'" "rs_sqNum rs' = rs_sqNum rs" "rs_conn rs' = rs_conn rs \<or> rs_conn rs' = None"
  shows "numbers key s (rs', w')"
  using numbers_trans [OF assms(1) numbers_same [OF assms(2-6)]] .

lemma numbers_before:
  assumes "numbers key (rs', w') s" "rs_rc rs' = rs_rc rs" "rs_key rs' = rs_key rs" "quiet w w'" "rs_sqNum rs' = rs_sqNum rs" "rs_conn rs' = rs_conn rs \<or> rs_conn rs' = None"
  shows "numbers key (rs, w) s"
  using numbers_trans [OF numbers_same [OF assms(2-6)] assms(1)] .

lemma numbers_key: "numbers key s s' \<Longrightarrow> rs_key (fst s) = key \<Longrightarrow> rs_key (fst s') = key"
  by (auto simp: numbers_def numbered_def)

lemma transmitBuffered_numbers: "rs_key (fst s) = key \<Longrightarrow> numbers key s (transmitBuffered env s)"
proof (induction env s rule: transmitBuffered.induct)
  case (1 env s)
  show ?case
  proof (cases "rs_next (fst s) < length (rs_buffer (fst s))")
    case True
    obtain rs w where t: "transmit env (rs_buffer (fst s) ! rs_next (fst s)) s = (rs, w)" by force
    have "numbers key s (rs, w)" using transmit_numbers [OF "1.prems"] t by metis
    then have n: "numbers key s (rs\<lparr>rs_next := rs_next rs + 1\<rparr>, w)" by (rule numbers_after) (simp_all add: quiet_def rs_key_def)
    have "numbers key (rs\<lparr>rs_next := rs_next rs + 1\<rparr>, w) (transmitBuffered env (rs\<lparr>rs_next := rs_next rs + 1\<rparr>, w))"
      using "1.IH" [OF True t [symmetric]] "1.prems" transmit_key [of env "rs_buffer (fst s) ! rs_next (fst s)" s] t by (simp add: rs_key_def)
    with n show ?thesis by (subst transmitBuffered.simps) (simp add: True t numbers_trans del: One_nat_def)
  qed (subst transmitBuffered.simps, simp)
qed

lemma emit_numbers: "rs_key (fst s) = key \<Longrightarrow> numbers key s (emit env e s)"
proof -
  assume key: "rs_key (fst s) = key"
  obtain rs w where s: "s = (rs, w)" by force
  obtain k w1 where k: "next_call w = (k, w1)" by force
  have q1: "quiet w w1" using next_call_frame [OF k] .
  show ?thesis
  proof (cases "rc_Buffered (rs_rc rs)")
    case False
    have "numbers key (rs, w) (transmit env x (rs, w1))" for x
      by (rule numbers_before [OF transmit_numbers]) (use key s q1 in simp_all)
    moreover have "numbers key (rs, w) (rs, w1)" using q1 by (intro numbers_same) auto
    ultimately show ?thesis using False by (simp add: emit_def s k Let_def)
  next
    case True
    obtain i w2 where i: "nextEntryID env w1 = (i, w2)" by force
    have "rp_sent w2 = rp_sent w" using k i by (auto simp: next_call_def nextEntryID_def Let_def)
    then have *: "own key (w2\<lparr>rp_m := m, rp_committed := l\<rparr>) = own key w" for m l by (simp add: own_def)
    have n: "numbers key (rs, w) (trim (rs\<lparr>rs_buffer := b\<rparr>), w2\<lparr>rp_m := m, rp_committed := l\<rparr>)" for b m l
      unfolding numbers_def numbered_def using * by (auto simp: rs_key_def intro!: exI [of _ "[]"])
    show ?thesis using True n numbers_trans [OF n transmitBuffered_numbers] key
      by (simp add: emit_def s k i Let_def rs_key_def)
  qed
qed

lemma flushPending_numbers: "rs_key (fst s) = key \<Longrightarrow> numbers key s (flushPending env s)"
proof (cases "rs_pending (fst s)")
  case (Some tp)
  assume key: "rs_key (fst s) = key"
  obtain rs w t p where s: "s = (rs, w)" "tp = (t, p)" by (metis prod.exhaust)
  have "numbers key (rs, w) (rs\<lparr>rs_pending := None\<rparr>, w)" by (rule numbers_same) (simp_all add: quiet_def rs_key_def)
  moreover from this have "numbers key (rs, w) (emit env p (rs\<lparr>rs_pending := None\<rparr>, w))"
    by (rule numbers_trans) (rule emit_numbers, use key s in \<open>simp add: rs_key_def\<close>)
  ultimately show ?thesis using Some s by (simp add: flushPending_def Let_def)
qed (cases s, simp add: flushPending_def)

lemma event_numbers: "rs_key (fst s) = key \<Longrightarrow> numbers key s (event env e s)"
proof (cases "attr_millis (rp_m (snd s)) (fst s) ''BufTm'' \<le> 0")
  case True
  assume "rs_key (fst s) = key"
  with True emit_numbers [OF this, of env e] show ?thesis by (cases s) (simp add: event_def)
next
  case False
  assume key: "rs_key (fst s) = key"
  obtain rs w where s: "s = (rs, w)" by force
  obtain r1 w1 where f: "(case rs_pending rs of Some (_, p) \<Rightarrow> if overlaps (e_members p) (e_members e) then flushPending env (rs, w) else (rs, w)
      | None \<Rightarrow> (rs, w)) = (r1, w1)" by force
  have 1: "numbers key s (r1, w1)"
    using f s flushPending_numbers [OF key, of env] by (auto split: option.splits if_splits)
  obtain r2 w2 where g: "(case rs_pending r1 of Some _ \<Rightarrow> (r1, w1) | None \<Rightarrow> let (t, w) = next_call w1 in (r1\<lparr>rs_pending := Some (t, no_entry)\<rparr>, w)) = (r2, w2)" by force
  then have "numbers key s (r2, w2)"
    by (intro numbers_after [OF 1]) (auto simp: next_call_def quiet_def rs_key_def split: option.splits)
  then have "numbers key s (r2\<lparr>rs_pending := x\<rparr>, w2)" for x by (rule numbers_after) (simp_all add: quiet_def rs_key_def)
  then show ?thesis using False f g by (simp add: event_def s Let_def)
qed

lemma reportAll_numbers: "rs_key (fst s) = key \<Longrightarrow> numbers key s (reportAll env why s)"
proof -
  assume key: "rs_key (fst s) = key"
  obtain r1 w1 where f: "flushPending env s = (r1, w1)" by force
  have 1: "numbers key s (r1, w1)" using flushPending_numbers [OF key, of env] f by simp
  then have "numbers key (r1, w1) (emit env e (r1, w1))" for e using emit_numbers [of "(r1, w1)" key] numbers_key [OF 1 key] by simp
  then show ?thesis using 1 numbers_trans [OF 1] by (simp add: reportAll_def f Let_def)
qed

lemma disable_numbers: "rs_key (fst s) = key \<Longrightarrow> numbers key s (disable env s)"
proof -
  assume key: "rs_key (fst s) = key"
  obtain r1 w1 where f: "flushPending env s = (r1, w1)" by force
  have "numbers key s (r1, w1)" using flushPending_numbers [OF key, of env] f by simp
  then have 2: "numbers key s (stopIntegrity (r1\<lparr>rs_enabled := False, rs_conn := None\<rparr>), w1)"
    by (rule numbers_after) (simp_all add: quiet_def rs_key_def stopIntegrity_def)
  obtain r3 w3 where r: "release env (stopIntegrity (r1\<lparr>rs_enabled := False, rs_conn := None\<rparr>), w1) = (r3, w3)" by force
  have "numbers key s (r3, w3)" by (rule numbers_after [OF 2]) (use release_frame [OF r] in \<open>simp_all add: kept_def\<close>)
  then show ?thesis using 2 r by (simp add: disable_def f Let_def)
qed

lemma owner_numbers:
  "numbers key s (take_block env c s)" "numbers key s (release env s)" "numbers key s (resv_expires env t s)"
proof -
  obtain rs w where s: "s = (rs, w)" by force
  show "numbers key s (take_block env c s)"
    using take_block_frame [of env c rs w] by (cases "take_block env c s") (auto simp: s kept_def intro: numbers_same)
  show "numbers key s (release env s)"
    using release_frame [of env rs w] by (cases "release env s") (auto simp: s kept_def intro: numbers_same)
  show "numbers key s (resv_expires env t s)"
    using resv_expires_frame [of env t rs w] by (cases "resv_expires env t s") (auto simp: s kept_def intro: numbers_same)
qed

lemma disconnect_block_numbers: "rs_key (fst s) = key \<Longrightarrow> numbers key s (disconnect_block env c s)"
  using disable_numbers [of s key env] owner_numbers(2) [of key _ env] numbers_trans by (auto simp: disconnect_block_def Let_def)

lemma write_block_numbers:
  assumes key: "rs_key (fst s) = key" and en: "attr \<noteq> ''RptEna'' \<or> \<not> value_Bool v"
  shows "numbers key s (write_block env attr v c s)"
proof (cases "attr = ''Resv''")
  case True
  then show ?thesis using owner_numbers(1) [of key s env c] owner_numbers(2) [of key s env] by (simp add: write_block_def)
next
  case False
  obtain r1 w1 where o: "(if rs_owner (fst s) = None then take_block env c s else s) = (r1, w1)" by force
  have o1: "numbers key s (r1, w1)" using o owner_numbers(1) [of key s env c] by (auto split: if_splits)
  have k1: "rs_key (fst (r1, w1)) = key" using numbers_key [OF o1 key] .
  obtain r2 w2 where g: "(if value_Bool v \<and> rs_trgOps (rp_m w1) r1 AND TrgGI \<noteq> 0 then reportAll env ReasonGI (r1, w1) else (r1, w1)) = (r2, w2)" by force
  then have "numbers key (r1, w1) (r2, w2)" using reportAll_numbers [OF k1, of env ReasonGI] by (auto split: if_splits)
  then have g1: "numbers key s (r2, w2)" using numbers_trans [OF o1] by blast
  have set: "numbers key s (r, w\<lparr>rp_m := m\<rparr>)" if "numbers key s (r, w)" for r w m
    by (rule numbers_after [OF that]) (simp_all add: quiet_def)
  have oth: "numbers key s (stopResvTimer r1, w1)" "numbers key s (purge r1, w1)" "numbers key s (r1\<lparr>rs_resyncID := x\<rparr>, w1)" for x
    by (rule numbers_after [OF o1]; simp add: quiet_def rs_key_def stopResvTimer_def purge_def)+
  show ?thesis
    using False en o1 oth set [OF g1] set [OF o1] set [OF oth(2)] numbers_trans [OF o1 disable_numbers [OF k1, of env]]
    unfolding write_block_def Let_def o prod.case g by (simp split: if_splits)
qed

text \<open>Enabling is what starts a numbering.\<close>

fun enables :: "rcb_op \<Rightarrow> bool" where
  "enables (WriteAttr attr v c) = (attr = ''RptEna'' \<and> value_Bool v)"
| "enables _ = False"

lemma run_op_numbers:
  assumes "rs_key (fst s) = key" "\<not> enables op" shows "numbers key s (run_op env op s)"
proof (cases op)
  case (Change cs)
  then show ?thesis using event_numbers [OF assms(1), of env] by (cases s) (auto simp: update_block_def Let_def)
next
  case (PendTimer t)
  then show ?thesis using flushPending_numbers [OF assms(1), of env] by (cases s) (auto simp: pend_expires_def split: option.splits)
next
  case (Others m n k ts es)
  then show ?thesis using assms(1) by (cases s) (auto simp: numbers_def numbered_def own_def intro!: exI [of _ "[]"])
qed (use assms write_block_numbers [OF assms(1)] owner_numbers(3) disconnect_block_numbers [OF assms(1)] reportAll_numbers [OF assms(1)] in
      \<open>auto simp: integrity_tick_def\<close>)

lemma fold_numbers: "rs_key (fst s) = key \<Longrightarrow> list_all (\<lambda>op. \<not> enables op) ops \<Longrightarrow> numbers key s (fold (run_op env) ops s)"
proof (induction ops arbitrary: s)
  case (Cons op ops)
  have 1: "numbers key s (run_op env op s)" using Cons.prems by (intro run_op_numbers) simp_all
  have "numbers key (run_op env op s) (fold (run_op env) ops (run_op env op s))"
    using Cons.prems numbers_key [OF 1] by (intro Cons.IH) simp_all
  then show ?case using numbers_trans [OF 1] by simp
qed simp


section \<open>Properties\<close>

text \<open>(C11) From the moment a block is enabled for an association until it is enabled again, whatever else happens to it,
  the reports it sends all go to that association and carry the sequence numbers 0, 1, 2, \<open>\<dots>\<close>, wrapping after 255 for an
  unbuffered and after 65535 for a buffered block.\<close>

theorem report_sequence:
  assumes "enable env (Some c) s = s1" "list_all (\<lambda>op. \<not> enables op) ops" "rs_key (fst s) = key"
  shows "\<exists>ts. own key (snd (fold (run_op env) ops s1)) = own key (snd s) @ ts
    \<and> (\<forall>k < length ts. unat (tr_seq (ts ! k)) mod (if rc_Buffered (rs_rc (fst s)) then 65536 else 256)
           = k mod (if rc_Buffered (rs_rc (fst s)) then 65536 else 256) \<and> tr_conn (ts ! k) = c)"
proof -
  obtain rs w where s: "s = (rs, w)" by force
  define r0 where "r0 = rs\<lparr>rs_enabled := True, rs_conn := Some c\<rparr>"
  obtain r1 w1 where 1: "(if rs_owner r0 \<noteq> Some c then take_block env (Some c) (r0, w) else (r0, w)) = (r1, w1)" by force
  have f1: "rs_rc r1 = rs_rc rs" "rs_key r1 = key" "quiet w w1" "rs_conn r1 = Some c"
    using 1 take_block_frame [of env "Some c" r0 w r1 w1] assms(3) by (auto simp: r0_def s kept_def quiet_def rs_key_def split: if_splits)
  obtain r2 w2 where 2: "setSqNum 0 (r1, w1) = (r2, w2)" by force
  note f2 = setSqNum_frame [OF 2]
  define r3 where "r3 = stopIntegrity r2"
  have f3: "rs_rc r3 = rs_rc rs" "rs_key r3 = key" "own key w2 = own key w" "rs_conn r3 = Some c" "rs_sqNum r3 = 0"
    using f1 f2 quiet_own [of w w1 key] quiet_own [of w1 w2 key] by (auto simp: r3_def stopIntegrity_def kept_def rs_key_def)
  obtain r4 w4 where 4: "(if rc_Buffered (rs_rc r3) then transmitBuffered env (resume r3, w2) else (r3, w2)) = (r4, w4)" by force
  have "numbers key (r3, w2) (resume r3, w2)"
    by (rule numbers_same) (simp_all add: resume_def quiet_def rs_key_def Let_def split: option.splits)
  moreover have "rs_key (resume r3) = key" using f3 by (simp add: resume_def rs_key_def Let_def split: option.splits)
  ultimately have 5: "numbers key (r3, w2) (r4, w4)"
    using 4 transmitBuffered_numbers [of "(resume r3, w2)" key env] numbers_trans by (fastforce split: if_splits)
  have "s1 = (if attr_millis (rp_m w4) r4 ''IntgPd'' > 0 \<and> rs_trgOps (rp_m w4) r4 AND TrgIntegrity \<noteq> 0
        then (let (t, w) = next_call w4 in (r4\<lparr>rs_intgStop := Some t\<rparr>, w)) else (r4, w4))"
    unfolding assms(1) [symmetric] enable_def s by (simp only: prod.case Let_def r0_def [symmetric] 1 2 r3_def [symmetric] 4)
  moreover have "numbers key (r3, w2) (r4\<lparr>rs_intgStop := Some t\<rparr>, w)" if "next_call w4 = (t, w)" for t w
    by (rule numbers_after [OF 5]) (use next_call_frame [OF that] in \<open>simp_all add: rs_key_def\<close>)
  ultimately have 6: "numbers key (r3, w2) s1" using 5 by (simp split: prod.splits)
  have "rs_key (fst s1) = key" using numbers_key [OF 6] f3(2) by simp
  from numbers_trans [OF 6 fold_numbers [OF this assms(2)]]
  obtain ts where ts: "numbered key ts (r3, w2) (fold (run_op env) ops s1)" by (auto simp: numbers_def)
  have "unat (tr_seq (ts ! k)) mod 2 ^ seq_width rs = k mod 2 ^ seq_width rs \<and> tr_conn (ts ! k) = c" if "k < length ts" for k
  proof -
    have "seq_width r3 = seq_width rs" by (simp add: seq_width_def f3(1))
    then have "take_bit (seq_width rs) (tr_seq (ts ! k)) = take_bit (seq_width rs) (word_of_nat k)" "tr_conn (ts ! k) = c"
      using ts that f3 by (auto simp: numbered_def)
    then have "take_bit (seq_width rs) (unat (tr_seq (ts ! k))) = take_bit (seq_width rs) (unat (word_of_nat k :: 32 word))"
      by (metis unsigned_take_bit_eq)
    moreover have "unat (word_of_nat k :: 32 word) mod 2 ^ seq_width rs = k mod 2 ^ seq_width rs"
    proof -
      have "seq_width rs \<le> 32" by (simp add: seq_width_def)
      then have "(2 :: nat) ^ seq_width rs dvd 2 ^ 32" by (rule le_imp_power_dvd)
      then show ?thesis by (simp add: unat_of_nat mod_mod_cancel)
    qed
    ultimately show ?thesis using \<open>tr_conn (ts ! k) = c\<close> by (simp add: take_bit_eq_mod)
  qed
  moreover have "2 ^ seq_width rs = (if rc_Buffered (rs_rc rs) then 65536 else 256 :: nat)" by (simp add: seq_width_def)
  moreover have "own key (snd (fold (run_op env) ops s1)) = own key w @ ts" using ts f3 by (simp add: numbered_def)
  ultimately show ?thesis by (intro exI [of _ ts]) (auto simp: s)
qed

text \<open>Two changes wait when the block is enabled for association 1; they are sent with the numbers 0 and 1, and what follows goes on from there.\<close>

theorem report_sequence_witness:
  "\<exists>s ts. s = fold (run_op ex_rpt_env) [Change ex_changes, Change ex_changes] (ex_rcb, ex_rpt\<lparr>rp_m := ex_rpt_model\<rparr>)
    \<and> own (rs_key ex_rcb) (snd (fold (run_op ex_rpt_env) [Change ex_changes, IntgTick 0, WriteAttr ''GI'' (NewBool True) 1] (enable ex_rpt_env (Some 1) s))) = ts
    \<and> 2 \<le> length ts \<and> unat (tr_seq (ts ! 0)) mod 65536 = 0 \<and> unat (tr_seq (ts ! 1)) mod 65536 = 1 \<and> tr_conn (ts ! 1) = 1"
proof -
  let ?ops = "[Change ex_changes, IntgTick 0, WriteAttr ''GI'' (NewBool True) 1]" and ?key = "rs_key ex_rcb"
  obtain e1 e2 w2 where s: "fold (run_op ex_rpt_env) [Change ex_changes, Change ex_changes] (ex_rcb, ex_rpt\<lparr>rp_m := ex_rpt_model\<rparr>) = (ex_waiting [e1, e2] False, w2)"
    and o: "own ?key w2 = []"
  proof -
    let ?w = "ex_rpt\<lparr>rp_m := ex_rpt_model\<rparr>"
    have 0: "ex_rcb = ex_waiting [] False" by (simp add: ex_waiting_def ex_rcb_def new_rcb_def)
    obtain e1 w1 where 1: "update_block ex_rpt_env ex_changes (ex_waiting [] False, ?w) = (ex_waiting [e1] False, w1)" "rp_m w1 = ex_rpt_model" "rp_sent w1 = []"
      using ex_change [of ?w "[]" False] by (auto simp: ex_rpt_def)
    obtain e2 w2 where 2: "update_block ex_rpt_env ex_changes (ex_waiting [e1] False, w1) = (ex_waiting [e1, e2] False, w2)" "rp_sent w2 = []"
      using ex_change [OF 1(2), of "[e1]" False] 1(3) by auto
    show thesis using that [of e1 e2 w2] 1(1) 2 unfolding 0 by (simp add: own_def)
  qed
  obtain r3 w3 where en: "enable ex_rpt_env (Some 1) (ex_waiting [e1, e2] False, w2) = (r3, w3)" by force
  have n: "list_all (\<lambda>op. \<not> enables op) ?ops" by simp
  obtain ts where ts: "own ?key (snd (fold (run_op ex_rpt_env) ?ops (r3, w3))) = ts"
    "\<forall>k < length ts. unat (tr_seq (ts ! k)) mod 65536 = k mod 65536 \<and> tr_conn (ts ! k) = 1"
    using report_sequence [OF en n, of ?key] o by auto
  have k3: "rs_key (fst (r3, w3)) = ?key" using enable_sends [OF _ _ en] by simp
  have "length (own ?key w3) = 2" using enable_sends [OF _ _ en] o by simp
  moreover obtain us where "own ?key (snd (fold (run_op ex_rpt_env) ?ops (r3, w3))) = own ?key w3 @ us"
    using fold_numbers [OF k3 n, of ex_rpt_env] by (auto simp: numbers_def numbered_def)
  ultimately have l: "2 \<le> length ts" unfolding ts(1) by (metis le_add1 length_append)
  have "unat (tr_seq (ts ! 0)) mod 65536 = 0 \<and> unat (tr_seq (ts ! 1)) mod 65536 = 1 \<and> tr_conn (ts ! 1) = 1"
    using ts(2) l by (auto dest: spec [of _ 0] spec [of _ 1])
  then show ?thesis using s [symmetric] ts(1) [folded en] l by (intro exI [of _ "(ex_waiting [e1, e2] False, w2)"] exI [of _ ts] conjI) simp_all
qed

end
