(* ===== verification/SrvRptSeg.thy ===== *)
theory SrvRptSeg
  imports SrvRptSeq
begin

text \<open>
  Segmentation of reports: a report that does not fit the association's PDU is cut into runs of its members,
  each as long as fits, numbered and marked as the standard asks.
\<close>

section \<open>Cuts\<close>

text \<open>The positions at which a list of members is cut, from the first to the last.\<close>

definition cuts_of :: "nat \<Rightarrow> nat \<Rightarrow> nat list \<Rightarrow> bool" where
  "cuts_of i n cs = (cs \<noteq> [] \<and> hd cs = i \<and> last cs = n \<and> sorted_wrt (<) cs)"

lemma sorted_wrt_last: "sorted_wrt (<) cs \<Longrightarrow> x \<in> set cs \<Longrightarrow> x \<le> (last cs :: nat)"
  by (induction cs) (auto, metis last_in_set less_imp_le_nat)

lemma slice_split: "i \<le> j \<Longrightarrow> j \<le> k \<Longrightarrow> slice i j xs @ slice j k xs = slice i k xs"
proof -
  assume ij: "i \<le> j" "j \<le> k"
  have "take j xs @ drop j (take k xs) = take k xs" by (metis append_take_drop_id ij(2) min.absorb1 take_take)
  then have "drop i (take j xs @ drop j (take k xs)) = drop i (take k xs)" by simp
  moreover have "drop (i - length (take j xs)) (drop j (take k xs)) = drop j (take k xs)"
    using ij by (cases "length xs \<le> j") simp_all
  ultimately show ?thesis by (simp add: slice_def)
qed

lemma slices_concat:
  "cuts_of i n cs \<Longrightarrow> concat (map (\<lambda>j. slice (cs ! j) (cs ! Suc j) xs) [0..<length cs - 1]) = slice i n xs"
proof (induction cs arbitrary: i)
  case (Cons c cs)
  show ?case
  proof (cases cs)
    case Nil
    then show ?thesis using Cons.prems by (auto simp: cuts_of_def slice_def)
  next
    case (Cons d ds)
    have "cuts_of d n cs" using Cons Cons.prems by (simp add: cuts_of_def)
    note IH = Cons.IH [OF this]
    have u: "[0..<length (c # cs) - 1] = 0 # map Suc [0..<length cs - 1]" using Cons by (simp add: upt_conv_Cons map_Suc_upt del: upt_Suc)
    have "c \<le> d" "d \<le> n" "c = i" using Cons Cons.prems sorted_wrt_last [of cs d] by (auto simp: cuts_of_def)
    then show ?thesis using IH Cons slice_split [of c d n xs] unfolding u by (simp add: comp_def)
  qed
qed (simp add: cuts_of_def)

lemma grow_fits: "to < grow ok n to \<Longrightarrow> ok (grow ok n to)"
proof (induction ok n to rule: grow.induct)
  case (1 ok n to)
  then have c: "to < n \<and> ok (to + 1)" by (metis grow.simps less_irrefl)
  then have g: "grow ok n to = grow ok n (to + 1)" by (subst grow.simps) simp
  show ?case using "1.IH" [OF c] c grow_bounds(1) [of "to + 1" ok n] unfolding g by (cases "to + 1 < grow ok n (to + 1)") auto
qed

lemma segments_cuts:
  assumes fl: "\<And>i j k. fits (build i j True k False) = fits (build i j True k True)"
  shows "i \<le> n \<Longrightarrow> \<exists>cs. cuts_of i n cs
    \<and> segments build fits n i k = map (\<lambda>j. build (cs ! j) (cs ! Suc j) True (k + j) (cs ! Suc j < n)) [0..<length cs - 1]
    \<and> (\<forall>j < length cs - 1. fits (build (cs ! j) (cs ! Suc j) True (k + j) (cs ! Suc j < n)) \<or> cs ! Suc j = Suc (cs ! j))"
proof (induction "n - i" arbitrary: i k rule: less_induct)
  case less
  show ?case
  proof (cases "i < n")
    case False
    then show ?thesis using less.prems by (intro exI [of _ "[n]"]) (simp add: cuts_of_def segments.simps)
  next
    case True
    define to where "to = grow (\<lambda>j. fits (build i j True k True)) n (i + 1)"
    have to: "i < to" "to \<le> n" using grow_bounds(1) [of "i + 1" "\<lambda>j. fits (build i j True k True)" n] grow_bounds(2) [of "i + 1" n "\<lambda>j. fits (build i j True k True)"] True by (auto simp: to_def)
    have "fits (build i to True k True) \<or> to = Suc i"
      using grow_fits [of "i + 1" "\<lambda>j. fits (build i j True k True)" n] to(1) by (fastforce simp: to_def)
    then have ft: "fits (build i to True k (to < n)) \<or> to = Suc i" using fl by (cases "to < n") auto
    obtain cs where cs: "cuts_of to n cs"
      "segments build fits n to (Suc k) = map (\<lambda>j. build (cs ! j) (cs ! Suc j) True (Suc k + j) (cs ! Suc j < n)) [0..<length cs - 1]"
      "\<forall>j < length cs - 1. fits (build (cs ! j) (cs ! Suc j) True (Suc k + j) (cs ! Suc j < n)) \<or> cs ! Suc j = Suc (cs ! j)"
      using less.hyps [of to "Suc k"] to True by (meson diff_less_mono2)
    have ne: "cs \<noteq> []" "cs ! 0 = to" using cs(1) by (auto simp: cuts_of_def hd_conv_nth)
    then have u: "[0..<length (i # cs) - 1] = 0 # map Suc [0..<length cs - 1]" by (cases cs) (simp_all add: upt_conv_Cons map_Suc_upt del: upt_Suc)
    have "cuts_of i n (i # cs)" using cs(1) to(1) by (cases cs) (auto simp: cuts_of_def)
    moreover have "segments build fits n i k = build i to True k (to < n) # segments build fits n to (Suc k)"
      using True by (subst segments.simps) (simp add: to_def Let_def)
    then have "segments build fits n i k = map (\<lambda>j. build ((i # cs) ! j) ((i # cs) ! Suc j) True (k + j) ((i # cs) ! Suc j < n)) [0..<length (i # cs) - 1]"
      unfolding u using cs(2) ne by (simp add: comp_def)
    moreover have "fits (build ((i # cs) ! j) ((i # cs) ! Suc j) True (k + j) ((i # cs) ! Suc j < n)) \<or> (i # cs) ! Suc j = Suc ((i # cs) ! j)"
      if "j < length (i # cs) - 1" for j
      using that ft ne cs(3) by (cases j) auto
    ultimately show ?thesis by blast
  qed
qed

section \<open>Sizes\<close>

lemma Size_NewBool: "map_option Size (DataElement (NewBool b)) = map_option Size (DataElement (NewBool c))"
  by (simp add: NewBool_def BoolElem_def Prim_def Size.simps ContentSize.simps)

lemma Size_report_cong:
  assumes "map (map_option Size \<circ> DataElement) vs = map (map_option Size \<circ> DataElement) us"
  shows "Size (report_element vs) = Size (report_element us)"
proof -
  have "map Size (List.map_filter id (map DataElement vs)) = List.map_filter id (map (map_option Size \<circ> DataElement) vs)" for vs
    by (induction vs) (auto simp: map_filter_simps split: option.splits)
  then have "map Size (List.map_filter id (map DataElement vs)) = map Size (List.map_filter id (map DataElement us))" using assms by simp
  then show ?thesis by (simp add: report_element_def Cons_el_def Size.simps ContentSize.simps map_filter_simps)
qed

lemma Size_report_mf:
  "Size (reportElement env m rs e members opt seq ov i j True k False) = Size (reportElement env m rs e members opt seq ov i j True k True)"
  unfolding reportElement_def
  by (rule Size_report_cong) (simp add: report_values_def Let_def Size_NewBool [of False True])

section \<open>Properties\<close>

text \<open>(C10) A report is sent whole when it fits the PDU of the association, or there is no limit; otherwise as consecutive
  runs of its members that together are all of them, in order, each one not empty, numbered from 0, with
  more-follows on all but the last, and none larger than the PDU unless it is a single member.\<close>

theorem report_segments:
  "let pdus = reportPDUs env m rs e seq ov maxPDU;
             opt = effectiveOptFlds (flags_of (OptFldsFromValue (rcb_attr m rs ''OptFlds''))) (rc_Buffered (rs_rc rs));
             n = length (e_members e);
             build = reportElement env m rs e (rcb_members env m rs) opt seq ov
         in if maxPDU \<le> 0 \<or> int (Size (build 0 n False 0 False)) + 4 \<le> maxPDU then pdus = [build 0 n False 0 False]
            else \<exists>cs. cuts_of 0 n cs \<and> pdus = map (\<lambda>j. build (cs ! j) (cs ! Suc j) True j (cs ! Suc j < n)) [0..<length cs - 1]
              \<and> concat (map (\<lambda>j. slice (cs ! j) (cs ! Suc j) (e_members e)) [0..<length cs - 1]) = e_members e
              \<and> (\<forall>j < length cs - 1. int (Size (pdus ! j)) + 4 \<le> maxPDU \<or> cs ! Suc j = Suc (cs ! j))"
proof -
  define opt where "opt = effectiveOptFlds (flags_of (OptFldsFromValue (rcb_attr m rs ''OptFlds''))) (rc_Buffered (rs_rc rs))"
  define n where "n = length (e_members e)"
  define build where "build = reportElement env m rs e (rcb_members env m rs) opt seq ov"
  define pdus where "pdus = reportPDUs env m rs e seq ov maxPDU"
  have p: "pdus = (if fits_pdu maxPDU (build 0 n False 0 False) then [build 0 n False 0 False] else segments build (fits_pdu maxPDU) n 0 0)"
    unfolding pdus_def reportPDUs_def Let_def n_def build_def opt_def ..
  show ?thesis
  proof (cases "fits_pdu maxPDU (build 0 n False 0 False)")
    case True
    then show ?thesis using p unfolding Let_def n_def [symmetric] pdus_def [symmetric] opt_def [symmetric] build_def [symmetric] by (simp add: fits_pdu_def)
  next
    case False
    have "fits_pdu maxPDU (build i j True k False) = fits_pdu maxPDU (build i j True k True)" for i j k
      by (simp add: fits_pdu_def build_def Size_report_mf)
    from segments_cuts [of "fits_pdu maxPDU" build 0 n 0, OF this] obtain cs where cs: "cuts_of 0 n cs"
      "segments build (fits_pdu maxPDU) n 0 0 = map (\<lambda>j. build (cs ! j) (cs ! Suc j) True j (cs ! Suc j < n)) [0..<length cs - 1]"
      "\<forall>j < length cs - 1. fits_pdu maxPDU (build (cs ! j) (cs ! Suc j) True j (cs ! Suc j < n)) \<or> cs ! Suc j = Suc (cs ! j)" by auto
    have "\<not> maxPDU \<le> 0" using False by (simp add: fits_pdu_def)
    then have "\<forall>j < length cs - 1. int (Size (pdus ! j)) + 4 \<le> maxPDU \<or> cs ! Suc j = Suc (cs ! j)"
      using cs(2,3) p False by (auto simp: fits_pdu_def)
    moreover have "concat (map (\<lambda>j. slice (cs ! j) (cs ! Suc j) (e_members e)) [0..<length cs - 1]) = e_members e"
      using slices_concat [OF cs(1), of "e_members e"] by (simp add: slice_def n_def)
    moreover have "pdus = map (\<lambda>j. build (cs ! j) (cs ! Suc j) True j (cs ! Suc j < n)) [0..<length cs - 1]" using cs(2) p False by simp
    ultimately show ?thesis using cs(1) False unfolding Let_def n_def [symmetric] pdus_def [symmetric] opt_def [symmetric] build_def [symmetric] fits_pdu_def
      by (metis (no_types, lifting))
  qed
qed


text \<open>With room for nothing, every member goes alone.\<close>

theorem report_segments_witness:
  "\<exists>cs. cuts_of 0 2 cs \<and> (\<forall>j < length cs - 1. cs ! Suc j = Suc (cs ! j))
    \<and> length (reportPDUs ex_rpt_env (rp_m ex_rpt) ex_rcb (no_entry\<lparr>e_members := [0, 3], e_values := [NewBool True, NewInt64 7], e_reasons := [2, 2]\<rparr>) 5 False 1)
        = length cs - 1"
  using report_segments [of ex_rpt_env "rp_m ex_rpt" ex_rcb "no_entry\<lparr>e_members := [0, 3], e_values := [NewBool True, NewInt64 7], e_reasons := [2, 2]\<rparr>" 5 False 1]
  unfolding Let_def by (auto simp: numeral_2_eq_2)

end
