(* ===== verification/SrvRptResv.thy ===== *)
theory SrvRptResv
  imports SrvRptSeg
begin

text \<open>
  Reservation of report control blocks: an association that holds a block keeps it, and what it reports, to
  itself until it lets go or its connection ends.
\<close>

section \<open>Reporting leaves the reservation alone\<close>

definition same_holder :: "rcbState \<Rightarrow> rcbState \<Rightarrow> bool" where
  "same_holder rs rs' = (rs_owner rs' = rs_owner rs \<and> rs_resvIP rs' = rs_resvIP rs \<and> rs_resvCfg rs' = rs_resvCfg rs \<and> rs_conn rs' = rs_conn rs
     \<and> rs_enabled rs' = rs_enabled rs)"

lemma same_holder_refl [simp]: "same_holder rs rs"
  by (simp add: same_holder_def)

lemma same_holder_trans: "same_holder r1 r2 \<Longrightarrow> same_holder r2 r3 \<Longrightarrow> same_holder r1 r3"
  by (simp add: same_holder_def)

lemma transmit_holder: "same_holder (fst s) (fst (transmit env e s))"
  by (cases s) (simp add: transmit_def setSqNum_def same_holder_def Let_def split: option.splits prod.splits)

lemma transmitBuffered_holder: "same_holder (fst s) (fst (transmitBuffered env s))"
proof (induction env s rule: transmitBuffered.induct)
  case (1 env s)
  show ?case
  proof (cases "rs_next (fst s) < length (rs_buffer (fst s))")
    case True
    obtain rs w where t: "transmit env (rs_buffer (fst s) ! rs_next (fst s)) s = (rs, w)" by force
    have "same_holder (fst s) (rs\<lparr>rs_next := rs_next rs + 1\<rparr>)" using transmit_holder [of s env "rs_buffer (fst s) ! rs_next (fst s)"] by (simp add: t same_holder_def)
    then have "same_holder (fst s) (fst (transmitBuffered env (rs\<lparr>rs_next := rs_next rs + 1\<rparr>, w)))"
      using "1.IH" [OF True t [symmetric]] same_holder_trans by fastforce
    then show ?thesis by (subst transmitBuffered.simps) (simp add: True t del: One_nat_def)
  qed (subst transmitBuffered.simps, simp)
qed

lemma emit_holder: "same_holder (fst s) (fst (emit env e s))"
proof -
  obtain rs w where s: "s = (rs, w)" by force
  have "same_holder rs (fst (transmit env e' (rs, w')))" for e' w' using transmit_holder [of "(rs, w')" env e'] by simp
  moreover have "same_holder rs (trim (rs\<lparr>rs_buffer := b\<rparr>))" for b by (simp add: same_holder_def)
  moreover from this have "same_holder rs (fst (transmitBuffered env (trim (rs\<lparr>rs_buffer := b\<rparr>), w')))" for b w'
    using transmitBuffered_holder [of "(trim (rs\<lparr>rs_buffer := b\<rparr>), w')" env] same_holder_trans by fastforce
  ultimately show ?thesis by (simp add: emit_def s Let_def split: prod.splits)
qed

lemma flushPending_holder: "same_holder (fst s) (fst (flushPending env s))"
proof -
  obtain rs w where s: "s = (rs, w)" by force
  have "same_holder rs (rs\<lparr>rs_pending := None\<rparr>)" by (simp add: same_holder_def)
  then show ?thesis using emit_holder [of "(rs\<lparr>rs_pending := None\<rparr>, w)" env] same_holder_trans
    by (fastforce simp: flushPending_def s Let_def split: option.splits prod.splits)
qed

lemma event_holder: "same_holder (fst s) (fst (event env e s))"
proof -
  obtain rs w where s: "s = (rs, w)" by force
  obtain r1 w1 where f: "(case rs_pending rs of Some (_, p) \<Rightarrow> if overlaps (e_members p) (e_members e) then flushPending env (rs, w) else (rs, w)
      | None \<Rightarrow> (rs, w)) = (r1, w1)" by force
  have 1: "same_holder rs r1" using f flushPending_holder [of "(rs, w)" env] by (auto split: option.splits if_splits)
  obtain r2 w2 where g: "(case rs_pending r1 of Some _ \<Rightarrow> (r1, w1) | None \<Rightarrow> let (t, w) = next_call w1 in (r1\<lparr>rs_pending := Some (t, no_entry)\<rparr>, w)) = (r2, w2)" by force
  have "same_holder rs (r2\<lparr>rs_pending := x\<rparr>)" for x
    using 1 g by (auto simp: same_holder_def next_call_def split: option.splits)
  then show ?thesis using emit_holder [of "(rs, w)" env e] f g by (simp add: event_def s Let_def)
qed

lemma reportAll_holder: "same_holder (fst s) (fst (reportAll env why s))"
proof -
  obtain r1 w1 where f: "flushPending env s = (r1, w1)" by force
  have "same_holder (fst s) r1" using flushPending_holder [of s env] f by simp
  then show ?thesis using emit_holder [of "(r1, w1)" env] same_holder_trans by (fastforce simp: reportAll_def f Let_def)
qed

section \<open>What another association can do\<close>

definition conn_held :: "rcbState \<Rightarrow> bool" where
  "conn_held rs = (rs_conn rs = None \<or> rs_conn rs = rs_owner rs)"

lemma not_allowed: "rs_owner rs = Some c \<Longrightarrow> c' \<noteq> c \<Longrightarrow> check_block env m attr v (Some c') rs = Some AccessTemporarilyUnavailable"
  by (simp add: check_block_def allowed_def)

fun acts_for :: "nat \<Rightarrow> rcb_op \<Rightarrow> bool" where
  "acts_for c (WriteAttr attr v c') = (c' = c)"
| "acts_for c (Disconnect c') = (c' = c)"
| "acts_for c _ = False"

lemma run_op_other:
  assumes "rs_owner (fst s) = Some c" "conn_held (fst s)" "\<not> acts_for c op" "rs_key (fst s) = key"
  shows "same_holder (fst s) (fst (run_op env op s)) \<and> numbers key s (run_op env op s)"
proof (cases op)
  case (WriteAttr attr v c')
  then show ?thesis using assms not_allowed [OF assms(1)] by simp
next
  case (Change cs)
  then show ?thesis using event_holder [of s env] event_numbers [OF assms(4), of env] by (cases s) (simp add: update_block_def Let_def)
next
  case (PendTimer t)
  then show ?thesis using flushPending_holder [of s env] flushPending_numbers [OF assms(4), of env]
    by (cases s) (simp add: pend_expires_def split: option.splits)
next
  case (IntgTick t)
  then show ?thesis using reportAll_holder [of s env] reportAll_numbers [OF assms(4), of env] by (simp add: integrity_tick_def)
next
  case (ResvTimer t)
  then show ?thesis using assms(1) by (cases s) (simp add: resv_expires_def)
next
  case (Disconnect c')
  then have "c' \<noteq> c" using assms(3) by simp
  then have "disconnect_block env c' s = s" using assms(1,2) by (auto simp: disconnect_block_def conn_held_def)
  then show ?thesis using Disconnect by simp
next
  case (Others m n k ts es)
  then show ?thesis using run_op_numbers [OF assms(4), of op env] by simp
qed

lemma fold_other:
  assumes "rs_owner (fst s) = Some c" "conn_held (fst s)" "list_all (\<lambda>op. \<not> acts_for c op) ops" "rs_key (fst s) = key"
  shows "same_holder (fst s) (fst (fold (run_op env) ops s)) \<and> numbers key s (fold (run_op env) ops s)"
  using assms
proof (induction ops arbitrary: s)
  case (Cons op ops)
  have 1: "same_holder (fst s) (fst (run_op env op s))" "numbers key s (run_op env op s)" using run_op_other [of s c op key env] Cons.prems by simp_all
  have "same_holder (fst (run_op env op s)) (fst (fold (run_op env) ops (run_op env op s))) \<and> numbers key (run_op env op s) (fold (run_op env) ops (run_op env op s))"
    using Cons.prems 1 numbers_key [OF 1(2)] by (intro Cons.IH) (auto simp: same_holder_def conn_held_def)
  then show ?case using same_holder_trans [OF 1(1)] numbers_trans [OF 1(2)] by simp
qed simp

section \<open>Reports go to the holder\<close>

lemma owner_conn_held:
  "take_block env c s = (rs', w') \<Longrightarrow> rs_conn (fst s) = None \<or> rs_conn (fst s) = c \<Longrightarrow> conn_held rs' \<and> rs_owner rs' = c \<and> rs_conn rs' = rs_conn (fst s)"
  "release env s = (rs', w') \<Longrightarrow> rs_conn (fst s) = None \<Longrightarrow> conn_held rs'"
  "resv_expires env t s = (rs', w') \<Longrightarrow> conn_held (fst s) \<Longrightarrow> conn_held rs'"
  by (cases s; auto simp: take_block_def release_def resv_expires_def stopResvTimer_def next_call_def conn_held_def Let_def split: if_splits)+

lemma enable_on: "enable env (Some c) s = (rs', w') \<Longrightarrow> rs_enabled rs' \<and> rs_conn rs' = Some c \<and> rs_owner rs' = Some c"
proof -
  assume a: "enable env (Some c) s = (rs', w')"
  obtain rs w where s: "s = (rs, w)" by force
  define r0 where "r0 = rs\<lparr>rs_enabled := True, rs_conn := Some c\<rparr>"
  obtain r1 w1 where 1: "(if rs_owner r0 \<noteq> Some c then take_block env (Some c) (r0, w) else (r0, w)) = (r1, w1)" by force
  have f1: "rs_conn r1 = Some c" "rs_enabled r1" "rs_owner r1 = Some c"
    using 1 take_block_frame [of env "Some c" r0 w r1 w1] owner_conn_held(1) [of env "Some c" "(r0, w)" r1 w1] by (auto simp: r0_def split: if_splits)
  obtain r2 w2 where 2: "setSqNum 0 (r1, w1) = (r2, w2)" by force
  define r3 where "r3 = stopIntegrity r2"
  have f3: "rs_conn r3 = Some c" "rs_enabled r3" "rs_owner r3 = Some c"
    using 2 f1 by (auto simp: r3_def stopIntegrity_def setSqNum_def Let_def split: if_splits)
  obtain r4 w4 where 4: "(if rc_Buffered (rs_rc r3) then transmitBuffered env (resume r3, w2) else (r3, w2)) = (r4, w4)" by force
  have "same_holder r3 (resume r3)" by (simp add: same_holder_def resume_def Let_def split: option.splits)
  then have "same_holder r3 r4" using 4 transmitBuffered_holder [of "(resume r3, w2)" env] by (auto simp: same_holder_def split: if_splits)
  moreover have "(rs', w') = (if attr_millis (rp_m w4) r4 ''IntgPd'' > 0 \<and> rs_trgOps (rp_m w4) r4 AND TrgIntegrity \<noteq> 0
        then (let (t, w) = next_call w4 in (r4\<lparr>rs_intgStop := Some t\<rparr>, w)) else (r4, w4))"
    unfolding a [symmetric] enable_def s by (simp only: prod.case Let_def r0_def [symmetric] 1 2 r3_def [symmetric] 4)
  ultimately show ?thesis using f3 by (auto simp: same_holder_def next_call_def split: if_splits)
qed

lemma disable_off: "disable env s = (rs', w') \<Longrightarrow> \<not> rs_enabled rs' \<and> rs_conn rs' = None"
proof -
  assume d: "disable env s = (rs', w')"
  obtain r1 w1 where f: "flushPending env s = (r1, w1)" by force
  let ?r = "stopIntegrity (r1\<lparr>rs_enabled := False, rs_conn := None\<rparr>)"
  obtain r2 w2 where r: "release env (?r, w1) = (r2, w2)" by force
  show ?thesis using d r release_frame [OF r] by (auto simp: disable_def f Let_def stopIntegrity_def split: if_splits)
qed

lemma disable_held: "disable env s = (rs', w') \<Longrightarrow> conn_held rs' \<and> rs_conn rs' = None"
proof -
  assume d: "disable env s = (rs', w')"
  obtain r1 w1 where f: "flushPending env s = (r1, w1)" by force
  let ?r = "stopIntegrity (r1\<lparr>rs_enabled := False, rs_conn := None\<rparr>)"
  obtain r2 w2 where r: "release env (?r, w1) = (r2, w2)" by force
  have "rs_conn r2 = None" using release_frame [OF r] by (simp add: stopIntegrity_def)
  then show ?thesis using d r by (auto simp: disable_def f Let_def conn_held_def stopIntegrity_def split: if_splits)
qed

lemma write_block_held:
  assumes "conn_held (fst s)" "check_block env m attr v (Some c) (fst s) = None" "write_block env attr v (Some c) s = (rs', w')"
    "rs_enabled (fst s) \<longleftrightarrow> rs_conn (fst s) \<noteq> None"
  shows "conn_held rs'"
proof -
  have al: "rs_conn (fst s) = None \<or> rs_conn (fst s) = Some c"
    using assms(1,2) by (auto simp: check_block_def allowed_def conn_held_def split: if_splits)
  obtain r1 w1 where o: "(if rs_owner (fst s) = None then take_block env (Some c) s else s) = (r1, w1)" by force
  have o1: "conn_held r1" using o assms(1) owner_conn_held(1) [of env "Some c" s r1 w1] al by (auto split: if_splits)
  obtain r2 w2 where g: "(if value_Bool v \<and> rs_trgOps (rp_m w1) r1 AND TrgGI \<noteq> 0 then reportAll env ReasonGI (r1, w1) else (r1, w1)) = (r2, w2)" by force
  then have g1: "conn_held r2" using o1 reportAll_holder [of "(r1, w1)" env ReasonGI] by (auto simp: same_holder_def conn_held_def split: if_splits)
  have rel: "conn_held rs'" if "release env s = (rs', w')" "attr = ''Resv''" "\<not> value_Bool v"
    using owner_conn_held(2) [OF that(1)] that(2,3) assms(2,4) by (auto simp: check_block_def rcbReadOnly_def split: if_splits)
  have tk: "conn_held rs'" if "take_block env (Some c) s = (rs', w')" using owner_conn_held(1) [OF that] al by blast
  show ?thesis
    using assms(3) rel tk o1 g1 enable_on [of env c "(r1, w1)" rs' w'] disable_held [of env "(r1, w1)" rs' w']
    unfolding write_block_def Let_def o prod.case g
    by (auto simp: conn_held_def stopResvTimer_def purge_def split: if_splits)
qed


definition holder_ok :: "rcbState \<Rightarrow> bool" where
  "holder_ok rs = (conn_held rs \<and> (rs_enabled rs \<longleftrightarrow> rs_conn rs \<noteq> None))"

lemma holder_ok_same: "holder_ok rs \<Longrightarrow> same_holder rs rs' \<Longrightarrow> holder_ok rs'"
  by (simp add: holder_ok_def conn_held_def same_holder_def)

lemma write_block_enabled:
  assumes "rs_enabled (fst s) \<longleftrightarrow> rs_conn (fst s) \<noteq> None" "write_block env attr v (Some c) s = (rs', w')"
  shows "rs_enabled rs' \<longleftrightarrow> rs_conn rs' \<noteq> None"
proof -
  obtain rs w where s: "s = (rs, w)" by force
  have own: "rs_enabled (fst (take_block env (Some c) s)) \<longleftrightarrow> rs_conn (fst (take_block env (Some c) s)) \<noteq> None"
    "rs_enabled (fst (release env s)) \<longleftrightarrow> rs_conn (fst (release env s)) \<noteq> None"
    using assms(1) take_block_frame [of env "Some c" rs w] release_frame [of env rs w]
    by (cases "take_block env (Some c) s"; cases "release env s"; auto simp: s)+
  obtain r1 w1 where o: "(if rs_owner (fst s) = None then take_block env (Some c) s else s) = (r1, w1)" by force
  have o1: "rs_enabled r1 \<longleftrightarrow> rs_conn r1 \<noteq> None" using o own(1) assms(1) by (auto split: if_splits)
  obtain r2 w2 where g: "(if value_Bool v \<and> rs_trgOps (rp_m w1) r1 AND TrgGI \<noteq> 0 then reportAll env ReasonGI (r1, w1) else (r1, w1)) = (r2, w2)" by force
  then have g1: "rs_enabled r2 \<longleftrightarrow> rs_conn r2 \<noteq> None" using o1 reportAll_holder [of "(r1, w1)" env ReasonGI] by (auto simp: same_holder_def split: if_splits)
  have en: "rs_enabled rs' \<longleftrightarrow> rs_conn rs' \<noteq> None" if "enable env (Some c) (r1, w1) = (rs', w')"
    using enable_on [OF that] by simp
  have dis: "rs_enabled rs' \<longleftrightarrow> rs_conn rs' \<noteq> None" if "disable env (r1, w1) = (rs', w')"
    using disable_off [OF that] by simp
  show ?thesis
    using assms(2) own o1 g1 en dis
    unfolding write_block_def Let_def o prod.case g
    by (auto simp: stopResvTimer_def purge_def split: if_splits)
qed

lemma run_op_holder_ok: "holder_ok (fst s) \<Longrightarrow> holder_ok (fst (run_op env op s))"
proof (cases op)
  case (WriteAttr attr v c)
  assume ok: "holder_ok (fst s)"
  obtain rs' w' where w: "write_block env attr v (Some c) s = (rs', w')" by force
  show ?thesis using ok WriteAttr w write_block_held [of s env "rp_m (snd s)" attr v c rs' w'] write_block_enabled [of s env attr v c rs' w']
    by (auto simp: holder_ok_def)
next
  case (Change cs)
  assume "holder_ok (fst s)"
  then show ?thesis using Change event_holder [of s env] holder_ok_same by (cases s) (fastforce simp: update_block_def Let_def)
next
  case (PendTimer t)
  assume "holder_ok (fst s)"
  then show ?thesis using PendTimer flushPending_holder [of s env] holder_ok_same
    by (cases s) (fastforce simp: pend_expires_def split: option.splits)
next
  case (IntgTick t)
  assume "holder_ok (fst s)"
  then show ?thesis using IntgTick reportAll_holder [of s env] holder_ok_same by (fastforce simp: integrity_tick_def)
next
  case (ResvTimer t)
  assume ok: "holder_ok (fst s)"
  obtain rs' w' where w: "resv_expires env t s = (rs', w')" by force
  then show ?thesis using ok ResvTimer owner_conn_held(3) [OF w] resv_expires_frame [of env t "fst s" "snd s" rs' w'] by (auto simp: holder_ok_def)
next
  case (Disconnect c)
  assume ok: "holder_ok (fst s)"
  obtain r1 w1 where d: "(if rs_conn (fst s) = Some c then disable env s else s) = (r1, w1)" by force
  have 1: "holder_ok r1" "rs_owner r1 = Some c \<Longrightarrow> rs_conn r1 = None"
    using d ok disable_held [of env s r1 w1] disable_off [of env s r1 w1] by (auto simp: holder_ok_def conn_held_def split: if_splits)
  obtain r2 w2 where r: "release env (r1, w1) = (r2, w2)" by force
  have "holder_ok r2" if "rs_owner r1 = Some c"
    using owner_conn_held(2) [OF r] 1 that release_frame [OF r] by (auto simp: holder_ok_def)
  then show ?thesis using Disconnect d r 1 by (auto simp: disconnect_block_def Let_def)
qed auto

lemma fold_holder_ok: "holder_ok (fst s) \<Longrightarrow> holder_ok (fst (fold (run_op env) ops s))"
  by (induction ops arbitrary: s) (simp_all add: run_op_holder_ok)

section \<open>Properties\<close>

text \<open>(C8) Reservation is exclusive. In every state a fresh block can reach, if an association holds the block then, whatever
  others do, timers and data changes included, it goes on to hold it and its subscription stays as it is until
  it writes the block itself or its connection ends; every write another association attempts is refused as
  temporarily unavailable; and every report of the block in between goes to the holder.\<close>

theorem block_exclusive:
  assumes "\<not> rs_enabled rs" "rs_conn rs = None" "rs_owner rs = None" "fold (run_op env) ops (rs, w) = (rs1, w1)" "rs_owner rs1 = Some c"
    "list_all (\<lambda>op. \<not> acts_for c op) ops2" "fold (run_op env) ops2 (rs1, w1) = (rs2, w2)"
  shows "rs_owner rs2 = Some c \<and> rs_conn rs2 = rs_conn rs1 \<and> rs_enabled rs2 = rs_enabled rs1
    \<and> (\<forall>c' attr v. c' \<noteq> c \<longrightarrow> check_block env (rp_m w2) attr v (Some c') rs2 = Some AccessTemporarilyUnavailable)
    \<and> (\<exists>ts. own (rs_key rs1) w2 = own (rs_key rs1) w1 @ ts \<and> (\<forall>t \<in> set ts. tr_conn t = c))"
proof -
  have "holder_ok rs" using assms(1-3) by (simp add: holder_ok_def conn_held_def)
  then have ok: "holder_ok rs1" using fold_holder_ok [of "(rs, w)" env ops] assms(4) by simp
  then have h: "same_holder rs1 rs2" and n: "numbers (rs_key rs1) (rs1, w1) (rs2, w2)"
    using fold_other [of "(rs1, w1)" c ops2 "rs_key rs1" env] assms(5-7) by (auto simp: holder_ok_def)
  have o: "rs_owner rs2 = Some c" "rs_conn rs2 = rs_conn rs1" "rs_enabled rs2 = rs_enabled rs1" using h assms(5) by (simp_all add: same_holder_def)
  obtain ts where ts: "numbered (rs_key rs1) ts (rs1, w1) (rs2, w2)" using n by (auto simp: numbers_def)
  have "tr_conn t = c" if t: "t \<in> set ts" for t
  proof -
    from t obtain k where k: "k < length ts" "ts ! k = t" by (auto simp: in_set_conv_nth)
    then have "Some (tr_conn (ts ! k)) = rs_conn rs1" using ts by (auto simp: numbered_def)
    then show ?thesis using ok assms(5) k(2) by (auto simp: holder_ok_def conn_held_def)
  qed
  moreover have "own (rs_key rs1) w2 = own (rs_key rs1) w1 @ ts" using ts by (simp add: numbered_def)
  ultimately show ?thesis using o not_allowed [OF o(1)] by blast
qed

lemma value_NewBool: "value_Bool (NewBool b) = b"
  by (simp add: NewBool_def)

theorem block_exclusive_witness:
  "\<exists>rs2 w2. fold (run_op ex_rpt_env) [WriteAttr ''OptFlds'' (NewBool True) 6, Disconnect 6, ResvTimer 0] (take_block ex_rpt_env (Some 5) (ex_rcb, ex_rpt)) = (rs2, w2)
    \<and> rs_owner rs2 = Some 5 \<and> check_block ex_rpt_env (rp_m w2) ''RptEna'' (NewBool True) (Some 6) rs2 = Some AccessTemporarilyUnavailable"
proof -
  have nc: "rs_owner ex_rcb = None" "rs_resvIP ex_rcb = []" "rs_resvCfg ex_rcb = False" by (simp_all add: ex_rcb_def new_rcb_def)
  obtain rs1 w1 where t: "take_block ex_rpt_env (Some 5) (ex_rcb, ex_rpt) = (rs1, w1)" by force
  have chk: "check_block ex_rpt_env (rp_m ex_rpt) ''Resv'' (NewBool True) (Some 5) ex_rcb = None"
    by (simp add: check_block_def allowed_def nc rcbReadOnly_def NewBool_def)
  have r: "fold (run_op ex_rpt_env) [WriteAttr ''Resv'' (NewBool True) 5] (ex_rcb, ex_rpt) = (rs1, w1)"
    by (simp add: chk write_block_def t value_NewBool)
  have o: "rs_owner rs1 = Some 5" using t by (auto simp: take_block_def stopResvTimer_def Let_def split: if_splits)
  obtain rs2 w2 where r2: "fold (run_op ex_rpt_env) [WriteAttr ''OptFlds'' (NewBool True) 6, Disconnect 6, ResvTimer 0] (rs1, w1) = (rs2, w2)" by force
  show ?thesis using block_exclusive [OF _ _ nc(1) r o _ r2] r2 t by simp
qed

end
