(* ===== verification/SrvRptEntry.thy ===== *)
theory SrvRptEntry
  imports SrvRptResv
begin

text \<open>
  The content of reports: entries list data set members in ascending order with one value and one reason each,
  and every change of a member that the block's triggers ask for gets into one.
\<close>

unbundle bit_operations_syntax

section \<open>Well-formed entries\<close>

definition entry_ok :: "reportEntry \<Rightarrow> bool" where
  "entry_ok e = (sorted_wrt (<) (e_members e) \<and> length (e_values e) = length (e_members e) \<and> length (e_reasons e) = length (e_members e))"

lemma no_entry_simps [simp]: "e_members no_entry = []" "e_values no_entry = []" "e_reasons no_entry = []" "entry_ok no_entry"
  by (simp_all add: no_entry_def entry_ok_def)

lemma entry_ok_stamp [simp]: "entry_ok (e\<lparr>e_time := t\<rparr>) = entry_ok e" "entry_ok (e\<lparr>e_id := i\<rparr>) = entry_ok e"
  by (simp_all add: entry_ok_def)

lemma map_filter_fst_sorted:
  "(\<And>x y. f x = Some y \<Longrightarrow> fst y = fst x) \<Longrightarrow> sorted_wrt (<) (map fst xs) \<Longrightarrow> sorted_wrt (<) (map fst (List.map_filter f xs))"
proof (induction xs)
  case (Cons x xs)
  have "fst y \<in> set (map fst xs)" if "y \<in> set (List.map_filter f xs)" for y
    using that Cons.prems(1) by (auto simp: map_filter_def image_iff) (metis fst_conv option.collapse)
  then have "\<forall>y \<in> set (List.map_filter f xs). fst x < fst y" using Cons.prems(2) by fastforce
  moreover have "sorted_wrt (<) (map fst (List.map_filter f xs))" using Cons by simp
  ultimately show ?case using Cons.prems(1) [of x] by (cases "f x") (simp_all add: map_filter_simps)
qed (simp add: map_filter_simps)

lemma collect_ok: "entry_ok (collect m why members)"
proof -
  have "map fst (enumerate 0 members) = [0..<length members]" by simp
  then have "sorted_wrt (<) (map fst (enumerate 0 members))" by (simp add: sorted_wrt_upt)
  then show ?thesis unfolding collect_def Let_def entry_ok_def
    by (auto simp: comp_def split: if_splits intro!: map_filter_fst_sorted)
qed

text \<open>A member of an entry with its value and reason.\<close>

definition captured :: "nat \<Rightarrow> Value \<Rightarrow> ReasonCode \<Rightarrow> reportEntry \<Rightarrow> bool" where
  "captured i v r e = ((i, v, r) \<in> set (zip (e_members e) (zip (e_values e) (e_reasons e))))"

lemma captured_stamp [simp]: "captured i v r (e\<lparr>e_time := t\<rparr>) = captured i v r e" "captured i v r (e\<lparr>e_id := k\<rparr>) = captured i v r e"
  by (simp_all add: captured_def)

lemma zip_triple: "zip (map fst xs) (zip (map (fst \<circ> snd) xs) (map (snd \<circ> snd) xs)) = xs"
  by (induction xs) auto

lemma captured_triples:
  "captured i v r (e\<lparr>e_members := map fst xs, e_values := map (fst \<circ> snd) xs, e_reasons := map (snd \<circ> snd) xs\<rparr>) \<longleftrightarrow> (i, v, r) \<in> set xs"
  by (simp add: captured_def zip_triple)

lemma collect_captured:
  "captured i v r (collect m why members) \<longleftrightarrow> i < length members \<and> r = why (members ! i) \<and> r \<noteq> 0
     \<and> v = itemValue m (fst (members ! i)) (snd (members ! i)) \<and> v \<noteq> NilValue"
proof -
  define f where "f = (\<lambda>(i :: nat, mb). let r = why mb; v = itemValue m (fst mb) (snd mb) in if r = 0 \<or> v = NilValue then None else Some (i, value_Clone v, r))"
  have e: "(j, mb) \<in> set (enumerate 0 members) \<longleftrightarrow> j < length members \<and> mb = members ! j" for j mb
    by (auto simp: in_set_enumerate_eq)
  have mf: "y \<in> set (List.map_filter f xs) \<longleftrightarrow> (\<exists>x \<in> set xs. f x = Some y)" for y xs
    by (induction xs) (auto simp: map_filter_simps split: option.splits)
  have "collect m why members = no_entry\<lparr>e_members := map fst (List.map_filter f (enumerate 0 members)),
      e_values := map (fst \<circ> snd) (List.map_filter f (enumerate 0 members)), e_reasons := map (snd \<circ> snd) (List.map_filter f (enumerate 0 members))\<rparr>"
    by (simp add: collect_def f_def Let_def)
  then have "captured i v r (collect m why members) \<longleftrightarrow> (i, v, r) \<in> set (List.map_filter f (enumerate 0 members))"
    by (simp only: captured_triples)
  also have "\<dots> \<longleftrightarrow> (\<exists>j mb. (j, mb) \<in> set (enumerate 0 members) \<and> f (j, mb) = Some (i, v, r))" unfolding mf by auto
  also have "\<dots> \<longleftrightarrow> i < length members \<and> f (i, members ! i) = Some (i, v, r)" unfolding e by (auto simp: f_def Let_def split: if_splits)
  finally show ?thesis by (auto simp: f_def Let_def split: if_splits)
qed

section \<open>Merging\<close>

lemma insert_at_set: "k \<le> length xs \<Longrightarrow> set (insert_at k x xs) = insert x (set xs)" "k \<le> length xs \<Longrightarrow> length (insert_at k x xs) = Suc (length xs)"
proof -
  have "set xs = set (take k xs) \<union> set (drop k xs)" by (metis append_take_drop_id set_append)
  then show "k \<le> length xs \<Longrightarrow> set (insert_at k x xs) = insert x (set xs)" by (auto simp: insert_at_def)
qed (simp add: insert_at_def)

lemma insert_at_zip:
  "length xs = length ys \<Longrightarrow> zip (insert_at k x xs) (insert_at k y ys) = insert_at k (x, y) (zip xs ys)"
  by (simp add: insert_at_def zip_append take_zip drop_zip)

lemma member_at_le: "member_at i ms \<le> length ms"
  by (simp add: member_at_def length_takeWhile_le)

lemma insert_sorted:
  assumes "sorted_wrt (<) ms" "i \<notin> set ms" shows "sorted_wrt (<) (insert_at (member_at i ms) i ms)"
proof -
  have t: "take (member_at i ms) ms = takeWhile (\<lambda>m. m \<le> i) ms" "drop (member_at i ms) ms = dropWhile (\<lambda>m. m \<le> i) ms"
    by (simp_all add: member_at_def takeWhile_eq_take [symmetric] dropWhile_eq_drop [symmetric])
  have "x < i" if "x \<in> set (takeWhile (\<lambda>m. m \<le> i) ms)" for x
    using that assms(2) set_takeWhileD [OF that] by (metis le_neq_implies_less)
  moreover have "i < x" if x: "x \<in> set (dropWhile (\<lambda>m. m \<le> i) ms)" for x
  proof -
    obtain y ys where d: "dropWhile (\<lambda>m. m \<le> i) ms = y # ys" using x by (cases "dropWhile (\<lambda>m. m \<le> i) ms") auto
    then have "i < y" using hd_dropWhile [of "\<lambda>m. m \<le> i" ms] by simp
    moreover have "sorted_wrt (<) (y # ys)" using assms(1) t(2) d by (metis sorted_wrt_drop)
    ultimately show ?thesis using x d by auto
  qed
  moreover have "sorted_wrt (<) (takeWhile (\<lambda>m. m \<le> i) ms)" "sorted_wrt (<) (dropWhile (\<lambda>m. m \<le> i) ms)"
    using assms(1) t by (metis sorted_wrt_take, metis sorted_wrt_drop)
  ultimately show ?thesis unfolding insert_at_def t by (auto simp: sorted_wrt_append) (meson less_trans)
qed

lemma merge_members_ok:
  assumes "entry_ok p" "distinct ms" "set ms \<inter> set (e_members p) = {}" "length vs = length ms" "length rs = length ms"
  shows "entry_ok (merge_members ms vs rs p) \<and>
    set (zip (e_members (merge_members ms vs rs p)) (zip (e_values (merge_members ms vs rs p)) (e_reasons (merge_members ms vs rs p))))
      = set (zip (e_members p) (zip (e_values p) (e_reasons p))) \<union> set (zip ms (zip vs rs))"
  using assms
proof (induction ms vs rs p rule: merge_members.induct)
  case (1 i "is" v vs r rs p)
  let ?k = "member_at i (e_members p)"
  let ?p = "p\<lparr>e_members := insert_at ?k i (e_members p), e_values := insert_at ?k v (e_values p), e_reasons := insert_at ?k r (e_reasons p)\<rparr>"
  have k: "?k \<le> length (e_members p)" by (rule member_at_le)
  have "entry_ok ?p" using 1(2,4) k insert_sorted [of "e_members p" i] by (simp add: entry_ok_def insert_at_set)
  moreover have "set is \<inter> set (e_members ?p) = {}" using 1(3,4) k by (auto simp: insert_at_set)
  moreover have "set (zip (e_members ?p) (zip (e_values ?p) (e_reasons ?p))) = insert (i, v, r) (set (zip (e_members p) (zip (e_values p) (e_reasons p))))"
    using 1(2) k by (simp add: insert_at_zip insert_at_set entry_ok_def)
  ultimately show ?case using "1.IH" [of ?k] 1(3,5,6) by (simp add: Let_def)
qed auto

lemma distinct_sorted: "sorted_wrt (<) xs \<Longrightarrow> distinct (xs :: nat list)"
  by (induction xs) auto

lemma merge_entry_ok:
  assumes "entry_ok p" "entry_ok e" "\<not> overlaps (e_members p) (e_members e)"
  shows "entry_ok (merge_entry p e) \<and> (captured i v r (merge_entry p e) \<longleftrightarrow> captured i v r p \<or> captured i v r e)"
proof -
  have "set (e_members e) \<inter> set (e_members p) = {}" using assms(3) by (auto simp: overlaps_def list_ex_iff)
  then show ?thesis using merge_members_ok [OF assms(1), of "e_members e" "e_values e" "e_reasons e"] assms(2) distinct_sorted
    by (auto simp: merge_entry_def captured_def entry_ok_def)
qed

section \<open>Every entry of a block\<close>

definition entries_ok :: "string \<Rightarrow> rcbState \<times> rpt \<Rightarrow> bool" where
  "entries_ok key s = ((\<forall>t p. rs_pending (fst s) = Some (t, p) \<longrightarrow> entry_ok p) \<and> list_all entry_ok (rs_buffer (fst s))
     \<and> list_all (entry_ok \<circ> tr_entry) (own key (snd s)))"


lemma transmit_entries: "entries_ok key s \<Longrightarrow> entry_ok e \<Longrightarrow> entries_ok key (transmit env e s)"
proof (cases "rs_conn (fst s)")
  case None
  assume "entries_ok key s"
  then show ?thesis using None by (cases s) (simp add: transmit_def)
next
  case (Some c)
  assume ok: "entries_ok key s" "entry_ok e"
  obtain rs w where s: "s = (rs, w)" by force
  obtain rs' w' where t: "transmit env e (rs, w) = (rs', w')" by force
  obtain x where x: "rp_sent w' = rp_sent w @ [x]" "tr_entry x = e" "rs_buffer rs' = rs_buffer rs" "rs_pending rs' = rs_pending rs"
    using transmit_effect [OF t] Some s by (metis fst_conv)
  then show ?thesis using ok t s by (simp add: entries_ok_def own_def)
qed

lemma transmitBuffered_entries: "entries_ok key s \<Longrightarrow> entries_ok key (transmitBuffered env s)"
proof (induction env s rule: transmitBuffered.induct)
  case (1 env s)
  show ?case
  proof (cases "rs_next (fst s) < length (rs_buffer (fst s))")
    case True
    obtain rs w where t: "transmit env (rs_buffer (fst s) ! rs_next (fst s)) s = (rs, w)" by force
    have "entry_ok (rs_buffer (fst s) ! rs_next (fst s))" using "1.prems" True by (simp add: entries_ok_def list_all_length)
    then have "entries_ok key (rs, w)" using transmit_entries [OF "1.prems"] t by metis
    then have "entries_ok key (rs\<lparr>rs_next := rs_next rs + 1\<rparr>, w)" by (simp add: entries_ok_def)
    then show ?thesis using "1.IH" [OF True t [symmetric]] by (subst transmitBuffered.simps) (simp add: True t del: One_nat_def)
  qed (use "1.prems" in \<open>subst transmitBuffered.simps, simp\<close>)
qed

lemma trim_suffix: "\<exists>n. rs_buffer (trim rs) = drop n (rs_buffer rs)"
proof (induction rs rule: trim.induct)
  case (1 rs)
  show ?case
  proof (cases "length (rs_buffer rs) > rs_maxBuffer rs")
    case True
    then show ?thesis using 1 by (subst trim.simps) (auto simp: drop_Suc [symmetric])
  next
    case False
    then show ?thesis by (intro exI [of _ 0], subst trim.simps) simp
  qed
qed

lemma emit_entries:
  assumes "entries_ok key s" "entry_ok e" shows "entries_ok key (emit env e s)"
proof -
  obtain rs w where s: "s = (rs, w)" by force
  obtain k w1 where k: "next_call w = (k, w1)" by force
  then have 1: "entries_ok key (rs, w1)" using assms(1) quiet_own [OF next_call_frame [OF k], of key] by (simp add: s entries_ok_def)
  define e1 where "e1 = e\<lparr>e_time := re_clock env k\<rparr>"
  have e1: "entry_ok e1" using assms(2) by (simp add: e1_def)
  obtain i w2 where i: "nextEntryID env w1 = (i, w2)" by force
  then have w2: "rp_sent w2 = rp_sent w1" by (auto simp: nextEntryID_def Let_def)
  have 2: "entries_ok key (trim (rs\<lparr>rs_buffer := rs_buffer rs @ [e1\<lparr>e_id := i\<rparr>]\<rparr>), w2\<lparr>rp_m := m, rp_committed := l\<rparr>)" for m l
  proof -
    obtain n where "rs_buffer (trim (rs\<lparr>rs_buffer := rs_buffer rs @ [e1\<lparr>e_id := i\<rparr>]\<rparr>)) = drop n (rs_buffer rs @ [e1\<lparr>e_id := i\<rparr>])"
      using trim_suffix [of "rs\<lparr>rs_buffer := rs_buffer rs @ [e1\<lparr>e_id := i\<rparr>]\<rparr>"] by auto
    then have "list_all entry_ok (rs_buffer (trim (rs\<lparr>rs_buffer := rs_buffer rs @ [e1\<lparr>e_id := i\<rparr>]\<rparr>)))"
      using 1 e1 in_set_dropD by (fastforce simp: entries_ok_def list_all_iff)
    then show ?thesis using 1 w2 by (simp add: entries_ok_def own_def)
  qed
  show ?thesis using 1 2 transmit_entries [OF 1 e1, of env] transmitBuffered_entries [OF 2, of env]
    by (simp add: emit_def s k i Let_def e1_def [symmetric])
qed

lemma flushPending_entries: "entries_ok key s \<Longrightarrow> entries_ok key (flushPending env s)"
proof (cases "rs_pending (fst s)")
  case (Some tp)
  assume ok: "entries_ok key s"
  obtain rs w t p where s: "s = (rs, w)" "tp = (t, p)" by (metis prod.exhaust)
  have "entries_ok key (rs\<lparr>rs_pending := None\<rparr>, w)" "entry_ok p" using ok Some s by (simp_all add: entries_ok_def)
  then show ?thesis using emit_entries Some s by (simp add: flushPending_def Let_def)
qed (cases s, simp add: flushPending_def)

lemma transmit_pending: "rs_pending (fst (transmit env e s)) = rs_pending (fst s)"
  by (cases s) (simp add: transmit_def setSqNum_def Let_def split: option.splits prod.splits)

lemma transmitBuffered_pending: "rs_pending (fst (transmitBuffered env s)) = rs_pending (fst s)"
proof (induction env s rule: transmitBuffered.induct)
  case (1 env s)
  show ?case
  proof (cases "rs_next (fst s) < length (rs_buffer (fst s))")
    case True
    obtain rs w where t: "transmit env (rs_buffer (fst s) ! rs_next (fst s)) s = (rs, w)" by force
    then have "rs_pending rs = rs_pending (fst s)" using transmit_pending [of env "rs_buffer (fst s) ! rs_next (fst s)" s] by simp
    then show ?thesis using "1.IH" [OF True t [symmetric]] by (subst transmitBuffered.simps) (simp add: True t del: One_nat_def)
  qed (subst transmitBuffered.simps, simp)
qed

lemma emit_pending: "rs_pending (fst (emit env e s)) = rs_pending (fst s)"
  by (cases s) (simp add: emit_def Let_def transmit_pending transmitBuffered_pending split: prod.splits)

lemma flushPending_none: "rs_pending (fst (flushPending env s)) = None"
  by (cases s) (simp add: flushPending_def emit_pending Let_def split: option.splits prod.splits)

text \<open>The two steps of an event before it is merged: the entry that waits afterwards is well-formed and has none of
  the event's members.\<close>

lemma event_waits:
  assumes "entries_ok key s" "entry_ok e" "attr_millis (rp_m (snd s)) (fst s) ''BufTm'' > 0"
  obtains t p where "entries_ok key (event env e s)" "rs_pending (fst (event env e s)) = Some (t, merge_entry p e)" "entry_ok p"
    "\<not> overlaps (e_members p) (e_members e)"
proof -
  obtain rs w where s: "s = (rs, w)" by force
  obtain r1 w1 where f: "(case rs_pending rs of Some (_, p) \<Rightarrow> if overlaps (e_members p) (e_members e) then flushPending env (rs, w) else (rs, w)
      | None \<Rightarrow> (rs, w)) = (r1, w1)" by force
  have 1: "entries_ok key (r1, w1)" "\<forall>t p. rs_pending r1 = Some (t, p) \<longrightarrow> \<not> overlaps (e_members p) (e_members e)"
    using f assms(1) s flushPending_entries [OF assms(1), of env] flushPending_none [of env "(rs, w)"] by (auto split: option.splits if_splits)
  obtain r2 w2 where g: "(case rs_pending r1 of Some _ \<Rightarrow> (r1, w1) | None \<Rightarrow> let (t, w) = next_call w1 in (r1\<lparr>rs_pending := Some (t, no_entry)\<rparr>, w)) = (r2, w2)" by force
  obtain t p where p: "rs_pending r2 = Some (t, p)" "entry_ok p" "\<not> overlaps (e_members p) (e_members e)" "rs_buffer r2 = rs_buffer r1" "own key w2 = own key w1"
  proof (cases "rs_pending r1")
    case None
    then show ?thesis using g that [of "rp_calls w1" no_entry] by (auto simp: next_call_def overlaps_def own_def)
  next
    case (Some tp)
    then show ?thesis using g 1 that by (cases tp) (auto simp: entries_ok_def)
  qed
  have ev: "event env e s = (r2\<lparr>rs_pending := Some (t, merge_entry p e)\<rparr>, w2)" using assms(3) f g p(1) by (simp add: event_def s Let_def)
  show thesis using that [of t p] merge_entry_ok [OF p(2) assms(2) p(3)] 1(1) p by (simp add: ev entries_ok_def)
qed

lemma event_entries: "entries_ok key s \<Longrightarrow> entry_ok e \<Longrightarrow> entries_ok key (event env e s)"
proof (cases "attr_millis (rp_m (snd s)) (fst s) ''BufTm'' \<le> 0")
  case True
  assume "entries_ok key s" "entry_ok e"
  then show ?thesis using True emit_entries [of key s e env] by (cases s) (simp add: event_def)
qed (use event_waits in \<open>force simp: not_le\<close>)

lemma reportAll_entries: "entries_ok key s \<Longrightarrow> entries_ok key (reportAll env why s)"
proof -
  assume ok: "entries_ok key s"
  obtain r1 w1 where f: "flushPending env s = (r1, w1)" by force
  have "entries_ok key (r1, w1)" using flushPending_entries [OF ok, of env] f by simp
  then show ?thesis using emit_entries [OF _ collect_ok] by (simp add: reportAll_def f Let_def)
qed


lemma entries_frame:
  "entries_ok key (rs, w) \<Longrightarrow> rs_pending rs' = rs_pending rs \<Longrightarrow> rs_buffer rs' = rs_buffer rs \<Longrightarrow> quiet w w' \<Longrightarrow> entries_ok key (rs', w')"
  using quiet_own [of w w' key] by (simp add: entries_ok_def)

lemma owner_entries:
  assumes "entries_ok key s"
  shows "entries_ok key (take_block env c s)" "entries_ok key (release env s)" "entries_ok key (resv_expires env t s)"
proof -
  obtain rs w where s: "s = (rs, w)" by force
  note ok = assms [unfolded s]
  show "entries_ok key (take_block env c s)"
    using take_block_frame [of env c rs w] by (cases "take_block env c s") (auto simp: s kept_def intro: entries_frame [OF ok])
  show "entries_ok key (release env s)"
    using release_frame [of env rs w] by (cases "release env s") (auto simp: s kept_def intro: entries_frame [OF ok])
  show "entries_ok key (resv_expires env t s)"
    using resv_expires_frame [of env t rs w] by (cases "resv_expires env t s") (auto simp: s kept_def intro: entries_frame [OF ok])
qed

lemma enable_entries: "entries_ok key s \<Longrightarrow> entries_ok key (enable env c s)"
proof -
  assume ok: "entries_ok key s"
  obtain rs w where s: "s = (rs, w)" by force
  define r0 where "r0 = rs\<lparr>rs_enabled := True, rs_conn := c\<rparr>"
  have 0: "entries_ok key (r0, w)" using ok by (simp add: s r0_def entries_ok_def)
  obtain r1 w1 where 1: "(if rs_owner r0 \<noteq> c then take_block env c (r0, w) else (r0, w)) = (r1, w1)" by force
  have e1: "entries_ok key (r1, w1)" using 1 0 owner_entries(1) [OF 0, of env c] by (auto split: if_splits)
  obtain r2 w2 where 2: "setSqNum 0 (r1, w1) = (r2, w2)" by force
  define r3 where "r3 = stopIntegrity r2"
  have e3: "entries_ok key (r3, w2)" using setSqNum_frame [OF 2] by (intro entries_frame [OF e1]) (auto simp: r3_def stopIntegrity_def kept_def)
  have "entries_ok key (resume r3, w2)" by (rule entries_frame [OF e3]) (auto simp: resume_def quiet_def Let_def split: option.splits)
  then have "entries_ok key (transmitBuffered env (resume r3, w2))" by (rule transmitBuffered_entries)
  moreover obtain r4 w4 where 4: "(if rc_Buffered (rs_rc r3) then transmitBuffered env (resume r3, w2) else (r3, w2)) = (r4, w4)" by force
  ultimately have e4: "entries_ok key (r4, w4)" using e3 by (auto split: if_splits)
  have "enable env c s = (if attr_millis (rp_m w4) r4 ''IntgPd'' > 0 \<and> rs_trgOps (rp_m w4) r4 AND TrgIntegrity \<noteq> 0
        then (let (t, w) = next_call w4 in (r4\<lparr>rs_intgStop := Some t\<rparr>, w)) else (r4, w4))"
    unfolding enable_def s by (simp only: prod.case Let_def r0_def [symmetric] 1 2 r3_def [symmetric] 4)
  then show ?thesis using e4 by (auto simp: next_call_def entries_ok_def own_def)
qed

lemma disable_entries: "entries_ok key s \<Longrightarrow> entries_ok key (disable env s)"
proof -
  assume ok: "entries_ok key s"
  obtain r1 w1 where f: "flushPending env s = (r1, w1)" by force
  have "entries_ok key (r1, w1)" using flushPending_entries [OF ok, of env] f by simp
  then have 2: "entries_ok key (stopIntegrity (r1\<lparr>rs_enabled := False, rs_conn := None\<rparr>), w1)"
    by (rule entries_frame) (simp_all add: stopIntegrity_def quiet_def)
  then show ?thesis using owner_entries(2) [OF 2, of env] by (simp add: disable_def f Let_def)
qed

lemma write_block_entries:
  assumes ok: "entries_ok key s" shows "entries_ok key (write_block env attr v c s)"
proof -
  obtain r1 w1 where o: "(if rs_owner (fst s) = None then take_block env c s else s) = (r1, w1)" by force
  have o1: "entries_ok key (r1, w1)" using o ok owner_entries(1) [OF ok, of env c] by (auto split: if_splits)
  obtain r2 w2 where g: "(if value_Bool v \<and> rs_trgOps (rp_m w1) r1 AND TrgGI \<noteq> 0 then reportAll env ReasonGI (r1, w1) else (r1, w1)) = (r2, w2)" by force
  then have g1: "entries_ok key (r2, w2)" using o1 reportAll_entries [OF o1, of env ReasonGI] by (auto split: if_splits)
  have m: "entries_ok key (r, w\<lparr>rp_m := m\<rparr>)" if "entries_ok key (r, w)" for r w m using that by (simp add: entries_ok_def own_def)
  have oth: "entries_ok key (stopResvTimer r1, w1)" "entries_ok key (purge r1, w1)" "entries_ok key (r1\<lparr>rs_resyncID := x\<rparr>, w1)" for x
    using o1 by (simp_all add: entries_ok_def stopResvTimer_def purge_def)
  show ?thesis
    using o1 oth m [OF g1] m [OF o1] m [OF oth(2)] enable_entries [OF o1, of env c] disable_entries [OF o1, of env] owner_entries(1) [OF ok, of env c] owner_entries(2) [OF ok, of env]
    unfolding write_block_def Let_def o prod.case g by (simp split: if_splits)
qed

lemma run_op_entries: "entries_ok (rs_key (fst s)) s \<Longrightarrow> entries_ok (rs_key (fst s)) (run_op env op s)"
proof (cases op)
  case (Change cs)
  assume "entries_ok (rs_key (fst s)) s"
  then show ?thesis using Change event_entries [OF _ collect_ok] by (cases s) (simp add: update_block_def Let_def)
next
  case (PendTimer t)
  assume "entries_ok (rs_key (fst s)) s"
  then show ?thesis using PendTimer flushPending_entries [of _ s env] by (cases s) (simp add: pend_expires_def split: option.splits)
next
  case (Disconnect c)
  assume ok: "entries_ok (rs_key (fst s)) s"
  have "entries_ok (rs_key (fst s)) (if rs_conn (fst s) = Some c then disable env s else s)" using ok disable_entries by simp
  then show ?thesis using Disconnect owner_entries(2) by (auto simp: disconnect_block_def Let_def)
next
  case (Others m n k ts es)
  assume "entries_ok (rs_key (fst s)) s"
  then show ?thesis using Others by (cases s) (auto simp: entries_ok_def own_def)
qed (use write_block_entries owner_entries(3) reportAll_entries in \<open>auto simp: integrity_tick_def\<close>)

lemma enable_key: "rs_key (fst (enable env c s)) = rs_key (fst s)"
proof -
  obtain rs w where s: "s = (rs, w)" by force
  define r0 where "r0 = rs\<lparr>rs_enabled := True, rs_conn := c\<rparr>"
  obtain r1 w1 where 1: "(if rs_owner r0 \<noteq> c then take_block env c (r0, w) else (r0, w)) = (r1, w1)" by force
  obtain r2 w2 where 2: "setSqNum 0 (r1, w1) = (r2, w2)" by force
  define r3 where "r3 = stopIntegrity r2"
  have "rs_key r1 = rs_key rs" using 1 take_block_frame [of env c r0 w r1 w1] by (auto simp: kept_def r0_def rs_key_def split: if_splits)
  then have k3: "rs_key (resume r3) = rs_key rs" "rs_key r3 = rs_key rs"
    using setSqNum_frame [OF 2] by (simp_all add: resume_def rs_key_def r3_def stopIntegrity_def kept_def Let_def split: option.splits)
  obtain r4 w4 where 4: "(if rc_Buffered (rs_rc r3) then transmitBuffered env (resume r3, w2) else (r3, w2)) = (r4, w4)" by force
  have "rs_key r4 = rs_key rs" using 4 k3 numbers_key [OF transmitBuffered_numbers [of "(resume r3, w2)" "rs_key rs" env]] by (auto split: if_splits)
  moreover have "enable env c s = (if attr_millis (rp_m w4) r4 ''IntgPd'' > 0 \<and> rs_trgOps (rp_m w4) r4 AND TrgIntegrity \<noteq> 0
        then (let (t, w) = next_call w4 in (r4\<lparr>rs_intgStop := Some t\<rparr>, w)) else (r4, w4))"
    unfolding enable_def s by (simp only: prod.case Let_def r0_def [symmetric] 1 2 r3_def [symmetric] 4)
  ultimately show ?thesis by (auto simp: next_call_def rs_key_def s)
qed

lemma transmit_committed: "rp_committed (snd (transmit env e s)) = rp_committed (snd s)"
  by (cases s) (simp add: transmit_def setSqNum_def Let_def split: option.splits prod.splits)

lemma transmitBuffered_committed: "rp_committed (snd (transmitBuffered env s)) = rp_committed (snd s)"
proof (induction env s rule: transmitBuffered.induct)
  case (1 env s)
  show ?case
  proof (cases "rs_next (fst s) < length (rs_buffer (fst s))")
    case True
    obtain rs w where t: "transmit env (rs_buffer (fst s) ! rs_next (fst s)) s = (rs, w)" by force
    then have "rp_committed w = rp_committed (snd s)" using transmit_committed [of env "rs_buffer (fst s) ! rs_next (fst s)" s] by simp
    then show ?thesis using "1.IH" [OF True t [symmetric]] by (subst transmitBuffered.simps) (simp add: True t del: One_nat_def)
  qed (subst transmitBuffered.simps, simp)
qed

lemma emit_commits:
  assumes "emit env e (rs, w) = (rs', w')" "rc_Buffered (rs_rc rs)"
  shows "\<exists>i. committed (rs_key rs) w' = committed (rs_key rs) w @ [e\<lparr>e_time := re_clock env (fst (next_call w)), e_id := i\<rparr>]"
proof -
  obtain k w1 where k: "next_call w = (k, w1)" by force
  obtain i w2 where i: "nextEntryID env w1 = (i, w2)" by force
  have w2: "rp_committed w2 = rp_committed w" using k i by (auto simp: next_call_def nextEntryID_def Let_def)
  have "rp_committed w' = rp_committed w @ [(rs_key rs, e\<lparr>e_time := re_clock env k, e_id := i\<rparr>)]"
    using assms transmitBuffered_committed [of env] w2
    by (auto simp: emit_def k i Let_def rs_key_def split: if_splits dest!: arg_cong [of _ _ snd])
  then show ?thesis by (auto simp: committed_def k)
qed

lemma run_op_key: "rs_key (fst (run_op env op s)) = rs_key (fst s)"
proof (cases "enables op")
  case False
  then show ?thesis using run_op_numbers [OF refl, of op s env] numbers_key by blast
next
  case True
  then obtain attr v c where op: "op = WriteAttr attr v c" "attr = ''RptEna''" "value_Bool v" by (cases op) auto
  obtain r1 w1 where o: "(if rs_owner (fst s) = None then take_block env (Some c) s else s) = (r1, w1)" by force
  have k1: "rs_key r1 = rs_key (fst s)" using o take_block_frame [of env "Some c" "fst s" "snd s" r1 w1] by (auto simp: kept_def split: if_splits)
  have "rs_key (fst (enable env (Some c) (r1, w1))) = rs_key r1" by (simp add: enable_key)
  then show ?thesis using op o k1 by (simp add: write_block_def Let_def)
qed

lemma fold_entries: "entries_ok (rs_key (fst s)) s \<Longrightarrow> entries_ok (rs_key (fst s)) (fold (run_op env) ops s) \<and> rs_key (fst (fold (run_op env) ops s)) = rs_key (fst s)"
proof (induction ops arbitrary: s)
  case (Cons op ops)
  then show ?case using run_op_entries [OF Cons.prems, of env op] Cons.IH [of "run_op env op s"] by (simp add: run_op_key)
qed simp

section \<open>Reasons\<close>

text \<open>A change concerns a member when it is of its functional constraint, at its place, below it or above it.\<close>

definition concerns :: "change \<Rightarrow> string \<times> string \<Rightarrow> bool" where
  "concerns c mb = (case FromMMS (fst mb) (snd mb) of (ref, fc) \<Rightarrow> snd c = fc \<and> (fst c = ref \<or> below (fst c) ref \<or> below ref (fst c)))"

lemma memberReason_bit:
  "bit (memberReason changes mb) n \<longleftrightarrow> (\<exists>(c, t) \<in> set changes. concerns c mb \<and> bit t n)"
proof -
  obtain ref fc where r: "FromMMS (fst mb) (snd mb) = (ref, fc)" by force
  have "bit (fold (\<lambda>((cref, cfc), t) r. if cfc = fc \<and> (cref = ref \<or> below cref ref \<or> below ref cref) then r OR t else r) changes (x :: TrgOps)) n
      \<longleftrightarrow> bit x n \<or> (\<exists>(c, t) \<in> set changes. concerns c mb \<and> bit t n)" for x
    by (induction changes arbitrary: x) (auto simp: concerns_def r bit_simps split: prod.splits)
  then show ?thesis by (simp add: memberReason_def r)
qed

section \<open>Properties\<close>

text \<open>(C9) No change is missed. In a state that a block can reach from an empty one, if a change raises a reason the block's
  triggers ask for, at a member of its data set or below or above it, and the member can be read, then the
  update puts the member with its present value into a report: the one that waits for the end of the buffer
  time, or without one the next entry of the buffer, or for an unbuffered block the report sent.\<close>

theorem change_captured:
  assumes "rs_pending rs0 = None" "rs_buffer rs0 = []" "own (rs_key rs0) w0 = []" "fold (run_op env) ops (rs0, w0) = (rs, w)"
    and "((c, t) \<in> set changes)" "concerns c (rcb_members env (rp_m w) rs ! i)" "i < length (rcb_members env (rp_m w) rs)"
    "bit (t AND rs_trgOps (rp_m w) rs AND (TrgDataChange OR TrgQualityChange OR TrgDataUpdate)) n"
    "v = itemValue (rp_m w) (fst (rcb_members env (rp_m w) rs ! i)) (snd (rcb_members env (rp_m w) rs ! i))" "v \<noteq> NilValue"
    and "rc_Buffered (rs_rc rs) \<or> rs_enabled rs \<and> rs_conn rs \<noteq> None" "update_block env changes (rs, w) = (rs', w')"
  shows "\<exists>r e. bit r n \<and> captured i v r e \<and>
    (if attr_millis (rp_m w) rs ''BufTm'' > 0 then \<exists>tm. rs_pending rs' = Some (tm, e)
     else if rc_Buffered (rs_rc rs) then committed (rs_key rs) w' = committed (rs_key rs) w @ [e]
     else \<exists>x. own (rs_key rs) w' = own (rs_key rs) w @ [x] \<and> tr_entry x = e)"
proof -
  define ms where "ms = rcb_members env (rp_m w) rs"
  define want where "want = rs_trgOps (rp_m w) rs AND (TrgDataChange OR TrgQualityChange OR TrgDataUpdate)"
  define r where "r = memberReason changes (ms ! i) AND want"
  define e where "e = collect (rp_m w) (\<lambda>mb. memberReason changes mb AND want) ms"
  have ok: "entries_ok (rs_key rs0) (rs, w)" "rs_key rs = rs_key rs0"
    using fold_entries [of "(rs0, w0)" env ops] assms(1-4) by (simp_all add: entries_ok_def)
  have bn: "bit r n" using assms(5,6,8) by (auto simp: r_def want_def bit_and_iff memberReason_bit ms_def)
  then have "r \<noteq> 0" by auto
  then have cap: "captured i v r e" using assms(7,9,10) by (simp add: e_def collect_captured r_def ms_def)
  then have ne: "e_members e \<noteq> []" by (auto simp: captured_def)
  have u: "event env e (rs, w) = (rs', w')"
    using assms(11,12) ne unfolding update_block_def by (auto simp: Let_def e_def want_def ms_def)
  have eo: "entry_ok e" by (simp add: e_def collect_ok)
  show ?thesis
  proof (cases "attr_millis (rp_m w) rs ''BufTm'' > 0")
    case True
    have "attr_millis (rp_m (snd (rs, w))) (fst (rs, w)) ''BufTm'' > 0" using True by simp
    from event_waits [OF ok(1) eo this, of env]
    obtain tm p where p: "rs_pending rs' = Some (tm, merge_entry p e)" "entry_ok p" "\<not> overlaps (e_members p) (e_members e)"
      unfolding u by (metis fst_conv)
    have "captured i v r (merge_entry p e)" using merge_entry_ok [OF p(2) eo p(3)] cap by blast
    then show ?thesis using bn p(1) True by auto
  next
    case False
    then have em: "emit env e (rs, w) = (rs', w')" using u by (simp add: event_def)
    obtain k w1 where k: "next_call w = (k, w1)" by force
    show ?thesis
    proof (cases "rc_Buffered (rs_rc rs)")
      case True
      have "\<exists>i. committed (rs_key rs) w' = committed (rs_key rs) w @ [e\<lparr>e_time := re_clock env k, e_id := i\<rparr>]"
        using emit_commits [OF em True] k by simp
      then obtain j where "committed (rs_key rs) w' = committed (rs_key rs) w @ [e\<lparr>e_time := re_clock env k, e_id := j\<rparr>]" by blast
      moreover have "captured i v r (e\<lparr>e_time := re_clock env k, e_id := j\<rparr>)" using cap by simp
      ultimately show ?thesis using True False bn by auto
    next
      case unb: False
      then obtain c where c: "rs_enabled rs" "rs_conn rs = Some c" using assms(11) by auto
      have "transmit env (e\<lparr>e_time := re_clock env k\<rparr>) (rs, w1) = (rs', w')" using em unb c by (simp add: emit_def k Let_def)
      then obtain x where x: "rp_sent w' = rp_sent w1 @ [x]" "tr_key x = rs_key rs" "tr_entry x = e\<lparr>e_time := re_clock env k\<rparr>"
        using transmit_effect [OF _ c(2)] by metis
      then have "own (rs_key rs) w' = own (rs_key rs) w @ [x]" using next_call_frame [OF k] by (simp add: own_def quiet_def)
      then show ?thesis using unb False bn cap x(3) by (intro exI [of _ r] exI [of _ "tr_entry x"]) auto
    qed
  qed
qed

lemma ex_concerns: "concerns (''LD1/GGIO1.Ind1.stVal'', fc_ST) (''LD1'', ''GGIO1$ST$Ind1$stVal'')"
  by code_simp

theorem change_captured_witness:
  "\<exists>rs' w' r e. update_block ex_rpt_env [((''LD1/GGIO1.Ind1.stVal'', fc_ST), 2)] (ex_rcb, ex_rpt\<lparr>rp_m := ex_rpt_model\<rparr>) = (rs', w')
    \<and> bit r 1 \<and> captured 0 (NewBool True) r e \<and> committed (rs_key ex_rcb) w' = [e]"
proof -
  let ?w = "ex_rpt\<lparr>rp_m := ex_rpt_model\<rparr>"
  obtain rs' w' where u: "update_block ex_rpt_env [((''LD1/GGIO1.Ind1.stVal'', fc_ST), 2)] (ex_rcb, ?w) = (rs', w')" by force
  have o: "own (rs_key ex_rcb) ?w = []" "committed (rs_key ex_rcb) ?w = []" by (simp_all add: own_def committed_def ex_rpt_def)
  have b: "bit (2 AND rs_trgOps (rp_m ?w) ex_rcb AND (TrgDataChange OR TrgQualityChange OR TrgDataUpdate)) 1"
    by (simp add: ex_trgOps TrgDataChange_def TrgQualityChange_def TrgDataUpdate_def bit_simps)
  have m: "attr_millis ex_rpt_model ex_rcb ''BufTm'' = 0" by (simp add: attr_millis_def attrUint_def ex_rcb_attrs value_Uint64_def uint64_of_def)
  from change_captured [of ex_rcb ?w ex_rpt_env "[]" ex_rcb ?w "(''LD1/GGIO1.Ind1.stVal'', fc_ST)" 2 "[((''LD1/GGIO1.Ind1.stVal'', fc_ST), 2)]" 0 1 "NewBool True" rs' w']
  show ?thesis using u o b m by (simp add: ex_rcb_ref ex_rcb_members ex_item_value ex_concerns) (simp add: NewBool_def)
qed

end
