(* ===== verification/ClientReport.thy ===== *)
theory ClientReport
  imports SrvRptEntry MmsServices
begin

text \<open>
  The client side of reports (\<^verbatim>\<open>mms/report.go\<close> and \<^verbatim>\<open>client/report.go\<close>): decoding an InformationReport and the
  report in it, and the composition with the server: what a client makes of the PDUs the report engine sends.
\<close>

unbundle bit_operations_syntax

section \<open>Information reports\<close>

record InformationReport =
  ir_ListName :: string
  ir_VarNames :: "string list"
  ir_Values :: "Value list"
  ir_IsVMDNamed :: bool
  ir_ListRef :: VarRef
  ir_VarRefs :: "VarRef list"

definition no_ref :: VarRef where "no_ref = \<lparr>vr_Domain = [], vr_Item = []\<rparr>"

text \<open>The loops that end at the first error and keep what they have. Every element takes octets, so as many steps
  as there are octets are enough.\<close>

fun read_prefix :: "nat \<Rightarrow> (Decoder \<Rightarrow> ('e, 'a) result \<times> Decoder) \<Rightarrow> Decoder \<Rightarrow> 'a list" where
  "read_prefix 0 f d = []"
| "read_prefix (Suc n) f d =
     (if \<not> More d then []
      else case f d of (Inl e, _) \<Rightarrow> [] | (Inr x, d') \<Rightarrow> x # read_prefix n f d')"

definition read_varspec :: "Decoder \<Rightarrow> (client_error, VarRef) result \<times> Decoder" where
  "read_varspec d =
     (case ReadTLV d of
        (Inl e, d') \<Rightarrow> (from_ber (Inl e), d')
      | (Inr (tag, vs), d') \<Rightarrow>
          (rbind (if tag = TagSequence then from_ber (fst (ReadTLV (NewDecoder vs))) else Inr (tag, vs)) (\<lambda>(tag, vs).
             Inr (if tag = ContextConstructed 0 then (case mms_parseObjectName vs of Inr r \<Rightarrow> r | Inl _ \<Rightarrow> no_ref) else no_ref)), d'))"

definition parseVarSpecList :: "byte list \<Rightarrow> VarRef list" where
  "parseVarSpecList content = read_prefix (length content) read_varspec (NewDecoder content)"

text \<open>\<^verbatim>\<open>_, c, _ := dec.ReadTLV()\<close>\<close>

definition content_or_nil :: "(ber_error, Tag \<times> byte list) result \<Rightarrow> byte list" where
  "content_or_nil r = (case r of Inr (_, c) \<Rightarrow> c | Inl _ \<Rightarrow> [])"

definition parseInformationReport :: "byte list \<Rightarrow> InformationReport option" where
  "parseInformationReport body =
     (let dec = NewDecoder body;
          rep = \<lparr>ir_ListName = [], ir_VarNames = [], ir_Values = [], ir_IsVMDNamed = False, ir_ListRef = no_ref, ir_VarRefs = []\<rparr> in
      case Peek dec of
        Inl _ \<Rightarrow> None
      | Inr spec \<Rightarrow>
          let (rep, dec) =
                (if spec = ContextConstructed 0 then
                   (let (r, dec) = ReadTLV dec; refs = parseVarSpecList (content_or_nil r)
                    in (rep\<lparr>ir_VarRefs := refs, ir_VarNames := map vr_Item refs\<rparr>, dec))
                 else if spec = ContextConstructed 1 then
                   (let (r, dec) = ReadTLV dec; rep = rep\<lparr>ir_IsVMDNamed := True\<rparr>
                    in (case mms_parseObjectName (content_or_nil r) of
                          Inr ref \<Rightarrow> rep\<lparr>ir_ListRef := ref, ir_ListName := vr_Item ref\<rparr> | Inl _ \<Rightarrow> rep, dec))
                 else (rep, snd (Skip dec)))
          in (case optional_ignoring (fst (Optional (ContextConstructed 0) dec)) of
                None \<Rightarrow> Some rep
              | Some ar \<Rightarrow> Some (rep\<lparr>ir_Values := read_prefix (length ar) DecodeAccessResult (NewDecoder ar)\<rparr>)))"

text \<open>What the report handlers of a connection are given, if anything.\<close>

definition handleUnconfirmed :: "byte list \<Rightarrow> InformationReport option" where
  "handleUnconfirmed content =
     (case fst (ReadTLV (NewDecoder content)) of
        Inl _ \<Rightarrow> None
      | Inr (tag, body) \<Rightarrow> if tag \<noteq> ContextConstructed 0 then None else parseInformationReport body)"

section \<open>Reports\<close>

record ReportEntry =
  ce_Index :: nat
  ce_Ref :: ObjectReference
  ce_FC :: FC
  ce_Reason :: ReasonCode
  ce_Value :: Value

record Report =
  rep_RptID :: "byte list"
  rep_SeqNum :: nat
  rep_DataSet :: "byte list"
  rep_ConfRev :: nat
  rep_EntryID :: "byte list"
  rep_BufOvfl :: bool
  rep_SubSeqNum :: nat
  rep_MoreFollows :: bool
  rep_TimeOfEntry :: "Time option"
  rep_Entries :: "ReportEntry list"

text \<open>The closure \<^verbatim>\<open>next\<close>, nil past the end.\<close>

definition pop :: "Value list \<Rightarrow> Value \<times> Value list" where
  "pop vs = (case vs of [] \<Rightarrow> (NilValue, []) | v # vs \<Rightarrow> (v, vs))"

fun pops :: "nat \<Rightarrow> Value list \<Rightarrow> Value list \<times> Value list" where
  "pops 0 vs = ([], vs)"
| "pops (Suc n) vs = (let (x, vs) = pop vs; (xs, vs) = pops n vs in (x # xs, vs))"

definition field :: "bool \<Rightarrow> (Value \<Rightarrow> 'a) \<Rightarrow> 'a \<Rightarrow> Value list \<Rightarrow> 'a \<times> Value list" where
  "field present get zero vs = (if present then (let (x, vs) = pop vs in (get x, vs)) else (zero, vs))"

definition text_with :: "(Value \<Rightarrow> byte list) \<Rightarrow> Value \<Rightarrow> byte list" where
  "text_with str v =
     (if v = NilValue then []
      else if value_Type v = TypeVisibleString \<or> value_Type v = TypeMMSString \<or> value_Type v = TypeGeneralizedTime then value_Bytes v
      else str v)"

definition included_bits :: "Value \<Rightarrow> nat list" where
  "included_bits v = filter (\<lambda>b. value_Bit v (int b) = Inr True) [0..<nat (value_BitLen v)]"

text \<open>The reference of an included member, by position in the data set or by the reference sent along.\<close>

definition entry_ref :: "VarRef list \<Rightarrow> byte list list \<Rightarrow> nat \<Rightarrow> nat \<Rightarrow> ObjectReference \<times> FC" where
  "entry_ref members dataRefs k idx =
     (if idx < length members then FromMMS (vr_Domain (members ! idx)) (vr_Item (members ! idx))
      else if k < length dataRefs then
        (case cut (CHR ''/'') (string_of (dataRefs ! k)) of
           (domain, item, ok) \<Rightarrow> if ok then FromMMS domain item else ([], FCNone))
      else ([], FCNone))"

definition decodeReport :: "(Value \<Rightarrow> byte list) \<Rightarrow> InformationReport \<Rightarrow> VarRef list \<Rightarrow> Report option" where
  "decodeReport str ir members =
     (let v = ir_Values ir in
      if length v < 3 then None
      else
        let (rptID, v) = pop v; (o', v) = pop v;
            opt = flags_of (OptFldsFromValue o'); has = (\<lambda>f. opt AND f \<noteq> 0);
            (seqNum, v) = field (has OptSeqNum) (\<lambda>x. value_Uint64 x mod 2 ^ 32) 0 v;
            (timeOfEntry, v) = field (has OptTimeOfEntry) value_Time None v;
            (dataSet, v) = field (has OptDataSetName) (text_with str) [] v;
            (bufOvfl, v) = field (has OptBufOvfl) value_Bool False v;
            (entryID, v) = field (has OptEntryID) value_Bytes [] v;
            (confRev, v) = field (has OptConfRev) (\<lambda>x. value_Uint64 x mod 2 ^ 32) 0 v;
            (subSeqNum, v) = field (has OptSegmentation) (\<lambda>x. value_Uint64 x mod 2 ^ 32) 0 v;
            (moreFollows, v) = field (has OptSegmentation) value_Bool False v;
            (inclusion, v) = pop v;
            rep = \<lparr>rep_RptID = text_with str rptID, rep_SeqNum = seqNum, rep_DataSet = dataSet, rep_ConfRev = confRev, rep_EntryID = entryID,
                   rep_BufOvfl = bufOvfl, rep_SubSeqNum = subSeqNum, rep_MoreFollows = moreFollows, rep_TimeOfEntry = timeOfEntry, rep_Entries = []\<rparr>
        in if inclusion = NilValue then Some rep
           else
             let included = included_bits inclusion; n = length included;
                 (refs, v) = (if has OptDataRef then pops n v else ([], v));
                 (vals, v) = pops n v;
                 (why, v) = (if has OptReasonCode then pops n v else ([], v));
                 dataRefs = map (text_with str) refs;
                 entries = map (\<lambda>k. let (ref, fc) = entry_ref members dataRefs k (included ! k) in
                   \<lparr>ce_Index = included ! k, ce_Ref = ref, ce_FC = fc,
                    ce_Reason = (if has OptReasonCode then flags_of (ReasonFromValue (why ! k)) else 0), ce_Value = vals ! k\<rparr>) [0..<n]
             in Some (rep\<lparr>rep_Entries := entries\<rparr>))"

text \<open>The \<^verbatim>\<open>RptID\<close> a control block's reports carry, as the client computes it.\<close>

definition reportID :: "string \<Rightarrow> string \<Rightarrow> string \<Rightarrow> string" where
  "reportID rptID domain item = (if rptID \<noteq> [] then rptID else domain @ CHR ''/'' # item)"


section \<open>On the wire\<close>

lemma read_prefix_upto: "read_upto n f d = Inr xs \<Longrightarrow> read_prefix n f d = xs"
  by (induction n arbitrary: d xs) (auto simp: rbind_eq_Inr split: if_splits prod.splits sum.splits)

interpretation access_results: tlv_codec "AppendData []" DecodeAccessResult "value_fits 0"
proof
  show "mms_octets v \<noteq> []" if "value_fits 0 v" for v using that by (simp add: value_fits_def mms_octets_tlv)
qed (rule DecodeAccessResult_mms_octets)

definition rpt_ir :: "Value list \<Rightarrow> InformationReport" where
  "rpt_ir vs = \<lparr>ir_ListName = ''RPT'', ir_VarNames = [], ir_Values = vs, ir_IsVMDNamed = True,
     ir_ListRef = \<lparr>vr_Domain = [], vr_Item = ''RPT''\<rparr>, ir_VarRefs = []\<rparr>"

lemma Encode_report_element:
  "Encode (report_element vs) =
     tlv (ContextConstructed 0) (tlv (ContextConstructed 1) (tlv (ContextPrimitive 0) (octets_of ''RPT'')) @ tlv (ContextConstructed 0) (concat (map mms_octets vs)))"
  by (simp add: report_element_def Encode_Cons_el map_filter_simps Encode_Prim Encode_DataElements)

lemma handle_report_element:
  assumes "list_all (value_fits 0) vs" "length (concat (map mms_octets vs)) < 2 ^ 31"
  shows "handleUnconfirmed (Encode (report_element vs)) = Some (rpt_ir vs)"
proof -
  let ?name = "tlv (ContextPrimitive 0) (octets_of ''RPT'')" and ?ar = "concat (map mms_octets vs)"
  have n: "length ?name < 100" using length_tlv_le(1) [of "ContextPrimitive 0" "octets_of ''RPT''"] by simp
  have l: "length (tlv (ContextConstructed 1) ?name @ tlv (ContextConstructed 0) ?ar) < 2 ^ 32"
    using length_tlv_le(1) [of "ContextConstructed 1" ?name] length_tlv_le(1) [of "ContextConstructed 0" ?ar] n assms(2) by simp
  have "read_all DecodeAccessResult (NewDecoder ?ar) = Inr (map (\<lambda>a. a) vs)" by (rule access_results.read_all_view [OF assms(1)]) simp
  then have "read_prefix (length ?ar) DecodeAccessResult (NewDecoder ?ar) = vs"
    using read_prefix_upto [of "length ?ar"] by (simp add: read_all_def)
  moreover have "mms_parseObjectName ?name = Inr \<lparr>vr_Domain = [], vr_Item = ''RPT''\<rparr>"
    using n by (simp add: mms_parseObjectName_def NewDecoder_at [of "tlv _ _"] codec_simps)
  moreover have "ContextConstructed (1 :: 32 word) \<noteq> ContextConstructed 0" by (simp add: tag_defs)
  ultimately show ?thesis using l n assms(2)
    by (simp add: handleUnconfirmed_def Encode_report_element parseInformationReport_def NewDecoder_at [of "tlv _ _"] NewDecoder_at [of "_ @ _"] codec_simps
        content_or_nil_def optional_ignoring_def rpt_ir_def no_ref_def Let_def)
qed

section \<open>Flags\<close>

lemma opt_bits:
  "w AND OptSeqNum \<noteq> 0 \<longleftrightarrow> bit w 1" "w AND OptTimeOfEntry \<noteq> 0 \<longleftrightarrow> bit w 2" "w AND OptReasonCode \<noteq> 0 \<longleftrightarrow> bit w 3"
  "w AND OptDataSetName \<noteq> 0 \<longleftrightarrow> bit w 4" "w AND OptDataRef \<noteq> 0 \<longleftrightarrow> bit w 5" "w AND OptBufOvfl \<noteq> 0 \<longleftrightarrow> bit w 6"
  "w AND OptEntryID \<noteq> 0 \<longleftrightarrow> bit w 7" "w AND OptConfRev \<noteq> 0 \<longleftrightarrow> bit w 8" "w AND OptSegmentation \<noteq> 0 \<longleftrightarrow> bit w 9"
  using and_flag [of w 1] and_flag [of w 2] and_flag [of w 3] and_flag [of w 4] and_flag [of w 5] and_flag [of w 6] and_flag [of w 7]
    and_flag [of w 8] and_flag [of w 9] by (simp_all add: opt_defs push_bit_of_1)

lemma flags_of_value:
  "\<exists>v. OptFlds_Value o' = Inr v \<and> flags_of (OptFldsFromValue v) = take_bit 10 o'"
  "\<exists>v. ReasonCode_Value r = Inr v \<and> flags_of (ReasonFromValue v) = take_bit 7 r"
  using OptFlds_roundtrip [of o'] ReasonCode_roundtrip [of r] by (auto simp: rbind_eq_Inr flags_of_def)

lemma flags_value_of [simp]:
  "flags_of (OptFldsFromValue (value_of (OptFlds_Value o'))) = take_bit 10 o'"
  "flags_of (ReasonFromValue (value_of (ReasonCode_Value r))) = take_bit 7 r"
  using flags_of_value(1) [of o'] flags_of_value(2) [of r] by (auto simp: value_of_def)

section \<open>Inclusion\<close>

lemma set_included_bits:
  assumes "is_bits v xs" "\<forall>i \<in> set idxs. i < length xs"
  shows "\<exists>ys. is_bits (set_included idxs v) ys \<and> length ys = length xs \<and> (\<forall>j < length xs. ys ! j \<longleftrightarrow> xs ! j \<or> j \<in> set idxs)"
  using assms
proof (induction idxs arbitrary: v xs)
  case (Cons i idxs)
  obtain v1 where v1: "value_SetBit v (int i) True = Inr v1" "is_bits v1 (xs[i := True])" using is_bits_SetBit [OF Cons.prems(1)] by blast
  have "\<forall>k \<in> set idxs. k < length (xs[i := True])" using Cons.prems(2) by simp
  from Cons.IH [OF v1(2) this] obtain ys where
    "is_bits (set_included idxs v1) ys" "length ys = length xs" "\<forall>j < length xs. ys ! j \<longleftrightarrow> xs[i := True] ! j \<or> j \<in> set idxs" by auto
  then show ?case using v1(1) Cons.prems(2) by (intro exI [of _ ys]) (auto simp: set_included_def value_of_def nth_list_update)
qed (auto simp: set_included_def)

lemma filter_sorted: "sorted_wrt (<) idxs \<Longrightarrow> \<forall>i \<in> set idxs. i < n \<Longrightarrow> filter (\<lambda>b. b \<in> set idxs) [0..<n] = (idxs :: nat list)"
  by (rule sorted_distinct_set_unique) (auto simp: strict_sorted_iff sorted_wrt_filter intro: sorted_wrt_mono_rel [of _ "(<)"] distinct_sorted)

lemma included_roundtrip:
  assumes "sorted_wrt (<) idxs" "\<forall>i \<in> set idxs. i < n"
  shows "included_bits (set_included idxs (mms_NewBitString (int n))) = idxs \<and> set_included idxs (mms_NewBitString (int n)) \<noteq> NilValue
    \<and> (\<exists>ys. is_bits (set_included idxs (mms_NewBitString (int n))) ys \<and> length ys = n)"
proof -
  let ?v = "set_included idxs (mms_NewBitString (int n))"
  obtain ys where ys: "is_bits ?v ys" "length ys = n" "\<forall>j < n. ys ! j \<longleftrightarrow> j \<in> set idxs"
    using set_included_bits [OF is_bits_New, of idxs n] assms(2) by auto
  have "included_bits ?v = filter (\<lambda>b. b \<in> set idxs) [0..<n]"
    unfolding included_bits_def is_bits_BitLen [OF ys(1)] using ys by (auto simp: is_bits_Bit intro!: filter_cong)
  then show ?thesis using filter_sorted [OF assms] ys by (auto simp: is_bits_def)
qed

section \<open>Fields\<close>

lemma pop_Cons [simp]: "pop (v # vs) = (v, vs)"
  by (simp add: pop_def)

lemma pops_append: "length xs = n \<Longrightarrow> pops n (xs @ vs) = (xs, vs)"
  by (induction n arbitrary: xs) (auto simp: length_Suc_conv)

lemma field_if: "field b get z ((if b then [x] else []) @ vs) = (if b then get x else z, vs)"
  by (simp add: field_def)


lemma segmentation_bits:
  assumes "\<not> bit opt 9"
  shows "n < 9 \<Longrightarrow> bit (if seg then opt OR OptSegmentation else opt) n = bit opt n"
    "bit (if seg then opt OR OptSegmentation else opt) 9 = seg"
    "n < 10 \<Longrightarrow> bit (take_bit 10 w) n = bit (w :: OptFlds) n"
proof -
  have o: "OptSegmentation = push_bit 9 1" by (simp add: OptSegmentation_def)
  show "n < 9 \<Longrightarrow> bit (if seg then opt OR OptSegmentation else opt) n = bit opt n" unfolding o by (simp add: bit_or_iff bit_push_bit_iff del: push_bit_of_1)
  show "bit (if seg then opt OR OptSegmentation else opt) 9 = seg" using assms unfolding o by (simp add: bit_or_iff bit_push_bit_iff del: push_bit_of_1)
  show "n < 10 \<Longrightarrow> bit (take_bit 10 w) n = bit w n" by (simp add: bit_simps)
qed

lemma value_of_uint:
  "value_Uint64 (NewUint16 x) = unat x" "value_Uint64 (NewUint8 y) = unat y" "n < 2 ^ 64 \<Longrightarrow> value_Uint64 (NewUint32 n) = n"
proof -
  have "uint x mod 2 ^ 64 = uint x" "uint y mod 2 ^ 64 = uint y" using uint_lt2p [of x] uint_lt2p [of y] by (simp_all add: mod_pos_pos_trivial)
  then show "value_Uint64 (NewUint16 x) = unat x" "value_Uint64 (NewUint8 y) = unat y"
    by (simp_all add: NewUint16_def NewUint8_def value_Uint64_def uint64_of_def)
  show "n < 2 ^ 64 \<Longrightarrow> value_Uint64 (NewUint32 n) = n" by (simp add: NewUint32_def value_Uint64_def uint64_of_def nat_mod_distrib)
qed

lemma value_scalars [simp]:
  "value_Bool (NewBool b) = b" "value_Bytes (NewOctetString i) = i" "text_with str (NewVisibleString t) = t"
  by (simp_all add: NewBool_def NewOctetString_def NewVisibleString_def text_with_def)

text \<open>What a client should make of the members \<open>i\<close> to \<open>j\<close> of an entry.\<close>

definition entries_of :: "(string \<times> string) list \<Rightarrow> bool \<Rightarrow> nat list \<Rightarrow> Value list \<Rightarrow> ReasonCode list \<Rightarrow> ReportEntry list" where
  "entries_of members rsn idxs vals why =
     map (\<lambda>(idx, v, r). let (ref, fc) = FromMMS (fst (members ! idx)) (snd (members ! idx))
        in \<lparr>ce_Index = idx, ce_Ref = ref, ce_FC = fc, ce_Reason = (if rsn then take_bit 7 r else 0), ce_Value = v\<rparr>)
       (zip idxs (zip vals why))"

definition client_entries :: "(string \<times> string) list \<Rightarrow> bool \<Rightarrow> reportEntry \<Rightarrow> ReportEntry list" where
  "client_entries members rsn e = entries_of members rsn (e_members e) (e_values e) (e_reasons e)"

definition client_report :: "rpt_env \<Rightarrow> IEDModel \<Rightarrow> rcbState \<Rightarrow> reportEntry \<Rightarrow> OptFlds \<Rightarrow> 32 word \<Rightarrow> bool \<Rightarrow> Report" where
  "client_report env m rs e opt seq ov =
     \<lparr>rep_RptID = env_Text env (rptIDOf env rs (rcb_attr m rs ''RptID'')),
      rep_SeqNum = (if bit opt 1 then unat seq mod (if rc_Buffered (rs_rc rs) then 65536 else 256) else 0),
      rep_DataSet = (if bit opt 4 then octets_of (attrText env m rs ''DatSet'') else []),
      rep_ConfRev = (if bit opt 8 then attrUint m rs ''ConfRev'' mod 2 ^ 32 else 0),
      rep_EntryID = (if bit opt 7 then e_id e else []), rep_BufOvfl = (bit opt 6 \<and> ov), rep_SubSeqNum = 0, rep_MoreFollows = False,
      rep_TimeOfEntry = (if bit opt 2 then value_Time (NewBinaryTime (e_time e)) else None), rep_Entries = []\<rparr>"

definition cut_entry :: "nat \<Rightarrow> nat \<Rightarrow> reportEntry \<Rightarrow> reportEntry" where
  "cut_entry i j e = e\<lparr>e_members := slice i j (e_members e), e_values := slice i j (e_values e), e_reasons := slice i j (e_reasons e)\<rparr>"

definition wire_refs :: "(string \<times> string) list \<Rightarrow> VarRef list" where
  "wire_refs members = map (\<lambda>(d, i). \<lparr>vr_Domain = d, vr_Item = i\<rparr>) members"

lemma seq_value:
  "value_Uint64 (if b then NewUint16 (ucast (seq :: 32 word)) else NewUint8 (ucast seq)) mod 2 ^ 32 = unat seq mod (if b then 65536 else 256)"
proof -
  have "unat (ucast seq :: 16 word) = unat seq mod 65536" "unat (ucast seq :: 8 word) = unat seq mod 256"
    by (simp_all add: unsigned_ucast_eq take_bit_eq_mod)
  then show ?thesis by (simp add: value_of_uint)
qed

lemma decoded_entries:
  assumes "\<forall>k \<in> set idxs. k < length members" "length vals = length idxs" "length why = length idxs"
    and "rsn \<Longrightarrow> \<forall>k < length idxs. G ! k = value_of (ReasonCode_Value (why ! k))"
  shows "map (\<lambda>k. case entry_ref (wire_refs members) dr k (idxs ! k) of (ref, fc) \<Rightarrow>
       \<lparr>ce_Index = idxs ! k, ce_Ref = ref, ce_FC = fc, ce_Reason = (if rsn then flags_of (ReasonFromValue (G ! k)) else 0), ce_Value = vals ! k\<rparr>) [0..<length idxs]
     = entries_of members rsn idxs vals why" (is "?l = ?r")
proof (rule nth_equalityI)
  fix x assume "x < length ?l"
  then have x: "x < length idxs" by simp
  then have "entry_ref (wire_refs members) dr x (idxs ! x) = FromMMS (fst (members ! (idxs ! x))) (snd (members ! (idxs ! x)))"
    using assms(1) by (simp add: entry_ref_def wire_refs_def split: prod.splits)
  then show "?l ! x = ?r ! x" using x assms(2-) by (simp add: entries_of_def)
qed (use assms(2,3) in \<open>simp add: entries_of_def\<close>)

lemma decode_report_values:
  assumes e: "entry_ok e" and lt: "\<forall>i \<in> set (e_members e). i < length members" and o9: "\<not> bit opt 9"
  shows "decodeReport (re_String env) (rpt_ir (report_values env m rs e members opt seq ov i j seg k mf)) (wire_refs members) =
    Some ((client_report env m rs e opt seq ov)\<lparr>rep_SubSeqNum := (if seg then k mod 65536 else 0), rep_MoreFollows := (seg \<and> mf),
      rep_Entries := client_entries members (bit opt 3) (cut_entry i j e)\<rparr>)"
proof -
  define oo where "oo = (if seg then opt OR OptSegmentation else opt)"
  define idxs where "idxs = slice i j (e_members e)"
  define vals where "vals = slice i j (e_values e)"
  define why where "why = slice i j (e_reasons e)"
  define inc where "inc = set_included idxs (mms_NewBitString (int (length members)))"
  have bits: "bit oo 1 = bit opt 1" "bit oo 2 = bit opt 2" "bit oo 3 = bit opt 3" "bit oo 4 = bit opt 4" "bit oo 5 = bit opt 5" "bit oo 6 = bit opt 6"
    "bit oo 7 = bit opt 7" "bit oo 8 = bit opt 8" "bit oo 9 = seg"
    unfolding oo_def using segmentation_bits(1,2) [OF o9] by simp_all
  have tb: "bit (take_bit 10 oo) n = bit oo n" if "n < 10" for n using segmentation_bits(3) [OF o9] that .
  have len: "length vals = length idxs" "length why = length idxs" using e by (simp_all add: vals_def why_def idxs_def slice_def entry_ok_def)
  have sub: "set idxs \<subseteq> set (e_members e)" by (auto simp: idxs_def slice_def dest!: in_set_dropD in_set_takeD)
  have srt: "sorted_wrt (<) idxs" using e by (simp add: idxs_def slice_def entry_ok_def sorted_wrt_drop sorted_wrt_take)
  have inc: "included_bits inc = idxs" "inc \<noteq> NilValue" unfolding inc_def using included_roundtrip [OF srt] sub lt by auto
  have flt: "filter (\<lambda>k. k < length members) idxs = idxs" using sub lt by (intro filter_True) auto
  define F1 where "F1 = (if bit opt 1 then [if rc_Buffered (rs_rc rs) then NewUint16 (ucast seq) else NewUint8 (ucast seq)] else [])"
  define F2 where "F2 = (if bit opt 2 then [NewBinaryTime (e_time e)] else [])"
  define F3 where "F3 = (if bit opt 4 then [NewVisibleString (octets_of (attrText env m rs ''DatSet''))] else [])"
  define F4 where "F4 = (if bit opt 6 then [NewBool ov] else [])"
  define F5 where "F5 = (if bit opt 7 then [NewOctetString (e_id e)] else [])"
  define F6 where "F6 = (if bit opt 8 then [NewUint32 (attrUint m rs ''ConfRev'' mod 2 ^ 32)] else [])"
  define F7 where "F7 = (if seg then [NewUint16 (word_of_nat k)] else [])"
  define F8 where "F8 = (if seg then [NewBool mf] else [])"
  define G1 where "G1 = (if bit opt 5 then map (\<lambda>k. NewVisibleString (octets_of (fst (members ! k) @ CHR ''/'' # snd (members ! k)))) idxs else [])"
  define G3 where "G3 = (if bit opt 3 then map (\<lambda>r. value_of (ReasonCode_Value r)) why else [])"
  define rid where "rid = rptIDOf env rs (rcb_attr m rs ''RptID'')"
  have vs: "report_values env m rs e members opt seq ov i j seg k mf =
      rid # value_of (OptFlds_Value oo) # F1 @ F2 @ F3 @ F4 @ F5 @ F6 @ F7 @ F8 @ inc # G1 @ vals @ G3"
    unfolding report_values_def Let_def oo_def [symmetric] idxs_def [symmetric] vals_def [symmetric] why_def [symmetric] inc_def [symmetric] rid_def [symmetric]
      opt_bits bits flt by (simp add: F1_def F2_def F3_def F4_def F5_def F6_def F7_def F8_def G1_def G3_def)
  have f: "field (bit opt 1) (\<lambda>x. value_Uint64 x mod 2 ^ 32) 0 (F1 @ v) = (if bit opt 1 then unat seq mod (if rc_Buffered (rs_rc rs) then 65536 else 256) else 0, v)"
    "field (bit opt 2) value_Time None (F2 @ v) = (if bit opt 2 then value_Time (NewBinaryTime (e_time e)) else None, v)"
    "field (bit opt 4) (text_with str) [] (F3 @ v) = (if bit opt 4 then octets_of (attrText env m rs ''DatSet'') else [], v)"
    "field (bit opt 6) value_Bool False (F4 @ v) = (bit opt 6 \<and> ov, v)"
    "field (bit opt 7) value_Bytes [] (F5 @ v) = (if bit opt 7 then e_id e else [], v)"
    "field (bit opt 8) (\<lambda>x. value_Uint64 x mod 2 ^ 32) 0 (F6 @ v) = (if bit opt 8 then attrUint m rs ''ConfRev'' mod 2 ^ 32 else 0, v)"
    "field seg (\<lambda>x. value_Uint64 x mod 2 ^ 32) 0 (F7 @ v) = (if seg then k mod 65536 else 0, v)"
    "field seg value_Bool False (F8 @ v) = (seg \<and> mf, v)" for v str
    unfolding F1_def F2_def F3_def F4_def F5_def F6_def F7_def F8_def field_if seq_value by (simp_all add: unat_of_nat value_of_uint)
  have g: "(if bit opt 5 then pops (length idxs) (G1 @ v) else ([], G1 @ v)) = (G1, v)" "pops (length idxs) (vals @ v) = (vals, v)"
    "(if bit opt 3 then pops (length idxs) G3 else ([], G3)) = (G3, [])" for v
    using pops_append [of vals "length idxs" v] pops_append [of G1 "length idxs" v] pops_append [of G3 "length idxs" "[]"] len by (auto simp: G1_def G3_def)
  have h: "(take_bit 10 oo AND OptSeqNum \<noteq> 0) = bit opt 1" "(take_bit 10 oo AND OptTimeOfEntry \<noteq> 0) = bit opt 2" "(take_bit 10 oo AND OptReasonCode \<noteq> 0) = bit opt 3"
    "(take_bit 10 oo AND OptDataSetName \<noteq> 0) = bit opt 4" "(take_bit 10 oo AND OptDataRef \<noteq> 0) = bit opt 5" "(take_bit 10 oo AND OptBufOvfl \<noteq> 0) = bit opt 6"
    "(take_bit 10 oo AND OptEntryID \<noteq> 0) = bit opt 7" "(take_bit 10 oo AND OptConfRev \<noteq> 0) = bit opt 8" "(take_bit 10 oo AND OptSegmentation \<noteq> 0) = seg"
    unfolding opt_bits using tb bits by simp_all
  have why: "\<forall>k < length idxs. G3 ! k = value_of (ReasonCode_Value (why ! k))" if "bit opt 3" using that len by (simp add: G3_def)
  have lt': "\<forall>k \<in> set idxs. k < length members" using sub lt by auto
  have ce: "client_entries members (bit opt 3) (cut_entry i j e) = entries_of members (bit opt 3) idxs vals why"
    by (simp add: client_entries_def cut_entry_def idxs_def vals_def why_def)
  have l3: "\<not> length (rid # value_of (OptFlds_Value oo) # F1 @ F2 @ F3 @ F4 @ F5 @ F6 @ F7 @ F8 @ inc # G1 @ vals @ G3) < 3" by simp
  have rid_text: "text_with (re_String env) rid = env_Text env rid" by (simp add: text_with_def env_Text_def)
  show ?thesis
    unfolding decodeReport_def vs rpt_ir_def InformationReport.simps Let_def if_not_P [OF l3] pop_Cons prod.case flags_value_of h f inc(1) if_not_P [OF inc(2)] g
    by (simp add: decoded_entries [OF lt' len why] rid_text ce client_report_def flip: rid_def)
qed

section \<open>What the wire carries\<close>

definition plain_bits :: "Value \<Rightarrow> bool" where
  "plain_bits v = (\<exists>b l. v = Value TypeBitString 0 0 b l [] \<and> bs_ok \<lparr>Bits = b, Length = l\<rparr>)"

lemma plain_SetBit: "plain_bits v \<Longrightarrow> \<exists>v'. value_SetBit v (int i) on = Inr v' \<and> plain_bits v'"
proof -
  assume "plain_bits v"
  then obtain b l where v: "v = Value TypeBitString 0 0 b l []" "bs_ok \<lparr>Bits = b, Length = l\<rparr>" unfolding plain_bits_def by blast
  from SetBit_bits_of [OF v(2), of "int i" on] obtain bs' where "SetBit \<lparr>Bits = b, Length = l\<rparr> (int i) on = Inr bs'" "bs_ok bs'" by auto
  then show ?thesis unfolding v(1) value_SetBit_BitString plain_bits_def by (simp add: BitString_eta)
qed

lemma plain_New: "plain_bits (mms_NewBitString (int n))"
  using bs_ok_New [of n] by (simp add: plain_bits_def mms_NewBitString_def NewBitString_def Let_def)

lemma plain_setFlags: "plain_bits v \<Longrightarrow> plain_bits (value_of (setFlags w is v)) \<and> (\<exists>u. setFlags w is v = Inr u)"
proof (induction "is" arbitrary: v)
  case (Cons i "is")
  from plain_SetBit [OF Cons.prems] obtain v' where "value_SetBit v (int i) (w AND push_bit i 1 \<noteq> 0) = Inr v'" "plain_bits v'" by blast
  then show ?case using Cons.IH by simp
qed (simp add: value_of_def)

lemma plain_included: "plain_bits v \<Longrightarrow> plain_bits (set_included idxs v)"
proof (induction idxs arbitrary: v)
  case (Cons i idxs)
  from plain_SetBit [OF Cons.prems, of i True] obtain v' where "value_SetBit v (int i) True = Inr v'" "plain_bits v'" by blast
  then show ?case using Cons.IH by (simp add: set_included_def value_of_def)
qed (simp add: set_included_def)

definition wire_ok :: "Value \<Rightarrow> bool" where
  "wire_ok v = (value_ok v \<and> value_depth v \<le> maxValueDepth)"

lemma wire_ok_plain: "plain_bits v \<Longrightarrow> wire_ok v"
  by (auto simp: plain_bits_def wire_ok_def)

lemma wire_ok_scalars [simp]:
  "wire_ok (NewBool b)" "wire_ok (NewUint16 x)" "wire_ok (NewUint8 y)" "n < 2 ^ 32 \<Longrightarrow> wire_ok (NewUint32 n)"
  "wire_ok (NewOctetString bs)" "wire_ok (NewVisibleString bs)" "wire_ok (NewBinaryTime t)"
  "wire_ok (value_of (OptFlds_Value o'))" "wire_ok (value_of (ReasonCode_Value r))"
proof -
  have "int64_ok (uint x)" "int64_ok (uint y)" 
    using uint_lt2p [of x] uint_lt2p [of y] order.trans [OF _ uint_ge_0 [of x], of "- (2 ^ 63)"] order.trans [OF _ uint_ge_0 [of y], of "- (2 ^ 63)"] by (simp_all add: int64_ok_def)
  then show "wire_ok (NewUint16 x)" "wire_ok (NewUint8 y)" by (simp_all add: wire_ok_def NewUint16_def NewUint8_def)
  show "wire_ok (value_of (OptFlds_Value o'))" "wire_ok (value_of (ReasonCode_Value r))"
    using plain_setFlags [OF plain_New [of 10], of o' "[0..<10]"] plain_setFlags [OF plain_New [of 7], of r "[0..<7]"]
    by (simp_all add: OptFlds_Value_def ReasonCode_Value_def wire_ok_plain)
qed (simp_all add: wire_ok_def NewBool_def NewUint32_def NewOctetString_def NewVisibleString_def NewBinaryTime_def Let_def int64_ok_def)

lemma wire_ok_rptID: "wire_ok v \<or> v = NilValue \<Longrightarrow> wire_ok (rptIDOf env rs v)"
  by (auto simp: rptIDOf_def)

lemma report_values_ok:
  assumes "list_all wire_ok (e_values e)" "wire_ok (rcb_attr m rs ''RptID'') \<or> rcb_attr m rs ''RptID'' = NilValue"
  shows "list_all wire_ok (report_values env m rs e members opt seq ov i j seg k mf)"
proof -
  have "list_all wire_ok (slice i j (e_values e))" using assms(1) by (auto simp: list_all_iff slice_def dest!: in_set_dropD in_set_takeD)
  then show ?thesis using wire_ok_rptID [OF assms(2)] wire_ok_plain [OF plain_included [OF plain_New]]
    unfolding report_values_def Let_def by (auto simp: list_all_iff)
qed

lemma wire_ok_fits:
  assumes "list_all wire_ok vs" "length (concat (map mms_octets vs)) < 2 ^ 31"
  shows "list_all (value_fits 0) vs"
proof -
  have "value_fits 0 v" if "v \<in> set vs" for v
    using length_concat_member [OF that, of mms_octets] mms_content_shorter [of v] assms that by (auto simp: value_fits_def wire_ok_def list_all_iff)
  then show ?thesis by (simp add: list_all_iff)
qed

lemma report_pdu_decoded:
  assumes e: "entry_ok e" and lt: "\<forall>i \<in> set (e_members e). i < length members" and o9: "\<not> bit opt 9"
    and ok: "list_all wire_ok (e_values e)" "wire_ok (rcb_attr m rs ''RptID'') \<or> rcb_attr m rs ''RptID'' = NilValue"
    and len: "length (Encode (reportElement env m rs e members opt seq ov i j seg k mf)) < 2 ^ 31"
  shows "Option.bind (handleUnconfirmed (Encode (reportElement env m rs e members opt seq ov i j seg k mf)))
      (\<lambda>ir. decodeReport (re_String env) ir (wire_refs members)) =
    Some ((client_report env m rs e opt seq ov)\<lparr>rep_SubSeqNum := (if seg then k mod 65536 else 0), rep_MoreFollows := (seg \<and> mf),
      rep_Entries := client_entries members (bit opt 3) (cut_entry i j e)\<rparr>)"
proof -
  let ?vs = "report_values env m rs e members opt seq ov i j seg k mf"
  have "length (concat (map mms_octets ?vs)) < length (Encode (report_element ?vs))"
    unfolding Encode_report_element using length_tlv_le(2) [of "concat (map mms_octets ?vs)" "ContextConstructed 0"]
      length_tlv_le(2) [of "tlv (ContextConstructed 1) (tlv (ContextPrimitive 0) (octets_of ''RPT'')) @ tlv (ContextConstructed 0) (concat (map mms_octets ?vs))" "ContextConstructed 0"]
    by simp
  then have l: "length (concat (map mms_octets ?vs)) < 2 ^ 31" using len by (simp add: reportElement_def)
  have "handleUnconfirmed (Encode (report_element ?vs)) = Some (rpt_ir ?vs)"
    by (rule handle_report_element [OF wire_ok_fits [OF report_values_ok [OF ok] l] l])
  then show ?thesis by (simp add: reportElement_def decode_report_values [OF e lt o9])
qed

lemma effective_no_segmentation: "\<not> bit (effectiveOptFlds opt b) 9"
proof -
  have "\<not> bit supportedOptFlds 9" by (simp add: supportedOptFlds_def opt_defs bit_simps)
  then show ?thesis by (simp add: effectiveOptFlds_def Let_def bit_simps)
qed

lemma cut_entries_concat:
  assumes "cuts_of 0 (length (e_members e)) cs" "entry_ok e"
  shows "concat (map (\<lambda>j. client_entries members rsn (cut_entry (cs ! j) (cs ! Suc j) e)) [0..<length cs - 1]) = client_entries members rsn e"
proof -
  define f where "f = (\<lambda>(idx, v, r). let (ref, fc) = FromMMS (fst (members ! idx)) (snd (members ! idx))
        in \<lparr>ce_Index = idx, ce_Ref = ref, ce_FC = fc, ce_Reason = (if rsn then take_bit 7 r else 0), ce_Value = (v :: Value)\<rparr>)"
  define z where "z = zip (e_members e) (zip (e_values e) (e_reasons e))"
  have c: "client_entries members rsn (cut_entry i j e) = map f (slice i j z)" for i j
    by (simp add: client_entries_def entries_of_def cut_entry_def f_def z_def slice_def take_zip drop_zip)
  have "length z = length (e_members e)" using assms(2) by (simp add: z_def entry_ok_def)
  then have "slice 0 (length (e_members e)) z = z" by (simp add: slice_def)
  then have "map f (concat (map (\<lambda>j. slice (cs ! j) (cs ! Suc j) z) [0..<length cs - 1])) = map f z" using slices_concat [OF assms(1), of z] by simp
  moreover have "client_entries members rsn e = map f z" by (simp add: client_entries_def entries_of_def f_def z_def)
  ultimately show ?thesis unfolding c by (simp add: map_concat comp_def)
qed

text \<open>A client that knows the data set's members, given the PDUs of one report.\<close>

definition client_gets :: "rpt_env \<Rightarrow> VarRef list \<Rightarrow> Element list \<Rightarrow> Report option list" where
  "client_gets env members pdus = map (\<lambda>p. Option.bind (handleUnconfirmed (Encode p)) (\<lambda>ir. decodeReport (re_String env) ir members)) pdus"

lemma cuts_last_iff: "cuts_of i n cs \<Longrightarrow> j < length cs - 1 \<Longrightarrow> cs ! Suc j < n \<longleftrightarrow> Suc j < length cs - 1"
proof -
  assume cs: "cuts_of i n cs" and j: "j < length cs - 1"
  then have n: "n = cs ! (length cs - 1)" by (auto simp: cuts_of_def last_conv_nth)
  then show ?thesis using j cs sorted_wrt_nth_less [of "(<)" cs "Suc j" "length cs - 1"] by (cases "Suc j = length cs - 1") (auto simp: cuts_of_def)
qed

section \<open>Properties\<close>

text \<open>(C6) What the client hears is what the server reported. For an entry of the report engine over the members of
  the block's data set, and whatever the PDU size negotiated, a client that decodes the PDUs the server sends for it
  gets a report from every one of them; each carries the same RptID, sequence number, time, data set, configuration
  revision, entry id and overflow mark, as far as the block's optional fields include them; they are numbered from 0
  with more-follows on all but the last; and their entries, put together, are the members of the entry in order, each
  with its reference, functional constraint, value and reason. The values need to be ones the encoding has a form for,
  and no PDU longer than 2 GiB.\<close>

theorem report_delivery:
  assumes e: "entry_ok e" "\<forall>i \<in> set (e_members e). i < length (rcb_members env m rs)"
    and ok: "list_all wire_ok (e_values e)" "wire_ok (rcb_attr m rs ''RptID'') \<or> rcb_attr m rs ''RptID'' = NilValue"
    and len: "\<forall>p \<in> set (reportPDUs env m rs e seq ov maxPDU). length (Encode p) < 2 ^ 31"
  shows "let opt = effectiveOptFlds (flags_of (OptFldsFromValue (rcb_attr m rs ''OptFlds''))) (rc_Buffered (rs_rc rs));
             members = rcb_members env m rs;
             got = client_gets env (wire_refs members) (reportPDUs env m rs e seq ov maxPDU)
         in (\<forall>j < length got. \<exists>es. got ! j = Some ((client_report env m rs e opt seq ov)
                \<lparr>rep_SubSeqNum := j mod 65536, rep_MoreFollows := (Suc j < length got), rep_Entries := es\<rparr>))
            \<and> concat (map (rep_Entries \<circ> the) got) = client_entries members (bit opt 3) e"
proof -
  define opt where "opt = effectiveOptFlds (flags_of (OptFldsFromValue (rcb_attr m rs ''OptFlds''))) (rc_Buffered (rs_rc rs))"
  define members where "members = rcb_members env m rs"
  define n where "n = length (e_members e)"
  define build where "build = reportElement env m rs e members opt seq ov"
  define pdus where "pdus = reportPDUs env m rs e seq ov maxPDU"
  define got where "got = client_gets env (wire_refs members) pdus"
  define rep where "rep = (\<lambda>i j seg k mf. (client_report env m rs e opt seq ov)\<lparr>rep_SubSeqNum := (if seg then k mod 65536 else 0), rep_MoreFollows := (seg \<and> mf),
      rep_Entries := client_entries members (bit opt 3) (cut_entry i j e)\<rparr>)"
  have o9: "\<not> bit opt 9" unfolding opt_def by (rule effective_no_segmentation)
  have dec: "Option.bind (handleUnconfirmed (Encode (build i j seg k mf))) (\<lambda>ir. decodeReport (re_String env) ir (wire_refs members)) = Some (rep i j seg k mf)"
    if "build i j seg k mf \<in> set pdus" for i j seg k mf
    using report_pdu_decoded [OF e(1) e(2) [folded members_def] o9 ok, of env seq ov i j seg k mf] len that unfolding rep_def build_def pdus_def by blast
  have "(\<forall>j < length got. \<exists>es. got ! j = Some ((client_report env m rs e opt seq ov)
                \<lparr>rep_SubSeqNum := j mod 65536, rep_MoreFollows := (Suc j < length got), rep_Entries := es\<rparr>))
            \<and> concat (map (rep_Entries \<circ> the) got) = client_entries members (bit opt 3) e"
  proof (cases "fits_pdu maxPDU (build 0 n False 0 False)")
    case True
    then have p: "pdus = [build 0 n False 0 False]" unfolding pdus_def reportPDUs_def Let_def n_def build_def opt_def members_def by simp
    then have "got = [Some (rep 0 n False 0 False)]" using dec [of 0 n False 0 False] by (simp add: got_def client_gets_def)
    moreover have "cut_entry 0 n e = e" using e(1) by (simp add: cut_entry_def slice_def n_def entry_ok_def)
    ultimately show ?thesis by (auto simp: rep_def)
  next
    case False
    have "fits_pdu maxPDU (build i j True k False) = fits_pdu maxPDU (build i j True k True)" for i j k
      by (simp add: fits_pdu_def build_def Size_report_mf)
    from segments_cuts [of "fits_pdu maxPDU" build 0 n 0, OF this] obtain cs where cs: "cuts_of 0 n cs"
      "segments build (fits_pdu maxPDU) n 0 0 = map (\<lambda>j. build (cs ! j) (cs ! Suc j) True j (cs ! Suc j < n)) [0..<length cs - 1]" by auto
    have p: "pdus = map (\<lambda>j. build (cs ! j) (cs ! Suc j) True j (cs ! Suc j < n)) [0..<length cs - 1]"
      using False cs(2) unfolding pdus_def reportPDUs_def Let_def n_def build_def opt_def members_def by simp
    have "got = map (\<lambda>j. Some (rep (cs ! j) (cs ! Suc j) True j (cs ! Suc j < n))) [0..<length cs - 1]"
      unfolding got_def client_gets_def p map_map comp_def by (rule map_cong [OF refl], rule dec) (auto simp: p)
    moreover have "concat (map (\<lambda>j. client_entries members (bit opt 3) (cut_entry (cs ! j) (cs ! Suc j) e)) [0..<length cs - 1]) = client_entries members (bit opt 3) e"
      using cut_entries_concat [OF cs(1) [unfolded n_def] e(1)] .
    ultimately show ?thesis using cuts_last_iff [OF cs(1)] by (auto simp: rep_def comp_def)
  qed
  then show ?thesis unfolding Let_def opt_def [symmetric] members_def [symmetric] pdus_def [symmetric] got_def [symmetric] .
qed

definition ex_entry :: reportEntry where
  "ex_entry = no_entry\<lparr>e_members := [0], e_values := [NewBool True], e_reasons := [2]\<rparr>"

lemma ex_rcb_nil: "rcb_attr ex_rpt_model ex_rcb ''RptID'' = NilValue" "rcb_attr ex_rpt_model ex_rcb ''OptFlds'' = NilValue"
proof -
  have "ref_Path ''LD1/LLN0.brcb01.RptID'' = [''LLN0'', ''brcb01'', ''RptID'']" "ref_LD ''LD1/LLN0.brcb01.RptID'' = ''LD1''"
    "ref_Path ''LD1/LLN0.brcb01.OptFlds'' = [''LLN0'', ''brcb01'', ''OptFlds'']" "ref_LD ''LD1/LLN0.brcb01.OptFlds'' = ''LD1''" by code_simp+
  then show "rcb_attr ex_rpt_model ex_rcb ''RptID'' = NilValue" "rcb_attr ex_rpt_model ex_rcb ''OptFlds'' = NilValue"
    by (simp_all add: rcb_attr_def ex_rcb_ref ex_model_simps)
qed

lemma ex_opt: "effectiveOptFlds (flags_of (OptFldsFromValue NilValue)) b = 0"
  by (simp add: effectiveOptFlds_def OptFldsFromValue_def upto_BitLen_def flags_of_def)

lemma ex_rptID: "rptIDOf ex_rpt_env ex_rcb NilValue = NewVisibleString (octets_of ''LD1/LLN0$BR$brcb01'')"
proof -
  have "rs_domain ex_rcb = ''LD1''" "rs_item ex_rcb = ''LLN0$BR$brcb01''" by code_simp+
  then show ?thesis by (simp add: rptIDOf_def)
qed

lemma ex_pdu: "reportPDUs ex_rpt_env ex_rpt_model ex_rcb ex_entry 5 False 0 =
    [report_element [NewVisibleString (octets_of ''LD1/LLN0$BR$brcb01''), value_of (OptFlds_Value 0), set_included [0] (mms_NewBitString 1), NewBool True]]"
  by (simp add: reportPDUs_def fits_pdu_def reportElement_def report_values_def ex_rcb_nil ex_opt ex_rptID ex_rcb_members slice_def ex_entry_def Let_def)

lemma ex_pdu_length: "length (Encode (report_element
    [NewVisibleString (octets_of ''LD1/LLN0$BR$brcb01''), value_of (OptFlds_Value 0), set_included [0] (mms_NewBitString 1), NewBool True])) < 100"
  by code_simp

theorem report_delivery_witness:
  "map (map_option (map (\<lambda>en. (ce_Ref en, ce_FC en, ce_Value en)) \<circ> rep_Entries))
      (client_gets ex_rpt_env (wire_refs [(''LD1'', ''GGIO1$ST$Ind1$stVal'')]) (reportPDUs ex_rpt_env ex_rpt_model ex_rcb ex_entry 5 False 0))
    = [Some [(''LD1/GGIO1.Ind1.stVal'', fc_ST, NewBool True)]]"
proof -
  have "FromMMS ''LD1'' ''GGIO1$ST$Ind1$stVal'' = (''LD1/GGIO1.Ind1.stVal'', fc_ST)" by code_simp
  moreover have "wire_ok (NewBool True)" by simp
  ultimately show ?thesis
    using report_delivery [of ex_entry ex_rpt_env ex_rpt_model ex_rcb 5 False 0] ex_pdu_length
    unfolding ex_rcb_members ex_rcb_nil ex_pdu Let_def
    by (auto simp: ex_entry_def entry_ok_def client_gets_def client_entries_def entries_of_def)
qed

end
