(* ===== verification/BerLoop.thy ===== *)
theory BerLoop
  imports BerOid BerBits BerSeq
begin

text \<open>
  The loop over the elements of a PDU that most decoders have:
  \<^verbatim>\<open>for d.More() { tag, c, err := d.ReadTLV(); if err != nil { return }; switch tag { ... } }\<close>,
  whose body goes on or returns. An element takes at least one octet, so as many steps as there are octets
  are enough (\<open>each_tlv_fuel\<close>).
\<close>

section \<open>The loop\<close>

datatype ('s, 'r) loop_step = Continue 's | Return 'r

fun each_tlv :: "nat \<Rightarrow> (Tag \<Rightarrow> byte list \<Rightarrow> 's \<Rightarrow> ('s, 'r) loop_step) \<Rightarrow> (ber_error failure \<Rightarrow> 's \<Rightarrow> 'r) \<Rightarrow> ('s \<Rightarrow> 'r) \<Rightarrow> Decoder \<Rightarrow> 's \<Rightarrow> 'r" where
  "each_tlv 0 body bad fin d s = fin s"
| "each_tlv (Suc n) body bad fin d s =
     (if \<not> More d then fin s
      else case ReadTLV d of
        (Inl e, _) \<Rightarrow> bad e s
      | (Inr (t, c), d') \<Rightarrow> (case body t c s of Continue s' \<Rightarrow> each_tlv n body bad fin d' s' | Return r \<Rightarrow> r))"

definition for_tlvs :: "(Tag \<Rightarrow> byte list \<Rightarrow> 's \<Rightarrow> ('s, 'r) loop_step) \<Rightarrow> (ber_error failure \<Rightarrow> 's \<Rightarrow> 'r) \<Rightarrow> ('s \<Rightarrow> 'r) \<Rightarrow> byte list \<Rightarrow> 's \<Rightarrow> 'r" where
  "for_tlvs body bad fin content s = each_tlv (length content) body bad fin (NewDecoder content) s"

lemma each_tlv_fuel:
  "dec_ok d \<Longrightarrow> length (unread d) \<le> n \<Longrightarrow> n \<le> k \<Longrightarrow> each_tlv k body bad fin d s = each_tlv n body bad fin d s"
proof (induction n arbitrary: k d s)
  case 0
  then show ?case by (cases k) (simp_all add: More_unread)
next
  case (Suc n)
  obtain k' where k: "k = Suc k'" using Suc.prems by (cases k) auto
  obtain r d' where rd: "ReadTLV d = (r, d')" by force
  have "each_tlv k' body bad fin d' s' = each_tlv n body bad fin d' s'" if "r = Inr x" for x s'
  proof (rule Suc.IH)
    have "advanced d d'" "d_off d < d_off d'" using ReadTLV_spec [OF Suc.prems(1)] rd that by simp_all
    then show "dec_ok d'" "length (unread d') \<le> n"
      using Suc.prems(1,2) by (auto simp: advanced_def dec_ok_def unread_def)
  qed (use Suc.prems k in simp)
  then show ?case unfolding k using rd by (auto split: sum.splits loop_step.splits)
qed

text \<open>On encoded elements the loop runs over the list of them.\<close>

type_synonym field = "Tag \<times> byte list"

definition fields_ok :: "field list \<Rightarrow> bool" where
  "fields_ok fs = list_all (\<lambda>f. tag_ok (fst f) \<and> length (snd f) < 2 ^ 32) fs"

lemma fields_ok_simps [simp]:
  "fields_ok []" "fields_ok ((t, c) # fs) \<longleftrightarrow> tag_ok t \<and> length c < 2 ^ 32 \<and> fields_ok fs" "fields_ok (fs @ gs) \<longleftrightarrow> fields_ok fs \<and> fields_ok gs"
  by (simp_all add: fields_ok_def)

abbreviation fields_octets :: "field list \<Rightarrow> byte list" where
  "fields_octets fs \<equiv> concat (map (\<lambda>f. tlv (fst f) (snd f)) fs)"

fun run_fields :: "(Tag \<Rightarrow> byte list \<Rightarrow> 's \<Rightarrow> ('s, 'r) loop_step) \<Rightarrow> ('s \<Rightarrow> 'r) \<Rightarrow> field list \<Rightarrow> 's \<Rightarrow> 'r" where
  "run_fields body fin [] s = fin s"
| "run_fields body fin ((t, c) # fs) s = (case body t c s of Continue s' \<Rightarrow> run_fields body fin fs s' | Return r \<Rightarrow> r)"

lemma each_tlv_fields:
  "fields_ok fs \<Longrightarrow> unread d = fields_octets fs \<Longrightarrow> length (unread d) \<le> n \<Longrightarrow> each_tlv n body bad fin d s = run_fields body fin fs s"
proof (induction n arbitrary: fs d s)
  case 0
  then have "fs = []" by (cases fs) auto
  then show ?case by simp
next
  case (Suc n)
  show ?case
  proof (cases fs)
    case Nil
    then show ?thesis using Suc.prems by (simp add: More_unread)
  next
    case (Cons f gs)
    obtain t c where f: "f = (t, c)" by force
    have un: "unread d = tlv t c @ fields_octets gs" using Suc.prems(2) Cons f by simp
    have ok: "tag_ok t" "length c < 2 ^ 32" "fields_ok gs" using Suc.prems(1) Cons f by simp_all
    have "0 < length (tlv t c)" using length_tlv_le(2) [of c t] by linarith
    then have "length (fields_octets gs) \<le> n" using Suc.prems(3) unfolding un length_append by linarith
    then have "each_tlv n body bad fin (adv d (length (tlv t c))) s' = run_fields body fin gs s'" for s'
      using unread_adv [OF un] ok(3) by (intro Suc.IH) simp_all
    then show ?thesis using ReadTLV_tlv [OF un ok(1,2)] More_tlv [OF un] by (simp add: Cons f split: loop_step.split)
  qed
qed

lemma for_tlvs_fields: "bs = fields_octets fs \<Longrightarrow> fields_ok fs \<Longrightarrow> for_tlvs body bad fin bs s = run_fields body fin fs s"
  by (simp add: for_tlvs_def each_tlv_fields)

lemma run_fields_append:
  "run_fields body fin (fs @ gs) s = run_fields body (run_fields body fin gs) fs s"
  by (induction fs arbitrary: s) (auto split: loop_step.splits)

lemma run_fields_one: "run_fields body fin (if b then [f] else []) s =
   (if b then (case body (fst f) (snd f) s of Continue s' \<Rightarrow> fin s' | Return r \<Rightarrow> r) else fin s)"
  by (cases f) (simp split: loop_step.split)

text \<open>A loop whose body never returns a result outside \<open>P\<close>, on input however malformed.\<close>

lemma each_tlv_returns:
  assumes body: "\<And>t c s. J s \<Longrightarrow> (case body t c s of Continue s' \<Rightarrow> J s' | Return r \<Rightarrow> P r)"
    and bad: "\<And>e s. J s \<Longrightarrow> P (bad (Err e) s)" and fin: "\<And>s. J s \<Longrightarrow> P (fin s)"
  shows "dec_ok d \<Longrightarrow> J s \<Longrightarrow> P (each_tlv n body bad fin d s)"
proof (induction n arbitrary: d s)
  case (Suc n)
  obtain r d' where rd: "ReadTLV d = (r, d')" by force
  note spec = ReadTLV_spec [OF Suc.prems(1), unfolded rd]
  show ?case
  proof (cases r)
    case (Inl e)
    then obtain e' where "e = Err e'" using spec by (cases e) auto
    then show ?thesis using Inl rd bad fin Suc.prems(2) by simp
  next
    case (Inr tc)
    obtain t c where tc: "tc = (t, c)" by force
    have "dec_ok d'" using spec Inr Suc.prems(1) by (auto simp: advanced_def dec_ok_def)
    then show ?thesis using Inr tc rd body [OF Suc.prems(2), of t c] fin Suc.IH Suc.prems(2) by (auto split: loop_step.splits)
  qed
qed (simp add: fin)

lemma for_tlvs_returns:
  assumes "\<And>t c s. J s \<Longrightarrow> (case body t c s of Continue s' \<Rightarrow> J s' | Return r \<Rightarrow> P r)"
    and "\<And>e s. J s \<Longrightarrow> P (bad (Err e) s)" and "\<And>s. J s \<Longrightarrow> P (fin s)" and "J s"
  shows "P (for_tlvs body bad fin content s)"
  unfolding for_tlvs_def by (rule each_tlv_returns [where J = J and P = P and body = body and bad = bad and fin = fin, OF assms(1-3) dec_ok_NewDecoder assms(4)])

lemma read_no_panic: "fst (ReadTLV (NewDecoder c)) \<noteq> Inl Panic" "fst (Expect t (NewDecoder c)) \<noteq> Inl Panic"
  using ReadTLV_spec [of "NewDecoder c"] Expect_spec [of "NewDecoder c" t] by (auto simp: read_spec_def)

section \<open>More tags\<close>

definition TagOID :: Tag where "TagOID = universal_tag False 6"
definition TagSet :: Tag where "TagSet = universal_tag True 17"

lemma tag_ok_more [simp]: "tag_ok TagOID" "tag_ok TagSet"
  by (simp_all add: TagOID_def TagSet_def)

text \<open>Tags told apart.\<close>

lemma tag_eq_simps:
  "ContextPrimitive m = ContextPrimitive n \<longleftrightarrow> m = n" "ContextConstructed m = ContextConstructed n \<longleftrightarrow> m = n"
  "ApplicationConstructed m = ApplicationConstructed n \<longleftrightarrow> m = n" "universal_tag a m = universal_tag b n \<longleftrightarrow> a = b \<and> m = n"
  "ContextPrimitive m \<noteq> ContextConstructed n" "ContextConstructed n \<noteq> ContextPrimitive m"
  "ContextPrimitive m \<noteq> universal_tag b n" "universal_tag b n \<noteq> ContextPrimitive m"
  "ContextConstructed m \<noteq> universal_tag b n" "universal_tag b n \<noteq> ContextConstructed m"
  "ContextPrimitive m \<noteq> ApplicationConstructed n" "ApplicationConstructed n \<noteq> ContextPrimitive m"
  "ContextConstructed m \<noteq> ApplicationConstructed n" "ApplicationConstructed n \<noteq> ContextConstructed m"
  "universal_tag b m \<noteq> ApplicationConstructed n" "ApplicationConstructed n \<noteq> universal_tag b m"
  by (auto simp: ContextPrimitive_def ContextConstructed_def ApplicationConstructed_def universal_tag_def class_defs)

lemma tag_neq_universal:
  "TagInteger \<noteq> TagSequence" "TagInteger \<noteq> TagOID" "TagInteger \<noteq> TagSet" "TagSequence \<noteq> TagInteger" "TagSequence \<noteq> TagOID" "TagSequence \<noteq> TagSet"
  "TagOID \<noteq> TagInteger" "TagOID \<noteq> TagSequence" "TagOID \<noteq> TagSet" "TagSet \<noteq> TagInteger" "TagSet \<noteq> TagSequence" "TagSet \<noteq> TagOID"
  by (simp_all add: TagInteger_def TagSequence_def TagOID_def TagSet_def tag_eq_simps)

lemma tag_neq_context:
  assumes "u = TagInteger \<or> u = TagSequence \<or> u = TagOID \<or> u = TagSet"
  shows "u \<noteq> ContextPrimitive n" "u \<noteq> ContextConstructed n" "u \<noteq> ApplicationConstructed n"
    "ContextPrimitive n \<noteq> u" "ContextConstructed n \<noteq> u" "ApplicationConstructed n \<noteq> u"
  using assms by (auto simp: TagInteger_def TagSequence_def TagOID_def TagSet_def tag_eq_simps)

lemmas tags = tag_eq_simps tag_neq_universal
  tag_neq_context [of TagInteger, simplified] tag_neq_context [of TagSequence, simplified] tag_neq_context [of TagOID, simplified] tag_neq_context [of TagSet, simplified]

lemma Tag_numbers [simp]: "Number (ContextPrimitive n) = n" "Number (ContextConstructed n) = n" "Number (ApplicationConstructed n) = n"
  "Class (ContextPrimitive n) = ClassContextSpecific" "Class (ContextConstructed n) = ClassContextSpecific"
  "\<not> Constructed (ContextPrimitive n)" "Constructed (ContextConstructed n)"
  by (simp_all add: ContextPrimitive_def ContextConstructed_def ApplicationConstructed_def)

lemma Tag_constructed [simp]:
  "ContextConstructed n\<lparr>Constructed := True\<rparr> = ContextConstructed n" "ApplicationConstructed n\<lparr>Constructed := True\<rparr> = ApplicationConstructed n"
  "universal_tag True n\<lparr>Constructed := True\<rparr> = universal_tag True n" "Number (universal_tag b n) = n" "Constructed (universal_tag b n) = b"
  "Constructed (ApplicationConstructed n)"
  by (simp_all add: ContextConstructed_def ApplicationConstructed_def universal_tag_def)

lemma Tag_universal [simp]:
  "Number TagOID = 6" "\<not> Constructed TagOID" "Number TagSet = 17" "TagSet\<lparr>Constructed := True\<rparr> = TagSet"
  "Number TagInteger = 2" "\<not> Constructed TagInteger" "Number TagSequence = 16" "TagSequence\<lparr>Constructed := True\<rparr> = TagSequence"
  by (simp_all add: TagOID_def TagSet_def TagInteger_def TagSequence_def)

section \<open>Elements with a primitive content\<close>

lemma el_ok_prims [simp]:
  "el_ok (IntElem t v) \<longleftrightarrow> tag_ok t \<and> Number t < 2 ^ 28" "el_ok (UintElem t n) \<longleftrightarrow> tag_ok t \<and> Number t < 2 ^ 28"
  "el_ok (OIDElem t x) \<longleftrightarrow> tag_ok t \<and> Number t < 2 ^ 28" "el_ok (BitStringElem t bs) \<longleftrightarrow> tag_ok t \<and> Number t < 2 ^ 28"
  "el_ok (BoolElem t b) \<longleftrightarrow> tag_ok t \<and> Number t < 2 ^ 28"
  by (simp_all add: IntElem_def UintElem_def OIDElem_def BitStringElem_def BoolElem_def)

lemma Encode_prims:
  assumes "tag_ok t" "Number t < 2 ^ 28" "\<not> Constructed t"
  shows "Encode (IntElem t v) = tlv t (int_octets v)" "Encode (UintElem t n) = tlv t (uint_octets n)"
    "Encode (OIDElem t x) = tlv t (AppendOID [] x)" "Encode (BitStringElem t bs) = tlv t (AppendBitString [] bs)"
    "Encode (BoolElem t b) = tlv t (bool_octets b)"
  using assms by (simp_all add: IntElem_def UintElem_def OIDElem_def BitStringElem_def BoolElem_def Encode_Prim)

lemmas octets_simps = Encode_Prim Encode_prims Encode_RawContent Encode_Cons_el Add_Cons_el map_filter_simps

lemma content_short:
  "int64_ok i \<Longrightarrow> length (int_octets i) < 2 ^ 32" "uint64_ok n \<Longrightarrow> length (uint_octets n) < 2 ^ 32" "oid_ok x \<Longrightarrow> length (AppendOID [] x) < 2 ^ 32"
  by (rule int_codec.enc_short uint_codec.enc_short oid_codec.enc_short, assumption)+

lemma content_decoded [simp]:
  "int64_ok i \<Longrightarrow> DecodeInt (int_octets i) = Inr i" "uint64_ok n \<Longrightarrow> DecodeUint (uint_octets n) = Inr n" "oid_ok x \<Longrightarrow> DecodeOID (AppendOID [] x) = Inr x"
  by (rule int_codec.dec_enc uint_codec.dec_enc oid_codec.dec_enc, assumption)+

end
