(* ===== verification/Presentation.thy ===== *)
theory Presentation
  imports BerLoop
begin

text \<open>
  The presentation layer (\<^verbatim>\<open>internal/osi/presentation\<close>): the connection PDUs CP, CPA and CPR that negotiate the
  presentation contexts, the abort PDU, and the wrapping of every data PDU. A Go \<^verbatim>\<open>int\<close> is an \<open>int\<close>; a nil
  object identifier is the empty list, which no decoding returns.
\<close>

section \<open>Contexts\<close>

definition ContextACSE :: int where "ContextACSE = 1"
definition ContextMMS :: int where "ContextMMS = 3"
definition ContextE2E :: int where "ContextE2E = 5"

definition oidACSE :: OID where "oidACSE = [2, 2, 1, 0, 1]"
definition oidMMS :: OID where "oidMMS = [1, 0, 9506, 2, 1]"
definition oidBER :: OID where "oidBER = [2, 1, 1]"
definition oidE2E :: OID where "oidE2E = [1, 0, 62351, 4, 1, 2, 1]"

record Context =
  cx_ID :: int
  cx_AbstractSyntax :: OID
  cx_TransferSyntax :: OID

definition IsACSE :: "Context \<Rightarrow> bool" where "IsACSE c = (cx_AbstractSyntax c = oidACSE)"
definition IsMMS :: "Context \<Rightarrow> bool" where "IsMMS c = (cx_AbstractSyntax c = oidMMS)"
definition IsE2E :: "Context \<Rightarrow> bool" where "IsE2E c = (cx_AbstractSyntax c = oidE2E)"
definition cx_BER :: "Context \<Rightarrow> bool" where "cx_BER c = (cx_TransferSyntax c = oidBER)"
definition Acceptable :: "Context \<Rightarrow> bool" where "Acceptable c = ((IsACSE c \<or> IsMMS c) \<and> cx_BER c)"
definition cx_known :: "Context \<Rightarrow> bool" where "cx_known c = (IsACSE c \<or> IsMMS c)"

definition DefaultCallingPSel :: "byte list" where "DefaultCallingPSel = [0, 0, 0, 1]"
definition DefaultCalledPSel :: "byte list" where "DefaultCalledPSel = [0, 0, 0, 1]"

section \<open>Elements\<close>

definition modeSelector :: Element where
  "modeSelector = Cons_el (ContextConstructed 0) [Some (IntElem (ContextPrimitive 0) 1)]"

definition contextEntry :: "int \<Rightarrow> OID \<Rightarrow> Element" where
  "contextEntry i abstractSyntax =
     Cons_el TagSequence
       [Some (IntElem TagInteger i), Some (OIDElem TagOID abstractSyntax),
        Some (Cons_el TagSequence [Some (OIDElem TagOID oidBER)])]"

definition ResultAcceptance :: int where "ResultAcceptance = 0"
definition ResultProviderRejection :: int where "ResultProviderRejection = 2"
definition ReasonAbstractSyntaxNotSupported :: int where "ReasonAbstractSyntaxNotSupported = 1"
definition ReasonProposedTransferSyntaxNotSupported :: int where "ReasonProposedTransferSyntaxNotSupported = 2"

definition contextResult :: "int \<Rightarrow> int \<Rightarrow> Element" where
  "contextResult result rsn =
     (let e = Cons_el TagSequence [Some (IntElem (ContextPrimitive 0) result)]
      in if result = ResultAcceptance then Add e [Some (OIDElem (ContextPrimitive 1) oidBER)]
         else if result = ResultProviderRejection then Add e [Some (IntElem (ContextPrimitive 2) rsn)]
         else e)"

definition userData :: "int \<Rightarrow> byte list \<Rightarrow> Element" where
  "userData contextID payload =
     Cons_el (ApplicationConstructed 1)
       [Some (Cons_el TagSequence [Some (IntElem TagInteger contextID), Some (RawContent (ContextConstructed 0) payload)])]"

definition buildResults :: "Context list \<Rightarrow> (Context \<Rightarrow> bool) \<Rightarrow> (Context \<Rightarrow> bool) \<Rightarrow> Element" where
  "buildResults proposed accepts known =
     Add (Cons_el (ContextConstructed 5) [])
       (map (\<lambda>c. Some (if accepts c then contextResult ResultAcceptance 0
                  else if known c \<and> \<not> cx_BER c then contextResult ResultProviderRejection ReasonProposedTransferSyntaxNotSupported
                  else contextResult ResultProviderRejection ReasonAbstractSyntaxNotSupported)) proposed)"

section \<open>Connection PDUs\<close>

text \<open>A selector is left out when it is empty.\<close>

definition psel :: "32 word \<Rightarrow> byte list \<Rightarrow> Element \<Rightarrow> Element" where
  "psel n sel e = (if length sel > 0 then Add e [Some (Prim (ContextPrimitive n) sel)] else e)"

definition BuildCP :: "byte list \<Rightarrow> byte list \<Rightarrow> byte list \<Rightarrow> byte list" where
  "BuildCP callingPSel calledPSel acseData =
     (let normal = Cons_el (ContextConstructed 2) [];
          normal = psel 2 calledPSel (psel 1 callingPSel normal);
          normal = Add normal [Some (Cons_el (ContextConstructed 4) [Some (contextEntry ContextACSE oidACSE), Some (contextEntry ContextMMS oidMMS)])];
          normal = Add normal [Some (userData ContextACSE acseData)]
      in Encode (Cons_el TagSet [Some modeSelector, Some normal]))"

definition BuildCPE2E :: "byte list \<Rightarrow> byte list \<Rightarrow> byte list \<Rightarrow> byte list" where
  "BuildCPE2E callingPSel calledPSel acseData =
     (let normal = Cons_el (ContextConstructed 2) [];
          normal = psel 2 calledPSel (psel 1 callingPSel normal);
          normal = Add normal [Some (Cons_el (ContextConstructed 4)
                     [Some (contextEntry ContextACSE oidACSE), Some (contextEntry ContextMMS oidMMS), Some (contextEntry ContextE2E oidE2E)])];
          normal = Add normal [Some (userData ContextACSE acseData)]
      in Encode (Cons_el TagSet [Some modeSelector, Some normal]))"

record Negotiated =
  ng_ACSE :: int
  ng_MMS :: int

definition HasMMS :: "Negotiated \<Rightarrow> bool" where "HasMMS n = (ng_MMS n \<noteq> 0)"

definition Negotiate :: "Context list \<Rightarrow> Negotiated" where
  "Negotiate proposed =
     fold (\<lambda>c neg. if \<not> Acceptable c then neg
                   else if IsACSE c then neg\<lparr>ng_ACSE := cx_ID c\<rparr>
                   else if IsMMS c then neg\<lparr>ng_MMS := cx_ID c\<rparr> else neg) proposed \<lparr>ng_ACSE = 0, ng_MMS = 0\<rparr>"

text \<open>The identifier of the ACSE context, or the conventional one when none was agreed.\<close>

definition acse_id :: "Negotiated \<Rightarrow> int" where
  "acse_id neg = (if ng_ACSE neg = 0 then ContextACSE else ng_ACSE neg)"

definition BuildCPA :: "byte list \<Rightarrow> Context list \<Rightarrow> byte list \<Rightarrow> Negotiated \<times> byte list" where
  "BuildCPA respondingPSel proposed acseData =
     (let neg = Negotiate proposed;
          normal = psel 3 respondingPSel (Cons_el (ContextConstructed 2) []);
          normal = Add normal [Some (buildResults proposed Acceptable cx_known)];
          normal = Add normal [Some (userData (acse_id neg) acseData)]
      in (neg, Encode (Cons_el TagSet [Some modeSelector, Some normal])))"

definition BuildCPR :: "byte list \<Rightarrow> Context list \<Rightarrow> byte list \<Rightarrow> byte list" where
  "BuildCPR respondingPSel proposed acseData =
     (let neg = Negotiate proposed;
          seq = psel 3 respondingPSel (Cons_el TagSequence []);
          seq = Add seq [Some (buildResults proposed Acceptable cx_known)]
      in Encode (Add seq [Some (userData (acse_id neg) acseData)]))"

text \<open>With the end-to-end security context; its identifier is 0 when it is not agreed.\<close>

definition NegotiateWithE2E :: "Context list \<Rightarrow> bool \<Rightarrow> Negotiated \<times> int" where
  "NegotiateWithE2E proposed allow =
     (Negotiate proposed, if allow then fold (\<lambda>c n. if IsE2E c \<and> cx_BER c then cx_ID c else n) proposed 0 else 0)"

definition e2e_accepts :: "int \<Rightarrow> Context \<Rightarrow> bool" where
  "e2e_accepts e2e c = (Acceptable c \<or> e2e \<noteq> 0 \<and> cx_ID c = e2e \<and> IsE2E c \<and> cx_BER c)"

definition BuildCPAWithE2E :: "byte list \<Rightarrow> Context list \<Rightarrow> byte list \<Rightarrow> bool \<Rightarrow> (Negotiated \<times> int) \<times> byte list" where
  "BuildCPAWithE2E respondingPSel proposed acseData allow =
     (let (neg, e2e) = NegotiateWithE2E proposed allow;
          normal = psel 3 respondingPSel (Cons_el (ContextConstructed 2) []);
          normal = Add normal [Some (buildResults proposed (e2e_accepts e2e) (\<lambda>c. cx_known c \<or> allow \<and> IsE2E c))];
          normal = Add normal [Some (userData (acse_id neg) acseData)]
      in ((neg, e2e), Encode (Cons_el TagSet [Some modeSelector, Some normal])))"

definition BuildCPRWithE2E :: "byte list \<Rightarrow> Context list \<Rightarrow> byte list \<Rightarrow> bool \<Rightarrow> byte list" where
  "BuildCPRWithE2E respondingPSel proposed acseData allow =
     (let (neg, e2e) = NegotiateWithE2E proposed allow;
          seq = psel 3 respondingPSel (Cons_el TagSequence []);
          seq = Add seq [Some (buildResults proposed (e2e_accepts e2e) (\<lambda>c. cx_known c \<or> allow \<and> IsE2E c))]
      in Encode (Add seq [Some (userData (acse_id neg) acseData)]))"

definition WrapAbort :: "int \<Rightarrow> byte list \<Rightarrow> byte list" where
  "WrapAbort acseContextID abrt =
     Encode (Cons_el (ContextConstructed 0) [Some (userData (if acseContextID = 0 then ContextACSE else acseContextID) abrt)])"

definition WrapData :: "int \<Rightarrow> byte list \<Rightarrow> byte list" where
  "WrapData contextID mmsPDU = Encode (userData (if contextID = 0 then ContextMMS else contextID) mmsPDU)"

definition WrapUserData :: "int \<Rightarrow> byte list \<Rightarrow> byte list" where
  "WrapUserData contextID payload = Encode (userData contextID payload)"

section \<open>Decoding\<close>

datatype pres_error = PresBer ber_error | NoUserData | UnexpectedPDU | NoDataValues

fun pres_ber :: "ber_error failure \<Rightarrow> pres_error failure" where
  "pres_ber Panic = Panic"
| "pres_ber (Err e) = Err (PresBer e)"

definition pres_lift :: "(ber_error, 'a) result \<Rightarrow> (pres_error, 'a) result" where
  "pres_lift r = (case r of Inl e \<Rightarrow> Inl (pres_ber e) | Inr x \<Rightarrow> Inr x)"

lemma pres_lift_simps [simp]: "pres_lift (Inr x) = Inr x" "pres_lift (Inl e) = Inl (pres_ber e)"
  by (simp_all add: pres_lift_def)

definition parsePDVList :: "byte list \<Rightarrow> (pres_error, int \<times> byte list) result" where
  "parsePDVList content =
     rbind (pres_lift (fst (Expect TagSequence (NewDecoder content)))) (\<lambda>seq.
     for_tlvs (\<lambda>t c contextID.
         if t = TagInteger then (case DecodeInt c of Inl e \<Rightarrow> Return (Inl (pres_ber e)) | Inr n \<Rightarrow> Continue n)
         else if t = ContextConstructed 0 \<or> t = ContextPrimitive 1 then Return (Inr (contextID, c))
         else Continue contextID)
       (\<lambda>e _. Inl (pres_ber e)) (\<lambda>_. Inl (Err NoDataValues)) seq 0)"

definition parseUserData :: "byte list \<Rightarrow> (pres_error, int \<times> byte list) result" where
  "parseUserData pdu =
     rbind (pres_lift (fst (ReadTLV (NewDecoder pdu)))) (\<lambda>(tag, content).
     if tag \<noteq> ApplicationConstructed 1 then Inl (Err UnexpectedPDU) else parsePDVList content)"

definition UnwrapData :: "byte list \<Rightarrow> (pres_error, byte list) result" where
  "UnwrapData pdu = rbind (parseUserData pdu) (\<lambda>(_, d). Inr d)"

definition findUserInfo :: "byte list \<Rightarrow> (pres_error, int \<times> byte list) result" where
  "findUserInfo content =
     for_tlvs (\<lambda>t c (_ :: unit). if t = ApplicationConstructed 1 then Return (parsePDVList c) else Continue ())
       (\<lambda>e _. Inl (pres_ber e)) (\<lambda>_. Inl (Err NoUserData)) content ()"

definition findFullyEncoded :: "byte list \<Rightarrow> (pres_error, byte list) result" where
  "findFullyEncoded content = rbind (findUserInfo content) (\<lambda>(_, d). Inr d)"

definition ParseCPRUserData :: "byte list \<Rightarrow> (pres_error, byte list) result" where
  "ParseCPRUserData pdu = rbind (pres_lift (fst (Expect TagSequence (NewDecoder pdu)))) findFullyEncoded"

definition abort_content :: "byte list \<Rightarrow> (pres_error, byte list) result" where
  "abort_content pdu =
     rbind (pres_lift (fst (ReadTLV (NewDecoder pdu)))) (\<lambda>(tag, content).
     if tag \<noteq> ContextConstructed 0 \<and> tag \<noteq> TagSequence then Inl (Err UnexpectedPDU) else Inr content)"

definition UnwrapAbort :: "byte list \<Rightarrow> (pres_error, byte list) result" where
  "UnwrapAbort pdu = rbind (abort_content pdu) findFullyEncoded"

definition UnwrapAbortCtx :: "byte list \<Rightarrow> (pres_error, int \<times> byte list) result" where
  "UnwrapAbortCtx pdu = rbind (abort_content pdu) findUserInfo"

definition transfer_syntaxes :: "byte list \<Rightarrow> OID \<Rightarrow> OID" where
  "transfer_syntaxes v ts =
     for_tlvs (\<lambda>ot ov ts. Continue (if ot = TagOID then (case DecodeOID ov of Inr oid \<Rightarrow> oid | Inl _ \<Rightarrow> ts) else ts))
       (\<lambda>_ ts. ts) (\<lambda>ts. ts) v ts"

text \<open>One entry of the list; \<open>None\<close> ends it.\<close>

definition parse_context :: "byte list \<Rightarrow> Context option" where
  "parse_context body =
     for_tlvs (\<lambda>t v c.
         if t = TagInteger then Continue (case DecodeInt v of Inr n \<Rightarrow> c\<lparr>cx_ID := n\<rparr> | Inl _ \<Rightarrow> c)
         else if t = TagOID then
           (case DecodeOID v of
              Inl _ \<Rightarrow> Return None
            | Inr oid \<Rightarrow> Continue (if cx_AbstractSyntax c = [] then c\<lparr>cx_AbstractSyntax := oid\<rparr> else c\<lparr>cx_TransferSyntax := oid\<rparr>))
         else if t = TagSequence then Continue (c\<lparr>cx_TransferSyntax := transfer_syntaxes v (cx_TransferSyntax c)\<rparr>)
         else Continue c)
       (\<lambda>_ _. None) Some body \<lparr>cx_ID = 0, cx_AbstractSyntax = [], cx_TransferSyntax = []\<rparr>"

definition parseContextList :: "byte list \<Rightarrow> Context list" where
  "parseContextList content =
     for_tlvs (\<lambda>tag body out.
         if tag \<noteq> TagSequence then Return out
         else case parse_context body of None \<Rightarrow> Return out | Some c \<Rightarrow> Continue (out @ [c]))
       (\<lambda>_ out. out) (\<lambda>out. out) content []"

record CP =
  cp_CallingPSel :: "byte list"
  cp_CalledPSel :: "byte list"
  cp_Contexts :: "Context list"
  cp_UserData :: "byte list option"

definition cp_param :: "Tag \<Rightarrow> byte list \<Rightarrow> CP \<Rightarrow> (CP, (pres_error, CP) result) loop_step" where
  "cp_param t c cp =
     (if t = ContextPrimitive 1 then Continue (cp\<lparr>cp_CallingPSel := c\<rparr>)
      else if t = ContextPrimitive 2 then Continue (cp\<lparr>cp_CalledPSel := c\<rparr>)
      else if t = ContextConstructed 4 then Continue (cp\<lparr>cp_Contexts := parseContextList c\<rparr>)
      else if t = ApplicationConstructed 1 then
        (case parsePDVList c of Inl e \<Rightarrow> Return (Inl e) | Inr (_, d) \<Rightarrow> Continue (cp\<lparr>cp_UserData := Some d\<rparr>))
      else Continue cp)"

definition ParseCP :: "byte list \<Rightarrow> (pres_error, CP) result" where
  "ParseCP pdu =
     rbind (pres_lift (fst (Expect TagSet (NewDecoder pdu)))) (\<lambda>setContent.
     for_tlvs (\<lambda>tag content cp.
         if tag \<noteq> ContextConstructed 2 then Continue cp
         else case for_tlvs cp_param (\<lambda>e _. Inl (pres_ber e)) Inr content cp of Inl e \<Rightarrow> Return (Inl e) | Inr cp \<Rightarrow> Continue cp)
       (\<lambda>e _. Inl (pres_ber e)) (\<lambda>cp. if cp_UserData cp = None then Inl (Err NoUserData) else Inr cp)
       setContent \<lparr>cp_CallingPSel = [], cp_CalledPSel = [], cp_Contexts = [], cp_UserData = None\<rparr>)"

definition ParseCPUserData :: "byte list \<Rightarrow> (pres_error, byte list) result" where
  "ParseCPUserData pdu =
     rbind (pres_lift (fst (Expect TagSet (NewDecoder pdu)))) (\<lambda>setContent.
     for_tlvs (\<lambda>tag content (_ :: unit).
         if tag = ContextConstructed 2 then
           for_tlvs (\<lambda>t c (_ :: unit). if t = ApplicationConstructed 1 then Return (Return (rbind (parsePDVList c) (\<lambda>(_, d). Inr d))) else Continue ())
             (\<lambda>e _. Return (Inl (pres_ber e))) (\<lambda>_. Continue ()) content ()
         else Continue ())
       (\<lambda>e _. Inl (pres_ber e)) (\<lambda>_. Inl (Err NoUserData)) setContent ())"

definition UnwrapDataCtx :: "byte list \<Rightarrow> (pres_error, int \<times> byte list) result" where
  "UnwrapDataCtx pdu =
     rbind (pres_lift (fst (ReadTLV (NewDecoder pdu)))) (\<lambda>(tag, content).
     if tag \<noteq> ApplicationConstructed 1 then Inl (Err UnexpectedPDU)
     else rbind (pres_lift (fst (Expect TagSequence (NewDecoder content)))) (\<lambda>seq.
       for_tlvs (\<lambda>t c ctx.
           if t = TagInteger then (case DecodeInt c of Inl e \<Rightarrow> Return (Inl (pres_ber e)) | Inr n \<Rightarrow> Continue n)
           else if t = ContextConstructed 0 then Return (Inr (ctx, c))
           else if t = TagOID then Continue ctx
           else Return (Inl (Err UnexpectedPDU)))
         (\<lambda>e _. Inl (pres_ber e)) (\<lambda>_. Inl (Err NoDataValues)) seq (- 1)))"

section \<open>Octets\<close>

abbreviation pdv_octets :: "int \<Rightarrow> byte list \<Rightarrow> byte list" where
  "pdv_octets i p \<equiv> tlv TagSequence (tlv TagInteger (int_octets i) @ tlv (ContextConstructed 0) p)"

lemma Encode_userData: "Encode (userData i p) = tlv (ApplicationConstructed 1) (pdv_octets i p)"
  by (simp add: userData_def octets_simps)

lemma length_pdv: "int64_ok i \<Longrightarrow> length (pdv_octets i p) \<le> 41 + length p"
  using length_tlv_le(1) [of TagSequence "tlv TagInteger (int_octets i) @ tlv (ContextConstructed 0) p"]
    length_tlv_le(1) [of TagInteger "int_octets i"] length_tlv_le(1) [of "ContextConstructed 0" p] length_int_octets [of i] by simp

lemma parsePDVList_pdv:
  assumes "int64_ok i" "length p < 2 ^ 31"
  shows "parsePDVList (pdv_octets i p) = Inr (i, p)"
proof -
  let ?fs = "[(TagInteger, int_octets i), (ContextConstructed 0, p)]" and ?bs = "tlv TagInteger (int_octets i) @ tlv (ContextConstructed 0) p"
  have l: "length ?bs < 2 ^ 32" using length_pdv [OF assms(1), of p] length_tlv_le(2) [of ?bs TagSequence] assms(2) by simp
  have ok: "?bs = fields_octets ?fs" "fields_ok ?fs" using assms content_short by simp_all
  show ?thesis using l assms(1) unfolding parsePDVList_def
    by (simp add: NewDecoder_at [of "tlv _ _"] codec_simps for_tlvs_fields [OF ok] tags)
qed

lemma userData_decoded:
  assumes "int64_ok i" "length p < 2 ^ 31"
  shows "parseUserData (Encode (userData i p)) = Inr (i, p)" "UnwrapDataCtx (Encode (userData i p)) = Inr (i, p)"
proof -
  let ?fs = "[(TagInteger, int_octets i), (ContextConstructed 0, p)]" and ?bs = "tlv TagInteger (int_octets i) @ tlv (ContextConstructed 0) p"
  have l: "length (pdv_octets i p) < 2 ^ 32" "length ?bs < 2 ^ 32"
    using length_pdv [OF assms(1), of p] length_tlv_le(2) [of ?bs TagSequence] assms(2) by simp_all
  have ok: "?bs = fields_octets ?fs" "fields_ok ?fs" using assms content_short by simp_all
  show "parseUserData (Encode (userData i p)) = Inr (i, p)"
    using l parsePDVList_pdv [OF assms] by (simp add: parseUserData_def Encode_userData NewDecoder_at [of "tlv _ _"] codec_simps)
  show "UnwrapDataCtx (Encode (userData i p)) = Inr (i, p)"
    using l assms(1) by (simp add: UnwrapDataCtx_def Encode_userData NewDecoder_at [of "tlv _ _"] codec_simps for_tlvs_fields [OF ok] tags)
qed

lemma oids_ok [simp]: "oid_ok oidACSE" "oid_ok oidMMS" "oid_ok oidBER" "oid_ok oidE2E"
  by (simp_all add: oid_ok_def oidACSE_def oidMMS_def oidBER_def oidE2E_def)

lemma oids_distinct [simp]: "oidACSE \<noteq> oidMMS" "oidMMS \<noteq> oidACSE" "oidE2E \<noteq> oidACSE" "oidE2E \<noteq> oidMMS" "oidACSE \<noteq> []" "oidMMS \<noteq> []" "oidE2E \<noteq> []"
  by (simp_all add: oidACSE_def oidMMS_def oidE2E_def)

abbreviation entry_octets :: "int \<Rightarrow> OID \<Rightarrow> byte list" where
  "entry_octets i x \<equiv> tlv TagInteger (int_octets i) @ tlv TagOID (AppendOID [] x) @ tlv TagSequence (tlv TagOID (AppendOID [] oidBER))"

lemma Encode_contextEntry: "Encode (contextEntry i x) = tlv TagSequence (entry_octets i x)"
  by (simp add: contextEntry_def octets_simps)

lemma oid_octets: "AppendOID [] oidACSE = [0x52, 1, 0, 1]" "AppendOID [] oidMMS = [0x28, 0xca, 0x22, 2, 1]" "AppendOID [] oidBER = [0x51, 1]"
  "AppendOID [] oidE2E = [0x28, 0x83, 0xe7, 0x0f, 4, 1, 2, 1]"
  by code_simp+

lemma parse_context_entry:
  assumes "int64_ok i" "oid_ok x"
  shows "parse_context (entry_octets i x) = Some \<lparr>cx_ID = i, cx_AbstractSyntax = x, cx_TransferSyntax = oidBER\<rparr>"
proof -
  let ?ts = "tlv TagOID (AppendOID [] oidBER)"
  have t: "?ts = fields_octets [(TagOID, AppendOID [] oidBER)]" "fields_ok [(TagOID, AppendOID [] oidBER)]" by (simp_all add: oid_octets)
  have ts: "transfer_syntaxes ?ts y = oidBER" for y by (simp add: transfer_syntaxes_def for_tlvs_fields [OF t])
  have "length ?ts < 100" using length_tlv_le(1) [of TagOID "AppendOID [] oidBER"] by (simp add: oid_octets)
  then have ok: "entry_octets i x = fields_octets [(TagInteger, int_octets i), (TagOID, AppendOID [] x), (TagSequence, ?ts)]"
    "fields_ok [(TagInteger, int_octets i), (TagOID, AppendOID [] x), (TagSequence, ?ts)]"
    using assms content_short by simp_all
  have "x \<noteq> []" using assms(2) by (auto simp: oid_ok_def)
  then show ?thesis using assms unfolding parse_context_def for_tlvs_fields [OF ok] by (simp add: tags ts)
qed

lemma length_entry: "int64_ok i \<Longrightarrow> length (AppendOID [] x) < 100 \<Longrightarrow> length (entry_octets i x) < 200"
  using length_tlv_le(1) [of TagInteger "int_octets i"] length_tlv_le(1) [of TagOID "AppendOID [] x"] length_int_octets [of i]
    length_tlv_le(1) [of TagOID "AppendOID [] oidBER"] length_tlv_le(1) [of TagSequence "tlv TagOID (AppendOID [] oidBER)"] by (simp add: oid_octets)

lemma parse_contexts:
  assumes "\<forall>(i, x) \<in> set cs. int64_ok i \<and> oid_ok x \<and> length (AppendOID [] x) < 100"
  shows "parseContextList (concat (map (\<lambda>(i, x). tlv TagSequence (entry_octets i x)) cs))
    = map (\<lambda>(i, x). \<lparr>cx_ID = i, cx_AbstractSyntax = x, cx_TransferSyntax = oidBER\<rparr>) cs"
proof -
  let ?fs = "map (\<lambda>(i, x). (TagSequence, entry_octets i x)) cs"
  have oct: "concat (map (\<lambda>(i, x). tlv TagSequence (entry_octets i x)) cs) = fields_octets ?fs" by (simp add: split_def comp_def)
  have ok: "fields_ok ?fs" using assms length_entry by (fastforce simp: fields_ok_def list_all_iff)
  have "run_fields (\<lambda>tag body out. if tag \<noteq> TagSequence then Return out
         else case parse_context body of None \<Rightarrow> Return out | Some c \<Rightarrow> Continue (out @ [c])) (\<lambda>out. out) ?fs out
    = out @ map (\<lambda>(i, x). \<lparr>cx_ID = i, cx_AbstractSyntax = x, cx_TransferSyntax = oidBER\<rparr>) cs" for out
    using assms by (induction cs arbitrary: out) (auto simp: parse_context_entry split_def)
  then show ?thesis unfolding parseContextList_def for_tlvs_fields [OF oct ok] by simp
qed

section \<open>Connection PDUs read back\<close>

definition opt_field :: "32 word \<Rightarrow> byte list \<Rightarrow> field list" where
  "opt_field n sel = (if sel = [] then [] else [(ContextPrimitive n, sel)])"

lemma psel_Cons_el: "psel n sel (Cons_el t es) = Cons_el t (es @ (if sel = [] then [] else [Some (Prim (ContextPrimitive n) sel)]))"
  by (simp add: psel_def Add_Cons_el)

abbreviation mode_octets :: "byte list" where "mode_octets \<equiv> tlv (ContextPrimitive 0) (int_octets 1)"

lemma mode_fits: "length mode_octets < 2 ^ 32"
  using length_tlv_le(1) [of "ContextPrimitive 0" "int_octets 1"] length_int_octets [of 1] by (simp add: int64_ok_def)

lemma Encode_modeSelector: "Encode modeSelector = tlv (ContextConstructed 0) mode_octets"
  by (simp add: modeSelector_def octets_simps)

abbreviation proposed_octets :: "byte list" where
  "proposed_octets \<equiv> concat (map (\<lambda>(i, x). tlv TagSequence (entry_octets i x)) [(ContextACSE, oidACSE), (ContextMMS, oidMMS)])"

definition cp_fields :: "byte list \<Rightarrow> byte list \<Rightarrow> byte list \<Rightarrow> field list" where
  "cp_fields a b d = opt_field 1 a @ opt_field 2 b @ [(ContextConstructed 4, proposed_octets), (ApplicationConstructed 1, pdv_octets ContextACSE d)]"

lemma BuildCP_octets:
  "BuildCP a b d = tlv TagSet (fields_octets [(ContextConstructed 0, mode_octets), (ContextConstructed 2, fields_octets (cp_fields a b d))])"
proof -
  have u: "el_ok (userData ContextACSE d)" "el_ok (contextEntry i x)" "el_ok modeSelector" for i x
    by (simp_all add: userData_def contextEntry_def modeSelector_def map_filter_simps)
  show ?thesis unfolding BuildCP_def Let_def psel_Cons_el
    by (simp add: octets_simps u Encode_modeSelector Encode_userData Encode_contextEntry cp_fields_def opt_field_def)
qed

definition proposed_contexts :: "Context list" where
  "proposed_contexts = [\<lparr>cx_ID = ContextACSE, cx_AbstractSyntax = oidACSE, cx_TransferSyntax = oidBER\<rparr>,
     \<lparr>cx_ID = ContextMMS, cx_AbstractSyntax = oidMMS, cx_TransferSyntax = oidBER\<rparr>]"

lemma ids_ok [simp]: "int64_ok ContextACSE" "int64_ok ContextMMS"
  by (simp_all add: ContextACSE_def ContextMMS_def int64_ok_def)

lemma ParseCP_BuildCP:
  assumes "length a < 100" "length b < 100" "length d < 2 ^ 30"
  shows "ParseCP (BuildCP a b d) = Inr \<lparr>cp_CallingPSel = a, cp_CalledPSel = b, cp_Contexts = proposed_contexts, cp_UserData = Some d\<rparr>"
proof -
  have e: "length (entry_octets ContextACSE oidACSE) < 200" "length (entry_octets ContextMMS oidMMS) < 200" by (rule length_entry; simp add: oid_octets)+
  have pl: "length proposed_octets < 1000"
    using e length_tlv_le(1) [of TagSequence "entry_octets ContextACSE oidACSE"] length_tlv_le(1) [of TagSequence "entry_octets ContextMMS oidMMS"] by simp
  have ud: "length (pdv_octets ContextACSE d) < 2 ^ 30 + 100" using length_pdv [of ContextACSE d] assms(3) by simp
  have ok: "fields_ok (cp_fields a b d)" using assms pl ud by (simp add: cp_fields_def opt_field_def)
  have "length (fields_octets (cp_fields a b d)) < 2 ^ 31"
    using assms pl ud length_tlv_le(1) [of "ContextPrimitive 1" a] length_tlv_le(1) [of "ContextPrimitive 2" b]
      length_tlv_le(1) [of "ContextConstructed 4" proposed_octets] length_tlv_le(1) [of "ApplicationConstructed 1" "pdv_octets ContextACSE d"]
    by (simp add: cp_fields_def opt_field_def)
  then have ok2: "fields_ok [(ContextConstructed 0, mode_octets), (ContextConstructed 2, fields_octets (cp_fields a b d))]"
    and l: "length (fields_octets [(ContextConstructed 0, mode_octets), (ContextConstructed 2, fields_octets (cp_fields a b d))]) < 2 ^ 32"
    using mode_fits length_tlv_le(1) [of "ContextConstructed 0" mode_octets] length_tlv_le(1) [of "ContextConstructed 2" "fields_octets (cp_fields a b d)"]
      length_tlv_le(1) [of "ContextPrimitive 0" "int_octets 1"] length_int_octets [of 1] by (simp_all add: int64_ok_def)
  have ctx: "parseContextList proposed_octets = proposed_contexts"
    using parse_contexts [of "[(ContextACSE, oidACSE), (ContextMMS, oidMMS)]"] by (simp add: oid_octets proposed_contexts_def)
  have "run_fields cp_param Inr (cp_fields a b d) \<lparr>cp_CallingPSel = [], cp_CalledPSel = [], cp_Contexts = [], cp_UserData = None\<rparr>
      = Inr \<lparr>cp_CallingPSel = a, cp_CalledPSel = b, cp_Contexts = proposed_contexts, cp_UserData = Some d\<rparr>"
    using assms(3) by (simp add: cp_fields_def opt_field_def cp_param_def tags ctx parsePDVList_pdv del: concat.simps list.map(2))
  then show ?thesis using l unfolding BuildCP_octets ParseCP_def
    by (simp only: NewDecoder_at [of "tlv _ _"]) (simp add: codec_simps for_tlvs_fields [OF refl ok2] for_tlvs_fields [OF refl ok] tags del: concat.simps list.map(2))
qed

text \<open>The entry of the result list for a context.\<close>

definition result_of :: "(Context \<Rightarrow> bool) \<Rightarrow> (Context \<Rightarrow> bool) \<Rightarrow> Context \<Rightarrow> Element" where
  "result_of accepts known c =
     (if accepts c then contextResult ResultAcceptance 0
      else if known c \<and> \<not> cx_BER c then contextResult ResultProviderRejection ReasonProposedTransferSyntaxNotSupported
      else contextResult ResultProviderRejection ReasonAbstractSyntaxNotSupported)"

lemma buildResults_eq: "buildResults proposed accepts known = Cons_el (ContextConstructed 5) (map (\<lambda>c. Some (result_of accepts known c)) proposed)"
  by (simp add: buildResults_def Add_Cons_el result_of_def)

lemma result_of_ok: "el_ok (result_of accepts known c)" "length (Encode (result_of accepts known c)) < 100"
proof -
  have e: "el_ok (contextResult r x)" for r x by (simp add: contextResult_def Let_def Add_Cons_el map_filter_simps)
  show "el_ok (result_of accepts known c)" by (simp add: result_of_def e)
  have "length (tlv (ContextPrimitive 0) (int_octets r)) \<le> 19" "length (tlv (ContextPrimitive 2) (int_octets r)) \<le> 19" if "int64_ok r" for r
    using length_tlv_le(1) [of "ContextPrimitive 0" "int_octets r"] length_tlv_le(1) [of "ContextPrimitive 2" "int_octets r"] length_int_octets [OF that] by simp_all
  note l = this(1) [of 0] this(1) [of 2] this(2) [of 1] this(2) [of 2]
  show "length (Encode (result_of accepts known c)) < 100"
    using l length_tlv_le(1) [of "ContextPrimitive 1" "AppendOID [] oidBER"]
      length_tlv_le(1) [of TagSequence "tlv (ContextPrimitive 0) (int_octets 0) @ tlv (ContextPrimitive 1) (AppendOID [] oidBER)"]
      length_tlv_le(1) [of TagSequence "tlv (ContextPrimitive 0) (int_octets 2) @ tlv (ContextPrimitive 2) (int_octets 1)"]
      length_tlv_le(1) [of TagSequence "tlv (ContextPrimitive 0) (int_octets 2) @ tlv (ContextPrimitive 2) (int_octets 2)"]
    by (simp add: result_of_def contextResult_def ResultAcceptance_def ResultProviderRejection_def ReasonAbstractSyntaxNotSupported_def
        ReasonProposedTransferSyntaxNotSupported_def Let_def octets_simps oid_octets int64_ok_def)
qed

abbreviation results_octets :: "(Context \<Rightarrow> bool) \<Rightarrow> (Context \<Rightarrow> bool) \<Rightarrow> Context list \<Rightarrow> byte list" where
  "results_octets accepts known cs \<equiv> concat (map (\<lambda>c. Encode (result_of accepts known c)) cs)"

lemma Encode_buildResults: "Encode (buildResults cs accepts known) = tlv (ContextConstructed 5) (results_octets accepts known cs)" "el_ok (buildResults cs accepts known)"
proof -
  have "List.map_filter id (map (\<lambda>c. Some (result_of accepts known c)) cs) = map (result_of accepts known) cs" by (induction cs) (simp_all add: map_filter_simps)
  moreover have "list_all el_ok (map (result_of accepts known) cs)" by (simp add: list_all_iff result_of_ok)
  ultimately show "Encode (buildResults cs accepts known) = tlv (ContextConstructed 5) (results_octets accepts known cs)" "el_ok (buildResults cs accepts known)"
    by (simp_all add: buildResults_eq octets_simps comp_def)
qed

lemma length_results: "length (results_octets accepts known cs) \<le> 100 * length cs"
  using result_of_ok(2) by (induction cs) (auto simp: add_mono less_imp_le_nat)

definition answer_fields :: "byte list \<Rightarrow> (Context \<Rightarrow> bool) \<Rightarrow> (Context \<Rightarrow> bool) \<Rightarrow> Context list \<Rightarrow> int \<Rightarrow> byte list \<Rightarrow> field list" where
  "answer_fields sel accepts known cs i d =
     opt_field 3 sel @ [(ContextConstructed 5, results_octets accepts known cs), (ApplicationConstructed 1, pdv_octets i d)]"

lemma answer_fields_ok:
  assumes "length sel < 2 ^ 28" "length cs < 2 ^ 20" "int64_ok i" "length d < 2 ^ 30"
  shows "fields_ok (answer_fields sel accepts known cs i d)" "length (fields_octets (answer_fields sel accepts known cs i d)) < 2 ^ 31"
  using assms length_results [of accepts known cs] length_pdv [OF assms(3), of d] length_tlv_le(1) [of "ContextPrimitive 3" sel]
    length_tlv_le(1) [of "ContextConstructed 5" "results_octets accepts known cs"] length_tlv_le(1) [of "ApplicationConstructed 1" "pdv_octets i d"]
  by (simp_all add: answer_fields_def opt_field_def)

lemma findUserInfo_answer:
  assumes "length sel < 2 ^ 28" "length cs < 2 ^ 20" "int64_ok i" "length d < 2 ^ 30"
  shows "findUserInfo (fields_octets (answer_fields sel accepts known cs i d)) = Inr (i, d)"
  unfolding findUserInfo_def for_tlvs_fields [OF refl answer_fields_ok(1) [OF assms]]
  using assms by (simp add: answer_fields_def opt_field_def tags parsePDVList_pdv)

lemma userData_el: "el_ok (userData i d)" "el_ok modeSelector"
  by (simp_all add: userData_def modeSelector_def map_filter_simps)

lemma BuildCPA_octets:
  "snd (BuildCPA sel cs d) = tlv TagSet (fields_octets [(ContextConstructed 0, mode_octets),
     (ContextConstructed 2, fields_octets (answer_fields sel Acceptable cx_known cs (acse_id (Negotiate cs)) d))])"
  unfolding BuildCPA_def Let_def psel_Cons_el
  by (simp add: octets_simps userData_el Encode_buildResults Encode_modeSelector Encode_userData answer_fields_def opt_field_def)

lemma BuildCPR_octets:
  "BuildCPR sel cs d = tlv TagSequence (fields_octets (answer_fields sel Acceptable cx_known cs (acse_id (Negotiate cs)) d))"
  unfolding BuildCPR_def Let_def psel_Cons_el
  by (simp add: octets_simps userData_el Encode_buildResults Encode_userData answer_fields_def opt_field_def)

lemma ParseCPR_BuildCPR:
  assumes "length sel < 2 ^ 28" "length cs < 2 ^ 20" "int64_ok (acse_id (Negotiate cs))" "length d < 2 ^ 30"
  shows "ParseCPRUserData (BuildCPR sel cs d) = Inr d"
  using answer_fields_ok(2) [OF assms, where accepts = Acceptable and known = cx_known] findUserInfo_answer [OF assms, where accepts = Acceptable and known = cx_known]
  unfolding BuildCPR_octets ParseCPRUserData_def
  by (simp add: NewDecoder_at [of "tlv _ _"] codec_simps findFullyEncoded_def del: concat.simps list.map(2))

lemma ParseCPUserData_BuildCPA:
  assumes "length sel < 2 ^ 28" "length cs < 2 ^ 20" "int64_ok (acse_id (Negotiate cs))" "length d < 2 ^ 30"
  shows "ParseCPUserData (snd (BuildCPA sel cs d)) = Inr d"
proof -
  let ?af = "answer_fields sel Acceptable cx_known cs (acse_id (Negotiate cs)) d"
  note ok = answer_fields_ok [OF assms, where accepts = Acceptable and known = cx_known]
  have ok2: "fields_ok [(ContextConstructed 0, mode_octets), (ContextConstructed 2, fields_octets ?af)]"
    and l: "length (fields_octets [(ContextConstructed 0, mode_octets), (ContextConstructed 2, fields_octets ?af)]) < 2 ^ 32"
    using ok(2) mode_fits length_tlv_le(1) [of "ContextConstructed 0" mode_octets] length_tlv_le(1) [of "ContextConstructed 2" "fields_octets ?af"]
      length_tlv_le(1) [of "ContextPrimitive 0" "int_octets 1"] length_int_octets [of 1] by (simp_all add: int64_ok_def)
  have "run_fields (\<lambda>t c (_ :: unit). if t = ApplicationConstructed 1 then Return (Return (rbind (parsePDVList c) (\<lambda>(_, d). Inr d))) else Continue ())
      (\<lambda>_. Continue ()) ?af () = Return (Inr d)"
    using assms by (simp add: answer_fields_def opt_field_def tags parsePDVList_pdv)
  then show ?thesis using l unfolding BuildCPA_octets ParseCPUserData_def
    by (simp only: NewDecoder_at [of "tlv _ _"]) (simp add: codec_simps for_tlvs_fields [OF refl ok2] for_tlvs_fields [OF refl ok(1)] tags del: concat.simps list.map(2))
qed

section \<open>No panic\<close>

lemma pres_panic [simp]: "pres_ber e = Panic \<longleftrightarrow> e = Panic" "pres_lift r = Inl Panic \<longleftrightarrow> r = Inl Panic"
proof -
  show "pres_ber e = Panic \<longleftrightarrow> e = Panic" for e by (cases e) simp_all
  then show "pres_lift r = Inl Panic \<longleftrightarrow> r = Inl Panic" by (simp add: pres_lift_def split: sum.split)
qed

lemma loop_no_panic:
  assumes "\<And>t c s. body t c s \<noteq> Return (Inl Panic)" "\<And>s. fin s \<noteq> Inl Panic"
  shows "for_tlvs body (\<lambda>e _. Inl (pres_ber e)) fin content s \<noteq> Inl Panic"
  by (rule for_tlvs_returns [where J = "\<lambda>_. True" and P = "\<lambda>r. r \<noteq> Inl Panic"]) (use assms in \<open>auto split: loop_step.split\<close>)

lemma parsePDVList_safe: "parsePDVList c \<noteq> Inl Panic"
proof -
  have "for_tlvs (\<lambda>t c contextID.
         if t = TagInteger then (case DecodeInt c of Inl e \<Rightarrow> Return (Inl (pres_ber e)) | Inr n \<Rightarrow> Continue n)
         else if t = ContextConstructed 0 \<or> t = ContextPrimitive 1 then Return (Inr (contextID, c))
         else Continue contextID)
       (\<lambda>e _. Inl (pres_ber e)) (\<lambda>_. Inl (Err NoDataValues)) seq 0 \<noteq> Inl Panic" for seq
    by (rule loop_no_panic) (use DecodeInt_no_panic in \<open>auto split: sum.splits\<close>)
  then show ?thesis using read_no_panic unfolding parsePDVList_def by (auto simp: rbind_eq_Inl)
qed

lemma findUserInfo_safe: "findUserInfo c \<noteq> Inl Panic"
  unfolding findUserInfo_def by (rule loop_no_panic) (use parsePDVList_safe in auto)

lemma ParseCP_safe: "ParseCP pdu \<noteq> Inl Panic"
proof -
  have 1: "for_tlvs cp_param (\<lambda>e _. Inl (pres_ber e)) Inr content cp \<noteq> Inl Panic" for content cp
    by (rule loop_no_panic) (use parsePDVList_safe in \<open>auto simp: cp_param_def split: sum.splits\<close>)
  have "for_tlvs (\<lambda>tag content cp.
         if tag \<noteq> ContextConstructed 2 then Continue cp
         else case for_tlvs cp_param (\<lambda>e _. Inl (pres_ber e)) Inr content cp of Inl e \<Rightarrow> Return (Inl e) | Inr cp \<Rightarrow> Continue cp)
       (\<lambda>e _. Inl (pres_ber e)) (\<lambda>cp. if cp_UserData cp = None then Inl (Err NoUserData) else Inr cp) sc cp0 \<noteq> Inl Panic" for sc cp0
    by (rule loop_no_panic) (use 1 in \<open>auto split: sum.splits\<close>)
  then show ?thesis using read_no_panic unfolding ParseCP_def by (auto simp: rbind_eq_Inl)
qed

lemma ParseCPUserData_safe: "ParseCPUserData pdu \<noteq> Inl Panic"
proof -
  let ?inner = "\<lambda>t c (_ :: unit). if t = ApplicationConstructed 1 then Return (Return (rbind (parsePDVList c) (\<lambda>(_, d). Inr d))) else Continue ()"
  have "rbind (parsePDVList c) (\<lambda>(_, d). Inr d) \<noteq> Inl Panic" for c
    using parsePDVList_safe by (auto simp: rbind_eq_Inl)
  then have 1: "for_tlvs ?inner (\<lambda>e _. Return (Inl (pres_ber e))) (\<lambda>_. Continue ()) content () \<noteq> Return (Inl Panic)" for content
    by (intro for_tlvs_returns [where J = "\<lambda>_. True" and P = "\<lambda>r. r \<noteq> Return (Inl Panic)"]) auto
  have "for_tlvs (\<lambda>tag content (_ :: unit).
         if tag = ContextConstructed 2 then for_tlvs ?inner (\<lambda>e _. Return (Inl (pres_ber e))) (\<lambda>_. Continue ()) content ()
         else Continue ()) (\<lambda>e _. Inl (pres_ber e)) (\<lambda>_. Inl (Err NoUserData)) sc () \<noteq> Inl Panic" for sc
    by (rule loop_no_panic) (use 1 in auto)
  then show ?thesis using read_no_panic unfolding ParseCPUserData_def by (auto simp: rbind_eq_Inl)
qed

section \<open>Negotiation\<close>

text \<open>What a responder agrees to: for each of the two syntaxes the last acceptable proposal.\<close>

definition last_id :: "(Context \<Rightarrow> bool) \<Rightarrow> Context list \<Rightarrow> int" where
  "last_id P cs = (case filter P (rev cs) of [] \<Rightarrow> 0 | c # _ \<Rightarrow> cx_ID c)"

lemma Negotiate_last: "Negotiate cs = \<lparr>ng_ACSE = last_id (\<lambda>c. IsACSE c \<and> cx_BER c) cs, ng_MMS = last_id (\<lambda>c. IsMMS c \<and> cx_BER c) cs\<rparr>"
proof (induction cs rule: rev_induct)
  case (snoc c cs)
  have "\<not> (IsACSE c \<and> IsMMS c)" by (auto simp: IsACSE_def IsMMS_def)
  then show ?case using snoc by (auto simp: Negotiate_def last_id_def Acceptable_def)
qed (simp add: Negotiate_def last_id_def)

section \<open>Properties\<close>

text \<open>Presentation connections are agreed. A responder reads from the client's CP the selectors, the ACSE and the MMS
  context under the identifiers the client chose, and the AARQ; it accepts both; and from its CPA the client
  reads the AARE, from its CPR the refusing one.\<close>

theorem presentation_connect:
  assumes "length a < 100" "length b < 100" "length sel < 2 ^ 28" "length aarq < 2 ^ 30" "length aare < 2 ^ 30"
  shows "\<exists>cp. ParseCP (BuildCP a b aarq) = Inr cp \<and> cp_CallingPSel cp = a \<and> cp_CalledPSel cp = b \<and> cp_UserData cp = Some aarq
    \<and> Negotiate (cp_Contexts cp) = \<lparr>ng_ACSE = ContextACSE, ng_MMS = ContextMMS\<rparr>
    \<and> ParseCPUserData (snd (BuildCPA sel (cp_Contexts cp) aare)) = Inr aare
    \<and> ParseCPRUserData (BuildCPR sel (cp_Contexts cp) aare) = Inr aare"
proof -
  have n: "Negotiate proposed_contexts = \<lparr>ng_ACSE = ContextACSE, ng_MMS = ContextMMS\<rparr>"
    by (simp add: Negotiate_def proposed_contexts_def Acceptable_def IsACSE_def IsMMS_def cx_BER_def)
  then have "int64_ok (acse_id (Negotiate proposed_contexts))" by (simp add: acse_id_def ContextACSE_def int64_ok_def)
  then show ?thesis using ParseCP_BuildCP [OF assms(1,2,4)] n ParseCPUserData_BuildCPA [of sel proposed_contexts aare] ParseCPR_BuildCPR [of sel proposed_contexts aare] assms
    by (simp add: proposed_contexts_def)
qed

theorem presentation_connect_witness:
  "\<exists>cp. ParseCP (BuildCP DefaultCallingPSel DefaultCalledPSel [0x60, 0]) = Inr cp \<and> cp_CalledPSel cp = [0, 0, 0, 1] \<and> cp_UserData cp = Some [0x60, 0]
    \<and> ParseCPUserData (snd (BuildCPA DefaultCalledPSel (cp_Contexts cp) [0x61, 0])) = Inr [0x61, 0]"
  using presentation_connect [of DefaultCallingPSel DefaultCalledPSel DefaultCalledPSel "[0x60, 0]" "[0x61, 0]"]
  by (auto simp: DefaultCallingPSel_def DefaultCalledPSel_def)

text \<open>Every decoder of the layer ends in a value or an error, on any octets.\<close>

theorem presentation_safe:
  "ParseCP pdu \<noteq> Inl Panic \<and> ParseCPUserData pdu \<noteq> Inl Panic \<and> ParseCPRUserData pdu \<noteq> Inl Panic \<and> UnwrapData pdu \<noteq> Inl Panic \<and> UnwrapAbortCtx pdu \<noteq> Inl Panic"
  using ParseCP_safe ParseCPUserData_safe parsePDVList_safe findUserInfo_safe read_no_panic
  by (auto simp: ParseCPRUserData_def findFullyEncoded_def UnwrapData_def parseUserData_def UnwrapAbortCtx_def abort_content_def rbind_eq_Inl split: if_splits)

end
