(* ===== verification/Acse.thy ===== *)
theory Acse
  imports BerLoop
begin

text \<open>
  Association control (\<^verbatim>\<open>internal/osi/acse\<close>): the AARQ and AARE that carry the MMS initiate exchange, with the
  identities of the two application entities and an optional authentication, the abort and the release. An \<^verbatim>\<open>int32\<close> is a
  \<open>32 word\<close> read with \<open>sint\<close>; a Go \<^verbatim>\<open>int\<close> is an \<open>int\<close>; a nil object identifier is the empty list, which no decoding returns.
\<close>

section \<open>Elements as fields\<close>

text \<open>The elements of a sequence and the fields they are on the wire.\<close>

definition encodes :: "Element option list \<Rightarrow> field list \<Rightarrow> bool" where
  "encodes cs fs = (list_all el_ok (List.map_filter id cs) \<and> map Encode (List.map_filter id cs) = map (\<lambda>f. tlv (fst f) (snd f)) fs)"

lemma map_filter_append: "List.map_filter f (xs @ ys) = List.map_filter f xs @ List.map_filter f ys"
  by (simp add: List.map_filter_def)

lemma encodes_simps [simp]:
  "encodes [] []" "encodes (None # cs) fs \<longleftrightarrow> encodes cs fs"
  "encodes (Some e # cs) ((t, c) # fs) \<longleftrightarrow> el_ok e \<and> Encode e = tlv t c \<and> encodes cs fs"
  by (auto simp: encodes_def map_filter_simps)

lemma encodes_append: "encodes cs fs \<Longrightarrow> encodes ds gs \<Longrightarrow> encodes (cs @ ds) (fs @ gs)"
  by (simp add: encodes_def map_filter_append)

lemma Encode_fields: "encodes cs fs \<Longrightarrow> tag_ok t \<Longrightarrow> Number t < 2 ^ 28 \<Longrightarrow> Encode (Cons_el t cs) = tlv (t\<lparr>Constructed := True\<rparr>) (fields_octets fs)"
  by (simp add: encodes_def Encode_Cons_el)

section \<open>Tags and application contexts\<close>

definition tagAARQ :: Tag where "tagAARQ = ApplicationConstructed 0"
definition tagAARE :: Tag where "tagAARE = ApplicationConstructed 1"
definition tagRLRQ :: Tag where "tagRLRQ = ApplicationConstructed 2"
definition tagRLRE :: Tag where "tagRLRE = ApplicationConstructed 3"
definition tagABRT :: Tag where "tagABRT = ApplicationConstructed 4"
definition tagExternal :: Tag where "tagExternal = universal_tag True 8"

lemmas acse_tags = tagAARQ_def tagAARE_def tagRLRQ_def tagRLRE_def tagABRT_def tagExternal_def

definition oidMMSContext :: OID where "oidMMSContext = [1, 0, 9506, 2, 3]"
definition oidACSIContext :: OID where "oidACSIContext = [1, 0, 61850, 4, 0, 2]"
definition PasswordMechanism :: OID where "PasswordMechanism = [2, 2, 3, 1]"
definition PresentationContextMMS :: int where "PresentationContextMMS = 3"

datatype ApplicationContext = MMSContext | ACSIContext

fun context_OID :: "ApplicationContext \<Rightarrow> OID" where
  "context_OID ACSIContext = oidACSIContext"
| "context_OID MMSContext = oidMMSContext"

definition knownApplicationContext :: "OID \<Rightarrow> bool" where
  "knownApplicationContext x = (x = oidMMSContext \<or> x = oidACSIContext)"

section \<open>Identities and authentication\<close>

record Identity =
  id_APTitle :: OID
  id_AEQualifier :: "32 word"
  id_HasAEQual :: bool
  id_APInvocationID :: "32 word"
  id_HasAPInvocation :: bool
  id_AEInvocationID :: "32 word"
  id_HasAEInvocation :: bool

definition no_identity :: Identity where
  "no_identity = \<lparr>id_APTitle = [], id_AEQualifier = 0, id_HasAEQual = False, id_APInvocationID = 0, id_HasAPInvocation = False,
     id_AEInvocationID = 0, id_HasAEInvocation = False\<rparr>"

definition id_Empty :: "Identity \<Rightarrow> bool" where
  "id_Empty i = (length (id_APTitle i) = 0 \<and> \<not> id_HasAEQual i \<and> \<not> id_HasAPInvocation i \<and> \<not> id_HasAEInvocation i)"

definition addIdentity :: "Element \<Rightarrow> 32 word \<Rightarrow> Identity \<Rightarrow> Element" where
  "addIdentity seq base i =
     (let seq = (if length (id_APTitle i) > 0 then Add seq [Some (Cons_el (ContextConstructed base) [Some (OIDElem TagOID (id_APTitle i))])] else seq);
          seq = (if id_HasAEQual i then Add seq [Some (Cons_el (ContextConstructed (base + 1)) [Some (IntElem TagInteger (sint (id_AEQualifier i)))])] else seq);
          seq = (if id_HasAPInvocation i then Add seq [Some (Cons_el (ContextConstructed (base + 2)) [Some (IntElem TagInteger (sint (id_APInvocationID i)))])] else seq)
      in if id_HasAEInvocation i then Add seq [Some (Cons_el (ContextConstructed (base + 3)) [Some (IntElem TagInteger (sint (id_AEInvocationID i)))])] else seq)"

record Auth =
  au_Mechanism :: OID
  au_Value :: "byte list"

definition PasswordAuth :: "byte list \<Rightarrow> Auth" where
  "PasswordAuth pw = \<lparr>au_Mechanism = PasswordMechanism, au_Value = Encode (Prim (ContextPrimitive 0) pw)\<rparr>"

text \<open>The bit string that selects the authentication unit; its index is in range (\<open>auth_requirement_octets\<close>).\<close>

definition auth_requirement :: BitString where
  "auth_requirement = (case SetBit (NewBitString 1) 0 True of Inr bs \<Rightarrow> bs | Inl _ \<Rightarrow> NewBitString 1)"

definition addAuth :: "Element \<Rightarrow> 32 word \<Rightarrow> Auth option \<Rightarrow> Element" where
  "addAuth seq base auth =
     (case auth of
        None \<Rightarrow> seq
      | Some auth \<Rightarrow>
          let seq = Add seq [Some (BitStringElem (ContextPrimitive base) auth_requirement)];
              seq = (if au_Mechanism auth \<noteq> [] then Add seq [Some (OIDElem (ContextPrimitive (base + 1)) (au_Mechanism auth))] else seq)
          in Add seq [Some (RawContent (ContextConstructed (base + 2)) (au_Value auth))])"

definition external :: "byte list \<Rightarrow> int \<Rightarrow> Element" where
  "external mmsPDU contextID =
     Cons_el tagExternal [Some (IntElem TagInteger contextID), Some (RawContent (ContextConstructed 0) mmsPDU)]"

section \<open>Building\<close>

definition AARQAuth :: "byte list \<Rightarrow> Auth option \<Rightarrow> Identity \<Rightarrow> Identity \<Rightarrow> ApplicationContext \<Rightarrow> byte list" where
  "AARQAuth mmsInitiate auth called calling appCtx =
     (let seq = Cons_el tagAARQ [Some (Cons_el (ContextConstructed 1) [Some (OIDElem TagOID (context_OID appCtx))])];
          seq = addIdentity seq 2 called;
          seq = addIdentity seq 6 calling;
          seq = addAuth seq 10 auth
      in Encode (Add seq [Some (Cons_el (ContextConstructed 30) [Some (external mmsInitiate PresentationContextMMS)])]))"

definition AARQFor :: "byte list \<Rightarrow> byte list \<Rightarrow> Identity \<Rightarrow> Identity \<Rightarrow> ApplicationContext \<Rightarrow> byte list" where
  "AARQFor mmsInitiate password called calling appCtx =
     AARQAuth mmsInitiate (if password \<noteq> [] then Some (PasswordAuth password) else None) called calling appCtx"

definition AARQWithIdentity :: "byte list \<Rightarrow> byte list \<Rightarrow> Identity \<Rightarrow> Identity \<Rightarrow> byte list" where
  "AARQWithIdentity mmsInitiate password called calling = AARQFor mmsInitiate password called calling MMSContext"

definition AARQ :: "byte list \<Rightarrow> byte list \<Rightarrow> byte list" where
  "AARQ mmsInitiate password = AARQWithIdentity mmsInitiate password no_identity no_identity"

text \<open>The context, result and diagnostic every AARE opens with.\<close>

definition aare_head :: "OID \<Rightarrow> int \<Rightarrow> int \<Rightarrow> Element" where
  "aare_head ctx result diag =
     Cons_el tagAARE
       [Some (Cons_el (ContextConstructed 1) [Some (OIDElem TagOID ctx)]),
        Some (Cons_el (ContextConstructed 2) [Some (IntElem TagInteger result)]),
        Some (Cons_el (ContextConstructed 3) [Some (Cons_el (ContextConstructed 1) [Some (IntElem TagInteger diag)])])]"

definition AAREAuth :: "byte list \<Rightarrow> Identity \<Rightarrow> OID \<Rightarrow> int \<Rightarrow> Auth option \<Rightarrow> byte list" where
  "AAREAuth mmsInitiateResp responding proposed mmsContextID auth =
     (let proposed = (if \<not> knownApplicationContext proposed then oidMMSContext else proposed);
          mmsContextID = (if mmsContextID = 0 then PresentationContextMMS else mmsContextID);
          seq = aare_head proposed 0 0;
          seq = addIdentity seq 4 responding;
          seq = addAuth seq 8 auth
      in Encode (Add seq [Some (Cons_el (ContextConstructed 30) [Some (external mmsInitiateResp mmsContextID)])]))"

definition AAREFor :: "byte list \<Rightarrow> Identity \<Rightarrow> OID \<Rightarrow> int \<Rightarrow> byte list" where
  "AAREFor mmsInitiateResp responding proposed mmsContextID = AAREAuth mmsInitiateResp responding proposed mmsContextID None"

definition AAREWithIdentity :: "byte list \<Rightarrow> Identity \<Rightarrow> byte list" where
  "AAREWithIdentity mmsInitiateResp responding = AAREFor mmsInitiateResp responding [] 0"

definition AARE :: "byte list \<Rightarrow> byte list" where
  "AARE mmsInitiateResp = AAREWithIdentity mmsInitiateResp no_identity"

definition AARERejectFor :: "OID \<Rightarrow> int \<Rightarrow> byte list" where
  "AARERejectFor proposed diagnostic =
     Encode (aare_head (if knownApplicationContext proposed then proposed else oidMMSContext) 1 diagnostic)"

definition AAREReject :: "int \<Rightarrow> byte list" where
  "AAREReject diagnostic = AARERejectFor [] diagnostic"

definition ABRT :: "int \<Rightarrow> byte list" where
  "ABRT source = Encode (Cons_el tagABRT [Some (IntElem (ContextPrimitive 0) source)])"

definition RLRQ :: "byte list" where "RLRQ = Encode (Cons_el tagRLRQ [])"
definition RLRE :: "byte list" where "RLRE = Encode (Cons_el tagRLRE [])"

definition userInfoElem :: "byte list list \<Rightarrow> Element option" where
  "userInfoElem userInfo =
     (if length userInfo = 0 then None else Some (Add (Cons_el (ContextConstructed 30) []) (map (\<lambda>x. Some (RawTLV x)) userInfo)))"

definition BuildAARQ :: "OID \<Rightarrow> Identity \<Rightarrow> Identity \<Rightarrow> byte list list \<Rightarrow> byte list" where
  "BuildAARQ appCtx called calling userInfo =
     (let seq = Cons_el tagAARQ [Some (Cons_el (ContextConstructed 1) [Some (OIDElem TagOID appCtx)])];
          seq = addIdentity seq 2 called;
          seq = addIdentity seq 6 calling
      in Encode (Add seq [userInfoElem userInfo]))"

definition BuildAARE :: "OID \<Rightarrow> int \<Rightarrow> int \<Rightarrow> Identity \<Rightarrow> byte list list \<Rightarrow> byte list" where
  "BuildAARE appCtx result diag responding userInfo =
     Encode (Add (addIdentity (aare_head appCtx result diag) 4 responding) [userInfoElem userInfo])"

definition BuildABRT :: "int \<Rightarrow> byte list list \<Rightarrow> byte list" where
  "BuildABRT source userInfo = Encode (Cons_el tagABRT [Some (IntElem (ContextPrimitive 0) source), userInfoElem userInfo])"

definition ABRTWithDiagnostic :: "int \<Rightarrow> int \<Rightarrow> byte list" where
  "ABRTWithDiagnostic source diagnostic =
     Encode (Cons_el tagABRT [Some (IntElem (ContextPrimitive 0) source), Some (IntElem (ContextPrimitive 1) diagnostic)])"

definition BuildRLRQ :: "int \<Rightarrow> byte list list \<Rightarrow> byte list" where
  "BuildRLRQ rsn userInfo = Encode (Cons_el tagRLRQ [Some (IntElem (ContextPrimitive 0) rsn), userInfoElem userInfo])"

definition BuildRLRE :: "int \<Rightarrow> byte list list \<Rightarrow> byte list" where
  "BuildRLRE rsn userInfo = Encode (Cons_el tagRLRE [Some (IntElem (ContextPrimitive 0) rsn), userInfoElem userInfo])"

section \<open>Parsing\<close>

datatype acse_error = AcseBer ber_error | NotExternal | TooManyExternals | NoEncoding | NoResult | NotRelease

fun acse_ber :: "ber_error failure \<Rightarrow> acse_error failure" where
  "acse_ber Panic = Panic"
| "acse_ber (Err e) = Err (AcseBer e)"

definition acse_lift :: "(ber_error, 'a) result \<Rightarrow> (acse_error, 'a) result" where
  "acse_lift r = (case r of Inl e \<Rightarrow> Inl (acse_ber e) | Inr x \<Rightarrow> Inr x)"

lemma acse_lift_simps [simp]: "acse_lift (Inr x) = Inr x" "acse_lift (Inl e) = Inl (acse_ber e)"
  by (simp_all add: acse_lift_def)

definition firstOID :: "byte list \<Rightarrow> OID option" where
  "firstOID content =
     (case fst (Expect TagOID (NewDecoder content)) of
        Inl _ \<Rightarrow> None
      | Inr c \<Rightarrow> (case DecodeOID c of Inl _ \<Rightarrow> None | Inr oid \<Rightarrow> Some oid))"

definition firstInt :: "byte list \<Rightarrow> byte list" where
  "firstInt content =
     (if PeekIs (NewDecoder content) TagInteger
      then (case fst (Expect TagInteger (NewDecoder content)) of Inr c \<Rightarrow> c | Inl _ \<Rightarrow> [])
      else content)"

text \<open>\<open>None\<close> when the tag is not one of the block.\<close>

definition parseIdentity :: "Tag \<Rightarrow> byte list \<Rightarrow> 32 word \<Rightarrow> Identity \<Rightarrow> Identity option" where
  "parseIdentity tag content base i =
     (if tag = ContextConstructed base then
        Some (case firstOID content of Some oid \<Rightarrow> i\<lparr>id_APTitle := oid\<rparr> | None \<Rightarrow> i)
      else if tag = ContextConstructed (base + 1) then
        Some (case DecodeInt (firstInt content) of Inr n \<Rightarrow> i\<lparr>id_AEQualifier := word_of_int n, id_HasAEQual := True\<rparr> | Inl _ \<Rightarrow> i)
      else if tag = ContextConstructed (base + 2) then
        Some (case DecodeInt (firstInt content) of Inr n \<Rightarrow> i\<lparr>id_APInvocationID := word_of_int n, id_HasAPInvocation := True\<rparr> | Inl _ \<Rightarrow> i)
      else if tag = ContextConstructed (base + 3) then
        Some (case DecodeInt (firstInt content) of Inr n \<Rightarrow> i\<lparr>id_AEInvocationID := word_of_int n, id_HasAEInvocation := True\<rparr> | Inl _ \<Rightarrow> i)
      else None)"

definition authBit :: "byte list \<Rightarrow> bool" where
  "authBit c = (length c \<ge> 2 \<and> c ! 1 AND 0x80 \<noteq> 0)"

definition parseDiagnostic :: "byte list \<Rightarrow> int" where
  "parseDiagnostic content =
     for_tlvs (\<lambda>_ c (_ :: unit). case DecodeInt (firstInt c) of Inr n \<Rightarrow> Return n | Inl _ \<Rightarrow> Continue ()) (\<lambda>_ _. 0) (\<lambda>_. 0) content ()"

definition parseUserInfo :: "byte list \<Rightarrow> (acse_error, byte list) result" where
  "parseUserInfo content =
     rbind (acse_lift (fst (Expect tagExternal (NewDecoder content)))) (\<lambda>ext.
     for_tlvs (\<lambda>tag c (_ :: unit). if tag = ContextConstructed 0 \<or> tag = ContextPrimitive 1 then Return (Inr c) else Continue ())
       (\<lambda>e _. Inl (acse_ber e)) (\<lambda>_. Inl (Err NoEncoding)) ext ())"

text \<open>At most eight elements are kept, so nine steps are enough (\<open>externals_fuel\<close>).\<close>

fun externals_loop :: "nat \<Rightarrow> Decoder \<Rightarrow> byte list list \<Rightarrow> (acse_error, byte list list) result" where
  "externals_loop 0 d out = Inr out"
| "externals_loop (Suc n) d out =
     (if \<not> More d then Inr out
      else case ReadSpan d of
        (Inl e, _) \<Rightarrow> Inl (acse_ber e)
      | (Inr s, d') \<Rightarrow>
          if sp_Tag s \<noteq> tagExternal then Inl (Err NotExternal)
          else if length out \<ge> 8 then Inl (Err TooManyExternals)
          else externals_loop n d' (out @ [sp_Full s]))"

definition externals :: "byte list \<Rightarrow> (acse_error, byte list list) result" where
  "externals content = externals_loop 9 (NewDecoder content) []"

record Request =
  rq_UserData :: "byte list option"
  rq_Password :: "byte list"
  rq_Called :: Identity
  rq_Calling :: Identity
  rq_ApplicationContext :: OID
  rq_UserInfo :: "byte list list"
  rq_Mechanism :: OID
  rq_AuthValue :: "byte list option"
  rq_NonKernel :: bool

definition empty_request :: Request where
  "empty_request = \<lparr>rq_UserData = None, rq_Password = [], rq_Called = no_identity, rq_Calling = no_identity, rq_ApplicationContext = [],
     rq_UserInfo = [], rq_Mechanism = [], rq_AuthValue = None, rq_NonKernel = False\<rparr>"

text \<open>A result that is ignored with its error.\<close>

definition ok_or :: "'a \<Rightarrow> ('e, 'a) result \<Rightarrow> 'a" where
  "ok_or z r = (case r of Inr x \<Rightarrow> x | Inl _ \<Rightarrow> z)"

definition ok_some :: "('e, 'a) result \<Rightarrow> 'a option" where
  "ok_some r = (case r of Inr x \<Rightarrow> Some x | Inl _ \<Rightarrow> None)"

lemma ok_simps [simp]: "ok_or z (Inr x) = x" "ok_or z (Inl e) = z" "ok_some (Inr x) = Some x" "ok_some (Inl e) = None"
  by (simp_all add: ok_or_def ok_some_def)

definition aarq_field :: "Tag \<Rightarrow> byte list \<Rightarrow> Request \<Rightarrow> (Request, (acse_error, Request) result) loop_step" where
  "aarq_field tag c req =
     (case parseIdentity tag c 2 (rq_Called req) of
        Some i \<Rightarrow> Continue (req\<lparr>rq_Called := i\<rparr>)
      | None \<Rightarrow>
     case parseIdentity tag c 6 (rq_Calling req) of
        Some i \<Rightarrow> Continue (req\<lparr>rq_Calling := i\<rparr>)
      | None \<Rightarrow>
     if tag = ContextConstructed 1 then Continue (case firstOID c of Some oid \<Rightarrow> req\<lparr>rq_ApplicationContext := oid\<rparr> | None \<Rightarrow> req)
     else if tag = ContextPrimitive 10 \<or> tag = ContextConstructed 13 then Continue (req\<lparr>rq_NonKernel := True\<rparr>)
     else if tag = ContextPrimitive 11 then Continue (req\<lparr>rq_NonKernel := True, rq_Mechanism := ok_or [] (DecodeOID c)\<rparr>)
     else if tag = ContextConstructed 12 then
       Continue (let req = req\<lparr>rq_NonKernel := True, rq_AuthValue := Some c\<rparr> in
         case optional_ignoring (fst (Optional (ContextPrimitive 0) (NewDecoder c))) of
           Some pw \<Rightarrow> req\<lparr>rq_Password := pw\<rparr> | None \<Rightarrow> req)
     else if tag = ContextConstructed 30 then
       (case externals c of
          Inl e \<Rightarrow> Return (Inl e)
        | Inr ui \<Rightarrow> Continue (req\<lparr>rq_UserInfo := ui, rq_UserData := ok_some (parseUserInfo c)\<rparr>))
     else Continue req)"

definition ParseAARQFull :: "byte list \<Rightarrow> (acse_error, Request) result" where
  "ParseAARQFull apdu =
     rbind (acse_lift (fst (Expect tagAARQ (NewDecoder apdu)))) (\<lambda>content.
     for_tlvs aarq_field (\<lambda>e _. Inl (acse_ber e)) Inr content empty_request)"

definition ParseAARQ :: "byte list \<Rightarrow> (acse_error, byte list option \<times> byte list) result" where
  "ParseAARQ apdu = rbind (ParseAARQFull apdu) (\<lambda>req. Inr (rq_UserData req, rq_Password req))"

record Result =
  re_Accepted :: bool
  re_Diagnostic :: int
  re_UserData :: "byte list option"
  re_Responding :: Identity
  re_Result :: int
  re_DiagSource :: int
  re_ApplicationContext :: OID
  re_UserInfo :: "byte list list"
  re_ResponderAuth :: bool
  re_Mechanism :: OID
  re_AuthValue :: "byte list option"

definition empty_result :: Result where
  "empty_result = \<lparr>re_Accepted = False, re_Diagnostic = 0, re_UserData = None, re_Responding = no_identity, re_Result = 0, re_DiagSource = 0,
     re_ApplicationContext = [], re_UserInfo = [], re_ResponderAuth = False, re_Mechanism = [], re_AuthValue = None\<rparr>"

text \<open>The state of the loop is the result and \<^verbatim>\<open>sawResult\<close>.\<close>

definition aare_field :: "Tag \<Rightarrow> byte list \<Rightarrow> Result \<times> bool \<Rightarrow> (Result \<times> bool, (acse_error, Result) result) loop_step" where
  "aare_field tag c s =
     (case s of (res, saw) \<Rightarrow>
     case parseIdentity tag c 4 (re_Responding res) of
        Some i \<Rightarrow> Continue (res\<lparr>re_Responding := i\<rparr>, saw)
      | None \<Rightarrow>
     if tag = ContextConstructed 2 then
       (case DecodeInt (firstInt c) of
          Inl e \<Rightarrow> Return (Inl (acse_ber e))
        | Inr n \<Rightarrow> Continue (res\<lparr>re_Accepted := (n = 0), re_Result := n\<rparr>, True))
     else if tag = ContextConstructed 3 then
       (let res = res\<lparr>re_Diagnostic := parseDiagnostic c\<rparr> in
        Continue (case Peek (NewDecoder c) of Inr t \<Rightarrow> res\<lparr>re_DiagSource := uint (Number t)\<rparr> | Inl _ \<Rightarrow> res, saw))
     else if tag = ContextConstructed 1 then Continue (res\<lparr>re_ApplicationContext := (case firstOID c of Some x \<Rightarrow> x | None \<Rightarrow> [])\<rparr>, saw)
     else if tag = ContextPrimitive 8 then Continue (res\<lparr>re_ResponderAuth := authBit c\<rparr>, saw)
     else if tag = ContextPrimitive 9 then Continue (res\<lparr>re_Mechanism := ok_or [] (DecodeOID c)\<rparr>, saw)
     else if tag = ContextConstructed 10 then Continue (res\<lparr>re_AuthValue := Some c\<rparr>, saw)
     else if tag = ContextConstructed 30 then
       (case externals c of
          Inl e \<Rightarrow> Return (Inl e)
        | Inr ui \<Rightarrow> Continue (res\<lparr>re_UserInfo := ui, re_UserData := ok_some (parseUserInfo c)\<rparr>, saw))
     else Continue (res, saw))"

definition ParseAARE :: "byte list \<Rightarrow> (acse_error, Result) result" where
  "ParseAARE apdu =
     rbind (acse_lift (fst (Expect tagAARE (NewDecoder apdu)))) (\<lambda>content.
     for_tlvs aare_field (\<lambda>e _. Inl (acse_ber e)) (\<lambda>(res, saw). if \<not> saw then Inl (Err NoResult) else Inr res) content (empty_result, False))"

definition IsRelease :: "byte list \<Rightarrow> bool" where "IsRelease apdu = PeekIs (NewDecoder apdu) tagRLRQ"
definition IsABRT :: "byte list \<Rightarrow> bool" where "IsABRT apdu = PeekIs (NewDecoder apdu) tagABRT"

definition ParseABRT :: "byte list \<Rightarrow> (acse_error, int) result" where
  "ParseABRT apdu =
     rbind (acse_lift (fst (Expect tagABRT (NewDecoder apdu)))) (\<lambda>content.
     rbind (acse_lift (optional_or_error (fst (Optional (ContextPrimitive 0) (NewDecoder content))))) (\<lambda>src.
     case src of None \<Rightarrow> Inr 0 | Some c \<Rightarrow> acse_lift (DecodeInt c)))"

record Abort =
  ab_Source :: int
  ab_Diagnostic :: int
  ab_UserInfo :: "byte list list"

definition ParseABRTFull :: "byte list \<Rightarrow> (acse_error, Abort) result" where
  "ParseABRTFull apdu =
     rbind (acse_lift (fst (Expect tagABRT (NewDecoder apdu)))) (\<lambda>content.
     for_tlvs (\<lambda>tag c ab.
         if tag = ContextPrimitive 0 then (case DecodeInt c of Inl e \<Rightarrow> Return (Inl (acse_ber e)) | Inr n \<Rightarrow> Continue (ab\<lparr>ab_Source := n\<rparr>))
         else if tag = ContextPrimitive 1 then (case DecodeInt c of Inl e \<Rightarrow> Return (Inl (acse_ber e)) | Inr n \<Rightarrow> Continue (ab\<lparr>ab_Diagnostic := n\<rparr>))
         else if tag = ContextConstructed 30 then (case externals c of Inl e \<Rightarrow> Return (Inl e) | Inr ui \<Rightarrow> Continue (ab\<lparr>ab_UserInfo := ui\<rparr>))
         else Continue ab)
       (\<lambda>e _. Inl (acse_ber e)) Inr content \<lparr>ab_Source = 0, ab_Diagnostic = - 1, ab_UserInfo = []\<rparr>)"

record Release =
  rl_Response :: bool
  rl_Reason :: int
  rl_UserInfo :: "byte list list"

definition ParseRelease :: "byte list \<Rightarrow> (acse_error, Release) result" where
  "ParseRelease apdu =
     rbind (acse_lift (fst (ReadTLV (NewDecoder apdu)))) (\<lambda>(tag, content).
     if tag \<noteq> tagRLRQ \<and> tag \<noteq> tagRLRE then Inl (Err NotRelease)
     else for_tlvs (\<lambda>t c r.
         if t = ContextPrimitive 0 then (case DecodeInt c of Inl e \<Rightarrow> Return (Inl (acse_ber e)) | Inr n \<Rightarrow> Continue (r\<lparr>rl_Reason := n\<rparr>))
         else if t = ContextConstructed 30 then (case externals c of Inl e \<Rightarrow> Return (Inl e) | Inr ui \<Rightarrow> Continue (r\<lparr>rl_UserInfo := ui\<rparr>))
         else Continue r)
       (\<lambda>e _. Inl (acse_ber e)) Inr content \<lparr>rl_Response = (tag = tagRLRE), rl_Reason = - 1, rl_UserInfo = []\<rparr>)"

section \<open>Octets\<close>

lemma acse_tag_ok [simp]: "tag_ok tagAARQ" "tag_ok tagAARE" "tag_ok tagRLRQ" "tag_ok tagRLRE" "tag_ok tagABRT" "tag_ok tagExternal"
  by (simp_all add: acse_tags)

lemma auth_requirement_octets: "SetBit (NewBitString 1) 0 True = Inr auth_requirement" "AppendBitString [] auth_requirement = [7, 0x80]"
  by (simp_all add: auth_requirement_def SetBit_def NewBitString_def go_index_def bit_mask_def AppendBitString_def byte_of_def)

lemma acse_oids_ok [simp]: "oid_ok oidMMSContext" "oid_ok oidACSIContext" "oid_ok PasswordMechanism" "oid_ok (context_OID c)"
  by (cases c; simp add: oid_ok_def oidMMSContext_def oidACSIContext_def PasswordMechanism_def)+

lemma oid_ok_nonempty: "oid_ok x \<Longrightarrow> x \<noteq> []"
  by (auto simp: oid_ok_def)

lemma int64_sint32 [simp]: "int64_ok (sint (w :: 32 word))"
  using sint_ge [of w] sint_lt [of w] by (simp add: int64_ok_def)

abbreviation oid_field :: "32 word \<Rightarrow> OID \<Rightarrow> field" where
  "oid_field n x \<equiv> (ContextConstructed n, tlv TagOID (AppendOID [] x))"

abbreviation int_field :: "32 word \<Rightarrow> int \<Rightarrow> field" where
  "int_field n i \<equiv> (ContextConstructed n, tlv TagInteger (int_octets i))"

definition identity_fields :: "32 word \<Rightarrow> Identity \<Rightarrow> field list" where
  "identity_fields base i =
     (if id_APTitle i \<noteq> [] then [oid_field base (id_APTitle i)] else [])
     @ (if id_HasAEQual i then [int_field (base + 1) (sint (id_AEQualifier i))] else [])
     @ (if id_HasAPInvocation i then [int_field (base + 2) (sint (id_APInvocationID i))] else [])
     @ (if id_HasAEInvocation i then [int_field (base + 3) (sint (id_AEInvocationID i))] else [])"

definition auth_fields :: "32 word \<Rightarrow> Auth option \<Rightarrow> field list" where
  "auth_fields base auth =
     (case auth of
        None \<Rightarrow> []
      | Some a \<Rightarrow> (ContextPrimitive base, [7, 0x80])
          # (if au_Mechanism a \<noteq> [] then [(ContextPrimitive (base + 1), AppendOID [] (au_Mechanism a))] else [])
          @ [(ContextConstructed (base + 2), au_Value a)])"

abbreviation external_octets :: "int \<Rightarrow> byte list \<Rightarrow> byte list" where
  "external_octets n pdu \<equiv> tlv tagExternal (tlv TagInteger (int_octets n) @ tlv (ContextConstructed 0) pdu)"

abbreviation info_field :: "int \<Rightarrow> byte list \<Rightarrow> field" where
  "info_field n pdu \<equiv> (ContextConstructed 30, external_octets n pdu)"

definition aare_fields :: "OID \<Rightarrow> int \<Rightarrow> int \<Rightarrow> field list" where
  "aare_fields ctx r diag = [oid_field 1 ctx, int_field 2 r, (ContextConstructed 3, tlv (ContextConstructed 1) (tlv TagInteger (int_octets diag)))]"

lemma encodes_identity:
  assumes "encodes cs fs" "base < 100"
  shows "\<exists>ds. addIdentity (Cons_el t cs) base i = Cons_el t ds \<and> encodes ds (fs @ identity_fields base i)"
proof -
  have tags: "tag_ok (ContextConstructed (base + k))" "Number (ContextConstructed (base + k)) < 2 ^ 28" if "k \<le> 3" for k :: "32 word"
    using that assms(2) by (simp_all add: unat_arith_simps)
  define ds where "ds = (if length (id_APTitle i) > 0 then [Some (Cons_el (ContextConstructed base) [Some (OIDElem TagOID (id_APTitle i))])] else [])
     @ (if id_HasAEQual i then [Some (Cons_el (ContextConstructed (base + 1)) [Some (IntElem TagInteger (sint (id_AEQualifier i)))])] else [])
     @ (if id_HasAPInvocation i then [Some (Cons_el (ContextConstructed (base + 2)) [Some (IntElem TagInteger (sint (id_APInvocationID i)))])] else [])
     @ (if id_HasAEInvocation i then [Some (Cons_el (ContextConstructed (base + 3)) [Some (IntElem TagInteger (sint (id_AEInvocationID i)))])] else [])"
  have "addIdentity (Cons_el t cs) base i = Cons_el t (cs @ ds)" by (simp add: addIdentity_def ds_def Let_def Add_Cons_el)
  moreover have "encodes ds (identity_fields base i)"
    unfolding ds_def identity_fields_def using tags [of 0] tags [of 1] tags [of 2] tags [of 3]
    by (intro encodes_append) (auto simp: octets_simps)
  ultimately show ?thesis using encodes_append [OF assms(1)] by blast
qed

lemma encodes_auth:
  assumes "encodes cs fs" "base < 100"
  shows "\<exists>ds. addAuth (Cons_el t cs) base auth = Cons_el t ds \<and> encodes ds (fs @ auth_fields base auth)"
proof (cases auth)
  case None
  then show ?thesis using assms by (auto simp: addAuth_def auth_fields_def)
next
  case (Some a)
  have tags: "tag_ok (ContextPrimitive (base + k))" "Number (ContextPrimitive (base + k)) < 2 ^ 28" "tag_ok (ContextConstructed (base + k))" "Number (ContextConstructed (base + k)) < 2 ^ 28"
    if "k \<le> 3" for k :: "32 word" using that assms(2) by (simp_all add: unat_arith_simps)
  define ds where "ds = Some (BitStringElem (ContextPrimitive base) auth_requirement)
     # (if au_Mechanism a \<noteq> [] then [Some (OIDElem (ContextPrimitive (base + 1)) (au_Mechanism a))] else [])
     @ [Some (RawContent (ContextConstructed (base + 2)) (au_Value a))]"
  have "addAuth (Cons_el t cs) base auth = Cons_el t (cs @ ds)" by (simp add: addAuth_def ds_def Let_def Add_Cons_el Some)
  moreover have "encodes ds (auth_fields base auth)"
    unfolding ds_def auth_fields_def using tags [of 0] tags [of 1] tags [of 2]
    by (auto simp: Some octets_simps auth_requirement_octets encodes_append)
  ultimately show ?thesis using encodes_append [OF assms(1)] by blast
qed

lemma encodes_external: "encodes cs fs \<Longrightarrow> encodes (cs @ [Some (Cons_el (ContextConstructed 30) [Some (external pdu n)])]) (fs @ [info_field n pdu])"
  by (rule encodes_append) (simp_all add: external_def octets_simps acse_tags)

definition aarq_fields :: "byte list \<Rightarrow> Auth option \<Rightarrow> Identity \<Rightarrow> Identity \<Rightarrow> ApplicationContext \<Rightarrow> field list" where
  "aarq_fields pdu auth called calling ctx =
     ((([oid_field 1 (context_OID ctx)] @ identity_fields 2 called) @ identity_fields 6 calling) @ auth_fields 10 auth) @ [info_field PresentationContextMMS pdu]"

lemma AARQ_octets: "AARQAuth pdu auth called calling ctx = tlv tagAARQ (fields_octets (aarq_fields pdu auth called calling ctx))"
proof -
  have 0: "encodes [Some (Cons_el (ContextConstructed 1) [Some (OIDElem TagOID (context_OID ctx))])] [oid_field 1 (context_OID ctx)]"
    by (simp add: octets_simps)
  note 1 = encodes_identity [OF 0, of 2 tagAARQ called, simplified]
  then obtain ds1 where 1: "addIdentity (Cons_el tagAARQ [Some (Cons_el (ContextConstructed 1) [Some (OIDElem TagOID (context_OID ctx))])]) 2 called = Cons_el tagAARQ ds1"
    "encodes ds1 ([oid_field 1 (context_OID ctx)] @ identity_fields 2 called)" by auto
  obtain ds2 where 2: "addIdentity (Cons_el tagAARQ ds1) 6 calling = Cons_el tagAARQ ds2"
    "encodes ds2 (([oid_field 1 (context_OID ctx)] @ identity_fields 2 called) @ identity_fields 6 calling)" using encodes_identity [OF 1(2), of 6 tagAARQ calling] by auto
  obtain ds3 where 3: "addAuth (Cons_el tagAARQ ds2) 10 auth = Cons_el tagAARQ ds3"
    "encodes ds3 ((([oid_field 1 (context_OID ctx)] @ identity_fields 2 called) @ identity_fields 6 calling) @ auth_fields 10 auth)"
    using encodes_auth [OF 2(2), of 10 tagAARQ auth] by auto
  show ?thesis using Encode_fields [OF encodes_external [OF 3(2), of pdu PresentationContextMMS], of tagAARQ]
    by (simp add: AARQAuth_def aarq_fields_def Let_def 1(1) 2(1) 3(1) Add_Cons_el) (simp add: acse_tags)
qed

lemma aare_head_encodes: "\<exists>ds. aare_head ctx r diag = Cons_el tagAARE ds \<and> encodes ds (aare_fields ctx r diag)"
  by (rule exI, rule conjI, rule aare_head_def) (simp add: aare_fields_def octets_simps)

definition accept_fields :: "byte list \<Rightarrow> Identity \<Rightarrow> OID \<Rightarrow> int \<Rightarrow> Auth option \<Rightarrow> field list" where
  "accept_fields pdu responding ctx n auth =
     ((aare_fields ctx 0 0 @ identity_fields 4 responding) @ auth_fields 8 auth) @ [info_field n pdu]"

definition answered_context :: "OID \<Rightarrow> OID" where
  "answered_context proposed = (if knownApplicationContext proposed then proposed else oidMMSContext)"

lemma AARE_octets:
  "AAREAuth pdu responding proposed n auth =
     tlv tagAARE (fields_octets (accept_fields pdu responding (answered_context proposed) (if n = 0 then PresentationContextMMS else n) auth))"
proof -
  let ?ctx = "answered_context proposed" and ?n = "if n = 0 then PresentationContextMMS else n"
  obtain ds where 0: "aare_head ?ctx 0 0 = Cons_el tagAARE ds" "encodes ds (aare_fields ?ctx 0 0)" using aare_head_encodes by blast
  obtain ds1 where 1: "addIdentity (Cons_el tagAARE ds) 4 responding = Cons_el tagAARE ds1" "encodes ds1 (aare_fields ?ctx 0 0 @ identity_fields 4 responding)"
    using encodes_identity [OF 0(2), of 4 tagAARE responding] by auto
  obtain ds2 where 2: "addAuth (Cons_el tagAARE ds1) 8 auth = Cons_el tagAARE ds2" "encodes ds2 ((aare_fields ?ctx 0 0 @ identity_fields 4 responding) @ auth_fields 8 auth)"
    using encodes_auth [OF 1(2), of 8 tagAARE auth] by auto
  have ctx: "(if \<not> knownApplicationContext proposed then oidMMSContext else proposed) = ?ctx" by (simp add: answered_context_def)
  have tg: "tagAARE\<lparr>Constructed := True\<rparr> = tagAARE" by (simp add: acse_tags)
  have "Number tagAARE < 2 ^ 28" by (simp add: acse_tags)
  then show ?thesis using Encode_fields [OF encodes_external [OF 2(2), of pdu ?n] acse_tag_ok(2)]
    unfolding AAREAuth_def Let_def ctx 0(1) 1(1) 2(1) Add_Cons_el tg accept_fields_def by blast
qed

lemma AARERejectFor_octets: "AARERejectFor proposed diag = tlv tagAARE (fields_octets (aare_fields (answered_context proposed) 1 diag))"
proof -
  obtain ds where "aare_head (answered_context proposed) 1 diag = Cons_el tagAARE ds" "encodes ds (aare_fields (answered_context proposed) 1 diag)" using aare_head_encodes by blast
  then show ?thesis using Encode_fields [of ds _ tagAARE] unfolding AARERejectFor_def answered_context_def [symmetric] by (simp add: acse_tags)
qed

subsection \<open>Sizes\<close>

definition fields_size :: "field list \<Rightarrow> nat" where
  "fields_size fs = sum_list (map (\<lambda>f. 11 + length (snd f)) fs)"

lemma fields_size_simps [simp]:
  "fields_size [] = 0" "fields_size ((t, c) # fs) = 11 + length c + fields_size fs" "fields_size (fs @ gs) = fields_size fs + fields_size gs"
  by (simp_all add: fields_size_def)

lemma length_fields: "length (fields_octets fs) \<le> fields_size fs"
proof (induction fs)
  case (Cons f fs)
  then show ?case using length_tlv_le(1) [of "fst f" "snd f"] by (cases f) (simp del: length_AppendTLV)
qed simp

lemma fields_size_ok: "list_all (\<lambda>f. tag_ok (fst f)) fs \<Longrightarrow> fields_size fs < 2 ^ 32 \<Longrightarrow> fields_ok fs"
  by (induction fs) auto

lemma length_AppendOID: "oid_ok x \<Longrightarrow> length (AppendOID [] x) \<le> 5 * length x"
proof -
  assume ok: "oid_ok x"
  have b5: "length (base128 v) \<le> 5" for v
    using length_base128_loop [of v 4] unsigned_less [of v, where 'a = nat] by (simp add: length_base128)
  have "length (concat (map base128 xs)) \<le> 5 * length xs" for xs
    by (induction xs) (auto intro: add_mono b5)
  from this [of "drop 2 x"] b5 [of "x ! 0 * 40 + x ! 1"] ok
  show ?thesis by (auto simp: AppendOID_octets oid_ok_def)
qed

definition oid_fits :: "OID \<Rightarrow> bool" where "oid_fits x = (x = [] \<or> oid_ok x \<and> length x < 1000)"

lemma oid_field_size: "oid_fits x \<Longrightarrow> x \<noteq> [] \<Longrightarrow> length (tlv TagOID (AppendOID [] x)) < 6000" "oid_fits x \<Longrightarrow> x \<noteq> [] \<Longrightarrow> length (AppendOID [] x) < 6000"
  using length_AppendOID [of x] length_tlv_le(1) [of TagOID "AppendOID [] x"] by (auto simp: oid_fits_def)

lemma int_field_size: "int64_ok n \<Longrightarrow> length (tlv TagInteger (int_octets n)) < 20"
  using length_int_octets [of n] length_tlv_le(1) [of TagInteger "int_octets n"] by simp

text \<open>An identity as \<open>parseIdentity\<close> leaves it: an absent number is zero.\<close>

definition identity_ok :: "Identity \<Rightarrow> bool" where
  "identity_ok i = (oid_fits (id_APTitle i) \<and> (\<not> id_HasAEQual i \<longrightarrow> id_AEQualifier i = 0)
     \<and> (\<not> id_HasAPInvocation i \<longrightarrow> id_APInvocationID i = 0) \<and> (\<not> id_HasAEInvocation i \<longrightarrow> id_AEInvocationID i = 0))"

definition auth_ok :: "Auth option \<Rightarrow> bool" where
  "auth_ok auth = (case auth of None \<Rightarrow> True | Some a \<Rightarrow> oid_fits (au_Mechanism a) \<and> length (au_Value a) < 2 ^ 28)"

lemma identity_size: "identity_ok i \<Longrightarrow> fields_size (identity_fields base i) < 2 ^ 13"
  "base < 100 \<Longrightarrow> list_all (\<lambda>f. tag_ok (fst f)) (identity_fields base i)"
proof -
  show "fields_size (identity_fields base i) < 2 ^ 13" if "identity_ok i"
    using that oid_field_size(1) [of "id_APTitle i"] int_field_size [of "sint (id_AEQualifier i)"]
      int_field_size [of "sint (id_APInvocationID i)"] int_field_size [of "sint (id_AEInvocationID i)"]
    by (auto simp: identity_fields_def identity_ok_def)
  show "list_all (\<lambda>f. tag_ok (fst f)) (identity_fields base i)" if "base < 100"
  proof -
    have "tag_ok (ContextConstructed (base + k))" if "k \<le> 3" for k :: "32 word" by simp
    then show ?thesis by (simp add: identity_fields_def)
  qed
qed

lemma auth_size: "auth_ok auth \<Longrightarrow> fields_size (auth_fields base auth) < 2 ^ 29" "list_all (\<lambda>f. tag_ok (fst f)) (auth_fields base auth)"
proof -
  show "fields_size (auth_fields base auth) < 2 ^ 29" if "auth_ok auth"
    using that oid_field_size(2) [of "au_Mechanism (the auth)"] by (auto simp: auth_fields_def auth_ok_def split: option.splits)
  show "list_all (\<lambda>f. tag_ok (fst f)) (auth_fields base auth)" by (simp add: auth_fields_def split: option.split)
qed

lemma external_size: "int64_ok n \<Longrightarrow> length (external_octets n pdu) < 100 + length pdu"
  using length_tlv_le(1) [of tagExternal "tlv TagInteger (int_octets n) @ tlv (ContextConstructed 0) pdu"]
    length_tlv_le(1) [of "ContextConstructed 0" pdu] int_field_size [of n] by simp

section \<open>Reading back\<close>

lemma first_octets [simp]:
  "oid_ok x \<Longrightarrow> firstOID (tlv TagOID (AppendOID [] x)) = Some x" "int64_ok n \<Longrightarrow> firstInt (tlv TagInteger (int_octets n)) = int_octets n"
  using content_short(3) [of x] content_short(1) [of n] by (simp_all add: firstOID_def firstInt_def PeekIs_def NewDecoder_at [of "tlv _ _"] codec_simps)

text \<open>A loop that hands the fields of the block to \<open>parseIdentity\<close>, whatever it does with the others.\<close>

lemma run_identity:
  assumes body: "\<And>t c s i. parseIdentity t c base (get s) = Some i \<Longrightarrow> body t c s = Continue (put i s)"
    and lens: "\<And>i s. get (put i s) = i" "\<And>i j s. put i (put j s) = put i s" and "get s = no_identity" "put no_identity s = s" "identity_ok i"
  shows "run_fields body fin (identity_fields base i) s = fin (put i s)"
proof -
  have step: "body t c (put j s) = Continue (put k s)" if "parseIdentity t c base j = Some k" for t c j k
    using body [of t c "put j s"] that lens by simp
  have t: "id_APTitle i \<noteq> [] \<Longrightarrow> body (ContextConstructed base) (tlv TagOID (AppendOID [] (id_APTitle i))) (put j s) = Continue (put (j\<lparr>id_APTitle := id_APTitle i\<rparr>) s)" for j
    using assms(6) by (intro step) (auto simp: parseIdentity_def identity_ok_def oid_fits_def)
  have q: "body (ContextConstructed (base + 1)) (tlv TagInteger (int_octets (sint (id_AEQualifier i)))) (put j s)
      = Continue (put (j\<lparr>id_AEQualifier := id_AEQualifier i, id_HasAEQual := True\<rparr>) s)"
    "body (ContextConstructed (base + 2)) (tlv TagInteger (int_octets (sint (id_APInvocationID i)))) (put j s)
      = Continue (put (j\<lparr>id_APInvocationID := id_APInvocationID i, id_HasAPInvocation := True\<rparr>) s)"
    "body (ContextConstructed (base + 3)) (tlv TagInteger (int_octets (sint (id_AEInvocationID i)))) (put j s)
      = Continue (put (j\<lparr>id_AEInvocationID := id_AEInvocationID i, id_HasAEInvocation := True\<rparr>) s)" for j
    by (rule step, simp add: parseIdentity_def tags)+
  have "run_fields body fin (identity_fields base i) (put no_identity s) = fin (put i s)"
    using assms(6) t q
    by (cases "id_APTitle i = []"; cases "id_HasAEQual i"; cases "id_HasAPInvocation i"; cases "id_HasAEInvocation i";
        simp add: identity_fields_def identity_ok_def no_identity_def; cases i; simp)
  then show ?thesis by (simp add: assms(5))
qed

lemma parseIdentity_other:
  "parseIdentity (ContextPrimitive n) c base i = None"
  "n \<noteq> base \<Longrightarrow> n \<noteq> base + 1 \<Longrightarrow> n \<noteq> base + 2 \<Longrightarrow> n \<noteq> base + 3 \<Longrightarrow> parseIdentity (ContextConstructed n) c base i = None"
  by (simp_all add: parseIdentity_def tags)

lemma parseIdentity_SomeD: "parseIdentity t c base i = Some j \<Longrightarrow> t \<in> ContextConstructed ` {base, base + 1, base + 2, base + 3}"
  by (auto simp: parseIdentity_def split: if_splits)

lemma externals_one:
  assumes "int64_ok n" "length pdu < 2 ^ 31"
  shows "externals (external_octets n pdu) = Inr [external_octets n pdu]" "parseUserInfo (external_octets n pdu) = Inr pdu"
proof -
  let ?in = "tlv TagInteger (int_octets n) @ tlv (ContextConstructed 0) pdu"
  have l: "length ?in < 2 ^ 32" using external_size [OF assms(1), of pdu] length_tlv_le(2) [of ?in tagExternal] assms(2) by simp
  let ?fs = "[(TagInteger, int_octets n), (ContextConstructed 0, pdu)]"
  have ok: "?in = fields_octets ?fs" "fields_ok ?fs" using assms content_short by simp_all
  show "parseUserInfo (external_octets n pdu) = Inr pdu" using l unfolding parseUserInfo_def
    by (simp add: NewDecoder_at [of "tlv _ _"] codec_simps for_tlvs_fields [OF ok] tags)
  have rd: "ReadTLV (NewDecoder (external_octets n pdu)) = (Inr (tagExternal, ?in), at_pos (external_octets n pdu) [])"
    using l by (simp add: NewDecoder_at [of "tlv _ _"] codec_simps)
  from ReadSpan_ReadTLV [of "NewDecoder (external_octets n pdu)", unfolded rd]
  obtain s where s: "ReadSpan (NewDecoder (external_octets n pdu)) = (Inr s, at_pos (external_octets n pdu) [])" "sp_Tag s = tagExternal"
    "sp_Full s = external_octets n pdu" by (auto simp: at_pos_def)
  have m: "More (NewDecoder (external_octets n pdu))" using length_tlv_le(2) [of ?in tagExternal] by (auto simp: More_unread unread_def)
  show "externals (external_octets n pdu) = Inr [external_octets n pdu]" using s m by (simp add: externals_def eval_nat_numeral)
qed

lemma externals_fuel: "length out \<le> 8 \<Longrightarrow> 9 \<le> n + length out \<Longrightarrow> n \<le> k \<Longrightarrow> externals_loop k d out = externals_loop n d out"
proof (induction n arbitrary: k d out)
  case (Suc n)
  then obtain k' where k: "k = Suc k'" by (cases k) auto
  have "externals_loop k' d' (out @ [x]) = externals_loop n d' (out @ [x])" if "length out < 8" for d' x
    using Suc.prems k that by (intro Suc.IH) simp_all
  then show ?case unfolding k by (simp split: prod.splits sum.splits)
qed simp

lemma optional_tlv_zero: "length pw < 2 ^ 32 \<Longrightarrow> optional_ignoring (fst (Optional (ContextPrimitive 0) (NewDecoder (tlv (ContextPrimitive 0) pw)))) = Some pw"
  by (simp add: NewDecoder_at [of "tlv _ _"] codec_simps optional_ignoring_def)

text \<open>What a responder learns of the authentication.\<close>

definition auth_password :: "Auth option \<Rightarrow> byte list" where
  "auth_password auth =
     (case auth of None \<Rightarrow> []
      | Some a \<Rightarrow> (case optional_ignoring (fst (Optional (ContextPrimitive 0) (NewDecoder (au_Value a)))) of Some pw \<Rightarrow> pw | None \<Rightarrow> []))"

definition auth_mechanism :: "Auth option \<Rightarrow> OID" where
  "auth_mechanism auth = (case auth of None \<Rightarrow> [] | Some a \<Rightarrow> au_Mechanism a)"

lemma auth_mechanism_decoded: "auth_ok (Some a) \<Longrightarrow> au_Mechanism a \<noteq> [] \<Longrightarrow> DecodeOID (AppendOID [] (au_Mechanism a)) = Inr (au_Mechanism a)"
  by (simp add: auth_ok_def oid_fits_def)

lemma run_aarq:
  assumes "identity_ok called" "identity_ok calling" "auth_ok auth" "length pdu < 2 ^ 28"
  shows "run_fields aarq_field fin (aarq_fields pdu auth called calling ctx) empty_request =
    fin \<lparr>rq_UserData = Some pdu, rq_Password = auth_password auth, rq_Called = called, rq_Calling = calling, rq_ApplicationContext = context_OID ctx,
      rq_UserInfo = [external_octets PresentationContextMMS pdu], rq_Mechanism = auth_mechanism auth, rq_AuthValue = map_option au_Value auth, rq_NonKernel = (auth \<noteq> None)\<rparr>"
proof -
  have one: "aarq_field (ContextConstructed 1) (tlv TagOID (AppendOID [] (context_OID ctx))) s = Continue (s\<lparr>rq_ApplicationContext := context_OID ctx\<rparr>)" for s
    by (simp add: aarq_field_def parseIdentity_other tags)
  have called: "run_fields aarq_field fin (identity_fields 2 called) s = fin (s\<lparr>rq_Called := called\<rparr>)" if "rq_Called s = no_identity" for fin s
    by (rule run_identity [where get = rq_Called and put = "\<lambda>i. rq_Called_update (\<lambda>_. i)"]) (use that assms(1) in \<open>auto simp: aarq_field_def\<close>)
  have calling: "run_fields aarq_field fin (identity_fields 6 calling) s = fin (s\<lparr>rq_Calling := calling\<rparr>)" if "rq_Calling s = no_identity" for fin s
  proof (rule run_identity [where get = rq_Calling and put = "\<lambda>i. rq_Calling_update (\<lambda>_. i)"])
    fix t c i and s :: Request assume p: "parseIdentity t c 6 (rq_Calling s) = Some i"
    then have "parseIdentity t c 2 (rq_Called s) = None" using parseIdentity_SomeD [OF p] by (auto simp: parseIdentity_other)
    then show "aarq_field t c s = Continue (s\<lparr>rq_Calling := i\<rparr>)" using p by (simp add: aarq_field_def)
  qed (use that assms(2) in auto)
  have auth: "run_fields aarq_field fin (auth_fields 10 auth) s =
      fin (s\<lparr>rq_NonKernel := auth \<noteq> None, rq_Mechanism := auth_mechanism auth, rq_AuthValue := map_option au_Value auth, rq_Password := auth_password auth\<rparr>)"
    if "rq_NonKernel s = False" "rq_Mechanism s = []" "rq_AuthValue s = None" "rq_Password s = []" for fin s
    using that assms(3) auth_mechanism_decoded
    by (cases s; cases auth) (auto simp: auth_fields_def aarq_field_def parseIdentity_other tags auth_mechanism_def auth_password_def Let_def split: option.split)
  have "int64_ok PresentationContextMMS" by (simp add: PresentationContextMMS_def int64_ok_def)
  then have info: "aarq_field (ContextConstructed 30) (external_octets PresentationContextMMS pdu) s
      = Continue (s\<lparr>rq_UserInfo := [external_octets PresentationContextMMS pdu], rq_UserData := Some pdu\<rparr>)" for s
    using externals_one [of PresentationContextMMS pdu] assms(4) by (simp add: aarq_field_def parseIdentity_other tags)
  show ?thesis unfolding aarq_fields_def run_fields_append
    by (simp add: one called calling auth info empty_request_def)
qed

lemma aarq_fields_ok:
  assumes "identity_ok called" "identity_ok calling" "auth_ok auth" "length pdu < 2 ^ 28"
  shows "fields_ok (aarq_fields pdu auth called calling ctx)" "length (fields_octets (aarq_fields pdu auth called calling ctx)) < 2 ^ 30 - 100"
proof -
  have c: "oid_fits (context_OID ctx)" "context_OID ctx \<noteq> []" by (cases ctx; simp add: oid_fits_def oidMMSContext_def oidACSIContext_def oid_ok_def)+
  have i: "int64_ok PresentationContextMMS" by (simp add: PresentationContextMMS_def int64_ok_def)
  have s: "fields_size (aarq_fields pdu auth called calling ctx) < 2 ^ 30 - 100"
    using identity_size(1) [OF assms(1), of 2] identity_size(1) [OF assms(2), of 6] auth_size(1) [OF assms(3), of 10] external_size [OF i, of pdu] oid_field_size(1) [OF c] assms(4)
    by (simp add: aarq_fields_def)
  then show "fields_ok (aarq_fields pdu auth called calling ctx)"
    by (intro fields_size_ok) (simp_all add: aarq_fields_def identity_size(2) auth_size(2))
  show "length (fields_octets (aarq_fields pdu auth called calling ctx)) < 2 ^ 30 - 100" using s length_fields [of "aarq_fields pdu auth called calling ctx"] by linarith
qed

lemma ParseAARQFull_AARQAuth:
  assumes "identity_ok called" "identity_ok calling" "auth_ok auth" "length pdu < 2 ^ 28"
  shows "ParseAARQFull (AARQAuth pdu auth called calling ctx) =
    Inr \<lparr>rq_UserData = Some pdu, rq_Password = auth_password auth, rq_Called = called, rq_Calling = calling, rq_ApplicationContext = context_OID ctx,
      rq_UserInfo = [external_octets PresentationContextMMS pdu], rq_Mechanism = auth_mechanism auth, rq_AuthValue = map_option au_Value auth, rq_NonKernel = (auth \<noteq> None)\<rparr>"
  using aarq_fields_ok(2) [OF assms, of ctx] unfolding AARQ_octets ParseAARQFull_def
  by (simp add: NewDecoder_at [of "tlv _ _"] codec_simps for_tlvs_fields [OF refl aarq_fields_ok(1) [OF assms]] run_aarq [OF assms] del: concat.simps list.map(2))

text \<open>The responses.\<close>

lemma answered_context_fits [simp]: "oid_ok (answered_context x)" "oid_fits (answered_context x)" "answered_context x \<noteq> []"
proof -
  have "answered_context x = oidMMSContext \<or> answered_context x = oidACSIContext" by (auto simp: answered_context_def knownApplicationContext_def)
  then show "oid_ok (answered_context x)" "oid_fits (answered_context x)" "answered_context x \<noteq> []"
    by (auto simp: oid_fits_def oidMMSContext_def oidACSIContext_def oid_ok_def)
qed

lemma run_aare_head:
  assumes "int64_ok r" "int64_ok diag" "oid_ok ctx"
  shows "run_fields aare_field fin (aare_fields ctx r diag) (empty_result, False) =
    fin (empty_result\<lparr>re_Accepted := (r = 0), re_Result := r, re_Diagnostic := diag, re_DiagSource := 1, re_ApplicationContext := ctx\<rparr>, True)"
proof -
  let ?d = "tlv TagInteger (int_octets diag)" and ?c = "tlv (ContextConstructed 1) (tlv TagInteger (int_octets diag))"
  have ok: "?c = fields_octets [(ContextConstructed 1, ?d)]" "fields_ok [(ContextConstructed 1, ?d)]"
    using int_field_size [OF assms(2)] by simp_all
  have d: "parseDiagnostic ?c = diag" unfolding parseDiagnostic_def for_tlvs_fields [OF ok] using assms(2) by simp
  have p: "Peek (NewDecoder ?c) = Inr (ContextConstructed 1)" by (simp add: NewDecoder_at [of "tlv _ _"] codec_simps)
  show ?thesis using assms by (simp add: aare_fields_def aare_field_def parseIdentity_other tags d p Let_def empty_result_def)
qed

lemma run_accept:
  assumes "identity_ok responding" "auth_ok auth" "length pdu < 2 ^ 28" "int64_ok n" "oid_ok ctx"
  shows "run_fields aare_field fin (accept_fields pdu responding ctx n auth) (empty_result, False) =
    fin (\<lparr>re_Accepted = True, re_Diagnostic = 0, re_UserData = Some pdu, re_Responding = responding, re_Result = 0, re_DiagSource = 1,
     re_ApplicationContext = ctx, re_UserInfo = [external_octets n pdu], re_ResponderAuth = (auth \<noteq> None), re_Mechanism = auth_mechanism auth,
     re_AuthValue = map_option au_Value auth\<rparr>, True)"
proof -
  have z: "int64_ok 0" by (simp add: int64_ok_def)
  have ident: "run_fields aare_field fin (identity_fields 4 responding) s = fin (map_prod (re_Responding_update (\<lambda>_. responding)) id s)" if "re_Responding (fst s) = no_identity" for fin s
    by (rule run_identity [where get = "\<lambda>s. re_Responding (fst s)" and put = "\<lambda>i. map_prod (re_Responding_update (\<lambda>_. i)) id"])
      (use that assms(1) in \<open>auto simp: aare_field_def map_prod_def split: prod.splits\<close>)
  have auth: "run_fields aare_field fin (auth_fields 8 auth) (s, b) =
      fin (s\<lparr>re_ResponderAuth := auth \<noteq> None, re_Mechanism := auth_mechanism auth, re_AuthValue := map_option au_Value auth\<rparr>, b)"
    if "re_ResponderAuth s = False" "re_Mechanism s = []" "re_AuthValue s = None" for fin s b
    using that assms(2) auth_mechanism_decoded
    by (cases s; cases auth) (auto simp: auth_fields_def aare_field_def parseIdentity_other tags auth_mechanism_def authBit_def)
  have info: "aare_field (ContextConstructed 30) (external_octets n pdu) (s, b) = Continue (s\<lparr>re_UserInfo := [external_octets n pdu], re_UserData := Some pdu\<rparr>, b)" for s b
    using externals_one [of n pdu] assms(3,4) by (simp add: aare_field_def parseIdentity_other tags)
  show ?thesis unfolding accept_fields_def run_fields_append run_aare_head [OF z z assms(5)]
    by (simp add: ident auth info empty_result_def)
qed

lemma accept_fields_ok:
  assumes "identity_ok responding" "auth_ok auth" "length pdu < 2 ^ 28" "int64_ok n" "oid_fits ctx" "ctx \<noteq> []"
  shows "fields_ok (accept_fields pdu responding ctx n auth)" "length (fields_octets (accept_fields pdu responding ctx n auth)) < 2 ^ 30 - 100"
proof -
  have z: "int64_ok 0" by (simp add: int64_ok_def)
  have s: "fields_size (accept_fields pdu responding ctx n auth) < 2 ^ 30 - 100"
    using identity_size(1) [OF assms(1), of 4] auth_size(1) [OF assms(2), of 8] external_size [OF assms(4), of pdu] oid_field_size(1) [OF assms(5,6)]
      int_field_size [OF z] length_tlv_le(1) [of "ContextConstructed 1" "tlv TagInteger (int_octets 0)"] assms(3)
    by (simp add: accept_fields_def aare_fields_def)
  then show "fields_ok (accept_fields pdu responding ctx n auth)"
    by (intro fields_size_ok) (simp_all add: accept_fields_def aare_fields_def identity_size(2) auth_size(2))
  show "length (fields_octets (accept_fields pdu responding ctx n auth)) < 2 ^ 30 - 100" using s length_fields [of "accept_fields pdu responding ctx n auth"] by linarith
qed

lemma ParseAARE_AAREAuth:
  assumes "identity_ok responding" "auth_ok auth" "length pdu < 2 ^ 28" "int64_ok n"
  shows "ParseAARE (AAREAuth pdu responding proposed n auth) =
    Inr \<lparr>re_Accepted = True, re_Diagnostic = 0, re_UserData = Some pdu, re_Responding = responding, re_Result = 0, re_DiagSource = 1,
     re_ApplicationContext = answered_context proposed, re_UserInfo = [external_octets (if n = 0 then PresentationContextMMS else n) pdu],
     re_ResponderAuth = (auth \<noteq> None), re_Mechanism = auth_mechanism auth, re_AuthValue = map_option au_Value auth\<rparr>"
proof -
  define m where "m = (if n = 0 then PresentationContextMMS else n)"
  have m: "int64_ok m" using assms(4) by (simp add: m_def PresentationContextMMS_def int64_ok_def)
  note ok = accept_fields_ok [OF assms(1-3) m answered_context_fits(2,3), of proposed]
  show ?thesis using ok(2) unfolding AARE_octets ParseAARE_def m_def [symmetric]
    by (simp add: NewDecoder_at [of "tlv _ _"] codec_simps for_tlvs_fields [OF refl ok(1)] run_accept [OF assms(1-3) m answered_context_fits(1)] del: concat.simps list.map(2))
qed

lemma ParseAARE_reject:
  assumes "int64_ok diag"
  shows "ParseAARE (AARERejectFor proposed diag) =
    Inr (empty_result\<lparr>re_Accepted := False, re_Result := 1, re_Diagnostic := diag, re_DiagSource := 1, re_ApplicationContext := answered_context proposed\<rparr>)"
proof -
  let ?fs = "aare_fields (answered_context proposed) 1 diag"
  have i: "int64_ok 1" by (simp add: int64_ok_def)
  have s: "fields_size ?fs < 2 ^ 13"
    using oid_field_size(1) [OF answered_context_fits(2,3), of proposed] int_field_size [OF i] int_field_size [OF assms] length_tlv_le(1) [of "ContextConstructed 1" "tlv TagInteger (int_octets diag)"]
    by (simp add: aare_fields_def)
  then have ok: "fields_ok ?fs" "length (fields_octets ?fs) < 2 ^ 32"
    using length_fields [of ?fs] by (auto intro!: fields_size_ok simp: aare_fields_def)
  show ?thesis using ok(2) unfolding AARERejectFor_octets ParseAARE_def
    by (simp add: NewDecoder_at [of "tlv _ _"] codec_simps for_tlvs_fields [OF refl ok(1)] run_aare_head [OF i assms answered_context_fits(1)] del: concat.simps list.map(2))
qed

lemma auth_password_PasswordAuth: "length pw < 2 ^ 32 \<Longrightarrow> auth_password (Some (PasswordAuth pw)) = pw" "auth_password None = []"
  using optional_tlv_zero [of pw] by (simp_all add: auth_password_def PasswordAuth_def octets_simps)

text \<open>An abort is read back from what either builder sends.\<close>

lemma ParseABRT_ABRT:
  assumes "int64_ok source" "int64_ok diag"
  shows "ParseABRT (ABRT source) = Inr source" "ParseABRTFull (ABRT source) = Inr \<lparr>ab_Source = source, ab_Diagnostic = - 1, ab_UserInfo = []\<rparr>"
    "ParseABRTFull (ABRTWithDiagnostic source diag) = Inr \<lparr>ab_Source = source, ab_Diagnostic = diag, ab_UserInfo = []\<rparr>"
proof -
  let ?fs = "[(ContextPrimitive 0, int_octets source)]" and ?gs = "[(ContextPrimitive 0, int_octets source), (ContextPrimitive 1, int_octets diag)]"
  have tg: "tagABRT\<lparr>Constructed := True\<rparr> = tagABRT" "Number tagABRT < 2 ^ 28" by (simp_all add: acse_tags)
  have e: "ABRT source = tlv tagABRT (fields_octets ?fs)" "ABRTWithDiagnostic source diag = tlv tagABRT (fields_octets ?gs)"
    using tg by (simp_all add: ABRT_def ABRTWithDiagnostic_def octets_simps)
  have ok: "fields_ok ?fs" "fields_ok ?gs" using content_short(1) assms by simp_all
  have l: "length (fields_octets ?fs) < 2 ^ 32" "length (fields_octets ?gs) < 2 ^ 32" "length (int_octets source) < 2 ^ 32"
    using length_fields [of ?fs] length_fields [of ?gs] length_int_octets [OF assms(1)] length_int_octets [OF assms(2)] by simp_all
  show "ParseABRTFull (ABRT source) = Inr \<lparr>ab_Source = source, ab_Diagnostic = - 1, ab_UserInfo = []\<rparr>"
    using l assms unfolding e ParseABRTFull_def
    by (simp only: NewDecoder_at [of "tlv _ _"]) (simp add: codec_simps for_tlvs_fields [OF refl ok(1)] del: concat.simps list.map(2))
  show "ParseABRTFull (ABRTWithDiagnostic source diag) = Inr \<lparr>ab_Source = source, ab_Diagnostic = diag, ab_UserInfo = []\<rparr>"
    using l assms unfolding e ParseABRTFull_def
    by (simp only: NewDecoder_at [of "tlv _ _"]) (simp add: codec_simps for_tlvs_fields [OF refl ok(2)] tags del: concat.simps list.map(2))
  show "ParseABRT (ABRT source) = Inr source"
    using l assms unfolding e ParseABRT_def by (simp add: NewDecoder_at [of "tlv _ _"] codec_simps optional_or_error_def)
qed

section \<open>No panic\<close>

lemma acse_panic [simp]: "acse_ber e = Panic \<longleftrightarrow> e = Panic" "acse_lift r = Inl Panic \<longleftrightarrow> r = Inl Panic"
proof -
  show "acse_ber e = Panic \<longleftrightarrow> e = Panic" for e by (cases e) simp_all
  then show "acse_lift r = Inl Panic \<longleftrightarrow> r = Inl Panic" by (simp add: acse_lift_def split: sum.split)
qed

lemma acse_loop_no_panic:
  assumes "\<And>t c s. body t c s \<noteq> Return (Inl Panic)" "\<And>s. fin s \<noteq> Inl Panic"
  shows "for_tlvs body (\<lambda>e _. Inl (acse_ber e)) fin content s \<noteq> Inl Panic"
  by (rule for_tlvs_returns [where J = "\<lambda>_. True" and P = "\<lambda>r. r \<noteq> Inl Panic"]) (use assms in \<open>auto split: loop_step.split\<close>)

lemma externals_no_panic: "externals content \<noteq> Inl Panic"
proof -
  have "dec_ok d \<Longrightarrow> externals_loop n d out \<noteq> Inl Panic" for n d out
  proof (induction n arbitrary: d out)
    case (Suc n)
    have 1: "fst (ReadSpan d) \<noteq> Inl Panic" "\<And>s d'. ReadSpan d = (Inr s, d') \<Longrightarrow> dec_ok d'"
      using ReadSpan_ReadTLV [OF Suc.prems] ReadTLV_spec [OF Suc.prems] Suc.prems
      by (auto simp: read_spec_def advanced_def dec_ok_def split: prod.splits sum.splits)
    then show ?case using Suc.IH by (auto split: prod.splits sum.splits)
  qed simp
  then show ?thesis by (simp add: externals_def)
qed

lemma aarq_field_no_panic: "aarq_field t c s \<noteq> Return (Inl Panic)"
  using externals_no_panic [of c] unfolding aarq_field_def
  by (cases "parseIdentity t c 2 (rq_Called s)"; cases "parseIdentity t c 6 (rq_Calling s)"; cases "externals c"; simp)

lemma aare_field_no_panic: "aare_field t c s \<noteq> Return (Inl Panic)"
  using externals_no_panic [of c] DecodeInt_no_panic [of "firstInt c"] unfolding aare_field_def
  by (cases s; cases "parseIdentity t c 4 (re_Responding (fst s))"; cases "externals c"; cases "DecodeInt (firstInt c)"; simp add: Let_def)

lemma rbind_no_panic: "r \<noteq> Inl Panic \<Longrightarrow> (\<And>x. f x \<noteq> Inl Panic) \<Longrightarrow> rbind r f \<noteq> Inl Panic"
  by (auto simp: rbind_eq_Inl)

text \<open>Every decoder of the layer ends in a value or an error, on any octets.\<close>

theorem acse_safe: "ParseAARQFull apdu \<noteq> Inl Panic \<and> ParseAARE apdu \<noteq> Inl Panic \<and> ParseABRTFull apdu \<noteq> Inl Panic \<and> ParseRelease apdu \<noteq> Inl Panic"
proof (intro conjI)
  show "ParseAARQFull apdu \<noteq> Inl Panic" unfolding ParseAARQFull_def
    by (rule rbind_no_panic) (simp_all add: read_no_panic acse_loop_no_panic aarq_field_no_panic)
  show "ParseAARE apdu \<noteq> Inl Panic" unfolding ParseAARE_def
    by (rule rbind_no_panic, simp add: read_no_panic, rule acse_loop_no_panic) (auto simp: aare_field_no_panic split: prod.split)
  have "for_tlvs (\<lambda>tag c ab.
         if tag = ContextPrimitive 0 then (case DecodeInt c of Inl e \<Rightarrow> Return (Inl (acse_ber e)) | Inr n \<Rightarrow> Continue (ab\<lparr>ab_Source := n\<rparr>))
         else if tag = ContextPrimitive 1 then (case DecodeInt c of Inl e \<Rightarrow> Return (Inl (acse_ber e)) | Inr n \<Rightarrow> Continue (ab\<lparr>ab_Diagnostic := n\<rparr>))
         else if tag = ContextConstructed 30 then (case externals c of Inl e \<Rightarrow> Return (Inl e) | Inr ui \<Rightarrow> Continue (ab\<lparr>ab_UserInfo := ui\<rparr>))
         else Continue ab) (\<lambda>e _. Inl (acse_ber e)) Inr content (ab :: Abort) \<noteq> Inl Panic" for content ab
    by (rule acse_loop_no_panic) (use externals_no_panic DecodeInt_no_panic in \<open>auto split: sum.split\<close>)
  then show "ParseABRTFull apdu \<noteq> Inl Panic" using read_no_panic by (auto simp: ParseABRTFull_def rbind_eq_Inl)
  have "for_tlvs (\<lambda>t c r.
         if t = ContextPrimitive 0 then (case DecodeInt c of Inl e \<Rightarrow> Return (Inl (acse_ber e)) | Inr n \<Rightarrow> Continue (r\<lparr>rl_Reason := n\<rparr>))
         else if t = ContextConstructed 30 then (case externals c of Inl e \<Rightarrow> Return (Inl e) | Inr ui \<Rightarrow> Continue (r\<lparr>rl_UserInfo := ui\<rparr>))
         else Continue r) (\<lambda>e _. Inl (acse_ber e)) Inr content (r :: Release) \<noteq> Inl Panic" for content r
    by (rule acse_loop_no_panic) (use externals_no_panic DecodeInt_no_panic in \<open>auto split: sum.split\<close>)
  then show "ParseRelease apdu \<noteq> Inl Panic" using read_no_panic by (auto simp: ParseRelease_def rbind_eq_Inl)
qed

end
