(* ===== verification/MmsPdu.thy ===== *)
theory MmsPdu
  imports Acse
begin

text \<open>
  The initiate exchange of MMS (\<^verbatim>\<open>mms/pdu.go\<close>, \<^verbatim>\<open>clampInitiate\<close> of \<^verbatim>\<open>mms/server_conn.go\<close>): what a client proposes,
  what a server answers, and how they are encoded. An \<^verbatim>\<open>int32\<close> is a \<open>32 word\<close> compared by \<open>sint\<close>; a nil slice is \<open>None\<close>.
\<close>

section \<open>PDU tags\<close>

definition tagConfirmedRequest :: Tag where "tagConfirmedRequest = ContextConstructed 0"
definition tagConfirmedResponse :: Tag where "tagConfirmedResponse = ContextConstructed 1"
definition tagConfirmedError :: Tag where "tagConfirmedError = ContextConstructed 2"
definition tagUnconfirmed :: Tag where "tagUnconfirmed = ContextConstructed 3"
definition tagRejectPDU :: Tag where "tagRejectPDU = ContextConstructed 4"
definition tagCancelRequest :: Tag where "tagCancelRequest = ContextPrimitive 5"
definition tagCancelResponse :: Tag where "tagCancelResponse = ContextPrimitive 6"
definition tagCancelError :: Tag where "tagCancelError = ContextConstructed 7"
definition tagInitiateRequest :: Tag where "tagInitiateRequest = ContextConstructed 8"
definition tagInitiateResponse :: Tag where "tagInitiateResponse = ContextConstructed 9"
definition tagInitiateError :: Tag where "tagInitiateError = ContextConstructed 10"
definition tagConcludeRequest :: Tag where "tagConcludeRequest = ContextPrimitive 11"
definition tagConcludeResponse :: Tag where "tagConcludeResponse = ContextPrimitive 12"
definition tagConcludeRequestLegacy :: Tag where "tagConcludeRequestLegacy = ContextConstructed 11"
definition tagConcludeResponseLegacy :: Tag where "tagConcludeResponseLegacy = ContextConstructed 12"
definition tagConcludeError :: Tag where "tagConcludeError = ContextConstructed 13"

lemmas mms_pdu_tags = tagConfirmedRequest_def tagConfirmedResponse_def tagConfirmedError_def tagUnconfirmed_def tagRejectPDU_def
  tagCancelRequest_def tagCancelResponse_def tagCancelError_def tagInitiateRequest_def tagInitiateResponse_def tagInitiateError_def
  tagConcludeRequest_def tagConcludeResponse_def tagConcludeRequestLegacy_def tagConcludeResponseLegacy_def tagConcludeError_def

section \<open>Bitmaps\<close>

text \<open>\<^verbatim>\<open>SetBit\<close> on a bit string that holds its length (\<open>bs_set_ok\<close>), and \<^verbatim>\<open>Bit\<close> (\<open>bs_get_ok\<close>).\<close>

definition bs_set :: "BitString \<Rightarrow> int \<Rightarrow> bool \<Rightarrow> BitString" where
  "bs_set bs i v = ok_or bs (SetBit bs i v)"

definition bs_get :: "BitString \<Rightarrow> int \<Rightarrow> bool" where
  "bs_get bs i = ok_or False (Bit bs i)"

lemma bs_set_ok:
  assumes "bs_ok bs"
  shows "SetBit bs i v = Inr (bs_set bs i v)" "bs_ok (bs_set bs i v)" "Length (bs_set bs i v) = Length bs"
    "bits_of (bs_set bs i v) = (if 0 \<le> i then (bits_of bs)[nat i := v] else bits_of bs)"
  using SetBit_bits_of [OF assms, of i v] by (auto simp: bs_set_def)

lemma bs_get_ok:
  assumes "bs_ok bs"
  shows "Bit bs i = Inr (bs_get bs i)" "bs_get bs i \<longleftrightarrow> 0 \<le> i \<and> nat i < length (bits_of bs) \<and> bits_of bs ! nat i"
  using Bit_bits_of [OF assms, of i] by (auto simp: bs_get_def)

record ServiceSupport =
  ss_Bits :: BitString
  ss_Raw :: "byte list option"

definition serviceSupportBits :: nat where "serviceSupportBits = 85"

definition NewServiceSupport :: "int list \<Rightarrow> ServiceSupport" where
  "NewServiceSupport services = \<lparr>ss_Bits = fold (\<lambda>b bs. bs_set bs b True) services (NewBitString serviceSupportBits), ss_Raw = None\<rparr>"

definition ss_Has :: "ServiceSupport \<Rightarrow> int \<Rightarrow> bool" where
  "ss_Has s service =
     (case ss_Raw s of
        Some raw \<Rightarrow> if Length (ss_Bits s) = 0 then (case DecodeBitString raw of Inr bs \<Rightarrow> bs_get bs service | Inl _ \<Rightarrow> False) else bs_get (ss_Bits s) service
      | None \<Rightarrow> bs_get (ss_Bits s) service)"

definition defaultServiceSupport :: ServiceSupport where
  "defaultServiceSupport = NewServiceSupport [0, 1, 2, 4, 5, 6, 11, 12, 13, 46, 65, 67, 68, 72, 73, 74, 75, 76, 77, 79, 83, 84]"

definition parameterCBBBits :: nat where "parameterCBBBits = 11"

definition parameterCBB :: BitString where
  "parameterCBB = fold (\<lambda>b bs. bs_set bs b True) [0, 1, 2, 3, 7] (NewBitString parameterCBBBits)"

fun intersect_from :: "nat \<Rightarrow> nat \<Rightarrow> BitString \<Rightarrow> BitString \<Rightarrow> BitString \<Rightarrow> BitString" where
  "intersect_from 0 i ours proposed out = out"
| "intersect_from (Suc n) i ours proposed out =
     intersect_from n (Suc i) ours proposed (bs_set out (int i) (bs_get ours (int i) \<and> bs_get proposed (int i)))"

definition intersectParameterCBB :: "BitString \<Rightarrow> byte list \<Rightarrow> byte list" where
  "intersectParameterCBB ours proposedRaw =
     (let out = NewBitString (nat (Length ours));
          out = out\<lparr>Bits := take (length (Bits out)) (Bits ours) @ drop (length (Bits ours)) (Bits out)\<rparr>;
          out = (case DecodeBitString proposedRaw of Inr proposed \<Rightarrow> intersect_from (nat (Length out)) 0 ours proposed out | Inl _ \<Rightarrow> out)
      in AppendBitString [] out)"

section \<open>Parameters\<close>

definition MMSmax :: "32 word" where "MMSmax = 65001"

record InitiateRequest =
  ir_LocalDetail :: "32 word"
  ir_MaxServOutstanding :: int
  ir_NestingLevel :: int
  ir_Services :: ServiceSupport
  ir_Calling :: int
  ir_Called :: int
  ir_ParameterCBBRaw :: "byte list option"

definition DefaultInitiate :: InitiateRequest where
  "DefaultInitiate = \<lparr>ir_LocalDetail = MMSmax, ir_MaxServOutstanding = 10, ir_NestingLevel = 5, ir_Services = defaultServiceSupport,
     ir_Calling = 0, ir_Called = 0, ir_ParameterCBBRaw = None\<rparr>"

definition DefaultServerInitiate :: InitiateRequest where
  "DefaultServerInitiate = \<lparr>ir_LocalDetail = MMSmax, ir_MaxServOutstanding = 10, ir_NestingLevel = 10,
     ir_Services = NewServiceSupport [1, 2, 4, 5, 6, 12, 79, 83], ir_Calling = 0, ir_Called = 0, ir_ParameterCBBRaw = None\<rparr>"

section \<open>Encoding\<close>

definition encodeInitiate :: "Tag \<Rightarrow> InitiateRequest \<Rightarrow> byte list" where
  "encodeInitiate tag req =
     (let cbb = (case ir_ParameterCBBRaw req of Some raw \<Rightarrow> Prim (ContextPrimitive 1) raw | None \<Rightarrow> BitStringElem (ContextPrimitive 1) parameterCBB);
          svc = (case ss_Raw (ir_Services req) of Some raw \<Rightarrow> Prim (ContextPrimitive 2) raw | None \<Rightarrow> BitStringElem (ContextPrimitive 2) (ss_Bits (ir_Services req)));
          detail = Cons_el (ContextConstructed 4) [Some (IntElem (ContextPrimitive 0) 1), Some cbb, Some svc];
          calling = (if ir_Calling req = 0 then ir_MaxServOutstanding req else ir_Calling req);
          called = (if ir_Called req = 0 then ir_MaxServOutstanding req else ir_Called req)
      in Encode (Cons_el tag
           [Some (IntElem (ContextPrimitive 0) (sint (ir_LocalDetail req))),
            Some (IntElem (ContextPrimitive 1) calling),
            Some (IntElem (ContextPrimitive 2) called),
            Some (IntElem (ContextPrimitive 3) (ir_NestingLevel req)),
            Some detail]))"

definition EncodeInitiateRequest :: "InitiateRequest \<Rightarrow> byte list" where
  "EncodeInitiateRequest req = encodeInitiate tagInitiateRequest req"

definition EncodeInitiateResponse :: "InitiateRequest \<Rightarrow> byte list" where
  "EncodeInitiateResponse req = encodeInitiate tagInitiateResponse req"

section \<open>Parsing\<close>

text \<open>\<^verbatim>\<open>append([]byte(nil), c...)\<close> is nil for an empty content.\<close>

definition raw_copy :: "byte list \<Rightarrow> byte list option" where
  "raw_copy c = (if c = [] then None else Some c)"

text \<open>\<^verbatim>\<open>if c, ok, _ := dec.Optional(tag); ok { n, _ := DecodeInt(c) ... }\<close>\<close>

definition read_int_field :: "32 word \<Rightarrow> (int \<Rightarrow> InitiateRequest \<Rightarrow> InitiateRequest) \<Rightarrow> InitiateRequest \<times> Decoder \<Rightarrow> InitiateRequest \<times> Decoder" where
  "read_int_field k f s =
     (case s of (req, dec) \<Rightarrow> case Optional (ContextPrimitive k) dec of (r, dec) \<Rightarrow>
        (case optional_ignoring r of Some c \<Rightarrow> f (ok_or 0 (DecodeInt c)) req | None \<Rightarrow> req, dec))"

definition take_called :: "int \<Rightarrow> InitiateRequest \<Rightarrow> InitiateRequest" where
  "take_called n req =
     (let req = req\<lparr>ir_Called := n\<rparr> in
      if n < ir_MaxServOutstanding req \<or> ir_MaxServOutstanding req = 0 then req\<lparr>ir_MaxServOutstanding := n\<rparr> else req)"

definition detail_field :: "Tag \<Rightarrow> byte list \<Rightarrow> InitiateRequest \<Rightarrow> (InitiateRequest, InitiateRequest) loop_step" where
  "detail_field tag dc req =
     Continue
       (if tag = ContextPrimitive 1 then req\<lparr>ir_ParameterCBBRaw := raw_copy dc\<rparr>
        else if tag = ContextPrimitive 2 then
          (case DecodeBitString dc of
             Inr bs \<Rightarrow> req\<lparr>ir_Services := \<lparr>ss_Bits = bs, ss_Raw = raw_copy dc\<rparr>\<rparr>
           | Inl _ \<Rightarrow> req\<lparr>ir_Services := \<lparr>ss_Bits = \<lparr>Bits = [], Length = 0\<rparr>, ss_Raw = raw_copy dc\<rparr>\<rparr>)
        else req)"

definition empty_initiate :: InitiateRequest where
  "empty_initiate = \<lparr>ir_LocalDetail = 0, ir_MaxServOutstanding = 0, ir_NestingLevel = 0,
     ir_Services = \<lparr>ss_Bits = \<lparr>Bits = [], Length = 0\<rparr>, ss_Raw = None\<rparr>, ir_Calling = 0, ir_Called = 0, ir_ParameterCBBRaw = None\<rparr>"

definition initiate_defaults :: "InitiateRequest \<Rightarrow> InitiateRequest" where
  "initiate_defaults req =
     (let req = (if ir_LocalDetail req = 0 then req\<lparr>ir_LocalDetail := MMSmax\<rparr> else req)
      in if ir_MaxServOutstanding req = 0 then req\<lparr>ir_MaxServOutstanding := 1\<rparr> else req)"

definition parseInitiateBody :: "byte list \<Rightarrow> InitiateRequest" where
  "parseInitiateBody content =
     (let s = (empty_initiate, NewDecoder content);
          s = read_int_field 0 (\<lambda>n req. req\<lparr>ir_LocalDetail := word_of_int n\<rparr>) s;
          s = read_int_field 1 (\<lambda>n req. req\<lparr>ir_MaxServOutstanding := n, ir_Calling := n\<rparr>) s;
          s = read_int_field 2 take_called s;
          (req, dec) = read_int_field 3 (\<lambda>n req. req\<lparr>ir_NestingLevel := n\<rparr>) s
      in initiate_defaults
           (case optional_ignoring (fst (Optional (ContextConstructed 4) dec)) of
              Some c \<Rightarrow> for_tlvs detail_field (\<lambda>_ req. req) (\<lambda>req. req) c req
            | None \<Rightarrow> req))"

datatype initiate_error = InitiateBer ber_error | InitiateRejected

fun initiate_ber :: "ber_error failure \<Rightarrow> initiate_error failure" where
  "initiate_ber Panic = Panic"
| "initiate_ber (Err e) = Err (InitiateBer e)"

definition ParseInitiateRequest :: "byte list \<Rightarrow> (initiate_error, InitiateRequest) result" where
  "ParseInitiateRequest pdu =
     (case fst (Expect tagInitiateRequest (NewDecoder pdu)) of
        Inl e \<Rightarrow> Inl (initiate_ber e)
      | Inr content \<Rightarrow> Inr (parseInitiateBody content))"

definition ParseInitiateResponse :: "byte list \<Rightarrow> (initiate_error, InitiateRequest) result" where
  "ParseInitiateResponse pdu =
     (case fst (Expect tagInitiateResponse (NewDecoder pdu)) of
        Inl e \<Rightarrow> if PeekIs (NewDecoder pdu) tagInitiateError then Inl (Err InitiateRejected) else Inl (initiate_ber e)
      | Inr content \<Rightarrow> Inr (parseInitiateBody content))"

section \<open>Negotiation\<close>

definition initiate_clamp :: "int \<Rightarrow> int \<Rightarrow> int" where
  "initiate_clamp ours theirs = (if theirs > 0 \<and> (ours = 0 \<or> ours > theirs) then theirs else ours)"

text \<open>The assignments of \<^verbatim>\<open>clampInitiate\<close> in their order.\<close>

definition clamp_cbb :: "InitiateRequest \<Rightarrow> InitiateRequest \<Rightarrow> InitiateRequest" where
  "clamp_cbb proposed out =
     (case (ir_ParameterCBBRaw out, ir_ParameterCBBRaw proposed) of
        (None, Some raw) \<Rightarrow> out\<lparr>ir_ParameterCBBRaw := Some (intersectParameterCBB parameterCBB raw)\<rparr>
      | _ \<Rightarrow> out)"

definition clamp_detail :: "InitiateRequest \<Rightarrow> InitiateRequest \<Rightarrow> InitiateRequest" where
  "clamp_detail proposed out =
     (if sint (ir_LocalDetail proposed) > 0 \<and> (ir_LocalDetail out = 0 \<or> sint (ir_LocalDetail out) > sint (ir_LocalDetail proposed))
      then out\<lparr>ir_LocalDetail := ir_LocalDetail proposed\<rparr> else out)"

definition default_counts :: "InitiateRequest \<Rightarrow> InitiateRequest" where
  "default_counts out =
     (let out = (if ir_Calling out = 0 then out\<lparr>ir_Calling := ir_MaxServOutstanding out\<rparr> else out)
      in if ir_Called out = 0 then out\<lparr>ir_Called := ir_MaxServOutstanding out\<rparr> else out)"

definition clamp_counts :: "InitiateRequest \<Rightarrow> InitiateRequest \<Rightarrow> InitiateRequest" where
  "clamp_counts proposed out =
     out\<lparr>ir_MaxServOutstanding := initiate_clamp (ir_MaxServOutstanding out) (ir_MaxServOutstanding proposed),
         ir_Calling := initiate_clamp (ir_Calling out) (ir_Calling proposed),
         ir_Called := initiate_clamp (ir_Called out) (ir_Called proposed)\<rparr>"

definition clamp_nesting :: "InitiateRequest \<Rightarrow> InitiateRequest \<Rightarrow> InitiateRequest" where
  "clamp_nesting proposed out =
     (if ir_NestingLevel proposed > 0 \<and> (ir_NestingLevel out = 0 \<or> ir_NestingLevel out > ir_NestingLevel proposed)
      then out\<lparr>ir_NestingLevel := ir_NestingLevel proposed\<rparr> else out)"

definition clampInitiate :: "InitiateRequest \<Rightarrow> InitiateRequest \<Rightarrow> InitiateRequest" where
  "clampInitiate want proposed =
     clamp_nesting proposed (clamp_counts proposed (default_counts (clamp_detail proposed (clamp_cbb proposed want))))"

section \<open>Bit strings built bit by bit\<close>

lemma SetBits_fold: "bs_ok bs \<Longrightarrow> SetBits bs is = Inr (fold (\<lambda>b bs. bs_set bs b True) is bs)"
  by (induction "is" arbitrary: bs) (simp_all add: bs_set_ok)

lemma fold_bs_set:
  assumes "bs_ok bs"
  shows "bs_ok (fold (\<lambda>b bs. bs_set bs b True) is bs)" "Length (fold (\<lambda>b bs. bs_set bs b True) is bs) = Length bs"
    "bs_get (fold (\<lambda>b bs. bs_set bs b True) is bs) i \<longleftrightarrow> bs_get bs i \<or> 0 \<le> i \<and> i < Length bs \<and> i \<in> set is"
proof -
  note f = SetBits_bits_of [OF assms, of "is", unfolded SetBits_fold [OF assms]]
  then show ok: "bs_ok (fold (\<lambda>b bs. bs_set bs b True) is bs)" "Length (fold (\<lambda>b bs. bs_set bs b True) is bs) = Length bs" by auto
  have "bits_of (fold (\<lambda>b bs. bs_set bs b True) is bs) ! nat i \<longleftrightarrow> bits_of bs ! nat i \<or> int (nat i) \<in> set is" if "nat i < nat (Length bs)"
    using f that by (simp only: sum.inject prod.inject ex_simps simp_thms)
  then show "bs_get (fold (\<lambda>b bs. bs_set bs b True) is bs) i \<longleftrightarrow> bs_get bs i \<or> 0 \<le> i \<and> i < Length bs \<and> i \<in> set is"
    unfolding bs_get_ok(2) [OF assms] bs_get_ok(2) [OF ok(1)] length_bits_of ok(2) by (cases "0 \<le> i") (simp_all del: nth_bits_of, linarith?)
qed

lemma New_bs_get [simp]: "\<not> bs_get (NewBitString n) i"
  by (auto simp: bs_get_ok)

lemma parameterCBB_bits: "bs_ok parameterCBB" "Length parameterCBB = 11" "bs_get parameterCBB i \<longleftrightarrow> i \<in> {0, 1, 2, 3, 7}"
proof -
  note f = fold_bs_set [OF bs_ok_New, of "[0, 1, 2, 3, 7]" parameterCBBBits, folded parameterCBB_def]
  show "bs_ok parameterCBB" "Length parameterCBB = 11" using f by (simp_all add: parameterCBBBits_def)
  show "bs_get parameterCBB i \<longleftrightarrow> i \<in> {0, 1, 2, 3, 7}" using f(3) [of i] by (auto simp: parameterCBBBits_def)
qed

lemma NewServiceSupport_Has: "ss_Has (NewServiceSupport services) i \<longleftrightarrow> 0 \<le> i \<and> i < 85 \<and> i \<in> set services" "bs_ok (ss_Bits (NewServiceSupport services))"
  "Length (ss_Bits (NewServiceSupport services)) = 85"
proof -
  note f = fold_bs_set [OF bs_ok_New, of services serviceSupportBits]
  show "bs_ok (ss_Bits (NewServiceSupport services))" "Length (ss_Bits (NewServiceSupport services)) = 85"
    using f by (simp_all add: NewServiceSupport_def serviceSupportBits_def)
  show "ss_Has (NewServiceSupport services) i \<longleftrightarrow> 0 \<le> i \<and> i < 85 \<and> i \<in> set services"
    using f(3) [of i] by (simp add: NewServiceSupport_def ss_Has_def serviceSupportBits_def)
qed

lemma intersect_from_bits:
  "bs_ok out \<Longrightarrow> bs_ok (intersect_from n k ours proposed out) \<and> Length (intersect_from n k ours proposed out) = Length out
    \<and> (bs_get (intersect_from n k ours proposed out) i \<longleftrightarrow>
       (if int k \<le> i \<and> i < int (k + n) \<and> i < Length out then bs_get ours i \<and> bs_get proposed i else bs_get out i))"
proof (induction n arbitrary: k out)
  case (Suc n)
  let ?b = "bs_get ours (int k) \<and> bs_get proposed (int k)"
  note s = bs_set_ok [OF Suc.prems, of "int k" ?b]
  have "bs_get (bs_set out (int k) ?b) i \<longleftrightarrow> (if i = int k \<and> i < Length out then ?b else bs_get out i)"
    unfolding bs_get_ok(2) [OF Suc.prems] bs_get_ok(2) [OF s(2)] using s(3,4) by (auto simp: nth_list_update)
  then show ?case using Suc.IH [of "bs_set out (int k) ?b" "Suc k"] s(2,3) by auto
qed auto

lemma intersectParameterCBB_bits:
  assumes "bs_ok ours" "DecodeBitString raw = Inr proposed"
  shows "\<exists>bs. DecodeBitString (intersectParameterCBB ours raw) = Inr bs \<and> Length bs = Length ours \<and> (\<forall>i. bs_get bs i \<longleftrightarrow> bs_get ours i \<and> bs_get proposed i)"
proof -
  have len: "length (Bits ours) = (nat (Length ours) + 7) div 8" "0 \<le> Length ours" using assms(1) by (auto simp: bs_ok_def)
  then have out: "(NewBitString (nat (Length ours)))\<lparr>Bits := take (length (Bits (NewBitString (nat (Length ours))))) (Bits ours)
      @ drop (length (Bits ours)) (Bits (NewBitString (nat (Length ours))))\<rparr> = ours"
    by (simp add: NewBitString_def)
  define bs where "bs = intersect_from (nat (Length ours)) 0 ours proposed ours"
  have b: "bs_ok bs" "Length bs = Length ours" "\<And>i. bs_get bs i \<longleftrightarrow> (if 0 \<le> i \<and> i < Length ours then bs_get ours i \<and> bs_get proposed i else bs_get ours i)"
    using intersect_from_bits [OF assms(1), of "nat (Length ours)" 0 ours proposed] len(2) by (auto simp: bs_def)
  have "intersectParameterCBB ours raw = AppendBitString [] bs" unfolding intersectParameterCBB_def Let_def out assms(2) bs_def by simp
  moreover have "bs_get bs i \<longleftrightarrow> bs_get ours i \<and> bs_get proposed i" for i
    using b(3) [of i] len(2) bs_get_ok(2) [OF assms(1), of i] by (auto simp: nat_less_iff)
  ultimately show ?thesis using DecodeBitString_bits_octets [OF b(1)] b(2) by auto
qed

lemma intersect_malformed: "DecodeBitString raw = Inl e \<Longrightarrow> bs_ok ours \<Longrightarrow> intersectParameterCBB ours raw = AppendBitString [] ours"
proof -
  assume "DecodeBitString raw = Inl e" "bs_ok ours"
  then have "length (Bits ours) = (nat (Length ours) + 7) div 8" "0 \<le> Length ours" by (auto simp: bs_ok_def)
  then show ?thesis using \<open>DecodeBitString raw = Inl e\<close> by (cases ours) (simp add: intersectParameterCBB_def NewBitString_def)
qed

section \<open>Reading the parameters back\<close>

definition calling_of :: "InitiateRequest \<Rightarrow> int" where
  "calling_of req = (if ir_Calling req = 0 then ir_MaxServOutstanding req else ir_Calling req)"

definition called_of :: "InitiateRequest \<Rightarrow> int" where
  "called_of req = (if ir_Called req = 0 then ir_MaxServOutstanding req else ir_Called req)"

definition cbb_octets :: "InitiateRequest \<Rightarrow> byte list" where
  "cbb_octets req = (case ir_ParameterCBBRaw req of Some raw \<Rightarrow> raw | None \<Rightarrow> AppendBitString [] parameterCBB)"

definition svc_octets :: "InitiateRequest \<Rightarrow> byte list" where
  "svc_octets req = (case ss_Raw (ir_Services req) of Some raw \<Rightarrow> raw | None \<Rightarrow> AppendBitString [] (ss_Bits (ir_Services req)))"

text \<open>The parameters the peer reads: the smaller of the two numbers of outstanding services, with the octets of the bitmaps.\<close>

definition smaller :: "int \<Rightarrow> int \<Rightarrow> int" where
  "smaller calling called = (let m = (if called < calling \<or> calling = 0 then called else calling) in if m = 0 then 1 else m)"

definition initiate_read :: "InitiateRequest \<Rightarrow> InitiateRequest" where
  "initiate_read req =
     \<lparr>ir_LocalDetail = (if ir_LocalDetail req = 0 then MMSmax else ir_LocalDetail req),
      ir_MaxServOutstanding = smaller (calling_of req) (called_of req), ir_NestingLevel = ir_NestingLevel req,
      ir_Services = \<lparr>ss_Bits = ok_or \<lparr>Bits = [], Length = 0\<rparr> (DecodeBitString (svc_octets req)), ss_Raw = raw_copy (svc_octets req)\<rparr>,
      ir_Calling = calling_of req, ir_Called = called_of req, ir_ParameterCBBRaw = raw_copy (cbb_octets req)\<rparr>"

definition initiate_ok :: "InitiateRequest \<Rightarrow> bool" where
  "initiate_ok req = (int64_ok (ir_MaxServOutstanding req) \<and> int64_ok (ir_Calling req) \<and> int64_ok (ir_Called req) \<and> int64_ok (ir_NestingLevel req)
     \<and> length (cbb_octets req) < 2 ^ 20 \<and> length (svc_octets req) < 2 ^ 20)"

definition detail_fields :: "InitiateRequest \<Rightarrow> field list" where
  "detail_fields req = [(ContextPrimitive 0, int_octets 1), (ContextPrimitive 1, cbb_octets req), (ContextPrimitive 2, svc_octets req)]"

definition initiate_octets :: "InitiateRequest \<Rightarrow> byte list" where
  "initiate_octets req =
     tlv (ContextPrimitive 0) (int_octets (sint (ir_LocalDetail req))) @ tlv (ContextPrimitive 1) (int_octets (calling_of req))
     @ tlv (ContextPrimitive 2) (int_octets (called_of req)) @ tlv (ContextPrimitive 3) (int_octets (ir_NestingLevel req))
     @ tlv (ContextConstructed 4) (fields_octets (detail_fields req))"

lemma encodeInitiate_octets:
  assumes "tag_ok t" "Number t < 2 ^ 28" "Constructed t"
  shows "encodeInitiate t req = tlv t (initiate_octets req)"
proof -
  have e: "el_ok (case r of Some raw \<Rightarrow> Prim (ContextPrimitive n) raw | None \<Rightarrow> BitStringElem (ContextPrimitive n) bs)"
    "Encode (case r of Some raw \<Rightarrow> Prim (ContextPrimitive n) raw | None \<Rightarrow> BitStringElem (ContextPrimitive n) bs)
      = tlv (ContextPrimitive n) (case r of Some raw \<Rightarrow> raw | None \<Rightarrow> AppendBitString [] bs)" if "n < 2 ^ 28" for r n bs
    using that by (cases r; simp add: octets_simps)+
  have t: "t\<lparr>Constructed := True\<rparr> = t" using assms(3) by (cases t) simp
  show ?thesis using assms unfolding encodeInitiate_def Let_def
    by (simp add: octets_simps e t initiate_octets_def detail_fields_def cbb_octets_def svc_octets_def calling_of_def called_of_def)
qed

lemma run_detail:
  "run_fields detail_field (\<lambda>req. req) (detail_fields req) r =
     r\<lparr>ir_ParameterCBBRaw := raw_copy (cbb_octets req),
       ir_Services := \<lparr>ss_Bits = ok_or \<lparr>Bits = [], Length = 0\<rparr> (DecodeBitString (svc_octets req)), ss_Raw = raw_copy (svc_octets req)\<rparr>\<rparr>"
  by (cases "DecodeBitString (svc_octets req)") (simp_all add: detail_fields_def detail_field_def tags)

lemma detail_ok:
  assumes "initiate_ok req"
  shows "fields_ok (detail_fields req)" "length (fields_octets (detail_fields req)) < 2 ^ 22"
proof -
  have s: "fields_size (detail_fields req) < 2 ^ 22" using assms length_int_octets [of 1] by (simp add: detail_fields_def initiate_ok_def int64_ok_def)
  then show "fields_ok (detail_fields req)" by (intro fields_size_ok) (simp_all add: detail_fields_def)
  show "length (fields_octets (detail_fields req)) < 2 ^ 22" using s length_fields [of "detail_fields req"] by linarith
qed

lemma counts_ok: "initiate_ok req \<Longrightarrow> int64_ok (calling_of req)" "initiate_ok req \<Longrightarrow> int64_ok (called_of req)" "initiate_ok req \<Longrightarrow> int64_ok (ir_NestingLevel req)"
  by (simp_all add: initiate_ok_def calling_of_def called_of_def)

lemma length_initiate: "initiate_ok req \<Longrightarrow> length (initiate_octets req) < 2 ^ 23"
  using detail_ok(2) [of req] counts_ok [of req] length_tlv_le(1) [of "ContextPrimitive 0" "int_octets (sint (ir_LocalDetail req))"]
    length_tlv_le(1) [of "ContextPrimitive 1" "int_octets (calling_of req)"] length_tlv_le(1) [of "ContextPrimitive 2" "int_octets (called_of req)"]
    length_tlv_le(1) [of "ContextPrimitive 3" "int_octets (ir_NestingLevel req)"] length_tlv_le(1) [of "ContextConstructed 4" "fields_octets (detail_fields req)"]
    length_int_octets [of "calling_of req"] length_int_octets [of "called_of req"] length_int_octets [of "ir_NestingLevel req"] length_int_octets [of "sint (ir_LocalDetail req)"]
  unfolding initiate_octets_def length_append by simp

lemma read_int_at:
  assumes "int64_ok n"
  shows "read_int_field k f (req, at_pos pre (tlv (ContextPrimitive k) (int_octets n) @ r)) = (f n req, at_pos (pre @ tlv (ContextPrimitive k) (int_octets n)) r)"
  using assms content_short(1) [OF assms] by (simp add: read_int_field_def codec_simps optional_ignoring_def)

lemma parseInitiateBody_octets:
  assumes "initiate_ok req"
  shows "parseInitiateBody (initiate_octets req) = initiate_read req"
proof -
  have l: "length (fields_octets (detail_fields req)) < 2 ^ 32" using detail_ok(2) [OF assms] by simp
  have o: "fst (Optional (ContextConstructed 4) (at_pos pre (tlv (ContextConstructed 4) (fields_octets (detail_fields req))))) = Present (fields_octets (detail_fields req))" for pre
    using l by (simp add: codec_simps)
  show ?thesis unfolding parseInitiateBody_def Let_def initiate_octets_def
    unfolding NewDecoder_at [of "_ @ _"] read_int_at [OF int64_sint32] read_int_at [OF counts_ok(1) [OF assms]] read_int_at [OF counts_ok(2) [OF assms]] read_int_at [OF counts_ok(3) [OF assms]]
    by (simp add: o optional_ignoring_def for_tlvs_fields [OF refl detail_ok(1) [OF assms]] run_detail
        empty_initiate_def initiate_read_def initiate_defaults_def take_called_def smaller_def Let_def del: concat.simps list.map(2))
qed

lemma initiate_roundtrip:
  assumes "initiate_ok req"
  shows "ParseInitiateRequest (EncodeInitiateRequest req) = Inr (initiate_read req)" "ParseInitiateResponse (EncodeInitiateResponse req) = Inr (initiate_read req)"
  using length_initiate [OF assms] parseInitiateBody_octets [OF assms]
  by (simp_all add: ParseInitiateRequest_def ParseInitiateResponse_def EncodeInitiateRequest_def EncodeInitiateResponse_def encodeInitiate_octets mms_pdu_tags
      NewDecoder_at [of "tlv _ _"] codec_simps)

section \<open>Negotiation is bounded\<close>

lemma initiate_clamp_le: "theirs > 0 \<Longrightarrow> initiate_clamp ours theirs \<le> theirs" "ours > 0 \<Longrightarrow> initiate_clamp ours theirs \<le> ours" "ours > 0 \<Longrightarrow> initiate_clamp ours theirs > 0"
  by (auto simp: initiate_clamp_def)

lemma clamp_fields [simp]:
  "ir_LocalDetail (clamp_cbb p r) = ir_LocalDetail r" "ir_MaxServOutstanding (clamp_cbb p r) = ir_MaxServOutstanding r" "ir_NestingLevel (clamp_cbb p r) = ir_NestingLevel r"
  "ir_Services (clamp_cbb p r) = ir_Services r" "ir_Calling (clamp_cbb p r) = ir_Calling r" "ir_Called (clamp_cbb p r) = ir_Called r"
  "ir_MaxServOutstanding (clamp_detail p r) = ir_MaxServOutstanding r" "ir_NestingLevel (clamp_detail p r) = ir_NestingLevel r" "ir_ParameterCBBRaw (clamp_detail p r) = ir_ParameterCBBRaw r"
  "ir_Services (clamp_detail p r) = ir_Services r" "ir_Calling (clamp_detail p r) = ir_Calling r" "ir_Called (clamp_detail p r) = ir_Called r"
  "ir_LocalDetail (default_counts r) = ir_LocalDetail r" "ir_MaxServOutstanding (default_counts r) = ir_MaxServOutstanding r" "ir_NestingLevel (default_counts r) = ir_NestingLevel r"
  "ir_Services (default_counts r) = ir_Services r" "ir_ParameterCBBRaw (default_counts r) = ir_ParameterCBBRaw r"
  "ir_LocalDetail (clamp_nesting p r) = ir_LocalDetail r" "ir_MaxServOutstanding (clamp_nesting p r) = ir_MaxServOutstanding r"
  "ir_Services (clamp_nesting p r) = ir_Services r" "ir_Calling (clamp_nesting p r) = ir_Calling r" "ir_Called (clamp_nesting p r) = ir_Called r"
  "ir_ParameterCBBRaw (clamp_nesting p r) = ir_ParameterCBBRaw r"
  by (simp_all add: clamp_cbb_def clamp_detail_def default_counts_def clamp_nesting_def Let_def split: option.split)

lemma clamp_changes [simp]:
  "ir_NestingLevel (clamp_nesting p r) = initiate_clamp (ir_NestingLevel r) (ir_NestingLevel p)"
  "ir_Calling (default_counts r) = calling_of r" "ir_Called (default_counts r) = called_of r"
  by (auto simp: clamp_nesting_def default_counts_def initiate_clamp_def calling_of_def called_of_def Let_def)

lemma clampInitiate_simps:
  "ir_MaxServOutstanding (clampInitiate want p) = initiate_clamp (ir_MaxServOutstanding want) (ir_MaxServOutstanding p)"
  "ir_Calling (clampInitiate want p) = initiate_clamp (calling_of want) (ir_Calling p)"
  "ir_Called (clampInitiate want p) = initiate_clamp (called_of want) (ir_Called p)"
  "ir_NestingLevel (clampInitiate want p) = initiate_clamp (ir_NestingLevel want) (ir_NestingLevel p)"
  "ir_Services (clampInitiate want p) = ir_Services want"
  "ir_LocalDetail (clampInitiate want p) =
     (if sint (ir_LocalDetail p) > 0 \<and> (ir_LocalDetail want = 0 \<or> sint (ir_LocalDetail want) > sint (ir_LocalDetail p)) then ir_LocalDetail p else ir_LocalDetail want)"
  "ir_ParameterCBBRaw (clampInitiate want p) =
     (case (ir_ParameterCBBRaw want, ir_ParameterCBBRaw p) of (None, Some raw) \<Rightarrow> Some (intersectParameterCBB parameterCBB raw) | (r, _) \<Rightarrow> r)"
proof -
  show "ir_LocalDetail (clampInitiate want p) =
     (if sint (ir_LocalDetail p) > 0 \<and> (ir_LocalDetail want = 0 \<or> sint (ir_LocalDetail want) > sint (ir_LocalDetail p)) then ir_LocalDetail p else ir_LocalDetail want)"
    by (auto simp: clampInitiate_def clamp_counts_def clamp_detail_def)
  show "ir_ParameterCBBRaw (clampInitiate want p) =
     (case (ir_ParameterCBBRaw want, ir_ParameterCBBRaw p) of (None, Some raw) \<Rightarrow> Some (intersectParameterCBB parameterCBB raw) | (r, _) \<Rightarrow> r)"
    by (simp add: clampInitiate_def clamp_counts_def clamp_cbb_def split: option.split)
qed (simp_all add: clampInitiate_def clamp_counts_def calling_of_def called_of_def)

text \<open>(C20) An association never exceeds what the client offered: the answer's PDU size, numbers of outstanding services and
  nesting level are at most the client's wherever the client named one and at most what the server wanted; the services are the server's own;
  and unless the server reproduces its own parameter bitmap, the answered one has exactly the options both ends support.\<close>

theorem initiate_bounded:
  fixes want proposed :: InitiateRequest
  defines "a \<equiv> clampInitiate want proposed"
  shows "(sint (ir_LocalDetail proposed) > 0 \<longrightarrow> sint (ir_LocalDetail a) \<le> sint (ir_LocalDetail proposed))
    \<and> (sint (ir_LocalDetail want) > 0 \<longrightarrow> 0 < sint (ir_LocalDetail a) \<and> sint (ir_LocalDetail a) \<le> sint (ir_LocalDetail want))
    \<and> (ir_Calling proposed > 0 \<longrightarrow> ir_Calling a \<le> ir_Calling proposed) \<and> (calling_of want > 0 \<longrightarrow> 0 < ir_Calling a \<and> ir_Calling a \<le> calling_of want)
    \<and> (ir_Called proposed > 0 \<longrightarrow> ir_Called a \<le> ir_Called proposed) \<and> (called_of want > 0 \<longrightarrow> 0 < ir_Called a \<and> ir_Called a \<le> called_of want)
    \<and> (ir_NestingLevel proposed > 0 \<longrightarrow> ir_NestingLevel a \<le> ir_NestingLevel proposed)
    \<and> ir_Services a = ir_Services want
    \<and> (\<forall>raw cbb. ir_ParameterCBBRaw want = None \<longrightarrow> ir_ParameterCBBRaw proposed = Some raw \<longrightarrow> DecodeBitString raw = Inr cbb
        \<longrightarrow> (\<exists>bs answered. ir_ParameterCBBRaw a = Some answered \<and> DecodeBitString answered = Inr bs
             \<and> (\<forall>i. bs_get bs i \<longleftrightarrow> i \<in> {0, 1, 2, 3, 7} \<and> bs_get cbb i)))"
proof -
  have ld: "sint (ir_LocalDetail proposed) > 0 \<longrightarrow> sint (ir_LocalDetail a) \<le> sint (ir_LocalDetail proposed)"
    "sint (ir_LocalDetail want) > 0 \<longrightarrow> 0 < sint (ir_LocalDetail a) \<and> sint (ir_LocalDetail a) \<le> sint (ir_LocalDetail want)"
    by (auto simp: a_def clampInitiate_simps)
  have cbb: "\<exists>bs answered. ir_ParameterCBBRaw a = Some answered \<and> DecodeBitString answered = Inr bs \<and> (\<forall>i. bs_get bs i \<longleftrightarrow> i \<in> {0, 1, 2, 3, 7} \<and> bs_get cbb i)"
    if "ir_ParameterCBBRaw want = None" "ir_ParameterCBBRaw proposed = Some raw" "DecodeBitString raw = Inr cbb" for raw cbb
    using intersectParameterCBB_bits [OF parameterCBB_bits(1) that(3)] that(1,2) by (simp add: a_def clampInitiate_simps parameterCBB_bits(3)) metis
  show ?thesis using ld cbb initiate_clamp_le
    by (intro conjI) (simp_all add: a_def clampInitiate_simps)
qed

theorem initiate_bounded_witness:
  "sint (ir_LocalDetail (clampInitiate DefaultServerInitiate (DefaultInitiate\<lparr>ir_LocalDetail := 8192, ir_Calling := 3\<rparr>))) \<le> 8192
   \<and> ir_Calling (clampInitiate DefaultServerInitiate (DefaultInitiate\<lparr>ir_LocalDetail := 8192, ir_Calling := 3\<rparr>)) \<le> 3"
  using initiate_bounded [of "DefaultInitiate\<lparr>ir_LocalDetail := 8192, ir_Calling := 3\<rparr>" DefaultServerInitiate] by simp

end
