(* ===== verification/Association.thy ===== *)
theory Association
  imports Presentation Session MmsPdu
begin

text \<open>
  Setting up an association (\<^verbatim>\<open>newClientConn\<close> of \<^verbatim>\<open>mms/conn.go\<close>, \<^verbatim>\<open>acceptConn\<close> of \<^verbatim>\<open>mms/server_conn.go\<close>) over
  a connected transport, and the framing of its data phase (\<^verbatim>\<open>mms/transport.go\<close>). The options for IEC 62351-4
  (end-to-end security and the A-profile) are nil: an AARQ with an end-to-end context leaves this path with \<open>E2EContext\<close>.
\<close>

section \<open>The client\<close>

datatype 'e assoc_error =
    SessionErr "'e session_error" | PresErr pres_error | AcseErr acse_error | InitErr initiate_error
  | AssocRejected int | AssocAborted int int | AssocRefused | AssocErrAborted | NoMMSContext | ErrRejected | E2EContext

fun assoc_map :: "('a \<Rightarrow> 'e assoc_error) \<Rightarrow> ('a, 'b) result \<Rightarrow> ('e assoc_error, 'b) result" where
  "assoc_map f (Inr x) = Inr x"
| "assoc_map f (Inl Panic) = Inl Panic"
| "assoc_map f (Inl (Err e)) = Inl (Err (f e))"

record Options =
  op_Password :: "byte list"
  op_Initiate :: "InitiateRequest option"
  op_Called :: Identity
  op_Calling :: Identity
  op_ApplicationContext :: ApplicationContext

record framing =
  fr_mmsContext :: int
  fr_acseContext :: int
  fr_closed :: bool

record ClientAssoc =
  ca_framing :: framing
  ca_negotiated :: InitiateRequest
  ca_responding :: Identity

definition client_initiate :: "Options \<Rightarrow> InitiateRequest" where
  "client_initiate opts = (case op_Initiate opts of Some i \<Rightarrow> i | None \<Rightarrow> DefaultInitiate)"

definition client_auth :: "Options \<Rightarrow> Auth option" where
  "client_auth opts = (if op_Password opts \<noteq> [] then Some (PasswordAuth (op_Password opts)) else None)"

definition client_cp :: "Options \<Rightarrow> byte list" where
  "client_cp opts =
     BuildCP DefaultCallingPSel DefaultCalledPSel
       (AARQAuth (EncodeInitiateRequest (client_initiate opts)) (client_auth opts) (op_Called opts) (op_Calling opts) (op_ApplicationContext opts))"

text \<open>Why a refused association was refused: the AARE in the CPR, or an abort in its place.\<close>

definition client_refused :: "byte list \<Rightarrow> 'e assoc_error" where
  "client_refused ud =
     (case ParseCPRUserData ud of
        Inl _ \<Rightarrow> AssocRefused
      | Inr apdu \<Rightarrow>
          let aborted = (case ParseABRTFull apdu of Inr a \<Rightarrow> AssocAborted (ab_Source a) (ab_Diagnostic a) | Inl _ \<Rightarrow> AssocRefused) in
          (case ParseAARE apdu of
             Inr res \<Rightarrow> if \<not> re_Accepted res then AssocRejected (re_Diagnostic res) else aborted
           | Inl _ \<Rightarrow> aborted))"

definition client_accepted :: "byte list \<Rightarrow> ('e assoc_error, ClientAssoc) result" where
  "client_accepted cpaUserData =
     rbind (assoc_map PresErr (ParseCPUserData cpaUserData)) (\<lambda>aare.
     rbind (assoc_map AcseErr (ParseAARE aare)) (\<lambda>res.
     if \<not> re_Accepted res then Inl (Err (AssocRejected (re_Diagnostic res)))
     else rbind (assoc_map InitErr (ParseInitiateResponse (case re_UserData res of Some d \<Rightarrow> d | None \<Rightarrow> []))) (\<lambda>negotiated.
       Inr \<lparr>ca_framing = \<lparr>fr_mmsContext = ContextMMS, fr_acseContext = ContextACSE, fr_closed = False\<rparr>,
            ca_negotiated = negotiated, ca_responding = re_Responding res\<rparr>)))"

definition newClientConn :: "('e, 't) sender \<Rightarrow> ('e, 't) receiver \<Rightarrow> Options \<Rightarrow> 't \<Rightarrow> ('e assoc_error, ClientAssoc) result \<times> 't" where
  "newClientConn send receive opts t =
     (case ConnectClient send receive [] [] (client_cp opts) t of
        (Inl Panic, t) \<Rightarrow> (Inl Panic, t)
      | (Inl (Err (RefusedError r ud)), t) \<Rightarrow> (Inl (Err (client_refused ud)), t)
      | (Inl (Err e), t) \<Rightarrow> (Inl (Err (SessionErr e)), t)
      | (Inr cpaUserData, t) \<Rightarrow> (client_accepted cpaUserData, t))"

section \<open>The server\<close>

record AssociationRequest =
  aq_Password :: "byte list"
  aq_Called :: Identity
  aq_Calling :: Identity

datatype auth_verdict = AuthAccepted | AuthRequired | AuthFailed

record AcceptOptions =
  ao_Initiate :: "InitiateRequest option"
  ao_Responding :: "Identity option"
  ao_Authenticate :: "(AssociationRequest \<Rightarrow> auth_verdict) option"

record ServerAssoc =
  sa_framing :: framing
  sa_Password :: "byte list"
  sa_MaxPDU :: int
  sa_Called :: Identity
  sa_Calling :: Identity

definition DiagAuthenticationFailure :: int where "DiagAuthenticationFailure = 13"
definition DiagAuthenticationRequired :: int where "DiagAuthenticationRequired = 14"
definition OIDE2EMMSContext :: OID where "OIDE2EMMSContext = [1, 0, 62351, 4, 2, 1]"

text \<open>The verdict on the request: a diagnostic when it is refused.\<close>

definition authenticate :: "AcceptOptions \<Rightarrow> Request \<Rightarrow> int option" where
  "authenticate opts areq =
     (case ao_Authenticate opts of
        None \<Rightarrow> None
      | Some f \<Rightarrow>
          (case f \<lparr>aq_Password = rq_Password areq, aq_Called = rq_Called areq, aq_Calling = rq_Calling areq\<rparr> of
             AuthAccepted \<Rightarrow> None
           | AuthRequired \<Rightarrow> Some DiagAuthenticationRequired
           | AuthFailed \<Rightarrow> Some DiagAuthenticationFailure))"

definition psel_or_default :: "CP \<Rightarrow> byte list" where
  "psel_or_default cp = (if length (cp_CalledPSel cp) = 0 then DefaultCalledPSel else cp_CalledPSel cp)"

definition server_refuse :: "('e, 't) sender \<Rightarrow> CP \<Rightarrow> OID \<Rightarrow> int \<Rightarrow> 't \<Rightarrow> ('e session_error, unit) result \<times> 't" where
  "server_refuse send cp appCtx diag t = Refuse send (BuildCPR (psel_or_default cp) (cp_Contexts cp) (AARERejectFor appCtx diag)) t"

definition server_answer :: "('e, 't) sender \<Rightarrow> AcceptOptions \<Rightarrow> AcceptResult \<Rightarrow> CP \<Rightarrow> Request \<Rightarrow> InitiateRequest \<Rightarrow> 't \<Rightarrow> ('e assoc_error, ServerAssoc) result \<times> 't" where
  "server_answer send opts res cp areq negotiated t =
     (let want = (case ao_Initiate opts of Some i \<Rightarrow> i | None \<Rightarrow> DefaultServerInitiate);
          answer = clampInitiate want negotiated;
          initResp = EncodeInitiateResponse answer;
          responding = (case ao_Responding opts of Some i \<Rightarrow> i | None \<Rightarrow> no_identity);
          negotiatedCtx = Negotiate (cp_Contexts cp)
      in if \<not> HasMMS negotiatedCtx then (Inl (Err NoMMSContext), t)
         else
           let aare = AAREAuth initResp responding (rq_ApplicationContext areq) (ng_MMS negotiatedCtx) None;
               (_, cpa) = BuildCPA (psel_or_default cp) (cp_Contexts cp) aare
           in case session_Reply send (ar_CalledSSEL res) cpa t of
                (Inl e, t) \<Rightarrow> (assoc_map SessionErr (Inl e), t)
              | (Inr _, t) \<Rightarrow>
                  (Inr \<lparr>sa_framing = \<lparr>fr_mmsContext = ng_MMS negotiatedCtx, fr_acseContext = ng_ACSE negotiatedCtx, fr_closed = False\<rparr>,
                        sa_Password = rq_Password areq, sa_MaxPDU = sint (ir_LocalDetail answer),
                        sa_Called = rq_Called areq, sa_Calling = rq_Calling areq\<rparr>, t))"

definition acceptConn :: "('e, 't) sender \<Rightarrow> ('e, 't) receiver \<Rightarrow> AcceptOptions \<Rightarrow> 't \<Rightarrow> ('e assoc_error, ServerAssoc) result \<times> 't" where
  "acceptConn send receive opts t =
     (case AcceptServer receive t of
        (Inl e, t) \<Rightarrow> (assoc_map SessionErr (Inl e), t)
      | (Inr res, t) \<Rightarrow>
     case assoc_map PresErr (ParseCP (ar_UserData res)) of
        Inl e \<Rightarrow> (Inl e, t)
      | Inr cp \<Rightarrow>
     case assoc_map AcseErr (ParseAARQFull (case cp_UserData cp of Some d \<Rightarrow> d | None \<Rightarrow> [])) of
        Inl e \<Rightarrow> (Inl e, t)
      | Inr areq \<Rightarrow>
     if rq_ApplicationContext areq = OIDE2EMMSContext then (Inl (Err E2EContext), t)
     else case authenticate opts areq of
        Some diag \<Rightarrow> (Inl (Err ErrRejected), snd (server_refuse send cp (rq_ApplicationContext areq) diag t))
      | None \<Rightarrow>
     case assoc_map InitErr (ParseInitiateRequest (case rq_UserData areq of Some d \<Rightarrow> d | None \<Rightarrow> [])) of
        Inl e \<Rightarrow> (Inl e, t)
      | Inr negotiated \<Rightarrow> server_answer send opts res cp areq negotiated t)"

section \<open>The data phase\<close>

definition sendMMS :: "('e, 't) sender \<Rightarrow> framing \<Rightarrow> byte list \<Rightarrow> 't \<Rightarrow> ('e assoc_error, unit) result \<times> 't" where
  "sendMMS send f pdu t =
     (if fr_closed f then (Inl (Err (AssocErrAborted)), t)
      else case SendData send (WrapData (fr_mmsContext f) pdu) t of (r, t) \<Rightarrow> (assoc_map SessionErr r, t))"

datatype received = MmsPDU "byte list" | ReleaseSignal bool Release | PeerAborted bool

text \<open>A received ABORT ends the sending side; its source is the provider's (\<open>True\<close>) or the peer's.\<close>

definition peerAborted :: "byte list \<Rightarrow> bool" where
  "peerAborted ud =
     (case UnwrapAbortCtx ud of
        Inl _ \<Rightarrow> False
      | Inr (_, apdu) \<Rightarrow> (case ParseABRTFull apdu of Inl _ \<Rightarrow> False | Inr ab \<Rightarrow> ab_Source ab = 1))"

definition recvMMS :: "('e, 't) receiver \<Rightarrow> framing \<Rightarrow> 't \<Rightarrow> ('e assoc_error, received) result \<times> framing \<times> 't" where
  "recvMMS receive f t =
     (case session_Receive receive t of
        (Inl Panic, t) \<Rightarrow> (Inl Panic, f, t)
      | (Inl (Err (AbortedError ud)), t) \<Rightarrow> (Inr (PeerAborted (peerAborted ud)), f\<lparr>fr_closed := True\<rparr>, t)
      | (Inl (Err e), t) \<Rightarrow> (Inl (Err (SessionErr e)), f, t)
      | (Inr (KindData, ud), t) \<Rightarrow> (assoc_map PresErr (rbind (UnwrapData ud) (\<lambda>d. Inr (MmsPDU d))), f, t)
      | (Inr (kind, ud), t) \<Rightarrow>
          (rbind (assoc_map PresErr (UnwrapDataCtx ud)) (\<lambda>(_, apdu).
           rbind (assoc_map AcseErr (ParseRelease apdu)) (\<lambda>rel. Inr (ReleaseSignal (kind = KindDisconnect) rel))), f, t))"

definition sendAbort :: "('e, 't) sender \<Rightarrow> framing \<Rightarrow> 't \<Rightarrow> ('e assoc_error, unit) result \<times> framing \<times> 't" where
  "sendAbort send f t =
     (if fr_closed f then (Inr (), f, t)
      else case session_Abort send (WrapAbort (fr_acseContext f) (BuildABRT 0 [])) t of (r, t) \<Rightarrow> (assoc_map SessionErr r, f\<lparr>fr_closed := True\<rparr>, t))"

definition sendRelease :: "('e, 't) sender \<Rightarrow> framing \<Rightarrow> bool \<Rightarrow> 't \<Rightarrow> ('e assoc_error, unit) result \<times> 't" where
  "sendRelease send f response t =
     (if fr_closed f then (Inl (Err (AssocErrAborted)), t)
      else if response then
        (case Disconnect send (WrapUserData (fr_acseContext f) (BuildRLRE 0 [])) t of (r, t) \<Rightarrow> (assoc_map SessionErr r, t))
      else (case Finish send (WrapUserData (fr_acseContext f) (BuildRLRQ 0 [])) t of (r, t) \<Rightarrow> (assoc_map SessionErr r, t)))"

section \<open>The answer is well formed\<close>

lemma length_bits: "bs_ok bs \<Longrightarrow> Length bs = 11 \<Longrightarrow> length (AppendBitString [] bs) = 3"
  by (simp add: bits_octets_ok) (simp add: bs_ok_def)

lemma length_intersect: "length (intersectParameterCBB parameterCBB raw) = 3"
proof (cases "DecodeBitString raw")
  case (Inl e)
  then show ?thesis using intersect_malformed [OF Inl parameterCBB_bits(1)] length_bits [OF parameterCBB_bits(1,2)] by simp
next
  case (Inr p)
  obtain bs where d: "DecodeBitString (intersectParameterCBB parameterCBB raw) = Inr bs" "Length bs = 11"
    using intersectParameterCBB_bits [OF parameterCBB_bits(1) Inr] parameterCBB_bits(2) by auto
  then show ?thesis using DecodeBitString_ok [OF d(1)] length_bits by metis
qed

lemma int64_clamp: "int64_ok a \<Longrightarrow> int64_ok b \<Longrightarrow> int64_ok (initiate_clamp a b)"
  by (simp add: initiate_clamp_def)

lemma answer_ok:
  assumes "initiate_ok want" "initiate_ok req"
  shows "initiate_ok (clampInitiate want (initiate_read req))"
proof -
  let ?a = "clampInitiate want (initiate_read req)"
  note c = counts_ok [OF assms(1)] counts_ok [OF assms(2)]
  have s: "int64_ok (smaller (calling_of req) (called_of req))" using c by (simp add: smaller_def Let_def int64_ok_def)
  have w: "int64_ok (ir_MaxServOutstanding want)" "length (cbb_octets want) < 2 ^ 20" "length (svc_octets want) < 2 ^ 20" using assms(1) by (simp_all add: initiate_ok_def)
  have "svc_octets ?a = svc_octets want" unfolding svc_octets_def clampInitiate_simps ..
  moreover have "cbb_octets ?a = cbb_octets want \<or> length (cbb_octets ?a) = 3"
    using length_intersect by (auto simp: cbb_octets_def clampInitiate_simps split: option.split)
  ultimately show ?thesis using c s w by (auto simp: initiate_ok_def clampInitiate_simps int64_clamp initiate_read_def)
qed

lemma PasswordAuth_ok: "length pw < 2 ^ 20 \<Longrightarrow> auth_ok (Some (PasswordAuth pw))"
  using length_tlv_le(1) [of "ContextPrimitive 0" pw]
  by (simp add: auth_ok_def PasswordAuth_def octets_simps oid_fits_def) (simp add: PasswordMechanism_def)

section \<open>Both ends\<close>

definition options_ok :: "Options \<Rightarrow> bool" where
  "options_ok o1 = (length (op_Password o1) < 2 ^ 20 \<and> initiate_ok (client_initiate o1) \<and> identity_ok (op_Called o1) \<and> identity_ok (op_Calling o1)
     \<and> length (client_cp o1) \<le> MaxExtendedUserData)"

definition client_request :: "Options \<Rightarrow> Request" where
  "client_request o1 =
     \<lparr>rq_UserData = Some (EncodeInitiateRequest (client_initiate o1)), rq_Password = op_Password o1, rq_Called = op_Called o1, rq_Calling = op_Calling o1,
      rq_ApplicationContext = context_OID (op_ApplicationContext o1), rq_UserInfo = [external_octets PresentationContextMMS (EncodeInitiateRequest (client_initiate o1))],
      rq_Mechanism = auth_mechanism (client_auth o1), rq_AuthValue = map_option au_Value (client_auth o1), rq_NonKernel = (client_auth o1 \<noteq> None)\<rparr>"

lemma length_initiate_request: "initiate_ok r \<Longrightarrow> length (EncodeInitiateRequest r) < 2 ^ 24" "initiate_ok r \<Longrightarrow> length (EncodeInitiateResponse r) < 2 ^ 24"
  using length_initiate [of r] length_tlv_le(1) [of tagInitiateRequest "initiate_octets r"] length_tlv_le(1) [of tagInitiateResponse "initiate_octets r"]
  by (simp_all add: EncodeInitiateRequest_def EncodeInitiateResponse_def encodeInitiate_octets mms_pdu_tags)

lemma client_auth_ok: "length (op_Password o1) < 2 ^ 20 \<Longrightarrow> auth_ok (client_auth o1)" "length (op_Password o1) < 2 ^ 20 \<Longrightarrow> auth_password (client_auth o1) = op_Password o1"
  using PasswordAuth_ok [of "op_Password o1"] auth_password_PasswordAuth(1) [of "op_Password o1"] by (auto simp: client_auth_def auth_ok_def auth_password_PasswordAuth(2))

lemma client_aarq_parsed:
  assumes "options_ok o1"
  shows "ParseAARQFull (AARQAuth (EncodeInitiateRequest (client_initiate o1)) (client_auth o1) (op_Called o1) (op_Calling o1) (op_ApplicationContext o1)) = Inr (client_request o1)"
    "length (AARQAuth (EncodeInitiateRequest (client_initiate o1)) (client_auth o1) (op_Called o1) (op_Calling o1) (op_ApplicationContext o1)) < 2 ^ 30"
proof -
  have a: "identity_ok (op_Called o1)" "identity_ok (op_Calling o1)" "auth_ok (client_auth o1)" "length (EncodeInitiateRequest (client_initiate o1)) < 2 ^ 28"
    using assms client_auth_ok(1) length_initiate_request(1) [of "client_initiate o1"] by (auto simp: options_ok_def)
  show "ParseAARQFull (AARQAuth (EncodeInitiateRequest (client_initiate o1)) (client_auth o1) (op_Called o1) (op_Calling o1) (op_ApplicationContext o1)) = Inr (client_request o1)"
    using ParseAARQFull_AARQAuth [OF a] client_auth_ok(2) assms by (simp add: client_request_def options_ok_def)
  show "length (AARQAuth (EncodeInitiateRequest (client_initiate o1)) (client_auth o1) (op_Called o1) (op_Calling o1) (op_ApplicationContext o1)) < 2 ^ 30"
    using aarq_fields_ok(2) [OF a, of "op_ApplicationContext o1"] length_tlv_le(1) [of tagAARQ "fields_octets (aarq_fields (EncodeInitiateRequest (client_initiate o1)) (client_auth o1) (op_Called o1) (op_Calling o1) (op_ApplicationContext o1))"]
    unfolding AARQ_octets by linarith
qed

text \<open>What the server answers a client's request with.\<close>

definition server_want :: "AcceptOptions \<Rightarrow> InitiateRequest" where
  "server_want opts = (case ao_Initiate opts of Some i \<Rightarrow> i | None \<Rightarrow> DefaultServerInitiate)"

definition server_identity :: "AcceptOptions \<Rightarrow> Identity" where
  "server_identity opts = (case ao_Responding opts of Some i \<Rightarrow> i | None \<Rightarrow> no_identity)"

definition agreed :: "Options \<Rightarrow> AcceptOptions \<Rightarrow> InitiateRequest" where
  "agreed o1 opts = clampInitiate (server_want opts) (initiate_read (client_initiate o1))"

definition answer_cpa :: "Options \<Rightarrow> AcceptOptions \<Rightarrow> byte list" where
  "answer_cpa o1 opts =
     snd (BuildCPA DefaultCalledPSel proposed_contexts
       (AAREAuth (EncodeInitiateResponse (agreed o1 opts)) (server_identity opts) (context_OID (op_ApplicationContext o1)) ContextMMS None))"

definition refuse_cpr :: "Options \<Rightarrow> int \<Rightarrow> byte list" where
  "refuse_cpr o1 diag = BuildCPR DefaultCalledPSel proposed_contexts (AARERejectFor (context_OID (op_ApplicationContext o1)) diag)"

definition accept_ok :: "AcceptOptions \<Rightarrow> bool" where
  "accept_ok opts = (initiate_ok (server_want opts) \<and> identity_ok (server_identity opts))"

definition connect_message :: "Options \<Rightarrow> byte list" where
  "connect_message o1 = buildConnectExt siConnect [] [] (client_cp o1) (length (client_cp o1) > MaxUserData)"

lemma proposed_negotiated: "Negotiate proposed_contexts = \<lparr>ng_ACSE = ContextACSE, ng_MMS = ContextMMS\<rparr>"
  by (simp add: Negotiate_def proposed_contexts_def Acceptable_def IsACSE_def IsMMS_def cx_BER_def)

lemma acse_id_ok: "int64_ok (acse_id (Negotiate proposed_contexts))" "length proposed_contexts < 2 ^ 20" "length DefaultCalledPSel < 2 ^ 28"
  by (simp_all add: proposed_negotiated acse_id_def ContextACSE_def int64_ok_def DefaultCalledPSel_def) (simp add: proposed_contexts_def)

lemma agreed_ok: "options_ok o1 \<Longrightarrow> accept_ok opts \<Longrightarrow> initiate_ok (agreed o1 opts)"
  using answer_ok by (simp add: agreed_def options_ok_def accept_ok_def)

text \<open>The server's side, from the CONNECT of a client.\<close>

lemma acceptConn_client:
  assumes "options_ok o1" "receive t = (Inr (connect_message o1), t1)"
  shows "acceptConn send receive opts t =
    (let cp = \<lparr>cp_CallingPSel = DefaultCallingPSel, cp_CalledPSel = DefaultCalledPSel, cp_Contexts = proposed_contexts,
                cp_UserData = Some (AARQAuth (EncodeInitiateRequest (client_initiate o1)) (client_auth o1) (op_Called o1) (op_Calling o1) (op_ApplicationContext o1))\<rparr>
     in case authenticate opts (client_request o1) of
          Some diag \<Rightarrow> (Inl (Err ErrRejected), snd (Refuse send (refuse_cpr o1 diag) t1))
        | None \<Rightarrow> server_answer send opts \<lparr>ar_UserData = client_cp o1, ar_CallingSSEL = [], ar_CalledSSEL = []\<rparr> cp (client_request o1) (initiate_read (client_initiate o1)) t1)"
proof -
  have s: "ssel_ok []" by (simp add: ssel_ok_def)
  have l: "length (client_cp o1) \<le> MaxExtendedUserData" "initiate_ok (client_initiate o1)" using assms(1) by (simp_all add: options_ok_def)
  have a: "AcceptServer receive t = (Inr \<lparr>ar_UserData = client_cp o1, ar_CallingSSEL = [], ar_CalledSSEL = []\<rparr>, t1)"
    using acceptConnect_build [OF s s l(1)] assms(2) by (simp add: AcceptServer_def connect_message_def)
  note cp = ParseCP_BuildCP [of DefaultCallingPSel DefaultCalledPSel, OF _ _ client_aarq_parsed(2) [OF assms(1)], folded client_cp_def]
  have cp: "ParseCP (client_cp o1) = Inr \<lparr>cp_CallingPSel = DefaultCallingPSel, cp_CalledPSel = DefaultCalledPSel, cp_Contexts = proposed_contexts,
      cp_UserData = Some (AARQAuth (EncodeInitiateRequest (client_initiate o1)) (client_auth o1) (op_Called o1) (op_Calling o1) (op_ApplicationContext o1))\<rparr>"
    by (rule cp) (simp_all add: DefaultCallingPSel_def DefaultCalledPSel_def)
  have e: "context_OID c \<noteq> OIDE2EMMSContext" for c by (cases c) (simp_all add: oidMMSContext_def oidACSIContext_def OIDE2EMMSContext_def)
  have p: "psel_or_default cp = DefaultCalledPSel" if "cp_CalledPSel cp = DefaultCalledPSel" for cp
    using that by (simp add: psel_or_default_def)
  show ?thesis unfolding acceptConn_def
    by (simp add: a cp client_aarq_parsed(1) [OF assms(1)] initiate_roundtrip(1) [OF l(2)] client_request_def e server_refuse_def p refuse_cpr_def Let_def split: option.split)
qed

text \<open>The client's side, from the server's answer.\<close>

lemma newClientConn_reply:
  assumes "options_ok o1" "send (connect_message o1) t = (Inr (), t1)" "receive t1 = (Inr m, t2)"
  shows "newClientConn send receive o1 t =
    (case connectReply m of
       Inl Panic \<Rightarrow> (Inl Panic, t2)
     | Inl (Err (RefusedError r ud)) \<Rightarrow> (Inl (Err (client_refused ud)), t2)
     | Inl (Err e) \<Rightarrow> (Inl (Err (SessionErr e)), t2)
     | Inr cpaUserData \<Rightarrow> (client_accepted cpaUserData, t2))"
  using assms by (simp add: newClientConn_def ConnectClient_def ConnectClientExt_def connect_message_def options_ok_def t_Send_def Let_def
      split: sum.split failure.split session_error.split)

definition client_assoc :: "Options \<Rightarrow> AcceptOptions \<Rightarrow> ClientAssoc" where
  "client_assoc o1 opts =
     \<lparr>ca_framing = \<lparr>fr_mmsContext = ContextMMS, fr_acseContext = ContextACSE, fr_closed = False\<rparr>,
      ca_negotiated = initiate_read (agreed o1 opts), ca_responding = server_identity opts\<rparr>"

definition server_assoc :: "Options \<Rightarrow> AcceptOptions \<Rightarrow> ServerAssoc" where
  "server_assoc o1 opts =
     \<lparr>sa_framing = \<lparr>fr_mmsContext = ContextMMS, fr_acseContext = ContextACSE, fr_closed = False\<rparr>, sa_Password = op_Password o1,
      sa_MaxPDU = sint (ir_LocalDetail (agreed o1 opts)), sa_Called = op_Called o1, sa_Calling = op_Calling o1\<rparr>"

lemma answer_aare:
  assumes "options_ok o1" "accept_ok opts"
  defines "aare \<equiv> AAREAuth (EncodeInitiateResponse (agreed o1 opts)) (server_identity opts) (context_OID (op_ApplicationContext o1)) ContextMMS None"
  shows "\<exists>res. ParseAARE aare = Inr res \<and> re_Accepted res \<and> re_UserData res = Some (EncodeInitiateResponse (agreed o1 opts)) \<and> re_Responding res = server_identity opts"
    and "length aare < 2 ^ 30"
proof -
  have a: "identity_ok (server_identity opts)" "auth_ok None" "length (EncodeInitiateResponse (agreed o1 opts)) < 2 ^ 28" "int64_ok ContextMMS"
    using assms(2) length_initiate_request(2) [OF agreed_ok [OF assms(1,2)]] by (auto simp: accept_ok_def auth_ok_def ContextMMS_def int64_ok_def)
  show "\<exists>res. ParseAARE aare = Inr res \<and> re_Accepted res \<and> re_UserData res = Some (EncodeInitiateResponse (agreed o1 opts)) \<and> re_Responding res = server_identity opts"
    unfolding aare_def ParseAARE_AAREAuth [OF a] by simp
  have n: "ContextMMS \<noteq> 0" by (simp add: ContextMMS_def)
  show "length aare < 2 ^ 30"
    using accept_fields_ok(2) [OF a answered_context_fits(2,3), of "context_OID (op_ApplicationContext o1)"]
      length_tlv_le(1) [of tagAARE "fields_octets (accept_fields (EncodeInitiateResponse (agreed o1 opts)) (server_identity opts) (answered_context (context_OID (op_ApplicationContext o1))) ContextMMS None)"] n
    unfolding aare_def AARE_octets by (simp only: if_False)
qed

lemma client_accepted_answer:
  assumes "options_ok o1" "accept_ok opts"
  shows "client_accepted (answer_cpa o1 opts) = Inr (client_assoc o1 opts)"
proof -
  obtain res where res: "ParseAARE (AAREAuth (EncodeInitiateResponse (agreed o1 opts)) (server_identity opts) (context_OID (op_ApplicationContext o1)) ContextMMS None) = Inr res"
    "re_Accepted res" "re_UserData res = Some (EncodeInitiateResponse (agreed o1 opts))" "re_Responding res = server_identity opts"
    using answer_aare(1) [OF assms] by blast
  show ?thesis using ParseCPUserData_BuildCPA [OF acse_id_ok(3,2,1) answer_aare(2) [OF assms]] initiate_roundtrip(2) [OF agreed_ok [OF assms]] res
    by (simp add: client_accepted_def answer_cpa_def client_assoc_def)
qed

lemma server_answer_client:
  assumes "options_ok o1" "send (buildConnect siAccept [] [] (answer_cpa o1 opts)) t = (Inr (), t1)"
  shows "server_answer send opts \<lparr>ar_UserData = client_cp o1, ar_CallingSSEL = [], ar_CalledSSEL = []\<rparr>
      \<lparr>cp_CallingPSel = DefaultCallingPSel, cp_CalledPSel = DefaultCalledPSel, cp_Contexts = proposed_contexts, cp_UserData = Some d\<rparr>
      (client_request o1) (initiate_read (client_initiate o1)) t = (Inr (server_assoc o1 opts), t1)"
proof -
  have h: "HasMMS (Negotiate proposed_contexts)" "ng_MMS (Negotiate proposed_contexts) = ContextMMS" "ng_ACSE (Negotiate proposed_contexts) = ContextACSE"
    by (simp_all add: proposed_negotiated HasMMS_def ContextMMS_def)
  have p: "psel_or_default \<lparr>cp_CallingPSel = DefaultCallingPSel, cp_CalledPSel = DefaultCalledPSel, cp_Contexts = proposed_contexts, cp_UserData = Some d\<rparr> = DefaultCalledPSel"
    by (simp add: psel_or_default_def)
  have r: "rq_ApplicationContext (client_request o1) = context_OID (op_ApplicationContext o1)" by (simp add: client_request_def)
  have "session_Reply send [] (answer_cpa o1 opts) t = (Inr (), t1)" using assms(2) by (simp add: session_Reply_def t_Send_def)
  then show ?thesis unfolding server_answer_def server_want_def [symmetric] server_identity_def [symmetric] Let_def p r agreed_def [symmetric]
    by (simp add: h split_def answer_cpa_def server_assoc_def client_request_def)
qed

definition accept_message :: "Options \<Rightarrow> AcceptOptions \<Rightarrow> byte list" where
  "accept_message o1 opts = buildConnect siAccept [] [] (answer_cpa o1 opts)"

text \<open>The refusal the client reads from the CPR.\<close>

lemma length_reject: "int64_ok diag \<Longrightarrow> length (AARERejectFor ctx diag) < 2 ^ 13"
proof -
  assume d: "int64_ok diag"
  have i: "int64_ok 1" by (simp add: int64_ok_def)
  have "fields_size (aare_fields (answered_context ctx) 1 diag) < 7000"
    using oid_field_size(1) [OF answered_context_fits(2,3), of ctx] int_field_size [OF i] int_field_size [OF d] length_tlv_le(1) [of "ContextConstructed 1" "tlv TagInteger (int_octets diag)"]
    by (simp add: aare_fields_def)
  then show ?thesis using length_fields [of "aare_fields (answered_context ctx) 1 diag"] length_tlv_le(1) [of tagAARE "fields_octets (aare_fields (answered_context ctx) 1 diag)"]
    unfolding AARERejectFor_octets by simp
qed

lemma length_CPR: "length cs < 100 \<Longrightarrow> int64_ok (acse_id (Negotiate cs)) \<Longrightarrow> length (BuildCPR sel cs d) < 11000 + length sel + length d"
  using length_fields [of "answer_fields sel Acceptable cx_known cs (acse_id (Negotiate cs)) d"] length_results [of Acceptable cx_known cs] length_pdv [of "acse_id (Negotiate cs)" d]
    length_tlv_le(1) [of TagSequence "fields_octets (answer_fields sel Acceptable cx_known cs (acse_id (Negotiate cs)) d)"]
  unfolding BuildCPR_octets by (auto simp: answer_fields_def opt_field_def)

lemma client_refused_reject:
  assumes "int64_ok diag"
  shows "client_refused (refuse_cpr o1 diag) = AssocRejected diag" "length (refuse_cpr o1 diag) < 65000"
proof -
  have l: "length (AARERejectFor (context_OID (op_ApplicationContext o1)) diag) < 2 ^ 30" using length_reject [OF assms, of "context_OID (op_ApplicationContext o1)"] by simp
  show "client_refused (refuse_cpr o1 diag) = AssocRejected diag"
    using ParseCPR_BuildCPR [OF acse_id_ok(3,2,1) l] ParseAARE_reject [OF assms, of "context_OID (op_ApplicationContext o1)"]
    by (simp add: client_refused_def refuse_cpr_def Let_def)
  have "length proposed_contexts < 100" "length DefaultCalledPSel < 100" by (simp_all add: proposed_contexts_def DefaultCalledPSel_def)
  then show "length (refuse_cpr o1 diag) < 65000" using length_CPR [OF _ acse_id_ok(1), of DefaultCalledPSel "AARERejectFor (context_OID (op_ApplicationContext o1)) diag"]
      length_reject [OF assms, of "context_OID (op_ApplicationContext o1)"]
    by (simp add: refuse_cpr_def)
qed

lemma authenticate_diag: "authenticate opts areq = Some diag \<Longrightarrow> diag = DiagAuthenticationFailure \<or> diag = DiagAuthenticationRequired"
  by (auto simp: authenticate_def split: option.splits auth_verdict.splits)

section \<open>Over a transport\<close>

context transport
begin

lemma associate:
  assumes "ready c" "ready c'" "options_ok o1" "accept_ok opts" "authenticate opts (client_request o1) = None" "length (answer_cpa o1 opts) < 63000"
    and "accepts c' (connect_message o1)" "accepts c (accept_message o1 opts)"
    and "pending c' = wire c (connect_message o1) @ r'" "pending c = wire c' (accept_message o1 opts) @ r"
  shows "\<exists>c1 c2. newClientConn send receive o1 c = (Inr (client_assoc o1 opts), c1) \<and> sent c1 = sent c @ wire c (connect_message o1) \<and> pending c1 = r
    \<and> acceptConn send receive opts c' = (Inr (server_assoc o1 opts), c2) \<and> sent c2 = sent c' @ wire c' (accept_message o1 opts) \<and> pending c2 = r'"
proof -
  from send_wire [OF assms(1), of "connect_message o1"] obtain d1 where d1: "send (connect_message o1) c = (Inr (), d1)" "sent d1 = sent c @ wire c (connect_message o1)"
    "pending d1 = pending c" "ready d1" "accepts d1 = accepts c" by blast
  from receive_wire [OF assms(2) d1(4) assms(8) [folded d1(5)]] d1(3) assms(10) obtain d2
    where d2: "receive d1 = (Inr (accept_message o1 opts), d2)" "pending d2 = r" "sent d2 = sent d1" by auto
  have s: "ssel_ok []" by (simp add: ssel_ok_def)
  have "newClientConn send receive o1 c = (Inr (client_assoc o1 opts), d2)"
    using newClientConn_reply [of o1 send c d1 receive _ d2, OF assms(3) d1(1) d2(1)]
    by (simp add: accept_message_def connectReply_accept [OF s assms(6)] client_accepted_answer [OF assms(3,4)])
  moreover from receive_wire [OF assms(1,2,7,9)] obtain e1 where e1: "receive c' = (Inr (connect_message o1), e1)" "pending e1 = r'" "sent e1 = sent c'" "ready e1" "wire e1 = wire c'" by blast
  moreover from send_wire [OF e1(4), of "accept_message o1 opts"] obtain e2 where e2: "send (accept_message o1 opts) e1 = (Inr (), e2)" "sent e2 = sent e1 @ wire e1 (accept_message o1 opts)" "pending e2 = pending e1" by blast
  moreover have "acceptConn send receive opts c' = (Inr (server_assoc o1 opts), e2)"
    using acceptConn_client [of o1 receive c' e1 send opts, OF assms(3) e1(1)] assms(5) server_answer_client [of o1 send opts e1 e2, OF assms(3) e2(1) [unfolded accept_message_def]] by simp
  ultimately show ?thesis using d1 d2 by auto
qed

lemma associate_rejected:
  assumes "ready c" "ready c'" "options_ok o1" "authenticate opts (client_request o1) = Some diag"
    and "accepts c' (connect_message o1)" "accepts c (refuse_octets (refuse_cpr o1 diag))"
    and "pending c' = wire c (connect_message o1) @ r'" "pending c = wire c' (refuse_octets (refuse_cpr o1 diag)) @ r"
  shows "\<exists>c1 c2. newClientConn send receive o1 c = (Inl (Err (AssocRejected diag)), c1) \<and> sent c1 = sent c @ wire c (connect_message o1) \<and> pending c1 = r
    \<and> acceptConn send receive opts c' = (Inl (Err ErrRejected), c2) \<and> sent c2 = sent c' @ wire c' (refuse_octets (refuse_cpr o1 diag)) \<and> pending c2 = r'"
proof -
  let ?m = "refuse_octets (refuse_cpr o1 diag)"
  have d: "int64_ok diag" using authenticate_diag [OF assms(4)] by (auto simp: DiagAuthenticationFailure_def DiagAuthenticationRequired_def int64_ok_def)
  from send_wire [OF assms(1), of "connect_message o1"] obtain d1 where d1: "send (connect_message o1) c = (Inr (), d1)" "sent d1 = sent c @ wire c (connect_message o1)"
    "pending d1 = pending c" "ready d1" "accepts d1 = accepts c" by blast
  from receive_wire [OF assms(2) d1(4) assms(6) [folded d1(5)]] d1(3) assms(8) obtain d2
    where d2: "receive d1 = (Inr ?m, d2)" "pending d2 = r" "sent d2 = sent d1" by auto
  have "newClientConn send receive o1 c = (Inl (Err (AssocRejected diag)), d2)"
    using newClientConn_reply [of o1 send c d1 receive _ d2, OF assms(3) d1(1) d2(1)]
    by (simp add: connectReply_refuse [OF client_refused_reject(2) [OF d]] client_refused_reject(1) [OF d])
  moreover from receive_wire [OF assms(1,2,5,7)] obtain e1 where e1: "receive c' = (Inr (connect_message o1), e1)" "pending e1 = r'" "sent e1 = sent c'" "ready e1" "wire e1 = wire c'" by blast
  moreover from send_wire [OF e1(4), of ?m] obtain e2 where e2: "send ?m e1 = (Inr (), e2)" "sent e2 = sent e1 @ wire e1 ?m" "pending e2 = pending e1" by blast
  moreover have "acceptConn send receive opts c' = (Inl (Err ErrRejected), e2)"
    using acceptConn_client [of o1 receive c' e1 send opts, OF assms(3) e1(1)] assms(4) e2(1) by (simp add: session_sends t_Send_def)
  ultimately show ?thesis using d1 d2 by auto
qed

end

section \<open>The data phase over a transport\<close>

lemma ParseRelease_built:
  "ParseRelease (BuildRLRQ 0 []) = Inr \<lparr>rl_Response = False, rl_Reason = 0, rl_UserInfo = []\<rparr>"
  "ParseRelease (BuildRLRE 0 []) = Inr \<lparr>rl_Response = True, rl_Reason = 0, rl_UserInfo = []\<rparr>"
proof -
  let ?fs = "[(ContextPrimitive 0, int_octets 0)]"
  have i: "int64_ok 0" by (simp add: int64_ok_def)
  have e: "BuildRLRQ 0 [] = tlv tagRLRQ (fields_octets ?fs)" "BuildRLRE 0 [] = tlv tagRLRE (fields_octets ?fs)"
    by (simp_all add: BuildRLRQ_def BuildRLRE_def userInfoElem_def octets_simps acse_tags)
  have ok: "fields_ok ?fs" using content_short(1) [OF i] by simp
  have l: "length (fields_octets ?fs) < 2 ^ 32" using length_fields [of ?fs] length_int_octets [OF i] by simp
  have t: "tagRLRQ \<noteq> tagRLRE" by (simp add: acse_tags tags)
  show "ParseRelease (BuildRLRQ 0 []) = Inr \<lparr>rl_Response = False, rl_Reason = 0, rl_UserInfo = []\<rparr>"
    using l i t unfolding e ParseRelease_def
    by (simp only: NewDecoder_at [of "tlv _ _"]) (simp add: codec_simps for_tlvs_fields [OF refl ok] del: concat.simps list.map(2))
  show "ParseRelease (BuildRLRE 0 []) = Inr \<lparr>rl_Response = True, rl_Reason = 0, rl_UserInfo = []\<rparr>"
    using l i t unfolding e ParseRelease_def
    by (simp only: NewDecoder_at [of "tlv _ _"]) (simp add: codec_simps for_tlvs_fields [OF refl ok] del: concat.simps list.map(2))
qed

lemma WrapAbort_unwrapped:
  assumes "int64_ok i" "length d < 1000"
  shows "UnwrapAbortCtx (WrapAbort i d) = Inr (if i = 0 then ContextACSE else i, d)" "length (WrapAbort i d) < 2000"
proof -
  define j where "j = (if i = 0 then ContextACSE else i)"
  have j: "int64_ok j" using assms(1) by (simp add: j_def ContextACSE_def int64_ok_def)
  let ?fs = "[(ApplicationConstructed 1, pdv_octets j d)]"
  have e: "WrapAbort i d = tlv (ContextConstructed 0) (fields_octets ?fs)"
    unfolding WrapAbort_def j_def [symmetric] by (simp add: octets_simps userData_el Encode_userData)
  have ok: "fields_ok ?fs" using length_pdv [OF j, of d] assms(2) by simp
  have l: "length (fields_octets ?fs) < 1500" using length_fields [of ?fs] length_pdv [OF j, of d] assms(2) by simp
  have "findUserInfo (fields_octets ?fs) = Inr (j, d)"
    unfolding findUserInfo_def for_tlvs_fields [OF refl ok] using parsePDVList_pdv [OF j, of d] assms(2) by simp
  then show "UnwrapAbortCtx (WrapAbort i d) = Inr (if i = 0 then ContextACSE else i, d)"
    using l unfolding e UnwrapAbortCtx_def abort_content_def j_def [symmetric]
    by (simp only: NewDecoder_at [of "tlv _ _"]) (simp add: codec_simps del: concat.simps list.map(2))
  show "length (WrapAbort i d) < 2000" using l length_tlv_le(1) [of "ContextConstructed 0" "fields_octets ?fs"] unfolding e by linarith
qed

lemma BuildABRT_user: "BuildABRT 0 [] = ABRT 0" "length (ABRT 0) < 1000"
proof -
  show "BuildABRT 0 [] = ABRT 0" by (simp add: BuildABRT_def ABRT_def userInfoElem_def Encode_Cons_el map_filter_simps acse_tags)
  have "length (int_octets 0) \<le> 8" using length_int_octets [of 0] by (simp add: int64_ok_def)
  then show "length (ABRT 0) < 1000" using length_tlv_le(1) [of tagABRT "tlv (ContextPrimitive 0) (int_octets 0)"] length_tlv_le(1) [of "ContextPrimitive 0" "int_octets 0"]
    by (simp add: ABRT_def octets_simps acse_tags)
qed

context transport
begin

lemma pdu_arrives:
  assumes "ready c" "ready c'" "\<not> fr_closed f" "int64_ok (fr_mmsContext f)" "length pdu < 2 ^ 31" "accepts c' (data_octets (WrapData (fr_mmsContext f) pdu))"
    and "pending c' = wire c (data_octets (WrapData (fr_mmsContext f) pdu)) @ r"
  shows "\<exists>c1 c2. sendMMS send f pdu c = (Inr (), c1) \<and> sent c1 = sent c @ wire c (data_octets (WrapData (fr_mmsContext f) pdu))
    \<and> recvMMS receive f' c' = (Inr (MmsPDU pdu), f', c2) \<and> pending c2 = r"
proof -
  have "int64_ok ContextMMS" by (simp add: ContextMMS_def int64_ok_def)
  then have "UnwrapData (WrapData (fr_mmsContext f) pdu) = Inr pdu"
    using userData_decoded(1) [of "if fr_mmsContext f = 0 then ContextMMS else fr_mmsContext f" pdu] assms(4,5) by (simp add: WrapData_def UnwrapData_def split: if_splits)
  then show ?thesis using data_phase [OF assms(1,2,6)] assms(3,7) by (fastforce simp: sendMMS_def recvMMS_def)
qed

lemma abort_arrives:
  fixes f defines "m \<equiv> abort_octets (WrapAbort (fr_acseContext f) (ABRT 0))"
  assumes "ready c" "ready c'" "\<not> fr_closed f" "int64_ok (fr_acseContext f)" "accepts c' m" "pending c' = wire c m @ r"
  shows "\<exists>c1 c2. sendAbort send f c = (Inr (), f\<lparr>fr_closed := True\<rparr>, c1) \<and> sent c1 = sent c @ wire c m
    \<and> recvMMS receive f' c' = (Inr (PeerAborted False), f'\<lparr>fr_closed := True\<rparr>, c2) \<and> pending c2 = r"
proof -
  note w = WrapAbort_unwrapped [OF assms(5) BuildABRT_user(2)]
  have l: "length (WrapAbort (fr_acseContext f) (ABRT 0)) < 65000" using w(2) by simp
  have p: "peerAborted (WrapAbort (fr_acseContext f) (ABRT 0)) = False"
    using w(1) ParseABRT_ABRT(2) [of 0 0] by (simp add: peerAborted_def int64_ok_def)
  from one_message [OF assms(2,3,6)] obtain c1 where c1: "t_Send send m c = (Inr (), c1)" "sent c1 = sent c @ wire c m" by blast
  from receive_wire [OF assms(2,3,6,7)] obtain c2 where c2: "receive c' = (Inr m, c2)" "pending c2 = r" by blast
  have "session_Receive receive c' = (Inl (Err (AbortedError (WrapAbort (fr_acseContext f) (ABRT 0)))), c2)"
    using c2(1) by (simp add: session_Receive_def m_def classify_octets(4) [OF l])
  then show ?thesis using c1 c2 p assms(4) by (simp add: sendAbort_def recvMMS_def session_sends BuildABRT_user(1) m_def)
qed

lemma release_arrives:
  fixes f response
  defines "ud \<equiv> WrapUserData (fr_acseContext f) (if response then BuildRLRE 0 [] else BuildRLRQ 0 [])"
  defines "m \<equiv> (if response then disconnect_octets ud else finish_octets ud)"
  assumes "ready c" "ready c'" "\<not> fr_closed f" "int64_ok (fr_acseContext f)" "accepts c' m" "pending c' = wire c m @ r"
  shows "\<exists>c1 c2 rel. sendRelease send f response c = (Inr (), c1) \<and> sent c1 = sent c @ wire c m
    \<and> recvMMS receive f' c' = (Inr (ReleaseSignal response rel), f', c2) \<and> rl_Response rel = response \<and> rl_Reason rel = 0 \<and> pending c2 = r"
proof -
  let ?apdu = "if response then BuildRLRE 0 [] else BuildRLRQ 0 []"
  have i: "int64_ok 0" by (simp add: int64_ok_def)
  have "length (fields_octets [(ContextPrimitive 0, int_octets 0)]) < 50" using length_fields [of "[(ContextPrimitive 0, int_octets 0)]"] length_int_octets [OF i] by simp
  then have la: "length ?apdu < 100"
    using length_tlv_le(1) [of tagRLRQ "tlv (ContextPrimitive 0) (int_octets 0)"] length_tlv_le(1) [of tagRLRE "tlv (ContextPrimitive 0) (int_octets 0)"]
    by (simp add: BuildRLRQ_def BuildRLRE_def userInfoElem_def octets_simps acse_tags)
  then have lu: "length ud < 65000"
    using length_pdv [OF assms(6), of ?apdu] length_tlv_le(1) [of "ApplicationConstructed 1" "pdv_octets (fr_acseContext f) ?apdu"]
    unfolding ud_def WrapUserData_def Encode_userData by linarith
  have u: "UnwrapDataCtx ud = Inr (fr_acseContext f, ?apdu)" unfolding ud_def WrapUserData_def using userData_decoded(2) [OF assms(6), of ?apdu] la by simp
  from one_message [OF assms(3,4,7)] obtain c1 where c1: "t_Send send m c = (Inr (), c1)" "sent c1 = sent c @ wire c m" by blast
  from receive_wire [OF assms(3,4,7,8)] obtain c2 where c2: "receive c' = (Inr m, c2)" "pending c2 = r" by blast
  show ?thesis
  proof (cases response)
    case True
    then have "session_Receive receive c' = (Inr (KindDisconnect, ud), c2)" using c2(1) classify_octets(3) [OF lu] by (simp add: session_Receive_def m_def)
    then show ?thesis using c1 c2 u True assms(5) by (auto simp: sendRelease_def recvMMS_def session_sends m_def ud_def ParseRelease_built)
  next
    case False
    then have "session_Receive receive c' = (Inr (KindFinish, ud), c2)" using c2(1) classify_octets(2) [OF lu] by (simp add: session_Receive_def m_def)
    then show ?thesis using c1 c2 u False assms(5) by (auto simp: sendRelease_def recvMMS_def session_sends m_def ud_def ParseRelease_built)
  qed
qed

end

section \<open>Properties\<close>

text \<open>(C3) Associations over class 0 transport. A client and a server whose authenticator accepts the request, each reading the frames the
  other writes, both end with an association: same presentation contexts; the server knows the client's password and the identities
  it called and claimed, the client the server's identity; the PDU size both work with is the same, positive and
  at most what either proposed; and neither reads beyond its peer's message.\<close>

theorem association_agreed:
  assumes "s_up (rw c)" "class0_size (maxTPDU c)" "s_up (rw c')" "class0_size (maxTPDU c')" "options_ok o1" "accept_ok opts"
    and "authenticate opts (client_request o1) = None" "0 < sint (ir_LocalDetail (server_want opts))" "length (answer_cpa o1 opts) < 63000"
    and "int (length (connect_message o1)) \<le> TSDU_limit c'" "int (length (accept_message o1 opts)) \<le> TSDU_limit c"
    and "s_in (rw c') = frames (maxData c) (connect_message o1) @ r'" "s_in (rw c) = frames (maxData c') (accept_message o1 opts) @ r"
  shows "\<exists>ca sa c1 c2. newClientConn Send Receive o1 c = (Inr ca, c1) \<and> s_out (rw c1) = s_out (rw c) @ frames (maxData c) (connect_message o1) \<and> s_in (rw c1) = r
    \<and> acceptConn Send Receive opts c' = (Inr sa, c2) \<and> s_out (rw c2) = s_out (rw c') @ frames (maxData c') (accept_message o1 opts) \<and> s_in (rw c2) = r'
    \<and> ca_framing ca = sa_framing sa \<and> ca_responding ca = server_identity opts
    \<and> sa_Password sa = op_Password o1 \<and> sa_Called sa = op_Called o1 \<and> sa_Calling sa = op_Calling o1
    \<and> sint (ir_LocalDetail (ca_negotiated ca)) = sa_MaxPDU sa \<and> 0 < sa_MaxPDU sa \<and> sa_MaxPDU sa \<le> sint (ir_LocalDetail (server_want opts))
    \<and> (0 < sint (ir_LocalDetail (client_initiate o1)) \<longrightarrow> sa_MaxPDU sa \<le> sint (ir_LocalDetail (client_initiate o1)))"
proof -
  have n: "ir_LocalDetail (agreed o1 opts) \<noteq> 0" "0 < sint (ir_LocalDetail (agreed o1 opts))" "sint (ir_LocalDetail (agreed o1 opts)) \<le> sint (ir_LocalDetail (server_want opts))"
    "0 < sint (ir_LocalDetail (client_initiate o1)) \<longrightarrow> sint (ir_LocalDetail (agreed o1 opts)) \<le> sint (ir_LocalDetail (client_initiate o1))"
    using assms(8) by (auto simp: agreed_def clampInitiate_simps initiate_read_def)
  show ?thesis using cotp.associate [of c c' o1 opts r' r] assms(1-7,9-13) n
    by (auto simp: client_assoc_def server_assoc_def initiate_read_def)
qed

text \<open>(C18) A refused client learns why. When the authenticator refuses the request, the server ends with an error and the client
  with a rejection carrying its diagnostic, authentication-required or authentication-failure.\<close>

theorem association_rejected:
  assumes "s_up (rw c)" "class0_size (maxTPDU c)" "s_up (rw c')" "class0_size (maxTPDU c')" "options_ok o1"
    and "authenticate opts (client_request o1) = Some diag"
    and "int (length (connect_message o1)) \<le> TSDU_limit c'" "int (length (refuse_octets (refuse_cpr o1 diag))) \<le> TSDU_limit c"
    and "s_in (rw c') = frames (maxData c) (connect_message o1) @ r'" "s_in (rw c) = frames (maxData c') (refuse_octets (refuse_cpr o1 diag)) @ r"
  shows "\<exists>c1 c2. newClientConn Send Receive o1 c = (Inl (Err (AssocRejected diag)), c1) \<and> acceptConn Send Receive opts c' = (Inl (Err ErrRejected), c2)
    \<and> s_out (rw c2) = s_out (rw c') @ frames (maxData c') (refuse_octets (refuse_cpr o1 diag)) \<and> diag \<in> {13, 14}"
  using cotp.associate_rejected [of c c' o1 opts diag r' r] authenticate_diag [OF assms(6)] assms
  by (auto simp: DiagAuthenticationFailure_def DiagAuthenticationRequired_def)

definition sample_options :: Options where
  "sample_options = \<lparr>op_Password = [], op_Initiate = None, op_Called = no_identity, op_Calling = no_identity, op_ApplicationContext = MMSContext\<rparr>"

definition sample_accept :: AcceptOptions where
  "sample_accept = \<lparr>ao_Initiate = None, ao_Responding = None, ao_Authenticate = None\<rparr>"

lemma sample_lengths: "length (client_cp sample_options) < 1000" "length (answer_cpa sample_options sample_accept) < 1000"
  by code_simp+

lemma length_service: "length (AppendBitString [] (ss_Bits (NewServiceSupport services))) = 12" "ss_Raw (NewServiceSupport services) = None"
proof -
  show "length (AppendBitString [] (ss_Bits (NewServiceSupport services))) = 12"
    using NewServiceSupport_Has(2,3) [of services] by (simp add: bits_octets_ok) (simp add: bs_ok_def)
  show "ss_Raw (NewServiceSupport services) = None" by (simp add: NewServiceSupport_def)
qed

lemma sample_ok: "options_ok sample_options" "accept_ok sample_accept"
proof -
  have "initiate_ok DefaultInitiate" "initiate_ok DefaultServerInitiate"
    using length_service length_bits [OF parameterCBB_bits(1,2)]
    by (simp_all add: initiate_ok_def DefaultInitiate_def DefaultServerInitiate_def cbb_octets_def svc_octets_def int64_ok_def defaultServiceSupport_def)
  moreover have "identity_ok no_identity" by (simp add: identity_ok_def no_identity_def oid_fits_def)
  ultimately show "options_ok sample_options" "accept_ok sample_accept"
    using sample_lengths(1) by (simp_all add: options_ok_def accept_ok_def sample_options_def sample_accept_def client_initiate_def server_want_def server_identity_def MaxExtendedUserData_def)
qed

lemma length_spdu: "length (spdu si params) \<le> 4 + length params"
  by (simp add: spdu_def appendLen_def)

lemma length_connect: "length ud < 63000 \<Longrightarrow> length (buildConnectExt si [] [] ud e) < 131072"
  using length_connect_params [of "[]" "[]" ud e] length_spdu [of si "connect_params [] [] ud e"] by (simp add: buildConnectExt_params ssel_ok_def)

theorem association_agreed_witness:
  "\<exists>m1 m2 ca sa c1 c2. newClientConn Send Receive sample_options (sample_conn (frames 125 m2)) = (Inr ca, c1) \<and> s_out (rw c1) = frames 125 m1
    \<and> acceptConn Send Receive sample_accept (sample_conn (frames 125 m1)) = (Inr sa, c2) \<and> s_out (rw c2) = frames 125 m2
    \<and> ca_framing ca = sa_framing sa \<and> sa_MaxPDU sa \<le> 65001"
proof -
  let ?m1 = "connect_message sample_options" and ?m2 = "accept_message sample_options sample_accept"
  have md: "maxData (sample_conn w) = 125" for w by (simp add: sample_conn_def maxData_def)
  have len: "length ?m1 < 131072" "length ?m2 < 131072" "length (answer_cpa sample_options sample_accept) < 63000"
    using sample_lengths by (simp_all add: connect_message_def accept_message_def buildConnect_def length_connect)
  have a: "authenticate sample_accept (client_request sample_options) = None" by (simp add: authenticate_def sample_accept_def)
  have w: "sint (ir_LocalDetail (server_want sample_accept)) = 65001" by (simp add: server_want_def sample_accept_def DefaultServerInitiate_def MMSmax_def)
  obtain ca sa c1 c2 where "newClientConn Send Receive sample_options (sample_conn (frames 125 ?m2)) = (Inr ca, c1)" "s_out (rw c1) = frames 125 ?m1"
    "acceptConn Send Receive sample_accept (sample_conn (frames 125 ?m1)) = (Inr sa, c2)" "s_out (rw c2) = frames 125 ?m2"
    "ca_framing ca = sa_framing sa" "sa_MaxPDU sa \<le> 65001"
    using association_agreed [of "sample_conn (frames 125 ?m2)" "sample_conn (frames 125 ?m1)" sample_options sample_accept "[]" "[]"] sample_ok a w len md
    by (auto simp: sample_conn_simps)
  then show ?thesis by blast
qed

theorem association_rejected_witness:
  "\<exists>m1 m2 c1 c2. newClientConn Send Receive sample_options (sample_conn (frames 125 m2)) = (Inl (Err (AssocRejected 14)), c1)
    \<and> acceptConn Send Receive (sample_accept\<lparr>ao_Authenticate := Some (\<lambda>a. if aq_Password a = [] then AuthRequired else AuthFailed)\<rparr>) (sample_conn (frames 125 m1)) = (Inl (Err ErrRejected), c2)"
proof -
  let ?m1 = "connect_message sample_options" and ?m2 = "refuse_octets (refuse_cpr sample_options 14)"
  let ?a = "sample_accept\<lparr>ao_Authenticate := Some (\<lambda>a. if aq_Password a = [] then AuthRequired else AuthFailed)\<rparr>"
  have md: "maxData (sample_conn w) = 125" for w by (simp add: sample_conn_def maxData_def)
  have l: "length (refuse_cpr sample_options 14) < 65000" by (rule client_refused_reject(2)) (simp add: int64_ok_def)
  have len: "length ?m1 < 131072" "length ?m2 < 131072"
    using sample_lengths disc_params(1) [OF l, of 1 piReasonCode ReasonUserData] length_spdu [of siRefuse "PI_octets piTransportDisc [1] @ PI_octets piReasonCode (ReasonUserData # refuse_cpr sample_options 14)"]
    by (simp_all add: connect_message_def length_connect refuse_octets_def)
  have a: "authenticate ?a (client_request sample_options) = Some 14"
    by (simp add: authenticate_def client_request_def sample_options_def DiagAuthenticationRequired_def)
  show ?thesis
    using association_rejected [of "sample_conn (frames 125 ?m2)" "sample_conn (frames 125 ?m1)" sample_options ?a 14 "[]" "[]"] sample_ok(1) a len md
    by (auto simp: sample_conn_simps)
qed

end
