(* ===== verification/MmsDispatch.thy ===== *)
theory MmsDispatch
  imports MmsPdu MmsValue
begin

text \<open>
  The confirmed PDUs of an MMS association (\<^verbatim>\<open>mms/conn.go\<close>, \<^verbatim>\<open>mms/client_ext.go\<close>, \<^verbatim>\<open>mms/server_conn.go\<close>,
  \<^verbatim>\<open>mms/server_ext.go\<close>): how a request, its response, an error, a reject and a cancel are written, and what each end makes of
  one it receives. The text of a \<^verbatim>\<open>ServiceError\<close> (its \<^verbatim>\<open>Detail\<close>) is left out.
\<close>

record ServiceError =
  se_Class :: "8 word"
  se_Code :: "8 word"
  se_Rejected :: bool

datatype handler_error = DataAccessErr byte | ServiceErr ServiceError | OtherErr

section \<open>Writing\<close>

definition errorClassChoice :: "handler_error \<Rightarrow> 32 word \<times> int" where
  "errorClassChoice err =
     (case err of
        DataAccessErr dae \<Rightarrow>
          if dae = AccessObjectAccessUnsupported then (7, 1)
          else if dae = AccessObjectNonExistent then (7, 2)
          else if dae = AccessObjectAccessDenied then (7, 3)
          else (7, 2)
      | ServiceErr se \<Rightarrow> if se_Class se \<noteq> 0 then (ucast (se_Class se), uint (se_Code se)) else (4, 0)
      | OtherErr \<Rightarrow> (4, 0))"

definition serviceErrorBody :: "handler_error \<Rightarrow> Element" where
  "serviceErrorBody err =
     (let (classTag, value) = errorClassChoice err in Cons_el (ContextConstructed 0) [Some (IntElem (ContextPrimitive classTag) value)])"

definition encodeError :: "32 word \<Rightarrow> handler_error \<Rightarrow> byte list" where
  "encodeError invokeID herr =
     (case herr of
        ServiceErr se \<Rightarrow>
          if se_Rejected se then
            Encode (Cons_el tagRejectPDU
              [Some (UintElem (ContextPrimitive 0) (unat invokeID)), Some (IntElem (ContextPrimitive (ucast (se_Class se))) (uint (se_Code se)))])
          else Encode (Cons_el tagConfirmedError
            [Some (Prim (ContextPrimitive 0) (uint_octets (unat invokeID))), Some (Cons_el (ContextConstructed 2) [Some (serviceErrorBody herr)])])
      | _ \<Rightarrow> Encode (Cons_el tagConfirmedError
            [Some (Prim (ContextPrimitive 0) (uint_octets (unat invokeID))), Some (Cons_el (ContextConstructed 2) [Some (serviceErrorBody herr)])]))"

definition encodeRequest :: "32 word \<Rightarrow> Element \<Rightarrow> byte list" where
  "encodeRequest invokeID service = Encode (Cons_el tagConfirmedRequest [Some (UintElem TagInteger (unat invokeID)), Some service])"

definition encodeResponse :: "32 word \<Rightarrow> Element \<Rightarrow> byte list" where
  "encodeResponse invokeID resp = Encode (Cons_el tagConfirmedResponse [Some (UintElem TagInteger (unat invokeID)), Some resp])"

definition encodeReject :: "32 word option \<Rightarrow> 32 word \<Rightarrow> int \<Rightarrow> byte list" where
  "encodeReject originalInvokeID category code =
     (let rej = Cons_el tagRejectPDU [];
          rej = (case originalInvokeID of Some i \<Rightarrow> Add rej [Some (UintElem (ContextPrimitive 0) (unat i))] | None \<Rightarrow> rej)
      in Encode (Add rej [Some (IntElem (ContextPrimitive category) code)]))"

definition encodeCancel :: "32 word \<Rightarrow> byte list" where
  "encodeCancel invokeID = Encode (UintElem tagCancelRequest (unat invokeID))"

definition encodeCancelResponse :: "32 word \<Rightarrow> byte list" where
  "encodeCancelResponse invokeID = Encode (UintElem tagCancelResponse (unat invokeID))"

definition encodeCancelError :: "32 word \<Rightarrow> byte list" where
  "encodeCancelError invokeID =
     Encode (Cons_el tagCancelError
       [Some (UintElem (ContextPrimitive 0) (unat invokeID)),
        Some (Cons_el (ContextConstructed 1) [Some (serviceErrorBody (ServiceErr \<lparr>se_Class = 10, se_Code = 1, se_Rejected = False\<rparr>))])])"

section \<open>Reading\<close>

text \<open>\<^verbatim>\<open>drillErrorClass\<close> goes nine levels deep at most; the number is the levels left.\<close>

fun drillErrorClass :: "nat \<Rightarrow> byte list \<Rightarrow> (8 word \<times> 8 word) option" where
  "drillErrorClass 0 body = None"
| "drillErrorClass (Suc n) body =
     for_tlvs (\<lambda>tag content (_ :: unit).
         if Class tag \<noteq> ClassContextSpecific then Continue ()
         else if Constructed tag then (case drillErrorClass n content of Some r \<Rightarrow> Return (Some r) | None \<Rightarrow> Continue ())
         else Return (Some (ucast (Number tag), word_of_int (ok_or 0 (DecodeInt content)))))
       (\<lambda>_ _. None) (\<lambda>_. None) body ()"

definition decodeServiceError :: "byte list \<Rightarrow> ServiceError" where
  "decodeServiceError body =
     (case drillErrorClass 9 body of
        Some (cls, code) \<Rightarrow> \<lparr>se_Class = cls, se_Code = code, se_Rejected = False\<rparr>
      | None \<Rightarrow> \<lparr>se_Class = 0, se_Code = 0, se_Rejected = False\<rparr>)"

definition splitInvoke :: "byte list \<Rightarrow> (ber_error, 32 word \<times> byte list) result" where
  "splitInvoke content =
     (case ReadTLV (NewDecoder content) of
        (Inl e, _) \<Rightarrow> Inl e
      | (Inr (tag, idBytes), dec) \<Rightarrow>
          if tag \<noteq> TagInteger \<and> tag \<noteq> ContextPrimitive 0 then Inl (Err ErrUnexpected)
          else rbind (DecodeUint idBytes) (\<lambda>n. rbind (Rest dec) (\<lambda>body. Inr (word_of_nat n, body))))"

datatype reply = Reply "byte list" | Failure ServiceError

text \<open>\<^verbatim>\<open>deliverReject\<close>: the request that was rejected, 0 when the peer names none, and why.\<close>

definition parseReject :: "byte list \<Rightarrow> (ber_error, 32 word \<times> ServiceError) result" where
  "parseReject content =
     (case Optional (ContextPrimitive 0) (NewDecoder content) of (r, dec) \<Rightarrow>
      rbind (optional_or_error r) (\<lambda>idBytes.
      let i = (case idBytes of Some b \<Rightarrow> word_of_nat (ok_or 0 (DecodeUint b)) | None \<Rightarrow> 0);
          se = \<lparr>se_Class = 0, se_Code = 0, se_Rejected = True\<rparr>
      in Inr (i,
         if \<not> More dec then se
         else case fst (ReadTLV dec) of
           Inl _ \<Rightarrow> se
         | Inr (tag, rr) \<Rightarrow>
             let se = se\<lparr>se_Class := ucast (Number tag)\<rparr>
             in (case DecodeInt rr of Inr n \<Rightarrow> se\<lparr>se_Code := word_of_int n\<rparr> | Inl _ \<Rightarrow> se))))"

definition parseCancelAnswer :: "Tag \<Rightarrow> byte list \<Rightarrow> (32 word \<times> ServiceError option) option" where
  "parseCancelAnswer tag content =
     (if tag = tagCancelResponse then
        (case DecodeUint content of Inl _ \<Rightarrow> None | Inr n \<Rightarrow> Some (word_of_nat n, None))
      else
        case Expect (ContextPrimitive 0) (NewDecoder content) of
          (Inl _, _) \<Rightarrow> None
        | (Inr b, dec) \<Rightarrow>
            Some (word_of_nat (ok_or 0 (DecodeUint b)),
                  Some (case drillErrorClass 9 (ok_or [] (Rest dec)) of
                     Some (cls, code) \<Rightarrow> \<lparr>se_Class = cls, se_Code = code, se_Rejected = False\<rparr>
                   | None \<Rightarrow> \<lparr>se_Class = 0, se_Code = 0, se_Rejected = False\<rparr>)))"

text \<open>What the reader of a client does with a PDU (\<^verbatim>\<open>dispatch\<close>).\<close>

datatype dispatched =
    Deliver "32 word" reply | Unconfirmed "byte list" | Concluded
  | CancelAnswer "32 word" "ServiceError option" | Serve "byte list" | Ignored

definition dispatch :: "byte list \<Rightarrow> dispatched" where
  "dispatch pdu =
     (case fst (ReadTLV (NewDecoder pdu)) of
        Inl _ \<Rightarrow> Ignored
      | Inr (tag, content) \<Rightarrow>
          if tag = tagConfirmedResponse \<or> tag = tagConfirmedError then
            (case splitInvoke content of
               Inl _ \<Rightarrow> Ignored
             | Inr (i, body) \<Rightarrow> Deliver i (if tag = tagConfirmedResponse then Reply body else Failure (decodeServiceError body)))
          else if tag = tagRejectPDU then
            (case parseReject content of Inl _ \<Rightarrow> Ignored | Inr (i, se) \<Rightarrow> Deliver i (Failure se))
          else if tag = tagUnconfirmed then Unconfirmed content
          else if tag = tagConcludeResponse \<or> tag = tagConcludeResponseLegacy then Concluded
          else if tag = tagCancelResponse \<or> tag = tagCancelError then
            (case parseCancelAnswer tag content of None \<Rightarrow> Ignored | Some (i, e) \<Rightarrow> CancelAnswer i e)
          else if tag = tagConfirmedRequest then Serve content
          else Ignored)"

text \<open>What the server's loop does with one (\<^verbatim>\<open>handlePDU\<close>, \<^verbatim>\<open>handleConfirmed\<close>): reject it, run a request, hand on
  an answer to its own call, cancel, end, or nothing.\<close>

definition rejectConfirmedRequest :: "32 word" where "rejectConfirmedRequest = 1"
definition rejectPDUError :: "32 word" where "rejectPDUError = 5"
definition rejectUnrecognizedService :: int where "rejectUnrecognizedService = 1"
definition rejectInvalidInvokeID :: int where "rejectInvalidInvokeID = 3"
definition rejectUnknownPDUType :: int where "rejectUnknownPDUType = 0"
definition rejectInvalidPDU :: int where "rejectInvalidPDU = 1"

datatype received_pdu =
    SendReject "32 word option" "32 word" int | Handle "32 word" "32 word" "byte list"
  | CallAnswer Tag "byte list" | CancelRequest "byte list" | ConcludeRequest | Nothing

definition confirmedRequest :: "byte list \<Rightarrow> received_pdu" where
  "confirmedRequest content =
     (case Expect TagInteger (NewDecoder content) of
        (Inl _, _) \<Rightarrow> SendReject None rejectConfirmedRequest rejectInvalidInvokeID
      | (Inr idBytes, dec) \<Rightarrow>
     case DecodeUint idBytes of
        Inl _ \<Rightarrow> SendReject None rejectConfirmedRequest rejectInvalidInvokeID
      | Inr id64 \<Rightarrow>
     if id64 > 0xffffffff then SendReject None rejectConfirmedRequest rejectInvalidInvokeID
     else case fst (ReadTLV dec) of
        Inl _ \<Rightarrow> SendReject (Some (word_of_nat id64)) rejectConfirmedRequest rejectUnrecognizedService
      | Inr (serviceTag, serviceContent) \<Rightarrow> Handle (word_of_nat id64) (Number serviceTag) serviceContent)"

definition serverDispatch :: "byte list \<Rightarrow> received_pdu" where
  "serverDispatch pdu =
     (case fst (ReadTLV (NewDecoder pdu)) of
        Inl _ \<Rightarrow> SendReject None rejectPDUError rejectInvalidPDU
      | Inr (tag, content) \<Rightarrow>
          if tag = tagConfirmedRequest then confirmedRequest content
          else if tag = tagConfirmedResponse \<or> tag = tagConfirmedError \<or> tag = tagRejectPDU then CallAnswer tag content
          else if tag = tagCancelRequest then CancelRequest content
          else if tag = tagConcludeRequest \<or> tag = tagConcludeRequestLegacy then ConcludeRequest
          else if tag = tagUnconfirmed \<or> tag = tagCancelResponse \<or> tag = tagCancelError \<or> tag = tagConcludeResponse
            \<or> tag = tagConcludeResponseLegacy \<or> tag = tagConcludeError then Nothing
          else SendReject None rejectPDUError rejectUnknownPDUType)"

text \<open>The answer to a call of the server (\<^verbatim>\<open>deliverCall\<close>).\<close>

definition parseCallAnswer :: "Tag \<Rightarrow> byte list \<Rightarrow> (32 word \<times> reply) option" where
  "parseCallAnswer tag content =
     (if tag = tagRejectPDU then
        (case optional_ignoring (fst (Optional (ContextPrimitive 0) (NewDecoder content))) of
           None \<Rightarrow> None
         | Some b \<Rightarrow> Some (word_of_nat (ok_or 0 (DecodeUint b)), Failure \<lparr>se_Class = 0, se_Code = 0, se_Rejected = True\<rparr>))
      else
        case splitInvoke content of
          Inl _ \<Rightarrow> None
        | Inr (i, body) \<Rightarrow> Some (i, if tag = tagConfirmedResponse then Reply body else Failure (decodeServiceError body)))"

section \<open>What one end writes the other reads\<close>

lemma Rest_at [simp]: "Rest (at_pos pre r) = Inr r"
  by (simp add: Rest_def at_pos_def go_slice_def)

lemma mms_tag_ok [simp]: "tag_ok tagConfirmedRequest" "tag_ok tagConfirmedResponse" "tag_ok tagConfirmedError" "tag_ok tagRejectPDU" "tag_ok tagUnconfirmed"
  "tag_ok tagCancelRequest" "tag_ok tagCancelResponse" "tag_ok tagCancelError" "tag_ok tagConcludeRequest" "tag_ok tagConcludeResponse"
  by (simp_all add: mms_pdu_tags)

lemma word32_uint64 [simp]: "uint64_ok (unat (w :: 32 word))" "word_of_nat (unat w) = w" "unat w \<le> 0xffffffff"
  using unsigned_less [of w, where 'a = nat] by (simp_all add: uint64_ok_def)

lemma word8_int64 [simp]: "int64_ok (uint (w :: 8 word))" "word_of_int (uint w) = w" "ucast (ucast w :: 32 word) = w"
proof -
  have "uint w < 256" "0 \<le> uint w" using unsigned_less [of w, where 'a = int] by simp_all
  then show "int64_ok (uint w)" by (simp add: int64_ok_def order_trans [of _ 0])
  show "ucast (ucast w :: 32 word) = w" by (rule bit_word_eqI) (simp add: bit_simps)
qed simp

lemma id_octets_short: "length (uint_octets (unat (w :: 32 word))) < 20" "length (tlv t (uint_octets (unat w))) < 50"
proof -
  show "length (uint_octets (unat w)) < 20" using length_uint_octets [of "unat w"] by simp
  then show "length (tlv t (uint_octets (unat w))) < 50" using length_tlv_le(1) [of t "uint_octets (unat w)"] by simp
qed

lemma splitInvoke_octets:
  assumes "t = TagInteger \<or> t = ContextPrimitive 0"
  shows "splitInvoke (tlv t (uint_octets (unat i)) @ body) = Inr (i, body)"
proof -
  have "tag_ok t" "length (uint_octets (unat i)) < 2 ^ 32" using assms id_octets_short(1) [of i] by auto
  then show ?thesis using assms by (auto simp: splitInvoke_def NewDecoder_at [of "tlv _ _ @ _"] codec_simps)
qed

lemma drill_constructed:
  assumes "length c < 2 ^ 32"
  shows "drillErrorClass (Suc n) (tlv (ContextConstructed k) c) = drillErrorClass n c"
proof -
  have ok: "tlv (ContextConstructed k) c = fields_octets [(ContextConstructed k, c)]" "fields_ok [(ContextConstructed k, c)]" using assms by simp_all
  show ?thesis by (simp add: for_tlvs_fields [OF ok] split: option.split)
qed

lemma drill_primitive:
  assumes "int64_ok v"
  shows "drillErrorClass (Suc n) (tlv (ContextPrimitive k) (int_octets v)) = Some (ucast k, word_of_int v)"
proof -
  have ok: "tlv (ContextPrimitive k) (int_octets v) = fields_octets [(ContextPrimitive k, int_octets v)]" "fields_ok [(ContextPrimitive k, int_octets v)]"
    using content_short(1) [OF assms] by simp_all
  show ?thesis using assms by (simp add: for_tlvs_fields [OF ok])
qed

lemma errorClassChoice_ok: "fst (errorClassChoice e) < 2 ^ 28" "int64_ok (snd (errorClassChoice e))"
proof -
  have "(ucast w :: 32 word) < 2 ^ 28" for w :: "8 word"
  proof -
    have "unat (ucast w :: 32 word) \<le> unat w" by (simp add: unsigned_ucast_eq)
    then have "unat (ucast w :: 32 word) < 2 ^ 8" using unsigned_less [of w, where 'a = nat] by (simp add: le_less_trans)
    then have "unat (ucast w :: 32 word) < unat (2 ^ 28 :: 32 word)" by simp
    then show ?thesis unfolding word_less_nat_alt .
  qed
  then show "fst (errorClassChoice e) < 2 ^ 28" by (simp add: errorClassChoice_def split: handler_error.split)
  have "int64_ok 0" "int64_ok 1" "int64_ok 2" "int64_ok 3" by (simp_all add: int64_ok_def)
  then show "int64_ok (snd (errorClassChoice e))" by (simp add: errorClassChoice_def split: handler_error.split)
qed

lemma Encode_error_body:
  "Encode (serviceErrorBody e) = tlv (ContextConstructed 0) (tlv (ContextPrimitive (fst (errorClassChoice e))) (int_octets (snd (errorClassChoice e))))"
  "el_ok (serviceErrorBody e)" "length (tlv (ContextPrimitive (fst (errorClassChoice e))) (int_octets (snd (errorClassChoice e)))) < 50"
proof -
  note c = errorClassChoice_ok [of e]
  show "Encode (serviceErrorBody e) = tlv (ContextConstructed 0) (tlv (ContextPrimitive (fst (errorClassChoice e))) (int_octets (snd (errorClassChoice e))))" "el_ok (serviceErrorBody e)"
    using c(1) by (simp_all add: serviceErrorBody_def split_def Let_def octets_simps)
  show "length (tlv (ContextPrimitive (fst (errorClassChoice e))) (int_octets (snd (errorClassChoice e)))) < 50"
    using length_int_octets [OF c(2)] length_tlv_le(1) [of "ContextPrimitive (fst (errorClassChoice e))" "int_octets (snd (errorClassChoice e))"] by simp
qed

definition reported :: "handler_error \<Rightarrow> ServiceError" where
  "reported e =
     (case e of
        ServiceErr se \<Rightarrow> if se_Rejected se then se else \<lparr>se_Class = ucast (fst (errorClassChoice e)), se_Code = word_of_int (snd (errorClassChoice e)), se_Rejected = False\<rparr>
      | _ \<Rightarrow> \<lparr>se_Class = ucast (fst (errorClassChoice e)), se_Code = word_of_int (snd (errorClassChoice e)), se_Rejected = False\<rparr>)"

lemma drill_error_body: "drillErrorClass (Suc (Suc n)) (Encode (serviceErrorBody e)) = Some (ucast (fst (errorClassChoice e)), word_of_int (snd (errorClassChoice e)))"
  unfolding Encode_error_body(1) using drill_constructed [of "tlv (ContextPrimitive (fst (errorClassChoice e))) (int_octets (snd (errorClassChoice e)))" "Suc n" 0]
    Encode_error_body(3) [of e] drill_primitive [OF errorClassChoice_ok(2), of n] by simp

lemma dispatch_confirmed_error:
  "dispatch (Encode (Cons_el tagConfirmedError [Some (Prim (ContextPrimitive 0) (uint_octets (unat i))), Some (Cons_el (ContextConstructed 2) [Some (serviceErrorBody e)])]))
    = Deliver i (Failure \<lparr>se_Class = ucast (fst (errorClassChoice e)), se_Code = word_of_int (snd (errorClassChoice e)), se_Rejected = False\<rparr>)"
proof -
  let ?b = "tlv (ContextConstructed 2) (Encode (serviceErrorBody e))" and ?i = "tlv (ContextPrimitive 0) (uint_octets (unat i))"
  have l: "length (Encode (serviceErrorBody e)) < 100"
    using Encode_error_body(3) [of e] length_tlv_le(1) [of "ContextConstructed 0" "tlv (ContextPrimitive (fst (errorClassChoice e))) (int_octets (snd (errorClassChoice e)))"]
    unfolding Encode_error_body(1) by linarith
  have l2: "length (?i @ ?b) < 2 ^ 32" using l id_octets_short(2) [of "ContextPrimitive 0" i] length_tlv_le(1) [of "ContextConstructed 2" "Encode (serviceErrorBody e)"] by simp
  have e: "Encode (Cons_el tagConfirmedError [Some (Prim (ContextPrimitive 0) (uint_octets (unat i))), Some (Cons_el (ContextConstructed 2) [Some (serviceErrorBody e)])])
      = tlv tagConfirmedError (?i @ ?b)"
    using Encode_error_body(2) [of e] by (simp add: octets_simps mms_pdu_tags)
  have "decodeServiceError ?b = \<lparr>se_Class = ucast (fst (errorClassChoice e)), se_Code = word_of_int (snd (errorClassChoice e)), se_Rejected = False\<rparr>"
    using drill_constructed [of "Encode (serviceErrorBody e)" "Suc (Suc 6)" 2] drill_error_body [of "6" e] l by (simp add: decodeServiceError_def)
  moreover have "tagConfirmedError \<noteq> tagConfirmedResponse" by (simp add: mms_pdu_tags tags)
  ultimately show ?thesis unfolding e dispatch_def
    using l2 splitInvoke_octets [of "ContextPrimitive 0" i ?b] by (simp add: NewDecoder_at [of "tlv _ _"] codec_simps)
qed

lemma dispatch_reject:
  assumes "category < 2 ^ 28" "int64_ok code"
  shows "dispatch (encodeReject (Some i) category code) = Deliver i (Failure \<lparr>se_Class = ucast category, se_Code = word_of_int code, se_Rejected = True\<rparr>)"
proof -
  let ?i = "tlv (ContextPrimitive 0) (uint_octets (unat i))" and ?b = "tlv (ContextPrimitive category) (int_octets code)"
  have l: "length (uint_octets (unat i)) < 2 ^ 32" "length (int_octets code) < 2 ^ 32" "length (?i @ ?b) < 2 ^ 32" "?b \<noteq> []"
    using id_octets_short(1) [of i] id_octets_short(2) [of "ContextPrimitive 0" i] length_int_octets [OF assms(2)] length_tlv_le(1) [of "ContextPrimitive category" "int_octets code"] length_tlv_le(2) [of "int_octets code" "ContextPrimitive category"] by auto
  have e: "encodeReject (Some i) category code = tlv tagRejectPDU (?i @ ?b)"
    using assms(1) by (simp add: encodeReject_def Let_def octets_simps mms_pdu_tags)
  have "parseReject (?i @ ?b) = Inr (i, \<lparr>se_Class = ucast category, se_Code = word_of_int code, se_Rejected = True\<rparr>)"
    using l assms(2) by (simp add: parseReject_def NewDecoder_at [of "tlv _ _ @ _"] codec_simps optional_or_error_def Let_def)
  moreover have "tagRejectPDU \<noteq> tagConfirmedResponse" "tagRejectPDU \<noteq> tagConfirmedError" by (simp_all add: mms_pdu_tags tags)
  ultimately show ?thesis unfolding e dispatch_def using l(3) by (simp add: NewDecoder_at [of "tlv _ _"] codec_simps)
qed

lemma encodeError_eq:
  "encodeError i e = (case e of
     ServiceErr se \<Rightarrow> if se_Rejected se then encodeReject (Some i) (ucast (se_Class se)) (uint (se_Code se))
       else Encode (Cons_el tagConfirmedError [Some (Prim (ContextPrimitive 0) (uint_octets (unat i))), Some (Cons_el (ContextConstructed 2) [Some (serviceErrorBody e)])])
   | _ \<Rightarrow> Encode (Cons_el tagConfirmedError [Some (Prim (ContextPrimitive 0) (uint_octets (unat i))), Some (Cons_el (ContextConstructed 2) [Some (serviceErrorBody e)])]))"
  by (cases e) (simp_all add: encodeError_def encodeReject_def Add_Cons_el Let_def)

lemma dispatch_error: "dispatch (encodeError i e) = Deliver i (Failure (reported e))"
proof (cases "\<exists>se. e = ServiceErr se \<and> se_Rejected se")
  case True
  then obtain se where se: "e = ServiceErr se" "se_Rejected se" by blast
  have "(ucast (se_Class se) :: 32 word) < 2 ^ 28"
    using errorClassChoice_ok(1) [of "ServiceErr (se\<lparr>se_Class := if se_Class se = 0 then 1 else se_Class se\<rparr>)"] by (cases "se_Class se = 0") (simp_all add: errorClassChoice_def)
  then show ?thesis using dispatch_reject [of "ucast (se_Class se)" "uint (se_Code se)" i] se by (cases se) (simp add: encodeError_eq reported_def)
next
  case False
  then show ?thesis using dispatch_confirmed_error [of i e] by (cases e) (auto simp: encodeError_eq reported_def)
qed

lemma dispatch_response:
  assumes "el_ok resp" "length (Encode resp) < 2 ^ 31"
  shows "dispatch (encodeResponse i resp) = Deliver i (Reply (Encode resp))"
proof -
  let ?i = "tlv TagInteger (uint_octets (unat i))"
  have e: "encodeResponse i resp = tlv tagConfirmedResponse (?i @ Encode resp)" using assms(1) by (simp add: encodeResponse_def octets_simps mms_pdu_tags)
  have l: "length (?i @ Encode resp) < 2 ^ 32" using id_octets_short(2) [of TagInteger i] assms(2) by simp
  show ?thesis unfolding e dispatch_def using l splitInvoke_octets [of TagInteger i "Encode resp"] by (simp add: NewDecoder_at [of "tlv _ _"] codec_simps)
qed

lemma serverDispatch_request:
  assumes "el_ok service" "Encode service = tlv t c" "tag_ok t" "length c < 2 ^ 31"
  shows "serverDispatch (encodeRequest i service) = Handle i (Number t) c"
proof -
  let ?i = "tlv TagInteger (uint_octets (unat i))"
  have e: "encodeRequest i service = tlv tagConfirmedRequest (?i @ tlv t c)" using assms(1,2) by (simp add: encodeRequest_def octets_simps mms_pdu_tags)
  have l: "length (?i @ tlv t c) < 2 ^ 32" "length (uint_octets (unat i)) < 2 ^ 32" "length c < 2 ^ 32"
    using id_octets_short(1) [of i] id_octets_short(2) [of TagInteger i] assms(4) length_tlv_le(1) [of t c] by simp_all
  have "confirmedRequest (?i @ tlv t c) = Handle i (Number t) c"
    using l assms(3) word32_uint64(3) [of i] by (simp add: confirmedRequest_def NewDecoder_at [of "tlv _ _ @ _"] codec_simps not_less)
  then show ?thesis unfolding e serverDispatch_def using l(1) by (simp add: NewDecoder_at [of "tlv _ _"] codec_simps)
qed

lemma cancel_exchange:
  "\<exists>c. serverDispatch (encodeCancel i) = CancelRequest c \<and> DecodeUint c = Inr (unat i)"
  "dispatch (encodeCancelResponse i) = CancelAnswer i None"
  "dispatch (encodeCancelError i) = CancelAnswer i (Some \<lparr>se_Class = 10, se_Code = 1, se_Rejected = False\<rparr>)"
proof -
  have l: "length (uint_octets (unat i)) < 2 ^ 32" using id_octets_short(1) [of i] by simp
  have n: "Number tagCancelRequest < 2 ^ 28" "Number tagCancelResponse < 2 ^ 28" "\<not> Constructed tagCancelRequest" "\<not> Constructed tagCancelResponse" by (simp_all add: mms_pdu_tags)
  have e: "encodeCancel i = tlv tagCancelRequest (uint_octets (unat i))" "encodeCancelResponse i = tlv tagCancelResponse (uint_octets (unat i))"
    using n by (simp_all add: encodeCancel_def encodeCancelResponse_def octets_simps)
  have d: "tagCancelRequest \<noteq> tagConfirmedRequest" "tagCancelRequest \<noteq> tagConfirmedResponse" "tagCancelRequest \<noteq> tagConfirmedError" "tagCancelRequest \<noteq> tagRejectPDU"
    "tagCancelResponse \<noteq> tagConfirmedResponse" "tagCancelResponse \<noteq> tagConfirmedError" "tagCancelResponse \<noteq> tagRejectPDU" "tagCancelResponse \<noteq> tagUnconfirmed"
    "tagCancelResponse \<noteq> tagConcludeResponse" "tagCancelResponse \<noteq> tagConcludeResponseLegacy"
    "tagCancelError \<noteq> tagConfirmedResponse" "tagCancelError \<noteq> tagConfirmedError" "tagCancelError \<noteq> tagRejectPDU" "tagCancelError \<noteq> tagUnconfirmed"
    "tagCancelError \<noteq> tagConcludeResponse" "tagCancelError \<noteq> tagConcludeResponseLegacy" "tagCancelError \<noteq> tagCancelResponse"
    by (simp_all add: mms_pdu_tags tags)
  show "\<exists>c. serverDispatch (encodeCancel i) = CancelRequest c \<and> DecodeUint c = Inr (unat i)"
    unfolding e serverDispatch_def using l d by (simp add: NewDecoder_at [of "tlv _ _"] codec_simps)
  show "dispatch (encodeCancelResponse i) = CancelAnswer i None"
    unfolding e dispatch_def using l d by (simp add: NewDecoder_at [of "tlv _ _"] codec_simps parseCancelAnswer_def)
  let ?e = "ServiceErr \<lparr>se_Class = 10, se_Code = 1, se_Rejected = False\<rparr>"
  let ?i = "tlv (ContextPrimitive 0) (uint_octets (unat i))" and ?b = "tlv (ContextConstructed 1) (Encode (serviceErrorBody ?e))"
  have le: "length (Encode (serviceErrorBody ?e)) < 100"
    using Encode_error_body(3) [of ?e] length_tlv_le(1) [of "ContextConstructed 0" "tlv (ContextPrimitive (fst (errorClassChoice ?e))) (int_octets (snd (errorClassChoice ?e)))"]
    unfolding Encode_error_body(1) by linarith
  have ce: "encodeCancelError i = tlv tagCancelError (?i @ ?b)" using Encode_error_body(2) [of ?e] by (simp add: encodeCancelError_def octets_simps mms_pdu_tags)
  have l2: "length (?i @ ?b) < 2 ^ 32" using le id_octets_short(2) [of "ContextPrimitive 0" i] length_tlv_le(1) [of "ContextConstructed 1" "Encode (serviceErrorBody ?e)"] by simp
  have "drillErrorClass 9 ?b = Some (10, 1)"
    using drill_constructed [of "Encode (serviceErrorBody ?e)" "Suc (Suc 6)" 1] drill_error_body [of "6" ?e] le by (simp add: errorClassChoice_def)
  then show "dispatch (encodeCancelError i) = CancelAnswer i (Some \<lparr>se_Class = 10, se_Code = 1, se_Rejected = False\<rparr>)"
    unfolding ce dispatch_def using l2 l d by (simp add: NewDecoder_at [of "tlv _ _"] NewDecoder_at [of "tlv _ _ @ _"] codec_simps parseCancelAnswer_def)
qed

section \<open>Properties\<close>

text \<open>(C17) A confirmed exchange is matched by its invoke identifier. The server's loop reads from a client's request the identifier, the service
  and its content; from the server's response the client takes the encoded service under the same identifier; and from its error
  the class and code the handler's error maps to, a rejection when it was rejected, never a response.\<close>

theorem confirmed_exchange:
  assumes "el_ok service" "Encode service = tlv t c" "tag_ok t" "length c < 2 ^ 31" "el_ok resp" "length (Encode resp) < 2 ^ 31"
  shows "serverDispatch (encodeRequest i service) = Handle i (Number t) c \<and> dispatch (encodeResponse i resp) = Deliver i (Reply (Encode resp))
    \<and> dispatch (encodeError i err) = Deliver i (Failure (reported err))"
  using serverDispatch_request [OF assms(1-4)] dispatch_response [OF assms(5,6)] dispatch_error by blast

theorem confirmed_exchange_witness:
  "serverDispatch (encodeRequest 7 (BoolElem (ContextPrimitive 0) False)) = Handle 7 0 [0]
    \<and> dispatch (encodeError 7 (DataAccessErr AccessObjectNonExistent)) = Deliver 7 (Failure \<lparr>se_Class = 7, se_Code = 2, se_Rejected = False\<rparr>)"
  using confirmed_exchange [of "BoolElem (ContextPrimitive 0) False" "ContextPrimitive 0" "[0]" "Prim (ContextPrimitive 2) []" 7 "DataAccessErr AccessObjectNonExistent"]
    length_tlv_le(1) [of "ContextPrimitive 2" "[]"]
  by (simp add: octets_simps reported_def errorClassChoice_def access_codes)

end
