(* ===== verification/MmsConn.thy ===== *)
theory MmsConn
  imports MmsDispatch
begin

text \<open>
  A client's association (\<^verbatim>\<open>Conn\<close> of \<^verbatim>\<open>mms/conn.go\<close> and \<^verbatim>\<open>mms/client_ext.go\<close>): goroutines issue confirmed requests, the reader
  matches the answers to them, and the association ends by \<^verbatim>\<open>Close\<close>, \<^verbatim>\<open>Abort\<close> or the transport. The critical sections of
  the code are functions on the state, and \<open>step\<close> interleaves them with the sends and receives on channels, which may
  block: a \<^verbatim>\<open>chan\<close> of capacity 1 is an optional message. Calls and cancels are numbered in the order they were started;
  the number stands for the channel \<^verbatim>\<open>make(chan ..., 1)\<close> returns. \<open>cn_log\<close> records the PDUs read; the code does not keep it.
\<close>

section \<open>State\<close>

datatype State = StateClosed | StateConnecting | StateConnected | StateClosing

datatype conn_error = NetErrClosed | ConnErrAborted | ReadError nat

datatype outcome = Answer reply | Lost conn_error

datatype chan = CallCh nat | CancelCh nat

datatype msg = CallMsg outcome | CancelMsg "ServiceError option"

datatype call_state = NotStarted | Sending "32 word" | Waiting "32 word" | Collected msg | GivenUp

text \<open>\<open>Returning\<close> is a \<^verbatim>\<open>Cancel\<close> that has its answer and has yet to run its deferred function.\<close>

datatype cancel_state = NoCancel | Cancelling "32 word" | Returning "32 word" | Cancelled

datatype reader = Reading | Delivering "(chan \<times> msg) list" bool | ReaderDone

record Conn =
  cn_state :: State
  cn_closeErr :: "conn_error option"
  cn_nextID :: "32 word"
  cn_pending :: "32 word \<Rightarrow> nat option"
  cn_cancels :: "32 word \<Rightarrow> nat option"
  cn_ncalls :: nat
  cn_ncancels :: nat
  cn_call :: "nat \<Rightarrow> call_state"
  cn_cancel :: "nat \<Rightarrow> cancel_state"
  cn_buf :: "chan \<Rightarrow> msg option"
  cn_reader :: reader
  cn_log :: "byte list list"

definition startConn :: Conn where
  "startConn = \<lparr>cn_state = StateConnected, cn_closeErr = None, cn_nextID = 1, cn_pending = Map.empty, cn_cancels = Map.empty,
     cn_ncalls = 0, cn_ncancels = 0, cn_call = (\<lambda>_. NotStarted), cn_cancel = (\<lambda>_. NoCancel), cn_buf = (\<lambda>_. None), cn_reader = Reading, cn_log = []\<rparr>"

definition conn_Err :: "Conn \<Rightarrow> conn_error option" where
  "conn_Err c = (if cn_state c = StateConnected \<or> cn_state c = StateConnecting then None else cn_closeErr c)"

section \<open>Critical sections\<close>

text \<open>\<^verbatim>\<open>StartContext\<close> up to sending: the error of an association that is not up, or the call registered.\<close>

definition start_call :: "Conn \<Rightarrow> conn_error option + Conn" where
  "start_call c =
     (if cn_state c \<noteq> StateConnected then Inl (cn_closeErr c)
      else let i = cn_nextID c; n = cn_ncalls c in
        Inr (c\<lparr>cn_nextID := i + 1, cn_pending := (cn_pending c)(i := Some n), cn_ncalls := Suc n, cn_call := (cn_call c)(n := Sending i)\<rparr>))"

definition forget_call :: "32 word \<Rightarrow> Conn \<Rightarrow> Conn" where
  "forget_call i c = c\<lparr>cn_pending := (cn_pending c)(i := None)\<rparr>"

definition start_cancel :: "32 word \<Rightarrow> Conn \<Rightarrow> conn_error option + Conn" where
  "start_cancel i c =
     (if cn_state c \<noteq> StateConnected then Inl (cn_closeErr c)
      else if cn_cancels c i \<noteq> None then Inl None
      else let n = cn_ncancels c in
        Inr (c\<lparr>cn_cancels := (cn_cancels c)(i := Some n), cn_ncancels := Suc n, cn_cancel := (cn_cancel c)(n := Cancelling i)\<rparr>))"

definition end_cancel :: "32 word \<Rightarrow> nat \<Rightarrow> Conn \<Rightarrow> Conn" where
  "end_cancel i n c = c\<lparr>cn_cancels := (cn_cancels c)(i := None), cn_cancel := (cn_cancel c)(n := Cancelled)\<rparr>"

definition deliver :: "32 word \<Rightarrow> reply \<Rightarrow> Conn \<Rightarrow> Conn" where
  "deliver i r c =
     (case cn_pending c i of
        None \<Rightarrow> c
      | Some n \<Rightarrow> c\<lparr>cn_pending := (cn_pending c)(i := None), cn_reader := Delivering [(CallCh n, CallMsg (Answer r))] False\<rparr>)"

definition deliverCancel :: "32 word \<Rightarrow> ServiceError option \<Rightarrow> Conn \<Rightarrow> Conn" where
  "deliverCancel i e c =
     (case cn_cancels c i of
        None \<Rightarrow> c
      | Some n \<Rightarrow> c\<lparr>cn_reader := Delivering [(CancelCh n, CancelMsg e)] False\<rparr>)"

definition read_pdu :: "byte list \<Rightarrow> Conn \<Rightarrow> Conn" where
  "read_pdu pdu c =
     (let c = c\<lparr>cn_log := cn_log c @ [pdu]\<rparr> in
      case dispatch pdu of
        Deliver i r \<Rightarrow> deliver i r c
      | CancelAnswer i e \<Rightarrow> deliverCancel i e c
      | _ \<Rightarrow> c)"

text \<open>\<^verbatim>\<open>failAll\<close>: the map is emptied under the lock and its channels, in any order, are then sent the error.\<close>

definition failAll :: "conn_error \<Rightarrow> nat list \<Rightarrow> Conn \<Rightarrow> Conn" where
  "failAll e ns c =
     (let closeErr = (if cn_state c = StateConnected then Some e else cn_closeErr c) in
      c\<lparr>cn_state := StateClosed, cn_closeErr := closeErr, cn_pending := Map.empty,
        cn_reader := Delivering (map (\<lambda>n. (CallCh n, CallMsg (Lost (the closeErr)))) ns) True\<rparr>)"

definition close_begin :: "conn_error \<Rightarrow> Conn \<Rightarrow> Conn" where
  "close_begin cause c = (if cn_state c \<noteq> StateConnected then c else c\<lparr>cn_state := StateClosing, cn_closeErr := Some cause\<rparr>)"

definition close_end :: "Conn \<Rightarrow> Conn" where
  "close_end c = c\<lparr>cn_state := StateClosed\<rparr>"

section \<open>Interleaving\<close>

inductive step :: "Conn \<Rightarrow> Conn \<Rightarrow> bool" where
  Start: "start_call c = Inr c' \<Longrightarrow> step c c'"
| Sent: "cn_call c n = Sending i \<Longrightarrow> step c (c\<lparr>cn_call := (cn_call c)(n := Waiting i)\<rparr>)"
| SendFailed: "cn_call c n = Sending i \<Longrightarrow> step c ((forget_call i c)\<lparr>cn_call := (cn_call c)(n := GivenUp)\<rparr>)"
| WaitEnds: "cn_call c n = Waiting i \<Longrightarrow> step c ((forget_call i c)\<lparr>cn_call := (cn_call c)(n := GivenUp)\<rparr>)"
| Collect: "cn_call c n = Waiting i \<Longrightarrow> cn_buf c (CallCh n) = Some m \<Longrightarrow>
    step c (c\<lparr>cn_buf := (cn_buf c)(CallCh n := None), cn_call := (cn_call c)(n := Collected m)\<rparr>)"
| CancelStart: "start_cancel i c = Inr c' \<Longrightarrow> step c c'"
| CancelGaveUp: "cn_cancel c n = Cancelling i \<Longrightarrow> step c (end_cancel i n c)"
| CancelCollect: "cn_cancel c n = Cancelling i \<Longrightarrow> cn_buf c (CancelCh n) = Some m \<Longrightarrow>
    step c (c\<lparr>cn_buf := (cn_buf c)(CancelCh n := None), cn_cancel := (cn_cancel c)(n := Returning i)\<rparr>)"
| CancelReturn: "cn_cancel c n = Returning i \<Longrightarrow> step c (end_cancel i n c)"
| Read: "cn_reader c = Reading \<Longrightarrow> step c (read_pdu pdu c)"
| ReadFails: "cn_reader c = Reading \<Longrightarrow> distinct ns \<Longrightarrow> set ns = ran (cn_pending c) \<Longrightarrow> step c (failAll e ns c)"
| Push: "cn_reader c = Delivering ((ch, m) # rest) b \<Longrightarrow> cn_buf c ch = None \<Longrightarrow>
    step c (c\<lparr>cn_buf := (cn_buf c)(ch := Some m), cn_reader := Delivering rest b\<rparr>)"
| ReadOn: "cn_reader c = Delivering [] False \<Longrightarrow> step c (c\<lparr>cn_reader := Reading\<rparr>)"
| ReaderEnds: "cn_reader c = Delivering [] True \<Longrightarrow> step c (c\<lparr>cn_reader := ReaderDone\<rparr>)"
| CloseBegins: "step c (close_begin cause c)"
| CloseEnds: "cn_reader c = ReaderDone \<Longrightarrow> step c (close_end c)"

inductive reachable :: "Conn \<Rightarrow> bool" where
  init: "reachable startConn"
| step: "reachable c \<Longrightarrow> step c c' \<Longrightarrow> reachable c'"

section \<open>Invariants\<close>

definition call_id :: "nat \<Rightarrow> 32 word" where
  "call_id n = word_of_nat (Suc n)"

definition delivering :: "Conn \<Rightarrow> (chan \<times> msg) list" where
  "delivering c = (case cn_reader c of Delivering xs _ \<Rightarrow> xs | _ \<Rightarrow> [])"

lemma delivering_simps [simp]:
  "delivering (c\<lparr>cn_reader := Delivering xs b\<rparr>) = xs" "delivering (c\<lparr>cn_reader := Reading\<rparr>) = []" "delivering (c\<lparr>cn_reader := ReaderDone\<rparr>) = []"
  "delivering (c\<lparr>cn_state := st\<rparr>) = delivering c" "delivering (c\<lparr>cn_closeErr := ce\<rparr>) = delivering c" "delivering (c\<lparr>cn_nextID := w\<rparr>) = delivering c"
  "delivering (c\<lparr>cn_pending := p\<rparr>) = delivering c" "delivering (c\<lparr>cn_cancels := p\<rparr>) = delivering c" "delivering (c\<lparr>cn_ncalls := k\<rparr>) = delivering c"
  "delivering (c\<lparr>cn_ncancels := k\<rparr>) = delivering c" "delivering (c\<lparr>cn_call := f\<rparr>) = delivering c" "delivering (c\<lparr>cn_cancel := g\<rparr>) = delivering c"
  "delivering (c\<lparr>cn_buf := b'\<rparr>) = delivering c" "delivering (c\<lparr>cn_log := l\<rparr>) = delivering c"
  by (simp_all add: delivering_def)

definition active :: "Conn \<Rightarrow> nat \<Rightarrow> 32 word \<Rightarrow> bool" where
  "active c n i = (cn_call c n = Sending i \<or> cn_call c n = Waiting i)"

text \<open>A channel is in the map, on its way to be sent to, or has been: never in two of these places.\<close>

definition chan_inv :: "Conn \<Rightarrow> bool" where
  "chan_inv c =
     (cn_nextID c = call_id (cn_ncalls c)
      \<and> (\<forall>n \<ge> cn_ncalls c. cn_call c n = NotStarted \<and> cn_buf c (CallCh n) = None)
      \<and> (\<forall>n i. active c n i \<longrightarrow> i = call_id n)
      \<and> (\<forall>i n. cn_pending c i = Some n \<longrightarrow> n < cn_ncalls c \<and> active c n i \<and> cn_buf c (CallCh n) = None \<and> CallCh n \<notin> fst ` set (delivering c))
      \<and> (\<forall>n. CallCh n \<in> fst ` set (delivering c) \<longrightarrow> n < cn_ncalls c \<and> cn_buf c (CallCh n) = None)
      \<and> distinct (map fst (delivering c)))"

lemma chan_invD:
  assumes "chan_inv c"
  shows "cn_nextID c = call_id (cn_ncalls c)" "cn_ncalls c \<le> n \<Longrightarrow> cn_call c n = NotStarted" "cn_ncalls c \<le> n \<Longrightarrow> cn_buf c (CallCh n) = None"
    "active c n i \<Longrightarrow> i = call_id n"
    "cn_pending c i = Some n \<Longrightarrow> n < cn_ncalls c" "cn_pending c i = Some n \<Longrightarrow> active c n i" "cn_pending c i = Some n \<Longrightarrow> cn_buf c (CallCh n) = None"
    "cn_pending c i = Some n \<Longrightarrow> (CallCh n, m) \<notin> set (delivering c)" "cn_pending c i = Some n \<Longrightarrow> i = call_id n"
    "(CallCh n, m) \<in> set (delivering c) \<Longrightarrow> n < cn_ncalls c" "(CallCh n, m) \<in> set (delivering c) \<Longrightarrow> cn_buf c (CallCh n) = None"
    "distinct (map fst (delivering c))"
proof -
  note v = assms [unfolded chan_inv_def]
  show "cn_nextID c = call_id (cn_ncalls c)" "distinct (map fst (delivering c))" using v by simp_all
  show "cn_ncalls c \<le> n \<Longrightarrow> cn_call c n = NotStarted" "cn_ncalls c \<le> n \<Longrightarrow> cn_buf c (CallCh n) = None" using v by simp_all
  show a: "active c n i \<Longrightarrow> i = call_id n" using v by simp
  assume p: "cn_pending c i = Some n"
  have "n < cn_ncalls c \<and> active c n i \<and> cn_buf c (CallCh n) = None \<and> CallCh n \<notin> fst ` set (delivering c)" using v p by simp
  then show "n < cn_ncalls c" "active c n i" "cn_buf c (CallCh n) = None" "(CallCh n, m) \<notin> set (delivering c)" "i = call_id n" using a by (auto simp: image_iff)
next
  assume "(CallCh n, m) \<in> set (delivering c)"
  then have "CallCh n \<in> fst ` set (delivering c)" by force
  then show "n < cn_ncalls c" "cn_buf c (CallCh n) = None" using assms by (simp_all add: chan_inv_def)
qed

lemma active_lt: "chan_inv c \<Longrightarrow> active c n i \<Longrightarrow> n < cn_ncalls c"
  using chan_invD(2) [of c n] by (fastforce simp: active_def not_less)

lemma chan_inv_init: "chan_inv startConn"
  by (simp add: chan_inv_def startConn_def call_id_def delivering_def active_def)

lemma chan_inv_step: "step c c' \<Longrightarrow> chan_inv c \<Longrightarrow> chan_inv c'"
proof (induction rule: step.induct)
  case (Start c c')
  then have c': "cn_state c = StateConnected" "c' = c\<lparr>cn_nextID := cn_nextID c + 1, cn_pending := (cn_pending c)(cn_nextID c := Some (cn_ncalls c)),
      cn_ncalls := Suc (cn_ncalls c), cn_call := (cn_call c)(cn_ncalls c := Sending (cn_nextID c))\<rparr>"
    by (auto simp: start_call_def Let_def split: if_splits)
  have n: "CallCh (cn_ncalls c) \<notin> fst ` set (delivering c)" using chan_invD(10) [OF Start(2)] by force
  have b: "cn_buf c (CallCh (cn_ncalls c)) = None" using chan_invD(3) [OF Start(2)] by simp
  show ?case using Start(2) n b unfolding c'(2) chan_inv_def by (auto simp: active_def call_id_def less_Suc_eq)
next
  case (Sent c n i)
  have "i' = i" if "cn_pending c i' = Some n" for i' using chan_invD(6,9) [OF Sent(2) that] chan_invD(4) [OF Sent(2), of n i] Sent(1) by (simp add: active_def)
  then show ?case using Sent unfolding chan_inv_def by (auto simp: active_def)
next
  case (SendFailed c n i)
  have "i' = i" if "cn_pending c i' = Some n" for i' using chan_invD(6,9) [OF SendFailed(2) that] chan_invD(4) [OF SendFailed(2), of n i] SendFailed(1) by (simp add: active_def)
  then show ?case using SendFailed unfolding chan_inv_def forget_call_def by (auto simp: active_def split: if_splits)
next
  case (WaitEnds c n i)
  have "i' = i" if "cn_pending c i' = Some n" for i' using chan_invD(6,9) [OF WaitEnds(2) that] chan_invD(4) [OF WaitEnds(2), of n i] WaitEnds(1) by (simp add: active_def)
  then show ?case using WaitEnds unfolding chan_inv_def forget_call_def by (auto simp: active_def split: if_splits)
next
  case (Collect c n i m)
  then have "cn_pending c i' \<noteq> Some n" for i' using chan_invD(7) [OF Collect(3), of i' n] by auto
  then show ?case using Collect unfolding chan_inv_def by (auto simp: active_def)
next
  case (CancelStart i c c')
  then have "c' = c\<lparr>cn_cancels := (cn_cancels c)(i := Some (cn_ncancels c)), cn_ncancels := Suc (cn_ncancels c), cn_cancel := (cn_cancel c)(cn_ncancels c := Cancelling i)\<rparr>"
    by (auto simp: start_cancel_def Let_def split: if_splits)
  then show ?case using CancelStart(2) by (simp add: chan_inv_def active_def)
next
  case (CancelCollect c n i m)
  then show ?case unfolding chan_inv_def by (auto simp: active_def)
next
  case (Read c pdu)
  have d: "delivering c = []" using Read(1) by (simp add: delivering_def)
  show ?case
  proof (cases "dispatch pdu")
    case (Deliver i r)
    show ?thesis
    proof (cases "cn_pending c i")
      case None
      then show ?thesis using Read(2) Deliver by (simp add: read_pdu_def deliver_def Let_def chan_inv_def active_def)
    next
      case (Some n)
      have "n' \<noteq> n" if "cn_pending c i' = Some n'" "i' \<noteq> i" for i' n' using chan_invD(9) [OF Read(2) that(1)] chan_invD(9) [OF Read(2) Some] that(2) by auto
      then show ?thesis using Read(2) Deliver Some d chan_invD(5,7) [OF Read(2) Some] unfolding chan_inv_def
        by (auto simp: read_pdu_def deliver_def Let_def active_def split: if_splits)
    qed
  next
    case (CancelAnswer i e)
    then show ?thesis using Read(2) d by (cases "cn_cancels c i") (simp_all add: read_pdu_def deliverCancel_def Let_def chan_inv_def active_def)
  qed (use Read(2) in \<open>simp_all add: read_pdu_def Let_def chan_inv_def active_def\<close>)
next
  case (ReadFails c ns e)
  have "n < cn_ncalls c \<and> cn_buf c (CallCh n) = None" if "n \<in> set ns" for n
    using that ReadFails(3) chan_invD(5,7) [OF ReadFails(4)] by (auto simp: ran_def)
  moreover have "inj_on CallCh (set ns)" by (simp add: inj_on_def)
  ultimately show ?case using ReadFails(2,4) unfolding chan_inv_def failAll_def Let_def by (auto simp: active_def distinct_map comp_def)
next
  case (Push c ch m rest b)
  have d: "delivering c = (ch, m) # rest" using Push(1) by (simp add: delivering_def)
  then have "ch \<notin> fst ` set rest" using chan_invD(12) [OF Push(3)] by simp
  then show ?case using Push d unfolding chan_inv_def by (auto simp: active_def)
next
  case (ReadOn c)
  then show ?case unfolding chan_inv_def by (auto simp: active_def delivering_def)
next
  case (ReaderEnds c)
  then show ?case unfolding chan_inv_def by (auto simp: active_def delivering_def)
qed (auto simp: chan_inv_def active_def end_cancel_def close_begin_def close_end_def)

lemma reachable_chan_inv: "reachable c \<Longrightarrow> chan_inv c"
  by (induction rule: reachable.induct) (auto intro: chan_inv_init chan_inv_step)

text \<open>The association ends once, for the first cause.\<close>

definition final :: "Conn \<Rightarrow> bool" where
  "final c = (cn_reader c = ReaderDone \<or> (\<exists>xs. cn_reader c = Delivering xs True))"

definition end_inv :: "Conn \<Rightarrow> bool" where
  "end_inv c =
     (cn_state c \<noteq> StateConnecting \<and> (cn_state c = StateConnected \<longleftrightarrow> cn_closeErr c = None)
      \<and> (cn_state c = StateClosed \<longleftrightarrow> final c) \<and> (final c \<longrightarrow> cn_pending c = Map.empty))"

lemma read_pdu_simps [simp]:
  "cn_state (read_pdu pdu c) = cn_state c" "cn_closeErr (read_pdu pdu c) = cn_closeErr c" "cn_call (read_pdu pdu c) = cn_call c" "cn_ncalls (read_pdu pdu c) = cn_ncalls c"
  "cn_buf (read_pdu pdu c) = cn_buf c" "cn_cancel (read_pdu pdu c) = cn_cancel c" "cn_log (read_pdu pdu c) = cn_log c @ [pdu]"
  by (simp_all add: read_pdu_def deliver_def deliverCancel_def Let_def split: dispatched.split option.split)

lemma read_pdu_final: "cn_reader c = Reading \<Longrightarrow> \<not> final (read_pdu pdu c)"
  by (auto simp: final_def read_pdu_def deliver_def deliverCancel_def Let_def split: dispatched.split option.split)

lemma end_inv_step: "step c c' \<Longrightarrow> end_inv c \<Longrightarrow> end_inv c'"
proof (induction rule: step.induct)
  case (Read c pdu)
  then have "\<not> final c" by (simp add: final_def)
  then show ?case using Read read_pdu_final [of c pdu] by (auto simp: end_inv_def)
next
  case (ReadFails c ns e)
  then show ?case by (auto simp: end_inv_def failAll_def Let_def final_def)
qed (auto simp: end_inv_def final_def start_call_def start_cancel_def forget_call_def end_cancel_def close_begin_def close_end_def Let_def split: if_splits)

lemma reachable_end_inv: "reachable c \<Longrightarrow> end_inv c"
proof (induction rule: reachable.induct)
  case init
  show ?case by (simp add: end_inv_def startConn_def final_def)
qed (auto intro: end_inv_step)

lemma step_monotone:
  assumes "step c c'" "end_inv c"
  shows "set (cn_log c) \<subseteq> set (cn_log c') \<and> (cn_state c \<noteq> StateConnected \<longrightarrow> cn_state c' \<noteq> StateConnected \<and> cn_closeErr c' = cn_closeErr c)
    \<and> (cn_state c = StateClosed \<longrightarrow> cn_state c' = StateClosed) \<and> cn_ncalls c \<le> cn_ncalls c'"
  using assms
  by (induction rule: step.induct)
    (auto simp: end_inv_def final_def start_call_def start_cancel_def forget_call_def end_cancel_def close_begin_def close_end_def failAll_def Let_def split: if_splits)

text \<open>What reaches a call: the answer of a PDU that carried its invoke identifier, or the cause the association ended for.\<close>

definition legit :: "Conn \<Rightarrow> nat \<Rightarrow> msg \<Rightarrow> bool" where
  "legit c n m =
     (case m of
        CallMsg (Answer r) \<Rightarrow> \<exists>pdu \<in> set (cn_log c). dispatch pdu = Deliver (call_id n) r
      | CallMsg (Lost e) \<Rightarrow> cn_state c = StateClosed \<and> cn_closeErr c = Some e
      | CancelMsg _ \<Rightarrow> False)"

definition msg_inv :: "Conn \<Rightarrow> bool" where
  "msg_inv c = (\<forall>n m. cn_buf c (CallCh n) = Some m \<or> (CallCh n, m) \<in> set (delivering c) \<or> cn_call c n = Collected m \<longrightarrow> legit c n m)"

lemma legit_step: "step c c' \<Longrightarrow> end_inv c \<Longrightarrow> legit c n m \<Longrightarrow> legit c' n m"
  using step_monotone [of c c'] unfolding legit_def by (fastforce split: msg.splits outcome.splits)

lemma msg_inv_step:
  assumes st: "step c c'" and inv: "end_inv c" "chan_inv c" "msg_inv c"
  shows "msg_inv c'"
proof -
  have keep: "legit c' n m" if "cn_buf c (CallCh n) = Some m \<or> (CallCh n, m) \<in> set (delivering c) \<or> cn_call c n = Collected m" for n m
    using inv(3) that legit_step [OF st inv(1)] unfolding msg_inv_def by blast
  have "legit c' n m" if "cn_buf c' (CallCh n) = Some m \<or> (CallCh n, m) \<in> set (delivering c') \<or> cn_call c' n = Collected m" for n m
    using st that keep inv
  proof (induction rule: step.induct)
    case (Start c c')
    then show ?case by (auto simp: start_call_def Let_def split: if_splits)
  next
    case (CancelStart i c c')
    then show ?case by (auto simp: start_cancel_def Let_def split: if_splits)
  next
    case (Read c pdu)
    have d: "delivering c = []" using Read(1) by (simp add: delivering_def)
    show ?case
    proof (cases "\<exists>i r k. dispatch pdu = Deliver i r \<and> cn_pending c i = Some k")
      case True
      then obtain i r k where k: "dispatch pdu = Deliver i r" "cn_pending c i = Some k" by blast
      have "i = call_id k" using chan_invD(9) [OF Read(5) k(2)] .
      then have "legit (read_pdu pdu c) k (CallMsg (Answer r))" using k by (auto simp: legit_def)
      moreover have "delivering (read_pdu pdu c) = [(CallCh k, CallMsg (Answer r))]" using k by (simp add: read_pdu_def deliver_def Let_def)
      ultimately show ?thesis using Read(2,3) d by auto
    next
      case False
      then have "(CallCh n, m) \<notin> set (delivering (read_pdu pdu c))"
        using d by (auto simp: read_pdu_def deliver_def deliverCancel_def Let_def split: dispatched.splits option.splits)
      then show ?thesis using Read(2,3) by auto
    qed
  next
    case (ReadFails c ns e)
    let ?c' = "failAll e ns c"
    have ce: "cn_state ?c' = StateClosed" "cn_closeErr ?c' = Some (the (cn_closeErr ?c'))" using ReadFails(6) by (auto simp: failAll_def Let_def end_inv_def)
    have "m = CallMsg (Lost (the (cn_closeErr ?c')))" if "(CallCh n, m) \<in> set (delivering ?c')" using that by (auto simp: failAll_def Let_def)
    then have "legit ?c' n m" if "(CallCh n, m) \<in> set (delivering ?c')" using that ce by (simp add: legit_def)
    moreover have "cn_buf ?c' = cn_buf c" "cn_call ?c' = cn_call c" by (simp_all add: failAll_def Let_def)
    ultimately show ?case using ReadFails(4,5) by metis
  qed (auto simp: start_call_def start_cancel_def forget_call_def end_cancel_def close_begin_def close_end_def Let_def delivering_def split: if_splits)
  then show ?thesis by (simp add: msg_inv_def)
qed

lemma reachable_msg_inv: "reachable c \<Longrightarrow> msg_inv c"
proof (induction rule: reachable.induct)
  case init
  show ?case by (simp add: msg_inv_def startConn_def delivering_def)
next
  case (step c c')
  then show ?case using msg_inv_step reachable_end_inv reachable_chan_inv by blast
qed

text \<open>No call is forgotten while the invoke identifiers do not wrap around.\<close>

lemma call_id_inj: "n < 2 ^ 32 \<Longrightarrow> k < 2 ^ 32 \<Longrightarrow> call_id n = call_id k \<Longrightarrow> n = k"
proof -
  assume b: "n < 2 ^ 32" "k < 2 ^ 32" and "call_id n = call_id k"
  then have "(word_of_nat n :: 32 word) = word_of_nat k" by (simp add: call_id_def)
  then have "unat (word_of_nat n :: 32 word) = unat (word_of_nat k :: 32 word)" by simp
  then show "n = k" using b by (simp add: unat_of_nat)
qed

definition held :: "Conn \<Rightarrow> nat \<Rightarrow> bool" where
  "held c n = (cn_pending c (call_id n) = Some n \<or> CallCh n \<in> fst ` set (delivering c) \<or> cn_buf c (CallCh n) \<noteq> None)"

definition wait_inv :: "Conn \<Rightarrow> bool" where
  "wait_inv c = (cn_ncalls c \<le> 2 ^ 32 \<longrightarrow> (\<forall>n i. active c n i \<longrightarrow> held c n))"

lemma held_same [simp]:
  "held (end_cancel i k c) n = held c n" "held (close_begin e c) n = held c n" "held (close_end c) n = held c n"
  "active (end_cancel i k c) n j = active c n j" "active (close_begin e c) n j = active c n j" "active (close_end c) n j = active c n j"
  "cn_ncalls (end_cancel i k c) = cn_ncalls c" "cn_ncalls (close_begin e c) = cn_ncalls c" "cn_ncalls (close_end c) = cn_ncalls c"
  by (simp_all add: held_def active_def end_cancel_def close_begin_def close_end_def)

lemma wait_inv_step:
  assumes st: "step c c'" and inv: "chan_inv c" "wait_inv c" and ne: "cn_ncalls c' \<le> 2 ^ 32"
  shows "\<And>n i. active c' n i \<Longrightarrow> held c' n"
  using st inv ne
proof (induction rule: step.induct)
  case (Start c c' n i)
  then have c': "c' = c\<lparr>cn_nextID := cn_nextID c + 1, cn_pending := (cn_pending c)(cn_nextID c := Some (cn_ncalls c)),
      cn_ncalls := Suc (cn_ncalls c), cn_call := (cn_call c)(cn_ncalls c := Sending (cn_nextID c))\<rparr>"
    by (auto simp: start_call_def Let_def split: if_splits)
  have id: "cn_nextID c = call_id (cn_ncalls c)" using chan_invD(1) [OF Start(3)] .
  show ?case
  proof (cases "n = cn_ncalls c")
    case True
    then show ?thesis by (simp add: c' held_def id)
  next
    case False
    then have a: "active c n i" using Start(2) by (simp add: c' active_def)
    then have "held c n" "n < cn_ncalls c" using Start(4,5) active_lt [OF Start(3) a] by (auto simp: wait_inv_def c')
    moreover have "call_id n \<noteq> call_id (cn_ncalls c)" using call_id_inj [of n "cn_ncalls c"] \<open>n < cn_ncalls c\<close> Start(5) by (auto simp: c')
    ultimately show ?thesis by (auto simp: held_def c' id)
  qed
next
  case (Sent c k j n i)
  then have "active c n (if n = k then j else i)" by (auto simp: active_def split: if_splits)
  then show ?case using Sent by (auto simp: wait_inv_def held_def)
next
  case (SendFailed c k j n i)
  then have a: "active c n i" "n \<noteq> k" "active c k j" by (auto simp: active_def forget_call_def split: if_splits)
  then have "call_id n \<noteq> j" using call_id_inj [of n k] chan_invD(4) [OF SendFailed(3) a(3)] active_lt [OF SendFailed(3) a(1)] active_lt [OF SendFailed(3) a(3)] SendFailed(5)
    by (auto simp: forget_call_def)
  then show ?case using SendFailed(4,5) a by (auto simp: wait_inv_def held_def forget_call_def)
next
  case (WaitEnds c k j n i)
  then have a: "active c n i" "n \<noteq> k" "active c k j" by (auto simp: active_def forget_call_def split: if_splits)
  then have "call_id n \<noteq> j" using call_id_inj [of n k] chan_invD(4) [OF WaitEnds(3) a(3)] active_lt [OF WaitEnds(3) a(1)] active_lt [OF WaitEnds(3) a(3)] WaitEnds(5)
    by (auto simp: forget_call_def)
  then show ?case using WaitEnds(4,5) a by (auto simp: wait_inv_def held_def forget_call_def)
next
  case (Collect c k j m n i)
  then have "active c n i" "n \<noteq> k" by (auto simp: active_def split: if_splits)
  then show ?case using Collect by (auto simp: wait_inv_def held_def)
next
  case (CancelStart j c c' n i)
  then have c': "c' = c\<lparr>cn_cancels := (cn_cancels c)(j := Some (cn_ncancels c)), cn_ncancels := Suc (cn_ncancels c), cn_cancel := (cn_cancel c)(cn_ncancels c := Cancelling j)\<rparr>"
    by (auto simp: start_cancel_def Let_def split: if_splits)
  show ?case using CancelStart(2,4,5) by (auto simp: c' wait_inv_def held_def active_def)
next
  case (CancelCollect c k j m n i)
  then show ?case by (auto simp: wait_inv_def held_def active_def)
next
  case (Read c pdu n i)
  have d: "delivering c = []" using Read(1) by (simp add: delivering_def)
  have h: "held c n" using Read by (auto simp: wait_inv_def active_def)
  show ?case
  proof (cases "cn_pending c (call_id n) = Some n \<and> (\<exists>r. dispatch pdu = Deliver (call_id n) r)")
    case True
    then show ?thesis by (auto simp: held_def read_pdu_def deliver_def Let_def)
  next
    case False
    then have "cn_pending (read_pdu pdu c) (call_id n) = Some n" if "cn_pending c (call_id n) = Some n"
      using that by (auto simp: read_pdu_def deliver_def deliverCancel_def Let_def split: dispatched.split option.split)
    then show ?thesis using h d by (auto simp: held_def)
  qed
next
  case (ReadFails c ns e n i)
  then have "held c n" "delivering c = []" by (auto simp: wait_inv_def active_def failAll_def Let_def delivering_def)
  moreover have "n \<in> set ns" if "cn_pending c (call_id n) = Some n" using that ReadFails(3) by (auto simp: ran_def)
  ultimately show ?case by (auto simp: held_def failAll_def Let_def image_iff)
next
  case (Push c ch m rest b n i)
  have d: "delivering c = (ch, m) # rest" using Push(1) by (simp add: delivering_def)
  have "held c n" using Push by (auto simp: wait_inv_def active_def)
  then show ?case using d by (auto simp: held_def)
next
  case (ReadOn c n i)
  then show ?case by (auto simp: wait_inv_def held_def active_def delivering_def)
next
  case (ReaderEnds c n i)
  then show ?case by (auto simp: wait_inv_def held_def active_def delivering_def)
qed (auto simp: wait_inv_def)

lemma reachable_wait_inv: "reachable c \<Longrightarrow> wait_inv c"
proof (induction rule: reachable.induct)
  case init
  show ?case by (simp add: wait_inv_def startConn_def active_def)
next
  case (step c c')
  then show ?case using wait_inv_step [of c c'] reachable_chan_inv by (simp add: wait_inv_def)
qed

section \<open>The reader's end\<close>

definition fail_inv :: "Conn \<Rightarrow> bool" where
  "fail_inv c = (\<forall>xs. cn_reader c = Delivering xs True \<longrightarrow> list_all (\<lambda>x. \<exists>n. fst x = CallCh n) xs)"

lemma fail_inv_step: "step c c' \<Longrightarrow> fail_inv c \<Longrightarrow> fail_inv c'"
proof (induction rule: step.induct)
  case (Read c pdu)
  then show ?case using read_pdu_final [of c pdu] by (simp add: fail_inv_def final_def)
next
  case (ReadFails c ns e)
  show ?case by (simp add: fail_inv_def failAll_def Let_def list_all_iff)
qed (auto simp: fail_inv_def Let_def start_call_def start_cancel_def forget_call_def end_cancel_def close_begin_def close_end_def split: if_splits)

lemma reachable_fail_inv: "reachable c \<Longrightarrow> fail_inv c"
proof (induction rule: reachable.induct)
  case init
  show ?case by (simp add: fail_inv_def startConn_def)
qed (auto intro: fail_inv_step)

lemma reader_ends:
  "reachable c \<Longrightarrow> cn_reader c = Delivering xs True \<Longrightarrow> \<exists>c'. step\<^sup>*\<^sup>* c c' \<and> cn_reader c' = ReaderDone"
proof (induction xs arbitrary: c)
  case Nil
  then have "step c (c\<lparr>cn_reader := ReaderDone\<rparr>)" by (intro ReaderEnds)
  then show ?case by (intro exI [of _ "c\<lparr>cn_reader := ReaderDone\<rparr>"]) simp
next
  case (Cons x xs)
  obtain ch m where x: "x = (ch, m)" by force
  obtain n where n: "ch = CallCh n" using reachable_fail_inv [OF Cons.prems(1)] Cons.prems(2) x by (auto simp: fail_inv_def)
  have "delivering c = x # xs" using Cons.prems(2) by (simp add: delivering_def)
  then have "cn_buf c ch = None" using chan_invD(11) [OF reachable_chan_inv [OF Cons.prems(1)], of n m] x n by simp
  then have st: "step c (c\<lparr>cn_buf := (cn_buf c)(ch := Some m), cn_reader := Delivering xs True\<rparr>)" using Push Cons.prems(2) x by simp
  from Cons.IH [OF reachable.step [OF Cons.prems(1) st]] obtain c'
    where "step\<^sup>*\<^sup>* (c\<lparr>cn_buf := (cn_buf c)(ch := Some m), cn_reader := Delivering xs True\<rparr>) c'" "cn_reader c' = ReaderDone" by auto
  then show ?case using st by (meson converse_rtranclp_into_rtranclp)
qed

section \<open>A reader that waits for ever\<close>

definition stuck :: "Conn \<Rightarrow> bool" where
  "stuck c = (cn_reader c = Delivering [(CancelCh 0, CancelMsg None)] False \<and> cn_buf c (CancelCh 0) \<noteq> None \<and> cn_cancel c 0 = Cancelled
     \<and> 0 < cn_ncancels c \<and> cn_state c \<noteq> StateClosed)"

lemma stuck_step: "step c c' \<Longrightarrow> stuck c \<Longrightarrow> stuck c'"
proof (induction rule: step.induct)
  case (CancelCollect c n i m)
  then have "n \<noteq> 0" by (cases n) (auto simp: stuck_def)
  then show ?case using CancelCollect by (simp add: stuck_def)
qed (auto simp: stuck_def start_call_def start_cancel_def forget_call_def end_cancel_def close_begin_def close_end_def Let_def split: if_splits)

lemma stuck_steps: "step\<^sup>*\<^sup>* c c' \<Longrightarrow> stuck c \<Longrightarrow> stuck c'"
  by (induction rule: rtranclp_induct) (auto intro: stuck_step)

lemma stuck_reachable: "\<exists>c. reachable c \<and> stuck c \<and> cn_state c = StateConnected"
proof -
  let ?r = "Delivering [(CancelCh 0, CancelMsg None)] False" and ?p = "encodeCancelResponse 1"
  define c1 where "c1 = startConn\<lparr>cn_cancels := Map.empty(1 := Some 0), cn_ncancels := 1, cn_cancel := (\<lambda>_. NoCancel)(0 := Cancelling 1)\<rparr>"
  define c2 where "c2 = read_pdu ?p c1"
  define c3 where "c3 = c2\<lparr>cn_buf := (cn_buf c2)(CancelCh 0 := Some (CancelMsg None)), cn_reader := Delivering [] False\<rparr>"
  define c4 where "c4 = c3\<lparr>cn_reader := Reading\<rparr>"
  define c5 where "c5 = read_pdu ?p c4"
  define c6 where "c6 = end_cancel 1 0 c5"
  have d: "dispatch ?p = CancelAnswer 1 None" by (rule cancel_exchange(2))
  have 1: "start_cancel 1 startConn = Inr c1" by (simp add: start_cancel_def startConn_def c1_def)
  have 2: "cn_reader c1 = Reading" "cn_reader c2 = ?r" "cn_buf c2 (CancelCh 0) = None" "cn_cancels c2 = cn_cancels c1" "cn_cancel c2 = cn_cancel c1" "cn_ncancels c2 = 1" "cn_state c2 = StateConnected"
    using d by (simp_all add: c1_def c2_def startConn_def read_pdu_def deliverCancel_def)
  have 5: "cn_reader c5 = ?r" "cn_buf c5 (CancelCh 0) = Some (CancelMsg None)" "cn_cancel c5 0 = Cancelling 1" "cn_ncancels c5 = 1" "cn_state c5 = StateConnected"
    using d 2 by (simp_all add: c5_def c4_def c3_def c1_def read_pdu_def deliverCancel_def)
  have "reachable c1" using reachable.step [OF reachable.init CancelStart [OF 1]] .
  then have "reachable c2" unfolding c2_def using reachable.step Read 2(1) by blast
  then have "reachable c3" unfolding c3_def using reachable.step Push [OF 2(2,3)] by blast
  then have "reachable c4" unfolding c4_def using reachable.step ReadOn [of c3] by (simp add: c3_def)
  then have "reachable c5" unfolding c5_def using reachable.step Read [of c4] by (simp add: c4_def)
  then have "reachable c6" unfolding c6_def using reachable.step CancelGaveUp [OF 5(3)] by blast
  moreover have "stuck c6" "cn_state c6 = StateConnected" using 5 by (simp_all add: stuck_def c6_def end_cancel_def)
  ultimately show ?thesis by blast
qed

text \<open>A call that has been sent, and the two ways it can go on.\<close>

definition called :: Conn where
  "called = startConn\<lparr>cn_nextID := 2, cn_pending := Map.empty(1 := Some 0), cn_ncalls := 1, cn_call := (\<lambda>_. NotStarted)(0 := Waiting 1)\<rparr>"

lemma called_reachable: "reachable called"
proof -
  define c1 where "c1 = startConn\<lparr>cn_nextID := 2, cn_pending := Map.empty(1 := Some 0), cn_ncalls := 1, cn_call := (\<lambda>_. NotStarted)(0 := Sending 1)\<rparr>"
  have "start_call startConn = Inr c1" by (simp add: start_call_def startConn_def c1_def)
  then have "reachable c1" using reachable.step [OF reachable.init Start] by blast
  moreover have "called = c1\<lparr>cn_call := (cn_call c1)(0 := Waiting 1)\<rparr>" by (simp add: called_def c1_def)
  ultimately show ?thesis using reachable.step Sent [of c1 0 1] by (simp add: c1_def)
qed

lemma answered_run:
  assumes "dispatch pdu = Deliver 1 r"
  shows "\<exists>c. reachable c \<and> cn_call c 0 = Collected (CallMsg (Answer r)) \<and> cn_log c = [pdu] \<and> cn_state c = StateConnected"
proof -
  define c2 where "c2 = read_pdu pdu called"
  define c3 where "c3 = c2\<lparr>cn_buf := (cn_buf c2)(CallCh 0 := Some (CallMsg (Answer r))), cn_reader := Delivering [] False\<rparr>"
  have 2: "cn_reader c2 = Delivering [(CallCh 0, CallMsg (Answer r))] False" "cn_buf c2 (CallCh 0) = None" "cn_call c2 0 = Waiting 1" "cn_log c2 = [pdu]" "cn_state c2 = StateConnected"
    using assms by (simp_all add: c2_def called_def startConn_def read_pdu_def deliver_def)
  have "reachable c2" unfolding c2_def using reachable.step [OF called_reachable Read] by (simp add: called_def startConn_def)
  then have "reachable c3" unfolding c3_def using reachable.step Push [OF 2(1,2)] by blast
  moreover have "cn_call c3 0 = Waiting 1" "cn_buf c3 (CallCh 0) = Some (CallMsg (Answer r))" using 2 by (simp_all add: c3_def)
  ultimately have "reachable (c3\<lparr>cn_buf := (cn_buf c3)(CallCh 0 := None), cn_call := (cn_call c3)(0 := Collected (CallMsg (Answer r)))\<rparr>)"
    using reachable.step Collect by blast
  then show ?thesis using 2 by (intro exI [of _ "c3\<lparr>cn_buf := (cn_buf c3)(CallCh 0 := None), cn_call := (cn_call c3)(0 := Collected (CallMsg (Answer r)))\<rparr>"] conjI) (simp_all add: c3_def)
qed

lemma lost_run: "\<exists>c. reachable c \<and> cn_reader c = ReaderDone \<and> cn_call c 0 = Waiting 1 \<and> cn_ncalls c = 1"
proof -
  let ?m = "CallMsg (Lost (ReadError 0))"
  define c2 where "c2 = failAll (ReadError 0) [0] called"
  define c3 where "c3 = c2\<lparr>cn_buf := (cn_buf c2)(CallCh 0 := Some ?m), cn_reader := Delivering [] True\<rparr>"
  have 2: "cn_reader c2 = Delivering [(CallCh 0, ?m)] True" "cn_buf c2 (CallCh 0) = None" "cn_call c2 0 = Waiting 1" "cn_ncalls c2 = 1"
    by (simp_all add: c2_def called_def startConn_def failAll_def)
  have "reachable c2" unfolding c2_def using reachable.step [OF called_reachable ReadFails] by (simp add: called_def startConn_def)
  then have "reachable c3" unfolding c3_def using reachable.step Push [OF 2(1,2)] by blast
  then have "reachable (c3\<lparr>cn_reader := ReaderDone\<rparr>)" using reachable.step ReaderEnds [of c3] by (simp add: c3_def)
  then show ?thesis using 2 by (intro exI [of _ "c3\<lparr>cn_reader := ReaderDone\<rparr>"]) (simp add: c3_def)
qed

section \<open>Properties\<close>

text \<open>(C4) Answers reach the calls that asked for them. The reader never waits to hand an answer to a call; what a call returns is the answer of a PDU
  that carried its own invoke identifier, or the error the association ended with.\<close>

theorem answers_matched:
  assumes "reachable c"
  shows "(\<forall>n m rest b. cn_reader c = Delivering ((CallCh n, m) # rest) b \<longrightarrow> cn_buf c (CallCh n) = None)
    \<and> (\<forall>n m. cn_call c n = Collected m \<longrightarrow>
        (\<exists>r pdu. m = CallMsg (Answer r) \<and> pdu \<in> set (cn_log c) \<and> dispatch pdu = Deliver (word_of_nat (Suc n)) r)
        \<or> (\<exists>e. m = CallMsg (Lost e) \<and> conn_Err c = Some e))"
proof -
  have b: "cn_buf c (CallCh n) = None" if "cn_reader c = Delivering ((CallCh n, m) # rest) b" for n m rest b
    using chan_invD(11) [OF reachable_chan_inv [OF assms], of n m] that by (simp add: delivering_def)
  have "legit c n m" if "cn_call c n = Collected m" for n m using reachable_msg_inv [OF assms] that by (simp add: msg_inv_def)
  then have "(\<exists>r pdu. m = CallMsg (Answer r) \<and> pdu \<in> set (cn_log c) \<and> dispatch pdu = Deliver (word_of_nat (Suc n)) r) \<or> (\<exists>e. m = CallMsg (Lost e) \<and> conn_Err c = Some e)"
    if "cn_call c n = Collected m" for n m
    using that by (cases m) (fastforce simp: legit_def call_id_def conn_Err_def split: outcome.splits)+
  then show ?thesis using b by blast
qed

theorem answers_matched_witness:
  "\<exists>c. reachable c \<and> cn_call c 0 = Collected (CallMsg (Answer (Failure (reported OtherErr))))
    \<and> (\<exists>pdu \<in> set (cn_log c). dispatch pdu = Deliver 1 (Failure (reported OtherErr)))"
proof -
  obtain c where c: "reachable c" "cn_call c 0 = Collected (CallMsg (Answer (Failure (reported OtherErr))))" "cn_state c = StateConnected"
    using answered_run [OF dispatch_error [of 1 OtherErr]] by blast
  have "conn_Err c = None" using c(3) by (simp add: conn_Err_def)
  then show ?thesis using answers_matched [OF c(1), THEN conjunct2, rule_format, OF c(2)] c(1,2) by auto
qed

text \<open>(C19) No call is left waiting. Once reading fails the reader reaches its end; and when it has, every call still waiting has a result to collect, as
  long as fewer than \<open>2 ^ 32\<close> calls were started, so that their identifiers did not wrap around.\<close>

theorem no_call_left_waiting:
  assumes "reachable c"
  shows "(\<forall>e ns. cn_reader c = Reading \<longrightarrow> distinct ns \<longrightarrow> set ns = ran (cn_pending c) \<longrightarrow> (\<exists>c'. step\<^sup>*\<^sup>* (failAll e ns c) c' \<and> cn_reader c' = ReaderDone))
    \<and> (cn_reader c = ReaderDone \<longrightarrow> cn_ncalls c \<le> 2 ^ 32 \<longrightarrow> (\<forall>n i. cn_call c n = Waiting i \<longrightarrow> (\<exists>m. cn_buf c (CallCh n) = Some m)))"
proof -
  have "\<exists>c'. step\<^sup>*\<^sup>* (failAll e ns c) c' \<and> cn_reader c' = ReaderDone" if "cn_reader c = Reading" "distinct ns" "set ns = ran (cn_pending c)" for e ns
    using reader_ends [OF reachable.step [OF assms ReadFails [OF that]]] by (simp add: failAll_def Let_def)
  moreover have "\<exists>m. cn_buf c (CallCh n) = Some m" if "cn_reader c = ReaderDone" "cn_ncalls c \<le> 2 ^ 32" "cn_call c n = Waiting i" for n i
  proof -
    have "held c n" using reachable_wait_inv [OF assms] that by (auto simp: wait_inv_def active_def)
    moreover have "cn_pending c = Map.empty" using reachable_end_inv [OF assms] that(1) by (auto simp: end_inv_def final_def)
    ultimately show ?thesis using that(1) by (auto simp: held_def delivering_def)
  qed
  ultimately show ?thesis by blast
qed

theorem no_call_left_waiting_witness:
  "\<exists>c. reachable c \<and> cn_reader c = ReaderDone \<and> cn_call c 0 = Waiting 1 \<and> (\<exists>m. cn_buf c (CallCh 0) = Some m)"
proof -
  obtain c where c: "reachable c" "cn_reader c = ReaderDone" "cn_call c 0 = Waiting 1" "cn_ncalls c = 1" using lost_run by blast
  then show ?thesis using no_call_left_waiting [OF c(1)] by auto
qed

text \<open>A repeated answer to a cancel can stop the association for good. \<^verbatim>\<open>deliverCancel\<close> leaves the entry in the map, so a second
  answer is sent to the same channel; when the \<^verbatim>\<open>Cancel\<close> has given up, nobody receives it: the reader is stuck, no further PDU is read and a
  \<^verbatim>\<open>Close\<close> waits for ever.\<close>

theorem repeated_cancel_answer_blocks:
  "\<exists>c. reachable c \<and> cn_state c = StateConnected \<and> (\<forall>c'. step\<^sup>*\<^sup>* c c' \<longrightarrow> cn_reader c' = cn_reader c \<and> cn_reader c' \<noteq> Reading \<and> cn_state c' \<noteq> StateClosed)"
proof -
  obtain c where c: "reachable c" "stuck c" "cn_state c = StateConnected" using stuck_reachable by blast
  have "cn_reader c' = cn_reader c \<and> cn_reader c' \<noteq> Reading \<and> cn_state c' \<noteq> StateClosed" if "step\<^sup>*\<^sup>* c c'" for c'
    using stuck_steps [OF that c(2)] c(2) by (simp add: stuck_def)
  then show ?thesis using c by blast
qed

end
