(* ===== verification/MmsServerConn.thy ===== *)
theory MmsServerConn
  imports MmsDispatch
begin

text \<open>
  A server's association (\<^verbatim>\<open>ServerConn\<close> of \<^verbatim>\<open>mms/server_conn.go\<close> and \<^verbatim>\<open>mms/server_ext.go\<close>): the loop that answers one request
  at a time, and the unconfirmed PDUs (reports, LastApplError, CommandTermination) sent beside it. While a request is handled they are
  held, in two lists, so that they reach the peer before or after its response; outside a request they go to
  a queue of 512 that a writer of its own drains. \<open>sc_wire\<close> is what has been written to the transport, in order; a transport
  that has failed writes nothing and reports an error.
\<close>

section \<open>State\<close>

text \<open>\<open>sc_running\<close> has the deferred requests in progress with whether their context was cancelled (a client numbers its requests in progress apart).
  \<open>sc_calls\<close> has the server's own calls: a call waits on a channel of capacity 1, \<open>Some None\<close> while it is empty.\<close>

record ServerConn =
  sc_MaxPDU :: int
  sc_inReq :: bool
  sc_before :: "byte list list"
  sc_after :: "byte list list"
  sc_queue :: "byte list list"
  sc_unconfClosed :: bool
  sc_running :: "32 word \<Rightarrow> bool option"
  sc_nextCall :: "32 word"
  sc_calls :: "32 word \<Rightarrow> reply option option"
  sc_up :: bool
  sc_wire :: "byte list list"

datatype sc_error = SendFailed | ErrReportQueueFull | ScErrClosed | ScBlocked

definition unconfCap :: nat where "unconfCap = 512"

section \<open>Sending\<close>

definition sc_send :: "byte list \<Rightarrow> ServerConn \<Rightarrow> (sc_error + unit) \<times> ServerConn" where
  "sc_send pdu sc = (if sc_up sc then (Inr (), sc\<lparr>sc_wire := sc_wire sc @ [pdu]\<rparr>) else (Inl SendFailed, sc))"

definition sendReject :: "32 word option \<Rightarrow> 32 word \<Rightarrow> int \<Rightarrow> ServerConn \<Rightarrow> (sc_error + unit) \<times> ServerConn" where
  "sendReject i category code sc = sc_send (encodeReject i category code) sc"

definition sendError :: "32 word \<Rightarrow> handler_error \<Rightarrow> ServerConn \<Rightarrow> (sc_error + unit) \<times> ServerConn" where
  "sendError i herr sc = sc_send (encodeError i herr) sc"

definition response_pdu :: "int \<Rightarrow> 32 word \<Rightarrow> Element option \<Rightarrow> byte list" where
  "response_pdu maxPDU i resp =
     (case resp of
        None \<Rightarrow> encodeError i (ServiceErr \<lparr>se_Class = 4, se_Code = 0, se_Rejected = False\<rparr>)
      | Some e \<Rightarrow>
          let out = encodeResponse i e in
          if maxPDU > 0 \<and> int (length out) > maxPDU
          then encodeError i (ServiceErr \<lparr>se_Class = 3, se_Code = 0, se_Rejected = False\<rparr>)
          else out)"

definition sendResponse :: "32 word \<Rightarrow> Element option \<Rightarrow> ServerConn \<Rightarrow> (sc_error + unit) \<times> ServerConn" where
  "sendResponse i resp sc = sc_send (response_pdu (sc_MaxPDU sc) i resp) sc"

definition enqueue :: "byte list \<Rightarrow> ServerConn \<Rightarrow> (sc_error + unit) \<times> ServerConn" where
  "enqueue pdu sc =
     (if sc_unconfClosed sc then (Inl ScErrClosed, sc)
      else if length (sc_queue sc) < unconfCap then (Inr (), sc\<lparr>sc_queue := sc_queue sc @ [pdu]\<rparr>)
      else (Inl ErrReportQueueFull, sc))"

definition hold :: "byte list \<Rightarrow> bool \<Rightarrow> ServerConn \<Rightarrow> bool \<times> ServerConn" where
  "hold pdu first sc =
     (if \<not> sc_inReq sc then (False, sc)
      else (True, if first then sc\<lparr>sc_before := sc_before sc @ [pdu]\<rparr> else sc\<lparr>sc_after := sc_after sc @ [pdu]\<rparr>))"

text \<open>\<^verbatim>\<open>SendUnconfirmed\<close> (\<open>first\<close> false) and \<^verbatim>\<open>SendUnconfirmedFirst\<close>.\<close>

definition unconfirmed_pdu :: "Element \<Rightarrow> byte list" where
  "unconfirmed_pdu service = Encode (Cons_el tagUnconfirmed [Some service])"

definition SendUnconfirmed :: "bool \<Rightarrow> Element \<Rightarrow> ServerConn \<Rightarrow> (sc_error + unit) \<times> ServerConn" where
  "SendUnconfirmed first service sc =
     (case hold (unconfirmed_pdu service) first sc of
        (True, sc) \<Rightarrow> (Inr (), sc)
      | (False, sc) \<Rightarrow> enqueue (unconfirmed_pdu service) sc)"

text \<open>One turn of \<^verbatim>\<open>pumpUnconfirmed\<close>, which returns after the first send that fails.\<close>

definition pump :: "ServerConn \<Rightarrow> (sc_error + unit) \<times> ServerConn" where
  "pump sc =
     (case sc_queue sc of
        [] \<Rightarrow> (Inr (), sc)
      | pdu # rest \<Rightarrow> sc_send pdu (sc\<lparr>sc_queue := rest\<rparr>))"

section \<open>Requests\<close>

definition beginRequest :: "ServerConn \<Rightarrow> ServerConn" where
  "beginRequest sc = sc\<lparr>sc_inReq := True\<rparr>"

definition endRequest :: "ServerConn \<Rightarrow> (byte list list \<times> byte list list) \<times> ServerConn" where
  "endRequest sc = ((sc_before sc, sc_after sc), sc\<lparr>sc_inReq := False, sc_before := [], sc_after := []\<rparr>)"

fun send_each :: "byte list list \<Rightarrow> ServerConn \<Rightarrow> (sc_error + unit) \<times> ServerConn" where
  "send_each [] sc = (Inr (), sc)"
| "send_each (p # ps) sc = (case sc_send p sc of (Inl e, sc) \<Rightarrow> (Inl e, sc) | (Inr _, sc) \<Rightarrow> send_each ps sc)"

text \<open>What the handler of the server made of a request: a response, none, an error, or one to follow. While it runs, unconfirmed PDUs
  are sent by it and by other goroutines: \<open>sends\<close> lists them in their order, with the calls' \<open>first\<close>.\<close>

datatype handled = Respond "Element option" | Fail handler_error | Deferred

fun run_sends :: "(bool \<times> Element) list \<Rightarrow> ServerConn \<Rightarrow> ServerConn" where
  "run_sends [] sc = sc"
| "run_sends ((first, service) # r) sc = run_sends r (snd (SendUnconfirmed first service sc))"

definition answer_request :: "32 word \<Rightarrow> handled \<Rightarrow> ServerConn \<Rightarrow> (sc_error + unit) \<times> ServerConn" where
  "answer_request i res sc =
     (case res of
        Deferred \<Rightarrow> (Inr (), sc\<lparr>sc_running := (sc_running sc)(i := Some False)\<rparr>)
      | Fail herr \<Rightarrow> sendError i herr sc
      | Respond resp \<Rightarrow> sendResponse i resp sc)"

definition handleRequest :: "32 word \<Rightarrow> handled \<Rightarrow> (bool \<times> Element) list \<Rightarrow> ServerConn \<Rightarrow> (sc_error + unit) \<times> ServerConn" where
  "handleRequest i res sends sc =
     (let sc = run_sends sends (beginRequest sc);
          ((before, after), sc) = endRequest sc
      in case send_each before sc of
           (Inl e, sc) \<Rightarrow> (Inl e, sc)
         | (Inr _, sc) \<Rightarrow>
             (case answer_request i res sc of
                (Inl e, sc) \<Rightarrow> (Inl e, sc)
              | (Inr _, sc) \<Rightarrow> (Inr (), fold (\<lambda>pdu sc. snd (enqueue pdu sc)) after sc)))"

text \<open>The end of a deferred request: its outcome, or service-preempt when the client cancelled it and the connection has not been closed.\<close>

definition finishDeferred :: "32 word \<Rightarrow> handled \<Rightarrow> ServerConn \<Rightarrow> ServerConn" where
  "finishDeferred i res sc =
     (let sc = snd (if sc_running sc i = Some True \<and> \<not> sc_unconfClosed sc then sendError i (ServiceErr \<lparr>se_Class = 5, se_Code = 3, se_Rejected = False\<rparr>) sc
                    else case res of Fail herr \<Rightarrow> sendError i herr sc | Respond resp \<Rightarrow> sendResponse i resp sc | Deferred \<Rightarrow> sendError i OtherErr sc)
      in sc\<lparr>sc_running := (sc_running sc)(i := None)\<rparr>)"

definition handleCancel :: "byte list \<Rightarrow> ServerConn \<Rightarrow> (sc_error + unit) \<times> ServerConn" where
  "handleCancel content sc =
     (case DecodeUint content of
        Inl _ \<Rightarrow> (Inr (), sc)
      | Inr n \<Rightarrow>
          let i = word_of_nat n
          in if sc_running sc i \<noteq> None then sc_send (encodeCancelResponse i) (sc\<lparr>sc_running := (sc_running sc)(i := Some True)\<rparr>)
             else sc_send (encodeCancelError i) sc)"

text \<open>\<^verbatim>\<open>Call\<close> registers and sends a request of the server (\<open>startCall\<close>), and takes the call out when it returns, with an answer or without one
  (\<open>endCall\<close>). Sending to a full channel does not return, which is the value \<open>ScBlocked\<close>.\<close>

definition startCall :: "Element \<Rightarrow> ServerConn \<Rightarrow> (sc_error + 32 word) \<times> ServerConn" where
  "startCall service sc =
     (let i = sc_nextCall sc + 1; sc = sc\<lparr>sc_nextCall := i, sc_calls := (sc_calls sc)(i := Some None)\<rparr>
      in case sc_send (encodeRequest i service) sc of
           (Inl e, sc) \<Rightarrow> (Inl e, sc\<lparr>sc_calls := (sc_calls sc)(i := None)\<rparr>)
         | (Inr _, sc) \<Rightarrow> (Inr i, sc))"

definition endCall :: "32 word \<Rightarrow> ServerConn \<Rightarrow> reply option \<times> ServerConn" where
  "endCall i sc = (case sc_calls sc i of Some r \<Rightarrow> r | None \<Rightarrow> None, sc\<lparr>sc_calls := (sc_calls sc)(i := None)\<rparr>)"

definition deliverCall :: "32 word \<Rightarrow> reply \<Rightarrow> ServerConn \<Rightarrow> (sc_error + unit) \<times> ServerConn" where
  "deliverCall i r sc =
     (case sc_calls sc i of
        None \<Rightarrow> (Inr (), sc)
      | Some None \<Rightarrow> (Inr (), sc\<lparr>sc_calls := (sc_calls sc)(i := Some (Some r))\<rparr>)
      | Some (Some _) \<Rightarrow> (Inl ScBlocked, sc))"

text \<open>\<^verbatim>\<open>handlePDU\<close>. The handler is a parameter: it is given the request and returns what became of it and what was sent meanwhile.
  \<open>Inl ScErrClosed\<close> ends the loop.\<close>

definition handlePDU :: "(32 word \<Rightarrow> 32 word \<Rightarrow> byte list \<Rightarrow> handled \<times> (bool \<times> Element) list) \<Rightarrow> byte list \<Rightarrow> ServerConn \<Rightarrow> (sc_error + unit) \<times> ServerConn" where
  "handlePDU h pdu sc =
     (case serverDispatch pdu of
        SendReject i category code \<Rightarrow> sendReject i category code sc
      | Handle i service content \<Rightarrow> (case h i service content of (res, sends) \<Rightarrow> handleRequest i res sends sc)
      | CallAnswer tag content \<Rightarrow>
          (case parseCallAnswer tag content of
             None \<Rightarrow> (Inr (), sc)
           | Some (i, r) \<Rightarrow> deliverCall i r sc)
      | CancelRequest content \<Rightarrow> handleCancel content sc
      | ConcludeRequest \<Rightarrow> (Inl ScErrClosed, snd (sc_send (Encode (Prim tagConcludeResponse [])) sc))
      | Nothing \<Rightarrow> (Inr (), sc))"

definition sc_Close :: "ServerConn \<Rightarrow> ServerConn" where
  "sc_Close sc = sc\<lparr>sc_unconfClosed := True, sc_up := False\<rparr>"

section \<open>Order\<close>

lemma run_sends_held:
  "sc_inReq sc \<Longrightarrow> run_sends sends sc =
     sc\<lparr>sc_before := sc_before sc @ map (\<lambda>x. unconfirmed_pdu (snd x)) (filter fst sends),
        sc_after := sc_after sc @ map (\<lambda>x. unconfirmed_pdu (snd x)) (filter (\<lambda>x. \<not> fst x) sends)\<rparr>"
  by (induction sends arbitrary: sc) (auto simp: SendUnconfirmed_def hold_def)

lemma send_each_up: "sc_up sc \<Longrightarrow> send_each ps sc = (Inr (), sc\<lparr>sc_wire := sc_wire sc @ ps\<rparr>)"
  by (induction ps arbitrary: sc) (simp_all add: sc_send_def)

lemma enqueue_fold:
  assumes "\<not> sc_unconfClosed sc"
  shows "fold (\<lambda>pdu sc. snd (enqueue pdu sc)) ps sc = sc\<lparr>sc_queue := sc_queue sc @ take (unconfCap - length (sc_queue sc)) ps\<rparr>"
  using assms
proof (induction ps arbitrary: sc)
  case (Cons p ps)
  show ?case
  proof (cases "length (sc_queue sc) < unconfCap")
    case True
    then have "unconfCap - length (sc_queue sc) = Suc (unconfCap - Suc (length (sc_queue sc)))" by simp
    then show ?thesis using True Cons by (simp add: enqueue_def)
  next
    case False
    then show ?thesis using Cons by (simp add: enqueue_def)
  qed
qed simp

definition idle :: "ServerConn \<Rightarrow> bool" where
  "idle sc = (sc_up sc \<and> \<not> sc_unconfClosed sc \<and> \<not> sc_inReq sc \<and> sc_before sc = [] \<and> sc_after sc = [])"

definition answer_pdu :: "32 word \<Rightarrow> handled \<Rightarrow> ServerConn \<Rightarrow> byte list list" where
  "answer_pdu i res sc = (case res of Respond resp \<Rightarrow> [response_pdu (sc_MaxPDU sc) i resp] | Fail herr \<Rightarrow> [encodeError i herr] | Deferred \<Rightarrow> [])"

lemma handleRequest_idle:
  assumes "idle sc"
  shows "handleRequest i res sends sc =
    (Inr (), sc\<lparr>sc_wire := sc_wire sc @ map (\<lambda>x. unconfirmed_pdu (snd x)) (filter fst sends) @ answer_pdu i res sc,
       sc_queue := sc_queue sc @ take (unconfCap - length (sc_queue sc)) (map (\<lambda>x. unconfirmed_pdu (snd x)) (filter (\<lambda>x. \<not> fst x) sends)),
       sc_running := (if res = Deferred then (sc_running sc)(i := Some False) else sc_running sc)\<rparr>)"
proof -
  let ?b = "map (\<lambda>x. unconfirmed_pdu (snd x)) (filter fst sends)" and ?a = "map (\<lambda>x. unconfirmed_pdu (snd x)) (filter (\<lambda>x. \<not> fst x) sends)"
  have e: "endRequest (run_sends sends (beginRequest sc)) = ((?b, ?a), sc)"
    using assms by (cases sc) (simp add: run_sends_held beginRequest_def endRequest_def idle_def)
  show ?thesis using assms unfolding handleRequest_def e Let_def
    by (cases res; cases sc) (simp_all add: send_each_up idle_def answer_request_def sendError_def sendResponse_def sc_send_def answer_pdu_def enqueue_fold)
qed

section \<open>Answers\<close>

lemma length_encodeError: "length (encodeError i e) < 200"
proof -
  have rej: "length (encodeReject (Some i) k v) < 200" if "k < 2 ^ 28" "int64_ok v" for k v
  proof -
    have "encodeReject (Some i) k v = tlv tagRejectPDU (tlv (ContextPrimitive 0) (uint_octets (unat i)) @ tlv (ContextPrimitive k) (int_octets v))"
      using that by (simp add: encodeReject_def Let_def octets_simps mms_pdu_tags)
    then show ?thesis using id_octets_short(2) [of "ContextPrimitive 0" i] length_int_octets [OF that(2)] length_tlv_le(1) [of "ContextPrimitive k" "int_octets v"]
        length_tlv_le(1) [of tagRejectPDU "tlv (ContextPrimitive 0) (uint_octets (unat i)) @ tlv (ContextPrimitive k) (int_octets v)"] by simp
  qed
  let ?b = "tlv (ContextConstructed 2) (Encode (serviceErrorBody e))" and ?i = "tlv (ContextPrimitive 0) (uint_octets (unat i))"
  have l: "length (Encode (serviceErrorBody e)) < 70"
    using Encode_error_body(3) [of e] length_tlv_le(1) [of "ContextConstructed 0" "tlv (ContextPrimitive (fst (errorClassChoice e))) (int_octets (snd (errorClassChoice e)))"]
    unfolding Encode_error_body(1) by linarith
  have "Encode (Cons_el tagConfirmedError [Some (Prim (ContextPrimitive 0) (uint_octets (unat i))), Some (Cons_el (ContextConstructed 2) [Some (serviceErrorBody e)])]) = tlv tagConfirmedError (?i @ ?b)"
    using Encode_error_body(2) [of e] by (simp add: octets_simps mms_pdu_tags)
  then have err: "length (Encode (Cons_el tagConfirmedError [Some (Prim (ContextPrimitive 0) (uint_octets (unat i))), Some (Cons_el (ContextConstructed 2) [Some (serviceErrorBody e)])])) < 200"
    using l id_octets_short(2) [of "ContextPrimitive 0" i] length_tlv_le(1) [of "ContextConstructed 2" "Encode (serviceErrorBody e)"] length_tlv_le(1) [of tagConfirmedError "?i @ ?b"] by simp
  have "(ucast (se_Class se) :: 32 word) < 2 ^ 28" for se :: ServiceError
    using errorClassChoice_ok(1) [of "ServiceErr (se\<lparr>se_Class := if se_Class se = 0 then 1 else se_Class se\<rparr>)"] by (cases "se_Class se = 0") (simp_all add: errorClassChoice_def)
  then show ?thesis using err rej by (cases e) (simp_all add: encodeError_eq)
qed

text \<open>What a request is answered with, as the client reads it.\<close>

definition answered :: "int \<Rightarrow> 32 word \<Rightarrow> handled \<Rightarrow> reply" where
  "answered maxPDU i res =
     (case res of
        Respond (Some e) \<Rightarrow>
          if maxPDU > 0 \<and> int (length (encodeResponse i e)) > maxPDU then Failure \<lparr>se_Class = 3, se_Code = 0, se_Rejected = False\<rparr> else Reply (Encode e)
      | Fail herr \<Rightarrow> Failure (reported herr)
      | _ \<Rightarrow> Failure \<lparr>se_Class = 4, se_Code = 0, se_Rejected = False\<rparr>)"

definition response_ok :: "handled \<Rightarrow> bool" where
  "response_ok res = (case res of Respond (Some e) \<Rightarrow> el_ok e \<and> length (Encode e) < 2 ^ 31 | _ \<Rightarrow> True)"

lemma answer_dispatched:
  assumes "response_ok res" "res \<noteq> Deferred"
  shows "\<exists>out. answer_pdu i res sc = [out] \<and> dispatch out = Deliver i (answered (sc_MaxPDU sc) i res) \<and> (200 \<le> sc_MaxPDU sc \<longrightarrow> int (length out) \<le> sc_MaxPDU sc)"
proof -
  have e: "dispatch (encodeError i (ServiceErr \<lparr>se_Class = k, se_Code = 0, se_Rejected = False\<rparr>)) = Deliver i (Failure \<lparr>se_Class = k, se_Code = 0, se_Rejected = False\<rparr>)"
    if "k \<noteq> 0" for k using dispatch_error [of i] that by (simp add: reported_def errorClassChoice_def)
  have l: "200 \<le> sc_MaxPDU sc \<longrightarrow> int (length (encodeError i x)) \<le> sc_MaxPDU sc" for x using length_encodeError [of i x] by auto
  show ?thesis
  proof (cases res)
    case (Respond resp)
    show ?thesis
    proof (cases resp)
      case None
      then show ?thesis using Respond e [of 4] l by (simp add: answer_pdu_def response_pdu_def answered_def)
    next
      case (Some x)
      then have x: "el_ok x" "length (Encode x) < 2 ^ 31" using assms(1) Respond by (simp_all add: response_ok_def)
      show ?thesis using Respond Some e [of 3] l dispatch_response [OF x, of i]
        by (cases "sc_MaxPDU sc > 0 \<and> int (length (encodeResponse i x)) > sc_MaxPDU sc")
           (auto simp: answer_pdu_def response_pdu_def answered_def Let_def)
    qed
  next
    case (Fail herr)
    then show ?thesis using dispatch_error [of i herr] l by (simp add: answer_pdu_def answered_def)
  qed (use assms(2) in simp)
qed

section \<open>Properties\<close>

text \<open>(C5) A request is answered once, and what is sent while it is handled keeps its place. Between two requests, a PDU the loop takes as a
  request leaves on the wire the unconfirmed PDUs that were to go first, in their order, and then exactly one answer; the others follow the queue,
  in their order, as far as its 512 places go. The answer is read by the client under the request's identifier, as the handler's
  outcome (a response longer than the negotiated PDU is the error of class 3), and is within that size whenever it allows 200 octets;
  the connection is between requests again.\<close>

theorem request_answered:
  assumes "serverDispatch pdu = Handle i service content" "h i service content = (res, sends)" "res \<noteq> Deferred" "response_ok res" "idle sc" "200 \<le> sc_MaxPDU sc"
  shows "\<exists>out sc'. handlePDU h pdu sc = (Inr (), sc') \<and> idle sc'
    \<and> sc_wire sc' = sc_wire sc @ map (\<lambda>x. unconfirmed_pdu (snd x)) (filter fst sends) @ [out]
    \<and> sc_queue sc' = sc_queue sc @ take (unconfCap - length (sc_queue sc)) (map (\<lambda>x. unconfirmed_pdu (snd x)) (filter (\<lambda>x. \<not> fst x) sends))
    \<and> dispatch out = Deliver i (answered (sc_MaxPDU sc) i res) \<and> int (length out) \<le> sc_MaxPDU sc"
proof -
  obtain out where out: "answer_pdu i res sc = [out]" "dispatch out = Deliver i (answered (sc_MaxPDU sc) i res)" "int (length out) \<le> sc_MaxPDU sc"
    using answer_dispatched [OF assms(4,3), of i sc] assms(6) by blast
  show ?thesis using assms(1-3) assms(5) out handleRequest_idle [OF assms(5), of i res sends] by (simp add: handlePDU_def idle_def)
qed

definition sc0 :: ServerConn where
  "sc0 = \<lparr>sc_MaxPDU = 65000, sc_inReq = False, sc_before = [], sc_after = [], sc_queue = [], sc_unconfClosed = False, sc_running = (\<lambda>_. None), sc_nextCall = 0,
     sc_calls = (\<lambda>_. None), sc_up = True, sc_wire = []\<rparr>"

theorem request_answered_witness:
  "\<exists>out sc'. handlePDU (\<lambda>_ _ _. (Fail OtherErr, [(False, BoolElem (ContextPrimitive 0) True)])) (encodeRequest 7 (BoolElem (ContextPrimitive 0) False)) sc0 = (Inr (), sc')
    \<and> sc_wire sc' = [out] \<and> sc_queue sc' = [unconfirmed_pdu (BoolElem (ContextPrimitive 0) True)]
    \<and> dispatch out = Deliver 7 (Failure \<lparr>se_Class = 4, se_Code = 0, se_Rejected = False\<rparr>)"
proof -
  have s: "serverDispatch (encodeRequest 7 (BoolElem (ContextPrimitive 0) False)) = Handle 7 0 [0]"
    using serverDispatch_request [of "BoolElem (ContextPrimitive 0) False" "ContextPrimitive 0" "[0]" 7] by (simp add: octets_simps)
  show ?thesis
    using request_answered [OF s, of "\<lambda>_ _ _. (Fail OtherErr, [(False, BoolElem (ContextPrimitive 0) True)])" "Fail OtherErr" "[(False, BoolElem (ContextPrimitive 0) True)]" sc0]
    by (auto simp: sc0_def idle_def response_ok_def answered_def reported_def errorClassChoice_def unconfCap_def)
qed

text \<open>An unconfirmed PDU sent while a request is handled is reported as sent, and is lost when the queue is full.\<close>

lemma held_pdu_dropped:
  assumes "idle sc" "length (sc_queue sc) = unconfCap" "res \<noteq> Deferred"
  shows "fst (SendUnconfirmed False service (beginRequest sc)) = Inr () \<and> sc_queue (snd (handleRequest i res [(False, service)] sc)) = sc_queue sc
    \<and> sc_wire (snd (handleRequest i res [(False, service)] sc)) = sc_wire sc @ answer_pdu i res sc"
  using assms by (simp add: handleRequest_idle SendUnconfirmed_def hold_def beginRequest_def)

text \<open>A call takes the answer to its own number.\<close>

lemma call_answered:
  assumes "sc_up sc" "startCall service sc = (Inr i, sc')"
  shows "fst (endCall i (snd (deliverCall i r sc'))) = Some r" "j \<noteq> i \<Longrightarrow> fst (endCall i (snd (deliverCall j r sc'))) = None"
  using assms by (auto simp: startCall_def deliverCall_def endCall_def sc_send_def Let_def split: option.splits)

text \<open>A cancelled request ends with service-preempt, cancel, whatever its outcome, and cannot be cancelled again.\<close>

lemma cancel_deferred:
  assumes "sc_up sc" "\<not> sc_unconfClosed sc" "sc_running sc i \<noteq> None" "DecodeUint content = Inr (unat i)"
  shows "\<exists>out. sc_wire (finishDeferred i res (snd (handleCancel content sc))) = sc_wire sc @ [encodeCancelResponse i, out]
      \<and> dispatch out = Deliver i (Failure \<lparr>se_Class = 5, se_Code = 3, se_Rejected = False\<rparr>)
    \<and> sc_running (finishDeferred i res (snd (handleCancel content sc))) i = None"
  using assms dispatch_error [of i "ServiceErr \<lparr>se_Class = 5, se_Code = 3, se_Rejected = False\<rparr>"]
  by (simp add: handleCancel_def finishDeferred_def sendError_def sc_send_def Let_def reported_def errorClassChoice_def)

text \<open>A second answer to a call whose waiter has not yet taken the first does not return: the loop that reads the connection waits
  for room in the call's channel.\<close>

lemma repeated_call_answer_blocks: "sc_calls sc i = Some None \<Longrightarrow> fst (deliverCall i r2 (snd (deliverCall i r1 sc))) = Inl ScBlocked"
  by (simp add: deliverCall_def)

end
