(* ===== verification/Spec2Isabelle.thy ===== *)
theory Spec2Isabelle
  imports BerOid BerBits BinTime Session GooseSub SvLe RSession MmsAlt SrvControl SrvLog ClientReport
    Association MmsConn MmsServerConn
begin

text \<open>
  A verification of go-iec61850, a Go implementation of the IEC 61850 protocols: an MMS client and
  server over the OSI stack, GOOSE and sampled values over Ethernet, and their routable versions over UDP.

  \<^bold>\<open>The program and its theories.\<close> The parts stand on each other in this order; every definition is named
  after the Go function or type it translates, with a prefix where the name is used twice.

  \<^item> \<open>Prelude\<close>: octets, words, Go's slices and bounds checks, results that are a value, an error or a panic.
  \<^item> \<open>Ber\<close>, \<open>BerElement\<close>, \<open>BerPrim\<close>, \<open>BerBits\<close>, \<open>BerOid\<close>, \<open>BerSeq\<close>, \<open>GoFloat\<close> (\<^verbatim>\<open>src/asn1\<close>): the BER runtime. A
    \<^verbatim>\<open>Decoder\<close> is a record of buffer and offset that every operation returns updated. The loops over a
    buffer have the buffer's length as fuel or measure; each element takes at least two octets.
  \<^item> \<open>Tpkt\<close>, \<open>Transport\<close>, \<open>Cotp\<close>, \<open>Session\<close> (\<^verbatim>\<open>src/internal/osi\<close>): packets over a byte stream, the transport
    connection, the session connection. The stream is the octets still to read and those written. The
    locale \<open>transport\<close> is the interface of the session layer to the one below and is interpreted on COTP.
  \<^item> \<open>BerLoop\<close>, \<open>Presentation\<close>, \<open>Acse\<close> (\<^verbatim>\<open>src/internal/osi/presentation\<close>, \<^verbatim>\<open>acse\<close>): presentation PDUs with the negotiation of contexts, and
    association control. \<open>BerLoop\<close> is the loop over the elements of a buffer that their parsers share.
  \<^item> \<open>MmsPdu\<close>, \<open>Association\<close> (\<^verbatim>\<open>src/mms/pdu.go\<close>, \<^verbatim>\<open>conn.go\<close>, \<^verbatim>\<open>server_conn.go\<close>, \<^verbatim>\<open>transport.go\<close>): the initiate service, how a client and a server set
    an association up over the transport, and the frames of its data phase.
  \<^item> \<open>MmsDispatch\<close>, \<open>MmsConn\<close>, \<open>MmsServerConn\<close> (\<^verbatim>\<open>src/mms/conn.go\<close>, \<^verbatim>\<open>client_ext.go\<close>, \<^verbatim>\<open>server_conn.go\<close>, \<^verbatim>\<open>server_ext.go\<close>): confirmed PDUs; the client's
    connection as a step relation over its critical sections and channels; the server's loop with the PDUs around a request,
    whose handling is one step: sends of other goroutines come before or after it.
  \<^item> \<open>MmsValue\<close>, \<open>MmsCodec\<close>, \<open>MmsTypeSpec\<close>, \<open>BinTime\<close>, \<open>MmsServices\<close>, \<open>MmsAlt\<close> (\<^verbatim>\<open>src/mms\<close>): values, types, times, the
    requests and answers of the client and the part of a variable an alternate access names. The
    connection is the function that carries one call and its own state.
  \<^item> \<open>Model\<close>, \<open>Nodes\<close> (\<^verbatim>\<open>src/model\<close>): flags, functional constraints, references, and the tree of devices, nodes,
    objects and attributes. A pointer into the tree is a reference that is resolved again; the locale
    \<open>attribute_store\<close> is the contract of resolution and assignment.
  \<^item> \<open>Ethernet\<close>, \<open>Goose\<close>, \<open>GoosePub\<close>, \<open>GooseSub\<close>, \<open>Sv\<close>, \<open>SvLe\<close> (\<^verbatim>\<open>src/ethernet\<close>, \<^verbatim>\<open>src/goose\<close>, \<^verbatim>\<open>src/sv\<close>): frames,
    messages, the publisher with its retransmitting goroutines as a step relation, the subscriber.
  \<^item> \<open>RReplay\<close>, \<open>RKeys\<close>, \<open>RSpdu\<close>, \<open>RSession\<close> (\<^verbatim>\<open>src/rsession\<close>): replay windows, keys, session PDUs, the session. The
    cipher and the MAC are parameters; what the code needs of them is a named hypothesis. The cipher panics on a nonce of another
    length than 12 octets, as Go's does, and a panic ends the receiver.
  \<^item> \<open>SrvAccess\<close>, \<open>SrvTx\<close>, \<open>SrvFits\<close>, \<open>SrvSg\<close>, \<open>SrvTrack\<close>, \<open>SrvControl\<close>, \<open>SrvNames\<close>, \<open>SrvDataSets\<close> (\<^verbatim>\<open>src/server\<close>): the
    server's view of the model: names, reads and writes, transactions, setting groups, tracking, controls,
    name lists and data sets. The state of the server is passed explicitly; an association is a number.
  \<^item> \<open>SrvRcb\<close>, \<open>SrvReport\<close> (\<^verbatim>\<open>src/server/rcb.go\<close>, \<^verbatim>\<open>reporting.go\<close>): report control blocks and the report engine. A block is a record
    next to what the blocks share (the model, the reports sent). \<open>SrvRptLog\<close>, \<open>SrvRptSeq\<close>, \<open>SrvRptSeg\<close>, \<open>SrvRptResv\<close> and
    \<open>SrvRptEntry\<close> hold its properties over any history of operations, timers and disconnections.
  \<^item> \<open>SrvCb\<close>, \<open>SrvLog\<close> (\<^verbatim>\<open>src/server/cb.go\<close>, \<^verbatim>\<open>svcb.go\<close>, \<^verbatim>\<open>journal.go\<close>): the other control blocks in the model, the reservation of the
    sampled-value ones, and the logs with the blocks that write and describe them.
  \<^item> \<open>ClientReport\<close> (\<^verbatim>\<open>src/mms/report.go\<close>, \<^verbatim>\<open>src/client/report.go\<close>): what a client makes of a report, and its composition with the server.

  \<^bold>\<open>What is shown.\<close> The codecs read back what they write and, but for one, never panic on any input: a session PDU of
  version 1 that names an encrypting key panics in the cipher (\<open>receive_panics\<close>), and nothing else of it does. COTP and session
  refine an in-order channel. A GOOSE subscriber of a publisher over a lossless network gets every message and reports exactly
  the repeats of a refresh and the messages that come too late;
  retransmissions are those of the current state, and no frame is larger than the Ethernet allows. The
  replay window is exact, its reset included, and independent per stream. Where every leaf has a known basic type, the names a
  server lists can be read and the values agree with the types it
  describes; setting groups refine an abstract store of groups; an operate needs a live selection of its
  own association, and a live selection is safe from the others; name lists are complete and end; data sets of clients stay within their bounds. A
  buffered report block loses nothing silently as long as no client repositions or purges its buffer, a reserved block belongs to one association, no change
  that is asked for is missed, and a client reassembles from the PDUs of a report what the server reported. A log stays within its
  capacity and its control blocks show its range. A client and a server agree on the parameters
  of an association, or the client learns why it was refused; answers reach the calls that asked, in every interleaving, and no
  call is left waiting; a server answers a request once and keeps the order of the PDUs around it.

  \<^bold>\<open>Time and concurrency.\<close> Clocks are arguments. What the code does under one lock is one step; goroutines
  and timers are steps that may happen at any moment, with the identity they were started with.

  \<^bold>\<open>Not modelled.\<close> Sockets and files (I/O); TLS, certificates and the other cryptography of \<^verbatim>\<open>iec62351\<close> and
  \<^verbatim>\<open>gdoi\<close> (library code); the XML of \<^verbatim>\<open>scl\<close>; the branches of \<^verbatim>\<open>mms\<close> for end-to-end security and the A-profile,
  which call that cryptography; the text forms of values;
  the answer to a query of a journal; the \<^verbatim>\<open>client\<close> front end; tools and examples.
\<close>

end
